(* ===== verification/Quil_Prelude.thy ===== *)
theory Quil_Prelude
  imports Main "HOL-Library.Word" "HOL-Library.Sublist"
begin

text \<open>
  What every component theory shares: the outcome type that makes a Go panic a value, Go's
  \<open>copy\<close>, the suffix operation behind every bounded log, and the generic lemmas on lists and
  maps the component proofs use. Nothing here models a particular source file.
\<close>

section \<open>Types shared by the components\<close>

type_synonym byte = "8 word"
type_synonym u64 = "64 word"

text \<open>
  A Go function that may dereference nil or index out of range returns an \<open>outcome\<close>: the panic
  is a value, so that \<open>it never panics\<close> is a theorem and not a convention.
\<close>

datatype 'a outcome = Panic | Ret 'a

definition obind :: "'a outcome \<Rightarrow> ('a \<Rightarrow> 'b outcome) \<Rightarrow> 'b outcome" where
  "obind x f = (case x of Panic \<Rightarrow> Panic | Ret a \<Rightarrow> f a)"

lemma obind_simps [simp]: "obind Panic f = Panic" "obind (Ret a) f = f a"
  by (simp_all add: obind_def)

lemma obind_eq_Ret: "obind x f = Ret b \<longleftrightarrow> (\<exists>a. x = Ret a \<and> f a = Ret b)"
  by (cases x) auto

lemma not_Panic_iff: "x \<noteq> Panic \<longleftrightarrow> (\<exists>a. x = Ret a)"
  by (cases x) auto

section \<open>The last elements of a list\<close>

definition last_n :: "nat \<Rightarrow> 'a list \<Rightarrow> 'a list" where
  "last_n n xs = drop (length xs - n) xs"

lemma length_last_n [simp]: "length (last_n n xs) = min n (length xs)"
  by (simp add: last_n_def)

lemma last_n_all [simp]: "length xs \<le> n \<Longrightarrow> last_n n xs = xs"
  by (simp add: last_n_def)

lemma last_n_0 [simp]: "last_n 0 xs = []"
  by (simp add: last_n_def)

lemma last_n_append_last_n [simp]: "last_n n (last_n n xs @ ys) = last_n n (xs @ ys)"
  by (cases "n \<le> length xs") (auto simp: last_n_def, (rule arg_cong [where f = "\<lambda>k. drop k xs"], arith)+)

lemma last_n_append_long: "n \<le> length ys \<Longrightarrow> last_n n (xs @ ys) = last_n n ys"
  by (simp add: last_n_def)

lemma last_n_last_n [simp]: "last_n m (last_n n xs) = last_n (min m n) xs"
  by (cases "n \<le> length xs"; cases "m \<le> n")
    (auto simp: last_n_def min_def intro!: arg_cong [where f = "\<lambda>k. drop k xs"])

lemma nth_last_n: "i < min n (length xs) \<Longrightarrow> last_n n xs ! i = xs ! (length xs - min n (length xs) + i)"
  by (auto simp: last_n_def min_def split: if_splits)

lemma suffix_last_n: "suffix (last_n n xs) xs"
  by (simp add: last_n_def suffix_drop)

section \<open>Go's copy\<close>

text \<open>\<open>copy(dst, src)\<close> overwrites the first \<open>min (len dst) (len src)\<close> elements of \<open>dst\<close>.\<close>

definition go_copy :: "'a list \<Rightarrow> 'a list \<Rightarrow> 'a list" where
  "go_copy dst src = take (length dst) src @ drop (length src) dst"

lemma length_go_copy [simp]: "length (go_copy dst src) = length dst"
  by (simp add: go_copy_def)

lemma go_copy_long: "length dst \<le> length src \<Longrightarrow> go_copy dst src = take (length dst) src"
  by (simp add: go_copy_def)

lemma go_copy_short: "length src \<le> length dst \<Longrightarrow> go_copy dst src = src @ drop (length src) dst"
  by (simp add: go_copy_def)

lemma nth_go_copy:
  "i < length dst \<Longrightarrow> go_copy dst src ! i = (if i < length src then src ! i else dst ! i)"
  by (auto simp: go_copy_def nth_append min_def)

section \<open>List edits\<close>

text \<open>Replace the first occurrence of \<open>x\<close> by the list \<open>ys\<close>.\<close>

fun replace_first :: "'a \<Rightarrow> 'a list \<Rightarrow> 'a list \<Rightarrow> 'a list" where
  "replace_first x ys [] = []"
| "replace_first x ys (z # zs) = (if z = x then ys @ zs else z # replace_first x ys zs)"

lemma replace_first_notin [simp]: "x \<notin> set zs \<Longrightarrow> replace_first x ys zs = zs"
  by (induction zs) auto

lemma replace_first_append:
  "replace_first x ys (as @ bs) =
    (if x \<in> set as then replace_first x ys as @ bs else as @ replace_first x ys bs)"
  by (induction as) auto

lemma set_replace_first: "x \<in> set zs \<Longrightarrow> distinct zs \<Longrightarrow>
    set (replace_first x ys zs) = set ys \<union> (set zs - {x})"
  by (induction zs) auto

lemma distinct_replace_first:
  "distinct zs \<Longrightarrow> distinct ys \<Longrightarrow> set ys \<inter> (set zs - {x}) = {} \<Longrightarrow> distinct (replace_first x ys zs)"
proof (induction zs)
  case (Cons z zs)
  then show ?case
    by (cases "x \<in> set zs") (auto simp: set_replace_first)
qed simp

lemma in_replace_first: "y \<in> set ys \<Longrightarrow> y \<notin> set zs \<Longrightarrow>
    y \<in> set (replace_first x ys zs) \<longleftrightarrow> x \<in> set zs"
  by (induction zs) auto

text \<open>Drop every element of \<open>S\<close> and every repetition.\<close>

fun dedup :: "'a set \<Rightarrow> 'a list \<Rightarrow> 'a list" where
  "dedup S [] = []"
| "dedup S (x # xs) = (if x \<in> S then dedup S xs else x # dedup (insert x S) xs)"

lemma set_dedup [simp]: "set (dedup S xs) = set xs - S"
  by (induction xs arbitrary: S) auto

lemma distinct_dedup [simp]: "distinct (dedup S xs)"
  by (induction xs arbitrary: S) auto

lemma dedup_id: "distinct xs \<Longrightarrow> set xs \<inter> S = {} \<Longrightarrow> dedup S xs = xs"
  by (induction xs arbitrary: S) auto

text \<open>A filter whose predicate is a closure with a state.\<close>

fun filter_st :: "('a \<Rightarrow> 's \<Rightarrow> bool \<times> 's) \<Rightarrow> 'a list \<Rightarrow> 's \<Rightarrow> 'a list \<times> 's" where
  "filter_st keep [] st = ([], st)"
| "filter_st keep (x # xs) st =
     (case keep x st of (k, st') \<Rightarrow> case filter_st keep xs st' of (ys, st'') \<Rightarrow>
       ((if k then x # ys else ys), st''))"

lemma filter_st_append:
  "filter_st keep (xs @ ys) st =
    (case filter_st keep xs st of (us, st') \<Rightarrow> case filter_st keep ys st' of (vs, st'') \<Rightarrow> (us @ vs, st''))"
  by (induction xs arbitrary: st) (auto split: prod.splits)

lemma filter_st_stateless: "filter_st (\<lambda>p u. (keep p, u)) xs st = (filter keep xs, st)"
  by (induction xs) auto

lemma length_filter_st: "filter_st keep xs st = (ys, st') \<Longrightarrow> length ys \<le> length xs"
proof (induction xs arbitrary: st ys st')
  case (Cons x xs)
  from Cons.prems obtain k st1 zs where
    "filter_st keep xs st1 = (zs, st')" "ys = (if k then x # zs else zs)"
    by (auto split: prod.splits)
  then show ?case using Cons.IH by (auto intro: le_SucI)
qed simp

section \<open>ASCII case\<close>

definition ascii_lower :: "char \<Rightarrow> char" where
  "ascii_lower c = (let n = of_char c :: nat in if 65 \<le> n \<and> n \<le> 90 then char_of (n + 32) else c)"

section \<open>Decimal numbers\<close>

text \<open>What \<open>%d\<close> and \<open>strconv.Itoa\<close> print for a natural number.\<close>

fun decimal :: "nat \<Rightarrow> string" where
  "decimal n = (if n < 10 then [char_of (48 + n)] else decimal (n div 10) @ [char_of (48 + n mod 10)])"

declare decimal.simps [simp del]

definition digits_value :: "string \<Rightarrow> nat" where
  "digits_value s = foldl (\<lambda>acc c. 10 * acc + (of_char c - 48)) 0 s"

lemma digits_value_snoc: "digits_value (s @ [c]) = 10 * digits_value s + (of_char c - 48)"
  by (simp add: digits_value_def)

lemma of_char_digit: "d < 10 \<Longrightarrow> (of_char (char_of (48 + d) :: char) :: nat) = 48 + d"
  by (simp add: of_char_of)

lemma digits_value_decimal [simp]: "digits_value (decimal n) = n"
proof (induction n rule: decimal.induct)
  case (1 n)
  show ?case
  proof (cases "n < 10")
    case True
    then show ?thesis by (subst decimal.simps) (simp add: digits_value_def of_char_digit)
  next
    case False
    with 1 show ?thesis
      by (subst decimal.simps) (simp add: digits_value_snoc of_char_digit)
  qed
qed

lemma decimal_inj: "decimal m = decimal n \<Longrightarrow> m = n"
  by (metis digits_value_decimal)

lemma decimal_digits: "c \<in> set (decimal n) \<Longrightarrow> \<exists>d < 10. c = char_of (48 + d :: nat)"
proof (induction n rule: decimal.induct)
  case (1 n)
  show ?case
  proof (cases "n < 10")
    case True
    with "1.prems" have "c = char_of (48 + n)" by (subst (asm) decimal.simps) simp
    with True show ?thesis by blast
  next
    case False
    with "1.prems" have "c \<in> set (decimal (n div 10)) \<or> c = char_of (48 + n mod 10)"
      by (subst (asm) decimal.simps) auto
    moreover have "n mod 10 < 10" by simp
    ultimately show ?thesis using "1.IH" False by blast
  qed
qed

lemma decimal_nonempty [simp]: "decimal n \<noteq> []"
  by (subst decimal.simps) simp

section \<open>White space\<close>

text \<open>The UTF-8 encodings of the code points \<open>unicode.IsSpace\<close> accepts, and \<open>strings.TrimSpace\<close>.\<close>

definition space_codes :: "nat list list" where
  "space_codes = [[9], [10], [11], [12], [13], [32], [194, 133], [194, 160], [225, 154, 128]]
      @ map (\<lambda>k. [226, 128, k]) [128, 129, 130, 131, 132, 133, 134, 135, 136, 137, 138, 168, 169, 175]
      @ [[226, 129, 159], [227, 128, 128]]"

definition space_seqs :: "string list" where
  "space_seqs = map (map char_of) space_codes"

lemma space_codes_bounds: "\<forall>ns \<in> set space_codes. \<forall>n \<in> set ns. n < 256 \<and> n \<noteq> 40 \<and> n \<noteq> 41"
  by (simp add: space_codes_def)

function trim_left :: "string list \<Rightarrow> string \<Rightarrow> string" where
  "trim_left ws s = (case find (\<lambda>w. w \<noteq> [] \<and> prefix w s) ws of
     None \<Rightarrow> s | Some w \<Rightarrow> trim_left ws (drop (length w) s))"
  by auto

termination
proof (relation "measure (\<lambda>(ws, s). length s)")
  fix ws w and s :: string
  assume "find (\<lambda>w. w \<noteq> [] \<and> prefix w s) ws = Some w"
  then have "w \<noteq> []" "prefix w s" by (auto simp: find_Some_iff)
  then have "0 < length w" "length w \<le> length s" by (auto dest: prefix_length_le)
  then have "length s - length w < length s" by linarith
  then show "((ws, drop (length w) s), (ws, s)) \<in> measure (\<lambda>(ws, s). length s)" by simp
qed simp

declare trim_left.simps [simp del]

definition TrimSpace :: "string \<Rightarrow> string" where
  "TrimSpace s = rev (trim_left (map rev space_seqs) (rev (trim_left space_seqs s)))"

section \<open>Remainders by cases\<close>

text \<open>Index arithmetic modulo a variable length, turned into linear cases.\<close>

lemma min_mod_add [simp]: "min c (x mod c) + (c - x mod c) = (c::nat)"
  using mod_less_divisor [of c x] by (cases "c = 0") (auto simp: min_def simp del: mod_less_divisor)

lemma mod_lt_2:
  assumes "(n::nat) < 2 * c"
  obtains "n < c" "n mod c = n" | "c \<le> n" "n mod c = n - c" "n - c < c"
  using assms by (cases "n < c") (auto simp: le_mod_geq)

lemma mod_lt_3:
  assumes "(n::nat) < 3 * c"
  obtains "n < c" "n mod c = n" | "c \<le> n" "n mod c = n - c" "n - c < c"
    | "2 * c \<le> n" "n mod c = n - 2 * c" "n - 2 * c < c"
proof (cases "n < 2 * c")
  case True
  then show ?thesis by (rule mod_lt_2) (use that in auto)
next
  case False
  with assms have "n mod c = n - 2 * c" by (simp add: le_mod_geq)
  with False assms show ?thesis using that by auto
qed

end
