(* ===== verification/Ring_Buffer.thy ===== *)
theory Ring_Buffer
  imports Quil_Prelude
begin

text \<open>
  The circular byte buffer that holds each pane's recent output
  (\<open>internal/ringbuf/ringbuf.go\<close>): a fixed backing array, the index of the oldest byte, the
  number of bytes stored and a generation counter. The mutex makes every method one atomic step,
  so each method is a function of the buffer's state. The contract \<open>bounded_log\<close> is what the
  output path relies on: the buffer is the last \<open>cap\<close> bytes of everything written to it.
\<close>

section \<open>State and operations\<close>

record ring =
  rb_buf :: "byte list"
  rb_start :: nat
  rb_size :: nat
  rb_gen :: u64

definition NewRingBuffer :: "int \<Rightarrow> ring" where
  "NewRingBuffer capacity =
     (let capacity' = (if capacity \<le> 0 then 1 else capacity)
      in \<lparr>rb_buf = replicate (nat capacity') 0, rb_start = 0, rb_size = 0, rb_gen = 0\<rparr>)"

definition ring_write :: "byte list \<Rightarrow> ring \<Rightarrow> ring" where
  "ring_write p rb =
     (if p = [] then rb
      else let rb = rb\<lparr>rb_gen := rb_gen rb + 1\<rparr>; c = length (rb_buf rb)
      in if c \<le> length p
         then rb\<lparr>rb_buf := go_copy (rb_buf rb) (drop (length p - c) p), rb_start := 0, rb_size := c\<rparr>
         else let e = (rb_start rb + rb_size rb) mod c;
                  buf1 = take e (rb_buf rb) @ go_copy (drop e (rb_buf rb)) p;
                  n = min (length (drop e (rb_buf rb))) (length p);
                  buf2 = (if n < length p then go_copy buf1 (drop n p) else buf1);
                  size' = rb_size rb + length p
              in if c < size'
                 then rb\<lparr>rb_buf := buf2, rb_start := (rb_start rb + size' - c) mod c, rb_size := c\<rparr>
                 else rb\<lparr>rb_buf := buf2, rb_size := size'\<rparr>)"

definition tailLocked :: "ring \<Rightarrow> int \<Rightarrow> byte list" where
  "tailLocked rb n =
     (if n \<le> 0 then []
      else let k = nat n; out = replicate k 0; c = length (rb_buf rb);
               first = (rb_start rb + rb_size rb - k) mod c;
               m = min k (length (drop first (rb_buf rb)));
               out1 = go_copy out (drop first (rb_buf rb))
           in if m < k then take m out1 @ go_copy (drop m out1) (rb_buf rb) else out1)"

definition ring_bytes :: "ring \<Rightarrow> byte list" where
  "ring_bytes rb = tailLocked rb (int (rb_size rb))"

definition ring_tail :: "ring \<Rightarrow> int \<Rightarrow> byte list" where
  "ring_tail rb n = tailLocked rb (if n > int (rb_size rb) then int (rb_size rb) else n)"

definition ring_len :: "ring \<Rightarrow> nat" where
  "ring_len rb = rb_size rb"

definition ring_gen :: "ring \<Rightarrow> u64" where
  "ring_gen rb = rb_gen rb"

definition ring_reset :: "ring \<Rightarrow> ring" where
  "ring_reset rb = rb\<lparr>rb_start := 0, rb_size := 0, rb_gen := rb_gen rb + 1\<rparr>"

section \<open>Representation invariant and abstraction\<close>

definition ring_inv :: "ring \<Rightarrow> bool" where
  "ring_inv rb \<longleftrightarrow> rb_start rb < length (rb_buf rb) \<and> rb_size rb \<le> length (rb_buf rb)"

definition ring_contents :: "ring \<Rightarrow> byte list" where
  "ring_contents rb =
     map (\<lambda>i. rb_buf rb ! ((rb_start rb + i) mod length (rb_buf rb))) [0..<rb_size rb]"

lemma length_ring_contents [simp]: "length (ring_contents rb) = rb_size rb"
  by (simp add: ring_contents_def)

lemma ring_inv_New: "ring_inv (NewRingBuffer capacity)"
  by (simp add: ring_inv_def NewRingBuffer_def Let_def)

lemma ring_contents_New [simp]: "ring_contents (NewRingBuffer capacity) = []"
  by (simp add: ring_contents_def NewRingBuffer_def Let_def)

lemma ring_cap_New: "length (rb_buf (NewRingBuffer capacity)) = nat (max 1 capacity)"
  by (simp add: NewRingBuffer_def Let_def max_def)

lemma ring_cap_write [simp]: "length (rb_buf (ring_write p rb)) = length (rb_buf rb)"
  by (simp add: ring_write_def Let_def)

lemma ring_cap_reset [simp]: "length (rb_buf (ring_reset rb)) = length (rb_buf rb)"
  by (simp add: ring_reset_def)

lemma ring_inv_write: "ring_inv rb \<Longrightarrow> ring_inv (ring_write p rb)"
  by (cases "rb_buf rb = []") (auto simp: ring_inv_def ring_write_def Let_def)

lemma ring_inv_reset: "ring_inv rb \<Longrightarrow> ring_inv (ring_reset rb)"
  by (auto simp: ring_inv_def ring_reset_def)

subsection \<open>The two copies of a write that wraps\<close>

text \<open>The backing array after a write of fewer than \<open>c\<close> bytes at offset \<open>e\<close>.\<close>

definition ring_splice :: "byte list \<Rightarrow> nat \<Rightarrow> byte list \<Rightarrow> byte list" where
  "ring_splice buf e p =
     (let buf1 = take e buf @ go_copy (drop e buf) p; n = min (length (drop e buf)) (length p)
      in if n < length p then go_copy buf1 (drop n p) else buf1)"

lemma ring_write_short:
  assumes "p \<noteq> []" "length p < length (rb_buf rb)"
  shows "ring_write p rb =
    (let c = length (rb_buf rb); size' = rb_size rb + length p;
         rb' = rb\<lparr>rb_gen := rb_gen rb + 1,
                 rb_buf := ring_splice (rb_buf rb) ((rb_start rb + rb_size rb) mod c) p\<rparr>
     in if c < size' then rb'\<lparr>rb_start := (rb_start rb + size' - c) mod c, rb_size := c\<rparr>
        else rb'\<lparr>rb_size := size'\<rparr>)"
  using assms by (simp add: ring_write_def ring_splice_def Let_def)

lemma length_ring_splice [simp]: "e \<le> length buf \<Longrightarrow> length (ring_splice buf e p) = length buf"
  by (simp add: ring_splice_def Let_def)

lemma nth_ring_splice:
  assumes "k < length buf" "e < length buf" "length p < length buf"
  shows "ring_splice buf e p ! k =
    (if e \<le> k then if k - e < length p then p ! (k - e) else buf ! k
     else if k + length buf - e < length p then p ! (k + length buf - e) else buf ! k)"
  using assms
  by (auto simp: ring_splice_def Let_def nth_go_copy nth_append min_def ac_simps
      intro!: arg_cong [where f = "(!) p"])

lemma ring_splice_read:
  assumes c: "c = length buf" and s: "s < c" and z: "z \<le> c" and p: "length p < c"
    and j: "j < z + length p" "z + length p \<le> j + c"
  shows "ring_splice buf ((s + z) mod c) p ! ((s + j) mod c) =
    (if j < z then buf ! ((s + j) mod c) else p ! (j - z))"
proof -
  have "s + z < 2 * c" "s + j < 3 * c" using s z p j by auto
  moreover have "(s + z) mod c < c" "(s + j) mod c < c" using s by auto
  ultimately show ?thesis
    by (elim mod_lt_2 mod_lt_3)
      (use c s z p j in \<open>auto simp: nth_ring_splice intro!: arg_cong [where f = "(!) p"]\<close>)
qed

lemma ring_contents_nth:
  "i < rb_size rb \<Longrightarrow>
    ring_contents rb ! i = rb_buf rb ! ((rb_start rb + i) mod length (rb_buf rb))"
  by (simp add: ring_contents_def)

lemma ring_contents_write:
  assumes inv: "ring_inv rb"
  shows "ring_contents (ring_write p rb) = last_n (length (rb_buf rb)) (ring_contents rb @ p)"
proof -
  let ?c = "length (rb_buf rb)" and ?s = "rb_start rb" and ?z = "rb_size rb"
  from inv have s: "?s < ?c" and z: "?z \<le> ?c" by (auto simp: ring_inv_def)
  consider "p = []" | "?c \<le> length p" "p \<noteq> []" | "p \<noteq> []" "length p < ?c" by linarith
  then show ?thesis
  proof cases
    case 1
    with z show ?thesis by (simp add: ring_write_def)
  next
    case 2
    then have "ring_contents (ring_write p rb) = map ((!) (last_n ?c p)) [0..<?c]"
      by (auto simp: ring_contents_def ring_write_def Let_def go_copy_long last_n_def)
    also have "\<dots> = last_n ?c p" using 2 by (metis length_last_n map_nth min.absorb1)
    finally show ?thesis using 2 by (simp add: last_n_append_long)
  next
    case 3
    let ?rb = "ring_write p rb" and ?N = "?z + length p" and ?R = "last_n ?c (ring_contents rb @ p)"
    have size: "rb_size ?rb = min ?c ?N" using 3 by (simp add: ring_write_short Let_def min_def)
    show ?thesis
    proof (rule nth_equalityI)
      show "length (ring_contents ?rb) = length ?R" by (simp add: size)
    next
      fix i assume i: "i < length (ring_contents ?rb)"
      define j where j_def: "j = ?N - min ?c ?N + i"
      have j: "j < ?N" "?N \<le> j + ?c" using i by (auto simp: size j_def)
      have pos: "(rb_start ?rb + i) mod ?c = (?s + j) mod ?c"
        using 3 by (auto simp: ring_write_short Let_def min_def mod_simps ac_simps j_def)
      have "ring_contents ?rb ! i = rb_buf ?rb ! ((rb_start ?rb + i) mod ?c)"
        using i by (simp add: ring_contents_nth)
      also have "\<dots> = ring_splice (rb_buf rb) ((?s + ?z) mod ?c) p ! ((?s + j) mod ?c)"
        unfolding pos using 3 by (simp add: ring_write_short Let_def)
      also have "\<dots> = (ring_contents rb @ p) ! j"
        using ring_splice_read [OF refl s z _ j] 3 by (simp add: ring_contents_nth nth_append)
      also have "\<dots> = ?R ! i"
        using i by (simp add: nth_last_n size j_def)
      finally show "ring_contents ?rb ! i = ?R ! i" .
    qed
  qed
qed


subsection \<open>Reading back\<close>

definition two_copies :: "byte list \<Rightarrow> nat \<Rightarrow> nat \<Rightarrow> byte list" where
  "two_copies buf k f =
     (let m = min k (length (drop f buf)); out = go_copy (replicate k 0) (drop f buf)
      in if m < k then take m out @ go_copy (drop m out) buf else out)"

lemma length_two_copies [simp]: "length (two_copies buf k f) = k"
  by (simp add: two_copies_def Let_def)

lemma nth_two_copies:
  assumes "i < k" "k \<le> length buf" "f < length buf"
  shows "two_copies buf k f ! i = buf ! ((f + i) mod length buf)"
proof (cases "f + i < length buf")
  case True
  with assms show ?thesis
    by (auto simp: two_copies_def Let_def nth_append nth_go_copy min_def)
next
  case False
  with assms have "(f + i) mod length buf = i - (length buf - f)"
    by (simp add: le_mod_geq)
  moreover have "i - (length buf - f)
      < length (drop (length buf - f) (go_copy (replicate k 0) (drop f buf)))"
    and "i - (length buf - f) < length buf"
    using False assms by auto
  note nth_go_copy [OF this(1), of buf] this(2)
  ultimately show ?thesis
    using False assms by (auto simp: two_copies_def Let_def nth_append min_def)
qed

lemma tailLocked_last_n:
  assumes inv: "ring_inv rb" and n: "n \<le> int (rb_size rb)"
  shows "tailLocked rb n = last_n (nat n) (ring_contents rb)"
proof (cases "n \<le> 0")
  case True
  then show ?thesis by (simp add: tailLocked_def)
next
  case False
  define k where "k = nat n"
  let ?c = "length (rb_buf rb)" and ?f = "(rb_start rb + rb_size rb - k) mod length (rb_buf rb)"
  have k: "0 < k" "k \<le> rb_size rb" using False n by (auto simp: k_def)
  from inv have c: "rb_start rb < ?c" "rb_size rb \<le> ?c" by (auto simp: ring_inv_def)
  have f: "?f < ?c" using c by (intro mod_less_divisor) auto
  have "tailLocked rb n = two_copies (rb_buf rb) k ?f"
    using False by (simp add: tailLocked_def two_copies_def Let_def k_def)
  also have "\<dots> = last_n k (ring_contents rb)"
  proof (rule nth_equalityI)
    show "length (two_copies (rb_buf rb) k ?f) = length (last_n k (ring_contents rb))"
      using k by simp
  next
    fix i assume "i < length (two_copies (rb_buf rb) k ?f)"
    then have i: "i < k" by simp
    have "(rb_start rb + (rb_size rb - k + i)) mod ?c = (?f + i) mod ?c"
      using k by (simp add: mod_simps add.assoc)
    then have "last_n k (ring_contents rb) ! i = rb_buf rb ! ((?f + i) mod ?c)"
      using i k by (simp add: nth_last_n ring_contents_nth add.assoc)
    with i k c f show "two_copies (rb_buf rb) k ?f ! i = last_n k (ring_contents rb) ! i"
      by (simp add: nth_two_copies)
  qed
  finally show ?thesis by (simp add: k_def)
qed

lemma ring_bytes_contents: "ring_inv rb \<Longrightarrow> ring_bytes rb = ring_contents rb"
  by (simp add: ring_bytes_def tailLocked_last_n)

lemma ring_tail_last_n: "ring_inv rb \<Longrightarrow> ring_tail rb n = last_n (nat n) (ring_contents rb)"
  by (auto simp: ring_tail_def tailLocked_last_n)

lemma ring_contents_reset [simp]: "ring_contents (ring_reset rb) = []"
  by (simp add: ring_contents_def ring_reset_def)

lemma ring_size_le: "ring_inv rb \<Longrightarrow> rb_size rb \<le> length (rb_buf rb)"
  by (simp add: ring_inv_def)

section \<open>The contract of a bounded log\<close>

text \<open>
  What the daemon's output path (attach replay, search, snapshot) uses of the buffer: it may
  be written and reset, and read as the most recent bytes. The client lemmas are proved from
  these laws only.
\<close>

locale bounded_log =
  fixes cap :: "'b \<Rightarrow> nat"
    and contents :: "'b \<Rightarrow> byte list"
    and inv :: "'b \<Rightarrow> bool"
    and put :: "byte list \<Rightarrow> 'b \<Rightarrow> 'b"
    and reset :: "'b \<Rightarrow> 'b"
  assumes contents_put: "inv b \<Longrightarrow> contents (put p b) = last_n (cap b) (contents b @ p)"
    and inv_put: "inv b \<Longrightarrow> inv (put p b)"
    and cap_put: "cap (put p b) = cap b"
    and contents_reset: "contents (reset b) = []"
    and inv_reset: "inv b \<Longrightarrow> inv (reset b)"
    and cap_reset: "cap (reset b) = cap b"
    and bounded: "inv b \<Longrightarrow> length (contents b) \<le> cap b"
begin

lemma writes_inv: "inv b \<Longrightarrow> inv (fold put ps b)"
  by (induction ps arbitrary: b) (auto intro: inv_put)

lemma writes_contents:
  "inv b \<Longrightarrow> contents (fold put ps b) = last_n (cap b) (contents b @ concat ps)"
proof (induction ps arbitrary: b)
  case Nil
  then show ?case by (simp add: bounded)
next
  case (Cons p ps)
  then show ?case by (simp add: inv_put cap_put contents_put)
qed

text \<open>How the bytes were cut into writes is not observable.\<close>

lemma chunking: "inv b \<Longrightarrow> concat ps = concat qs \<Longrightarrow>
    contents (fold put ps b) = contents (fold put qs b)"
  by (simp add: writes_contents)

lemma reset_writes: "inv b \<Longrightarrow> contents (fold put ps (reset b)) = last_n (cap b) (concat ps)"
  by (simp add: writes_contents inv_reset contents_reset cap_reset)

end

interpretation rlog: bounded_log "\<lambda>rb. length (rb_buf rb)" ring_contents ring_inv ring_write ring_reset
  by unfold_locales (simp_all add: ring_contents_write ring_inv_write ring_inv_reset ring_size_le)

section \<open>Mutation histories\<close>

datatype ring_op = Write_op "byte list" | Reset_op

fun ring_apply :: "ring_op \<Rightarrow> ring \<Rightarrow> ring" where
  "ring_apply (Write_op p) rb = ring_write p rb"
| "ring_apply Reset_op rb = ring_reset rb"

definition mutates :: "ring_op \<Rightarrow> bool" where
  "mutates x \<longleftrightarrow> x \<noteq> Write_op []"

lemma ring_gen_apply: "ring_gen (ring_apply x rb) = ring_gen rb + (if mutates x then 1 else 0)"
  by (cases x) (auto simp: ring_gen_def ring_write_def ring_reset_def mutates_def Let_def)

lemma ring_apply_idle: "\<not> mutates x \<Longrightarrow> ring_apply x rb = rb"
  by (cases x) (auto simp: mutates_def ring_write_def)

lemma ring_gen_fold: "ring_gen (fold ring_apply xs rb) = ring_gen rb + of_nat (length (filter mutates xs))"
  by (induction xs arbitrary: rb) (auto simp: ring_gen_apply)

lemma ring_fold_idle: "filter mutates xs = [] \<Longrightarrow> fold ring_apply xs rb = rb"
  by (induction xs arbitrary: rb) (auto simp: ring_apply_idle split: if_splits)

section \<open>Properties\<close>


text \<open>The generation counter detects every change: if fewer than \<open>2 ^ 64\<close> mutations separate two
  reads and the generations are equal, nothing was mutated, so the contents are identical.
\<close>

theorem ring_equal_gen_equal_contents:
  assumes "length (filter mutates xs) < 2 ^ 64"
    and "ring_gen (fold ring_apply xs rb) = ring_gen rb"
  shows "fold ring_apply xs rb = rb"
proof -
  from assms(2) have "(of_nat (length (filter mutates xs)) :: u64) = 0"
    by (simp add: ring_gen_fold)
  with assms(1) have "filter mutates xs = []"
    by (simp add: word_of_nat_eq_0_iff dvd_imp_le) (metis dvd_imp_le length_0_conv linorder_not_le neq0_conv)
  then show ?thesis by (rule ring_fold_idle)
qed

theorem ring_equal_gen_equal_contents_witness:
  "fold ring_apply [Write_op []] (ring_write [7] (NewRingBuffer 4)) = ring_write [7] (NewRingBuffer 4)"
  by (rule ring_equal_gen_equal_contents) (simp_all add: mutates_def ring_gen_def ring_write_def)

end
