(* ===== verification/Layout_Tree.thy ===== *)
theory Layout_Tree
  imports Quil_Prelude Complex_Main "HOL-Library.Multiset"
begin

text \<open>
  The id-based core of a tab's pane layout (\<open>internal/layouttree\<close>): the binary split tree that
  the daemon stores and every client draws. A \<open>*Node\<close> is a \<open>node option\<close>, nil is \<open>None\<close>.
  Every exported function clones its input first, so a mutation through a pointer is a
  replacement in the fresh copy.

  A \<open>float64\<close> ratio is the rational it denotes: the code only builds ratios by one division,
  copies them and compares them with 0 and 1. A \<open>json.RawMessage\<close> is modelled by the JSON value
  its bytes spell (\<open>raw_message\<close>), with the decoding rules of \<open>encoding/json\<close> for \<open>Node\<close>
  written out: folded field names, null, repeated keys, integer and type errors.
\<close>

section \<open>Nodes\<close>

type_synonym SplitDir = int

abbreviation Horizontal :: SplitDir where "Horizontal \<equiv> 0"
abbreviation Vertical :: SplitDir where "Vertical \<equiv> 1"

datatype node = Node
  (PaneID: string) (Split: "SplitDir option") (Ratio: rat)
  (Left: "node option") (Right: "node option")

abbreviation leaf :: "string \<Rightarrow> node" where
  "leaf p \<equiv> Node p None 0 None None"

abbreviation zero_node :: node where
  "zero_node \<equiv> Node [] None 0 None None"

definition Equal :: "node option \<Rightarrow> node option \<Rightarrow> bool" where
  "Equal a b \<longleftrightarrow> a = b"

fun Clone :: "node option \<Rightarrow> node option" where
  "Clone None = None"
| "Clone (Some (Node p s r l rt)) =
     Some (Node p
       (if p = [] then Some (case s of None \<Rightarrow> Horizontal | Some d \<Rightarrow> d)
        else (case s of None \<Rightarrow> None | Some d \<Rightarrow> Some d))
       r (Clone l) (Clone rt))"

fun PaneIDs :: "node option \<Rightarrow> string list" where
  "PaneIDs None = []"
| "PaneIDs (Some (Node p s r l rt)) = (if p \<noteq> [] then [p] else PaneIDs l @ PaneIDs rt)"

fun findLeaf :: "node option \<Rightarrow> string \<Rightarrow> node option" where
  "findLeaf None i = None"
| "findLeaf (Some (Node p s r l rt)) i =
     (if p \<noteq> [] then (if p = i then Some (Node p s r l rt) else None)
      else (case findLeaf l i of Some n \<Rightarrow> Some n | None \<Rightarrow> findLeaf rt i))"

definition Contains :: "node option \<Rightarrow> string \<Rightarrow> bool" where
  "Contains n i \<longleftrightarrow> findLeaf n i \<noteq> None"

text \<open>Assignment through the pointer \<open>findLeaf\<close> returns.\<close>

fun setLeaf :: "node option \<Rightarrow> string \<Rightarrow> (node \<Rightarrow> node) \<Rightarrow> node option" where
  "setLeaf None i f = None"
| "setLeaf (Some (Node p s r l rt)) i f =
     (if p \<noteq> [] then Some (if p = i then f (Node p s r l rt) else Node p s r l rt)
      else if findLeaf l i \<noteq> None then Some (Node p s r (setLeaf l i f) rt)
      else Some (Node p s r l (setLeaf rt i f)))"

definition inner :: "SplitDir \<Rightarrow> rat \<Rightarrow> node option \<Rightarrow> node option \<Rightarrow> node" where
  "inner dir ratio l r = Node [] (Some dir) ratio l r"

text \<open>\<open>keep\<close> is a Go closure and may have a state (\<open>Sanitize\<close>'s \<open>seen\<close>); leaves are visited in
  tree order.\<close>

fun pruneWhere :: "(string \<Rightarrow> 's \<Rightarrow> bool \<times> 's) \<Rightarrow> node option \<Rightarrow> 's \<Rightarrow> node option \<times> 's" where
  "pruneWhere keep None st = (None, st)"
| "pruneWhere keep (Some (Node p s r l rt)) st =
     (if p \<noteq> [] then
        (case keep p st of (k, st') \<Rightarrow> (if k then Some (Node p s r l rt) else None, st'))
      else
        (case pruneWhere keep l st of (l', st1) \<Rightarrow>
         case pruneWhere keep rt st1 of (r', st2) \<Rightarrow>
           (if l' = None \<and> r' = None then (None, st2)
            else if l' = None then (r', st2)
            else if r' = None then (l', st2)
            else (Some (Node p s r l' r'), st2))))"

definition pruneIf :: "(string \<Rightarrow> bool) \<Rightarrow> node option \<Rightarrow> node option" where
  "pruneIf keep n = fst (pruneWhere (\<lambda>p u. (keep p, u)) n ())"

section \<open>Operations\<close>

definition SplitLeaf :: "node option \<Rightarrow> string \<Rightarrow> SplitDir \<Rightarrow> string \<Rightarrow> node option \<times> bool" where
  "SplitLeaf tree target dir newID =
     (let out = Clone tree in
      case findLeaf out target of
        None \<Rightarrow> (out, False)
      | Some l \<Rightarrow>
          (setLeaf out target (\<lambda>_. inner dir (1/2) (Some (leaf target)) (Some (leaf newID))), True))"

definition Substitute :: "node option \<Rightarrow> string \<Rightarrow> string \<Rightarrow> node option \<times> bool" where
  "Substitute tree oldID newID =
     (let out = Clone tree in
      case findLeaf out oldID of
        None \<Rightarrow> (out, False)
      | Some l \<Rightarrow> (setLeaf out oldID (\<lambda>n. Node newID (Split n) (Ratio n) (Left n) (Right n)), True))"

definition Prune :: "node option \<Rightarrow> string \<Rightarrow> node option \<times> bool" where
  "Prune tree i =
     (if \<not> Contains tree i then (Clone tree, False)
      else (pruneIf (\<lambda>p. p \<noteq> i) (Clone tree), True))"

text \<open>\<open>PlaceMoved\<close>'s walk: the last leaf in tree order and its parent.\<close>

fun lastLeaf :: "node option \<Rightarrow> node option \<Rightarrow> (node \<times> node option) option \<Rightarrow> (node \<times> node option) option" where
  "lastLeaf None parent acc = acc"
| "lastLeaf (Some (Node p s r l rt)) parent acc =
     (if p \<noteq> [] then Some (Node p s r l rt, parent)
      else lastLeaf rt (Some (Node p s r l rt)) (lastLeaf l (Some (Node p s r l rt)) acc))"

text \<open>Assignment through the pointer \<open>last\<close>.\<close>

fun setLast :: "node option \<Rightarrow> (node \<Rightarrow> node) \<Rightarrow> node option" where
  "setLast None f = None"
| "setLast (Some (Node p s r l rt)) f =
     (if p \<noteq> [] then Some (f (Node p s r l rt))
      else if lastLeaf rt None None \<noteq> None then Some (Node p s r l (setLast rt f))
      else Some (Node p s r (setLast l f) rt))"

definition PlaceMoved :: "node option \<Rightarrow> string \<Rightarrow> node option" where
  "PlaceMoved tree i =
     (let out = Clone tree in
      if out = None then Some (leaf i)
      else if Contains out i then out
      else case lastLeaf out None None of
          None \<Rightarrow> Some (leaf i)
        | Some (lst, lastParent) \<Rightarrow>
            (let dir = (case lastParent of
                 None \<Rightarrow> Horizontal
               | Some par \<Rightarrow> if Split par = Some Horizontal then Vertical else Horizontal)
             in setLast out (\<lambda>n. inner dir (1/2) (Some (leaf (PaneID n))) (Some (leaf i)))))"

definition keep_first :: "string \<Rightarrow> string set \<Rightarrow> bool \<times> string set" where
  "keep_first i seen = (if i \<in> seen then (False, seen) else (True, insert i seen))"

fun fixRatios :: "node option \<Rightarrow> node option" where
  "fixRatios None = None"
| "fixRatios (Some (Node p s r l rt)) =
     (if p \<noteq> [] then Some (Node p s r l rt)
      else Some (Node p s (if r \<le> 0 \<or> r \<ge> 1 then 1/2 else r) (fixRatios l) (fixRatios rt)))"

definition Sanitize :: "node option \<Rightarrow> node option" where
  "Sanitize tree = fixRatios (fst (pruneWhere keep_first (Clone tree) {}))"

section \<open>Normalize and the template layouts\<close>

text \<open>\<open>panes[0]\<close> of an empty slice panics.\<close>

fun stack :: "string list \<Rightarrow> SplitDir \<Rightarrow> node option outcome" where
  "stack [] dir = Panic"
| "stack [p] dir = Ret (Some (leaf p))"
| "stack (p # q # ps) dir =
     obind (stack (q # ps) dir) (\<lambda>rest.
       Ret (Some (inner dir (1 / of_nat (length (p # q # ps))) (Some (leaf p)) rest)))"

definition Template :: "string \<Rightarrow> string list \<Rightarrow> int \<Rightarrow> node option outcome" where
  "Template keyword panes main =
     (if panes = [] then Ret None
      else if length panes = 1 then Ret (Some (leaf (hd panes)))
      else let m = (if main < 0 \<or> main \<ge> int (length panes) then 0 else nat main) in
        if keyword = ''columns'' then stack panes Horizontal
        else if keyword = ''main-left'' \<or> keyword = ''main-top'' then
          (let rest = take m panes @ drop (m + 1) panes;
               (dir, other) = (if keyword = ''main-top'' then (Vertical, Horizontal)
                               else (Horizontal, Vertical))
           in obind (stack rest other) (\<lambda>r.
                Ret (Some (inner dir (1/2) (Some (leaf (panes ! m))) r))))
        else if keyword = ''grid'' then
          (let pairs = length panes div 2 in
           obind (stack (take pairs panes) Vertical) (\<lambda>a.
           obind (stack (take (2 * pairs - pairs) (drop pairs panes)) Vertical) (\<lambda>b.
             let top = inner Horizontal (1/2) a b in
             if length panes mod 2 = 0 then Ret (Some top)
             else Ret (Some (inner Vertical (of_nat pairs / of_nat (pairs + 1)) (Some top)
                    (Some (leaf (panes ! (length panes - 1)))))))))
        else stack panes Vertical)"

text \<open>The arrival rule: \<open>for first.PaneID == "" { first = first.Left }\<close> panics on a nil child.\<close>

fun splitFirst :: "node option \<Rightarrow> string \<Rightarrow> node option outcome" where
  "splitFirst None i = Panic"
| "splitFirst (Some (Node p s r l rt)) i =
     (if p \<noteq> [] then Ret (Some (inner Vertical (1/2) (Some (leaf p)) (Some (leaf i))))
      else obind (splitFirst l i) (\<lambda>l'. Ret (Some (Node p s r l' rt))))"

fun placeMissing :: "string list \<Rightarrow> string set \<Rightarrow> node option \<Rightarrow> node option outcome" where
  "placeMissing [] present tree = Ret tree"
| "placeMissing (i # is) present tree =
     (if i \<in> present then placeMissing is present tree
      else if tree = None then placeMissing is (insert i present) (Some (leaf i))
      else obind (splitFirst tree i) (placeMissing is (insert i present)))"

text \<open>The index of the last pane equal to \<open>x\<close>, or -1.\<close>

definition last_index :: "string \<Rightarrow> string list \<Rightarrow> int" where
  "last_index x xs = fold (\<lambda>(k, y) m. if y = x then int k else m) (enumerate 0 xs) (-1)"

definition Normalize :: "node option \<Rightarrow> string list \<Rightarrow> string \<Rightarrow> string \<Rightarrow> node option outcome" where
  "Normalize stored panes templateKeyword templateMain =
     (if panes = [] then Ret None
      else let main = last_index templateMain panes in
        if stored = None \<and> templateKeyword \<noteq> [] \<and> main \<ge> 0
        then Template templateKeyword panes main
        else let tree = pruneIf (\<lambda>i. i \<in> set panes) (Clone stored)
             in placeMissing panes (set (PaneIDs tree)) tree)"

section \<open>Leaves\<close>

text \<open>Every function recurses as \<open>Clone\<close> does, so its induction rule serves them all.\<close>

lemmas node_induct = Clone.induct

lemma PaneIDs_leaf: "p \<noteq> [] \<Longrightarrow> PaneIDs (Some (Node p s r l rt)) = [p]"
  by simp

lemma PaneIDs_nonempty: "p \<in> set (PaneIDs n) \<Longrightarrow> p \<noteq> []"
  by (induction n rule: node_induct) (auto split: if_splits)

lemma Nil_notin_PaneIDs [simp]: "[] \<notin> set (PaneIDs n)"
  using PaneIDs_nonempty by blast

lemma PaneIDs_Clone [simp]: "PaneIDs (Clone n) = PaneIDs n"
  by (induction n rule: node_induct) auto

lemma Clone_eq_None [simp]: "Clone n = None \<longleftrightarrow> n = None"
  by (cases n rule: Clone.cases) auto

lemma Clone_Clone [simp]: "Clone (Clone n) = Clone n"
  by (induction n rule: node_induct) (auto split: option.splits)

lemma PaneIDs_inner [simp]: "PaneIDs (Some (inner d r l rt)) = PaneIDs l @ PaneIDs rt"
  by (simp add: inner_def)

lemma findLeaf_eq_None [simp]: "findLeaf n i = None \<longleftrightarrow> i \<notin> set (PaneIDs n)"
  by (induction n rule: node_induct) (auto split: option.splits)

lemma findLeaf_Some: "findLeaf n i = Some m \<Longrightarrow> PaneID m = i"
  by (induction n rule: node_induct) (auto split: option.splits if_splits)

lemma Contains_iff: "Contains n i \<longleftrightarrow> i \<in> set (PaneIDs n)"
  by (simp add: Contains_def)

lemma PaneIDs_setLeaf:
  assumes "\<And>m. PaneID m = i \<Longrightarrow> PaneIDs (Some (f m)) = ys"
  shows "PaneIDs (setLeaf n i f) = replace_first i ys (PaneIDs n)"
  using assms by (induction n rule: node_induct) (auto simp: replace_first_append)

lemma setLeaf_eq_None [simp]: "setLeaf n i f = None \<longleftrightarrow> n = None"
  by (cases n rule: Clone.cases) auto

subsection \<open>Pruning\<close>

text \<open>Pruning a tree prunes its leaf list with the same closure, left to right.\<close>

lemma pruneWhere_leaves:
  "(PaneIDs (fst (pruneWhere keep n st)), snd (pruneWhere keep n st)) = filter_st keep (PaneIDs n) st"
proof (induction n arbitrary: st rule: node_induct)
  case (2 p s r l rt)
  show ?case
  proof (cases "p = []")
    case True
    obtain l' st1 where l: "pruneWhere keep l st = (l', st1)" by fastforce
    obtain r' st2 where r: "pruneWhere keep rt st1 = (r', st2)" by fastforce
    have "filter_st keep (PaneIDs l) st = (PaneIDs l', st1)" using "2.IH"(1) [of st] l by simp
    moreover have "filter_st keep (PaneIDs rt) st1 = (PaneIDs r', st2)" using "2.IH"(2) [of st1] r by simp
    ultimately show ?thesis using True l r by (simp add: filter_st_append)
  qed (simp split: prod.splits)
qed simp

lemma PaneIDs_pruneIf [simp]: "PaneIDs (pruneIf keep n) = filter keep (PaneIDs n)"
  using pruneWhere_leaves [of "\<lambda>p u. (keep p, u)" n "()"]
  by (simp add: pruneIf_def filter_st_stateless prod_eq_iff)

lemma pruneIf_simps:
  "pruneIf keep None = None"
  "p \<noteq> [] \<Longrightarrow> pruneIf keep (Some (Node p s r l rt)) = (if keep p then Some (Node p s r l rt) else None)"
  "pruneIf keep (Some (Node [] s r l rt)) =
    (if pruneIf keep l = None then pruneIf keep rt
     else if pruneIf keep rt = None then pruneIf keep l
     else Some (Node [] s r (pruneIf keep l) (pruneIf keep rt)))"
  by (auto simp: pruneIf_def split: prod.splits)

section \<open>Shape\<close>

text \<open>An inner node has both children: what every walk to the first leaf needs.\<close>

fun full :: "node option \<Rightarrow> bool" where
  "full None \<longleftrightarrow> True"
| "full (Some (Node p s r l rt)) \<longleftrightarrow> p \<noteq> [] \<or> (l \<noteq> None \<and> rt \<noteq> None \<and> full l \<and> full rt)"

text \<open>A tree whose leaves carry a pane id only and whose inner nodes have both children and a
  split of Horizontal or Vertical; \<open>valid_tree\<close> adds that every ratio lies strictly between 0
  and 1.\<close>

fun shaped :: "node option \<Rightarrow> bool" where
  "shaped None \<longleftrightarrow> True"
| "shaped (Some (Node p s r l rt)) \<longleftrightarrow>
     (if p \<noteq> [] then s = None \<and> r = 0 \<and> l = None \<and> rt = None
      else (s = Some Horizontal \<or> s = Some Vertical) \<and> l \<noteq> None \<and> rt \<noteq> None \<and> shaped l \<and> shaped rt)"

fun ratios_ok :: "node option \<Rightarrow> bool" where
  "ratios_ok None \<longleftrightarrow> True"
| "ratios_ok (Some (Node p s r l rt)) \<longleftrightarrow>
     p \<noteq> [] \<or> (0 < r \<and> r < 1 \<and> ratios_ok l \<and> ratios_ok rt)"

definition valid_tree :: "node option \<Rightarrow> bool" where
  "valid_tree n \<longleftrightarrow> shaped n \<and> ratios_ok n"

lemma shaped_full: "shaped n \<Longrightarrow> full n"
  by (induction n rule: node_induct) auto

lemma valid_full: "valid_tree n \<Longrightarrow> full n"
  by (simp add: valid_tree_def shaped_full)

lemma full_leaves: "full n \<Longrightarrow> PaneIDs n = [] \<longleftrightarrow> n = None"
  by (induction n rule: node_induct) auto

lemma shaped_Clone: "shaped n \<Longrightarrow> Clone n = n"
  by (induction n rule: node_induct) (auto split: if_splits)

lemma valid_Clone: "valid_tree n \<Longrightarrow> Clone n = n"
  by (simp add: valid_tree_def shaped_Clone)

lemma pruneWhere_full: "full (fst (pruneWhere keep n st))"
proof (induction n arbitrary: st rule: node_induct)
  case (2 p s r l rt)
  then show ?case by (auto split: prod.splits) (metis fst_conv)+
qed simp

lemma pruneIf_full [simp]: "full (pruneIf keep n)"
  by (simp add: pruneIf_def pruneWhere_full)

lemma pruneIf_eq_None: "pruneIf keep n = None \<longleftrightarrow> filter keep (PaneIDs n) = []"
  using full_leaves [OF pruneIf_full, of keep n] by simp

lemma pruneWhere_shaped: "shaped n \<Longrightarrow> shaped (fst (pruneWhere keep n st))"
proof (induction n arbitrary: st rule: node_induct)
  case (2 p s r l rt)
  then show ?case by (auto split: prod.splits if_splits) (metis fst_conv)+
qed simp

lemma pruneWhere_ratios: "ratios_ok n \<Longrightarrow> ratios_ok (fst (pruneWhere keep n st))"
proof (induction n arbitrary: st rule: node_induct)
  case (2 p s r l rt)
  then show ?case by (auto split: prod.splits if_splits) (metis fst_conv)+
qed simp

lemma pruneIf_valid: "valid_tree n \<Longrightarrow> valid_tree (pruneIf keep n)"
  by (simp add: valid_tree_def pruneIf_def pruneWhere_shaped pruneWhere_ratios)

text \<open>Pruning keeps a tree none of whose leaves it refuses.\<close>

lemma pruneWhere_id:
  assumes "full n" "filter_st keep (PaneIDs n) st = (PaneIDs n, st')"
  shows "pruneWhere keep n st = (n, st')"
  using assms
proof (induction n arbitrary: st st' rule: node_induct)
  case (2 p s r l rt)
  show ?case
  proof (cases "p = []")
    case True
    obtain us st1 where u: "filter_st keep (PaneIDs l) st = (us, st1)" by fastforce
    obtain vs st2 where v: "filter_st keep (PaneIDs rt) st1 = (vs, st2)" by fastforce
    have "us @ vs = PaneIDs l @ PaneIDs rt" "st2 = st'"
      using True u v "2.prems"(2) by (auto simp: filter_st_append)
    moreover have "length us \<le> length (PaneIDs l)" "length vs \<le> length (PaneIDs rt)"
      using length_filter_st [OF u] length_filter_st [OF v] by auto
    ultimately have "us = PaneIDs l" "vs = PaneIDs rt" "st2 = st'"
      by (auto simp: append_eq_append_conv_if split: if_splits)
    with u v True "2.IH" "2.prems"(1) show ?thesis by auto
  next
    case False
    with "2.prems" show ?thesis by (auto split: prod.splits if_splits)
  qed
qed simp

lemma pruneIf_id: "full n \<Longrightarrow> (\<And>p. p \<in> set (PaneIDs n) \<Longrightarrow> keep p) \<Longrightarrow> pruneIf keep n = n"
  by (simp add: pruneIf_def pruneWhere_id [where st' = "()"] filter_st_stateless)

section \<open>What the operations do to the leaves\<close>

lemma findLeaf_case:
  "(case findLeaf n i of None \<Rightarrow> a | Some l \<Rightarrow> b) = (if i \<in> set (PaneIDs n) then b else a)"
  using findLeaf_eq_None [of n i] by (auto split: option.split simp del: findLeaf_eq_None)

lemma SplitLeaf_absent: "target \<notin> set (PaneIDs t) \<Longrightarrow> SplitLeaf t target dir new = (Clone t, False)"
  by (simp add: SplitLeaf_def Let_def findLeaf_case)

lemma snd_SplitLeaf: "snd (SplitLeaf t target dir new) \<longleftrightarrow> target \<in> set (PaneIDs t)"
  by (simp add: SplitLeaf_def Let_def findLeaf_case)

lemma PaneIDs_SplitLeaf:
  assumes "target \<in> set (PaneIDs t)" "new \<noteq> []"
  shows "PaneIDs (fst (SplitLeaf t target dir new)) = replace_first target [target, new] (PaneIDs t)"
  using assms PaneIDs_nonempty [OF assms(1)]
  by (simp add: SplitLeaf_def Let_def findLeaf_case PaneIDs_setLeaf [where ys = "[target, new]"])

lemma Substitute_absent: "old \<notin> set (PaneIDs t) \<Longrightarrow> Substitute t old new = (Clone t, False)"
  by (simp add: Substitute_def Let_def findLeaf_case)

lemma snd_Substitute: "snd (Substitute t old new) \<longleftrightarrow> old \<in> set (PaneIDs t)"
  by (simp add: Substitute_def Let_def findLeaf_case)

lemma PaneIDs_Substitute:
  "new \<noteq> [] \<Longrightarrow> PaneIDs (fst (Substitute t old new)) = replace_first old [new] (PaneIDs t)"
  by (simp add: Substitute_def Let_def findLeaf_case PaneIDs_setLeaf [where ys = "[new]"])

lemma snd_Prune: "snd (Prune t i) \<longleftrightarrow> i \<in> set (PaneIDs t)"
  by (simp add: Prune_def Contains_iff)

lemma PaneIDs_Prune [simp]: "PaneIDs (fst (Prune t i)) = filter (\<lambda>p. p \<noteq> i) (PaneIDs t)"
  by (auto simp: Prune_def Contains_iff filter_id_conv intro!: sym [OF filter_True])

lemma lastLeaf_acc:
  "lastLeaf n par acc = (if PaneIDs n = [] then acc else lastLeaf n par None)"
proof (induction n arbitrary: par acc rule: node_induct)
  case (2 p s r l rt)
  show ?case
  proof (cases "p = []")
    case True
    then show ?thesis
      using "2.IH"(1) [of _ acc] "2.IH"(2) [of _ "lastLeaf l _ acc"] "2.IH"(2) [of _ "lastLeaf l _ None"]
      by (metis "2.IH" PaneIDs.simps(2) append_is_Nil_conv lastLeaf.simps(2))
  qed simp
qed simp

lemma lastLeaf_None: "lastLeaf n par None = None \<longleftrightarrow> PaneIDs n = []"
proof (induction n arbitrary: par rule: node_induct)
  case (2 p s r l rt)
  then show ?case
    by (cases "p = []") (simp_all add: lastLeaf_acc [of rt _ "lastLeaf l _ None"])
qed simp

lemma lastLeaf_Some: "lastLeaf n par None = Some (m, q) \<Longrightarrow> PaneID m = last (PaneIDs n) \<and> PaneID m \<noteq> []"
proof (induction n arbitrary: par rule: node_induct)
  case (2 p s r l rt)
  then show ?case
    by (cases "p = []"; cases "PaneIDs rt = []")
      (auto simp: lastLeaf_acc [of rt _ "lastLeaf l _ None"])
qed simp

lemma PaneIDs_setLast:
  assumes "\<And>m. PaneID m \<noteq> [] \<Longrightarrow> PaneIDs (Some (f m)) = [PaneID m, i]" "PaneIDs n \<noteq> []"
  shows "PaneIDs (setLast n f) = PaneIDs n @ [i]"
  using assms(2)
proof (induction n rule: node_induct)
  case (2 p s r l rt)
  then show ?case
    by (cases "p = []") (auto simp: assms(1) lastLeaf_None)
qed simp

lemma PaneIDs_PlaceMoved:
  assumes "i \<noteq> []"
  shows "PaneIDs (PlaceMoved t i) = (if i \<in> set (PaneIDs t) then PaneIDs t else PaneIDs t @ [i])"
proof (cases "PaneIDs t = []")
  case True
  then have "lastLeaf (Clone t) None None = None" by (simp add: lastLeaf_None)
  with True assms show ?thesis by (simp add: PlaceMoved_def Let_def Contains_iff)
next
  case False
  then have "t \<noteq> None" by (cases t) auto
  from False obtain m q where "lastLeaf (Clone t) None None = Some (m, q)"
    using lastLeaf_None [of "Clone t" None] by (cases "lastLeaf (Clone t) None None") auto
  with False assms \<open>t \<noteq> None\<close> show ?thesis
    by (auto simp: PlaceMoved_def Let_def Contains_iff PaneIDs_setLast)
qed

lemma filter_st_keep_first: "filter_st keep_first xs S = (dedup S xs, S \<union> set xs)"
  by (induction xs arbitrary: S) (auto simp: keep_first_def)

lemma PaneIDs_fixRatios [simp]: "PaneIDs (fixRatios n) = PaneIDs n"
  by (induction n rule: node_induct) auto

lemma PaneIDs_Sanitize [simp]: "PaneIDs (Sanitize t) = dedup {} (PaneIDs t)"
  using pruneWhere_leaves [of keep_first "Clone t" "{}"]
  by (simp add: Sanitize_def filter_st_keep_first prod_eq_iff)

subsection \<open>Arrival\<close>

lemma splitFirst_Ret:
  assumes "full t" "t \<noteq> None" "i \<noteq> []"
  shows "\<exists>t'. splitFirst t i = Ret t' \<and> full t' \<and> t' \<noteq> None
    \<and> PaneIDs t' = hd (PaneIDs t) # i # tl (PaneIDs t) \<and> (valid_tree t \<longrightarrow> valid_tree t')"
  using assms
proof (induction t rule: node_induct)
  case (2 p s r l rt)
  show ?case
  proof (cases "p = []")
    case True
    with "2.prems" have "full l" "l \<noteq> None" by auto
    with "2.IH"(1) "2.prems"(3) obtain l' where l': "splitFirst l i = Ret l'" "full l'" "l' \<noteq> None"
      "PaneIDs l' = hd (PaneIDs l) # i # tl (PaneIDs l)" "valid_tree l \<longrightarrow> valid_tree l'" by auto
    have "PaneIDs l \<noteq> []" using \<open>full l\<close> \<open>l \<noteq> None\<close> by (simp add: full_leaves)
    with True l' "2.prems" show ?thesis by (auto simp: valid_tree_def)
  next
    case False
    with "2.prems" show ?thesis by (auto simp: valid_tree_def inner_def)
  qed
qed simp

text \<open>Panes the tree lacks go in right behind the first leaf, each once.\<close>

lemma placeMissing_Ret:
  assumes "full t" "[] \<notin> set is" "set (PaneIDs t) \<subseteq> S"
  shows "\<exists>t'. placeMissing is S t = Ret t' \<and> full t'
    \<and> set (PaneIDs t') = set (PaneIDs t) \<union> (set is - S)
    \<and> (distinct (PaneIDs t) \<longrightarrow> distinct (PaneIDs t')) \<and> (valid_tree t \<longrightarrow> valid_tree t')"
  using assms
proof (induction "is" arbitrary: t S)
  case (Cons i ys)
  consider "i \<in> S" | "i \<notin> S" "t = None" | "i \<notin> S" "t \<noteq> None" by blast
  then show ?case
  proof cases
    case 1
    with Cons.prems Cons.IH [of t S] show ?thesis by (auto simp: insert_absorb Diff_insert)
  next
    case 2
    with Cons.prems Cons.IH [of "Some (leaf i)" "insert i S"]
    obtain t' where "placeMissing ys (insert i S) (Some (leaf i)) = Ret t'" "full t'"
      "set (PaneIDs t') = insert i (set ys - insert i S)" "distinct (PaneIDs t')" "valid_tree t'"
      by (auto simp: valid_tree_def)
    with 2 Cons.prems show ?thesis by auto
  next
    case 3
    with Cons.prems obtain u where u: "splitFirst t i = Ret u" "full u"
      "PaneIDs u = hd (PaneIDs t) # i # tl (PaneIDs t)" "valid_tree t \<longrightarrow> valid_tree u"
      using splitFirst_Ret [of t i] by auto
    have ne: "PaneIDs t \<noteq> []" using 3 Cons.prems by (simp add: full_leaves)
    then have su: "set (PaneIDs u) = insert i (set (PaneIDs t))"
      using u(3) by (cases "PaneIDs t") auto
    have du: "distinct (PaneIDs t) \<longrightarrow> distinct (PaneIDs u)"
      using u(3) ne 3 Cons.prems by (cases "PaneIDs t") auto
    have "set (PaneIDs u) \<subseteq> insert i S" using su Cons.prems(3) by auto
    with Cons.IH [of u "insert i S"] u(2) Cons.prems(2)
    obtain t' where "placeMissing ys (insert i S) u = Ret t'" "full t'"
      "set (PaneIDs t') = set (PaneIDs u) \<union> (set ys - insert i S)"
      "distinct (PaneIDs u) \<longrightarrow> distinct (PaneIDs t')" "valid_tree u \<longrightarrow> valid_tree t'"
      by auto
    with 3 u(1,4) su du show ?thesis by auto
  qed
qed simp

lemma placeMissing_none: "set is \<subseteq> S \<Longrightarrow> placeMissing is S t = Ret t"
  by (induction "is") auto

section \<open>Validity is kept\<close>

lemma valid_leaf [simp]: "p \<noteq> [] \<Longrightarrow> valid_tree (Some (leaf p))"
  by (simp add: valid_tree_def)

lemma valid_None [simp]: "valid_tree None"
  by (simp add: valid_tree_def)

lemma valid_Node: "valid_tree (Some (Node [] s r l rt)) \<longleftrightarrow>
    (s = Some Horizontal \<or> s = Some Vertical) \<and> l \<noteq> None \<and> rt \<noteq> None \<and> 0 < r \<and> r < 1
    \<and> valid_tree l \<and> valid_tree rt"
  by (auto simp: valid_tree_def)

lemma valid_inner: "valid_tree (Some (inner d r l rt)) \<longleftrightarrow>
    (d = Horizontal \<or> d = Vertical) \<and> l \<noteq> None \<and> rt \<noteq> None \<and> 0 < r \<and> r < 1
    \<and> valid_tree l \<and> valid_tree rt"
  by (simp add: inner_def valid_Node)

lemma valid_node: "p \<noteq> [] \<Longrightarrow> valid_tree (Some (Node p s r l rt)) \<longleftrightarrow> s = None \<and> r = 0 \<and> l = None \<and> rt = None"
  by (auto simp: valid_tree_def)

lemma setLeaf_valid:
  assumes "\<And>m. valid_tree (Some m) \<Longrightarrow> PaneID m = i \<Longrightarrow> valid_tree (Some (f m))"
  shows "valid_tree n \<Longrightarrow> valid_tree (setLeaf n i f)"
proof (induction n rule: node_induct)
  case (2 p s r l rt)
  show ?case
  proof (cases "p = []")
    case True
    with 2 show ?thesis by (simp add: valid_Node)
  next
    case False
    with "2.prems" assms [of "Node p s r l rt"] show ?thesis by simp
  qed
qed simp

lemma SplitLeaf_valid:
  assumes "valid_tree t" "new \<noteq> []" "dir = Horizontal \<or> dir = Vertical"
  shows "valid_tree (fst (SplitLeaf t target dir new))"
proof (cases "target \<in> set (PaneIDs t)")
  case True
  with PaneIDs_nonempty have "target \<noteq> []" by blast
  with assms True show ?thesis
    by (simp add: SplitLeaf_def Let_def findLeaf_case valid_Clone setLeaf_valid valid_inner)
qed (use assms in \<open>simp add: SplitLeaf_absent valid_Clone\<close>)

lemma Substitute_valid:
  assumes "valid_tree t" "new \<noteq> []"
  shows "valid_tree (fst (Substitute t old new))"
proof (cases "old \<in> set (PaneIDs t)")
  case True
  have "old \<noteq> []" using True PaneIDs_nonempty by blast
  have "valid_tree (Some (Node new (Split m) (Ratio m) (Left m) (Right m)))"
    if "valid_tree (Some m)" "PaneID m = old" for m
    using that assms(2) \<open>old \<noteq> []\<close> by (cases m) (simp add: valid_node)
  with True assms show ?thesis
    by (simp add: Substitute_def Let_def findLeaf_case valid_Clone setLeaf_valid)
qed (use assms in \<open>simp add: Substitute_absent valid_Clone\<close>)

lemma Prune_valid: "valid_tree t \<Longrightarrow> valid_tree (fst (Prune t i))"
  by (simp add: Prune_def valid_Clone pruneIf_valid)

lemma setLast_valid:
  assumes "\<And>m. valid_tree (Some m) \<Longrightarrow> PaneID m \<noteq> [] \<Longrightarrow> valid_tree (Some (f m))"
  shows "valid_tree n \<Longrightarrow> valid_tree (setLast n f)"
proof (induction n rule: node_induct)
  case (2 p s r l rt)
  show ?case
  proof (cases "p = []")
    case True
    moreover have "setLast x f \<noteq> None \<longleftrightarrow> x \<noteq> None" for x
      by (cases x rule: Clone.cases) auto
    ultimately show ?thesis using 2 by (auto simp: valid_Node)
  next
    case False
    with "2.prems" assms [of "Node p s r l rt"] show ?thesis by simp
  qed
qed simp

lemma PlaceMoved_valid:
  assumes "valid_tree t" "i \<noteq> []"
  shows "valid_tree (PlaceMoved t i)"
proof -
  have "valid_tree (setLast t (\<lambda>n. inner dir (1/2) (Some (leaf (PaneID n))) (Some (leaf i))))"
    if "dir = Horizontal \<or> dir = Vertical" for dir
    using that assms by (intro setLast_valid) (auto simp: valid_inner)
  with assms show ?thesis
    by (auto simp: PlaceMoved_def Let_def valid_Clone split: option.splits)
qed

lemma fixRatios_shaped: "shaped n \<Longrightarrow> shaped (fixRatios n)"
proof (induction n rule: node_induct)
  case (2 p s r l rt)
  moreover have "fixRatios x = None \<longleftrightarrow> x = None" for x
    by (cases x rule: Clone.cases) auto
  ultimately show ?case by auto
qed simp

lemma fixRatios_ratios: "ratios_ok (fixRatios n)"
  by (induction n rule: node_induct) auto

lemma fixRatios_id: "ratios_ok n \<Longrightarrow> fixRatios n = n"
  by (induction n rule: node_induct) auto

lemma Sanitize_valid: "shaped t \<Longrightarrow> valid_tree (Sanitize t)"
  by (simp add: Sanitize_def valid_tree_def fixRatios_ratios fixRatios_shaped pruneWhere_shaped shaped_Clone)

lemma Sanitize_id: "valid_tree t \<Longrightarrow> distinct (PaneIDs t) \<Longrightarrow> Sanitize t = t"
  by (simp add: Sanitize_def valid_Clone pruneWhere_id [where st' = "set (PaneIDs t)"] valid_full
      filter_st_keep_first dedup_id fixRatios_id valid_tree_def)

subsection \<open>Templates\<close>

lemma stack_Ret:
  assumes "ps \<noteq> []" "[] \<notin> set ps" "dir = Horizontal \<or> dir = Vertical"
  shows "\<exists>t. stack ps dir = Ret t \<and> t \<noteq> None \<and> PaneIDs t = ps \<and> valid_tree t"
  using assms
proof (induction ps dir rule: stack.induct)
  case (3 p q ps dir)
  then obtain t where "stack (q # ps) dir = Ret t" "t \<noteq> None" "PaneIDs t = q # ps" "valid_tree t"
    by auto
  with 3 show ?case by (auto simp: valid_inner)
qed auto

lemma Template_Ret:
  assumes "panes \<noteq> []" "[] \<notin> set panes"
  shows "\<exists>t. Template kw panes main = Ret t \<and> t \<noteq> None \<and> mset (PaneIDs t) = mset panes \<and> valid_tree t"
proof (cases "length panes = 1")
  case True
  with assms show ?thesis by (auto simp: Template_def length_Suc_conv)
next
  case False
  define m where "m = (if main < 0 \<or> main \<ge> int (length panes) then 0 else nat main)"
  define rest where "rest = take m panes @ drop (Suc m) panes"
  define k where "k = length panes div 2"
  have len: "2 \<le> length panes" using False assms(1) by (cases panes; cases "tl panes") auto
  have m: "m < length panes" using assms(1) by (auto simp: m_def)
  have split_m: "panes = take m panes @ panes ! m # drop (Suc m) panes"
    using m by (simp add: id_take_nth_drop)
  have rest: "rest \<noteq> []" "[] \<notin> set rest" "mset panes = add_mset (panes ! m) (mset rest)"
    using len assms(2) m
    by (auto simp: rest_def dest: in_set_takeD in_set_dropD)
      (subst split_m, simp)
  have pm: "panes ! m \<noteq> []" using m assms(2) nth_mem by metis
  have k: "0 < k" "2 * k \<le> length panes" using len by (auto simp: k_def)
  have halves: "take k panes \<noteq> []" "take k (drop k panes) \<noteq> []"
    "[] \<notin> set (take k panes)" "[] \<notin> set (take k (drop k panes))"
    using k assms(2) by (auto dest: in_set_takeD in_set_dropD)
  obtain a where a: "stack (take k panes) Vertical = Ret a" "a \<noteq> None" "PaneIDs a = take k panes" "valid_tree a"
    using stack_Ret halves by blast
  obtain b where b: "stack (take k (drop k panes)) Vertical = Ret b" "b \<noteq> None"
    "PaneIDs b = take k (drop k panes)" "valid_tree b"
    using stack_Ret halves by blast
  obtain rh where rh: "stack rest Horizontal = Ret rh" "rh \<noteq> None" "PaneIDs rh = rest" "valid_tree rh"
    using stack_Ret rest by blast
  obtain rv where rv: "stack rest Vertical = Ret rv" "rv \<noteq> None" "PaneIDs rv = rest" "valid_tree rv"
    using stack_Ret rest by blast
  have both: "take k panes @ take k (drop k panes) = take (2 * k) panes"
    by (simp add: mult_2 take_add)
  consider "kw = ''columns''" | "kw = ''main-left''" | "kw = ''main-top''" | "kw = ''grid''"
    | "kw \<notin> {''columns'', ''main-left'', ''main-top'', ''grid''}" by blast
  then show ?thesis
  proof cases
    case 2
    then show ?thesis
      using False assms(1) rest rv pm
      by (simp add: Template_def Let_def valid_inner flip: m_def rest_def)
  next
    case 3
    then show ?thesis
      using False assms(1) rest rh pm
      by (simp add: Template_def Let_def valid_inner flip: m_def rest_def)
  next
    case 4
    have grid: "Template kw panes main =
      (if length panes mod 2 = 0 then Ret (Some (inner Horizontal (1/2) a b))
       else Ret (Some (inner Vertical (of_nat k / of_nat (k + 1)) (Some (inner Horizontal (1/2) a b))
                 (Some (leaf (panes ! (length panes - 1)))))))"
      using 4 False assms(1) a(1) b(1) by (simp add: Template_def Let_def flip: k_def)
    show ?thesis
    proof (cases "length panes mod 2 = 0")
      case True
      then have "take (2 * k) panes = panes" by (auto simp: k_def)
      with True grid a b both show ?thesis by (simp add: valid_inner flip: mset_append)
    next
      case odd: False
      then have "length panes = Suc (2 * k)" by (auto simp: k_def) arith
      then have "panes = take (2 * k) panes @ [panes ! (length panes - 1)]"
        by (metis take_Suc_conv_app_nth lessI diff_Suc_1 take_all order_refl)
      then have ms: "mset panes = add_mset (panes ! (length panes - 1)) (mset (take (2 * k) panes))"
        by (metis mset_append mset.simps(1,2) union_mset_add_mset_right add.right_neutral)
      have ne: "panes ! (length panes - 1) \<noteq> []"
        using len assms(2) by (metis diff_less nth_mem less_numeral_extra(1) assms(1) length_greater_0_conv)
      let ?t = "Some (inner Vertical (of_nat k / of_nat (k + 1)) (Some (inner Horizontal (1/2) a b))
                 (Some (leaf (panes ! (length panes - 1)))))"
      have "Template kw panes main = Ret ?t" using odd grid by simp
      moreover have "PaneIDs ?t = take (2 * k) panes @ [panes ! (length panes - 1)]"
        using a(3) b(3) ne both by simp
      moreover have "valid_tree ?t" using a b k(1) ne by (simp add: valid_inner)
      ultimately show ?thesis using ms by (intro exI [of _ ?t]) simp
    qed
  qed (use False assms stack_Ret [of panes] in \<open>auto simp: Template_def Let_def\<close>)
qed

subsection \<open>Normalize\<close>

text \<open>When a template layout applies.\<close>

definition template_case :: "node option \<Rightarrow> string list \<Rightarrow> string \<Rightarrow> string \<Rightarrow> bool" where
  "template_case stored panes kw main \<longleftrightarrow> stored = None \<and> kw \<noteq> [] \<and> last_index main panes \<ge> 0"

lemma Normalize_Nil [simp]: "Normalize stored [] kw main = Ret None"
  by (simp add: Normalize_def)

lemma Normalize_Ret:
  assumes "panes \<noteq> []" "[] \<notin> set panes"
  shows "\<exists>t. Normalize stored panes kw main = Ret t \<and> t \<noteq> None \<and> full t \<and> set (PaneIDs t) = set panes
    \<and> (distinct panes \<longrightarrow> distinct (PaneIDs stored) \<longrightarrow> distinct (PaneIDs t))
    \<and> (valid_tree stored \<longrightarrow> valid_tree t)"
proof (cases "template_case stored panes kw main")
  case True
  then obtain t where "Normalize stored panes kw main = Ret t" "t \<noteq> None" "mset (PaneIDs t) = mset panes"
      "valid_tree t"
    using Template_Ret [OF assms, of kw "last_index main panes"] assms(1)
    by (auto simp: Normalize_def template_case_def)
  then show ?thesis
    using valid_full by (auto dest: mset_eq_setD mset_eq_imp_distinct_iff)
next
  case False
  let ?t = "pruneIf (\<lambda>i. i \<in> set panes) (Clone stored)"
  have N: "Normalize stored panes kw main = placeMissing panes (set (PaneIDs ?t)) ?t"
    using False assms(1) by (auto simp: Normalize_def template_case_def Let_def)
  from placeMissing_Ret [of ?t panes "set (PaneIDs ?t)"] assms(2)
  obtain t where t: "placeMissing panes (set (PaneIDs ?t)) ?t = Ret t" "full t"
      "set (PaneIDs t) = set (PaneIDs ?t) \<union> (set panes - set (PaneIDs ?t))"
      "distinct (PaneIDs ?t) \<longrightarrow> distinct (PaneIDs t)" "valid_tree ?t \<longrightarrow> valid_tree t"
    by auto
  then have set: "set (PaneIDs t) = set panes" by auto
  have "t \<noteq> None"
  proof
    assume "t = None"
    with set assms(1) show False by simp
  qed
  with t set show ?thesis
    by (auto simp: N valid_Clone pruneIf_valid)
qed

lemma Normalize_id:
  assumes "valid_tree t" "set (PaneIDs t) = set panes" "t \<noteq> None"
  shows "Normalize t panes kw main = Ret t"
proof -
  have "PaneIDs t \<noteq> []" using assms by (simp add: full_leaves valid_full)
  then have "panes \<noteq> []" using assms(2) by auto
  moreover have "pruneIf (\<lambda>i. i \<in> set panes) t = t"
    using assms by (intro pruneIf_id) (auto simp: valid_full)
  ultimately show ?thesis
    using assms by (auto simp: Normalize_def Let_def valid_Clone placeMissing_none)
qed

section \<open>Undoing an edit\<close>

text \<open>Taking out the leaf an edit added gives the tree back, ratios and directions included.\<close>

lemma pruneIf_setLeaf:
  assumes "shaped t" "new \<notin> set (PaneIDs t)" "new \<noteq> []" "target \<noteq> []"
  shows "pruneIf (\<lambda>p. p \<noteq> new)
     (setLeaf t target (\<lambda>_. inner dir (1/2) (Some (leaf target)) (Some (leaf new)))) = t"
  using assms
proof (induction t rule: node_induct)
  case (2 p s r l rt)
  show ?case
  proof (cases "p = []")
    case True
    with "2.prems" have "pruneIf (\<lambda>p. p \<noteq> new) l = l" "pruneIf (\<lambda>p. p \<noteq> new) rt = rt"
      by (auto intro!: pruneIf_id simp: shaped_full)
    with True 2 show ?thesis by (auto simp: pruneIf_simps)
  next
    case False
    with "2.prems" show ?thesis by (auto simp: pruneIf_simps inner_def)
  qed
qed (simp add: pruneIf_simps)

lemma setLast_eq_None [simp]: "setLast n f = None \<longleftrightarrow> n = None"
  by (cases n rule: Clone.cases) auto

lemma pruneIf_setLast:
  assumes "shaped t" "i \<notin> set (PaneIDs t)" "i \<noteq> []"
  shows "pruneIf (\<lambda>p. p \<noteq> i)
     (setLast t (\<lambda>n. inner dir (1/2) (Some (leaf (PaneID n))) (Some (leaf i)))) = t"
  using assms
proof (induction t rule: node_induct)
  case (2 p s r l rt)
  show ?case
  proof (cases "p = []")
    case True
    with "2.prems" have "pruneIf (\<lambda>p. p \<noteq> i) l = l" "pruneIf (\<lambda>p. p \<noteq> i) rt = rt"
      by (auto intro!: pruneIf_id simp: shaped_full)
    with True 2 show ?thesis by (auto simp: pruneIf_simps)
  next
    case False
    with "2.prems" show ?thesis by (auto simp: pruneIf_simps inner_def)
  qed
qed (simp add: pruneIf_simps)

lemma setLeaf_setLeaf_Substitute:
  assumes "new \<notin> set (PaneIDs t)" "new \<noteq> []" "old \<noteq> []"
  shows "setLeaf (setLeaf t old (\<lambda>n. Node new (Split n) (Ratio n) (Left n) (Right n))) new
      (\<lambda>n. Node old (Split n) (Ratio n) (Left n) (Right n)) = t"
  using assms
proof (induction t rule: node_induct)
  case (2 p s r l rt)
  have "PaneIDs (setLeaf x old (\<lambda>n. Node new (Split n) (Ratio n) (Left n) (Right n)))
      = replace_first old [new] (PaneIDs x)" for x
    using "2.prems"(2) by (intro PaneIDs_setLeaf) simp
  moreover have "new \<in> set (replace_first old [new] zs)" if "old \<in> set zs" for zs :: "string list"
    using that by (induction zs) auto
  ultimately show ?case using 2 by auto
qed simp

lemma Clone_setLeaf:
  assumes "Clone t = t" "\<And>m. Clone (Some (f m)) = Some (f m)"
  shows "Clone (setLeaf t i f) = setLeaf t i f"
  using assms by (induction t rule: node_induct) auto

lemma PlaceMoved_absent:
  assumes "valid_tree t" "i \<notin> set (PaneIDs t)" "t \<noteq> None"
  obtains dir where "PlaceMoved t i = setLast t (\<lambda>n. inner dir (1/2) (Some (leaf (PaneID n))) (Some (leaf i)))"
proof -
  have "lastLeaf t None None \<noteq> None"
    using assms by (simp add: lastLeaf_None full_leaves valid_full)
  then obtain lst par where "lastLeaf t None None = Some (lst, par)" by fastforce
  with assms show thesis
    by (intro that [of "case par of None \<Rightarrow> Horizontal
          | Some q \<Rightarrow> if Split q = Some Horizontal then Vertical else Horizontal"])
      (simp add: PlaceMoved_def Let_def valid_Clone Contains_iff)
qed

lemma Clone_pruneWhere: "Clone n = n \<Longrightarrow> Clone (fst (pruneWhere keep n st)) = fst (pruneWhere keep n st)"
proof (induction n arbitrary: st rule: node_induct)
  case (2 p s r l rt)
  then show ?case by (auto split: prod.splits if_splits) (metis fst_conv)+
qed simp

lemma Clone_fixRatios: "Clone n = n \<Longrightarrow> Clone (fixRatios n) = fixRatios n"
  by (induction n rule: node_induct) auto

lemma fixRatios_full: "full n \<Longrightarrow> full (fixRatios n)"
proof (induction n rule: node_induct)
  case (2 p s r l rt)
  moreover have "fixRatios x = None \<longleftrightarrow> x = None" for x
    by (cases x rule: Clone.cases) auto
  ultimately show ?case by auto
qed simp

lemma Sanitize_Sanitize: "Sanitize (Sanitize t) = Sanitize t"
proof -
  let ?u = "fst (pruneWhere keep_first (Clone t) {})"
  let ?v = "fixRatios ?u"
  have cl: "Clone ?v = ?v" by (simp add: Clone_pruneWhere Clone_fixRatios)
  have full: "full ?v" by (simp add: pruneWhere_full fixRatios_full)
  have "distinct (PaneIDs ?v)" using PaneIDs_Sanitize [of t] by (simp add: Sanitize_def)
  then have "pruneWhere keep_first ?v {} = (?v, set (PaneIDs ?v))"
    using full by (intro pruneWhere_id) (simp_all add: filter_st_keep_first dedup_id)
  then show ?thesis by (simp add: Sanitize_def cl fixRatios_id fixRatios_ratios)
qed

section \<open>The contract the daemon relies on\<close>

text \<open>
  What the session store assumes of a pane tree: a leaf list, and three edits whose effect on it
  is known. Its facts about panes that move between tabs follow from the contract alone.
\<close>

locale pane_tree =
  fixes leaves :: "'t \<Rightarrow> 'a list"
    and drop_leaf :: "'t \<Rightarrow> 'a \<Rightarrow> 't"
    and add_leaf :: "'t \<Rightarrow> 'a \<Rightarrow> 't"
    and rename :: "'t \<Rightarrow> 'a \<Rightarrow> 'a \<Rightarrow> 't"
    and named :: "'a \<Rightarrow> bool"
  assumes leaves_drop: "leaves (drop_leaf t i) = filter (\<lambda>p. p \<noteq> i) (leaves t)"
    and leaves_add: "named i \<Longrightarrow>
      leaves (add_leaf t i) = (if i \<in> set (leaves t) then leaves t else leaves t @ [i])"
    and leaves_rename: "named new \<Longrightarrow> leaves (rename t old new) = replace_first old [new] (leaves t)"
begin

definition lists :: "'t \<Rightarrow> 'a set \<Rightarrow> bool" where
  "lists t P \<longleftrightarrow> distinct (leaves t) \<and> set (leaves t) = P"

lemma lists_drop: "lists t P \<Longrightarrow> lists (drop_leaf t i) (P - {i})"
  by (auto simp: lists_def leaves_drop)

lemma lists_add: "lists t P \<Longrightarrow> named i \<Longrightarrow> lists (add_leaf t i) (insert i P)"
  by (auto simp: lists_def leaves_add)

lemma lists_rename:
  "lists t P \<Longrightarrow> named new \<Longrightarrow> old \<in> P \<Longrightarrow> new \<notin> P \<Longrightarrow> lists (rename t old new) (insert new (P - {old}))"
  by (auto simp: lists_def leaves_rename set_replace_first distinct_replace_first)

lemma lists_move:
  assumes "lists s P" "lists d Q" "P \<inter> Q = {}" "i \<in> P" "named i"
  shows "lists (drop_leaf s i) (P - {i})" "lists (add_leaf d i) (insert i Q)"
    "(P - {i}) \<inter> insert i Q = {}" "(P - {i}) \<union> insert i Q = P \<union> Q"
  using assms lists_drop lists_add by auto

lemma leaves_drop_le: "set (leaves (drop_leaf t i)) \<subseteq> set (leaves t) - {i}"
  by (auto simp: leaves_drop)

lemma leaves_add_le: "named i \<Longrightarrow> set (leaves (add_leaf t i)) \<subseteq> insert i (set (leaves t))"
  by (auto simp: leaves_add)

end

interpretation layout: pane_tree PaneIDs "\<lambda>t i. fst (Prune t i)" PlaceMoved
  "\<lambda>t old new. fst (Substitute t old new)" "\<lambda>i. i \<noteq> []"
  by unfold_locales (simp_all add: PaneIDs_PlaceMoved PaneIDs_Substitute)

section \<open>Properties\<close>

text \<open>C2. Normalize never panics on listed pane ids, and what it returns is drawable: a tree
  whose inner nodes have both children and whose leaves are exactly the listed panes, none
  repeated when the list and the stored tree repeat none, and valid when the stored tree was.\<close>

theorem Normalize_draws_listed_panes:
  assumes "panes \<noteq> []" "[] \<notin> set panes"
  shows "\<exists>t. Normalize stored panes kw main = Ret t \<and> t \<noteq> None \<and> full t \<and> set (PaneIDs t) = set panes
    \<and> (distinct panes \<longrightarrow> distinct (PaneIDs stored) \<longrightarrow> distinct (PaneIDs t))
    \<and> (valid_tree stored \<longrightarrow> valid_tree t)"
  using assms by (rule Normalize_Ret)

theorem Normalize_draws_listed_panes_witness:
  "\<exists>t. Normalize (Some (inner Vertical (1/3) (Some (leaf ''a'')) (Some (leaf ''x'')))) [''a'', ''b''] [] [] = Ret t
    \<and> t \<noteq> None \<and> full t \<and> set (PaneIDs t) = {''a'', ''b''}"
  using Normalize_draws_listed_panes [of "[''a'', ''b'']"
      "Some (inner Vertical (1/3) (Some (leaf ''a'')) (Some (leaf ''x'')))" "[]" "[]"] by auto

text \<open>Normalizing what Normalize returned changes nothing: the tree a client draws and the
  tree the daemon stores agree for the same panes, template or not.\<close>

theorem Normalize_stable:
  assumes "[] \<notin> set panes" "valid_tree stored" "Normalize stored panes kw main = Ret t"
  shows "Normalize t panes kw' main' = Ret t"
proof (cases "panes = []")
  case False
  from Normalize_Ret [OF False assms(1), of stored kw main] assms(2,3)
  have "valid_tree t" "set (PaneIDs t) = set panes" "t \<noteq> None" by auto
  then show ?thesis by (rule Normalize_id)
qed (use assms in simp)

theorem Normalize_stable_witness:
  "Normalize (Some (leaf ''a'')) [''a''] ''grid'' ''a'' = Ret (Some (leaf ''a''))"
  by (rule Normalize_stable [where stored = None and kw = "[]" and main = "[]"])
    (simp_all add: Normalize_def Let_def pruneIf_simps last_index_def)

text \<open>Sanitize keeps the first leaf of every pane, in order, and drops the others; its result
  is a valid tree whenever the leaves and splits decode to the stored shape; it is idempotent;
  and a valid tree that repeats no pane comes back equal to its input.\<close>

theorem Sanitize_correct:
  "PaneIDs (Sanitize t) = dedup {} (PaneIDs t) \<and> distinct (PaneIDs (Sanitize t))
    \<and> set (PaneIDs (Sanitize t)) = set (PaneIDs t) \<and> ratios_ok (Sanitize t)
    \<and> (shaped t \<longrightarrow> valid_tree (Sanitize t))
    \<and> Sanitize (Sanitize t) = Sanitize t
    \<and> (valid_tree t \<longrightarrow> distinct (PaneIDs t) \<longrightarrow> Equal (Sanitize t) t)"
  by (simp add: Sanitize_valid Sanitize_Sanitize Sanitize_id Equal_def)
    (simp add: Sanitize_def fixRatios_ratios)

theorem Sanitize_correct_witness:
  "Sanitize (Some (inner Vertical (1/3) (Some (leaf ''a'')) (Some (leaf ''b''))))
    = Some (inner Vertical (1/3) (Some (leaf ''a'')) (Some (leaf ''b'')))"
  using Sanitize_correct [of "Some (inner Vertical (1/3) (Some (leaf ''a'')) (Some (leaf ''b'')))"]
  by (simp add: Equal_def valid_inner)

text \<open>Every edit of a pane is undone by the edit that takes it back, with every other node,
  direction and ratio as it was: splitting a leaf and pruning the new pane, placing a moved pane
  and pruning it, substituting a pane and substituting it back.\<close>

theorem edits_undone:
  assumes "valid_tree t" "new \<notin> set (PaneIDs t)" "new \<noteq> []" "target \<in> set (PaneIDs t)"
  shows "fst (Prune (fst (SplitLeaf t target dir new)) new) = t
    \<and> fst (Prune (PlaceMoved t new) new) = t
    \<and> fst (Substitute (fst (Substitute t target new)) new target) = t"
proof (intro conjI)
  have ne: "target \<noteq> []" using assms(4) PaneIDs_nonempty by blast
  have sh: "shaped t" using assms(1) by (simp add: valid_tree_def)
  have t: "t \<noteq> None" using assms(4) by (cases t) auto
  have clone: "Clone (setLeaf t target (\<lambda>_. inner dir (1/2) (Some (leaf target)) (Some (leaf new))))
      = setLeaf t target (\<lambda>_. inner dir (1/2) (Some (leaf target)) (Some (leaf new)))"
    by (rule Clone_setLeaf) (simp_all add: assms valid_Clone inner_def ne)
  show "fst (Prune (fst (SplitLeaf t target dir new)) new) = t"
    using assms ne sh clone
    by (simp add: Prune_def Contains_iff SplitLeaf_def Let_def findLeaf_case valid_Clone pruneIf_setLeaf
        PaneIDs_setLeaf [where ys = "[target, new]"] in_replace_first)
  show "fst (Prune (PlaceMoved t new) new) = t"
  proof -
    obtain dir where "PlaceMoved t new = setLast t (\<lambda>n. inner dir (1/2) (Some (leaf (PaneID n))) (Some (leaf new)))"
      using PlaceMoved_absent assms(1,2) t by metis
    moreover have "Clone (PlaceMoved t new) = PlaceMoved t new"
      using PlaceMoved_valid [OF assms(1,3)] valid_Clone by blast
    ultimately show ?thesis
      using assms(2,3) sh PaneIDs_PlaceMoved [OF assms(3), of t]
      by (simp add: Prune_def Contains_iff pruneIf_setLast)
  qed
  have "Clone (fst (Substitute t target new)) = fst (Substitute t target new)"
    using Substitute_valid [OF assms(1,3)] valid_Clone by blast
  then show "fst (Substitute (fst (Substitute t target new)) new target) = t"
    using assms ne
    by (simp add: Substitute_def Let_def findLeaf_case valid_Clone in_replace_first
        PaneIDs_setLeaf [where ys = "[new]"] setLeaf_setLeaf_Substitute)
qed

theorem edits_undone_witness:
  "fst (Prune (fst (SplitLeaf (Some (leaf ''a'')) ''a'' Vertical ''b'')) ''b'') = Some (leaf ''a'')"
  using edits_undone [of "Some (leaf ''a'')" "''b''" "''a''" Vertical] by simp

text \<open>A template layout lists every pane of the tab exactly as often as the tab does and is
  valid, whatever the keyword and the main pane.\<close>

theorem Template_permutes_panes:
  assumes "panes \<noteq> []" "[] \<notin> set panes"
  shows "\<exists>t. Template kw panes main = Ret t \<and> t \<noteq> None \<and> mset (PaneIDs t) = mset panes \<and> valid_tree t"
  using assms by (rule Template_Ret)

theorem Template_permutes_panes_witness:
  "\<exists>t. Template ''grid'' [''a'', ''b'', ''c''] 0 = Ret t \<and> mset (PaneIDs t) = mset [''a'', ''b'', ''c'']"
  using Template_permutes_panes [of "[''a'', ''b'', ''c'']" "''grid''" 0] by auto

text \<open>Moving a pane between two tabs' trees keeps the trees a partition of the panes: the
  source loses exactly that leaf, the target gains exactly it, no leaf is repeated.\<close>

theorem move_keeps_partition:
  assumes "distinct (PaneIDs s)" "distinct (PaneIDs d)" "set (PaneIDs s) \<inter> set (PaneIDs d) = {}"
    "i \<in> set (PaneIDs s)"
  shows "distinct (PaneIDs (fst (Prune s i))) \<and> distinct (PaneIDs (PlaceMoved d i))
    \<and> set (PaneIDs (fst (Prune s i))) \<inter> set (PaneIDs (PlaceMoved d i)) = {}
    \<and> set (PaneIDs (fst (Prune s i))) \<union> set (PaneIDs (PlaceMoved d i))
      = set (PaneIDs s) \<union> set (PaneIDs d)"
  using layout.lists_move [of s "set (PaneIDs s)" d "set (PaneIDs d)" i] assms PaneIDs_nonempty [of i s]
  by (auto simp: layout.lists_def)

theorem move_keeps_partition_witness:
  "distinct (PaneIDs (PlaceMoved (Some (leaf ''b'')) ''a''))"
  using move_keeps_partition [of "Some (leaf ''a'')" "Some (leaf ''b'')" "''a''"] by simp

end
