(* ===== verification/Layout_Json.thy ===== *)
theory Layout_Json
  imports Layout_Tree
begin

text \<open>
  The stored form of a layout tree: \<open>Parse\<close> and \<open>Marshal\<close> (\<open>internal/layouttree/node.go\<close>) and
  the part of \<open>encoding/json\<close> they use. A \<open>json.RawMessage\<close> is the document its bytes spell, or
  one of the three ways bytes spell none. A number literal is represented by what
  \<open>encoding/json\<close> reads from it: its value as an int64 literal (\<open>None\<close> for a fraction, an exponent
  or an overflow) and its value as a float64 (\<open>None\<close> out of range).
\<close>

section \<open>JSON documents\<close>

datatype json =
    JNull
  | JBool bool
  | JNum (int_reading: "int option") (float_reading: "rat option")
  | JStr string
  | JArr "json list"
  | JObj "(string \<times> json) list"

datatype raw_message =
    Raw_Nil           \<comment> \<open>no bytes at all: Go's nil or empty slice\<close>
  | Raw_Blank         \<comment> \<open>white space only\<close>
  | Raw_Malformed     \<comment> \<open>not a JSON document\<close>
  | Raw_Doc json

text \<open>Nesting of objects and arrays; \<open>encoding/json\<close> refuses more than 10000 levels.\<close>

fun depth :: "json \<Rightarrow> nat" and depth_list :: "json list \<Rightarrow> nat"
  and depth_fields :: "(string \<times> json) list \<Rightarrow> nat" where
  "depth (JArr xs) = Suc (depth_list xs)"
| "depth (JObj kvs) = Suc (depth_fields kvs)"
| "depth _ = 0"
| "depth_list [] = 0"
| "depth_list (x # xs) = max (depth x) (depth_list xs)"
| "depth_fields [] = 0"
| "depth_fields ((k, v) # kvs) = max (depth v) (depth_fields kvs)"

definition maxNestingDepth :: nat where "maxNestingDepth = 10000"

text \<open>Field names are matched exactly or, failing that, under Unicode case folding: for the five
  names of \<open>Node\<close> that is ASCII case and U+017F (UTF-8 C5 BF), which folds to \<open>s\<close>.\<close>

fun foldName :: "string \<Rightarrow> string" where
  "foldName (a # b # cs) =
     (if a = CHR 0xC5 \<and> b = CHR 0xBF then CHR ''s'' # foldName cs
      else ascii_lower a # foldName (b # cs))"
| "foldName [a] = [ascii_lower a]"
| "foldName [] = []"

section \<open>Decoding into a Node\<close>

text \<open>
  \<open>json.Unmarshal(t, &n)\<close>: \<open>None\<close> is an error. A null leaves a string or number alone and clears a
  pointer; a repeated key decodes into what the first one left; an unknown key is skipped.
\<close>

fun decode_node :: "json \<Rightarrow> node \<Rightarrow> node option"
  and decode_fields :: "(string \<times> json) list \<Rightarrow> node \<Rightarrow> node option" where
  "decode_node (JObj kvs) n = decode_fields kvs n"
| "decode_node JNull n = Some n"
| "decode_node (JBool b) n = None"
| "decode_node (JNum i f) n = None"
| "decode_node (JStr s) n = None"
| "decode_node (JArr xs) n = None"
| "decode_fields [] n = Some n"
| "decode_fields ((k, v) # kvs) (Node p s r l rt) =
     (let key = foldName k in
      if key = ''pane_id'' then
        (case v of JNull \<Rightarrow> decode_fields kvs (Node p s r l rt)
         | JStr x \<Rightarrow> decode_fields kvs (Node x s r l rt)
         | _ \<Rightarrow> None)
      else if key = ''split'' then
        (case v of JNull \<Rightarrow> decode_fields kvs (Node p None r l rt)
         | JNum (Some i) f \<Rightarrow> decode_fields kvs (Node p (Some i) r l rt)
         | _ \<Rightarrow> None)
      else if key = ''ratio'' then
        (case v of JNull \<Rightarrow> decode_fields kvs (Node p s r l rt)
         | JNum i (Some x) \<Rightarrow> decode_fields kvs (Node p s x l rt)
         | _ \<Rightarrow> None)
      else if key = ''left'' then
        (if v = JNull then decode_fields kvs (Node p s r None rt)
         else case decode_node v (case l of None \<Rightarrow> zero_node | Some m \<Rightarrow> m) of
             None \<Rightarrow> None | Some m \<Rightarrow> decode_fields kvs (Node p s r (Some m) rt))
      else if key = ''right'' then
        (if v = JNull then decode_fields kvs (Node p s r l None)
         else case decode_node v (case rt of None \<Rightarrow> zero_node | Some m \<Rightarrow> m) of
             None \<Rightarrow> None | Some m \<Rightarrow> decode_fields kvs (Node p s r l (Some m)))
      else decode_fields kvs (Node p s r l rt))"

section \<open>Parse and Marshal\<close>

text \<open>\<open>None\<close> is the error result, \<open>Some None\<close> the nil tree.\<close>

definition Parse :: "raw_message \<Rightarrow> node option option" where
  "Parse raw = (case raw of
       Raw_Nil \<Rightarrow> Some None
     | Raw_Blank \<Rightarrow> Some None
     | Raw_Malformed \<Rightarrow> None
     | Raw_Doc j \<Rightarrow>
         if j = JNull then Some None
         else if depth j > maxNestingDepth then None
         else (case decode_node j zero_node of None \<Rightarrow> None | Some n \<Rightarrow> Some (Some n)))"

text \<open>A float is printed with an exponent or a fraction unless it is integral and below 1e21 in
  absolute value; an integral literal beyond the int64 range has no integer reading.\<close>

definition float_literal :: "rat \<Rightarrow> json" where
  "float_literal r =
     JNum (if of_int \<lfloor>r\<rfloor> = r \<and> - (2 ^ 63) \<le> r \<and> r < 2 ^ 63 then Some \<lfloor>r\<rfloor> else None) (Some r)"

fun encode_node :: "node \<Rightarrow> json" where
  "encode_node (Node p s r l rt) = JObj (
     (if p = [] then [] else [(''pane_id'', JStr p)]) @
     (case s of None \<Rightarrow> [] | Some d \<Rightarrow> [(''split'', JNum (Some d) (Some (of_int d)))]) @
     (if r = 0 then [] else [(''ratio'', float_literal r)]) @
     (case l of None \<Rightarrow> [] | Some m \<Rightarrow> [(''left'', encode_node m)]) @
     (case rt of None \<Rightarrow> [] | Some m \<Rightarrow> [(''right'', encode_node m)]))"

definition Marshal :: "node option \<Rightarrow> raw_message" where
  "Marshal n = (case n of None \<Rightarrow> Raw_Nil | Some m \<Rightarrow> Raw_Doc (encode_node m))"

section \<open>Round trip\<close>

fun height :: "node option \<Rightarrow> nat" where
  "height None = 0"
| "height (Some (Node p s r l rt)) = Suc (max (height l) (height rt))"

lemma depth_fields_append: "depth_fields (xs @ ys) = max (depth_fields xs) (depth_fields ys)"
  by (induction xs) auto

lemma depth_encode: "depth (encode_node n) = height (Some n)"
proof (induction n rule: encode_node.induct)
  case (1 p s r l rt)
  then show ?case
    by (cases l; cases rt) (auto simp: depth_fields_append float_literal_def split: option.split)
qed

lemma decode_fields_append:
  "decode_fields (xs @ ys) n = (case decode_fields xs n of None \<Rightarrow> None | Some m \<Rightarrow> decode_fields ys m)"
proof (induction xs arbitrary: n)
  case (Cons kv xs)
  obtain k v where kv: "kv = (k, v)" by fastforce
  obtain p s r l rt where n: "n = Node p s r l rt" by (cases n)
  show ?case
    by (simp only: kv n append_Cons decode_fields.simps(2) Let_def)
      (auto simp: Cons.IH split: json.splits option.splits)
qed simp

lemma foldName_keys:
  "foldName ''pane_id'' = ''pane_id''" "foldName ''split'' = ''split''" "foldName ''ratio'' = ''ratio''"
  "foldName ''left'' = ''left''" "foldName ''right'' = ''right''"
  by (simp_all add: ascii_lower_def)

lemma decode_field:
  "decode_fields ((''pane_id'', JStr x) # kvs) (Node p s r l rt) = decode_fields kvs (Node x s r l rt)"
  "decode_fields ((''split'', JNum (Some i) f) # kvs) (Node p s r l rt) = decode_fields kvs (Node p (Some i) r l rt)"
  "decode_fields ((''ratio'', JNum j (Some q)) # kvs) (Node p s r l rt) = decode_fields kvs (Node p s q l rt)"
  by (simp_all add: foldName_keys Let_def del: foldName.simps)

lemma decode_child:
  "decode_node v zero_node = Some m \<Longrightarrow> v \<noteq> JNull \<Longrightarrow>
    decode_fields ((''left'', v) # kvs) (Node p s r None rt) = decode_fields kvs (Node p s r (Some m) rt)"
  "decode_node v zero_node = Some m \<Longrightarrow> v \<noteq> JNull \<Longrightarrow>
    decode_fields ((''right'', v) # kvs) (Node p s r l None) = decode_fields kvs (Node p s r l (Some m))"
  by (simp_all add: foldName_keys Let_def del: foldName.simps)

lemma encode_not_null [simp]: "encode_node n \<noteq> JNull"
  by (cases n) simp

lemma decode_encode: "decode_node (encode_node n) zero_node = Some n"
proof (induction n rule: encode_node.induct)
  case (1 p s r l rt)
  let ?P = "if p = [] then [] else [(''pane_id'', JStr p)]"
  let ?S = "case s of None \<Rightarrow> [] | Some d \<Rightarrow> [(''split'', JNum (Some d) (Some (of_int d)))]"
  let ?R = "if r = 0 then [] else [(''ratio'', float_literal r)]"
  let ?L = "case l of None \<Rightarrow> [] | Some m \<Rightarrow> [(''left'', encode_node m)]"
  let ?T = "case rt of None \<Rightarrow> [] | Some m \<Rightarrow> [(''right'', encode_node m)]"
  have P: "decode_fields ?P zero_node = Some (Node p None 0 None None)"
    by (simp add: decode_field del: decode_fields.simps(2))
  have S: "decode_fields ?S (Node p None 0 None None) = Some (Node p s 0 None None)"
    by (simp add: decode_field del: decode_fields.simps(2) split: option.split)
  have R: "decode_fields ?R (Node p s 0 None None) = Some (Node p s r None None)"
    by (simp add: decode_field float_literal_def del: decode_fields.simps(2))
  have L: "decode_fields ?L (Node p s r None None) = Some (Node p s r l None)"
    using "1.IH"(1) by (cases l) (simp_all add: decode_child del: decode_fields.simps(2) encode_node.simps)
  have T: "decode_fields ?T (Node p s r l None) = Some (Node p s r l rt)"
    using "1.IH"(2) by (cases rt) (simp_all add: decode_child del: decode_fields.simps(2) encode_node.simps)
  show ?case
    by (simp only: encode_node.simps decode_node.simps(1) decode_fields_append P S R L T option.case)
qed

lemma Marshal_not_null: "Marshal m \<noteq> Raw_Doc JNull"
  by (cases m rule: Clone.cases) (simp_all add: Marshal_def)

lemma Parse_Marshal: "height n \<le> maxNestingDepth \<Longrightarrow> Parse (Marshal n) = Some n"
  by (cases n)
    (simp_all add: Parse_def Marshal_def depth_encode decode_encode del: height.simps(2))

lemma Parse_Marshal_cases: "Parse (Marshal n) = Some n \<or> Parse (Marshal n) = None"
  by (cases n)
    (simp_all add: Parse_def Marshal_def depth_encode decode_encode del: height.simps(2))

text \<open>In a shaped tree the height is at most the number of leaves, so a tab's tree is within the
  limit as long as its pane count is.\<close>

lemma height_leaves: "shaped n \<Longrightarrow> height n \<le> length (PaneIDs n)"
proof (induction n rule: node_induct)
  case (2 p s r l rt)
  show ?case
  proof (cases "p = []")
    case True
    with "2.prems" have "shaped l" "shaped rt" "l \<noteq> None" "rt \<noteq> None" by auto
    then have "1 \<le> length (PaneIDs l)" "1 \<le> length (PaneIDs rt)"
      by (simp_all add: Suc_le_eq shaped_full full_leaves)
    with True 2 show ?thesis by auto
  qed (use 2 in simp)
qed simp



end
