(* ===== verification/Session_State.thy ===== *)
theory Session_State
  imports Layout_Json Ring_Buffer
begin

text \<open>
  The session store of the daemon (\<open>internal/daemon/session.go\<close>, \<open>project.go\<close>): tabs, panes and
  projects in maps by id, with an order list for tabs and projects. This theory has the records,
  the list helpers at the end of \<open>project.go\<close>, the read accessors, and the predicates the
  invariants of the store are made of. Every operation runs under one mutex, so it is one step of
  the model; \<open>uuid.New().String()[:8]\<close> and \<open>os.Getwd\<close> are arguments of the operations that call
  them. A pane carries the fields the store reads or writes; its process is not modelled, and
  panes handed to \<open>releasePanes\<close> are returned.
\<close>

section \<open>State\<close>

record Tab =
  TemplateLayout :: string
  TemplateMain :: string
  t_ID :: string
  t_Name :: string
  t_Color :: string
  t_Panes :: "string list"
  t_Layout :: raw_message
  t_LayoutRev :: u64
  t_ProjectID :: string
  overlayID :: string
  overlayKey :: string

record Pane =
  p_ID :: string
  p_TabID :: string
  p_CWD :: string
  p_OutputBuf :: ring
  p_freshID :: bool
  p_treeless :: bool

record Project =
  j_ID :: string
  j_Name :: string
  j_RootDir :: string
  j_TabIDs :: "string list"
  j_ActiveTab :: string
  j_Bootstrap :: bool
  j_Group :: string

record session =
  sm_tabs :: "string \<rightharpoonup> Tab"
  sm_tabOrder :: "string list"
  sm_panes :: "string \<rightharpoonup> Pane"
  sm_activeTab :: string
  sm_bufSize :: int
  sm_projects :: "string \<rightharpoonup> Project"
  sm_projectOrder :: "string list"
  sm_activeProject :: string
  sm_groups :: "string list"
  sm_recentCWDs :: "string list"

definition NewSessionManager :: "int \<Rightarrow> session" where
  "NewSessionManager bufSize =
     \<lparr>sm_tabs = Map.empty, sm_tabOrder = [], sm_panes = Map.empty, sm_activeTab = [], sm_bufSize = bufSize,
      sm_projects = Map.empty, sm_projectOrder = [], sm_activeProject = [], sm_groups = [], sm_recentCWDs = []\<rparr>"

definition new_tab :: "string \<Rightarrow> string \<Rightarrow> Tab" where
  "new_tab i name =
     \<lparr>TemplateLayout = [], TemplateMain = [], t_ID = i, t_Name = name, t_Color = [], t_Panes = [],
      t_Layout = Raw_Nil, t_LayoutRev = 0, t_ProjectID = [], overlayID = [], overlayKey = []\<rparr>"

section \<open>List helpers\<close>

fun removeString :: "string list \<Rightarrow> string \<Rightarrow> string list" where
  "removeString [] v = []"
| "removeString (x # xs) v = (if x = v then xs else x # removeString xs v)"

fun indexOfString :: "string list \<Rightarrow> string \<Rightarrow> int" where
  "indexOfString [] v = -1"
| "indexOfString (x # xs) v =
     (if x = v then 0 else (let i = indexOfString xs v in if i < 0 then -1 else i + 1))"

text \<open>\<open>copy(s[a:b], s[c:d])\<close>; Go's \<open>copy\<close> reads the source as it was.\<close>

definition copy_within :: "'a list \<Rightarrow> nat \<Rightarrow> nat \<Rightarrow> nat \<Rightarrow> nat \<Rightarrow> 'a list" where
  "copy_within s a b c d =
     take a s @ go_copy (take (b - a) (drop a s)) (take (d - c) (drop c s)) @ drop b s"

definition slideString :: "string list \<Rightarrow> string \<Rightarrow> int \<Rightarrow> string list \<times> bool" where
  "slideString s v newIdx =
     (let src = indexOfString s v in
      if src < 0 then (s, False)
      else
        let k = (if newIdx < 0 then 0 else newIdx);
            dst = (if k \<ge> int (length s) then int (length s) - 1 else k)
        in if src = dst then (s, False)
           else
             let f = nat src; t = nat dst;
                 s1 = (if src < dst then copy_within s f t (f + 1) (t + 1)
                       else copy_within s (t + 1) (f + 1) t f)
             in (s1[t := v], True))"

definition insertStringAt :: "string list \<Rightarrow> nat \<Rightarrow> string \<Rightarrow> string list" where
  "insertStringAt s i v =
     (let s1 = s @ [[]] in (copy_within s1 (i + 1) (length s1) i (length s1))[i := v])"

definition reanchorTab :: "string list \<Rightarrow> string list \<Rightarrow> string \<Rightarrow> string list" where
  "reanchorTab order projTabs tabID =
     (let pos = indexOfString projTabs tabID in
      if pos < 0 then order
      else
        let rest = removeString order tabID;
            before = (if pos > 0 then indexOfString rest (projTabs ! nat (pos - 1)) else -1);
            after = (if pos + 1 < int (length projTabs) then indexOfString rest (projTabs ! nat (pos + 1)) else -1)
        in if before \<ge> 0 then insertStringAt rest (nat (before + 1)) tabID
           else if after \<ge> 0 then insertStringAt rest (nat after) tabID
           else rest @ [tabID])"

fun remove_count :: "string list \<Rightarrow> string list \<Rightarrow> bool" where
  "remove_count counts [] = True"
| "remove_count counts (s # b) =
     (if count_list counts s = 0 then False else remove_count (removeString counts s) b)"

text \<open>The map of counts is the list it counts: \<open>count[s]--\<close> removes one \<open>s\<close>.\<close>

definition sameStringSet :: "string list \<Rightarrow> string list \<Rightarrow> bool" where
  "sameStringSet a b \<longleftrightarrow> (if length a \<noteq> length b then False else remove_count a b)"

section \<open>Accessors\<close>

text \<open>A missing tab in the order list is a nil pointer: listing it is harmless, copying it is not.\<close>

definition Tabs :: "session \<Rightarrow> Tab option list" where
  "Tabs sm = map (sm_tabs sm) (sm_tabOrder sm)"

definition TabProjectID :: "session \<Rightarrow> string \<Rightarrow> string \<times> bool" where
  "TabProjectID sm i = (case sm_tabs sm i of None \<Rightarrow> ([], False) | Some tab \<Rightarrow> (t_ProjectID tab, True))"

definition TabLayoutRev :: "session \<Rightarrow> string \<Rightarrow> u64" where
  "TabLayoutRev sm i = (case sm_tabs sm i of None \<Rightarrow> 0 | Some tab \<Rightarrow> t_LayoutRev tab)"

definition live_panes :: "session \<Rightarrow> string list \<Rightarrow> Pane list" where
  "live_panes sm ids = List.map_filter (sm_panes sm) ids"

definition Panes :: "session \<Rightarrow> string \<Rightarrow> Pane list" where
  "Panes sm tabID = (case sm_tabs sm tabID of None \<Rightarrow> [] | Some tab \<Rightarrow> live_panes sm (t_Panes tab))"

definition Projects :: "session \<Rightarrow> Project list" where
  "Projects sm = List.map_filter (sm_projects sm) (sm_projectOrder sm)"

definition ProjectActiveTab :: "session \<Rightarrow> string \<Rightarrow> string \<times> bool" where
  "ProjectActiveTab sm i = (case sm_projects sm i of None \<Rightarrow> ([], False) | Some p \<Rightarrow> (j_ActiveTab p, True))"

fun snapshot_tabs :: "session \<Rightarrow> string list \<Rightarrow> (Tab \<times> Pane list) list outcome" where
  "snapshot_tabs sm [] = Ret []"
| "snapshot_tabs sm (i # is) =
     (case sm_tabs sm i of
        None \<Rightarrow> Panic
      | Some tab \<Rightarrow> obind (snapshot_tabs sm is) (\<lambda>r. Ret ((tab, live_panes sm (t_Panes tab)) # r)))"

definition SnapshotState ::
    "session \<Rightarrow> (string \<times> (Tab \<times> Pane list) list \<times> Project list \<times> string) outcome" where
  "SnapshotState sm =
     obind (snapshot_tabs sm (sm_tabOrder sm)) (\<lambda>tabs.
       Ret (sm_activeTab sm, tabs, Projects sm, sm_activeProject sm))"

section \<open>Lemmas on the list helpers\<close>

lemma removeString_remove1 [simp]: "removeString xs v = remove1 v xs"
  by (induction xs) auto

lemma indexOfString_neg: "indexOfString xs v < 0 \<longleftrightarrow> v \<notin> set xs"
  by (induction xs) (auto simp: Let_def)

lemma indexOfString_cases:
  "indexOfString xs v = -1 \<and> v \<notin> set xs \<or>
   (\<exists>ys zs. xs = ys @ v # zs \<and> v \<notin> set ys \<and> indexOfString xs v = int (length ys))"
proof (induction xs)
  case (Cons x xs)
  show ?case
  proof (cases "x = v")
    case True
    then show ?thesis by (auto intro!: exI [of _ "[]"])
  next
    case False
    with Cons show ?thesis
      by (auto simp: Let_def) (metis Cons_eq_appendI insert_iff length_Cons list.simps(15) of_nat_Suc add.commute)
  qed
qed simp

lemma indexOfString_at:
  assumes "xs = ys @ v # zs" "v \<notin> set ys"
  shows "indexOfString xs v = int (length ys)"
  using assms by (induction ys arbitrary: xs) (auto simp: Let_def)

lemma insertStringAt_eq:
  assumes "i \<le> length s"
  shows "insertStringAt s i v = take i s @ v # drop i s"
proof -
  have "copy_within (s @ [[]]) (i + 1) (length (s @ [[]])) i (length (s @ [[]]))
      = take (Suc i) (s @ [[]]) @ drop i s"
    using assms by (simp add: copy_within_def go_copy_def)
  moreover have "take (Suc i) (s @ [[]]) = take i (s @ [[]]) @ [(s @ [[]]) ! i]"
    using assms by (intro take_Suc_conv_app_nth) simp
  moreover have "take i (s @ [[]]) = take i s" using assms by simp
  ultimately show ?thesis
    using assms by (simp add: insertStringAt_def Let_def list_update_append del: take_append)
qed

text \<open>A slide is a removal and an insertion: only \<open>v\<close> moves.\<close>

definition insert_at :: "nat \<Rightarrow> 'a \<Rightarrow> 'a list \<Rightarrow> 'a list" where
  "insert_at k v xs = take k xs @ v # drop k xs"

lemma mset_insert_at [simp]: "mset (insert_at k v xs) = add_mset v (mset xs)"
  unfolding insert_at_def by (metis append_take_drop_id mset_append mset.simps(2) union_mset_add_mset_right)

lemma set_insert_at [simp]: "set (insert_at k v xs) = insert v (set xs)"
  by (metis mset_insert_at set_mset_add_mset_insert set_mset_mset)

lemma distinct_insert_at [simp]: "distinct (insert_at k v xs) \<longleftrightarrow> v \<notin> set xs \<and> distinct xs"
  by (metis distinct.simps(2) mset.simps(2) mset_eq_imp_distinct_iff mset_insert_at)

lemma remove1_insert_at: "v \<notin> set xs \<Longrightarrow> remove1 v (insert_at k v xs) = xs"
  by (simp add: insert_at_def remove1_append) (metis append_take_drop_id in_set_takeD remove1_idem)

definition clamp_index :: "int \<Rightarrow> nat \<Rightarrow> nat" where
  "clamp_index k n = (if k < 0 then 0 else if k \<ge> int n then n - 1 else nat k)"

lemma slide_right:
  assumes "0 < d" "d \<le> length zs"
  shows "(copy_within (ys @ v # zs) (length ys) (length ys + d) (length ys + 1) (length ys + d + 1))
      [length ys + d := v] = ys @ take d zs @ v # drop d zs"
proof -
  obtain e where d: "d = Suc e" using assms(1) by (cases d) auto
  have "drop e zs = zs ! e # drop (Suc e) zs" using assms(2) d by (simp add: Cons_nth_drop_Suc)
  then show ?thesis
    using assms by (simp add: copy_within_def go_copy_def d list_update_append min_def)
qed

lemma slide_left:
  assumes "t < length ys"
  shows "(copy_within (ys @ v # zs) (t + 1) (length ys + 1) t (length ys)) [t := v]
      = take t ys @ v # drop t ys @ zs"
proof -
  have "take (Suc t) ys = take t ys @ [ys ! t]" using assms by (rule take_Suc_conv_app_nth)
  then show ?thesis
    using assms by (simp add: copy_within_def go_copy_def list_update_append)
qed

lemma slideString_eq:
  "slideString s v k =
    (if v \<notin> set s \<or> indexOfString s v = int (clamp_index k (length s)) then (s, False)
     else (insert_at (clamp_index k (length s)) v (remove1 v s), True))"
proof (cases "v \<in> set s")
  case True
  then obtain ys zs where s: "s = ys @ v # zs" "v \<notin> set ys" "indexOfString s v = int (length ys)"
    using indexOfString_cases [of s v] by auto
  define t where "t = clamp_index k (length s)"
  have t: "t < length s" using s(1) by (auto simp: t_def clamp_index_def)
  have dst: "(if (if k < 0 then 0 else k) \<ge> int (length s) then int (length s) - 1 else (if k < 0 then 0 else k)) = int t"
    using s(1) by (auto simp: t_def clamp_index_def)
  have r: "remove1 v s = ys @ zs" using s by (simp add: remove1_append)
  have le: "t \<le> length ys + length zs" using t s(1) by simp
  consider "length ys = t" | "length ys < t" | "t < length ys" by linarith
  then show ?thesis
  proof cases
    case 1
    with s(3) True show ?thesis by (simp add: slideString_def Let_def dst) (simp add: t_def)
  next
    case 2
    define d where "d = t - length ys"
    have d: "t = length ys + d" "0 < d" "d \<le> length zs" using 2 le by (simp_all add: d_def)
    have "slideString s v k = (insert_at t v (remove1 v s), True)"
      using s(3) d slide_right [of d zs ys v] unfolding slideString_def Let_def dst r
      by (simp add: insert_at_def s(1) nat_add_distrib add.commute)
    with True s(3) 2 show ?thesis by (simp flip: t_def)
  next
    case 3
    have "slideString s v k = (insert_at t v (remove1 v s), True)"
      using s(3) 3 slide_left [of t ys v zs] unfolding slideString_def Let_def dst r
      by (simp add: insert_at_def s(1) nat_add_distrib add.commute)
    with True s(3) 3 show ?thesis by (simp flip: t_def)
  qed
qed (simp add: slideString_def indexOfString_neg)

text \<open>A re-anchored tab keeps every other tab where it is, and lists the tabs of its project in
  the project's own order.\<close>

lemma reanchor_cases:
  assumes "distinct P" "v \<in> set P" "filter (\<lambda>x. x \<in> set P) (remove1 v xs) = remove1 v P"
  obtains A B where "reanchorTab xs P v = A @ v # B" "remove1 v xs = A @ B"
    "filter (\<lambda>x. x \<in> set P) A @ v # filter (\<lambda>x. x \<in> set P) B = P"
proof -
  obtain ps qs where P: "P = ps @ v # qs" "v \<notin> set ps" "indexOfString P v = int (length ps)"
    using indexOfString_cases [of P v] assms(2) by auto
  define R where "R = remove1 v xs"
  have R: "filter (\<lambda>x. x \<in> set P) R = ps @ qs"
    using assms(3) P by (simp add: R_def remove1_append)
  consider us u where "ps = us @ [u]" | q rs where "ps = []" "qs = q # rs" | "ps = []" "qs = []"
    by (cases ps rule: rev_cases; cases qs) auto
  then show thesis
  proof cases
    case 1
    have "u \<in> set (filter (\<lambda>x. x \<in> set P) R)" using R 1 by simp
    then have "u \<in> set R" by simp
    then obtain A B where AB: "R = A @ u # B" "u \<notin> set A" "indexOfString R u = int (length A)"
      using indexOfString_cases [of R u] by auto
    have u: "u \<in> set P" "u \<notin> set us" "u \<notin> set qs" using P 1 assms(1) by auto
    have f: "filter (\<lambda>x. x \<in> set P) A @ u # filter (\<lambda>x. x \<in> set P) B = us @ u # qs"
      using R AB(1) 1 u(1) by simp
    then have "filter (\<lambda>x. x \<in> set P) A = us" "filter (\<lambda>x. x \<in> set P) B = qs"
      using u append_Cons_eq_iff [of u us qs] by metis+
    moreover have "P ! nat (int (length ps) - 1) = u" using P(1) 1 by (simp add: nth_append)
    then have "reanchorTab xs P v = (A @ [u]) @ v # B"
      using P(3) 1 AB by (simp add: reanchorTab_def Let_def insertStringAt_eq nat_add_distrib flip: R_def)
    ultimately show ?thesis
      using that [of "A @ [u]" B] AB(1) P(1) 1 u(1) by (simp add: R_def)
  next
    case 2
    have "q \<in> set (filter (\<lambda>x. x \<in> set P) R)" using R 2 by simp
    then have "q \<in> set R" by simp
    then obtain A B where AB: "R = A @ q # B" "q \<notin> set A" "indexOfString R q = int (length A)"
      using indexOfString_cases [of R q] by auto
    have q: "q \<in> set P" "q \<notin> set rs" using P 2 assms(1) by auto
    have f: "filter (\<lambda>x. x \<in> set P) A @ q # filter (\<lambda>x. x \<in> set P) B = q # rs"
      using R AB(1) 2 q(1) by simp
    then have "filter (\<lambda>x. x \<in> set P) A = []" "filter (\<lambda>x. x \<in> set P) B = rs"
      using q append_Cons_eq_iff [of q "[]" rs] by (metis append_Nil empty_iff list.set(1))+
    moreover have "reanchorTab xs P v = A @ v # q # B"
      using P 2 AB by (simp add: reanchorTab_def Let_def insertStringAt_eq flip: R_def)
    ultimately show ?thesis
      using that [of A "q # B"] AB(1) P(1) 2 q(1) by (simp add: R_def)
  next
    case 3
    then have Pv: "P = [v]" using P(1) by simp
    have "filter (\<lambda>x. x \<in> set P) R = []" using R 3 by simp
    moreover have "reanchorTab xs P v = R @ v # []"
      by (simp add: reanchorTab_def Let_def R_def Pv)
    moreover have "remove1 v xs = R @ []" by (simp add: R_def)
    ultimately show ?thesis using that [of R "[]"] Pv by simp
  qed
qed

lemma reanchor_set: "v \<in> set P \<Longrightarrow> set (reanchorTab xs P v) = insert v (set (remove1 v xs))"
  and reanchor_remove1: "v \<in> set P \<Longrightarrow> distinct xs \<Longrightarrow> remove1 v (reanchorTab xs P v) = remove1 v xs"
  and reanchor_distinct: "distinct xs \<Longrightarrow> distinct (reanchorTab xs P v)"
proof -
  have ins: "insertStringAt r (nat (indexOfString r u + 1)) v = insert_at (nat (indexOfString r u + 1)) v r"
    "insertStringAt r (nat (indexOfString r u)) v = insert_at (nat (indexOfString r u)) v r"
    if "0 \<le> indexOfString r u" for r u
    using that indexOfString_cases [of r u] by (auto simp: insertStringAt_eq insert_at_def)
  have app: "r @ [v] = insert_at (length r) v r" for r :: "string list"
    by (simp add: insert_at_def)
  have ex: "\<exists>k. reanchorTab xs P v = insert_at k v (remove1 v xs)" if "v \<in> set P"
    using that indexOfString_neg [of P v] by (auto simp: reanchorTab_def Let_def ins app)
  show "v \<in> set P \<Longrightarrow> set (reanchorTab xs P v) = insert v (set (remove1 v xs))"
    using ex by auto
  show "v \<in> set P \<Longrightarrow> distinct xs \<Longrightarrow> remove1 v (reanchorTab xs P v) = remove1 v xs"
    using ex by (auto simp: remove1_insert_at)
  show "distinct xs \<Longrightarrow> distinct (reanchorTab xs P v)"
    using ex by (cases "v \<in> set P") (auto simp: reanchorTab_def indexOfString_neg)
qed

lemma filter_remove1_out: "\<not> p v \<Longrightarrow> filter p (remove1 v xs) = filter p xs"
  by (induction xs) auto

lemma reanchor_filter_self:
  assumes "distinct P" "v \<in> set P" "filter (\<lambda>x. x \<in> set P) (remove1 v xs) = remove1 v P"
  shows "filter (\<lambda>x. x \<in> set P) (reanchorTab xs P v) = P"
  using assms(2) by (rule_tac reanchor_cases [OF assms]) simp

lemma reanchor_filter_other:
  assumes "v \<in> set P" "\<not> p v" "distinct xs"
  shows "filter p (reanchorTab xs P v) = filter p xs"
  using reanchor_remove1 [OF assms(1,3)] filter_remove1_out [of p v] assms(2) by metis

end
