(* ===== verification/Session_Layout.thy ===== *)
theory Session_Layout
  imports Session_State
begin

text \<open>
  \<open>internal/daemon/layout_tree.go\<close>: how a tab's stored layout tree follows its pane list. A \<open>*Tab\<close>
  the Go code edits in place is a tab returned. \<open>Marshal\<close> of a tree cannot fail: a ratio is
  decoded from JSON or computed from lengths, so it is never NaN or infinite; a function whose
  Normalize could panic returns an \<open>outcome\<close>.
\<close>

datatype layoutWrite = layoutStored | layoutNoTab | layoutStale

section \<open>Operations\<close>

definition treePanesLocked :: "session \<Rightarrow> Tab \<Rightarrow> string list" where
  "treePanesLocked sm tab =
     filter (\<lambda>i. case sm_panes sm i of None \<Rightarrow> False | Some p \<Rightarrow> \<not> p_treeless p) (t_Panes tab)"

definition treePanesExceptLocked :: "session \<Rightarrow> Tab \<Rightarrow> string \<Rightarrow> string list" where
  "treePanesExceptLocked sm tab skip = filter (\<lambda>i. i \<noteq> skip) (treePanesLocked sm tab)"

fun wellFormed :: "node option \<Rightarrow> node option" where
  "wellFormed None = None"
| "wellFormed (Some (Node p s ratio l rt)) =
     (if p \<noteq> [] then Some (leaf p)
      else
        let l' = wellFormed l; r' = wellFormed rt in
        if l' = None then r'
        else if r' = None then l'
        else Some (Node [] (Some (if s = Some Vertical then Vertical else Horizontal)) ratio l' r'))"

definition storedTreeLocked :: "Tab \<Rightarrow> node option \<times> bool" where
  "storedTreeLocked tab =
     (case Parse (t_Layout tab) of
        None \<Rightarrow> (None, False)
      | Some n \<Rightarrow> (let tree = wellFormed n in (tree, tree \<noteq> None)))"

definition settleTemplateLocked :: "Tab \<Rightarrow> Tab" where
  "settleTemplateLocked tab =
     (if t_Layout tab \<noteq> Raw_Nil then tab\<lparr>TemplateLayout := [], TemplateMain := []\<rparr> else tab)"

definition storeTreeLocked :: "Tab \<Rightarrow> node option \<Rightarrow> Tab" where
  "storeTreeLocked tab tree =
     settleTemplateLocked (tab\<lparr>t_Layout := Marshal tree, t_LayoutRev := t_LayoutRev tab + 1\<rparr>)"

definition pruneTreeLocked :: "Tab \<Rightarrow> string \<Rightarrow> Tab" where
  "pruneTreeLocked tab paneID =
     (case storedTreeLocked tab of (tree, ok) \<Rightarrow>
        if \<not> ok then tab
        else (case Prune tree paneID of (out, changed) \<Rightarrow>
                if changed then storeTreeLocked tab out else tab))"

definition substituteTreeLocked :: "Tab \<Rightarrow> string \<Rightarrow> string \<Rightarrow> Tab" where
  "substituteTreeLocked tab oldID newID =
     (case storedTreeLocked tab of (tree, ok) \<Rightarrow>
        if \<not> ok then tab
        else (case Substitute tree oldID newID of (out, changed) \<Rightarrow>
                if changed then storeTreeLocked tab out else tab))"

definition placeMovedLocked :: "session \<Rightarrow> Tab \<Rightarrow> string \<Rightarrow> Tab outcome" where
  "placeMovedLocked sm tab paneID =
     (case storedTreeLocked tab of (tree, ok) \<Rightarrow>
        if \<not> ok then Ret tab
        else obind (Normalize tree (treePanesExceptLocked sm tab paneID) (TemplateLayout tab) (TemplateMain tab))
               (\<lambda>base. Ret (storeTreeLocked tab (PlaceMoved base paneID))))"

text \<open>\<open>PaneIDs(base)[0]\<close> panics when the tree has no leaf.\<close>

definition insertPaneLocked ::
    "session \<Rightarrow> Tab \<Rightarrow> string \<Rightarrow> string \<Rightarrow> SplitDir \<Rightarrow> (Tab \<times> bool) outcome" where
  "insertPaneLocked sm tab paneID target dir =
     obind (Normalize (fst (storedTreeLocked tab)) (treePanesExceptLocked sm tab paneID)
              (TemplateLayout tab) (TemplateMain tab))
       (\<lambda>base.
          if base = None then
            (if target \<noteq> [] then Ret (tab, False) else Ret (storeTreeLocked tab (Some (leaf paneID)), True))
          else
            obind (if target \<noteq> [] then Ret target
                   else case PaneIDs base of [] \<Rightarrow> Panic | p # _ \<Rightarrow> Ret p)
              (\<lambda>tgt. case SplitLeaf base tgt dir paneID of (out, ok) \<Rightarrow>
                  if \<not> ok then Ret (tab, False) else Ret (storeTreeLocked tab out, True)))"

definition validLayoutLocked :: "session \<Rightarrow> Tab \<Rightarrow> raw_message \<Rightarrow> raw_message outcome" where
  "validLayoutLocked sm tab raw =
     (let err = (Parse raw = None);
          parsed = (case Parse raw of None \<Rightarrow> None | Some n \<Rightarrow> n)
      in obind (Normalize (Sanitize (wellFormed parsed)) (treePanesLocked sm tab) (TemplateLayout tab) (TemplateMain tab))
           (\<lambda>out.
              if out = None then Ret Raw_Nil
              else if \<not> err \<and> Equal out (Clone parsed) then Ret raw
              else Ret (Marshal out)))"

definition revalidateRestoredLayout :: "session \<Rightarrow> string \<Rightarrow> session outcome" where
  "revalidateRestoredLayout sm tabID =
     (case sm_tabs sm tabID of
        None \<Rightarrow> Ret sm
      | Some tab \<Rightarrow>
          if t_Layout tab = Raw_Nil then Ret sm
          else obind (validLayoutLocked sm tab (t_Layout tab)) (\<lambda>raw.
                 Ret (sm\<lparr>sm_tabs := (sm_tabs sm)(tabID \<mapsto> settleTemplateLocked (tab\<lparr>t_Layout := raw\<rparr>))\<rparr>)))"

definition SetTabLayout ::
    "session \<Rightarrow> string \<Rightarrow> raw_message \<Rightarrow> u64 option \<Rightarrow> (session \<times> layoutWrite) outcome" where
  "SetTabLayout sm tabID layout baseRev =
     (case sm_tabs sm tabID of
        None \<Rightarrow> Ret (sm, layoutNoTab)
      | Some tab \<Rightarrow>
          if baseRev \<noteq> None \<and> the baseRev \<noteq> t_LayoutRev tab then Ret (sm, layoutStale)
          else obind (validLayoutLocked sm tab layout) (\<lambda>raw.
                 Ret (sm\<lparr>sm_tabs := (sm_tabs sm)(tabID \<mapsto> settleTemplateLocked
                        (tab\<lparr>t_Layout := raw, t_LayoutRev := t_LayoutRev tab + 1\<rparr>))\<rparr>,
                      layoutStored)))"

section \<open>Shape of stored trees\<close>

lemma PaneIDs_wellFormed [simp]: "PaneIDs (wellFormed n) = PaneIDs n"
proof (induction n rule: node_induct)
  case (2 p s r l rt)
  show ?case
  proof (cases "p = []")
    case True
    from 2 have "PaneIDs (wellFormed l) = PaneIDs l" "PaneIDs (wellFormed rt) = PaneIDs rt" .
    then have "wellFormed l = None \<Longrightarrow> PaneIDs l = []" "wellFormed rt = None \<Longrightarrow> PaneIDs rt = []"
      by auto
    with True 2 show ?thesis by (auto simp: Let_def)
  qed simp
qed simp

lemma wellFormed_shaped [simp]: "shaped (wellFormed n)"
proof (induction n rule: node_induct)
  case (2 p s r l rt)
  then show ?case by (auto simp: Let_def)
qed simp

lemma shaped_wellFormed: "shaped n \<Longrightarrow> wellFormed n = n"
proof (induction n rule: node_induct)
  case (2 p s r l rt)
  show ?case
  proof (cases "p = []")
    case True
    with 2 have "wellFormed l = l" "wellFormed rt = rt" "l \<noteq> None" "rt \<noteq> None" by auto
    with True 2 show ?thesis by (auto simp: Let_def)
  next
    case False
    with 2 show ?thesis by auto
  qed
qed simp

definition tree_of :: "raw_message \<Rightarrow> node option" where
  "tree_of raw = (case Parse raw of None \<Rightarrow> None | Some n \<Rightarrow> wellFormed n)"

lemma storedTree_eq: "storedTreeLocked tab = (tree_of (t_Layout tab), tree_of (t_Layout tab) \<noteq> None)"
  by (auto simp: storedTreeLocked_def tree_of_def Let_def split: option.split)

lemma tree_of_shaped [simp]: "shaped (tree_of raw)"
  by (simp add: tree_of_def split: option.split)

lemma tree_of_Nil [simp]: "tree_of Raw_Nil = None"
  by (simp add: tree_of_def Parse_def)

text \<open>A stored tree reads back as itself, or as no tree when the decoder's nesting limit is hit.\<close>

lemma tree_of_Marshal: "shaped n \<Longrightarrow> tree_of (Marshal n) = n \<or> tree_of (Marshal n) = None"
  using Parse_Marshal_cases [of n] by (auto simp: tree_of_def shaped_wellFormed split: option.split)

lemma tree_of_Marshal_small:
  "shaped n \<Longrightarrow> length (PaneIDs n) \<le> maxNestingDepth \<Longrightarrow> tree_of (Marshal n) = n"
  using Parse_Marshal [of n] height_leaves [of n] by (simp add: tree_of_def shaped_wellFormed)

definition tab_leaves :: "Tab \<Rightarrow> string list" where
  "tab_leaves tab = PaneIDs (tree_of (t_Layout tab))"

section \<open>What the tree edits leave alone\<close>

lemma storeTree_fields [simp]:
  "t_ID (storeTreeLocked tab n) = t_ID tab" "t_Name (storeTreeLocked tab n) = t_Name tab"
  "t_Panes (storeTreeLocked tab n) = t_Panes tab" "t_ProjectID (storeTreeLocked tab n) = t_ProjectID tab"
  "overlayID (storeTreeLocked tab n) = overlayID tab" "overlayKey (storeTreeLocked tab n) = overlayKey tab"
  "t_Layout (storeTreeLocked tab n) = Marshal n" "t_LayoutRev (storeTreeLocked tab n) = t_LayoutRev tab + 1"
  by (simp_all add: storeTreeLocked_def settleTemplateLocked_def)

lemma settleTemplate_fields [simp]:
  "t_ID (settleTemplateLocked tab) = t_ID tab" "t_Panes (settleTemplateLocked tab) = t_Panes tab"
  "t_ProjectID (settleTemplateLocked tab) = t_ProjectID tab" "overlayID (settleTemplateLocked tab) = overlayID tab"
  "t_Layout (settleTemplateLocked tab) = t_Layout tab" "t_LayoutRev (settleTemplateLocked tab) = t_LayoutRev tab"
  by (simp_all add: settleTemplateLocked_def)

lemma pruneTree_fields [simp]:
  "t_ID (pruneTreeLocked tab i) = t_ID tab" "t_Panes (pruneTreeLocked tab i) = t_Panes tab"
  "t_ProjectID (pruneTreeLocked tab i) = t_ProjectID tab" "overlayID (pruneTreeLocked tab i) = overlayID tab"
  by (simp_all add: pruneTreeLocked_def split: prod.split)

lemma substituteTree_fields [simp]:
  "t_ID (substituteTreeLocked tab i j) = t_ID tab" "t_Panes (substituteTreeLocked tab i j) = t_Panes tab"
  "t_ProjectID (substituteTreeLocked tab i j) = t_ProjectID tab"
  "overlayID (substituteTreeLocked tab i j) = overlayID tab"
  by (simp_all add: substituteTreeLocked_def split: prod.split)

section \<open>What they do to the leaves\<close>

lemma leaves_tree_of_Marshal: "PaneIDs (tree_of (Marshal n)) = PaneIDs n \<or> PaneIDs (tree_of (Marshal n)) = []"
  using Parse_Marshal_cases [of n] by (auto simp: tree_of_def)

lemma tab_leaves_store: "tab_leaves (storeTreeLocked tab n) = PaneIDs n \<or> tab_leaves (storeTreeLocked tab n) = []"
  using leaves_tree_of_Marshal [of n] by (simp add: tab_leaves_def)

definition leaves_ok :: "Tab \<Rightarrow> string set \<Rightarrow> bool" where
  "leaves_ok tab P \<longleftrightarrow> distinct (tab_leaves tab) \<and> set (tab_leaves tab) \<subseteq> P"

lemma leaves_ok_cong: "t_Layout tab = t_Layout tab' \<Longrightarrow> leaves_ok tab P = leaves_ok tab' P"
  by (simp add: leaves_ok_def tab_leaves_def)

lemma leaves_ok_mono: "leaves_ok tab P \<Longrightarrow> P \<subseteq> Q \<Longrightarrow> leaves_ok tab Q"
  by (auto simp: leaves_ok_def)

lemma leaves_ok_store:
  "distinct (PaneIDs n) \<Longrightarrow> set (PaneIDs n) \<subseteq> P \<Longrightarrow> leaves_ok (storeTreeLocked tab n) P"
  using tab_leaves_store [of tab n] by (auto simp: leaves_ok_def)

lemma leaves_ok_Nil [simp]: "t_Layout tab = Raw_Nil \<Longrightarrow> leaves_ok tab P"
  by (simp add: leaves_ok_def tab_leaves_def)

lemma leaves_ok_prune: "leaves_ok tab P \<Longrightarrow> leaves_ok (pruneTreeLocked tab i) (P - {i})"
  using leaves_tree_of_Marshal [of "fst (Prune (tree_of (t_Layout tab)) i)"]
  by (auto simp: pruneTreeLocked_def storedTree_eq leaves_ok_def tab_leaves_def snd_Prune
      split: prod.split) (auto simp: prod_eq_iff snd_Prune)

lemma leaves_ok_substitute:
  assumes "leaves_ok tab P" "new \<noteq> []" "new \<notin> P"
  shows "leaves_ok (substituteTreeLocked tab old new) (insert new (P - {old}))"
proof -
  let ?t = "tree_of (t_Layout tab)"
  show ?thesis
  proof (cases "old \<in> set (PaneIDs ?t)")
    case True
    obtain out where out: "Substitute ?t old new = (out, True)"
      using snd_Substitute [of ?t old new] True by (metis prod.collapse)
    have "PaneIDs out = replace_first old [new] (PaneIDs ?t)"
      using PaneIDs_Substitute [OF assms(2), of ?t old] out by simp
    then have "distinct (PaneIDs out)" "set (PaneIDs out) = insert new (set (PaneIDs ?t) - {old})"
      using assms True by (auto simp: leaves_ok_def tab_leaves_def set_replace_first intro!: distinct_replace_first)
    moreover have "substituteTreeLocked tab old new = storeTreeLocked tab out"
      using True out by (auto simp: substituteTreeLocked_def storedTree_eq)
    ultimately show ?thesis
      using assms(1) by (auto simp: leaves_ok_def tab_leaves_def [of tab] intro!: leaves_ok_store [unfolded leaves_ok_def])
  next
    case False
    then have "substituteTreeLocked tab old new = tab"
      by (auto simp: substituteTreeLocked_def storedTree_eq Substitute_absent)
    with assms(1) False show ?thesis by (auto simp: leaves_ok_def tab_leaves_def)
  qed
qed

lemma treePanes_set:
  "i \<in> set (treePanesLocked sm tab) \<longleftrightarrow>
     i \<in> set (t_Panes tab) \<and> (\<exists>p. sm_panes sm i = Some p \<and> \<not> p_treeless p)"
  by (auto simp: treePanesLocked_def split: option.splits)

lemma treePanesExcept_set:
  "set (treePanesExceptLocked sm tab i) = set (treePanesLocked sm tab) - {i}"
  by (auto simp: treePanesExceptLocked_def)

lemma Normalize_outcome:
  assumes "[] \<notin> set panes" "distinct panes" "distinct (PaneIDs stored)"
  obtains t where "Normalize stored panes kw main = Ret t" "set (PaneIDs t) = set panes" "distinct (PaneIDs t)"
    "full t" "t = None \<longleftrightarrow> panes = []"
proof (cases "panes = []")
  case True
  then show thesis by (intro that [of None]) simp_all
next
  case False
  from Normalize_Ret [OF False assms(1), of stored kw main] assms(2,3) that False show thesis by auto
qed

lemma placeMoved_Ret:
  assumes "[] \<notin> set (t_Panes tab)" "distinct (t_Panes tab)" "distinct (tab_leaves tab)" "i \<noteq> []"
  obtains tab' where "placeMovedLocked sm tab i = Ret tab'"
    "leaves_ok tab' (insert i (set (treePanesLocked sm tab)))"
    "t_ID tab' = t_ID tab" "t_Panes tab' = t_Panes tab" "t_ProjectID tab' = t_ProjectID tab"
    "overlayID tab' = overlayID tab"
proof (cases "tree_of (t_Layout tab) = None")
  case True
  then show thesis
    by (intro that [of tab]) (simp_all add: placeMovedLocked_def storedTree_eq leaves_ok_def tab_leaves_def)
next
  case False
  let ?P = "treePanesExceptLocked sm tab i"
  have P: "[] \<notin> set ?P" "distinct ?P"
    using assms by (auto simp: treePanesExceptLocked_def treePanesLocked_def)
  obtain b where b: "Normalize (tree_of (t_Layout tab)) ?P (TemplateLayout tab) (TemplateMain tab) = Ret b"
      "set (PaneIDs b) = set ?P" "distinct (PaneIDs b)"
    using Normalize_outcome [OF P assms(3) [unfolded tab_leaves_def]] by metis
  let ?t = "storeTreeLocked tab (PlaceMoved b i)"
  have "leaves_ok ?t (insert i (set (treePanesLocked sm tab)))"
    using b assms(4) by (intro leaves_ok_store) (auto simp: PaneIDs_PlaceMoved treePanesExcept_set)
  with False b show thesis
    by (intro that [of ?t]) (simp_all add: placeMovedLocked_def storedTree_eq)
qed

lemma insertPane_Ret:
  assumes "[] \<notin> set (t_Panes tab)" "distinct (t_Panes tab)" "distinct (tab_leaves tab)" "i \<noteq> []"
  obtains tab' ok where "insertPaneLocked sm tab i target dir = Ret (tab', ok)"
    "ok \<Longrightarrow> leaves_ok tab' (insert i (set (treePanesLocked sm tab)))" "\<not> ok \<Longrightarrow> tab' = tab"
    "target = [] \<Longrightarrow> ok" "t_ID tab' = t_ID tab" "t_Panes tab' = t_Panes tab" "t_ProjectID tab' = t_ProjectID tab"
    "overlayID tab' = overlayID tab"
proof -
  let ?P = "treePanesExceptLocked sm tab i"
  have P: "[] \<notin> set ?P" "distinct ?P"
    using assms by (auto simp: treePanesExceptLocked_def treePanesLocked_def)
  obtain b where b: "Normalize (tree_of (t_Layout tab)) ?P (TemplateLayout tab) (TemplateMain tab) = Ret b"
      "set (PaneIDs b) = set ?P" "distinct (PaneIDs b)" "full b" "b = None \<longleftrightarrow> ?P = []"
    using Normalize_outcome [OF P assms(3) [unfolded tab_leaves_def]] by metis
  show thesis
  proof (cases "b = None")
    case True
    have "leaves_ok (storeTreeLocked tab (Some (leaf i))) (insert i (set (treePanesLocked sm tab)))"
      using assms(4) by (intro leaves_ok_store) auto
    with True b(1) show thesis
      by (cases "target = []"; intro that [of "if target = [] then storeTreeLocked tab (Some (leaf i)) else tab" "target = []"])
        (simp_all add: insertPaneLocked_def storedTree_eq)
  next
    case False
    define tgt where "tgt = (if target \<noteq> [] then target else hd (PaneIDs b))"
    have ne: "PaneIDs b \<noteq> []" using False b(4) by (simp add: full_leaves)
    then have tgt: "(if target \<noteq> [] then Ret target else case PaneIDs b of [] \<Rightarrow> Panic | p # _ \<Rightarrow> Ret p) = Ret tgt"
      by (auto simp: tgt_def split: list.split)
    obtain out ok where out: "SplitLeaf b tgt dir i = (out, ok)" by fastforce
    then have ok: "ok \<longleftrightarrow> tgt \<in> set (PaneIDs b)" using snd_SplitLeaf [of b tgt dir i] by simp
    have eq: "insertPaneLocked sm tab i target dir = Ret (if ok then storeTreeLocked tab out else tab, ok)"
      using False b(1) out by (auto simp: insertPaneLocked_def storedTree_eq tgt)
    have "leaves_ok (storeTreeLocked tab out) (insert i (set (treePanesLocked sm tab)))" if "ok"
    proof -
      have t: "tgt \<in> set (PaneIDs b)" using that ok by simp
      then have "tgt \<noteq> i" using b(2) by (auto simp: treePanesExcept_set)
      have out': "PaneIDs out = replace_first tgt [tgt, i] (PaneIDs b)"
        using PaneIDs_SplitLeaf [OF t assms(4), of dir] out by simp
      have "i \<notin> set (PaneIDs b)" using b(2) by (simp add: treePanesExcept_set)
      then have "distinct (PaneIDs out)"
        unfolding out' using \<open>tgt \<noteq> i\<close> by (intro distinct_replace_first b(3)) simp_all
      moreover have "set (PaneIDs out) = {tgt, i} \<union> (set (PaneIDs b) - {tgt})"
        unfolding out' by (subst set_replace_first [OF t b(3)]) simp
      then have "set (PaneIDs out) \<subseteq> insert i (set (treePanesLocked sm tab))"
        using t by (auto simp: b(2) treePanesExcept_set)
      ultimately show ?thesis by (rule leaves_ok_store)
    qed
    moreover have "ok" if "target = []" using that ok ne by (simp add: tgt_def)
    ultimately show thesis
      using eq by (cases ok; intro that [of "if ok then storeTreeLocked tab out else tab" ok]) simp_all
  qed
qed

text \<open>What a client's tree is stored as: exactly the tab's tree panes, each once, or nothing.\<close>

lemma validLayout_Ret:
  assumes "[] \<notin> set (t_Panes tab)" "distinct (t_Panes tab)"
  obtains raw' where "validLayoutLocked sm tab raw = Ret raw'"
    "PaneIDs (tree_of raw') = [] \<or> distinct (PaneIDs (tree_of raw')) \<and> set (PaneIDs (tree_of raw')) = set (treePanesLocked sm tab)"
    "length (treePanesLocked sm tab) \<le> maxNestingDepth \<Longrightarrow> treePanesLocked sm tab \<noteq> [] \<Longrightarrow>
      valid_tree (tree_of raw') \<and> distinct (PaneIDs (tree_of raw')) \<and> set (PaneIDs (tree_of raw')) = set (treePanesLocked sm tab)"
proof -
  let ?P = "treePanesLocked sm tab"
  let ?parsed = "case Parse raw of None \<Rightarrow> None | Some n \<Rightarrow> n"
  have P: "[] \<notin> set ?P" "distinct ?P" using assms by (auto simp: treePanesLocked_def)
  have S: "distinct (PaneIDs (Sanitize (wellFormed ?parsed)))" "valid_tree (Sanitize (wellFormed ?parsed))"
    by (simp_all add: Sanitize_valid)
  obtain b where b: "Normalize (Sanitize (wellFormed ?parsed)) ?P (TemplateLayout tab) (TemplateMain tab) = Ret b"
      "set (PaneIDs b) = set ?P" "distinct (PaneIDs b)" "b = None \<longleftrightarrow> ?P = []"
    using Normalize_outcome [OF P S(1)] by metis
  have valid: "valid_tree b"
    using Normalize_Ret [of ?P "Sanitize (wellFormed ?parsed)" "TemplateLayout tab" "TemplateMain tab"] P b(1,4) S(2)
    by (cases "?P = []") auto
  then have sh: "shaped b" by (simp add: valid_tree_def)
  consider "b = None" | "b \<noteq> None" "Parse raw \<noteq> None" "Equal b (Clone ?parsed)"
    | "b \<noteq> None" "\<not> (Parse raw \<noteq> None \<and> Equal b (Clone ?parsed))" by blast
  then show thesis
  proof cases
    case 1
    then show thesis using b by (intro that [of Raw_Nil]) (simp_all add: validLayoutLocked_def)
  next
    case 2
    obtain n where n: "Parse raw = Some n" using 2 by auto
    have bn: "b = Clone n" using 2 n by (simp add: Equal_def)
    have wf: "wellFormed n = b"
    proof -
      have "wellFormed (Clone n) = wellFormed n"
        by (induction n rule: node_induct) (auto simp: Let_def split: option.splits)
      with bn sh shaped_wellFormed show ?thesis by metis
    qed
    have "tree_of raw = b" using n wf by (simp add: tree_of_def)
    with 2 b n bn valid show thesis
      by (intro that [of raw]) (auto simp: validLayoutLocked_def Equal_def)
  next
    case 3
    have V: "validLayoutLocked sm tab raw = Ret (Marshal b)"
      using 3 b(1) by (auto simp: validLayoutLocked_def Let_def)
    show thesis
    proof (rule that [OF V])
      show "PaneIDs (tree_of (Marshal b)) = [] \<or>
          distinct (PaneIDs (tree_of (Marshal b))) \<and> set (PaneIDs (tree_of (Marshal b))) = set ?P"
        using leaves_tree_of_Marshal [of b] b(2,3) by metis
      assume "length ?P \<le> maxNestingDepth"
      then have "length (PaneIDs b) \<le> maxNestingDepth"
        using b(2,3) P(2) by (metis distinct_card)
      then show "valid_tree (tree_of (Marshal b)) \<and> distinct (PaneIDs (tree_of (Marshal b)))
          \<and> set (PaneIDs (tree_of (Marshal b))) = set ?P"
        using tree_of_Marshal_small [OF sh] b valid by simp
    qed
  qed
qed

end
