(* ===== verification/Membership.thy ===== *)
theory Membership
  imports Main "HOL-Library.Multiset"
begin

text \<open>
  The two-sided link the session store keeps twice: a child names its parent, the parent lists its
  children. \<open>linked own kids\<close> says that both sides agree, that no list repeats a child and that
  every named parent exists; the lemmas give one edit of both sides each.
\<close>

definition linked :: "('c \<rightharpoonup> 'p) \<Rightarrow> ('p \<rightharpoonup> 'c list) \<Rightarrow> bool" where
  "linked own kids \<longleftrightarrow>
     (\<forall>t cs. kids t = Some cs \<longrightarrow> distinct cs \<and> (\<forall>c. c \<in> set cs \<longleftrightarrow> own c = Some t))
     \<and> (\<forall>c t. own c = Some t \<longrightarrow> kids t \<noteq> None)"

named_theorems linked_intros

lemma linkedI:
  assumes "\<And>t cs. kids t = Some cs \<Longrightarrow> distinct cs"
    "\<And>t cs c. kids t = Some cs \<Longrightarrow> c \<in> set cs \<longleftrightarrow> own c = Some t"
    "\<And>c t. own c = Some t \<Longrightarrow> kids t \<noteq> None"
  shows "linked own kids"
  using assms unfolding linked_def by blast

lemma linked_distinct: "linked own kids \<Longrightarrow> kids t = Some cs \<Longrightarrow> distinct cs"
  and linked_mem: "linked own kids \<Longrightarrow> kids t = Some cs \<Longrightarrow> c \<in> set cs \<longleftrightarrow> own c = Some t"
  and linked_parent: "linked own kids \<Longrightarrow> own c = Some t \<Longrightarrow> kids t \<noteq> None"
  unfolding linked_def by blast+

lemma linked_listed: "linked own kids \<Longrightarrow> own c = Some t \<Longrightarrow> \<exists>cs. kids t = Some cs \<and> c \<in> set cs"
  using linked_parent linked_mem by fastforce

lemma linked_empty [linked_intros]: "linked Map.empty Map.empty"
  by (simp add: linked_def)

lemma linked_new_parent [linked_intros]:
  assumes "linked own kids" "kids t = None"
  shows "linked own (kids(t \<mapsto> []))"
  by (rule linkedI)
    (use assms linked_distinct linked_mem linked_parent in \<open>fastforce split: if_splits\<close>)+

lemma linked_add [linked_intros]:
  assumes "linked own kids" "own c = None" "kids t = Some cs"
  shows "linked (own(c \<mapsto> t)) (kids(t \<mapsto> cs @ [c]))"
  by (rule linkedI)
    (use assms linked_distinct [OF assms(1)] linked_mem [OF assms(1)] linked_parent [OF assms(1)]
     in \<open>auto split: if_splits\<close>)

lemma linked_remove [linked_intros]:
  assumes "linked own kids" "own c = Some t" "kids t = Some cs"
  shows "linked (own(c := None)) (kids(t \<mapsto> remove1 c cs))"
  by (rule linkedI)
    (use assms linked_distinct [OF assms(1)] linked_mem [OF assms(1)] linked_parent [OF assms(1)]
     in \<open>auto split: if_splits\<close>)

lemma linked_move [linked_intros]:
  assumes "linked own kids" "own c = Some t" "kids t = Some cs" "kids t' = Some ds" "t \<noteq> t'"
  shows "linked (own(c \<mapsto> t')) (kids(t \<mapsto> remove1 c cs, t' \<mapsto> ds @ [c]))"
  by (rule linkedI)
    (use assms linked_distinct [OF assms(1)] linked_mem [OF assms(1)] linked_parent [OF assms(1)]
     in \<open>auto split: if_splits\<close>)

lemma linked_perm [linked_intros]:
  assumes "linked own kids" "kids t = Some cs" "mset ds = mset cs"
  shows "linked own (kids(t \<mapsto> ds))"
proof -
  have "distinct ds" using linked_distinct [OF assms(1,2)] mset_eq_imp_distinct_iff [OF assms(3)] by simp
  moreover have "c \<in> set ds \<longleftrightarrow> own c = Some t" for c
    using linked_mem [OF assms(1,2)] mset_eq_setD [OF assms(3)] by simp
  ultimately show ?thesis
    by (intro linkedI)
      (use linked_distinct [OF assms(1)] linked_mem [OF assms(1)] linked_parent [OF assms(1)]
       in \<open>auto split: if_splits\<close>)
qed

lemma linked_replace [linked_intros]:
  assumes "linked own kids" "own c = Some t" "kids t = Some (as @ c # bs)" "own d = None"
  shows "linked (own(c := None, d \<mapsto> t)) (kids(t \<mapsto> as @ d # bs))"
proof -
  have dist: "distinct (as @ c # bs)" by (rule linked_distinct [OF assms(1,3)])
  have mem: "x \<in> set (as @ c # bs) \<longleftrightarrow> own x = Some t" for x by (rule linked_mem [OF assms(1,3)])
  have "d \<notin> set as \<union> set bs" "c \<noteq> d" using mem [of d] assms(2,4) by auto
  have mem': "x \<in> set (as @ d # bs) \<longleftrightarrow> (own(c := None, d \<mapsto> t)) x = Some t" for x
    using mem [of x] dist \<open>c \<noteq> d\<close> by auto
  have dist': "distinct (as @ d # bs)" using dist \<open>d \<notin> set as \<union> set bs\<close> by auto
  show ?thesis
  proof (rule linkedI)
    fix u cs assume "(kids(t \<mapsto> as @ d # bs)) u = Some cs"
    then consider "u = t" "cs = as @ d # bs" | "u \<noteq> t" "kids u = Some cs" by (auto split: if_splits)
    note cs = this
    from cs show "distinct cs" using dist' linked_distinct [OF assms(1)] by cases auto
    show "x \<in> set cs \<longleftrightarrow> (own(c := None, d \<mapsto> t)) x = Some u" for x
      using cs
    proof cases
      case 1
      with mem' show ?thesis by simp
    next
      case 2
      with linked_mem [OF assms(1) 2(2), of x] assms(2,4) show ?thesis by auto
    qed
  next
    fix x u assume "(own(c := None, d \<mapsto> t)) x = Some u"
    with linked_parent [OF assms(1), of x] show "(kids(t \<mapsto> as @ d # bs)) u \<noteq> None"
      by (auto split: if_splits)
  qed
qed

lemma linked_drop_parent [linked_intros]:
  assumes "linked own kids" "kids t = Some cs"
  shows "linked (own |` (- set cs)) (kids(t := None))"
  by (rule linkedI)
    (use assms linked_distinct [OF assms(1)] linked_mem [OF assms(1)] linked_parent [OF assms(1)]
     in \<open>auto simp: restrict_map_def split: if_splits\<close>)

lemma linked_same:
  "linked own kids \<Longrightarrow> own' = own \<Longrightarrow> kids' = kids \<Longrightarrow> linked own' kids'"
  by simp

section \<open>Reading one side off a map of records\<close>

lemma omap_upd [simp]: "(map_option f \<circ> m(k := v)) = (map_option f \<circ> m)(k := map_option f v)"
  by auto

lemma omap_restrict [simp]: "(map_option f \<circ> m |` S) = (map_option f \<circ> m) |` S"
  by (auto simp: restrict_map_def)

lemma omap_same: "m k = Some x \<Longrightarrow> f y = f x \<Longrightarrow> (map_option f \<circ> m)(k \<mapsto> f y) = map_option f \<circ> m"
  by auto

end
