(* ===== verification/Session_Inv.thy ===== *)
theory Session_Inv
  imports Session_Layout Membership
begin

text \<open>
  The invariant of the session store, in two halves that share the tab map: \<open>pane_inv\<close> (tabs and
  panes: both sides of the membership link, the stored tree, the overlay slot) and \<open>project_inv\<close>
  (tabs and projects: the link, the two order lists, the three active ids). Each half has one
  lemma per kind of edit, and the operations of the store are discharged by them.
\<close>

section \<open>Tabs and panes\<close>

definition tree_set :: "(string \<rightharpoonup> Pane) \<Rightarrow> Tab \<Rightarrow> string set" where
  "tree_set panes tab = {i \<in> set (t_Panes tab). \<exists>p. panes i = Some p \<and> \<not> p_treeless p}"

lemma set_treePanes: "set (treePanesLocked sm tab) = tree_set (sm_panes sm) tab"
  by (auto simp: treePanes_set tree_set_def)

definition tab_ok :: "(string \<rightharpoonup> Pane) \<Rightarrow> string \<Rightarrow> Tab \<Rightarrow> bool" where
  "tab_ok panes i tab \<longleftrightarrow> i \<noteq> [] \<and> t_ID tab = i \<and> leaves_ok tab (tree_set panes tab)
     \<and> (overlayID tab = [] \<or> overlayID tab \<in> set (t_Panes tab))"

definition pane_inv :: "(string \<rightharpoonup> Tab) \<Rightarrow> (string \<rightharpoonup> Pane) \<Rightarrow> bool" where
  "pane_inv tabs panes \<longleftrightarrow>
     (\<forall>i tab. tabs i = Some tab \<longrightarrow> tab_ok panes i tab)
     \<and> (\<forall>i p. panes i = Some p \<longrightarrow> i \<noteq> [] \<and> p_ID p = i)
     \<and> linked (map_option p_TabID \<circ> panes) (map_option t_Panes \<circ> tabs)"

lemma pane_inv_tab: "pane_inv tabs panes \<Longrightarrow> tabs i = Some tab \<Longrightarrow> tab_ok panes i tab"
  and pane_inv_pane: "pane_inv tabs panes \<Longrightarrow> panes i = Some p \<Longrightarrow> i \<noteq> [] \<and> p_ID p = i"
  and pane_inv_linked: "pane_inv tabs panes \<Longrightarrow> linked (map_option p_TabID \<circ> panes) (map_option t_Panes \<circ> tabs)"
  by (auto simp: pane_inv_def)

lemma pane_inv_mem:
  assumes "pane_inv tabs panes" "tabs t = Some tab"
  shows "i \<in> set (t_Panes tab) \<longleftrightarrow> (\<exists>p. panes i = Some p \<and> p_TabID p = t)"
  using linked_mem [OF pane_inv_linked [OF assms(1)], of t "t_Panes tab" i] assms(2) by auto

lemma pane_inv_distinct: "pane_inv tabs panes \<Longrightarrow> tabs t = Some tab \<Longrightarrow> distinct (t_Panes tab)"
  using linked_distinct [OF pane_inv_linked, of tabs panes t "t_Panes tab"] by simp

lemma pane_inv_nonempty: "pane_inv tabs panes \<Longrightarrow> tabs t = Some tab \<Longrightarrow> [] \<notin> set (t_Panes tab)"
  using pane_inv_mem pane_inv_pane by metis

lemma pane_inv_parent:
  assumes "pane_inv tabs panes" "panes i = Some p"
  obtains tab where "tabs (p_TabID p) = Some tab" "i \<in> set (t_Panes tab)"
proof -
  have "(map_option p_TabID \<circ> panes) i = Some (p_TabID p)" using assms(2) by simp
  from linked_listed [OF pane_inv_linked [OF assms(1)] this] that show thesis by auto
qed

text \<open>The other tabs do not notice an edit of panes they do not list.\<close>

lemma tab_ok_other:
  assumes "tab_ok panes i tab" "\<And>j. j \<in> set (t_Panes tab) \<Longrightarrow> panes' j = panes j"
  shows "tab_ok panes' i tab"
proof -
  have "tree_set panes' tab = tree_set panes tab" using assms(2) by (auto simp: tree_set_def)
  with assms(1) show ?thesis by (simp add: tab_ok_def)
qed

lemma pane_inv_update:
  assumes inv: "pane_inv tabs panes"
    and link: "linked (map_option p_TabID \<circ> panes') (map_option t_Panes \<circ> tabs')"
    and others: "\<And>i tab j. tabs' i = Some tab \<Longrightarrow> i \<notin> T \<Longrightarrow> tabs i = Some tab"
      "\<And>i tab j. tabs i = Some tab \<Longrightarrow> i \<notin> T \<Longrightarrow> j \<in> set (t_Panes tab) \<Longrightarrow> panes' j = panes j"
    and mine: "\<And>i tab. tabs' i = Some tab \<Longrightarrow> i \<in> T \<Longrightarrow> tab_ok panes' i tab"
    and ids: "\<And>i p. panes' i = Some p \<Longrightarrow> i \<noteq> [] \<and> p_ID p = i"
  shows "pane_inv tabs' panes'"
  unfolding pane_inv_def
proof (intro conjI allI impI link)
  fix i tab assume t: "tabs' i = Some tab"
  show "tab_ok panes' i tab"
  proof (cases "i \<in> T")
    case False
    then show ?thesis
      using others(1) [OF t False] others(2) pane_inv_tab [OF inv] tab_ok_other by metis
  qed (use mine t in blast)
qed (use ids in blast)+

lemma pane_inv_empty: "pane_inv Map.empty Map.empty"
  using linked_empty by (simp add: pane_inv_def comp_def)

lemma pane_inv_new_tab:
  assumes "pane_inv tabs panes" "tabs t = None" "t \<noteq> []" "t_ID tab = t" "t_Panes tab = []"
    "t_Layout tab = Raw_Nil" "overlayID tab = []"
  shows "pane_inv (tabs(t \<mapsto> tab)) panes"
proof (rule pane_inv_update [where T = "{t}", OF assms(1)])
  show "linked (map_option p_TabID \<circ> panes) (map_option t_Panes \<circ> tabs(t \<mapsto> tab))"
    using linked_new_parent [OF pane_inv_linked [OF assms(1)], of t] assms(2,5) by simp
qed (use assms pane_inv_pane [OF assms(1)] in \<open>auto simp: tab_ok_def split: if_splits\<close>)

text \<open>A tab edited with its pane list, overlay slot and id as they were.\<close>

lemma pane_inv_edit_tab:
  assumes "pane_inv tabs panes" "tabs t = Some tab" "t_ID tab' = t" "t_Panes tab' = t_Panes tab"
    "overlayID tab' = overlayID tab" "leaves_ok tab' (tree_set panes tab)"
  shows "pane_inv (tabs(t \<mapsto> tab')) panes"
proof (rule pane_inv_update [where T = "{t}", OF assms(1)])
  show "linked (map_option p_TabID \<circ> panes) (map_option t_Panes \<circ> tabs(t \<mapsto> tab'))"
    using pane_inv_linked [OF assms(1)] assms(2,4) omap_same [of tabs t tab t_Panes tab'] by simp
next
  fix i u assume u: "(tabs(t \<mapsto> tab')) i = Some u" "i \<in> {t}"
  with assms pane_inv_tab [OF assms(1,2)] show "tab_ok panes i u"
    by (auto simp: tab_ok_def tree_set_def)
qed (use assms(2) pane_inv_pane [OF assms(1)] in \<open>auto split: if_splits\<close>)

lemma pane_inv_add:
  assumes inv: "pane_inv tabs panes" and t: "tabs t = Some tab"
    and p: "panes i = None" "i \<noteq> []" "p_ID p = i" "p_TabID p = t"
    and tab': "t_ID tab' = t" "t_Panes tab' = t_Panes tab @ [i]"
      "overlayID tab' = overlayID tab \<or> overlayID tab' \<in> {[], i}"
      "leaves_ok tab' (tree_set panes tab \<union> (if p_treeless p then {} else {i}))"
  shows "pane_inv (tabs(t \<mapsto> tab')) (panes(i \<mapsto> p))"
proof (rule pane_inv_update [where T = "{t}", OF inv])
  show "linked (map_option p_TabID \<circ> panes(i \<mapsto> p)) (map_option t_Panes \<circ> tabs(t \<mapsto> tab'))"
    using linked_add [OF pane_inv_linked [OF inv], of i t "t_Panes tab"] t p tab'(2) by simp
next
  fix k u assume u: "(tabs(t \<mapsto> tab')) k = Some u" "k \<in> {t}"
  then have "u = tab'" "k = t" by auto
  moreover have "tree_set panes tab \<union> (if p_treeless p then {} else {i}) \<subseteq> tree_set (panes(i \<mapsto> p)) tab'"
    using tab'(2) p(1) by (auto simp: tree_set_def)
  then have "leaves_ok tab' (tree_set (panes(i \<mapsto> p)) tab')" using tab'(4) leaves_ok_mono by blast
  ultimately show "tab_ok (panes(i \<mapsto> p)) k u"
    using tab' pane_inv_tab [OF inv t] by (auto simp: tab_ok_def)
next
  fix k u j assume "tabs k = Some u" "k \<notin> {t}" "j \<in> set (t_Panes u)"
  then show "(panes(i \<mapsto> p)) j = panes j" using pane_inv_mem [OF inv] p(1) by auto
qed (use p pane_inv_pane [OF inv] in \<open>auto split: if_splits\<close>)

lemma pane_inv_remove:
  assumes inv: "pane_inv tabs panes" and p: "panes i = Some p" and t: "tabs (p_TabID p) = Some tab"
    and tab': "t_ID tab' = p_TabID p" "t_Panes tab' = remove1 i (t_Panes tab)"
      "overlayID tab' = [] \<or> overlayID tab' = overlayID tab \<and> overlayID tab \<noteq> i"
      "leaves_ok tab' (tree_set panes tab - {i})"
  shows "pane_inv (tabs(p_TabID p \<mapsto> tab')) (panes(i := None))"
proof (rule pane_inv_update [where T = "{p_TabID p}", OF inv])
  show "linked (map_option p_TabID \<circ> panes(i := None)) (map_option t_Panes \<circ> tabs(p_TabID p \<mapsto> tab'))"
    using linked_remove [OF pane_inv_linked [OF inv], of i "p_TabID p" "t_Panes tab"] t p tab'(2) by simp
next
  have d: "distinct (t_Panes tab)" using pane_inv_distinct [OF inv t] .
  fix k u assume u: "(tabs(p_TabID p \<mapsto> tab')) k = Some u" "k \<in> {p_TabID p}"
  then have "u = tab'" "k = p_TabID p" by auto
  moreover have "tree_set panes tab - {i} \<subseteq> tree_set (panes(i := None)) tab'"
    using tab'(2) d by (auto simp: tree_set_def)
  then have "leaves_ok tab' (tree_set (panes(i := None)) tab')" using tab'(4) leaves_ok_mono by blast
  ultimately show "tab_ok (panes(i := None)) k u"
    using tab' d pane_inv_tab [OF inv t] by (auto simp: tab_ok_def)
next
  fix k u j assume "tabs k = Some u" "k \<notin> {p_TabID p}" "j \<in> set (t_Panes u)"
  then show "(panes(i := None)) j = panes j" using pane_inv_mem [OF inv] p by auto
qed (use pane_inv_pane [OF inv] in \<open>auto split: if_splits\<close>)

lemma pane_inv_replace:
  assumes inv: "pane_inv tabs panes" and p: "panes i = Some p" and t: "tabs (p_TabID p) = Some tab"
    and list: "t_Panes tab = as @ i # bs"
    and q: "panes k = None" "k \<noteq> []" "p_ID q = k" "p_TabID q = p_TabID p" "\<not> p_treeless q"
    and tab': "t_ID tab' = p_TabID p" "t_Panes tab' = as @ k # bs"
      "overlayID tab' = [] \<or> overlayID tab' = overlayID tab \<and> overlayID tab \<noteq> i"
      "leaves_ok tab' (insert k (tree_set panes tab - {i}))"
  shows "pane_inv (tabs(p_TabID p \<mapsto> tab')) (panes(i := None, k \<mapsto> q))"
proof (rule pane_inv_update [where T = "{p_TabID p}", OF inv])
  show "linked (map_option p_TabID \<circ> panes(i := None, k \<mapsto> q)) (map_option t_Panes \<circ> tabs(p_TabID p \<mapsto> tab'))"
    using linked_replace [OF pane_inv_linked [OF inv], of i "p_TabID p" as bs k] t p q list tab'(2) by simp
next
  have "i \<noteq> k" using p q by auto
  fix j u assume u: "(tabs(p_TabID p \<mapsto> tab')) j = Some u" "j \<in> {p_TabID p}"
  then have "u = tab'" "j = p_TabID p" by auto
  moreover have "insert k (tree_set panes tab - {i}) \<subseteq> tree_set (panes(i := None, k \<mapsto> q)) tab'"
    using tab'(2) list q by (auto simp: tree_set_def)
  then have "leaves_ok tab' (tree_set (panes(i := None, k \<mapsto> q)) tab')" using tab'(4) leaves_ok_mono by blast
  ultimately show "tab_ok (panes(i := None, k \<mapsto> q)) j u"
    using tab' list pane_inv_tab [OF inv t] by (auto simp: tab_ok_def)
next
  fix j u l assume "tabs j = Some u" "j \<notin> {p_TabID p}" "l \<in> set (t_Panes u)"
  then show "(panes(i := None, k \<mapsto> q)) l = panes l" using pane_inv_mem [OF inv] p q by auto
qed (use q pane_inv_pane [OF inv] in \<open>auto split: if_splits\<close>)

lemma pane_inv_move:
  assumes inv: "pane_inv tabs panes" and p: "panes i = Some p" and s: "tabs (p_TabID p) = Some src"
    and d: "tabs t = Some dst" "t \<noteq> p_TabID p" and q: "p_ID q = i" "p_TabID q = t" "p_treeless q = p_treeless p"
    and src': "t_ID src' = p_TabID p" "t_Panes src' = remove1 i (t_Panes src)"
      "overlayID src' = [] \<or> overlayID src' = overlayID src \<and> overlayID src \<noteq> i"
      "leaves_ok src' (tree_set panes src - {i})"
    and dst': "t_ID dst' = t" "t_Panes dst' = t_Panes dst @ [i]" "overlayID dst' = overlayID dst"
      "leaves_ok dst' (tree_set panes dst \<union> (if p_treeless p then {} else {i}))"
  shows "pane_inv (tabs(p_TabID p \<mapsto> src', t \<mapsto> dst')) (panes(i \<mapsto> q))"
proof (rule pane_inv_update [where T = "{p_TabID p, t}", OF inv])
  show "linked (map_option p_TabID \<circ> panes(i \<mapsto> q))
      (map_option t_Panes \<circ> tabs(p_TabID p \<mapsto> src', t \<mapsto> dst'))"
    using linked_move [OF pane_inv_linked [OF inv], of i "p_TabID p" "t_Panes src" t "t_Panes dst"]
      s d p q src'(2) dst'(2) by simp
next
  have dist: "distinct (t_Panes src)" using pane_inv_distinct [OF inv s] .
  fix j u assume u: "(tabs(p_TabID p \<mapsto> src', t \<mapsto> dst')) j = Some u" "j \<in> {p_TabID p, t}"
  then consider "j = t" "u = dst'" | "j = p_TabID p" "u = src'" using d(2) by (auto split: if_splits)
  then show "tab_ok (panes(i \<mapsto> q)) j u"
  proof cases
    case 1
    have "tree_set panes dst \<union> (if p_treeless p then {} else {i}) \<subseteq> tree_set (panes(i \<mapsto> q)) dst'"
      using dst'(2) q p by (auto simp: tree_set_def)
    then have "leaves_ok dst' (tree_set (panes(i \<mapsto> q)) dst')" using dst'(4) leaves_ok_mono by blast
    with 1 dst' pane_inv_tab [OF inv d(1)] show ?thesis by (auto simp: tab_ok_def)
  next
    case 2
    have "tree_set panes src - {i} \<subseteq> tree_set (panes(i \<mapsto> q)) src'"
      using src'(2) dist by (auto simp: tree_set_def)
    then have "leaves_ok src' (tree_set (panes(i \<mapsto> q)) src')" using src'(4) leaves_ok_mono by blast
    with 2 src' dist pane_inv_tab [OF inv s] show ?thesis by (auto simp: tab_ok_def)
  qed
next
  fix j u l assume "tabs j = Some u" "j \<notin> {p_TabID p, t}" "l \<in> set (t_Panes u)"
  then show "(panes(i \<mapsto> q)) l = panes l" using pane_inv_mem [OF inv] p by auto
qed (use p q pane_inv_pane [OF inv] in \<open>auto split: if_splits\<close>)

lemma pane_inv_drop_tab:
  assumes inv: "pane_inv tabs panes" and t: "tabs t = Some tab"
  shows "pane_inv (tabs(t := None)) (panes |` (- set (t_Panes tab)))"
proof (rule pane_inv_update [where T = "{t}", OF inv])
  show "linked (map_option p_TabID \<circ> panes |` (- set (t_Panes tab))) (map_option t_Panes \<circ> tabs(t := None))"
    using linked_drop_parent [OF pane_inv_linked [OF inv], of t "t_Panes tab"] t by simp
next
  fix j u l assume j: "tabs j = Some u" "j \<notin> {t}" "l \<in> set (t_Panes u)"
  then have "l \<notin> set (t_Panes tab)" using pane_inv_mem [OF inv] t by (metis insertI1 option.inject)
  then show "(panes |` (- set (t_Panes tab))) l = panes l" by (simp add: restrict_map_def)
qed (use pane_inv_pane [OF inv] in \<open>auto simp: restrict_map_def split: if_splits\<close>)

end
