(* ===== verification/Session_Order.thy ===== *)
theory Session_Order
  imports Session_Inv
begin

text \<open>
  The project half of the store's invariant: every tab belongs to the project that lists it, the
  global tab order holds every tab once, and restricted to one project's tabs it IS that project's
  own order. \<open>owner\<close> is the project each tab names. One lemma per kind of edit.
\<close>

definition orders_agree :: "string list \<Rightarrow> (string \<rightharpoonup> Project) \<Rightarrow> bool" where
  "orders_agree order projects \<longleftrightarrow>
     (\<forall>q p. projects q = Some p \<longrightarrow> filter (\<lambda>t. t \<in> set (j_TabIDs p)) order = j_TabIDs p)"

definition struct_inv :: "(string \<rightharpoonup> string) \<Rightarrow> string list \<Rightarrow> (string \<rightharpoonup> Project) \<Rightarrow> bool" where
  "struct_inv owner order projects \<longleftrightarrow>
     linked owner (map_option j_TabIDs \<circ> projects) \<and> distinct order \<and> set order = dom owner
     \<and> orders_agree order projects"

definition ids_inv :: "(string \<rightharpoonup> Project) \<Rightarrow> string list \<Rightarrow> bool" where
  "ids_inv projects projectOrder \<longleftrightarrow>
     (\<forall>i p. projects i = Some p \<longrightarrow> i \<noteq> [] \<and> j_ID p = i \<and> (j_ActiveTab p = [] \<or> j_ActiveTab p \<in> set (j_TabIDs p)))
     \<and> distinct projectOrder \<and> set projectOrder = dom projects"

definition active_inv :: "session \<Rightarrow> bool" where
  "active_inv sm \<longleftrightarrow>
     (sm_activeTab sm = [] \<or> sm_tabs sm (sm_activeTab sm) \<noteq> None)
     \<and> (if sm_projectOrder sm = [] then sm_activeProject sm = []
        else sm_projects sm (sm_activeProject sm) \<noteq> None)"

definition tab_owner :: "(string \<rightharpoonup> Tab) \<Rightarrow> (string \<rightharpoonup> string)" where
  "tab_owner tabs = map_option t_ProjectID \<circ> tabs"

definition session_inv :: "session \<Rightarrow> bool" where
  "session_inv sm \<longleftrightarrow>
     pane_inv (sm_tabs sm) (sm_panes sm)
     \<and> struct_inv (tab_owner (sm_tabs sm)) (sm_tabOrder sm) (sm_projects sm)
     \<and> ids_inv (sm_projects sm) (sm_projectOrder sm)
     \<and> active_inv sm"

section \<open>Reading the invariant\<close>

lemma struct_mem:
  assumes "struct_inv owner order projects" "projects q = Some p"
  shows "t \<in> set (j_TabIDs p) \<longleftrightarrow> owner t = Some q"
  using assms linked_mem [of owner "map_option j_TabIDs \<circ> projects" q "j_TabIDs p" t]
  by (simp add: struct_inv_def)

lemma struct_distinct:
  assumes "struct_inv owner order projects" "projects q = Some p"
  shows "distinct (j_TabIDs p)"
  using assms linked_distinct [of owner "map_option j_TabIDs \<circ> projects" q "j_TabIDs p"]
  by (simp add: struct_inv_def)

lemma struct_parent:
  assumes "struct_inv owner order projects" "owner t = Some q"
  obtains p where "projects q = Some p" "t \<in> set (j_TabIDs p)"
  using assms linked_listed [of owner "map_option j_TabIDs \<circ> projects" t q] that
  by (auto simp: struct_inv_def)

lemma struct_order:
  "struct_inv owner order projects \<Longrightarrow> distinct order"
  "struct_inv owner order projects \<Longrightarrow> t \<in> set order \<longleftrightarrow> owner t \<noteq> None"
  by (auto simp: struct_inv_def)

lemma struct_filter:
  "struct_inv owner order projects \<Longrightarrow> projects q = Some p \<Longrightarrow>
    filter (\<lambda>t. t \<in> set (j_TabIDs p)) order = j_TabIDs p"
  by (auto simp: struct_inv_def orders_agree_def)

lemma struct_other:
  assumes "struct_inv owner order projects" "projects q = Some p" "owner t \<noteq> Some q"
  shows "t \<notin> set (j_TabIDs p)"
  using struct_mem [OF assms(1,2)] assms(3) by simp

lemma owner_upd [simp]: "tab_owner (tabs(t := x)) = (tab_owner tabs)(t := map_option t_ProjectID x)"
  by (simp add: tab_owner_def)

lemma owner_restrict [simp]: "tab_owner (tabs |` S) = (tab_owner tabs) |` S"
  by (simp add: tab_owner_def)

lemma owner_at: "tab_owner tabs t = map_option t_ProjectID (tabs t)"
  by (simp add: tab_owner_def)

lemma owner_same:
  "tabs t = Some tab \<Longrightarrow> t_ProjectID tab' = t_ProjectID tab \<Longrightarrow> tab_owner (tabs(t \<mapsto> tab')) = tab_owner tabs"
  by (auto simp: tab_owner_def)

section \<open>Edits\<close>

lemma struct_empty: "struct_inv Map.empty [] Map.empty"
  using linked_empty by (simp add: struct_inv_def orders_agree_def comp_def)

lemma struct_new_project:
  assumes "struct_inv owner order projects" "projects q = None" "j_TabIDs p = []"
  shows "struct_inv owner order (projects(q \<mapsto> p))"
  using assms linked_new_parent [of owner "map_option j_TabIDs \<circ> projects" q]
  by (auto simp: struct_inv_def orders_agree_def)

lemma struct_edit_project:
  assumes "struct_inv owner order projects" "projects q = Some p" "j_TabIDs p' = j_TabIDs p"
  shows "struct_inv owner order (projects(q \<mapsto> p'))"
  using assms omap_same [of projects q p j_TabIDs p'] by (auto simp: struct_inv_def orders_agree_def)

lemma struct_add:
  assumes inv: "struct_inv owner order projects" and t: "owner t = None" and q: "projects q = Some p"
    and p': "j_TabIDs p' = j_TabIDs p @ [t]"
  shows "struct_inv (owner(t \<mapsto> q)) (order @ [t]) (projects(q \<mapsto> p'))"
proof -
  have "linked (owner(t \<mapsto> q)) (map_option j_TabIDs \<circ> projects(q \<mapsto> p'))"
    using linked_add [of owner "map_option j_TabIDs \<circ> projects" t q "j_TabIDs p"] inv t q p'
    by (simp add: struct_inv_def)
  moreover have nt: "t \<notin> set order" using struct_order(2) [OF inv] t by simp
  have "orders_agree (order @ [t]) (projects(q \<mapsto> p'))"
    unfolding orders_agree_def
  proof (intro allI impI)
    fix r d assume "(projects(q \<mapsto> p')) r = Some d"
    then consider "r = q" "d = p'" | "r \<noteq> q" "projects r = Some d" by (auto split: if_splits)
    then show "filter (\<lambda>u. u \<in> set (j_TabIDs d)) (order @ [t]) = j_TabIDs d"
    proof cases
      case 1
      have "filter (\<lambda>u. u = t \<or> u \<in> set (j_TabIDs p)) order = filter (\<lambda>u. u \<in> set (j_TabIDs p)) order"
        using nt by (intro filter_cong) auto
      with 1 p' struct_filter [OF inv q] show ?thesis by simp
    next
      case 2
      with struct_filter [OF inv 2(2)] struct_other [OF inv 2(2)] t show ?thesis by simp
    qed
  qed
  ultimately show ?thesis using inv nt by (auto simp: struct_inv_def)
qed

lemma filter_remove1_in:
  "distinct xs \<Longrightarrow> filter p (remove1 v xs) = remove1 v (filter p xs)"
  by (induction xs) (auto simp: remove1_idem)

lemma struct_remove:
  assumes inv: "struct_inv owner order projects" and t: "owner t = Some q" and q: "projects q = Some p"
    and p': "j_TabIDs p' = remove1 t (j_TabIDs p)"
  shows "struct_inv (owner(t := None)) (remove1 t order) (projects(q \<mapsto> p'))"
proof -
  have d: "distinct order" using struct_order(1) [OF inv] .
  have "linked (owner(t := None)) (map_option j_TabIDs \<circ> projects(q \<mapsto> p'))"
    using linked_remove [of owner "map_option j_TabIDs \<circ> projects" t q "j_TabIDs p"] inv t q p'
    by (simp add: struct_inv_def)
  moreover have "orders_agree (remove1 t order) (projects(q \<mapsto> p'))"
    unfolding orders_agree_def
  proof (intro allI impI)
    fix r e assume "(projects(q \<mapsto> p')) r = Some e"
    then consider "r = q" "e = p'" | "r \<noteq> q" "projects r = Some e" by (auto split: if_splits)
    then show "filter (\<lambda>u. u \<in> set (j_TabIDs e)) (remove1 t order) = j_TabIDs e"
    proof cases
      case 1
      have "filter (\<lambda>u. u \<in> set (j_TabIDs p')) (remove1 t order)
          = filter (\<lambda>u. u \<in> set (j_TabIDs p)) (remove1 t order)"
        using d p' struct_distinct [OF inv q] by (intro filter_cong) auto
      with 1 p' struct_filter [OF inv q] d show ?thesis by (simp add: filter_remove1_in)
    next
      case 2
      with struct_filter [OF inv 2(2)] struct_other [OF inv 2(2)] t d show ?thesis
        by (simp add: filter_remove1_in remove1_idem)
    qed
  qed
  ultimately show ?thesis using inv d by (auto simp: struct_inv_def)
qed

text \<open>A tab that moves: out of \<open>q\<close>'s list, to the end of \<open>r\<close>'s, re-anchored in the global order.\<close>

lemma struct_move:
  assumes inv: "struct_inv owner order projects" and t: "owner t = Some q" and q: "projects q = Some p"
    and r: "projects r = Some d" "q \<noteq> r"
    and p': "j_TabIDs p' = remove1 t (j_TabIDs p)" and d': "j_TabIDs d' = j_TabIDs d @ [t]"
  shows "struct_inv (owner(t \<mapsto> r)) (reanchorTab order (j_TabIDs d @ [t]) t) (projects(q \<mapsto> p', r \<mapsto> d'))"
proof -
  let ?o = "reanchorTab order (j_TabIDs d @ [t]) t"
  have dist: "distinct order" using struct_order(1) [OF inv] .
  have td: "t \<notin> set (j_TabIDs d)" using struct_other [OF inv r(1)] t r(2) by simp
  have "linked (owner(t \<mapsto> r)) (map_option j_TabIDs \<circ> projects(q \<mapsto> p', r \<mapsto> d'))"
    using linked_move [of owner "map_option j_TabIDs \<circ> projects" t q "j_TabIDs p" r "j_TabIDs d"]
      inv t q r p' d' by (simp add: struct_inv_def)
  moreover have set: "set ?o = set order"
    using struct_order(2) [OF inv, of t] t dist by (auto simp: reanchor_set)
  moreover have "distinct ?o" using dist by (rule reanchor_distinct)
  moreover have "orders_agree ?o (projects(q \<mapsto> p', r \<mapsto> d'))"
    unfolding orders_agree_def
  proof (intro allI impI)
    fix k e assume "(projects(q \<mapsto> p', r \<mapsto> d')) k = Some e"
    then consider "k = r" "e = d'" | "k = q" "e = p'" | "k \<noteq> q" "k \<noteq> r" "projects k = Some e"
      by (auto split: if_splits)
    then show "filter (\<lambda>u. u \<in> set (j_TabIDs e)) ?o = j_TabIDs e"
    proof cases
      case 1
      have "filter (\<lambda>u. u \<in> set (j_TabIDs d @ [t])) (remove1 t order)
          = filter (\<lambda>u. u \<in> set (j_TabIDs d)) (remove1 t order)"
        using dist by (intro filter_cong) auto
      also have "\<dots> = j_TabIDs d"
        using struct_filter [OF inv r(1)] dist td by (simp add: filter_remove1_in remove1_idem)
      finally show ?thesis
        using 1 d' td struct_distinct [OF inv r(1)] reanchor_filter_self [of "j_TabIDs d @ [t]" t order]
        by (simp add: remove1_append)
    next
      case 2
      have "filter (\<lambda>u. u \<in> set (j_TabIDs p')) ?o = filter (\<lambda>u. u \<in> set (j_TabIDs p')) order"
        using dist p' struct_distinct [OF inv q] by (intro reanchor_filter_other) auto
      also have "\<dots> = filter (\<lambda>u. u \<in> set (j_TabIDs p')) (remove1 t order)"
        using p' struct_distinct [OF inv q] by (simp add: filter_remove1_out)
      also have "\<dots> = filter (\<lambda>u. u \<in> set (j_TabIDs p)) (remove1 t order)"
        using dist p' struct_distinct [OF inv q] by (intro filter_cong) auto
      finally show ?thesis using 2 p' struct_filter [OF inv q] dist by (simp add: filter_remove1_in)
    next
      case 3
      with struct_other [OF inv 3(3)] t have "t \<notin> set (j_TabIDs e)" by simp
      then show ?thesis
        using struct_filter [OF inv 3(3)] dist by (subst reanchor_filter_other) auto
    qed
  qed
  ultimately show ?thesis using inv t by (auto simp: struct_inv_def)
qed

text \<open>A drag inside a project.\<close>

lemma struct_slide:
  assumes inv: "struct_inv owner order projects" and q: "projects q = Some p" and t: "t \<in> set (j_TabIDs p)"
    and p': "j_TabIDs p' = insert_at k t (remove1 t (j_TabIDs p))"
  shows "struct_inv owner (reanchorTab order (j_TabIDs p') t) (projects(q \<mapsto> p'))"
proof -
  let ?o = "reanchorTab order (j_TabIDs p') t"
  have dist: "distinct order" using struct_order(1) [OF inv] .
  have dp: "distinct (j_TabIDs p)" using struct_distinct [OF inv q] .
  have mset: "mset (j_TabIDs p') = mset (j_TabIDs p)" using p' t by simp
  then have sp: "set (j_TabIDs p') = set (j_TabIDs p)" by (rule mset_eq_setD)
  have dp': "distinct (j_TabIDs p')" using mset dp mset_eq_imp_distinct_iff by metis
  have "linked owner (map_option j_TabIDs \<circ> projects(q \<mapsto> p'))"
    using linked_perm [of owner "map_option j_TabIDs \<circ> projects" q "j_TabIDs p"] inv q mset
    by (simp add: struct_inv_def)
  moreover have "set ?o = set order"
    using struct_order(2) [OF inv, of t] struct_mem [OF inv q, of t] t sp dist by (auto simp: reanchor_set)
  moreover have "distinct ?o" using dist by (rule reanchor_distinct)
  moreover have "orders_agree ?o (projects(q \<mapsto> p'))"
    unfolding orders_agree_def
  proof (intro allI impI)
    fix k e assume "(projects(q \<mapsto> p')) k = Some e"
    then consider "k = q" "e = p'" | "k \<noteq> q" "projects k = Some e" by (auto split: if_splits)
    then show "filter (\<lambda>u. u \<in> set (j_TabIDs e)) ?o = j_TabIDs e"
    proof cases
      case 1
      have "filter (\<lambda>u. u \<in> set (j_TabIDs p')) (remove1 t order) = remove1 t (j_TabIDs p)"
        using struct_filter [OF inv q] dist sp by (simp add: filter_remove1_in)
      moreover have "remove1 t (j_TabIDs p') = remove1 t (j_TabIDs p)"
        using p' dp by (simp add: remove1_insert_at)
      ultimately show ?thesis
        using 1 dp' sp t reanchor_filter_self [of "j_TabIDs p'" t order] by simp
    next
      case 2
      have "owner t = Some q" using struct_mem [OF inv q] t by simp
      with struct_other [OF inv 2(2)] 2(1) have "t \<notin> set (j_TabIDs e)" by auto
      then show ?thesis
        using struct_filter [OF inv 2(2)] dist sp t by (subst reanchor_filter_other) auto
    qed
  qed
  ultimately show ?thesis using inv by (auto simp: struct_inv_def)
qed

lemma struct_drop_project:
  assumes inv: "struct_inv owner order projects" and q: "projects q = Some p" "j_TabIDs p = []"
  shows "struct_inv owner order (projects(q := None))"
proof -
  have "owner |` (- set (j_TabIDs p)) = owner" using q(2) by (simp add: restrict_map_def)
  then have "linked owner (map_option j_TabIDs \<circ> projects(q := None))"
    using linked_drop_parent [of owner "map_option j_TabIDs \<circ> projects" q "j_TabIDs p"] inv q
    by (simp add: struct_inv_def)
  then show ?thesis using inv by (auto simp: struct_inv_def orders_agree_def)
qed

end
