(* ===== verification/Session_Panes.thy ===== *)
theory Session_Panes
  imports Session_Inv
begin

text \<open>
  The pane operations of \<open>internal/daemon/session.go\<close>: create, publish into a slot, replace,
  destroy, move. Each keeps \<open>pane_inv\<close>, never panics on a store that satisfies it, and hands
  every pane it detaches back to its caller.
\<close>

section \<open>Operations\<close>

definition mk_pane :: "session \<Rightarrow> string \<Rightarrow> string \<Rightarrow> string \<Rightarrow> bool \<Rightarrow> Pane" where
  "mk_pane sm i tabID cwd treeless =
     \<lparr>p_ID = i, p_TabID = tabID, p_CWD = cwd, p_OutputBuf = NewRingBuffer (sm_bufSize sm),
      p_freshID = True, p_treeless = treeless\<rparr>"

text \<open>\<open>u\<close> is what \<open>uuid.New().String()[:8]\<close> returned; \<open>None\<close> is the error result.\<close>

definition createPane ::
    "session \<Rightarrow> string \<Rightarrow> string \<Rightarrow> bool \<Rightarrow> string \<Rightarrow> (session \<times> Pane) option" where
  "createPane sm tabID cwd treeless u =
     (case sm_tabs sm tabID of
        None \<Rightarrow> None
      | Some tab \<Rightarrow>
          (let i = ''pane-'' @ u; pane = mk_pane sm i tabID cwd treeless
           in Some (sm\<lparr>sm_panes := (sm_panes sm)(i \<mapsto> pane),
                       sm_tabs := (sm_tabs sm)(tabID \<mapsto> tab\<lparr>t_Panes := t_Panes tab @ [i]\<rparr>)\<rparr>, pane)))"

definition NewPane :: "session \<Rightarrow> string \<Rightarrow> string \<Rightarrow> Pane" where
  "NewPane sm cwd u = mk_pane sm (''pane-'' @ u) [] cwd False"

text \<open>\<open>tab.Panes[i] = newPane.ID\<close> at the first entry equal to the old id.\<close>

definition clear_overlay :: "Tab \<Rightarrow> string \<Rightarrow> Tab" where
  "clear_overlay tab i = (if overlayID tab = i then tab\<lparr>overlayID := [], overlayKey := []\<rparr> else tab)"

definition replacePaneLocked :: "session \<Rightarrow> string \<Rightarrow> Pane \<Rightarrow> (session \<times> Pane) option" where
  "replacePaneLocked sm oldPaneID newPane =
     (case sm_panes sm oldPaneID of
        None \<Rightarrow> None
      | Some oldPane \<Rightarrow>
          (let tabs' = (case sm_tabs sm (p_TabID oldPane) of
                 None \<Rightarrow> sm_tabs sm
               | Some tab \<Rightarrow>
                   (let tab1 = tab\<lparr>t_Panes := replace_first oldPaneID [p_ID newPane] (t_Panes tab)\<rparr>;
                        tab2 = substituteTreeLocked tab1 oldPaneID (p_ID newPane)
                    in (sm_tabs sm)(p_TabID oldPane \<mapsto> clear_overlay tab2 oldPaneID)));
               newPane' = newPane\<lparr>p_TabID := p_TabID oldPane\<rparr>
           in Some (sm\<lparr>sm_tabs := tabs',
                       sm_panes := (sm_panes sm)(oldPaneID := None, p_ID newPane \<mapsto> newPane')\<rparr>, oldPane)))"

definition ReplacePane :: "session \<Rightarrow> string \<Rightarrow> Pane \<Rightarrow> (session \<times> Pane list) option" where
  "ReplacePane sm oldPaneID newPane =
     (case replacePaneLocked sm oldPaneID newPane of
        None \<Rightarrow> None | Some (sm', oldPane) \<Rightarrow> Some (sm', [oldPane]))"

text \<open>The helpers on a live tab; \<open>tabID\<close> is the key the tab is stored under.\<close>

definition addPaneLocked :: "session \<Rightarrow> string \<Rightarrow> Tab \<Rightarrow> Pane \<Rightarrow> session" where
  "addPaneLocked sm tabID tab p =
     sm\<lparr>sm_panes := (sm_panes sm)(p_ID p \<mapsto> p\<lparr>p_TabID := t_ID tab\<rparr>),
        sm_tabs := (sm_tabs sm)(tabID \<mapsto> tab\<lparr>t_Panes := t_Panes tab @ [p_ID p]\<rparr>)\<rparr>"

definition detachPaneLocked :: "session \<Rightarrow> string \<Rightarrow> Tab \<Rightarrow> Pane \<Rightarrow> session" where
  "detachPaneLocked sm tabID tab p =
     (let tab1 = tab\<lparr>t_Panes := removeString (t_Panes tab) (p_ID p)\<rparr>;
          tab2 = pruneTreeLocked tab1 (p_ID p)
      in sm\<lparr>sm_tabs := (sm_tabs sm)(tabID \<mapsto> clear_overlay tab2 (p_ID p)),
            sm_panes := (sm_panes sm)(p_ID p := None)\<rparr>)"

record paneSlot =
  s_TabID :: string
  s_Split :: bool
  s_TargetID :: string
  s_Dir :: SplitDir
  s_ReplaceID :: string
  s_OverlayKey :: string

record publishResult =
  r_Pane :: Pane
  r_Reused :: bool
  r_Evicted :: "Pane option"
  r_Replaced :: "Pane option"
  r_LayoutRev :: u64

text \<open>The tab a pointer names after a helper wrote through it.\<close>

definition tab_at :: "session \<Rightarrow> string \<Rightarrow> Tab \<Rightarrow> Tab" where
  "tab_at sm tabID tab = (case sm_tabs sm tabID of None \<Rightarrow> tab | Some t \<Rightarrow> t)"

definition publish_done :: "session \<Rightarrow> string \<Rightarrow> Tab \<Rightarrow> Pane \<Rightarrow> Pane option \<Rightarrow> Pane option
    \<Rightarrow> (session \<times> publishResult option) outcome" where
  "publish_done sm tabID tab p evicted replaced =
     Ret (sm, Some \<lparr>r_Pane = p\<lparr>p_TabID := t_ID tab\<rparr>, r_Reused = False, r_Evicted = evicted, r_Replaced = replaced,
                    r_LayoutRev = t_LayoutRev (tab_at sm tabID tab)\<rparr>)"

text \<open>The error result is \<open>None\<close>; the state beside it shows what an error leaves behind.\<close>

definition PublishPane :: "session \<Rightarrow> Pane \<Rightarrow> paneSlot \<Rightarrow> (session \<times> publishResult option) outcome" where
  "PublishPane sm p slot =
     (let tabID = s_TabID slot in
      case sm_tabs sm tabID of
        None \<Rightarrow> Ret (sm, None)
      | Some tab \<Rightarrow>
        if s_OverlayKey slot \<noteq> [] then
          (case (if overlayID tab \<noteq> [] then sm_panes sm (overlayID tab) else None) of
             Some cur \<Rightarrow>
               if overlayKey tab = s_OverlayKey slot then
                 Ret (sm, Some \<lparr>r_Pane = cur, r_Reused = True, r_Evicted = None, r_Replaced = None,
                               r_LayoutRev = t_LayoutRev tab\<rparr>)
               else
                 (let sm1 = detachPaneLocked sm tabID tab cur;
                      sm2 = addPaneLocked sm1 tabID (tab_at sm1 tabID tab) p;
                      sm3 = sm2\<lparr>sm_tabs := (sm_tabs sm2)(tabID \<mapsto>
                              (tab_at sm2 tabID tab)\<lparr>overlayID := p_ID p, overlayKey := s_OverlayKey slot\<rparr>)\<rparr>
                  in publish_done sm3 tabID tab p (Some cur) None)
           | None \<Rightarrow>
                 (let sm2 = addPaneLocked sm tabID tab p;
                      sm3 = sm2\<lparr>sm_tabs := (sm_tabs sm2)(tabID \<mapsto>
                              (tab_at sm2 tabID tab)\<lparr>overlayID := p_ID p, overlayKey := s_OverlayKey slot\<rparr>)\<rparr>
                  in publish_done sm3 tabID tab p None None))
        else if s_ReplaceID slot \<noteq> [] then
          (case sm_panes sm (s_ReplaceID slot) of
             None \<Rightarrow> Ret (sm, None)
           | Some old \<Rightarrow>
               if p_TabID old \<noteq> t_ID tab then Ret (sm, None)
               else (case replacePaneLocked sm (s_ReplaceID slot) p of
                   None \<Rightarrow> Ret (sm, None)
                 | Some (sm1, _) \<Rightarrow> publish_done sm1 tabID tab p None (Some old)))
        else if s_Split slot then
          (if s_TargetID slot \<noteq> [] \<and>
              (case sm_panes sm (s_TargetID slot) of None \<Rightarrow> True | Some t \<Rightarrow> p_TabID t \<noteq> t_ID tab)
           then Ret (sm, None)
           else
             (let sm1 = addPaneLocked sm tabID tab p; tab1 = tab_at sm1 tabID tab in
              obind (insertPaneLocked sm1 tab1 (p_ID p) (s_TargetID slot) (s_Dir slot)) (\<lambda>(tab2, ok).
                if ok then
                  publish_done (sm1\<lparr>sm_tabs := (sm_tabs sm1)(tabID \<mapsto> tab2)\<rparr>) tabID tab p None None
                else Ret (detachPaneLocked sm1 tabID tab1 p, None))))
        else publish_done (addPaneLocked sm tabID tab p) tabID tab p None None)"

definition DestroyPane :: "session \<Rightarrow> string \<Rightarrow> (session \<times> Pane list) option" where
  "DestroyPane sm paneID =
     (case sm_panes sm paneID of
        None \<Rightarrow> None
      | Some pane \<Rightarrow>
          (let tabs' = (case sm_tabs sm (p_TabID pane) of
                 None \<Rightarrow> sm_tabs sm
               | Some tab \<Rightarrow>
                   (let tab1 = pruneTreeLocked (tab\<lparr>t_Panes := removeString (t_Panes tab) paneID\<rparr>) paneID
                    in (sm_tabs sm)(p_TabID pane \<mapsto> clear_overlay tab1 paneID)))
           in Some (sm\<lparr>sm_tabs := tabs', sm_panes := (sm_panes sm)(paneID := None)\<rparr>, [pane])))"

datatype movePaneResult =
  movePaneMoved | movePaneNoop | movePaneUnknownPane | movePaneUnknownTab | movePaneTemplatePending

definition template_pending :: "Tab \<Rightarrow> bool" where
  "template_pending tab \<longleftrightarrow> TemplateLayout tab \<noteq> [] \<and> t_Layout tab = Raw_Nil"

definition MovePane :: "session \<Rightarrow> string \<Rightarrow> string \<Rightarrow> (session \<times> string \<times> movePaneResult) outcome" where
  "MovePane sm paneID tabID =
     (case sm_panes sm paneID of
        None \<Rightarrow> Ret (sm, [], movePaneUnknownPane)
      | Some pane \<Rightarrow>
        case sm_tabs sm tabID of
          None \<Rightarrow> Ret (sm, [], movePaneUnknownTab)
        | Some dst \<Rightarrow>
          if p_TabID pane = tabID then Ret (sm, [], movePaneNoop)
          else
            (let src_id = p_TabID pane; src = sm_tabs sm src_id in
             if (case src of None \<Rightarrow> False | Some s \<Rightarrow> template_pending s) \<or> template_pending dst
             then Ret (sm, [], movePaneTemplatePending)
             else
               (let tabs1 = (case src of
                      None \<Rightarrow> sm_tabs sm
                    | Some s \<Rightarrow> (sm_tabs sm)(src_id \<mapsto>
                        clear_overlay (pruneTreeLocked (s\<lparr>t_Panes := removeString (t_Panes s) paneID\<rparr>) paneID) paneID));
                    dst1 = (if indexOfString (t_Panes dst) paneID < 0
                            then dst\<lparr>t_Panes := t_Panes dst @ [paneID]\<rparr> else dst)
                in obind (if p_treeless pane then Ret dst1
                          else placeMovedLocked (sm\<lparr>sm_tabs := tabs1(tabID \<mapsto> dst1)\<rparr>) dst1 paneID)
                     (\<lambda>dst2. Ret (sm\<lparr>sm_tabs := tabs1(tabID \<mapsto> dst2),
                        sm_panes := (sm_panes sm)(paneID \<mapsto> pane\<lparr>p_TabID := tabID\<rparr>)\<rparr>, src_id, movePaneMoved)))))"

section \<open>Lemmas\<close>

lemma leaves_ok_upd [simp]:
  "leaves_ok (tab\<lparr>t_Panes := x\<rparr>) P = leaves_ok tab P" "leaves_ok (tab\<lparr>overlayID := y, overlayKey := z\<rparr>) P = leaves_ok tab P"
  "leaves_ok (tab\<lparr>t_ProjectID := w\<rparr>) P = leaves_ok tab P" "leaves_ok (clear_overlay tab i) P = leaves_ok tab P"
  by (rule leaves_ok_cong, simp add: clear_overlay_def)+

lemma clear_overlay_fields [simp]:
  "t_ID (clear_overlay tab i) = t_ID tab" "t_Panes (clear_overlay tab i) = t_Panes tab"
  "t_ProjectID (clear_overlay tab i) = t_ProjectID tab" "t_Layout (clear_overlay tab i) = t_Layout tab"
  "t_LayoutRev (clear_overlay tab i) = t_LayoutRev tab"
  by (simp_all add: clear_overlay_def)

lemma overlayID_clear [simp]: "overlayID (clear_overlay tab i) = (if overlayID tab = i then [] else overlayID tab)"
  by (simp add: clear_overlay_def)

lemma mk_pane_fields [simp]:
  "p_ID (mk_pane sm i t c b) = i" "p_TabID (mk_pane sm i t c b) = t" "p_treeless (mk_pane sm i t c b) = b"
  by (simp_all add: mk_pane_def)

lemma tab_ok_leaves: "tab_ok panes i tab \<Longrightarrow> leaves_ok tab (tree_set panes tab)"
  by (simp add: tab_ok_def)

abbreviation pinv :: "session \<Rightarrow> bool" where
  "pinv sm \<equiv> pane_inv (sm_tabs sm) (sm_panes sm)"

lemma createPane_inv:
  assumes "pinv sm" "sm_panes sm (''pane-'' @ u) = None" "createPane sm t cwd b u = Some (sm', p)"
  shows "pinv sm'"
proof -
  obtain tab where tab: "sm_tabs sm t = Some tab" using assms(3) by (auto simp: createPane_def split: option.splits)
  have ok: "tab_ok (sm_panes sm) t tab" using pane_inv_tab [OF assms(1) tab] .
  from assms(3) tab show ?thesis
    using pane_inv_add [OF assms(1) tab assms(2), of "mk_pane sm (''pane-'' @ u) t cwd b"
        "tab\<lparr>t_Panes := t_Panes tab @ [''pane-'' @ u]\<rparr>"] ok
      leaves_ok_mono [OF tab_ok_leaves [OF ok]]
    by (auto simp: createPane_def Let_def tab_ok_def)
qed

text \<open>One pane leaves its tab: what destroy and detach do.\<close>

lemma remove_inv:
  assumes "pinv sm" "sm_panes sm i = Some p" "sm_tabs sm (p_TabID p) = Some tab"
  shows "pane_inv ((sm_tabs sm)(p_TabID p \<mapsto>
      clear_overlay (pruneTreeLocked (tab\<lparr>t_Panes := remove1 i (t_Panes tab)\<rparr>) i) i)) ((sm_panes sm)(i := None))"
proof -
  have ok: "tab_ok (sm_panes sm) (p_TabID p) tab" using pane_inv_tab assms by blast
  then have "leaves_ok (pruneTreeLocked (tab\<lparr>t_Panes := remove1 i (t_Panes tab)\<rparr>) i) (tree_set (sm_panes sm) tab - {i})"
    by (intro leaves_ok_prune) (simp add: tab_ok_leaves)
  with ok show ?thesis
    by (intro pane_inv_remove [OF assms]) (auto simp: tab_ok_def)
qed

lemma DestroyPane_inv:
  assumes "pinv sm" "DestroyPane sm i = Some (sm', ps)"
  shows "pinv sm'"
proof -
  obtain p where p: "sm_panes sm i = Some p" using assms(2) by (auto simp: DestroyPane_def split: option.splits)
  obtain tab where tab: "sm_tabs sm (p_TabID p) = Some tab" using pane_inv_parent [OF assms(1) p] by blast
  from remove_inv [OF assms(1) p tab] p tab assms(2) show ?thesis
    by (auto simp: DestroyPane_def Let_def)
qed

lemma replacePane_inv:
  assumes inv: "pinv sm" and r: "replacePaneLocked sm old new = Some (sm', p)"
    and new: "sm_panes sm (p_ID new) = None" "p_ID new \<noteq> []" "\<not> p_treeless new"
  shows "pinv sm'" "sm_panes sm old = Some p" "sm_panes sm' old = None" "sm_tabs sm' (p_TabID p) \<noteq> None"
proof -
  obtain q where q: "sm_panes sm old = Some q" using r by (auto simp: replacePaneLocked_def split: option.splits)
  obtain tab where tab: "sm_tabs sm (p_TabID q) = Some tab" "old \<in> set (t_Panes tab)"
    using pane_inv_parent [OF inv q] by blast
  have ok: "tab_ok (sm_panes sm) (p_TabID q) tab" using pane_inv_tab [OF inv tab(1)] .
  obtain as bs where l: "t_Panes tab = as @ old # bs" "old \<notin> set as" using tab(2) split_list_first by metis
  have rf: "replace_first old [p_ID new] (t_Panes tab) = as @ p_ID new # bs"
    using l by (simp add: replace_first_append)
  have no: "p_ID new \<noteq> old" using new(1) q by auto
  have "leaves_ok (tab\<lparr>t_Panes := as @ p_ID new # bs\<rparr>) (tree_set (sm_panes sm) tab)"
    using ok by (simp add: tab_ok_leaves)
  then have "leaves_ok (substituteTreeLocked (tab\<lparr>t_Panes := as @ p_ID new # bs\<rparr>) old (p_ID new))
      (insert (p_ID new) (tree_set (sm_panes sm) tab - {old}))"
    using new by (intro leaves_ok_substitute) (auto simp: tree_set_def)
  then have "pane_inv ((sm_tabs sm)(p_TabID q \<mapsto>
        clear_overlay (substituteTreeLocked (tab\<lparr>t_Panes := as @ p_ID new # bs\<rparr>) old (p_ID new)) old))
      ((sm_panes sm)(old := None, p_ID new \<mapsto> new\<lparr>p_TabID := p_TabID q\<rparr>))"
    using ok new by (intro pane_inv_replace [OF inv q tab(1) l(1)]) (auto simp: tab_ok_def)
  with r q tab no rf show "pinv sm'" "sm_panes sm old = Some p" "sm_panes sm' old = None"
      "sm_tabs sm' (p_TabID p) \<noteq> None"
    by (auto simp: replacePaneLocked_def Let_def)
qed

lemma MovePane_outcome:
  assumes inv: "pinv sm"
  obtains sm' src res where "MovePane sm i t = Ret (sm', src, res)" "pinv sm'"
    "res \<noteq> movePaneMoved \<longrightarrow> sm' = sm"
proof -
  consider "sm_panes sm i = None \<or> sm_tabs sm t = None \<or> (\<exists>p. sm_panes sm i = Some p \<and> p_TabID p = t)"
    | p dst where "sm_panes sm i = Some p" "sm_tabs sm t = Some dst" "p_TabID p \<noteq> t" by fastforce
  then show thesis
  proof cases
    case 1
    then have "\<exists>r. MovePane sm i t = Ret (sm, [], r)"
      by (cases "sm_panes sm i"; cases "sm_tabs sm t") (auto simp: MovePane_def)
    then obtain r where "MovePane sm i t = Ret (sm, [], r)" by blast
    from that [OF this inv] show thesis by simp
  next
    case 2
    obtain src where src: "sm_tabs sm (p_TabID p) = Some src" "i \<in> set (t_Panes src)"
      using pane_inv_parent [OF inv 2(1)] by blast
    have ok: "tab_ok (sm_panes sm) (p_TabID p) src" "tab_ok (sm_panes sm) t dst"
      using pane_inv_tab inv src 2 by blast+
    have ni: "i \<notin> set (t_Panes dst)" using pane_inv_mem [OF inv 2(2)] 2 by auto
    have ne: "i \<noteq> []" using pane_inv_pane [OF inv 2(1)] by simp
    let ?src = "clear_overlay (pruneTreeLocked (src\<lparr>t_Panes := remove1 i (t_Panes src)\<rparr>) i) i"
    let ?dst = "dst\<lparr>t_Panes := t_Panes dst @ [i]\<rparr>"
    let ?tabs = "(sm_tabs sm)(p_TabID p \<mapsto> ?src)"
    let ?sm1 = "sm\<lparr>sm_tabs := ?tabs(t \<mapsto> ?dst)\<rparr>"
    show thesis
    proof (cases "template_pending src \<or> template_pending dst")
      case True
      then have "MovePane sm i t = Ret (sm, [], movePaneTemplatePending)"
        using 2 src by (simp add: MovePane_def Let_def)
      from that [OF this inv] show thesis by simp
    next
      case False
      have tp: "set (treePanesLocked ?sm1 ?dst) = tree_set (sm_panes sm) dst \<union> (if p_treeless p then {} else {i})"
        using ni 2(1) by (auto simp: set_treePanes tree_set_def)
      obtain dst2 where dst2: "(if p_treeless p then Ret ?dst else placeMovedLocked ?sm1 ?dst i) = Ret dst2"
        "leaves_ok dst2 (tree_set (sm_panes sm) dst \<union> (if p_treeless p then {} else {i}))"
        "t_ID dst2 = t_ID dst" "t_Panes dst2 = t_Panes dst @ [i]" "overlayID dst2 = overlayID dst"
      proof (cases "p_treeless p")
        case True
        show thesis
          by (rule that [of ?dst]) (use True ok(2) in \<open>simp_all add: tab_ok_leaves\<close>)
      next
        case False
        have "[] \<notin> set (t_Panes ?dst)" "distinct (t_Panes ?dst)" "distinct (tab_leaves ?dst)"
          using ni ne pane_inv_nonempty [OF inv 2(2)] pane_inv_distinct [OF inv 2(2)] ok(2)
          by (auto simp: tab_ok_def leaves_ok_def tab_leaves_def)
        then obtain d where d: "placeMovedLocked ?sm1 ?dst i = Ret d"
          "leaves_ok d (insert i (set (treePanesLocked ?sm1 ?dst)))" "t_ID d = t_ID ?dst"
          "t_Panes d = t_Panes ?dst" "overlayID d = overlayID ?dst"
          using placeMoved_Ret [of ?dst i ?sm1] ne by metis
        show thesis
          by (rule that [of d]) (use False d in \<open>simp_all add: tp\<close>)
      qed
      have "leaves_ok (pruneTreeLocked (src\<lparr>t_Panes := remove1 i (t_Panes src)\<rparr>) i) (tree_set (sm_panes sm) src - {i})"
        using ok(1) by (intro leaves_ok_prune) (simp add: tab_ok_leaves)
      then have inv': "pane_inv (?tabs(t \<mapsto> dst2)) ((sm_panes sm)(i \<mapsto> p\<lparr>p_TabID := t\<rparr>))"
        using 2 ok dst2 pane_inv_pane [OF inv 2(1)]
        by (intro pane_inv_move [OF inv 2(1) src(1) 2(2)]) (auto simp: tab_ok_def)
      have M: "MovePane sm i t = Ret (sm\<lparr>sm_tabs := ?tabs(t \<mapsto> dst2),
          sm_panes := (sm_panes sm)(i \<mapsto> p\<lparr>p_TabID := t\<rparr>)\<rparr>, p_TabID p, movePaneMoved)"
        using False 2 src dst2(1) ni by (simp add: MovePane_def Let_def indexOfString_neg)
      show thesis by (rule that [OF M]) (use inv' in simp_all)
    qed
  qed
qed

lemma pruneTree_absent: "i \<notin> set (tab_leaves tab) \<Longrightarrow> pruneTreeLocked tab i = tab"
  using snd_Prune [of "tree_of (t_Layout tab)" i]
  by (auto simp: pruneTreeLocked_def storedTree_eq tab_leaves_def split: prod.split)

lemma addPane_sel [simp]:
  "sm_tabs (addPaneLocked sm t tab p) = (sm_tabs sm)(t \<mapsto> tab\<lparr>t_Panes := t_Panes tab @ [p_ID p]\<rparr>)"
  "sm_panes (addPaneLocked sm t tab p) = (sm_panes sm)(p_ID p \<mapsto> p\<lparr>p_TabID := t_ID tab\<rparr>)"
  by (simp_all add: addPaneLocked_def)

lemma add_inv:
  assumes "pinv sm" "sm_tabs sm t = Some tab" "sm_panes sm (p_ID p) = None" "p_ID p \<noteq> []"
    and "t_ID tab' = t" "t_Panes tab' = t_Panes tab @ [p_ID p]" "overlayID tab' \<in> {overlayID tab, [], p_ID p}"
      "leaves_ok tab' (tree_set (sm_panes sm) tab \<union> (if p_treeless p then {} else {p_ID p}))"
  shows "pane_inv ((sm_tabs sm)(t \<mapsto> tab')) ((sm_panes sm)(p_ID p \<mapsto> p\<lparr>p_TabID := t\<rparr>))"
  using assms by (intro pane_inv_add [OF assms(1,2)]) auto

lemma add_plain_inv:
  assumes "pinv sm" "sm_tabs sm t = Some tab" "sm_panes sm (p_ID p) = None" "p_ID p \<noteq> []"
    and "overlayID tab' \<in> {overlayID tab, p_ID p}" "t_Layout tab' = t_Layout tab" "t_ID tab' = t"
      "t_Panes tab' = t_Panes tab @ [p_ID p]"
  shows "pane_inv ((sm_tabs sm)(t \<mapsto> tab')) ((sm_panes sm)(p_ID p \<mapsto> p\<lparr>p_TabID := t\<rparr>))"
proof -
  have "leaves_ok tab' (tree_set (sm_panes sm) tab \<union> (if p_treeless p then {} else {p_ID p}))"
    using tab_ok_leaves [OF pane_inv_tab [OF assms(1,2)]] leaves_ok_cong [OF assms(6)] leaves_ok_mono by blast
  with assms show ?thesis by (intro add_inv) auto
qed

lemma detach_sel:
  assumes "pinv sm" "sm_panes sm i = Some p"
  shows "sm_panes (detachPaneLocked sm t tab p) = (sm_panes sm)(i := None)"
    "sm_tabs (detachPaneLocked sm t tab p) =
      (sm_tabs sm)(t \<mapsto> clear_overlay (pruneTreeLocked (tab\<lparr>t_Panes := remove1 i (t_Panes tab)\<rparr>) i) i)"
  using pane_inv_pane [OF assms] by (simp_all add: detachPaneLocked_def Let_def)

definition fits :: "Pane \<Rightarrow> paneSlot \<Rightarrow> bool" where
  "fits p slot \<longleftrightarrow> p_ID p \<noteq> [] \<and> (s_OverlayKey slot = [] \<longrightarrow> \<not> p_treeless p)"

definition published :: "session \<Rightarrow> Pane \<Rightarrow> string \<Rightarrow> (session \<times> publishResult option) outcome \<Rightarrow> bool" where
  "published sm p t out \<longleftrightarrow> (\<exists>sm' r. out = Ret (sm', r) \<and> pinv sm'
     \<and> (case r of None \<Rightarrow> sm' = sm
        | Some res \<Rightarrow> if r_Reused res then sm' = sm else sm_panes sm' (p_ID p) = Some (p\<lparr>p_TabID := t\<rparr>)))"

lemma published_done:
  assumes "pinv sm'" "sm_panes sm' (p_ID p) = Some (p\<lparr>p_TabID := t\<rparr>)"
  shows "published sm p t (publish_done sm' t tab p ev rp)"
  using assms by (simp add: published_def publish_done_def)

lemma publish_overlay:
  assumes inv: "pinv sm" and t: "sm_tabs sm t = Some tab" and p: "sm_panes sm (p_ID p) = None" "p_ID p \<noteq> []"
    and slot: "s_TabID slot = t" "s_OverlayKey slot \<noteq> []"
  shows "published sm p (s_TabID slot) (PublishPane sm p slot)"
proof -
  have tid: "t_ID tab = t" using pane_inv_tab [OF inv t] by (simp add: tab_ok_def)
  define cur where "cur = (if overlayID tab \<noteq> [] then sm_panes sm (overlayID tab) else None)"
  consider "cur = None" | c where "cur = Some c" "overlayKey tab = s_OverlayKey slot"
    | c where "cur = Some c" "overlayKey tab \<noteq> s_OverlayKey slot" by fastforce
  then show ?thesis
  proof cases
    case 1
    let ?sm2 = "addPaneLocked sm t tab p"
    let ?tab = "(tab\<lparr>t_Panes := t_Panes tab @ [p_ID p]\<rparr>)\<lparr>overlayID := p_ID p, overlayKey := s_OverlayKey slot\<rparr>"
    let ?sm3 = "?sm2\<lparr>sm_tabs := (sm_tabs ?sm2)(t \<mapsto> ?tab)\<rparr>"
    have "pinv ?sm3"
      using add_plain_inv [OF inv t p, of ?tab] tid by simp
    then have "published sm p t (publish_done ?sm3 t tab p None None)"
      by (rule published_done) (simp add: tid)
    with 1 t slot show ?thesis by (simp add: PublishPane_def Let_def tab_at_def cur_def)
  next
    case 2
    with t slot inv show ?thesis by (auto simp: PublishPane_def Let_def cur_def published_def)
  next
    case 3
    then have c: "sm_panes sm (overlayID tab) = Some c" "overlayID tab \<noteq> []"
      by (auto simp: cur_def split: if_splits)
    have "overlayID tab \<in> set (t_Panes tab)" using pane_inv_tab [OF inv t] c(2) by (simp add: tab_ok_def)
    then have ct: "p_TabID c = t" using pane_inv_mem [OF inv t] c(1) by simp
    let ?sm1 = "detachPaneLocked sm t tab c"
    let ?tab1 = "clear_overlay (pruneTreeLocked (tab\<lparr>t_Panes := remove1 (overlayID tab) (t_Panes tab)\<rparr>) (overlayID tab)) (overlayID tab)"
    have sel: "sm_panes ?sm1 = (sm_panes sm)(overlayID tab := None)" "sm_tabs ?sm1 = (sm_tabs sm)(t \<mapsto> ?tab1)"
      using detach_sel [OF inv c(1)] by simp_all
    have inv1: "pinv ?sm1" using remove_inv [OF inv c(1)] t ct by (simp add: sel)
    have t1: "sm_tabs ?sm1 t = Some ?tab1" by (simp add: sel)
    have p1: "sm_panes ?sm1 (p_ID p) = None" using p by (simp add: sel)
    let ?sm2 = "addPaneLocked ?sm1 t ?tab1 p"
    let ?tab2 = "(?tab1\<lparr>t_Panes := t_Panes ?tab1 @ [p_ID p]\<rparr>)\<lparr>overlayID := p_ID p, overlayKey := s_OverlayKey slot\<rparr>"
    let ?sm3 = "?sm2\<lparr>sm_tabs := (sm_tabs ?sm2)(t \<mapsto> ?tab2)\<rparr>"
    have "pinv ?sm3"
      using add_plain_inv [OF inv1 t1 p1 p(2), of ?tab2] tid by simp
    then have "published sm p t (publish_done ?sm3 t tab p (Some c) None)"
      by (rule published_done) (simp add: tid)
    moreover have "PublishPane sm p slot = publish_done ?sm3 t tab p (Some c) None"
      using 3 t slot t1 c by (simp add: PublishPane_def Let_def tab_at_def)
    ultimately show ?thesis by (simp add: slot(1))
  qed
qed

lemma publish_replace:
  assumes inv: "pinv sm" and t: "sm_tabs sm t = Some tab" and p: "sm_panes sm (p_ID p) = None" "p_ID p \<noteq> []"
    "\<not> p_treeless p" and slot: "s_TabID slot = t" "s_OverlayKey slot = []" "s_ReplaceID slot \<noteq> []"
  shows "published sm p (s_TabID slot) (PublishPane sm p slot)"
proof (cases "\<exists>old. sm_panes sm (s_ReplaceID slot) = Some old \<and> p_TabID old = t_ID tab")
  case True
  then obtain old where old: "sm_panes sm (s_ReplaceID slot) = Some old" "p_TabID old = t_ID tab" by blast
  then obtain sm1 q where r: "replacePaneLocked sm (s_ReplaceID slot) p = Some (sm1, q)"
    by (auto simp: replacePaneLocked_def Let_def)
  have "pinv sm1" by (rule replacePane_inv [OF inv r p])
  moreover have "t_ID tab = t" using pane_inv_tab [OF inv t] by (simp add: tab_ok_def)
  then have "sm_panes sm1 (p_ID p) = Some (p\<lparr>p_TabID := t\<rparr>)"
    using r old by (auto simp: replacePaneLocked_def Let_def)
  ultimately show ?thesis
    using t slot old r published_done by (auto simp: PublishPane_def Let_def)
next
  case False
  then have "PublishPane sm p slot = Ret (sm, None)"
    using t slot by (auto simp: PublishPane_def Let_def split: option.splits)
  with inv show ?thesis by (simp add: published_def)
qed

lemma publish_split:
  assumes inv: "pinv sm" and t: "sm_tabs sm t = Some tab" and p: "sm_panes sm (p_ID p) = None" "p_ID p \<noteq> []"
    "\<not> p_treeless p" and slot: "s_TabID slot = t" "s_OverlayKey slot = []" "s_ReplaceID slot = []" "s_Split slot"
  shows "published sm p (s_TabID slot) (PublishPane sm p slot)"
proof (cases "s_TargetID slot \<noteq> [] \<and>
    (case sm_panes sm (s_TargetID slot) of None \<Rightarrow> True | Some q \<Rightarrow> p_TabID q \<noteq> t_ID tab)")
  case True
  then have "PublishPane sm p slot = Ret (sm, None)"
    using t slot by (simp add: PublishPane_def Let_def)
  with inv show ?thesis by (simp add: published_def)
next
  case False
  have ok: "tab_ok (sm_panes sm) t tab" using pane_inv_tab [OF inv t] .
  then have tid: "t_ID tab = t" by (simp add: tab_ok_def)
  let ?i = "p_ID p"
  have ni: "?i \<notin> set (t_Panes tab)" using pane_inv_mem [OF inv t] p(1) by auto
  let ?tab1 = "tab\<lparr>t_Panes := t_Panes tab @ [?i]\<rparr>"
  let ?sm1 = "addPaneLocked sm t tab p"
  have inv1: "pinv ?sm1" using add_plain_inv [OF inv t p(1,2), of ?tab1] tid by simp
  have t1: "sm_tabs ?sm1 t = Some ?tab1" by simp
  have dl: "distinct (tab_leaves ?tab1)" using ok by (simp add: tab_ok_def leaves_ok_def tab_leaves_def)
  have tp: "set (treePanesLocked ?sm1 ?tab1) = insert ?i (tree_set (sm_panes sm) tab)"
    using ni p(3) by (auto simp: set_treePanes tree_set_def)
  obtain tab2 good where ins: "insertPaneLocked ?sm1 ?tab1 ?i (s_TargetID slot) (s_Dir slot) = Ret (tab2, good)"
    "good \<Longrightarrow> leaves_ok tab2 (insert ?i (set (treePanesLocked ?sm1 ?tab1)))" "\<not> good \<Longrightarrow> tab2 = ?tab1"
    "t_ID tab2 = t_ID ?tab1" "t_Panes tab2 = t_Panes ?tab1" "overlayID tab2 = overlayID ?tab1"
    using insertPane_Ret [OF pane_inv_nonempty [OF inv1 t1] pane_inv_distinct [OF inv1 t1] dl p(2),
        of ?sm1 "s_TargetID slot" "s_Dir slot"] by metis
  show ?thesis
  proof (cases good)
    case True
    let ?sm2 = "?sm1\<lparr>sm_tabs := (sm_tabs ?sm1)(t \<mapsto> tab2)\<rparr>"
    have "leaves_ok tab2 (tree_set (sm_panes sm) tab \<union> (if p_treeless p then {} else {?i}))"
      using ins(2) True p(3) by (simp add: tp)
    then have "pinv ?sm2"
      using add_inv [OF inv t p(1,2), of tab2] ins tid by simp
    then have "published sm p t (publish_done ?sm2 t tab p None None)"
      by (rule published_done) (simp add: tid)
    moreover have "PublishPane sm p slot = publish_done ?sm2 t tab p None None"
      using False t slot ins(1) True by (auto simp: PublishPane_def Let_def tab_at_def)
    ultimately show ?thesis by (simp add: slot(1))
  next
    case bad: False
    have nl: "?i \<notin> set (tab_leaves tab)" using ok ni by (auto simp: tab_ok_def leaves_ok_def tree_set_def)
    have no: "overlayID tab \<noteq> ?i" using ok ni p(2) by (auto simp: tab_ok_def)
    have "clear_overlay (pruneTreeLocked (?tab1\<lparr>t_Panes := remove1 ?i (t_Panes ?tab1)\<rparr>) ?i) ?i = tab"
      using ni nl no by (simp add: remove1_append pruneTree_absent clear_overlay_def tab_leaves_def)
    moreover have "(sm_tabs sm)(t \<mapsto> tab) = sm_tabs sm" using t by auto
    moreover have "(sm_panes sm)(?i := None) = sm_panes sm" using p(1) by auto
    ultimately have restored: "detachPaneLocked ?sm1 t ?tab1 p = sm"
      by (simp add: detachPaneLocked_def Let_def addPaneLocked_def)
    have "PublishPane sm p slot = Ret (sm, None)"
      using False t slot ins(1) bad restored by (auto simp: PublishPane_def Let_def tab_at_def)
    with inv show ?thesis by (simp add: published_def)
  qed
qed

lemma PublishPane_published:
  assumes inv: "pinv sm" and p: "sm_panes sm (p_ID p) = None" "fits p slot"
  shows "published sm p (s_TabID slot) (PublishPane sm p slot)"
proof (cases "sm_tabs sm (s_TabID slot)")
  case None
  with inv show ?thesis by (simp add: PublishPane_def published_def)
next
  case (Some tab)
  have id: "p_ID p \<noteq> []" using p(2) by (simp add: fits_def)
  consider "s_OverlayKey slot \<noteq> []" | "s_OverlayKey slot = []" "s_ReplaceID slot \<noteq> []"
    | "s_OverlayKey slot = []" "s_ReplaceID slot = []" "s_Split slot"
    | "s_OverlayKey slot = []" "s_ReplaceID slot = []" "\<not> s_Split slot" by blast
  then show ?thesis
  proof cases
    case 4
    have tid: "t_ID tab = s_TabID slot" using pane_inv_tab [OF inv Some] by (simp add: tab_ok_def)
    have "pinv (addPaneLocked sm (s_TabID slot) tab p)"
      using add_plain_inv [OF inv Some p(1) id, of "tab\<lparr>t_Panes := t_Panes tab @ [p_ID p]\<rparr>"] tid by simp
    then have "published sm p (s_TabID slot) (publish_done (addPaneLocked sm (s_TabID slot) tab p) (s_TabID slot) tab p None None)"
      by (rule published_done) (simp add: tid)
    with 4 Some show ?thesis by (simp add: PublishPane_def Let_def)
  qed (use inv Some p id publish_overlay publish_replace publish_split in \<open>auto simp: fits_def\<close>)
qed

end
