(* ===== verification/Session_Tabs.thy ===== *)
theory Session_Tabs
  imports Session_Order Session_Panes
begin

text \<open>
  The tab operations of \<open>internal/daemon/session.go\<close>: create, destroy, rename and colour, switch,
  reorder, and the two restore entry points.
\<close>

section \<open>Operations\<close>

text \<open>\<open>createTabLocked\<close> first settles which project the tab goes to; \<open>u1\<close> and \<open>u2\<close> are the random
  parts of the ids it may mint, \<open>cwd\<close> what \<open>os.Getwd\<close> returned.\<close>

definition tabProject :: "session \<Rightarrow> string \<Rightarrow> string \<Rightarrow> string \<Rightarrow> session \<times> string" where
  "tabProject sm projectID u1 cwd =
     (if projectID = [] \<or> sm_projects sm projectID = None then
        (if sm_projects sm (sm_activeProject sm) \<noteq> None then (sm, sm_activeProject sm)
         else if sm_projectOrder sm \<noteq> [] then
           (sm\<lparr>sm_activeProject := hd (sm_projectOrder sm)\<rparr>, hd (sm_projectOrder sm))
         else
           (let i = ''proj-'' @ u1;
                p = \<lparr>j_ID = i, j_Name = ''Default'', j_RootDir = cwd, j_TabIDs = [], j_ActiveTab = [],
                     j_Bootstrap = True, j_Group = []\<rparr>
            in (sm\<lparr>sm_projects := (sm_projects sm)(i \<mapsto> p),
                   sm_projectOrder := sm_projectOrder sm @ [i], sm_activeProject := i\<rparr>, i)))
      else (sm, projectID))"

definition createTabLocked ::
    "session \<Rightarrow> string \<Rightarrow> string \<Rightarrow> string \<Rightarrow> string \<Rightarrow> string \<Rightarrow> session \<times> string" where
  "createTabLocked sm projectID name u1 u2 cwd =
     (case tabProject sm projectID u1 cwd of (sm1, pid) \<Rightarrow>
        let i = ''tab-'' @ u2;
            tab = (new_tab i name)\<lparr>t_ProjectID := pid\<rparr>;
            active = (if sm_activeTab sm1 = [] then i else sm_activeTab sm1);
            projects = (case sm_projects sm1 pid of
                None \<Rightarrow> sm_projects sm1
              | Some p \<Rightarrow> (sm_projects sm1)(pid \<mapsto> p\<lparr>j_TabIDs := j_TabIDs p @ [i],
                    j_ActiveTab := (if j_ActiveTab p = [] then i else j_ActiveTab p)\<rparr>))
        in (sm1\<lparr>sm_tabs := (sm_tabs sm1)(i \<mapsto> tab), sm_tabOrder := sm_tabOrder sm1 @ [i],
                sm_activeTab := active, sm_projects := projects\<rparr>, i))"

definition CreateTab :: "session \<Rightarrow> string \<Rightarrow> string \<Rightarrow> string \<Rightarrow> string \<Rightarrow> session \<times> string" where
  "CreateTab sm name u1 u2 cwd = createTabLocked sm (sm_activeProject sm) name u1 u2 cwd"

definition CreateTabInProject ::
    "session \<Rightarrow> string \<Rightarrow> string \<Rightarrow> string \<Rightarrow> string \<Rightarrow> string \<Rightarrow> session \<times> string" where
  "CreateTabInProject sm projectID name u1 u2 cwd = createTabLocked sm projectID name u1 u2 cwd"

text \<open>The panes of a list that are live, in order, and the map without them.\<close>

fun detachPanes :: "string list \<Rightarrow> (string \<rightharpoonup> Pane) \<Rightarrow> Pane list \<times> (string \<rightharpoonup> Pane)" where
  "detachPanes [] panes = ([], panes)"
| "detachPanes (i # is) panes =
     (case panes i of
        None \<Rightarrow> detachPanes is panes
      | Some p \<Rightarrow> (case detachPanes is (panes(i := None)) of (ps, panes') \<Rightarrow> (p # ps, panes')))"

text \<open>The neighbour that slides into a removed tab's slot.\<close>

definition neighbour :: "string list \<Rightarrow> string \<Rightarrow> string" where
  "neighbour tabIDs tabID =
     (let idx = indexOfString tabIDs tabID;
          rest = removeString tabIDs tabID
      in if rest = [] then []
         else if idx < 0 \<or> idx \<ge> int (length rest) then rest ! (length rest - 1)
         else rest ! nat idx)"

definition destroyTabLocked :: "session \<Rightarrow> Tab \<Rightarrow> session \<times> Pane list" where
  "destroyTabLocked sm tab =
     (let tabID = t_ID tab in
      case detachPanes (t_Panes tab) (sm_panes sm) of (orphans, panes') \<Rightarrow>
      case sm_projects sm (t_ProjectID tab) of
        proj \<Rightarrow>
          let successor = (case proj of None \<Rightarrow> [] | Some p \<Rightarrow> neighbour (j_TabIDs p) tabID);
              projects' = (case proj of None \<Rightarrow> sm_projects sm
                | Some p \<Rightarrow> (sm_projects sm)(t_ProjectID tab \<mapsto>
                    p\<lparr>j_TabIDs := removeString (j_TabIDs p) tabID,
                      j_ActiveTab := (if j_ActiveTab p = tabID then successor else j_ActiveTab p)\<rparr>));
              order' = removeString (sm_tabOrder sm) tabID;
              active' = (if sm_activeTab sm = tabID
                         then (if successor = [] \<and> order' \<noteq> [] then hd order' else successor)
                         else sm_activeTab sm)
          in (sm\<lparr>sm_panes := panes', sm_projects := projects', sm_tabs := (sm_tabs sm)(tabID := None),
                 sm_tabOrder := order', sm_activeTab := active'\<rparr>, orphans))"

definition DestroyTab :: "session \<Rightarrow> string \<Rightarrow> (session \<times> Pane list) option" where
  "DestroyTab sm tabID =
     (case sm_tabs sm tabID of None \<Rightarrow> None | Some tab \<Rightarrow> Some (destroyTabLocked sm tab))"

definition DestroyTabIfPanes ::
    "session \<Rightarrow> string \<Rightarrow> string list \<Rightarrow> (session \<times> Pane list \<times> bool) option" where
  "DestroyTabIfPanes sm tabID want =
     (case sm_tabs sm tabID of
        None \<Rightarrow> None
      | Some tab \<Rightarrow>
          (let live = filter (\<lambda>i. sm_panes sm i \<noteq> None) (t_Panes tab) in
           if \<not> sameStringSet live want then Some (sm, [], False)
           else (case destroyTabLocked sm tab of (sm', orphans) \<Rightarrow> Some (sm', orphans, True))))"

definition UpdateTab :: "session \<Rightarrow> string \<Rightarrow> string \<Rightarrow> string \<Rightarrow> bool \<Rightarrow> session \<times> bool" where
  "UpdateTab sm tabID name color clearColor =
     (case sm_tabs sm tabID of
        None \<Rightarrow> (sm, False)
      | Some tab \<Rightarrow>
          (let name' = (if name \<noteq> [] then name else t_Name tab);
               color' = (if color \<noteq> [] then color
                         else if clearColor \<or> name = [] then [] else t_Color tab)
           in (sm\<lparr>sm_tabs := (sm_tabs sm)(tabID \<mapsto> tab\<lparr>t_Name := name', t_Color := color'\<rparr>)\<rparr>, True)))"

definition SwitchTab :: "session \<Rightarrow> string \<Rightarrow> session" where
  "SwitchTab sm tabID =
     (case sm_tabs sm tabID of
        None \<Rightarrow> sm
      | Some tab \<Rightarrow>
          sm\<lparr>sm_activeTab := tabID,
             sm_projects := (case sm_projects sm (t_ProjectID tab) of
                 None \<Rightarrow> sm_projects sm
               | Some p \<Rightarrow> (sm_projects sm)(t_ProjectID tab \<mapsto> p\<lparr>j_ActiveTab := tabID\<rparr>))\<rparr>)"

definition ReorderTab :: "session \<Rightarrow> string \<Rightarrow> int \<Rightarrow> session \<times> bool" where
  "ReorderTab sm tabID newIdx =
     (case sm_tabs sm tabID of
        None \<Rightarrow> (sm, False)
      | Some tab \<Rightarrow>
          (case sm_projects sm (t_ProjectID tab) of
             Some p \<Rightarrow>
               if indexOfString (j_TabIDs p) tabID < 0 then
                 (case slideString (sm_tabOrder sm) tabID newIdx of (order, moved) \<Rightarrow>
                    (sm\<lparr>sm_tabOrder := order\<rparr>, moved))
               else
                 (case slideString (j_TabIDs p) tabID newIdx of (tabIDs, moved) \<Rightarrow>
                    if \<not> moved then (sm, False)
                    else (sm\<lparr>sm_projects := (sm_projects sm)(t_ProjectID tab \<mapsto> p\<lparr>j_TabIDs := tabIDs\<rparr>),
                             sm_tabOrder := reanchorTab (sm_tabOrder sm) tabIDs tabID\<rparr>, True))
           | None \<Rightarrow>
               (case slideString (sm_tabOrder sm) tabID newIdx of (order, moved) \<Rightarrow>
                  (sm\<lparr>sm_tabOrder := order\<rparr>, moved))))"

definition RestoreTab :: "session \<Rightarrow> Tab \<Rightarrow> Pane list \<Rightarrow> session" where
  "RestoreTab sm tab panes =
     sm\<lparr>sm_tabs := (sm_tabs sm)(t_ID tab \<mapsto> tab), sm_tabOrder := sm_tabOrder sm @ [t_ID tab],
        sm_panes := foldl (\<lambda>m p. m(p_ID p \<mapsto> p)) (sm_panes sm) panes\<rparr>"

definition RestoreProjects :: "session \<Rightarrow> Project list \<Rightarrow> string \<Rightarrow> session" where
  "RestoreProjects sm projects activeProject =
     (let sm1 = foldl (\<lambda>s p. s\<lparr>sm_projects := (sm_projects s)(j_ID p \<mapsto> p),
                              sm_projectOrder := sm_projectOrder s @ [j_ID p]\<rparr>) sm projects
      in if activeProject \<noteq> [] then sm1\<lparr>sm_activeProject := activeProject\<rparr> else sm1)"

section \<open>Lemmas\<close>

lemma detachPanes_map: "snd (detachPanes is panes) = panes |` (- set is)"
proof (induction "is" arbitrary: panes)
  case (Cons i ys)
  obtain ps m where d: "detachPanes ys (panes(i := None)) = (ps, m)" by fastforce
  with Cons [of "panes(i := None)"] have m: "m = (panes(i := None)) |` (- set ys)" by (metis snd_conv)
  show ?case
  proof (cases "panes i")
    case None
    with Cons [of panes] show ?thesis by (auto simp: restrict_map_def)
  next
    case (Some p)
    with d have "snd (detachPanes (i # ys) panes) = m" by simp
    with m show ?thesis by (auto simp: restrict_map_def)
  qed
qed (simp add: restrict_map_def)

lemma detachPanes_panes: "distinct is \<Longrightarrow> fst (detachPanes is panes) = List.map_filter panes is"
proof (induction "is" arbitrary: panes)
  case (Cons i ys)
  obtain ps m where d: "detachPanes ys (panes(i := None)) = (ps, m)" by fastforce
  have "List.map_filter (panes(i := None)) ys = List.map_filter panes ys"
    unfolding List.map_filter_def using Cons.prems
    by (intro arg_cong2 [where f = map] filter_cong map_cong refl) auto
  moreover have "ps = List.map_filter (panes(i := None)) ys"
    using d Cons.IH [of "panes(i := None)"] Cons.prems by (metis distinct.simps(2) fst_conv)
  ultimately show ?case using d Cons.IH [of panes] Cons.prems by (cases "panes i") simp_all
qed simp

lemma neighbour_mem: "neighbour xs t = [] \<and> remove1 t xs = [] \<or> neighbour xs t \<in> set (remove1 t xs)"
proof (cases "remove1 t xs = []")
  case False
  then have "remove1 t xs ! (length (remove1 t xs) - 1) \<in> set (remove1 t xs)"
    by (intro nth_mem) (metis diff_less length_greater_0_conv zero_less_one)
  moreover have "remove1 t xs ! nat (indexOfString xs t) \<in> set (remove1 t xs)"
    if "\<not> indexOfString xs t < 0" "\<not> indexOfString xs t \<ge> int (length (remove1 t xs))"
    using that by (intro nth_mem) auto
  ultimately show ?thesis using False by (auto simp: neighbour_def Let_def)
qed (simp add: neighbour_def Let_def)

text \<open>The invariant with the tab it needs most often.\<close>

lemma inv_tab:
  assumes "session_inv sm" "sm_tabs sm t = Some tab"
  obtains p where "t_ID tab = t" "t \<noteq> []" "sm_projects sm (t_ProjectID tab) = Some p" "t \<in> set (j_TabIDs p)"
    "distinct (j_TabIDs p)"
proof -
  have s: "struct_inv (tab_owner (sm_tabs sm)) (sm_tabOrder sm) (sm_projects sm)"
    using assms(1) by (simp add: session_inv_def)
  have "tab_owner (sm_tabs sm) t = Some (t_ProjectID tab)" using assms(2) by (simp add: owner_at)
  then obtain p where p: "sm_projects sm (t_ProjectID tab) = Some p" "t \<in> set (j_TabIDs p)"
    using struct_parent [OF s] by metis
  moreover have "t_ID tab = t" "t \<noteq> []"
    using assms pane_inv_tab [of "sm_tabs sm" "sm_panes sm" t tab] by (simp_all add: session_inv_def tab_ok_def)
  moreover have "distinct (j_TabIDs p)" using struct_distinct [OF s p(1)] .
  ultimately show thesis using that by blast
qed

lemma ids_edit:
  assumes "ids_inv projects order" "projects q = Some p" "j_ID p' = j_ID p"
    "j_ActiveTab p' = [] \<or> j_ActiveTab p' \<in> set (j_TabIDs p')"
  shows "ids_inv (projects(q \<mapsto> p')) order"
  using assms by (auto simp: ids_inv_def)

lemma ids_new:
  assumes "ids_inv projects order" "projects q = None" "q \<noteq> []" "j_ID p = q" "j_ActiveTab p = []"
  shows "ids_inv (projects(q \<mapsto> p)) (order @ [q])"
  using assms by (auto simp: ids_inv_def)

lemma ids_drop:
  assumes "ids_inv projects order"
  shows "ids_inv (projects(q := None)) (remove1 q order)"
  using assms by (auto simp: ids_inv_def)

lemma ids_order: "ids_inv projects order \<Longrightarrow> i \<in> set order \<longleftrightarrow> projects i \<noteq> None"
  by (auto simp: ids_inv_def)

lemma ids_project:
  "ids_inv projects order \<Longrightarrow> projects i = Some p \<Longrightarrow> i \<noteq> [] \<and> j_ID p = i \<and>
    (j_ActiveTab p = [] \<or> j_ActiveTab p \<in> set (j_TabIDs p))"
  by (auto simp: ids_inv_def)

subsection \<open>Creating a tab\<close>

lemma tabProject_inv:
  assumes "session_inv sm" "tabProject sm q u1 cwd = (sm1, pid)" "sm_projects sm (''proj-'' @ u1) = None"
  shows "session_inv sm1" "sm_projects sm1 pid \<noteq> None" "sm_tabs sm1 = sm_tabs sm" "sm_panes sm1 = sm_panes sm"
    "sm_tabOrder sm1 = sm_tabOrder sm" "sm_activeTab sm1 = sm_activeTab sm"
proof -
  have inv: "pane_inv (sm_tabs sm) (sm_panes sm)"
    "struct_inv (tab_owner (sm_tabs sm)) (sm_tabOrder sm) (sm_projects sm)"
    "ids_inv (sm_projects sm) (sm_projectOrder sm)" "active_inv sm"
    using assms(1) by (simp_all add: session_inv_def)
  consider "q \<noteq> []" "sm_projects sm q \<noteq> None" | "q = [] \<or> sm_projects sm q = None" "sm_projects sm (sm_activeProject sm) \<noteq> None"
    | "q = [] \<or> sm_projects sm q = None" "sm_projects sm (sm_activeProject sm) = None" by blast
  then have "session_inv sm1 \<and> sm_projects sm1 pid \<noteq> None \<and> sm_tabs sm1 = sm_tabs sm \<and> sm_panes sm1 = sm_panes sm
    \<and> sm_tabOrder sm1 = sm_tabOrder sm \<and> sm_activeTab sm1 = sm_activeTab sm"
  proof cases
    case 3
    then have empty: "sm_projectOrder sm = []" using inv(4) by (auto simp: active_inv_def split: if_splits)
    have "dom (sm_projects sm) = {}" using inv(3) empty by (simp add: ids_inv_def)
    then have none: "sm_projects sm = Map.empty" by simp
    let ?p = "\<lparr>j_ID = ''proj-'' @ u1, j_Name = ''Default'', j_RootDir = cwd, j_TabIDs = [], j_ActiveTab = [],
                     j_Bootstrap = True, j_Group = []\<rparr>"
    have "struct_inv (tab_owner (sm_tabs sm)) (sm_tabOrder sm) ((sm_projects sm)(''proj-'' @ u1 \<mapsto> ?p))"
      by (rule struct_new_project [OF inv(2) assms(3)]) simp
    moreover have "ids_inv ((sm_projects sm)(''proj-'' @ u1 \<mapsto> ?p)) (sm_projectOrder sm @ [''proj-'' @ u1])"
      by (rule ids_new [OF inv(3) assms(3)]) simp_all
    ultimately show ?thesis
      using assms(2) 3 empty inv by (auto simp: tabProject_def Let_def session_inv_def active_inv_def)
  qed (use assms in \<open>auto simp: tabProject_def\<close>)
  then show "session_inv sm1" "sm_projects sm1 pid \<noteq> None" "sm_tabs sm1 = sm_tabs sm" "sm_panes sm1 = sm_panes sm"
    "sm_tabOrder sm1 = sm_tabOrder sm" "sm_activeTab sm1 = sm_activeTab sm" by blast+
qed

lemma createTab_inv:
  assumes inv: "session_inv sm" and u1: "sm_projects sm (''proj-'' @ u1) = None"
    and u2: "sm_tabs sm (''tab-'' @ u2) = None" and c: "createTabLocked sm q name u1 u2 cwd = (sm', i)"
  shows "session_inv sm'" "\<exists>tab p. sm_tabs sm' i = Some tab \<and> sm_projects sm' (t_ProjectID tab) = Some p \<and> i \<in> set (j_TabIDs p)"
proof -
  obtain sm1 pid where tp: "tabProject sm q u1 cwd = (sm1, pid)" by fastforce
  note P = tabProject_inv [OF inv tp u1]
  obtain p where p: "sm_projects sm1 pid = Some p" using P(2) by auto
  let ?i = "''tab-'' @ u2"
  let ?tab = "(new_tab ?i name)\<lparr>t_ProjectID := pid\<rparr>"
  let ?p = "p\<lparr>j_TabIDs := j_TabIDs p @ [?i], j_ActiveTab := (if j_ActiveTab p = [] then ?i else j_ActiveTab p)\<rparr>"
  have fresh: "sm_tabs sm1 ?i = None" using u2 P(3) by simp
  have inv1: "pane_inv (sm_tabs sm1) (sm_panes sm1)"
    "struct_inv (tab_owner (sm_tabs sm1)) (sm_tabOrder sm1) (sm_projects sm1)"
    "ids_inv (sm_projects sm1) (sm_projectOrder sm1)" "active_inv sm1"
    using P(1) by (simp_all add: session_inv_def)
  let ?sm' = "sm1\<lparr>sm_tabs := (sm_tabs sm1)(?i \<mapsto> ?tab), sm_tabOrder := sm_tabOrder sm1 @ [?i],
      sm_activeTab := (if sm_activeTab sm1 = [] then ?i else sm_activeTab sm1),
      sm_projects := (sm_projects sm1)(pid \<mapsto> ?p)\<rparr>"
  have "(sm', i) = (?sm', ?i)"
    unfolding c [symmetric] createTabLocked_def tp prod.case Let_def p option.case ..
  then have sm': "sm' = ?sm'" "i = ?i" by blast+
  have "pane_inv ((sm_tabs sm1)(?i \<mapsto> ?tab)) (sm_panes sm1)"
    by (rule pane_inv_new_tab [OF inv1(1) fresh]) (simp_all add: new_tab_def)
  moreover have "struct_inv (tab_owner ((sm_tabs sm1)(?i \<mapsto> ?tab))) (sm_tabOrder sm1 @ [?i]) ((sm_projects sm1)(pid \<mapsto> ?p))"
    using struct_add [OF inv1(2), of ?i pid p ?p] fresh p by (simp add: owner_at)
  moreover have "ids_inv ((sm_projects sm1)(pid \<mapsto> ?p)) (sm_projectOrder sm1)"
    using ids_project [OF inv1(3) p] by (intro ids_edit [OF inv1(3) p]) auto
  moreover have "active_inv sm'" using inv1(4) by (auto simp: sm' active_inv_def)
  ultimately show "session_inv sm'" by (simp add: session_inv_def sm')
  show "\<exists>tab p. sm_tabs sm' i = Some tab \<and> sm_projects sm' (t_ProjectID tab) = Some p \<and> i \<in> set (j_TabIDs p)"
    by (simp add: sm')
qed

subsection \<open>Destroying a tab\<close>

lemma destroyTab_inv:
  assumes inv: "session_inv sm" and t: "sm_tabs sm t = Some tab" and d: "destroyTabLocked sm tab = (sm', ps)"
  shows "session_inv sm'" "ps = live_panes sm (t_Panes tab)" "sm_tabs sm' = (sm_tabs sm)(t := None)"
    "sm_panes sm' = sm_panes sm |` (- set (t_Panes tab))"
proof -
  have P: "pane_inv (sm_tabs sm) (sm_panes sm)"
    "struct_inv (tab_owner (sm_tabs sm)) (sm_tabOrder sm) (sm_projects sm)"
    "ids_inv (sm_projects sm) (sm_projectOrder sm)" "active_inv sm"
    using inv by (simp_all add: session_inv_def)
  obtain p where p: "t_ID tab = t" "t \<noteq> []" "sm_projects sm (t_ProjectID tab) = Some p" "t \<in> set (j_TabIDs p)"
    "distinct (j_TabIDs p)" using inv_tab [OF inv t] .
  have dp: "detachPanes (t_Panes tab) (sm_panes sm) = (live_panes sm (t_Panes tab), sm_panes sm |` (- set (t_Panes tab)))"
    using detachPanes_map [of "t_Panes tab" "sm_panes sm"] detachPanes_panes [OF pane_inv_distinct [OF P(1) t], of "sm_panes sm"]
    by (simp add: prod_eq_iff live_panes_def)
  let ?s = "neighbour (j_TabIDs p) t"
  let ?p = "p\<lparr>j_TabIDs := remove1 t (j_TabIDs p), j_ActiveTab := (if j_ActiveTab p = t then ?s else j_ActiveTab p)\<rparr>"
  let ?o = "remove1 t (sm_tabOrder sm)"
  have sm': "sm' = sm\<lparr>sm_panes := sm_panes sm |` (- set (t_Panes tab)),
      sm_projects := (sm_projects sm)(t_ProjectID tab \<mapsto> ?p), sm_tabs := (sm_tabs sm)(t := None), sm_tabOrder := ?o,
      sm_activeTab := (if sm_activeTab sm = t then (if ?s = [] \<and> ?o \<noteq> [] then hd ?o else ?s) else sm_activeTab sm)\<rparr>"
    "ps = live_panes sm (t_Panes tab)"
    using d p dp by (simp_all add: destroyTabLocked_def Let_def)
  have struct': "struct_inv ((tab_owner (sm_tabs sm))(t := None)) ?o ((sm_projects sm)(t_ProjectID tab \<mapsto> ?p))"
    using struct_remove [OF P(2), of t "t_ProjectID tab" p ?p] t p by (simp add: owner_at)
  have ids': "ids_inv ((sm_projects sm)(t_ProjectID tab \<mapsto> ?p)) (sm_projectOrder sm)"
    using ids_project [OF P(3) p(3)] neighbour_mem [of "j_TabIDs p" t] p(5)
    by (intro ids_edit [OF P(3) p(3)]) auto
  have live: "x \<noteq> t \<and> sm_tabs sm x \<noteq> None" if "x \<in> set ?o" for x
    using that struct_order [OF P(2)] by (auto simp: owner_at)
  have sub: "x \<in> set ?o" if "x \<in> set (remove1 t (j_TabIDs p))" for x
    using that p(5) struct_mem [OF P(2) p(3), of x] struct_order(2) [OF P(2), of x] by auto
  have "sm_activeTab sm' = [] \<or> sm_tabs sm' (sm_activeTab sm') \<noteq> None"
  proof (cases "sm_activeTab sm = t")
    case True
    define a where "a = (if ?s = [] \<and> ?o \<noteq> [] then hd ?o else ?s)"
    have "a = [] \<or> a \<in> set ?o"
      using neighbour_mem [of "j_TabIDs p" t] sub [of ?s] hd_in_set [of ?o] by (auto simp: a_def)
    then have "a = [] \<or> ((sm_tabs sm)(t := None)) a \<noteq> None" using live by fastforce
    then show ?thesis using True by (simp add: sm' flip: a_def)
  next
    case False
    with P(4) show ?thesis by (simp add: sm' active_inv_def)
  qed
  moreover have "if sm_projectOrder sm' = [] then sm_activeProject sm' = [] else sm_projects sm' (sm_activeProject sm') \<noteq> None"
    using P(4) by (auto simp: sm' active_inv_def split: if_splits)
  ultimately have "active_inv sm'" unfolding active_inv_def by blast
  with struct' ids' pane_inv_drop_tab [OF P(1) t] show "session_inv sm'"
    by (simp add: session_inv_def sm')
  show "ps = live_panes sm (t_Panes tab)" "sm_tabs sm' = (sm_tabs sm)(t := None)"
    "sm_panes sm' = sm_panes sm |` (- set (t_Panes tab))" by (simp_all add: sm')
qed

subsection \<open>The other tab operations\<close>

lemma session_inv_edit_tab:
  assumes inv: "session_inv sm" and t: "sm_tabs sm t = Some tab"
    and tab': "t_ID tab' = t_ID tab" "t_Panes tab' = t_Panes tab" "overlayID tab' = overlayID tab"
      "t_ProjectID tab' = t_ProjectID tab" "leaves_ok tab' (tree_set (sm_panes sm) tab)"
  shows "session_inv (sm\<lparr>sm_tabs := (sm_tabs sm)(t \<mapsto> tab')\<rparr>)"
proof -
  have P: "pane_inv (sm_tabs sm) (sm_panes sm)" using inv by (simp add: session_inv_def)
  have "t_ID tab = t" using pane_inv_tab [OF P t] by (simp add: tab_ok_def)
  then have "pane_inv ((sm_tabs sm)(t \<mapsto> tab')) (sm_panes sm)"
    using tab' by (intro pane_inv_edit_tab [OF P t]) simp_all
  moreover have "tab_owner ((sm_tabs sm)(t \<mapsto> tab')) = tab_owner (sm_tabs sm)"
    using t tab'(4) by (rule owner_same)
  ultimately show ?thesis using inv by (auto simp: session_inv_def active_inv_def simp del: owner_upd)
qed

lemma UpdateTab_inv: "session_inv sm \<Longrightarrow> session_inv (fst (UpdateTab sm t name color clear))"
proof (cases "sm_tabs sm t")
  case (Some tab)
  assume inv: "session_inv sm"
  have "leaves_ok tab (tree_set (sm_panes sm) tab)"
    using inv Some pane_inv_tab by (auto simp: session_inv_def tab_ok_def)
  then have "leaves_ok (tab\<lparr>t_Name := n, t_Color := c\<rparr>) (tree_set (sm_panes sm) tab)" for n c
    using leaves_ok_cong [of "tab\<lparr>t_Name := n, t_Color := c\<rparr>" tab] by simp
  then show ?thesis
    using Some by (simp add: UpdateTab_def Let_def session_inv_edit_tab [OF inv Some])
qed (simp add: UpdateTab_def)

lemma SwitchTab_inv:
  assumes inv: "session_inv sm"
  shows "session_inv (SwitchTab sm t)"
proof (cases "sm_tabs sm t")
  case (Some tab)
  have P: "pane_inv (sm_tabs sm) (sm_panes sm)"
    "struct_inv (tab_owner (sm_tabs sm)) (sm_tabOrder sm) (sm_projects sm)"
    "ids_inv (sm_projects sm) (sm_projectOrder sm)" "active_inv sm"
    using inv by (simp_all add: session_inv_def)
  obtain p where p: "sm_projects sm (t_ProjectID tab) = Some p" "t \<in> set (j_TabIDs p)"
    using inv_tab [OF inv Some] by metis
  let ?P = "(sm_projects sm)(t_ProjectID tab \<mapsto> p\<lparr>j_ActiveTab := t\<rparr>)"
  have "struct_inv (tab_owner (sm_tabs sm)) (sm_tabOrder sm) ?P"
    by (rule struct_edit_project [OF P(2) p(1)]) simp
  moreover have "ids_inv ?P (sm_projectOrder sm)" using p(2) by (intro ids_edit [OF P(3) p(1)]) simp_all
  moreover have "active_inv (sm\<lparr>sm_activeTab := t, sm_projects := ?P\<rparr>)"
    using P(4) Some by (auto simp: active_inv_def split: if_splits)
  ultimately show ?thesis using P(1) Some p(1) by (simp add: SwitchTab_def session_inv_def)
qed (use inv in \<open>simp add: SwitchTab_def\<close>)

lemma ReorderTab_inv:
  assumes inv: "session_inv sm"
  shows "session_inv (fst (ReorderTab sm t k))"
proof (cases "sm_tabs sm t")
  case (Some tab)
  have P: "pane_inv (sm_tabs sm) (sm_panes sm)"
    "struct_inv (tab_owner (sm_tabs sm)) (sm_tabOrder sm) (sm_projects sm)"
    "ids_inv (sm_projects sm) (sm_projectOrder sm)" "active_inv sm"
    using inv by (simp_all add: session_inv_def)
  obtain p where p: "sm_projects sm (t_ProjectID tab) = Some p" "t \<in> set (j_TabIDs p)"
    using inv_tab [OF inv Some] by metis
  define c where "c = clamp_index k (length (j_TabIDs p))"
  show ?thesis
  proof (cases "indexOfString (j_TabIDs p) t = int c")
    case True
    then show ?thesis using Some p inv
      by (simp add: ReorderTab_def indexOfString_neg slideString_eq flip: c_def)
  next
    case False
    define l where "l = insert_at c t (remove1 t (j_TabIDs p))"
    have eq: "fst (ReorderTab sm t k) = sm\<lparr>sm_projects := (sm_projects sm)(t_ProjectID tab \<mapsto> p\<lparr>j_TabIDs := l\<rparr>),
        sm_tabOrder := reanchorTab (sm_tabOrder sm) l t\<rparr>"
      using Some p False by (simp add: ReorderTab_def indexOfString_neg slideString_eq l_def flip: c_def)
    have l: "set l = set (j_TabIDs p)" using p(2) struct_distinct [OF P(2) p(1)] by (auto simp: l_def)
    have "struct_inv (tab_owner (sm_tabs sm)) (reanchorTab (sm_tabOrder sm) l t)
        ((sm_projects sm)(t_ProjectID tab \<mapsto> p\<lparr>j_TabIDs := l\<rparr>))"
      using struct_slide [OF P(2) p, of "p\<lparr>j_TabIDs := l\<rparr>" c] by (simp add: l_def)
    moreover have "ids_inv ((sm_projects sm)(t_ProjectID tab \<mapsto> p\<lparr>j_TabIDs := l\<rparr>)) (sm_projectOrder sm)"
      using ids_project [OF P(3) p(1)] l by (intro ids_edit [OF P(3) p(1)]) simp_all
    ultimately show ?thesis
      using P(1,4) by (auto simp: eq session_inv_def active_inv_def split: if_splits)
  qed
qed (use inv in \<open>simp add: ReorderTab_def\<close>)

lemma session_inv_pane_op:
  assumes "session_inv sm" "pane_inv (sm_tabs sm') (sm_panes sm')" "tab_owner (sm_tabs sm') = tab_owner (sm_tabs sm)"
    and "sm_tabOrder sm' = sm_tabOrder sm" "sm_projects sm' = sm_projects sm"
      "sm_projectOrder sm' = sm_projectOrder sm" "sm_activeTab sm' = sm_activeTab sm" "sm_activeProject sm' = sm_activeProject sm"
  shows "session_inv sm'"
proof -
  have "sm_tabs sm' t \<noteq> None \<longleftrightarrow> sm_tabs sm t \<noteq> None" for t
    using fun_cong [OF assms(3), of t]
    by (cases "sm_tabs sm t"; cases "sm_tabs sm' t") (auto simp: owner_at)
  with assms show ?thesis by (simp add: session_inv_def active_inv_def)
qed

end
