(* ===== verification/Session_Projects.thy ===== *)
theory Session_Projects
  imports Session_Tabs
begin

text \<open>
  The project operations of \<open>internal/daemon/project.go\<close>. \<open>lower\<close> is \<open>strings.ToLower\<close>, whose
  Unicode tables are a parameter; \<open>keys\<close> is the order in which \<open>range sm.projects\<close> visits the
  keys, which Go leaves open. The search for a free name is an unbounded loop, so it is a partial
  function and \<open>None\<close> is its not returning.
\<close>

section \<open>Names\<close>

definition norm_name :: "(string \<Rightarrow> string) \<Rightarrow> string \<Rightarrow> string" where
  "norm_name lower s = lower (TrimSpace s)"

definition candidate :: "string \<Rightarrow> nat \<Rightarrow> string" where
  "candidate base n = base @ '' ('' @ decimal n @ '')''"

partial_function (option) firstFree :: "(string \<Rightarrow> string) \<Rightarrow> string set \<Rightarrow> string \<Rightarrow> nat \<Rightarrow> string option" where
  "firstFree lower used base n =
     (if norm_name lower (candidate base n) \<notin> used then Some (candidate base n)
      else firstFree lower used base (n + 1))"

definition uniqueProjectName :: "(string \<Rightarrow> string) \<Rightarrow> string list \<Rightarrow> string \<Rightarrow> string option" where
  "uniqueProjectName lower taken want =
     (let used = norm_name lower ` set taken; base = TrimSpace want in
      if norm_name lower base \<notin> used then Some base else firstFree lower used base 2)"

definition projectNamesExcept :: "session \<Rightarrow> string list \<Rightarrow> string \<Rightarrow> string list" where
  "projectNamesExcept sm keys i =
     map j_Name (List.map_filter (sm_projects sm) (filter (\<lambda>k. k \<noteq> i) keys))"

definition projectNames :: "session \<Rightarrow> string list \<Rightarrow> string list" where
  "projectNames sm keys = projectNamesExcept sm keys []"

section \<open>Operations\<close>

definition CreateProject ::
    "(string \<Rightarrow> string) \<Rightarrow> session \<Rightarrow> string list \<Rightarrow> string \<Rightarrow> string \<Rightarrow> string \<Rightarrow> (session \<times> Project) option" where
  "CreateProject lower sm keys name rootDir u =
     (case uniqueProjectName lower (projectNames sm keys) name of
        None \<Rightarrow> None
      | Some nm \<Rightarrow>
          (let i = ''proj-'' @ u;
               p = \<lparr>j_ID = i, j_Name = nm, j_RootDir = rootDir, j_TabIDs = [], j_ActiveTab = [],
                    j_Bootstrap = False, j_Group = []\<rparr>
           in Some (sm\<lparr>sm_projects := (sm_projects sm)(i \<mapsto> p), sm_projectOrder := sm_projectOrder sm @ [i],
                       sm_activeProject := (if sm_activeProject sm = [] then i else sm_activeProject sm)\<rparr>, p)))"

fun destroyTabsOf :: "string list \<Rightarrow> session \<Rightarrow> Pane list \<times> session" where
  "destroyTabsOf [] sm = ([], sm)"
| "destroyTabsOf (t # ts) sm =
     (case sm_tabs sm t of
        None \<Rightarrow> destroyTabsOf ts sm
      | Some tab \<Rightarrow>
          (case detachPanes (t_Panes tab) (sm_panes sm) of (ps, panes') \<Rightarrow>
           case destroyTabsOf ts (sm\<lparr>sm_panes := panes', sm_tabs := (sm_tabs sm)(t := None),
               sm_tabOrder := removeString (sm_tabOrder sm) t\<rparr>) of
             (qs, sm') \<Rightarrow> (ps @ qs, sm')))"

definition DestroyProject :: "session \<Rightarrow> string \<Rightarrow> session \<times> Pane list" where
  "DestroyProject sm i =
     (case sm_projects sm i of
        None \<Rightarrow> (sm, [])
      | Some p \<Rightarrow>
          (case destroyTabsOf (j_TabIDs p) sm of (detached, sm1) \<Rightarrow>
             let projects' = (sm_projects sm1)(i := None);
                 order' = removeString (sm_projectOrder sm1) i;
                 active' = (if sm_activeProject sm1 = i
                            then (if order' \<noteq> [] then hd order' else []) else sm_activeProject sm1);
                 activeTab' = (case projects' active' of
                     None \<Rightarrow> []
                   | Some ap \<Rightarrow> if j_ActiveTab ap \<noteq> [] then j_ActiveTab ap
                                else if j_TabIDs ap \<noteq> [] then hd (j_TabIDs ap) else [])
             in (sm1\<lparr>sm_projects := projects', sm_projectOrder := order', sm_activeProject := active',
                     sm_activeTab := activeTab'\<rparr>, detached)))"

definition UpdateProject :: "(string \<Rightarrow> string) \<Rightarrow> session \<Rightarrow> string list \<Rightarrow> string \<Rightarrow> string \<Rightarrow> string \<Rightarrow> bool
    \<Rightarrow> (session \<times> bool) option" where
  "UpdateProject lower sm keys i name rootDir requireBootstrap =
     (case sm_projects sm i of
        None \<Rightarrow> Some (sm, False)
      | Some p \<Rightarrow>
          if requireBootstrap \<and> \<not> j_Bootstrap p then Some (sm, False)
          else (case uniqueProjectName lower (projectNamesExcept sm keys i) name of
              None \<Rightarrow> None
            | Some nm \<Rightarrow> Some (sm\<lparr>sm_projects := (sm_projects sm)(i \<mapsto>
                  p\<lparr>j_Name := nm, j_RootDir := rootDir, j_Bootstrap := False\<rparr>)\<rparr>, True)))"

text \<open>\<open>dst\<close> is the live record of \<open>into\<close>; a nil \<open>dst\<close> cannot occur, MergeProjects has checked it.\<close>

fun mergeTabs :: "string \<Rightarrow> string list \<Rightarrow> session \<Rightarrow> session" where
  "mergeTabs into [] sm = sm"
| "mergeTabs into (t # ts) sm =
     (case (sm_tabs sm t, sm_projects sm into) of
        (Some tab, Some dst) \<Rightarrow>
          (let sm1 = sm\<lparr>sm_tabs := (sm_tabs sm)(t \<mapsto> tab\<lparr>t_ProjectID := into\<rparr>)\<rparr> in
           if indexOfString (j_TabIDs dst) t \<ge> 0 then mergeTabs into ts sm1
           else
             (let tabIDs = j_TabIDs dst @ [t] in
              mergeTabs into ts (sm1\<lparr>sm_projects := (sm_projects sm)(into \<mapsto> dst\<lparr>j_TabIDs := tabIDs\<rparr>),
                                     sm_tabOrder := reanchorTab (sm_tabOrder sm) tabIDs t\<rparr>)))
      | _ \<Rightarrow> mergeTabs into ts sm)"

fun mergeAll :: "string \<Rightarrow> string list \<Rightarrow> session \<Rightarrow> session" where
  "mergeAll into [] sm = sm"
| "mergeAll into (i # is) sm =
     (if i = into then mergeAll into is sm
      else case sm_projects sm i of
          None \<Rightarrow> mergeAll into is sm
        | Some src \<Rightarrow>
            (let sm1 = mergeTabs into (j_TabIDs src) sm in
             mergeAll into is (sm1\<lparr>sm_projects := (sm_projects sm1)(i := None),
               sm_projectOrder := removeString (sm_projectOrder sm1) i,
               sm_activeProject := (if sm_activeProject sm1 = i then into else sm_activeProject sm1)\<rparr>)))"

text \<open>The re-derivation of the two active tabs at the end of a merge.\<close>

definition mergeActive :: "string \<Rightarrow> session \<Rightarrow> session" where
  "mergeActive into sm =
     (case sm_projects sm into of
        None \<Rightarrow> sm
      | Some dst \<Rightarrow>
          if sm_activeProject sm = into then
            (if indexOfString (j_TabIDs dst) (sm_activeTab sm) \<ge> 0 then
               sm\<lparr>sm_projects := (sm_projects sm)(into \<mapsto> dst\<lparr>j_ActiveTab := sm_activeTab sm\<rparr>)\<rparr>
             else if j_ActiveTab dst \<noteq> [] \<and> indexOfString (j_TabIDs dst) (j_ActiveTab dst) \<ge> 0 then
               sm\<lparr>sm_activeTab := j_ActiveTab dst\<rparr>
             else if j_TabIDs dst \<noteq> [] then
               sm\<lparr>sm_activeTab := hd (j_TabIDs dst),
                  sm_projects := (sm_projects sm)(into \<mapsto> dst\<lparr>j_ActiveTab := hd (j_TabIDs dst)\<rparr>)\<rparr>
             else sm)
          else sm)"

definition MergeProjects :: "(string \<Rightarrow> string) \<Rightarrow> session \<Rightarrow> string list \<Rightarrow> string \<Rightarrow> string list \<Rightarrow> string
    \<Rightarrow> (session \<times> bool) option" where
  "MergeProjects lower sm keys into absorb name =
     (if sm_projects sm into = None then Some (sm, False)
      else
        (let sm1 = mergeAll into absorb sm in
         case sm_projects sm1 into of
           None \<Rightarrow> Some (sm1, True)
         | Some dst \<Rightarrow>
             (case uniqueProjectName lower (projectNamesExcept sm1 keys into) name of
                None \<Rightarrow> None
              | Some nm \<Rightarrow>
                  Some (mergeActive into (sm1\<lparr>sm_projects := (sm_projects sm1)(into \<mapsto>
                    dst\<lparr>j_Name := nm, j_Bootstrap := False\<rparr>)\<rparr>), True))))"

datatype moveTabResult = moveTabMoved | moveTabNoop | moveTabUnknownTab | moveTabUnknownProject

definition MoveTab :: "session \<Rightarrow> string \<Rightarrow> string \<Rightarrow> session \<times> string \<times> moveTabResult" where
  "MoveTab sm tabID projectID =
     (case sm_tabs sm tabID of
        None \<Rightarrow> (sm, [], moveTabUnknownTab)
      | Some tab \<Rightarrow>
        case sm_projects sm projectID of
          None \<Rightarrow> (sm, [], moveTabUnknownProject)
        | Some dst \<Rightarrow>
          if t_ProjectID tab = projectID then (sm, [], moveTabNoop)
          else
            (let src_id = t_ProjectID tab;
                 successor = (case sm_projects sm src_id of None \<Rightarrow> [] | Some src \<Rightarrow> neighbour (j_TabIDs src) tabID);
                 projects1 = (case sm_projects sm src_id of
                     None \<Rightarrow> sm_projects sm
                   | Some src \<Rightarrow> (sm_projects sm)(src_id \<mapsto>
                       src\<lparr>j_TabIDs := removeString (j_TabIDs src) tabID,
                           j_ActiveTab := (if j_ActiveTab src = tabID then successor else j_ActiveTab src)\<rparr>));
                 tabIDs = (if indexOfString (j_TabIDs dst) tabID < 0 then j_TabIDs dst @ [tabID] else j_TabIDs dst);
                 active = (if sm_activeTab sm = tabID \<and> sm_activeProject sm \<noteq> projectID
                           then (if successor \<noteq> [] then successor else sm_activeTab sm)
                           else if sm_activeProject sm = projectID then tabID else sm_activeTab sm)
             in (sm\<lparr>sm_tabs := (sm_tabs sm)(tabID \<mapsto> tab\<lparr>t_ProjectID := projectID\<rparr>),
                    sm_projects := projects1(projectID \<mapsto> dst\<lparr>j_TabIDs := tabIDs, j_ActiveTab := tabID\<rparr>),
                    sm_tabOrder := reanchorTab (sm_tabOrder sm) tabIDs tabID,
                    sm_activeTab := active\<rparr>, src_id, moveTabMoved)))"

definition SwitchProject :: "session \<Rightarrow> string \<Rightarrow> session \<times> string \<times> bool" where
  "SwitchProject sm i =
     (case sm_projects sm i of
        None \<Rightarrow> (sm, [], False)
      | Some p \<Rightarrow>
          (let tabID = (if sm_tabs sm (j_ActiveTab p) \<noteq> None then j_ActiveTab p
                        else if j_TabIDs p \<noteq> [] then hd (j_TabIDs p) else []);
               sm1 = sm\<lparr>sm_activeProject := i\<rparr>
           in (if tabID \<noteq> [] then sm1\<lparr>sm_activeTab := tabID,
                   sm_projects := (sm_projects sm)(i \<mapsto> p\<lparr>j_ActiveTab := tabID\<rparr>)\<rparr> else sm1, tabID, True)))"

definition ReorderProject :: "session \<Rightarrow> string \<Rightarrow> int \<Rightarrow> session \<times> bool" where
  "ReorderProject sm i newIndex =
     (case sm_projects sm i of
        None \<Rightarrow> (sm, False)
      | Some p \<Rightarrow>
          (let before = indexOfString (sm_projectOrder sm) i;
               order = removeString (sm_projectOrder sm) i;
               k0 = (if newIndex < 0 then 0 else newIndex);
               k = (if k0 > int (length order) then length order else nat k0);
               order' = take k order @ (i # drop k order)
           in (sm\<lparr>sm_projectOrder := order'\<rparr>, indexOfString order' i \<noteq> before)))"

section \<open>A free name\<close>

text \<open>\<open>strings.ToLower\<close> maps code points one by one, and leaves digits, blanks and brackets alone.\<close>

definition lower_ok :: "(string \<Rightarrow> string) \<Rightarrow> bool" where
  "lower_ok lower \<longleftrightarrow> (\<forall>s k. lower (s @ ''('' @ decimal k @ '')'') = lower s @ ''('' @ decimal k @ '')'')"

lemma ascii_lower_ok: "lower_ok (map ascii_lower)"
proof -
  have "ascii_lower c = c" if "c \<in> set (decimal k)" for c k
    using decimal_digits [OF that] by (auto simp: ascii_lower_def Let_def of_char_digit)
  then have "map ascii_lower (decimal k) = decimal k" for k by (simp add: map_idI)
  then show ?thesis by (simp add: lower_ok_def ascii_lower_def)
qed

lemma find_cong_prefix:
  assumes "\<forall>w \<in> set ws. c \<notin> set w"
  shows "find (\<lambda>w. w \<noteq> [] \<and> prefix w (x @ c # y)) ws = find (\<lambda>w. w \<noteq> [] \<and> prefix w x) ws"
proof -
  have "prefix w (x @ c # y) \<longleftrightarrow> prefix w x" if "c \<notin> set w" for w
    using that by (auto simp: prefix_append prefix_Cons)
  with assms show ?thesis by (intro find_cong) auto
qed

lemma trim_left_stop:
  assumes "\<forall>w \<in> set ws. c \<notin> set w"
  shows "trim_left ws (x @ c # y) = trim_left ws x @ c # y"
proof (induction x rule: length_induct)
  case (1 x)
  show ?case
  proof (cases "find (\<lambda>w. w \<noteq> [] \<and> prefix w x) ws")
    case None
    then show ?thesis using find_cong_prefix [OF assms, of x y] by (simp add: trim_left.simps)
  next
    case (Some w)
    then have w: "w \<noteq> []" "prefix w x" by (auto simp: find_Some_iff)
    then have "0 < length w" "length w \<le> length x" by (auto dest: prefix_length_le)
    then have "length x - length w < length x" by linarith
    then have "length (drop (length w) x) < length x" by simp
    with 1 have "trim_left ws (drop (length w) x @ c # y) = trim_left ws (drop (length w) x) @ c # y" by blast
    with Some \<open>length w \<le> length x\<close> show ?thesis
      using find_cong_prefix [OF assms, of x y] trim_left.simps [of ws x] trim_left.simps [of ws "x @ c # y"]
      by simp
  qed
qed

lemma no_bracket: "\<forall>w \<in> set space_seqs. CHR ''('' \<notin> set w" "\<forall>w \<in> set (map rev space_seqs). CHR '')'' \<notin> set w"
proof -
  have "char_of n \<noteq> CHR ''(''" "char_of n \<noteq> CHR '')''" if "ns \<in> set space_codes" "n \<in> set ns" for ns n
    using space_codes_bounds that by (auto simp: char_of_eq_iff take_bit_eq_mod)
  then show "\<forall>w \<in> set space_seqs. CHR ''('' \<notin> set w" "\<forall>w \<in> set (map rev space_seqs). CHR '')'' \<notin> set w"
    by (auto simp: space_seqs_def) metis+
qed

lemma TrimSpace_candidate:
  "TrimSpace (candidate base n) = trim_left space_seqs (base @ '' '') @ ''('' @ decimal n @ '')''"
proof -
  have "candidate base n = (base @ '' '') @ CHR ''('' # decimal n @ '')''" by (simp add: candidate_def)
  then have "trim_left space_seqs (candidate base n) = trim_left space_seqs (base @ '' '') @ CHR ''('' # decimal n @ '')''"
    using trim_left_stop [OF no_bracket(1)] by metis
  moreover have "trim_left (map rev space_seqs) ([] @ CHR '')'' # z) = trim_left (map rev space_seqs) [] @ CHR '')'' # z" for z
    by (rule trim_left_stop [OF no_bracket(2)])
  moreover have "trim_left (map rev space_seqs) [] = []"
  proof -
    have "find (\<lambda>w. w \<noteq> [] \<and> prefix w []) ws = None" for ws :: "string list"
      by (auto simp: find_None_iff)
    then show ?thesis by (subst trim_left.simps) simp
  qed
  ultimately show ?thesis by (simp add: TrimSpace_def)
qed

lemma norm_candidate_inj:
  assumes "lower_ok lower" "norm_name lower (candidate base m) = norm_name lower (candidate base n)"
  shows "m = n"
  using assms decimal_inj [of m n] unfolding norm_name_def TrimSpace_candidate lower_ok_def by simp

lemma firstFree_found:
  assumes "n \<le> m" "norm_name lower (candidate base m) \<notin> used"
    "\<And>k. n \<le> k \<Longrightarrow> k < m \<Longrightarrow> norm_name lower (candidate base k) \<in> used"
  shows "firstFree lower used base n = Some (candidate base m)"
  using assms
proof (induction "m - n" arbitrary: n)
  case 0
  then show ?case by (subst firstFree.simps) simp
next
  case (Suc d)
  then have "n < m" by simp
  with Suc.prems(3) have "norm_name lower (candidate base n) \<in> used" by simp
  moreover have "firstFree lower used base (n + 1) = Some (candidate base m)"
    using Suc \<open>n < m\<close> by (intro Suc.hyps(1)) auto
  ultimately show ?case by (subst firstFree.simps) simp
qed

lemma free_candidate:
  assumes "lower_ok lower" "finite used" "card used \<le> l"
  shows "\<exists>m. 2 \<le> m \<and> m \<le> l + 2 \<and> norm_name lower (candidate base m) \<notin> used
    \<and> (\<forall>k. 2 \<le> k \<longrightarrow> k < m \<longrightarrow> norm_name lower (candidate base k) \<in> used)"
proof -
  let ?f = "\<lambda>m. norm_name lower (candidate base m)"
  have "inj_on ?f {2..l + 2}" using norm_candidate_inj [OF assms(1)] by (auto intro!: inj_onI)
  then have "card (?f ` {2..l + 2}) = l + 1" by (simp add: card_image)
  then have "\<not> ?f ` {2..l + 2} \<subseteq> used"
    using card_mono [OF assms(2), of "?f ` {2..l + 2}"] assms(3) by linarith
  then obtain j where "j \<in> {2..l + 2}" "?f j \<notin> used" by blast
  then have j: "2 \<le> j" "j \<le> l + 2" "?f j \<notin> used" by simp_all
  define m where "m = (LEAST k. 2 \<le> k \<and> ?f k \<notin> used)"
  have "2 \<le> m \<and> ?f m \<notin> used" unfolding m_def by (rule LeastI [of _ j]) (use j in simp)
  moreover have "m \<le> j" unfolding m_def by (rule Least_le) (use j in simp)
  moreover have "?f k \<in> used" if "2 \<le> k" "k < m" for k
    using that not_less_Least [of k "\<lambda>k. 2 \<le> k \<and> ?f k \<notin> used"] unfolding m_def by blast
  moreover have "m \<le> l + 2" using \<open>m \<le> j\<close> j(2) by linarith
  ultimately show ?thesis by blast
qed

lemma uniqueProjectName_Some:
  assumes "lower_ok lower"
  obtains nm where "uniqueProjectName lower taken want = Some nm"
    "norm_name lower nm \<notin> norm_name lower ` set taken"
    "nm = TrimSpace want \<or> (\<exists>m. 2 \<le> m \<and> m \<le> length taken + 2 \<and> nm = candidate (TrimSpace want) m
      \<and> (\<forall>k. 2 \<le> k \<longrightarrow> k < m \<longrightarrow> norm_name lower (candidate (TrimSpace want) k) \<in> norm_name lower ` set taken))"
proof -
  let ?used = "norm_name lower ` set taken"
  have "card ?used \<le> length taken" using card_image_le card_length le_trans finite_set by metis
  then obtain m where m: "2 \<le> m" "m \<le> length taken + 2" "norm_name lower (candidate (TrimSpace want) m) \<notin> ?used"
      "\<And>k. 2 \<le> k \<Longrightarrow> k < m \<Longrightarrow> norm_name lower (candidate (TrimSpace want) k) \<in> ?used"
    using free_candidate [OF assms, of ?used "length taken" "TrimSpace want"] by auto
  show thesis
  proof (cases "norm_name lower (TrimSpace want) \<in> ?used")
    case True
    have "firstFree lower ?used (TrimSpace want) 2 = Some (candidate (TrimSpace want) m)"
      using m by (intro firstFree_found) auto
    with True m show thesis
      by (intro that [of "candidate (TrimSpace want) m"]) (auto simp: uniqueProjectName_def Let_def)
  next
    case False
    then show thesis by (intro that [of "TrimSpace want"]) (auto simp: uniqueProjectName_def Let_def)
  qed
qed

section \<open>The invariant\<close>

lemma session_invD:
  assumes "session_inv sm"
  shows "pane_inv (sm_tabs sm) (sm_panes sm)"
    "struct_inv (tab_owner (sm_tabs sm)) (sm_tabOrder sm) (sm_projects sm)"
    "ids_inv (sm_projects sm) (sm_projectOrder sm)" "active_inv sm"
  using assms by (simp_all add: session_inv_def)

lemma CreateProject_inv:
  assumes inv: "session_inv sm" and u: "sm_projects sm (''proj-'' @ u) = None"
    and c: "CreateProject lower sm keys name rootDir u = Some (sm', p)"
  shows "session_inv sm'"
proof -
  note P = session_invD [OF inv]
  from c obtain nm where sm': "sm' = sm\<lparr>sm_projects := (sm_projects sm)(''proj-'' @ u \<mapsto> p),
        sm_projectOrder := sm_projectOrder sm @ [''proj-'' @ u],
        sm_activeProject := (if sm_activeProject sm = [] then ''proj-'' @ u else sm_activeProject sm)\<rparr>"
      "p = \<lparr>j_ID = ''proj-'' @ u, j_Name = nm, j_RootDir = rootDir, j_TabIDs = [], j_ActiveTab = [],
                    j_Bootstrap = False, j_Group = []\<rparr>"
    by (auto simp: CreateProject_def Let_def split: option.splits)
  have "struct_inv (tab_owner (sm_tabs sm)) (sm_tabOrder sm) ((sm_projects sm)(''proj-'' @ u \<mapsto> p))"
    by (rule struct_new_project [OF P(2) u]) (simp add: sm'(2))
  moreover have "ids_inv ((sm_projects sm)(''proj-'' @ u \<mapsto> p)) (sm_projectOrder sm @ [''proj-'' @ u])"
    by (rule ids_new [OF P(3) u]) (simp_all add: sm'(2))
  moreover have "active_inv sm'"
    using P(4) by (auto simp: sm'(1) active_inv_def split: if_splits)
  ultimately show ?thesis using P(1) by (simp add: session_inv_def sm'(1))
qed

text \<open>The loop over a project's tabs, with the project's record as if it already listed only the
  tabs that are left.\<close>

lemma destroyTabsOf_inv:
  assumes "pane_inv (sm_tabs sm) (sm_panes sm)" "sm_projects sm q = Some p"
    "struct_inv (tab_owner (sm_tabs sm)) (sm_tabOrder sm) ((sm_projects sm)(q \<mapsto> p\<lparr>j_TabIDs := ts\<rparr>))"
    "destroyTabsOf ts sm = (ps, sm')"
  shows "pane_inv (sm_tabs sm') (sm_panes sm') \<and>
    struct_inv (tab_owner (sm_tabs sm')) (sm_tabOrder sm') ((sm_projects sm)(q \<mapsto> p\<lparr>j_TabIDs := []\<rparr>)) \<and>
    sm_projects sm' = sm_projects sm \<and> sm_projectOrder sm' = sm_projectOrder sm \<and>
    sm_activeProject sm' = sm_activeProject sm \<and> sm_tabs sm' = sm_tabs sm |` (- set ts) \<and>
    ps = concat (map (Panes sm) ts)"
  using assms
proof (induction ts arbitrary: sm ps sm')
  case Nil
  then show ?case by (auto simp: restrict_map_def)
next
  case (Cons t ts)
  have "tab_owner (sm_tabs sm) t = Some q"
    using struct_mem [OF Cons.prems(3), of q "p\<lparr>j_TabIDs := t # ts\<rparr>" t] by simp
  then obtain tab where tab: "sm_tabs sm t = Some tab" "t_ProjectID tab = q" by (auto simp: owner_at)
  let ?m = "sm_panes sm |` (- set (t_Panes tab))"
  let ?sm1 = "sm\<lparr>sm_panes := ?m, sm_tabs := (sm_tabs sm)(t := None), sm_tabOrder := remove1 t (sm_tabOrder sm)\<rparr>"
  have dp: "detachPanes (t_Panes tab) (sm_panes sm) = (Panes sm t, ?m)"
    using detachPanes_map [of "t_Panes tab" "sm_panes sm"] tab
      detachPanes_panes [OF pane_inv_distinct [OF Cons.prems(1) tab(1)], of "sm_panes sm"]
    by (simp add: prod_eq_iff live_panes_def Panes_def)
  obtain qs sm2 where rest: "destroyTabsOf ts ?sm1 = (qs, sm2)" by fastforce
  have out: "ps = Panes sm t @ qs" "sm' = sm2" using Cons.prems(4) tab dp rest by simp_all
  have P1: "pane_inv (sm_tabs ?sm1) (sm_panes ?sm1)" using pane_inv_drop_tab [OF Cons.prems(1) tab(1)] by simp
  have "struct_inv ((tab_owner (sm_tabs sm))(t := None)) (remove1 t (sm_tabOrder sm))
      ((sm_projects sm)(q \<mapsto> p\<lparr>j_TabIDs := t # ts\<rparr>, q \<mapsto> p\<lparr>j_TabIDs := ts\<rparr>))"
    by (rule struct_remove [OF Cons.prems(3), of t q "p\<lparr>j_TabIDs := t # ts\<rparr>"])
      (use tab in \<open>simp_all add: owner_at\<close>)
  then have S1: "struct_inv (tab_owner (sm_tabs ?sm1)) (sm_tabOrder ?sm1) ((sm_projects ?sm1)(q \<mapsto> p\<lparr>j_TabIDs := ts\<rparr>))"
    by simp
  have "distinct (t # ts)" using struct_distinct [OF Cons.prems(3), of q "p\<lparr>j_TabIDs := t # ts\<rparr>"] by simp
  have same: "Panes ?sm1 u = Panes sm u" if "u \<in> set ts" for u
  proof (cases "sm_tabs sm u")
    case (Some tb)
    have ne: "u \<noteq> t" using that \<open>distinct (t # ts)\<close> by auto
    have "?m j = sm_panes sm j" if "j \<in> set (t_Panes tb)" for j
      using that pane_inv_mem [OF Cons.prems(1) Some, of j] pane_inv_mem [OF Cons.prems(1) tab(1), of j] ne
      by (auto simp: restrict_map_def)
    then have "List.map_filter ?m (t_Panes tb) = List.map_filter (sm_panes sm) (t_Panes tb)"
      unfolding List.map_filter_def by (intro map_cong filter_cong) auto
    with Some ne show ?thesis by (simp add: Panes_def live_panes_def)
  next
    case None
    then show ?thesis using that \<open>distinct (t # ts)\<close> by (auto simp: Panes_def)
  qed
  have Q: "sm_projects ?sm1 q = Some p" using Cons.prems(2) by simp
  have IH: "pane_inv (sm_tabs sm2) (sm_panes sm2)"
      "struct_inv (tab_owner (sm_tabs sm2)) (sm_tabOrder sm2) ((sm_projects ?sm1)(q \<mapsto> p\<lparr>j_TabIDs := []\<rparr>))"
      "sm_projects sm2 = sm_projects ?sm1" "sm_projectOrder sm2 = sm_projectOrder ?sm1"
      "sm_activeProject sm2 = sm_activeProject ?sm1" "sm_tabs sm2 = sm_tabs ?sm1 |` (- set ts)"
      "qs = concat (map (Panes ?sm1) ts)"
    using Cons.IH [OF P1 Q S1 rest] by blast+
  have tabs: "sm_tabs ?sm1 |` (- set ts) = sm_tabs sm |` (- set (t # ts))"
    by (auto simp: restrict_map_def)
  have panes: "concat (map (Panes ?sm1) ts) = concat (map (Panes sm) ts)"
    using same by (metis (no_types, lifting) map_cong)
  show ?case
    unfolding out
  proof (intro conjI IH(1))
    show "struct_inv (tab_owner (sm_tabs sm2)) (sm_tabOrder sm2) ((sm_projects sm)(q \<mapsto> p\<lparr>j_TabIDs := []\<rparr>))"
      using IH(2) by simp
    show "sm_tabs sm2 = sm_tabs sm |` (- set (t # ts))" using IH(6) tabs by (rule trans)
    show "Panes sm t @ qs = concat (map (Panes sm) (t # ts))"
      unfolding IH(7) panes by simp
  qed (use IH(3-5) in simp_all)
qed

lemma DestroyProject_inv:
  assumes inv: "session_inv sm" and d: "DestroyProject sm i = (sm', ps)"
  shows "session_inv sm'"
    "sm_projects sm i = Some p \<Longrightarrow> sm_projects sm' = (sm_projects sm)(i := None) \<and>
      sm_tabs sm' = sm_tabs sm |` (- set (j_TabIDs p)) \<and> ps = concat (map (Panes sm) (j_TabIDs p)) \<and>
      (sm_activeTab sm' \<noteq> [] \<longrightarrow> (\<exists>q. sm_projects sm' (sm_activeProject sm') = Some q \<and> sm_activeTab sm' \<in> set (j_TabIDs q)))"
proof -
  note P = session_invD [OF inv]
  have "session_inv sm' \<and> (\<forall>p. sm_projects sm i = Some p \<longrightarrow> sm_projects sm' = (sm_projects sm)(i := None) \<and>
      sm_tabs sm' = sm_tabs sm |` (- set (j_TabIDs p)) \<and> ps = concat (map (Panes sm) (j_TabIDs p)) \<and>
      (sm_activeTab sm' \<noteq> [] \<longrightarrow> (\<exists>q. sm_projects sm' (sm_activeProject sm') = Some q \<and> sm_activeTab sm' \<in> set (j_TabIDs q))))"
  proof (cases "sm_projects sm i")
    case None
    with d inv show ?thesis by (simp add: DestroyProject_def)
  next
    case (Some p)
    obtain qs sm1 where t: "destroyTabsOf (j_TabIDs p) sm = (qs, sm1)" by fastforce
    have upd: "(sm_projects sm)(i \<mapsto> p\<lparr>j_TabIDs := j_TabIDs p\<rparr>) = sm_projects sm" using Some by auto
    note R = destroyTabsOf_inv [OF P(1) Some _ t, unfolded upd, OF P(2)]
    let ?P = "(sm_projects sm)(i := None)"
    let ?o = "remove1 i (sm_projectOrder sm)"
    define a where "a = (if sm_activeProject sm = i then (if ?o \<noteq> [] then hd ?o else []) else sm_activeProject sm)"
    define t' where "t' = (case ?P a of None \<Rightarrow> [] | Some ap \<Rightarrow> if j_ActiveTab ap \<noteq> [] then j_ActiveTab ap
                                else if j_TabIDs ap \<noteq> [] then hd (j_TabIDs ap) else [])"
    have eqs: "sm_projects sm1 = sm_projects sm" "sm_projectOrder sm1 = sm_projectOrder sm"
      "sm_activeProject sm1 = sm_activeProject sm" using R by blast+
    have "(sm', ps) = (sm1\<lparr>sm_projects := ?P, sm_projectOrder := ?o, sm_activeProject := a, sm_activeTab := t'\<rparr>, qs)"
      unfolding d [symmetric] DestroyProject_def Some option.case t prod.case Let_def eqs removeString_remove1
        t'_def a_def ..
    then have sm': "sm' = sm1\<lparr>sm_projects := ?P, sm_projectOrder := ?o, sm_activeProject := a, sm_activeTab := t'\<rparr>" "ps = qs"
      by blast+
    have S: "struct_inv (tab_owner (sm_tabs sm1)) (sm_tabOrder sm1) ?P"
    proof -
      have R2: "struct_inv (tab_owner (sm_tabs sm1)) (sm_tabOrder sm1) ((sm_projects sm)(i \<mapsto> p\<lparr>j_TabIDs := []\<rparr>))"
        using R by blast
      show ?thesis using struct_drop_project [OF R2, of i "p\<lparr>j_TabIDs := []\<rparr>"] by simp
    qed
    have I: "ids_inv ?P ?o" using P(3) by (rule ids_drop)
    have tin: "\<exists>q. ?P a = Some q \<and> t' \<in> set (j_TabIDs q)" if "t' \<noteq> []"
      using that ids_project [OF I, of a] by (auto simp: t'_def split: option.splits if_splits)
    have "sm_tabs sm1 t' \<noteq> None" if "t' \<noteq> []"
    proof -
      from tin [OF that] obtain q where "?P a = Some q" "t' \<in> set (j_TabIDs q)" by blast
      then have "tab_owner (sm_tabs sm1) t' = Some a" using struct_mem [OF S] by blast
      then show ?thesis by (auto simp: owner_at)
    qed
    moreover have "if ?o = [] then a = [] else ?P a \<noteq> None"
    proof (cases "?o = []")
      case True
      have "sm_activeProject sm \<in> set (sm_projectOrder sm)"
        using P(4) Some ids_order [OF P(3)] by (auto simp: active_inv_def split: if_splits)
      moreover have "set (sm_projectOrder sm) \<subseteq> {i}" using True by (metis set_remove1_eq set_empty2 subset_insertI2 Diff_eq_empty_iff P(3) ids_inv_def)
      ultimately show ?thesis using True by (auto simp: a_def)
    next
      case False
      have "hd ?o \<in> set ?o" using False by simp
      moreover have "sm_activeProject sm \<noteq> i \<Longrightarrow> ?P (sm_activeProject sm) \<noteq> None"
        using P(4) Some ids_order [OF P(3)] by (auto simp: active_inv_def split: if_splits)
      ultimately show ?thesis using False ids_order [OF I, of "hd ?o"] by (auto simp: a_def)
    qed
    ultimately have "active_inv sm'" by (auto simp: active_inv_def sm' split: if_splits)
    moreover have "pane_inv (sm_tabs sm1) (sm_panes sm1)" using R by blast
    ultimately have "session_inv sm'" using S I by (simp add: session_inv_def sm')
    moreover have "sm_tabs sm1 = sm_tabs sm |` (- set (j_TabIDs p))" "qs = concat (map (Panes sm) (j_TabIDs p))"
      using R by blast+
    ultimately show ?thesis using Some tin by (simp add: sm')
  qed
  then show "session_inv sm'"
    "sm_projects sm i = Some p \<Longrightarrow> sm_projects sm' = (sm_projects sm)(i := None) \<and>
      sm_tabs sm' = sm_tabs sm |` (- set (j_TabIDs p)) \<and> ps = concat (map (Panes sm) (j_TabIDs p)) \<and>
      (sm_activeTab sm' \<noteq> [] \<longrightarrow> (\<exists>q. sm_projects sm' (sm_activeProject sm') = Some q \<and> sm_activeTab sm' \<in> set (j_TabIDs q)))"
    by blast+
qed

lemma session_inv_edit_project:
  assumes inv: "session_inv sm" and p: "sm_projects sm q = Some p" and p': "j_ID p' = j_ID p" "j_TabIDs p' = j_TabIDs p"
    "j_ActiveTab p' = [] \<or> j_ActiveTab p' \<in> set (j_TabIDs p)"
    and a: "a = [] \<or> sm_tabs sm a \<noteq> None" and b: "b = sm_activeProject sm \<or> b = q"
  shows "session_inv (sm\<lparr>sm_projects := (sm_projects sm)(q \<mapsto> p'), sm_activeTab := a, sm_activeProject := b\<rparr>)"
proof -
  note P = session_invD [OF inv]
  have "struct_inv (tab_owner (sm_tabs sm)) (sm_tabOrder sm) ((sm_projects sm)(q \<mapsto> p'))"
    by (rule struct_edit_project [OF P(2) p p'(2)])
  moreover have "ids_inv ((sm_projects sm)(q \<mapsto> p')) (sm_projectOrder sm)"
    using p' by (intro ids_edit [OF P(3) p]) simp_all
  moreover have "sm_projectOrder sm \<noteq> []" using ids_order [OF P(3), of q] p by auto
  ultimately show ?thesis
    using P(1,4) a b by (auto simp: session_inv_def active_inv_def split: if_splits)
qed

lemma UpdateProject_inv:
  assumes inv: "session_inv sm" and u: "UpdateProject lower sm keys i name rootDir rb = Some (sm', ok)"
  shows "session_inv sm'"
proof (cases "sm' = sm")
  case False
  with u obtain p nm where p: "sm_projects sm i = Some p"
      "sm' = sm\<lparr>sm_projects := (sm_projects sm)(i \<mapsto> p\<lparr>j_Name := nm, j_RootDir := rootDir, j_Bootstrap := False\<rparr>)\<rparr>"
    by (auto simp: UpdateProject_def split: option.splits if_splits)
  have "session_inv (sm\<lparr>sm_projects := (sm_projects sm)(i \<mapsto> p\<lparr>j_Name := nm, j_RootDir := rootDir, j_Bootstrap := False\<rparr>),
      sm_activeTab := sm_activeTab sm, sm_activeProject := sm_activeProject sm\<rparr>)"
    using session_invD [OF inv] ids_project [of "sm_projects sm" "sm_projectOrder sm" i p] p(1)
    by (intro session_inv_edit_project [OF inv p(1)]) (auto simp: active_inv_def)
  then show ?thesis by (simp add: p(2))
qed (use inv in simp)

lemma SwitchProject_inv:
  assumes inv: "session_inv sm"
  shows "session_inv (fst (SwitchProject sm i))"
proof (cases "sm_projects sm i")
  case (Some p)
  note P = session_invD [OF inv]
  define t where "t = (if sm_tabs sm (j_ActiveTab p) \<noteq> None then j_ActiveTab p
                        else if j_TabIDs p \<noteq> [] then hd (j_TabIDs p) else [])"
  have live: "sm_tabs sm u \<noteq> None" if "u \<in> set (j_TabIDs p)" for u
    using struct_mem [OF P(2) Some, of u] that by (auto simp: owner_at)
  have nil: "sm_tabs sm [] = None"
    using pane_inv_tab [OF P(1), of "[]"] by (cases "sm_tabs sm []") (auto simp: tab_ok_def)
  have tin: "t \<noteq> [] \<Longrightarrow> t \<in> set (j_TabIDs p)"
    using ids_project [OF P(3) Some] nil by (auto simp: t_def split: if_splits)
  have eq: "fst (SwitchProject sm i) = (if t \<noteq> [] then sm\<lparr>sm_activeProject := i, sm_activeTab := t,
      sm_projects := (sm_projects sm)(i \<mapsto> p\<lparr>j_ActiveTab := t\<rparr>)\<rparr> else sm\<lparr>sm_activeProject := i\<rparr>)"
    by (simp only: SwitchProject_def Some option.case Let_def fst_conv t_def)
  show ?thesis
  proof (cases "t = []")
    case False
    have "session_inv (sm\<lparr>sm_projects := (sm_projects sm)(i \<mapsto> p\<lparr>j_ActiveTab := t\<rparr>), sm_activeTab := t, sm_activeProject := i\<rparr>)"
      using tin [OF False] live by (intro session_inv_edit_project [OF inv Some]) auto
    moreover have "fst (SwitchProject sm i) =
        sm\<lparr>sm_projects := (sm_projects sm)(i \<mapsto> p\<lparr>j_ActiveTab := t\<rparr>), sm_activeTab := t, sm_activeProject := i\<rparr>"
      using False by (simp add: eq)
    ultimately show ?thesis by simp
  next
    case True
    then have "fst (SwitchProject sm i) = sm\<lparr>sm_activeProject := i\<rparr>"
      by (simp add: eq)
    then show ?thesis
      using P Some ids_order [OF P(3), of i] by (auto simp: session_inv_def active_inv_def)
  qed
qed (use inv in \<open>simp add: SwitchProject_def\<close>)

lemma ReorderProject_inv:
  assumes inv: "session_inv sm"
  shows "session_inv (fst (ReorderProject sm i k))"
proof (cases "sm_projects sm i")
  case (Some p)
  note P = session_invD [OF inv]
  obtain j where j: "fst (ReorderProject sm i k) = sm\<lparr>sm_projectOrder := insert_at j i (remove1 i (sm_projectOrder sm))\<rparr>"
    using Some by (auto simp: ReorderProject_def Let_def insert_at_def)
  have "i \<in> set (sm_projectOrder sm)" using ids_order [OF P(3), of i] Some by simp
  then have "ids_inv (sm_projects sm) (insert_at j i (remove1 i (sm_projectOrder sm)))"
    using P(3) by (auto simp: ids_inv_def)
  with P \<open>i \<in> set (sm_projectOrder sm)\<close> show ?thesis
    by (auto simp: j session_inv_def active_inv_def insert_at_def split: if_splits)
qed (use inv in \<open>simp add: ReorderProject_def\<close>)

subsection \<open>Moving and merging\<close>

lemma MoveTab_inv:
  assumes inv: "session_inv sm" and m: "MoveTab sm t q = (sm', src, res)"
  shows "session_inv sm'" "res \<noteq> moveTabMoved \<longrightarrow> sm' = sm"
    "res = moveTabMoved \<Longrightarrow> \<exists>tab d. sm_tabs sm' t = Some tab \<and> t_ProjectID tab = q \<and> sm_projects sm' q = Some d
       \<and> t \<in> set (j_TabIDs d) \<and> j_ActiveTab d = t"
proof -
  note P = session_invD [OF inv]
  consider "sm' = sm" "res \<noteq> moveTabMoved"
    | tab dst where "sm_tabs sm t = Some tab" "sm_projects sm q = Some dst" "t_ProjectID tab \<noteq> q"
    using m by (auto simp: MoveTab_def split: option.splits if_splits)
  then have "session_inv sm' \<and> (res \<noteq> moveTabMoved \<longrightarrow> sm' = sm) \<and>
    (res = moveTabMoved \<longrightarrow> (\<exists>tab d. sm_tabs sm' t = Some tab \<and> t_ProjectID tab = q \<and> sm_projects sm' q = Some d
       \<and> t \<in> set (j_TabIDs d) \<and> j_ActiveTab d = t))"
  proof cases
    case 1
    with inv show ?thesis by simp
  next
    case 2
    obtain p where p: "t_ID tab = t" "sm_projects sm (t_ProjectID tab) = Some p" "t \<in> set (j_TabIDs p)" "distinct (j_TabIDs p)"
      using inv_tab [OF inv 2(1)] by metis
    have own: "tab_owner (sm_tabs sm) t = Some (t_ProjectID tab)" using 2(1) by (simp add: owner_at)
    have nt: "t \<notin> set (j_TabIDs dst)" using struct_other [OF P(2) 2(2)] own 2(3) by simp
    define s where "s = neighbour (j_TabIDs p) t"
    define p' where "p' = p\<lparr>j_TabIDs := remove1 t (j_TabIDs p), j_ActiveTab := (if j_ActiveTab p = t then s else j_ActiveTab p)\<rparr>"
    define d' where "d' = dst\<lparr>j_TabIDs := j_TabIDs dst @ [t], j_ActiveTab := t\<rparr>"
    define a where "a = (if sm_activeTab sm = t \<and> sm_activeProject sm \<noteq> q then (if s \<noteq> [] then s else sm_activeTab sm)
                           else if sm_activeProject sm = q then t else sm_activeTab sm)"
    let ?P = "(sm_projects sm)(t_ProjectID tab \<mapsto> p', q \<mapsto> d')"
    let ?o = "reanchorTab (sm_tabOrder sm) (j_TabIDs dst @ [t]) t"
    have idx: "(if indexOfString (j_TabIDs dst) t < 0 then j_TabIDs dst @ [t] else j_TabIDs dst) = j_TabIDs dst @ [t]"
      using nt by (simp add: indexOfString_neg)
    have "(sm', src, res) = (sm\<lparr>sm_tabs := (sm_tabs sm)(t \<mapsto> tab\<lparr>t_ProjectID := q\<rparr>), sm_projects := ?P,
        sm_tabOrder := ?o, sm_activeTab := a\<rparr>, t_ProjectID tab, moveTabMoved)"
      unfolding m [symmetric] MoveTab_def 2(1,2) option.case Let_def if_not_P [OF 2(3)] p(2) removeString_remove1
        idx a_def s_def p'_def d'_def ..
    then have sm': "sm' = sm\<lparr>sm_tabs := (sm_tabs sm)(t \<mapsto> tab\<lparr>t_ProjectID := q\<rparr>), sm_projects := ?P,
        sm_tabOrder := ?o, sm_activeTab := a\<rparr>" "res = moveTabMoved" by blast+
    have ok: "tab_ok (sm_panes sm) t tab" using pane_inv_tab [OF P(1) 2(1)] .
    have "pane_inv ((sm_tabs sm)(t \<mapsto> tab\<lparr>t_ProjectID := q\<rparr>)) (sm_panes sm)"
      using ok p(1) by (intro pane_inv_edit_tab [OF P(1) 2(1)]) (simp_all add: tab_ok_leaves)
    moreover have "struct_inv (tab_owner ((sm_tabs sm)(t \<mapsto> tab\<lparr>t_ProjectID := q\<rparr>))) ?o ?P"
      using struct_move [OF P(2) own p(2) 2(2,3), of p' d'] by (simp add: p'_def d'_def)
    moreover have "s = [] \<or> s \<in> set (remove1 t (j_TabIDs p))"
      using neighbour_mem [of "j_TabIDs p" t] by (auto simp: s_def)
    note s = this
    have "j_ActiveTab p' = [] \<or> j_ActiveTab p' \<in> set (j_TabIDs p')"
      using s ids_project [OF P(3) p(2)] p(4) by (auto simp: p'_def)
    then have "ids_inv ((sm_projects sm)(t_ProjectID tab \<mapsto> p')) (sm_projectOrder sm)"
      by (intro ids_edit [OF P(3) p(2)]) (simp_all add: p'_def)
    then have "ids_inv ?P (sm_projectOrder sm)"
      using 2(2,3) by (intro ids_edit [of _ _ q dst d']) (simp_all add: d'_def)
    moreover have "active_inv sm'"
    proof -
      have "sm_tabs sm s \<noteq> None" if "s \<noteq> []"
        using s that p(4) struct_mem [OF P(2) p(2), of s] by (auto simp: owner_at)
      then have "a = [] \<or> sm_tabs sm a \<noteq> None"
        using P(4) 2(1) by (auto simp: a_def active_inv_def)
      then show ?thesis using P(4) 2 p(2) by (auto simp: sm' active_inv_def split: if_splits)
    qed
    ultimately have "session_inv sm'" by (simp add: session_inv_def sm')
    then show ?thesis by (simp add: sm') (simp add: d'_def)
  qed
  then show "session_inv sm'" "res \<noteq> moveTabMoved \<longrightarrow> sm' = sm"
    "res = moveTabMoved \<Longrightarrow> \<exists>tab d. sm_tabs sm' t = Some tab \<and> t_ProjectID tab = q \<and> sm_projects sm' q = Some d
       \<and> t \<in> set (j_TabIDs d) \<and> j_ActiveTab d = t" by blast+
qed

text \<open>What merging one project's tabs keeps: the source's record still has its full list, so the
  link is stated with the tabs that are left.\<close>

definition merge_inv :: "string \<Rightarrow> string \<Rightarrow> string list \<Rightarrow> session \<Rightarrow> bool" where
  "merge_inv into i ts sm \<longleftrightarrow> (\<exists>s. sm_projects sm i = Some s \<and> sm_projects sm into \<noteq> None \<and> i \<noteq> into \<and>
     pane_inv (sm_tabs sm) (sm_panes sm) \<and>
     struct_inv (tab_owner (sm_tabs sm)) (sm_tabOrder sm) ((sm_projects sm)(i \<mapsto> s\<lparr>j_TabIDs := ts\<rparr>)) \<and>
     ids_inv (sm_projects sm) (sm_projectOrder sm) \<and> active_inv sm)"

lemma mergeTabs_inv:
  assumes "merge_inv into i ts sm"
  shows "merge_inv into i [] (mergeTabs into ts sm) \<and> sm_panes (mergeTabs into ts sm) = sm_panes sm
    \<and> dom (sm_tabs (mergeTabs into ts sm)) = dom (sm_tabs sm)"
  using assms
proof (induction ts arbitrary: sm)
  case (Cons t ts)
  obtain s where s: "sm_projects sm i = Some s" "sm_projects sm into \<noteq> None" "i \<noteq> into"
      "pane_inv (sm_tabs sm) (sm_panes sm)"
      "struct_inv (tab_owner (sm_tabs sm)) (sm_tabOrder sm) ((sm_projects sm)(i \<mapsto> s\<lparr>j_TabIDs := t # ts\<rparr>))"
      "ids_inv (sm_projects sm) (sm_projectOrder sm)" "active_inv sm"
    using Cons.prems by (auto simp: merge_inv_def)
  obtain dst where d: "sm_projects sm into = Some dst" using s(2) by auto
  have own: "tab_owner (sm_tabs sm) t = Some i"
    using struct_mem [OF s(5), of i "s\<lparr>j_TabIDs := t # ts\<rparr>" t] by simp
  then obtain tab where tab: "sm_tabs sm t = Some tab" "t_ProjectID tab = i" by (auto simp: owner_at)
  have nt: "t \<notin> set (j_TabIDs dst)"
    using struct_other [OF s(5), of into dst t] own d s(3) by simp
  let ?tabs = "(sm_tabs sm)(t \<mapsto> tab\<lparr>t_ProjectID := into\<rparr>)"
  let ?l = "j_TabIDs dst @ [t]"
  let ?sm1 = "sm\<lparr>sm_tabs := ?tabs, sm_projects := (sm_projects sm)(into \<mapsto> dst\<lparr>j_TabIDs := ?l\<rparr>),
      sm_tabOrder := reanchorTab (sm_tabOrder sm) ?l t\<rparr>"
  have step: "mergeTabs into (t # ts) sm = mergeTabs into ts ?sm1"
    using tab(1) d nt indexOfString_neg [of "j_TabIDs dst" t] by (simp add: Let_def)
  have ok: "tab_ok (sm_panes sm) t tab" using pane_inv_tab [OF s(4) tab(1)] .
  have "pane_inv ?tabs (sm_panes sm)"
    using ok by (intro pane_inv_edit_tab [OF s(4) tab(1)]) (simp_all add: tab_ok_leaves, simp_all add: tab_ok_def)
  moreover have "struct_inv (tab_owner ?tabs) (reanchorTab (sm_tabOrder sm) ?l t)
      ((sm_projects sm)(i \<mapsto> s\<lparr>j_TabIDs := t # ts\<rparr>, i \<mapsto> s\<lparr>j_TabIDs := ts\<rparr>, into \<mapsto> dst\<lparr>j_TabIDs := ?l\<rparr>))"
    using struct_move [OF s(5) own, of "s\<lparr>j_TabIDs := t # ts\<rparr>" into dst "s\<lparr>j_TabIDs := ts\<rparr>" "dst\<lparr>j_TabIDs := ?l\<rparr>"] d s(3)
    by simp
  then have "struct_inv (tab_owner ?tabs) (reanchorTab (sm_tabOrder sm) ?l t)
      ((sm_projects sm)(into \<mapsto> dst\<lparr>j_TabIDs := ?l\<rparr>, i \<mapsto> s\<lparr>j_TabIDs := ts\<rparr>))"
    using s(3) by (simp add: fun_upd_twist)
  moreover have "ids_inv ((sm_projects sm)(into \<mapsto> dst\<lparr>j_TabIDs := ?l\<rparr>)) (sm_projectOrder sm)"
    using ids_project [OF s(6) d] by (intro ids_edit [OF s(6) d]) auto
  moreover have "active_inv ?sm1"
    using s(7) tab(1) d by (auto simp: active_inv_def split: if_splits)
  ultimately have "merge_inv into i ts ?sm1"
    using s(1,3) by (auto simp: merge_inv_def)
  moreover have "dom (sm_tabs ?sm1) = dom (sm_tabs sm)" using tab(1) by (auto simp: dom_def)
  moreover have "sm_panes ?sm1 = sm_panes sm" by simp
  ultimately show ?case unfolding step using Cons.IH [of ?sm1] by metis
qed simp

lemma mergeAll_inv:
  assumes "session_inv sm" "sm_projects sm into \<noteq> None"
  shows "session_inv (mergeAll into is sm) \<and> sm_projects (mergeAll into is sm) into \<noteq> None
    \<and> sm_panes (mergeAll into is sm) = sm_panes sm \<and> dom (sm_tabs (mergeAll into is sm)) = dom (sm_tabs sm)"
  using assms
proof (induction "is" arbitrary: sm)
  case (Cons i "is")
  show ?case
  proof (cases "i = into \<or> sm_projects sm i = None")
    case True
    then have "mergeAll into (i # is) sm = mergeAll into is sm" by auto
    then show ?thesis using Cons.IH [OF Cons.prems] by metis
  next
    case False
    then obtain s where s: "sm_projects sm i = Some s" "i \<noteq> into" by auto
    note P = session_invD [OF Cons.prems(1)]
    have "(sm_projects sm)(i \<mapsto> s\<lparr>j_TabIDs := j_TabIDs s\<rparr>) = sm_projects sm" using s(1) by auto
    then have "merge_inv into i (j_TabIDs s) sm"
      using P s Cons.prems(2) by (auto simp: merge_inv_def)
    note M = mergeTabs_inv [OF this]
    define sm1 where "sm1 = mergeTabs into (j_TabIDs s) sm"
    obtain s1 where s1: "sm_projects sm1 i = Some s1" "sm_projects sm1 into \<noteq> None" "pane_inv (sm_tabs sm1) (sm_panes sm1)"
      "struct_inv (tab_owner (sm_tabs sm1)) (sm_tabOrder sm1) ((sm_projects sm1)(i \<mapsto> s1\<lparr>j_TabIDs := []\<rparr>))"
      "ids_inv (sm_projects sm1) (sm_projectOrder sm1)" "active_inv sm1"
      using M by (auto simp: merge_inv_def sm1_def)
    let ?sm2 = "sm1\<lparr>sm_projects := (sm_projects sm1)(i := None), sm_projectOrder := remove1 i (sm_projectOrder sm1),
        sm_activeProject := (if sm_activeProject sm1 = i then into else sm_activeProject sm1)\<rparr>"
    have step: "mergeAll into (i # is) sm = mergeAll into is ?sm2"
      using s by (simp add: Let_def flip: sm1_def)
    have "struct_inv (tab_owner (sm_tabs sm1)) (sm_tabOrder sm1) ((sm_projects sm1)(i := None))"
      using struct_drop_project [OF s1(4), of i "s1\<lparr>j_TabIDs := []\<rparr>"] by simp
    moreover have "ids_inv ((sm_projects sm1)(i := None)) (remove1 i (sm_projectOrder sm1))"
      using s1(5) by (rule ids_drop)
    moreover have "into \<in> set (remove1 i (sm_projectOrder sm1))"
      using s1(2) s(2) ids_order [OF s1(5), of into] by simp
    then have "remove1 i (sm_projectOrder sm1) \<noteq> []" "sm_projectOrder sm1 \<noteq> []" by auto
    then have "active_inv ?sm2"
      using s1(6,2) s(2) by (auto simp: active_inv_def split: if_splits)
    ultimately have "session_inv ?sm2" using s1(3) by (simp add: session_inv_def)
    moreover have "sm_projects ?sm2 into \<noteq> None" using s1(2) s(2) by simp
    ultimately show ?thesis
      unfolding step using Cons.IH [of ?sm2] M by (simp flip: sm1_def)
  qed
qed simp

lemma mergeActive_inv:
  assumes inv: "session_inv sm"
  shows "session_inv (mergeActive into sm)"
proof (cases "sm_projects sm into")
  case (Some d)
  note P = session_invD [OF inv]
  have live: "sm_tabs sm u \<noteq> None" if "u \<in> set (j_TabIDs d)" for u
    using struct_mem [OF P(2) Some, of u] that by (auto simp: owner_at)
  have edit: "session_inv (sm\<lparr>sm_projects := (sm_projects sm)(into \<mapsto> d\<lparr>j_ActiveTab := u\<rparr>), sm_activeTab := u\<rparr>)"
    if "u \<in> set (j_TabIDs d)" for u
    using session_inv_edit_project [OF inv Some, of "d\<lparr>j_ActiveTab := u\<rparr>" u "sm_activeProject sm"] that live by simp
  have same: "session_inv (sm\<lparr>sm_projects := (sm_projects sm)(into \<mapsto> d), sm_activeTab := u\<rparr>)"
    if "u \<in> set (j_TabIDs d)" for u
    using session_inv_edit_project [OF inv Some, of d u "sm_activeProject sm"] that live ids_project [OF P(3) Some]
    by simp
  have upd: "(sm_projects sm)(into \<mapsto> d) = sm_projects sm" using Some by auto
  consider "sm_activeProject sm \<noteq> into" | "sm_activeProject sm = into" "sm_activeTab sm \<in> set (j_TabIDs d)"
    | "sm_activeProject sm = into" "sm_activeTab sm \<notin> set (j_TabIDs d)" "j_ActiveTab d \<noteq> []" "j_ActiveTab d \<in> set (j_TabIDs d)"
    | "sm_activeProject sm = into" "sm_activeTab sm \<notin> set (j_TabIDs d)" "\<not> (j_ActiveTab d \<noteq> [] \<and> j_ActiveTab d \<in> set (j_TabIDs d))"
    by blast
  then show ?thesis
  proof cases
    case 2
    with edit [of "sm_activeTab sm"] Some show ?thesis
      using indexOfString_neg [of "j_TabIDs d" "sm_activeTab sm"] by (simp add: mergeActive_def)
  next
    case 3
    with same [of "j_ActiveTab d"] Some show ?thesis
      using indexOfString_neg [of "j_TabIDs d" "sm_activeTab sm"] indexOfString_neg [of "j_TabIDs d" "j_ActiveTab d"]
      by (simp add: mergeActive_def upd)
  next
    case 4
    have neg: "\<not> 0 \<le> indexOfString (j_TabIDs d) (sm_activeTab sm)" "\<not> (j_ActiveTab d \<noteq> [] \<and> 0 \<le> indexOfString (j_TabIDs d) (j_ActiveTab d))"
      using 4 indexOfString_neg [of "j_TabIDs d" "sm_activeTab sm"] indexOfString_neg [of "j_TabIDs d" "j_ActiveTab d"] by auto
    show ?thesis
    proof (cases "j_TabIDs d = []")
      case True
      with 4 neg Some inv show ?thesis by (simp add: mergeActive_def)
    next
      case False
      have "mergeActive into sm = sm\<lparr>sm_projects := (sm_projects sm)(into \<mapsto> d\<lparr>j_ActiveTab := hd (j_TabIDs d)\<rparr>),
          sm_activeTab := hd (j_TabIDs d)\<rparr>"
        using 4(1) neg Some False by (auto simp: mergeActive_def)
      with edit [of "hd (j_TabIDs d)"] False show ?thesis by simp
    qed
  qed (use Some inv in \<open>simp add: mergeActive_def\<close>)
qed (use inv in \<open>simp add: mergeActive_def\<close>)

lemma mergeActive_fields [simp]: "sm_tabs (mergeActive into sm) = sm_tabs sm" "sm_panes (mergeActive into sm) = sm_panes sm"
  by (simp_all add: mergeActive_def split: option.split)

lemma MergeProjects_inv:
  assumes inv: "session_inv sm" and m: "MergeProjects lower sm keys into absorb name = Some (sm', ok)"
  shows "session_inv sm'" "sm_panes sm' = sm_panes sm" "dom (sm_tabs sm') = dom (sm_tabs sm)"
proof -
  have "session_inv sm' \<and> sm_panes sm' = sm_panes sm \<and> dom (sm_tabs sm') = dom (sm_tabs sm)"
  proof (cases "sm_projects sm into = None")
    case True
    with m inv show ?thesis by (simp add: MergeProjects_def)
  next
    case False
    define sm1 where "sm1 = mergeAll into absorb sm"
    have M: "session_inv sm1" "sm_projects sm1 into \<noteq> None" "sm_panes sm1 = sm_panes sm" "dom (sm_tabs sm1) = dom (sm_tabs sm)"
      using mergeAll_inv [OF inv False] by (simp_all add: sm1_def)
    obtain d where d: "sm_projects sm1 into = Some d" using M(2) by auto
    obtain nm where sm': "sm' = mergeActive into (sm1\<lparr>sm_projects := (sm_projects sm1)(into \<mapsto>
        d\<lparr>j_Name := nm, j_Bootstrap := False\<rparr>)\<rparr>)"
      using m False d by (auto simp: MergeProjects_def Let_def simp flip: sm1_def split: option.splits)
    have "session_inv (sm1\<lparr>sm_projects := (sm_projects sm1)(into \<mapsto> d\<lparr>j_Name := nm, j_Bootstrap := False\<rparr>),
        sm_activeTab := sm_activeTab sm1, sm_activeProject := sm_activeProject sm1\<rparr>)"
      using session_invD [OF M(1)] ids_project [of "sm_projects sm1" "sm_projectOrder sm1" into d] d
      by (intro session_inv_edit_project [OF M(1) d]) (auto simp: active_inv_def)
    then show ?thesis using M(3,4) by (simp add: sm' mergeActive_inv)
  qed
  then show "session_inv sm'" "sm_panes sm' = sm_panes sm" "dom (sm_tabs sm') = dom (sm_tabs sm)" by blast+
qed

end
