(* ===== verification/Transition.thy ===== *)
theory Transition
  imports Main
begin

text \<open>
  Components as transition systems: an initial state, a step relation, an invariant. The locale
  turns \<open>every step keeps it\<close> into \<open>every reachable state has it\<close>; each component interprets it on
  its own operations.
\<close>

locale machine =
  fixes init :: "'s \<Rightarrow> bool"
    and step :: "'s \<Rightarrow> 's \<Rightarrow> bool"
    and inv :: "'s \<Rightarrow> bool"
  assumes init_inv: "init s \<Longrightarrow> inv s"
    and step_inv: "step s t \<Longrightarrow> inv s \<Longrightarrow> inv t"
begin

lemma run_inv: "step\<^sup>*\<^sup>* s t \<Longrightarrow> inv s \<Longrightarrow> inv t"
  by (induction rule: rtranclp_induct) (auto intro: step_inv)

lemma reachable_inv: "init s \<Longrightarrow> step\<^sup>*\<^sup>* s t \<Longrightarrow> inv t"
  using run_inv init_inv by blast

text \<open>A property of every step that only holds under the invariant holds along every run.\<close>

lemma run_step:
  assumes "init s" "step\<^sup>*\<^sup>* s t" "step t u" "\<And>x y. inv x \<Longrightarrow> step x y \<Longrightarrow> P x y"
  shows "P t u"
  using assms reachable_inv by blast

end

text \<open>A quantity that no step lowers is not lowered by any run.\<close>

locale monotone_machine = machine +
  fixes measure_of :: "'s \<Rightarrow> nat"
  assumes step_mono: "step s t \<Longrightarrow> inv s \<Longrightarrow> measure_of s \<le> measure_of t"
begin

lemma run_mono: "step\<^sup>*\<^sup>* s t \<Longrightarrow> inv s \<Longrightarrow> measure_of s \<le> measure_of t"
proof (induction rule: rtranclp_induct)
  case (step y z)
  then show ?case using step_mono run_inv le_trans by meson
qed simp

end

end
