(* ===== verification/Session.thy ===== *)
theory Session
  imports Session_Projects Transition
begin

text \<open>
  The session store as a whole: its operations as one step relation, its invariant along every
  run, and the properties of the single operations. The ids an operation mints are required not
  to be in use, which is what \<open>uuid.New\<close> is relied on for; the pane handed to a publish is one
  \<open>NewPane\<close> made and nobody published yet.
\<close>

section \<open>Steps\<close>

inductive session_step :: "(string \<Rightarrow> string) \<Rightarrow> session \<Rightarrow> session \<Rightarrow> bool" for lower where
  createTab: "sm_projects sm (''proj-'' @ u1) = None \<Longrightarrow> sm_tabs sm (''tab-'' @ u2) = None \<Longrightarrow>
    CreateTabInProject sm q name u1 u2 cwd = (sm', i) \<Longrightarrow> session_step lower sm sm'"
| destroyTab: "DestroyTab sm t = Some (sm', ps) \<Longrightarrow> session_step lower sm sm'"
| destroyTabIfPanes: "DestroyTabIfPanes sm t want = Some (sm', ps, ok) \<Longrightarrow> session_step lower sm sm'"
| updateTab: "UpdateTab sm t name color clear = (sm', ok) \<Longrightarrow> session_step lower sm sm'"
| setTabLayout: "SetTabLayout sm t raw base = Ret (sm', r) \<Longrightarrow> session_step lower sm sm'"
| switchTab: "session_step lower sm (SwitchTab sm t)"
| reorderTab: "ReorderTab sm t k = (sm', ok) \<Longrightarrow> session_step lower sm sm'"
| createPane: "sm_panes sm (''pane-'' @ u) = None \<Longrightarrow> createPane sm t cwd b u = Some (sm', p) \<Longrightarrow>
    session_step lower sm sm'"
| publishPane: "sm_panes sm (p_ID p) = None \<Longrightarrow> fits p slot \<Longrightarrow> PublishPane sm p slot = Ret (sm', r) \<Longrightarrow>
    session_step lower sm sm'"
| replacePane: "sm_panes sm (p_ID p) = None \<Longrightarrow> p_ID p \<noteq> [] \<Longrightarrow> \<not> p_treeless p \<Longrightarrow>
    ReplacePane sm old p = Some (sm', ps) \<Longrightarrow> session_step lower sm sm'"
| destroyPane: "DestroyPane sm i = Some (sm', ps) \<Longrightarrow> session_step lower sm sm'"
| movePane: "MovePane sm i t = Ret (sm', src, r) \<Longrightarrow> session_step lower sm sm'"
| createProject: "sm_projects sm (''proj-'' @ u) = None \<Longrightarrow>
    CreateProject lower sm keys name rootDir u = Some (sm', p) \<Longrightarrow> session_step lower sm sm'"
| destroyProject: "DestroyProject sm q = (sm', ps) \<Longrightarrow> session_step lower sm sm'"
| updateProject: "UpdateProject lower sm keys q name rootDir rb = Some (sm', ok) \<Longrightarrow> session_step lower sm sm'"
| mergeProjects: "MergeProjects lower sm keys into absorb name = Some (sm', ok) \<Longrightarrow> session_step lower sm sm'"
| moveTab: "MoveTab sm t q = (sm', src, r) \<Longrightarrow> session_step lower sm sm'"
| switchProject: "SwitchProject sm q = (sm', t, ok) \<Longrightarrow> session_step lower sm sm'"
| reorderProject: "ReorderProject sm q k = (sm', ok) \<Longrightarrow> session_step lower sm sm'"

inductive_cases session_stepE: "session_step lower sm sm'"

section \<open>The pane operations leave the project half alone\<close>

definition same_projects :: "session \<Rightarrow> session \<Rightarrow> bool" where
  "same_projects sm sm' \<longleftrightarrow> tab_owner (sm_tabs sm') = tab_owner (sm_tabs sm)
     \<and> sm_tabOrder sm' = sm_tabOrder sm \<and> sm_projects sm' = sm_projects sm
     \<and> sm_projectOrder sm' = sm_projectOrder sm \<and> sm_activeTab sm' = sm_activeTab sm
     \<and> sm_activeProject sm' = sm_activeProject sm"

lemma same_projects_refl [simp]: "same_projects sm sm"
  by (simp add: same_projects_def)

lemma same_projects_trans: "same_projects a b \<Longrightarrow> same_projects b c \<Longrightarrow> same_projects a c"
  by (simp add: same_projects_def)

lemma same_projects_inv: "session_inv sm \<Longrightarrow> same_projects sm sm' \<Longrightarrow> pinv sm' \<Longrightarrow> session_inv sm'"
  by (rule session_inv_pane_op) (simp_all add: same_projects_def)

lemma same_projects_tab:
  assumes "sm_tabs sm t = Some tab" "t_ProjectID tab' = t_ProjectID tab"
  shows "same_projects sm (sm\<lparr>sm_tabs := (sm_tabs sm)(t \<mapsto> tab'), sm_panes := m\<rparr>)"
    "same_projects sm (sm\<lparr>sm_tabs := (sm_tabs sm)(t \<mapsto> tab')\<rparr>)"
  using owner_same [of "sm_tabs sm" t tab tab', OF assms] by (simp_all add: same_projects_def del: owner_upd)

lemma createPane_same:
  assumes "createPane sm t cwd b u = Some (sm', p)"
  shows "same_projects sm sm'"
proof -
  obtain tab where tab: "sm_tabs sm t = Some tab" using assms by (auto simp: createPane_def split: option.splits)
  have "tab_owner ((sm_tabs sm)(t \<mapsto> tab\<lparr>t_Panes := t_Panes tab @ [''pane-'' @ u]\<rparr>)) = tab_owner (sm_tabs sm)"
    using tab by (rule owner_same) simp
  with assms tab show ?thesis
    by (auto simp: createPane_def Let_def same_projects_def simp del: owner_upd)
qed

lemma DestroyPane_same:
  assumes "DestroyPane sm i = Some (sm', ps)"
  shows "same_projects sm sm'"
  using assms owner_same [of "sm_tabs sm"]
  by (auto simp: DestroyPane_def Let_def same_projects_def simp del: owner_upd split: option.splits)

lemma replacePane_same:
  assumes "replacePaneLocked sm old p = Some (sm', q)"
  shows "same_projects sm sm'"
  using assms owner_same [of "sm_tabs sm"]
  by (auto simp: replacePaneLocked_def Let_def same_projects_def simp del: owner_upd split: option.splits)

lemma MovePane_same:
  assumes inv: "pinv sm" and m: "MovePane sm i t = Ret (sm', src, r)"
  shows "same_projects sm sm'"
proof (cases "sm' = sm")
  case False
  with m obtain p dst where p: "sm_panes sm i = Some p" "sm_tabs sm t = Some dst" "p_TabID p \<noteq> t"
    by (auto simp: MovePane_def split: option.splits if_splits)
  obtain s where s: "sm_tabs sm (p_TabID p) = Some s" "i \<in> set (t_Panes s)"
    using pane_inv_parent [OF inv p(1)] by blast
  let ?s = "clear_overlay (pruneTreeLocked (s\<lparr>t_Panes := removeString (t_Panes s) i\<rparr>) i) i"
  let ?tabs = "(sm_tabs sm)(p_TabID p \<mapsto> ?s)"
  define d1 where "d1 = (if indexOfString (t_Panes dst) i < 0 then dst\<lparr>t_Panes := t_Panes dst @ [i]\<rparr> else dst)"
  define X where "X = (if p_treeless p then Ret d1 else placeMovedLocked (sm\<lparr>sm_tabs := ?tabs(t \<mapsto> d1)\<rparr>) d1 i)"
  have "\<not> (template_pending s \<or> template_pending dst)"
    using m p s False by (auto simp: MovePane_def Let_def)
  then have "MovePane sm i t = obind X (\<lambda>d2. Ret (sm\<lparr>sm_tabs := ?tabs(t \<mapsto> d2),
      sm_panes := (sm_panes sm)(i \<mapsto> p\<lparr>p_TabID := t\<rparr>)\<rparr>, p_TabID p, movePaneMoved))"
    unfolding MovePane_def p option.case Let_def s(1) if_not_P [OF p(3)] X_def d1_def by (simp only: if_False)
  with m obtain d2 where d2: "X = Ret d2"
      "sm' = sm\<lparr>sm_tabs := ?tabs(t \<mapsto> d2), sm_panes := (sm_panes sm)(i \<mapsto> p\<lparr>p_TabID := t\<rparr>)\<rparr>"
    by (auto simp: obind_eq_Ret)
  have "t_ProjectID d2 = t_ProjectID d1"
    using d2(1) by (auto simp: X_def placeMovedLocked_def obind_eq_Ret split: prod.splits if_splits)
  then have pd: "t_ProjectID d2 = t_ProjectID dst" by (simp add: d1_def split: if_splits)
  have "tab_owner ((sm_tabs sm)(p_TabID p \<mapsto> ?s, t \<mapsto> d2)) = tab_owner (sm_tabs sm)"
    using p s pd by (simp add: fun_eq_iff owner_at)
  then show ?thesis by (simp add: d2(2) same_projects_def del: owner_upd)
qed simp

lemma addPane_same: "sm_tabs sm t = Some tab \<Longrightarrow> same_projects sm (addPaneLocked sm t tab p)"
  unfolding addPaneLocked_def using owner_same [of "sm_tabs sm" t tab]
  by (simp add: same_projects_def del: owner_upd)

lemma detachPane_same: "sm_tabs sm t = Some tab \<Longrightarrow> same_projects sm (detachPaneLocked sm t tab p)"
  unfolding detachPaneLocked_def Let_def using owner_same [of "sm_tabs sm" t tab]
  by (simp add: same_projects_def del: owner_upd)

lemma insertPane_project:
  assumes "insertPaneLocked sm tab i target dir = Ret (tab', ok)"
  shows "t_ProjectID tab' = t_ProjectID tab"
proof -
  from assms obtain b where b: "(if b = None then (if target \<noteq> [] then Ret (tab, False) else Ret (storeTreeLocked tab (Some (leaf i)), True))
      else obind (if target \<noteq> [] then Ret target else case PaneIDs b of [] \<Rightarrow> Panic | p # _ \<Rightarrow> Ret p)
        (\<lambda>tgt. case SplitLeaf b tgt dir i of (out, ok) \<Rightarrow>
            if \<not> ok then Ret (tab, False) else Ret (storeTreeLocked tab out, True))) = Ret (tab', ok)"
    unfolding insertPaneLocked_def obind_eq_Ret by blast
  show ?thesis
  proof (cases "b = None")
    case True
    with b show ?thesis by (auto split: if_splits)
  next
    case False
    with b obtain tgt where "(case SplitLeaf b tgt dir i of (out, ok) \<Rightarrow>
        if \<not> ok then Ret (tab, False) else Ret (storeTreeLocked tab out, True)) = Ret (tab', ok)"
      unfolding obind_eq_Ret if_not_P [OF False] by blast
    then show ?thesis by (cases "SplitLeaf b tgt dir i") (auto split: if_splits)
  qed
qed

lemma tab_at_Some: "sm_tabs sm t = Some tab \<Longrightarrow> tab_at sm t x = tab"
  by (simp add: tab_at_def)

lemma PublishPane_same:
  assumes p: "PublishPane sm p slot = Ret (sm', r)"
  shows "same_projects sm sm'"
proof (cases "sm_tabs sm (s_TabID slot)")
  case None
  with p show ?thesis by (simp add: PublishPane_def Let_def)
next
  case (Some tab)
  let ?t = "s_TabID slot"
  have overlay: "same_projects x (let y = addPaneLocked x ?t (tab_at x ?t tab) p in
      y\<lparr>sm_tabs := (sm_tabs y)(?t \<mapsto> (tab_at y ?t tab)\<lparr>overlayID := p_ID p, overlayKey := k\<rparr>)\<rparr>)"
    if "sm_tabs x ?t = Some u" for x u k
    using owner_same [of "sm_tabs x" ?t u "u\<lparr>t_Panes := t_Panes u @ [p_ID p], overlayID := p_ID p, overlayKey := k\<rparr>"] that
    by (simp add: Let_def tab_at_def same_projects_def addPaneLocked_def del: owner_upd)
  consider "s_OverlayKey slot \<noteq> []" | "s_OverlayKey slot = []" "s_ReplaceID slot \<noteq> []"
    | "s_OverlayKey slot = []" "s_ReplaceID slot = []" "s_Split slot"
    | "s_OverlayKey slot = []" "s_ReplaceID slot = []" "\<not> s_Split slot" by blast
  then show ?thesis
  proof cases
    case 1
    show ?thesis
    proof (cases "if overlayID tab \<noteq> [] then sm_panes sm (overlayID tab) else None")
      case None
      then show ?thesis
        using p 1 Some overlay [OF Some] by (auto simp: PublishPane_def Let_def publish_done_def tab_at_def)
    next
      case (Some cur)
      let ?sm1 = "detachPaneLocked sm ?t tab cur"
      have t1: "sm_tabs ?sm1 ?t \<noteq> None" by (simp add: detachPaneLocked_def Let_def)
      have "same_projects sm ?sm1" using \<open>sm_tabs sm ?t = Some tab\<close> by (rule detachPane_same)
      then show ?thesis
        using p 1 Some \<open>sm_tabs sm ?t = Some tab\<close> t1 overlay [of ?sm1]
        by (auto simp: PublishPane_def Let_def publish_done_def intro: same_projects_trans split: if_splits)
    qed
  next
    case 2
    then show ?thesis
      using p Some replacePane_same
      by (auto simp: PublishPane_def Let_def publish_done_def split: option.splits if_splits)
  next
    case 3
    let ?sm1 = "addPaneLocked sm ?t tab p"
    have t1: "sm_tabs ?sm1 ?t = Some (tab\<lparr>t_Panes := t_Panes tab @ [p_ID p]\<rparr>)" by simp
    have s1: "same_projects sm ?sm1" using Some by (rule addPane_same)
    show ?thesis
    proof (cases "sm' = sm")
      case False
      with p 3 Some obtain tab2 ok where ins: "insertPaneLocked ?sm1 (tab_at ?sm1 ?t tab) (p_ID p) (s_TargetID slot) (s_Dir slot) = Ret (tab2, ok)"
          "sm' = (if ok then ?sm1\<lparr>sm_tabs := (sm_tabs ?sm1)(?t \<mapsto> tab2)\<rparr> else detachPaneLocked ?sm1 ?t (tab_at ?sm1 ?t tab) p)"
        by (auto simp: PublishPane_def Let_def publish_done_def obind_eq_Ret split: if_splits)
      have "t_ProjectID tab2 = t_ProjectID (tab\<lparr>t_Panes := t_Panes tab @ [p_ID p]\<rparr>)"
        using insertPane_project [OF ins(1)] by (simp add: tab_at_Some [OF t1])
      then have "same_projects ?sm1 sm'"
        using ins(2) same_projects_tab(2) [OF t1] detachPane_same [OF t1] by (simp add: tab_at_Some [OF t1])
      with s1 show ?thesis by (rule same_projects_trans)
    qed simp
  next
    case 4
    with p Some addPane_same [OF Some] show ?thesis
      by (auto simp: PublishPane_def Let_def publish_done_def)
  qed
qed

section \<open>Every step keeps the invariant\<close>

lemma SetTabLayout_cases:
  assumes inv: "session_inv sm"
  obtains "sm_tabs sm t = None" "SetTabLayout sm t raw base = Ret (sm, layoutNoTab)"
  | tab b where "sm_tabs sm t = Some tab" "base = Some b" "b \<noteq> t_LayoutRev tab" "SetTabLayout sm t raw base = Ret (sm, layoutStale)"
  | tab raw' tab' where "sm_tabs sm t = Some tab" "base = None \<or> base = Some (t_LayoutRev tab)"
      "validLayoutLocked sm tab raw = Ret raw'" "tab' = settleTemplateLocked (tab\<lparr>t_Layout := raw', t_LayoutRev := t_LayoutRev tab + 1\<rparr>)"
      "SetTabLayout sm t raw base = Ret (sm\<lparr>sm_tabs := (sm_tabs sm)(t \<mapsto> tab')\<rparr>, layoutStored)"
      "leaves_ok tab' (tree_set (sm_panes sm) tab)"
proof (cases "sm_tabs sm t")
  case None
  with that(1) show thesis by (simp add: SetTabLayout_def)
next
  case (Some tab)
  note P = session_invD [OF inv]
  show thesis
  proof (cases "base = None \<or> base = Some (t_LayoutRev tab)")
    case False
    with Some that(2) show thesis by (auto simp: SetTabLayout_def)
  next
    case True
    obtain raw' where r: "validLayoutLocked sm tab raw = Ret raw'"
      "PaneIDs (tree_of raw') = [] \<or> distinct (PaneIDs (tree_of raw')) \<and> set (PaneIDs (tree_of raw')) = set (treePanesLocked sm tab)"
      using validLayout_Ret [OF pane_inv_nonempty [OF P(1) Some] pane_inv_distinct [OF P(1) Some]] by metis
    let ?tab = "settleTemplateLocked (tab\<lparr>t_Layout := raw', t_LayoutRev := t_LayoutRev tab + 1\<rparr>)"
    have "leaves_ok ?tab (tree_set (sm_panes sm) tab)"
      using r(2) by (auto simp: leaves_ok_def tab_leaves_def set_treePanes)
    moreover have "SetTabLayout sm t raw base = Ret (sm\<lparr>sm_tabs := (sm_tabs sm)(t \<mapsto> ?tab)\<rparr>, layoutStored)"
      using True Some r(1) by (auto simp: SetTabLayout_def)
    ultimately show thesis using that(3) [OF Some True r(1) refl] by blast
  qed
qed

lemma SetTabLayout_inv:
  assumes inv: "session_inv sm" and s: "SetTabLayout sm t raw base = Ret (sm', r)"
  shows "session_inv sm'"
  by (rule SetTabLayout_cases [OF inv, of t raw base])
    (use inv s in \<open>auto intro!: session_inv_edit_tab\<close>)

lemma session_step_inv:
  assumes "session_step lower sm sm'" "session_inv sm"
  shows "session_inv sm'"
  using assms
proof (induction rule: session_step.induct)
  case (createTab sm u1 u2 q name cwd sm' i)
  then show ?case using createTab_inv(1) by (auto simp: CreateTabInProject_def)
next
  case (destroyTab sm t sm' ps)
  then show ?case using destroyTab_inv(1) by (auto simp: DestroyTab_def split: option.splits)
next
  case (destroyTabIfPanes sm t want sm' ps ok)
  then show ?case
    using destroyTab_inv(1) by (auto simp: DestroyTabIfPanes_def Let_def split: option.splits if_splits prod.splits)
next
  case (updateTab sm t name color clear sm' ok)
  then show ?case using UpdateTab_inv by (metis fst_conv)
next
  case (setTabLayout sm t raw base sm' r)
  then show ?case using SetTabLayout_inv by blast
next
  case (switchTab sm t)
  then show ?case by (rule SwitchTab_inv)
next
  case (reorderTab sm t k sm' ok)
  then show ?case using ReorderTab_inv by (metis fst_conv)
next
  case (createPane sm u t cwd b sm' p)
  then show ?case
    using createPane_inv [OF _ createPane.hyps] createPane_same [OF createPane.hyps(2)]
    by (blast intro: same_projects_inv session_invD(1))
next
  case (publishPane sm p slot sm' r)
  have "published sm p (s_TabID slot) (PublishPane sm p slot)"
    using PublishPane_published publishPane session_invD(1) by blast
  then have "pinv sm'" using publishPane.hyps(3) by (simp add: published_def)
  with publishPane PublishPane_same show ?case by (blast intro: same_projects_inv)
next
  case (replacePane sm p old sm' ps)
  then obtain q where "replacePaneLocked sm old p = Some (sm', q)"
    by (auto simp: ReplacePane_def split: option.splits)
  then show ?case
    using replacePane_inv(1) replacePane_same replacePane session_invD(1) by (blast intro: same_projects_inv)
next
  case (destroyPane sm i sm' ps)
  then show ?case using DestroyPane_inv DestroyPane_same session_invD(1) by (blast intro: same_projects_inv)
next
  case (movePane sm i t sm' src r)
  have "pinv sm" using movePane by (simp add: session_invD)
  then have "pinv sm'" using MovePane_outcome [of sm i t] movePane.hyps by auto
  with movePane MovePane_same \<open>pinv sm\<close> show ?case by (blast intro: same_projects_inv)
next
  case (createProject sm u keys name rootDir sm' p)
  then show ?case using CreateProject_inv by blast
next
  case (destroyProject sm q sm' ps)
  then show ?case using DestroyProject_inv(1) by blast
next
  case (updateProject sm keys q name rootDir rb sm' ok)
  then show ?case using UpdateProject_inv by blast
next
  case (mergeProjects sm keys into absorb name sm' ok)
  then show ?case using MergeProjects_inv(1) by blast
next
  case (moveTab sm t q sm' src r)
  then show ?case using MoveTab_inv(1) by blast
next
  case (switchProject sm q sm' t ok)
  then show ?case using SwitchProject_inv by (metis fst_conv)
next
  case (reorderProject sm q k sm' ok)
  then show ?case using ReorderProject_inv by (metis fst_conv)
qed

lemma NewSessionManager_inv: "session_inv (NewSessionManager n)"
  using pane_inv_empty struct_empty
  by (simp add: session_inv_def NewSessionManager_def ids_inv_def active_inv_def tab_owner_def comp_def)

interpretation store: machine "\<lambda>sm. \<exists>n. sm = NewSessionManager n" "session_step lower" session_inv for lower
  by unfold_locales (auto simp: NewSessionManager_inv intro: session_step_inv)

section \<open>Lemmas for the properties\<close>

lemma validLayout_keeps:
  assumes "Parse raw = Some n" "valid_tree n" "distinct (PaneIDs n)" "set (PaneIDs n) = set (treePanesLocked sm tab)" "n \<noteq> None"
  shows "validLayoutLocked sm tab raw = Ret raw"
proof -
  have "wellFormed n = n" using assms(2) by (simp add: valid_tree_def shaped_wellFormed)
  moreover have "Normalize (Sanitize n) (treePanesLocked sm tab) (TemplateLayout tab) (TemplateMain tab) = Ret n"
    using assms by (simp add: Sanitize_id Normalize_id)
  ultimately show ?thesis
    using assms by (auto simp: validLayoutLocked_def Let_def Equal_def valid_Clone)
qed

lemma validLayout_none:
  "treePanesLocked sm tab = [] \<Longrightarrow> validLayoutLocked sm tab raw = Ret Raw_Nil"
  by (simp add: validLayoutLocked_def Let_def)

lemma remove_count_mset: "remove_count a b \<longleftrightarrow> mset b \<subseteq># mset a"
proof (induction a b rule: remove_count.induct)
  case (2 counts s b)
  have "count_list counts s = 0 \<longleftrightarrow> s \<notin> set counts" by (metis count_list_0_iff)
  with 2 show ?case
    by (auto simp: insert_subset_eq_iff)
qed simp

lemma sameStringSet_iff: "sameStringSet a b \<longleftrightarrow> mset a = mset b"
proof (cases "length a = length b")
  case True
  then have "mset b \<subseteq># mset a \<longleftrightarrow> mset a = mset b"
    by (metis mset_subset_size size_mset nat_less_le subset_mset.le_less subset_mset.order_refl)
  with True show ?thesis by (simp add: sameStringSet_def remove_count_mset)
qed (auto simp: sameStringSet_def dest: mset_eq_length)

lemma live_filter:
  assumes "pinv sm" "sm_tabs sm t = Some tab"
  shows "filter (\<lambda>i. sm_panes sm i \<noteq> None) (t_Panes tab) = t_Panes tab"
  using pane_inv_mem [OF assms] by (auto simp: filter_id_conv)

lemma mergeTabs_tabs:
  assumes "sm_tabs sm t = Some tab"
  shows "sm_tabs (mergeTabs into ts sm) t \<in> {Some tab, Some (tab\<lparr>t_ProjectID := into\<rparr>)}"
  using assms
proof (induction ts arbitrary: sm tab)
  case (Cons u us)
  show ?case
  proof (cases "sm_tabs sm u = None \<or> sm_projects sm into = None")
    case True
    then have "mergeTabs into (u # us) sm = mergeTabs into us sm" by (auto split: option.split)
    with Cons show ?thesis by simp
  next
    case False
    then obtain v d where v: "sm_tabs sm u = Some v" "sm_projects sm into = Some d" by auto
    define x where "x = (if u = t then tab\<lparr>t_ProjectID := into\<rparr> else tab)"
    have x: "((sm_tabs sm)(u \<mapsto> v\<lparr>t_ProjectID := into\<rparr>)) t = Some x" using Cons.prems v by (auto simp: x_def)
    from Cons.IH [of _ x] x have IH: "sm_tabs y = (sm_tabs sm)(u \<mapsto> v\<lparr>t_ProjectID := into\<rparr>) \<Longrightarrow>
      sm_tabs (mergeTabs into us y) t \<in> {Some x, Some (x\<lparr>t_ProjectID := into\<rparr>)}" for y by simp
    have "sm_tabs (mergeTabs into (u # us) sm) t \<in> {Some x, Some (x\<lparr>t_ProjectID := into\<rparr>)}"
      using v IH by (simp add: Let_def)
    then show ?thesis by (auto simp: x_def split: if_splits)
  qed
qed simp

lemma mergeTabs_projects: "sm_projects (mergeTabs into ts sm) i = None \<longleftrightarrow> sm_projects sm i = None"
proof (induction ts arbitrary: sm)
  case (Cons t ts)
  show ?case
  proof (cases "sm_tabs sm t = None \<or> sm_projects sm into = None")
    case True
    then have "mergeTabs into (t # ts) sm = mergeTabs into ts sm" by (auto split: option.split)
    with Cons show ?thesis by simp
  next
    case False
    then obtain v d where v: "sm_tabs sm t = Some v" "sm_projects sm into = Some d" by auto
    then show ?thesis
      by (cases "indexOfString (j_TabIDs d) t \<ge> 0") (simp_all add: Let_def Cons)
  qed
qed simp

lemma mergeAll_tabs:
  assumes "sm_tabs sm t = Some tab"
  shows "sm_tabs (mergeAll into is sm) t \<in> {Some tab, Some (tab\<lparr>t_ProjectID := into\<rparr>)}"
  using assms
proof (induction "is" arbitrary: sm tab)
  case (Cons i "is")
  show ?case
  proof (cases "i = into \<or> sm_projects sm i = None")
    case True
    then have "mergeAll into (i # is) sm = mergeAll into is sm" by auto
    with Cons show ?thesis by simp
  next
    case False
    then obtain s where s: "sm_projects sm i = Some s" "i \<noteq> into" by auto
    let ?sm1 = "mergeTabs into (j_TabIDs s) sm"
    from mergeTabs_tabs [OF Cons.prems, of into "j_TabIDs s"]
    obtain x where x: "sm_tabs ?sm1 t = Some x" "x = tab \<or> x = tab\<lparr>t_ProjectID := into\<rparr>" by auto
    have "sm_tabs (mergeAll into (i # is) sm) t \<in> {Some x, Some (x\<lparr>t_ProjectID := into\<rparr>)}"
      using s Cons.IH x(1) by (simp add: Let_def)
    then show ?thesis using x(2) by auto
  qed
qed simp

lemma mergeAll_projects:
  "i \<in> set is \<Longrightarrow> i \<noteq> into \<Longrightarrow> sm_projects (mergeAll into is sm) i = None"
  "sm_projects sm i = None \<Longrightarrow> sm_projects (mergeAll into is sm) i = None"
proof -
  have gone: "sm_projects (mergeAll into is sm) i = None" if "sm_projects sm i = None" for "is" sm
    using that
  proof (induction "is" arbitrary: sm)
    case (Cons k ks)
    show ?case
    proof (cases "k = into \<or> sm_projects sm k = None")
      case True
      then have "mergeAll into (k # ks) sm = mergeAll into ks sm" by auto
      with Cons show ?thesis by simp
    next
      case False
      then obtain s where s: "sm_projects sm k = Some s" "k \<noteq> into" by auto
      have "sm_projects (mergeTabs into (j_TabIDs s) sm) i = None"
        using mergeTabs_projects [of into "j_TabIDs s" sm i] Cons.prems by simp
      with s Cons.IH show ?thesis by (simp add: Let_def)
    qed
  qed simp
  then show "sm_projects sm i = None \<Longrightarrow> sm_projects (mergeAll into is sm) i = None" .
  show "i \<in> set is \<Longrightarrow> i \<noteq> into \<Longrightarrow> sm_projects (mergeAll into is sm) i = None"
  proof (induction "is" arbitrary: sm)
    case (Cons k ks)
    show ?case
    proof (cases "k = into \<or> sm_projects sm k = None")
      case True
      then have "mergeAll into (k # ks) sm = mergeAll into ks sm" by auto
      with Cons gone True show ?thesis by (cases "k = i") auto
    next
      case False
      then obtain s where s: "sm_projects sm k = Some s" "k \<noteq> into" by auto
      show ?thesis
      proof (cases "k = i")
        case True
        with s gone show ?thesis by (simp add: Let_def)
      next
        case False
        with s Cons show ?thesis by (simp add: Let_def)
      qed
    qed
  qed simp
qed

lemma insert_at_same:
  assumes "xs = ys @ v # zs" "v \<notin> set ys"
  shows "insert_at (length ys) v (remove1 v xs) = xs"
  using assms by (simp add: insert_at_def remove1_append)

section \<open>Restore\<close>

lemma foldl_panes: "foldl (\<lambda>m p. m(p_ID p \<mapsto> p)) m0 ps i =
    (case find (\<lambda>p. p_ID p = i) (rev ps) of None \<Rightarrow> m0 i | Some p \<Rightarrow> Some p)"
  by (induction ps rule: rev_induct) (auto split: option.splits)

lemma map_filter_keys:
  assumes "\<And>i. i \<in> set is \<Longrightarrow> \<exists>p. m i = Some p \<and> k p = i"
  shows "map k (List.map_filter m is) = is"
proof -
  have "filter (\<lambda>i. m i \<noteq> None) is = is" using assms by (fastforce simp: filter_id_conv)
  then have "map k (List.map_filter m is) = map (k \<circ> (the \<circ> m)) is" by (simp add: List.map_filter_def)
  also have "\<dots> = is" using assms by (intro map_idI) fastforce
  finally show ?thesis .
qed

lemma set_map_filter: "set (List.map_filter m is) = {p. \<exists>i \<in> set is. m i = Some p}"
  by (induction "is") (auto split: option.splits)

lemma live_panes_all:
  assumes "pinv sm" "sm_tabs sm t = Some tab"
  shows "map p_ID (live_panes sm (t_Panes tab)) = t_Panes tab"
    "set (live_panes sm (t_Panes tab)) = {p. sm_panes sm (p_ID p) = Some p \<and> p_TabID p = t}"
proof -
  have sub: "\<exists>p. sm_panes sm i = Some p \<and> p_ID p = i" if "i \<in> set (t_Panes tab)" for i
    using pane_inv_mem [OF assms] pane_inv_pane [OF assms(1)] that by blast
  then show "map p_ID (live_panes sm (t_Panes tab)) = t_Panes tab"
    unfolding live_panes_def by (intro map_filter_keys) blast
  have "set (live_panes sm (t_Panes tab)) = {p. \<exists>i \<in> set (t_Panes tab). sm_panes sm i = Some p}"
    by (simp add: live_panes_def set_map_filter)
  also have "\<dots> = {p. sm_panes sm (p_ID p) = Some p \<and> p_TabID p = t}"
  proof (intro Collect_cong iffI)
    fix p assume "\<exists>i \<in> set (t_Panes tab). sm_panes sm i = Some p"
    then obtain i where "i \<in> set (t_Panes tab)" "sm_panes sm i = Some p" by blast
    then show "sm_panes sm (p_ID p) = Some p \<and> p_TabID p = t"
      using pane_inv_mem [OF assms, of i] pane_inv_pane [OF assms(1), of i p] by simp
  next
    fix p assume "sm_panes sm (p_ID p) = Some p \<and> p_TabID p = t"
    then show "\<exists>i \<in> set (t_Panes tab). sm_panes sm i = Some p"
      using pane_inv_mem [OF assms, of "p_ID p"] by blast
  qed
  finally show "set (live_panes sm (t_Panes tab)) = {p. sm_panes sm (p_ID p) = Some p \<and> p_TabID p = t}" .
qed

lemma snapshot_tabs_Ret:
  assumes "\<And>i. i \<in> set is \<Longrightarrow> sm_tabs sm i \<noteq> None"
  shows "snapshot_tabs sm is = Ret (map (\<lambda>i. (the (sm_tabs sm i), live_panes sm (t_Panes (the (sm_tabs sm i))))) is)"
  using assms by (induction "is") (auto split: option.split)

text \<open>What restoring a snapshot's tabs and panes does to each map, one tab at a time.\<close>

definition restore_tabs :: "session \<Rightarrow> (Tab \<times> Pane list) list \<Rightarrow> session" where
  "restore_tabs sm l = foldl (\<lambda>s (tab, ps). RestoreTab s tab ps) sm l"

lemma restore_tabs_sel:
  "sm_tabOrder (restore_tabs sm l) = sm_tabOrder sm @ map (t_ID \<circ> fst) l"
  "sm_projects (restore_tabs sm l) = sm_projects sm" "sm_projectOrder (restore_tabs sm l) = sm_projectOrder sm"
  "sm_activeProject (restore_tabs sm l) = sm_activeProject sm" "sm_activeTab (restore_tabs sm l) = sm_activeTab sm"
  "sm_bufSize (restore_tabs sm l) = sm_bufSize sm" "sm_groups (restore_tabs sm l) = sm_groups sm"
  "sm_recentCWDs (restore_tabs sm l) = sm_recentCWDs sm"
  "sm_panes (restore_tabs sm l) = foldl (\<lambda>m p. m(p_ID p \<mapsto> p)) (sm_panes sm) (concat (map snd l))"
  "sm_tabs (restore_tabs sm l) = foldl (\<lambda>m tab. m(t_ID tab \<mapsto> tab)) (sm_tabs sm) (map fst l)"
  by (induction l arbitrary: sm) (auto simp: restore_tabs_def RestoreTab_def)

lemma foldl_upd_keys:
  assumes "\<And>x. x \<in> set xs \<Longrightarrow> m (k x) = Some x" "\<And>i y. m i = Some y \<Longrightarrow> \<exists>x \<in> set xs. k x = i"
  shows "foldl (\<lambda>m x. m(k x \<mapsto> x)) Map.empty xs = m"
proof -
  have fold: "foldl (\<lambda>m x. m(k x \<mapsto> x)) m0 ys i = (if i \<in> k ` set ys then m i else m0 i)"
    if "set ys \<subseteq> set xs" for m0 ys i
    using that assms(1) by (induction ys arbitrary: m0) auto
  show ?thesis
  proof
    fix i
    show "foldl (\<lambda>m x. m(k x \<mapsto> x)) Map.empty xs i = m i"
      using fold [of xs] assms(2) [of i] by (cases "m i") auto
  qed
qed

lemma RestoreProjects_eq:
  "foldl (\<lambda>s p. s\<lparr>sm_projects := (sm_projects s)(j_ID p \<mapsto> p), sm_projectOrder := sm_projectOrder s @ [j_ID p]\<rparr>) sm ps
    = sm\<lparr>sm_projects := foldl (\<lambda>m p. m(j_ID p \<mapsto> p)) (sm_projects sm) ps, sm_projectOrder := sm_projectOrder sm @ map j_ID ps\<rparr>"
  by (induction ps arbitrary: sm) simp_all

lemma Projects_all:
  assumes "ids_inv (sm_projects sm) (sm_projectOrder sm)"
  shows "map j_ID (Projects sm) = sm_projectOrder sm" "set (Projects sm) = {p. sm_projects sm (j_ID p) = Some p}"
proof -
  have sub: "\<exists>p. sm_projects sm i = Some p \<and> j_ID p = i" if "i \<in> set (sm_projectOrder sm)" for i
    using assms that by (fastforce simp: ids_inv_def)
  then show "map j_ID (Projects sm) = sm_projectOrder sm"
    unfolding Projects_def by (intro map_filter_keys) blast
  have "set (Projects sm) = {p. \<exists>i \<in> set (sm_projectOrder sm). sm_projects sm i = Some p}"
    by (simp add: Projects_def set_map_filter)
  also have "\<dots> = {p. sm_projects sm (j_ID p) = Some p}"
  proof (intro Collect_cong iffI)
    fix p assume "\<exists>i \<in> set (sm_projectOrder sm). sm_projects sm i = Some p"
    then obtain i where "sm_projects sm i = Some p" by blast
    then show "sm_projects sm (j_ID p) = Some p" using ids_project [OF assms, of i p] by simp
  next
    fix p assume p: "sm_projects sm (j_ID p) = Some p"
    then show "\<exists>i \<in> set (sm_projectOrder sm). sm_projects sm i = Some p"
      using ids_order [OF assms, of "j_ID p"] by (intro bexI [of _ "j_ID p"]) auto
  qed
  finally show "set (Projects sm) = {p. sm_projects sm (j_ID p) = Some p}" .
qed

lemma restore_snapshot:
  assumes inv: "session_inv sm"
  obtains tabs where "SnapshotState sm = Ret (sm_activeTab sm, tabs, Projects sm, sm_activeProject sm)"
    "restore_tabs (RestoreProjects (NewSessionManager (sm_bufSize sm)) (Projects sm) (sm_activeProject sm)) tabs
      = sm\<lparr>sm_activeTab := [], sm_groups := [], sm_recentCWDs := []\<rparr>"
proof -
  note P = session_invD [OF inv]
  have ord: "sm_tabs sm i \<noteq> None" if "i \<in> set (sm_tabOrder sm)" for i
    using struct_order(2) [OF P(2), of i] that by (auto simp: owner_at)
  let ?l = "map (\<lambda>i. (the (sm_tabs sm i), live_panes sm (t_Panes (the (sm_tabs sm i))))) (sm_tabOrder sm)"
  have snap: "SnapshotState sm = Ret (sm_activeTab sm, ?l, Projects sm, sm_activeProject sm)"
    using snapshot_tabs_Ret [OF ord] by (simp add: SnapshotState_def)
  let ?sm0 = "RestoreProjects (NewSessionManager (sm_bufSize sm)) (Projects sm) (sm_activeProject sm)"
  have id: "t_ID (the (sm_tabs sm i)) = i" if "i \<in> set (sm_tabOrder sm)" for i
    using ord [OF that] pane_inv_tab [OF P(1)] by (auto simp: tab_ok_def)
  have tabs: "foldl (\<lambda>m tab. m(t_ID tab \<mapsto> tab)) Map.empty (map fst ?l) = sm_tabs sm"
  proof (rule foldl_upd_keys)
    fix x assume "x \<in> set (map fst ?l)"
    then show "sm_tabs sm (t_ID x) = Some x" using id ord by auto
  next
    fix i y assume y: "sm_tabs sm i = Some y"
    then have "i \<in> set (sm_tabOrder sm)" using struct_order(2) [OF P(2), of i] by (simp add: owner_at)
    with y id show "\<exists>x \<in> set (map fst ?l). t_ID x = i" by force
  qed
  have panes: "foldl (\<lambda>m p. m(p_ID p \<mapsto> p)) Map.empty (concat (map snd ?l)) = sm_panes sm"
  proof (rule foldl_upd_keys)
    fix p assume "p \<in> set (concat (map snd ?l))"
    then obtain i tab where "sm_tabs sm i = Some tab" "p \<in> set (live_panes sm (t_Panes tab))" using ord by fastforce
    then show "sm_panes sm (p_ID p) = Some p" using live_panes_all(2) [OF P(1)] by auto
  next
    fix i p assume p: "sm_panes sm i = Some p"
    then obtain tab where tab: "sm_tabs sm (p_TabID p) = Some tab" using pane_inv_parent [OF P(1)] by blast
    then have "p_TabID p \<in> set (sm_tabOrder sm)" using struct_order(2) [OF P(2), of "p_TabID p"] by (simp add: owner_at)
    moreover have "p \<in> set (live_panes sm (t_Panes tab))" and i: "p_ID p = i"
      using p pane_inv_pane [OF P(1) p] live_panes_all(2) [OF P(1) tab] by auto
    ultimately have "(tab, live_panes sm (t_Panes tab)) \<in> set ?l" using tab by (force simp: image_iff)
    then have "p \<in> set (concat (map snd ?l))" using \<open>p \<in> set (live_panes sm (t_Panes tab))\<close> by force
    with i show "\<exists>x \<in> set (concat (map snd ?l)). p_ID x = i" by blast
  qed
  have projs: "foldl (\<lambda>m p. m(j_ID p \<mapsto> p)) Map.empty (Projects sm) = sm_projects sm"
  proof (rule foldl_upd_keys)
    show "sm_projects sm (j_ID x) = Some x" if "x \<in> set (Projects sm)" for x
      using that Projects_all(2) [OF P(3)] by blast
    show "\<exists>x \<in> set (Projects sm). j_ID x = i" if "sm_projects sm i = Some y" for i y
      using that ids_project [OF P(3) that] Projects_all(2) [OF P(3)] by (intro bexI [of _ y]) simp_all
  qed
  have sm0: "?sm0 = (NewSessionManager (sm_bufSize sm))\<lparr>sm_projects := sm_projects sm,
      sm_projectOrder := sm_projectOrder sm, sm_activeProject := sm_activeProject sm\<rparr>"
    using Projects_all(1) [OF P(3)] projs
    by (auto simp: RestoreProjects_def RestoreProjects_eq Let_def NewSessionManager_def)
  have ids: "map (t_ID \<circ> fst) ?l = sm_tabOrder sm" using id by (simp add: map_idI)
  have "restore_tabs ?sm0 ?l = sm\<lparr>sm_activeTab := [], sm_groups := [], sm_recentCWDs := []\<rparr>"
    unfolding sm0
    by (rule session.equality)
      (simp_all only: restore_tabs_sel session.simps ids tabs panes NewSessionManager_def append_Nil, simp_all)
  with snap show thesis by (rule that)
qed

section \<open>Properties\<close>

text \<open>A store with one project, one tab and one pane, for the witnesses.\<close>

definition store1 :: session where
  "store1 = fst (CreateTabInProject (NewSessionManager 16) [] ''Shell'' ''p'' ''t'' ''/'')"

definition store2 :: session where
  "store2 = fst (the (createPane store1 ''tab-t'' ''/'' False ''a''))"

lemma store1_inv: "session_inv store1"
proof -
  obtain sm' i where c: "CreateTabInProject (NewSessionManager 16) [] ''Shell'' ''p'' ''t'' ''/'' = (sm', i)" by fastforce
  have "session_step (map ascii_lower) (NewSessionManager 16) sm'"
    by (rule createTab [OF _ _ c]) (simp_all add: NewSessionManager_def)
  then show ?thesis using session_step_inv NewSessionManager_inv c by (simp add: store1_def)
qed

lemma store1_sel: "sm_panes store1 = Map.empty"
  "sm_tabs store1 = [''tab-t'' \<mapsto> (new_tab ''tab-t'' ''Shell'')\<lparr>t_ProjectID := ''proj-p''\<rparr>]"
  by (simp_all add: store1_def CreateTabInProject_def createTabLocked_def tabProject_def NewSessionManager_def Let_def)

lemma store2_eq: "createPane store1 ''tab-t'' ''/'' False ''a'' = Some (store2, mk_pane store1 ''pane-a'' ''tab-t'' ''/'' False)"
  by (simp add: store2_def createPane_def store1_sel Let_def)

lemma store2_inv: "session_inv store2"
proof -
  have "session_step (map ascii_lower) store1 store2"
    by (rule createPane [OF _ store2_eq]) (simp add: store1_sel)
  then show ?thesis using session_step_inv store1_inv by blast
qed

lemma store2_sel: "sm_panes store2 = [''pane-a'' \<mapsto> mk_pane store1 ''pane-a'' ''tab-t'' ''/'' False]"
  "sm_tabs store2 = [''tab-t'' \<mapsto> (new_tab ''tab-t'' ''Shell'')\<lparr>t_ProjectID := ''proj-p'', t_Panes := [''pane-a'']\<rparr>]"
  "sm_activeTab store2 = ''tab-t''"
  "sm_projects store2 = [''proj-p'' \<mapsto> \<lparr>j_ID = ''proj-p'', j_Name = ''Default'', j_RootDir = ''/'', j_TabIDs = [''tab-t''],
     j_ActiveTab = ''tab-t'', j_Bootstrap = True, j_Group = []\<rparr>]"
  by (simp_all add: store2_def createPane_def store1_sel Let_def new_tab_def)
    (simp_all add: store1_def CreateTabInProject_def createTabLocked_def tabProject_def NewSessionManager_def Let_def)

text \<open>The same with a second, empty tab.\<close>

definition store3 :: session where
  "store3 = fst (CreateTabInProject store2 ''proj-p'' ''Two'' ''q'' ''u'' ''/'')"

lemma store3_inv: "session_inv store3"
proof -
  obtain sm' i where c: "CreateTabInProject store2 ''proj-p'' ''Two'' ''q'' ''u'' ''/'' = (sm', i)" by fastforce
  have "session_step (map ascii_lower) store2 sm'"
    by (rule createTab [OF _ _ c]) (simp_all add: store2_sel)
  then show ?thesis using session_step_inv store2_inv c by (simp add: store3_def)
qed

lemma store3_sel: "sm_panes store3 = [''pane-a'' \<mapsto> mk_pane store1 ''pane-a'' ''tab-t'' ''/'' False]"
  "sm_tabs store3 ''tab-t'' = Some ((new_tab ''tab-t'' ''Shell'')\<lparr>t_ProjectID := ''proj-p'', t_Panes := [''pane-a'']\<rparr>)"
  "sm_tabs store3 ''tab-u'' = Some ((new_tab ''tab-u'' ''Two'')\<lparr>t_ProjectID := ''proj-p''\<rparr>)"
  "sm_activeTab store3 = ''tab-t''"
  "sm_projects store3 ''proj-p'' = Some \<lparr>j_ID = ''proj-p'', j_Name = ''Default'', j_RootDir = ''/'',
     j_TabIDs = [''tab-t'', ''tab-u''], j_ActiveTab = ''tab-t'', j_Bootstrap = True, j_Group = []\<rparr>"
  by (simp_all add: store3_def CreateTabInProject_def createTabLocked_def tabProject_def store2_sel Let_def)

text \<open>C4. Along every run of store operations from an empty store, in any order and with any
  arguments, the store's invariant holds: both sides of the pane-tab and the tab-project links
  agree and repeat nothing, the two order lists hold exactly the live ids, a project's tabs appear
  in the global order exactly in the project's own order, every stored layout tree names each of
  its panes once and only live panes of its own tab, the overlay slot names a pane of the tab, and
  the active tab, the active project and every project's remembered tab exist.\<close>

theorem store_invariant:
  assumes "(session_step lower)\<^sup>*\<^sup>* (NewSessionManager n) sm"
  shows "session_inv sm"
  using assms store.reachable_inv by blast

theorem store_invariant_witness: "session_inv store1"
proof (rule store_invariant [of "map ascii_lower" 16])
  obtain sm' i where c: "CreateTabInProject (NewSessionManager 16) [] ''Shell'' ''p'' ''t'' ''/'' = (sm', i)" by fastforce
  have "session_step (map ascii_lower) (NewSessionManager 16) sm'"
    by (rule createTab [OF _ _ c]) (simp_all add: NewSessionManager_def)
  then show "(session_step (map ascii_lower))\<^sup>*\<^sup>* (NewSessionManager 16) store1" using c by (simp add: store1_def)
qed



text \<open>A layout write is a compare-and-store. With a base other than the tab's revision it is
  refused and changes nothing. Otherwise the revision goes up by one (at 64 bits) and what is
  stored is a valid tree whose leaves are exactly the tab's live tree panes, each once, whatever
  the client sent; a tree that was already so is stored as the client's own document.\<close>

theorem SetTabLayout_correct:
  assumes inv: "session_inv sm" and tab: "sm_tabs sm t = Some tab"
    and depth: "length (treePanesLocked sm tab) \<le> maxNestingDepth"
  shows "(base \<noteq> None \<and> base \<noteq> Some (t_LayoutRev tab) \<longrightarrow> SetTabLayout sm t raw base = Ret (sm, layoutStale))
    \<and> (base = None \<or> base = Some (t_LayoutRev tab) \<longrightarrow>
        (\<exists>tab'. SetTabLayout sm t raw base = Ret (sm\<lparr>sm_tabs := (sm_tabs sm)(t \<mapsto> tab')\<rparr>, layoutStored)
          \<and> t_LayoutRev tab' = t_LayoutRev tab + 1 \<and> t_Panes tab' = t_Panes tab
          \<and> (treePanesLocked sm tab = [] \<longrightarrow> t_Layout tab' = Raw_Nil)
          \<and> (treePanesLocked sm tab \<noteq> [] \<longrightarrow> valid_tree (tree_of (t_Layout tab')) \<and> distinct (tab_leaves tab')
               \<and> set (tab_leaves tab') = set (treePanesLocked sm tab))
          \<and> (\<forall>n. Parse raw = Some n \<and> n \<noteq> None \<and> valid_tree n \<and> distinct (PaneIDs n)
               \<and> set (PaneIDs n) = set (treePanesLocked sm tab) \<longrightarrow> t_Layout tab' = raw)))"
proof -
  note P = session_invD(1) [OF inv]
  show ?thesis
  proof (cases "base = None \<or> base = Some (t_LayoutRev tab)")
    case True
    from validLayout_Ret [OF pane_inv_nonempty [OF P tab] pane_inv_distinct [OF P tab], of sm raw] depth
    obtain raw' where r: "validLayoutLocked sm tab raw = Ret raw'"
      "treePanesLocked sm tab \<noteq> [] \<Longrightarrow> valid_tree (tree_of raw') \<and> distinct (PaneIDs (tree_of raw'))
         \<and> set (PaneIDs (tree_of raw')) = set (treePanesLocked sm tab)" by metis
    let ?tab = "settleTemplateLocked (tab\<lparr>t_Layout := raw', t_LayoutRev := t_LayoutRev tab + 1\<rparr>)"
    have "SetTabLayout sm t raw base = Ret (sm\<lparr>sm_tabs := (sm_tabs sm)(t \<mapsto> ?tab)\<rparr>, layoutStored)"
      using True tab r(1) by (auto simp: SetTabLayout_def)
    moreover have "treePanesLocked sm tab = [] \<Longrightarrow> raw' = Raw_Nil"
      using validLayout_none [of sm tab raw] r(1) by simp
    moreover have "raw' = raw" if "Parse raw = Some n" "n \<noteq> None" "valid_tree n" "distinct (PaneIDs n)"
        "set (PaneIDs n) = set (treePanesLocked sm tab)" for n
      using validLayout_keeps [of raw n sm tab] that r(1) by simp
    ultimately show ?thesis
      using True r(2) by (auto simp: tab_leaves_def intro!: exI [of _ ?tab])
  qed (use tab in \<open>auto simp: SetTabLayout_def\<close>)
qed

theorem SetTabLayout_correct_witness:
  "SetTabLayout store2 ''tab-t'' Raw_Malformed (Some 7) = Ret (store2, layoutStale)"
  using SetTabLayout_correct [OF store2_inv, of "''tab-t''" _ "Some 7" Raw_Malformed]
  by (simp add: store2_sel treePanesLocked_def maxNestingDepth_def new_tab_def)

text \<open>Publishing a pane is atomic. It fails leaving the store as it was, reuses the tab's
  overlay leaving the store as it was, or succeeds with the pane live in the slot's tab; in every
  case the invariant holds, so membership, layout tree and overlay slot agree at once.\<close>

theorem PublishPane_atomic:
  assumes "session_inv sm" "sm_panes sm (p_ID p) = None" "fits p slot"
  shows "\<exists>sm' r. PublishPane sm p slot = Ret (sm', r) \<and> session_inv sm'
    \<and> (case r of None \<Rightarrow> sm' = sm
       | Some res \<Rightarrow> if r_Reused res then sm' = sm
           else sm_panes sm' (p_ID p) = Some (p\<lparr>p_TabID := s_TabID slot\<rparr>))"
proof -
  have "published sm p (s_TabID slot) (PublishPane sm p slot)"
    using PublishPane_published [OF session_invD(1) [OF assms(1)] assms(2,3)] .
  then obtain sm' r where "PublishPane sm p slot = Ret (sm', r)" "pinv sm'"
      "case r of None \<Rightarrow> sm' = sm
       | Some res \<Rightarrow> if r_Reused res then sm' = sm else sm_panes sm' (p_ID p) = Some (p\<lparr>p_TabID := s_TabID slot\<rparr>)"
    unfolding published_def by blast
  with same_projects_inv [OF assms(1) PublishPane_same] show ?thesis by blast
qed

theorem PublishPane_atomic_witness:
  "\<exists>sm' r. PublishPane store2 (NewPane store2 ''/'' ''b'') \<lparr>s_TabID = ''tab-t'', s_Split = True,
      s_TargetID = [], s_Dir = Vertical, s_ReplaceID = [], s_OverlayKey = []\<rparr> = Ret (sm', r) \<and> session_inv sm'"
  using PublishPane_atomic [OF store2_inv, of "NewPane store2 ''/'' ''b''" "\<lparr>s_TabID = ''tab-t'', s_Split = True,
      s_TargetID = [], s_Dir = Vertical, s_ReplaceID = [], s_OverlayKey = []\<rparr>"]
  by (auto simp: fits_def NewPane_def store2_sel)

text \<open>A conditional destroy destroys a tab exactly when the caller's list is a rearrangement
  of the tab's panes, and hands back exactly those panes; otherwise it changes nothing. After a
  destroy the store has neither the tab nor its panes, and the invariant holds.\<close>

theorem DestroyTabIfPanes_correct:
  assumes inv: "session_inv sm" and tab: "sm_tabs sm t = Some tab"
  shows "if mset (t_Panes tab) = mset want
    then \<exists>sm' ps. DestroyTabIfPanes sm t want = Some (sm', ps, True) \<and> session_inv sm'
      \<and> sm_tabs sm' = (sm_tabs sm)(t := None) \<and> sm_panes sm' = sm_panes sm |` (- set (t_Panes tab))
      \<and> map p_ID ps = t_Panes tab \<and> t \<notin> set (sm_tabOrder sm')
    else DestroyTabIfPanes sm t want = Some (sm, [], False)"
proof -
  note P = session_invD [OF inv]
  obtain sm' ps where d: "destroyTabLocked sm tab = (sm', ps)" by fastforce
  note D = destroyTab_inv [OF inv tab d]
  have "sm_tabs sm' t = None" using D(3) by simp
  then have "t \<notin> set (sm_tabOrder sm')"
    using struct_order(2) [OF session_invD(2) [OF D(1)], of t] by (simp add: owner_at)
  then show ?thesis
    using tab d D live_panes_all(1) [OF P(1) tab] live_filter [OF P(1) tab]
    by (auto simp: DestroyTabIfPanes_def Let_def sameStringSet_iff)
qed

theorem DestroyTabIfPanes_correct_witness:
  "DestroyTabIfPanes store2 ''tab-t'' [] = Some (store2, [], False)"
  using DestroyTabIfPanes_correct [OF store2_inv, of "''tab-t''" _ "[]"] by (simp add: store2_sel new_tab_def)

text \<open>Closing the active tab selects a tab of the same project as long as the project has
  one left, and any live tab otherwise; closing another tab leaves the selection alone.\<close>

theorem DestroyTab_successor:
  assumes inv: "session_inv sm" and tab: "sm_tabs sm t = Some tab" "sm_projects sm (t_ProjectID tab) = Some p"
    and d: "DestroyTab sm t = Some (sm', ps)"
  shows "if sm_activeTab sm \<noteq> t then sm_activeTab sm' = sm_activeTab sm
    else if set (j_TabIDs p) - {t} \<noteq> {} then sm_activeTab sm' \<in> set (j_TabIDs p) - {t}
    else sm_activeTab sm' = [] \<or> sm_tabs sm' (sm_activeTab sm') \<noteq> None"
proof -
  have id: "t_ID tab = t" and p: "t \<in> set (j_TabIDs p)" "distinct (j_TabIDs p)"
    using inv_tab [OF inv tab(1)] tab(2) by auto
  have d': "destroyTabLocked sm tab = (sm', ps)" using d tab by (simp add: DestroyTab_def)
  have "session_inv sm'" using destroyTab_inv(1) [OF inv tab(1) d'] .
  then have act: "sm_activeTab sm' = [] \<or> sm_tabs sm' (sm_activeTab sm') \<noteq> None"
    using session_invD(4) by (auto simp: active_inv_def)
  have nil: "[] \<notin> set (j_TabIDs p)"
    using struct_mem [OF session_invD(2) [OF inv] tab(2), of "[]"] pane_inv_tab [OF session_invD(1) [OF inv], of "[]"]
    by (auto simp: owner_at tab_ok_def)
  let ?s = "neighbour (j_TabIDs p) t"
  have a: "sm_activeTab sm' = (if sm_activeTab sm = t
      then (if ?s = [] \<and> remove1 t (sm_tabOrder sm) \<noteq> [] then hd (remove1 t (sm_tabOrder sm)) else ?s) else sm_activeTab sm)"
    using d' id tab(2) by (auto simp: destroyTabLocked_def Let_def split: prod.splits)
  show ?thesis
  proof (cases "set (j_TabIDs p) - {t} \<noteq> {}")
    case True
    then have "remove1 t (j_TabIDs p) \<noteq> []" using p(2) by (metis set_remove1_eq set_empty)
    then have "?s \<in> set (j_TabIDs p) - {t}" using neighbour_mem [of "j_TabIDs p" t] p(2) by auto
    moreover from this nil have "?s \<noteq> []" by auto
    ultimately show ?thesis using a True by simp
  next
    case False
    then show ?thesis using act a by auto
  qed
qed

theorem DestroyTab_successor_witness:
  "sm_activeTab store3 = ''tab-t'' \<and> sm_activeTab (fst (the (DestroyTab store3 ''tab-t''))) = ''tab-u''"
proof -
  obtain sm' ps where d: "DestroyTab store3 ''tab-t'' = Some (sm', ps)"
    by (cases "DestroyTab store3 ''tab-t''") (auto simp: DestroyTab_def store3_sel)
  from DestroyTab_successor [OF store3_inv _ _ d, of "the (sm_tabs store3 ''tab-t'')" "the (sm_projects store3 ''proj-p'')"] d
  show ?thesis
    by (simp add: store3_sel new_tab_def)
qed

text \<open>A pane that can move moves, and nothing else does: it leaves its tab's list and tree,
  arrives at the END of the target's list, and names the target; it is not in the source's tree
  any more; no other tab and no other pane changes. A move to its own tab, of an unknown pane, to
  an unknown tab, or to or from a template tab not laid out yet changes nothing.\<close>

theorem MovePane_correct:
  assumes inv: "session_inv sm" and p: "sm_panes sm i = Some p" and s: "sm_tabs sm (p_TabID p) = Some src"
    and d: "sm_tabs sm t = Some dst"
  shows "if p_TabID p = t \<or> template_pending src \<or> template_pending dst
    then \<exists>r. MovePane sm i t = Ret (sm, [], r) \<and> r \<noteq> movePaneMoved
    else \<exists>sm' src' dst'. MovePane sm i t = Ret (sm', p_TabID p, movePaneMoved) \<and> session_inv sm'
      \<and> sm_tabs sm' = (sm_tabs sm)(p_TabID p \<mapsto> src', t \<mapsto> dst')
      \<and> sm_panes sm' = (sm_panes sm)(i \<mapsto> p\<lparr>p_TabID := t\<rparr>)
      \<and> t_Panes src' = remove1 i (t_Panes src) \<and> t_Panes dst' = t_Panes dst @ [i]
      \<and> i \<notin> set (tab_leaves src') \<and> i \<notin> set (t_Panes src')"
proof (cases "p_TabID p = t \<or> template_pending src \<or> template_pending dst")
  case True
  then show ?thesis using p s d by (auto simp: MovePane_def Let_def)
next
  case False
  note P = session_invD [OF inv]
  obtain sm' x r where M: "MovePane sm i t = Ret (sm', x, r)" "pinv sm'" using MovePane_outcome [OF P(1)] by metis
  have inv': "session_inv sm'" using session_step_inv [OF movePane [OF M(1)] inv] .
  have ni: "i \<notin> set (t_Panes dst)" using pane_inv_mem [OF P(1) d, of i] p False by auto
  let ?src = "clear_overlay (pruneTreeLocked (src\<lparr>t_Panes := removeString (t_Panes src) i\<rparr>) i) i"
  let ?tabs = "(sm_tabs sm)(p_TabID p \<mapsto> ?src)"
  let ?d1 = "dst\<lparr>t_Panes := t_Panes dst @ [i]\<rparr>"
  define X where "X = (if p_treeless p then Ret ?d1 else placeMovedLocked (sm\<lparr>sm_tabs := ?tabs(t \<mapsto> ?d1)\<rparr>) ?d1 i)"
  have "MovePane sm i t = obind X (\<lambda>d2. Ret (sm\<lparr>sm_tabs := ?tabs(t \<mapsto> d2),
      sm_panes := (sm_panes sm)(i \<mapsto> p\<lparr>p_TabID := t\<rparr>)\<rparr>, p_TabID p, movePaneMoved))"
    using False p s d ni by (simp add: MovePane_def Let_def X_def indexOfString_neg)
  with M(1) obtain d2 where d2: "X = Ret d2"
      "sm' = sm\<lparr>sm_tabs := ?tabs(t \<mapsto> d2), sm_panes := (sm_panes sm)(i \<mapsto> p\<lparr>p_TabID := t\<rparr>)\<rparr>"
      "x = p_TabID p" "r = movePaneMoved" by (auto simp: obind_eq_Ret)
  have l2: "t_Panes d2 = t_Panes dst @ [i]"
    using d2(1) by (auto simp: X_def placeMovedLocked_def obind_eq_Ret split: prod.splits if_splits)
  have dist: "distinct (t_Panes src)" using pane_inv_distinct [OF P(1) s] .
  have "tab_ok (sm_panes sm') (p_TabID p) ?src"
    using M(2) d2(2) False by (intro pane_inv_tab [of "sm_tabs sm'"]) auto
  then have "set (tab_leaves ?src) \<subseteq> set (t_Panes ?src)"
    by (auto simp: tab_ok_def leaves_ok_def tree_set_def)
  then have "i \<notin> set (tab_leaves ?src)" "i \<notin> set (t_Panes ?src)" using dist by auto
  moreover have "sm_tabs sm' = (sm_tabs sm)(p_TabID p \<mapsto> ?src, t \<mapsto> d2)"
      "sm_panes sm' = (sm_panes sm)(i \<mapsto> p\<lparr>p_TabID := t\<rparr>)"
    using d2(2) by simp_all
  moreover have "MovePane sm i t = Ret (sm', p_TabID p, movePaneMoved)" using M(1) d2(3,4) by simp
  moreover have "t_Panes ?src = remove1 i (t_Panes src)" by simp
  ultimately show ?thesis using inv' l2 unfolding if_not_P [OF False] by blast
qed

theorem MovePane_correct_witness:
  "\<exists>sm' dst. MovePane store3 ''pane-a'' ''tab-u'' = Ret (sm', ''tab-t'', movePaneMoved)
    \<and> sm_tabs sm' ''tab-u'' = Some dst \<and> t_Panes dst = [''pane-a'']"
proof -
  have "sm_panes store3 ''pane-a'' = Some (mk_pane store1 ''pane-a'' ''tab-t'' ''/'' False)" by (simp add: store3_sel)
  from MovePane_correct [OF store3_inv this, of "the (sm_tabs store3 ''tab-t'')" "''tab-u''" "the (sm_tabs store3 ''tab-u'')"]
  show ?thesis by (auto simp: store3_sel template_pending_def new_tab_def)
qed

text \<open>Destroying a project removes exactly it, its tabs and their panes, hands back exactly
  those panes in tab order, and leaves the global selection on a tab of the project that is active
  afterwards, or on none.\<close>

theorem DestroyProject_correct:
  assumes inv: "session_inv sm" and p: "sm_projects sm q = Some p" and d: "DestroyProject sm q = (sm', ps)"
  shows "session_inv sm' \<and> sm_projects sm' = (sm_projects sm)(q := None)
    \<and> sm_tabs sm' = sm_tabs sm |` (- set (j_TabIDs p)) \<and> ps = concat (map (Panes sm) (j_TabIDs p))
    \<and> (\<forall>i x. sm_panes sm' i = Some x \<longrightarrow> p_TabID x \<notin> set (j_TabIDs p))
    \<and> (sm_activeTab sm' \<noteq> [] \<longrightarrow> (\<exists>a. sm_projects sm' (sm_activeProject sm') = Some a \<and> sm_activeTab sm' \<in> set (j_TabIDs a)))"
proof -
  note D = DestroyProject_inv [OF inv d]
  note E = D(2) [OF p]
  have "p_TabID x \<notin> set (j_TabIDs p)" if x: "sm_panes sm' i = Some x" for i x
  proof -
    obtain tab where "sm_tabs sm' (p_TabID x) = Some tab" using pane_inv_parent [OF session_invD(1) [OF D(1)] x] by blast
    moreover have "sm_tabs sm' = sm_tabs sm |` (- set (j_TabIDs p))" using E by blast
    ultimately show ?thesis by (auto simp: restrict_map_def split: if_splits)
  qed
  with D(1) E show ?thesis by blast
qed

theorem DestroyProject_correct_witness:
  "sm_tabs (fst (DestroyProject store2 ''proj-p'')) ''tab-t'' = None"
  using DestroyProject_correct [OF store2_inv, of "''proj-p''" "the (sm_projects store2 ''proj-p'')"
      "fst (DestroyProject store2 ''proj-p'')" "snd (DestroyProject store2 ''proj-p'')"]
  by (simp add: store2_sel restrict_map_def)

text \<open>C6. The search for a free project name returns, for any names already taken, after at most
  one more candidate than there are names: the trimmed name itself when it is free, otherwise it
  with the lowest numeric suffix that is. What it returns collides with no taken name, compared
  after trimming and lower-casing.\<close>

theorem uniqueProjectName_free:
  assumes "lower_ok lower"
  shows "\<exists>nm. uniqueProjectName lower taken want = Some nm
    \<and> norm_name lower nm \<notin> norm_name lower ` set taken
    \<and> (nm = TrimSpace want \<or> (\<exists>m. 2 \<le> m \<and> m \<le> length taken + 2 \<and> nm = candidate (TrimSpace want) m
        \<and> (\<forall>k. 2 \<le> k \<longrightarrow> k < m \<longrightarrow> norm_name lower (candidate (TrimSpace want) k) \<in> norm_name lower ` set taken)))"
  by (rule uniqueProjectName_Some [OF assms, of taken want]) blast

theorem uniqueProjectName_free_witness:
  "\<exists>nm. uniqueProjectName (map ascii_lower) [''infra'', ''Infra (2)''] '' INFRA '' = Some nm
    \<and> norm_name (map ascii_lower) nm \<notin> norm_name (map ascii_lower) ` {''infra'', ''Infra (2)''}"
  using uniqueProjectName_free [OF ascii_lower_ok, of "[''infra'', ''Infra (2)'']" "'' INFRA ''"] by auto

text \<open>Merging projects loses nothing: every pane is as it was, every tab survives with at most
  its project changed, and only to the survivor; every absorbed project is gone, so its tabs are
  the survivor's; the invariant, with the order lists, holds.\<close>

theorem MergeProjects_loses_nothing:
  assumes inv: "session_inv sm" and q: "sm_projects sm into \<noteq> None"
    and m: "MergeProjects lower sm keys into absorb name = Some (sm', ok)"
  shows "session_inv sm' \<and> sm_panes sm' = sm_panes sm
    \<and> (\<forall>i \<in> set absorb - {into}. sm_projects sm' i = None)
    \<and> (\<forall>t tab. sm_tabs sm t = Some tab \<longrightarrow>
        sm_tabs sm' t = Some (if t_ProjectID tab \<in> set absorb then tab\<lparr>t_ProjectID := into\<rparr> else tab)
        \<or> sm_tabs sm' t = Some (tab\<lparr>t_ProjectID := into\<rparr>))"
proof -
  define sm1 where "sm1 = mergeAll into absorb sm"
  have "sm_projects sm1 into \<noteq> None" using mergeAll_inv [OF inv q] by (simp add: sm1_def)
  then obtain d where d: "sm_projects sm1 into = Some d" by auto
  obtain nm where sm': "sm' = mergeActive into (sm1\<lparr>sm_projects := (sm_projects sm1)(into \<mapsto>
      d\<lparr>j_Name := nm, j_Bootstrap := False\<rparr>)\<rparr>)"
    using m q d by (auto simp: MergeProjects_def Let_def simp flip: sm1_def split: option.splits)
  have dom: "sm_projects sm' i = None \<longleftrightarrow> sm_projects sm1 i = None" for i
    using d by (auto simp: sm' mergeActive_def split: if_splits)
  have gone: "sm_projects sm' i = None" if "i \<in> set absorb" "i \<noteq> into" for i
    using mergeAll_projects(1) [OF that] by (simp add: dom sm1_def)
  have I: "session_inv sm'" "sm_panes sm' = sm_panes sm" using MergeProjects_inv [OF inv m] by blast+
  have tabs: "sm_tabs sm' t = Some (if t_ProjectID tab \<in> set absorb then tab\<lparr>t_ProjectID := into\<rparr> else tab)
        \<or> sm_tabs sm' t = Some (tab\<lparr>t_ProjectID := into\<rparr>)" if t: "sm_tabs sm t = Some tab" for t tab
  proof -
    have "sm_tabs sm' t \<in> {Some tab, Some (tab\<lparr>t_ProjectID := into\<rparr>)}"
      using mergeAll_tabs [OF t, of into absorb] by (simp add: sm' sm1_def)
    moreover have "t_ProjectID tab \<notin> set absorb \<or> t_ProjectID tab = into" if same: "sm_tabs sm' t = Some tab"
    proof -
      obtain q where "sm_projects sm' (t_ProjectID tab) = Some q" using inv_tab [OF I(1) same] by metis
      then show ?thesis using gone [of "t_ProjectID tab"] by auto
    qed
    moreover have "tab\<lparr>t_ProjectID := into\<rparr> = tab" if "t_ProjectID tab = into" using that by simp
    ultimately show ?thesis by auto
  qed
  show ?thesis using I gone tabs by blast
qed

theorem MergeProjects_loses_nothing_witness:
  "\<exists>sm'. MergeProjects (map ascii_lower) store2 [''proj-p''] ''proj-p'' [] ''host'' = Some (sm', True)
     \<and> sm_panes sm' = sm_panes store2"
proof -
  obtain nm where "uniqueProjectName (map ascii_lower) (projectNamesExcept store2 [''proj-p''] ''proj-p'') ''host'' = Some nm"
    using uniqueProjectName_Some [OF ascii_lower_ok] by metis
  then obtain sm' where m: "MergeProjects (map ascii_lower) store2 [''proj-p''] ''proj-p'' [] ''host'' = Some (sm', True)"
    by (auto simp: MergeProjects_def store2_sel(4))
  with MergeProjects_loses_nothing [OF store2_inv _ m] show ?thesis by (auto simp: store2_sel(4))
qed

lemma index_insert_at:
  assumes "t \<in> set xs" "distinct xs"
  shows "indexOfString (insert_at (clamp_index k (length xs)) t (remove1 t xs)) t = int (clamp_index k (length xs))"
proof -
  let ?c = "clamp_index k (length xs)"
  have "?c \<le> length (remove1 t xs)" using assms(1) by (auto simp: clamp_index_def length_remove1)
  moreover have "t \<notin> set (take ?c (remove1 t xs))" using assms(2) by (auto dest!: in_set_takeD)
  ultimately show ?thesis
    using indexOfString_at [of "insert_at ?c t (remove1 t xs)" "take ?c (remove1 t xs)" t "drop ?c (remove1 t xs)"]
    by (simp add: insert_at_def)
qed

text \<open>Dragging a tab puts it at the requested place of its own project's list, clamped to the
  list, with the other tabs of the project in their order; the global order restricted to the
  project follows, and restricted to any set of other tabs it stays as it was. The reported result
  says whether the store changed.\<close>

theorem ReorderTab_correct:
  assumes inv: "session_inv sm" and t: "sm_tabs sm t = Some tab" "sm_projects sm (t_ProjectID tab) = Some p"
    and r: "ReorderTab sm t k = (sm', moved)"
  shows "\<exists>p'. sm_projects sm' = (sm_projects sm)(t_ProjectID tab \<mapsto> p')
    \<and> j_TabIDs p' = insert_at (clamp_index k (length (j_TabIDs p))) t (remove1 t (j_TabIDs p))
    \<and> filter (\<lambda>u. u \<in> set (j_TabIDs p')) (sm_tabOrder sm') = j_TabIDs p'
    \<and> (\<forall>U. t \<notin> U \<longrightarrow> filter (\<lambda>u. u \<in> U) (sm_tabOrder sm') = filter (\<lambda>u. u \<in> U) (sm_tabOrder sm))
    \<and> (moved \<longleftrightarrow> sm' \<noteq> sm)"
proof -
  note P = session_invD [OF inv]
  have p: "t \<in> set (j_TabIDs p)" "distinct (j_TabIDs p)" using inv_tab [OF inv t(1)] t(2) by auto
  define c where "c = clamp_index k (length (j_TabIDs p))"
  define l where "l = insert_at c t (remove1 t (j_TabIDs p))"
  have inv': "session_inv sm'" using ReorderTab_inv [OF inv, of t k] r by simp
  show ?thesis
  proof (cases "indexOfString (j_TabIDs p) t = int c")
    case True
    then have sm': "sm' = sm" "\<not> moved"
      using r t p by (simp_all add: ReorderTab_def indexOfString_neg slideString_eq flip: c_def)
    obtain ys zs where yz: "j_TabIDs p = ys @ t # zs" "t \<notin> set ys" "indexOfString (j_TabIDs p) t = int (length ys)"
      using indexOfString_cases [of "j_TabIDs p" t] p(1) by auto
    then have "insert_at c t (remove1 t (j_TabIDs p)) = j_TabIDs p"
      using True insert_at_same [OF yz(1,2)] by simp
    then show ?thesis
      using sm' t(2) struct_filter [OF P(2) t(2)] by (intro exI [of _ p]) (auto simp: c_def)
  next
    case False
    have sm': "sm' = sm\<lparr>sm_projects := (sm_projects sm)(t_ProjectID tab \<mapsto> p\<lparr>j_TabIDs := l\<rparr>),
        sm_tabOrder := reanchorTab (sm_tabOrder sm) l t\<rparr>" "moved"
      using r t p False by (simp_all add: ReorderTab_def indexOfString_neg slideString_eq l_def flip: c_def)
    have tl: "t \<in> set l" by (simp add: l_def)
    have "filter (\<lambda>u. u \<in> set l) (sm_tabOrder sm') = l"
      using struct_filter [OF session_invD(2) [OF inv'], of "t_ProjectID tab" "p\<lparr>j_TabIDs := l\<rparr>"] by (simp add: sm')
    moreover have "filter (\<lambda>u. u \<in> U) (sm_tabOrder sm') = filter (\<lambda>u. u \<in> U) (sm_tabOrder sm)" if "t \<notin> U" for U
      using reanchor_filter_other [OF tl, of "\<lambda>u. u \<in> U"] that struct_order(1) [OF P(2)] by (simp add: sm')
    moreover have "l \<noteq> j_TabIDs p"
    proof
      assume "l = j_TabIDs p"
      then show False using False index_insert_at [OF p, of k] by (simp add: l_def c_def)
    qed
    then have "sm_projects sm' (t_ProjectID tab) \<noteq> sm_projects sm (t_ProjectID tab)"
      using t(2) by (auto simp: sm' dest: arg_cong [where f = j_TabIDs])
    then have "sm' \<noteq> sm" by auto
    ultimately show ?thesis
      using sm' by (intro exI [of _ "p\<lparr>j_TabIDs := l\<rparr>"]) (simp add: l_def c_def)
  qed
qed

theorem ReorderTab_correct_witness:
  "\<exists>p. sm_projects (fst (ReorderTab store3 ''tab-t'' 5)) ''proj-p'' = Some p \<and> j_TabIDs p = [''tab-u'', ''tab-t'']"
proof -
  let ?tab = "(new_tab ''tab-t'' ''Shell'')\<lparr>t_ProjectID := ''proj-p'', t_Panes := [''pane-a'']\<rparr>"
  have q: "sm_projects store3 (t_ProjectID ?tab) = Some (the (sm_projects store3 ''proj-p''))" by (simp add: store3_sel)
  have r: "ReorderTab store3 ''tab-t'' 5 = (fst (ReorderTab store3 ''tab-t'' 5), snd (ReorderTab store3 ''tab-t'' 5))" by simp
  from ReorderTab_correct [OF store3_inv store3_sel(2) q r]
  show ?thesis by (elim exE conjE) (simp add: store3_sel clamp_index_def insert_at_def)
qed



end
