(* ===== verification/Go_Lib.thy ===== *)
theory Go_Lib
  imports Quil_Prelude "HOL-Library.AList"
begin

text \<open>
  What the components use of Go's language and standard library beyond the prelude: string maps
  (an association list; \<open>None\<close> is the nil map), 64-bit signed arithmetic with its wrap-around, and
  \<open>strconv.Atoi\<close> and \<open>strconv.Itoa\<close>, from the language's documentation.
\<close>

section \<open>Maps of strings\<close>

type_synonym go_map = "(string \<times> string) list option"

definition lookup :: "go_map \<Rightarrow> string \<Rightarrow> string" where
  "lookup m k = (case m of None \<Rightarrow> [] | Some kvs \<Rightarrow> (case map_of kvs k of None \<Rightarrow> [] | Some v \<Rightarrow> v))"

definition entries :: "go_map \<Rightarrow> (string \<times> string) list" where
  "entries m = (case m of None \<Rightarrow> [] | Some kvs \<Rightarrow> kvs)"

lemma lookup_update: "lookup (Some (AList.update k v kvs)) k' = (if k' = k then v else lookup (Some kvs) k')"
  by (simp add: lookup_def update_conv')

lemma map_of_map_value: "map_of (map (\<lambda>(k, v). (k, f v)) kvs) k = map_option f (map_of kvs k)"
  by (induction kvs) auto

lemma disjoint_mono: "A \<inter> B = {} \<Longrightarrow> C \<subseteq> B \<Longrightarrow> A \<inter> C = {}"
  by blast

lemma subseq_distinct: "subseq xs ys \<Longrightarrow> distinct ys \<Longrightarrow> distinct xs"
  by (induction rule: list_emb.induct) (auto dest: list_emb_set)

lemma subseq_remove1: "subseq (remove1 x xs) xs"
  by (induction xs) auto

section \<open>Decimal integers\<close>

text \<open>\<open>strconv.Atoi\<close> on a 64-bit platform (\<open>None\<close> is an error) and \<open>strconv.Itoa\<close>.\<close>

definition is_digit :: "char \<Rightarrow> bool" where
  "is_digit c = (let n = of_char c :: nat in 48 \<le> n \<and> n \<le> 57)"

definition int64_max :: int where "int64_max = 2 ^ 63 - 1"

definition in_int64 :: "int \<Rightarrow> bool" where
  "in_int64 i \<longleftrightarrow> - (2 ^ 63) \<le> i \<and> i \<le> int64_max"

definition digits_int :: "string \<Rightarrow> int option" where
  "digits_int s = (if s \<noteq> [] \<and> list_all is_digit s then Some (int (digits_value s)) else None)"

definition Atoi :: "string \<Rightarrow> int option" where
  "Atoi s = (let v = (case s of [] \<Rightarrow> None
      | c # cs \<Rightarrow> if c = CHR ''-'' then map_option uminus (digits_int cs)
                  else if c = CHR ''+'' then digits_int cs else digits_int s)
    in case v of Some i \<Rightarrow> (if in_int64 i then Some i else None) | None \<Rightarrow> None)"

definition Itoa :: "int \<Rightarrow> string" where
  "Itoa i = (if i < 0 then CHR ''-'' # decimal (nat (- i)) else decimal (nat i))"

text \<open>\<open>count++\<close> on an \<open>int\<close>.\<close>

definition incr64 :: "int \<Rightarrow> int" where
  "incr64 i = (if i = int64_max then - (2 ^ 63) else i + 1)"

lemma Atoi_Itoa: "0 \<le> i \<Longrightarrow> i \<le> int64_max \<Longrightarrow> Atoi (Itoa i) = Some i"
proof -
  assume h: "0 \<le> i" "i \<le> int64_max"
  have dig: "is_digit c" if "c \<in> set (decimal n)" for c n
    using decimal_digits [OF that] by (auto simp: is_digit_def of_char_of)
  obtain c cs where d: "decimal (nat i) = c # cs" using decimal_nonempty by (cases "decimal (nat i)") auto
  have "is_digit c" using dig [of c "nat i"] d by simp
  then have "c \<noteq> CHR ''-''" "c \<noteq> CHR ''+''" by (auto simp: is_digit_def)
  moreover have "digits_int (c # cs) = Some i"
    unfolding d [symmetric] digits_int_def using h by (simp add: list_all_iff dig)
  ultimately show ?thesis
    using h by (simp add: Atoi_def Itoa_def d in_int64_def)
qed

text \<open>Addition and subtraction on an \<open>int\<close>.\<close>

definition wrap64 :: "int \<Rightarrow> int" where
  "wrap64 i = (i + 2 ^ 63) mod 2 ^ 64 - 2 ^ 63"

lemma wrap64_id [simp]: "in_int64 i \<Longrightarrow> wrap64 i = i"
  by (simp add: wrap64_def in_int64_def int64_max_def)

lemma wrap64_range: "in_int64 (wrap64 i)"
proof -
  have "0 \<le> (i + 2 ^ 63) mod 2 ^ 64" "(i + 2 ^ 63) mod 2 ^ 64 < 2 ^ 64" by simp_all
  then show ?thesis by (simp add: wrap64_def in_int64_def int64_max_def)
qed

lemma incr64_wrap: "in_int64 i \<Longrightarrow> incr64 i = wrap64 (i + 1)"
  by (cases "i = int64_max") (simp_all add: incr64_def in_int64_def int64_max_def wrap64_def)

end
