(* ===== verification/Event_Queue.thy ===== *)
theory Event_Queue
  imports Go_Lib Transition
begin

text \<open>
  The notification queue of the daemon (\<open>internal/daemon/event.go\<close>): a bounded list of pane
  events, newest first, that folds a repeated event of the same pane and title into one entry with
  a count; one-shot watchers that a request blocks on; and the size caps applied when an event
  leaves for a client.

  A watcher is a pointer: \<open>objs\<close> is the
  heap of watcher objects, and the channel of capacity one of each watcher is its \<open>buf\<close> and its
  \<open>closed\<close> flag. Sending on a closed channel and closing one twice panic. Timestamps are the milliseconds
  \<open>UnixMilli\<close> gives; the code compares nothing finer.
\<close>

section \<open>Data\<close>

record PaneEvent =
  ID :: string
  PaneID :: string
  TabID :: string
  PaneName :: string
  Type :: string
  Title :: string
  Message :: string
  Severity :: string
  Timestamp :: int
  Data :: go_map

record connWatcher =
  conn :: nat
  paneIDs :: "string list"
  buf :: "PaneEvent option"
  closed :: bool

record eventQueue =
  events :: "PaneEvent list"
  max_events :: nat
  watchers :: "nat list"
  objs :: "nat \<rightharpoonup> connWatcher"

definition newEventQueue :: "int \<Rightarrow> eventQueue" where
  "newEventQueue m = \<lparr>events = [], max_events = nat (if m \<le> 0 then 50 else m), watchers = [], objs = Map.empty\<rparr>"

section \<open>Pushing\<close>

text \<open>The queued count of an event: an absent, unreadable or non-positive count is one.\<close>

definition event_count :: "PaneEvent \<Rightarrow> int" where
  "event_count x = (case Data x of None \<Rightarrow> 1
     | Some kvs \<Rightarrow> (case Atoi (lookup (Data x) ''count'') of
         Some c \<Rightarrow> if 0 < c then c else 1 | None \<Rightarrow> 1))"

definition bump :: "PaneEvent \<Rightarrow> PaneEvent \<Rightarrow> PaneEvent" where
  "bump existing e = e\<lparr>ID := ID existing,
     Data := Some (AList.update ''count'' (Itoa (incr64 (event_count existing))) (entries (Data e)))\<rparr>"

fun aggregate :: "PaneEvent \<Rightarrow> PaneEvent list \<Rightarrow> PaneEvent \<times> PaneEvent list" where
  "aggregate e [] = (e, [])"
| "aggregate e (x # xs) =
     (if PaneID x = PaneID e \<and> Title x = Title e then (bump x e, xs)
      else (case aggregate e xs of (e', ys) \<Rightarrow> (e', x # ys)))"

definition matches :: "connWatcher \<Rightarrow> PaneEvent \<Rightarrow> bool" where
  "matches w e \<longleftrightarrow> paneIDs w = [] \<or> PaneID e \<in> set (paneIDs w)"

text \<open>The wake loop: a matching watcher gets the event unless its channel is full, and leaves the list.\<close>

fun wake :: "PaneEvent \<Rightarrow> (nat \<rightharpoonup> connWatcher) \<Rightarrow> nat list \<Rightarrow> (nat list \<times> (nat \<rightharpoonup> connWatcher)) outcome" where
  "wake e h [] = Ret ([], h)"
| "wake e h (w # ws) = (case h w of
     None \<Rightarrow> Panic
   | Some ob \<Rightarrow>
       if matches ob e
       then (if closed ob then Panic
             else wake e (h(w \<mapsto> ob\<lparr>buf := (case buf ob of None \<Rightarrow> Some e | Some b \<Rightarrow> Some b)\<rparr>)) ws)
       else obind (wake e h ws) (\<lambda>(remaining, h'). Ret (w # remaining, h')))"

definition push_events :: "nat \<Rightarrow> PaneEvent \<Rightarrow> PaneEvent list \<Rightarrow> PaneEvent \<times> PaneEvent list" where
  "push_events m e es =
    (let (e1, es1) = (if PaneID e \<noteq> [] \<and> Title e \<noteq> [] then aggregate e es else (e, es));
         es2 = e1 # es1
     in (e1, if length es2 > m then take m es2 else es2))"

definition Push :: "PaneEvent \<Rightarrow> eventQueue \<Rightarrow> (PaneEvent \<times> eventQueue) outcome" where
  "Push e q =
    (let (e1, es) = push_events (max_events q) e (events q) in
     obind (wake e1 (objs q) (watchers q)) (\<lambda>(remaining, h).
       Ret (e1, q\<lparr>events := es, watchers := remaining, objs := h\<rparr>)))"

section \<open>Dismissing and reading\<close>

fun remove_id :: "string \<Rightarrow> PaneEvent list \<Rightarrow> PaneEvent list" where
  "remove_id i [] = []"
| "remove_id i (x # xs) = (if ID x = i then xs else x # remove_id i xs)"

definition Dismiss :: "string \<Rightarrow> eventQueue \<Rightarrow> eventQueue" where
  "Dismiss i q = q\<lparr>events := remove_id i (events q)\<rparr>"

definition DismissAll :: "eventQueue \<Rightarrow> eventQueue" where
  "DismissAll q = q\<lparr>events := []\<rparr>"

definition Events :: "eventQueue \<Rightarrow> PaneEvent list" where
  "Events q = events q"

definition EventsOldestFirst :: "eventQueue \<Rightarrow> PaneEvent list" where
  "EventsOldestFirst q = map (\<lambda>i. events q ! (length (events q) - 1 - i)) [0..<length (events q)]"

fun find_since :: "int \<Rightarrow> string list \<Rightarrow> PaneEvent list \<Rightarrow> PaneEvent option" where
  "find_since t flt [] = None"
| "find_since t flt (e # es) =
     (if Timestamp e \<le> t then find_since t flt es
      else if flt \<noteq> [] \<and> PaneID e \<notin> set flt then find_since t flt es
      else Some e)"

definition FindSince :: "int \<Rightarrow> string list \<Rightarrow> eventQueue \<Rightarrow> PaneEvent option" where
  "FindSince t flt q = find_since t flt (rev (events q))"

definition Count :: "eventQueue \<Rightarrow> nat" where
  "Count q = length (events q)"

section \<open>Watchers\<close>

definition AddWatcher :: "nat \<Rightarrow> eventQueue \<Rightarrow> eventQueue" where
  "AddWatcher w q = q\<lparr>watchers := watchers q @ [w]\<rparr>"

definition RemoveWatcher :: "nat \<Rightarrow> eventQueue \<Rightarrow> eventQueue" where
  "RemoveWatcher w q = q\<lparr>watchers := remove1 w (watchers q)\<rparr>"

definition HasWatcher :: "nat \<Rightarrow> eventQueue \<Rightarrow> bool" where
  "HasWatcher c q = list_ex (\<lambda>w. case objs q w of Some ob \<Rightarrow> conn ob = c | None \<Rightarrow> False) (watchers q)"

fun close_conn :: "nat \<Rightarrow> (nat \<rightharpoonup> connWatcher) \<Rightarrow> nat list \<Rightarrow> (nat list \<times> (nat \<rightharpoonup> connWatcher)) outcome" where
  "close_conn c h [] = Ret ([], h)"
| "close_conn c h (w # ws) = (case h w of
     None \<Rightarrow> Panic
   | Some ob \<Rightarrow>
       if conn ob = c then (if closed ob then Panic else close_conn c (h(w \<mapsto> ob\<lparr>closed := True\<rparr>)) ws)
       else obind (close_conn c h ws) (\<lambda>(remaining, h'). Ret (w # remaining, h')))"

definition RemoveWatchersByConn :: "nat \<Rightarrow> eventQueue \<Rightarrow> eventQueue outcome" where
  "RemoveWatchersByConn c q =
    obind (close_conn c (objs q) (watchers q)) (\<lambda>(remaining, h). Ret (q\<lparr>watchers := remaining, objs := h\<rparr>))"

text \<open>
  The watch request (\<open>handleWatchNotificationsReq\<close>): catch up from the queue, else evict the
  connection's old watcher and register a new one. Its two halves take the lock separately;
  \<open>w\<close> is the address of the new watcher. What its goroutine does next is \<open>take_event\<close> when the
  channel has an event, \<open>RemoveWatcher\<close> on the timeout or the shutdown.
\<close>

definition watch_catchup :: "int \<Rightarrow> string list \<Rightarrow> eventQueue \<Rightarrow> PaneEvent option" where
  "watch_catchup since flt q = (if 0 < since then FindSince since flt q else None)"

definition watch_register :: "nat \<Rightarrow> nat \<Rightarrow> string list \<Rightarrow> eventQueue \<Rightarrow> eventQueue outcome" where
  "watch_register w c flt q = obind (RemoveWatchersByConn c q) (\<lambda>q1.
     Ret (AddWatcher w (q1\<lparr>objs := (objs q1)(w \<mapsto> \<lparr>conn = c, paneIDs = flt, buf = None, closed = False\<rparr>)\<rparr>)))"

definition take_event :: "nat \<Rightarrow> eventQueue \<Rightarrow> (PaneEvent \<times> eventQueue) option" where
  "take_event w q = (case objs q w of None \<Rightarrow> None
     | Some ob \<Rightarrow> (case buf ob of None \<Rightarrow> None
         | Some e \<Rightarrow> Some (e, q\<lparr>objs := (objs q)(w \<mapsto> ob\<lparr>buf := None\<rparr>)\<rparr>)))"

section \<open>The size caps of the wire\<close>

record PaneEventPayload =
  p_ID :: string
  p_PaneID :: string
  p_TabID :: string
  p_PaneName :: string
  p_Type :: string
  p_Title :: string
  p_Message :: string
  p_Severity :: string
  p_Timestamp :: int
  p_Data :: go_map

definition maxEventMessageBytes :: nat where "maxEventMessageBytes = 4096"
definition maxEventDataValueBytes :: nat where "maxEventDataValueBytes = 1024"

definition truncationMarker :: string where
  "truncationMarker = map char_of [226, 128, 166 :: nat] @ ''[truncated]''"

definition truncatedFlagKey :: string where "truncatedFlagKey = ''_quil_truncated''"

definition cut_message :: "string \<Rightarrow> string" where
  "cut_message msg = (if length msg > maxEventMessageBytes
     then truncationMarker @ drop (length msg - (maxEventMessageBytes - length truncationMarker)) msg
     else msg)"

definition cut_value :: "string \<Rightarrow> string" where
  "cut_value v = (if length v > maxEventDataValueBytes
     then take (maxEventDataValueBytes - length truncationMarker) v @ truncationMarker else v)"

definition toPaneEventPayload :: "PaneEvent \<Rightarrow> PaneEventPayload" where
  "toPaneEventPayload e =
    (let truncated = (length (Message e) > maxEventMessageBytes);
         data = (if entries (Data e) \<noteq> [] then Some (map (\<lambda>(k, v). (k, cut_value v)) (entries (Data e))) else None);
         truncated' = (truncated \<or> list_ex (\<lambda>(k, v). length v > maxEventDataValueBytes) (entries (Data e)));
         data' = (if truncated' then Some (AList.update truncatedFlagKey ''1'' (entries data)) else data)
     in \<lparr>p_ID = ID e, p_PaneID = PaneID e, p_TabID = TabID e, p_PaneName = PaneName e, p_Type = Type e,
         p_Title = Title e, p_Message = cut_message (Message e), p_Severity = Severity e,
         p_Timestamp = Timestamp e, p_Data = data'\<rparr>)"

section \<open>What a push does to the list\<close>

definition ev_key :: "PaneEvent \<Rightarrow> string \<times> string" where
  "ev_key e = (PaneID e, Title e)"

definition foldable :: "PaneEvent \<Rightarrow> bool" where
  "foldable e \<longleftrightarrow> PaneID e \<noteq> [] \<and> Title e \<noteq> []"

lemma bump_fields [simp]:
  "PaneID (bump x e) = PaneID e" "Title (bump x e) = Title e" "ID (bump x e) = ID x"
  "Timestamp (bump x e) = Timestamp e" "ev_key (bump x e) = ev_key e" "foldable (bump x e) = foldable e"
  by (simp_all add: bump_def ev_key_def foldable_def)

lemma aggregate_cases:
  assumes "aggregate e xs = (e', ys)"
  obtains (fresh) "ev_key e \<notin> ev_key ` set xs" "e' = e" "ys = xs"
  | (folded) us x vs where "xs = us @ x # vs" "ev_key x = ev_key e" "ev_key e \<notin> ev_key ` set us"
      "e' = bump x e" "ys = us @ vs"
  using assms
proof (induction xs arbitrary: ys thesis)
  case Nil
  then show ?case by simp
next
  case (Cons z zs)
  show ?case
  proof (cases "PaneID z = PaneID e \<and> Title z = Title e")
    case True
    with Cons.prems(3) have "e' = bump z e" "ys = zs" by auto
    moreover have "ev_key z = ev_key e" using True by (simp add: ev_key_def)
    ultimately show ?thesis using Cons.prems(2) [of "[]" z zs] by simp
  next
    case False
    then have nk: "ev_key z \<noteq> ev_key e" by (simp add: ev_key_def)
    from Cons.prems(3) False obtain ys' where ys': "aggregate e zs = (e', ys')" "ys = z # ys'"
      by (auto split: prod.splits)
    show ?thesis
    proof (rule Cons.IH [OF _ _ ys'(1)])
      assume "ev_key e \<notin> ev_key ` set zs" "e' = e" "ys' = zs"
      then show thesis using nk ys'(2) by (intro Cons.prems(1)) auto
    next
      fix us x vs
      assume "zs = us @ x # vs" "ev_key x = ev_key e" "ev_key e \<notin> ev_key ` set us"
        "e' = bump x e" "ys' = us @ vs"
      then show thesis using nk ys'(2) by (intro Cons.prems(2) [of "z # us" x vs]) auto
    qed
  qed
qed

definition queue_ok :: "nat \<Rightarrow> PaneEvent list \<Rightarrow> bool" where
  "queue_ok m es \<longleftrightarrow> length es \<le> m \<and> distinct (map ev_key (filter foldable es)) \<and> distinct (map ID es)"

text \<open>The list after a push, before it is cut: the event as queued, and the old list without the entry it replaced.\<close>

lemma push_events_cases:
  assumes "push_events m e es = (e', es')"
  obtains (fresh) "\<not> foldable e \<or> ev_key e \<notin> ev_key ` set es" "e' = e" "es' = take m (e # es)"
  | (folded) us x vs where "foldable e" "es = us @ x # vs" "ev_key x = ev_key e" "ev_key e \<notin> ev_key ` set us"
      "e' = bump x e" "es' = take m (e' # us @ vs)"
proof (cases "foldable e")
  case True
  then obtain es1 where a: "aggregate e es = (e', es1)" and es': "es' = take m (e' # es1)"
    using assms by (auto simp: push_events_def foldable_def Let_def split: prod.splits if_splits)
  from a show ?thesis
    by (cases rule: aggregate_cases) (use True es' that in \<open>force+\<close>)
next
  case False
  then have "e' = e" "es' = take m (e # es)"
    using assms by (auto simp: push_events_def foldable_def Let_def split: if_splits)
  then show ?thesis using fresh False by blast
qed

lemma push_events_head: "push_events m e es = (e', es') \<Longrightarrow> PaneID e' = PaneID e \<and> Title e' = Title e
    \<and> Timestamp e' = Timestamp e \<and> (0 < m \<longrightarrow> es' \<noteq> [] \<and> hd es' = e')"
  by (erule push_events_cases) (auto simp: take_Cons' hd_append)

lemma push_events_set: "push_events m e es = (e', es') \<Longrightarrow> set es' \<subseteq> insert e' (set es)"
  by (erule push_events_cases) (auto dest: in_set_takeD)

lemma queue_ok_take: "queue_ok k es \<Longrightarrow> queue_ok m (take m es)"
  by (simp add: queue_ok_def take_map [symmetric] distinct_take)
    (metis append_take_drop_id distinct_append filter_append map_append)

lemma push_events_ok:
  assumes q: "queue_ok m es" and i: "ID e \<notin> ID ` set es" and p: "push_events m e es = (e', es')"
  shows "queue_ok m es'"
  using p
proof (cases rule: push_events_cases)
  case fresh
  have "queue_ok (Suc m) (e # es)"
    using q i fresh(1) by (auto simp: queue_ok_def)
  then show ?thesis unfolding fresh(3) by (rule queue_ok_take)
next
  case (folded us x vs)
  have fx: "foldable x" using folded(1,3) by (simp add: foldable_def ev_key_def)
  have "queue_ok m (e' # us @ vs)"
    using q fx folded(1,3) unfolding folded(2,5) queue_ok_def by (auto simp: image_iff)
  then show ?thesis unfolding folded(6) by (rule queue_ok_take)
qed

section \<open>Watchers\<close>

text \<open>A registered watcher is a distinct, open one whose channel is empty.\<close>

definition idle_watchers :: "(nat \<rightharpoonup> connWatcher) \<Rightarrow> nat list \<Rightarrow> bool" where
  "idle_watchers h ws \<longleftrightarrow> distinct ws \<and>
     (\<forall>w \<in> set ws. \<exists>ob. h w = Some ob \<and> buf ob = None \<and> \<not> closed ob)"

definition woken :: "PaneEvent \<Rightarrow> (nat \<rightharpoonup> connWatcher) \<Rightarrow> nat list \<Rightarrow> nat \<Rightarrow> bool" where
  "woken e h ws w \<longleftrightarrow> w \<in> set ws \<and> (case h w of Some ob \<Rightarrow> matches ob e | None \<Rightarrow> False)"

lemma wake_correct:
  assumes "idle_watchers h ws"
  shows "wake e h ws = Ret (filter (\<lambda>w. \<not> woken e h ws w) ws,
           \<lambda>w. if woken e h ws w then map_option (\<lambda>ob. ob\<lparr>buf := Some e\<rparr>) (h w) else h w)"
  using assms
proof (induction ws arbitrary: h)
  case Nil
  then show ?case by (simp add: woken_def)
next
  case (Cons w ws)
  then obtain ob where ob: "h w = Some ob" "buf ob = None" "\<not> closed ob" and w: "w \<notin> set ws"
    by (auto simp: idle_watchers_def)
  show ?case
  proof (cases "matches ob e")
    case True
    let ?h = "h(w \<mapsto> ob\<lparr>buf := Some e\<rparr>)"
    have eq: "woken e ?h ws v = (woken e h ws v)" for v using w by (auto simp: woken_def)
    have eq2: "woken e h (w # ws) v = (v = w \<or> woken e h ws v)" for v
      using True ob(1) by (auto simp: woken_def)
    have fl: "filter (\<lambda>v. \<not> woken e h ws v) ws = filter (\<lambda>v. \<not> woken e h (w # ws) v) ws"
      using w by (auto simp: eq2 intro!: filter_cong)
    have "idle_watchers ?h ws" using Cons.prems w by (auto simp: idle_watchers_def)
    from Cons.IH [OF this]
    have "wake e ?h ws = Ret (filter (\<lambda>v. \<not> woken e h ws v) ws,
        \<lambda>v. if woken e h ws v then map_option (\<lambda>ob. ob\<lparr>buf := Some e\<rparr>) (?h v) else ?h v)"
      unfolding eq .
    moreover have "wake e h (w # ws) = wake e ?h ws" using True ob by simp
    moreover have "(\<lambda>v. if woken e h ws v then map_option (\<lambda>ob. ob\<lparr>buf := Some e\<rparr>) (?h v) else ?h v)
        = (\<lambda>v. if woken e h (w # ws) v then map_option (\<lambda>ob. ob\<lparr>buf := Some e\<rparr>) (h v) else h v)"
      using ob(1) w by (intro ext) (simp add: eq2 woken_def [of e h ws w])
    moreover have "filter (\<lambda>v. \<not> woken e h (w # ws) v) (w # ws) = filter (\<lambda>v. \<not> woken e h ws v) ws"
      unfolding fl by (simp add: eq2)
    ultimately show ?thesis by simp
  next
    case False
    have eq2: "woken e h (w # ws) v = woken e h ws v" for v
      using False ob(1) w by (auto simp: woken_def)
    have "idle_watchers h ws" using Cons.prems by (auto simp: idle_watchers_def)
    from Cons.IH [OF this] show ?thesis
      using False ob w by (auto simp: eq2) (simp_all add: woken_def)
  qed
qed

lemma close_conn_correct:
  assumes "idle_watchers h ws"
  shows "close_conn c h ws = Ret (filter (\<lambda>w. conn (the (h w)) \<noteq> c) ws,
           \<lambda>w. if w \<in> set ws \<and> conn (the (h w)) = c then map_option (\<lambda>ob. ob\<lparr>closed := True\<rparr>) (h w) else h w)"
  using assms
proof (induction ws arbitrary: h)
  case Nil
  then show ?case by simp
next
  case (Cons w ws)
  then obtain ob where ob: "h w = Some ob" "buf ob = None" "\<not> closed ob" and w: "w \<notin> set ws"
    by (auto simp: idle_watchers_def)
  show ?case
  proof (cases "conn ob = c")
    case True
    let ?h = "h(w \<mapsto> ob\<lparr>closed := True\<rparr>)"
    have "idle_watchers ?h ws" using Cons.prems w by (auto simp: idle_watchers_def)
    moreover have "filter (\<lambda>v. conn (the (?h v)) \<noteq> c) ws = filter (\<lambda>v. conn (the (h v)) \<noteq> c) ws"
      using w by (auto intro!: filter_cong)
    ultimately have "close_conn c ?h ws = Ret (filter (\<lambda>v. conn (the (h v)) \<noteq> c) ws,
        \<lambda>v. if v \<in> set ws \<and> conn (the (?h v)) = c then map_option (\<lambda>ob. ob\<lparr>closed := True\<rparr>) (?h v) else ?h v)"
      using Cons.IH [of ?h] by metis
    moreover have "close_conn c h (w # ws) = close_conn c ?h ws" using True ob by simp
    moreover have "(\<lambda>v. if v \<in> set ws \<and> conn (the (?h v)) = c then map_option (\<lambda>ob. ob\<lparr>closed := True\<rparr>) (?h v) else ?h v)
        = (\<lambda>v. if v \<in> set (w # ws) \<and> conn (the (h v)) = c then map_option (\<lambda>ob. ob\<lparr>closed := True\<rparr>) (h v) else h v)"
      using ob(1) w True by (intro ext) auto
    moreover have "filter (\<lambda>v. conn (the (h v)) \<noteq> c) (w # ws) = filter (\<lambda>v. conn (the (h v)) \<noteq> c) ws"
      using ob(1) True by simp
    ultimately show ?thesis by simp
  next
    case False
    have "idle_watchers h ws" using Cons.prems by (auto simp: idle_watchers_def)
    from Cons.IH [OF this] show ?thesis using False ob w by (auto simp: fun_eq_iff)
  qed
qed

section \<open>The queue as a transition system\<close>

definition conn_of :: "eventQueue \<Rightarrow> nat \<Rightarrow> nat" where
  "conn_of q w = conn (the (objs q w))"

definition ev_inv :: "eventQueue \<Rightarrow> bool" where
  "ev_inv q \<longleftrightarrow> 0 < max_events q \<and> queue_ok (max_events q) (events q) \<and>
     idle_watchers (objs q) (watchers q) \<and> distinct (map (conn_of q) (watchers q))"

text \<open>
  One step per lock section. A pushed event carries a fresh identifier (\<open>newEventID\<close>); a watcher
  is added by its own connection's dispatcher right after it evicted the connection's old one, so
  the connection has none (\<open>HasWatcher\<close> is false), at a fresh address.
\<close>

inductive ev_step :: "eventQueue \<Rightarrow> eventQueue \<Rightarrow> bool" where
  push: "ID e \<notin> ID ` set (events q) \<Longrightarrow> Push e q = Ret (e', q') \<Longrightarrow> ev_step q q'"
| dismiss: "ev_step q (Dismiss i q)"
| dismiss_all: "ev_step q (DismissAll q)"
| evict: "RemoveWatchersByConn c q = Ret q' \<Longrightarrow> ev_step q q'"
| watch: "objs q w = None \<Longrightarrow> \<not> HasWatcher c q \<Longrightarrow>
    ev_step q (AddWatcher w (q\<lparr>objs := (objs q)(w \<mapsto> \<lparr>conn = c, paneIDs = flt, buf = None, closed = False\<rparr>)\<rparr>))"
| timeout: "ev_step q (RemoveWatcher w q)"
| receive: "take_event w q = Some (e, q') \<Longrightarrow> ev_step q q'"

inductive_cases ev_stepE: "ev_step q q'"

definition ev_init :: "eventQueue \<Rightarrow> bool" where
  "ev_init q \<longleftrightarrow> (\<exists>m. q = newEventQueue m)"

lemma queue_ok_sub: "queue_ok m es \<Longrightarrow> subseq es' es \<Longrightarrow> queue_ok m es'"
proof -
  assume q: "queue_ok m es" and s: "subseq es' es"
  have "subseq (map ev_key (filter foldable es')) (map ev_key (filter foldable es))"
    "subseq (map ID es') (map ID es)"
    using s by (auto intro: subseq_map subseq_filter)
  moreover have "length es' \<le> length es" using s by (rule list_emb_length)
  ultimately show ?thesis using q unfolding queue_ok_def by (meson le_trans subseq_distinct)
qed

lemma subseq_remove_id: "subseq (remove_id i es) es"
  by (induction es) auto

lemma Push_eq:
  assumes "ev_inv q" "push_events (max_events q) e (events q) = (e1, es)"
  shows "Push e q = Ret (e1, q\<lparr>events := es,
     watchers := filter (\<lambda>w. \<not> woken e1 (objs q) (watchers q) w) (watchers q),
     objs := (\<lambda>w. if woken e1 (objs q) (watchers q) w
        then map_option (\<lambda>ob. ob\<lparr>buf := Some e1\<rparr>) (objs q w) else objs q w)\<rparr>)"
  using assms by (simp add: Push_def ev_inv_def wake_correct)

lemma idle_watchers_sub:
  assumes "idle_watchers h ws" "distinct ws'" "set ws' \<subseteq> set ws" "\<And>w. w \<in> set ws' \<Longrightarrow> h' w = h w"
  shows "idle_watchers h' ws'"
  using assms by (auto simp: idle_watchers_def)

lemma distinct_conns_sub:
  assumes "distinct (map f ws)" "subseq ws' ws" "\<And>w. w \<in> set ws' \<Longrightarrow> g w = f w"
  shows "distinct (map g ws')"
proof -
  have "map g ws' = map f ws'" using assms(3) by simp
  moreover have "subseq (map f ws') (map f ws)" using assms(2) by (rule subseq_map)
  ultimately show ?thesis using assms(1) by (metis subseq_distinct)
qed

lemma ev_inv_sub:
  assumes "ev_inv q" "max_events q' = max_events q" "queue_ok (max_events q) (events q')"
    "subseq (watchers q') (watchers q)" "\<And>w. w \<in> set (watchers q') \<Longrightarrow> objs q' w = objs q w"
  shows "ev_inv q'"
proof -
  have i: "idle_watchers (objs q) (watchers q)" and c: "distinct (map (conn_of q) (watchers q))"
    using assms(1) by (auto simp: ev_inv_def)
  have d: "distinct (watchers q')"
    using i assms(4) unfolding idle_watchers_def by (metis subseq_distinct)
  have "idle_watchers (objs q') (watchers q')"
    using i d _ assms(5) by (rule idle_watchers_sub)
      (use assms(4) in \<open>auto dest: list_emb_set\<close>)
  moreover have "distinct (map (conn_of q') (watchers q'))"
    using c assms(4) by (rule distinct_conns_sub) (simp add: conn_of_def assms(5))
  ultimately show ?thesis using assms(1-3) by (simp add: ev_inv_def)
qed

lemma Push_inv:
  assumes "ev_inv q" "ID e \<notin> ID ` set (events q)" "Push e q = Ret (e', q')"
  shows "ev_inv q'"
proof -
  obtain e1 es where pe: "push_events (max_events q) e (events q) = (e1, es)" by fastforce
  have "queue_ok (max_events q) es"
    using assms(1,2) pe by (intro push_events_ok [OF _ assms(2) pe]) (simp add: ev_inv_def)
  then show ?thesis
    using assms(3) Push_eq [OF assms(1) pe]
    by (intro ev_inv_sub [OF assms(1)]) (auto simp: subseq_filter_left)
qed

lemma RemoveWatchersByConn_eq:
  assumes "ev_inv q"
  shows "RemoveWatchersByConn c q = Ret (q\<lparr>watchers := filter (\<lambda>w. conn_of q w \<noteq> c) (watchers q),
     objs := (\<lambda>w. if w \<in> set (watchers q) \<and> conn_of q w = c
        then map_option (\<lambda>ob. ob\<lparr>closed := True\<rparr>) (objs q w) else objs q w)\<rparr>)"
  using assms by (simp add: RemoveWatchersByConn_def ev_inv_def close_conn_correct conn_of_def)

lemma HasWatcher_iff:
  assumes "ev_inv q"
  shows "HasWatcher c q \<longleftrightarrow> (\<exists>w \<in> set (watchers q). conn_of q w = c)"
  using assms unfolding HasWatcher_def ev_inv_def idle_watchers_def conn_of_def list_ex_iff
  by (intro bex_cong refl) force

lemma AddWatcher_inv:
  assumes "ev_inv q" "objs q w = None" "\<not> HasWatcher c q"
  shows "ev_inv (AddWatcher w (q\<lparr>objs := (objs q)(w \<mapsto> \<lparr>conn = c, paneIDs = flt, buf = None, closed = False\<rparr>)\<rparr>))"
    (is "ev_inv ?q")
proof -
  have w: "w \<notin> set (watchers q)" using assms(1,2) by (auto simp: ev_inv_def idle_watchers_def)
  then have c: "conn_of ?q v = conn_of q v" if "v \<in> set (watchers q)" for v
    using that by (auto simp: conn_of_def AddWatcher_def)
  have "idle_watchers (objs ?q) (watchers ?q)"
    using assms(1) w by (auto simp: ev_inv_def idle_watchers_def AddWatcher_def)
  moreover have "map (conn_of ?q) (watchers ?q) = map (conn_of q) (watchers q) @ [c]"
    using c by (simp add: AddWatcher_def) (simp add: conn_of_def)
  moreover have "c \<notin> set (map (conn_of q) (watchers q))"
    using assms(1,3) by (auto simp: HasWatcher_iff)
  ultimately have "distinct (map (conn_of ?q) (watchers ?q))" "idle_watchers (objs ?q) (watchers ?q)"
    using assms(1) by (auto simp: ev_inv_def simp del: map_append)
  then show ?thesis using assms(1) by (simp add: ev_inv_def AddWatcher_def)
qed

text \<open>A channel with an event belongs to a watcher that has left the list.\<close>

lemma take_event_inv:
  assumes "ev_inv q" "take_event w q = Some (e, q')"
  shows "ev_inv q'"
proof -
  obtain ob where ob: "objs q w = Some ob" "buf ob = Some e"
    "q' = q\<lparr>objs := (objs q)(w \<mapsto> ob\<lparr>buf := None\<rparr>)\<rparr>"
    using assms(2) by (auto simp: take_event_def split: option.splits)
  then have "w \<notin> set (watchers q)" using assms(1) by (auto simp: ev_inv_def idle_watchers_def)
  then show ?thesis
    using ob assms(1) by (intro ev_inv_sub [OF assms(1)]) (auto simp: ev_inv_def)
qed

lemma newEventQueue_inv: "ev_inv (newEventQueue m)"
  by (simp add: newEventQueue_def ev_inv_def queue_ok_def idle_watchers_def)

lemma ev_step_inv:
  assumes "ev_step q q'" "ev_inv q"
  shows "ev_inv q'"
  using assms(1)
proof (cases rule: ev_step.cases)
  case (push e e')
  then show ?thesis using Push_inv assms(2) by blast
next
  case (dismiss i)
  then show ?thesis using assms(2)
    by (intro ev_inv_sub [OF assms(2)])
      (auto simp: Dismiss_def ev_inv_def intro: queue_ok_sub subseq_remove_id)
next
  case dismiss_all
  then show ?thesis
    by (intro ev_inv_sub [OF assms(2)]) (auto simp: DismissAll_def queue_ok_def)
next
  case (evict c)
  then show ?thesis using RemoveWatchersByConn_eq [OF assms(2), of c] assms(2)
    by (intro ev_inv_sub [OF assms(2)]) (auto simp: ev_inv_def)
next
  case (watch w c flt)
  then show ?thesis using AddWatcher_inv assms(2) by blast
next
  case (timeout w)
  then show ?thesis using assms(2)
    by (intro ev_inv_sub [OF assms(2)]) (auto simp: RemoveWatcher_def ev_inv_def subseq_remove1)
next
  case (receive w e)
  then show ?thesis using take_event_inv assms(2) by blast
qed

interpretation notices: machine ev_init ev_step ev_inv
  by unfold_locales (auto simp: ev_init_def newEventQueue_inv intro: ev_step_inv)

end
