(* ===== verification/Event_Props.thy ===== *)
theory Event_Props
  imports Event_Queue
begin

text \<open>
  What the notification queue promises: its invariant along every run, the recency order it keeps,
  the one event each watcher gets, what a reader that polls by timestamp sees, and the size of what
  goes over the wire.
\<close>

section \<open>A sequence of pushes\<close>

fun pushes :: "PaneEvent list \<Rightarrow> eventQueue \<Rightarrow> (PaneEvent list \<times> eventQueue) outcome" where
  "pushes [] q = Ret ([], q)"
| "pushes (e # es) q = obind (Push e q) (\<lambda>(e', q1). obind (pushes es q1) (\<lambda>(es', q2). Ret (e' # es', q2)))"

text \<open>Identifiers are drawn fresh: none is in the queue, none repeats.\<close>

definition fresh_ids :: "PaneEvent list \<Rightarrow> eventQueue \<Rightarrow> bool" where
  "fresh_ids es q \<longleftrightarrow> distinct (map ID es) \<and> ID ` set es \<inter> ID ` set (events q) = {}"

lemma Push_total:
  assumes "ev_inv q"
  obtains e' q' where "Push e q = Ret (e', q')" "push_events (max_events q) e (events q) = (e', events q')"
    "max_events q' = max_events q"
proof -
  obtain e1 es where pe: "push_events (max_events q) e (events q) = (e1, es)" by fastforce
  from Push_eq [OF assms this] show ?thesis by (rule that) (use pe in simp_all)
qed

lemma push_events_ids:
  "push_events m e es = (e', es') \<Longrightarrow> ID ` set es' \<subseteq> insert (ID e) (ID ` set es)"
proof (erule push_events_cases)
  assume h: "e' = e" "es' = take m (e # es)"
  have "set es' \<subseteq> insert e (set es)" unfolding h(2) using set_take_subset [of m "e # es"] by simp
  then show ?thesis by auto
next
  fix us x vs
  assume h: "es = us @ x # vs" "e' = bump x e" "es' = take m (e' # us @ vs)"
  have "set es' \<subseteq> insert e' (set us \<union> set vs)" unfolding h(3) using set_take_subset [of m "e' # us @ vs"] by simp
  then show ?thesis using h(1,2) by auto
qed

lemma Push_fresh:
  assumes q: "ev_inv q" and f: "fresh_ids (e # es) q"
  obtains e' q' where "Push e q = Ret (e', q')" "push_events (max_events q) e (events q) = (e', events q')"
    "max_events q' = max_events q" "ev_inv q'" "fresh_ids es q'"
proof -
  obtain e' q' where p: "Push e q = Ret (e', q')" "push_events (max_events q) e (events q) = (e', events q')"
    "max_events q' = max_events q" using q by (rule Push_total)
  have "ev_inv q'" using Push_inv [OF q _ p(1)] f by (simp add: fresh_ids_def)
  moreover have "fresh_ids es q'"
  proof -
    have "ID e \<notin> ID ` set es" "ID ` set es \<inter> ID ` set (events q) = {}"
      using f unfolding fresh_ids_def by auto
    then have "ID ` set es \<inter> insert (ID e) (ID ` set (events q)) = {}" by simp
    then have "ID ` set es \<inter> ID ` set (events q') = {}"
      by (rule disjoint_mono [OF _ push_events_ids [OF p(2)]])
    moreover have "distinct (map ID es)" using f by (simp add: fresh_ids_def)
    ultimately show ?thesis by (simp add: fresh_ids_def)
  qed
  ultimately show thesis using p that by blast
qed

lemma pushes_total:
  assumes "ev_inv q" "fresh_ids es q"
  shows "\<exists>es' q'. pushes es q = Ret (es', q') \<and> ev_inv q' \<and> max_events q' = max_events q"
  using assms
proof (induction es arbitrary: q)
  case (Cons e es)
  from Push_fresh [OF Cons.prems] obtain e' q1 where "Push e q = Ret (e', q1)"
    "ev_inv q1" "fresh_ids es q1" "max_events q1 = max_events q" by metis
  with Cons.IH [of q1] show ?case by auto
qed simp

section \<open>The queue keeps the most recent distinct events\<close>

text \<open>What of an event does not depend on its history: everything but the identifier and the data.\<close>

definition body :: "PaneEvent \<Rightarrow> string \<times> string \<times> string \<times> string \<times> string \<times> string \<times> string \<times> int" where
  "body e = (PaneID e, Title e, TabID e, PaneName e, Type e, Message e, Severity e, Timestamp e)"

definition same_card :: "PaneEvent \<Rightarrow> PaneEvent \<Rightarrow> bool" where
  "same_card e x \<longleftrightarrow> foldable e \<and> ev_key x = ev_key e"

text \<open>The reference: of a history, newest first, the last event of every card.\<close>

fun latest :: "PaneEvent list \<Rightarrow> PaneEvent list" where
  "latest [] = []"
| "latest (e # h) = e # filter (\<lambda>x. \<not> same_card e x) (latest h)"

lemma body_bump [simp]: "body (bump x e) = body e"
  by (simp add: body_def bump_def)

lemma body_key: "body x = body y \<Longrightarrow> ev_key x = ev_key y \<and> foldable x = foldable y"
  by (simp add: body_def ev_key_def foldable_def)

lemma latest_distinct: "distinct (map ev_key (filter foldable (latest h)))"
proof (induction h)
  case (Cons e h)
  have "distinct (map ev_key (filter foldable (filter (\<lambda>x. \<not> same_card e x) (latest h))))"
    using Cons.IH by (metis subseq_distinct subseq_filter subseq_filter_left subseq_map)
  moreover have "foldable e \<Longrightarrow> ev_key e \<notin> ev_key ` set (filter foldable (filter (\<lambda>x. \<not> same_card e x) (latest h)))"
    by (auto simp: same_card_def image_iff)
  ultimately show ?case by auto
qed simp

lemma filter_same_card:
  assumes "distinct (map ev_key (filter foldable (us @ x # vs)))" "same_card e x"
  shows "filter (\<lambda>y. \<not> same_card e y) (us @ x # vs) = us @ vs"
proof -
  have fx: "foldable x" using assms(2) by (simp add: same_card_def foldable_def ev_key_def)
  have "\<not> same_card e y" if "y \<in> set us \<union> set vs" for y
  proof
    assume "same_card e y"
    then have "foldable y" "ev_key y = ev_key x"
      using assms(2) by (auto simp: same_card_def foldable_def ev_key_def)
    then show False using assms(1) fx that by (auto simp: image_iff)
  qed
  then have "filter (\<lambda>y. \<not> same_card e y) us = us" "filter (\<lambda>y. \<not> same_card e y) vs = vs"
    by (auto simp: filter_id_conv)
  then show ?thesis using assms(2) by simp
qed

text \<open>A push, up to the identifier and the count, is: the event, then the others, cut to the bound.\<close>

lemma push_events_body:
  assumes "queue_ok m es" "push_events m e es = (e', es')"
  shows "body e' = body e" "map body es' = take m (body e # map body (filter (\<lambda>x. \<not> same_card e x) es))"
proof -
  have "body e' = body e \<and> map body es' = take m (body e # map body (filter (\<lambda>x. \<not> same_card e x) es))"
    using assms(2)
  proof (cases rule: push_events_cases)
    case fresh
    then have "filter (\<lambda>x. \<not> same_card e x) es = es"
      by (auto simp: same_card_def filter_id_conv image_iff)
    then show ?thesis using fresh by (simp add: take_map [symmetric])
  next
    case (folded us x vs)
    have "distinct (map ev_key (filter foldable (us @ x # vs)))"
      using assms(1) folded(2) by (simp add: queue_ok_def)
    moreover have "same_card e x" using folded(1,3) by (simp add: same_card_def)
    ultimately have "filter (\<lambda>y. \<not> same_card e y) es = us @ vs"
      unfolding folded(2) by (rule filter_same_card)
    then show ?thesis using folded(5,6) by (simp add: take_map [symmetric])
  qed
  then show "body e' = body e" "map body es' = take m (body e # map body (filter (\<lambda>x. \<not> same_card e x) es))"
    by auto
qed

text \<open>Cutting before or after the repeat is taken out gives the same list, once a repeat is unique.\<close>

lemma take_filter_one:
  assumes "length (filter P xs) \<le> 1"
  shows "take k (filter (\<lambda>x. \<not> P x) (take (Suc k) xs)) = take k (filter (\<lambda>x. \<not> P x) xs)"
  using assms
proof (induction xs arbitrary: k)
  case (Cons x xs)
  show ?case
  proof (cases "P x")
    case True
    with Cons.prems have "filter P xs = []" by simp
    then have n: "\<not> P y" if "y \<in> set xs" for y using that by (simp add: filter_empty_conv)
    have "filter (\<lambda>x. \<not> P x) xs = xs" "filter (\<lambda>x. \<not> P x) (take k xs) = take k xs"
      using n by (auto simp: filter_id_conv dest: in_set_takeD)
    then show ?thesis using True by simp
  next
    case False
    then show ?thesis using Cons by (cases k) auto
  qed
qed simp

definition body_same :: "PaneEvent \<Rightarrow> string \<times> string \<times> string \<times> string \<times> string \<times> string \<times> string \<times> int \<Rightarrow> bool" where
  "body_same e b \<longleftrightarrow> foldable e \<and> (fst b, fst (snd b)) = ev_key e"

lemma map_body_filter:
  "map body (filter (\<lambda>x. \<not> same_card e x) xs) = filter (\<lambda>b. \<not> body_same e b) (map body xs)"
  by (induction xs) (auto simp: body_same_def same_card_def body_def ev_key_def)

lemma latest_same_card: "length (filter (same_card e) (latest h)) \<le> 1"
proof (rule ccontr)
  assume "\<not> ?thesis"
  then obtain x y r where f: "filter (same_card e) (latest h) = x # y # r"
    by (cases "filter (same_card e) (latest h)" rule: remdups_adj.cases) (auto simp: not_le)
  have "filter (same_card e) (latest h) = filter (same_card e) (filter foldable (latest h))"
    unfolding filter_filter
    by (auto simp: same_card_def foldable_def ev_key_def intro!: filter_cong)
  then have "distinct (map ev_key (x # y # r))"
    using latest_distinct [of h] f by (metis subseq_distinct subseq_filter_left subseq_map)
  moreover have "same_card e x" "same_card e y" using f by (metis filter_eq_ConsD list.set_intros mem_Collect_eq set_filter)+
  ultimately show False by (auto simp: same_card_def)
qed

lemma pushes_latest:
  assumes "ev_inv q" "fresh_ids es q" "pushes es q = Ret (out, q')"
    "map body (events q) = take (max_events q) (map body (latest h))"
  shows "map body (events q') = take (max_events q) (map body (latest (rev es @ h)))"
  using assms
proof (induction es arbitrary: q h out)
  case (Cons e es)
  obtain e' q1 where p: "Push e q = Ret (e', q1)" "push_events (max_events q) e (events q) = (e', events q1)"
    "max_events q1 = max_events q" "ev_inv q1" "fresh_ids es q1"
    using Push_fresh [OF Cons.prems(1,2)] by blast
  obtain m where m: "max_events q = Suc m" using Cons.prems(1) by (cases "max_events q") (auto simp: ev_inv_def)
  have one: "length (filter (body_same e) (map body (latest h))) \<le> 1"
    using latest_same_card [of e h]
    by (simp add: filter_map comp_def body_same_def same_card_def [abs_def] body_def ev_key_def)
  have "map body (events q1) = take (Suc m) (body e # filter (\<lambda>b. \<not> body_same e b) (map body (events q)))"
    using push_events_body(2) [OF _ p(2)] Cons.prems(1) m by (simp add: ev_inv_def map_body_filter)
  also have "\<dots> = body e # take m (filter (\<lambda>b. \<not> body_same e b) (take (Suc m) (map body (latest h))))"
    using Cons.prems(4) m by simp
  also have "\<dots> = body e # take m (filter (\<lambda>b. \<not> body_same e b) (map body (latest h)))"
    using take_filter_one [OF one] by simp
  also have "\<dots> = take (max_events q1) (map body (latest (e # h)))"
    using p(3) m by (simp add: map_body_filter)
  finally have "map body (events q1) = take (max_events q1) (map body (latest (e # h)))" .
  moreover obtain out1 where "pushes es q1 = Ret (out1, q')" using Cons.prems(3) p(1) by (auto simp: obind_eq_Ret)
  ultimately show ?case using Cons.IH [OF p(4,5)] p(3) by simp
qed simp

section \<open>A repeat is folded into its card\<close>

lemma event_count_pos: "0 < event_count x"
  by (simp add: event_count_def split: option.splits)

lemma event_count_bump:
  "event_count x < int64_max \<Longrightarrow> event_count (bump x e) = event_count x + 1"
  using event_count_pos [of x] unfolding event_count_def [of "bump x e"]
  by (simp add: bump_def lookup_update Atoi_Itoa incr64_def)

lemma push_events_fold:
  assumes q: "queue_ok m es" and x: "x \<in> set es" "same_card e x" and p: "push_events m e es = (e', es')"
  shows "e' = bump x e \<and> es' = e' # remove1 x es"
  using p
proof (cases rule: push_events_cases)
  case fresh
  have "ev_key e \<in> ev_key ` set es" "foldable e" using x by (auto simp: same_card_def intro: rev_image_eqI)
  then show ?thesis using fresh by blast
next
  case (folded us y vs)
  have d: "distinct (map ev_key (filter foldable (us @ y # vs)))" using q folded(2) by (simp add: queue_ok_def)
  have "same_card e y" using folded(1,3) by (simp add: same_card_def)
  with d have "filter (\<lambda>z. \<not> same_card e z) es = us @ vs" unfolding folded(2) by (rule filter_same_card)
  moreover have "x \<notin> set (filter (\<lambda>z. \<not> same_card e z) es)" using x(2) by simp
  ultimately have "x \<notin> set (us @ vs)" by simp
  then have xy: "x = y" "x \<notin> set us" using x(1) folded(2) by auto
  then have "remove1 x es = us @ vs" unfolding folded(2) by (simp add: remove1_append)
  moreover have "length (us @ vs) < m" using q folded(2) by (simp add: queue_ok_def)
  ultimately show ?thesis using folded(5,6) xy(1) by simp
qed

section \<open>A watcher gets one event\<close>

lemma Push_watcher_in:
  assumes "ev_inv q" "Push e q = Ret (e', q')" "w \<in> set (watchers q)" "objs q w = Some ob"
  shows "objs q' w = Some (if matches ob e' then ob\<lparr>buf := Some e'\<rparr> else ob)"
    "w \<in> set (watchers q') \<longleftrightarrow> \<not> matches ob e'"
proof -
  obtain e1 es where pe: "push_events (max_events q) e (events q) = (e1, es)" by fastforce
  from Push_eq [OF assms(1) pe] assms(2-4)
  show "objs q' w = Some (if matches ob e' then ob\<lparr>buf := Some e'\<rparr> else ob)"
    "w \<in> set (watchers q') \<longleftrightarrow> \<not> matches ob e'"
    by (auto simp: woken_def)
qed

lemma Push_watcher_out:
  assumes "ev_inv q" "Push e q = Ret (e', q')" "w \<notin> set (watchers q)"
  shows "objs q' w = objs q w" "w \<notin> set (watchers q')"
proof -
  obtain e1 es where pe: "push_events (max_events q) e (events q) = (e1, es)" by fastforce
  from Push_eq [OF assms(1) pe] assms(2,3) show "objs q' w = objs q w" "w \<notin> set (watchers q')"
    by (auto simp: woken_def)
qed

lemma pushes_watcher_out:
  assumes "ev_inv q" "fresh_ids es q" "pushes es q = Ret (out, q')" "w \<notin> set (watchers q)"
  shows "objs q' w = objs q w \<and> w \<notin> set (watchers q')"
  using assms
proof (induction es arbitrary: q out)
  case (Cons e es)
  obtain e1 q1 where p: "Push e q = Ret (e1, q1)" "ev_inv q1" "fresh_ids es q1"
    using Push_fresh [OF Cons.prems(1,2)] by metis
  obtain out1 where "pushes es q1 = Ret (out1, q')" using Cons.prems(3) p(1) by (auto simp: obind_eq_Ret)
  then show ?case
    using Cons.IH [OF p(2,3)] Push_watcher_out [OF Cons.prems(1) p(1) Cons.prems(4)] by simp
qed simp

lemma pushes_watcher:
  assumes "ev_inv q" "fresh_ids es q" "pushes es q = Ret (out, q')"
    "w \<in> set (watchers q)" "objs q w = Some ob"
  shows "objs q' w = Some (ob\<lparr>buf := find (matches ob) out\<rparr>)
    \<and> (w \<in> set (watchers q') \<longleftrightarrow> find (matches ob) out = None)"
  using assms
proof (induction es arbitrary: q out)
  case Nil
  then have "buf ob = None" by (auto simp: ev_inv_def idle_watchers_def)
  then show ?case using Nil by simp
next
  case (Cons e es)
  obtain e1 q1 where p: "Push e q = Ret (e1, q1)" "ev_inv q1" "fresh_ids es q1"
    using Push_fresh [OF Cons.prems(1,2)] by metis
  obtain out1 where out1: "pushes es q1 = Ret (out1, q')" "out = e1 # out1"
    using Cons.prems(3) p(1) by (auto simp: obind_eq_Ret)
  note w = Push_watcher_in [OF Cons.prems(1) p(1) Cons.prems(4,5)]
  show ?case
  proof (cases "matches ob e1")
    case True
    then show ?thesis using w pushes_watcher_out [OF p(2,3) out1(1)] out1(2) by simp
  next
    case False
    then show ?thesis using w Cons.IH [OF p(2,3) out1(1)] out1(2) by simp
  qed
qed

lemma pushes_bodies:
  assumes "ev_inv q" "fresh_ids es q" "pushes es q = Ret (out, q')"
  shows "map body out = map body es"
  using assms
proof (induction es arbitrary: q out)
  case (Cons e es)
  obtain e1 q1 where p: "Push e q = Ret (e1, q1)" "push_events (max_events q) e (events q) = (e1, events q1)"
    "ev_inv q1" "fresh_ids es q1"
    using Push_fresh [OF Cons.prems(1,2)] by metis
  obtain out1 where out1: "pushes es q1 = Ret (out1, q')" "out = e1 # out1"
    using Cons.prems(3) p(1) by (auto simp: obind_eq_Ret)
  have "body e1 = body e"
    using push_events_body(1) [OF _ p(2)] Cons.prems(1) by (simp add: ev_inv_def)
  then show ?case using Cons.IH [OF p(3,4) out1(1)] out1(2) by simp
qed simp

section \<open>Reading by timestamp\<close>

definition wanted :: "int \<Rightarrow> string list \<Rightarrow> PaneEvent \<Rightarrow> bool" where
  "wanted t flt e \<longleftrightarrow> t < Timestamp e \<and> (flt = [] \<or> PaneID e \<in> set flt)"

lemma find_since_eq: "find_since t flt es = find (wanted t flt) es"
  by (induction es) (auto simp: wanted_def)

lemma EventsOldestFirst_rev: "EventsOldestFirst q = rev (events q)"
  by (rule nth_equalityI) (auto simp: EventsOldestFirst_def rev_nth)

text \<open>A client that asks again from the timestamp of the event it got.\<close>

fun poll :: "nat \<Rightarrow> int \<Rightarrow> string list \<Rightarrow> eventQueue \<Rightarrow> PaneEvent list" where
  "poll 0 t flt q = []"
| "poll (Suc n) t flt q = (case FindSince t flt q of
     None \<Rightarrow> [] | Some e \<Rightarrow> e # poll n (Timestamp e) flt q)"

lemma find_split:
  assumes "find P xs = Some x"
  obtains us vs where "xs = us @ x # vs" "P x" "filter P us = []"
  using assms
proof (induction xs arbitrary: thesis)
  case (Cons y ys)
  show ?case
  proof (cases "P y")
    case True
    then show ?thesis using Cons.prems by (intro Cons.prems(1) [of "[]" ys]) auto
  next
    case False
    then obtain us vs where "ys = us @ x # vs" "P x" "filter P us = []" using Cons by auto
    then show ?thesis using False by (intro Cons.prems(1) [of "y # us" vs]) auto
  qed
qed simp

lemma poll_filter:
  assumes "sorted_wrt (\<lambda>x y. Timestamp x < Timestamp y) (rev (events q))"
    "length (filter (wanted t flt) (rev (events q))) \<le> n"
  shows "poll n t flt q = filter (wanted t flt) (rev (events q))"
  using assms(2)
proof (induction n arbitrary: t)
  case (Suc n)
  show ?case
  proof (cases "find (wanted t flt) (rev (events q))")
    case None
    then have "filter (wanted t flt) (rev (events q)) = []" by (simp add: find_None_iff filter_empty_conv)
    then show ?thesis using None by (simp add: FindSince_def find_since_eq)
  next
    case (Some e)
    then obtain us vs where s: "rev (events q) = us @ e # vs" "wanted t flt e" "filter (wanted t flt) us = []"
      by (rule find_split)
    have lt: "\<forall>u \<in> set us. Timestamp u < Timestamp e" "\<forall>v \<in> set vs. Timestamp e < Timestamp v"
      using assms(1) unfolding s(1) by (auto simp: sorted_wrt_append)
    have "filter (wanted (Timestamp e) flt) us = []" "\<not> wanted (Timestamp e) flt e"
      using lt(1) by (auto simp: wanted_def filter_empty_conv)
    moreover have "filter (wanted (Timestamp e) flt) vs = filter (wanted t flt) vs"
      using lt(2) s(2) by (auto simp: wanted_def intro!: filter_cong)
    ultimately have "filter (wanted (Timestamp e) flt) (rev (events q)) = filter (wanted t flt) vs"
      and e: "filter (wanted t flt) (rev (events q)) = e # filter (wanted t flt) vs"
      using s by auto
    then show ?thesis using Suc Some by (simp add: FindSince_def find_since_eq)
  qed
qed simp

section \<open>What goes over the wire\<close>

lemma length_truncationMarker [simp]: "length truncationMarker = 14"
  by (simp add: truncationMarker_def)

lemmas caps = maxEventMessageBytes_def maxEventDataValueBytes_def

lemma length_cut_message: "length (cut_message msg) \<le> 4096"
  by (simp add: cut_message_def caps)

lemma length_cut_value: "length (cut_value v) \<le> 1024"
  by (simp add: cut_value_def caps)

lemma cut_message_suffix:
  "cut_message msg = msg \<or> (\<exists>s. suffix s msg \<and> cut_message msg = truncationMarker @ s \<and> length s = 4082)"
  by (auto simp: cut_message_def caps intro!: exI suffix_drop)

text \<open>Whether anything of an event is cut.\<close>

definition oversized :: "PaneEvent \<Rightarrow> bool" where
  "oversized e \<longleftrightarrow> length (Message e) > 4096 \<or> (\<exists>(k, v) \<in> set (entries (Data e)). length v > 1024)"

lemma lookup_cut: "lookup (if entries d \<noteq> [] then Some (map (\<lambda>(k, v). (k, cut_value v)) (entries d)) else None) k
    = cut_value (lookup d k)"
proof -
  have "cut_value [] = []" by (simp add: cut_value_def)
  then show ?thesis by (cases d) (auto simp: lookup_def entries_def map_of_map_value split: option.splits)
qed

lemma p_Data_lookup:
  "lookup (p_Data (toPaneEventPayload e)) k =
     (if oversized e \<and> k = truncatedFlagKey then ''1'' else cut_value (lookup (Data e) k))"
proof -
  let ?d = "if entries (Data e) \<noteq> [] then Some (map (\<lambda>(k, v). (k, cut_value v)) (entries (Data e))) else None"
  have o: "oversized e \<longleftrightarrow> (length (Message e) > maxEventMessageBytes \<or>
      list_ex (\<lambda>(k, v). length v > maxEventDataValueBytes) (entries (Data e)))"
    by (simp add: oversized_def caps list_ex_iff)
  have some: "lookup (Some (entries d)) k = lookup d k" for d by (simp add: lookup_def entries_def split: option.splits)
  have "p_Data (toPaneEventPayload e) =
      (if oversized e then Some (AList.update truncatedFlagKey ''1'' (entries ?d)) else ?d)"
    unfolding o by (simp add: toPaneEventPayload_def Let_def)
  then show ?thesis by (simp add: lookup_update some lookup_cut del: if_split_asm)
qed

section \<open>Properties\<close>

text \<open>C8. In every reachable state of the notification queue its list is no longer than its bound,
  no two events of a named pane share a title, no two events share an identifier, a connection has
  at most one watcher, and neither a push nor the eviction of a connection's watchers panics (no
  channel of a registered watcher is closed).\<close>

theorem event_queue_invariant:
  assumes "ev_init q0" "ev_step\<^sup>*\<^sup>* q0 q"
  shows "Count q \<le> max_events q \<and> distinct (map ev_key (filter foldable (Events q))) \<and> distinct (map ID (Events q))
    \<and> distinct (map (conn_of q) (watchers q)) \<and> Push e q \<noteq> Panic \<and> RemoveWatchersByConn c q \<noteq> Panic"
proof -
  have i: "ev_inv q" using assms by (rule notices.reachable_inv)
  obtain e' q' where "Push e q = Ret (e', q')" using i by (rule Push_total)
  then show ?thesis using i RemoveWatchersByConn_eq [OF i, of c]
    by (simp add: ev_inv_def queue_ok_def Count_def Events_def)
qed

definition sample_event :: "string \<Rightarrow> string \<Rightarrow> string \<Rightarrow> int \<Rightarrow> PaneEvent" where
  "sample_event i p t ms = \<lparr>ID = i, PaneID = p, TabID = ''t'', PaneName = [], Type = ''bell'', Title = t,
     Message = [], Severity = ''info'', Timestamp = ms, Data = None\<rparr>"

definition sample_queue :: eventQueue where
  "sample_queue = AddWatcher 7 ((newEventQueue 2)\<lparr>objs := [7 \<mapsto> \<lparr>conn = 1, paneIDs = [''b''], buf = None, closed = False\<rparr>]\<rparr>)"

lemma sample_queue_reachable: "ev_step\<^sup>*\<^sup>* (newEventQueue 2) sample_queue"
proof (rule r_into_rtranclp)
  have "ev_step (newEventQueue 2) (AddWatcher 7 ((newEventQueue 2)\<lparr>objs := (objs (newEventQueue 2))(7 \<mapsto>
      \<lparr>conn = 1, paneIDs = [''b''], buf = None, closed = False\<rparr>)\<rparr>))"
    by (rule ev_step.watch) (simp_all add: newEventQueue_def HasWatcher_def)
  then show "ev_step (newEventQueue 2) sample_queue" by (simp add: sample_queue_def newEventQueue_def)
qed

lemma sample_queue_inv: "ev_inv sample_queue"
  by (rule notices.run_inv [OF sample_queue_reachable newEventQueue_inv])

theorem event_queue_invariant_witness:
  "Count sample_queue \<le> 2 \<and> RemoveWatchersByConn 1 sample_queue \<noteq> Panic"
proof -
  have "ev_init (newEventQueue 2)" by (auto simp: ev_init_def)
  from event_queue_invariant [OF this sample_queue_reachable, of _ 1] show ?thesis
    by (simp add: sample_queue_def newEventQueue_def AddWatcher_def)
qed

text \<open>C9. The bounded queue refines an unbounded one: after any sequence of pushes with fresh
  identifiers its list is, newest first, the last event of every card (same pane and title, both
  named) of the whole history, cut to the bound. So what it drops is always what was refreshed
  longest ago, although it has forgotten the history itself.\<close>

theorem queue_keeps_most_recent:
  assumes "pushes es (newEventQueue m) = Ret (out, q)" "distinct (map ID es)"
  shows "map body (Events q) = take (nat (if m \<le> 0 then 50 else m)) (map body (latest (rev es)))"
proof -
  have "fresh_ids es (newEventQueue m)" using assms(2) by (simp add: fresh_ids_def newEventQueue_def)
  from pushes_latest [OF newEventQueue_inv this assms(1), of "[]"] show ?thesis
    by (simp add: newEventQueue_def Events_def)
qed

abbreviation ev1 :: PaneEvent where "ev1 \<equiv> sample_event ''1'' ''a'' ''x'' 1"
abbreviation ev2 :: PaneEvent where "ev2 \<equiv> sample_event ''2'' ''b'' ''x'' 2"
abbreviation ev3 :: PaneEvent where "ev3 \<equiv> sample_event ''3'' ''a'' ''x'' 3"
abbreviation ev4 :: PaneEvent where "ev4 \<equiv> sample_event ''4'' ''c'' ''x'' 4"

theorem queue_keeps_most_recent_witness:
  "\<exists>out q. pushes [ev1, ev2, ev3, ev4] (newEventQueue 2) = Ret (out, q) \<and> map body (Events q) = [body ev4, body ev3]"
proof -
  have d: "distinct (map ID [ev1, ev2, ev3, ev4])" by (simp add: sample_event_def)
  then have "fresh_ids [ev1, ev2, ev3, ev4] (newEventQueue 2)" by (simp add: fresh_ids_def newEventQueue_def)
  with pushes_total [OF newEventQueue_inv] obtain out q
    where p: "pushes [ev1, ev2, ev3, ev4] (newEventQueue 2) = Ret (out, q)" by blast
  have "latest (rev [ev1, ev2, ev3, ev4]) = [ev4, ev3, ev2]"
    by (simp add: sample_event_def same_card_def foldable_def ev_key_def)
  with queue_keeps_most_recent [OF p d] p show ?thesis by simp
qed

text \<open>A repeat of a card that is in the queue takes its place at the front: it keeps the
  identifier of the card, its count goes up by one, and every other event stays in its order.\<close>

lemma repeat_is_folded:
  assumes "ev_inv q" "x \<in> set (Events q)" "same_card e x" "event_count x < int64_max" "Push e q = Ret (e', q')"
  shows "ID e' = ID x \<and> event_count e' = event_count x + 1 \<and> body e' = body e
    \<and> Events q' = e' # remove1 x (Events q) \<and> Count q' = Count q"
proof -
  obtain e1 es where pe: "push_events (max_events q) e (events q) = (e1, es)" by fastforce
  have "e' = e1" "events q' = es" using Push_eq [OF assms(1) pe] assms(5) by auto
  moreover have "e1 = bump x e \<and> es = e1 # remove1 x (events q)"
    using assms(1-3) pe by (intro push_events_fold) (auto simp: ev_inv_def Events_def)
  ultimately show ?thesis
    using event_count_bump [OF assms(4), of e] assms(2) length_pos_if_in_set [of x "events q"]
    by (simp add: Events_def Count_def length_remove1)
qed

text \<open>A registered watcher gets exactly one event of any sequence of pushes: the first, as
  queued, that matches its filter. It stays registered exactly as long as none does.\<close>

theorem watcher_gets_first_match:
  assumes "ev_inv q" "fresh_ids es q" "pushes es q = Ret (out, q')"
    "w \<in> set (watchers q)" "objs q w = Some ob"
  shows "map body out = map body es \<and> objs q' w = Some (ob\<lparr>buf := find (matches ob) out\<rparr>)
    \<and> (w \<in> set (watchers q') \<longleftrightarrow> find (matches ob) out = None)"
  using pushes_watcher [OF assms] pushes_bodies [OF assms(1-3)] by blast

theorem watcher_gets_first_match_witness:
  "\<exists>out q. pushes [ev1, ev2] sample_queue = Ret (out, q) \<and> 7 \<notin> set (watchers q)"
proof -
  have f: "fresh_ids [ev1, ev2] sample_queue"
    by (simp add: fresh_ids_def sample_queue_def newEventQueue_def AddWatcher_def sample_event_def)
  with pushes_total [OF sample_queue_inv] obtain out q where p: "pushes [ev1, ev2] sample_queue = Ret (out, q)" by blast
  let ?ob = "\<lparr>conn = 1, paneIDs = [''b''], buf = None, closed = False\<rparr>"
  have w: "7 \<in> set (watchers sample_queue)" "objs sample_queue 7 = Some ?ob"
    by (simp_all add: sample_queue_def newEventQueue_def AddWatcher_def)
  note t = watcher_gets_first_match [OF sample_queue_inv f p w]
  then obtain o1 o2 where o: "out = [o1, o2]" "body o2 = body ev2" by (auto simp: map_eq_Cons_conv)
  then have "matches ?ob o2" by (simp add: matches_def body_def sample_event_def)
  then have "find (matches ?ob) out \<noteq> None" using o(1) by auto
  with t p show ?thesis by blast
qed

text \<open>A client that polls from the timestamp of the last event it got sees, in chronological
  order, exactly the queued events after its mark that pass its filter, each once, when the
  timestamps of the queue are strictly ordered.\<close>

theorem poll_sees_every_event:
  assumes "sorted_wrt (\<lambda>x y. Timestamp x < Timestamp y) (EventsOldestFirst q)" "Count q \<le> n"
  shows "poll n t flt q = filter (wanted t flt) (EventsOldestFirst q)"
proof -
  have "length (filter (wanted t flt) (rev (events q))) \<le> n"
    using assms(2) length_filter_le [of "wanted t flt" "rev (events q)"] by (simp add: Count_def)
  then show ?thesis using assms(1) unfolding EventsOldestFirst_rev by (rule poll_filter [rotated])
qed

theorem poll_sees_every_event_witness:
  "poll 5 1 [''a''] ((newEventQueue 9)\<lparr>events := [ev4, ev3, ev2, ev1]\<rparr>) = [ev3]"
proof -
  let ?q = "(newEventQueue 9)\<lparr>events := [ev4, ev3, ev2, ev1]\<rparr>"
  have "sorted_wrt (\<lambda>x y. Timestamp x < Timestamp y) (EventsOldestFirst ?q)"
    by (simp add: EventsOldestFirst_rev sample_event_def)
  from poll_sees_every_event [OF this, of 5] show ?thesis
    by (simp add: EventsOldestFirst_rev Count_def wanted_def sample_event_def)
qed

text \<open>An event on the wire has a message of at most 4096 bytes and values of at most 1024; a
  message that is cut keeps its last 4082 bytes behind the marker; every key of the event is there;
  the flag key is set exactly when something was cut (or the event already carried it), and an event
  within the caps arrives unchanged.\<close>

theorem payload_within_caps:
  "length (p_Message (toPaneEventPayload e)) \<le> 4096
   \<and> length (lookup (p_Data (toPaneEventPayload e)) k) \<le> 1024
   \<and> (p_Message (toPaneEventPayload e) = Message e \<or>
      (\<exists>s. suffix s (Message e) \<and> p_Message (toPaneEventPayload e) = truncationMarker @ s \<and> length s = 4082))
   \<and> lookup (p_Data (toPaneEventPayload e)) k =
       (if oversized e \<and> k = truncatedFlagKey then ''1'' else cut_value (lookup (Data e) k))
   \<and> (\<not> oversized e \<longrightarrow> p_Message (toPaneEventPayload e) = Message e \<and>
        lookup (p_Data (toPaneEventPayload e)) k = lookup (Data e) k)"
proof -
  have m: "p_Message (toPaneEventPayload e) = cut_message (Message e)" by (simp add: toPaneEventPayload_def Let_def)
  have v: "cut_value (lookup (Data e) k) = lookup (Data e) k" if "\<not> oversized e"
  proof -
    have "length (lookup (Data e) k) \<le> 1024"
      using that map_of_SomeD [of "entries (Data e)" k]
      by (fastforce simp: oversized_def lookup_def entries_def split: option.splits)
    then show ?thesis by (simp add: cut_value_def caps)
  qed
  have "\<not> oversized e \<Longrightarrow> cut_message (Message e) = Message e"
    by (simp add: oversized_def cut_message_def caps)
  then show ?thesis
    unfolding m p_Data_lookup using length_cut_message cut_message_suffix length_cut_value v by simp
qed

theorem payload_within_caps_witness:
  "p_Message (toPaneEventPayload ev1) = [] \<and> lookup (p_Data (toPaneEventPayload ev1)) ''k'' = []"
proof -
  have "\<not> oversized ev1" "Message ev1 = []" "lookup (Data ev1) ''k'' = []"
    by (simp_all add: oversized_def sample_event_def lookup_def entries_def)
  with payload_within_caps [of ev1 "''k''"] show ?thesis by (simp add: cut_value_def)
qed

section \<open>The gap between catching up and registering\<close>

text \<open>
  The catch-up of a watch request and the registration of its watcher are two lock sections. An
  event pushed between them is in the queue, newer than the mark and past the filter, and yet the
  watcher is not woken for it: it waits for the next one, or for the timeout.
\<close>

lemma push_events_tail:
  assumes "push_events m e es = (e', es')" "0 < m"
  obtains ys where "es' = e' # ys" "set ys \<subseteq> set es"
proof -
  obtain k where m: "m = Suc k" using assms(2) by (cases m) auto
  show thesis using assms(1)
  proof (cases rule: push_events_cases)
    case fresh
    then show thesis using m set_take_subset [of k es] by (intro that [of "take k es"]) auto
  next
    case (folded us x vs)
    then show thesis using m set_take_subset [of k "us @ vs"] by (intro that [of "take k (us @ vs)"]) auto
  qed
qed

lemma watch_gap:
  assumes q: "ev_inv q" "objs q w = None" and since: "0 < since" "watch_catchup since flt q = None"
    and e: "ID e \<notin> ID ` set (events q)" "wanted since flt e" and p: "Push e q = Ret (e', q1)"
  shows "\<exists>q2 ob. watch_register w c flt q1 = Ret q2 \<and> w \<in> set (watchers q2) \<and> objs q2 w = Some ob
    \<and> buf ob = None \<and> matches ob e' \<and> FindSince since flt q2 = Some e'"
proof -
  obtain e1 es where pe: "push_events (max_events q) e (events q) = (e1, es)" by fastforce
  have e1: "e' = e1" "events q1 = es" using Push_eq [OF q(1) pe] p by auto
  have want: "wanted since flt e1" "\<And>ob. paneIDs ob = flt \<Longrightarrow> matches ob e1"
    using push_events_head [OF pe] e(2) by (auto simp: wanted_def matches_def)
  have none: "\<not> wanted since flt x" if "x \<in> set (events q)" for x
    using since that by (auto simp: watch_catchup_def FindSince_def find_since_eq find_None_iff)
  obtain ys where ys: "es = e1 # ys" "set ys \<subseteq> set (events q)"
    using pe q(1) by (auto simp: ev_inv_def elim: push_events_tail)
  have "find (wanted since flt) (rev ys @ [e1]) = Some e1"
  proof -
    have "find (wanted since flt) (rev ys) = None" using none ys(2) by (auto simp: find_None_iff)
    moreover have "find P zs = None \<Longrightarrow> P x \<Longrightarrow> find P (zs @ [x]) = Some x" for P and zs :: "PaneEvent list" and x
      by (induction zs) (auto split: if_splits)
    ultimately show ?thesis using want(1) by blast
  qed
  then have f: "find_since since flt (rev (events q1)) = Some e1" using e1(2) ys(1) by (simp add: find_since_eq)
  have q1: "ev_inv q1" using Push_inv [OF q(1) e(1) p] .
  show ?thesis
    unfolding watch_register_def RemoveWatchersByConn_eq [OF q1] e1(1)
    using f want(2) by (simp add: AddWatcher_def FindSince_def)
qed

end
