(* ===== verification/Work_Ledger.thy ===== *)
theory Work_Ledger
  imports Go_Lib
begin

text \<open>
  What an agent pane is doing, derived from its hook events: the daemon's ledger
  (\<open>internal/hookevents/ledger.go\<close>, \<open>workstate.go\<close>) and the client's own copy of the derivation
  (\<open>applyWorkTransition\<close> in \<open>internal/tui/workstate.go\<close>). A zero \<open>time.Time\<close> is \<open>None\<close>; the clock is
  an argument, and is never zero.
\<close>

section \<open>Events\<close>

datatype WorkEventKind =
    WorkEventNone | WorkEventStart | WorkEventStop | WorkEventAbort | WorkEventSubagentStart
  | WorkEventSubagentStop | WorkEventStopFinal | WorkEventPark | WorkEventNotify

definition ClassifyWorkEvent :: "string \<Rightarrow> WorkEventKind" where
  "ClassifyWorkEvent ty =
    (if ty \<in> {''hook.claude.UserPromptSubmit'', ''hook.opencode.chat.message'', ''hook.codex.UserPromptSubmit''}
     then WorkEventStart
     else if ty = ''hook.claude.PostToolUse'' then WorkEventStart
     else if ty \<in> {''hook.claude.PreToolUse'', ''hook.codex.PreToolUse''} then WorkEventStart
     else if ty \<in> {''hook.claude.Stop'', ''hook.codex.Stop'', ''hook.opencode.session.idle'', ''hook.opencode.session.error''}
     then WorkEventStop
     else if ty = ''hook.claude.StopFailure'' then WorkEventStop
     else if ty \<in> {''hook.claude.SessionEnd'', ''hook.codex.SessionEnd''} then WorkEventStopFinal
     else if ty \<in> {''hook.claude.SubagentStart'', ''hook.codex.SubagentStart''} then WorkEventSubagentStart
     else if ty \<in> {''hook.claude.SubagentStop'', ''hook.codex.SubagentStop''} then WorkEventSubagentStop
     else if ty \<in> {''hook.claude.PermissionRequest'', ''hook.opencode.permission.ask'', ''hook.codex.PermissionRequest''}
     then WorkEventPark
     else if ty = ''hook.claude.Notification'' then WorkEventNotify
     else if ty = ''internal.user_interrupt'' then WorkEventStop
     else if ty = ''process_exit'' then WorkEventAbort
     else WorkEventNone)"

definition workStateOnlyTypes :: "string list" where
  "workStateOnlyTypes = [''hook.claude.PostToolUse'', ''hook.claude.PreToolUse'', ''hook.codex.PreToolUse'']"

definition IsWorkStateOnly :: "string \<Rightarrow> bool" where
  "IsWorkStateOnly ty = list_ex (\<lambda>t. t = ty) workStateOnlyTypes"

definition IsWorkHeartbeat :: "string \<Rightarrow> bool" where
  "IsWorkHeartbeat ty \<longleftrightarrow> ty = ''hook.claude.PreToolUse'' \<or> ty = ''hook.codex.PreToolUse''"

definition subagentFailureEvent :: string where "subagentFailureEvent = ''hook.claude.StopFailure''"

definition DataNotifyKind :: string where "DataNotifyKind = ''notify_kind''"
definition NotifyKindIdle :: string where "NotifyKindIdle = ''idle''"

definition maxTrackedSubagents :: nat where "maxTrackedSubagents = 64"

text \<open>The burst count the ingester attaches to a coalesced event.\<close>

definition coalescedCount :: "go_map \<Rightarrow> int" where
  "coalescedCount data = (case Atoi (lookup data ''coalesced'') of
     None \<Rightarrow> 1 | Some n \<Rightarrow> if n < 1 then 1 else n)"

section \<open>The daemon's ledger\<close>

datatype WorkState = WorkUnknown | WorkWorking | WorkBlocked | WorkIdle

record Transition =
  Was :: WorkState
  Now :: WorkState
  FellIdle :: bool
  Aborted_tr :: bool

record WorkLedger =
  seen :: bool
  turnActive :: bool
  subagents :: "(string \<times> int) list"
  subagentOverflow :: bool
  blockedSince :: "int option"
  blockedReason :: string
  lastIdleAt :: "int option"
  aborted :: bool

definition zero_ledger :: WorkLedger where
  "zero_ledger = \<lparr>seen = False, turnActive = False, subagents = [], subagentOverflow = False,
     blockedSince = None, blockedReason = [], lastIdleAt = None, aborted = False\<rparr>"

definition working :: "WorkLedger \<Rightarrow> bool" where
  "working l \<longleftrightarrow> turnActive l \<or> length (subagents l) > 0 \<or> subagentOverflow l"

definition State :: "WorkLedger \<Rightarrow> WorkState" where
  "State l = (if \<not> seen l then WorkUnknown
     else if blockedSince l \<noteq> None then WorkBlocked
     else if working l then WorkWorking
     else WorkIdle)"

definition drainSubagent :: "string \<Rightarrow> int \<Rightarrow> (string \<times> int) list \<Rightarrow> (string \<times> int) list" where
  "drainSubagent agentType n subs = (case map_of subs agentType of
     None \<Rightarrow> subs
   | Some outstanding \<Rightarrow>
       (let outstanding' = wrap64 (outstanding - n)
        in if outstanding' \<le> 0 then AList.delete agentType subs
           else AList.update agentType outstanding' subs))"

text \<open>The \<open>WorkEventSubagentStart\<close> arm, on the map and the overflow flag.\<close>

definition start_subagent :: "string \<Rightarrow> int \<Rightarrow> (string \<times> int) list \<Rightarrow> bool \<Rightarrow> (string \<times> int) list \<times> bool" where
  "start_subagent agentType n subs ovf =
    (if agentType = [] then (subs, ovf)
     else if map_of subs agentType = None \<and> length subs \<ge> maxTrackedSubagents then (subs, True)
     else (AList.update agentType
             (wrap64 ((case map_of subs agentType of None \<Rightarrow> 0 | Some k \<Rightarrow> k) + n)) subs, ovf))"

definition ledger_switch :: "string \<Rightarrow> go_map \<Rightarrow> int \<Rightarrow> WorkLedger \<Rightarrow> WorkLedger" where
  "ledger_switch eventType data now l =
    (let agent = lookup data ''agent_type'';
         park = (\<lambda>l. l\<lparr>blockedSince := Some now,
             blockedReason := (let tool = lookup data ''tool'' in if tool \<noteq> [] then tool else blockedReason l)\<rparr>)
     in case ClassifyWorkEvent eventType of
        WorkEventNone \<Rightarrow> l
      | WorkEventStart \<Rightarrow> l\<lparr>turnActive := True, blockedSince := None, blockedReason := [], aborted := False\<rparr>
      | WorkEventSubagentStart \<Rightarrow>
          (case start_subagent agent (coalescedCount data) (subagents l) (subagentOverflow l) of
            (subs, ovf) \<Rightarrow> l\<lparr>subagents := subs, subagentOverflow := ovf\<rparr>)
      | WorkEventSubagentStop \<Rightarrow>
          l\<lparr>subagents := drainSubagent agent (coalescedCount data) (subagents l)\<rparr>
      | WorkEventStop \<Rightarrow>
          (if eventType = subagentFailureEvent \<and> agent \<noteq> []
           then l\<lparr>subagents := drainSubagent agent (coalescedCount data) (subagents l)\<rparr>
           else l\<lparr>turnActive := False, blockedSince := None, blockedReason := []\<rparr>)
      | WorkEventStopFinal \<Rightarrow>
          (if eventType = subagentFailureEvent \<and> agent \<noteq> []
           then l\<lparr>subagents := drainSubagent agent (coalescedCount data) (subagents l)\<rparr>
           else l\<lparr>turnActive := False, blockedSince := None, blockedReason := [],
                  subagents := [], subagentOverflow := False\<rparr>)
      | WorkEventPark \<Rightarrow> park l
      | WorkEventNotify \<Rightarrow>
          (if lookup data DataNotifyKind \<noteq> NotifyKindIdle \<or> turnActive l then park l else l)
      | WorkEventAbort \<Rightarrow>
          l\<lparr>turnActive := False, subagents := [], subagentOverflow := False,
            blockedSince := None, blockedReason := [], aborted := True\<rparr>)"

definition Apply :: "string \<Rightarrow> go_map \<Rightarrow> int \<Rightarrow> WorkLedger \<Rightarrow> Transition \<times> WorkLedger" where
  "Apply eventType data now l0 =
    (let kind = ClassifyWorkEvent eventType; was = State l0 in
     if kind = WorkEventNone then (\<lparr>Was = was, Now = was, FellIdle = False, Aborted_tr = False\<rparr>, l0)
     else
      let l = l0\<lparr>seen := True\<rparr>;
          wasWorking = working l;
          l' = ledger_switch eventType data now l;
          abort = (kind = WorkEventAbort);
          fell = (wasWorking \<and> \<not> working l')
      in (\<lparr>Was = was, Now = State l', FellIdle = (fell \<and> \<not> abort), Aborted_tr = abort\<rparr>,
          if fell then l'\<lparr>lastIdleAt := Some now\<rparr> else l'))"

text \<open>An event with its data and the clock it is applied at, and a run of them.\<close>

type_synonym work_event = "string \<times> go_map \<times> int"

definition apply_event :: "work_event \<Rightarrow> WorkLedger \<Rightarrow> WorkLedger" where
  "apply_event e l = (case e of (ty, data, now) \<Rightarrow> snd (Apply ty data now l))"

definition replay :: "work_event list \<Rightarrow> WorkLedger \<Rightarrow> WorkLedger" where
  "replay es l = fold apply_event es l"

section \<open>The client's pane\<close>

record PaneWork =
  p_turnActive :: bool
  p_subagents :: "(string \<times> int) list"
  p_subagentsOverflow :: bool
  p_working :: bool
  p_blockedSince :: "int option"
  p_blockedReason :: string
  p_unseen :: bool
  p_unseenFromSeed :: bool
  p_workFrame :: nat

definition zero_pane :: PaneWork where
  "zero_pane = \<lparr>p_turnActive = False, p_subagents = [], p_subagentsOverflow = False, p_working = False,
     p_blockedSince = None, p_blockedReason = [], p_unseen = False, p_unseenFromSeed = False, p_workFrame = 0\<rparr>"

text \<open>
  \<open>applyWorkTransition\<close> on the pane it found. \<open>watching\<close> is what \<open>userIsWatching\<close> answers for the
  pane, \<open>frame\<close> the shared spinner frame, \<open>now\<close> the clock. The second component is what is sent to
  the daemon: the new unseen mark, when it changed.
\<close>

definition tui_switch :: "string \<Rightarrow> go_map \<Rightarrow> int \<Rightarrow> PaneWork \<Rightarrow> PaneWork" where
  "tui_switch eventType data now p =
    (let agent = lookup data ''agent_type'';
         park = (\<lambda>p. p\<lparr>p_blockedSince := Some now,
             p_blockedReason := (let tool = lookup data ''tool'' in if tool \<noteq> [] then tool else p_blockedReason p)\<rparr>)
     in case ClassifyWorkEvent eventType of
        WorkEventNone \<Rightarrow> p
      | WorkEventStart \<Rightarrow> p\<lparr>p_turnActive := True, p_blockedSince := None, p_blockedReason := []\<rparr>
      | WorkEventSubagentStart \<Rightarrow>
          (case start_subagent agent (coalescedCount data) (p_subagents p) (p_subagentsOverflow p) of
            (subs, ovf) \<Rightarrow> p\<lparr>p_subagents := subs, p_subagentsOverflow := ovf\<rparr>)
      | WorkEventSubagentStop \<Rightarrow> p\<lparr>p_subagents := drainSubagent agent (coalescedCount data) (p_subagents p)\<rparr>
      | WorkEventStop \<Rightarrow>
          (if eventType = subagentFailureEvent \<and> agent \<noteq> []
           then p\<lparr>p_subagents := drainSubagent agent (coalescedCount data) (p_subagents p)\<rparr>
           else p\<lparr>p_turnActive := False, p_blockedSince := None, p_blockedReason := []\<rparr>)
      | WorkEventStopFinal \<Rightarrow>
          (if eventType = subagentFailureEvent \<and> agent \<noteq> []
           then p\<lparr>p_subagents := drainSubagent agent (coalescedCount data) (p_subagents p)\<rparr>
           else p\<lparr>p_turnActive := False, p_blockedSince := None, p_blockedReason := [],
                  p_subagents := [], p_subagentsOverflow := False\<rparr>)
      | WorkEventPark \<Rightarrow> park p
      | WorkEventNotify \<Rightarrow>
          (if lookup data DataNotifyKind \<noteq> NotifyKindIdle \<or> p_turnActive p then park p else p)
      | WorkEventAbort \<Rightarrow>
          p\<lparr>p_turnActive := False, p_subagents := [], p_subagentsOverflow := False,
            p_blockedSince := None, p_blockedReason := []\<rparr>)"

definition applyWorkTransition ::
  "bool \<Rightarrow> nat \<Rightarrow> string \<Rightarrow> go_map \<Rightarrow> int \<Rightarrow> PaneWork \<Rightarrow> PaneWork \<times> bool option" where
  "applyWorkTransition watching frame eventType data now p0 =
    (if ClassifyWorkEvent eventType = WorkEventNone then (p0, None)
     else
      let wasWorking = p_working p0; wasUnseen = p_unseen p0;
          abort = (ClassifyWorkEvent eventType = WorkEventAbort);
          p1 = tui_switch eventType data now p0;
          w = (p_turnActive p1 \<or> length (p_subagents p1) > 0 \<or> p_subagentsOverflow p1);
          p2 = p1\<lparr>p_working := w\<rparr>;
          p3 = (if w \<and> \<not> wasWorking
                then (let p = p2\<lparr>p_workFrame := frame\<rparr>
                      in if \<not> IsWorkHeartbeat eventType then p\<lparr>p_unseen := False\<rparr> else p)
                else if \<not> w \<and> wasWorking \<and> \<not> abort
                then (if \<not> watching then p2\<lparr>p_unseen := True, p_unseenFromSeed := False\<rparr> else p2)
                else p2)
      in (p3, if p_unseen p3 \<noteq> wasUnseen then Some (p_unseen p3) else None))"

text \<open>Input that reaches a parked pane answers it (\<open>answerBlockedByInput\<close>).\<close>

definition answerBlockedByInput :: "PaneWork \<Rightarrow> PaneWork" where
  "answerBlockedByInput p = p\<lparr>p_blockedSince := None, p_blockedReason := []\<rparr>"

section \<open>The client's copy agrees with the daemon's\<close>

definition mirrors :: "WorkLedger \<Rightarrow> PaneWork \<Rightarrow> bool" where
  "mirrors l p \<longleftrightarrow> p_turnActive p = turnActive l \<and> p_subagents p = subagents l
     \<and> p_subagentsOverflow p = subagentOverflow l \<and> p_blockedSince p = blockedSince l
     \<and> p_blockedReason p = blockedReason l \<and> p_working p = working l"

lemma working_simps [simp]:
  "working (l\<lparr>seen := b\<rparr>) = working l" "working (l\<lparr>lastIdleAt := t\<rparr>) = working l"
  "working (l\<lparr>blockedSince := t\<rparr>) = working l" "working (l\<lparr>blockedReason := r\<rparr>) = working l"
  "working (l\<lparr>aborted := b\<rparr>) = working l"
  by (simp_all add: working_def)

lemma mirrors_switch:
  assumes "p_turnActive p = turnActive l" "p_subagents p = subagents l"
    "p_subagentsOverflow p = subagentOverflow l" "p_blockedSince p = blockedSince l"
    "p_blockedReason p = blockedReason l"
  shows "p_turnActive (tui_switch ty data now p) = turnActive (ledger_switch ty data now l)
    \<and> p_subagents (tui_switch ty data now p) = subagents (ledger_switch ty data now l)
    \<and> p_subagentsOverflow (tui_switch ty data now p) = subagentOverflow (ledger_switch ty data now l)
    \<and> p_blockedSince (tui_switch ty data now p) = blockedSince (ledger_switch ty data now l)
    \<and> p_blockedReason (tui_switch ty data now p) = blockedReason (ledger_switch ty data now l)"
  using assms
  by (cases "ClassifyWorkEvent ty") (simp_all add: tui_switch_def ledger_switch_def Let_def split: prod.split)

lemma tui_switch_keeps [simp]:
  "p_unseen (tui_switch ty data now p) = p_unseen p"
  by (cases "ClassifyWorkEvent ty") (simp_all add: tui_switch_def Let_def split: prod.split)

lemma mirrors_step:
  assumes m: "mirrors l p" and a: "Apply ty data now l = (tr, l')"
    and t: "applyWorkTransition watching frame ty data now p = (p', sent)"
  shows "mirrors l' p' \<and> p_unseen p' =
      (if FellIdle tr \<and> \<not> watching then True
       else if working l' \<and> \<not> working l \<and> \<not> IsWorkHeartbeat ty then False
       else p_unseen p)
    \<and> sent = (if p_unseen p' \<noteq> p_unseen p then Some (p_unseen p') else None)"
proof (cases "ClassifyWorkEvent ty = WorkEventNone")
  case True
  then show ?thesis using assms by (auto simp: Apply_def applyWorkTransition_def Let_def)
next
  case False
  let ?l = "ledger_switch ty data now (l\<lparr>seen := True\<rparr>)"
  let ?p = "tui_switch ty data now p"
  have eq: "p_turnActive ?p = turnActive ?l" "p_subagents ?p = subagents ?l"
    "p_subagentsOverflow ?p = subagentOverflow ?l" "p_blockedSince ?p = blockedSince ?l"
    "p_blockedReason ?p = blockedReason ?l"
    using mirrors_switch [of p "l\<lparr>seen := True\<rparr>" ty data now] m by (simp_all add: mirrors_def)
  then have w: "(p_turnActive ?p \<or> length (p_subagents ?p) > 0 \<or> p_subagentsOverflow ?p) = working ?l"
    by (simp add: working_def)
  have was: "p_working p = working l" using m by (simp add: mirrors_def)
  have tr: "FellIdle tr = (working l \<and> \<not> working ?l \<and> ClassifyWorkEvent ty \<noteq> WorkEventAbort)"
    and l': "l' = (if working l \<and> \<not> working ?l then ?l\<lparr>lastIdleAt := Some now\<rparr> else ?l)"
    using a False by (auto simp: Apply_def Let_def)
  have p': "p' = (let p2 = ?p\<lparr>p_working := working ?l\<rparr> in
      if working ?l \<and> \<not> working l
      then (let p = p2\<lparr>p_workFrame := frame\<rparr> in if \<not> IsWorkHeartbeat ty then p\<lparr>p_unseen := False\<rparr> else p)
      else if \<not> working ?l \<and> working l \<and> \<not> ClassifyWorkEvent ty = WorkEventAbort
      then (if \<not> watching then p2\<lparr>p_unseen := True, p_unseenFromSeed := False\<rparr> else p2)
      else p2)" and sent: "sent = (if p_unseen p' \<noteq> p_unseen p then Some (p_unseen p') else None)"
    using t False unfolding applyWorkTransition_def Let_def w was by auto
  have "working l' = working ?l" using l' by simp
  moreover have "mirrors ?l p'" using eq by (simp add: p' mirrors_def Let_def)
  then have "mirrors l' p'" using l' by (simp add: mirrors_def)
  moreover have "p_unseen p' = (if FellIdle tr \<and> \<not> watching then True
       else if working ?l \<and> \<not> working l \<and> \<not> IsWorkHeartbeat ty then False else p_unseen p)"
    unfolding tr by (simp add: p' Let_def)
  ultimately show ?thesis using sent by simp
qed

section \<open>The ledger, agent by agent\<close>

text \<open>
  The specification: each agent on its own. A start adds its burst, a stop takes its burst off but
  never below zero, a terminal edge forgets the agent; no event of another agent touches it.
\<close>

definition agent_of :: "work_event \<Rightarrow> string" where
  "agent_of e = lookup (fst (snd e)) ''agent_type''"

definition burst :: "work_event \<Rightarrow> int" where
  "burst e = coalescedCount (fst (snd e))"

definition is_start :: "work_event \<Rightarrow> bool" where
  "is_start e \<longleftrightarrow> ClassifyWorkEvent (fst e) = WorkEventSubagentStart \<and> agent_of e \<noteq> []"

definition is_stop :: "work_event \<Rightarrow> bool" where
  "is_stop e \<longleftrightarrow> ClassifyWorkEvent (fst e) = WorkEventSubagentStop \<or>
     (ClassifyWorkEvent (fst e) \<in> {WorkEventStop, WorkEventStopFinal} \<and> fst e = subagentFailureEvent \<and> agent_of e \<noteq> [])"

definition is_terminal :: "work_event \<Rightarrow> bool" where
  "is_terminal e \<longleftrightarrow> ClassifyWorkEvent (fst e) = WorkEventAbort \<or>
     (ClassifyWorkEvent (fst e) = WorkEventStopFinal \<and> \<not> is_stop e)"

definition agent_step :: "string \<Rightarrow> work_event \<Rightarrow> int \<Rightarrow> int" where
  "agent_step a e x = (if is_start e \<and> agent_of e = a then x + burst e
     else if is_stop e \<and> agent_of e = a then max 0 (x - burst e)
     else if is_terminal e then 0 else x)"

definition outstanding :: "string \<Rightarrow> work_event list \<Rightarrow> int" where
  "outstanding a es = fold (agent_step a) es 0"

definition turn_step :: "work_event \<Rightarrow> bool \<Rightarrow> bool" where
  "turn_step e b = (if ClassifyWorkEvent (fst e) = WorkEventStart then True
     else if is_terminal e \<or> (ClassifyWorkEvent (fst e) = WorkEventStop \<and> \<not> is_stop e) then False else b)"

definition turn_open :: "work_event list \<Rightarrow> bool" where
  "turn_open es = fold turn_step es False"

definition agents :: "work_event list \<Rightarrow> string set" where
  "agents es = agent_of ` set (filter is_start es)"

definition started :: "work_event list \<Rightarrow> int" where
  "started es = sum_list (map burst (filter is_start es))"

definition count :: "string \<Rightarrow> (string \<times> int) list \<Rightarrow> int" where
  "count a subs = (case map_of subs a of None \<Rightarrow> 0 | Some k \<Rightarrow> k)"

definition subs_ok :: "(string \<times> int) list \<Rightarrow> bool" where
  "subs_ok subs \<longleftrightarrow> distinct (map fst subs) \<and> (\<forall>a k. map_of subs a = Some k \<longrightarrow> a \<noteq> [] \<and> 0 < k)"

lemma burst_pos: "1 \<le> burst e"
  by (simp add: burst_def coalescedCount_def split: option.splits)

lemma burst_le: "burst e \<le> int64_max"
  by (auto simp: burst_def coalescedCount_def Atoi_def in_int64_def int64_max_def Let_def split: option.splits if_splits list.splits)

lemma count_pos_iff: "subs_ok subs \<Longrightarrow> 0 < count a subs \<longleftrightarrow> a \<in> fst ` set subs"
proof -
  assume "subs_ok subs"
  moreover have "a \<in> fst ` set subs \<longleftrightarrow> map_of subs a \<noteq> None" by (simp add: map_of_eq_None_iff)
  ultimately show ?thesis by (cases "map_of subs a") (auto simp: count_def subs_ok_def)
qed

lemma count_nonneg: "subs_ok subs \<Longrightarrow> 0 \<le> count a subs"
  by (cases "map_of subs a") (auto simp: count_def subs_ok_def intro: less_imp_le)

lemma count_update: "count a (AList.update b k subs) = (if a = b then k else count a subs)"
  by (simp add: count_def update_conv')

lemma count_delete: "count a (AList.delete b subs) = (if a = b then 0 else count a subs)"
  by (simp add: count_def delete_conv')

lemma subs_ok_update: "subs_ok subs \<Longrightarrow> b \<noteq> [] \<Longrightarrow> 0 < k \<Longrightarrow> subs_ok (AList.update b k subs)"
  by (simp add: subs_ok_def distinct_update update_conv')

lemma subs_ok_delete: "subs_ok subs \<Longrightarrow> subs_ok (AList.delete b subs)"
  by (simp add: subs_ok_def distinct_delete delete_conv')

lemma keys_update: "fst ` set (AList.update b k subs) = insert b (fst ` set subs)"
  by (simp add: dom_update)

lemma start_subagent_ok:
  assumes "subs_ok subs" "length subs \<le> 64" "1 \<le> n" "count a subs + n \<le> int64_max"
    "start_subagent a n subs ovf = (subs', ovf')"
  shows "subs_ok subs' \<and> length subs' \<le> 64
    \<and> (a = [] \<longrightarrow> subs' = subs \<and> ovf' = ovf)
    \<and> (a \<noteq> [] \<longrightarrow> a \<notin> fst ` set subs \<longrightarrow> length subs = 64 \<longrightarrow> subs' = subs \<and> ovf')
    \<and> (a \<noteq> [] \<longrightarrow> a \<in> fst ` set subs \<or> length subs < 64 \<longrightarrow>
         ovf' = ovf \<and> fst ` set subs' = insert a (fst ` set subs) \<and>
         (\<forall>b. count b subs' = (if b = a then count a subs + n else count b subs)))"
proof (cases "a = [] \<or> (map_of subs a = None \<and> length subs \<ge> 64)")
  case True
  then have "subs' = subs" "a = [] \<longrightarrow> ovf' = ovf" "a \<noteq> [] \<longrightarrow> ovf' \<and> a \<notin> fst ` set subs \<and> length subs \<ge> 64"
    using assms(5) unfolding start_subagent_def maxTrackedSubagents_def
    by (auto simp: map_of_eq_None_iff split: if_splits)
  then show ?thesis using assms(1,2) by auto
next
  case False
  have "in_int64 (count a subs + n)"
    using assms(1,3,4) count_nonneg [OF assms(1), of a] by (simp add: in_int64_def)
  then have s: "subs' = AList.update a (count a subs + n) subs" "ovf' = ovf"
    using assms(5) False by (auto simp: start_subagent_def maxTrackedSubagents_def count_def split: if_splits)
  have "map fst (AList.update a k subs) = (if a \<in> fst ` set subs then map fst subs else map fst subs @ [a])" for k
    by (simp add: update_keys)
  then have "length (AList.update a k subs) = (if a \<in> fst ` set subs then length subs else Suc (length subs))" for k
    by (metis length_append_singleton length_map)
  then have len: "length subs' \<le> 64"
    using False assms(2) s by (auto simp: map_of_eq_None_iff)
  have "0 < count a subs + n" using count_nonneg [OF assms(1), of a] assms(3) by linarith
  then have "subs_ok subs'" using s(1) False assms(1) by (auto intro: subs_ok_update)
  moreover have "a \<noteq> []" "a \<in> fst ` set subs \<or> length subs < 64"
    using False by (auto simp: map_of_eq_None_iff)
  ultimately show ?thesis using len s by (auto simp: keys_update count_update)
qed

lemma drainSubagent_ok:
  assumes "subs_ok subs" "1 \<le> n" "n \<le> int64_max" "count a subs \<le> int64_max"
  shows "subs_ok (drainSubagent a n subs) \<and> length (drainSubagent a n subs) \<le> length subs
    \<and> fst ` set (drainSubagent a n subs) \<subseteq> fst ` set subs
    \<and> count b (drainSubagent a n subs) = (if b = a then max 0 (count a subs - n) else count b subs)"
proof (cases "map_of subs a")
  case None
  then show ?thesis using assms(1,2) by (simp add: drainSubagent_def count_def)
next
  case (Some k)
  then have k: "0 < k" "k = count a subs" using assms(1) by (auto simp: subs_ok_def count_def)
  then have w: "wrap64 (k - n) = k - n" using assms(2-4) by (intro wrap64_id) (simp add: in_int64_def int64_max_def)
  have in_keys: "a \<in> fst ` set subs" using Some by (metis map_of_eq_None_iff option.distinct(1))
  then have "map fst (AList.update a (k - n) subs) = map fst subs" by (simp add: update_keys)
  from arg_cong [OF this, of length] have len: "length (AList.update a (k - n) subs) = length subs" by simp
  show ?thesis
  proof (cases "k - n \<le> 0")
    case True
    then have "drainSubagent a n subs = AList.delete a subs" using Some w by (simp add: drainSubagent_def)
    moreover have "max 0 (count a subs - n) = 0" using True k(2) by simp
    ultimately show ?thesis
      using assms(1) length_delete_le [of a subs] dom_delete_subset [of a subs]
      by (simp add: count_delete subs_ok_delete)
  next
    case False
    then have d: "drainSubagent a n subs = AList.update a (k - n) subs" using Some w by (simp add: drainSubagent_def)
    have "a \<noteq> []" using assms(1) Some by (simp add: subs_ok_def)
    then have "subs_ok (AList.update a (k - n) subs)" using assms(1) False by (simp add: subs_ok_update)
    moreover have "max 0 (count a subs - n) = k - n" using False k(2) by simp
    ultimately show ?thesis
      using in_keys len
      unfolding d count_update keys_update by (simp add: insert_absorb)
  qed
qed

end
