(* ===== verification/Work_Props.thy ===== *)
theory Work_Props
  imports Work_Ledger Transition
begin

text \<open>
  What the work ledger promises: the client's copy of the derivation never drifts from the daemon's,
  its size is bounded whatever the producers send, and it answers for every agent as if that agent's
  events were the only ones.
\<close>

lemmas event_defs = is_start_def is_stop_def is_terminal_def turn_step_def agent_of_def burst_def

lemma switch_turn: "turnActive (ledger_switch ty data now l) = turn_step (ty, data, now) (turnActive l)"
  by (cases "ClassifyWorkEvent ty") (simp_all add: ledger_switch_def Let_def event_defs split: prod.split)

lemma switch_start: "is_start (ty, data, now) \<Longrightarrow>
   subagents (ledger_switch ty data now l) =
     fst (start_subagent (agent_of (ty, data, now)) (burst (ty, data, now)) (subagents l) (subagentOverflow l))
   \<and> subagentOverflow (ledger_switch ty data now l) =
     snd (start_subagent (agent_of (ty, data, now)) (burst (ty, data, now)) (subagents l) (subagentOverflow l))"
  by (simp add: ledger_switch_def Let_def event_defs case_prod_unfold)

lemma switch_stop: "is_stop (ty, data, now) \<Longrightarrow>
   subagents (ledger_switch ty data now l) = drainSubagent (agent_of (ty, data, now)) (burst (ty, data, now)) (subagents l)
   \<and> subagentOverflow (ledger_switch ty data now l) = subagentOverflow l"
  by (auto simp: ledger_switch_def Let_def event_defs)

lemma switch_terminal: "is_terminal (ty, data, now) \<Longrightarrow>
   subagents (ledger_switch ty data now l) = [] \<and> \<not> subagentOverflow (ledger_switch ty data now l)"
  by (auto simp: ledger_switch_def Let_def event_defs)

lemma switch_other: "\<not> is_start (ty, data, now) \<Longrightarrow> \<not> is_stop (ty, data, now) \<Longrightarrow> \<not> is_terminal (ty, data, now) \<Longrightarrow>
   subagents (ledger_switch ty data now l) = subagents l
   \<and> subagentOverflow (ledger_switch ty data now l) = subagentOverflow l"
  by (cases "ClassifyWorkEvent ty") (auto simp: ledger_switch_def Let_def event_defs start_subagent_def)

lemma event_exclusive:
  "is_start e \<Longrightarrow> \<not> is_stop e \<and> \<not> is_terminal e" "is_stop e \<Longrightarrow> \<not> is_terminal e"
  by (auto simp: is_start_def is_stop_def is_terminal_def)

lemma apply_event_fields:
  "subagents (apply_event (ty, data, now) l) = subagents (ledger_switch ty data now (l\<lparr>seen := True\<rparr>))"
  "subagentOverflow (apply_event (ty, data, now) l) = subagentOverflow (ledger_switch ty data now (l\<lparr>seen := True\<rparr>))"
  "turnActive (apply_event (ty, data, now) l) = turnActive (ledger_switch ty data now (l\<lparr>seen := True\<rparr>))"
  by (cases "ClassifyWorkEvent ty = WorkEventNone",
      simp add: apply_event_def Apply_def Let_def ledger_switch_def, simp add: apply_event_def Apply_def Let_def)+

lemma apply_event_subs:
  "turnActive (apply_event e l) = turn_step e (turnActive l)"
  "is_start e \<Longrightarrow> start_subagent (agent_of e) (burst e) (subagents l) (subagentOverflow l)
     = (subagents (apply_event e l), subagentOverflow (apply_event e l))"
  "is_stop e \<Longrightarrow> subagents (apply_event e l) = drainSubagent (agent_of e) (burst e) (subagents l)
     \<and> subagentOverflow (apply_event e l) = subagentOverflow l"
  "is_terminal e \<Longrightarrow> subagents (apply_event e l) = [] \<and> \<not> subagentOverflow (apply_event e l)"
  "\<not> is_start e \<Longrightarrow> \<not> is_stop e \<Longrightarrow> \<not> is_terminal e \<Longrightarrow>
     subagents (apply_event e l) = subagents l \<and> subagentOverflow (apply_event e l) = subagentOverflow l"
  by (cases e; simp add: apply_event_fields switch_turn switch_start switch_stop switch_terminal switch_other)+

lemma working_iff: "working l \<longleftrightarrow> turnActive l \<or> subagents l \<noteq> [] \<or> subagentOverflow l"
  by (simp add: working_def)

lemma replay_snoc: "replay (es @ [e]) l = apply_event e (replay es l)"
  by (simp add: replay_def)

section \<open>Each agent on its own\<close>

definition tracks :: "work_event list \<Rightarrow> WorkLedger \<Rightarrow> bool" where
  "tracks es l \<longleftrightarrow> subs_ok (subagents l) \<and> length (subagents l) \<le> 64 \<and> fst ` set (subagents l) \<subseteq> agents es
     \<and> (\<forall>a. count a (subagents l) = outstanding a es) \<and> (\<forall>a. outstanding a es \<le> started es)
     \<and> \<not> subagentOverflow l \<and> turnActive l = turn_open es"

lemma agents_snoc: "agents (es @ [e]) = (if is_start e then insert (agent_of e) (agents es) else agents es)"
  by (simp add: agents_def)

lemma started_snoc: "started (es @ [e]) = started es + (if is_start e then burst e else 0)"
  by (simp add: started_def)

lemma outstanding_snoc: "outstanding a (es @ [e]) = agent_step a e (outstanding a es)"
  by (simp add: outstanding_def)

lemma finite_agents [simp]: "finite (agents es)"
  by (simp add: agents_def)

lemma outstanding_nonneg: "0 \<le> outstanding a es"
proof (induction es rule: rev_induct)
  case (snoc e es)
  then show ?case using burst_pos [of e] by (simp add: outstanding_snoc agent_step_def)
qed (simp add: outstanding_def)

lemma started_nonneg: "0 \<le> started es"
  unfolding started_def by (rule sum_list_nonneg) (auto intro: order_trans [OF _ burst_pos])

lemma length_keys: "subs_ok subs \<Longrightarrow> length subs = card (fst ` set subs)"
  unfolding subs_ok_def by (metis distinct_card length_map list.set_map)

lemma tracks_step:
  assumes t: "tracks es l" and c: "card (agents (es @ [e])) \<le> 64" and s: "started (es @ [e]) \<le> int64_max"
  shows "tracks (es @ [e]) (apply_event e l)"
proof -
  have ok: "subs_ok (subagents l)" "length (subagents l) \<le> 64" "fst ` set (subagents l) \<subseteq> agents es"
    "\<And>a. count a (subagents l) = outstanding a es" "\<And>a. outstanding a es \<le> started es" "\<not> subagentOverflow l"
    and turn: "turnActive (apply_event e l) = turn_open (es @ [e])"
    using t by (auto simp: tracks_def apply_event_subs(1) turn_open_def)
  have le: "outstanding a es \<le> int64_max" "started es \<le> started (es @ [e])" for a
    using ok(5) [of a] s burst_pos [of e] by (auto simp: started_snoc split: if_splits)
  consider "is_start e" | "is_stop e" | "is_terminal e" | "\<not> is_start e" "\<not> is_stop e" "\<not> is_terminal e" by blast
  then show ?thesis
  proof cases
    case 1
    have a: "agent_of e \<noteq> []" using 1 by (simp add: is_start_def)
    have "fst ` set (subagents l) \<subset> agents (es @ [e])" if "agent_of e \<notin> fst ` set (subagents l)"
      using ok(3) that 1 by (auto simp: agents_snoc)
    then have room: "agent_of e \<in> fst ` set (subagents l) \<or> length (subagents l) < 64"
      using c psubset_card_mono [of "agents (es @ [e])" "fst ` set (subagents l)"] length_keys [OF ok(1)] by fastforce
    have cnt: "count (agent_of e) (subagents l) + burst e \<le> int64_max"
      using ok(4) ok(5) [of "agent_of e"] s 1 by (simp add: started_snoc)
    note r = start_subagent_ok [OF ok(1,2) burst_pos [of e] cnt apply_event_subs(2) [OF 1]]
    have "outstanding b (es @ [e]) = (if b = agent_of e then outstanding b es + burst e else outstanding b es)" for b
      using 1 event_exclusive(1) [OF 1] by (auto simp: outstanding_snoc agent_step_def)
    then show ?thesis
      using r room a turn ok(3-6) 1 burst_pos [of e] unfolding tracks_def
      by (auto simp: agents_snoc started_snoc intro: order_trans [OF ok(5)])
  next
    case 2
    have cnt: "count (agent_of e) (subagents l) \<le> int64_max" using ok(4) le(1) by simp
    note d = apply_event_subs(3) [OF 2]
    note r = drainSubagent_ok [OF ok(1) burst_pos burst_le cnt, of e]
    have ns: "\<not> is_start e" using 2 event_exclusive(1) by blast
    have "outstanding b (es @ [e]) = (if b = agent_of e then max 0 (outstanding b es - burst e) else outstanding b es)" for b
      using 2 ns event_exclusive(2) [OF 2] by (simp add: outstanding_snoc agent_step_def)
    moreover have "max 0 (outstanding b es - burst e) \<le> started es" for b
      using ok(5) [of b] burst_pos [of e] started_nonneg [of es] by simp
    moreover have "fst ` set (subagents (apply_event e l)) \<subseteq> agents es"
      unfolding conjunct1 [OF d] using r ok(3) by (meson order_trans)
    moreover have "length (subagents (apply_event e l)) \<le> 64"
      unfolding conjunct1 [OF d] using r ok(2) by (meson order_trans)
    ultimately show ?thesis
      using r d turn ok ns unfolding tracks_def by (simp add: agents_snoc started_snoc)
  next
    case 3
    have n: "\<not> is_start e" "\<not> is_stop e" using 3 event_exclusive by blast+
    then have "outstanding b (es @ [e]) = 0" for b using 3 by (simp add: outstanding_snoc agent_step_def)
    then show ?thesis
      using apply_event_subs(4) [OF 3] turn n started_nonneg [of es] unfolding tracks_def
      by (simp add: subs_ok_def count_def started_snoc)
  next
    case 4
    then have "outstanding b (es @ [e]) = outstanding b es" for b by (simp add: outstanding_snoc agent_step_def)
    then show ?thesis
      using apply_event_subs(5) [OF 4] turn 4 ok unfolding tracks_def by (simp add: agents_snoc started_snoc)
  qed
qed

lemma replay_tracks:
  "card (agents es) \<le> 64 \<Longrightarrow> started es \<le> int64_max \<Longrightarrow> tracks es (replay es zero_ledger)"
proof (induction es rule: rev_induct)
  case Nil
  then show ?case
    by (simp add: tracks_def replay_def zero_ledger_def subs_ok_def agents_def outstanding_def started_def
        turn_open_def count_def)
next
  case (snoc e es)
  have "card (agents es) \<le> card (agents (es @ [e]))" by (rule card_mono) (auto simp: agents_snoc)
  moreover have "started es \<le> started (es @ [e])" using burst_pos [of e] by (simp add: started_snoc)
  ultimately show ?case unfolding replay_snoc using snoc by (intro tracks_step) auto
qed

section \<open>Bounds that hold for every input\<close>

definition ledger_inv :: "WorkLedger \<Rightarrow> bool" where
  "ledger_inv l \<longleftrightarrow> length (subagents l) \<le> 64 \<and> distinct (map fst (subagents l)) \<and> [] \<notin> fst ` set (subagents l)"

inductive ledger_step :: "WorkLedger \<Rightarrow> WorkLedger \<Rightarrow> bool" where
  event: "ledger_step l (apply_event e l)"

definition known :: "WorkLedger \<Rightarrow> nat" where
  "known l = (if seen l then 1 else 0)"

lemma length_update:
  "length (AList.update a k subs) = (if a \<in> fst ` set subs then length subs else Suc (length subs))"
  using arg_cong [OF update_keys [of a k subs], of length] by (simp split: if_splits)

lemma start_subagent_inv:
  assumes "length subs \<le> 64" "distinct (map fst subs)" "[] \<notin> fst ` set subs"
    "start_subagent a n subs ovf = (subs', ovf')"
  shows "length subs' \<le> 64 \<and> distinct (map fst subs') \<and> [] \<notin> fst ` set subs'"
proof (cases "subs' = subs")
  case False
  then have a: "a \<noteq> []" "a \<in> fst ` set subs \<or> length subs < 64" and "\<exists>k. subs' = AList.update a k subs"
    using assms(4) unfolding start_subagent_def maxTrackedSubagents_def
    by (auto simp: map_of_eq_None_iff split: if_splits)
  then obtain k where k: "subs' = AList.update a k subs" by blast
  show ?thesis unfolding k using a assms(1-3) by (auto simp: length_update keys_update intro: distinct_update)
qed (use assms in simp)

lemma drainSubagent_inv:
  assumes "length subs \<le> 64" "distinct (map fst subs)" "[] \<notin> fst ` set subs"
  shows "length (drainSubagent a n subs) \<le> 64 \<and> distinct (map fst (drainSubagent a n subs))
    \<and> [] \<notin> fst ` set (drainSubagent a n subs)"
proof (cases "map_of subs a")
  case (Some k)
  then have "a \<in> fst ` set subs" by (metis map_of_eq_None_iff option.distinct(1))
  moreover have "[] \<notin> fst ` set (AList.delete a subs)" using assms(3) dom_delete_subset [of a subs] by blast
  ultimately show ?thesis
    using Some assms length_delete_le [of a subs]
    by (auto simp: drainSubagent_def Let_def length_update keys_update simp del: set_map
        intro: distinct_update distinct_delete)
qed (use assms in \<open>simp add: drainSubagent_def\<close>)

lemma apply_event_inv: "ledger_inv l \<Longrightarrow> ledger_inv (apply_event e l)"
proof -
  assume i: "ledger_inv l"
  consider "is_start e" | "is_stop e" | "is_terminal e" | "\<not> is_start e" "\<not> is_stop e" "\<not> is_terminal e" by blast
  then show ?thesis
  proof cases
    case 1
    then show ?thesis using i start_subagent_inv [OF _ _ _ apply_event_subs(2) [OF 1]] by (simp add: ledger_inv_def)
  next
    case 2
    then show ?thesis using i drainSubagent_inv apply_event_subs(3) [OF 2] by (simp add: ledger_inv_def)
  next
    case 3
    then show ?thesis using apply_event_subs(4) [OF 3] by (simp add: ledger_inv_def)
  next
    case 4
    then show ?thesis using i apply_event_subs(5) [OF 4] by (simp add: ledger_inv_def)
  qed
qed

lemma seen_switch: "seen (ledger_switch ty data now l) = seen l"
  by (cases "ClassifyWorkEvent ty") (simp_all add: ledger_switch_def Let_def split: prod.split)

lemma apply_event_seen:
  "seen (apply_event (ty, data, now) l) \<longleftrightarrow> seen l \<or> ClassifyWorkEvent ty \<noteq> WorkEventNone"
  by (cases "ClassifyWorkEvent ty = WorkEventNone") (simp_all add: apply_event_def Apply_def Let_def seen_switch)

interpretation ledger: monotone_machine "\<lambda>l. l = zero_ledger" ledger_step ledger_inv known
proof unfold_locales
  show "ledger_inv s" if "s = zero_ledger" for s using that by (simp add: ledger_inv_def zero_ledger_def)
  show "ledger_inv t" if "ledger_step s t" "ledger_inv s" for s t
    using that by (auto elim: ledger_step.cases intro: apply_event_inv)
  show "known s \<le> known t" if "ledger_step s t" for s t
    using that by (cases) (auto simp: known_def apply_event_seen)
qed

section \<open>Properties\<close>

text \<open>C10. The client derives the same work state as the daemon. Over any sequence of events, whatever
  the user is watching and whatever frame its spinner shows, the client's pane has the daemon's turn,
  subagents, overflow, park and level; and its unseen mark is set by exactly the completions the
  daemon reports that the user was not watching.\<close>

theorem client_mirrors_daemon:
  "mirrors (replay (map fst es) zero_ledger)
     (fold (\<lambda>((ty, data, now), watching, frame) p. fst (applyWorkTransition watching frame ty data now p)) es zero_pane)
   \<and> (\<forall>l p ty data now watching frame. mirrors l p \<longrightarrow>
       p_unseen (fst (applyWorkTransition watching frame ty data now p)) =
        (if FellIdle (fst (Apply ty data now l)) \<and> \<not> watching then True
         else if working (snd (Apply ty data now l)) \<and> \<not> working l \<and> \<not> IsWorkHeartbeat ty then False
         else p_unseen p))"
proof -
  have "mirrors (replay (map fst es) l)
     (fold (\<lambda>((ty, data, now), watching, frame) p. fst (applyWorkTransition watching frame ty data now p)) es p)"
    if "mirrors l p" for l p
    using that
  proof (induction es arbitrary: l p)
    case (Cons e es)
    obtain ty data now watching frame where e: "e = ((ty, data, now), watching, frame)" by (metis prod_cases3 surj_pair)
    have "mirrors (snd (Apply ty data now l)) (fst (applyWorkTransition watching frame ty data now p))"
      using mirrors_step [OF Cons.prems] by (metis prod.collapse)
    then show ?case using Cons.IH by (simp add: e replay_def apply_event_def)
  qed (simp add: replay_def)
  moreover have "mirrors zero_ledger zero_pane" by (simp add: mirrors_def zero_ledger_def zero_pane_def working_def)
  moreover have "p_unseen (fst (applyWorkTransition watching frame ty data now p)) =
        (if FellIdle (fst (Apply ty data now l)) \<and> \<not> watching then True
         else if working (snd (Apply ty data now l)) \<and> \<not> working l \<and> \<not> IsWorkHeartbeat ty then False
         else p_unseen p)" if "mirrors l p" for l p ty data now watching frame
    using mirrors_step [OF that prod.collapse [symmetric] prod.collapse [symmetric]] by blast
  ultimately show ?thesis by blast
qed

text \<open>A turn with a subagent that outlives it, ended by the agent's own stop; nobody is watching.\<close>

definition sample_turn :: "(work_event \<times> bool \<times> nat) list" where
  "sample_turn = [((''hook.claude.UserPromptSubmit'', None, 1), False, 0),
     ((''hook.claude.SubagentStart'', Some [(''agent_type'', ''qa'')], 2), False, 1),
     ((''hook.claude.Stop'', None, 3), False, 2),
     ((''hook.claude.SubagentStop'', Some [(''agent_type'', [])], 3), False, 2),
     ((''hook.claude.SubagentStop'', Some [(''agent_type'', ''qa'')], 9), False, 3)]"

theorem client_mirrors_daemon_witness:
  "p_unseen (fst (applyWorkTransition False 0 ''process_exit'' None 1 zero_pane)) = False"
proof -
  have "mirrors zero_ledger zero_pane" by (simp add: mirrors_def zero_ledger_def zero_pane_def working_def)
  with client_mirrors_daemon [of "[]"]
  have "p_unseen (fst (applyWorkTransition False 0 ''process_exit'' None 1 zero_pane)) =
     (if FellIdle (fst (Apply ''process_exit'' None 1 zero_ledger)) \<and> \<not> False then True
      else if working (snd (Apply ''process_exit'' None 1 zero_ledger)) \<and> \<not> working zero_ledger
        \<and> \<not> IsWorkHeartbeat ''process_exit'' then False else p_unseen zero_pane)"
    by blast
  also have "\<dots> = False" by (simp add: Apply_def ClassifyWorkEvent_def zero_ledger_def zero_pane_def working_def Let_def)
  finally show ?thesis .
qed

text \<open>C11. The ledger answers for every agent on its own: while no more than 64 agents are named and
  the starts add up to less than 2^63, the pane is working exactly when its turn is open or some agent
  has more starts than stops, counted from the agent's own events and the terminal ones. In
  particular a stop that names no agent, or another one, ends nothing.\<close>

theorem ledger_tracks_each_agent:
  assumes "card (agents es) \<le> 64" "started es \<le> int64_max"
  shows "count a (subagents (replay es zero_ledger)) = outstanding a es
    \<and> (working (replay es zero_ledger) \<longleftrightarrow> turn_open es \<or> (\<exists>b \<in> agents es. 0 < outstanding b es))"
proof -
  have t: "tracks es (replay es zero_ledger)" using assms by (rule replay_tracks)
  let ?subs = "subagents (replay es zero_ledger)"
  have ok: "subs_ok ?subs" "fst ` set ?subs \<subseteq> agents es" "\<And>b. count b ?subs = outstanding b es"
    using t by (auto simp: tracks_def)
  have "?subs \<noteq> [] \<longleftrightarrow> (\<exists>b. b \<in> fst ` set ?subs)" by (cases ?subs) auto
  also have "\<dots> \<longleftrightarrow> (\<exists>b \<in> agents es. 0 < outstanding b es)"
    using ok(2,3) count_pos_iff [OF ok(1)] by (metis subsetD)
  finally show ?thesis using t by (simp add: working_iff tracks_def)
qed

theorem ledger_tracks_each_agent_witness:
  "working (replay (take 4 (map fst sample_turn)) zero_ledger) \<and> \<not> working (replay (map fst sample_turn) zero_ledger)"
proof -
  note defs = sample_turn_def agents_def started_def outstanding_def turn_open_def agent_step_def
        turn_step_def is_start_def is_stop_def is_terminal_def ClassifyWorkEvent_def agent_of_def burst_def
        coalescedCount_def Atoi_def lookup_def subagentFailureEvent_def
  have s: "agents (map fst sample_turn) = {''qa''}" "started (map fst sample_turn) = 1"
    "agents (take 4 (map fst sample_turn)) = {''qa''}" "started (take 4 (map fst sample_turn)) = 1"
    "outstanding ''qa'' (take 4 (map fst sample_turn)) = 1" "outstanding ''qa'' (map fst sample_turn) = 0"
    "\<not> turn_open (map fst sample_turn)"
    by (simp_all add: defs)
  have "card {''qa''} \<le> 64" "(1::int) \<le> int64_max" by (simp_all add: int64_max_def)
  then show ?thesis
    using ledger_tracks_each_agent [of "take 4 (map fst sample_turn)"]
      ledger_tracks_each_agent [of "map fst sample_turn"] s by simp
qed

text \<open>Whatever the hook producers send, a pane's ledger never holds more than 64 agents, each
  under one non-empty name; and a pane whose state is known never becomes unknown again.\<close>

theorem work_ledger_bounded:
  assumes "ledger_step\<^sup>*\<^sup>* zero_ledger l" "ledger_step\<^sup>*\<^sup>* l l'"
  shows "length (subagents l) \<le> 64 \<and> distinct (map fst (subagents l)) \<and> [] \<notin> fst ` set (subagents l)
    \<and> (State l \<noteq> WorkUnknown \<longrightarrow> State l' \<noteq> WorkUnknown)"
proof -
  have i: "ledger_inv l" using ledger.reachable_inv [OF refl assms(1)] .
  have "seen l \<Longrightarrow> seen l'" using ledger.run_mono [OF assms(2) i] by (simp add: known_def split: if_splits)
  moreover have "State l'' = WorkUnknown \<longleftrightarrow> \<not> seen l''" for l'' by (simp add: State_def)
  ultimately show ?thesis using i by (simp add: ledger_inv_def)
qed

theorem work_ledger_bounded_witness:
  "State (apply_event (''bell'', None, 5) (apply_event (''process_exit'', None, 4) zero_ledger)) \<noteq> WorkUnknown"
proof -
  let ?l = "apply_event (''process_exit'', None, 4) zero_ledger"
  have "ledger_step\<^sup>*\<^sup>* zero_ledger ?l" "ledger_step\<^sup>*\<^sup>* ?l (apply_event (''bell'', None, 5) ?l)"
    by (rule r_into_rtranclp, rule ledger_step.event)+
  from work_ledger_bounded [OF this] show ?thesis
    by (simp add: State_def apply_event_seen ClassifyWorkEvent_def)
qed

end
