(* ===== verification/Hook_Ingest.thy ===== *)
theory Hook_Ingest
  imports Go_Lib
begin

text \<open>
  The daemon's gate for hook events (\<open>internal/hookevents/types.go\<close>, \<open>ingest.go\<close>): the schema check
  of a payload, the per-pane rate limiter, and the coalescer with its arrival queue. Time is in
  nanoseconds; a zero \<open>time.Time\<close> is \<open>None\<close>.

  One operation per lock section. A key's timer is armed when its entry is created and does nothing
  but run \<open>flush\<close> on the key, so it is not part of the state: a run may call \<open>flush\<close> at any time.
  \<open>drained\<close> is the sequence of entries handed to the emit callback by the queue, \<open>storms\<close> the
  diagnostics the limiter emits on its own.
\<close>

section \<open>Payloads\<close>

record Payload =
  V :: int
  TsMs :: int
  Seq :: nat
  PaneID :: string
  Source :: string
  HookEvent :: string
  SessionID :: string
  TranscriptPath :: string
  CWD :: string
  Title :: string
  Severity :: string
  Data :: go_map

datatype hook_error =
    ErrMissingPaneID | ErrMissingTitle | ErrUnknownSeverity | ErrSchemaVersion | ErrOversizePayload
  | ErrEmptyHookEvent | ErrUnknownSource

definition SchemaVersion :: int where "SchemaVersion = 1"

definition EventStorm :: string where "EventStorm = ''internal.event_storm''"

definition Validate :: "Payload \<Rightarrow> hook_error option" where
  "Validate p =
    (if V p \<noteq> SchemaVersion then Some ErrSchemaVersion
     else if PaneID p = [] then Some ErrMissingPaneID
     else if HookEvent p = [] then Some ErrEmptyHookEvent
     else if Title p = [] then Some ErrMissingTitle
     else if Severity p \<notin> {''info'', ''warning'', ''error'', []} then Some ErrUnknownSeverity
     else if Source p \<notin> {''claude'', ''opencode'', ''codex''} then Some ErrUnknownSource
     else None)"

section \<open>State\<close>

definition rateWindowSize :: nat where "rateWindowSize = 100"
definition rateWindowDuration :: int where "rateWindowDuration = 2 * 10 ^ 9"
definition stormPenaltyDuration :: int where "stormPenaltyDuration = 10 * 10 ^ 9"

record paneRate =
  timestamps :: "int list"
  dropUntil :: "int option"
  droppedCount :: nat
  stormReported :: bool

definition fresh_rate :: paneRate where
  "fresh_rate = \<lparr>timestamps = [], dropUntil = None, droppedCount = 0, stormReported = False\<rparr>"

record pendingEvent =
  payload :: Payload
  burstCount :: nat
  due :: bool

record Ingester =
  closed :: bool
  rates :: "string \<rightharpoonup> paneRate"
  pending :: "string \<rightharpoonup> pendingEvent"
  order :: "string list"
  drained :: "pendingEvent list"
  storms :: "Payload list"

definition NewIngester :: Ingester where
  "NewIngester = \<lparr>closed = False, rates = Map.empty, pending = Map.empty, order = [], drained = [], storms = []\<rparr>"

section \<open>The rate limiter\<close>

datatype verdict = Accepted | Dropped | Tripped bool

text \<open>The decision on one pane's window. \<open>Tripped True\<close> is the one that emits the storm diagnostic.\<close>

definition window_step :: "int \<Rightarrow> paneRate \<Rightarrow> verdict \<times> paneRate" where
  "window_step now r =
    (let cutoff = now - rateWindowDuration;
         r1 = r\<lparr>timestamps := filter (\<lambda>ts. ts > cutoff) (timestamps r)\<rparr>
     in if length (timestamps r1) \<ge> rateWindowSize
        then (let r2 = r1\<lparr>dropUntil := Some (now + stormPenaltyDuration), droppedCount := 1\<rparr>
              in if \<not> stormReported r2 then (Tripped True, r2\<lparr>stormReported := True\<rparr>) else (Tripped False, r2))
        else (Accepted, r1\<lparr>timestamps := timestamps r1 @ [now]\<rparr>))"

definition rate_step :: "int \<Rightarrow> paneRate \<Rightarrow> verdict \<times> paneRate" where
  "rate_step now r = (case dropUntil r of
       Some t \<Rightarrow>
         if now < t then (Dropped, r\<lparr>droppedCount := droppedCount r + 1\<rparr>)
         else window_step now (r\<lparr>dropUntil := None, stormReported := False, droppedCount := 0\<rparr>)
     | None \<Rightarrow> window_step now r)"

definition stormPayload :: "string \<Rightarrow> string \<Rightarrow> int \<Rightarrow> Payload" where
  "stormPayload pane src now = \<lparr>V = SchemaVersion, TsMs = now div 10 ^ 6, Seq = 0, PaneID = pane, Source = src,
     HookEvent = EventStorm, SessionID = [], TranscriptPath = [], CWD = [],
     Title = ''Hook event storm '' @ map char_of [226, 128, 148 :: nat] @ '' silenced 10 s'',
     Severity = ''warning'', Data = Some [(''reason'', ''rate_limit_exceeded'')]\<rparr>"

definition allowAndRecord :: "Payload \<Rightarrow> int \<Rightarrow> Ingester \<Rightarrow> bool \<times> Ingester" where
  "allowAndRecord p now i =
    (let r = (case rates i (PaneID p) of None \<Rightarrow> fresh_rate | Some r \<Rightarrow> r);
         (v, r') = rate_step now r;
         i' = i\<lparr>rates := (rates i)(PaneID p \<mapsto> r')\<rparr>
     in case v of
          Accepted \<Rightarrow> (True, i')
        | Dropped \<Rightarrow> (False, i')
        | Tripped report \<Rightarrow>
            (False, if report then i'\<lparr>storms := storms i' @ [stormPayload (PaneID p) (Source p) now]\<rparr> else i'))"

section \<open>The coalescer\<close>

definition NUL :: char where "NUL = char_of (0 :: nat)"
definition Backslash :: char where "Backslash = char_of (92 :: nat)"

definition escape_char :: "char \<Rightarrow> string" where
  "escape_char c = (if c = Backslash then [Backslash, Backslash] else if c = NUL then [Backslash, CHR ''0''] else [c])"

definition keyFieldEscaper :: "string \<Rightarrow> string" where
  "keyFieldEscaper s = concat (map escape_char s)"

definition coalesceKey :: "string \<Rightarrow> string \<Rightarrow> string \<Rightarrow> string" where
  "coalesceKey paneID hookEvent agentType =
    (let key = paneID @ [NUL] @ keyFieldEscaper hookEvent
     in if agentType \<noteq> [] then key @ [NUL] @ keyFieldEscaper agentType else key)"

definition payload_key :: "Payload \<Rightarrow> string" where
  "payload_key p = coalesceKey (PaneID p) (HookEvent p) (lookup (Data p) ''agent_type'')"

definition coalesce :: "Payload \<Rightarrow> Ingester \<Rightarrow> Ingester" where
  "coalesce p i =
    (let key = payload_key p in
     if closed i then i
     else case pending i key of
       Some e \<Rightarrow> i\<lparr>pending := (pending i)(key \<mapsto> e\<lparr>burstCount := burstCount e + 1, payload := p\<rparr>)\<rparr>
     | None \<Rightarrow> i\<lparr>pending := (pending i)(key \<mapsto> \<lparr>payload = p, burstCount = 1, due = False\<rparr>), order := order i @ [key]\<rparr>)"

text \<open>\<open>Submit\<close> with nothing in between its three lock sections.\<close>

definition Submit :: "Payload \<Rightarrow> int \<Rightarrow> Ingester \<Rightarrow> Ingester" where
  "Submit p now i = (if closed i then i
     else (case allowAndRecord p now i of (ok, i') \<Rightarrow> if \<not> ok then i' else coalesce p i'))"

text \<open>The prefix walk: the entries it takes, and the keys it leaves.\<close>

fun due_prefix :: "(string \<rightharpoonup> pendingEvent) \<Rightarrow> string list \<Rightarrow> pendingEvent list \<times> (string \<rightharpoonup> pendingEvent) \<times> string list" where
  "due_prefix m [] = ([], m, [])"
| "due_prefix m (k # ks) = (case m k of
     None \<Rightarrow> due_prefix m ks
   | Some e \<Rightarrow>
       if \<not> due e then ([], m, k # ks)
       else (case due_prefix (m(k := None)) ks of (batch, m', rest) \<Rightarrow> (e # batch, m', rest)))"

definition drainDue :: "Ingester \<Rightarrow> Ingester" where
  "drainDue i = (case due_prefix (pending i) (order i) of (batch, m, rest) \<Rightarrow>
     i\<lparr>pending := m, order := rest, drained := drained i @ batch\<rparr>)"

definition mark_due :: "string \<Rightarrow> Ingester \<Rightarrow> Ingester" where
  "mark_due key i = (case pending i key of None \<Rightarrow> i
     | Some e \<Rightarrow> i\<lparr>pending := (pending i)(key \<mapsto> e\<lparr>due := True\<rparr>)\<rparr>)"

definition flush :: "string \<Rightarrow> Ingester \<Rightarrow> Ingester" where
  "flush key i = drainDue (mark_due key i)"

text \<open>
  \<open>Cancel\<close> keeps the keys of other panes; when the new head is already due it schedules a
  \<open>drainDue\<close> (the second component).
\<close>

definition Cancel :: "string \<Rightarrow> Ingester \<Rightarrow> Ingester \<times> bool" where
  "Cancel paneID i =
    (let pre = paneID @ [NUL];
         kept = filter (\<lambda>k. \<not> prefix pre k) (order i);
         i' = i\<lparr>pending := (\<lambda>k. if k \<in> set (order i) \<and> prefix pre k then None else pending i k),
                order := kept, rates := (rates i)(paneID := None)\<rparr>
     in (i', case kept of [] \<Rightarrow> False
           | h # _ \<Rightarrow> (case pending i' h of None \<Rightarrow> False | Some e \<Rightarrow> due e)))"

fun take_all :: "(string \<rightharpoonup> pendingEvent) \<Rightarrow> string list \<Rightarrow> pendingEvent list \<times> (string \<rightharpoonup> pendingEvent)" where
  "take_all m [] = ([], m)"
| "take_all m (k # ks) = (case m k of
     None \<Rightarrow> take_all m ks
   | Some e \<Rightarrow> (case take_all (m(k := None)) ks of (batch, m') \<Rightarrow> (e # batch, m')))"

definition FlushAll :: "Ingester \<Rightarrow> Ingester" where
  "FlushAll i = (case take_all (pending i) (order i) of (batch, m) \<Rightarrow>
     i\<lparr>closed := True, pending := m, order := [], drained := drained i @ batch\<rparr>)"

section \<open>What is emitted\<close>

text \<open>The digit loop of \<open>formatUint\<close>: \<open>buf\<close> is what lies behind \<open>pos\<close>.\<close>

fun format_loop :: "nat \<Rightarrow> string \<Rightarrow> string" where
  "format_loop v buf = (if v = 0 then buf else format_loop (v div 10) (char_of (48 + v mod 10) # buf))"

declare format_loop.simps [simp del]

definition formatUint :: "nat \<Rightarrow> string" where
  "formatUint v = (if v = 0 then ''0'' else format_loop v [])"

definition finalizePayload :: "pendingEvent \<Rightarrow> Payload" where
  "finalizePayload e =
    (if burstCount e > 1
     then (payload e)\<lparr>Data := Some (AList.update ''coalesced'' (formatUint (burstCount e)) (entries (Data (payload e))))\<rparr>
     else payload e)"

definition emitted :: "Ingester \<Rightarrow> Payload list" where
  "emitted i = map finalizePayload (drained i)"

end
