(* ===== verification/Hook_Props.thy ===== *)
theory Hook_Props
  imports Hook_Ingest Transition
begin

text \<open>
  What the ingester promises: its keys identify what they coalesce, its queue releases events in
  arrival order whatever order the timers run in and loses none, and a pane never gets more than its
  budget through.
\<close>

section \<open>Keys\<close>

lemma NUL_neq [simp]: "NUL \<noteq> Backslash" "Backslash \<noteq> NUL" "CHR ''0'' \<noteq> NUL" "CHR ''0'' \<noteq> Backslash"
  "NUL \<noteq> CHR ''0''" "Backslash \<noteq> CHR ''0''"
  by (simp_all add: NUL_def Backslash_def char_of_def)

lemma escape_simps [simp]: "keyFieldEscaper [] = []" "keyFieldEscaper (c # s) = escape_char c @ keyFieldEscaper s"
  by (simp_all add: keyFieldEscaper_def)

lemma escape_no_NUL [simp]: "NUL \<notin> set (keyFieldEscaper s)"
  by (induction s) (auto simp: escape_char_def)

lemma escape_inj: "keyFieldEscaper s = keyFieldEscaper t \<Longrightarrow> s = t"
proof (induction s arbitrary: t)
  case Nil
  then show ?case by (cases t) (auto simp: escape_char_def split: if_splits)
next
  case (Cons c s)
  then obtain d t' where t: "t = d # t'" by (cases t) (auto simp: escape_char_def split: if_splits)
  then show ?case using Cons by (auto simp: escape_char_def split: if_splits)
qed

lemma split_at_NUL:
  assumes "NUL \<notin> set a" "NUL \<notin> set b" "a @ NUL # x = b @ NUL # y"
  shows "a = b \<and> x = y"
  using assms
proof (induction a arbitrary: b)
  case Nil
  then show ?case by (cases b) auto
next
  case (Cons c a)
  then show ?case by (cases b) auto
qed

lemma coalesceKey_inj:
  assumes "NUL \<notin> set p" "NUL \<notin> set q" "coalesceKey p e a = coalesceKey q f b"
  shows "p = q \<and> e = f \<and> a = b"
proof -
  define tail where "tail = (\<lambda>e a. keyFieldEscaper e @ (if a \<noteq> [] then NUL # keyFieldEscaper a else []))"
  have "p @ NUL # tail e a = q @ NUL # tail f b"
    using assms(3) by (simp add: coalesceKey_def tail_def Let_def split: if_splits)
  with assms(1,2) have pq: "p = q" and t: "tail e a = tail f b" using split_at_NUL by blast+
  have "e = f \<and> a = b"
  proof (cases "a = []"; cases "b = []")
    assume "a = []" "b = []"
    then show ?thesis using t escape_inj by (simp add: tail_def)
  next
    assume "a = []" "b \<noteq> []"
    then have "NUL \<in> set (tail f b)" "NUL \<notin> set (tail e a)" by (simp_all add: tail_def)
    then show ?thesis using t by simp
  next
    assume "a \<noteq> []" "b = []"
    then have "NUL \<notin> set (tail f b)" "NUL \<in> set (tail e a)" by (simp_all add: tail_def)
    then show ?thesis using t by simp
  next
    assume "a \<noteq> []" "b \<noteq> []"
    then have "keyFieldEscaper e @ NUL # keyFieldEscaper a = keyFieldEscaper f @ NUL # keyFieldEscaper b"
      using t by (simp add: tail_def)
    then have "keyFieldEscaper e = keyFieldEscaper f \<and> keyFieldEscaper a = keyFieldEscaper b"
      using split_at_NUL escape_no_NUL by blast
    then show ?thesis using escape_inj by blast
  qed
  with pq show ?thesis by blast
qed

lemma prefix_key:
  assumes "NUL \<notin> set p" "NUL \<notin> set q"
  shows "prefix (p @ [NUL]) (coalesceKey q e a) \<longleftrightarrow> p = q"
proof
  assume "prefix (p @ [NUL]) (coalesceKey q e a)"
  then obtain r where "coalesceKey q e a = p @ NUL # r" by (auto simp: prefix_def)
  moreover have "\<exists>t. coalesceKey q e a = q @ NUL # t" by (simp add: coalesceKey_def Let_def)
  ultimately show "p = q" using split_at_NUL assms by metis
next
  assume "p = q"
  then show "prefix (p @ [NUL]) (coalesceKey q e a)" by (simp add: coalesceKey_def Let_def)
qed

section \<open>The queue\<close>

definition queue_inv :: "Ingester \<Rightarrow> bool" where
  "queue_inv i \<longleftrightarrow> distinct (order i) \<and> set (order i) = dom (pending i)
     \<and> (\<forall>k e. pending i k = Some e \<longrightarrow> payload_key (payload e) = k \<and> 1 \<le> burstCount e)
     \<and> (closed i \<longrightarrow> order i = [])"

lemma due_prefix_eq:
  assumes "distinct ks" "set ks = dom m"
  shows "due_prefix m ks =
    (let us = takeWhile (\<lambda>k. due (the (m k))) ks
     in (map (\<lambda>k. the (m k)) us, (\<lambda>k. if k \<in> set us then None else m k), dropWhile (\<lambda>k. due (the (m k))) ks))"
  using assms
proof (induction ks arbitrary: m)
  case (Cons k ks)
  have "k \<in> dom m" using Cons.prems(2) by (metis list.set_intros(1))
  then obtain e where e: "m k = Some e" by blast
  show ?case
  proof (cases "due e")
    case True
    define m' where "m' = m(k := None)"
    define us where "us = takeWhile (\<lambda>j. due (the (m j))) ks"
    have k: "k \<notin> set ks" using Cons.prems(1) by simp
    have m': "m' j = (if j = k then None else m j)" for j by (simp add: m'_def)
    have "set ks = dom m'" using Cons.prems k by (auto simp: m' dom_def split: if_splits)
    note ih = Cons.IH [OF _ this]
    have tw: "takeWhile (\<lambda>j. due (the (m' j))) ks = us"
      "dropWhile (\<lambda>j. due (the (m' j))) ks = dropWhile (\<lambda>j. due (the (m j))) ks"
      unfolding us_def by (rule takeWhile_cong dropWhile_cong; use k in \<open>auto simp: m'\<close>)+
    have us: "set us \<subseteq> set ks" unfolding us_def by (auto dest: set_takeWhileD)
    then have "map (\<lambda>j. the (m' j)) us = map (\<lambda>j. the (m j)) us"
      "(\<lambda>j. if j \<in> set us then None else m' j) = (\<lambda>j. if j \<in> set (k # us) then None else m j)"
      using k by (auto simp: m' fun_eq_iff)
    then have "due_prefix m' ks = (map (\<lambda>j. the (m j)) us, \<lambda>j. if j \<in> set (k # us) then None else m j,
        dropWhile (\<lambda>j. due (the (m j))) ks)"
      using ih Cons.prems(1) by (simp add: tw Let_def)
    moreover have "due_prefix m (k # ks) = (case due_prefix m' ks of (batch, m'', rest) \<Rightarrow> (e # batch, m'', rest))"
      using e True by (simp add: m'_def)
    moreover have "takeWhile (\<lambda>j. due (the (m j))) (k # ks) = k # us" using e True by (simp add: us_def)
    ultimately show ?thesis using e True by (simp add: Let_def)
  qed (use e in simp)
qed simp

lemma take_all_eq:
  assumes "distinct ks" "set ks \<subseteq> dom m"
  shows "take_all m ks = (map (\<lambda>k. the (m k)) ks, (\<lambda>k. if k \<in> set ks then None else m k))"
  using assms
proof (induction ks arbitrary: m)
  case (Cons k ks)
  then obtain e where e: "m k = Some e" by fastforce
  define m' where "m' = m(k := None)"
  have m': "m' j = (if j = k then None else m j)" for j by (simp add: m'_def)
  have k: "k \<notin> set ks" using Cons.prems(1) by simp
  have "set ks \<subseteq> dom m'" using Cons.prems k by (auto simp: m' dom_def)
  then have "take_all m' ks = (map (\<lambda>j. the (m' j)) ks, (\<lambda>j. if j \<in> set ks then None else m' j))"
    using Cons.IH [of m'] Cons.prems(1) by simp
  moreover have "map (\<lambda>j. the (m' j)) ks = map (\<lambda>j. the (m j)) ks"
    "(\<lambda>j. if j \<in> set ks then None else m' j) = (\<lambda>j. if j \<in> set (k # ks) then None else m j)"
    using k by (auto simp: m' fun_eq_iff)
  moreover have "take_all m (k # ks) = (case take_all m' ks of (batch, m'') \<Rightarrow> (e # batch, m''))"
    using e by (simp add: m'_def)
  ultimately show ?case using e by simp
qed simp

text \<open>A drain, in one equation.\<close>

abbreviation is_due :: "Ingester \<Rightarrow> string \<Rightarrow> bool" where
  "is_due i k \<equiv> due (the (pending i k))"

lemma drainDue_eq:
  assumes "queue_inv i"
  shows "drainDue i = i\<lparr>
     pending := (\<lambda>k. if k \<in> set (takeWhile (is_due i) (order i)) then None else pending i k),
     order := dropWhile (is_due i) (order i),
     drained := drained i @ map (\<lambda>k. the (pending i k)) (takeWhile (is_due i) (order i))\<rparr>"
  using assms due_prefix_eq [of "order i" "pending i"] by (simp add: drainDue_def queue_inv_def Let_def)

lemma drainDue_inv:
  assumes "queue_inv i"
  shows "queue_inv (drainDue i)"
proof -
  let ?P = "is_due i"
  have d: "distinct (order i)" "set (order i) = dom (pending i)" using assms by (auto simp: queue_inv_def)
  have split: "order i = takeWhile ?P (order i) @ dropWhile ?P (order i)" by simp
  then have "set (takeWhile ?P (order i)) \<inter> set (dropWhile ?P (order i)) = {}"
    "set (order i) = set (takeWhile ?P (order i)) \<union> set (dropWhile ?P (order i))"
    using d(1) by (metis distinct_append, metis set_append)
  then have s: "set (dropWhile ?P (order i)) = dom (pending i) - set (takeWhile ?P (order i))"
    using d(2) by blast
  show ?thesis
    unfolding drainDue_eq [OF assms] queue_inv_def
    using assms d(1) by (simp add: distinct_dropWhile s dom_def set_eq_iff) (auto simp: queue_inv_def)
qed

lemma mark_due_inv: "queue_inv i \<Longrightarrow> queue_inv (mark_due k i)"
  by (auto simp: mark_due_def queue_inv_def split: option.split)

lemma coalesce_inv: "queue_inv i \<Longrightarrow> queue_inv (coalesce p i)"
  by (auto simp: coalesce_def queue_inv_def Let_def split: option.split)

lemma allowAndRecord_keeps:
  "allowAndRecord p now i = (ok, i') \<Longrightarrow> pending i' = pending i \<and> order i' = order i \<and> drained i' = drained i
     \<and> closed i' = closed i"
  by (auto simp: allowAndRecord_def Let_def split: prod.splits verdict.splits if_splits)

lemma FlushAll_eq:
  assumes "queue_inv i"
  shows "FlushAll i = i\<lparr>closed := True, pending := Map.empty, order := [],
     drained := drained i @ map (\<lambda>k. the (pending i k)) (order i)\<rparr>"
proof -
  have "set (order i) \<subseteq> dom (pending i)" "distinct (order i)" using assms by (auto simp: queue_inv_def)
  moreover have "(\<lambda>k. if k \<in> set (order i) then None else pending i k) = Map.empty"
    using assms by (auto simp: queue_inv_def fun_eq_iff)
  ultimately show ?thesis by (simp add: FlushAll_def take_all_eq)
qed

lemma FlushAll_inv: "queue_inv i \<Longrightarrow> queue_inv (FlushAll i)"
  by (simp add: FlushAll_eq) (simp add: queue_inv_def)

lemma Cancel_inv: "queue_inv i \<Longrightarrow> queue_inv (fst (Cancel pane i))"
  by (simp add: Cancel_def queue_inv_def Let_def dom_def set_eq_iff)

section \<open>Timers in any order\<close>

text \<open>The keys of \<open>S\<close> have run their timers.\<close>

lemma flush_eq:
  assumes "queue_inv i"
  shows "drained (flush k i) = drained i @ map (\<lambda>j. (the (pending i j))\<lparr>due := True\<rparr>)
           (takeWhile (\<lambda>j. is_due i j \<or> j = k) (order i))
    \<and> order (flush k i) = dropWhile (\<lambda>j. is_due i j \<or> j = k) (order i)
    \<and> (\<forall>j \<in> set (order (flush k i)). \<exists>e. pending i j = Some e \<and>
          pending (flush k i) j = Some (if j = k then e\<lparr>due := True\<rparr> else e))
    \<and> queue_inv (flush k i)"
proof -
  let ?i = "mark_due k i"
  have inv: "queue_inv ?i" using assms by (rule mark_due_inv)
  have m: "order ?i = order i" "drained ?i = drained i"
    "\<And>j. pending ?i j = (if j = k then map_option (\<lambda>e. e\<lparr>due := True\<rparr>) (pending i j) else pending i j)"
    by (auto simp: mark_due_def split: option.split)
  have dom: "\<exists>e. pending i j = Some e" if "j \<in> set (order i)" for j
    using assms that by (auto simp: queue_inv_def)
  have due: "is_due ?i j = (is_due i j \<or> j = k)" if "j \<in> set (order i)" for j
    using dom [OF that] by (auto simp: m(3))
  have tw: "takeWhile (is_due ?i) (order i) = takeWhile (\<lambda>j. is_due i j \<or> j = k) (order i)"
    "dropWhile (is_due ?i) (order i) = dropWhile (\<lambda>j. is_due i j \<or> j = k) (order i)"
    by (rule takeWhile_cong dropWhile_cong; simp add: due)+
  have vals: "the (pending ?i j) = (the (pending i j))\<lparr>due := True\<rparr>"
    if "j \<in> set (takeWhile (\<lambda>j. is_due i j \<or> j = k) (order i))" for j
  proof -
    have j: "j \<in> set (order i)" "is_due i j \<or> j = k" using set_takeWhileD [OF that] by blast+
    then obtain e where "pending i j = Some e" using dom by blast
    then show ?thesis using j(2) by (cases "j = k") (auto simp: m(3))
  qed
  note eq = drainDue_eq [OF inv]
  have "drained (flush k i) = drained i @ map (\<lambda>j. (the (pending i j))\<lparr>due := True\<rparr>)
      (takeWhile (\<lambda>j. is_due i j \<or> j = k) (order i))"
  proof -
    have "drained (flush k i) = drained ?i @ map (\<lambda>j. the (pending ?i j)) (takeWhile (is_due ?i) (order ?i))"
      unfolding flush_def eq by simp
    also have "\<dots> = drained i @ map (\<lambda>j. the (pending ?i j)) (takeWhile (\<lambda>j. is_due i j \<or> j = k) (order i))"
      unfolding m(1,2) tw ..
    also have "map (\<lambda>j. the (pending ?i j)) (takeWhile (\<lambda>j. is_due i j \<or> j = k) (order i)) =
        map (\<lambda>j. (the (pending i j))\<lparr>due := True\<rparr>) (takeWhile (\<lambda>j. is_due i j \<or> j = k) (order i))"
      using vals by (intro map_cong refl)
    finally show ?thesis .
  qed
  moreover have o: "order (flush k i) = dropWhile (\<lambda>j. is_due i j \<or> j = k) (order i)"
    unfolding flush_def eq using tw(2) by (simp add: m(1))
  moreover have "\<exists>e. pending i j = Some e \<and> pending (flush k i) j = Some (if j = k then e\<lparr>due := True\<rparr> else e)"
    if j: "j \<in> set (order (flush k i))" for j
  proof -
    have d: "distinct (order i)" using assms by (simp add: queue_inv_def)
    have "j \<notin> set (takeWhile (\<lambda>j. is_due i j \<or> j = k) (order i))"
      using j d unfolding o by (metis disjoint_iff distinct_append takeWhile_dropWhile_id)
    then have "pending (flush k i) j = pending ?i j" unfolding flush_def eq using tw(1) by (simp add: m(1))
    moreover obtain e where "pending i j = Some e" using dom j unfolding o by (metis set_dropWhileD)
    ultimately show ?thesis by (auto simp: m(3))
  qed
  moreover have "queue_inv (flush k i)" unfolding flush_def using inv by (rule drainDue_inv)
  ultimately show ?thesis by blast
qed

lemma takeWhile_mono_split:
  assumes "\<And>x. P x \<Longrightarrow> Q x"
  shows "takeWhile Q xs = takeWhile P xs @ takeWhile Q (dropWhile P xs)" "dropWhile Q xs = dropWhile Q (dropWhile P xs)"
  by (induction xs) (auto simp: assms)

lemma flushes_eq:
  assumes "queue_inv i" "ks \<noteq> []"
  shows "drained (fold flush ks i) = drained i @ map (\<lambda>j. (the (pending i j))\<lparr>due := True\<rparr>)
           (takeWhile (\<lambda>j. is_due i j \<or> j \<in> set ks) (order i))
    \<and> order (fold flush ks i) = dropWhile (\<lambda>j. is_due i j \<or> j \<in> set ks) (order i)
    \<and> queue_inv (fold flush ks i)"
  using assms
proof (induction ks arbitrary: i)
  case (Cons k ks)
  note f = flush_eq [OF Cons.prems(1), of k]
  show ?case
  proof (cases "ks = []")
    case True
    then show ?thesis using f by simp
  next
    case False
    let ?i = "flush k i"
    note ih = Cons.IH [OF conjunct2 [OF conjunct2 [OF conjunct2 [OF f]]] False]
    have sub: "j \<in> set (order i)" if "j \<in> set (order ?i)" for j using f that by (metis set_dropWhileD)
    have pj: "(the (pending ?i j))\<lparr>due := True\<rparr> = (the (pending i j))\<lparr>due := True\<rparr>
      \<and> is_due ?i j = (is_due i j \<or> j = k)" if j: "j \<in> set (order ?i)" for j
    proof -
      from f j obtain e where "pending i j = Some e" "pending ?i j = Some (if j = k then e\<lparr>due := True\<rparr> else e)"
        by blast
      then show ?thesis by simp
    qed
    have o: "order ?i = dropWhile (\<lambda>j. is_due i j \<or> j = k) (order i)" using f by blast
    have tw: "takeWhile (\<lambda>j. is_due ?i j \<or> j \<in> set ks) (order ?i) = takeWhile (\<lambda>j. is_due i j \<or> j \<in> set (k # ks)) (order ?i)"
      "dropWhile (\<lambda>j. is_due ?i j \<or> j \<in> set ks) (order ?i) = dropWhile (\<lambda>j. is_due i j \<or> j \<in> set (k # ks)) (order ?i)"
      by (rule takeWhile_cong dropWhile_cong; simp add: pj)+
    have "map (\<lambda>j. (the (pending ?i j))\<lparr>due := True\<rparr>) (takeWhile (\<lambda>j. is_due i j \<or> j \<in> set (k # ks)) (order ?i))
      = map (\<lambda>j. (the (pending i j))\<lparr>due := True\<rparr>) (takeWhile (\<lambda>j. is_due i j \<or> j \<in> set (k # ks)) (order ?i))"
      using pj by (intro map_cong refl) (blast dest: set_takeWhileD)
    moreover have "takeWhile (\<lambda>j. is_due i j \<or> j \<in> set (k # ks)) (order i)
       = takeWhile (\<lambda>j. is_due i j \<or> j = k) (order i) @ takeWhile (\<lambda>j. is_due i j \<or> j \<in> set (k # ks)) (order ?i)"
      "dropWhile (\<lambda>j. is_due i j \<or> j \<in> set (k # ks)) (order i) = dropWhile (\<lambda>j. is_due i j \<or> j \<in> set (k # ks)) (order ?i)"
      unfolding o by (rule takeWhile_mono_split; auto)+
    ultimately show ?thesis using ih f unfolding tw by simp
  qed
qed simp

section \<open>Runs of the ingester\<close>

text \<open>One operation per lock section; a \<open>Submit\<close> is an \<open>Admit\<close> and, when accepted, a \<open>Coalesce\<close>.\<close>

datatype ing_op = Admit Payload int | Coalesce Payload | Timer string | Drain | is_CancelPane: CancelPane string | Shutdown

fun apply_op :: "ing_op \<Rightarrow> Ingester \<Rightarrow> Ingester" where
  "apply_op (Admit p now) i = snd (allowAndRecord p now i)"
| "apply_op (Coalesce p) i = coalesce p i"
| "apply_op (Timer k) i = flush k i"
| "apply_op Drain i = drainDue i"
| "apply_op (CancelPane pane) i = fst (Cancel pane i)"
| "apply_op Shutdown i = FlushAll i"

text \<open>The slots a run opens, in order, and the payloads it takes in.\<close>

fun opens :: "ing_op \<Rightarrow> Ingester \<Rightarrow> string list" where
  "opens (Coalesce p) i = (if \<not> closed i \<and> pending i (payload_key p) = None then [payload_key p] else [])"
| "opens _ i = []"

fun takes :: "ing_op \<Rightarrow> Ingester \<Rightarrow> nat" where
  "takes (Coalesce p) i = (if closed i then 0 else 1)"
| "takes _ i = 0"

fun run_opens :: "ing_op list \<Rightarrow> Ingester \<Rightarrow> string list" where
  "run_opens [] i = []"
| "run_opens (op # ops) i = opens op i @ run_opens ops (apply_op op i)"

fun run_takes :: "ing_op list \<Rightarrow> Ingester \<Rightarrow> nat" where
  "run_takes [] i = 0"
| "run_takes (op # ops) i = takes op i + run_takes ops (apply_op op i)"

definition slots :: "Ingester \<Rightarrow> string list" where
  "slots i = map (\<lambda>e. payload_key (payload e)) (drained i) @ order i"

definition bursts :: "Ingester \<Rightarrow> nat" where
  "bursts i = sum_list (map burstCount (drained i)) + sum_list (map (\<lambda>k. burstCount (the (pending i k))) (order i))"

lemma apply_op_inv: "queue_inv i \<Longrightarrow> queue_inv (apply_op op i)"
proof (cases op)
  case (Admit p now)
  obtain ok i' where "allowAndRecord p now i = (ok, i')" by fastforce
  then show "queue_inv i \<Longrightarrow> queue_inv (apply_op op i)"
    using allowAndRecord_keeps [of p now i ok i'] Admit by (simp add: queue_inv_def)
qed (simp_all add: coalesce_inv flush_def mark_due_inv drainDue_inv Cancel_inv FlushAll_inv)

lemma pending_key: "queue_inv i \<Longrightarrow> set ks \<subseteq> set (order i) \<Longrightarrow>
    map (\<lambda>e. payload_key (payload e)) (map (\<lambda>k. the (pending i k)) ks) = ks"
proof (induction ks)
  case (Cons k ks)
  then have "k \<in> dom (pending i)" by (auto simp: queue_inv_def)
  then obtain e where "pending i k = Some e" by blast
  then show ?case using Cons by (auto simp: queue_inv_def)
qed simp

lemma drainDue_slots: "queue_inv i \<Longrightarrow> slots (drainDue i) = slots i"
proof -
  assume q: "queue_inv i"
  have "set (takeWhile (is_due i) (order i)) \<subseteq> set (order i)" by (auto dest: set_takeWhileD)
  from pending_key [OF q this] show ?thesis by (simp add: drainDue_eq [OF q] slots_def)
qed

lemma drainDue_bursts: "queue_inv i \<Longrightarrow> bursts (drainDue i) = bursts i"
proof -
  assume q: "queue_inv i"
  let ?P = "is_due i" and ?f = "\<lambda>k. burstCount (the (pending i k))"
  have "distinct (order i)" using q by (simp add: queue_inv_def)
  then have d: "set (takeWhile ?P (order i)) \<inter> set (dropWhile ?P (order i)) = {}"
    by (metis distinct_append takeWhile_dropWhile_id)
  have "sum_list (map (\<lambda>k. burstCount (the (pending (drainDue i) k))) (dropWhile ?P (order i)))
      = sum_list (map ?f (dropWhile ?P (order i)))"
    using d by (intro arg_cong [where f = sum_list] map_cong refl) (auto simp: drainDue_eq [OF q])
  moreover have "sum_list (map ?f (order i)) =
      sum_list (map ?f (takeWhile ?P (order i))) + sum_list (map ?f (dropWhile ?P (order i)))"
    by (metis map_append sum_list_append takeWhile_dropWhile_id)
  moreover have "order (drainDue i) = dropWhile ?P (order i)"
    "drained (drainDue i) = drained i @ map (\<lambda>k. the (pending i k)) (takeWhile ?P (order i))"
    by (simp_all add: drainDue_eq [OF q])
  ultimately show ?thesis by (simp add: bursts_def comp_def)
qed

lemma mark_due_keeps: "slots (mark_due k i) = slots i" "bursts (mark_due k i) = bursts i"
proof -
  have "burstCount (the (pending (mark_due k i) j)) = burstCount (the (pending i j))" for j
    by (simp add: mark_due_def split: option.split)
  then show "slots (mark_due k i) = slots i" "bursts (mark_due k i) = bursts i"
    by (simp_all add: slots_def bursts_def) (simp_all add: mark_due_def split: option.split)
qed

lemma sum_list_update_one:
  assumes "distinct xs" "x \<in> set xs" "g x = f x + (1::nat)" "\<And>y. y \<noteq> x \<Longrightarrow> g y = f y"
  shows "sum_list (map g xs) = sum_list (map f xs) + 1"
proof -
  obtain us vs where xs: "xs = us @ x # vs" "x \<notin> set us" using assms(2) by (meson split_list_first)
  then have "y \<noteq> x" if "y \<in> set us \<union> set vs" for y using assms(1) that by auto
  then have "map g us = map f us" "map g vs = map f vs" by (intro map_cong refl assms(4); blast)+
  from this [THEN arg_cong, of sum_list] have "sum_list (map g us) = sum_list (map f us)" "sum_list (map g vs) = sum_list (map f vs)" .
  then show ?thesis using xs assms(3) by simp
qed

lemma coalesce_traces:
  assumes q: "queue_inv i"
  shows "slots (coalesce p i) = slots i @ opens (Coalesce p) i \<and> bursts (coalesce p i) = bursts i + takes (Coalesce p) i"
proof (cases "closed i")
  case True
  then show ?thesis by (simp add: coalesce_def Let_def)
next
  case False
  let ?k = "payload_key p"
  show ?thesis
  proof (cases "pending i ?k")
    case None
    then have "?k \<notin> set (order i)" using q by (auto simp: queue_inv_def)
    then have "sum_list (map (\<lambda>k. burstCount (the (pending (coalesce p i) k))) (order i))
        = sum_list (map (\<lambda>k. burstCount (the (pending i k))) (order i))"
      using False None by (intro arg_cong [where f = sum_list] map_cong refl) (auto simp: coalesce_def Let_def)
    moreover have "order (coalesce p i) = order i @ [?k]" "drained (coalesce p i) = drained i"
      "burstCount (the (pending (coalesce p i) ?k)) = 1"
      using False None by (simp_all add: coalesce_def Let_def)
    ultimately show ?thesis using False None by (simp add: slots_def bursts_def)
  next
    case (Some e)
    then have "?k \<in> set (order i)" "distinct (order i)" using q by (auto simp: queue_inv_def)
    then have "sum_list (map (\<lambda>k. burstCount (the (pending (coalesce p i) k))) (order i)) =
        sum_list (map (\<lambda>k. burstCount (the (pending i k))) (order i)) + 1"
      using False Some by (intro sum_list_update_one) (auto simp: coalesce_def Let_def)
    moreover have "order (coalesce p i) = order i" "drained (coalesce p i) = drained i"
      using False Some by (simp_all add: coalesce_def Let_def)
    ultimately show ?thesis using False Some by (simp add: slots_def bursts_def)
  qed
qed

lemma FlushAll_traces: "queue_inv i \<Longrightarrow> slots (FlushAll i) = slots i \<and> bursts (FlushAll i) = bursts i"
  using pending_key [of i "order i"] by (simp add: FlushAll_eq slots_def bursts_def comp_def)

lemma Cancel_slots: "subseq (slots (fst (Cancel pane i))) (slots i)"
  by (auto simp: slots_def Cancel_def Let_def intro: list_emb_append_mono)

lemma apply_op_traces:
  assumes q: "queue_inv i"
  shows "subseq (slots (apply_op op i)) (slots i @ opens op i)
    \<and> ((\<forall>pane. op \<noteq> CancelPane pane) \<longrightarrow> slots (apply_op op i) = slots i @ opens op i
         \<and> bursts (apply_op op i) = bursts i + takes op i)"
proof (cases op)
  case (Admit p now)
  obtain ok i' where a: "allowAndRecord p now i = (ok, i')" by fastforce
  then show ?thesis using allowAndRecord_keeps [OF a] Admit by (simp add: slots_def bursts_def)
next
  case (Coalesce p)
  then show ?thesis using coalesce_traces [OF q, of p] by simp
next
  case (Timer k)
  then show ?thesis
    using drainDue_slots [OF mark_due_inv [OF q]] drainDue_bursts [OF mark_due_inv [OF q]] mark_due_keeps
    by (simp add: flush_def)
next
  case Drain
  then show ?thesis using drainDue_slots [OF q] drainDue_bursts [OF q] by simp
next
  case (CancelPane pane)
  then show ?thesis using Cancel_slots by simp
next
  case Shutdown
  then show ?thesis using FlushAll_traces [OF q] by simp
qed

lemma run_traces:
  assumes "queue_inv i"
  shows "queue_inv (fold apply_op ops i) \<and> subseq (slots (fold apply_op ops i)) (slots i @ run_opens ops i)
    \<and> ((\<forall>pane. CancelPane pane \<notin> set ops) \<longrightarrow> slots (fold apply_op ops i) = slots i @ run_opens ops i
         \<and> bursts (fold apply_op ops i) = bursts i + run_takes ops i)"
  using assms
proof (induction ops arbitrary: i)
  case (Cons op ops)
  have q: "queue_inv (apply_op op i)" using Cons.prems by (rule apply_op_inv)
  note t = apply_op_traces [OF Cons.prems, of op] and ih = Cons.IH [OF q]
  have "subseq (slots (apply_op op i) @ run_opens ops (apply_op op i)) (slots i @ opens op i @ run_opens ops (apply_op op i))"
    using list_emb_append_mono [of "(=)", OF conjunct1 [OF t], of "run_opens ops (apply_op op i)" "run_opens ops (apply_op op i)"]
    by simp
  then have "subseq (slots (fold apply_op (op # ops) i)) (slots i @ run_opens (op # ops) i)"
    using ih subseq_order.trans by auto
  then show ?case using t ih by auto
qed simp

section \<open>The budget of a pane\<close>

fun accept_run :: "int list \<Rightarrow> paneRate \<Rightarrow> int list \<times> paneRate" where
  "accept_run [] r = ([], r)"
| "accept_run (t # ts) r = (case rate_step t r of (v, r') \<Rightarrow> case accept_run ts r' of (acc, r'') \<Rightarrow>
     ((if v = Accepted then t # acc else acc), r''))"

definition spaced :: "int list \<Rightarrow> bool" where
  "spaced acc \<longleftrightarrow> (\<forall>j. j + 100 < length acc \<longrightarrow> acc ! j + rateWindowDuration \<le> acc ! (j + 100))"

text \<open>The window holds the accepted times after some cutoff that lies a window behind the clock.\<close>

definition rate_rel :: "int list \<Rightarrow> int \<Rightarrow> paneRate \<Rightarrow> bool" where
  "rate_rel acc now r \<longleftrightarrow> sorted acc \<and> (\<forall>t \<in> set acc. t \<le> now) \<and> spaced acc
     \<and> (\<exists>c. c \<le> now - rateWindowDuration \<and> timestamps r = filter (\<lambda>t. t > c) acc)"

lemma spaced_snoc:
  assumes "spaced acc" "sorted acc" "length (filter (\<lambda>t. t > now - rateWindowDuration) acc) < 100"
  shows "spaced (acc @ [now])"
  unfolding spaced_def
proof (intro allI impI)
  fix j assume j: "j + 100 < length (acc @ [now])"
  show "(acc @ [now]) ! j + rateWindowDuration \<le> (acc @ [now]) ! (j + 100)"
  proof (cases "j + 100 < length acc")
    case True
    then show ?thesis using assms(1) by (simp add: nth_append spaced_def)
  next
    case False
    with j have len: "length acc = j + 100" by simp
    have "acc ! j \<le> now - rateWindowDuration"
    proof (rule ccontr)
      assume "\<not> ?thesis"
      then have "\<forall>t \<in> set (drop j acc). t > now - rateWindowDuration"
      proof (intro ballI)
        fix t assume "t \<in> set (drop j acc)"
        then obtain n where n: "n < length acc - j" "t = acc ! (j + n)" by (auto simp: in_set_conv_nth)
        then have "acc ! j \<le> t" using sorted_nth_mono [OF assms(2), of j "j + n"] len by simp
        then show "t > now - rateWindowDuration" using \<open>\<not> acc ! j \<le> now - rateWindowDuration\<close> by simp
      qed
      then have "filter (\<lambda>t. t > now - rateWindowDuration) (drop j acc) = drop j acc" by (simp add: filter_id_conv)
      moreover have "filter (\<lambda>t. t > now - rateWindowDuration) acc =
          filter (\<lambda>t. t > now - rateWindowDuration) (take j acc) @ filter (\<lambda>t. t > now - rateWindowDuration) (drop j acc)"
        by (metis append_take_drop_id filter_append)
      ultimately show False using assms(3) len by simp
    qed
    then show ?thesis using len by (simp add: nth_append)
  qed
qed

lemma window_step_rel:
  assumes r: "rate_rel acc prev r" and le: "prev \<le> now" and s: "window_step now r = (v, r')"
  shows "rate_rel (if v = Accepted then acc @ [now] else acc) now r' \<and> v \<noteq> Dropped
    \<and> (v = Accepted \<longrightarrow> dropUntil r' = dropUntil r)
    \<and> (v \<noteq> Accepted \<longrightarrow> dropUntil r' = Some (now + stormPenaltyDuration))"
proof -
  obtain c where c: "c \<le> prev - rateWindowDuration" "timestamps r = filter (\<lambda>t. t > c) acc"
    using r by (auto simp: rate_rel_def)
  let ?c = "now - rateWindowDuration"
  have f: "filter (\<lambda>t. t > ?c) (timestamps r) = filter (\<lambda>t. t > ?c) acc"
    using c le by (auto simp: intro!: filter_cong)
  have acc: "sorted acc" "\<forall>t \<in> set acc. t \<le> now" "spaced acc" using r le by (auto simp: rate_rel_def)
  show ?thesis
  proof (cases "length (filter (\<lambda>t. t > ?c) acc) < 100")
    case True
    then have v: "v = Accepted" "r' = r\<lparr>timestamps := filter (\<lambda>t. t > ?c) acc @ [now]\<rparr>"
      using s unfolding window_step_def Let_def by (simp_all add: f rateWindowSize_def)
    have "rate_rel (acc @ [now]) now r'"
      unfolding rate_rel_def using acc spaced_snoc [OF acc(3,1) True]
      by (auto simp: v(2) sorted_append rateWindowDuration_def intro!: exI [of _ ?c])
    then show ?thesis using v by simp
  next
    case False
    then have v: "v \<noteq> Accepted" "v \<noteq> Dropped" "timestamps r' = filter (\<lambda>t. t > ?c) acc"
      "dropUntil r' = Some (now + stormPenaltyDuration)"
      using s unfolding window_step_def Let_def by (auto simp: f rateWindowSize_def split: if_splits)
    then show ?thesis using acc unfolding rate_rel_def by auto
  qed
qed

lemma rate_step_rel:
  assumes r: "rate_rel acc prev r" and le: "prev \<le> now" and s: "rate_step now r = (v, r')"
  shows "rate_rel (if v = Accepted then acc @ [now] else acc) now r'
    \<and> (\<forall>d. dropUntil r = Some d \<longrightarrow> now < d \<longrightarrow> v = Dropped \<and> dropUntil r' = Some d)
    \<and> (v \<noteq> Accepted \<longrightarrow> v \<noteq> Dropped \<longrightarrow> dropUntil r' = Some (now + stormPenaltyDuration))"
proof (cases "dropUntil r")
  case None
  then show ?thesis using s window_step_rel [OF r le] by (simp add: rate_step_def)
next
  case (Some d)
  show ?thesis
  proof (cases "now < d")
    case True
    then have "v = Dropped" "r' = r\<lparr>droppedCount := droppedCount r + 1\<rparr>" using s Some by (auto simp: rate_step_def)
    moreover have "rate_rel acc now r"
    proof -
      obtain c where "c \<le> prev - rateWindowDuration" "timestamps r = filter (\<lambda>t. t > c) acc"
        using r by (auto simp: rate_rel_def)
      moreover from this have "c \<le> now - rateWindowDuration" using le by simp
      moreover have "sorted acc" "spaced acc" "\<forall>t \<in> set acc. t \<le> now" using r le by (auto simp: rate_rel_def)
      ultimately show ?thesis unfolding rate_rel_def by blast
    qed
    ultimately show ?thesis using Some by (simp add: rate_rel_def)
  next
    case False
    let ?r = "r\<lparr>dropUntil := None, stormReported := False, droppedCount := 0\<rparr>"
    have "rate_rel acc prev ?r" using r by (simp add: rate_rel_def)
    from window_step_rel [OF this le] show ?thesis using s Some False by (simp add: rate_step_def)
  qed
qed

lemma accept_run_rel:
  assumes "rate_rel acc prev r" "sorted (prev # ts)"
  shows "spaced (acc @ fst (accept_run ts r))"
  using assms
proof (induction ts arbitrary: acc prev r)
  case (Cons t ts)
  obtain v r' where s: "rate_step t r = (v, r')" by fastforce
  have "rate_rel (if v = Accepted then acc @ [t] else acc) t r'"
    using rate_step_rel [OF Cons.prems(1) _ s] Cons.prems(2) by simp
  from Cons.IH [OF this] Cons.prems(2) show ?case by (simp add: s case_prod_unfold split: if_splits)
qed (simp add: rate_rel_def)

lemma penalty_run:
  assumes "dropUntil r = Some d" "sorted ts"
  shows "\<forall>t \<in> set (fst (accept_run ts r)). d \<le> t"
  using assms
proof (induction ts arbitrary: r)
  case (Cons t ts)
  have sub: "set (fst (accept_run ts r)) \<subseteq> set ts" for ts r
    by (induction ts arbitrary: r) (auto simp: case_prod_unfold)
  show ?case
  proof (cases "t < d")
    case True
    then have "rate_step t r = (Dropped, r\<lparr>droppedCount := droppedCount r + 1\<rparr>)" using Cons.prems by (simp add: rate_step_def)
    then show ?thesis using Cons.IH [of "r\<lparr>droppedCount := droppedCount r + 1\<rparr>"] Cons.prems by (auto simp: case_prod_unfold)
  next
    case False
    then have "\<forall>u \<in> set (t # ts). d \<le> u" using Cons.prems(2) by auto
    then show ?thesis using sub [of "t # ts" r] by blast
  qed
qed simp

section \<open>The digit loop\<close>

lemma format_loop_decimal: "0 < v \<Longrightarrow> format_loop v buf = decimal v @ buf"
proof (induction v buf rule: format_loop.induct)
  case (1 v buf)
  show ?case
  proof (cases "v < 10")
    case True
    then show ?thesis using "1.prems" by (subst format_loop.simps, subst format_loop.simps, subst decimal.simps) simp
  next
    case False
    then have "format_loop (v div 10) (char_of (48 + v mod 10) # buf) = decimal (v div 10) @ char_of (48 + v mod 10) # buf"
      using 1 by simp
    then show ?thesis using False by (subst format_loop.simps, subst decimal.simps) simp
  qed
qed

lemma formatUint_decimal: "formatUint v = decimal v"
proof (cases "v = 0")
  case True
  have "char_of (48 :: nat) = CHR ''0''" by code_simp
  with True show ?thesis by (simp add: formatUint_def decimal.simps [of 0])
qed (simp add: formatUint_def format_loop_decimal)

lemma length_decimal: "v < 10 ^ n \<Longrightarrow> 0 < n \<Longrightarrow> length (decimal v) \<le> n"
proof (induction n arbitrary: v)
  case (Suc n)
  show ?case
  proof (cases "v < 10")
    case True
    then show ?thesis by (subst decimal.simps) simp
  next
    case False
    then have "0 < n" using Suc.prems by (cases n) auto
    moreover have "v div 10 < 10 ^ n" using Suc.prems by simp
    ultimately show ?thesis using Suc.IH False by (subst decimal.simps) simp
  qed
qed simp

lemma NewIngester_inv: "queue_inv NewIngester"
  by (simp add: NewIngester_def queue_inv_def)

interpretation ingester: machine "\<lambda>i. i = NewIngester" "\<lambda>i j. \<exists>op. j = apply_op op i" queue_inv
  by unfold_locales (auto simp: NewIngester_inv intro: apply_op_inv)

lemma fold_inv: "queue_inv (fold apply_op ops NewIngester)"
  using run_traces [OF NewIngester_inv] by blast

lemma closed_emits_nothing:
  assumes "queue_inv i" "closed i"
  shows "drained (apply_op op i) = drained i"
proof (cases op)
  case (Admit p now)
  obtain ok i' where a: "allowAndRecord p now i = (ok, i')" by fastforce
  then show ?thesis using allowAndRecord_keeps [OF a] Admit by simp
next
  case (Timer k)
  have "order (mark_due k i) = []" "drained (mark_due k i) = drained i"
    using assms by (auto simp: mark_due_def queue_inv_def split: option.split)
  then show ?thesis using Timer by (simp add: flush_def drainDue_def)
next
  case Drain
  then show ?thesis using assms by (simp add: drainDue_def queue_inv_def)
next
  case Shutdown
  then show ?thesis using assms by (simp add: FlushAll_def queue_inv_def)
qed (use assms in \<open>auto simp: coalesce_def Cancel_def Let_def\<close>)

section \<open>Properties\<close>

text \<open>A coalescing key identifies the pane, the event and the agent it was built from, whatever
  bytes the producer put in the last two; and the prefix that \<open>Cancel\<close> matches picks exactly the keys
  of the pane that is destroyed. (A pane identifier has no NUL: \<open>safePaneID\<close>.)\<close>

theorem coalesceKey_identifies:
  assumes "NUL \<notin> set p" "NUL \<notin> set q"
  shows "(coalesceKey p e a = coalesceKey q f b \<longleftrightarrow> p = q \<and> e = f \<and> a = b)
    \<and> (prefix (p @ [NUL]) (coalesceKey q f b) \<longleftrightarrow> p = q)"
  using coalesceKey_inj [OF assms] prefix_key [OF assms] by blast

theorem coalesceKey_identifies_witness:
  "coalesceKey ''p1'' ''SubagentStart'' (NUL # ''X'') \<noteq> coalesceKey ''p1'' (''SubagentStart'' @ [NUL]) ''X''"
proof -
  have "NUL \<notin> set ''p1''" by (simp add: NUL_def char_of_def)
  from coalesceKey_identifies [OF this this] show ?thesis by simp
qed

text \<open>The order in which the timer goroutines run does not matter. In any reachable state, once the
  timer of every pending key has run, in any order and with any repetition, every pending event has
  been emitted, in arrival order, and none is left.\<close>

theorem timers_release_in_arrival_order:
  fixes ops :: "ing_op list"
  defines "i \<equiv> fold apply_op ops NewIngester"
  assumes "set (order i) \<subseteq> set ks" "ks \<noteq> []"
  shows "order (fold flush ks i) = [] \<and> pending (fold flush ks i) = Map.empty
    \<and> map payload (drained (fold flush ks i)) = map payload (drained i) @ map (\<lambda>k. payload (the (pending i k))) (order i)
    \<and> map burstCount (drained (fold flush ks i)) = map burstCount (drained i) @ map (\<lambda>k. burstCount (the (pending i k))) (order i)"
proof -
  have q: "queue_inv i" unfolding i_def by (rule fold_inv)
  have all: "takeWhile (\<lambda>j. is_due i j \<or> j \<in> set ks) (order i) = order i"
    "dropWhile (\<lambda>j. is_due i j \<or> j \<in> set ks) (order i) = []"
    using assms(2) by (auto simp: takeWhile_eq_all_conv dropWhile_eq_Nil_conv)
  note f = flushes_eq [OF q assms(3), unfolded all]
  then have "set (order (fold flush ks i)) = dom (pending (fold flush ks i))" unfolding queue_inv_def by blast
  then have "pending (fold flush ks i) = Map.empty" using f by (metis dom_eq_empty_conv list.set(1))
  then show ?thesis using f by (simp add: comp_def)
qed

definition sample_payload :: "string \<Rightarrow> string \<Rightarrow> Payload" where
  "sample_payload pane ev = \<lparr>V = 1, TsMs = 0, Seq = 0, PaneID = pane, Source = ''claude'', HookEvent = ev,
     SessionID = [], TranscriptPath = [], CWD = [], Title = ''t'', Severity = [], Data = None\<rparr>"

theorem timers_release_in_arrival_order_witness:
  "let a = sample_payload ''p'' ''SubagentStart''; b = sample_payload ''p'' ''SubagentStop'';
       i = fold apply_op [Coalesce a, Coalesce b, Coalesce a] NewIngester
   in map payload (drained (fold flush [payload_key b, payload_key a] i)) = [a, b]"
proof -
  let ?a = "sample_payload ''p'' ''SubagentStart''" and ?b = "sample_payload ''p'' ''SubagentStop''"
  let ?ops = "[Coalesce ?a, Coalesce ?b, Coalesce ?a]"
  define i where "i = fold apply_op ?ops NewIngester"
  have n: "NUL \<notin> set ''p''" by (simp add: NUL_def char_of_def)
  have "payload_key ?a \<noteq> payload_key ?b"
  proof
    assume "payload_key ?a = payload_key ?b"
    then have "coalesceKey ''p'' ''SubagentStart'' [] = coalesceKey ''p'' ''SubagentStop'' []"
      by (simp add: payload_key_def sample_payload_def lookup_def)
    from coalesceKey_inj [OF n n this] show False by simp
  qed
  then have s: "order i = [payload_key ?a, payload_key ?b]" "drained i = []"
    "payload (the (pending i (payload_key ?a))) = ?a" "payload (the (pending i (payload_key ?b))) = ?b"
    by (simp_all add: i_def coalesce_def NewIngester_def Let_def)
  have "set (order i) \<subseteq> set [payload_key ?b, payload_key ?a]" using s(1) by simp
  from timers_release_in_arrival_order [of ?ops, folded i_def, OF this]
  have "map payload (drained (fold flush [payload_key ?b, payload_key ?a] i)) = [?a, ?b]"
    using s by simp
  then show ?thesis unfolding Let_def i_def .
qed

text \<open>C12. The coalescer loses nothing and invents nothing. Over any sequence of its lock sections without
  a cancelled pane, the events emitted followed by those pending are the slots opened, in the order of
  their first arrival, and their burst counts add up to the number of payloads taken in. A cancelled
  pane only takes slots out, never reorders. Once it is shut down nothing more is emitted.\<close>

theorem coalescer_conserves:
  "slots (fold apply_op (filter (\<lambda>op. \<not> is_CancelPane op) ops) NewIngester)
      = run_opens (filter (\<lambda>op. \<not> is_CancelPane op) ops) NewIngester
   \<and> bursts (fold apply_op (filter (\<lambda>op. \<not> is_CancelPane op) ops) NewIngester)
      = run_takes (filter (\<lambda>op. \<not> is_CancelPane op) ops) NewIngester
   \<and> subseq (slots (fold apply_op ops NewIngester)) (run_opens ops NewIngester)
   \<and> drained (fold apply_op (ops @ Shutdown # later) NewIngester) = drained (fold apply_op (ops @ [Shutdown]) NewIngester)"
proof -
  have z: "slots NewIngester = []" "bursts NewIngester = 0" by (simp_all add: slots_def bursts_def NewIngester_def)
  have "CancelPane pane \<notin> set (filter (\<lambda>op. \<not> is_CancelPane op) ops)" for pane by simp
  moreover have "drained (fold apply_op later i) = drained i" if "queue_inv i" "closed i" for i later
    using that
  proof (induction later arbitrary: i)
    case (Cons op later)
    have "closed (apply_op op i)"
    proof (cases op)
      case (Admit p now)
      obtain ok i' where a: "allowAndRecord p now i = (ok, i')" by fastforce
      then show ?thesis using allowAndRecord_keeps [OF a] Admit Cons.prems by simp
    qed (use Cons.prems in \<open>auto simp: coalesce_def Cancel_def Let_def flush_def mark_due_def drainDue_def FlushAll_def
           split: option.split prod.split\<close>)
    then show ?case using Cons.IH [OF apply_op_inv [OF Cons.prems(1)]] closed_emits_nothing [OF Cons.prems] by simp
  qed simp
  moreover have "queue_inv (fold apply_op (ops @ [Shutdown]) NewIngester)" by (rule fold_inv)
  moreover have "closed (fold apply_op (ops @ [Shutdown]) NewIngester)"
    by (simp add: FlushAll_def split: prod.split)
  ultimately show ?thesis using run_traces [OF NewIngester_inv] z by (simp del: filter_filter)
qed

text \<open>C13. A pane's budget. With a clock that does not run backwards, any 101 consecutive accepted events
  of a pane span at least two seconds; and once an event trips the limiter, none is accepted for the
  next ten seconds.\<close>

theorem rate_budget:
  assumes "sorted ts"
  shows "spaced (fst (accept_run ts fresh_rate))
    \<and> (\<forall>r r' now report. rate_step now r = (Tripped report, r') \<longrightarrow>
        (\<forall>t \<in> set (fst (accept_run ts r')). now + stormPenaltyDuration \<le> t))"
proof -
  have "rate_rel [] (if ts = [] then 0 else hd ts) fresh_rate"
    by (auto simp: rate_rel_def fresh_rate_def spaced_def)
  moreover have "sorted ((if ts = [] then 0 else hd ts) # ts)" using assms by (cases ts) auto
  ultimately have "spaced ([] @ fst (accept_run ts fresh_rate))" by (rule accept_run_rel)
  moreover have "dropUntil r' = Some (now + stormPenaltyDuration)" if "rate_step now r = (Tripped report, r')" for r r' now report
    using that by (auto simp: rate_step_def window_step_def Let_def split: option.splits if_splits)
  ultimately have "\<forall>t \<in> set (fst (accept_run ts r')). now + stormPenaltyDuration \<le> t"
    if "rate_step now r = (Tripped report, r')" for r r' now report
    using penalty_run assms that by blast
  with \<open>spaced ([] @ fst (accept_run ts fresh_rate))\<close> show ?thesis by auto
qed

theorem rate_budget_witness:
  "spaced (fst (accept_run (replicate 150 rateWindowDuration) fresh_rate))"
  using rate_budget [of "replicate 150 rateWindowDuration"] by simp

end
