(* ===== verification/Hook_Spool.thy ===== *)
theory Hook_Spool
  imports Hook_Ingest
begin

text \<open>
  The reader of the hook event spool (\<open>internal/hookevents/spool.go\<close>): one append-only file of JSON
  lines per pane, read from where the last tick stopped, a partial last line left for the next tick,
  the file truncated once it is large and fully read.

  The directory is a map from file names to contents (regular files only), \<open>names\<close> the order
  \<open>os.ReadDir\<close> lists them in, \<open>info\<close> the size a directory entry reports (\<open>None\<close> when \<open>Info\<close> fails),
  \<open>can_trunc\<close> whether the operating system lets a file be truncated. \<open>json.Unmarshal\<close> is the
  parameter \<open>decode\<close>, \<open>None\<close> an error; nothing is assumed of it. A failed open or stat of a file that
  exists, and a read error, are not modelled.
\<close>

section \<open>State\<close>

record Spool =
  offsets :: "string \<rightharpoonup> nat"
  parseErrCounts :: "string \<rightharpoonup> nat"

definition NewSpool :: Spool where
  "NewSpool = \<lparr>offsets = Map.empty, parseErrCounts = Map.empty\<rparr>"

definition rotationThreshold :: nat where "rotationThreshold = 16 * 1024 * 1024"
definition MaxTotalBytes :: nat where "MaxTotalBytes = 2 * 1024"

definition utf8BOM :: string where "utf8BOM = map char_of [239, 187, 191 :: nat]"

definition jsonl :: string where "jsonl = ''.jsonl''"

definition newline :: char where "newline = char_of (10 :: nat)"

definition offset_of :: "Spool \<Rightarrow> string \<Rightarrow> nat" where
  "offset_of s pane = (case offsets s pane of None \<Rightarrow> 0 | Some n \<Rightarrow> n)"

section \<open>Pane identifiers and lines\<close>

fun has_dotdot :: "string \<Rightarrow> bool" where
  "has_dotdot (a # b # s) \<longleftrightarrow> (a = CHR ''.'' \<and> b = CHR ''.'') \<or> has_dotdot (b # s)"
| "has_dotdot _ \<longleftrightarrow> False"

definition safePaneID :: "string \<Rightarrow> bool" where
  "safePaneID pane =
    (if pane = [] then False
     else if list_ex (\<lambda>c. c \<in> {CHR ''/'', Backslash, NUL}) pane then False
     else if pane = ''.'' \<or> pane = ''..'' then False
     else if has_dotdot pane then False
     else True)"

definition isWhitespaceLine :: "string \<Rightarrow> bool" where
  "isWhitespaceLine b = list_all (\<lambda>c. c = CHR '' '' \<or> c = char_of (9 :: nat)) b"

text \<open>Repeated \<open>ReadBytes\<close>: the complete lines, without their newline, and the partial rest.\<close>

fun split_lines :: "string \<Rightarrow> string \<Rightarrow> string list \<times> string" where
  "split_lines cur [] = ([], cur)"
| "split_lines cur (c # cs) =
     (if c = newline then (case split_lines [] cs of (ls, r) \<Rightarrow> (cur # ls, r))
      else split_lines (cur @ [c]) cs)"

definition trim_BOM :: "string \<Rightarrow> string" where
  "trim_BOM line = (if prefix utf8BOM line then drop (length utf8BOM) line else line)"

text \<open>What a line is worth: a payload, or nothing. The counter only samples the warning.\<close>

definition parse_line :: "(string \<Rightarrow> Payload option) \<Rightarrow> string \<Rightarrow> string \<Rightarrow> Payload option" where
  "parse_line decode pane line =
    (if length line > MaxTotalBytes then None
     else case decode (trim_BOM line) of
       None \<Rightarrow> None
     | Some p \<Rightarrow> if Validate p \<noteq> None then None else if PaneID p \<noteq> pane then None else Some p)"

definition sampledParseWarn :: "string \<Rightarrow> Spool \<Rightarrow> Spool" where
  "sampledParseWarn pane s = s\<lparr>parseErrCounts := (parseErrCounts s)(pane \<mapsto>
     ((case parseErrCounts s pane of None \<Rightarrow> 0 | Some n \<Rightarrow> n) + 1) mod 2 ^ 64)\<rparr>"

definition parseAndValidate ::
  "(string \<Rightarrow> Payload option) \<Rightarrow> string \<Rightarrow> string \<Rightarrow> Spool \<Rightarrow> Payload option \<times> Spool" where
  "parseAndValidate decode pane line s = (case parse_line decode pane line of
     None \<Rightarrow> (None, sampledParseWarn pane s) | Some p \<Rightarrow> (Some p, s))"

fun read_loop ::
  "(string \<Rightarrow> Payload option) \<Rightarrow> string \<Rightarrow> string list \<Rightarrow> nat \<Rightarrow> Spool \<Rightarrow> Payload list \<times> nat \<times> Spool" where
  "read_loop decode pane [] consumed s = ([], consumed, s)"
| "read_loop decode pane (line # ls) consumed s =
     (let consumed' = consumed + (length line + 1)
      in if line = [] \<or> isWhitespaceLine line then read_loop decode pane ls consumed' s
         else case parseAndValidate decode pane line s of (r, s1) \<Rightarrow>
              case read_loop decode pane ls consumed' s1 of (out, c, s2) \<Rightarrow>
                (case r of None \<Rightarrow> out | Some p \<Rightarrow> p # out, c, s2))"

section \<open>A tick\<close>

type_synonym files = "string \<rightharpoonup> string"

definition rotate_spool :: "(string \<Rightarrow> bool) \<Rightarrow> string \<Rightarrow> string \<Rightarrow> files \<Rightarrow> Spool \<Rightarrow> files \<times> Spool" where
  "rotate_spool can_trunc pane name fs s =
    (if can_trunc name then (fs(name \<mapsto> []), s\<lparr>offsets := (offsets s)(pane \<mapsto> 0)\<rparr>) else (fs, s))"

definition readPaneFile ::
  "(string \<Rightarrow> Payload option) \<Rightarrow> (string \<Rightarrow> bool) \<Rightarrow> string \<Rightarrow> string \<Rightarrow> files \<Rightarrow> Spool \<Rightarrow> Payload list \<times> files \<times> Spool" where
  "readPaneFile decode can_trunc pane name fs s =
    (if \<not> safePaneID pane then ([], fs, s)
     else case fs name of
       None \<Rightarrow> ([], fs, s)
     | Some content \<Rightarrow>
       (let off = offset_of s pane; sz = length content in
        if sz = off
        then (if sz \<ge> rotationThreshold
              then (case rotate_spool can_trunc pane name fs s of (fs', s') \<Rightarrow> ([], fs', s'))
              else ([], fs, s))
        else
         let off' = (if sz < off then 0 else off);
             (lines, partial) = split_lines [] (drop off' content);
             (out, consumed, s1) = read_loop decode pane lines off' s
         in (out, fs, s1\<lparr>offsets := (offsets s1)(pane \<mapsto> consumed)\<rparr>)))"

definition is_spool_name :: "string \<Rightarrow> bool" where
  "is_spool_name name = suffix jsonl name"

definition pane_of :: "string \<Rightarrow> string" where
  "pane_of name = take (length name - length jsonl) name"

definition tick_file ::
  "(string \<Rightarrow> Payload option) \<Rightarrow> (string \<Rightarrow> bool) \<Rightarrow> (string \<Rightarrow> nat option) \<Rightarrow> string \<Rightarrow> files \<Rightarrow> Spool
    \<Rightarrow> Payload list \<times> files \<times> Spool" where
  "tick_file decode can_trunc info name fs s =
    (if \<not> is_spool_name name then ([], fs, s)
     else
      let pane = pane_of name;
          skip = (case info name of None \<Rightarrow> False
                  | Some sz \<Rightarrow> sz = offset_of s pane \<and> sz < rotationThreshold)
      in if skip then ([], fs, s) else readPaneFile decode can_trunc pane name fs s)"

fun Tick ::
  "(string \<Rightarrow> Payload option) \<Rightarrow> (string \<Rightarrow> bool) \<Rightarrow> (string \<Rightarrow> nat option) \<Rightarrow> string list \<Rightarrow> files \<Rightarrow> Spool
    \<Rightarrow> Payload list \<times> files \<times> Spool" where
  "Tick decode can_trunc info [] fs s = ([], fs, s)"
| "Tick decode can_trunc info (name # names) fs s =
     (case tick_file decode can_trunc info name fs s of (out, fs1, s1) \<Rightarrow>
      case Tick decode can_trunc info names fs1 s1 of (out', fs2, s2) \<Rightarrow> (out @ out', fs2, s2))"

section \<open>Start and clean-up\<close>

text \<open>\<open>Init\<close> removes every spool file, or empties what cannot be removed; only then does it forget.\<close>

definition init_file :: "(string \<Rightarrow> bool) \<Rightarrow> (string \<Rightarrow> bool) \<Rightarrow> string \<Rightarrow> files \<Rightarrow> files" where
  "init_file can_remove can_trunc name fs =
    (if \<not> is_spool_name name then fs
     else if can_remove name then fs(name := None)
     else if can_trunc name then fs(name \<mapsto> [])
     else fs)"

definition Init :: "(string \<Rightarrow> bool) \<Rightarrow> (string \<Rightarrow> bool) \<Rightarrow> string list \<Rightarrow> files \<Rightarrow> Spool \<Rightarrow> files \<times> Spool" where
  "Init can_remove can_trunc names fs s =
    (fold (init_file can_remove can_trunc) names fs, s\<lparr>offsets := Map.empty, parseErrCounts := Map.empty\<rparr>)"

definition Cleanup :: "(string \<Rightarrow> bool) \<Rightarrow> string \<Rightarrow> files \<Rightarrow> Spool \<Rightarrow> files \<times> Spool" where
  "Cleanup can_remove pane fs s =
    (if \<not> safePaneID pane then (fs, s)
     else (if can_remove (pane @ jsonl) then fs(pane @ jsonl := None) else fs,
           s\<lparr>offsets := (offsets s)(pane := None), parseErrCounts := (parseErrCounts s)(pane := None)\<rparr>))"

section \<open>Lines\<close>

definition lines_size :: "string list \<Rightarrow> nat" where
  "lines_size ls = sum_list (map (\<lambda>l. length l + 1) ls)"

lemma lines_size_simps [simp]: "lines_size [] = 0" "lines_size (l # ls) = length l + 1 + lines_size ls"
  by (simp_all add: lines_size_def)

lemma split_lines_append:
  "split_lines cur (xs @ ys) = (case split_lines cur xs of (ls, r) \<Rightarrow>
     case split_lines r ys of (ls', r') \<Rightarrow> (ls @ ls', r'))"
  by (induction cur xs rule: split_lines.induct) (auto split: prod.splits)

lemma split_lines_size: "split_lines cur xs = (ls, r) \<Longrightarrow> lines_size ls + length r = length cur + length xs"
  by (induction cur xs arbitrary: ls r rule: split_lines.induct) (force split: if_splits prod.splits)+

lemma split_lines_rest: "newline \<notin> set cur \<Longrightarrow> split_lines cur xs = (ls, r) \<Longrightarrow> newline \<notin> set r"
  by (induction cur xs arbitrary: ls r rule: split_lines.induct) (auto split: if_splits prod.splits)

lemma split_lines_none: "newline \<notin> set xs \<Longrightarrow> split_lines cur xs = ([], cur @ xs)"
  by (induction xs arbitrary: cur) auto

lemma split_lines_suffix: "split_lines cur xs = (ls, r) \<Longrightarrow> suffix r (cur @ xs)"
proof (induction cur xs arbitrary: ls r rule: split_lines.induct)
  case (2 cur c cs)
  show ?case
  proof (cases "c = newline")
    case True
    then obtain ls' where "split_lines [] cs = (ls', r)" using "2.prems" by (auto split: prod.splits)
    then have "suffix r cs" using "2.IH"(1) [OF True] by fastforce
    then show ?thesis by (auto simp: suffix_def)
  next
    case False
    then show ?thesis using 2 by auto
  qed
qed simp

lemma split_lines_complete:
  assumes "split_lines [] xs = (ls, r)"
  shows "split_lines [] (take (length xs - length r) xs) = (ls, [])" "drop (length xs - length r) xs = r"
proof -
  have "suffix r xs" using split_lines_suffix [OF assms] by simp
  then obtain ys where ys: "xs = ys @ r" by (auto simp: suffix_def)
  then show "drop (length xs - length r) xs = r" by simp
  have nl: "newline \<notin> set r" using split_lines_rest [OF _ assms] by simp
  obtain ls1 r1 where s: "split_lines [] ys = (ls1, r1)" by fastforce
  then have "split_lines [] xs = (ls1, r1 @ r)"
    unfolding ys split_lines_append using split_lines_none [OF nl] by simp
  then have "r1 = []" "ls1 = ls" using assms by auto
  then show "split_lines [] (take (length xs - length r) xs) = (ls, [])" using s ys by simp
qed

section \<open>One file\<close>

definition blank :: "string \<Rightarrow> bool" where
  "blank l \<longleftrightarrow> l = [] \<or> isWhitespaceLine l"

text \<open>The payloads of a list of lines: those that are not blank, decode, are valid and name the pane.\<close>

definition accepted :: "(string \<Rightarrow> Payload option) \<Rightarrow> string \<Rightarrow> string list \<Rightarrow> Payload list" where
  "accepted decode pane ls = List.map_filter (\<lambda>l. if blank l then None else parse_line decode pane l) ls"

lemma accepted_simps [simp]:
  "accepted decode pane [] = []"
  "accepted decode pane (ls @ ls') = accepted decode pane ls @ accepted decode pane ls'"
  by (simp_all add: accepted_def map_filter_def)

lemma accepted_own: "p \<in> set (accepted decode pane ls) \<Longrightarrow> PaneID p = pane \<and> Validate p = None"
  by (auto simp: accepted_def map_filter_def parse_line_def split: if_splits option.splits)

lemma read_loop_eq:
  "\<exists>counts. read_loop decode pane ls c s = (accepted decode pane ls, c + lines_size ls, s\<lparr>parseErrCounts := counts\<rparr>)"
proof (induction ls arbitrary: c s)
  case Nil
  show ?case by (rule exI [of _ "parseErrCounts s"]) simp
next
  case (Cons l ls)
  show ?case
  proof (cases "blank l")
    case True
    then show ?thesis using Cons.IH [of "c + (length l + 1)" s] by (auto simp: blank_def accepted_def map_filter_def Let_def add.assoc)
  next
    case False
    let ?s = "snd (parseAndValidate decode pane l s)"
    have s: "\<exists>counts. ?s = s\<lparr>parseErrCounts := counts\<rparr>"
    proof (cases "parse_line decode pane l")
      case (Some p)
      then show ?thesis by (intro exI [of _ "parseErrCounts s"]) (simp add: parseAndValidate_def)
    qed (auto simp: parseAndValidate_def sampledParseWarn_def)
    obtain counts where "read_loop decode pane ls (c + (length l + 1)) ?s =
        (accepted decode pane ls, c + (length l + 1) + lines_size ls, ?s\<lparr>parseErrCounts := counts\<rparr>)"
      using Cons.IH by blast
    moreover have "fst (parseAndValidate decode pane l s) = parse_line decode pane l"
      by (simp add: parseAndValidate_def split: option.split)
    ultimately show ?thesis
      using False s
      by (auto simp: blank_def accepted_def map_filter_def Let_def add.assoc case_prod_unfold split: option.split)
  qed
qed

definition honest :: "(string \<Rightarrow> nat option) \<Rightarrow> files \<Rightarrow> string \<Rightarrow> bool" where
  "honest info fs name \<longleftrightarrow> info name = None \<or> info name = map_option length (fs name)"

lemma tick_file_step:
  assumes n: "is_spool_name name" "safePaneID (pane_of name)" and c: "fs name = Some content"
    and off: "offset_of s (pane_of name) \<le> length content" and h: "honest info fs name"
    and sp: "split_lines [] (drop (offset_of s (pane_of name)) content) = (ls, r)"
    and t: "tick_file decode can_trunc info name fs s = (out, fs', s')"
  shows "out = accepted decode (pane_of name) ls
    \<and> (fs' name = Some content \<and> offset_of s' (pane_of name) = length content - length r
       \<or> fs' name = Some [] \<and> offset_of s' (pane_of name) = 0 \<and> ls = [] \<and> r = [] \<and>
         offset_of s (pane_of name) = length content)"
proof (cases "length content = offset_of s (pane_of name)")
  case True
  then have e: "ls = []" "r = []" using sp by auto
  have "tick_file decode can_trunc info name fs s \<in>
      {([], fs, s), ([], fs(name \<mapsto> []), s\<lparr>offsets := (offsets s)(pane_of name \<mapsto> 0)\<rparr>)}"
    using n c True by (auto simp: tick_file_def readPaneFile_def rotate_spool_def Let_def)
  then show ?thesis using t c True e by (auto simp: offset_of_def)
next
  case False
  obtain counts where r: "read_loop decode (pane_of name) ls (offset_of s (pane_of name)) s =
      (accepted decode (pane_of name) ls, offset_of s (pane_of name) + lines_size ls, s\<lparr>parseErrCounts := counts\<rparr>)"
    using read_loop_eq by blast
  have skip: "\<not> (case info name of None \<Rightarrow> False
       | Some sz \<Rightarrow> sz = offset_of s (pane_of name) \<and> sz < rotationThreshold)"
    using h c False by (auto simp: honest_def)
  have "tick_file decode can_trunc info name fs s = (accepted decode (pane_of name) ls, fs,
      s\<lparr>parseErrCounts := counts, offsets := (offsets s)(pane_of name \<mapsto> offset_of s (pane_of name) + lines_size ls)\<rparr>)"
    using n c False off sp r skip by (simp add: tick_file_def readPaneFile_def Let_def)
  moreover have "offset_of s (pane_of name) + lines_size ls = length content - length r"
    using split_lines_size [OF sp] off by simp
  ultimately show ?thesis using t c by (auto simp: offset_of_def)
qed

lemma tick_file_frame:
  assumes "tick_file decode can_trunc info other fs s = (out, fs', s')" "other \<noteq> name" "is_spool_name name"
  shows "fs' name = fs name \<and> offset_of s' (pane_of name) = offset_of s (pane_of name)
    \<and> (\<forall>p \<in> set out. PaneID p \<noteq> pane_of name)"
proof (cases "is_spool_name other")
  case True
  then have p: "pane_of other \<noteq> pane_of name"
    using assms(2,3) by (auto simp: is_spool_name_def suffix_def pane_of_def)
  define ls where "ls = (\<lambda>d c. fst (split_lines [] (drop d c)))"
  define rem where "rem = (\<lambda>d c. snd (split_lines [] (drop d c)))"
  have sp: "split_lines [] (drop d c) = (ls d c, rem d c)" for d c by (simp add: ls_def rem_def)
  have rl: "\<exists>counts. read_loop decode (pane_of other) l o' s =
      (accepted decode (pane_of other) l, o' + lines_size l, s\<lparr>parseErrCounts := counts\<rparr>)" for l o'
    by (rule read_loop_eq)
  show ?thesis
  proof (cases "fs other")
    case None
    then have "out = []" "fs' = fs" "s' = s" using assms(1) by (auto simp: tick_file_def readPaneFile_def Let_def split: if_splits)
    then show ?thesis by simp
  next
    case (Some c)
    let ?off = "if length c < offset_of s (pane_of other) then 0 else offset_of s (pane_of other)"
    obtain counts where r: "read_loop decode (pane_of other) (ls ?off c) ?off s =
      (accepted decode (pane_of other) (ls ?off c), ?off + lines_size (ls ?off c), s\<lparr>parseErrCounts := counts\<rparr>)"
      using rl by blast
    have "(out, fs', s') \<in> {([], fs, s), ([], fs(other \<mapsto> []), s\<lparr>offsets := (offsets s)(pane_of other \<mapsto> 0)\<rparr>),
       (accepted decode (pane_of other) (ls ?off c), fs,
        s\<lparr>parseErrCounts := counts, offsets := (offsets s)(pane_of other \<mapsto> ?off + lines_size (ls ?off c))\<rparr>)}"
      using assms(1) Some r sp [of ?off c] True
      by (auto simp: tick_file_def readPaneFile_def rotate_spool_def Let_def split: if_splits)
    then show ?thesis using p assms(2) accepted_own [of _ decode "pane_of other"] by (auto simp: offset_of_def)
  qed
next
  case False
  then show ?thesis using assms(1) by (simp add: tick_file_def)
qed

section \<open>The whole directory\<close>

lemma Tick_result:
  assumes "is_spool_name name" "distinct names"
    "\<And>fs' s'. fs' name = fs name \<Longrightarrow> offset_of s' (pane_of name) = offset_of s (pane_of name) \<Longrightarrow>
       tick_file decode can_trunc info name fs' s' = X fs' s' \<Longrightarrow> Q (X fs' s')"
    "\<And>out fs1 s1 fs2 s2. Q (out, fs1, s1) \<Longrightarrow> fs2 name = fs1 name \<Longrightarrow>
       offset_of s2 (pane_of name) = offset_of s1 (pane_of name) \<Longrightarrow> Q (out, fs2, s2)"
    "\<And>out fs1 s1. Q (out, fs1, s1) \<Longrightarrow> \<forall>p \<in> set out. PaneID p = pane_of name"
    "name \<in> set names" "X = (\<lambda>fs s. tick_file decode can_trunc info name fs s)"
    "Tick decode can_trunc info names fs s = (out, fs2, s2)"
  shows "Q (filter (\<lambda>p. PaneID p = pane_of name) out, fs2, s2)"
proof -
  have rest: "fs' name = fs0 name \<and> offset_of s' (pane_of name) = offset_of s0 (pane_of name)
      \<and> filter (\<lambda>p. PaneID p = pane_of name) o' = []"
    if "name \<notin> set ns" "Tick decode can_trunc info ns fs0 s0 = (o', fs', s')" for ns fs0 s0 o' fs' s'
    using that
  proof (induction ns arbitrary: fs0 s0 o')
    case (Cons n ns)
    obtain o1 fs1 s1 o2 where t: "tick_file decode can_trunc info n fs0 s0 = (o1, fs1, s1)"
      "Tick decode can_trunc info ns fs1 s1 = (o2, fs', s')" "o' = o1 @ o2"
      using Cons.prems(2) by (auto split: prod.splits)
    have "n \<noteq> name" using Cons.prems(1) by auto
    from tick_file_frame [OF t(1) this assms(1)] show ?case
      using Cons.IH [OF _ t(2)] Cons.prems(1) t(3) by (auto simp: filter_empty_conv)
  qed simp
  show ?thesis
    using assms(2,6,8) assms(3)
  proof (induction names arbitrary: fs s out)
    case (Cons n ns)
    obtain o1 fs1 s1 o2 where t: "tick_file decode can_trunc info n fs s = (o1, fs1, s1)"
      "Tick decode can_trunc info ns fs1 s1 = (o2, fs2, s2)" "out = o1 @ o2"
      using Cons.prems(3) by (auto split: prod.splits)
    show ?case
    proof (cases "n = name")
      case True
      have q: "Q (o1, fs1, s1)" using Cons.prems(4) [of fs s] t(1) True assms(7) by simp
      then have "filter (\<lambda>p. PaneID p = pane_of name) o1 = o1" using assms(5) by (auto simp: filter_id_conv)
      moreover have "name \<notin> set ns" using Cons.prems(1) True by simp
      ultimately show ?thesis using rest [OF _ t(2)] q assms(4) t(3) by simp
    next
      case False
      note f = tick_file_frame [OF t(1) False assms(1)]
      have "Q (filter (\<lambda>p. PaneID p = pane_of name) o2, fs2, s2)"
        by (rule Cons.IH [OF _ _ t(2)]) (use Cons.prems False f in auto)
      moreover have "filter (\<lambda>p. PaneID p = pane_of name) o1 = []" using f by (simp add: filter_empty_conv)
      ultimately show ?thesis using t(3) by simp
    qed
  qed simp
qed

text \<open>
  The producer and the watcher: at each step the producer appends a chunk, cut anywhere, to the
  pane's file, the other files change in any way, and the daemon ticks.
\<close>

record spool_step =
  chunk :: string
  others :: files
  listing :: "string list"
  sizes :: "files \<Rightarrow> string \<Rightarrow> nat option"
  truncatable :: "string \<Rightarrow> bool"

definition append_chunk :: "string \<Rightarrow> spool_step \<Rightarrow> files \<Rightarrow> files" where
  "append_chunk name st fs =
    (\<lambda>n. if n = name then Some ((case fs name of None \<Rightarrow> [] | Some c \<Rightarrow> c) @ chunk st) else others st n)"

fun spool_run :: "(string \<Rightarrow> Payload option) \<Rightarrow> string \<Rightarrow> spool_step list \<Rightarrow> files \<Rightarrow> Spool \<Rightarrow> Payload list" where
  "spool_run decode name [] fs s = []"
| "spool_run decode name (st # sts) fs s =
     (let fs1 = append_chunk name st fs in
      case Tick decode (truncatable st) (sizes st fs1) (listing st) fs1 s of (out, fs2, s2) \<Rightarrow>
        out @ spool_run decode name sts fs2 s2)"

definition good_step :: "string \<Rightarrow> spool_step \<Rightarrow> bool" where
  "good_step name st \<longleftrightarrow> distinct (listing st) \<and> name \<in> set (listing st) \<and> (\<forall>fs. honest (sizes st fs) fs name)"

text \<open>What is unread: it lies behind the offset and has no complete line.\<close>

definition content_of :: "string \<Rightarrow> files \<Rightarrow> string" where
  "content_of name fs = (case fs name of None \<Rightarrow> [] | Some c \<Rightarrow> c)"

definition unread :: "string \<Rightarrow> files \<Rightarrow> Spool \<Rightarrow> string" where
  "unread name fs s = drop (offset_of s (pane_of name)) (content_of name fs)"

definition caught_up :: "string \<Rightarrow> files \<Rightarrow> Spool \<Rightarrow> bool" where
  "caught_up name fs s \<longleftrightarrow> offset_of s (pane_of name) \<le> length (content_of name fs) \<and> newline \<notin> set (unread name fs s)"

lemma spool_step_reads:
  assumes n: "is_spool_name name" "safePaneID (pane_of name)" and g: "good_step name st"
    and cu: "caught_up name fs s" and fs1: "fs1 = append_chunk name st fs"
    and t: "Tick decode (truncatable st) (sizes st fs1) (listing st) fs1 s = (out, fs2, s2)"
    and sp: "split_lines [] (unread name fs s @ chunk st) = (ls, r)"
  shows "filter (\<lambda>p. PaneID p = pane_of name) out = accepted decode (pane_of name) ls
    \<and> unread name fs2 s2 = r \<and> caught_up name fs2 s2"
proof -
  let ?pane = "pane_of name" and ?off = "offset_of s (pane_of name)"
  define content where "content = content_of name fs @ chunk st"
  have off: "?off \<le> length content" "unread name fs s @ chunk st = drop ?off content"
    using cu by (auto simp: caught_up_def content_def unread_def)
  have f1: "fs1 name = Some content" by (simp add: fs1 append_chunk_def content_def content_of_def)
  define Q where "Q = (\<lambda>(out, fs', s'). out = accepted decode ?pane ls
     \<and> (fs' name = Some content \<and> offset_of s' ?pane = length content - length r
       \<or> fs' name = Some [] \<and> offset_of s' ?pane = 0 \<and> ls = [] \<and> r = [] \<and> ?off = length content))"
  have hon: "honest (sizes st fs1) fs' name" if "fs' name = fs1 name" for fs'
    using g that by (auto simp: good_step_def honest_def)
  have "Q (filter (\<lambda>p. PaneID p = ?pane) out, fs2, s2)"
  proof (rule Tick_result [OF n(1) _ _ _ _ _ refl t])
    show "distinct (listing st)" "name \<in> set (listing st)" using g by (auto simp: good_step_def)
    fix fs' :: files and s' :: Spool
    assume e: "fs' name = fs1 name" "offset_of s' ?pane = ?off"
    obtain o1 f2 s3 where r: "tick_file decode (truncatable st) (sizes st fs1) name fs' s' = (o1, f2, s3)"
      by (metis prod_cases3)
    show "Q (tick_file decode (truncatable st) (sizes st fs1) name fs' s')"
      using tick_file_step [OF n _ _ hon [of fs', OF e(1)] _ r, of content ls] e f1 off sp unfolding r Q_def by simp
  next
    show "\<And>out fs1 s1. Q (out, fs1, s1) \<Longrightarrow> \<forall>p \<in> set out. PaneID p = ?pane"
      using accepted_own by (auto simp: Q_def)
  qed (auto simp: Q_def)
  then have q: "filter (\<lambda>p. PaneID p = ?pane) out = accepted decode ?pane ls"
    "fs2 name = Some content \<and> offset_of s2 ?pane = length content - length r
       \<or> fs2 name = Some [] \<and> offset_of s2 ?pane = 0 \<and> ls = [] \<and> r = [] \<and> ?off = length content"
    by (auto simp: Q_def)
  have "drop (length (drop ?off content) - length r) (drop ?off content) = r"
    using split_lines_complete(2) [OF sp] unfolding off(2) .
  moreover have "length r \<le> length content - ?off" using split_lines_size [OF sp] unfolding off(2) by simp
  ultimately have "drop (length content - length r) content = r" using off(1) by simp
  moreover have "newline \<notin> set r" using split_lines_rest [OF _ sp] by simp
  ultimately show ?thesis using q by (auto simp: unread_def caught_up_def content_of_def)
qed

lemma spool_run_reads:
  assumes n: "is_spool_name name" "safePaneID (pane_of name)" and g: "\<forall>st \<in> set sts. good_step name st"
    and cu: "caught_up name fs s"
  shows "filter (\<lambda>p. PaneID p = pane_of name) (spool_run decode name sts fs s)
    = accepted decode (pane_of name) (fst (split_lines [] (unread name fs s @ concat (map chunk sts))))"
  using g cu
proof (induction sts arbitrary: fs s)
  case Nil
  then show ?case using split_lines_none [of "unread name fs s" "[]"] by (simp add: caught_up_def)
next
  case (Cons st sts)
  let ?fs1 = "append_chunk name st fs"
  obtain out fs2 s2 where t: "Tick decode (truncatable st) (sizes st ?fs1) (listing st) ?fs1 s = (out, fs2, s2)"
    by (metis prod_cases3)
  obtain ls r where sp: "split_lines [] (unread name fs s @ chunk st) = (ls, r)" by fastforce
  have g: "good_step name st" using Cons.prems(1) by simp
  note r = spool_step_reads [OF n g Cons.prems(2) refl t sp]
  have ih: "filter (\<lambda>p. PaneID p = pane_of name) (spool_run decode name sts fs2 s2)
    = accepted decode (pane_of name) (fst (split_lines [] (r @ concat (map chunk sts))))"
    using Cons.IH [of fs2 s2] Cons.prems(1) r by simp
  have "newline \<notin> set r" using r unfolding caught_up_def by metis
  then have "split_lines [] (r @ concat (map chunk sts)) = split_lines r (concat (map chunk sts))"
    by (simp add: split_lines_append split_lines_none split: prod.split)
  then have "fst (split_lines [] (unread name fs s @ concat (map chunk (st # sts)))) =
      ls @ fst (split_lines [] (r @ concat (map chunk sts)))"
    using split_lines_append [of "[]" "unread name fs s @ chunk st" "concat (map chunk sts)"] sp
    by (simp split: prod.splits)
  then show ?case using r ih by (simp add: Let_def t)
qed

section \<open>Property\<close>


definition sample_line :: "string \<Rightarrow> Payload option" where
  "sample_line l = (if l = ''A'' then Some \<lparr>V = 1, TsMs = 0, Seq = 0, PaneID = ''p'', Source = ''claude'',
     HookEvent = ''Stop'', SessionID = [], TranscriptPath = [], CWD = [], Title = ''t'', Severity = [], Data = None\<rparr>
     else None)"

definition sample_append :: "string \<Rightarrow> spool_step" where
  "sample_append c = \<lparr>chunk = c, others = Map.empty, listing = [''p.jsonl''], sizes = (\<lambda>fs n. None), truncatable = (\<lambda>_. True)\<rparr>"


end
