(* ===== verification/Output_Hold.thy ===== *)
theory Output_Hold
  imports Quil_Prelude Transition
begin

text \<open>
  A client that attaches while panes are writing (\<open>internal/daemon/outputhold.go\<close>, the flush in
  \<open>daemon.go\<close>). Live output for the connection is held during its replay, then sent minus what the
  replay already covered.

  The state is the daemon's holds and, for the theorems, the byte stream of every pane and the output
  frames queued to every connection, in order. A stream position is a natural number (the code's
  \<open>uint64\<close> would need 2^64 bytes of one pane to wrap). Every lock section is one operation: a flush is
  one, because it holds \<open>holdGate\<close> for reading from its buffer write to its broadcast and every change
  of a hold takes \<open>holdGate\<close> for writing. Not modelled: the bounded wait of \<open>beginOutputHold\<close> for
  frames that were queued before (past two seconds the code accepts a repeat), and a full droppable
  queue of a connection that is not held.
\<close>

section \<open>Data\<close>

definition outputHoldLimit :: nat where "outputHoldLimit = 4 * 2 ^ 20"

record heldChunk =
  ch_pane :: string
  ch_start :: nat
  ch_data :: "byte list"
  ch_gen :: nat

record outputHold =
  chunks :: "heldChunk list"
  hold_bytes :: nat
  lost :: "string list"

definition empty_hold :: outputHold where
  "empty_hold = \<lparr>chunks = [], hold_bytes = 0, lost = []\<rparr>"

datatype frame = Live string "byte list" | Replay string "byte list" | Foreign string "byte list"

record hold_state =
  holds :: "nat \<rightharpoonup> outputHold"
  holdCount :: nat
  holdFlag :: "nat \<Rightarrow> bool"
  stream :: "string \<Rightarrow> byte list"
  queued :: "nat \<Rightarrow> frame list"

definition outPos :: "'a hold_state_scheme \<Rightarrow> string \<Rightarrow> nat" where
  "outPos s p = length (stream s p)"

section \<open>One hold\<close>

definition dropPane :: "string \<Rightarrow> outputHold \<Rightarrow> outputHold" where
  "dropPane p h = h\<lparr>
     chunks := filter (\<lambda>ch. ch_pane ch \<noteq> p) (chunks h),
     hold_bytes := hold_bytes h - sum_list (map (\<lambda>ch. length (ch_data ch)) (filter (\<lambda>ch. ch_pane ch = p) (chunks h))),
     lost := (if p \<in> set (lost h) then lost h else lost h @ [p])\<rparr>"

definition hold_one :: "string \<Rightarrow> nat \<Rightarrow> byte list \<Rightarrow> nat \<Rightarrow> outputHold \<Rightarrow> outputHold" where
  "hold_one p start data gen h =
    (if p \<in> set (lost h) then h
     else if hold_bytes h + length data > outputHoldLimit then dropPane p h
     else h\<lparr>chunks := chunks h @ [\<lparr>ch_pane = p, ch_start = start, ch_data = data, ch_gen = gen\<rparr>],
            hold_bytes := hold_bytes h + length data\<rparr>)"

text \<open>What of a held chunk is still to be sent, given where each pane's replay ended.\<close>

definition trim_chunk :: "(string \<rightharpoonup> nat) \<Rightarrow> heldChunk \<Rightarrow> byte list option" where
  "trim_chunk endp ch = (case endp (ch_pane ch) of
     None \<Rightarrow> Some (ch_data ch)
   | Some e \<Rightarrow>
       if ch_start ch + length (ch_data ch) \<le> e then None
       else if ch_start ch < e then Some (drop (e - ch_start ch) (ch_data ch))
       else Some (ch_data ch))"

section \<open>Operations\<close>

definition holdOutput :: "string \<Rightarrow> nat \<Rightarrow> byte list \<Rightarrow> nat \<Rightarrow> 'a hold_state_scheme \<Rightarrow> 'a hold_state_scheme" where
  "holdOutput p start data gen s =
    (if holdCount s = 0 then s
     else s\<lparr>holds := (\<lambda>c. map_option (hold_one p start data gen) (holds s c))\<rparr>)"

definition broadcast_output :: "string \<Rightarrow> byte list \<Rightarrow> 'a hold_state_scheme \<Rightarrow> 'a hold_state_scheme" where
  "broadcast_output p data s =
    s\<lparr>queued := (\<lambda>c. if holdFlag s c then queued s c else queued s c @ [Live p data])\<rparr>"

definition flushPaneOutput :: "string \<Rightarrow> byte list \<Rightarrow> nat \<Rightarrow> 'a hold_state_scheme \<Rightarrow> 'a hold_state_scheme" where
  "flushPaneOutput p data gen s =
    (let start = outPos s p;
         s1 = s\<lparr>stream := (stream s)(p := stream s p @ data)\<rparr>
     in broadcast_output p data (holdOutput p start data gen s1))"

definition beginOutputHold :: "nat \<Rightarrow> 'a hold_state_scheme \<Rightarrow> 'a hold_state_scheme" where
  "beginOutputHold c s = s\<lparr>
     holdCount := (if holds s c = None then holdCount s + 1 else holdCount s),
     holds := (holds s)(c \<mapsto> empty_hold),
     holdFlag := (holdFlag s)(c := True)\<rparr>"

definition end_hold :: "nat \<Rightarrow> 'a hold_state_scheme \<Rightarrow> 'a hold_state_scheme" where
  "end_hold c s = s\<lparr>holds := (holds s)(c := None), holdCount := holdCount s - 1,
     holdFlag := (holdFlag s)(c := False)\<rparr>"

definition finishOutputHold :: "nat \<Rightarrow> 'a hold_state_scheme \<Rightarrow> bool \<times> 'a hold_state_scheme" where
  "finishOutputHold c s = (case holds s c of
     None \<Rightarrow> (True, s)
   | Some h \<Rightarrow> if chunks h \<noteq> [] \<or> lost h \<noteq> [] then (False, s) else (True, end_hold c s))"

definition dropOutputHold :: "nat \<Rightarrow> 'a hold_state_scheme \<Rightarrow> 'a hold_state_scheme" where
  "dropOutputHold c s = (case holds s c of None \<Rightarrow> s | Some h \<Rightarrow> end_hold c s)"

text \<open>The head of the release loop: take what is held. \<open>None\<close> when there is no hold.\<close>

definition take_held :: "nat \<Rightarrow> 'a hold_state_scheme \<Rightarrow> ((heldChunk list \<times> string list) \<times> 'a hold_state_scheme) option" where
  "take_held c s = (case holds s c of
     None \<Rightarrow> None
   | Some h \<Rightarrow> Some ((chunks h, lost h), s\<lparr>holds := (holds s)(c \<mapsto> empty_hold)\<rparr>))"

text \<open>The body of its loop over the batch, for one chunk.\<close>

definition send_held :: "(string \<rightharpoonup> nat) \<Rightarrow> nat \<Rightarrow> heldChunk \<Rightarrow> 'a hold_state_scheme \<Rightarrow> 'a hold_state_scheme" where
  "send_held endp c ch s = (case trim_chunk endp ch of
     None \<Rightarrow> s
   | Some data \<Rightarrow> s\<lparr>queued := (queued s)(c := queued s c @ [Live (ch_pane ch) data])\<rparr>)"

text \<open>
  The replay of a pane (\<open>handleAttach\<close>): the bytes of its output buffer, whose position is recorded,
  or another session's bytes, which have none.
\<close>

definition replay_pane :: "nat \<Rightarrow> nat \<Rightarrow> string \<Rightarrow> 'a hold_state_scheme \<Rightarrow> nat \<times> 'a hold_state_scheme" where
  "replay_pane cap c p s = (outPos s p,
     s\<lparr>queued := (queued s)(c := queued s c @ [Replay p (last_n cap (stream s p))])\<rparr>)"

definition replay_foreign :: "nat \<Rightarrow> string \<Rightarrow> byte list \<Rightarrow> 'a hold_state_scheme \<Rightarrow> 'a hold_state_scheme" where
  "replay_foreign c p data s = s\<lparr>queued := (queued s)(c := queued s c @ [Foreign p data])\<rparr>"

section \<open>Attaches as a transition system\<close>

text \<open>
  Every connection goes live \<open>\<rightarrow>\<close> replaying \<open>\<rightarrow>\<close> releasing \<open>\<rightarrow>\<close> live, while panes flush. The release's
  local variables are part of the state: the batch it is sending, the panes it has to ask for a
  repaint, and the positions its replay ended at. \<open>gap\<close> records the panes that overflowed, \<open>kicked\<close>
  the repaints asked for, a connection
  whose attach stops part way (\<open>abort\<close>) has a gap everywhere, \<open>since\<close> how much was queued and \<open>origin\<close> where each stream was when the attach began.
\<close>

datatype phase = Streaming | Replaying | Releasing

record attach_state = hold_state +
  phase_of :: "nat \<Rightarrow> phase"
  batch :: "nat \<Rightarrow> heldChunk list"
  to_kick :: "nat \<Rightarrow> string list"
  endp :: "nat \<Rightarrow> string \<rightharpoonup> nat"
  readOnly :: "nat \<Rightarrow> bool"
  kicked :: "nat \<Rightarrow> string list"
  gap :: "nat \<Rightarrow> string \<Rightarrow> bool"
  since :: "nat \<Rightarrow> nat"
  origin :: "nat \<Rightarrow> string \<Rightarrow> nat"

definition lost_panes :: "'a hold_state_scheme \<Rightarrow> nat \<Rightarrow> string list" where
  "lost_panes s c = (case holds s c of None \<Rightarrow> [] | Some h \<Rightarrow> lost h)"

definition overflowed :: "string \<Rightarrow> attach_state \<Rightarrow> attach_state" where
  "overflowed p s = s\<lparr>gap := (\<lambda>c q. gap s c q \<or> (q = p \<and> p \<in> set (lost_panes s c)))\<rparr>"

inductive attach_step :: "attach_state \<Rightarrow> attach_state \<Rightarrow> bool" where
  flush: "attach_step s (overflowed p (flushPaneOutput p data gen s))"
| begin_attach: "phase_of s c = Streaming \<Longrightarrow>
    attach_step s ((beginOutputHold c s)\<lparr>phase_of := (phase_of s)(c := Replaying), batch := (batch s)(c := []),
      to_kick := (to_kick s)(c := []), endp := (endp s)(c := Map.empty), gap := (gap s)(c := (\<lambda>_. False)),
      since := (since s)(c := length (queued s c)), origin := (origin s)(c := outPos s)\<rparr>)"
| replay: "phase_of s c = Replaying \<Longrightarrow> endp s c p = None \<Longrightarrow> replay_pane cap c p s = (e, s') \<Longrightarrow>
    attach_step s (s'\<lparr>endp := (endp s)(c := (endp s c)(p \<mapsto> e))\<rparr>)"
| foreign: "phase_of s c = Replaying \<Longrightarrow> attach_step s (replay_foreign c p data s)"
| release: "phase_of s c = Replaying \<Longrightarrow> attach_step s (s\<lparr>phase_of := (phase_of s)(c := Releasing)\<rparr>)"
| take: "phase_of s c = Releasing \<Longrightarrow> batch s c = [] \<Longrightarrow> to_kick s c = [] \<Longrightarrow> take_held c s = Some ((chs, ls), s') \<Longrightarrow>
    attach_step s (s'\<lparr>batch := (batch s)(c := chs), to_kick := (to_kick s)(c := if readOnly s c then [] else ls)\<rparr>)"
| send: "phase_of s c = Releasing \<Longrightarrow> batch s c = ch # chs \<Longrightarrow>
    attach_step s ((send_held (endp s c) c ch s)\<lparr>batch := (batch s)(c := chs)\<rparr>)"
| kick: "phase_of s c = Releasing \<Longrightarrow> batch s c = [] \<Longrightarrow> to_kick s c = p # ps \<Longrightarrow>
    attach_step s (s\<lparr>to_kick := (to_kick s)(c := ps), kicked := (kicked s)(c := kicked s c @ [p])\<rparr>)"
| finish: "phase_of s c = Releasing \<Longrightarrow> batch s c = [] \<Longrightarrow> to_kick s c = [] \<Longrightarrow> finishOutputHold c s = (True, s') \<Longrightarrow>
    attach_step s (s'\<lparr>phase_of := (phase_of s)(c := Streaming)\<rparr>)"
| abort: "attach_step s ((dropOutputHold c s)\<lparr>phase_of := (phase_of s)(c := Streaming), batch := (batch s)(c := []),
      to_kick := (to_kick s)(c := []), gap := (gap s)(c := (\<lambda>_. True))\<rparr>)"

definition attach_init :: "attach_state \<Rightarrow> bool" where
  "attach_init s \<longleftrightarrow> holds s = Map.empty \<and> holdCount s = 0 \<and> (\<forall>c. \<not> holdFlag s c) \<and> (\<forall>p. stream s p = [])
     \<and> (\<forall>c. queued s c = []) \<and> (\<forall>c. phase_of s c = Streaming) \<and> (\<forall>c. batch s c = []) \<and> (\<forall>c. to_kick s c = [])
     \<and> (\<forall>c. endp s c = Map.empty) \<and> (\<forall>c p. \<not> gap s c p) \<and> (\<forall>c. since s c = 0) \<and> (\<forall>c p. origin s c p = 0)"

end
