(* ===== verification/Hold_Props.thy ===== *)
theory Hold_Props
  imports Output_Hold
begin

text \<open>
  What the hold promises: a client that attaches gets each pane's history and live output exactly
  once and in order, the held bytes are bounded, and the cheap test for \<open>nothing held\<close> is exact.
\<close>

section \<open>Chunks that tile a stream\<close>

fun tile :: "byte list \<Rightarrow> nat \<Rightarrow> heldChunk list \<Rightarrow> bool" where
  "tile st b [] \<longleftrightarrow> b = length st"
| "tile st b (ch # chs) \<longleftrightarrow> ch_start ch = b \<and> b + length (ch_data ch) \<le> length st
     \<and> ch_data ch = take (length (ch_data ch)) (drop b st) \<and> tile st (b + length (ch_data ch)) chs"

lemma tile_le: "tile st b chs \<Longrightarrow> b \<le> length st"
  by (induction chs arbitrary: b) fastforce+

lemma tile_snoc:
  "tile st b chs \<Longrightarrow> tile (st @ d) b (chs @ [\<lparr>ch_pane = p, ch_start = length st, ch_data = d, ch_gen = g\<rparr>])"
  by (induction chs arbitrary: b) auto

definition base :: "nat option \<Rightarrow> nat \<Rightarrow> nat" where
  "base eo org = (case eo of None \<Rightarrow> org | Some e \<Rightarrow> e)"

text \<open>
  One connection and one pane: \<open>st\<close> the stream, \<open>eo\<close> where its replay ended, \<open>org\<close> where the stream was
  when the attach began, \<open>chs\<close> what is still held or being sent, \<open>recv\<close> what was queued since.
\<close>

definition tile_ok :: "phase \<Rightarrow> byte list \<Rightarrow> nat option \<Rightarrow> nat \<Rightarrow> heldChunk list \<Rightarrow> byte list \<Rightarrow> bool" where
  "tile_ok ph st eo org chs recv \<longleftrightarrow> (\<exists>r b. tile st b chs \<and> base eo org \<le> length st
     \<and> recv = r @ take (b - base eo org) (drop (base eo org) st) \<and> suffix r (take (base eo org) st)
     \<and> (eo = None \<longrightarrow> r = [] \<and> org \<le> b) \<and> (ph = Replaying \<longrightarrow> b \<le> base eo org))"

lemma tile_ok_begin: "tile_ok Replaying st None (length st) [] []"
  by (simp add: tile_ok_def base_def)

lemma tile_ok_held:
  assumes "tile_ok ph st eo org chs recv"
  shows "tile_ok ph (st @ d) eo org (chs @ [\<lparr>ch_pane = p, ch_start = length st, ch_data = d, ch_gen = g\<rparr>]) recv"
proof -
  obtain r b where h: "tile st b chs" "base eo org \<le> length st" "recv = r @ take (b - base eo org) (drop (base eo org) st)"
    "suffix r (take (base eo org) st)" "eo = None \<longrightarrow> r = [] \<and> org \<le> b" "ph = Replaying \<longrightarrow> b \<le> base eo org"
    using assms by (auto simp: tile_ok_def)
  have "b \<le> length st" using h(1) by (rule tile_le)
  then have "take (b - base eo org) (drop (base eo org) (st @ d)) = take (b - base eo org) (drop (base eo org) st)"
    using h(2) by simp
  then show ?thesis unfolding tile_ok_def using h tile_snoc [OF h(1)] by (intro exI [of _ r] exI [of _ b]) auto
qed

lemma tile_ok_live:
  assumes "tile_ok Streaming st eo org [] recv"
  shows "tile_ok Streaming (st @ d) eo org [] (recv @ d)"
proof -
  obtain r where h: "base eo org \<le> length st" "recv = r @ drop (base eo org) st"
    "suffix r (take (base eo org) st)" "eo = None \<longrightarrow> r = [] \<and> org \<le> length st"
    using assms by (auto simp: tile_ok_def)
  then show ?thesis unfolding tile_ok_def by (intro exI [of _ r] exI [of _ "length (st @ d)"]) auto
qed

lemma tile_ok_replay:
  assumes "tile_ok Replaying st None org chs recv"
  shows "tile_ok Replaying st (Some (length st)) org chs (recv @ last_n cap st)"
proof -
  obtain b where h: "tile st b chs" "b \<le> org" "org \<le> b" "recv = []"
    using assms by (auto simp: tile_ok_def base_def)
  then show ?thesis unfolding tile_ok_def using tile_le [OF h(1)] suffix_last_n [of cap st]
    by (intro exI [of _ "last_n cap st"] exI [of _ b]) (auto simp: base_def)
qed

lemma tile_ok_send:
  assumes t: "tile_ok Releasing st (ends (ch_pane ch)) org (ch # chs) recv"
  shows "tile_ok Releasing st (ends (ch_pane ch)) org chs
    (recv @ (case trim_chunk ends ch of None \<Rightarrow> [] | Some d \<Rightarrow> d))"
proof -
  let ?e = "base (ends (ch_pane ch)) org" and ?n = "length (ch_data ch)"
  obtain r b where h: "ch_start ch = b" "b + ?n \<le> length st" "ch_data ch = take ?n (drop b st)"
    "tile st (b + ?n) chs" "?e \<le> length st" "recv = r @ take (b - ?e) (drop ?e st)"
    "suffix r (take ?e st)" "ends (ch_pane ch) = None \<longrightarrow> r = [] \<and> org \<le> b"
    using t by (auto simp: tile_ok_def)
  have sent: "(case trim_chunk ends ch of None \<Rightarrow> [] | Some d \<Rightarrow> d) = drop (?e - b) (ch_data ch)"
    using h(1,8) by (cases "ends (ch_pane ch)") (auto simp: trim_chunk_def base_def simp flip: length_0_conv)
  have "take (b - ?e) (drop ?e st) @ drop (?e - b) (ch_data ch) = take (b + ?n - ?e) (drop ?e st)"
  proof (cases "b \<le> ?e")
    case True
    have "drop (?e - b) (ch_data ch) = take (?n - (?e - b)) (drop ?e st)"
      using True by (subst h(3)) (simp add: drop_take)
    moreover have "b + ?n - ?e = ?n - (?e - b)" "b - ?e = 0" using True by simp_all
    ultimately show ?thesis by simp
  next
    case False
    then have "take (b + ?n - ?e) (drop ?e st) = take (b - ?e) (drop ?e st) @ take ?n (drop b st)"
      using take_add [of "b - ?e" ?n "drop ?e st"] by simp
    then show ?thesis using False h(3) by simp
  qed
  then show ?thesis unfolding tile_ok_def sent using h by (intro exI [of _ r] exI [of _ "b + ?n"]) auto
qed

lemma tile_ok_phase:
  "tile_ok Replaying st eo org chs recv \<Longrightarrow> tile_ok Releasing st eo org chs recv"
  "tile_ok Releasing st eo org chs recv \<Longrightarrow> tile_ok Streaming st eo org chs recv"
  by (auto simp: tile_ok_def)

lemma tile_ok_done:
  assumes "tile_ok ph st eo org [] recv"
  shows "suffix recv st \<and> length st - base eo org \<le> length recv"
proof -
  obtain r where h: "recv = r @ drop (base eo org) st" "suffix r (take (base eo org) st)"
    using assms by (auto simp: tile_ok_def)
  then obtain u where "take (base eo org) st = u @ r" by (auto simp: suffix_def)
  then have "st = u @ recv" using h(1) by (metis append.assoc append_take_drop_id)
  then show ?thesis using h(1) by (auto simp: suffix_def)
qed

section \<open>The invariant\<close>

definition frame_bytes :: "string \<Rightarrow> frame \<Rightarrow> byte list" where
  "frame_bytes p f = (case f of Live q d \<Rightarrow> if q = p then d else [] | Replay q d \<Rightarrow> if q = p then d else []
     | Foreign q d \<Rightarrow> [])"

text \<open>The bytes of a pane's stream that were queued to a connection since its attach began, in order.\<close>

definition received :: "attach_state \<Rightarrow> nat \<Rightarrow> string \<Rightarrow> byte list" where
  "received s c p = concat (map (frame_bytes p) (drop (since s c) (queued s c)))"

definition held_of :: "'a hold_state_scheme \<Rightarrow> nat \<Rightarrow> heldChunk list" where
  "held_of s c = (case holds s c of None \<Rightarrow> [] | Some h \<Rightarrow> chunks h)"

definition todo :: "attach_state \<Rightarrow> nat \<Rightarrow> string \<Rightarrow> heldChunk list" where
  "todo s c p = filter (\<lambda>ch. ch_pane ch = p) (batch s c @ held_of s c)"

definition hold_ok :: "outputHold \<Rightarrow> bool" where
  "hold_ok h \<longleftrightarrow> hold_bytes h = sum_list (map (\<lambda>ch. length (ch_data ch)) (chunks h))
     \<and> hold_bytes h \<le> outputHoldLimit \<and> distinct (lost h) \<and> (\<forall>ch \<in> set (chunks h). ch_pane ch \<notin> set (lost h))"

definition conn_inv :: "attach_state \<Rightarrow> nat \<Rightarrow> bool" where
  "conn_inv s c \<longleftrightarrow> (holdFlag s c \<longleftrightarrow> holds s c \<noteq> None) \<and> (phase_of s c = Streaming \<longleftrightarrow> holds s c = None)
     \<and> (phase_of s c \<noteq> Releasing \<longrightarrow> batch s c = [] \<and> to_kick s c = [])
     \<and> (\<forall>h. holds s c = Some h \<longrightarrow> hold_ok h) \<and> since s c \<le> length (queued s c)
     \<and> (\<forall>p. p \<in> set (lost_panes s c) \<longrightarrow> gap s c p)
     \<and> (\<forall>p. \<not> gap s c p \<longrightarrow> tile_ok (phase_of s c) (stream s p) (endp s c p) (origin s c p) (todo s c p) (received s c p))"

definition attach_inv :: "attach_state \<Rightarrow> bool" where
  "attach_inv s \<longleftrightarrow> finite (dom (holds s)) \<and> holdCount s = card (dom (holds s)) \<and> (\<forall>c. conn_inv s c)"

lemma hold_one_ok: "hold_ok h \<Longrightarrow> hold_ok (hold_one p start data gen h)"
proof -
  assume h: "hold_ok h"
  have "sum_list (map (\<lambda>ch. length (ch_data ch)) xs) =
      sum_list (map (\<lambda>ch. length (ch_data ch)) (filter (\<lambda>ch. ch_pane ch \<noteq> p) xs)) +
      sum_list (map (\<lambda>ch. length (ch_data ch)) (filter (\<lambda>ch. ch_pane ch = p) xs))" for xs
    by (induction xs) auto
  from this [of "chunks h"] h show ?thesis
    by (auto simp: hold_one_def dropPane_def hold_ok_def)
qed

text \<open>What a flush does to one connection's hold.\<close>

lemma hold_one_chunks:
  "filter (\<lambda>ch. ch_pane ch = q) (chunks (hold_one p start data gen h)) =
    (if q \<noteq> p then filter (\<lambda>ch. ch_pane ch = q) (chunks h)
     else if p \<in> set (lost h) then filter (\<lambda>ch. ch_pane ch = p) (chunks h)
     else if hold_bytes h + length data > outputHoldLimit then []
     else filter (\<lambda>ch. ch_pane ch = p) (chunks h) @ [\<lparr>ch_pane = p, ch_start = start, ch_data = data, ch_gen = gen\<rparr>])"
  "set (lost (hold_one p start data gen h)) = set (lost h) \<union>
     (if p \<notin> set (lost h) \<and> hold_bytes h + length data > outputHoldLimit then {p} else {})"
  by (auto simp: hold_one_def dropPane_def intro: filter_cong)

lemma flush_fields:
  fixes s :: attach_state and p :: string and data :: "byte list" and gen :: nat
  assumes i: "attach_inv s"
  defines "s' \<equiv> overflowed p (flushPaneOutput p data gen s)"
  shows "holds s' = (\<lambda>c. map_option (hold_one p (outPos s p) data gen) (holds s c))"
    "holdCount s' = holdCount s" "holdFlag s' = holdFlag s" "phase_of s' = phase_of s" "batch s' = batch s"
    "to_kick s' = to_kick s" "endp s' = endp s" "since s' = since s" "origin s' = origin s"
    "stream s' = (stream s)(p := stream s p @ data)"
    "queued s' = (\<lambda>c. if holdFlag s c then queued s c else queued s c @ [Live p data])"
    "gap s' c q \<longleftrightarrow> gap s c q \<or> (q = p \<and> p \<in> set (lost_panes s' c))"
proof -
  have "holds s = Map.empty" if "holdCount s = 0"
    using i that unfolding attach_inv_def by (metis card_0_eq dom_eq_empty_conv)
  then show "holds s' = (\<lambda>c. map_option (hold_one p (outPos s p) data gen) (holds s c))"
    by (auto simp: s'_def overflowed_def flushPaneOutput_def broadcast_output_def holdOutput_def Let_def outPos_def)
  show "gap s' c q \<longleftrightarrow> gap s c q \<or> (q = p \<and> p \<in> set (lost_panes s' c))"
    by (simp add: s'_def overflowed_def lost_panes_def flushPaneOutput_def broadcast_output_def holdOutput_def Let_def)
qed (auto simp: s'_def overflowed_def flushPaneOutput_def broadcast_output_def holdOutput_def Let_def fun_eq_iff)

lemma received_snoc:
  "since s c \<le> length (queued s c) \<Longrightarrow> since s' c = since s c \<Longrightarrow> queued s' c = queued s c @ [f] \<Longrightarrow>
    received s' c p = received s c p @ frame_bytes p f"
  by (simp add: received_def)

lemma flush_inv:
  assumes i: "attach_inv s"
  shows "attach_inv (overflowed p (flushPaneOutput p data gen s))" (is "attach_inv ?s")
proof -
  note f = flush_fields [OF i, of p data gen]
  have dom: "dom (holds ?s) = dom (holds s)" by (auto simp: f(1))
  have "conn_inv ?s c" for c
  proof -
    have ci: "conn_inv s c" using i by (simp add: attach_inv_def)
    show ?thesis
    proof (cases "holds s c")
      case None
      then have fl: "\<not> holdFlag s c" "phase_of s c = Streaming" "batch s c = []" "to_kick s c = []" "since s c \<le> length (queued s c)"
        using ci by (auto simp: conn_inv_def)
      have todo: "todo ?s c q = []" "todo s c q = []" for q using None fl by (simp_all add: todo_def held_of_def f)
      have recv: "received ?s c q = received s c q @ (if q = p then data else [])" for q
        using fl by (subst received_snoc [of s c ?s "Live p data"]) (simp_all add: f frame_bytes_def)
      have "tile_ok (phase_of ?s c) (stream ?s q) (endp ?s c q) (origin ?s c q) (todo ?s c q) (received ?s c q)"
        if "\<not> gap ?s c q" for q
      proof -
        have t: "tile_ok Streaming (stream s q) (endp s c q) (origin s c q) [] (received s c q)"
          using ci that fl(2) todo f(12) by (simp add: conn_inv_def)
        show ?thesis using t tile_ok_live [OF t] fl(2) by (cases "q = p") (simp_all add: f(4,7,9,10) todo recv)
      qed
      then show ?thesis using ci None fl by (simp add: conn_inv_def f lost_panes_def)
    next
      case (Some h)
      let ?h = "hold_one p (outPos s p) data gen h"
      have h: "hold_ok h" "holdFlag s c" "phase_of s c \<noteq> Streaming" "\<And>q. q \<in> set (lost h) \<Longrightarrow> gap s c q"
        using ci Some by (auto simp: conn_inv_def lost_panes_def)
      have l: "lost_panes ?s c = lost ?h" using Some by (simp add: lost_panes_def f(1))
      have recv: "received ?s c q = received s c q" for q using h(2) by (simp add: received_def f)
      have todo: "todo ?s c q = filter (\<lambda>ch. ch_pane ch = q) (batch s c) @ filter (\<lambda>ch. ch_pane ch = q) (chunks ?h)"
        "todo s c q = filter (\<lambda>ch. ch_pane ch = q) (batch s c) @ filter (\<lambda>ch. ch_pane ch = q) (chunks h)" for q
        using Some by (simp_all add: todo_def held_of_def f)
      have "tile_ok (phase_of ?s c) (stream ?s q) (endp ?s c q) (origin ?s c q) (todo ?s c q) (received ?s c q)"
        if g: "\<not> gap ?s c q" for q
      proof -
        have t: "tile_ok (phase_of s c) (stream s q) (endp s c q) (origin s c q) (todo s c q) (received s c q)"
          using ci g f(12) by (simp add: conn_inv_def)
        show ?thesis
        proof (cases "q = p")
          case True
          then have "p \<notin> set (lost ?h)" using g f(12) l by simp
          then have "todo ?s c p = todo s c p @ [\<lparr>ch_pane = p, ch_start = outPos s p, ch_data = data, ch_gen = gen\<rparr>]"
            unfolding todo hold_one_chunks by (simp add: hold_one_chunks(2) split: if_splits)
          then show ?thesis using tile_ok_held [OF t] True by (simp add: f(4,7,9,10) recv outPos_def)
        next
          case False
          then have "todo ?s c q = todo s c q" unfolding todo hold_one_chunks by simp
          then show ?thesis using t False by (simp add: f(4,7,9,10) recv)
        qed
      qed
      moreover have "gap ?s c q" if "q \<in> set (lost ?h)" for q
        using that h(4) f(12) l hold_one_chunks(2) [of p "outPos s p" data gen h] by (auto split: if_splits)
      ultimately show ?thesis
        using ci Some hold_one_ok [OF h(1)] l by (auto simp: conn_inv_def f)
    qed
  qed
  then show ?thesis using i by (simp add: attach_inv_def dom f(2))
qed

text \<open>A step on connection \<open>c\<close> leaves what the invariant says of the others.\<close>

lemma conn_inv_other:
  assumes "conn_inv s d" "holds s' d = holds s d" "holdFlag s' d = holdFlag s d" "phase_of s' d = phase_of s d"
    "batch s' d = batch s d" "to_kick s' d = to_kick s d" "since s' d = since s d" "queued s' d = queued s d"
    "gap s' d = gap s d" "stream s' = stream s" "endp s' d = endp s d" "origin s' d = origin s d"
  shows "conn_inv s' d"
  using assms unfolding conn_inv_def lost_panes_def todo_def held_of_def received_def by simp

lemma attach_inv_step:
  assumes i: "attach_inv s" and c: "conn_inv s' c"
    and dom: "finite (dom (holds s'))" "holdCount s' = card (dom (holds s'))"
    and o: "\<And>d. d \<noteq> c \<Longrightarrow> holds s' d = holds s d \<and> holdFlag s' d = holdFlag s d \<and> phase_of s' d = phase_of s d
      \<and> batch s' d = batch s d \<and> to_kick s' d = to_kick s d \<and> since s' d = since s d \<and> queued s' d = queued s d
      \<and> gap s' d = gap s d \<and> endp s' d = endp s d \<and> origin s' d = origin s d" and st: "stream s' = stream s"
  shows "attach_inv s'"
proof -
  have "conn_inv s' d" for d
  proof (cases "d = c")
    case False
    have "conn_inv s d" using i by (simp add: attach_inv_def)
    then show ?thesis by (rule conn_inv_other) (simp_all add: o [OF False] st)
  qed (use c in simp)
  then show ?thesis using dom by (simp add: attach_inv_def)
qed

lemma begin_inv:
  assumes i: "attach_inv s" and ph: "phase_of s c = Streaming"
  shows "attach_inv ((beginOutputHold c s)\<lparr>phase_of := (phase_of s)(c := Replaying), batch := (batch s)(c := []),
      to_kick := (to_kick s)(c := []), endp := (endp s)(c := Map.empty), gap := (gap s)(c := (\<lambda>_. False)),
      since := (since s)(c := length (queued s c)), origin := (origin s)(c := outPos s)\<rparr>)" (is "attach_inv ?s")
proof (rule attach_inv_step [OF i, of ?s c])
  have n: "holds s c = None" using i ph by (auto simp: attach_inv_def conn_inv_def)
  have "todo ?s c p = []" "received ?s c p = []" for p
    by (simp_all add: todo_def held_of_def received_def beginOutputHold_def empty_hold_def)
  then show "conn_inv ?s c"
    using n tile_ok_begin
    by (simp add: conn_inv_def beginOutputHold_def lost_panes_def hold_ok_def empty_hold_def outPos_def)
  have "dom (holds ?s) = insert c (dom (holds s))" "c \<notin> dom (holds s)"
    using n by (auto simp: beginOutputHold_def)
  then show "finite (dom (holds ?s))" "holdCount ?s = card (dom (holds ?s))"
    using i n by (simp_all add: attach_inv_def) (simp add: beginOutputHold_def)
qed (simp_all add: beginOutputHold_def)

lemma local_step_inv:
  assumes i: "attach_inv s" and c: "conn_inv s' c" and same: "holds s' = holds s" "holdCount s' = holdCount s"
    and o: "\<And>d. d \<noteq> c \<Longrightarrow> holdFlag s' d = holdFlag s d \<and> phase_of s' d = phase_of s d
      \<and> batch s' d = batch s d \<and> to_kick s' d = to_kick s d \<and> since s' d = since s d \<and> queued s' d = queued s d
      \<and> gap s' d = gap s d \<and> endp s' d = endp s d \<and> origin s' d = origin s d" and st: "stream s' = stream s"
  shows "attach_inv s'"
  using i by (intro attach_inv_step [OF i c]) (simp_all add: same o st attach_inv_def)

lemma frame_bytes_simps [simp]:
  "frame_bytes p (Live q d) = (if q = p then d else [])" "frame_bytes p (Replay q d) = (if q = p then d else [])"
  "frame_bytes p (Foreign q d) = []"
  by (simp_all add: frame_bytes_def)

lemma replay_inv:
  assumes i: "attach_inv s" and ph: "phase_of s c = Replaying" and e: "endp s c p = None"
    and r: "replay_pane cap c p s = (e', s')"
  shows "attach_inv (s'\<lparr>endp := (endp s)(c := (endp s c)(p \<mapsto> e'))\<rparr>)" (is "attach_inv ?s")
proof (rule local_step_inv [OF i, of ?s c])
  have s': "s' = s\<lparr>queued := (queued s)(c := queued s c @ [Replay p (last_n cap (stream s p))])\<rparr>" "e' = length (stream s p)"
    using r by (auto simp: replay_pane_def outPos_def)
  have ci: "conn_inv s c" using i by (simp add: attach_inv_def)
  have "received ?s c q = received s c q @ (if p = q then last_n cap (stream s p) else [])" for q
    using ci by (subst received_snoc [of s c ?s "Replay p (last_n cap (stream s p))"]) (simp_all add: s' conn_inv_def)
  moreover have "todo ?s c q = todo s c q" for q by (simp add: todo_def held_of_def s')
  moreover have "tile_ok Replaying (stream s q) (((endp s c)(p \<mapsto> e')) q) (origin s c q) (todo s c q)
      (received s c q @ (if p = q then last_n cap (stream s p) else []))" if "\<not> gap s c q" for q
  proof -
    have t: "tile_ok Replaying (stream s q) (endp s c q) (origin s c q) (todo s c q) (received s c q)"
      using ci ph that by (simp add: conn_inv_def)
    show ?thesis
    proof (cases "p = q")
      case True
      then show ?thesis using tile_ok_replay [of "stream s q"] t e by (simp add: s')
    qed (use t in simp)
  qed
  ultimately show "conn_inv ?s c" using ci ph unfolding conn_inv_def lost_panes_def by (simp add: s')
qed (use r in \<open>auto simp: replay_pane_def\<close>)

lemma foreign_inv:
  assumes i: "attach_inv s"
  shows "attach_inv (replay_foreign c p data s)" (is "attach_inv ?s")
proof (rule local_step_inv [OF i, of ?s c])
  have ci: "conn_inv s c" using i by (simp add: attach_inv_def)
  have "received ?s c q = received s c q" for q
    using ci by (subst received_snoc [of s c ?s "Foreign p data"]) (simp_all add: replay_foreign_def conn_inv_def)
  moreover have "todo ?s c q = todo s c q" for q by (simp add: todo_def held_of_def replay_foreign_def)
  ultimately show "conn_inv ?s c" using ci unfolding conn_inv_def lost_panes_def by (simp add: replay_foreign_def)
qed (auto simp: replay_foreign_def)

lemma release_inv:
  assumes i: "attach_inv s" and ph: "phase_of s c = Replaying"
  shows "attach_inv (s\<lparr>phase_of := (phase_of s)(c := Releasing)\<rparr>)" (is "attach_inv ?s")
proof (rule local_step_inv [OF i, of ?s c])
  have ci: "conn_inv s c" using i by (simp add: attach_inv_def)
  have "received ?s c q = received s c q" "todo ?s c q = todo s c q" for q
    by (simp_all add: received_def todo_def held_of_def)
  then show "conn_inv ?s c" using ci ph tile_ok_phase(1) unfolding conn_inv_def lost_panes_def by simp
qed auto

lemma take_inv:
  assumes i: "attach_inv s" and ph: "phase_of s c = Releasing" "batch s c = []"
    and t: "take_held c s = Some ((chs, ls), s')"
  shows "attach_inv (s'\<lparr>batch := (batch s)(c := chs), to_kick := (to_kick s)(c := ks)\<rparr>)" (is "attach_inv ?s")
proof (rule attach_inv_step [OF i, of ?s c])
  obtain h where h: "holds s c = Some h" "chs = chunks h" "s' = s\<lparr>holds := (holds s)(c \<mapsto> empty_hold)\<rparr>"
    using t by (auto simp: take_held_def split: option.splits)
  have ci: "conn_inv s c" using i by (simp add: attach_inv_def)
  have "received ?s c q = received s c q" "todo ?s c q = todo s c q" for q
    using h ph by (simp_all add: received_def todo_def held_of_def empty_hold_def)
  then show "conn_inv ?s c"
    using ci ph h unfolding conn_inv_def lost_panes_def by (simp add: empty_hold_def hold_ok_def)
  have "dom (holds ?s) = dom (holds s)" using h by auto
  then show "finite (dom (holds ?s))" "holdCount ?s = card (dom (holds ?s))"
    using i h(3) by (simp_all add: attach_inv_def)
qed (use t in \<open>auto simp: take_held_def split: option.splits\<close>)

lemma send_inv:
  assumes i: "attach_inv s" and ph: "phase_of s c = Releasing" "batch s c = ch # chs"
  shows "attach_inv ((send_held (endp s c) c ch s)\<lparr>batch := (batch s)(c := chs)\<rparr>)" (is "attach_inv ?s")
proof (rule local_step_inv [OF i, of ?s c])
  have ci: "conn_inv s c" using i by (simp add: attach_inv_def)
  have recv: "received ?s c q = received s c q @
      (if ch_pane ch = q then (case trim_chunk (endp s c) ch of None \<Rightarrow> [] | Some d \<Rightarrow> d) else [])" for q
  proof (cases "trim_chunk (endp s c) ch")
    case None
    then show ?thesis by (simp add: send_held_def received_def)
  next
    case (Some d)
    then show ?thesis
      using ci by (subst received_snoc [of s c ?s "Live (ch_pane ch) d"]) (simp_all add: send_held_def conn_inv_def)
  qed
  have f: "holds ?s = holds s" "stream ?s = stream s" "phase_of ?s = phase_of s" "holdFlag ?s = holdFlag s"
    "to_kick ?s = to_kick s" "since ?s = since s" "gap ?s = gap s" "endp ?s = endp s" "origin ?s = origin s"
    "batch ?s c = chs" "length (queued s c) \<le> length (queued ?s c)"
    by (simp_all add: send_held_def split: option.split)
  have todo: "todo s c q = (if ch_pane ch = q then [ch] else []) @ todo ?s c q" for q
    using ph f(1,10) by (simp add: todo_def held_of_def)
  have "tile_ok Releasing (stream s q) (endp s c q) (origin s c q) (todo ?s c q) (received ?s c q)" if "\<not> gap s c q" for q
  proof -
    have t: "tile_ok Releasing (stream s q) (endp s c q) (origin s c q) (todo s c q) (received s c q)"
      using ci ph that by (simp add: conn_inv_def)
    show ?thesis
    proof (cases "ch_pane ch = q")
      case True
      then show ?thesis using tile_ok_send [of "stream s q" "endp s c" ch] t unfolding recv todo by simp
    next
      case False
      then show ?thesis using t unfolding recv todo [of q] by simp
    qed
  qed
  moreover have "since ?s c \<le> length (queued ?s c)" using f(6,11) ci by (simp add: conn_inv_def)
  ultimately show "conn_inv ?s c" using ci ph unfolding conn_inv_def lost_panes_def f by auto
qed (auto simp: send_held_def split: option.split)

lemma kick_inv:
  assumes i: "attach_inv s" and ph: "phase_of s c = Releasing"
  shows "attach_inv (s\<lparr>to_kick := (to_kick s)(c := ps), kicked := k\<rparr>)" (is "attach_inv ?s")
proof (rule local_step_inv [OF i, of ?s c])
  have ci: "conn_inv s c" using i by (simp add: attach_inv_def)
  have "received ?s c q = received s c q" "todo ?s c q = todo s c q" for q
    by (simp_all add: received_def todo_def held_of_def)
  then show "conn_inv ?s c" using ci ph unfolding conn_inv_def lost_panes_def by simp
qed auto

lemma end_hold_dom: "finite (dom (holds s)) \<and> holdCount s = card (dom (holds s)) \<Longrightarrow> holds s c = Some h \<Longrightarrow>
    finite (dom (holds (end_hold c s))) \<and> holdCount (end_hold c s) = card (dom (holds (end_hold c s)))"
proof -
  assume h: "finite (dom (holds s)) \<and> holdCount s = card (dom (holds s))" "holds s c = Some h"
  have "dom (holds (end_hold c s)) = dom (holds s) - {c}" by (auto simp: end_hold_def)
  moreover have "c \<in> dom (holds s)" using h(2) by auto
  ultimately show ?thesis using h(1) by (simp add: end_hold_def card_Diff_singleton)
qed

lemma finish_inv:
  assumes i: "attach_inv s" and ph: "phase_of s c = Releasing" "batch s c = []" "to_kick s c = []"
    and t: "finishOutputHold c s = (True, s')"
  shows "attach_inv (s'\<lparr>phase_of := (phase_of s)(c := Streaming)\<rparr>)" (is "attach_inv ?s")
proof -
  have ci: "conn_inv s c" using i by (simp add: attach_inv_def)
  then obtain h where h: "holds s c = Some h" using ph by (auto simp: conn_inv_def)
  then have e: "chunks h = []" "lost h = []" "s' = end_hold c s"
    using t by (auto simp: finishOutputHold_def split: if_splits)
  show ?thesis
  proof (rule attach_inv_step [OF i, of ?s c])
    have "received ?s c q = received s c q" "todo ?s c q = todo s c q" for q
      using h e ph by (simp_all add: received_def todo_def held_of_def end_hold_def)
    then show "conn_inv ?s c"
      using ci ph h e tile_ok_phase(2) unfolding conn_inv_def lost_panes_def by (simp add: end_hold_def)
    show "finite (dom (holds ?s))" "holdCount ?s = card (dom (holds ?s))"
      using end_hold_dom [of s c h] i h e(3) by (simp_all add: attach_inv_def)
  qed (simp_all add: e(3) end_hold_def)
qed

lemma abort_inv:
  assumes i: "attach_inv s"
  shows "attach_inv ((dropOutputHold c s)\<lparr>phase_of := (phase_of s)(c := Streaming), batch := (batch s)(c := []),
      to_kick := (to_kick s)(c := []), gap := (gap s)(c := (\<lambda>_. True))\<rparr>)" (is "attach_inv ?s")
proof (rule attach_inv_step [OF i, of ?s c])
  have ci: "conn_inv s c" using i by (simp add: attach_inv_def)
  then show "conn_inv ?s c"
    unfolding conn_inv_def lost_panes_def by (auto simp: dropOutputHold_def end_hold_def split: option.split)
  show "finite (dom (holds ?s))" "holdCount ?s = card (dom (holds ?s))"
    using end_hold_dom [of s c] i by (auto simp: attach_inv_def dropOutputHold_def split: option.split)
qed (auto simp: dropOutputHold_def end_hold_def split: option.split)

lemma attach_step_inv: "attach_step s s' \<Longrightarrow> attach_inv s \<Longrightarrow> attach_inv s'"
proof (induction rule: attach_step.induct)
  case (flush s p data gen)
  then show ?case by (rule flush_inv)
next
  case (begin_attach s c)
  then show ?case by (intro begin_inv)
next
  case (replay s c p cap e s')
  then show ?case by (intro replay_inv)
next
  case (foreign s c p data)
  then show ?case by (intro foreign_inv)
next
  case (release s c)
  then show ?case by (intro release_inv)
next
  case (take s c chs ls s')
  then show ?case by (intro take_inv)
next
  case (send s c ch chs)
  then show ?case by (intro send_inv)
next
  case (kick s c p ps)
  then show ?case by (intro kick_inv)
next
  case (finish s c s')
  then show ?case by (intro finish_inv)
next
  case (abort s c)
  then show ?case by (intro abort_inv)
qed

lemma attach_init_inv: "attach_init s \<Longrightarrow> attach_inv s"
proof -
  assume i: "attach_init s"
  have "tile_ok Streaming [] None 0 [] []" by (simp add: tile_ok_def base_def)
  then show ?thesis
    using i by (auto simp: attach_init_def attach_inv_def conn_inv_def lost_panes_def todo_def held_of_def received_def)
qed

interpretation attaches: machine attach_init attach_step attach_inv
  by unfold_locales (auto intro: attach_init_inv attach_step_inv)

section \<open>Properties\<close>

text \<open>C15. A client that attaches while panes write gets every pane's history and live output exactly
  once and in order. In every reachable state, for a connection whose attach is over and a pane of
  which nothing overflowed, the bytes queued to the connection since its attach began are a suffix of
  the pane's stream, with no gap and nothing repeated, and they reach back at least to where the
  replay ended; while the attach runs they are such a suffix up to the bytes still held, which is
  what \<open>tile_ok\<close> says.\<close>

theorem attach_exactly_once:
  assumes "attach_init s0" "attach_step\<^sup>*\<^sup>* s0 s" "\<not> gap s c p"
  shows "(phase_of s c = Streaming \<longrightarrow> suffix (received s c p) (stream s p)
      \<and> outPos s p - base (endp s c p) (origin s c p) \<le> length (received s c p))
    \<and> tile_ok (phase_of s c) (stream s p) (endp s c p) (origin s c p) (todo s c p) (received s c p)"
proof -
  have "attach_inv s" using assms(1,2) by (rule attaches.reachable_inv)
  then have ci: "conn_inv s c" by (simp add: attach_inv_def)
  then have t: "tile_ok (phase_of s c) (stream s p) (endp s c p) (origin s c p) (todo s c p) (received s c p)"
    using assms(3) by (simp add: conn_inv_def)
  moreover have "todo s c p = []" if "phase_of s c = Streaming"
    using ci that by (simp add: conn_inv_def todo_def held_of_def)
  ultimately show ?thesis using tile_ok_done by (metis outPos_def)
qed

text \<open>A pane that wrote two bytes before the attach, one while its history was replayed, one after.\<close>

definition attach0 :: attach_state where
  "attach0 = \<lparr>holds = Map.empty, holdCount = 0, holdFlag = (\<lambda>_. False), stream = (\<lambda>_. []), queued = (\<lambda>_. []),
     phase_of = (\<lambda>_. Streaming), batch = (\<lambda>_. []), to_kick = (\<lambda>_. []), endp = (\<lambda>_. Map.empty),
     readOnly = (\<lambda>_. False), kicked = (\<lambda>_. []), gap = (\<lambda>_ _. False), since = (\<lambda>_. 0), origin = (\<lambda>_ _. 0)\<rparr>"

definition attach1 :: attach_state where
  "attach1 = overflowed ''p'' (flushPaneOutput ''p'' [1, 2] 0 attach0)"

definition attach2 :: attach_state where
  "attach2 = (beginOutputHold 5 attach1)\<lparr>phase_of := (phase_of attach1)(5 := Replaying), batch := (batch attach1)(5 := []),
      to_kick := (to_kick attach1)(5 := []), endp := (endp attach1)(5 := Map.empty), gap := (gap attach1)(5 := (\<lambda>_. False)),
      since := (since attach1)(5 := length (queued attach1 5)), origin := (origin attach1)(5 := outPos attach1)\<rparr>"

definition attach3 :: attach_state where
  "attach3 = overflowed ''p'' (flushPaneOutput ''p'' [3] 0 attach2)"

lemma attach_reachable: "attach_init attach0" "attach_step\<^sup>*\<^sup>* attach0 attach3"
proof -
  show "attach_init attach0" by (simp add: attach_init_def attach0_def)
  have s1: "attach_step attach0 attach1" unfolding attach1_def by (rule attach_step.flush)
  have s2: "attach_step attach1 attach2" unfolding attach2_def
    by (rule attach_step.begin_attach)
      (simp add: attach1_def attach0_def overflowed_def flushPaneOutput_def broadcast_output_def holdOutput_def Let_def)
  have s3: "attach_step attach2 attach3" unfolding attach3_def by (rule attach_step.flush)
  show "attach_step\<^sup>*\<^sup>* attach0 attach3"
    by (rule rtranclp.rtrancl_into_rtrancl [OF rtranclp.rtrancl_into_rtrancl [OF r_into_rtranclp [of attach_step, OF s1] s2] s3])
qed

theorem attach_exactly_once_witness:
  "\<not> gap attach3 5 ''p'' \<and> tile_ok Replaying [1, 2, 3] None 2 (todo attach3 5 ''p'') (received attach3 5 ''p'')"
proof -
  note defs = attach3_def attach2_def attach1_def attach0_def overflowed_def flushPaneOutput_def broadcast_output_def
    holdOutput_def beginOutputHold_def Let_def lost_panes_def empty_hold_def hold_one_def outputHoldLimit_def outPos_def
  have g: "\<not> gap attach3 5 ''p''" and f: "phase_of attach3 5 = Replaying" "stream attach3 ''p'' = [1, 2, 3]"
    "endp attach3 5 ''p'' = None" "origin attach3 5 ''p'' = 2"
    by (simp_all add: defs)
  from attach_exactly_once [OF attach_reachable g] g show ?thesis by (simp add: f)
qed

text \<open>What is held for a connection never passes four megabytes, the count of held bytes is exact,
  no chunk of a pane that overflowed is kept, and the lock-free test that skips \<open>holdMu\<close> when nothing
  is held is exact: the counter is the number of holds, and a connection is off live output exactly
  while it has one.\<close>

theorem hold_bounded:
  assumes "attach_init s0" "attach_step\<^sup>*\<^sup>* s0 s" "holds s c = Some h"
  shows "sum_list (map (\<lambda>ch. length (ch_data ch)) (chunks h)) \<le> 4 * 1024 * 1024
    \<and> hold_bytes h = sum_list (map (\<lambda>ch. length (ch_data ch)) (chunks h))
    \<and> (\<forall>ch \<in> set (chunks h). ch_pane ch \<notin> set (lost h))
    \<and> holdCount s = card {c. holds s c \<noteq> None} \<and> (\<forall>c. holdFlag s c \<longleftrightarrow> holds s c \<noteq> None)"
proof -
  have i: "attach_inv s" using assms(1,2) by (rule attaches.reachable_inv)
  then have "hold_ok h" using assms(3) by (simp add: attach_inv_def conn_inv_def)
  moreover have "dom (holds s) = {c. holds s c \<noteq> None}" by auto
  ultimately show ?thesis using i by (simp add: hold_ok_def outputHoldLimit_def attach_inv_def conn_inv_def)
qed

theorem hold_bounded_witness:
  "holdCount attach3 = card {c. holds attach3 c \<noteq> None}"
proof -
  have "holds attach3 5 \<noteq> None"
    by (simp add: attach3_def attach2_def overflowed_def flushPaneOutput_def broadcast_output_def holdOutput_def
        beginOutputHold_def Let_def)
  then obtain h where "holds attach3 5 = Some h" by blast
  from hold_bounded [OF attach_reachable this] show ?thesis by blast
qed

end
