(* ===== verification/Ipc_Protocol.thy ===== *)
theory Ipc_Protocol
  imports Quil_Prelude
begin

text \<open>
  The message types of the wire protocol (\<open>internal/ipc\<close>: \<open>protocol.go\<close>, \<open>hello.go\<close>, \<open>shared.go\<close>,
  \<open>template.go\<close>, \<open>token.go\<close>), one constant each, and a message as the daemon dispatches it.
\<close>

section \<open>\<open>protocol.go\<close>\<close>

definition MsgAttach :: string where "MsgAttach = ''attach''"
definition MsgDetach :: string where "MsgDetach = ''detach''"
definition MsgShutdown :: string where "MsgShutdown = ''shutdown''"
definition MsgSubscribe :: string where "MsgSubscribe = ''subscribe''"
definition MsgCreatePane :: string where "MsgCreatePane = ''create_pane''"
definition MsgDestroyPane :: string where "MsgDestroyPane = ''destroy_pane''"
definition MsgResizePane :: string where "MsgResizePane = ''resize_pane''"
definition MsgUpdatePane :: string where "MsgUpdatePane = ''update_pane''"
definition MsgUpdateLayout :: string where "MsgUpdateLayout = ''update_layout''"
definition MsgMovePane :: string where "MsgMovePane = ''move_pane''"
definition MsgCreateTab :: string where "MsgCreateTab = ''create_tab''"
definition MsgDestroyTab :: string where "MsgDestroyTab = ''destroy_tab''"
definition MsgSwitchTab :: string where "MsgSwitchTab = ''switch_tab''"
definition MsgUpdateTab :: string where "MsgUpdateTab = ''update_tab''"
definition MsgReorderTab :: string where "MsgReorderTab = ''reorder_tab''"
definition MsgMoveTab :: string where "MsgMoveTab = ''move_tab''"
definition MsgCreateProject :: string where "MsgCreateProject = ''create_project''"
definition MsgDestroyProject :: string where "MsgDestroyProject = ''destroy_project''"
definition MsgUpdateProject :: string where "MsgUpdateProject = ''update_project''"
definition MsgMergeProjects :: string where "MsgMergeProjects = ''merge_projects''"
definition MsgSwitchProject :: string where "MsgSwitchProject = ''switch_project''"
definition MsgReorderProject :: string where "MsgReorderProject = ''reorder_project''"
definition MsgLinkLost :: string where "MsgLinkLost = ''link_lost''"
definition MsgPaneInput :: string where "MsgPaneInput = ''pane_input''"
definition MsgPaneInputResp :: string where "MsgPaneInputResp = ''pane_input_resp''"
definition MsgPaneOutput :: string where "MsgPaneOutput = ''pane_output''"
definition MsgWorkspaceState :: string where "MsgWorkspaceState = ''workspace_state''"
definition MsgPluginError :: string where "MsgPluginError = ''plugin_error''"
definition MsgPluginFixReq :: string where "MsgPluginFixReq = ''plugin_fix_req''"
definition MsgPluginFixResp :: string where "MsgPluginFixResp = ''plugin_fix_resp''"
definition MsgPluginUpdateReq :: string where "MsgPluginUpdateReq = ''plugin_update_req''"
definition MsgPluginUpdateResp :: string where "MsgPluginUpdateResp = ''plugin_update_resp''"
definition MsgReloadPlugins :: string where "MsgReloadPlugins = ''reload_plugins''"
definition MsgOverlayPolicy :: string where "MsgOverlayPolicy = ''overlay_policy''"
definition MsgListPanesReq :: string where "MsgListPanesReq = ''list_panes_req''"
definition MsgListPanesResp :: string where "MsgListPanesResp = ''list_panes_resp''"
definition MsgReadPaneOutputReq :: string where "MsgReadPaneOutputReq = ''read_pane_output_req''"
definition MsgReadPaneOutputResp :: string where "MsgReadPaneOutputResp = ''read_pane_output_resp''"
definition MsgPaneStatusReq :: string where "MsgPaneStatusReq = ''pane_status_req''"
definition MsgPaneStatusResp :: string where "MsgPaneStatusResp = ''pane_status_resp''"
definition MsgCreatePaneReq :: string where "MsgCreatePaneReq = ''create_pane_req''"
definition MsgCreatePaneResp :: string where "MsgCreatePaneResp = ''create_pane_resp''"
definition MsgSplitPaneReq :: string where "MsgSplitPaneReq = ''split_pane_req''"
definition MsgSplitPaneResp :: string where "MsgSplitPaneResp = ''split_pane_resp''"
definition MsgRestartPaneReq :: string where "MsgRestartPaneReq = ''restart_pane_req''"
definition MsgRestartPaneResp :: string where "MsgRestartPaneResp = ''restart_pane_resp''"
definition MsgScreenshotPaneReq :: string where "MsgScreenshotPaneReq = ''screenshot_pane_req''"
definition MsgScreenshotPaneResp :: string where "MsgScreenshotPaneResp = ''screenshot_pane_resp''"
definition MsgSwitchTabReq :: string where "MsgSwitchTabReq = ''switch_tab_req''"
definition MsgSwitchTabResp :: string where "MsgSwitchTabResp = ''switch_tab_resp''"
definition MsgListTabsReq :: string where "MsgListTabsReq = ''list_tabs_req''"
definition MsgListTabsResp :: string where "MsgListTabsResp = ''list_tabs_resp''"
definition MsgDestroyPaneReq :: string where "MsgDestroyPaneReq = ''destroy_pane_req''"
definition MsgDestroyPaneResp :: string where "MsgDestroyPaneResp = ''destroy_pane_resp''"
definition MsgSetActivePane :: string where "MsgSetActivePane = ''set_active_pane''"
definition MsgCloseTUI :: string where "MsgCloseTUI = ''close_tui''"
definition MsgHighlightPane :: string where "MsgHighlightPane = ''highlight_pane''"
definition MsgPaneEvent :: string where "MsgPaneEvent = ''pane_event''"
definition MsgDismissEvent :: string where "MsgDismissEvent = ''dismiss_event''"
definition MsgGetNotificationsReq :: string where "MsgGetNotificationsReq = ''get_notifications_req''"
definition MsgGetNotificationsResp :: string where "MsgGetNotificationsResp = ''get_notifications_resp''"
definition MsgWatchNotificationsReq :: string where "MsgWatchNotificationsReq = ''watch_notifications_req''"
definition MsgWatchNotificationsResp :: string where "MsgWatchNotificationsResp = ''watch_notifications_resp''"
definition MsgVersionReq :: string where "MsgVersionReq = ''version_req''"
definition MsgVersionResp :: string where "MsgVersionResp = ''version_resp''"
definition MsgMemoryReportReq :: string where "MsgMemoryReportReq = ''memory_report_req''"
definition MsgMemoryReportResp :: string where "MsgMemoryReportResp = ''memory_report_resp''"
definition MsgResourceReportReq :: string where "MsgResourceReportReq = ''resource_report_req''"
definition MsgResourceReportResp :: string where "MsgResourceReportResp = ''resource_report_resp''"
definition MsgClientHello :: string where "MsgClientHello = ''client_hello''"
definition MsgClientStat :: string where "MsgClientStat = ''client_stat''"
definition MsgKillProcessReq :: string where "MsgKillProcessReq = ''kill_process_req''"
definition MsgKillProcessResp :: string where "MsgKillProcessResp = ''kill_process_resp''"
definition MsgPaneHistoryReq :: string where "MsgPaneHistoryReq = ''pane_history_req''"
definition MsgPaneHistoryResp :: string where "MsgPaneHistoryResp = ''pane_history_resp''"
definition MsgPaneHistoryEntryReq :: string where "MsgPaneHistoryEntryReq = ''pane_history_entry_req''"
definition MsgPaneHistoryEntryResp :: string where "MsgPaneHistoryEntryResp = ''pane_history_entry_resp''"
definition MsgPaneSearchReq :: string where "MsgPaneSearchReq = ''pane_search_req''"
definition MsgPaneSearchResp :: string where "MsgPaneSearchResp = ''pane_search_resp''"
definition MsgClaudeSessionsReq :: string where "MsgClaudeSessionsReq = ''claude_sessions_req''"
definition MsgClaudeSessionsResp :: string where "MsgClaudeSessionsResp = ''claude_sessions_resp''"
definition MsgClaudeSessionDetailReq :: string where "MsgClaudeSessionDetailReq = ''claude_session_detail_req''"
definition MsgClaudeSessionDetailResp :: string where "MsgClaudeSessionDetailResp = ''claude_session_detail_resp''"
definition MsgBrowseDirReq :: string where "MsgBrowseDirReq = ''browse_dir_req''"
definition MsgBrowseDirResp :: string where "MsgBrowseDirResp = ''browse_dir_resp''"
definition MsgGitReposReq :: string where "MsgGitReposReq = ''git_repos_req''"
definition MsgGitReposResp :: string where "MsgGitReposResp = ''git_repos_resp''"
definition MsgWorktreeListReq :: string where "MsgWorktreeListReq = ''worktree_list_req''"
definition MsgWorktreeListResp :: string where "MsgWorktreeListResp = ''worktree_list_resp''"
definition MsgWorktreeStatusReq :: string where "MsgWorktreeStatusReq = ''worktree_status_req''"
definition MsgWorktreeStatusResp :: string where "MsgWorktreeStatusResp = ''worktree_status_resp''"
definition MsgDirsExistReq :: string where "MsgDirsExistReq = ''dirs_exist_req''"
definition MsgDirsExistResp :: string where "MsgDirsExistResp = ''dirs_exist_resp''"
definition MsgSandboxCapReq :: string where "MsgSandboxCapReq = ''sandbox_cap_req''"
definition MsgSandboxCapResp :: string where "MsgSandboxCapResp = ''sandbox_cap_resp''"
definition MsgPasteImageReq :: string where "MsgPasteImageReq = ''paste_image_req''"
definition MsgPasteImageResp :: string where "MsgPasteImageResp = ''paste_image_resp''"
definition MsgStageUpdateReq :: string where "MsgStageUpdateReq = ''stage_update_req''"
definition MsgStageUpdateResp :: string where "MsgStageUpdateResp = ''stage_update_resp''"
definition MsgUpdateCheckReq :: string where "MsgUpdateCheckReq = ''update_check_req''"
definition MsgKubeCtxReq :: string where "MsgKubeCtxReq = ''kube_ctx_req''"
definition MsgKubeCtxResp :: string where "MsgKubeCtxResp = ''kube_ctx_resp''"
definition MsgPluginListReq :: string where "MsgPluginListReq = ''plugin_list_req''"
definition MsgPluginListResp :: string where "MsgPluginListResp = ''plugin_list_resp''"
definition MsgListProjectsReq :: string where "MsgListProjectsReq = ''list_projects_req''"
definition MsgListProjectsResp :: string where "MsgListProjectsResp = ''list_projects_resp''"
definition MsgCreateProjectReq :: string where "MsgCreateProjectReq = ''create_project_req''"
definition MsgCreateProjectResp :: string where "MsgCreateProjectResp = ''create_project_resp''"
definition MsgProjectOpResp :: string where "MsgProjectOpResp = ''project_op_resp''"
definition MsgTabOpResp :: string where "MsgTabOpResp = ''tab_op_resp''"
definition MsgPaneOpResp :: string where "MsgPaneOpResp = ''pane_op_resp''"
definition MsgCreateTabReq :: string where "MsgCreateTabReq = ''create_tab_req''"
definition MsgCreateTabResp :: string where "MsgCreateTabResp = ''create_tab_resp''"
definition MsgPluginCatalogReq :: string where "MsgPluginCatalogReq = ''plugin_catalog_req''"
definition MsgPluginCatalogResp :: string where "MsgPluginCatalogResp = ''plugin_catalog_resp''"
definition MsgDelegateTaskReq :: string where "MsgDelegateTaskReq = ''delegate_task_req''"
definition MsgDelegateTaskResp :: string where "MsgDelegateTaskResp = ''delegate_task_resp''"
definition MsgGetTaskReq :: string where "MsgGetTaskReq = ''get_task_req''"
definition MsgGetTaskResp :: string where "MsgGetTaskResp = ''get_task_resp''"
definition MsgWaitTaskReq :: string where "MsgWaitTaskReq = ''wait_task_req''"
definition MsgWaitTaskResp :: string where "MsgWaitTaskResp = ''wait_task_resp''"
definition MsgListTasksReq :: string where "MsgListTasksReq = ''list_tasks_req''"
definition MsgListTasksResp :: string where "MsgListTasksResp = ''list_tasks_resp''"
definition MsgPaneSizes :: string where "MsgPaneSizes = ''pane_sizes''"
definition MsgResizePanes :: string where "MsgResizePanes = ''resize_panes''"
definition MsgClientGeometry :: string where "MsgClientGeometry = ''client_geometry''"
definition MsgTakeControl :: string where "MsgTakeControl = ''take_control''"
definition MsgListClientsReq :: string where "MsgListClientsReq = ''list_clients_req''"
definition MsgListClientsResp :: string where "MsgListClientsResp = ''list_clients_resp''"
definition MsgEventDismissed :: string where "MsgEventDismissed = ''event_dismissed''"
definition MsgPaneSeen :: string where "MsgPaneSeen = ''pane_seen''"
section \<open>\<open>hello.go\<close>\<close>

definition MsgHello :: string where "MsgHello = ''hello''"
definition MsgHelloResp :: string where "MsgHelloResp = ''hello_resp''"
definition MsgError :: string where "MsgError = ''error''"
definition MsgStateReq :: string where "MsgStateReq = ''state_req''"
definition MsgAuthChallenge :: string where "MsgAuthChallenge = ''auth_challenge''"
definition MsgAuthProof :: string where "MsgAuthProof = ''auth_proof''"
section \<open>\<open>shared.go\<close>\<close>

definition MsgSetProjectGroup :: string where "MsgSetProjectGroup = ''set_project_group''"
definition MsgGroupOp :: string where "MsgGroupOp = ''group_op''"
definition MsgGroupOpResp :: string where "MsgGroupOpResp = ''group_op_resp''"
definition MsgNoteGet :: string where "MsgNoteGet = ''note_get''"
definition MsgNoteResp :: string where "MsgNoteResp = ''note_resp''"
definition MsgNoteSet :: string where "MsgNoteSet = ''note_set''"
definition MsgNoteSetResp :: string where "MsgNoteSetResp = ''note_set_resp''"
definition MsgSharedImport :: string where "MsgSharedImport = ''shared_import''"
definition MsgSharedImportResp :: string where "MsgSharedImportResp = ''shared_import_resp''"
section \<open>\<open>template.go\<close>\<close>

definition MsgCreateFromTemplateReq :: string where "MsgCreateFromTemplateReq = ''create_from_template_req''"
definition MsgCreateFromTemplateResp :: string where "MsgCreateFromTemplateResp = ''create_from_template_resp''"
section \<open>\<open>token.go\<close>\<close>

definition MsgTokenCreateReq :: string where "MsgTokenCreateReq = ''token_create_req''"
definition MsgTokenCreateResp :: string where "MsgTokenCreateResp = ''token_create_resp''"
definition MsgTokenListReq :: string where "MsgTokenListReq = ''token_list_req''"
definition MsgTokenListResp :: string where "MsgTokenListResp = ''token_list_resp''"
definition MsgTokenRevokeReq :: string where "MsgTokenRevokeReq = ''token_revoke_req''"
definition MsgTokenRevokeResp :: string where "MsgTokenRevokeResp = ''token_revoke_resp''"

section \<open>All of them\<close>

text \<open>The constants, in the order of the source, and their unfolding as one collection.\<close>

definition message_types :: "string list" where
  "message_types = [
    MsgAttach, MsgDetach, MsgShutdown, MsgSubscribe, MsgCreatePane, MsgDestroyPane, MsgResizePane,
    MsgUpdatePane, MsgUpdateLayout, MsgMovePane, MsgCreateTab, MsgDestroyTab, MsgSwitchTab, MsgUpdateTab,
    MsgReorderTab, MsgMoveTab, MsgCreateProject, MsgDestroyProject, MsgUpdateProject, MsgMergeProjects,
    MsgSwitchProject, MsgReorderProject, MsgLinkLost, MsgPaneInput, MsgPaneInputResp, MsgPaneOutput,
    MsgWorkspaceState, MsgPluginError, MsgPluginFixReq, MsgPluginFixResp, MsgPluginUpdateReq,
    MsgPluginUpdateResp, MsgReloadPlugins, MsgOverlayPolicy, MsgListPanesReq, MsgListPanesResp,
    MsgReadPaneOutputReq, MsgReadPaneOutputResp, MsgPaneStatusReq, MsgPaneStatusResp, MsgCreatePaneReq,
    MsgCreatePaneResp, MsgSplitPaneReq, MsgSplitPaneResp, MsgRestartPaneReq, MsgRestartPaneResp,
    MsgScreenshotPaneReq, MsgScreenshotPaneResp, MsgSwitchTabReq, MsgSwitchTabResp, MsgListTabsReq,
    MsgListTabsResp, MsgDestroyPaneReq, MsgDestroyPaneResp, MsgSetActivePane, MsgCloseTUI, MsgHighlightPane,
    MsgPaneEvent, MsgDismissEvent, MsgGetNotificationsReq, MsgGetNotificationsResp, MsgWatchNotificationsReq,
    MsgWatchNotificationsResp, MsgVersionReq, MsgVersionResp, MsgMemoryReportReq, MsgMemoryReportResp,
    MsgResourceReportReq, MsgResourceReportResp, MsgClientHello, MsgClientStat, MsgKillProcessReq,
    MsgKillProcessResp, MsgPaneHistoryReq, MsgPaneHistoryResp, MsgPaneHistoryEntryReq, MsgPaneHistoryEntryResp,
    MsgPaneSearchReq, MsgPaneSearchResp, MsgClaudeSessionsReq, MsgClaudeSessionsResp,
    MsgClaudeSessionDetailReq, MsgClaudeSessionDetailResp, MsgBrowseDirReq, MsgBrowseDirResp, MsgGitReposReq,
    MsgGitReposResp, MsgWorktreeListReq, MsgWorktreeListResp, MsgWorktreeStatusReq, MsgWorktreeStatusResp,
    MsgDirsExistReq, MsgDirsExistResp, MsgSandboxCapReq, MsgSandboxCapResp, MsgPasteImageReq,
    MsgPasteImageResp, MsgStageUpdateReq, MsgStageUpdateResp, MsgUpdateCheckReq, MsgKubeCtxReq, MsgKubeCtxResp,
    MsgPluginListReq, MsgPluginListResp, MsgListProjectsReq, MsgListProjectsResp, MsgCreateProjectReq,
    MsgCreateProjectResp, MsgProjectOpResp, MsgTabOpResp, MsgPaneOpResp, MsgCreateTabReq, MsgCreateTabResp,
    MsgPluginCatalogReq, MsgPluginCatalogResp, MsgDelegateTaskReq, MsgDelegateTaskResp, MsgGetTaskReq,
    MsgGetTaskResp, MsgWaitTaskReq, MsgWaitTaskResp, MsgListTasksReq, MsgListTasksResp, MsgPaneSizes,
    MsgResizePanes, MsgClientGeometry, MsgTakeControl, MsgListClientsReq, MsgListClientsResp,
    MsgEventDismissed, MsgPaneSeen, MsgHello, MsgHelloResp, MsgError, MsgStateReq, MsgAuthChallenge,
    MsgAuthProof, MsgSetProjectGroup, MsgGroupOp, MsgGroupOpResp, MsgNoteGet, MsgNoteResp, MsgNoteSet,
    MsgNoteSetResp, MsgSharedImport, MsgSharedImportResp, MsgCreateFromTemplateReq, MsgCreateFromTemplateResp,
    MsgTokenCreateReq, MsgTokenCreateResp, MsgTokenListReq, MsgTokenListResp, MsgTokenRevokeReq,
    MsgTokenRevokeResp]"

lemmas msg_defs =
  MsgAttach_def MsgDetach_def MsgShutdown_def MsgSubscribe_def MsgCreatePane_def MsgDestroyPane_def
  MsgResizePane_def MsgUpdatePane_def MsgUpdateLayout_def MsgMovePane_def MsgCreateTab_def
  MsgDestroyTab_def MsgSwitchTab_def MsgUpdateTab_def MsgReorderTab_def MsgMoveTab_def
  MsgCreateProject_def MsgDestroyProject_def MsgUpdateProject_def MsgMergeProjects_def
  MsgSwitchProject_def MsgReorderProject_def MsgLinkLost_def MsgPaneInput_def MsgPaneInputResp_def
  MsgPaneOutput_def MsgWorkspaceState_def MsgPluginError_def MsgPluginFixReq_def MsgPluginFixResp_def
  MsgPluginUpdateReq_def MsgPluginUpdateResp_def MsgReloadPlugins_def MsgOverlayPolicy_def
  MsgListPanesReq_def MsgListPanesResp_def MsgReadPaneOutputReq_def MsgReadPaneOutputResp_def
  MsgPaneStatusReq_def MsgPaneStatusResp_def MsgCreatePaneReq_def MsgCreatePaneResp_def
  MsgSplitPaneReq_def MsgSplitPaneResp_def MsgRestartPaneReq_def MsgRestartPaneResp_def
  MsgScreenshotPaneReq_def MsgScreenshotPaneResp_def MsgSwitchTabReq_def MsgSwitchTabResp_def
  MsgListTabsReq_def MsgListTabsResp_def MsgDestroyPaneReq_def MsgDestroyPaneResp_def MsgSetActivePane_def
  MsgCloseTUI_def MsgHighlightPane_def MsgPaneEvent_def MsgDismissEvent_def MsgGetNotificationsReq_def
  MsgGetNotificationsResp_def MsgWatchNotificationsReq_def MsgWatchNotificationsResp_def MsgVersionReq_def
  MsgVersionResp_def MsgMemoryReportReq_def MsgMemoryReportResp_def MsgResourceReportReq_def
  MsgResourceReportResp_def MsgClientHello_def MsgClientStat_def MsgKillProcessReq_def
  MsgKillProcessResp_def MsgPaneHistoryReq_def MsgPaneHistoryResp_def MsgPaneHistoryEntryReq_def
  MsgPaneHistoryEntryResp_def MsgPaneSearchReq_def MsgPaneSearchResp_def MsgClaudeSessionsReq_def
  MsgClaudeSessionsResp_def MsgClaudeSessionDetailReq_def MsgClaudeSessionDetailResp_def
  MsgBrowseDirReq_def MsgBrowseDirResp_def MsgGitReposReq_def MsgGitReposResp_def MsgWorktreeListReq_def
  MsgWorktreeListResp_def MsgWorktreeStatusReq_def MsgWorktreeStatusResp_def MsgDirsExistReq_def
  MsgDirsExistResp_def MsgSandboxCapReq_def MsgSandboxCapResp_def MsgPasteImageReq_def
  MsgPasteImageResp_def MsgStageUpdateReq_def MsgStageUpdateResp_def MsgUpdateCheckReq_def
  MsgKubeCtxReq_def MsgKubeCtxResp_def MsgPluginListReq_def MsgPluginListResp_def MsgListProjectsReq_def
  MsgListProjectsResp_def MsgCreateProjectReq_def MsgCreateProjectResp_def MsgProjectOpResp_def
  MsgTabOpResp_def MsgPaneOpResp_def MsgCreateTabReq_def MsgCreateTabResp_def MsgPluginCatalogReq_def
  MsgPluginCatalogResp_def MsgDelegateTaskReq_def MsgDelegateTaskResp_def MsgGetTaskReq_def
  MsgGetTaskResp_def MsgWaitTaskReq_def MsgWaitTaskResp_def MsgListTasksReq_def MsgListTasksResp_def
  MsgPaneSizes_def MsgResizePanes_def MsgClientGeometry_def MsgTakeControl_def MsgListClientsReq_def
  MsgListClientsResp_def MsgEventDismissed_def MsgPaneSeen_def MsgHello_def MsgHelloResp_def MsgError_def
  MsgStateReq_def MsgAuthChallenge_def MsgAuthProof_def MsgSetProjectGroup_def MsgGroupOp_def
  MsgGroupOpResp_def MsgNoteGet_def MsgNoteResp_def MsgNoteSet_def MsgNoteSetResp_def MsgSharedImport_def
  MsgSharedImportResp_def MsgCreateFromTemplateReq_def MsgCreateFromTemplateResp_def MsgTokenCreateReq_def
  MsgTokenCreateResp_def MsgTokenListReq_def MsgTokenListResp_def MsgTokenRevokeReq_def
  MsgTokenRevokeResp_def

record ipc_message =
  msg_Type :: string
  msg_ID :: string
  msg_Payload :: string

end
