(* ===== verification/Rights.thy ===== *)
theory Rights
  imports Ipc_Protocol Go_Lib
begin

text \<open>
  What a connection may ask of the daemon: the class of every message type and the one rights check
  (\<open>internal/clientauth/rights.go\<close>, the level names of \<open>token.go\<close> and \<open>hello.go\<close>). Decoding a payload is
  \<open>encoding/json\<close> over the struct of its type: the five decoders are parameters, one per create shape,
  each giving the two fields the check reads (\<open>None\<close> when the payload does not decode).
\<close>

section \<open>Levels and classes\<close>

definition RightsReadOnly :: string where "RightsReadOnly = ''read-only''"
definition RightsStandard :: string where "RightsStandard = ''standard''"
definition RightsFull :: string where "RightsFull = ''full''"

definition TransportLocal :: string where "TransportLocal = ''local''"
definition TransportTCP :: string where "TransportTCP = ''tcp''"

lemmas rights_defs = RightsReadOnly_def RightsStandard_def RightsFull_def TransportLocal_def TransportTCP_def

definition ParseLevel :: "string \<Rightarrow> string option" where
  "ParseLevel s = (if s = [] then Some RightsStandard
     else if s = RightsReadOnly \<or> s = RightsStandard \<or> s = RightsFull then Some s else None)"

datatype rights_class = ClassView | ClassAct | ClassAdmin | ClassLocal | ClassNever

definition classes :: "(string \<times> rights_class) list" where
  "classes = [
    (MsgHello, ClassView), (MsgClientHello, ClassView), (MsgClientStat, ClassView), (MsgVersionReq, ClassView),
    (MsgStateReq, ClassView), (MsgAttach, ClassView), (MsgDetach, ClassView), (MsgSubscribe, ClassView),
    (MsgListPanesReq, ClassView), (MsgReadPaneOutputReq, ClassView), (MsgPaneStatusReq, ClassView),
    (MsgScreenshotPaneReq, ClassView), (MsgPaneSearchReq, ClassView), (MsgListTabsReq, ClassView),
    (MsgListProjectsReq, ClassView), (MsgListClientsReq, ClassView), (MsgGetNotificationsReq, ClassView),
    (MsgWatchNotificationsReq, ClassView), (MsgGetTaskReq, ClassView), (MsgWaitTaskReq, ClassView),
    (MsgListTasksReq, ClassView), (MsgMemoryReportReq, ClassView), (MsgPluginListReq, ClassView),
    (MsgPluginCatalogReq, ClassView), (MsgSandboxCapReq, ClassView), (MsgNoteGet, ClassView),
    (MsgPaneInput, ClassAct), (MsgCreatePane, ClassAct), (MsgCreatePaneReq, ClassAct),
    (MsgSplitPaneReq, ClassAct), (MsgDestroyPane, ClassAct), (MsgDestroyPaneReq, ClassAct),
    (MsgRestartPaneReq, ClassAct), (MsgUpdatePane, ClassAct), (MsgUpdateLayout, ClassAct),
    (MsgMovePane, ClassAct), (MsgResizePane, ClassAct), (MsgResizePanes, ClassAct),
    (MsgClientGeometry, ClassAct), (MsgTakeControl, ClassAct), (MsgCreateTab, ClassAct),
    (MsgCreateTabReq, ClassAct), (MsgDestroyTab, ClassAct), (MsgUpdateTab, ClassAct),
    (MsgReorderTab, ClassAct), (MsgMoveTab, ClassAct), (MsgSwitchTab, ClassAct), (MsgSwitchTabReq, ClassAct),
    (MsgSetActivePane, ClassAct), (MsgCloseTUI, ClassAct), (MsgCreateProject, ClassAct),
    (MsgCreateProjectReq, ClassAct), (MsgDestroyProject, ClassAct), (MsgUpdateProject, ClassAct),
    (MsgMergeProjects, ClassAct), (MsgSwitchProject, ClassAct), (MsgReorderProject, ClassAct),
    (MsgDismissEvent, ClassAct), (MsgDelegateTaskReq, ClassAct), (MsgSetProjectGroup, ClassAct),
    (MsgGroupOp, ClassAct), (MsgNoteSet, ClassAct), (MsgSharedImport, ClassAct),
    (MsgCreateFromTemplateReq, ClassAct), (MsgPluginFixReq, ClassAct), (MsgBrowseDirReq, ClassAct),
    (MsgDirsExistReq, ClassAct), (MsgGitReposReq, ClassAct), (MsgKubeCtxReq, ClassAct),
    (MsgWorktreeListReq, ClassAct), (MsgWorktreeStatusReq, ClassAct), (MsgClaudeSessionsReq, ClassAct),
    (MsgClaudeSessionDetailReq, ClassAct), (MsgPasteImageReq, ClassAct), (MsgPaneHistoryReq, ClassAct),
    (MsgPaneHistoryEntryReq, ClassAct), (MsgResourceReportReq, ClassAct), (MsgShutdown, ClassAdmin),
    (MsgReloadPlugins, ClassAdmin), (MsgOverlayPolicy, ClassAdmin), (MsgKillProcessReq, ClassAdmin),
    (MsgStageUpdateReq, ClassAdmin), (MsgUpdateCheckReq, ClassAdmin), (MsgPluginUpdateReq, ClassAdmin),
    (MsgTokenCreateReq, ClassLocal), (MsgTokenListReq, ClassLocal), (MsgTokenRevokeReq, ClassLocal)]"

definition neverAccepted :: "string list" where
  "neverAccepted = [
    MsgPaneInputResp, MsgListPanesResp, MsgReadPaneOutputResp, MsgPaneStatusResp, MsgCreatePaneResp,
    MsgSplitPaneResp, MsgRestartPaneResp, MsgScreenshotPaneResp, MsgSwitchTabResp, MsgListTabsResp,
    MsgDestroyPaneResp, MsgGetNotificationsResp, MsgWatchNotificationsResp, MsgVersionResp,
    MsgMemoryReportResp, MsgResourceReportResp, MsgKillProcessResp, MsgPaneHistoryResp,
    MsgPaneHistoryEntryResp, MsgPaneSearchResp, MsgClaudeSessionsResp, MsgClaudeSessionDetailResp,
    MsgBrowseDirResp, MsgGitReposResp, MsgWorktreeListResp, MsgWorktreeStatusResp, MsgDirsExistResp,
    MsgSandboxCapResp, MsgPasteImageResp, MsgStageUpdateResp, MsgKubeCtxResp, MsgPluginListResp,
    MsgListProjectsResp, MsgCreateProjectResp, MsgProjectOpResp, MsgTabOpResp, MsgPaneOpResp, MsgCreateTabResp,
    MsgPluginCatalogResp, MsgDelegateTaskResp, MsgGetTaskResp, MsgWaitTaskResp, MsgListTasksResp,
    MsgListClientsResp, MsgGroupOpResp, MsgNoteResp, MsgNoteSetResp, MsgSharedImportResp,
    MsgCreateFromTemplateResp, MsgHelloResp, MsgTokenCreateResp, MsgTokenListResp, MsgTokenRevokeResp,
    MsgError, MsgWorkspaceState, MsgPaneOutput, MsgPaneEvent, MsgPaneSizes, MsgPluginError, MsgLinkLost,
    MsgHighlightPane, MsgEventDismissed, MsgPaneSeen, MsgAuthChallenge, MsgPluginFixResp, MsgPluginUpdateResp,
    MsgAuthProof]"

definition ClassOf :: "string \<Rightarrow> rights_class" where
  "ClassOf t = (if t \<in> set neverAccepted then ClassNever
     else case map_of classes t of Some c \<Rightarrow> c | None \<Rightarrow> ClassAdmin)"

definition Classified :: "string \<Rightarrow> bool" where
  "Classified t \<longleftrightarrow> map_of classes t \<noteq> None \<or> t \<in> set neverAccepted"

definition IsView :: "string \<Rightarrow> bool" where
  "IsView t \<longleftrightarrow> ClassOf t = ClassView"

section \<open>The check\<close>

record decoders =
  dec_create_pane :: "string \<Rightarrow> (string list \<times> bool) option"
  dec_create_pane_req :: "string \<Rightarrow> string list option"
  dec_create_tab :: "string \<Rightarrow> string list option option"
  dec_create_tab_req :: "string \<Rightarrow> string list option option"
  dec_split_pane_req :: "string \<Rightarrow> (string list \<times> string) option"

definition PlacementOverlay :: string where "PlacementOverlay = ''overlay''"

text \<open>An absent payload leaves the zero value.\<close>

definition decodeIfPresent :: "'p \<Rightarrow> (string \<Rightarrow> 'p option) \<Rightarrow> ipc_message \<Rightarrow> 'p option" where
  "decodeIfPresent zero dec m = (if msg_Payload m = [] then Some zero else dec (msg_Payload m))"

text \<open>\<open>(raw arguments, overlay, ok)\<close>; a tab's first pane may be absent.\<close>

definition carriers :: "decoders \<Rightarrow> ipc_message \<Rightarrow> bool \<times> bool \<times> bool" where
  "carriers d m =
    (if msg_Type m = MsgCreatePane then
       (case decodeIfPresent ([], False) (dec_create_pane d) m of
          None \<Rightarrow> (False, False, False) | Some (args, overlay) \<Rightarrow> (length args > 0, overlay, True))
     else if msg_Type m = MsgCreatePaneReq then
       (case decodeIfPresent [] (dec_create_pane_req d) m of
          None \<Rightarrow> (False, False, False) | Some args \<Rightarrow> (length args > 0, False, True))
     else if msg_Type m = MsgCreateTab then
       (case decodeIfPresent None (dec_create_tab d) m of
          None \<Rightarrow> (False, False, False)
        | Some first \<Rightarrow> (case first of None \<Rightarrow> False | Some args \<Rightarrow> length args > 0, False, True))
     else if msg_Type m = MsgCreateTabReq then
       (case decodeIfPresent None (dec_create_tab_req d) m of
          None \<Rightarrow> (False, False, False)
        | Some first \<Rightarrow> (case first of None \<Rightarrow> False | Some args \<Rightarrow> length args > 0, False, True))
     else if msg_Type m = MsgSplitPaneReq then
       (case decodeIfPresent ([], []) (dec_split_pane_req d) m of
          None \<Rightarrow> (False, False, False)
        | Some (args, placement) \<Rightarrow> (length args > 0, placement = PlacementOverlay, True))
     else (False, False, True))"

definition CarriesRawArgs :: "decoders \<Rightarrow> ipc_message \<Rightarrow> bool" where
  "CarriesRawArgs d m = fst (carriers d m)"

definition checkStandardPayload :: "decoders \<Rightarrow> ipc_message \<Rightarrow> bool \<times> string" where
  "checkStandardPayload d m = (case carriers d m of (args, overlay, ok) \<Rightarrow>
     if \<not> ok then (False, ''malformed '' @ msg_Type m)
     else if args then (False, ''raw instance arguments need full rights'')
     else if overlay then (False, ''overlay panes need full rights'')
     else (True, []))"

definition Allows :: "decoders \<Rightarrow> string \<Rightarrow> string \<Rightarrow> ipc_message \<Rightarrow> bool \<times> string" where
  "Allows d level transport m = (case ClassOf (msg_Type m) of
     ClassNever \<Rightarrow> (False, ''not a request'')
   | ClassLocal \<Rightarrow> if transport \<noteq> TransportLocal then (False, ''token management is local-socket only'') else (True, [])
   | ClassView \<Rightarrow> (True, [])
   | ClassAct \<Rightarrow> if level = RightsFull then (True, [])
       else if level = RightsStandard then checkStandardPayload d m
       else (False, ''read-only token'')
   | ClassAdmin \<Rightarrow> if level = RightsFull then (True, []) else (False, ''needs full rights''))"

section \<open>The table\<close>

text \<open>
  A type is compared by a number: the strings of the table have different ones, so the table's
  entries are shown distinct by arithmetic.
\<close>

definition type_number :: "string \<Rightarrow> int" where
  "type_number = foldl (\<lambda>h c. 2 * h + of_char c) 0"

lemma distinct_map_back: "distinct (map f xs) \<Longrightarrow> distinct xs"
  by (simp add: distinct_map)

lemma message_types_distinct: "distinct message_types"
  by (rule distinct_map_back [of type_number], unfold message_types_def msg_defs type_number_def) simp

lemma table_set: "set (map fst classes @ neverAccepted) = set message_types"
  unfolding classes_def neverAccepted_def message_types_def
  by (rule subset_antisym; simp)

lemma table_distinct: "distinct (map fst classes @ neverAccepted)"
proof (rule card_distinct)
  have "length (map fst classes @ neverAccepted) = length message_types"
    by (simp add: classes_def neverAccepted_def message_types_def)
  then show "card (set (map fst classes @ neverAccepted)) = length (map fst classes @ neverAccepted)"
    by (simp only: table_set distinct_card [OF message_types_distinct])
qed

lemma class_in_table:
  assumes "(t, c) \<in> set classes"
  shows "ClassOf t = c"
proof -
  have d: "distinct (map fst classes)" "set (map fst classes) \<inter> set neverAccepted = {}"
    using table_distinct by simp_all
  have "t \<in> set (map fst classes)" using assms by force
  then have "t \<notin> set neverAccepted" using d(2) by blast
  then show ?thesis using map_of_is_SomeI [OF d(1) assms] by (simp add: ClassOf_def)
qed

lemma class_never: "t \<in> set neverAccepted \<Longrightarrow> ClassOf t = ClassNever"
  by (simp add: ClassOf_def)

lemma class_unknown: "\<not> Classified t \<Longrightarrow> ClassOf t = ClassAdmin"
  by (simp add: Classified_def ClassOf_def)

lemma Classified_iff: "Classified t \<longleftrightarrow> t \<in> set message_types"
proof -
  have "map_of classes t \<noteq> None \<longleftrightarrow> t \<in> set (map fst classes)" by (simp add: map_of_eq_None_iff)
  then show ?thesis unfolding Classified_def table_set [symmetric] by simp
qed

definition create_types :: "string list" where
  "create_types = [MsgCreatePane, MsgCreatePaneReq, MsgCreateTab, MsgCreateTabReq, MsgSplitPaneReq]"

lemma create_act: "t \<in> set create_types \<Longrightarrow> ClassOf t = ClassAct"
  by (rule class_in_table) (simp add: create_types_def classes_def, elim disjE; simp)

lemma carriers_other: "msg_Type m \<notin> set create_types \<Longrightarrow> carriers d m = (False, False, True)"
  by (simp add: carriers_def create_types_def)

section \<open>Ranks\<close>

text \<open>
  The policy's own order of the levels: what a level may do depends on its rank only. Any string
  that is not one of the two higher names ranks with read-only.
\<close>

datatype rank = Viewer | Editor | Owner

fun rank_number :: "rank \<Rightarrow> nat" where
  "rank_number Viewer = 0"
| "rank_number Editor = 1"
| "rank_number Owner = 2"

instantiation rank :: linorder
begin

definition less_eq_rank :: "rank \<Rightarrow> rank \<Rightarrow> bool" where
  "less_eq_rank r q \<longleftrightarrow> rank_number r \<le> rank_number q"

definition less_rank :: "rank \<Rightarrow> rank \<Rightarrow> bool" where
  "less_rank r q \<longleftrightarrow> rank_number r < rank_number q"

instance
proof
  fix r q :: rank
  show "r = q" if "r \<le> q" "q \<le> r" using that by (cases r; cases q) (simp_all add: less_eq_rank_def)
qed (auto simp: less_eq_rank_def less_rank_def)

end

definition rank_of :: "string \<Rightarrow> rank" where
  "rank_of level = (if level = RightsFull then Owner else if level = RightsStandard then Editor else Viewer)"

text \<open>The least rank a message needs; \<open>None\<close> when no rank is enough.\<close>

definition needed :: "decoders \<Rightarrow> string \<Rightarrow> ipc_message \<Rightarrow> rank option" where
  "needed d transport m = (case ClassOf (msg_Type m) of
     ClassNever \<Rightarrow> None
   | ClassLocal \<Rightarrow> if transport = TransportLocal then Some Viewer else None
   | ClassView \<Rightarrow> Some Viewer
   | ClassAct \<Rightarrow> if carriers d m = (False, False, True) then Some Editor else Some Owner
   | ClassAdmin \<Rightarrow> Some Owner)"

lemma Allows_needed: "fst (Allows d level tr m) \<longleftrightarrow> (case needed d tr m of None \<Rightarrow> False | Some r \<Rightarrow> r \<le> rank_of level)"
  by (cases "ClassOf (msg_Type m)")
    (auto simp: Allows_def needed_def rank_of_def less_eq_rank_def checkStandardPayload_def rights_defs
      split: prod.splits)

lemma refused_reason: "\<not> fst (Allows d level tr m) \<Longrightarrow> snd (Allows d level tr m) \<noteq> []"
  by (cases "ClassOf (msg_Type m)")
    (auto simp: Allows_def checkStandardPayload_def split: prod.splits if_splits)

section \<open>Properties\<close>

text \<open>C16. Every message type of the protocol is in exactly one class, and nothing else is in the table:
  the tables' entries are pairwise distinct, their types are exactly the protocol's constants, and
  no type of the first table is one that is never accepted. A type outside the protocol is an
  administrator's.\<close>

theorem rights_table_exact:
  "distinct (map fst classes @ neverAccepted) \<and> set (map fst classes @ neverAccepted) = set message_types
    \<and> ClassNever \<notin> snd ` set classes \<and> {t. ClassOf t = ClassNever} = set neverAccepted
    \<and> {t. Classified t} = set message_types \<and> - set message_types \<subseteq> {t. ClassOf t = ClassAdmin}"
proof (intro conjI)
  show never: "ClassNever \<notin> snd ` set classes" by (simp add: classes_def)
  have "(t, ClassNever) \<notin> set classes" for t using never by force
  then have "ClassOf t = ClassNever \<Longrightarrow> t \<in> set neverAccepted" for t
    by (auto simp: ClassOf_def split: if_splits option.splits dest!: map_of_SomeD)
  then show "{t. ClassOf t = ClassNever} = set neverAccepted" using class_never by blast
  show "{t. Classified t} = set message_types" by (simp add: Classified_iff)
  show "- set message_types \<subseteq> {t. ClassOf t = ClassAdmin}" by (auto intro: class_unknown simp: Classified_iff)
qed (rule table_distinct table_set)+

definition token_types :: "string list" where
  "token_types = [MsgTokenCreateReq, MsgTokenListReq, MsgTokenRevokeReq]"

lemma token_local: "t \<in> set token_types \<Longrightarrow> ClassOf t = ClassLocal"
  by (rule class_in_table) (simp add: token_types_def classes_def)

text \<open>What a connection may do is decided by its rank alone, and fails closed: a request passes
  exactly when the rank reaches what the request needs. Raw instance arguments, a create that does
  not decode and a type outside the protocol need the full level; token management over TCP is
  refused to everyone; over TCP a level that is not one of the two higher names gets exactly what every
  level may see. A higher rank never loses a right, and every refusal gives its reason.\<close>

theorem Allows_policy:
  "(fst (Allows d level tr m) \<longleftrightarrow> (\<exists>r. needed d tr m = Some r \<and> r \<le> rank_of level))
    \<and> (CarriesRawArgs d m \<longrightarrow> needed d tr m = Some Owner)
    \<and> (snd (snd (carriers d m)) \<or> needed d tr m = Some Owner)
    \<and> (msg_Type m \<in> set message_types \<or> needed d tr m = Some Owner)
    \<and> (msg_Type m \<in> set token_types \<longrightarrow> tr \<noteq> TransportLocal \<longrightarrow> \<not> fst (Allows d level tr m))
    \<and> (tr = TransportTCP \<longrightarrow> level \<noteq> RightsFull \<longrightarrow> level \<noteq> RightsStandard \<longrightarrow>
         fst (Allows d level tr m) = IsView (msg_Type m))
    \<and> (rank_of level \<le> rank_of level' \<longrightarrow> fst (Allows d level tr m) \<longrightarrow> fst (Allows d level' tr m))
    \<and> (fst (Allows d level tr m) \<or> snd (Allows d level tr m) \<noteq> [])"
proof -
  have create: "needed d tr m = Some Owner" if "carriers d m \<noteq> (False, False, True)"
  proof -
    have "msg_Type m \<in> set create_types" using carriers_other that by blast
    then show ?thesis using that by (simp add: needed_def create_act)
  qed

  have raw: "needed d tr m = Some Owner" if "fst (carriers d m) \<or> \<not> snd (snd (carriers d m))"
    using that by (intro create) auto
  have unknown: "needed d tr m = Some Owner" if "msg_Type m \<notin> set message_types"
    using that class_unknown [of "msg_Type m"] by (simp add: needed_def Classified_iff)
  have viewer: "fst (Allows d level tr m) = IsView (msg_Type m)"
    if "tr = TransportTCP" "level \<noteq> RightsFull" "level \<noteq> RightsStandard"
    using that by (simp add: Allows_def IsView_def rights_defs split: rights_class.split)
  have allow: "fst (Allows d lv tr m) \<longleftrightarrow> (\<exists>r. needed d tr m = Some r \<and> r \<le> rank_of lv)" for lv
    by (simp add: Allows_needed split: option.split)
  have mono: "fst (Allows d level' tr m)" if "rank_of level \<le> rank_of level'" "fst (Allows d level tr m)"
    using that order_trans unfolding allow by blast
  have local: "\<not> fst (Allows d level tr m)" if "msg_Type m \<in> set token_types" "tr \<noteq> TransportLocal"
    using that token_local by (simp add: allow needed_def)
  show ?thesis
    unfolding CarriesRawArgs_def
    using allow [of level] raw unknown local viewer mono refused_reason [of d level tr m] by blast
qed

text \<open>A create with a raw argument, from a connection of the standard level.\<close>

definition sample_decoders :: decoders where
  "sample_decoders = \<lparr>dec_create_pane = (\<lambda>bs. Some ([''-c''], False)), dec_create_pane_req = (\<lambda>_. None),
     dec_create_tab = (\<lambda>_. None), dec_create_tab_req = (\<lambda>_. None), dec_split_pane_req = (\<lambda>_. None)\<rparr>"

definition sample_create :: ipc_message where
  "sample_create = \<lparr>msg_Type = MsgCreatePane, msg_ID = ''r1'', msg_Payload = ''{}''\<rparr>"

lemma sample_raw: "CarriesRawArgs sample_decoders sample_create"
  by (simp add: CarriesRawArgs_def carriers_def sample_decoders_def sample_create_def decodeIfPresent_def)

theorem Allows_policy_witness:
  "\<not> fst (Allows sample_decoders RightsStandard TransportTCP sample_create)
    \<and> fst (Allows sample_decoders RightsFull TransportTCP sample_create)"
proof -
  have "needed sample_decoders TransportTCP sample_create = Some Owner"
    using Allows_policy [of sample_decoders RightsFull TransportTCP sample_create RightsFull] sample_raw by blast
  then show ?thesis
    using Allows_policy [of sample_decoders RightsStandard TransportTCP sample_create RightsFull]
      Allows_policy [of sample_decoders RightsFull TransportTCP sample_create RightsFull]
    by (simp add: rank_of_def less_eq_rank_def rights_defs)
qed

end
