(* ===== verification/Admission.thy ===== *)
theory Admission
  imports Rights Event_Queue Transition
begin

text \<open>
  The gate every request passes (\<open>internal/daemon/rights.go\<close>) over the login state of its connection
  (\<open>internal/ipc/auth.go\<close>): the rights check, the cap on requests that leave a goroutine waiting,
  and the refusal with its audit line. Times are nanoseconds. The parked counter is an \<open>int32\<close> in
  the code; it never leaves \<open>0..4\<close>, so its width plays no role. The audit file and the reply on the
  wire are the values the functions return.
\<close>

section \<open>A connection's login state\<close>

definition refusalAuditWindow :: int where "refusalAuditWindow = 60 * 10 ^ 9"
definition maxRefusalTypes :: nat where "maxRefusalTypes = 256"

record AuthState =
  a_Transport :: string
  a_TokenID :: string
  a_TokenName :: string
  a_Level :: string
  a_revoked :: bool
  a_parked :: int
  a_refusedAt :: "(string \<times> int) list option"

definition newLocalAuth :: AuthState where
  "newLocalAuth = \<lparr>a_Transport = TransportLocal, a_TokenID = [], a_TokenName = [], a_Level = RightsFull,
     a_revoked = False, a_parked = 0, a_refusedAt = None\<rparr>"

definition NewTokenAuth :: "string \<Rightarrow> string \<Rightarrow> string \<Rightarrow> AuthState" where
  "NewTokenAuth tokenID tokenName level = \<lparr>a_Transport = TransportTCP, a_TokenID = tokenID,
     a_TokenName = tokenName, a_Level = level, a_revoked = False, a_parked = 0, a_refusedAt = None\<rparr>"

text \<open>\<open>None\<close> is a nil state: a TCP connection that has not logged in.\<close>

definition Principal :: "AuthState option \<Rightarrow> string" where
  "Principal a = (case a of None \<Rightarrow> []
     | Some a \<Rightarrow> if a_Transport a = TransportTCP then ''token '' @ a_TokenID a else ''local'')"

definition ReadOnly :: "AuthState option \<Rightarrow> bool" where
  "ReadOnly a \<longleftrightarrow> (case a of None \<Rightarrow> False | Some a \<Rightarrow> a_Level a = RightsReadOnly)"

definition Revoke :: "AuthState \<Rightarrow> AuthState" where
  "Revoke a = a\<lparr>a_revoked := True\<rparr>"

definition Revoked :: "AuthState option \<Rightarrow> bool" where
  "Revoked a \<longleftrightarrow> (case a of None \<Rightarrow> False | Some a \<Rightarrow> a_revoked a)"

definition TryPark :: "int \<Rightarrow> AuthState \<Rightarrow> bool \<times> AuthState" where
  "TryPark limit a = (if a_parked a \<ge> limit then (False, a) else (True, a\<lparr>a_parked := a_parked a + 1\<rparr>))"

definition Unpark :: "AuthState \<Rightarrow> AuthState" where
  "Unpark a = a\<lparr>a_parked := a_parked a - 1\<rparr>"

definition ShouldAuditRefusal :: "string \<Rightarrow> int \<Rightarrow> AuthState \<Rightarrow> bool \<times> AuthState" where
  "ShouldAuditRefusal t now a =
    (let m = (case a_refusedAt a of None \<Rightarrow> []
                | Some kvs \<Rightarrow> if length kvs \<ge> maxRefusalTypes then [] else kvs)
     in case map_of m t of
          Some prev \<Rightarrow> if now - prev < refusalAuditWindow then (False, a\<lparr>a_refusedAt := Some m\<rparr>)
            else (True, a\<lparr>a_refusedAt := Some (AList.update t now m)\<rparr>)
        | None \<Rightarrow> (True, a\<lparr>a_refusedAt := Some (AList.update t now m)\<rparr>))"

section \<open>Refusing\<close>

definition unclassifiedAuditKey :: string where "unclassifiedAuditKey = ''unclassified''"

definition maxAuditField :: nat where "maxAuditField = 64"

text \<open>The cut of a client-supplied string at a rune boundary; \<open>RuneStart\<close> is false on 10xxxxxx.\<close>

definition RuneStart :: "char \<Rightarrow> bool" where
  "RuneStart c = (let b = of_char c :: nat in b < 128 \<or> 192 \<le> b)"

fun rune_back :: "string \<Rightarrow> nat \<Rightarrow> nat" where
  "rune_back s 0 = 0"
| "rune_back s (Suc n) = (if RuneStart (s ! Suc n) then Suc n else rune_back s n)"

definition truncateField :: "string \<Rightarrow> nat \<Rightarrow> string" where
  "truncateField s n = (if length s \<le> n then s else take (rune_back s n) s)"

text \<open>What goes out: an audit line, or an error frame carrying the request's identifier.\<close>

datatype gate_effect =
    Audit_refused string string
  | Audit_privileged string string
  | Error_frame string string string

definition replyError :: "int \<Rightarrow> ipc_message \<Rightarrow> string \<Rightarrow> gate_effect list" where
  "replyError proto m reason =
    (if msg_ID m = [] \<or> proto < 1 then [] else [Error_frame (msg_ID m) (msg_Type m) reason])"

text \<open>\<open>proto\<close> is the protocol the connection's hello registered, zero for none.\<close>

definition refuseRequest :: "int \<Rightarrow> int \<Rightarrow> AuthState \<Rightarrow> ipc_message \<Rightarrow> string \<Rightarrow> AuthState \<times> gate_effect list" where
  "refuseRequest proto now a m reason =
    (let key = (if Classified (msg_Type m) then msg_Type m else unclassifiedAuditKey);
         (audit, a') = ShouldAuditRefusal key now a;
         line = (if audit then [Audit_refused (msg_Type m) reason] else [])
     in (a', line @ (if a_Transport a = TransportLocal then replyError proto m reason
                     else if msg_ID m = [] then []
                     else [Error_frame (msg_ID m) (truncateField (msg_Type m) maxAuditField) reason])))"

definition privilegedTypes :: "string list" where
  "privilegedTypes = [MsgShutdown, MsgReloadPlugins, MsgOverlayPolicy, MsgKillProcessReq, MsgStageUpdateReq,
     MsgUpdateCheckReq]"

definition auditPrivileged :: "decoders \<Rightarrow> ipc_message \<Rightarrow> gate_effect list" where
  "auditPrivileged d m =
    (if msg_Type m \<in> set privilegedTypes then [Audit_privileged (msg_Type m) []]
     else if CarriesRawArgs d m then [Audit_privileged (msg_Type m) ''raw instance arguments'']
     else [])"

section \<open>Admitting\<close>

definition maxParkedPerConn :: int where "maxParkedPerConn = 4"

definition parksGoroutine :: "string \<Rightarrow> bool" where
  "parksGoroutine t \<longleftrightarrow> t = MsgWatchNotificationsReq \<or> t = MsgWaitTaskReq \<or> t = MsgSandboxCapReq
     \<or> t = MsgNoteGet \<or> t = MsgNoteSet"

text \<open>What the dispatcher gets: a refusal, or a release that may give a parked slot back.\<close>

datatype admission = Refused | Admitted | Admitted_parked

definition park_limit :: "bool \<Rightarrow> int" where
  "park_limit watching = (if watching then maxParkedPerConn - 1 else maxParkedPerConn)"

definition admitParked ::
    "bool \<Rightarrow> int \<Rightarrow> int \<Rightarrow> AuthState \<Rightarrow> ipc_message \<Rightarrow> admission \<times> AuthState \<times> gate_effect list" where
  "admitParked watching proto now a m =
    (if msg_Type m = MsgWatchNotificationsReq then
       (case TryPark maxParkedPerConn a of
          (False, a1) \<Rightarrow> (Refused, refuseRequest proto now a1 m ''too many waiting requests'')
        | (True, a1) \<Rightarrow> (Admitted, Unpark a1, []))
     else
       (case TryPark (park_limit watching) a of
          (False, a1) \<Rightarrow> (Refused, refuseRequest proto now a1 m ''too many waiting requests'')
        | (True, a1) \<Rightarrow> (Admitted_parked, a1, [])))"

definition admitRequest ::
    "decoders \<Rightarrow> bool \<Rightarrow> int \<Rightarrow> int \<Rightarrow> AuthState \<Rightarrow> ipc_message \<Rightarrow> admission \<times> AuthState \<times> gate_effect list" where
  "admitRequest d watching proto now a m =
    (if Revoked (Some a) then (Refused, refuseRequest proto now a m ''token revoked'')
     else case Allows d (a_Level a) (a_Transport a) m of
       (False, reason) \<Rightarrow> (Refused, refuseRequest proto now a m reason)
     | (True, _) \<Rightarrow>
         let log = auditPrivileged d m in
         if a_Transport a \<noteq> TransportTCP \<or> \<not> parksGoroutine (msg_Type m) then (Admitted, a, log)
         else case admitParked watching proto now a m of (r, a', effs) \<Rightarrow> (r, a', log @ effs))"

end
