(* ===== verification/Admission_Props.thy ===== *)
theory Admission_Props
  imports Admission
begin

text \<open>
  What the gate guarantees over a connection's life: its refusals are logged at most once per kind
  and minute, and its waiting requests, the watch in the event queue included, never pass the cap.
\<close>

section \<open>The audit of refusals\<close>

definition audit_key :: "ipc_message \<Rightarrow> string" where
  "audit_key m = (if Classified (msg_Type m) then msg_Type m else unclassifiedAuditKey)"

fun is_refused_line :: "gate_effect \<Rightarrow> bool" where
  "is_refused_line (Audit_refused t r) = True"
| "is_refused_line (Audit_privileged t r) = False"
| "is_refused_line (Error_frame i t r) = False"

lemma refuseRequest_auth: "fst (refuseRequest proto now a m reason) = snd (ShouldAuditRefusal (audit_key m) now a)"
  by (simp add: refuseRequest_def audit_key_def Let_def split: prod.split)

lemma refuseRequest_line:
  "list_ex is_refused_line (snd (refuseRequest proto now a m reason)) = fst (ShouldAuditRefusal (audit_key m) now a)"
  by (auto simp: refuseRequest_def audit_key_def replyError_def Let_def split: prod.split)

lemma auditPrivileged_line: "\<not> list_ex is_refused_line (auditPrivileged d m)"
  by (simp add: auditPrivileged_def)

text \<open>One connection with the lines logged so far, as (kind, time) in order.\<close>

inductive audit_step :: "AuthState \<times> (string \<times> int) list \<Rightarrow> AuthState \<times> (string \<times> int) list \<Rightarrow> bool" where
  request: "admitRequest d watching proto now a m = (r, a', effs) \<Longrightarrow>
    audit_step (a, log) (a', log @ (if list_ex is_refused_line effs then [(audit_key m, now)] else []))"
| unpark: "audit_step (a, log) (Unpark a, log)"
| revoke: "audit_step (a, log) (Revoke a, log)"

definition audit_init :: "AuthState \<times> (string \<times> int) list \<Rightarrow> bool" where
  "audit_init s \<longleftrightarrow> a_refusedAt (fst s) = None \<and> snd s = []"

definition refused_map :: "AuthState \<Rightarrow> (string \<times> int) list" where
  "refused_map a = (case a_refusedAt a of None \<Rightarrow> [] | Some kvs \<Rightarrow> kvs)"

definition audit_spaced :: "(string \<times> int) list \<Rightarrow> bool" where
  "audit_spaced = sorted_wrt (\<lambda>(k, t) (k', t'). k = k' \<longrightarrow> t + refusalAuditWindow \<le> t')"

text \<open>The map holds the latest line of every kind, and only kinds of the protocol or the shared one.\<close>

definition audit_inv :: "AuthState \<times> (string \<times> int) list \<Rightarrow> bool" where
  "audit_inv s \<longleftrightarrow> (let m = refused_map (fst s); log = snd s in
     audit_spaced log \<and> distinct (map fst m) \<and> set (map fst m) \<subseteq> insert unclassifiedAuditKey (set message_types)
     \<and> (\<forall>k. case map_of m k of None \<Rightarrow> \<forall>t. (k, t) \<notin> set log
          | Some t \<Rightarrow> (k, t) \<in> set log \<and> (\<forall>t'. (k, t') \<in> set log \<longrightarrow> t' \<le> t)))"

lemma audit_invD: "audit_inv (a, log) \<Longrightarrow> case map_of (refused_map a) k of None \<Rightarrow> \<forall>t. (k, t) \<notin> set log
    | Some t \<Rightarrow> (k, t) \<in> set log \<and> (\<forall>t'. (k, t') \<in> set log \<longrightarrow> t' \<le> t)"
  by (simp add: audit_inv_def Let_def)

lemma audit_key_known: "audit_key m \<in> insert unclassifiedAuditKey (set message_types)"
  by (simp add: audit_key_def Classified_iff)

lemma refused_map_short:
  assumes "distinct (map fst kvs)" "set (map fst kvs) \<subseteq> insert unclassifiedAuditKey (set message_types)"
  shows "length kvs < maxRefusalTypes"
proof -
  have "length kvs = card (set (map fst kvs))" using distinct_card [OF assms(1)] by simp
  also have "\<dots> \<le> card (insert unclassifiedAuditKey (set message_types))"
    by (rule card_mono) (use assms(2) in simp_all)
  also have "\<dots> \<le> Suc (length message_types)"
    by (metis card_insert_le_m1 card_length le_SucI card_insert_if finite_set not_less_eq_eq Suc_le_mono)
  also have "\<dots> < maxRefusalTypes" by (simp add: message_types_def maxRefusalTypes_def)
  finally show ?thesis .
qed

text \<open>So the map is never reset, and the decision is the plain one.\<close>

lemma ShouldAuditRefusal_eq:
  assumes "audit_inv (a, log)"
  shows "fst (ShouldAuditRefusal k now a) = (case map_of (refused_map a) k of None \<Rightarrow> True
      | Some prev \<Rightarrow> prev + refusalAuditWindow \<le> now)"
    and "refused_map (snd (ShouldAuditRefusal k now a)) = (if fst (ShouldAuditRefusal k now a)
      then AList.update k now (refused_map a) else refused_map a)"
proof -
  have "length (refused_map a) < maxRefusalTypes"
    using assms by (intro refused_map_short) (simp_all add: audit_inv_def Let_def)
  then show "fst (ShouldAuditRefusal k now a) = (case map_of (refused_map a) k of None \<Rightarrow> True
      | Some prev \<Rightarrow> prev + refusalAuditWindow \<le> now)"
    and "refused_map (snd (ShouldAuditRefusal k now a)) = (if fst (ShouldAuditRefusal k now a)
      then AList.update k now (refused_map a) else refused_map a)"
    by (auto simp: ShouldAuditRefusal_def refused_map_def Let_def split: option.splits)
qed

lemma audit_spaced_snoc: "audit_spaced (log @ [(k, now)]) \<longleftrightarrow> audit_spaced log \<and> (\<forall>t. (k, t) \<in> set log \<longrightarrow> t + refusalAuditWindow \<le> now)"
  by (auto simp: audit_spaced_def sorted_wrt_append)

lemma audit_due:
  assumes "audit_inv (a, log)"
  shows "fst (ShouldAuditRefusal k now a) \<longleftrightarrow> (\<forall>t. (k, t) \<in> set log \<longrightarrow> t + refusalAuditWindow \<le> now)"
proof (cases "map_of (refused_map a) k")
  case None
  then show ?thesis using audit_invD [OF assms, of k] by (simp add: ShouldAuditRefusal_eq [OF assms])
next
  case (Some prev)
  then show ?thesis using audit_invD [OF assms, of k] by (fastforce simp: ShouldAuditRefusal_eq [OF assms])
qed

lemma audit_refuse_inv:
  assumes inv: "audit_inv (a, log)" and k: "k = audit_key m"
  shows "audit_inv (snd (ShouldAuditRefusal k now a), log @ (if fst (ShouldAuditRefusal k now a) then [(k, now)] else []))"
proof (cases "fst (ShouldAuditRefusal k now a)")
  case False
  then show ?thesis using inv ShouldAuditRefusal_eq(2) [OF inv, of k now] by (simp add: audit_inv_def Let_def)
next
  case True
  have W: "0 \<le> refusalAuditWindow" by (simp add: refusalAuditWindow_def)
  have due: "(k, t) \<in> set log \<Longrightarrow> t + refusalAuditWindow \<le> now" for t
    using True audit_due [OF inv] by blast
  let ?m = "AList.update k now (refused_map a)"
  have m: "refused_map (snd (ShouldAuditRefusal k now a)) = ?m" using ShouldAuditRefusal_eq(2) [OF inv] True by simp
  have "audit_spaced (log @ [(k, now)])" using inv due by (simp add: audit_spaced_snoc audit_inv_def Let_def)
  moreover have "distinct (map fst ?m)" using inv by (simp add: audit_inv_def Let_def distinct_update)
  moreover have "set (map fst ?m) \<subseteq> insert unclassifiedAuditKey (set message_types)"
    using inv audit_key_known [of m] k dom_update [of k now "refused_map a"] by (simp add: audit_inv_def Let_def)
  moreover have "case map_of ?m q of None \<Rightarrow> \<forall>t. (q, t) \<notin> set (log @ [(k, now)])
      | Some t \<Rightarrow> (q, t) \<in> set (log @ [(k, now)]) \<and> (\<forall>t'. (q, t') \<in> set (log @ [(k, now)]) \<longrightarrow> t' \<le> t)" for q
  proof (cases "q = k")
    case True
    then show ?thesis using due W by (fastforce simp: update_conv')
  next
    case False
    with audit_invD [OF inv, of q] show ?thesis by (auto simp: update_conv' split: option.splits)
  qed
  ultimately show ?thesis using True m by (simp add: audit_inv_def Let_def)
qed

text \<open>Whatever the gate decides, it runs the refusal at most once, and nothing else logs one.\<close>

lemma admitRequest_log:
  assumes "admitRequest d watching proto now a m = (r, a', effs)"
  obtains (quiet) "refused_map a' = refused_map a" "\<not> list_ex is_refused_line effs"
  | (refused) a1 where "a_refusedAt a1 = a_refusedAt a" "refused_map a' = refused_map (snd (ShouldAuditRefusal (audit_key m) now a1))"
      "list_ex is_refused_line effs = fst (ShouldAuditRefusal (audit_key m) now a1)"
proof -
  have refuse: thesis if "refuseRequest proto now a1 m reason = (a', out)" "a_refusedAt a1 = a_refusedAt a"
      "effs = pre @ out" "\<not> list_ex is_refused_line pre" for a1 reason out pre
    using that refuseRequest_auth [of proto now a1 m reason] refuseRequest_line [of proto now a1 m reason]
    by (intro refused [of a1]) auto
  have quiet': thesis if "a_refusedAt a' = a_refusedAt a" "effs = auditPrivileged d m"
    using that auditPrivileged_line by (intro quiet) (simp_all add: refused_map_def)
  have parked: thesis if p: "admitParked watching proto now a m = (r, a', out)" and e: "effs = auditPrivileged d m @ out" for out
  proof (cases "\<exists>a1 reason. refuseRequest proto now a1 m reason = (a', out) \<and> a_refusedAt a1 = a_refusedAt a")
    case True
    then show ?thesis using refuse [OF _ _ e auditPrivileged_line] by blast
  next
    case False
    then have "out = []" "a_refusedAt a' = a_refusedAt a"
      using p by (auto simp: admitParked_def TryPark_def Unpark_def split: if_splits)
    then show ?thesis using quiet' e by simp
  qed
  show thesis
    using assms refuse [of a _ effs "[]"] quiet' parked
    by (auto simp: admitRequest_def Let_def split: if_splits prod.splits bool.splits)
qed

lemma audit_inv_cong: "refused_map a' = refused_map a \<Longrightarrow> audit_inv (a', log) = audit_inv (a, log)"
  by (simp add: audit_inv_def)

lemma audit_step_inv: "audit_step s s' \<Longrightarrow> audit_inv s \<Longrightarrow> audit_inv s'"
proof (induction rule: audit_step.induct)
  case (request d watching proto now a m r a' effs log)
  from request.hyps show ?case
  proof (cases rule: admitRequest_log)
    case quiet
    then show ?thesis using request.prems audit_inv_cong [OF quiet(1)] by simp
  next
    case (refused a1)
    have "refused_map a1 = refused_map a" using refused(1) by (simp add: refused_map_def)
    then have "audit_inv (a1, log)" using request.prems audit_inv_cong by blast
    from audit_refuse_inv [OF this refl, of m now] show ?thesis
      using refused(3) audit_inv_cong [OF refused(2)] by simp
  qed
qed (simp_all add: audit_inv_def refused_map_def Unpark_def Revoke_def)

lemma audit_init_inv: "audit_init s \<Longrightarrow> audit_inv s"
  by (cases s) (simp add: audit_init_def audit_inv_def refused_map_def audit_spaced_def)

interpretation gate_audit: machine audit_init audit_step audit_inv
  by unfold_locales (auto intro: audit_init_inv audit_step_inv)

text \<open>C17. Over a connection's whole life, two lines about refusals of the same message type (or of any
  two types outside the protocol, which share one key) are at least a minute apart, and a refusal
  is logged exactly when every earlier line of its key is that old: nothing else suppresses one.
  The size limit of the rate map, which forgets everything when it is reached, never is.\<close>

theorem refusal_audit_rate:
  assumes "audit_init s0" "audit_step\<^sup>*\<^sup>* s0 (a, log)"
  shows "sorted_wrt (\<lambda>(k, t) (k', t'). k = k' \<longrightarrow> t + 60 * 10 ^ 9 \<le> t') log
    \<and> (list_ex is_refused_line (snd (refuseRequest proto now a m reason)) \<longleftrightarrow>
        (\<forall>t. (audit_key m, t) \<in> set log \<longrightarrow> t + 60 * 10 ^ 9 \<le> now))
    \<and> length (refused_map a) < maxRefusalTypes"
proof -
  have i: "audit_inv (a, log)" using assms by (rule gate_audit.reachable_inv)
  then show ?thesis
    using audit_due [OF i, of "audit_key m" now] refused_map_short [of "refused_map a"]
    by (simp add: refuseRequest_line audit_inv_def Let_def audit_spaced_def refusalAuditWindow_def)
qed

text \<open>A read-only TCP connection that asks for a new tab twice in a second.\<close>

definition viewer :: AuthState where "viewer = NewTokenAuth ''0a1b2c3d'' ''phone'' RightsReadOnly"

definition tab_request :: ipc_message where
  "tab_request = \<lparr>msg_Type = MsgCreateTab, msg_ID = ''r1'', msg_Payload = []\<rparr>"

definition viewer2 :: AuthState where "viewer2 = viewer\<lparr>a_refusedAt := Some [(MsgCreateTab, 5)]\<rparr>"

lemma tab_class: "ClassOf MsgCreateTab = ClassAct" "Classified MsgCreateTab"
proof -
  show "ClassOf MsgCreateTab = ClassAct" by (rule create_act) (simp add: create_types_def)
  show "Classified MsgCreateTab" by (simp add: Classified_iff message_types_def)
qed

lemma viewer_refused: "audit_step (viewer, []) (viewer2, [(MsgCreateTab, 5)])"
proof -
  have a: "Allows sample_decoders RightsReadOnly TransportTCP tab_request = (False, ''read-only token'')"
    by (simp add: Allows_def tab_request_def tab_class rights_defs)
  have "admitRequest sample_decoders False 1 5 viewer tab_request = (Refused, viewer2,
      [Audit_refused MsgCreateTab ''read-only token'', Error_frame ''r1'' (truncateField MsgCreateTab maxAuditField) ''read-only token''])"
    using a by (simp add: admitRequest_def viewer_def viewer2_def NewTokenAuth_def Revoked_def refuseRequest_def
        tab_request_def tab_class ShouldAuditRefusal_def rights_defs Let_def)
  from audit_step.request [OF this, of "[]"] show ?thesis by (simp add: audit_key_def tab_request_def tab_class)
qed

theorem refusal_audit_rate_witness:
  "\<not> list_ex is_refused_line (snd (refuseRequest 1 1000000005 viewer2 tab_request ''read-only token''))"
proof -
  have "audit_init (viewer, [])" by (simp add: audit_init_def viewer_def NewTokenAuth_def)
  from refusal_audit_rate [OF this r_into_rtranclp [of audit_step, OF viewer_refused], of 1 1000000005 tab_request]
  show ?thesis by (simp add: audit_key_def tab_request_def tab_class)
qed

end
