(* ===== verification/Parking.thy ===== *)
theory Parking
  imports Admission
begin

text \<open>
  The cap on waiting requests together with the event queue it counts a watch in. A connection's
  dispatcher handles its frames in order, but queue operations, releases by workers and other
  connections run between its steps, so every atomic piece of \<open>admitParked\<close> and of the watch handler
  is a step: the look at the queue, the claim, the hand-back, the eviction and the registration.
\<close>

section \<open>Interleaved admissions\<close>

datatype dispatch = Idle | Looked bool | Claimed | Cleared | Evicted

record park_state =
  queue :: eventQueue
  auths :: "nat \<Rightarrow> AuthState"
  waits :: "nat \<Rightarrow> nat"
  phase_at :: "nat \<Rightarrow> dispatch"

text \<open>\<open>waits c\<close> counts the releases handed out for connection \<open>c\<close> and not called yet; each is called once.\<close>

inductive park_step :: "park_state \<Rightarrow> park_state \<Rightarrow> bool" where
  other: "ev_step (queue s) q' \<Longrightarrow> set (watchers q') \<subseteq> set (watchers (queue s)) \<Longrightarrow> park_step s (s\<lparr>queue := q'\<rparr>)"
| look: "phase_at s c = Idle \<Longrightarrow>
    park_step s (s\<lparr>phase_at := (phase_at s)(c := Looked (HasWatcher c (queue s)))\<rparr>)"
| claim_wait: "phase_at s c = Looked b \<Longrightarrow> msg_Type m \<noteq> MsgWatchNotificationsReq \<Longrightarrow>
    admitParked b proto now (auths s c) m = (r, a, effs) \<Longrightarrow>
    park_step s (s\<lparr>phase_at := (phase_at s)(c := Idle), auths := (auths s)(c := a),
      waits := (waits s)(c := waits s c + (if r = Admitted_parked then 1 else 0))\<rparr>)"
| claim_watch: "phase_at s c = Looked b \<Longrightarrow> TryPark maxParkedPerConn (auths s c) = (ok, a) \<Longrightarrow>
    park_step s (s\<lparr>phase_at := (phase_at s)(c := if ok then Claimed else Idle), auths := (auths s)(c := a)\<rparr>)"
| hand_back: "phase_at s c = Claimed \<Longrightarrow>
    park_step s (s\<lparr>phase_at := (phase_at s)(c := Cleared), auths := (auths s)(c := Unpark (auths s c))\<rparr>)"
| catch_up: "phase_at s c = Cleared \<Longrightarrow> park_step s (s\<lparr>phase_at := (phase_at s)(c := Idle)\<rparr>)"
| evict_own: "phase_at s c = Cleared \<Longrightarrow> RemoveWatchersByConn c (queue s) = Ret q' \<Longrightarrow>
    park_step s (s\<lparr>phase_at := (phase_at s)(c := Evicted), queue := q'\<rparr>)"
| watch_new: "phase_at s c = Evicted \<Longrightarrow> objs (queue s) w = None \<Longrightarrow>
    park_step s (s\<lparr>phase_at := (phase_at s)(c := Idle),
      queue := AddWatcher w ((queue s)\<lparr>objs := (objs (queue s))(w \<mapsto>
        \<lparr>conn = c, paneIDs = flt, buf = None, closed = False\<rparr>)\<rparr>)\<rparr>)"
| give_back: "0 < waits s c \<Longrightarrow>
    park_step s (s\<lparr>waits := (waits s)(c := waits s c - 1), auths := (auths s)(c := Unpark (auths s c))\<rparr>)"

definition park_init :: "park_state \<Rightarrow> bool" where
  "park_init s \<longleftrightarrow> ev_init (queue s) \<and> (\<forall>c. a_parked (auths s c) = 0 \<and> waits s c = 0 \<and> phase_at s c = Idle)"

definition watches :: "nat \<Rightarrow> eventQueue \<Rightarrow> nat" where
  "watches c q = length (filter (\<lambda>w. conn_of q w = c) (watchers q))"

text \<open>One connection: its counter, the releases out, where its dispatcher is, whether it watches.\<close>

definition conn_ok :: "int \<Rightarrow> nat \<Rightarrow> dispatch \<Rightarrow> bool \<Rightarrow> bool" where
  "conn_ok parked n ph watching \<longleftrightarrow>
     parked = int n + (if ph = Claimed then 1 else 0)
     \<and> n \<le> 4 \<and> (watching \<longrightarrow> n \<le> 3)
     \<and> (\<forall>b. ph = Looked b \<longrightarrow> watching \<longrightarrow> b)
     \<and> (ph = Claimed \<or> ph = Cleared \<or> ph = Evicted \<longrightarrow> n \<le> 3)
     \<and> (ph = Evicted \<longrightarrow> \<not> watching)"

definition park_inv :: "park_state \<Rightarrow> bool" where
  "park_inv s \<longleftrightarrow> ev_inv (queue s)
     \<and> (\<forall>c. conn_ok (a_parked (auths s c)) (waits s c) (phase_at s c) (HasWatcher c (queue s)))"

lemma park_invD:
  "park_inv s \<Longrightarrow> ev_inv (queue s)"
  "park_inv s \<Longrightarrow> conn_ok (a_parked (auths s c)) (waits s c) (phase_at s c) (HasWatcher c (queue s))"
  by (simp_all add: park_inv_def)

lemma conn_ok_quiet: "conn_ok p n ph w \<Longrightarrow> (w' \<Longrightarrow> w) \<Longrightarrow> conn_ok p n ph w'"
  by (auto simp: conn_ok_def)

lemma conn_ok_claim_wait: "conn_ok p n (Looked b) w \<Longrightarrow> p < park_limit b \<Longrightarrow> conn_ok (p + 1) (Suc n) Idle w"
  by (auto simp: conn_ok_def park_limit_def maxParkedPerConn_def split: if_splits)

lemma conn_ok_claim_watch: "conn_ok p n (Looked b) w \<Longrightarrow> p < maxParkedPerConn \<Longrightarrow> conn_ok (p + 1) n Claimed w"
  by (auto simp: conn_ok_def maxParkedPerConn_def)

lemma conn_ok_idle: "conn_ok p n ph w \<Longrightarrow> ph \<noteq> Claimed \<Longrightarrow> conn_ok p n Idle w"
  by (auto simp: conn_ok_def)

lemma conn_ok_hand_back: "conn_ok p n Claimed w \<Longrightarrow> conn_ok (p - 1) n Cleared w"
  by (auto simp: conn_ok_def)

lemma conn_ok_evict: "conn_ok p n Cleared w \<Longrightarrow> conn_ok p n Evicted False"
  by (auto simp: conn_ok_def)

lemma conn_ok_watch: "conn_ok p n Evicted w \<Longrightarrow> conn_ok p n Idle True \<and> \<not> w"
  by (auto simp: conn_ok_def)

lemma conn_ok_give_back: "conn_ok p n ph w \<Longrightarrow> 0 < n \<Longrightarrow> conn_ok (p - 1) (n - 1) ph w"
  by (auto simp: conn_ok_def)

section \<open>The invariant\<close>

lemma watches_HasWatcher:
  assumes "ev_inv q"
  shows "watches c q = (if HasWatcher c q then 1 else 0)"
proof -
  let ?l = "filter (\<lambda>w. conn_of q w = c) (watchers q)"
  have "distinct (map (conn_of q) ?l)" using assms by (simp add: ev_inv_def distinct_map_filter)
  moreover have "set (map (conn_of q) ?l) \<subseteq> {c}" by auto
  ultimately have "length ?l \<le> 1"
    by (metis card_mono distinct_card finite.emptyI finite.insertI length_map card.empty card_insert_if finite_insert
        One_nat_def empty_iff)
  moreover have "?l \<noteq> [] \<longleftrightarrow> HasWatcher c q" using assms by (auto simp: HasWatcher_iff filter_empty_conv)
  ultimately show ?thesis by (cases ?l) (auto simp: watches_def)
qed

lemma quiet_conn:
  assumes "ev_inv q" "ev_step q q'" "set (watchers q') \<subseteq> set (watchers q)" "w \<in> set (watchers q')"
  shows "conn_of q' w = conn_of q w"
  using assms(2)
proof (cases rule: ev_step.cases)
  case (push e e')
  obtain e1 es where pe: "push_events (max_events q) e (events q) = (e1, es)" by fastforce
  then show ?thesis using push(2) Push_eq [OF assms(1) pe] assms(4) by (auto simp: conn_of_def)
next
  case (evict c)
  then show ?thesis using RemoveWatchersByConn_eq [OF assms(1), of c] assms(4) by (auto simp: conn_of_def)
next
  case (watch v c flt)
  then have "v \<in> set (watchers q)" using assms(3) by (simp add: AddWatcher_def)
  then show ?thesis using watch assms(1) by (auto simp: ev_inv_def idle_watchers_def)
next
  case (receive v e)
  then show ?thesis by (auto simp: take_event_def conn_of_def split: option.splits)
qed (auto simp: conn_of_def Dismiss_def DismissAll_def RemoveWatcher_def)

lemma quiet_HasWatcher:
  assumes "ev_inv q" "ev_step q q'" "set (watchers q') \<subseteq> set (watchers q)" "HasWatcher c q'"
  shows "HasWatcher c q"
proof -
  have "ev_inv q'" using ev_step_inv assms(1,2) by blast
  then obtain w where "w \<in> set (watchers q')" "conn_of q' w = c" using assms(4) HasWatcher_iff by blast
  then show ?thesis using quiet_conn [OF assms(1-3)] assms(1,3) by (auto simp: HasWatcher_iff)
qed

lemma evict_HasWatcher:
  assumes "ev_inv q" "RemoveWatchersByConn c q = Ret q'"
  shows "ev_inv q'" "\<not> HasWatcher c q'" "HasWatcher d q' \<Longrightarrow> HasWatcher d q"
proof -
  have s: "ev_step q q'" using assms(2) by (rule ev_step.evict)
  then show i: "ev_inv q'" using ev_step_inv assms(1) by blast
  have q': "q' = q\<lparr>watchers := filter (\<lambda>w. conn_of q w \<noteq> c) (watchers q),
     objs := (\<lambda>w. if w \<in> set (watchers q) \<and> conn_of q w = c
        then map_option (\<lambda>ob. ob\<lparr>closed := True\<rparr>) (objs q w) else objs q w)\<rparr>"
    using RemoveWatchersByConn_eq [OF assms(1), of c] assms(2) by simp
  have sub: "set (watchers q') \<subseteq> set (watchers q)" by (auto simp: q')
  show "\<not> HasWatcher c q'"
    using quiet_conn [OF assms(1) s sub] by (auto simp: HasWatcher_iff [OF i]) (auto simp: q')
  show "HasWatcher d q" if "HasWatcher d q'" using quiet_HasWatcher [OF assms(1) s sub that] .
qed

lemma add_HasWatcher:
  assumes "ev_inv q" "objs q w = None"
  shows "HasWatcher d (AddWatcher w (q\<lparr>objs := (objs q)(w \<mapsto> \<lparr>conn = c, paneIDs = flt, buf = None, closed = False\<rparr>)\<rparr>))
    \<longleftrightarrow> d = c \<or> HasWatcher d q"
proof -
  have "w \<notin> set (watchers q)" using assms by (auto simp: ev_inv_def idle_watchers_def)
  then show ?thesis by (auto simp: HasWatcher_def AddWatcher_def list_ex_iff)
qed

lemma refuseRequest_parked: "a_parked (fst (refuseRequest proto now a m reason)) = a_parked a"
  by (simp add: refuseRequest_def ShouldAuditRefusal_def Let_def split: option.split prod.split)

text \<open>A waiting request other than a watch takes a slot exactly when there is one.\<close>

lemma admitParked_wait:
  assumes "msg_Type m \<noteq> MsgWatchNotificationsReq" "admitParked b proto now a m = (r, a', effs)"
  shows "if a_parked a < park_limit b then r = Admitted_parked \<and> a_parked a' = a_parked a + 1
    else r = Refused \<and> a_parked a' = a_parked a"
  using assms refuseRequest_parked [of proto now a m "''too many waiting requests''"]
  by (auto simp: admitParked_def TryPark_def split: if_splits)

lemma park_step_inv: "park_step s t \<Longrightarrow> park_inv s \<Longrightarrow> park_inv t"
proof (induction rule: park_step.induct)
  case (other s q')
  note i = park_invD [OF other.prems]
  show ?case unfolding park_inv_def
    using ev_step_inv [OF other.hyps(1) i(1)] conn_ok_quiet [OF i(2) quiet_HasWatcher [OF i(1) other.hyps]] by simp
next
  case (look s c)
  then show ?case by (auto simp: park_inv_def conn_ok_def)
next
  case (claim_wait s c b m proto now r a effs)
  note i = park_invD(2) [OF claim_wait.prems, of c, unfolded claim_wait.hyps(1)]
  show ?case
    using claim_wait.prems conn_ok_claim_wait [OF i] conn_ok_idle [OF i] admitParked_wait [OF claim_wait.hyps(2,3)]
    by (auto simp: park_inv_def split: if_splits)
next
  case (claim_watch s c b ok a)
  note i = park_invD(2) [OF claim_watch.prems, of c, unfolded claim_watch.hyps(1)]
  show ?case
    using claim_watch conn_ok_claim_watch [OF i] conn_ok_idle [OF i]
    by (auto simp: park_inv_def TryPark_def split: if_splits)
next
  case (hand_back s c)
  then show ?case using conn_ok_hand_back [OF park_invD(2) [OF hand_back.prems, of c, unfolded hand_back.hyps]]
    by (simp add: park_inv_def Unpark_def)
next
  case (catch_up s c)
  then show ?case using conn_ok_idle [OF park_invD(2) [OF catch_up.prems, of c, unfolded catch_up.hyps]]
    by (simp add: park_inv_def)
next
  case (evict_own s c q')
  note i = park_invD [OF evict_own.prems]
  note e = evict_HasWatcher [OF i(1) evict_own.hyps(2)]
  have "conn_ok (a_parked (auths s c)) (waits s c) Evicted (HasWatcher c q')"
    using conn_ok_evict [OF i(2) [of c, unfolded evict_own.hyps(1)]] e(2) by simp
  then show ?case using e(1) conn_ok_quiet [OF i(2) e(3)] by (simp add: park_inv_def)
next
  case (watch_new s c w flt)
  note i = park_invD [OF watch_new.prems]
  note k = conn_ok_watch [OF i(2) [of c, unfolded watch_new.hyps(1)]]
  then show ?case using i(2) AddWatcher_inv [OF i(1) watch_new.hyps(2), of c flt]
    by (simp add: park_inv_def add_HasWatcher [OF i(1) watch_new.hyps(2)])
next
  case (give_back s c)
  then show ?case using conn_ok_give_back [OF park_invD(2) [OF give_back.prems, of c] give_back.hyps]
    by (simp add: park_inv_def Unpark_def)
qed

lemma HasWatcher_new: "\<not> HasWatcher c (newEventQueue m)"
  by (simp add: HasWatcher_def newEventQueue_def)

lemma park_init_inv: "park_init s \<Longrightarrow> park_inv s"
  by (auto simp: park_init_def park_inv_def conn_ok_def ev_init_def newEventQueue_inv HasWatcher_new)

interpretation parking: machine park_init park_step park_inv
  by unfold_locales (auto intro: park_init_inv park_step_inv)

text \<open>C18. However the frames of connections, the releases of their waiting workers and the traffic of the
  event queue interleave, no connection ever has more than four requests waiting, its watch included;
  a slot is never lost (between frames the counter is the number of releases still out); a watch request of
  a connection that already watches is never refused, even at the cap; and any other waiting request is
  refused only when the look at the queue and the releases still out fill the cap.\<close>

theorem park_cap:
  assumes "park_init s0" "park_step\<^sup>*\<^sup>* s0 s"
  shows "waits s c + watches c (queue s) \<le> 4 \<and> 0 \<le> a_parked (auths s c) \<and> a_parked (auths s c) \<le> 4
    \<and> (phase_at s c = Idle \<longrightarrow> a_parked (auths s c) = int (waits s c))
    \<and> (phase_at s c = Looked b \<longrightarrow> msg_Type m = MsgWatchNotificationsReq \<longrightarrow> 0 < watches c (queue s) \<longrightarrow>
         fst (admitParked b proto now (auths s c) m) = Admitted)
    \<and> (phase_at s c = Looked b \<longrightarrow> fst (admitParked b proto now (auths s c) m) = Refused \<longrightarrow>
         4 \<le> waits s c + (if b then 1 else 0))"
proof -
  have i: "park_inv s" using assms by (rule parking.reachable_inv)
  have w: "watches c (queue s) = (if HasWatcher c (queue s) then 1 else 0)"
    by (rule watches_HasWatcher [OF park_invD(1) [OF i]])
  have k: "conn_ok (a_parked (auths s c)) (waits s c) (phase_at s c) (HasWatcher c (queue s))" by (rule park_invD(2) [OF i])
  have "waits s c + watches c (queue s) \<le> 4 \<and> 0 \<le> a_parked (auths s c) \<and> a_parked (auths s c) \<le> 4
      \<and> (phase_at s c = Idle \<longrightarrow> a_parked (auths s c) = int (waits s c))"
    using k w by (auto simp: conn_ok_def)
  moreover have "fst (admitParked b proto now (auths s c) m) = Admitted"
    if "phase_at s c = Looked b" "msg_Type m = MsgWatchNotificationsReq" "0 < watches c (queue s)"
    using k w that by (auto simp: conn_ok_def admitParked_def TryPark_def maxParkedPerConn_def split: if_splits)
  moreover have "4 \<le> waits s c + (if b then 1 else 0)"
    if "phase_at s c = Looked b" "fst (admitParked b proto now (auths s c) m) = Refused"
    using k that by (auto simp: conn_ok_def admitParked_def TryPark_def maxParkedPerConn_def park_limit_def split: if_splits)
  ultimately show ?thesis by blast
qed

text \<open>A connection that registers its watch and is about to ask again.\<close>

definition park0 :: park_state where
  "park0 = \<lparr>queue = newEventQueue 2, auths = (\<lambda>_. NewTokenAuth ''0a1b2c3d'' ''phone'' RightsStandard),
     waits = (\<lambda>_. 0), phase_at = (\<lambda>_. Idle)\<rparr>"

definition park1 :: park_state where
  "park1 = park0\<lparr>phase_at := (phase_at park0)(1 := Looked False)\<rparr>"

definition park2 :: park_state where
  "park2 = park1\<lparr>phase_at := (phase_at park1)(1 := Idle), auths := (auths park1)(1 := (auths park1 1)\<lparr>a_parked := 1\<rparr>),
     waits := (waits park1)(1 := 1)\<rparr>"

lemma park2_reachable: "park_init park0" "park_step\<^sup>*\<^sup>* park0 park2"
proof -
  show "park_init park0" by (auto simp: park_init_def park0_def ev_init_def NewTokenAuth_def)
  have s1: "park_step park0 park1"
    using park_step.look [of park0 1] by (simp add: park1_def) (simp add: park0_def HasWatcher_new)
  have "admitParked False 1 0 (auths park1 1) \<lparr>msg_Type = MsgNoteGet, msg_ID = ''r'', msg_Payload = []\<rparr>
      = (Admitted_parked, (auths park1 1)\<lparr>a_parked := 1\<rparr>, [])"
    by (simp add: admitParked_def TryPark_def park_limit_def maxParkedPerConn_def park1_def park0_def NewTokenAuth_def
        MsgNoteGet_def MsgWatchNotificationsReq_def)
  then have s2: "park_step park1 park2"
    using park_step.claim_wait [of park1 1 False "\<lparr>msg_Type = MsgNoteGet, msg_ID = ''r'', msg_Payload = []\<rparr>" 1 0]
    by (simp add: park2_def) (simp add: park1_def park0_def MsgNoteGet_def MsgWatchNotificationsReq_def)
  show "park_step\<^sup>*\<^sup>* park0 park2"
    by (rule rtranclp.rtrancl_into_rtrancl [OF r_into_rtranclp [of park_step, OF s1] s2])
qed

theorem park_cap_witness: "waits park2 1 = 1 \<and> a_parked (auths park2 1) = int (waits park2 1) \<and> watches 1 (queue park2) \<le> 3"
proof -
  have "phase_at park2 1 = Idle" "waits park2 1 = 1" by (simp_all add: park2_def)
  with park_cap [OF park2_reachable, of 1] show ?thesis by auto
qed

end
