(* ===== verification/Base64.thy ===== *)
theory Base64
  imports Quil_Prelude
begin

text \<open>
  Base64 as the code uses it from Go's \<open>encoding/base64\<close> (RFC 4648): the padded standard alphabet of
  \<open>encoding/json\<close>'s byte slices, and the unpadded URL alphabet of tokens. Bytes are characters. The
  decoders are those of an input without line breaks, which both callers rule out first.
\<close>

section \<open>Alphabets\<close>

definition sextet_char :: "char \<Rightarrow> char \<Rightarrow> nat \<Rightarrow> char" where
  "sextet_char c62 c63 v =
    (if v < 26 then char_of (65 + v) else if v < 52 then char_of (71 + v)
     else if v < 62 then char_of (v - 4) else if v = 62 then c62 else c63)"

definition char_sextet :: "char \<Rightarrow> char \<Rightarrow> char \<Rightarrow> nat option" where
  "char_sextet c62 c63 c = (let n = of_char c :: nat in
     if 65 \<le> n \<and> n \<le> 90 then Some (n - 65) else if 97 \<le> n \<and> n \<le> 122 then Some (n - 71)
     else if 48 \<le> n \<and> n \<le> 57 then Some (n + 4) else if c = c62 then Some 62 else if c = c63 then Some 63 else None)"

definition alnum :: "char \<Rightarrow> bool" where
  "alnum c \<longleftrightarrow> (let n = of_char c :: nat in (65 \<le> n \<and> n \<le> 90) \<or> (97 \<le> n \<and> n \<le> 122) \<or> (48 \<le> n \<and> n \<le> 57))"

definition alphabet :: "char \<Rightarrow> char \<Rightarrow> bool" where
  "alphabet c62 c63 \<longleftrightarrow> \<not> alnum c62 \<and> \<not> alnum c63 \<and> c62 \<noteq> c63"

lemma char_sextet_char:
  assumes "alphabet c62 c63" "v < 64"
  shows "char_sextet c62 c63 (sextet_char c62 c63 v) = Some v"
proof -
  consider "v < 26" | "26 \<le> v" "v < 52" | "52 \<le> v" "v < 62" | "v = 62" | "v = 63" using assms(2) by linarith
  then show ?thesis
    using assms(1) by cases (auto simp: char_sextet_def sextet_char_def alphabet_def alnum_def Let_def of_char_of)
qed

lemma sextet_char_sextet:
  assumes "char_sextet c62 c63 c = Some v"
  shows "sextet_char c62 c63 v = c \<and> v < 64"
  using assms by (auto simp: char_sextet_def sextet_char_def Let_def of_char_of char_of_char split: if_splits)

section \<open>Encoding\<close>

abbreviation byte_at :: "char \<Rightarrow> nat" where "byte_at \<equiv> of_char"

fun b64_encode :: "(nat \<Rightarrow> char) \<Rightarrow> bool \<Rightarrow> string \<Rightarrow> string" where
  "b64_encode f pad [] = []"
| "b64_encode f pad [a] = [f (byte_at a div 4), f (byte_at a mod 4 * 16)] @ (if pad then ''=='' else [])"
| "b64_encode f pad [a, b] = [f (byte_at a div 4), f (byte_at a mod 4 * 16 + byte_at b div 16), f (byte_at b mod 16 * 4)]
     @ (if pad then ''='' else [])"
| "b64_encode f pad (a # b # c # r) =
     f (byte_at a div 4) # f (byte_at a mod 4 * 16 + byte_at b div 16)
       # f (byte_at b mod 16 * 4 + byte_at c div 64) # f (byte_at c mod 64) # b64_encode f pad r"

section \<open>Decoding\<close>

text \<open>The bytes two, three or four sextets spell; the low bits of a short group are dropped.\<close>

definition group2 :: "nat \<Rightarrow> nat \<Rightarrow> string" where
  "group2 w x = [char_of (w * 4 + x div 16)]"
definition group3 :: "nat \<Rightarrow> nat \<Rightarrow> nat \<Rightarrow> string" where
  "group3 w x y = [char_of (w * 4 + x div 16), char_of (x mod 16 * 16 + y div 4)]"
definition group4 :: "nat \<Rightarrow> nat \<Rightarrow> nat \<Rightarrow> nat \<Rightarrow> string" where
  "group4 w x y z = [char_of (w * 4 + x div 16), char_of (x mod 16 * 16 + y div 4), char_of (y mod 4 * 64 + z)]"

text \<open>\<open>StdEncoding.Decode\<close>: padded, trailing bits not checked.\<close>

fun b64_decode :: "(char \<Rightarrow> nat option) \<Rightarrow> string \<Rightarrow> string option" where
  "b64_decode g [] = Some []"
| "b64_decode g (w # x # y # z # r) =
    (case (g w, g x) of
       (Some vw, Some vx) \<Rightarrow>
         if y = CHR ''='' then (if z = CHR ''='' \<and> r = [] then Some (group2 vw vx) else None)
         else (case g y of None \<Rightarrow> None | Some vy \<Rightarrow>
           if z = CHR ''='' then (if r = [] then Some (group3 vw vx vy) else None)
           else (case g z of None \<Rightarrow> None | Some vz \<Rightarrow> map_option ((@) (group4 vw vx vy vz)) (b64_decode g r)))
     | _ \<Rightarrow> None)"
| "b64_decode g _ = None"

text \<open>\<open>RawURLEncoding.Strict()\<close>: no padding, and the unused bits of the last group must be zero.\<close>

fun b64_decode_strict :: "(char \<Rightarrow> nat option) \<Rightarrow> string \<Rightarrow> string option" where
  "b64_decode_strict g [] = Some []"
| "b64_decode_strict g [w] = None"
| "b64_decode_strict g [w, x] =
    (case (g w, g x) of (Some vw, Some vx) \<Rightarrow> if vx mod 16 = 0 then Some (group2 vw vx) else None | _ \<Rightarrow> None)"
| "b64_decode_strict g [w, x, y] =
    (case (g w, g x, g y) of (Some vw, Some vx, Some vy) \<Rightarrow> if vy mod 4 = 0 then Some (group3 vw vx vy) else None
     | _ \<Rightarrow> None)"
| "b64_decode_strict g (w # x # y # z # r) =
    (case (g w, g x, g y, g z) of
       (Some vw, Some vx, Some vy, Some vz) \<Rightarrow> map_option ((@) (group4 vw vx vy vz)) (b64_decode_strict g r)
     | _ \<Rightarrow> None)"

section \<open>Round trips\<close>

lemma byte_bound: "byte_at a < 256"
  using nat_of_char_less_256 by fast

text \<open>Splitting bytes into sextets and joining them back.\<close>

lemma two_digits: "b < n \<Longrightarrow> (a * n + b) div n = a" "b < n \<Longrightarrow> (a * n + b) mod n = b" for a b n :: nat
  by simp_all

lemma byte_parts: "byte_at a div 4 < 64" "byte_at a div 16 < 16" "byte_at a div 64 < 4"
  "byte_at a mod 4 < 4" "byte_at a mod 16 < 16" "byte_at a mod 64 < 64"
  using byte_bound [of a] by (simp_all add: less_mult_imp_div_less)

lemma sextets_bound: "byte_at a div 4 < 64" "byte_at a mod 4 * 16 + byte_at b div 16 < 64"
  "byte_at a mod 4 * 16 < 64" "byte_at b mod 16 * 4 + byte_at c div 64 < 64" "byte_at b mod 16 * 4 < 64" "byte_at c mod 64 < 64"
  using byte_parts [of a] byte_parts [of b] byte_parts [of c] by linarith+

lemma group_joins:
  "group2 (byte_at a div 4) (byte_at a mod 4 * 16) = [a]"
  "group3 (byte_at a div 4) (byte_at a mod 4 * 16 + byte_at b div 16) (byte_at b mod 16 * 4) = [a, b]"
  "group4 (byte_at a div 4) (byte_at a mod 4 * 16 + byte_at b div 16) (byte_at b mod 16 * 4 + byte_at c div 64)
     (byte_at c mod 64) = [a, b, c]"
  by (simp_all add: group2_def group3_def group4_def two_digits byte_parts char_of_char)

text \<open>A pair of maps between sextets and characters, neither of which touches the padding character.\<close>

definition coding :: "(nat \<Rightarrow> char) \<Rightarrow> (char \<Rightarrow> nat option) \<Rightarrow> bool" where
  "coding f g \<longleftrightarrow> (\<forall>v < 64. g (f v) = Some v \<and> f v \<noteq> CHR ''='') \<and> (\<forall>c v. g c = Some v \<longrightarrow> f v = c \<and> v < 64)"

lemma codingD: "coding f g \<Longrightarrow> v < 64 \<Longrightarrow> g (f v) = Some v" "coding f g \<Longrightarrow> v < 64 \<Longrightarrow> f v \<noteq> CHR ''=''"
  "coding f g \<Longrightarrow> g c = Some v \<Longrightarrow> f v = c \<and> v < 64"
  by (simp_all add: coding_def)

lemma b64_decode_encode: "coding f g \<Longrightarrow> pad \<Longrightarrow> b64_decode g (b64_encode f pad s) = Some s"
  by (induction f pad s rule: b64_encode.induct) (simp_all add: codingD sextets_bound group_joins)

lemma decode_strict_encode: "coding f g \<Longrightarrow> \<not> pad \<Longrightarrow> b64_decode_strict g (b64_encode f pad s) = Some s"
  by (induction f pad s rule: b64_encode.induct) (simp_all add: codingD sextets_bound group_joins)

text \<open>The strict decoder accepts only what the encoder writes: one spelling per byte sequence.\<close>

lemma first_char: "w < 64 \<Longrightarrow> x < 64 \<Longrightarrow> byte_at (char_of (w * 4 + x div 16)) = w * 4 + x div 16" for w x :: nat
proof -
  assume "w < 64" "x < 64"
  then have "x div 16 < 4" by (simp add: less_mult_imp_div_less)
  then have "w * 4 + x div 16 < 256" using \<open>w < 64\<close> by linarith
  then show ?thesis by (simp add: of_char_of)
qed

lemma second_char: "y < 64 \<Longrightarrow> byte_at (char_of (x mod 16 * 16 + y div 4)) = x mod 16 * 16 + y div 4" for x y :: nat
proof -
  assume "y < 64"
  then have "y div 4 < 16" "x mod 16 < 16" by (simp_all add: less_mult_imp_div_less)
  then have "x mod 16 * 16 + y div 4 < 256" by linarith
  then show ?thesis by (simp add: of_char_of)
qed

lemma third_char: "z < 64 \<Longrightarrow> byte_at (char_of (y mod 4 * 64 + z)) = y mod 4 * 64 + z" for y z :: nat
proof -
  assume "z < 64"
  moreover have "y mod 4 < 4" by simp
  ultimately have "y mod 4 * 64 + z < 256" by linarith
  then show ?thesis by (simp add: of_char_of)
qed

lemma quarter: "x < 64 \<Longrightarrow> x div 16 < 4" "y < 64 \<Longrightarrow> y div 4 < 16" for x y :: nat
  by (simp_all add: less_mult_imp_div_less)

lemma encode_group2:
  assumes "w < 64" "x < 64" "x mod 16 = 0"
  shows "b64_encode f False (group2 w x) = [f w, f x]"
proof -
  have "x div 16 * 16 = x" using assms(3) by auto
  then show ?thesis using assms quarter(1) by (simp add: group2_def first_char two_digits)
qed

lemma encode_group3:
  assumes "w < 64" "x < 64" "y < 64" "y mod 4 = 0"
  shows "b64_encode f False (group3 w x y) = [f w, f x, f y]"
proof -
  have "x div 16 * 16 + x mod 16 = x" "y div 4 * 4 = y" using assms(4) by auto
  then show ?thesis using assms quarter by (simp add: group3_def first_char second_char two_digits)
qed

lemma encode_group4:
  assumes "w < 64" "x < 64" "y < 64" "z < 64"
  shows "b64_encode f False (group4 w x y z @ bs) = f w # f x # f y # f z # b64_encode f False bs"
proof -
  have "x div 16 * 16 + x mod 16 = x" "y div 4 * 4 + y mod 4 = y" by simp_all
  then show ?thesis using assms quarter
    by (simp add: group4_def first_char second_char third_char two_digits)
qed

lemma decode_strict_canonical:
  "b64_decode_strict g s = Some bs \<Longrightarrow> coding f g \<Longrightarrow> s = b64_encode f False bs"
proof (induction g s arbitrary: bs rule: b64_decode_strict.induct)
  case (3 g w x)
  then obtain vw vx where v: "g w = Some vw" "g x = Some vx" "vx mod 16 = 0" "bs = group2 vw vx"
    by (auto split: option.splits if_splits)
  then show ?case using codingD(3) [OF 3(2), of w] codingD(3) [OF 3(2), of x] by (simp add: encode_group2)
next
  case (4 g w x y)
  then obtain vw vx vy where v: "g w = Some vw" "g x = Some vx" "g y = Some vy" "vy mod 4 = 0" "bs = group3 vw vx vy"
    by (auto split: option.splits if_splits)
  then show ?case using codingD(3) [OF 4(2), of w] codingD(3) [OF 4(2), of x] codingD(3) [OF 4(2), of y]
    by (simp add: encode_group3)
next
  case (5 g w x y z r)
  from 5(2) obtain vw vx vy vz cs where v: "g w = Some vw" "g x = Some vx" "g y = Some vy" "g z = Some vz"
      "b64_decode_strict g r = Some cs" "bs = group4 vw vx vy vz @ cs"
    by (auto split: option.splits)
  have "r = b64_encode f False cs" using 5(1) v 5(3) by simp
  then show ?case using v
      codingD(3) [OF 5(3), of w] codingD(3) [OF 5(3), of x] codingD(3) [OF 5(3), of y] codingD(3) [OF 5(3), of z]
    by (simp add: encode_group4)
qed auto

lemma length_b64_encode: "length (b64_encode f False s) = (8 * length s + 5) div 6"
  by (induction f False s rule: b64_encode.induct) auto

section \<open>The two codings\<close>

definition std_char :: "nat \<Rightarrow> char" where "std_char = sextet_char (CHR ''+'') (CHR ''/'')"
definition std_sextet :: "char \<Rightarrow> nat option" where "std_sextet = char_sextet (CHR ''+'') (CHR ''/'')"
definition url_char :: "nat \<Rightarrow> char" where "url_char = sextet_char (CHR ''-'') (CHR ''_'')"
definition url_sextet :: "char \<Rightarrow> nat option" where "url_sextet = char_sextet (CHR ''-'') (CHR ''_'')"

lemma sextet_char_alnum: "v < 64 \<Longrightarrow> alnum (sextet_char c62 c63 v) \<or> sextet_char c62 c63 v = c62 \<or> sextet_char c62 c63 v = c63"
  by (auto simp: sextet_char_def alnum_def Let_def of_char_of)

lemma coding_of:
  assumes "alphabet c62 c63" "\<not> alnum (CHR ''='')" "c62 \<noteq> CHR ''=''" "c63 \<noteq> CHR ''=''"
  shows "coding (sextet_char c62 c63) (char_sextet c62 c63)"
  unfolding coding_def
  using assms char_sextet_char [OF assms(1)] sextet_char_sextet sextet_char_alnum [of _ c62 c63] by metis

lemma std_coding: "coding std_char std_sextet"
  unfolding std_char_def std_sextet_def by (rule coding_of) (simp_all add: alphabet_def alnum_def Let_def)

lemma url_coding: "coding url_char url_sextet"
  unfolding url_char_def url_sextet_def by (rule coding_of) (simp_all add: alphabet_def alnum_def Let_def)

end
