(* ===== verification/Token.thy ===== *)
theory Token
  imports Base64
begin

text \<open>
  The text of a client token (\<open>internal/clientauth/token.go\<close>): minting from random bytes, the shape
  check, and the canonical form of a nonce or secret. The random bytes are arguments.
\<close>

section \<open>Minting and parsing\<close>

definition tokenPrefix :: string where "tokenPrefix = ''qtk_''"
definition idHexLen :: nat where "idHexLen = 8"
definition secretBytes :: nat where "secretBytes = 32"

text \<open>\<open>hex.EncodeToString\<close>: two lower-case digits a byte.\<close>

definition hex_digit :: "nat \<Rightarrow> char" where
  "hex_digit v = (if v < 10 then char_of (48 + v) else char_of (87 + v))"

fun hex_encode :: "string \<Rightarrow> string" where
  "hex_encode [] = []"
| "hex_encode (c # cs) = hex_digit (byte_at c div 16) # hex_digit (byte_at c mod 16) # hex_encode cs"

definition NewToken :: "string \<Rightarrow> string \<Rightarrow> string \<times> string" where
  "NewToken idRaw secret = (let id = hex_encode idRaw in
     (tokenPrefix @ id @ ''_'' @ b64_encode url_char False secret, id))"

definition is_hex :: "char \<Rightarrow> bool" where
  "is_hex c \<longleftrightarrow> (let n = byte_at c in (48 \<le> n \<and> n \<le> 57) \<or> (97 \<le> n \<and> n \<le> 102))"

definition ValidID :: "string \<Rightarrow> bool" where
  "ValidID i \<longleftrightarrow> length i = idHexLen \<and> list_all is_hex i"

text \<open>\<open>RawURLEncoding.EncodedLen\<close>.\<close>

definition EncodedLen :: "nat \<Rightarrow> nat" where
  "EncodedLen n = n div 3 * 4 + (n mod 3 * 8 + 5) div 6"

definition canonicalB64 :: "string \<Rightarrow> nat \<Rightarrow> bool" where
  "canonicalB64 s n \<longleftrightarrow> length s = EncodedLen n
     \<and> list_all (\<lambda>c. alnum c \<or> c = CHR ''-'' \<or> c = CHR ''_'') s
     \<and> (case b64_decode_strict url_sextet s of None \<Rightarrow> False | Some raw \<Rightarrow> length raw = n)"

text \<open>\<open>strings.CutPrefix\<close> and \<open>strings.Cut\<close> at the first underscore.\<close>

definition CutPrefix :: "string \<Rightarrow> string \<Rightarrow> string option" where
  "CutPrefix s p = (if take (length p) s = p then Some (drop (length p) s) else None)"

fun cut_at :: "char \<Rightarrow> string \<Rightarrow> (string \<times> string) option" where
  "cut_at x [] = None"
| "cut_at x (c # cs) = (if c = x then Some ([], cs) else map_option (\<lambda>(a, b). (c # a, b)) (cut_at x cs))"

definition ParseToken :: "string \<Rightarrow> string option" where
  "ParseToken t = (case CutPrefix t tokenPrefix of None \<Rightarrow> None
     | Some rest \<Rightarrow> (case cut_at (CHR ''_'') rest of None \<Rightarrow> None
         | Some (i, secret) \<Rightarrow> if \<not> ValidID i \<or> \<not> canonicalB64 secret secretBytes then None else Some i))"

section \<open>Lemmas\<close>

lemma is_hex_digit: "v < 16 \<Longrightarrow> is_hex (hex_digit v)"
  by (auto simp: is_hex_def hex_digit_def Let_def of_char_of)

definition hex_value :: "char \<Rightarrow> nat" where
  "hex_value c = (let n = byte_at c in if n \<le> 57 then n - 48 else n - 87)"

lemma hex_value_digit: "v < 16 \<Longrightarrow> hex_value (hex_digit v) = v"
  by (auto simp: hex_value_def hex_digit_def Let_def of_char_of)

lemma hex_digit_value: "is_hex c \<Longrightarrow> hex_digit (hex_value c) = c \<and> hex_value c < 16"
  by (auto simp: hex_value_def is_hex_def hex_digit_def Let_def char_of_char)

lemma hex_encode_ok: "list_all is_hex (hex_encode s) \<and> length (hex_encode s) = 2 * length s"
  using byte_parts by (induction s) (auto simp: is_hex_digit)

lemma hex_encode_inj: "hex_encode s = hex_encode t \<Longrightarrow> s = t"
proof (induction s arbitrary: t)
  case (Cons c s)
  then obtain d u where t: "t = d # u" by (cases t) auto
  have "hex_digit (byte_at c div 16) = hex_digit (byte_at d div 16)" "hex_digit (byte_at c mod 16) = hex_digit (byte_at d mod 16)"
    using Cons.prems t by auto
  then have "byte_at c div 16 = byte_at d div 16" "byte_at c mod 16 = byte_at d mod 16"
    using hex_value_digit byte_parts by metis+
  then have "byte_at c = byte_at d" by (metis div_mult_mod_eq)
  then show ?case using Cons t by (metis char_of_char hex_encode.simps(2) list.inject)
next
  case Nil
  then show ?case by (cases t) auto
qed

lemma hex_encode_surj: "list_all is_hex i \<Longrightarrow> length i = 2 * n \<Longrightarrow> \<exists>s. length s = n \<and> hex_encode s = i"
proof (induction n arbitrary: i)
  case (Suc n)
  then obtain a b r where i: "i = a # b # r" "length r = 2 * n" by (cases i rule: list.exhaust) (auto simp: length_Suc_conv)
  with Suc obtain s where s: "length s = n" "hex_encode s = r" by auto
  have ab: "hex_digit (hex_value a) = a" "hex_digit (hex_value b) = b" "hex_value a < 16" "hex_value b < 16"
    using Suc.prems(1) i hex_digit_value by auto
  have "hex_value a * 16 + hex_value b < 256" using ab(3,4) by linarith
  then have "byte_at (char_of (hex_value a * 16 + hex_value b)) = hex_value a * 16 + hex_value b" by (simp add: of_char_of)
  then have "hex_encode (char_of (hex_value a * 16 + hex_value b) # s) = i" using i s ab by (simp add: two_digits)
  then show ?case using s(1) by (intro exI [of _ "char_of (hex_value a * 16 + hex_value b) # s"]) simp
qed simp

lemma cut_at_found: "x \<notin> set a \<Longrightarrow> cut_at x (a @ x # b) = Some (a, b)"
  by (induction a) auto

lemma cut_at_Some: "cut_at x s = Some (a, b) \<Longrightarrow> s = a @ x # b \<and> x \<notin> set a"
  by (induction s arbitrary: a) (auto split: if_splits)

lemma CutPrefix_Some: "CutPrefix s p = Some r \<Longrightarrow> s = p @ r"
  by (metis CutPrefix_def append_take_drop_id option.distinct(1) option.inject)

lemma url_char_ok: "v < 64 \<Longrightarrow> alnum (url_char v) \<or> url_char v = CHR ''-'' \<or> url_char v = CHR ''_''"
  unfolding url_char_def by (rule sextet_char_alnum)

lemma url_encode_ok: "list_all (\<lambda>c. alnum c \<or> c = CHR ''-'' \<or> c = CHR ''_'') (b64_encode url_char False s)"
  by (induction url_char False s rule: b64_encode.induct) (auto simp: url_char_ok sextets_bound)

lemma EncodedLen_eq: "EncodedLen n = (8 * n + 5) div 6"
proof -
  have "8 * n + 5 = (n div 3 * 4) * 6 + (n mod 3 * 8 + 5)" by presburger
  then show ?thesis by (simp add: EncodedLen_def)
qed

text \<open>The canonical strings are exactly the encodings.\<close>

lemma canonicalB64_iff: "canonicalB64 s n \<longleftrightarrow> (\<exists>raw. length raw = n \<and> s = b64_encode url_char False raw)"
proof
  assume "canonicalB64 s n"
  then show "\<exists>raw. length raw = n \<and> s = b64_encode url_char False raw"
    using decode_strict_canonical [OF _ url_coding] by (auto simp: canonicalB64_def split: option.splits)
next
  assume "\<exists>raw. length raw = n \<and> s = b64_encode url_char False raw"
  then show "canonicalB64 s n"
    using decode_strict_encode [OF url_coding, of False] url_encode_ok
    by (auto simp: canonicalB64_def length_b64_encode EncodedLen_eq)
qed

lemma ValidID_iff: "ValidID i \<longleftrightarrow> (\<exists>raw. length raw = 4 \<and> i = hex_encode raw)"
  using hex_encode_surj [of i 4] hex_encode_ok by (auto simp: ValidID_def idHexLen_def)

lemma hex_no_underscore: "CHR ''_'' \<notin> set (hex_encode raw)"
proof
  assume "CHR ''_'' \<in> set (hex_encode raw)"
  moreover have "list_all is_hex (hex_encode raw)" using hex_encode_ok by blast
  ultimately have "is_hex (CHR ''_'')" by (simp add: list_all_iff)
  then show False by (simp add: is_hex_def Let_def)
qed

section \<open>Property\<close>

text \<open>The parser accepts exactly the strings that minting produces, and returns their identifier: a
  token is accepted if and only if it is the one text of four identifier bytes and 32 secret bytes.
  So no two spellings of one secret are both tokens, and two mints of different bytes differ.\<close>

theorem token_format:
  "(ParseToken t = Some i \<longleftrightarrow> (\<exists>idRaw secret. length idRaw = 4 \<and> length secret = 32 \<and> NewToken idRaw secret = (t, i)))
    \<and> (fst (NewToken r1 s1) = fst (NewToken r2 s2) \<and> length r1 = length r2 \<longleftrightarrow> r1 = r2 \<and> s1 = s2)"
proof (intro conjI iffI)
  assume "ParseToken t = Some i"
  then obtain rest secret where r0: "CutPrefix t tokenPrefix = Some rest" and r: "cut_at (CHR ''_'') rest = Some (i, secret)"
      "ValidID i" "canonicalB64 secret 32"
    by (auto simp: ParseToken_def secretBytes_def split: option.splits if_splits)
  obtain idRaw raw where "length idRaw = 4" "i = hex_encode idRaw" "length raw = 32" "secret = b64_encode url_char False raw"
    using r(2,3) ValidID_iff canonicalB64_iff by blast
  moreover have "t = tokenPrefix @ i @ ''_'' @ secret"
    using cut_at_Some [OF r(1)] CutPrefix_Some [OF r0] by simp
  ultimately show "\<exists>idRaw secret. length idRaw = 4 \<and> length secret = 32 \<and> NewToken idRaw secret = (t, i)"
    by (auto simp: NewToken_def Let_def)
next
  assume "\<exists>idRaw secret. length idRaw = 4 \<and> length secret = 32 \<and> NewToken idRaw secret = (t, i)"
  then obtain idRaw secret where m: "length idRaw = 4" "length secret = 32" "i = hex_encode idRaw"
      "t = tokenPrefix @ i @ ''_'' @ b64_encode url_char False secret"
    by (auto simp: NewToken_def Let_def)
  have "ValidID i" "canonicalB64 (b64_encode url_char False secret) 32"
    using m ValidID_iff canonicalB64_iff by blast+
  then show "ParseToken t = Some i"
    using m cut_at_found [OF hex_no_underscore, of idRaw]
    by (simp add: ParseToken_def CutPrefix_def tokenPrefix_def secretBytes_def)
next
  assume a: "fst (NewToken r1 s1) = fst (NewToken r2 s2) \<and> length r1 = length r2"
  then have "length (hex_encode r1) = length (hex_encode r2)" using hex_encode_ok by metis
  then have e: "hex_encode r1 = hex_encode r2" "b64_encode url_char False s1 = b64_encode url_char False s2"
    using a by (auto simp: NewToken_def Let_def)
  show "r1 = r2" using e(1) hex_encode_inj by blast
  show "s1 = s2" using e(2) decode_strict_encode [OF url_coding, of False] by (metis option.inject)
qed simp_all

end
