(* ===== verification/Json_Scan.thy ===== *)
theory Json_Scan
  imports Quil_Prelude
begin

text \<open>
  The character-driven scanner of Go's \<open>encoding/json\<close> that \<open>json.Valid\<close> runs: one state, a stack of the
  objects and arrays that are open, one character at a time. \<open>None\<close> is a syntax error. The nesting
  limit is an argument (\<open>10000\<close> in the library).
\<close>

section \<open>The scanner\<close>

datatype scan_state =
    BeginValueOrEmpty | BeginValue | BeginStringOrEmpty | BeginString | EndValue | EndTop
  | InString | InStringEsc | EscU nat
  | Neg | Num1 | NumZero | Dot | Dot0 | NumE | NumESign | NumE0
  | Literal string

datatype open_item = ObjectKey | ObjectValue | ArrayValue

type_synonym scan = "scan_state \<times> open_item list"

definition json_space :: "char \<Rightarrow> bool" where
  "json_space c \<longleftrightarrow> c = CHR '' '' \<or> c = CHR 0x09 \<or> c = CHR 0x0A \<or> c = CHR 0x0D"

definition json_digit :: "char \<Rightarrow> bool" where
  "json_digit c \<longleftrightarrow> (let n = of_char c :: nat in 48 \<le> n \<and> n \<le> 57)"

definition json_hex :: "char \<Rightarrow> bool" where
  "json_hex c \<longleftrightarrow> (let n = of_char c :: nat in
     (48 \<le> n \<and> n \<le> 57) \<or> (97 \<le> n \<and> n \<le> 102) \<or> (65 \<le> n \<and> n \<le> 70))"

definition push_item :: "nat \<Rightarrow> open_item \<Rightarrow> scan_state \<Rightarrow> open_item list \<Rightarrow> scan option" where
  "push_item lim i st stk = (if length stk < lim then Some (st, i # stk) else None)"

text \<open>\<open>popParseState\<close>: an empty stack ends the document.\<close>

definition closed_state :: "open_item list \<Rightarrow> scan" where
  "closed_state stk = (if stk = [] then EndTop else EndValue, stk)"

fun end_value :: "char \<Rightarrow> open_item list \<Rightarrow> scan option" where
  "end_value c [] = (if json_space c then Some (EndTop, []) else None)"
| "end_value c (i # stk) =
    (if json_space c then Some (EndValue, i # stk)
     else case i of
       ObjectKey \<Rightarrow> if c = CHR '':'' then Some (BeginValue, ObjectValue # stk) else None
     | ObjectValue \<Rightarrow> if c = CHR '','' then Some (BeginString, ObjectKey # stk)
         else if c = CHR ''}'' then Some (closed_state stk) else None
     | ArrayValue \<Rightarrow> if c = CHR '','' then Some (BeginValue, ArrayValue # stk)
         else if c = CHR '']'' then Some (closed_state stk) else None)"

definition begin_scalar :: "char \<Rightarrow> scan_state option" where
  "begin_scalar c =
    (if c = CHR 0x22 then Some InString
     else if c = CHR ''-'' then Some Neg
     else if c = CHR ''0'' then Some NumZero
     else if c = CHR ''t'' then Some (Literal ''rue'')
     else if c = CHR ''f'' then Some (Literal ''alse'')
     else if c = CHR ''n'' then Some (Literal ''ull'')
     else if json_digit c then Some Num1
     else None)"

definition begin_value :: "nat \<Rightarrow> char \<Rightarrow> open_item list \<Rightarrow> scan option" where
  "begin_value lim c stk =
    (if json_space c then Some (BeginValue, stk)
     else if c = CHR ''{'' then push_item lim ObjectKey BeginStringOrEmpty stk
     else if c = CHR ''['' then push_item lim ArrayValue BeginValueOrEmpty stk
     else map_option (\<lambda>st. (st, stk)) (begin_scalar c))"

definition begin_string :: "char \<Rightarrow> open_item list \<Rightarrow> scan option" where
  "begin_string c stk = (if json_space c then Some (BeginString, stk)
     else if c = CHR 0x22 then Some (InString, stk) else None)"

definition after_int :: "char \<Rightarrow> open_item list \<Rightarrow> scan option" where
  "after_int c stk = (if c = CHR ''.'' then Some (Dot, stk)
     else if c = CHR ''e'' \<or> c = CHR ''E'' then Some (NumE, stk) else end_value c stk)"

fun json_step :: "nat \<Rightarrow> char \<Rightarrow> scan \<Rightarrow> scan option" where
  "json_step lim c (BeginValueOrEmpty, stk) =
     (if json_space c then Some (BeginValueOrEmpty, stk)
      else if c = CHR '']'' then end_value c stk else begin_value lim c stk)"
| "json_step lim c (BeginValue, stk) = begin_value lim c stk"
| "json_step lim c (BeginStringOrEmpty, stk) =
     (if json_space c then Some (BeginStringOrEmpty, stk)
      else if c = CHR ''}'' then end_value c (ObjectValue # tl stk) else begin_string c stk)"
| "json_step lim c (BeginString, stk) = begin_string c stk"
| "json_step lim c (EndValue, stk) = end_value c stk"
| "json_step lim c (EndTop, stk) = (if json_space c then Some (EndTop, stk) else None)"
| "json_step lim c (InString, stk) =
     (if c = CHR 0x22 then Some (EndValue, stk) else if c = CHR 0x5C then Some (InStringEsc, stk)
      else if (of_char c :: nat) < 32 then None else Some (InString, stk))"
| "json_step lim c (InStringEsc, stk) =
     (if c \<in> set [CHR ''b'', CHR ''f'', CHR ''n'', CHR ''r'', CHR ''t'', CHR 0x5C, CHR ''/'', CHR 0x22]
      then Some (InString, stk) else if c = CHR ''u'' then Some (EscU 0, stk) else None)"
| "json_step lim c (EscU n, stk) =
     (if json_hex c then Some (if n = 3 then InString else EscU (Suc n), stk) else None)"
| "json_step lim c (Neg, stk) = (if c = CHR ''0'' then Some (NumZero, stk) else if json_digit c then Some (Num1, stk) else None)"
| "json_step lim c (Num1, stk) = (if json_digit c then Some (Num1, stk) else after_int c stk)"
| "json_step lim c (NumZero, stk) = after_int c stk"
| "json_step lim c (Dot, stk) = (if json_digit c then Some (Dot0, stk) else None)"
| "json_step lim c (Dot0, stk) = (if json_digit c then Some (Dot0, stk)
     else if c = CHR ''e'' \<or> c = CHR ''E'' then Some (NumE, stk) else end_value c stk)"
| "json_step lim c (NumE, stk) = (if c = CHR ''+'' \<or> c = CHR ''-'' then Some (NumESign, stk)
     else if json_digit c then Some (NumE0, stk) else None)"
| "json_step lim c (NumESign, stk) = (if json_digit c then Some (NumE0, stk) else None)"
| "json_step lim c (NumE0, stk) = (if json_digit c then Some (NumE0, stk) else end_value c stk)"
| "json_step lim c (Literal [], stk) = end_value c stk"
| "json_step lim c (Literal (x # xs), stk) = (if c = x then Some (if xs = [] then EndValue else Literal xs, stk) else None)"

fun json_run :: "nat \<Rightarrow> string \<Rightarrow> scan \<Rightarrow> scan option" where
  "json_run lim [] s = Some s"
| "json_run lim (c # cs) s = (case json_step lim c s of None \<Rightarrow> None | Some s' \<Rightarrow> json_run lim cs s')"

definition maxNesting :: nat where "maxNesting = 10000"

text \<open>The end of the input counts as a space.\<close>

definition json_Valid :: "string \<Rightarrow> bool" where
  "json_Valid p = (case json_run maxNesting p (BeginValue, []) of None \<Rightarrow> False
     | Some (st, stk) \<Rightarrow> st = EndTop \<or> (case json_step maxNesting (CHR '' '') (st, stk) of
         None \<Rightarrow> False | Some (st', _) \<Rightarrow> st' = EndTop))"

section \<open>The members of the outermost object\<close>

text \<open>
  The keys an object's text has at its own level, as the scanner meets them, up to the first syntax
  error: the reference for what a decoder can see in it.
\<close>

definition in_string :: "scan_state \<Rightarrow> bool" where
  "in_string st \<longleftrightarrow> (case st of InString \<Rightarrow> True | InStringEsc \<Rightarrow> True | EscU n \<Rightarrow> True | _ \<Rightarrow> False)"

fun top_keys :: "nat \<Rightarrow> scan \<Rightarrow> string \<Rightarrow> string \<Rightarrow> string list" where
  "top_keys lim s acc [] = []"
| "top_keys lim s acc (c # cs) = (case json_step lim c s of None \<Rightarrow> []
     | Some s' \<Rightarrow>
         if snd s \<noteq> [ObjectKey] then top_keys lim s' [] cs
         else if fst s = InString \<and> fst s' = EndValue then acc # top_keys lim s' [] cs
         else if in_string (fst s) then top_keys lim s' (acc @ [c]) cs
         else top_keys lim s' [] cs)"

definition object_keys :: "nat \<Rightarrow> string \<Rightarrow> string list" where
  "object_keys lim doc = top_keys lim (BeginValue, []) [] doc"

text \<open>What runs below the outermost level adds no key there.\<close>

lemma top_keys_append_quiet:
  assumes "\<And>u v. p = u @ v \<Longrightarrow> v \<noteq> [] \<Longrightarrow> case json_run lim u s of None \<Rightarrow> True | Some t \<Rightarrow> snd t \<noteq> [ObjectKey]"
  shows "top_keys lim s [] (p @ r) = (case json_run lim p s of None \<Rightarrow> [] | Some t \<Rightarrow> top_keys lim t [] r)"
  using assms
proof (induction p arbitrary: s)
  case (Cons c p)
  have s: "snd s \<noteq> [ObjectKey]" using Cons.prems [of "[]" "c # p"] by simp
  show ?case
  proof (cases "json_step lim c s")
    case None
    then show ?thesis by simp
  next
    case (Some t)
    have "case json_run lim u t of None \<Rightarrow> True | Some t \<Rightarrow> snd t \<noteq> [ObjectKey]" if "p = u @ v" "v \<noteq> []" for u v
      using Cons.prems [of "c # u" v] that Some by simp
    then show ?thesis using Cons.IH [of t] Some s by simp
  qed
qed simp

text \<open>A document inside an object: the same run over a deeper stack, one level of limit more.\<close>

definition lift_scan :: "open_item \<Rightarrow> scan \<Rightarrow> scan" where
  "lift_scan b s = ((if fst s = EndTop then EndValue else fst s), snd s @ [b])"

lemma end_value_lift: "end_value c stk = Some s \<Longrightarrow> end_value c (stk @ [b]) = Some (lift_scan b s)"
  by (cases stk) (auto simp: lift_scan_def closed_state_def split: if_splits open_item.splits)

lemma begin_scalar_open: "begin_scalar c = Some st \<Longrightarrow> st \<noteq> EndTop \<and> st \<noteq> BeginStringOrEmpty"
  by (auto simp: begin_scalar_def split: if_split_asm)

lemma begin_value_lift: "begin_value lim c stk = Some s \<Longrightarrow> begin_value (Suc lim) c (stk @ [b]) = Some (lift_scan b s)"
  by (auto simp: begin_value_def push_item_def lift_scan_def begin_scalar_open split: if_split_asm)

lemma begin_string_lift: "begin_string c stk = Some s \<Longrightarrow> begin_string c (stk @ [b]) = Some (lift_scan b s)"
  by (auto simp: begin_string_def lift_scan_def split: if_splits)

lemma after_int_lift: "after_int c stk = Some s \<Longrightarrow> after_int c (stk @ [b]) = Some (lift_scan b s)"
  using end_value_lift by (auto simp: after_int_def lift_scan_def split: if_splits)

text \<open>In a run from the start, an empty object's brace always has its own entry on the stack, and the
  stack is empty once the document has ended.\<close>

definition scan_ok :: "scan \<Rightarrow> bool" where
  "scan_ok s \<longleftrightarrow> (fst s = BeginStringOrEmpty \<longrightarrow> snd s \<noteq> []) \<and> (fst s = EndTop \<longrightarrow> snd s = [])"

lemma end_value_ok: "end_value c stk = Some s \<Longrightarrow> scan_ok s"
  by (cases stk) (auto simp: scan_ok_def closed_state_def split: if_splits open_item.splits)

lemma begin_value_ok: "begin_value lim c stk = Some s \<Longrightarrow> scan_ok s"
  by (auto simp: begin_value_def push_item_def scan_ok_def begin_scalar_open split: if_split_asm)

lemma begin_string_ok: "begin_string c stk = Some s \<Longrightarrow> scan_ok s"
  by (auto simp: begin_string_def scan_ok_def split: if_splits)

lemma after_int_ok: "after_int c stk = Some s \<Longrightarrow> scan_ok s"
  using end_value_ok by (auto simp: after_int_def scan_ok_def split: if_splits)

lemma scan_ok_simps [simp]:
  "scan_ok (st, stk) \<longleftrightarrow> (st = BeginStringOrEmpty \<longrightarrow> stk \<noteq> []) \<and> (st = EndTop \<longrightarrow> stk = [])"
  "scan_ok (closed_state stk)"
  by (auto simp: scan_ok_def closed_state_def)

lemma json_step_ok: "json_step lim c s = Some t \<Longrightarrow> scan_ok s \<Longrightarrow> scan_ok t"
  by (induction lim c s rule: json_step.induct)
    (auto dest: end_value_ok begin_value_ok begin_string_ok after_int_ok split: if_splits)

lemmas scan_lifts = end_value_lift begin_value_lift begin_string_lift after_int_lift

lemma json_step_lift: "json_step lim c s = Some t \<Longrightarrow> scan_ok s \<Longrightarrow> json_step (Suc lim) c (lift_scan b s) = Some (lift_scan b t)"
  by (induction lim c s rule: json_step.induct)
    (auto simp: lift_scan_def scan_ok_def closed_state_def split: if_splits dest: scan_lifts)

lemma json_run_lift: "json_run lim p s = Some t \<Longrightarrow> scan_ok s \<Longrightarrow> json_run (Suc lim) p (lift_scan b s) = Some (lift_scan b t)"
proof (induction p arbitrary: s)
  case (Cons c p)
  then obtain u where "json_step lim c s = Some u" "json_run lim p u = Some t" by (auto split: option.splits)
  then show ?case using json_step_lift [of lim c s u b] json_step_ok [of lim c s u] Cons by simp
qed simp

lemma json_run_append: "json_run lim (u @ v) s = (case json_run lim u s of None \<Rightarrow> None | Some t \<Rightarrow> json_run lim v t)"
  by (induction u arbitrary: s) (auto split: option.splits)

text \<open>A valid document inside an object never reaches the object's own level.\<close>

lemma valid_quiet:
  assumes "json_Valid p" "p = u @ v"
  obtains st ys where "json_run (Suc maxNesting) u (BeginValue, [b]) = Some (st, ys @ [b])"
proof -
  obtain t where "json_run maxNesting p (BeginValue, []) = Some t"
    using assms(1) by (auto simp: json_Valid_def split: option.splits)
  then obtain t0 where "json_run maxNesting u (BeginValue, []) = Some t0"
    using assms(2) by (auto simp: json_run_append split: option.splits)
  from json_run_lift [OF this, of b] show thesis by (intro that [of _ "snd t0"]) (simp add: lift_scan_def)
qed

text \<open>Below an object without braces the object stays open.\<close>

definition inside :: "open_item \<Rightarrow> scan \<Rightarrow> bool" where
  "inside b s \<longleftrightarrow> (\<exists>pre k. snd s = pre @ [k, b] \<and> k \<noteq> ArrayValue)"

lemma inside_push: "inside b (st, stk) \<Longrightarrow> inside b (st', i # stk)"
  by (auto simp: inside_def intro: exI [of _ "i # _"])

lemma inside_same: "inside b (st, stk) \<Longrightarrow> inside b (st', stk)"
  by (simp add: inside_def)

lemma end_value_inside:
  assumes "end_value c stk = Some t" "inside b (st, stk)" "c \<noteq> CHR ''}''"
  shows "inside b t"
proof -
  obtain pre k where s: "stk = pre @ [k, b]" "k \<noteq> ArrayValue" using assms(2) by (auto simp: inside_def)
  show ?thesis
  proof (cases pre)
    case Nil
    then show ?thesis using assms s by (cases k) (auto simp: inside_def split: if_splits)
  next
    case (Cons i pre')
    have m: "inside b (st', pre' @ [k, b])" "inside b (st', j # pre' @ [k, b])" for st' j
      using s(2) by (auto simp: inside_def intro: exI [of _ "j # pre'"])
    show ?thesis using assms(1,3) s(1) Cons m
      by (cases i) (auto simp: closed_state_def split: if_splits)
  qed
qed

lemma begin_value_inside: "begin_value lim c stk = Some t \<Longrightarrow> inside b (st, stk) \<Longrightarrow> c \<noteq> CHR ''{'' \<Longrightarrow> inside b t"
  by (auto simp: begin_value_def push_item_def split: if_splits intro: inside_push inside_same)

lemma begin_string_inside: "begin_string c stk = Some t \<Longrightarrow> inside b (st, stk) \<Longrightarrow> inside b t"
  by (auto simp: begin_string_def split: if_splits intro: inside_same)

lemma after_int_inside: "after_int c stk = Some t \<Longrightarrow> inside b (st, stk) \<Longrightarrow> c \<noteq> CHR ''}'' \<Longrightarrow> inside b t"
  by (auto simp: after_int_def split: if_splits intro: inside_same end_value_inside)

lemma json_step_inside:
  "json_step lim c s = Some t \<Longrightarrow> inside b s \<Longrightarrow> c \<noteq> CHR ''{'' \<Longrightarrow> c \<noteq> CHR ''}'' \<Longrightarrow> inside b t"
  by (induction lim c s rule: json_step.induct)
    (auto split: if_splits intro: inside_same end_value_inside begin_value_inside begin_string_inside after_int_inside)

lemma json_run_inside:
  "json_run lim p s = Some t \<Longrightarrow> inside b s \<Longrightarrow> CHR ''{'' \<notin> set p \<Longrightarrow> CHR ''}'' \<notin> set p \<Longrightarrow> inside b t"
  by (induction p arbitrary: s) (auto split: option.splits dest: json_step_inside)

text \<open>No step takes more than the top entry off the stack.\<close>

definition rests_on :: "open_item list \<Rightarrow> scan \<Rightarrow> bool" where
  "rests_on stk s \<longleftrightarrow> (\<exists>ys. snd s = ys @ stk)"

lemma rests_on_same [simp]: "rests_on stk (st, i # stk)" "rests_on stk (st, j # i # stk)" "rests_on stk (st, stk)"
  unfolding rests_on_def by (rule exI [of _ "[i]"], simp) (rule exI [of _ "[j, i]"], simp, rule exI [of _ "[]"], simp)

lemma rests_on_closed [simp]: "rests_on stk (closed_state stk)"
  by (simp add: closed_state_def)

lemma end_value_base: "end_value c (i # stk) = Some t \<Longrightarrow> rests_on stk t"
  by (cases i) (auto split: if_splits)

lemma begin_value_base: "begin_value lim c (i # stk) = Some t \<Longrightarrow> rests_on stk t"
  by (auto simp: begin_value_def push_item_def split: if_splits)

lemma begin_string_base: "begin_string c (i # stk) = Some t \<Longrightarrow> rests_on stk t"
  by (auto simp: begin_string_def split: if_splits)

lemma after_int_base: "after_int c (i # stk) = Some t \<Longrightarrow> rests_on stk t"
  using end_value_base by (auto simp: after_int_def split: if_splits)

lemma json_step_base:
  assumes "json_step lim c (st, i # stk) = Some t" shows "rests_on stk t"
proof (cases st)
  case (Literal xs)
  then show ?thesis using assms by (cases xs) (auto simp del: end_value.simps split: if_splits dest: end_value_base)
qed (use assms in \<open>auto simp del: end_value.simps split: if_splits
    dest: end_value_base begin_value_base begin_string_base after_int_base\<close>)

end
