(* ===== verification/Frame.thy ===== *)
theory Frame
  imports Json_Scan Base64 Ipc_Protocol Go_Lib
begin

text \<open>
  Frames on the wire (\<open>internal/ipc/fastframe.go\<close> and the frame functions of \<open>protocol.go\<close>): the fast
  encoder and decoder of an envelope, the fast decoder of a pane's output, and the length-prefixed
  reader and writer. Texts and byte slices are character lists. The fallback (\<open>json.Marshal\<close> and
  \<open>json.Unmarshal\<close> of the envelope or the payload) is an argument: the fast paths decide alone when
  they answer. A message is never nil here.
\<close>

section \<open>Encoding an envelope\<close>

definition fastStringSafe :: "string \<Rightarrow> bool" where
  "fastStringSafe s \<longleftrightarrow> list_all (\<lambda>c. let n = of_char c :: nat in 32 \<le> n \<and> n \<le> 126 \<and> c \<noteq> CHR 0x22 \<and> c \<noteq> CHR 0x5C
     \<and> c \<noteq> CHR ''<'' \<and> c \<noteq> CHR ''>'' \<and> c \<noteq> CHR ''&'') s"

text \<open>The fixed texts of an envelope and of a pane's output, with the quotes written as \<open>0x22\<close>.\<close>

definition quoted :: "string \<Rightarrow> string" where
  "quoted s = CHR 0x22 # s @ [CHR 0x22]"

definition type_key :: string where "type_key = CHR ''{'' # quoted ''type'' @ [CHR '':'', CHR 0x22]"
definition id_key :: string where "id_key = CHR '','' # quoted ''id'' @ [CHR '':'', CHR 0x22]"
definition payload_key :: string where "payload_key = CHR '','' # quoted ''payload'' @ '':''"
definition pane_id_key :: string where "pane_id_key = CHR ''{'' # quoted ''pane_id'' @ [CHR '':'', CHR 0x22]"
definition data_key :: string where "data_key = CHR '','' # quoted ''data'' @ [CHR '':'', CHR 0x22]"
definition ghost_key :: string where "ghost_key = CHR '','' # quoted ''ghost'' @ '':true''"
definition generation_key :: string where "generation_key = CHR '','' # quoted ''generation'' @ '':''"

lemmas frame_keys = type_key_def id_key_def payload_key_def pane_id_key_def data_key_def ghost_key_def
  generation_key_def quoted_def

definition isJSONSpace :: "char \<Rightarrow> bool" where
  "isJSONSpace c \<longleftrightarrow> c = CHR '' '' \<or> c = CHR 0x09 \<or> c = CHR 0x0A \<or> c = CHR 0x0D"

definition paneOutputSpan :: "string \<Rightarrow> bool" where
  "paneOutputSpan p \<longleftrightarrow> 2 \<le> length p \<and> hd p = CHR ''{'' \<and> last p = CHR ''}''
     \<and> take (length pane_id_key) p = pane_id_key
     \<and> CHR ''{'' \<notin> set (tl p) \<and> CHR ''}'' \<notin> set (butlast p)"

definition payloadInlinable :: "string \<Rightarrow> bool" where
  "payloadInlinable p \<longleftrightarrow> (if paneOutputSpan p then True
     else if isJSONSpace (hd p) \<or> isJSONSpace (last p) then False else json_Valid p)"

definition maxFrameSize :: nat where "maxFrameSize = 10 * 1024 * 1024"

text \<open>\<open>binary.BigEndian\<close> on four bytes.\<close>

definition PutUint32 :: "nat \<Rightarrow> string" where
  "PutUint32 n = [char_of (n div 2 ^ 24 mod 256), char_of (n div 2 ^ 16 mod 256), char_of (n div 2 ^ 8 mod 256), char_of (n mod 256)]"

definition Uint32 :: "string \<Rightarrow> nat" where
  "Uint32 s = foldl (\<lambda>acc c. 256 * acc + of_char c) 0 s"

definition envelope_body :: "ipc_message \<Rightarrow> string" where
  "envelope_body m = type_key @ msg_Type m @ [CHR 0x22]
     @ (if msg_ID m \<noteq> [] then id_key @ msg_ID m @ [CHR 0x22] else [])
     @ (if msg_Payload m \<noteq> [] then payload_key @ msg_Payload m else []) @ ''}''"

definition appendEnvelope :: "ipc_message \<Rightarrow> string option" where
  "appendEnvelope m =
    (if \<not> fastStringSafe (msg_Type m) \<or> \<not> fastStringSafe (msg_ID m) then None
     else if msg_Payload m \<noteq> [] \<and> \<not> payloadInlinable (msg_Payload m) then None
     else let body = envelope_body m; n = length body in
       if n > maxFrameSize then None else Some (PutUint32 (n mod 2 ^ 32) @ body))"

section \<open>Decoding an envelope\<close>

fun fastString :: "string \<Rightarrow> (string \<times> string) option" where
  "fastString [] = None"
| "fastString (c # cs) =
    (if c = CHR 0x22 then Some ([], cs)
     else if c = CHR 0x5C \<or> (of_char c :: nat) < 32 \<or> (of_char c :: nat) > 126 then None
     else map_option (\<lambda>(s, r). (c # s, r)) (fastString cs))"

definition has_prefix :: "string \<Rightarrow> string \<Rightarrow> bool" where
  "has_prefix p s \<longleftrightarrow> take (length p) s = p"

text \<open>The payload slice \<open>rest[len(key) : len(rest)-1]\<close>; its length guard comes first.\<close>

definition parse_payload :: "string \<Rightarrow> string \<Rightarrow> string \<Rightarrow> ipc_message option" where
  "parse_payload typ i rest =
    (if \<not> has_prefix payload_key rest then None
     else if length rest < length payload_key + 1 then None
     else let span = butlast (drop (length payload_key) rest) in
       if paneOutputSpan span then Some \<lparr>msg_Type = typ, msg_ID = i, msg_Payload = span\<rparr> else None)"

definition parseEnvelope :: "string \<Rightarrow> ipc_message option" where
  "parseEnvelope body =
    (if length body < length type_key \<or> last body \<noteq> CHR ''}'' then None
     else if \<not> has_prefix type_key body then None
     else case fastString (drop (length type_key) body) of
       None \<Rightarrow> None
     | Some (typ, rest) \<Rightarrow>
         if typ \<noteq> MsgPaneOutput then None
         else if has_prefix id_key rest then
           (case fastString (drop (length id_key) rest) of
              None \<Rightarrow> None | Some (i, rest') \<Rightarrow> parse_payload typ i rest')
         else parse_payload typ [] rest)"

section \<open>The payload of a pane's output\<close>

record PaneOutputPayload =
  po_PaneID :: string
  po_Data :: string
  po_Ghost :: bool
  po_Generation :: nat

text \<open>\<open>strconv.ParseUint\<close> in base ten and 64 bits.\<close>

definition ParseUint :: "string \<Rightarrow> nat option" where
  "ParseUint s = (if s \<noteq> [] \<and> list_all is_digit s \<and> digits_value s < 2 ^ 64 then Some (digits_value s) else None)"

definition parse_generation :: "string \<Rightarrow> nat option" where
  "parse_generation tail =
    (if tail = ''}'' then Some 0
     else if length tail \<le> length generation_key + 1 \<or> \<not> has_prefix generation_key tail \<or> last tail \<noteq> CHR ''}'' then None
     else let number = butlast (drop (length generation_key) tail) in
       if \<not> is_digit (hd number) \<or> (length number > 1 \<and> hd number = CHR ''0'') then None
       else ParseUint number)"

text \<open>The bytes before the first quote, and those after it.\<close>

fun cut_quote :: "string \<Rightarrow> (string \<times> string) option" where
  "cut_quote [] = None"
| "cut_quote (c # cs) = (if c = CHR 0x22 then Some ([], cs) else map_option (\<lambda>(a, b). (c # a, b)) (cut_quote cs))"

definition decodePaneOutput :: "string \<Rightarrow> PaneOutputPayload option" where
  "decodePaneOutput p =
    (if \<not> has_prefix pane_id_key p then None
     else case fastString (drop (length pane_id_key) p) of
       None \<Rightarrow> None
     | Some (paneID, rest) \<Rightarrow>
         if \<not> has_prefix data_key rest then None
         else case cut_quote (drop (length data_key) rest) of
           None \<Rightarrow> None
         | Some (enc, tail) \<Rightarrow>
             if enc = [] then None
             else if CHR 0x0D \<in> set enc \<or> CHR 0x0A \<in> set enc then None
             else let ghost = has_prefix ghost_key tail;
                      tail' = (if ghost then drop (length ghost_key) tail else tail)
               in case parse_generation tail' of
                 None \<Rightarrow> None
               | Some generation \<Rightarrow> (case b64_decode std_sextet enc of
                   None \<Rightarrow> None
                 | Some bs \<Rightarrow> Some \<lparr>po_PaneID = paneID, po_Data = bs, po_Ghost = ghost, po_Generation = generation\<rparr>))"

text \<open>
  The text \<open>json.Marshal\<close> writes for the struct: the fields in order, the bytes as padded base64, a false
  \<open>ghost\<close> and a zero generation left out, for an identifier that needs no escape.
\<close>

definition marshal_pane_output :: "PaneOutputPayload \<Rightarrow> string" where
  "marshal_pane_output p = pane_id_key @ po_PaneID p @ [CHR 0x22] @ data_key @ b64_encode std_char True (po_Data p) @ [CHR 0x22]
     @ (if po_Ghost p then ghost_key else [])
     @ (if po_Generation p \<noteq> 0 then generation_key @ decimal (po_Generation p) else []) @ ''}''"

section \<open>Reading and writing\<close>

datatype frame_error = Err_read_length | Err_too_large nat | Err_read_payload | Err_unmarshal

text \<open>\<open>slow\<close> is \<open>EncodeFrameSlow\<close>, \<open>unmarshal\<close> the fallback of \<open>ReadMessageLimit\<close>.\<close>

definition EncodeFrame :: "(ipc_message \<Rightarrow> string option) \<Rightarrow> ipc_message \<Rightarrow> string option" where
  "EncodeFrame slow m = (case appendEnvelope m of Some f \<Rightarrow> Some f | None \<Rightarrow> slow m)"

definition ReadMessageLimit ::
    "(string \<Rightarrow> ipc_message option) \<Rightarrow> nat \<Rightarrow> string \<Rightarrow> frame_error + ipc_message \<times> string" where
  "ReadMessageLimit unmarshal limit s =
    (if length s < 4 then Inl Err_read_length
     else let n = Uint32 (take 4 s); rest = drop 4 s in
       if n > limit then Inl (Err_too_large n)
       else if length rest < n then Inl Err_read_payload
       else case parseEnvelope (take n rest) of
         Some m \<Rightarrow> Inr (m, drop n rest)
       | None \<Rightarrow> (case unmarshal (take n rest) of None \<Rightarrow> Inl Err_unmarshal | Some m \<Rightarrow> Inr (m, drop n rest)))"

definition DecodePayload :: "(string \<Rightarrow> PaneOutputPayload option) \<Rightarrow> ipc_message \<Rightarrow> PaneOutputPayload option" where
  "DecodePayload unmarshal m = (case decodePaneOutput (msg_Payload m) of Some p \<Rightarrow> Some p | None \<Rightarrow> unmarshal (msg_Payload m))"

section \<open>Lemmas\<close>

lemma has_prefix_iff: "has_prefix p s \<longleftrightarrow> (\<exists>r. s = p @ r)"
  by (metis append_eq_conv_conj append_take_drop_id has_prefix_def)

lemma has_prefix_append [simp]: "has_prefix p (p @ r)"
  by (simp add: has_prefix_def)

lemma fastStringSafe_simps [simp]: "fastStringSafe []"
  "fastStringSafe (c # s) \<longleftrightarrow> (let n = of_char c :: nat in 32 \<le> n \<and> n \<le> 126 \<and> c \<noteq> CHR 0x22 \<and> c \<noteq> CHR 0x5C
     \<and> c \<noteq> CHR ''<'' \<and> c \<noteq> CHR ''>'' \<and> c \<noteq> CHR ''&'') \<and> fastStringSafe s"
  by (simp_all add: fastStringSafe_def)

text \<open>A character the decoder takes as it is: the encoder's set without the HTML exclusion.\<close>

definition plain_char :: "char \<Rightarrow> bool" where
  "plain_char c \<longleftrightarrow> (let n = of_char c :: nat in 32 \<le> n \<and> n \<le> 126 \<and> c \<noteq> CHR 0x22 \<and> c \<noteq> CHR 0x5C)"

lemma fastString_iff: "fastString s = Some (a, r) \<longleftrightarrow> s = a @ CHR 0x22 # r \<and> list_all plain_char a"
proof (induction s arbitrary: a)
  case (Cons c cs)
  show ?case
  proof (cases a)
    case Nil
    then show ?thesis by (auto simp: split: if_splits)
  next
    case (Cons d a')
    then show ?thesis using Cons.IH [of a']
      by (auto simp: plain_char_def Let_def split: if_splits option.splits)
  qed
qed simp

lemma safe_plain: "fastStringSafe s \<Longrightarrow> list_all plain_char s"
  by (auto simp: fastStringSafe_def plain_char_def list_all_iff Let_def)

lemma cut_quote_iff: "cut_quote s = Some (a, r) \<longleftrightarrow> s = a @ CHR 0x22 # r \<and> CHR 0x22 \<notin> set a"
proof (induction s arbitrary: a)
  case (Cons c cs)
  show ?case
  proof (cases a)
    case Nil
    then show ?thesis by (auto split: if_splits)
  next
    case (Cons d a')
    then show ?thesis using Cons.IH [of a'] by (auto split: if_splits option.splits)
  qed
qed simp

lemma Uint32_PutUint32: "n < 2 ^ 32 \<Longrightarrow> Uint32 (PutUint32 n) = n \<and> length (PutUint32 n) = 4"
proof -
  assume n: "n < 2 ^ 32"
  define a b d where "a = n div 256" and "b = a div 256" and "d = b div 256"
  have parts: "n div 2 ^ 8 = a" "n div 2 ^ 16 = b" "n div 2 ^ 24 = d"
    by (simp_all add: a_def b_def d_def flip: div_mult2_eq)
  have "d < 256" using n parts(3) by (simp add: less_mult_imp_div_less)
  moreover have "256 * d + b mod 256 = b" "256 * b + a mod 256 = a" "256 * a + n mod 256 = n"
    by (simp_all add: a_def b_def d_def)
  ultimately have "256 * (256 * (256 * (d mod 256) + b mod 256) + a mod 256) + n mod 256 = n" by (simp only: mod_less)
  then show ?thesis unfolding Uint32_def PutUint32_def parts by (simp add: of_char_of del: distrib_left_numeral)
qed

section \<open>Reading back what was written\<close>

lemma parse_payload_append: "paneOutputSpan p \<Longrightarrow> parse_payload t i (payload_key @ p @ ''}'') = Some \<lparr>msg_Type = t, msg_ID = i, msg_Payload = p\<rparr>"
  by (simp add: parse_payload_def butlast_append)

lemma parse_payload_iff: "parse_payload t i rest = Some m \<longleftrightarrow>
    msg_Type m = t \<and> msg_ID m = i \<and> paneOutputSpan (msg_Payload m) \<and> (\<exists>c. rest = payload_key @ msg_Payload m @ [c])"
proof
  assume a: "parse_payload t i rest = Some m"
  then obtain r where r: "rest = payload_key @ r" "r \<noteq> []"
    by (auto simp: parse_payload_def has_prefix_iff split: if_splits)
  then have "r = butlast r @ [last r]" by simp
  then show "msg_Type m = t \<and> msg_ID m = i \<and> paneOutputSpan (msg_Payload m) \<and> (\<exists>c. rest = payload_key @ msg_Payload m @ [c])"
    using a r by (auto simp: parse_payload_def Let_def split: if_splits intro: exI [of _ "last r"])
next
  assume "msg_Type m = t \<and> msg_ID m = i \<and> paneOutputSpan (msg_Payload m) \<and> (\<exists>c. rest = payload_key @ msg_Payload m @ [c])"
  then show "parse_payload t i rest = Some m" by (auto simp: parse_payload_def butlast_append)
qed

text \<open>An identifier is either absent or spelled out; an empty one can be spelled out by another writer.\<close>

definition envelope_text :: "bool \<Rightarrow> ipc_message \<Rightarrow> string" where
  "envelope_text explicit m = type_key @ msg_Type m @ [CHR 0x22]
     @ (if explicit then id_key @ msg_ID m @ [CHR 0x22] else []) @ payload_key @ msg_Payload m @ ''}''"

lemma key_mismatch: "\<not> has_prefix id_key (payload_key @ r)" "\<not> has_prefix payload_key (id_key @ r)"
  by (simp_all add: has_prefix_def frame_keys)

lemma MsgPaneOutput_plain: "list_all plain_char MsgPaneOutput"
  by (simp add: MsgPaneOutput_def plain_char_def)

lemma fastString_append: "list_all plain_char a \<Longrightarrow> fastString (a @ CHR 0x22 # r) = Some (a, r)"
  by (simp add: fastString_iff)

lemma parseEnvelope_text:
  assumes "msg_Type m = MsgPaneOutput" "list_all plain_char (msg_ID m)" "paneOutputSpan (msg_Payload m)"
    "explicit \<or> msg_ID m = []"
  shows "parseEnvelope (envelope_text explicit m) = Some m"
proof -
  have f: "fastString (MsgPaneOutput @ CHR 0x22 # r) = Some (MsgPaneOutput, r)" for r
    by (rule fastString_append [OF MsgPaneOutput_plain])
  show ?thesis
  proof (cases explicit)
    case True
    then show ?thesis using assms(1-3) f fastString_append [OF assms(2)] parse_payload_append [of "msg_Payload m"]
      by (simp add: parseEnvelope_def envelope_text_def)
  next
    case False
    then show ?thesis using assms f parse_payload_append [of "msg_Payload m"] key_mismatch(1)
      by (simp add: parseEnvelope_def envelope_text_def)
  qed
qed

text \<open>And nothing else is accepted.\<close>

lemma parseEnvelope_Some:
  assumes "parseEnvelope body = Some m"
  shows "msg_Type m = MsgPaneOutput \<and> list_all plain_char (msg_ID m) \<and> paneOutputSpan (msg_Payload m)
    \<and> (\<exists>explicit. (explicit \<or> msg_ID m = []) \<and> body = envelope_text explicit m)"
proof -
  obtain b ty rest where b: "body = type_key @ b" "fastString b = Some (ty, rest)" "ty = MsgPaneOutput" "last body = CHR ''}''"
      and p: "(if has_prefix id_key rest then (case fastString (drop (length id_key) rest) of
              None \<Rightarrow> None | Some (i, rest') \<Rightarrow> parse_payload ty i rest') else parse_payload ty [] rest) = Some m"
    using assms by (auto simp: parseEnvelope_def has_prefix_iff split: if_splits option.splits)
  have t: "b = ty @ CHR 0x22 # rest" using b(2) fastString_iff by blast
  show ?thesis
  proof (cases "has_prefix id_key rest")
    case True
    then obtain r i rest' where r: "rest = id_key @ r" "fastString r = Some (i, rest')" "parse_payload ty i rest' = Some m"
      using p by (auto simp: has_prefix_iff split: option.splits)
    then obtain c where c: "msg_Type m = ty" "msg_ID m = i" "paneOutputSpan (msg_Payload m)" "rest' = payload_key @ msg_Payload m @ [c]"
      using parse_payload_iff by blast
    have "r = i @ CHR 0x22 # rest'" "list_all plain_char i" using r(2) fastString_iff by blast+
    moreover from this have "c = CHR ''}''" using b t r c by simp
    ultimately show ?thesis using b t r c by (intro conjI exI [of _ True]) (simp_all add: envelope_text_def)
  next
    case False
    then have "parse_payload ty [] rest = Some m" using p by simp
    then obtain c where c: "msg_Type m = ty" "msg_ID m = []" "paneOutputSpan (msg_Payload m)" "rest = payload_key @ msg_Payload m @ [c]"
      using parse_payload_iff by blast
    moreover from this have "c = CHR ''}''" using b t by simp
    ultimately show ?thesis using b t by (intro conjI exI [of _ False]) (simp_all add: envelope_text_def)
  qed
qed

text \<open>The text of a pane's output.\<close>

lemma std_char_plain: "v < 64 \<Longrightarrow> std_char v \<noteq> CHR 0x22 \<and> std_char v \<noteq> CHR 0x0D \<and> std_char v \<noteq> CHR 0x0A
    \<and> std_char v \<noteq> CHR ''{'' \<and> std_char v \<noteq> CHR ''}''"
  unfolding std_char_def using sextet_char_alnum [of v "CHR ''+''" "CHR ''/''"] by (auto simp: alnum_def Let_def)

definition b64_text :: "string \<Rightarrow> bool" where
  "b64_text s \<longleftrightarrow> set s \<inter> {CHR 0x22, CHR 0x0D, CHR 0x0A, CHR ''{'', CHR ''}''} = {}"

lemma b64_encode_text: "b64_text (b64_encode std_char True s)"
  unfolding b64_text_def
  by (induction std_char True s rule: b64_encode.induct) (simp_all add: std_char_plain sextets_bound)

lemma b64_encode_nonempty: "s \<noteq> [] \<Longrightarrow> b64_encode f pad s \<noteq> []"
  by (cases "(f, pad, s)" rule: b64_encode.cases) auto

definition generation_text :: "nat \<Rightarrow> string" where
  "generation_text n = (if n \<noteq> 0 then generation_key @ decimal n else []) @ ''}''"

lemma decimal_is_digit: "list_all is_digit (decimal n)"
  by (auto simp: list_all_iff is_digit_def Let_def of_char_of dest!: decimal_digits)

lemma decimal_hd: "0 < n \<Longrightarrow> hd (decimal n) \<noteq> CHR ''0''"
proof (induction n rule: decimal.induct)
  case (1 n)
  show ?case
  proof (cases "n < 10")
    case True
    have "char_of (48 + n) \<noteq> CHR ''0''"
    proof
      assume "char_of (48 + n) = CHR ''0''"
      then have "(of_char (char_of (48 + n) :: char) :: nat) = of_char (CHR ''0'')" by simp
      then show False using True 1 by (simp add: of_char_of)
    qed
    then show ?thesis using True by (subst decimal.simps) simp
  next
    case False
    then have "hd (decimal (n div 10)) \<noteq> CHR ''0''" using 1 by simp
    then show ?thesis using False decimal_nonempty [of "n div 10"] by (subst decimal.simps) (simp add: hd_append)
  qed
qed

lemma parse_generation_text: "n < 2 ^ 64 \<Longrightarrow> parse_generation (generation_text n) = Some n"
proof (cases "n = 0")
  case False
  assume n: "n < 2 ^ 64"
  have "decimal n \<noteq> []" "is_digit (hd (decimal n))" "hd (decimal n) \<noteq> CHR ''0''"
    using decimal_nonempty [of n] decimal_is_digit [of n] decimal_hd [of n] False
    by (auto simp: list_all_iff)
  moreover have "generation_key @ r \<noteq> ''}''" for r by (simp add: frame_keys)
  ultimately show ?thesis using False n decimal_is_digit [of n]
    by (auto simp: generation_text_def parse_generation_def butlast_append ParseUint_def Let_def)
qed (simp add: generation_text_def parse_generation_def)

lemma no_ghost_key: "\<not> has_prefix ghost_key (generation_text n)"
  by (simp add: generation_text_def has_prefix_def frame_keys)

lemma marshal_generation: "marshal_pane_output p = pane_id_key @ po_PaneID p @ CHR 0x22 # data_key
    @ b64_encode std_char True (po_Data p) @ CHR 0x22 # (if po_Ghost p then ghost_key else []) @ generation_text (po_Generation p)"
  by (simp add: marshal_pane_output_def generation_text_def)

lemma decode_marshal:
  assumes "list_all plain_char (po_PaneID p)" "po_Data p \<noteq> []" "po_Generation p < 2 ^ 64"
  shows "decodePaneOutput (marshal_pane_output p) = Some p"
proof -
  let ?e = "b64_encode std_char True (po_Data p)"
  let ?t = "(if po_Ghost p then ghost_key else []) @ generation_text (po_Generation p)"
  have "cut_quote (?e @ CHR 0x22 # ?t) = Some (?e, ?t)"
    using b64_encode_text [of "po_Data p"] by (auto simp: cut_quote_iff b64_text_def)
  moreover have "?e \<noteq> []" "CHR 0x0D \<notin> set ?e" "CHR 0x0A \<notin> set ?e"
    using b64_encode_text [of "po_Data p"] b64_encode_nonempty [OF assms(2)] by (auto simp: b64_text_def)
  moreover have "has_prefix ghost_key ?t = po_Ghost p" using no_ghost_key by auto
  ultimately show ?thesis
    using fastString_append [OF assms(1)] parse_generation_text [OF assms(3)] b64_decode_encode [OF std_coding, of True]
    unfolding decodePaneOutput_def marshal_generation by (cases "po_Ghost p") simp_all
qed

definition no_brace :: "string \<Rightarrow> bool" where
  "no_brace s \<longleftrightarrow> CHR ''{'' \<notin> set s \<and> CHR ''}'' \<notin> set s"

lemma no_brace_simps [simp]: "no_brace []" "no_brace (c # s) \<longleftrightarrow> c \<noteq> CHR ''{'' \<and> c \<noteq> CHR ''}'' \<and> no_brace s"
  "no_brace (s @ t) \<longleftrightarrow> no_brace s \<and> no_brace t"
  by (auto simp: no_brace_def)

lemma no_brace_decimal: "no_brace (decimal n)"
  using decimal_is_digit [of n] by (auto simp: no_brace_def list_all_iff is_digit_def Let_def)

lemma span_marshal:
  assumes "no_brace (po_PaneID p)"
  shows "paneOutputSpan (marshal_pane_output p)"
proof -
  define mid where "mid = tl pane_id_key @ po_PaneID p @ CHR 0x22 # data_key
    @ b64_encode std_char True (po_Data p) @ CHR 0x22 # (if po_Ghost p then ghost_key else [])
    @ (if po_Generation p \<noteq> 0 then generation_key @ decimal (po_Generation p) else [])"
  have m: "marshal_pane_output p = CHR ''{'' # mid @ ''}''" by (simp add: marshal_pane_output_def mid_def pane_id_key_def)
  have "no_brace (b64_encode std_char True (po_Data p))" using b64_encode_text [of "po_Data p"] by (auto simp: b64_text_def no_brace_def)
  then have "no_brace mid" using assms no_brace_decimal by (auto simp: mid_def frame_keys)
  moreover have "take (length pane_id_key) (marshal_pane_output p) = pane_id_key" by (simp add: marshal_pane_output_def)
  ultimately show ?thesis using m by (simp add: paneOutputSpan_def no_brace_def butlast_append)
qed

end
