(* ===== verification/Frame_Props.thy ===== *)
theory Frame_Props
  imports Frame
begin

text \<open>
  What the frame functions guarantee: a stream of pane output is read back as it was written whatever the
  fallbacks do, the fast decoder accepts exactly the texts of one shape, and no payload can add a
  member to its envelope.
\<close>

section \<open>Streams of pane output\<close>

definition output_message :: "string \<times> PaneOutputPayload \<Rightarrow> ipc_message" where
  "output_message x = \<lparr>msg_Type = MsgPaneOutput, msg_ID = fst x, msg_Payload = marshal_pane_output (snd x)\<rparr>"

definition sendable :: "string \<times> PaneOutputPayload \<Rightarrow> bool" where
  "sendable x \<longleftrightarrow> fastStringSafe (fst x) \<and> fastStringSafe (po_PaneID (snd x)) \<and> no_brace (po_PaneID (snd x))
     \<and> po_Data (snd x) \<noteq> [] \<and> po_Generation (snd x) < 2 ^ 64
     \<and> length (envelope_body (output_message x)) \<le> maxFrameSize"

text \<open>\<open>WriteMessage\<close> and \<open>ReadMessage\<close> over and over.\<close>

fun write_all :: "(ipc_message \<Rightarrow> string option) \<Rightarrow> ipc_message list \<Rightarrow> string option" where
  "write_all slow [] = Some []"
| "write_all slow (m # ms) = (case EncodeFrame slow m of None \<Rightarrow> None
     | Some f \<Rightarrow> map_option ((@) f) (write_all slow ms))"

fun read_n :: "(string \<Rightarrow> ipc_message option) \<Rightarrow> nat \<Rightarrow> string \<Rightarrow> frame_error + ipc_message list \<times> string" where
  "read_n unmarshal 0 s = Inr ([], s)"
| "read_n unmarshal (Suc n) s = (case ReadMessageLimit unmarshal maxFrameSize s of
     Inl e \<Rightarrow> Inl e
   | Inr (m, r) \<Rightarrow> (case read_n unmarshal n r of Inl e \<Rightarrow> Inl e | Inr (ms, r') \<Rightarrow> Inr (m # ms, r')))"

lemma marshal_nonempty [simp]: "marshal_pane_output p \<noteq> []"
  by (simp add: marshal_pane_output_def)

lemma MsgPaneOutput_safe: "fastStringSafe MsgPaneOutput"
  by (simp add: MsgPaneOutput_def)

lemma output_body: "envelope_body (output_message (i, p)) = envelope_text (i \<noteq> []) (output_message (i, p))"
  by (simp add: envelope_body_def envelope_text_def output_message_def)

lemma append_output:
  assumes "sendable (i, p)"
  shows "appendEnvelope (output_message (i, p)) =
    Some (PutUint32 (length (envelope_body (output_message (i, p)))) @ envelope_body (output_message (i, p)))"
proof -
  have "payloadInlinable (marshal_pane_output p)" using span_marshal assms by (simp add: payloadInlinable_def sendable_def)
  moreover have "length (envelope_body (output_message (i, p))) < 2 ^ 32" using assms by (simp add: sendable_def maxFrameSize_def)
  ultimately show ?thesis using assms
    by (simp add: appendEnvelope_def sendable_def MsgPaneOutput_safe Let_def output_message_def)
qed

lemma parse_output: "sendable (i, p) \<Longrightarrow> parseEnvelope (envelope_body (output_message (i, p))) = Some (output_message (i, p))"
  unfolding output_body
  by (rule parseEnvelope_text) (auto simp: sendable_def output_message_def safe_plain span_marshal)

lemma read_output:
  assumes "sendable (i, p)"
  shows "\<exists>f. EncodeFrame slow (output_message (i, p)) = Some f
    \<and> ReadMessageLimit unmarshal maxFrameSize (f @ r) = Inr (output_message (i, p), r)"
proof -
  let ?b = "envelope_body (output_message (i, p))"
  have len: "length ?b \<le> maxFrameSize" using assms by (simp add: sendable_def)
  then have u: "Uint32 (PutUint32 (length ?b)) = length ?b" "length (PutUint32 (length ?b)) = 4"
    using Uint32_PutUint32 [of "length ?b"] by (simp_all add: maxFrameSize_def)
  have "ReadMessageLimit unmarshal maxFrameSize ((PutUint32 (length ?b) @ ?b) @ r) = Inr (output_message (i, p), r)"
    using u len parse_output [OF assms] by (simp add: ReadMessageLimit_def Let_def)
  then show ?thesis using append_output [OF assms] by (simp add: EncodeFrame_def)
qed

lemma stream_output:
  "list_all sendable os \<Longrightarrow> \<exists>s. write_all slow (map output_message os) = Some s
    \<and> read_n unmarshal (length os) (s @ r) = Inr (map output_message os, r)"
proof (induction os)
  case (Cons x os)
  obtain i p where x: "x = (i, p)" by (cases x)
  obtain s where s: "write_all slow (map output_message os) = Some s"
      "read_n unmarshal (length os) (s @ r) = Inr (map output_message os, r)" using Cons by auto
  obtain f where "EncodeFrame slow (output_message x) = Some f"
      "ReadMessageLimit unmarshal maxFrameSize (f @ s @ r) = Inr (output_message x, s @ r)"
    using read_output [of i p slow unmarshal "s @ r"] Cons.prems x by auto
  then show ?case using s by simp
qed simp

text \<open>C19. Whatever the fallbacks do, a stream of pane output comes back as it was written: every message
  whose strings the fast path takes, with data and within the size limit, is encoded; reading the
  concatenated frames, with anything after them, gives the messages in order and leaves exactly what
  followed; and decoding their payloads gives the bytes, flags and generations that were sent.\<close>

theorem frame_roundtrip:
  assumes "list_all sendable os"
  shows "\<exists>s. write_all slow (map output_message os) = Some s
    \<and> read_n unmarshal (length os) (s @ r) = Inr (map output_message os, r)
    \<and> map (DecodePayload unmarshal_payload) (map output_message os) = map (Some \<circ> snd) os"
proof -
  have "DecodePayload unmarshal_payload (output_message x) = Some (snd x)" if "x \<in> set os" for x
  proof -
    have x: "sendable x" using assms that by (simp add: list_all_iff)
    then have "list_all plain_char (po_PaneID (snd x))" by (intro safe_plain) (simp add: sendable_def)
    then show ?thesis using x decode_marshal [of "snd x"] by (simp add: DecodePayload_def output_message_def sendable_def)
  qed
  then show ?thesis using stream_output [OF assms] by auto
qed

definition sample_output :: "string \<times> PaneOutputPayload" where
  "sample_output = ([], \<lparr>po_PaneID = ''pane-1'', po_Data = ''hi'', po_Ghost = False, po_Generation = 7\<rparr>)"

theorem frame_roundtrip_witness:
  "\<exists>s. write_all (\<lambda>_. None) [output_message sample_output] = Some s
    \<and> read_n (\<lambda>_. None) 1 (s @ ''x'') = Inr ([output_message sample_output], ''x'')"
proof -
  have "length (envelope_body (output_message sample_output)) \<le> maxFrameSize"
    by (simp add: sample_output_def output_message_def envelope_body_def marshal_pane_output_def frame_keys maxFrameSize_def
        MsgPaneOutput_def decimal.simps)
  then have "list_all sendable [sample_output]" by (simp add: sendable_def) (simp add: sample_output_def)
  from frame_roundtrip [OF this, of "\<lambda>_. None" "\<lambda>_. None" "''x''"] show ?thesis by auto
qed


section \<open>Members of an envelope\<close>

lemma top_keys_string:
  "list_all plain_char s \<Longrightarrow> stk \<noteq> [ObjectKey] \<Longrightarrow> top_keys lim (InString, stk) [] (s @ r) = top_keys lim (InString, stk) [] r"
  by (induction s) (simp_all add: plain_char_def Let_def)

lemma scan_type_key: "top_keys (Suc lim) (BeginValue, []) [] (type_key @ r) = ''type'' # top_keys (Suc lim) (InString, [ObjectValue]) [] r"
  by (simp add: frame_keys begin_value_def json_space_def push_item_def begin_string_def begin_scalar_def in_string_def)

lemma scan_id_key: "top_keys lim (EndValue, [ObjectValue]) [] (id_key @ r) = ''id'' # top_keys lim (InString, [ObjectValue]) [] r"
  by (simp add: frame_keys begin_value_def json_space_def begin_string_def begin_scalar_def in_string_def)

lemma scan_payload_key: "top_keys lim (EndValue, [ObjectValue]) [] (payload_key @ r) = ''payload'' # top_keys lim (BeginValue, [ObjectValue]) [] r"
  by (simp add: frame_keys json_space_def begin_string_def in_string_def)

text \<open>A payload the encoder takes stays below the envelope's own level.\<close>

lemma inlinable_quiet:
  assumes "payloadInlinable p" "p \<noteq> []" "p = u @ v"
    and t: "json_run (Suc maxNesting) u (BeginValue, [ObjectValue]) = Some t"
  shows "snd t \<noteq> [] \<and> last (snd t) = ObjectValue"
proof (cases "paneOutputSpan p")
  case False
  then have "json_Valid p" using assms(1) by (auto simp: payloadInlinable_def split: if_splits)
  from valid_quiet [OF this assms(3), of ObjectValue] t show ?thesis by (metis (no_types) last_snoc option.inject snd_conv snoc_eq_iff_butlast)
next
  case True
  obtain q where q: "p = CHR ''{'' # q @ ''}''" "CHR ''{'' \<notin> set q" "CHR ''}'' \<notin> set q"
  proof
    have n: "p = hd p # tl p" "tl p \<noteq> []" using True by (cases p; auto simp: paneOutputSpan_def Suc_le_eq)+
    have "tl p = butlast (tl p) @ [last (tl p)]" using n(2) by simp
    moreover have "last (tl p) = CHR ''}''" "hd p = CHR ''{''" using True n by (auto simp: paneOutputSpan_def last_tl)
    ultimately show "p = CHR ''{'' # butlast (tl p) @ ''}''" using n(1) by metis
    show "CHR ''{'' \<notin> set (butlast (tl p))" using True by (auto simp: paneOutputSpan_def dest: in_set_butlastD)
    have "set (butlast (tl p)) \<subseteq> set (butlast p)" using n by (metis butlast.simps(2) set_subset_Cons)
    then show "CHR ''}'' \<notin> set (butlast (tl p))" using True by (auto simp: paneOutputSpan_def)
  qed
  show ?thesis
  proof (cases u)
    case Nil
    then show ?thesis using t by auto
  next
    case (Cons c u')
    have u: "c = CHR ''{''" "u' @ v = q @ ''}''" using assms(3) q(1) Cons by auto
    have b: "json_step (Suc maxNesting) (CHR ''{'') (BeginValue, [ObjectValue]) = Some (BeginStringOrEmpty, [ObjectKey, ObjectValue])"
      by (simp add: begin_value_def push_item_def json_space_def maxNesting_def)
    have i: "inside ObjectValue (BeginStringOrEmpty, [ObjectKey, ObjectValue])" by (auto simp: inside_def)
    show ?thesis
    proof (cases v rule: rev_cases)
      case Nil
      then have "u' = q @ ''}''" using u by simp
      then obtain s where s: "json_run (Suc maxNesting) q (BeginStringOrEmpty, [ObjectKey, ObjectValue]) = Some s"
          "json_step (Suc maxNesting) (CHR ''}'') s = Some t"
        using t Cons u(1) b by (auto simp: json_run_append split: option.splits)
      have "inside ObjectValue s" using json_run_inside [OF s(1) i q(2,3)] .
      then obtain x ys where "snd s = x # ys @ [ObjectValue]"
        by (auto simp: inside_def) (metis append_Cons append_Nil neq_Nil_conv)
      then have "rests_on (ys @ [ObjectValue]) t"
        using json_step_base [of "Suc maxNesting" "CHR ''}''" "fst s" x "ys @ [ObjectValue]" t] s(2) by (metis prod.collapse)
      then show ?thesis by (auto simp: rests_on_def)
    next
      case (snoc v' y)
      then have "q = u' @ v'" using u(2) by simp
      then have "CHR ''{'' \<notin> set u'" "CHR ''}'' \<notin> set u'" using q by auto
      moreover have "json_run (Suc maxNesting) u' (BeginStringOrEmpty, [ObjectKey, ObjectValue]) = Some t"
        using t Cons u(1) b by simp
      ultimately have "inside ObjectValue t" using json_run_inside i by blast
      then show ?thesis by (auto simp: inside_def)
    qed
  qed
qed

lemma inlinable_members:
  assumes "payloadInlinable p" "p \<noteq> []"
  shows "top_keys (Suc maxNesting) (BeginValue, [ObjectValue]) [] (p @ [c]) = []"
proof -
  let ?s = "(BeginValue, [ObjectValue])"
  note q = inlinable_quiet [OF assms]
  have "top_keys (Suc maxNesting) ?s [] (p @ [c]) =
      (case json_run (Suc maxNesting) p ?s of None \<Rightarrow> [] | Some t \<Rightarrow> top_keys (Suc maxNesting) t [] [c])"
    by (rule top_keys_append_quiet) (auto split: option.split dest!: q)
  moreover have "top_keys (Suc maxNesting) t [] [c] = []" if "json_run (Suc maxNesting) p ?s = Some t" for t
    using q [of p "[]" t] that by (auto split: option.split)
  ultimately show ?thesis by (auto split: option.split)
qed

text \<open>No payload can forge a member of its envelope. Whatever the payload of a message the fast path
  encodes, the frame's object has exactly the members the encoder wrote, once each and in order: its type,
  its identifier when there is one, its payload when there is one. So a decoder that lets the last
  of several equal keys win still reads the type that was sent.\<close>

theorem no_forged_member:
  assumes "appendEnvelope m = Some f"
  shows "object_keys (Suc maxNesting) (drop 4 f) = ''type'' # (if msg_ID m = [] then [] else [''id''])
    @ (if msg_Payload m = [] then [] else [''payload''])"
proof -
  let ?k = "top_keys (Suc maxNesting)"
  have m: "fastStringSafe (msg_Type m)" "fastStringSafe (msg_ID m)" "msg_Payload m \<noteq> [] \<Longrightarrow> payloadInlinable (msg_Payload m)"
    and f: "drop 4 f = envelope_body m"
    using assms by (auto simp: appendEnvelope_def PutUint32_def Let_def split: if_splits)
  define tl where "tl = (if msg_Payload m \<noteq> [] then payload_key @ msg_Payload m else []) @ ''}''"
  define md where "md = (if msg_ID m \<noteq> [] then id_key @ msg_ID m @ [CHR 0x22] else []) @ tl"
  have str: "?k (InString, [ObjectValue]) [] (s @ CHR 0x22 # r) = ?k (EndValue, [ObjectValue]) [] r" if "fastStringSafe s" for s r
    using top_keys_string [OF safe_plain [OF that], of "[ObjectValue]" "Suc maxNesting" "CHR 0x22 # r"] by simp
  have "?k (EndValue, [ObjectValue]) [] tl = (if msg_Payload m = [] then [] else [''payload''])"
    using inlinable_members [OF m(3), of "CHR ''}''"] scan_payload_key [of "Suc maxNesting" "msg_Payload m @ ''}''"]
    by (simp add: tl_def json_space_def closed_state_def)
  then have "?k (EndValue, [ObjectValue]) [] md = (if msg_ID m = [] then [] else [''id'']) @ (if msg_Payload m = [] then [] else [''payload''])"
    using str [OF m(2)] scan_id_key by (simp add: md_def)
  moreover have "envelope_body m = type_key @ msg_Type m @ CHR 0x22 # md" by (simp add: envelope_body_def md_def tl_def)
  ultimately show ?thesis using str [OF m(1)] scan_type_key by (simp add: object_keys_def f)
qed

text \<open>The payload of the code's own comment, which tries to turn a frame into a shutdown, is declined; its
  nearest inlinable kin stays inside.\<close>

definition forged :: string where
  "forged = ''{'' @ [CHR 0x22] @ ''a'' @ [CHR 0x22] @ '':1}''"

theorem no_forged_member_witness:
  "appendEnvelope \<lparr>msg_Type = MsgNoteGet, msg_ID = ''r1'', msg_Payload = forged @ '','' @ quoted ''type'' @ '':'' @ quoted ''shutdown''\<rparr> = None
    \<and> object_keys (Suc maxNesting) (drop 4 (the (appendEnvelope \<lparr>msg_Type = MsgNoteGet, msg_ID = ''r1'', msg_Payload = forged\<rparr>)))
      = [''type'', ''id'', ''payload'']"
proof
  show "appendEnvelope \<lparr>msg_Type = MsgNoteGet, msg_ID = ''r1'', msg_Payload = forged @ '','' @ quoted ''type'' @ '':'' @ quoted ''shutdown''\<rparr> = None"
    by (simp add: appendEnvelope_def MsgNoteGet_def forged_def quoted_def payloadInlinable_def paneOutputSpan_def pane_id_key_def
        isJSONSpace_def json_Valid_def begin_value_def begin_string_def begin_scalar_def json_space_def push_item_def maxNesting_def
        closed_state_def json_digit_def after_int_def Let_def)
  obtain f where "appendEnvelope \<lparr>msg_Type = MsgNoteGet, msg_ID = ''r1'', msg_Payload = forged\<rparr> = Some f"
    by (simp add: appendEnvelope_def MsgNoteGet_def forged_def payloadInlinable_def paneOutputSpan_def pane_id_key_def quoted_def
        isJSONSpace_def json_Valid_def begin_value_def begin_string_def begin_scalar_def json_space_def push_item_def maxNesting_def
        closed_state_def json_digit_def after_int_def Let_def envelope_body_def maxFrameSize_def frame_keys)
  from this no_forged_member [OF this] show "object_keys (Suc maxNesting) (drop 4 (the (appendEnvelope
      \<lparr>msg_Type = MsgNoteGet, msg_ID = ''r1'', msg_Payload = forged\<rparr>))) = [''type'', ''id'', ''payload'']"
    by (simp add: forged_def)
qed

end
