(* ===== verification/Task_Board.thy ===== *)
theory Task_Board
  imports Quil_Prelude Transition
begin

text \<open>
  Tasks one pane delegates to another (\<open>internal/daemon/task.go\<close>): the registry, the state machine of a
  task and what an event does to it. A task is a heap object: goroutines keep its address after the
  registry has dropped it. Every span of the registry's lock is one operation. A time is the optional
  millisecond count the wire shows (\<open>None\<close> is the zero time); the identifier, the clock, the target's
  screen excerpt and whether the prompt could be queued are arguments.
\<close>

section \<open>Tasks\<close>

datatype taskState = taskSent | taskWorking | taskDone | taskFailed | taskTimeout

definition terminal :: "taskState \<Rightarrow> bool" where
  "terminal s \<longleftrightarrow> s = taskDone \<or> s = taskFailed \<or> s = taskTimeout"

definition maxTasks :: int where "maxTasks = 200"
definition taskPromptPreview :: nat where "taskPromptPreview = 200"

datatype timer = No_timer | Scheduled | Stopped

record task =
  t_id :: string
  t_from :: string
  t_to :: string
  t_toName :: string
  t_prompt :: string
  t_notify :: bool
  t_terminal :: bool
  t_created :: "int option"
  t_started :: "int option"
  t_ended :: "int option"
  t_state :: taskState
  t_result :: string
  t_errText :: string
  t_notified :: bool
  t_closed :: bool
  t_timer :: timer

record taskRegistry =
  r_byID :: "string \<rightharpoonup> nat"
  r_order :: "string list"
  r_max :: nat

record task_store =
  heap :: "nat \<rightharpoonup> task"
  reg :: taskRegistry

definition newTaskRegistry :: "int \<Rightarrow> taskRegistry" where
  "newTaskRegistry m = \<lparr>r_byID = Map.empty, r_order = [], r_max = nat (if m \<le> 0 then maxTasks else m)\<rparr>"

text \<open>\<open>byID[id]\<close> and the object it points to; \<open>None\<close> is a nil pointer.\<close>

definition task_of :: "'a task_store_scheme \<Rightarrow> string \<Rightarrow> task option" where
  "task_of s i = (case r_byID (reg s) i of None \<Rightarrow> None | Some a \<Rightarrow> heap s a)"

section \<open>The registry\<close>

text \<open>The oldest terminal task of the order, and the order without it.\<close>

fun take_terminal :: "(string \<Rightarrow> task option) \<Rightarrow> string list \<Rightarrow> (string \<times> string list) option" where
  "take_terminal look [] = None"
| "take_terminal look (i # is) =
    (if (case look i of Some t \<Rightarrow> terminal (t_state t) | None \<Rightarrow> False) then Some (i, is)
     else map_option (\<lambda>(j, rest). (j, i # rest)) (take_terminal look is))"

lemma take_terminal_length: "take_terminal look is = Some (j, rest) \<Longrightarrow> length rest < length is"
  by (induction "is" arbitrary: j rest) (auto split: if_splits)

function evict_over :: "(nat \<rightharpoonup> task) \<Rightarrow> nat \<Rightarrow> (string \<rightharpoonup> nat) \<Rightarrow> string list \<Rightarrow> (string \<rightharpoonup> nat) \<times> string list" where
  "evict_over h m byID order =
    (if length order > m then
       (case take_terminal (\<lambda>i. case byID i of None \<Rightarrow> None | Some a \<Rightarrow> h a) order of
          None \<Rightarrow> (byID, order)
        | Some (i, rest) \<Rightarrow> evict_over h m (byID(i := None)) rest)
     else (byID, order))"
  by pat_completeness auto
termination by (relation "measure (\<lambda>(h, m, byID, order). length order)") (auto dest: take_terminal_length)

declare evict_over.simps [simp del]

definition addLocked :: "nat \<Rightarrow> task \<Rightarrow> 'a task_store_scheme \<Rightarrow> 'a task_store_scheme" where
  "addLocked a t s =
    (let h = (heap s)(a \<mapsto> t);
         (byID, order) = evict_over h (r_max (reg s)) ((r_byID (reg s))(t_id t \<mapsto> a)) (r_order (reg s) @ [t_id t])
     in s\<lparr>heap := h, reg := (reg s)\<lparr>r_byID := byID, r_order := order\<rparr>\<rparr>)"

definition live_for :: "'a task_store_scheme \<Rightarrow> string \<Rightarrow> string \<Rightarrow> bool" where
  "live_for s pane i = (case task_of s i of Some t \<Rightarrow> t_to t = pane \<and> \<not> terminal (t_state t) | None \<Rightarrow> False)"

text \<open>The identifier of the live task in the way, empty when \<open>t\<close> (at the new address \<open>a\<close>) is stored.\<close>

definition addLive :: "nat \<Rightarrow> task \<Rightarrow> 'a task_store_scheme \<Rightarrow> string \<times> 'a task_store_scheme" where
  "addLive a t s = (case find (live_for s (t_to t)) (r_order (reg s)) of
     Some i \<Rightarrow> (case task_of s i of Some old \<Rightarrow> (t_id old, s) | None \<Rightarrow> ([], s))
   | None \<Rightarrow> ([], addLocked a t s))"

definition get_task :: "string \<Rightarrow> 'a task_store_scheme \<Rightarrow> nat option" where
  "get_task i s = r_byID (reg s) i"

definition live :: "nat \<Rightarrow> 'a task_store_scheme \<Rightarrow> bool" where
  "live a s = (case heap s a of Some t \<Rightarrow> \<not> terminal (t_state t) | None \<Rightarrow> False)"

definition advance :: "nat \<Rightarrow> taskState \<Rightarrow> taskState \<Rightarrow> int option \<Rightarrow> 'a task_store_scheme \<Rightarrow> bool \<times> 'a task_store_scheme" where
  "advance a src dst started s = (case heap s a of
     None \<Rightarrow> (False, s)
   | Some t \<Rightarrow> if t_state t \<noteq> src then (False, s)
       else (True, s\<lparr>heap := (heap s)(a \<mapsto> t\<lparr>t_state := dst,
         t_started := (if dst = taskWorking then started else t_started t)\<rparr>)\<rparr>))"

definition arm :: "nat \<Rightarrow> 'a task_store_scheme \<Rightarrow> 'a task_store_scheme" where
  "arm a s = (case heap s a of
     None \<Rightarrow> s
   | Some t \<Rightarrow> if terminal (t_state t) then s else s\<lparr>heap := (heap s)(a \<mapsto> t\<lparr>t_timer := Scheduled\<rparr>)\<rparr>)"

definition registered :: "'a task_store_scheme \<Rightarrow> nat list" where
  "registered s = List.map_filter (r_byID (reg s)) (r_order (reg s))"

definition all_tasks :: "'a task_store_scheme \<Rightarrow> nat list" where
  "all_tasks s = registered s"

definition liveTasksTo :: "string \<Rightarrow> 'a task_store_scheme \<Rightarrow> nat list" where
  "liveTasksTo pane s = filter (\<lambda>a. case heap s a of Some t \<Rightarrow> t_to t = pane \<and> \<not> terminal (t_state t) | None \<Rightarrow> False) (registered s)"

section \<open>Ending a task\<close>

text \<open>\<open>close(t.done)\<close>: a second close panics.\<close>

definition close_done :: "task \<Rightarrow> task outcome" where
  "close_done t = (if t_closed t then Panic else Ret (t\<lparr>t_closed := True\<rparr>))"

text \<open>
  The locked span of \<open>finishTask\<close>. The result is whether this call ended the task: it then emits one
  \<open>task_done\<close> event and starts the notify-back. \<open>excerpt\<close> is the target's last output, \<open>None\<close> when the
  target is gone.
\<close>

definition finishTask ::
    "nat \<Rightarrow> taskState \<Rightarrow> string \<Rightarrow> int \<Rightarrow> string option \<Rightarrow> 'a task_store_scheme \<Rightarrow> (bool \<times> 'a task_store_scheme) outcome" where
  "finishTask a st errText now excerpt s = (case heap s a of
     None \<Rightarrow> Ret (False, s)
   | Some t \<Rightarrow> if terminal (t_state t) then Ret (False, s)
       else obind (close_done (t\<lparr>t_state := st, t_errText := errText, t_ended := Some now,
              t_timer := (if t_timer t = No_timer then No_timer else Stopped),
              t_result := (case excerpt of None \<Rightarrow> t_result t | Some x \<Rightarrow> x)\<rparr>))
            (\<lambda>t'. Ret (True, s\<lparr>heap := (heap s)(a \<mapsto> t')\<rparr>)))"

definition PaneInputQueueFull :: string where
  "PaneInputQueueFull = ''pane input queue is full '' @ [CHR 0xE2, CHR 0x80, CHR 0x94] @ '' its child has stopped reading stdin''"

text \<open>What \<open>delegateTask\<close> does to a published task whose prompt could not be queued.\<close>

definition fail_delivery :: "nat \<Rightarrow> int \<Rightarrow> 'a task_store_scheme \<Rightarrow> 'a task_store_scheme outcome" where
  "fail_delivery a now s = (case heap s a of
     None \<Rightarrow> Ret s
   | Some t \<Rightarrow> if terminal (t_state t) then Ret s
       else obind (close_done (t\<lparr>t_state := taskFailed, t_errText := PaneInputQueueFull, t_ended := Some now\<rparr>))
            (\<lambda>t'. Ret (s\<lparr>heap := (heap s)(a \<mapsto> t')\<rparr>)))"

definition notified :: "nat \<Rightarrow> 'a task_store_scheme \<Rightarrow> 'a task_store_scheme" where
  "notified a s = (case heap s a of None \<Rightarrow> s | Some t \<Rightarrow> s\<lparr>heap := (heap s)(a \<mapsto> t\<lparr>t_notified := True\<rparr>)\<rparr>)"

section \<open>What an event does\<close>

datatype observed = Nothing | Fail_exited | Finish_command | Start_working | Wait_for_idle

text \<open>The switch of \<open>taskObserve\<close> for one live task of the pane: the event's type and its transition.\<close>

definition observe :: "task \<Rightarrow> string \<Rightarrow> bool \<Rightarrow> bool \<Rightarrow> observed" where
  "observe t eventType now_working fell_idle =
    (if eventType = ''process_exit'' then Fail_exited
     else if t_terminal t \<and> eventType = ''command_complete'' then Finish_command
     else if \<not> t_terminal t \<and> now_working then Start_working
     else if \<not> t_terminal t \<and> fell_idle then Wait_for_idle
     else Nothing)"

text \<open>The closure \<open>onPaneIdle\<close> runs for it, and the timeout's.\<close>

definition idle_closure :: "string \<Rightarrow> bool \<Rightarrow> int \<Rightarrow> string option \<Rightarrow> 'a task_store_scheme \<Rightarrow> (bool \<times> 'a task_store_scheme) outcome" where
  "idle_closure i aborted now excerpt s =
    (if aborted then Ret (False, s)
     else case get_task i s of
       None \<Rightarrow> Ret (False, s)
     | Some a \<Rightarrow> if live a s then finishTask a taskDone [] now excerpt s else Ret (False, s))"

definition timeout_closure :: "string \<Rightarrow> int \<Rightarrow> string option \<Rightarrow> 'a task_store_scheme \<Rightarrow> (bool \<times> 'a task_store_scheme) outcome" where
  "timeout_closure i now excerpt s = (case get_task i s of
     None \<Rightarrow> Ret (False, s) | Some a \<Rightarrow> finishTask a taskTimeout [] now excerpt s)"

end
