(* ===== verification/Task_Props.thy ===== *)
theory Task_Props
  imports Task_Board
begin

text \<open>
  Delegated tasks under every interleaving of the lock spans: a task ends once, its end is announced once,
  and two prompts never wait in one pane.
\<close>

section \<open>The registry as a transition system\<close>

text \<open>\<open>announced\<close> lists the tasks whose \<open>task_done\<close> event was emitted, in order.\<close>

record task_board = task_store +
  announced :: "nat list"

definition fresh_task :: "task \<Rightarrow> bool" where
  "fresh_task t \<longleftrightarrow> t_state t = taskSent \<and> \<not> t_closed t \<and> t_timer t = No_timer \<and> t_ended t = None \<and> t_errText t = []
     \<and> t_id t \<noteq> []"

text \<open>A new task carries a fresh identifier (\<open>uuid\<close>) and lives at a fresh address.\<close>

inductive task_step :: "task_board \<Rightarrow> task_board \<Rightarrow> bool" where
  delegate: "heap s a = None \<Longrightarrow> fresh_task t \<Longrightarrow> t_id t \<notin> set (r_order (reg s)) \<Longrightarrow> r_byID (reg s) (t_id t) = None \<Longrightarrow>
    addLive a t s = (busy, s') \<Longrightarrow> task_step s s'"
| start: "advance a taskSent taskWorking started s = (ok, s') \<Longrightarrow> task_step s s'"
| arm: "task_step s (arm a s)"
| notify: "task_step s (notified a s)"
| undelivered: "fail_delivery a now s = Ret s' \<Longrightarrow> task_step s s'"
| finish: "finishTask a st err now ex s = Ret (ended, s') \<Longrightarrow> terminal st \<Longrightarrow>
    task_step s (s'\<lparr>announced := announced s @ (if ended then [a] else [])\<rparr>)"

definition task_init :: "task_board \<Rightarrow> bool" where
  "task_init s \<longleftrightarrow> heap s = Map.empty \<and> (\<exists>m. reg s = newTaskRegistry m) \<and> announced s = []"

definition is_live :: "'a task_store_scheme \<Rightarrow> nat \<Rightarrow> task \<Rightarrow> bool" where
  "is_live s a t \<longleftrightarrow> heap s a = Some t \<and> \<not> terminal (t_state t)"

text \<open>Objects, the registry over them, and the announcements.\<close>

definition object_ok :: "task \<Rightarrow> bool" where
  "object_ok t \<longleftrightarrow> (t_closed t \<longleftrightarrow> terminal (t_state t)) \<and> (t_ended t = None \<longleftrightarrow> \<not> terminal (t_state t)) \<and> t_id t \<noteq> []"

definition registry_ok :: "'a task_store_scheme \<Rightarrow> bool" where
  "registry_ok s \<longleftrightarrow> distinct (r_order (reg s)) \<and> dom (r_byID (reg s)) = set (r_order (reg s))
     \<and> (\<forall>i a. r_byID (reg s) i = Some a \<longrightarrow> (\<exists>t. heap s a = Some t \<and> t_id t = i))
     \<and> (\<forall>a t. is_live s a t \<longrightarrow> r_byID (reg s) (t_id t) = Some a)"

lemma registry_okD:
  assumes "registry_ok s"
  shows "distinct (r_order (reg s))" "dom (r_byID (reg s)) = set (r_order (reg s))"
    "r_byID (reg s) i = Some a \<Longrightarrow> \<exists>t. heap s a = Some t \<and> t_id t = i"
    "is_live s a t \<Longrightarrow> r_byID (reg s) (t_id t) = Some a"
  using assms by (simp_all add: registry_ok_def)

definition one_per_pane :: "'a task_store_scheme \<Rightarrow> bool" where
  "one_per_pane s \<longleftrightarrow> (\<forall>a t b u. is_live s a t \<longrightarrow> is_live s b u \<longrightarrow> t_to t = t_to u \<longrightarrow> a = b)"

definition announced_ok :: "task_board \<Rightarrow> bool" where
  "announced_ok s \<longleftrightarrow> distinct (announced s) \<and> (\<forall>a \<in> set (announced s). \<exists>t. heap s a = Some t \<and> terminal (t_state t))
     \<and> (\<forall>a t. heap s a = Some t \<longrightarrow> terminal (t_state t) \<longrightarrow> a \<notin> set (announced s) \<longrightarrow>
          t_state t = taskFailed \<and> t_errText t = PaneInputQueueFull)"

definition task_inv :: "task_board \<Rightarrow> bool" where
  "task_inv s \<longleftrightarrow> (\<forall>a t. heap s a = Some t \<longrightarrow> object_ok t) \<and> registry_ok s \<and> one_per_pane s \<and> announced_ok s"

section \<open>Changing one task\<close>

text \<open>Every operation but a delegation replaces one object by a later form of itself.\<close>

fun state_rank :: "taskState \<Rightarrow> nat" where
  "state_rank taskSent = 0"
| "state_rank taskWorking = 1"
| "state_rank taskDone = 2"
| "state_rank taskFailed = 2"
| "state_rank taskTimeout = 2"

lemma rank_le [simp]: "state_rank s \<le> 2"
  by (cases s) simp_all

lemma terminal_rank: "terminal s \<longleftrightarrow> state_rank s = 2"
  by (cases s) (simp_all add: terminal_def)

definition outcome_of :: "task \<Rightarrow> taskState \<times> string \<times> string \<times> int option" where
  "outcome_of t = (t_state t, t_result t, t_errText t, t_ended t)"

definition later :: "task \<Rightarrow> task \<Rightarrow> bool" where
  "later t u \<longleftrightarrow> t_id u = t_id t \<and> t_to u = t_to t \<and> state_rank (t_state t) \<le> state_rank (t_state u)
     \<and> (terminal (t_state t) \<longrightarrow> outcome_of u = outcome_of t)"

lemma later_refl [simp]: "later t t"
  by (simp add: later_def)

lemma later_trans: "later t u \<Longrightarrow> later u v \<Longrightarrow> later t v"
  by (auto simp: later_def outcome_of_def)

definition replaces :: "nat \<Rightarrow> task \<Rightarrow> task \<Rightarrow> task_board \<Rightarrow> task_board \<Rightarrow> bool" where
  "replaces a t u s s' \<longleftrightarrow> heap s a = Some t \<and> later t u \<and> object_ok u
     \<and> heap s' = (heap s)(a \<mapsto> u) \<and> reg s' = reg s"

lemma later_live: "later t u \<Longrightarrow> \<not> terminal (t_state u) \<Longrightarrow> \<not> terminal (t_state t)"
  by (auto simp: later_def outcome_of_def)

lemma replaces_inv:
  assumes r: "replaces a t u s s'" and inv: "task_inv s"
    and ann: "announced s' = announced s \<and> (terminal (t_state t) \<or> \<not> terminal (t_state u)
         \<or> t_state u = taskFailed \<and> t_errText u = PaneInputQueueFull)
      \<or> announced s' = announced s @ [a] \<and> \<not> terminal (t_state t) \<and> terminal (t_state u)"
  shows "task_inv s'"
proof -
  have h: "heap s a = Some t" "later t u" "object_ok u" and s': "heap s' = (heap s)(a \<mapsto> u)" "reg s' = reg s"
    using r by (simp_all add: replaces_def)
  have id: "t_id u = t_id t" "t_to u = t_to t" using h(2) by (simp_all add: later_def)
  have lv: "is_live s b (if b = a then t else v)" if "is_live s' b v" for b v
    using that h(1) later_live [OF h(2)] by (auto simp: is_live_def s' split: if_splits)
  have "\<forall>b v. heap s' b = Some v \<longrightarrow> object_ok v" using inv h(3) by (auto simp: task_inv_def s')
  moreover have "registry_ok s'"
  proof -
    have g: "registry_ok s" using inv by (simp add: task_inv_def)
    have "r_byID (reg s') (t_id v) = Some b" if "is_live s' b v" for b v
      using lv [OF that] g that h(1) id by (auto simp: registry_ok_def s' is_live_def split: if_splits)
    moreover have "\<exists>v. heap s' b = Some v \<and> t_id v = i" if i: "r_byID (reg s') i = Some b" for i b
    proof -
      have "r_byID (reg s) i = Some b" using i s'(2) by simp
      from registry_okD(3) [OF g this] obtain w where "heap s b = Some w" "t_id w = i" by blast
      then show ?thesis using h(1) id by (auto simp: s')
    qed
    ultimately show ?thesis using g by (simp add: registry_ok_def s')
  qed
  moreover have "one_per_pane s'"
  proof -
    have "b = c" if b: "is_live s' b v" "is_live s' c w" "t_to v = t_to w" for b v c w
    proof -
      have "t_to (if b = a then t else v) = t_to (if c = a then t else w)"
        using b id by (auto simp: is_live_def s' split: if_splits)
      with lv [OF b(1)] lv [OF b(2)] inv show ?thesis unfolding task_inv_def one_per_pane_def by blast
    qed
    then show ?thesis unfolding one_per_pane_def by blast
  qed
  moreover have "announced_ok s'"
  proof -
    have g: "announced_ok s" using inv by (simp add: task_inv_def)
    have frozen: "outcome_of u = outcome_of t" if "terminal (t_state t)" using h(2) that by (simp add: later_def)
    from ann show ?thesis
    proof
      assume a1: "announced s' = announced s \<and> (terminal (t_state t) \<or> \<not> terminal (t_state u)
         \<or> t_state u = taskFailed \<and> t_errText u = PaneInputQueueFull)"
      have "a \<in> set (announced s) \<Longrightarrow> terminal (t_state u)" using g h(1) frozen by (auto simp: announced_ok_def outcome_of_def)
      moreover have "t_state u = taskFailed \<and> t_errText u = PaneInputQueueFull" if "terminal (t_state u)" "a \<notin> set (announced s)"
        using a1 that g h(1) frozen by (auto simp: announced_ok_def outcome_of_def)
      ultimately show ?thesis using g a1 by (auto simp: announced_ok_def s')
    next
      assume a2: "announced s' = announced s @ [a] \<and> \<not> terminal (t_state t) \<and> terminal (t_state u)"
      then have "a \<notin> set (announced s)" using g h(1) by (auto simp: announced_ok_def)
      then show ?thesis using g a2 by (auto simp: announced_ok_def s')
    qed
  qed
  ultimately show ?thesis by (simp add: task_inv_def)
qed

lemma unchanged_inv: "heap s' = heap s \<Longrightarrow> reg s' = reg s \<Longrightarrow> announced s' = announced s \<Longrightarrow> task_inv s \<Longrightarrow> task_inv s'"
proof -
  assume a: "heap s' = heap s" "reg s' = reg s" "announced s' = announced s" "task_inv s"
  then have "is_live s' = is_live s" by (simp add: is_live_def fun_eq_iff)
  then show ?thesis using a by (simp add: task_inv_def registry_ok_def one_per_pane_def announced_ok_def)
qed

section \<open>The operations\<close>

lemma advance_cases:
  fixes s :: task_board
  assumes "advance a taskSent taskWorking started s = (ok, s')" "\<forall>b v. heap s b = Some v \<longrightarrow> object_ok v"
  obtains "s' = s" | t u where "replaces a t u s s'" "announced s' = announced s" "\<not> terminal (t_state u)"
proof (cases "\<exists>t. heap s a = Some t \<and> t_state t = taskSent")
  case True
  then obtain t where t: "heap s a = Some t" "t_state t = taskSent" by blast
  then have "object_ok t" using assms(2) by blast
  then show ?thesis using assms(1) t
    by (intro that(2) [of t "t\<lparr>t_state := taskWorking, t_started := started\<rparr>"])
      (auto simp: advance_def replaces_def later_def object_ok_def terminal_def)
next
  case False
  then show ?thesis using assms(1) by (intro that(1)) (auto simp: advance_def split: option.splits if_splits)
qed

lemma arm_cases:
  fixes s :: task_board
  assumes "\<forall>b v. heap s b = Some v \<longrightarrow> object_ok v"
  obtains "arm a s = s" | t u where "replaces a t u s (arm a s)" "announced (arm a s) = announced s" "\<not> terminal (t_state u)"
proof (cases "\<exists>t. heap s a = Some t \<and> \<not> terminal (t_state t)")
  case True
  then obtain t where t: "heap s a = Some t" "\<not> terminal (t_state t)" by blast
  then have "object_ok t" using assms by blast
  then show ?thesis using t
    by (intro that(2) [of t "t\<lparr>t_timer := Scheduled\<rparr>"]) (auto simp: arm_def replaces_def later_def object_ok_def)
next
  case False
  then show ?thesis by (intro that(1)) (auto simp: arm_def split: option.splits)
qed

lemma notified_cases:
  fixes s :: task_board
  assumes "\<forall>b v. heap s b = Some v \<longrightarrow> object_ok v"
  obtains "notified a s = s" | t u where "replaces a t u s (notified a s)" "announced (notified a s) = announced s"
      "terminal (t_state t) \<or> \<not> terminal (t_state u)"
proof (cases "heap s a")
  case (Some t)
  then have "object_ok t" using assms by blast
  then show ?thesis using Some
    by (intro that(2) [of t "t\<lparr>t_notified := True\<rparr>"]) (auto simp: notified_def replaces_def later_def object_ok_def outcome_of_def)
qed (simp add: notified_def that(1))

lemma undelivered_cases:
  fixes s :: task_board
  assumes "\<forall>b v. heap s b = Some v \<longrightarrow> object_ok v"
  obtains "fail_delivery a now s = Ret s"
  | s' t u where "fail_delivery a now s = Ret s'" "replaces a t u s s'" "announced s' = announced s"
      "t_state u = taskFailed" "t_errText u = PaneInputQueueFull"
proof (cases "\<exists>t. heap s a = Some t \<and> \<not> terminal (t_state t)")
  case True
  then obtain t where t: "heap s a = Some t" "\<not> terminal (t_state t)" by blast
  then have "\<not> t_closed t" "t_id t \<noteq> []" using assms by (auto simp: object_ok_def)
  then show ?thesis using t
    by (intro that(2) [of "s\<lparr>heap := (heap s)(a \<mapsto> t\<lparr>t_state := taskFailed, t_errText := PaneInputQueueFull, t_ended := Some now,
          t_closed := True\<rparr>)\<rparr>" t "t\<lparr>t_state := taskFailed, t_errText := PaneInputQueueFull, t_ended := Some now, t_closed := True\<rparr>"])
      (auto simp: fail_delivery_def close_done_def replaces_def later_def object_ok_def terminal_rank)
next
  case False
  then show ?thesis by (intro that(1)) (auto simp: fail_delivery_def split: option.splits)
qed

lemma finish_cases:
  fixes s :: task_board
  assumes "\<forall>b v. heap s b = Some v \<longrightarrow> object_ok v" "terminal st"
  obtains "finishTask a st err now ex s = Ret (False, s)"
  | s' t u where "finishTask a st err now ex s = Ret (True, s')" "replaces a t u s s'" "announced s' = announced s"
      "\<not> terminal (t_state t)" "t_state u = st" "t_errText u = err"
proof (cases "heap s a")
  case None
  then show ?thesis using that(1) by (simp add: finishTask_def)
next
  case (Some t)
  show ?thesis
  proof (cases "terminal (t_state t)")
    case True
    then show ?thesis using that(1) Some by (simp add: finishTask_def)
  next
    case False
    then have "\<not> t_closed t" "t_id t \<noteq> []" using assms(1) Some by (auto simp: object_ok_def)
    let ?u = "t\<lparr>t_state := st, t_errText := err, t_ended := Some now,
        t_timer := (if t_timer t = No_timer then No_timer else Stopped),
        t_result := (case ex of None \<Rightarrow> t_result t | Some x \<Rightarrow> x), t_closed := True\<rparr>"
    show ?thesis using Some False assms(2) \<open>\<not> t_closed t\<close> \<open>t_id t \<noteq> []\<close>
      by (intro that(2) [of "s\<lparr>heap := (heap s)(a \<mapsto> ?u)\<rparr>" t ?u]) (auto simp: finishTask_def close_done_def replaces_def later_def object_ok_def terminal_rank)
  qed
qed

section \<open>Delegating\<close>

definition ended_in :: "(nat \<rightharpoonup> task) \<Rightarrow> (string \<rightharpoonup> nat) \<Rightarrow> string \<Rightarrow> bool" where
  "ended_in h byID i \<longleftrightarrow> (\<exists>a t. byID i = Some a \<and> h a = Some t \<and> terminal (t_state t))"

lemma take_terminal_None:
  "take_terminal look ids = None \<Longrightarrow> i \<in> set ids \<Longrightarrow> \<not> (\<exists>t. look i = Some t \<and> terminal (t_state t))"
  by (induction ids) (auto split: option.splits if_splits)

lemma take_terminal_Some:
  "take_terminal look ids = Some (j, rest) \<Longrightarrow>
    \<exists>us vs. ids = us @ j # vs \<and> rest = us @ vs \<and> (\<exists>t. look j = Some t \<and> terminal (t_state t))"
proof (induction ids arbitrary: rest)
  case (Cons i ids)
  show ?case
  proof (cases "\<exists>t. look i = Some t \<and> terminal (t_state t)")
    case True
    then show ?thesis using Cons.prems by (intro exI [of _ "[]"] exI [of _ rest]) auto
  next
    case False
    then obtain rest' where r: "take_terminal look ids = Some (j, rest')" "rest = i # rest'"
      using Cons.prems by (auto split: option.splits)
    from Cons.IH [OF r(1)] obtain us vs where "ids = us @ j # vs" "rest' = us @ vs" "\<exists>t. look j = Some t \<and> terminal (t_state t)"
      by blast
    then show ?thesis using r(2) by (intro exI [of _ "i # us"] exI [of _ vs]) simp
  qed
qed simp

definition evict_ok :: "(nat \<rightharpoonup> task) \<Rightarrow> nat \<Rightarrow> (string \<rightharpoonup> nat) \<Rightarrow> string list \<Rightarrow> (string \<rightharpoonup> nat) \<Rightarrow> string list \<Rightarrow> bool" where
  "evict_ok h m byID order byID' order' \<longleftrightarrow> distinct order' \<and> byID' = byID |` set order' \<and> set order' \<subseteq> set order
     \<and> (\<forall>i \<in> set order - set order'. ended_in h byID i)
     \<and> (length order' \<le> m \<or> (\<forall>i \<in> set order'. \<not> ended_in h byID i))
     \<and> (length order \<le> m \<longrightarrow> order' = order)"

lemma evict_over_ok:
  "distinct order \<Longrightarrow> dom byID = set order \<Longrightarrow> evict_over h m byID order = (byID', order') \<Longrightarrow> evict_ok h m byID order byID' order'"
proof (induction h m byID order arbitrary: byID' order' rule: evict_over.induct)
  case (1 h m byID order)
  let ?look = "\<lambda>i. case byID i of None \<Rightarrow> None | Some a \<Rightarrow> h a"
  have look: "(\<exists>t. ?look i = Some t \<and> terminal (t_state t)) \<longleftrightarrow> ended_in h byID i" for i
    by (auto simp: ended_in_def split: option.splits)
  have self: "byID = byID |` set order" using 1(3) by (auto simp: restrict_map_def fun_eq_iff)
  show ?case
  proof (cases "m < length order")
    case False
    then show ?thesis using 1(2,4) self by (subst (asm) evict_over.simps) (simp add: evict_ok_def)
  next
    case True
    show ?thesis
    proof (cases "take_terminal ?look order")
      case None
      then have "\<forall>i \<in> set order. \<not> ended_in h byID i" using take_terminal_None [OF None] look by blast
      then show ?thesis using 1(2,4) self None True by (subst (asm) evict_over.simps) (simp add: evict_ok_def)
    next
      case (Some jr)
      obtain j rest where jr: "jr = (j, rest)" by (cases jr)
      obtain us vs where u: "order = us @ j # vs" "rest = us @ vs" "ended_in h byID j"
        using take_terminal_Some [of ?look order j rest] Some look jr by blast
      have e: "evict_over h m (byID(j := None)) rest = (byID', order')"
        using 1(4) Some True jr by (subst (asm) evict_over.simps) simp
      have d: "distinct rest" "set rest = set order - {j}" "dom (byID(j := None)) = set rest"
        using 1(2,3) u by auto
      note ih = 1(1) [OF True Some jr [symmetric] d(1,3) e, unfolded evict_ok_def]
      have same: "ended_in h (byID(j := None)) i = ended_in h byID i" if "i \<noteq> j" for i using that by (simp add: ended_in_def)
      have nj: "j \<notin> set order'" using ih d(2) by auto
      then have "byID' = byID |` set order'" using ih by (auto simp: restrict_map_def fun_eq_iff)
      moreover have "ended_in h byID i" if "i \<in> set order - set order'" for i
        using that ih d(2) u(3) same by (cases "i = j") auto
      moreover have "length order' \<le> m \<or> (\<forall>i \<in> set order'. \<not> ended_in h byID i)" using ih nj same by metis
      ultimately show ?thesis using ih d(2) True by (auto simp: evict_ok_def)
    qed
  qed
qed

lemma find_live_none: "find (live_for s p) (r_order (reg s)) = None \<Longrightarrow> registry_ok s \<Longrightarrow> is_live s b v \<Longrightarrow> t_to v \<noteq> p"
proof
  assume a: "find (live_for s p) (r_order (reg s)) = None" "registry_ok s" "is_live s b v" "t_to v = p"
  have i: "r_byID (reg s) (t_id v) = Some b" using registry_okD(4) a(2,3) by blast
  then have "t_id v \<in> set (r_order (reg s))" using registry_okD(2) [OF a(2)] by blast
  moreover have "live_for s p (t_id v)" using a(3,4) i by (simp add: live_for_def task_of_def is_live_def)
  ultimately show False using a(1) by (auto simp: find_None_iff)
qed

text \<open>A stored task: what the registry and the heap are afterwards.\<close>

lemma addLocked_fields:
  assumes "registry_ok s" "heap s a = None" "t_id t \<notin> set (r_order (reg s))"
  shows "heap (addLocked a t s) = (heap s)(a \<mapsto> t)"
    "r_max (reg (addLocked a t s)) = r_max (reg s)"
    "evict_ok ((heap s)(a \<mapsto> t)) (r_max (reg s)) ((r_byID (reg s))(t_id t \<mapsto> a)) (r_order (reg s) @ [t_id t])
       (r_byID (reg (addLocked a t s))) (r_order (reg (addLocked a t s)))"
proof -
  obtain byID order where e: "evict_over ((heap s)(a \<mapsto> t)) (r_max (reg s)) ((r_byID (reg s))(t_id t \<mapsto> a))
      (r_order (reg s) @ [t_id t]) = (byID, order)" by fastforce
  then have s': "heap (addLocked a t s) = (heap s)(a \<mapsto> t)" "reg (addLocked a t s) = (reg s)\<lparr>r_byID := byID, r_order := order\<rparr>"
    by (simp_all add: addLocked_def Let_def)
  show "heap (addLocked a t s) = (heap s)(a \<mapsto> t)" "r_max (reg (addLocked a t s)) = r_max (reg s)" using s' by simp_all
  show "evict_ok ((heap s)(a \<mapsto> t)) (r_max (reg s)) ((r_byID (reg s))(t_id t \<mapsto> a)) (r_order (reg s) @ [t_id t])
       (r_byID (reg (addLocked a t s))) (r_order (reg (addLocked a t s)))"
    using evict_over_ok [OF _ _ e] registry_okD(1,2) [OF assms(1)] assms(3) s' by simp
qed

lemma addLive_inv:
  fixes s :: task_board
  assumes inv: "task_inv s" and new: "heap s a = None" "fresh_task t" "t_id t \<notin> set (r_order (reg s))"
    and add: "addLive a t s = (busy, s')"
  shows "task_inv s'"
proof (cases "find (live_for s (t_to t)) (r_order (reg s))")
  case (Some i)
  then have "s' = s" using add by (auto simp: addLive_def split: option.splits)
  then show ?thesis using inv by simp
next
  case None
  then have s': "s' = addLocked a t s" using add by (simp add: addLive_def)
  have g: "registry_ok s" using inv by (simp add: task_inv_def)
  note F = addLocked_fields [OF g new(1,3), folded s']
  note E = F(3) [unfolded evict_ok_def]
  have ann: "announced s' = announced s" by (simp add: s' addLocked_def Let_def split: prod.splits)
  have nt: "\<not> terminal (t_state t)" using new(2) by (simp add: fresh_task_def terminal_def)
  have lv: "is_live s' b v \<longleftrightarrow> (b = a \<and> v = t) \<or> is_live s b v" for b v
    using new(1) nt by (auto simp: is_live_def F(1))
  have "\<forall>b v. heap s' b = Some v \<longrightarrow> object_ok v"
    using inv new(2) nt by (auto simp: task_inv_def F(1) object_ok_def fresh_task_def)
  moreover have "one_per_pane s'"
  proof -
    have "t_to v \<noteq> t_to t" if "is_live s b v" for b v using find_live_none [OF None g that] .
    then show ?thesis using inv unfolding task_inv_def one_per_pane_def lv by metis
  qed
  moreover have "announced_ok s'" using inv new(1) nt ann by (auto simp: task_inv_def announced_ok_def F(1))
  moreover have "registry_ok s'"
  proof -
    let ?byID = "(r_byID (reg s))(t_id t \<mapsto> a)"
    have keep: "i \<in> set (r_order (reg s'))" if "?byID i = Some b" "is_live s' b v" for i b v
    proof (rule ccontr)
      assume "i \<notin> set (r_order (reg s'))"
      moreover have "i \<in> set (r_order (reg s) @ [t_id t])" using that(1) registry_okD(2) [OF g] by (auto split: if_splits)
      ultimately have "ended_in ((heap s)(a \<mapsto> t)) ?byID i" using E by blast
      then show False using that by (auto simp: ended_in_def is_live_def F(1))
    qed
    have "r_byID (reg s') (t_id v) = Some b" if l: "is_live s' b v" for b v
    proof -
      have "?byID (t_id v) = Some b"
        using lv [of b v] l registry_okD(4) [OF g, of b v] new(3) registry_okD(2) [OF g] by auto
      then show ?thesis using keep l E by (auto simp: restrict_map_def)
    qed
    moreover have "\<exists>v. heap s' b = Some v \<and> t_id v = i" if i: "r_byID (reg s') i = Some b" for i b
    proof -
      have "?byID i = Some b" using i E by (auto simp: restrict_map_def split: if_splits)
      then show ?thesis using registry_okD(3) [OF g, of i b] new(1) by (auto simp: F(1) split: if_splits)
    qed
    moreover have "dom (r_byID (reg s')) = set (r_order (reg s'))"
      using E registry_okD(2) [OF g] by auto
    ultimately show ?thesis using E by (simp add: registry_ok_def)
  qed
  ultimately show ?thesis by (simp add: task_inv_def)
qed

lemma task_step_inv: "task_step s s' \<Longrightarrow> task_inv s \<Longrightarrow> task_inv s'"
proof (induction rule: task_step.induct)
  case (delegate s a t busy s')
  then show ?case using addLive_inv by blast
next
  case (start a started s ok s')
  then have o: "\<forall>b v. heap s b = Some v \<longrightarrow> object_ok v" by (simp add: task_inv_def)
  from start.hyps o start.prems show ?case by (cases rule: advance_cases) (auto intro: replaces_inv)
next
  case (arm s a)
  then have o: "\<forall>b v. heap s b = Some v \<longrightarrow> object_ok v" by (simp add: task_inv_def)
  then show ?case using arm by (cases rule: arm_cases [OF o, of a]) (auto intro: replaces_inv)
next
  case (notify s a)
  then have o: "\<forall>b v. heap s b = Some v \<longrightarrow> object_ok v" by (simp add: task_inv_def)
  then show ?case using notify by (cases rule: notified_cases [OF o, of a]) (auto intro: replaces_inv)
next
  case (undelivered a now s s')
  then have o: "\<forall>b v. heap s b = Some v \<longrightarrow> object_ok v" by (simp add: task_inv_def)
  then show ?case using undelivered by (cases rule: undelivered_cases [OF o, of a now]) (auto intro: replaces_inv)
next
  case (finish a st err now ex s ended s')
  then have o: "\<forall>b v. heap s b = Some v \<longrightarrow> object_ok v" by (simp add: task_inv_def)
  show ?case
  proof (cases rule: finish_cases [OF o finish.hyps(2), of a err now ex])
    case 1
    then show ?thesis using finish.hyps(1) finish.prems by (auto intro: unchanged_inv)
  next
    case (2 s1 t u)
    then have e: "s1 = s'" "ended" using finish.hyps(1) by auto
    have "replaces a t u s (s'\<lparr>announced := announced s @ [a]\<rparr>)" using 2(2) e by (simp add: replaces_def)
    then show ?thesis using 2(4,5) e finish.hyps(2) finish.prems by (auto intro: replaces_inv)
  qed
qed

lemma task_init_inv: "task_init s \<Longrightarrow> task_inv s"
  by (auto simp: task_init_def task_inv_def registry_ok_def one_per_pane_def is_live_def announced_ok_def newTaskRegistry_def)

interpretation tasks: machine task_init task_step task_inv
  by unfold_locales (auto intro: task_init_inv task_step_inv)

lemma replaces_later: "replaces a t u s s' \<Longrightarrow> heap s b = Some v \<Longrightarrow> \<exists>v'. heap s' b = Some v' \<and> later v v'"
  by (cases "b = a") (auto simp: replaces_def)

lemma task_step_later:
  assumes "task_step s s'" "task_inv s" "heap s b = Some v"
  shows "\<exists>v'. heap s' b = Some v' \<and> later v v'"
proof -
  have o: "\<forall>b v. heap s b = Some v \<longrightarrow> object_ok v" using assms(2) by (simp add: task_inv_def)
  have id: "\<exists>v'. heap s b = Some v' \<and> later v v'" using assms(3) by simp
  from assms(1) show ?thesis
  proof (cases rule: task_step.cases)
    case (delegate a t busy)
    have g: "registry_ok s" using assms(2) by (simp add: task_inv_def)
    have "heap s' b = Some v"
    proof (cases "find (live_for s (t_to t)) (r_order (reg s))")
      case None
      then have "s' = addLocked a t s" using delegate by (simp add: addLive_def)
      then show ?thesis using addLocked_fields(1) [OF g delegate(1,3)] delegate(1) assms(3) by auto
    next
      case (Some i)
      then show ?thesis using delegate assms(3) by (auto simp: addLive_def split: option.splits)
    qed
    then show ?thesis by simp
  next
    case (start a started ok)
    from start o show ?thesis by (cases rule: advance_cases) (use id replaces_later assms(3) in auto)
  next
    case (arm a)
    show ?thesis unfolding arm by (cases rule: arm_cases [OF o, of a]) (use id replaces_later assms(3) in auto)
  next
    case (notify a)
    show ?thesis unfolding notify by (cases rule: notified_cases [OF o, of a]) (use id replaces_later assms(3) in auto)
  next
    case (undelivered a now)
    then show ?thesis by (cases rule: undelivered_cases [OF o, of a now]) (use id replaces_later assms(3) in auto)
  next
    case (finish a st err now ex ended s1)
    show ?thesis
    proof (cases rule: finish_cases [OF o finish(3), of a err now ex])
      case 1
      then show ?thesis using finish id by simp
    next
      case (2 s2 t u)
      then show ?thesis using finish replaces_later [OF 2(2) assms(3)] by simp
    qed
  qed
qed

lemma task_run_later: "task_step\<^sup>*\<^sup>* s u \<Longrightarrow> task_inv s \<Longrightarrow> heap s b = Some v \<Longrightarrow> \<exists>v'. heap u b = Some v' \<and> later v v'"
proof (induction rule: rtranclp_induct)
  case (step y z)
  then obtain v' where "heap y b = Some v'" "later v v'" by blast
  moreover have "task_inv y" using step.hyps(1) step.prems(1) by (rule tasks.run_inv)
  ultimately show ?case using task_step_later [OF step.hyps(2)] later_trans by blast
qed auto

lemma count_list_distinct: "distinct xs \<Longrightarrow> count_list xs x = (if x \<in> set xs then 1 else 0)"
  by (induction xs) auto

section \<open>Properties\<close>

text \<open>C21. However delegations, events, timeouts, destroyed panes and failed deliveries interleave, a task ends
  at most once: its state only moves forward, what it ended with never changes, its channel is closed
  exactly when it has ended and never twice, and its \<open>task_done\<close> event is emitted exactly once,
  unless its prompt could not be queued, which the caller is told instead.\<close>

theorem task_lifecycle:
  assumes "task_init s0" "task_step\<^sup>*\<^sup>* s0 s" "task_step\<^sup>*\<^sup>* s u" "heap s a = Some t"
  shows "\<exists>t'. heap u a = Some t' \<and> state_rank (t_state t) \<le> state_rank (t_state t')
      \<and> (terminal (t_state t) \<longrightarrow> outcome_of t' = outcome_of t)
      \<and> (t_closed t' \<longleftrightarrow> terminal (t_state t'))
      \<and> count_list (announced u) a \<le> (if terminal (t_state t') then 1 else 0)
      \<and> (terminal (t_state t') \<longrightarrow> a \<in> set (announced u) \<or> t_state t' = taskFailed \<and> t_errText t' = PaneInputQueueFull)
      \<and> finishTask a st err now ex u \<noteq> Panic \<and> fail_delivery a now u \<noteq> Panic"
proof -
  have i: "task_inv s" using assms(1,2) by (rule tasks.reachable_inv)
  have iu: "task_inv u" using assms(3) i by (rule tasks.run_inv)
  obtain t' where t': "heap u a = Some t'" "later t t'" using task_run_later [OF assms(3) i assms(4)] by blast
  have o: "\<forall>b v. heap u b = Some v \<longrightarrow> object_ok v" using iu by (simp add: task_inv_def)
  have "finishTask a st err now ex u \<noteq> Panic" "fail_delivery a now u \<noteq> Panic"
    using t'(1) o by (auto simp: finishTask_def fail_delivery_def close_done_def object_ok_def)
  moreover have "announced_ok u" "object_ok t'" using iu o t'(1) by (auto simp: task_inv_def)
  moreover from this have "count_list (announced u) a \<le> (if terminal (t_state t') then 1 else 0)"
    using t'(1) by (auto simp: announced_ok_def count_list_distinct)
  ultimately show ?thesis using t' by (auto simp: later_def announced_ok_def object_ok_def)
qed

lemma all_live:
  assumes "registry_ok s" "k \<in> set (r_order (reg s))" "\<not> ended_in (heap s) (r_byID (reg s)) k"
  shows "\<exists>b v. get_task k s = Some b \<and> is_live s b v"
proof -
  have "k \<in> dom (r_byID (reg s))" using assms(2) by (simp add: registry_okD(2) [OF assms(1)])
  then obtain c where c: "r_byID (reg s) k = Some c" by (auto simp: dom_def)
  obtain w where "heap s c = Some w" using registry_okD(3) [OF assms(1) c] by blast
  then show ?thesis using assms(3) c by (auto simp: ended_in_def get_task_def is_live_def)
qed

text \<open>A delegation is refused exactly when a task that has not ended waits in the same pane, and then it
  names that task and stores nothing; otherwise the new task is live and can be found, every task
  that had not ended can still be found, and the registry is within its bound or holds nothing but
  tasks that have not ended.\<close>

theorem delegation_exclusive:
  assumes "task_init s0" "task_step\<^sup>*\<^sup>* s0 s" "heap s a = None" "fresh_task t" "t_id t \<notin> set (r_order (reg s))"
    and add: "addLive a t s = (busy, s')"
  shows "(busy \<noteq> [] \<longleftrightarrow> (\<exists>b v. is_live s b v \<and> t_to v = t_to t))
    \<and> (busy \<noteq> [] \<longrightarrow> s' = s \<and> (\<exists>b v. is_live s b v \<and> t_to v = t_to t \<and> t_id v = busy))
    \<and> (busy = [] \<longrightarrow> is_live s' a t \<and> get_task (t_id t) s' = Some a
        \<and> (\<forall>b v. is_live s b v \<longrightarrow> is_live s' b v \<and> get_task (t_id v) s' = Some b)
        \<and> (length (r_order (reg s')) \<le> r_max (reg s) \<or> (\<forall>i \<in> set (r_order (reg s')). \<exists>b v. get_task i s' = Some b \<and> is_live s' b v)))"
proof -
  have i: "task_inv s" using assms(1,2) by (rule tasks.reachable_inv)
  have i': "task_inv s'" using addLive_inv [OF i assms(3-6)] .
  have g: "registry_ok s" "registry_ok s'" using i i' by (simp_all add: task_inv_def)
  show ?thesis
  proof (cases "find (live_for s (t_to t)) (r_order (reg s))")
    case (Some j)
    then have j: "live_for s (t_to t) j" by (auto simp: find_Some_iff)
    then obtain b v where v: "r_byID (reg s) j = Some b" "is_live s b v" "t_to v = t_to t"
      by (auto simp: live_for_def task_of_def is_live_def split: option.splits)
    then have "t_id v = j" using registry_okD(3) [OF g(1) v(1)] by (auto simp: is_live_def)
    moreover have "object_ok v" using i v(2) by (auto simp: task_inv_def is_live_def)
    moreover have "busy = t_id v" "s' = s" using add Some v by (auto simp: addLive_def task_of_def is_live_def)
    ultimately show ?thesis using v by (auto simp: object_ok_def)
  next
    case None
    then have b: "busy = []" "s' = addLocked a t s" using add by (simp_all add: addLive_def)
    note F = addLocked_fields [OF g(1) assms(3,5), folded b(2)]
    have none: "t_to v \<noteq> t_to t" if "is_live s c v" for c v using find_live_none [OF None g(1) that] .
    have nt: "\<not> terminal (t_state t)" using assms(4) by (simp add: fresh_task_def terminal_def)
    have live: "is_live s' a t" using nt by (simp add: is_live_def F(1))
    have old: "is_live s' c v" if "is_live s c v" for c v using that assms(3) by (auto simp: is_live_def F(1))
    have found: "get_task (t_id v) s' = Some c" if "is_live s' c v" for c v
      using registry_okD(4) [OF g(2) that] by (simp add: get_task_def)
    have "length (r_order (reg s')) \<le> r_max (reg s)
        \<or> (\<forall>k \<in> set (r_order (reg s')). \<exists>b v. get_task k s' = Some b \<and> is_live s' b v)"
    proof (cases "length (r_order (reg s')) \<le> r_max (reg s)")
      case False
      then have "\<not> ended_in (heap s') (r_byID (reg s')) k" if "k \<in> set (r_order (reg s'))" for k
        using F(3) that by (auto simp: evict_ok_def ended_in_def F(1))
      then show ?thesis using all_live [OF g(2)] by blast
    qed simp
    moreover have "\<not> (\<exists>c v. is_live s c v \<and> t_to v = t_to t)" using none by blast
    moreover have "\<forall>c v. is_live s c v \<longrightarrow> is_live s' c v \<and> get_task (t_id v) s' = Some c" using old found by blast
    moreover have "is_live s' a t \<and> get_task (t_id t) s' = Some a" using live found [OF live] by (rule conjI)
    ultimately show ?thesis unfolding b(1) by (intro conjI impI iffI) (fast+)
  qed
qed

text \<open>A board that is its own witness: one delegated terminal-style task, refused a rival, then finished.\<close>

definition empty_board :: task_board where
  "empty_board = \<lparr>heap = Map.empty, reg = newTaskRegistry 0, announced = []\<rparr>"

definition first_task :: task where
  "first_task = \<lparr>t_id = ''t1'', t_from = ''p1'', t_to = ''p2'', t_toName = ''build'', t_prompt = ''make'', t_notify = True, t_terminal = True,
     t_created = Some 1, t_started = None, t_ended = None, t_state = taskSent, t_result = [], t_errText = [], t_notified = False,
     t_closed = False, t_timer = No_timer\<rparr>"

definition board1 :: task_board where
  "board1 = snd (addLive 0 first_task empty_board)"

lemma empty_board_init: "task_init empty_board"
  by (auto simp: task_init_def empty_board_def)

lemma board1_eq: "board1 = \<lparr>heap = [0 \<mapsto> first_task], reg = \<lparr>r_byID = [''t1'' \<mapsto> 0], r_order = [''t1''], r_max = 200\<rparr>, announced = []\<rparr>"
  by (simp add: board1_def addLive_def empty_board_def newTaskRegistry_def maxTasks_def addLocked_def first_task_def evict_over.simps)

lemma board1_step: "task_step empty_board board1"
proof -
  have "addLive 0 first_task empty_board = (fst (addLive 0 first_task empty_board), board1)" by (simp add: board1_def)
  then show ?thesis
    by (rule task_step.delegate [rotated -1]) (simp_all add: empty_board_def fresh_task_def first_task_def newTaskRegistry_def)
qed

lemma board1_run: "task_step\<^sup>*\<^sup>* empty_board board1"
  using board1_step by (rule r_into_rtranclp)

theorem task_lifecycle_witness:
  "\<exists>u t'. finishTask 0 taskDone [] 9 (Some ''ok'') board1 = Ret (True, u) \<and> heap (u\<lparr>announced := [0]\<rparr>) 0 = Some t'
     \<and> t_state t' = taskDone \<and> t_closed t' \<and> t_result t' = ''ok'' \<and> finishTask 0 taskTimeout [] 10 None (u\<lparr>announced := [0]\<rparr>) \<noteq> Panic"
proof -
  obtain u where u: "finishTask 0 taskDone [] 9 (Some ''ok'') board1 = Ret (True, u)" "announced u = []"
      "heap u 0 = Some (first_task\<lparr>t_state := taskDone, t_ended := Some 9, t_result := ''ok'', t_closed := True\<rparr>)"
    by (simp add: board1_eq finishTask_def first_task_def terminal_def close_done_def)
  have "task_step board1 (u\<lparr>announced := announced board1 @ (if True then [0] else [])\<rparr>)"
    by (rule task_step.finish [OF u(1)]) (simp add: terminal_def)
  then have "task_step\<^sup>*\<^sup>* board1 (u\<lparr>announced := [0]\<rparr>)" by (simp add: board1_eq)
  from task_lifecycle [OF empty_board_init board1_run this, of 0 first_task taskTimeout "[]" 10 None]
  show ?thesis using u by (auto simp: board1_eq)
qed

definition rival :: task where
  "rival = first_task\<lparr>t_id := ''t2'', t_from := ''p3''\<rparr>"

theorem delegation_exclusive_witness:
  "addLive 1 rival board1 = (''t1'', board1) \<and> (\<exists>b v. is_live board1 b v \<and> t_to v = ''p2'' \<and> t_id v = ''t1'')"
proof -
  have a: "addLive 1 rival board1 = (''t1'', board1)"
    by (simp add: board1_eq addLive_def rival_def live_for_def task_of_def first_task_def terminal_def)
  from delegation_exclusive [OF empty_board_init board1_run _ _ _ a]
  show ?thesis using a by (simp add: board1_eq rival_def first_task_def fresh_task_def)
qed

end
