(* ===== verification/Utf8.thy ===== *)
theory Utf8
  imports Quil_Prelude
begin

text \<open>
  Go's \<open>unicode/utf8\<close> on byte strings: \<open>DecodeRune\<close>, the range loop over a string, \<open>ValidString\<close>,
  \<open>RuneCountInString\<close> and the encoder. A byte that starts no valid encoding decodes to \<open>RuneError\<close> with
  width one. A rune is a natural number.
\<close>

section \<open>Decoding\<close>

definition RuneError :: nat where "RuneError = 0xFFFD"

definition byte_at :: "string \<Rightarrow> nat \<Rightarrow> nat" where
  "byte_at s i = of_char (s ! i)"

definition is_cont :: "nat \<Rightarrow> bool" where
  "is_cont b \<longleftrightarrow> 0x80 \<le> b \<and> b \<le> 0xBF"

text \<open>The range the second byte must be in, by the first byte.\<close>

definition accept_range :: "nat \<Rightarrow> nat \<times> nat" where
  "accept_range b = (if b = 0xE0 then (0xA0, 0xBF) else if b = 0xED then (0x80, 0x9F)
     else if b = 0xF0 then (0x90, 0xBF) else if b = 0xF4 then (0x80, 0x8F) else (0x80, 0xBF))"

definition seq_len :: "nat \<Rightarrow> nat" where
  "seq_len b = (if b < 0x80 then 1 else if 0xC2 \<le> b \<and> b \<le> 0xDF then 2 else if 0xE0 \<le> b \<and> b \<le> 0xEF then 3
     else if 0xF0 \<le> b \<and> b \<le> 0xF4 then 4 else 0)"

text \<open>The rune a string starts with and its width; \<open>None\<close> when it starts with no valid encoding.\<close>

fun first_rune :: "nat list \<Rightarrow> (nat \<times> nat) option" where
  "first_rune [] = None"
| "first_rune (a # bs) =
    (if seq_len a = 1 then Some (a, 1)
     else if seq_len a = 0 then None
     else (case bs of
       [] \<Rightarrow> None
     | b # cs \<Rightarrow>
         if b < fst (accept_range a) \<or> snd (accept_range a) < b then None
         else if seq_len a = 2 then Some ((a mod 32) * 64 + b mod 64, 2)
         else (case cs of
           [] \<Rightarrow> None
         | c # ds \<Rightarrow>
             if \<not> is_cont c then None
             else if seq_len a = 3 then Some ((a mod 16) * 4096 + (b mod 64) * 64 + c mod 64, 3)
             else (case ds of
               [] \<Rightarrow> None
             | d # _ \<Rightarrow>
                 if \<not> is_cont d then None
                 else Some ((a mod 8) * 262144 + (b mod 64) * 4096 + (c mod 64) * 64 + d mod 64, 4)))))"

declare first_rune.simps(2) [simp del]

definition bytes_of :: "string \<Rightarrow> nat list" where
  "bytes_of s = map of_char s"

definition DecodeRune :: "string \<Rightarrow> nat \<times> nat" where
  "DecodeRune s = (if s = [] then (RuneError, 0) else
     (case first_rune (bytes_of s) of None \<Rightarrow> (RuneError, 1) | Some rw \<Rightarrow> rw))"

lemma first_rune_width: "first_rune bs = Some (r, w) \<Longrightarrow> 0 < w \<and> w \<le> length bs"
  by (cases bs) (auto simp: first_rune.simps split: if_splits list.splits)

lemma DecodeRune_width: "s \<noteq> [] \<Longrightarrow> 0 < snd (DecodeRune s) \<and> snd (DecodeRune s) \<le> length s"
  using first_rune_width [of "bytes_of s"]
  by (cases s) (auto simp: DecodeRune_def bytes_of_def split: option.splits)

text \<open>\<open>for _, r := range s\<close>, and whether every rune was a valid encoding.\<close>

function runes :: "string \<Rightarrow> nat list" where
  "runes s = (if s = [] then [] else (case DecodeRune s of (r, w) \<Rightarrow> r # runes (drop w s)))"
  by pat_completeness auto
termination
proof (relation "measure length")
  fix s :: string and r w
  assume a: "s \<noteq> []" "(r, w) = DecodeRune s"
  then have "0 < w" using DecodeRune_width [of s] by (cases "DecodeRune s") simp
  then show "(drop w s, s) \<in> measure length" using a(1) by simp
qed simp

function ValidString :: "string \<Rightarrow> bool" where
  "ValidString s = (if s = [] then True else (case first_rune (bytes_of s) of
     None \<Rightarrow> False | Some (r, w) \<Rightarrow> ValidString (drop w s)))"
  by pat_completeness auto
termination
  by (relation "measure length") (auto dest!: first_rune_width simp: bytes_of_def)

declare runes.simps [simp del] ValidString.simps [simp del]

definition RuneCountInString :: "string \<Rightarrow> nat" where
  "RuneCountInString s = length (runes s)"

section \<open>Encoding\<close>

definition valid_rune :: "nat \<Rightarrow> bool" where
  "valid_rune r \<longleftrightarrow> r < 0xD800 \<or> 0xE000 \<le> r \<and> r < 0x110000"

definition rune_bytes :: "nat \<Rightarrow> nat list" where
  "rune_bytes r =
    (if r < 0x80 then [r]
     else if r < 0x800 then [0xC0 + r div 64, 0x80 + r mod 64]
     else if r < 0x10000 then [0xE0 + r div 4096, 0x80 + r div 64 mod 64, 0x80 + r mod 64]
     else [0xF0 + r div 262144, 0x80 + r div 4096 mod 64, 0x80 + r div 64 mod 64, 0x80 + r mod 64])"

text \<open>\<open>AppendRune\<close>: an invalid rune is written as \<open>RuneError\<close>.\<close>

definition encode_rune :: "nat \<Rightarrow> string" where
  "encode_rune r = map char_of (rune_bytes (if valid_rune r then r else RuneError))"

definition encode :: "nat list \<Rightarrow> string" where
  "encode rs = concat (map encode_rune rs)"

section \<open>Round trips\<close>

text \<open>The digits of a number in base 64 spell it.\<close>

lemma digit64: "(n::nat) div 64 * 64 + n mod 64 = n"
  by (rule div_mult_mod_eq)

lemma digits64:
  fixes n :: nat
  shows "n div 4096 * 4096 + n div 64 mod 64 * 64 + n mod 64 = n"
    "n div 262144 * 262144 + n div 4096 mod 64 * 4096 + n div 64 mod 64 * 64 + n mod 64 = n"
proof -
  have d: "n div 4096 = n div 64 div 64" "n div 262144 = n div 4096 div 64" by (simp_all flip: div_mult2_eq)
  have a: "n div 4096 * 64 + n div 64 mod 64 = n div 64" unfolding d(1) by (rule digit64)
  have b: "n div 262144 * 64 + n div 4096 mod 64 = n div 4096" unfolding d(2) by (rule digit64)
  have c: "n div 64 * 64 + n mod 64 = n" by (rule digit64)
  show "n div 4096 * 4096 + n div 64 mod 64 * 64 + n mod 64 = n" using a c by linarith
  show "n div 262144 * 262144 + n div 4096 mod 64 * 4096 + n div 64 mod 64 * 64 + n mod 64 = n"
    using a b c by linarith
qed

lemma rune_bytes_bound: "valid_rune r \<Longrightarrow> \<forall>b \<in> set (rune_bytes r). b < 256"
  by (auto simp: rune_bytes_def valid_rune_def)

lemma lead_mod: "(a::nat) < 32 \<Longrightarrow> (192 + a) mod 32 = a" "a < 16 \<Longrightarrow> (224 + a) mod 16 = a" "a < 8 \<Longrightarrow> (240 + a) mod 8 = a"
    "(b::nat) < 64 \<Longrightarrow> (128 + b) mod 64 = b"
  using mod_mult_self1 [of a 6 32] mod_mult_self1 [of a 14 16] mod_mult_self1 [of a 30 8] mod_mult_self1 [of b 2 64]
  by (simp_all add: add.commute)

lemma first_rune_encode:
  assumes "valid_rune r"
  shows "first_rune (rune_bytes r @ bs) = Some (r, length (rune_bytes r))"
proof -
  have top: "r < 0x110000" using assms by (auto simp: valid_rune_def)
  consider "r < 0x80" | "0x80 \<le> r" "r < 0x800" | "0x800 \<le> r" "r < 0x10000" | "0x10000 \<le> r"
    by linarith
  then show ?thesis
  proof cases
    case 1
    then show ?thesis by (simp add: rune_bytes_def first_rune.simps seq_len_def)
  next
    case 2
    define a b where "a = r div 64" and "b = r mod 64"
    have r: "r = a * 64 + b" using digit64 [of r] by (simp add: a_def b_def)
    have lt: "a < 32" "b < 64" using 2 by (simp_all add: a_def b_def less_mult_imp_div_less)
    have "2 \<le> a" using 2 r lt by auto
    moreover have "rune_bytes r = [0xC0 + a, 0x80 + b]" using 2 by (simp add: rune_bytes_def a_def b_def)
    ultimately show ?thesis using lt r
      by (auto simp: lead_mod first_rune.simps seq_len_def accept_range_def)
  next
    case 3
    define a b c where "a = r div 4096" and "b = r div 64 mod 64" and "c = r mod 64"
    have r: "r = a * 4096 + b * 64 + c" using digits64(1) [of r] by (simp add: a_def b_def c_def)
    have lt: "a < 16" "b < 64" "c < 64" using 3 by (simp_all add: a_def b_def c_def less_mult_imp_div_less)
    have "a = 0 \<longrightarrow> 32 \<le> b" "a = 13 \<longrightarrow> b < 32" using 3 r lt assms by (auto simp: valid_rune_def)
    moreover have "rune_bytes r = [0xE0 + a, 0x80 + b, 0x80 + c]" using 3 by (simp add: rune_bytes_def a_def b_def c_def)
    ultimately show ?thesis using lt r
      by (auto simp: lead_mod first_rune.simps seq_len_def accept_range_def is_cont_def)
  next
    case 4
    define a b c d where "a = r div 262144" and "b = r div 4096 mod 64" and "c = r div 64 mod 64" and "d = r mod 64"
    have r: "r = a * 262144 + b * 4096 + c * 64 + d" using digits64(2) [of r] by (simp add: a_def b_def c_def d_def)
    have lt: "a < 5" "b < 64" "c < 64" "d < 64" using top by (simp_all add: a_def b_def c_def d_def less_mult_imp_div_less)
    have "a = 0 \<longrightarrow> 16 \<le> b" "a = 4 \<longrightarrow> b < 16" using 4 top r lt by auto
    moreover have "rune_bytes r = [0xF0 + a, 0x80 + b, 0x80 + c, 0x80 + d]" using 4 by (simp add: rune_bytes_def a_def b_def c_def d_def)
    ultimately show ?thesis using lt r
      by (auto simp: lead_mod first_rune.simps seq_len_def accept_range_def is_cont_def)
  qed
qed

text \<open>What decodes is the encoding of a valid rune.\<close>

lemma split_byte: "(b::nat) \<le> 0xBF \<Longrightarrow> 0x80 \<le> b \<Longrightarrow> 0x80 + b mod 64 = b"
  by (cases "b < 0xC0") (auto simp: le_mod_geq)

lemma mod_at: "0xC0 \<le> (a::nat) \<Longrightarrow> a \<le> 0xDF \<Longrightarrow> 0xC0 + a mod 32 = a" "0xE0 \<le> a \<Longrightarrow> a \<le> 0xEF \<Longrightarrow> 0xE0 + a mod 16 = a"
  "0xF0 \<le> a \<Longrightarrow> a \<le> 0xF7 \<Longrightarrow> 0xF0 + a mod 8 = a"
  by (auto simp: le_mod_geq)

lemma rune_bytes_1: "a < 0x80 \<Longrightarrow> valid_rune a \<and> rune_bytes a = [a]"
  by (simp add: valid_rune_def rune_bytes_def)

lemma rune_bytes_2:
  assumes "2 \<le> a" "a < 32" "b < 64"
  shows "valid_rune (a * 64 + b) \<and> rune_bytes (a * 64 + b) = [0xC0 + a, 0x80 + b]"
proof -
  have "(a * 64 + b) div 64 = a" "(a * 64 + b) mod 64 = b" using assms by simp_all
  then show ?thesis using assms by (simp add: valid_rune_def rune_bytes_def)
qed

lemma rune_bytes_3:
  assumes "a < 16" "b < 64" "c < 64" "a = 0 \<longrightarrow> 32 \<le> b" "a = 13 \<longrightarrow> b < 32"
  shows "valid_rune (a * 4096 + b * 64 + c) \<and> rune_bytes (a * 4096 + b * 64 + c) = [0xE0 + a, 0x80 + b, 0x80 + c]"
proof -
  let ?r = "a * 4096 + b * 64 + c"
  have "?r = c + (a * 64 + b) * 64" by simp
  then have d: "?r div 64 = a * 64 + b" "?r mod 64 = c" using assms(3) by (simp_all only: div_mult_self1 mod_mult_self1) simp_all
  then have "?r div 4096 = a" using assms(2) div_mult2_eq [of ?r 64 64] by simp
  moreover have "valid_rune ?r"
    using assms by (cases "a = 13"; cases "a < 13") (auto simp: valid_rune_def)
  moreover have "0x800 \<le> ?r" "?r < 0x10000" using assms by (cases "a = 0"; simp)+
  ultimately show ?thesis using assms(2) d by (simp add: rune_bytes_def)
qed

lemma rune_bytes_4:
  assumes "a < 5" "b < 64" "c < 64" "d < 64" "a = 0 \<longrightarrow> 16 \<le> b" "a = 4 \<longrightarrow> b < 16"
  shows "valid_rune (a * 262144 + b * 4096 + c * 64 + d)
    \<and> rune_bytes (a * 262144 + b * 4096 + c * 64 + d) = [0xF0 + a, 0x80 + b, 0x80 + c, 0x80 + d]"
proof -
  let ?r = "a * 262144 + b * 4096 + c * 64 + d"
  have "?r = d + (c + (b + a * 64) * 64) * 64" by simp
  then have d: "?r div 64 = c + (b + a * 64) * 64" "?r mod 64 = d"
    using assms(4) by (simp_all only: div_mult_self1 mod_mult_self1) simp_all
  then have e: "?r div 4096 = b + a * 64" "?r div 64 mod 64 = c"
    using assms(3) div_mult2_eq [of ?r 64 64] by (simp_all only: div_mult_self1 mod_mult_self1) simp_all
  then have f: "?r div 262144 = a" "?r div 4096 mod 64 = b" using assms(2) div_mult2_eq [of ?r 4096 64] by simp_all
  have "0x10000 \<le> ?r" "?r < 0x110000" using assms by (cases "a = 0"; cases "a = 4"; simp)+
  then show ?thesis using d e f by (simp add: rune_bytes_def valid_rune_def)
qed

lemma first_rune_Some:
  assumes "first_rune bs = Some (r, w)"
  shows "valid_rune r \<and> take w bs = rune_bytes r"
proof (cases bs)
  case (Cons a cs)
  consider "a < 0x80" | "0xC2 \<le> a" "a \<le> 0xDF" | "0xE0 \<le> a" "a \<le> 0xEF" | "0xF0 \<le> a" "a \<le> 0xF4"
    using assms Cons by (auto simp: first_rune.simps seq_len_def split: if_splits)
  then show ?thesis
  proof cases
    case 1
    then show ?thesis using assms Cons rune_bytes_1 [OF 1] by (auto simp: first_rune.simps seq_len_def)
  next
    case 2
    then obtain b ds where b: "cs = b # ds" "0x80 \<le> b" "b \<le> 0xBF" "r = (a mod 32) * 64 + b mod 64" "w = 2"
      using assms Cons by (auto simp: first_rune.simps seq_len_def accept_range_def split: if_splits list.splits)
    show ?thesis
      using rune_bytes_2 [of "a mod 32" "b mod 64"] mod_at(1) [of a] split_byte [OF b(3,2)] 2 b Cons by auto
  next
    case 3
    then obtain b c ds where b: "cs = b # c # ds" "fst (accept_range a) \<le> b" "b \<le> snd (accept_range a)" "is_cont c"
        "r = (a mod 16) * 4096 + (b mod 64) * 64 + c mod 64" "w = 3"
      using assms Cons by (auto simp: first_rune.simps seq_len_def split: if_splits list.splits)
    have "0x80 \<le> b" "b \<le> 0xBF" "a mod 16 = 0 \<longrightarrow> 32 \<le> b mod 64" "a mod 16 = 13 \<longrightarrow> b mod 64 < 32"
      using b(2,3) mod_at(2) [OF 3] split_byte [of b] by (auto simp: accept_range_def split: if_splits)
    then show ?thesis
      using rune_bytes_3 [of "a mod 16" "b mod 64" "c mod 64"] mod_at(2) [OF 3] split_byte [of b] split_byte [of c] b Cons
      by (auto simp: is_cont_def)
  next
    case 4
    then obtain b c d ds where b: "cs = b # c # d # ds" "fst (accept_range a) \<le> b" "b \<le> snd (accept_range a)" "is_cont c" "is_cont d"
        "r = (a mod 8) * 262144 + (b mod 64) * 4096 + (c mod 64) * 64 + d mod 64" "w = 4"
      using assms Cons by (auto simp: first_rune.simps seq_len_def split: if_splits list.splits)
    have "0x80 \<le> b" "b \<le> 0xBF" "a mod 8 < 5" "a mod 8 = 0 \<longrightarrow> 16 \<le> b mod 64" "a mod 8 = 4 \<longrightarrow> b mod 64 < 16"
      using b(2,3) mod_at(3) [of a] 4 split_byte [of b] by (auto simp: accept_range_def split: if_splits)
    then show ?thesis
      using rune_bytes_4 [of "a mod 8" "b mod 64" "c mod 64" "d mod 64"] mod_at(3) 4 split_byte [of b] split_byte [of c] split_byte [of d] b Cons
      by (auto simp: is_cont_def)
  qed
qed (use assms in simp)

section \<open>Strings\<close>

lemma bytes_of_simps [simp]: "bytes_of [] = []" "bytes_of (s @ t) = bytes_of s @ bytes_of t"
  "length (bytes_of s) = length s" "bytes_of s = [] \<longleftrightarrow> s = []"
  by (simp_all add: bytes_of_def)

lemma chars_bytes: "\<forall>b \<in> set bs. b < 256 \<Longrightarrow> bytes_of (map char_of bs) = bs"
  by (induction bs) (auto simp: bytes_of_def of_char_of)

lemma bytes_chars [simp]: "map char_of (bytes_of s) = s"
  by (induction s) (simp_all add: bytes_of_def char_of_char)

lemma rune_bytes_nonempty [simp]: "rune_bytes r \<noteq> []"
  by (simp add: rune_bytes_def)

lemma encode_rune_valid: "valid_rune r \<Longrightarrow> encode_rune r = map char_of (rune_bytes r)"
  by (simp add: encode_rune_def)

lemma encode_simps [simp]: "encode [] = []" "encode (r # rs) = encode_rune r @ encode rs" "encode (rs @ qs) = encode rs @ encode qs"
  by (simp_all add: encode_def)

lemma encode_rune_nonempty [simp]: "encode_rune r \<noteq> []"
  by (simp add: encode_rune_def)

lemma first_rune_encoded:
  assumes "valid_rune r"
  shows "first_rune (bytes_of (encode_rune r @ s)) = Some (r, length (encode_rune r))"
  using assms first_rune_encode [OF assms, of "bytes_of s"]
  by (simp add: encode_rune_valid chars_bytes rune_bytes_bound)

lemma runes_encode: "list_all valid_rune rs \<Longrightarrow> runes (encode rs) = rs"
proof (induction rs)
  case (Cons r rs)
  then show ?case
    using first_rune_encoded [of r "encode rs"] by (subst runes.simps) (simp add: DecodeRune_def)
qed (simp add: runes.simps)

lemma ValidString_encode: "list_all valid_rune rs \<Longrightarrow> ValidString (encode rs)"
proof (induction rs)
  case (Cons r rs)
  then show ?case
    using first_rune_encoded [of r "encode rs"] by (subst ValidString.simps) simp
qed (simp add: ValidString.simps)

lemma first_rune_prefix:
  assumes "first_rune (bytes_of s) = Some (r, w)"
  shows "valid_rune r" "take w s = encode_rune r"
proof -
  have v: "valid_rune r" "take w (bytes_of s) = rune_bytes r" using first_rune_Some [OF assms] by auto
  then show "valid_rune r" by simp
  have "take w s = map char_of (take w (bytes_of s))" by (simp flip: take_map)
  then show "take w s = encode_rune r" using v by (simp add: encode_rune_valid)
qed

lemma ValidString_runes: "ValidString s \<Longrightarrow> list_all valid_rune (runes s) \<and> encode (runes s) = s"
proof (induction s rule: ValidString.induct)
  case (1 s)
  show ?case
  proof (cases "s = []")
    case False
    then obtain r w where rw: "first_rune (bytes_of s) = Some (r, w)" "ValidString (drop w s)"
      using "1.prems" by (subst (asm) ValidString.simps) (auto split: option.splits)
    then have "runes s = r # runes (drop w s)" using False by (subst runes.simps) (simp add: DecodeRune_def)
    moreover have "list_all valid_rune (runes (drop w s)) \<and> encode (runes (drop w s)) = drop w s"
      using "1.IH" [OF False rw(1) refl rw(2)] .
    ultimately show ?thesis using first_rune_prefix [OF rw(1)] by (simp flip: first_rune_prefix(2) [OF rw(1)])
  qed (simp add: runes.simps)
qed

lemma ValidString_iff: "ValidString s \<longleftrightarrow> (\<exists>rs. list_all valid_rune rs \<and> s = encode rs)"
  by (metis ValidString_encode ValidString_runes)

section \<open>ASCII\<close>

definition ascii :: "string \<Rightarrow> bool" where
  "ascii s \<longleftrightarrow> (\<forall>c \<in> set s. (of_char c :: nat) < 128)"

lemma ascii_simps [simp]: "ascii []" "ascii (c # s) \<longleftrightarrow> (of_char c :: nat) < 128 \<and> ascii s" "ascii (s @ t) \<longleftrightarrow> ascii s \<and> ascii t"
  by (auto simp: ascii_def)

lemma ascii_runes: "ascii s \<Longrightarrow> runes s = bytes_of s \<and> ValidString s"
proof (induction s)
  case (Cons c s)
  then have "first_rune (bytes_of (c # s)) = Some (of_char c, 1)"
    by (simp add: bytes_of_def first_rune.simps seq_len_def)
  then show ?case using Cons
    by (subst runes.simps, subst ValidString.simps) (simp add: DecodeRune_def bytes_of_def)
qed (simp add: runes.simps ValidString.simps)

end
