(* ===== verification/Text_Safe.thy ===== *)
theory Text_Safe
  imports Utf8
begin

text \<open>
  The one rule for text that crosses a trust boundary (\<open>internal/textsafe/textsafe.go\<close>): which runes
  are dropped or replaced before the text is drawn or stored.
\<close>

definition IsStripped :: "nat \<Rightarrow> bool" where
  "IsStripped r \<longleftrightarrow> (if r = 9 then True
     else if r < 0x20 \<or> r = 0x7F then True
     else if 0x80 \<le> r \<and> r \<le> 0x9F then True
     else if 0x202A \<le> r \<and> r \<le> 0x202E then True
     else if 0x2066 \<le> r \<and> r \<le> 0x2069 then True
     else False)"

text \<open>\<open>strings.ContainsFunc(s, IsStripped)\<close>.\<close>

definition HasStripped :: "string \<Rightarrow> bool" where
  "HasStripped s \<longleftrightarrow> list_ex IsStripped (runes s)"

fun strip_runes :: "nat list \<Rightarrow> string" where
  "strip_runes [] = []"
| "strip_runes (r # rs) =
    (if r = 9 then CHR '' '' # strip_runes rs
     else if IsStripped r then strip_runes rs
     else encode_rune r @ strip_runes rs)"

definition Strip :: "string \<Rightarrow> string" where
  "Strip s = (if \<not> HasStripped s then s else strip_runes (runes s))"

text \<open>What the loop writes, as runes.\<close>

definition safe_runes :: "nat list \<Rightarrow> nat list" where
  "safe_runes rs = map (\<lambda>r. if r = 9 then 32 else r) (filter (\<lambda>r. r = 9 \<or> \<not> IsStripped r) rs)"

lemma strip_runes_encode: "strip_runes rs = encode (safe_runes rs)"
  by (induction rs) (auto simp: safe_runes_def encode_rune_def rune_bytes_def valid_rune_def char_of_def bit_Suc_0_iff)

lemma IsStripped_space [simp]: "\<not> IsStripped 32" "IsStripped 9"
  by (simp_all add: IsStripped_def)

lemma safe_runes_ok: "r \<in> set (safe_runes rs) \<Longrightarrow> \<not> IsStripped r"
  by (auto simp: safe_runes_def)

lemma safe_runes_valid: "list_all valid_rune rs \<Longrightarrow> list_all valid_rune (safe_runes rs)"
  by (auto simp: list_all_iff safe_runes_def valid_rune_def)

lemma safe_runes_id: "\<forall>r \<in> set rs. \<not> IsStripped r \<Longrightarrow> safe_runes rs = rs"
  by (induction rs) (auto simp: safe_runes_def IsStripped_def)

lemma HasStripped_encode: "list_all valid_rune rs \<Longrightarrow> HasStripped (encode rs) \<longleftrightarrow> (\<exists>r \<in> set rs. IsStripped r)"
  by (simp add: HasStripped_def runes_encode list_ex_iff)

lemma Strip_encode:
  assumes "list_all valid_rune rs"
  shows "Strip (encode rs) = encode (safe_runes rs)"
  using assms by (auto simp: Strip_def HasStripped_encode runes_encode strip_runes_encode safe_runes_id)



end
