(* ===== verification/Go_Strings.thy ===== *)
theory Go_Strings
  imports Utf8
begin

text \<open>
  The functions of Go's \<open>strings\<close> package several components call, on byte strings: \<open>Split\<close>, \<open>Trim\<close>,
  \<open>Join\<close>, \<open>Contains\<close>, \<open>ReplaceAll\<close> and \<open>ToLower\<close>. \<open>ulower\<close> is \<open>unicode.ToLower\<close> outside ASCII.
\<close>

text \<open>Byte by byte on ASCII, rune by rune otherwise.\<close>

definition ToLower :: "(nat \<Rightarrow> nat) \<Rightarrow> string \<Rightarrow> string" where
  "ToLower ulower s = (if ascii s then map ascii_lower s
     else encode (map (\<lambda>r. if r < 128 then of_char (ascii_lower (char_of r)) else ulower r) (runes s)))"

lemma ToLower_ascii: "ascii s \<Longrightarrow> ToLower ulower s = map ascii_lower s"
  by (simp add: ToLower_def)

text \<open>\<open>Split\<close> at one byte.\<close>

fun split_on :: "char \<Rightarrow> string \<Rightarrow> string list" where
  "split_on c [] = [[]]"
| "split_on c (x # xs) = (if x = c then [] # split_on c xs
     else case split_on c xs of [] \<Rightarrow> [[x]] | y # ys \<Rightarrow> (x # y) # ys)"

definition trim_set :: "char set \<Rightarrow> string \<Rightarrow> string" where
  "trim_set C s = rev (dropWhile (\<lambda>c. c \<in> C) (rev (dropWhile (\<lambda>c. c \<in> C) s)))"

definition join_with :: "string \<Rightarrow> string list \<Rightarrow> string" where
  "join_with sep ss = (case ss of [] \<Rightarrow> [] | s # rest \<Rightarrow> s @ concat (map (\<lambda>t. sep @ t) rest))"

fun contains :: "string \<Rightarrow> string \<Rightarrow> bool" where
  "contains sub [] \<longleftrightarrow> sub = []"
| "contains sub (c # s) \<longleftrightarrow> prefix sub (c # s) \<or> contains sub s"

text \<open>\<open>ReplaceAll\<close> for a non-empty \<open>old\<close>: one pass, left to right, not rescanning what it wrote.\<close>

function ReplaceAll :: "string \<Rightarrow> string \<Rightarrow> string \<Rightarrow> string" where
  "ReplaceAll s old new =
    (if s = [] \<or> old = [] then s
     else if prefix old s then new @ ReplaceAll (drop (length old) s) old new
     else hd s # ReplaceAll (tl s) old new)"
  by pat_completeness auto
termination
  by (relation "measure (\<lambda>(s, old, new). length s)") auto

declare ReplaceAll.simps [simp del]

lemma split_on_nonempty [simp]: "split_on c s \<noteq> []"
  by (cases s) (auto split: list.splits)

lemma split_on_none: "c \<notin> set s \<Longrightarrow> split_on c s = [s]"
  by (induction s) auto

lemma split_on_append: "c \<notin> set s \<Longrightarrow> split_on c (s @ c # t) = s # split_on c t"
  by (induction s) auto

text \<open>\<open>Split\<close> undoes \<open>Join\<close> on parts without the separator.\<close>

lemma split_join: "ss \<noteq> [] \<Longrightarrow> \<forall>s \<in> set ss. c \<notin> set s \<Longrightarrow> split_on c (join_with [c] ss) = ss"
proof (induction ss)
  case (Cons s ss)
  then show ?case
    by (cases ss) (auto simp: join_with_def split_on_none split_on_append)
qed simp

lemma contains_iff: "contains sub s \<longleftrightarrow> (\<exists>a b. s = a @ sub @ b)"
proof (induction s)
  case (Cons c s)
  show ?case
  proof
    assume "contains sub (c # s)"
    then show "\<exists>a b. c # s = a @ sub @ b" using Cons by (auto simp: prefix_def) (metis append_Cons append_Nil)+
  next
    assume "\<exists>a b. c # s = a @ sub @ b"
    then obtain a b where "c # s = a @ sub @ b" by blast
    then show "contains sub (c # s)"
    proof (cases a)
      case Nil
      then have "prefix sub (c # s)" using \<open>c # s = a @ sub @ b\<close> by (simp add: prefix_def)
      then show ?thesis by simp
    qed (use \<open>c # s = a @ sub @ b\<close> Cons in auto)
  qed
qed auto

end
