(* ===== verification/Keymap_Chord.thy ===== *)
theory Keymap_Chord
  imports Go_Strings
begin

unbundle bit_operations_syntax

text \<open>
  Key presses and binding specs (\<open>internal/keymap/chord.go\<close>, \<open>parse.go\<close>): the canonical chord and the two
  parsers. Texts are byte strings. \<open>ulower\<close> is an argument of
  \<open>ToLower\<close>.
\<close>

section \<open>Chords\<close>

type_synonym mods = "8 word"

definition ModCtrl :: mods where "ModCtrl = 1"
definition ModAlt :: mods where "ModAlt = 2"
definition ModShift :: mods where "ModShift = 4"
definition ModSuper :: mods where "ModSuper = 8"

datatype Chord = Chord (c_Mods: mods) (c_Key: string)

definition modNames :: "string \<Rightarrow> mods option" where
  "modNames = map_of [(''ctrl'', ModCtrl), (''alt'', ModAlt), (''shift'', ModShift),
     (''super'', ModSuper), (''meta'', ModSuper), (''hyper'', ModSuper)]"

definition keyAliases :: "string \<Rightarrow> string option" where
  "keyAliases = map_of [(''escape'', ''esc''), (''pageup'', ''pgup''), (''pagedown'', ''pgdown''),
     (''pgdn'', ''pgdown''), (''return'', ''enter''), (''comma'', '','')]"

datatype chord_error = Empty_chord | Not_a_modifier string | Ends_with_modifier | No_base_key | Not_utf8 | Bad_rune nat

definition bad_key_rune :: "nat \<Rightarrow> bool" where
  "bad_key_rune r \<longleftrightarrow> r < 0x20 \<or> r = 0x7F \<or> 0x80 \<le> r \<and> r \<le> 0x9F \<or> 0x202A \<le> r \<and> r \<le> 0x202E \<or> 0x2066 \<le> r \<and> r \<le> 0x2069"

definition validateBaseKey :: "string \<Rightarrow> chord_error option" where
  "validateBaseKey key = (if \<not> ValidString key then Some Not_utf8
     else map_option Bad_rune (find bad_key_rune (runes key)))"

text \<open>The loop over the modifiers: the mask and what is left of the text.\<close>

function take_mods :: "(nat \<Rightarrow> nat) \<Rightarrow> mods \<Rightarrow> string \<Rightarrow> chord_error + mods \<times> string" where
  "take_mods ulower mods rest =
    (if CHR ''+'' \<notin> set rest \<or> rest = ''+'' then Inr (mods, rest)
     else let name = takeWhile (\<lambda>c. c \<noteq> CHR ''+'') rest in
       (case modNames (ToLower ulower name) of
          None \<Rightarrow> Inl (Not_a_modifier name)
        | Some m \<Rightarrow> take_mods ulower (mods OR m) (drop (length name + 1) rest)))"
  by pat_completeness auto
termination
proof (relation "measure (\<lambda>(u, m, rest). length rest)")
  fix ulower mods m and rest name :: string
  assume "\<not> (CHR ''+'' \<notin> set rest \<or> rest = ''+'')"
  then have "rest \<noteq> []" by auto
  then show "((ulower, mods OR m, drop (length name + 1) rest), ulower, mods, rest) \<in> measure (\<lambda>(u, m, rest). length rest)"
    by (cases rest) auto
qed simp

declare take_mods.simps [simp del]

definition base_key :: "(nat \<Rightarrow> nat) \<Rightarrow> mods \<Rightarrow> string \<Rightarrow> chord_error + Chord" where
  "base_key ulower mods rest =
    (if rest = [] then Inl Ends_with_modifier
     else let k = (if RuneCountInString rest > 1 then ToLower ulower rest else rest) in
       if modNames k \<noteq> None then Inl No_base_key
       else let key = (case keyAliases k of None \<Rightarrow> k | Some a \<Rightarrow> a) in
         (case validateBaseKey key of Some e \<Rightarrow> Inl e | None \<Rightarrow> Inr (Chord mods key)))"

definition ParseChord :: "(nat \<Rightarrow> nat) \<Rightarrow> string \<Rightarrow> chord_error + Chord" where
  "ParseChord ulower s =
    (let s' = TrimSpace s in
     if s' = [] then Inl Empty_chord
     else case take_mods ulower 0 s' of Inl e \<Rightarrow> Inl e | Inr (mods, rest) \<Rightarrow> base_key ulower mods rest)"

definition mod_text :: "mods \<Rightarrow> string" where
  "mod_text m = concat (map (\<lambda>(bit, name). if m AND bit \<noteq> 0 then name else [])
     [(ModCtrl, ''ctrl+''), (ModAlt, ''alt+''), (ModShift, ''shift+''), (ModSuper, ''super+'')])"

definition chord_string :: "Chord \<Rightarrow> string" where
  "chord_string c = mod_text (c_Mods c) @ c_Key c"

section \<open>Specs\<close>

type_synonym Sequence = "Chord list"

definition seq_string :: "Sequence \<Rightarrow> string" where
  "seq_string s = join_with '' '' (map chord_string s)"

datatype spec_error = Empty_alternative | Empty_step | Bad_chord chord_error

fun parse_steps :: "(nat \<Rightarrow> nat) \<Rightarrow> string list \<Rightarrow> spec_error + Sequence" where
  "parse_steps ulower [] = Inr []"
| "parse_steps ulower (step # steps) =
    (if step = [] then Inl Empty_step
     else case ParseChord ulower step of
       Inl e \<Rightarrow> Inl (Bad_chord e)
     | Inr c \<Rightarrow> (case parse_steps ulower steps of Inl e \<Rightarrow> Inl e | Inr cs \<Rightarrow> Inr (c # cs)))"

fun parse_alts :: "(nat \<Rightarrow> nat) \<Rightarrow> string list \<Rightarrow> spec_error + Sequence list" where
  "parse_alts ulower [] = Inr []"
| "parse_alts ulower (alt # alts) =
    (let a = trim_set {CHR '' '', CHR 0x09} alt in
     if a = [] then Inl Empty_alternative
     else case parse_steps ulower (split_on (CHR '' '') a) of
       Inl e \<Rightarrow> Inl e
     | Inr s \<Rightarrow> (case parse_alts ulower alts of Inl e \<Rightarrow> Inl e | Inr ss \<Rightarrow> Inr (s # ss)))"

definition ParseSpec :: "(nat \<Rightarrow> nat) \<Rightarrow> string \<Rightarrow> spec_error + Sequence list" where
  "ParseSpec ulower spec = (if TrimSpace spec = [] then Inr [] else parse_alts ulower (split_on (CHR '','') spec))"

section \<open>Printable ASCII\<close>

definition graphic_char :: "char \<Rightarrow> bool" where
  "graphic_char c \<longleftrightarrow> (let n = of_char c :: nat in 33 \<le> n \<and> n \<le> 126)"

definition graphic :: "string \<Rightarrow> bool" where
  "graphic s \<longleftrightarrow> list_all graphic_char s"

lemma graphic_simps [simp]: "graphic []" "graphic (c # s) \<longleftrightarrow> graphic_char c \<and> graphic s" "graphic (s @ t) \<longleftrightarrow> graphic s \<and> graphic t"
  by (simp_all add: graphic_def)

lemma graphic_ascii: "graphic s \<Longrightarrow> ascii s"
  by (induction s) (auto simp: graphic_char_def Let_def)

lemma trim_left_graphic: "\<forall>w \<in> set ws. w = [] \<or> \<not> graphic_char (hd w) \<Longrightarrow> graphic s \<Longrightarrow> trim_left ws s = s"
  by (subst trim_left.simps) (cases s; auto simp: find_None_iff prefix_def neq_Nil_conv split: option.splits dest!: find_Some_iff [THEN iffD1] nth_mem)

lemma space_ends: "\<forall>ns \<in> set space_codes. ns \<noteq> [] \<and> \<not> (33 \<le> hd ns \<and> hd ns \<le> 126) \<and> \<not> (33 \<le> last ns \<and> last ns \<le> 126)"
  by (simp add: space_codes_def)

lemma TrimSpace_graphic:
  assumes "graphic s"
  shows "TrimSpace s = s"
proof -
  have "\<not> graphic_char (hd (map char_of ns)) \<and> \<not> graphic_char (hd (rev (map char_of ns)))" if "ns \<in> set space_codes" for ns
    using that space_ends space_codes_bounds by (auto simp: graphic_char_def hd_map hd_rev last_map of_char_of)
  then have "trim_left space_seqs s = s" "trim_left (map rev space_seqs) (rev s) = rev s"
    using assms by (auto intro!: trim_left_graphic simp: space_seqs_def graphic_def list_all_iff)
  then show ?thesis by (simp add: TrimSpace_def)
qed

lemma ascii_lower_graphic [simp]: "graphic_char (ascii_lower c) \<longleftrightarrow> graphic_char c"
  by (auto simp: graphic_char_def ascii_lower_def Let_def of_char_of)

lemma ascii_lower_idem [simp]: "ascii_lower (ascii_lower c) = ascii_lower c"
  by (auto simp: ascii_lower_def Let_def of_char_of)

section \<open>Canonical chords\<close>

definition key_ok :: "string \<Rightarrow> bool" where
  "key_ok k \<longleftrightarrow> k \<noteq> [] \<and> graphic k \<and> (CHR ''+'' \<notin> set k \<or> k = ''+'') \<and> modNames k = None \<and> keyAliases k = None
     \<and> (1 < length k \<longrightarrow> map ascii_lower k = k)"

definition canonical :: "Chord \<Rightarrow> bool" where
  "canonical c \<longleftrightarrow> c_Mods c < 16 \<and> key_ok (c_Key c)"

lemma take_mods_key: "CHR ''+'' \<notin> set k \<or> k = ''+'' \<Longrightarrow> take_mods ulower m k = Inr (m, k)"
  by (subst take_mods.simps) simp

lemma take_mods_name:
  assumes "CHR ''+'' \<notin> set name" "name \<noteq> []" "ascii name" "modNames (map ascii_lower name) = Some b"
  shows "take_mods ulower m (name @ CHR ''+'' # rest) = take_mods ulower (m OR b) rest"
proof -
  have "takeWhile (\<lambda>c. c \<noteq> CHR ''+'') (name @ CHR ''+'' # rest) = name"
    using assms(1) by (induction name) auto
  then show ?thesis using assms by (subst take_mods.simps) (auto simp: ToLower_ascii Cons_eq_append_conv)
qed

lemma take_mods_names:
  "take_mods ulower m (''ctrl+'' @ rest) = take_mods ulower (m OR 1) rest"
  "take_mods ulower m (''alt+'' @ rest) = take_mods ulower (m OR 2) rest"
  "take_mods ulower m (''shift+'' @ rest) = take_mods ulower (m OR 4) rest"
  "take_mods ulower m (''super+'' @ rest) = take_mods ulower (m OR 8) rest"
  using take_mods_name [of "''ctrl''" 1 ulower m rest] take_mods_name [of "''alt''" 2 ulower m rest]
    take_mods_name [of "''shift''" 4 ulower m rest] take_mods_name [of "''super''" 8 ulower m rest]
  by (simp_all add: ascii_lower_def modNames_def ModCtrl_def ModAlt_def ModShift_def ModSuper_def)

lemma small_mask: "(m :: mods) < 16 \<Longrightarrow> m \<in> set (map of_nat [0..<16])"
  by (cases m rule: word_nat_cases) (auto simp: word_less_nat_alt unat_of_nat)

lemma take_mods_text: "m < 16 \<Longrightarrow> take_mods ulower 0 (mod_text m @ k) = take_mods ulower m k"
  using small_mask [of m]
  by (auto simp: upt_conv_Cons mod_text_def ModCtrl_def ModAlt_def ModShift_def ModSuper_def take_mods_names [simplified])

lemma runes_graphic: "graphic k \<Longrightarrow> runes k = bytes_of k \<and> ValidString k"
  using ascii_runes graphic_ascii by blast

lemma validate_graphic: "graphic k \<Longrightarrow> validateBaseKey k = None"
  by (auto simp: validateBaseKey_def runes_graphic find_None_iff bytes_of_def bad_key_rune_def graphic_def list_all_iff graphic_char_def)

lemma base_key_ok: "key_ok k \<Longrightarrow> base_key ulower m k = Inr (Chord m k)"
  by (auto simp: key_ok_def base_key_def RuneCountInString_def runes_graphic graphic_ascii ToLower_ascii validate_graphic)

lemma mod_text_graphic: "graphic (mod_text m)"
  by (simp add: mod_text_def graphic_char_def)

lemma ParseChord_string:
  assumes "canonical c"
  shows "ParseChord ulower (chord_string c) = Inr c"
proof -
  have k: "key_ok (c_Key c)" "c_Mods c < 16" using assms by (simp_all add: canonical_def)
  then have "graphic (chord_string c)" "chord_string c \<noteq> []"
    by (auto simp: chord_string_def key_ok_def mod_text_graphic)
  moreover have "take_mods ulower 0 (chord_string c) = Inr (c_Mods c, c_Key c)"
    using take_mods_text [OF k(2)] k(1) by (simp add: chord_string_def key_ok_def take_mods_key)
  ultimately show ?thesis using base_key_ok [OF k(1)] by (simp add: ParseChord_def TrimSpace_graphic)
qed

lemma take_mods_Some:
  "take_mods ulower m s = Inr (m', rest) \<Longrightarrow> m < 16 \<Longrightarrow>
    m' < 16 \<and> (CHR ''+'' \<notin> set rest \<or> rest = ''+'') \<and> suffix rest s"
proof (induction ulower m s rule: take_mods.induct)
  case (1 ulower m s)
  show ?case
  proof (cases "CHR ''+'' \<notin> set s \<or> s = ''+''")
    case True
    then show ?thesis using "1.prems" by (subst (asm) take_mods.simps) auto
  next
    case False
    let ?n = "takeWhile (\<lambda>c. c \<noteq> CHR ''+'') s"
    obtain b where b: "modNames (ToLower ulower ?n) = Some b"
        "take_mods ulower (m OR b) (drop (length ?n + 1) s) = Inr (m', rest)"
      using "1.prems"(1) False by (subst (asm) take_mods.simps) (auto simp: Let_def split: option.splits)
    have "b \<in> {1, 2, 4, 8}"
      using b(1) by (auto simp: modNames_def ModCtrl_def ModAlt_def ModShift_def ModSuper_def split: if_splits)
    then have "m OR b < 16" using small_mask [OF "1.prems"(2)] by (auto simp: upt_conv_Cons)
    then show ?thesis using "1.IH" [OF False refl b(1) b(2)] by (auto intro: suffix_order.trans suffix_drop)
  qed
qed

lemma alias_targets: "key_ok ''esc''" "key_ok ''pgup''" "key_ok ''pgdown''" "key_ok ''enter''" "key_ok '',''"
  by (simp_all add: key_ok_def modNames_def keyAliases_def graphic_char_def ascii_lower_def)

lemma keyAliases_ok: "keyAliases k = Some a \<Longrightarrow> key_ok a"
  using alias_targets unfolding keyAliases_def by (elim map_of_SomeD [elim_format]) auto

lemma of_char_Char_plus: "of_char (CHR ''+'') = (43 :: nat)"
  by simp

lemma ascii_lower_plus [simp]: "CHR ''+'' = ascii_lower c \<longleftrightarrow> c = CHR ''+''"
proof -
  have "of_char (ascii_lower c) = (43::nat) \<longleftrightarrow> of_char c = (43::nat)" by (auto simp: ascii_lower_def Let_def of_char_of)
  moreover have "(of_char d :: nat) = of_char (CHR ''+'') \<longleftrightarrow> d = CHR ''+''" for d by (rule of_char_eq_iff)
  ultimately show ?thesis by (metis of_char_Char_plus)
qed

lemma ascii_lower_space [simp]: "ascii_lower c = CHR '' '' \<longleftrightarrow> c = CHR '' ''"
proof -
  have "of_char (ascii_lower c) = (32::nat) \<longleftrightarrow> of_char c = (32::nat)" by (auto simp: ascii_lower_def Let_def of_char_of)
  moreover have "(of_char d :: nat) = of_char (CHR '' '') \<longleftrightarrow> d = CHR '' ''" for d by (rule of_char_eq_iff)
  moreover have "of_char (CHR '' '') = (32::nat)" by simp
  ultimately show ?thesis by metis
qed

lemma ascii_lower_ascii [simp]: "(of_char (ascii_lower c) :: nat) < 128 \<longleftrightarrow> (of_char c :: nat) < 128"
  by (auto simp: ascii_lower_def Let_def of_char_of)

lemma validated_graphic:
  assumes "ascii k" "CHR '' '' \<notin> set k" "validateBaseKey k = None"
  shows "graphic k"
proof -
  have "graphic_char c" if c: "c \<in> set k" for c
  proof -
    have "\<not> bad_key_rune (of_char c)"
      using assms(3) ascii_runes [OF assms(1)] c by (auto simp: validateBaseKey_def find_None_iff bytes_of_def split: if_splits)
    moreover have "(of_char c :: nat) < 128" using assms(1) c by (simp add: ascii_def)
    moreover have "(of_char c :: nat) \<noteq> of_char (CHR '' '')" using assms(2) c by (metis of_char_eq_iff)
    ultimately show ?thesis by (simp add: graphic_char_def bad_key_rune_def Let_def)
  qed
  then show ?thesis by (simp add: graphic_def list_all_iff)
qed

lemma base_key_Some:
  assumes "base_key ulower m rest = Inr c" "ascii rest" "CHR '' '' \<notin> set rest" "CHR ''+'' \<notin> set rest \<or> rest = ''+''"
  shows "c_Mods c = m \<and> key_ok (c_Key c)"
proof -
  define k where "k = (if 1 < length rest then map ascii_lower rest else rest)"
  have k: "(if RuneCountInString rest > 1 then ToLower ulower rest else rest) = k"
    using assms(2) by (simp add: k_def RuneCountInString_def ascii_runes ToLower_ascii)
  note B = assms(1) [unfolded base_key_def k Let_def]
  have b: "k \<noteq> []" "modNames k = None" using B by (auto simp: k_def split: if_splits)
  have l: "1 < length k \<longrightarrow> map ascii_lower k = k" by (auto simp: k_def)
  have p: "CHR ''+'' \<notin> set k \<or> k = ''+''" using assms(4) by (auto simp: k_def dest!: sym [of "ascii_lower _"])
  show ?thesis
  proof (cases "keyAliases k")
    case None
    then have v: "validateBaseKey k = None" "c = Chord m k" using B b by (auto split: if_splits option.splits)
    have "ascii k" "CHR '' '' \<notin> set k" using assms(2,3) by (auto simp: k_def ascii_def dest!: sym [of "CHR '' ''"])
    then have "graphic k" using v(1) by (rule validated_graphic)
    then show ?thesis using b l p None v(2) by (simp add: key_ok_def)
  next
    case (Some a)
    then show ?thesis using B b keyAliases_ok [OF Some] by (auto split: if_splits option.splits)
  qed
qed

lemma set_trim_left: "set (trim_left ws s) \<subseteq> set s"
proof (induction ws s rule: trim_left.induct)
  case (1 ws s)
  then show ?case by (subst trim_left.simps) (auto split: option.splits dest: in_set_dropD)
qed

lemma set_TrimSpace: "set (TrimSpace s) \<subseteq> set s"
  using set_trim_left [of "map rev space_seqs" "rev (trim_left space_seqs s)"] set_trim_left [of space_seqs s]
  by (auto simp: TrimSpace_def)

text \<open>A chord parsed from ASCII without a space, as the steps of a spec are, is canonical.\<close>

lemma ParseChord_canonical:
  assumes "ParseChord ulower s = Inr c" "ascii s" "CHR '' '' \<notin> set s"
  shows "canonical c"
proof -
  obtain m rest where m: "take_mods ulower 0 (TrimSpace s) = Inr (m, rest)" "base_key ulower m rest = Inr c"
    using assms(1) by (auto simp: ParseChord_def Let_def split: if_splits sum.splits)
  have t: "m < 16" "CHR ''+'' \<notin> set rest \<or> rest = ''+''" "suffix rest (TrimSpace s)" using take_mods_Some [OF m(1)] by auto
  have "set rest \<subseteq> set s" using t(3) set_TrimSpace [of s] by (auto simp: suffix_def)
  then have "ascii rest" "CHR '' '' \<notin> set rest" using assms(2,3) by (auto simp: ascii_def)
  then show ?thesis using base_key_Some [OF m(2)] t by (simp add: canonical_def)
qed

lemma chord_string_inj: "canonical c \<Longrightarrow> canonical d \<Longrightarrow> chord_string c = chord_string d \<Longrightarrow> c = d"
  by (metis ParseChord_string sum.inject(2))

section \<open>Sequences\<close>

definition seq_ok :: "Sequence \<Rightarrow> bool" where
  "seq_ok q \<longleftrightarrow> q \<noteq> [] \<and> list_all canonical q"

lemma set_split_on: "t \<in> set (split_on c s) \<Longrightarrow> set t \<subseteq> set s - {c}"
proof (induction s arbitrary: t)
  case (Cons x xs)
  obtain y ys where y: "split_on c xs = y # ys" by (cases "split_on c xs") simp_all
  then have "set y \<subseteq> set xs - {c}" "\<And>u. u \<in> set ys \<Longrightarrow> set u \<subseteq> set xs - {c}" using Cons.IH by auto
  then show ?case using Cons.prems y by (auto split: if_splits)
qed simp

lemma parse_steps_ok:
  "parse_steps ulower steps = Inr q \<Longrightarrow> \<forall>t \<in> set steps. ascii t \<and> CHR '' '' \<notin> set t \<Longrightarrow>
    list_all canonical q \<and> length q = length steps"
  by (induction steps arbitrary: q) (auto split: if_splits sum.splits dest: ParseChord_canonical)

lemma set_trim_set: "set (trim_set C s) \<subseteq> set s"
  by (auto simp: trim_set_def dest!: set_dropWhileD)

lemma parse_alts_ok:
  "parse_alts ulower alts = Inr qs \<Longrightarrow> \<forall>t \<in> set alts. ascii t \<Longrightarrow> list_all seq_ok qs"
proof (induction alts arbitrary: qs)
  case (Cons alt alts)
  let ?a = "trim_set {CHR '' '', CHR 0x09} alt"
  obtain q ss where q: "parse_steps ulower (split_on (CHR '' '') ?a) = Inr q" "parse_alts ulower alts = Inr ss" "qs = q # ss"
    using Cons.prems(1) by (auto simp: Let_def split: if_splits sum.splits)
  have "ascii t \<and> CHR '' '' \<notin> set t" if "t \<in> set (split_on (CHR '' '') ?a)" for t
    using set_split_on [OF that] set_trim_set [of "{CHR '' '', CHR 0x09}" alt] Cons.prems(2) by (auto simp: ascii_def)
  then have "list_all canonical q \<and> length q = length (split_on (CHR '' '') ?a)" using parse_steps_ok [OF q(1)] by blast
  then have "seq_ok q" by (auto simp: seq_ok_def)
  then show ?case using Cons.IH [OF q(2)] Cons.prems(2) q(3) by simp
qed simp

lemma ParseSpec_ok: "ParseSpec ulower spec = Inr qs \<Longrightarrow> ascii spec \<Longrightarrow> list_all seq_ok qs"
  using parse_alts_ok [of ulower "split_on (CHR '','') spec" qs] set_split_on [of _ "CHR '',''" spec]
  by (fastforce simp: ParseSpec_def ascii_def split: if_splits)

lemma canonical_graphic: "canonical c \<Longrightarrow> graphic (chord_string c) \<and> chord_string c \<noteq> []"
  by (auto simp: chord_string_def canonical_def key_ok_def mod_text_graphic)

lemma graphic_no_space: "graphic s \<Longrightarrow> CHR '' '' \<notin> set s"
  by (auto simp: graphic_def list_all_iff graphic_char_def)

lemma map_chord_inj: "list_all canonical p \<Longrightarrow> list_all canonical q \<Longrightarrow> map chord_string p = map chord_string q \<Longrightarrow> p = q"
  using chord_string_inj by (intro map_inj_on [of chord_string]) (auto simp: inj_on_def list_all_iff)

lemma seq_string_inj:
  assumes "seq_ok p" "seq_ok q" "seq_string p = seq_string q"
  shows "p = q"
proof -
  have "split_on (CHR '' '') (seq_string s) = map chord_string s" if "seq_ok s" for s
    unfolding seq_string_def using that canonical_graphic graphic_no_space
    by (intro split_join) (auto simp: seq_ok_def list_all_iff)
  then have "map chord_string p = map chord_string q" using assms by metis
  then show ?thesis using assms(1,2) map_chord_inj by (auto simp: seq_ok_def)
qed

lemma seq_string_single [simp]: "seq_string [c] = chord_string c"
  by (simp add: seq_string_def join_with_def)

end
