(* ===== verification/Keymap_Build.thy ===== *)
theory Keymap_Build
  imports Keymap_Chord "HOL-Library.AList" "HOL-Library.List_Lexorder" "HOL-Library.Char_ord" "HOL-Library.Product_Lexorder"
begin

text \<open>
  From binding specs to the lookup tables (\<open>internal/keymap/action.go\<close>, \<open>resolve.go\<close>, \<open>keymap.go\<close>,
  \<open>conflict.go\<close>): the action registry, the layers, the rule for a binding that a longer one makes
  unreachable, and the tables. A Go map is an association list with distinct keys, in the order a range
  loop visits it. An error's text is the error value.
\<close>

section \<open>The action registry\<close>

datatype Tier = TierEarly | TierLate

record Action =
  a_ID :: string
  a_Label :: string
  a_Group :: string
  a_Tier :: Tier
  a_Order :: nat
  a_Default :: string
  a_Hidden :: bool

definition mk_action :: "string \<Rightarrow> string \<Rightarrow> string \<Rightarrow> Tier \<Rightarrow> nat \<Rightarrow> string \<Rightarrow> bool \<Rightarrow> Action" where
  "mk_action i l g t r d h = \<lparr>a_ID = i, a_Label = l, a_Group = g, a_Tier = t, a_Order = r, a_Default = d, a_Hidden = h\<rparr>"

definition registry :: "Action list" where
  "registry = [
    mk_action ''notification.toggle'' ''Toggle notification sidebar'' ''Notifications'' TierEarly 100 ''alt+n'' False,
    mk_action ''sidebar.toggle'' ''Toggle project sidebar'' ''Projects'' TierEarly 200 ''alt+shift+s'' False,
    mk_action ''notification.focus'' ''Focus notification sidebar'' ''Notifications'' TierEarly 300 ''f3'' False,
    mk_action ''pane.go_back'' ''Pane history back'' ''Panes'' TierEarly 400 ''alt+backspace'' False,
    mk_action ''pane.mute'' ''Mute / unmute pane notifications'' ''Panes'' TierEarly 500 ''alt+m'' False,
    mk_action ''pane.toggle_eager'' ''Toggle eager restore (active pane)'' ''Panes'' TierEarly 600 ''alt+shift+e'' False,
    mk_action ''pane.toggle_wrap'' ''Toggle preview soft-wrap (AI pane)'' ''Panes'' TierEarly 700 ''alt+shift+w'' False,
    mk_action ''pane.toggle_lazygit'' ''Toggle lazygit overlay for current repo'' ''Panes'' TierEarly 800 ''alt+g'' False,
    mk_action ''pane.toggle_hunk'' ''Toggle hunk (diff review) overlay for current repo'' ''Panes'' TierEarly 850 ''alt+d'' False,
    mk_action ''pane.toggle_yazi'' ''Toggle yazi (file manager) overlay for current directory'' ''Panes'' TierEarly 870 ''alt+shift+f,alt+F'' False,
    mk_action ''pane.command_history'' ''Open pane input history'' ''Panes'' TierEarly 900 ''alt+shift+i'' False,
    mk_action ''pane.quick_actions'' ''Pane context menu (also mouse right-click)'' ''Panes'' TierEarly 1000 ''alt+a'' False,
    mk_action ''project.new'' ''New project'' ''Projects'' TierEarly 1100 ''alt+shift+n'' False,
    mk_action ''project.destroy'' ''Remove active project (destroy / disconnect)'' ''Projects'' TierEarly 1200 ''alt+shift+x'' False,
    mk_action ''project.picker'' ''Project picker (fuzzy-find by name)'' ''Projects'' TierEarly 1300 ''alt+p'' False,
    mk_action ''project.next'' ''Next project'' ''Projects'' TierEarly 1400 ''alt+shift+right'' False,
    mk_action ''project.prev'' ''Previous project'' ''Projects'' TierEarly 1500 ''alt+shift+left'' False,
    mk_action ''project.toggle'' ''Bounce to the previous project'' ''Projects'' TierEarly 1600 ''alt+o'' False,
    mk_action ''project.attention_queue'' ''Jump to the agent blocked longest'' ''Projects'' TierEarly 1700 ''alt+shift+a'' False,
    mk_action ''project.move_up'' ''Move project up'' ''Projects'' TierEarly 1800 ''alt+shift+up'' False,
    mk_action ''project.move_down'' ''Move project down'' ''Projects'' TierEarly 1900 ''alt+shift+down'' False,
    mk_action ''client.take_control'' ''Take control (size master)'' ''System'' TierEarly 1950 [] False,
    mk_action ''app.quit'' ''Quit'' ''System'' TierLate 2000 ''ctrl+q'' False,
    mk_action ''tab.new'' ''New tab'' ''Tabs'' TierLate 2100 ''ctrl+t'' False,
    mk_action ''pane.close'' ''Close pane'' ''Panes'' TierLate 2200 ''ctrl+w'' False,
    mk_action ''pane.restart'' ''Restart pane process (sessions resume)'' ''Panes'' TierLate 2300 ''alt+r'' False,
    mk_action ''tab.close'' ''Close tab'' ''Tabs'' TierLate 2400 ''alt+w'' False,
    mk_action ''pane.split_h'' ''Split side-by-side'' ''Panes'' TierLate 2500 ''alt+shift+h'' False,
    mk_action ''pane.split_v'' ''Split top/bottom'' ''Panes'' TierLate 2600 ''alt+shift+v'' False,
    mk_action ''tab.rename'' ''Rename tab'' ''Tabs'' TierLate 2700 ''f2'' False,
    mk_action ''pane.rename'' ''Rename pane'' ''Panes'' TierLate 2800 ''alt+f2,alt+shift+r'' False,
    mk_action ''tab.cycle_color'' ''Cycle tab color'' ''Tabs'' TierLate 2900 ''alt+c'' False,
    mk_action ''app.redraw'' ''Force screen redraw'' ''System'' TierLate 3000 ''alt+shift+l'' False,
    mk_action ''pane.scroll_page_up'' ''Scroll page up'' ''Panes'' TierLate 3100 ''alt+pgup'' False,
    mk_action ''pane.scroll_page_down'' ''Scroll page down'' ''Panes'' TierLate 3200 ''alt+pgdown'' False,
    mk_action ''pane.next'' ''Next pane'' ''Pane navigation'' TierLate 3300 [] False,
    mk_action ''pane.prev'' ''Previous pane'' ''Pane navigation'' TierLate 3400 [] False,
    mk_action ''pane.left'' ''Focus pane left'' ''Pane navigation'' TierLate 3500 ''alt+left'' False,
    mk_action ''pane.right'' ''Focus pane right'' ''Pane navigation'' TierLate 3600 ''alt+right'' False,
    mk_action ''pane.up'' ''Focus pane up'' ''Pane navigation'' TierLate 3700 ''alt+up'' False,
    mk_action ''pane.down'' ''Focus pane down'' ''Pane navigation'' TierLate 3800 ''alt+down'' False,
    mk_action ''pane.paste'' ''Paste clipboard'' ''Panes'' TierLate 3900 ''ctrl+v'' False,
    mk_action ''pane.focus_toggle'' ''Toggle focus mode'' ''Panes'' TierLate 4000 ''ctrl+e'' False,
    mk_action ''pane.notes_toggle'' ''Toggle pane notes'' ''Panes'' TierLate 4100 ''alt+e'' False,
    mk_action ''app.command_palette'' ''Command palette (fuzzy-find any action)'' ''System'' TierLate 4200 ''alt+shift+p'' False,
    mk_action ''json.transform'' ''Transform selection as JSON'' ''System'' TierLate 4300 ''ctrl+j'' True,
    mk_action ''tab.next'' ''Next tab'' ''Tabs'' TierLate 4400 [] False,
    mk_action ''tab.prev'' ''Previous tab'' ''Tabs'' TierLate 4500 [] False,
    mk_action ''tab.move_left'' ''Move tab left'' ''Tabs'' TierLate 4520 ''alt+shift+pgup'' False,
    mk_action ''tab.move_right'' ''Move tab right'' ''Tabs'' TierLate 4540 ''alt+shift+pgdown'' False,
    mk_action ''tab.switch_1'' ''Switch to tab 1'' ''Tabs'' TierLate 4600 ''alt+1'' False,
    mk_action ''tab.switch_2'' ''Switch to tab 2'' ''Tabs'' TierLate 4700 ''alt+2'' False,
    mk_action ''tab.switch_3'' ''Switch to tab 3'' ''Tabs'' TierLate 4800 ''alt+3'' False,
    mk_action ''tab.switch_4'' ''Switch to tab 4'' ''Tabs'' TierLate 4900 ''alt+4'' False,
    mk_action ''tab.switch_5'' ''Switch to tab 5'' ''Tabs'' TierLate 5000 ''alt+5'' False,
    mk_action ''tab.switch_6'' ''Switch to tab 6'' ''Tabs'' TierLate 5100 ''alt+6'' False,
    mk_action ''tab.switch_7'' ''Switch to tab 7'' ''Tabs'' TierLate 5200 ''alt+7'' False,
    mk_action ''tab.switch_8'' ''Switch to tab 8'' ''Tabs'' TierLate 5300 ''alt+8'' False,
    mk_action ''tab.switch_9'' ''Switch to tab 9'' ''Tabs'' TierLate 5400 ''alt+9'' False,
    mk_action ''system.shortcuts'' ''Show keyboard shortcuts'' ''System'' TierLate 5500 [] False,
    mk_action ''tab.layout_even'' (''Even out the active tab'' @ CHR 0x27 # ''s panes'') ''Tabs'' TierLate 5600 [] False,
    mk_action ''tab.layout_columns'' ''Arrange the active tab as columns'' ''Tabs'' TierLate 5700 [] False,
    mk_action ''tab.layout_rows'' ''Arrange the active tab as rows'' ''Tabs'' TierLate 5800 [] False,
    mk_action ''tab.layout_grid'' ''Arrange the active tab as a grid'' ''Tabs'' TierLate 5900 [] False,
    mk_action ''tab.layout_main'' ''Arrange the active tab as main + stack'' ''Tabs'' TierLate 6000 [] False,
    mk_action ''tab.layout_spiral'' ''Arrange the active tab as a spiral'' ''Tabs'' TierLate 6100 [] False,
    mk_action ''project.group_toggle'' (''Collapse or expand the active project'' @ CHR 0x27 # ''s group'') ''Projects'' TierLate 6200 [] False,
    mk_action ''project.groups_collapse_all'' ''Collapse every project group (expand all when all are collapsed)'' ''Projects'' TierLate 6300 [] False]"

definition Lookup :: "string \<Rightarrow> Action option" where
  "Lookup i = map_of (rev (map (\<lambda>a. (a_ID a, a)) registry)) i"

type_synonym specs = "(string \<times> string) list"

definition DefaultLayer :: specs where
  "DefaultLayer = foldl (\<lambda>m a. AList.update (a_ID a) (a_Default a) m) [] registry"

section \<open>Conflicts\<close>

datatype ConflictKind = ConflictDuplicate | ConflictCrossTier | ConflictHardcoded | ConflictMalformed
  | ConflictUnknownAction | ConflictShadowed | ConflictPrefixInvalid

fun kind_code :: "ConflictKind \<Rightarrow> nat" where
  "kind_code ConflictDuplicate = 0"
| "kind_code ConflictCrossTier = 1"
| "kind_code ConflictHardcoded = 2"
| "kind_code ConflictMalformed = 3"
| "kind_code ConflictUnknownAction = 4"
| "kind_code ConflictShadowed = 5"
| "kind_code ConflictPrefixInvalid = 6"

datatype prefix_error = Prefix_unset | Prefix_comma | Prefix_space | Prefix_chord chord_error

datatype detail = No_detail | Spec_detail spec_error | Prefix_detail prefix_error

datatype Conflict = Conflict (cf_Kind: ConflictKind) (cf_Key: string) (cf_Winner: string) (cf_Loser: string) (cf_Detail: detail)

datatype hardcodedPos = afterBothTiers | betweenTiers

definition hardcodedKeys :: "string \<Rightarrow> (hardcodedPos \<times> string) option" where
  "hardcodedKeys = map_of (
     [(''f1'', afterBothTiers, ''help''), (''ctrl+n'', afterBothTiers, ''new pane''),
      (''ctrl+alt+v'', afterBothTiers, ''paste''), (''f8'', afterBothTiers, ''paste'')]
     @ map (\<lambda>dir. (''shift+'' @ dir, betweenTiers, ''text selection'')) [''left'', ''right'', ''up'', ''down'']
     @ map (\<lambda>dir. (''ctrl+shift+'' @ dir, betweenTiers, ''text selection'')) [''left'', ''right'']
     @ map (\<lambda>dir. (''ctrl+alt+shift+'' @ dir, betweenTiers, ''text selection'')) [''left'', ''right''])"

definition tierOf :: "string \<Rightarrow> Tier" where
  "tierOf i = (case Lookup i of Some a \<Rightarrow> a_Tier a | None \<Rightarrow> TierLate)"

section \<open>Layers\<close>

definition add_layer :: "nat \<times> specs \<Rightarrow> specs \<times> (string \<times> nat) list \<Rightarrow> specs \<times> (string \<times> nat) list" where
  "add_layer = (\<lambda>(i, layer) st. foldl (\<lambda>(merged, origin) (ident, spec). (AList.update ident spec merged, AList.update ident i origin)) st layer)"

definition resolveWithOrigin :: "specs list \<Rightarrow> specs \<times> (string \<times> nat) list" where
  "resolveWithOrigin layers = fold add_layer (enumerate 0 layers) ([], [])"

definition Resolve :: "specs list \<Rightarrow> specs" where
  "Resolve layers = fst (resolveWithOrigin layers)"

definition layerOf :: "(string \<times> nat) list option \<Rightarrow> string \<Rightarrow> nat" where
  "layerOf origin i = (case origin of None \<Rightarrow> 0 | Some m \<Rightarrow> (case map_of m i of None \<Rightarrow> 0 | Some k \<Rightarrow> k))"

section \<open>Shadowing\<close>

type_synonym parsedBinding = "Action \<times> Sequence list"

definition isProperPrefix :: "Sequence \<Rightarrow> Sequence \<Rightarrow> bool" where
  "isProperPrefix short long = (if short = [] \<or> length short \<ge> length long then False
     else list_all (\<lambda>i. short ! i = long ! i) [0..<length short])"

text \<open>One alternative of one binding: its place, its action's identifier, its chords.\<close>

datatype alt = Alt (e_ref: "nat \<times> nat") (e_id: string) (e_seq: Sequence)

definition alternatives :: "parsedBinding list \<Rightarrow> alt list" where
  "alternatives parsed = concat (map (\<lambda>(bi, a, seqs). map (\<lambda>(si, seq). Alt (bi, si) (a_ID a) seq) (enumerate 0 seqs)) (enumerate 0 parsed))"

definition shadow_pair :: "(string \<Rightarrow> nat) \<Rightarrow> alt \<Rightarrow> alt \<Rightarrow> (nat \<times> nat) list \<times> Conflict list \<Rightarrow> (nat \<times> nat) list \<times> Conflict list" where
  "shadow_pair layer short long st =
    (if fst (e_ref short) = fst (e_ref long) then st
     else if \<not> isProperPrefix (e_seq short) (e_seq long) then st
     else let (loser, winnerID) = (if layer (e_id short) > layer (e_id long) then (long, e_id short) else (short, e_id long)) in
       if e_ref loser \<in> set (fst st) then st
       else (fst st @ [e_ref loser], snd st @ [Conflict ConflictShadowed (seq_string (e_seq loser)) winnerID (e_id loser) No_detail]))"

definition shadow_scan :: "(string \<Rightarrow> nat) \<Rightarrow> alt list \<Rightarrow> (nat \<times> nat) list \<times> Conflict list" where
  "shadow_scan layer all = foldl (\<lambda>st (short, long). shadow_pair layer short long st) ([], []) (List.product all all)"

definition keep_alts :: "(nat \<times> nat) list \<Rightarrow> parsedBinding list \<Rightarrow> parsedBinding list" where
  "keep_alts dropped parsed = map (\<lambda>(bi, a, seqs). (a, map snd (filter (\<lambda>(si, seq). (bi, si) \<notin> set dropped) (enumerate 0 seqs)))) (enumerate 0 parsed)"

definition resolveShadowing :: "parsedBinding list \<Rightarrow> (string \<times> nat) list option \<Rightarrow> parsedBinding list \<times> Conflict list" where
  "resolveShadowing parsed origin =
    (let all = alternatives parsed; (dropped, out) = shadow_scan (layerOf origin) all in
     if dropped = [] then (parsed, [])
     else let survives = (\<lambda>i. list_ex (\<lambda>e. e_ref e \<notin> set dropped \<and> e_id e = i) all) in
       (keep_alts dropped parsed,
        sort_key (\<lambda>c. (cf_Key c, cf_Loser c))
          (map (\<lambda>c. if cf_Winner c \<noteq> [] \<and> \<not> survives (cf_Winner c) then Conflict (cf_Kind c) (cf_Key c) [] (cf_Loser c) (cf_Detail c) else c) out)))"

section \<open>The tables\<close>

record Keymap =
  km_early :: "(string \<times> string) list"
  km_late :: "(string \<times> string) list"
  km_bindings :: "(string \<times> Sequence list) list"
  km_seqs :: "(string \<times> string) list"
  km_partial :: "(string \<times> string) list"

definition km_chords :: "Keymap \<Rightarrow> Tier \<Rightarrow> (string \<times> string) list" where
  "km_chords km t = (case t of TierEarly \<Rightarrow> km_early km | TierLate \<Rightarrow> km_late km)"

definition emptyKeymap :: Keymap where
  "emptyKeymap = \<lparr>km_early = [], km_late = [], km_bindings = [], km_seqs = [], km_partial = []\<rparr>"

definition add_new :: "string \<Rightarrow> string \<Rightarrow> (string \<times> string) list \<Rightarrow> (string \<times> string) list" where
  "add_new k v m = (if map_of m k = None then m @ [(k, v)] else m)"

definition add_partials :: "string \<Rightarrow> Sequence \<Rightarrow> (string \<times> string) list \<Rightarrow> (string \<times> string) list" where
  "add_partials i seq m = foldl (\<lambda>m n. add_new (seq_string (take n seq)) i m) m [1..<length seq]"

definition insert_alt :: "Action \<Rightarrow> Keymap \<times> Conflict list \<Rightarrow> Sequence \<Rightarrow> Keymap \<times> Conflict list" where
  "insert_alt a st seq =
    (if length seq > 1 then
       (let full = seq_string seq in
        case map_of (km_seqs (fst st)) full of
          Some prev \<Rightarrow> (fst st, snd st @ [Conflict ConflictDuplicate full prev (a_ID a) No_detail])
        | None \<Rightarrow> ((fst st)\<lparr>km_seqs := km_seqs (fst st) @ [(full, a_ID a)],
                          km_partial := add_partials (a_ID a) seq (km_partial (fst st))\<rparr>, snd st))
     else
       (let key = chord_string (hd seq) in
        case map_of (km_chords (fst st) (a_Tier a)) key of
          Some prev \<Rightarrow> (fst st, snd st @ [Conflict ConflictDuplicate key prev (a_ID a) No_detail])
        | None \<Rightarrow> ((case a_Tier a of
              TierEarly \<Rightarrow> (fst st)\<lparr>km_early := km_early (fst st) @ [(key, a_ID a)]\<rparr>
            | TierLate \<Rightarrow> (fst st)\<lparr>km_late := km_late (fst st) @ [(key, a_ID a)]\<rparr>), snd st)))"

definition insert_binding :: "Keymap \<times> Conflict list \<Rightarrow> parsedBinding \<Rightarrow> Keymap \<times> Conflict list" where
  "insert_binding st pb = (case pb of (a, seqs) \<Rightarrow>
     if seqs = [] then st
     else foldl (insert_alt a) ((fst st)\<lparr>km_bindings := km_bindings (fst st) @ [(a_ID a, seqs)]\<rparr>, snd st) seqs)"

definition detectShadowing :: "Keymap \<Rightarrow> Conflict list" where
  "detectShadowing km = sort_key (\<lambda>c. (cf_Key c, kind_code (cf_Kind c), cf_Loser c))
     (List.map_filter (\<lambda>(key, lateID). map_option (\<lambda>earlyID. Conflict ConflictCrossTier key earlyID lateID No_detail)
         (map_of (km_early km) key)) (km_late km)
      @ List.map_filter (\<lambda>(key, i). map_option (\<lambda>_. Conflict ConflictHardcoded key [] i No_detail) (hardcodedKeys key))
         (km_early km @ km_late km))"

definition parse_binding :: "(nat \<Rightarrow> nat) \<Rightarrow> specs \<Rightarrow> Action \<Rightarrow> Sequence list \<times> Conflict list" where
  "parse_binding ulower specs a = (case ParseSpec ulower (the (map_of specs (a_ID a))) of
     Inr seqs \<Rightarrow> (seqs, [])
   | Inl e \<Rightarrow> ((case ParseSpec ulower (a_Default a) of Inr seqs \<Rightarrow> seqs | Inl _ \<Rightarrow> []),
       [Conflict ConflictMalformed (a_Default a) [] (a_ID a) (Spec_detail e)]))"

definition buildWithOrigin :: "(nat \<Rightarrow> nat) \<Rightarrow> specs \<Rightarrow> (string \<times> nat) list option \<Rightarrow> Keymap \<times> Conflict list" where
  "buildWithOrigin ulower specs origin =
    (let resolved = sort_key a_Order (List.map_filter (\<lambda>(i, _). Lookup i) specs);
         unknown = sort (map fst (filter (\<lambda>(i, _). Lookup i = None) specs));
         unknown_conflicts = map (\<lambda>i. Conflict ConflictUnknownAction (the (map_of specs i)) [] i No_detail) unknown;
         parses = map (\<lambda>a. (a, parse_binding ulower specs a)) resolved;
         parsed = List.map_filter (\<lambda>(a, seqs, _). if seqs = [] then None else Some (a, seqs)) parses;
         parse_conflicts = concat (map (\<lambda>(a, _, cs). cs) parses);
         (kept, shadow_conflicts) = resolveShadowing parsed origin;
         (km, insert_conflicts) = foldl insert_binding (emptyKeymap, []) kept
     in (km, unknown_conflicts @ parse_conflicts @ shadow_conflicts @ insert_conflicts @ detectShadowing km))"

definition Build :: "(nat \<Rightarrow> nat) \<Rightarrow> specs \<Rightarrow> Keymap \<times> Conflict list" where
  "Build ulower specs = buildWithOrigin ulower specs None"

definition BuildLayered :: "(nat \<Rightarrow> nat) \<Rightarrow> specs list \<Rightarrow> Keymap \<times> Conflict list" where
  "BuildLayered ulower layers = (case resolveWithOrigin layers of (merged, origin) \<Rightarrow> buildWithOrigin ulower merged (Some origin))"

end
