(* ===== verification/Keymap_Match.thy ===== *)
theory Keymap_Match
  imports Keymap_Build
begin

text \<open>
  The readers of a keymap: the lookups (\<open>internal/keymap/keymap.go\<close>, \<open>sequence.go\<close>), prefix expansion and
  the layering of a user's settings (\<open>prefix.go\<close>, \<open>settings.go\<close>, \<open>preset.go\<close>), the browser's view
  (\<open>web.go\<close>), and the machine that collects the chords of a sequence key by key (\<open>stepSequence\<close> of
  \<open>internal/tui/model.go\<close>). The shipped preset files are an argument: TOML is a third-party package.
\<close>

section \<open>Lookups\<close>

datatype MatchKind = MatchNone | MatchPartial | MatchExact

definition MatchSeq :: "Keymap \<Rightarrow> Sequence \<Rightarrow> string \<times> MatchKind" where
  "MatchSeq k pending =
    (if pending = [] then ([], MatchNone)
     else let key = seq_string pending in
       case map_of (km_seqs k) key of
         Some i \<Rightarrow> (i, MatchExact)
       | None \<Rightarrow>
           (case (if length pending = 1 then (case map_of (km_early k) key of Some i \<Rightarrow> Some i | None \<Rightarrow> map_of (km_late k) key) else None) of
              Some i \<Rightarrow> (i, MatchExact)
            | None \<Rightarrow> (case map_of (km_partial k) key of Some i \<Rightarrow> (i, MatchPartial) | None \<Rightarrow> ([], MatchNone))))"

definition MatchTier :: "(nat \<Rightarrow> nat) \<Rightarrow> Keymap \<Rightarrow> Tier \<Rightarrow> string \<Rightarrow> string option" where
  "MatchTier ulower k t key = (case ParseChord ulower key of
     Inl _ \<Rightarrow> None | Inr c \<Rightarrow> map_of (km_chords k t) (chord_string c))"

definition Bindings :: "Keymap \<Rightarrow> string \<Rightarrow> Sequence list" where
  "Bindings k i = (case map_of (km_bindings k) i of None \<Rightarrow> [] | Some ss \<Rightarrow> ss)"

definition Keys :: "Keymap \<Rightarrow> string \<Rightarrow> string list" where
  "Keys k i = map seq_string (Bindings k i)"

definition Display :: "Keymap \<Rightarrow> string \<Rightarrow> string" where
  "Display k i = join_with '' / '' (Keys k i)"

section \<open>The prefix variable\<close>

definition prefixVar :: string where "prefixVar = ''${prefix}''"

definition validatePrefix :: "(nat \<Rightarrow> nat) \<Rightarrow> string \<Rightarrow> prefix_error + string" where
  "validatePrefix ulower p =
    (if TrimSpace p = [] then Inl Prefix_unset
     else if contains '','' p then Inl Prefix_comma
     else if contains '' '' (TrimSpace p) then Inl Prefix_space
     else case ParseChord ulower p of Inl e \<Rightarrow> Inl (Prefix_chord e) | Inr c \<Rightarrow> Inr (chord_string c))"

text \<open>One entry of the range loop: what it adds to the map and to the conflicts.\<close>

definition expand_entry :: "prefix_error + string \<Rightarrow> string \<times> string \<Rightarrow> specs \<times> Conflict list \<Rightarrow> specs \<times> Conflict list" where
  "expand_entry canonical_prefix entry st = (case entry of (i, spec) \<Rightarrow>
     if \<not> contains prefixVar spec then (AList.update i spec (fst st), snd st)
     else case canonical_prefix of
       Inl e \<Rightarrow> if Lookup i = None then (AList.update i spec (fst st), snd st)
         else (fst st, snd st @ [Conflict ConflictPrefixInvalid spec [] i (Prefix_detail e)])
     | Inr p \<Rightarrow> (AList.update i (ReplaceAll spec prefixVar p) (fst st), snd st))"

definition ExpandPrefix :: "(nat \<Rightarrow> nat) \<Rightarrow> specs \<Rightarrow> string \<Rightarrow> specs \<times> Conflict list" where
  "ExpandPrefix ulower specs p = (if specs = [] then ([], [])
     else foldl (\<lambda>st entry. expand_entry (validatePrefix ulower p) entry st) ([], []) specs)"

text \<open>Whether \<open>PrefixWarning\<close> has something to say.\<close>

definition PrefixWarning :: "(nat \<Rightarrow> nat) \<Rightarrow> string \<Rightarrow> bool" where
  "PrefixWarning ulower p = (case ParseChord ulower p of
     Inl _ \<Rightarrow> False | Inr c \<Rightarrow> c_Mods c = 0 \<and> RuneCountInString (c_Key c) = 1)"

section \<open>Settings\<close>

record Preset =
  ps_Name :: string
  ps_Prefix :: string
  ps_Timeout :: string
  ps_Bindings :: specs

record Settings =
  st_Preset :: string
  st_Prefix :: string
  st_Timeout :: int
  st_Overrides :: specs

datatype warning = Unknown_preset | Bad_timeout | Costly_prefix

record Resolved =
  rs_Keymap :: Keymap
  rs_Conflicts :: "Conflict list"
  rs_Preset :: string
  rs_Prefix :: string
  rs_Timeout :: int
  rs_Warnings :: "warning list"

definition DefaultPresetName :: string where "DefaultPresetName = ''default''"

text \<open>\<open>files\<close> is the embedded preset files, decoded; \<open>None\<close> is an unknown name.\<close>

definition LoadPreset :: "(string \<Rightarrow> Preset option) \<Rightarrow> string \<Rightarrow> Preset option" where
  "LoadPreset files name = (if name = DefaultPresetName
     then Some \<lparr>ps_Name = name, ps_Prefix = [], ps_Timeout = [], ps_Bindings = DefaultLayer\<rparr> else files name)"

definition PresetUsesPrefix :: "(string \<Rightarrow> Preset option) \<Rightarrow> string \<Rightarrow> bool" where
  "PresetUsesPrefix files name = (if name = [] \<or> name = DefaultPresetName then False
     else case LoadPreset files name of None \<Rightarrow> False | Some p \<Rightarrow> ps_Prefix p \<noteq> [])"

text \<open>
  The preset a settings file selects: its name, its bindings, the prefix and the timeout in force, and
  the warnings. \<open>duration\<close> is \<open>time.ParseDuration\<close>.
\<close>

definition select_preset ::
    "(string \<Rightarrow> Preset option) \<Rightarrow> (string \<Rightarrow> int option) \<Rightarrow> Settings \<Rightarrow> string \<times> specs \<times> string \<times> int \<times> warning list" where
  "select_preset files duration s =
    (if st_Preset s \<noteq> [] \<and> st_Preset s \<noteq> DefaultPresetName then
       (case LoadPreset files (st_Preset s) of
          None \<Rightarrow> (DefaultPresetName, [], st_Prefix s, st_Timeout s, [Unknown_preset])
        | Some p \<Rightarrow>
            let (t, w) = (if st_Timeout s = 0 \<and> ps_Timeout p \<noteq> [] \<and> ps_Timeout p \<noteq> ''0''
                          then (case duration (ps_Timeout p) of Some d \<Rightarrow> (d, []) | None \<Rightarrow> (st_Timeout s, [Bad_timeout]))
                          else (st_Timeout s, []))
            in (ps_Name p, ps_Bindings p, (if st_Prefix s = [] then ps_Prefix p else st_Prefix s), t, w))
     else (DefaultPresetName, [], st_Prefix s, st_Timeout s, []))"

definition FromSettings ::
    "(nat \<Rightarrow> nat) \<Rightarrow> (string \<Rightarrow> Preset option) \<Rightarrow> (string \<Rightarrow> int option) \<Rightarrow> Settings \<Rightarrow> Resolved" where
  "FromSettings ulower files duration s =
    (case select_preset files duration s of (name, presetLayer, p, t, w) \<Rightarrow>
     let (d, cs1) = ExpandPrefix ulower DefaultLayer p;
         (l, cs2) = ExpandPrefix ulower presetLayer p;
         (u, cs3) = ExpandPrefix ulower (st_Overrides s) p;
         (km, built) = BuildLayered ulower [d, l, u]
     in \<lparr>rs_Keymap = km, rs_Conflicts = cs1 @ cs2 @ cs3 @ built, rs_Preset = name, rs_Prefix = p, rs_Timeout = t,
         rs_Warnings = w @ (if PrefixWarning ulower p then [Costly_prefix] else [])\<rparr>)"

section \<open>The browser\<close>

definition BrowserReserved :: "string list" where
  "BrowserReserved = [''ctrl+w'', ''ctrl+t'', ''ctrl+n'', ''ctrl+tab'', ''ctrl+shift+t'', ''ctrl+shift+n'', ''ctrl+shift+w'']"

definition wins :: "(nat \<Rightarrow> nat) \<Rightarrow> Keymap \<Rightarrow> Action \<Rightarrow> Sequence \<Rightarrow> bool" where
  "wins ulower k a seq =
    (let s = seq_string seq in
     if length seq > 1 then MatchSeq k seq = (a_ID a, MatchExact)
     else if MatchTier ulower k (a_Tier a) s \<noteq> Some (a_ID a) then False
     else if a_Tier a = TierLate then
       (if MatchTier ulower k TierEarly s \<noteq> None then False
        else case hardcodedKeys s of Some (pos, _) \<Rightarrow> pos \<noteq> betweenTiers | None \<Rightarrow> True)
     else True)"

definition winning :: "(nat \<Rightarrow> nat) \<Rightarrow> Keymap \<Rightarrow> Action \<Rightarrow> string list" where
  "winning ulower k a = map seq_string (filter (wins ulower k a) (Bindings k (a_ID a)))"

definition chordFreeOfActions :: "(nat \<Rightarrow> nat) \<Rightarrow> Keymap \<Rightarrow> string \<Rightarrow> bool" where
  "chordFreeOfActions ulower k chord = (case ParseChord ulower chord of
     Inl _ \<Rightarrow> False | Inr c \<Rightarrow> snd (MatchSeq k [c]) = MatchNone)"

definition chordFree :: "(nat \<Rightarrow> nat) \<Rightarrow> Keymap \<Rightarrow> string \<Rightarrow> bool" where
  "chordFree ulower k chord = (case ParseChord ulower chord of
     Inl _ \<Rightarrow> False
   | Inr c \<Rightarrow> if \<not> chordFreeOfActions ulower k chord then False else hardcodedKeys (chord_string c) = None)"

definition isReserved :: "(nat \<Rightarrow> nat) \<Rightarrow> string \<Rightarrow> bool" where
  "isReserved ulower key = list_ex (\<lambda>step. list_ex (\<lambda>r. case ParseChord ulower r of Inl _ \<Rightarrow> False | Inr c \<Rightarrow> chord_string c = step)
      BrowserReserved) (split_on (CHR '' '') key)"

text \<open>The keys left, the fallback handed out, whether none could be, and the fallbacks used so far.\<close>

definition swap_keys :: "(nat \<Rightarrow> nat) \<Rightarrow> (string \<Rightarrow> string option) \<Rightarrow> Keymap \<Rightarrow> string \<Rightarrow> string list \<Rightarrow> string list
    \<Rightarrow> string list \<times> string \<times> bool \<times> string list" where
  "swap_keys ulower fallbacks k tableKey keys used =
    (let out = filter (\<lambda>s. \<not> isReserved ulower s) keys in
     if \<not> list_ex (isReserved ulower) keys then (out, [], False, used)
     else case fallbacks tableKey of
       None \<Rightarrow> (out, [], True, used)
     | Some fb \<Rightarrow> if fb \<in> set used \<or> \<not> chordFree ulower k fb then (out, [], True, used)
         else (out @ [fb], fb, False, fb # used))"

section \<open>The sequence machine\<close>

record seq_state =
  pendingSeq :: Sequence
  pendingPane :: string
  pendingGen :: int
  seqFlash :: "Sequence option"

definition cancelSequence :: "seq_state \<Rightarrow> seq_state" where
  "cancelSequence m = (if pendingSeq m = [] then m else m\<lparr>pendingSeq := [], pendingGen := pendingGen m + 1\<rparr>)"

text \<open>
  \<open>pane\<close> is the active pane. The action is empty unless a sequence completed; the flag says the key was
  consumed. \<open>seqFlash\<close> is the pending prefix the status line names.
\<close>

definition stepSequence :: "(nat \<Rightarrow> nat) \<Rightarrow> Keymap \<Rightarrow> string \<Rightarrow> string \<Rightarrow> seq_state \<Rightarrow> seq_state \<times> string \<times> bool" where
  "stepSequence ulower k pane key m0 =
    (let m1 = m0\<lparr>seqFlash := None\<rparr>;
         m = (if pendingSeq m1 \<noteq> [] \<and> pane \<noteq> pendingPane m1 then cancelSequence m1 else m1)
     in case ParseChord ulower key of
       Inl _ \<Rightarrow> if pendingSeq m \<noteq> [] then (cancelSequence m, [], True) else (m, [], False)
     | Inr c \<Rightarrow>
         if key = ''esc'' \<and> pendingSeq m \<noteq> [] then (cancelSequence m, [], True)
         else if pendingSeq m = [c] then (cancelSequence m, [], False)
         else let cand = pendingSeq m @ [c] in
           (case MatchSeq k cand of
              (i, MatchPartial) \<Rightarrow> (m\<lparr>pendingSeq := cand, pendingPane := pane, pendingGen := pendingGen m + 1\<rparr>, [], True)
            | (i, MatchExact) \<Rightarrow> if length cand = 1 then (m, [], False) else (cancelSequence m, i, False)
            | (i, MatchNone) \<Rightarrow>
                if pendingSeq m \<noteq> [] then (cancelSequence (m\<lparr>seqFlash := Some (pendingSeq m)\<rparr>), [], True)
                else (m, [], False)))"

text \<open>A timeout tick of generation \<open>gen\<close>.\<close>

definition sequence_timeout :: "int \<Rightarrow> seq_state \<Rightarrow> seq_state" where
  "sequence_timeout gen m = (if gen = pendingGen m then cancelSequence m else m)"

fun type_keys :: "(nat \<Rightarrow> nat) \<Rightarrow> Keymap \<Rightarrow> string \<Rightarrow> string list \<Rightarrow> seq_state \<Rightarrow> seq_state \<times> (string \<times> bool) list" where
  "type_keys ulower k pane [] m = (m, [])"
| "type_keys ulower k pane (key # keys) m =
    (case stepSequence ulower k pane key m of (m', r) \<Rightarrow>
      case type_keys ulower k pane keys m' of (m'', rs) \<Rightarrow> (m'', r # rs))"

end
