(* ===== verification/Chord_Props.thy ===== *)
theory Chord_Props
  imports Keymap_Chord
begin

text \<open>
  Chords and specs print and parse: what the parser accepts is in one canonical form, which the printer
  maps back to itself.
\<close>

lemma split_seq_string: "seq_ok q \<Longrightarrow> split_on (CHR '' '') (seq_string q) = map chord_string q"
  unfolding seq_string_def using canonical_graphic graphic_no_space
  by (intro split_join) (auto simp: seq_ok_def list_all_iff)

lemma parse_steps_strings: "list_all canonical q \<Longrightarrow> parse_steps ulower (map chord_string q) = Inr q"
proof (induction q)
  case (Cons c q)
  then show ?case using canonical_graphic [of c] by (simp add: ParseChord_string)
qed simp

lemma join_with_Cons: "join_with sep (x # xs) = x @ concat (map (\<lambda>y. sep @ y) xs)"
  by (induction xs arbitrary: x) (simp_all add: join_with_def)

text \<open>A printed sequence begins and ends with a graphic byte.\<close>

lemma seq_string_ends:
  assumes "seq_ok q"
  shows "seq_string q \<noteq> []" "graphic_char (hd (seq_string q))" "graphic_char (last (seq_string q))"
proof -
  have g: "graphic (chord_string c)" "chord_string c \<noteq> []" if "c \<in> set q" for c
    using assms canonical_graphic that by (auto simp: seq_ok_def list_all_iff)
  have ends: "graphic_char (hd s) \<and> graphic_char (last s)" if "graphic s" "s \<noteq> []" for s
    using that by (auto simp: graphic_def list_all_iff)
  obtain c cs where q: "q = c # cs" using assms by (cases q) (auto simp: seq_ok_def)
  have s: "seq_string q = chord_string c @ concat (map (\<lambda>d. '' '' @ chord_string d) cs)"
    by (simp add: q seq_string_def join_with_Cons comp_def)
  show "seq_string q \<noteq> []" "graphic_char (hd (seq_string q))"
    unfolding s using g [of c] ends by (simp_all add: q)
  show "graphic_char (last (seq_string q))"
  proof (cases cs rule: rev_cases)
    case Nil
    then show ?thesis unfolding s using g [of c] ends by (simp add: q)
  next
    case (snoc ds d)
    then show ?thesis unfolding s using g [of d] ends by (simp add: q)
  qed
qed

lemma trim_set_graphic:
  assumes "s \<noteq> []" "graphic_char (hd s)" "graphic_char (last s)" "\<forall>c \<in> C. \<not> graphic_char c"
  shows "trim_set C s = s"
proof -
  have "dropWhile (\<lambda>c. c \<in> C) s = s" using assms by (cases s) auto
  moreover have "dropWhile (\<lambda>c. c \<in> C) (rev s) = rev s" using assms by (cases s rule: rev_cases) auto
  ultimately show ?thesis by (simp add: trim_set_def)
qed

lemma parse_alts_strings:
  assumes "list_all seq_ok qs"
  shows "parse_alts ulower (map seq_string qs) = Inr qs"
  using assms
proof (induction qs)
  case (Cons q qs)
  have t: "trim_set {CHR '' '', CHR 0x09} (seq_string q) = seq_string q"
    using seq_string_ends [of q] Cons.prems by (intro trim_set_graphic) (auto simp: graphic_char_def)
  show ?case using Cons seq_string_ends(1) [of q]
    by (simp add: t split_seq_string parse_steps_strings seq_ok_def)
qed simp

lemma trim_left_head:
  assumes "s \<noteq> []" "graphic_char (hd s)" "\<forall>w \<in> set ws. w = [] \<or> \<not> graphic_char (hd w)"
  shows "trim_left ws s = s"
proof -
  have "\<not> (w \<noteq> [] \<and> prefix w s)" if "w \<in> set ws" for w
    using assms that by (cases w) (auto simp: prefix_def)
  then have "find (\<lambda>w. w \<noteq> [] \<and> prefix w s) ws = None" by (simp add: find_None_iff)
  then show ?thesis by (simp add: trim_left.simps)
qed

lemma TrimSpace_ends:
  assumes "s \<noteq> []" "graphic_char (hd s)" "graphic_char (last s)"
  shows "TrimSpace s = s"
proof -
  have "\<not> graphic_char (hd (map char_of ns)) \<and> \<not> graphic_char (hd (rev (map char_of ns)))" if "ns \<in> set space_codes" for ns
    using that space_ends space_codes_bounds by (auto simp: graphic_char_def hd_map hd_rev last_map of_char_of)
  then have "trim_left space_seqs s = s" "trim_left (map rev space_seqs) (rev s) = rev s"
    using assms by (auto intro!: trim_left_head simp: space_seqs_def hd_rev)
  then show ?thesis by (simp add: TrimSpace_def)
qed

lemma join_ends:
  assumes "ss \<noteq> []" "\<forall>s \<in> set ss. s \<noteq> [] \<and> graphic_char (hd s) \<and> graphic_char (last s)"
  shows "join_with sep ss \<noteq> [] \<and> graphic_char (hd (join_with sep ss)) \<and> graphic_char (last (join_with sep ss))"
proof -
  obtain s rest where s: "ss = s # rest" using assms(1) by (cases ss) auto
  show ?thesis using assms(2) unfolding s join_with_Cons by (cases rest rule: rev_cases) auto
qed

lemma ParseSpec_strings:
  assumes "list_all seq_ok qs" "\<forall>q \<in> set qs. CHR '','' \<notin> set (seq_string q)"
  shows "ParseSpec ulower (join_with '','' (map seq_string qs)) = Inr qs"
proof (cases "qs = []")
  case True
  then show ?thesis by (simp add: ParseSpec_def join_with_def TrimSpace_graphic)
next
  case False
  let ?s = "join_with '','' (map seq_string qs)"
  have e: "?s \<noteq> [] \<and> graphic_char (hd ?s) \<and> graphic_char (last ?s)"
    using False assms(1) seq_string_ends by (intro join_ends) (auto simp: list_all_iff)
  have "split_on (CHR '','') ?s = map seq_string qs" using False assms(2) by (intro split_join) auto
  then show ?thesis using e TrimSpace_ends [of ?s] parse_alts_strings [OF assms(1)] by (simp add: ParseSpec_def)
qed


lemma sample_canonical:
  "canonical (Chord 1 ''b'')" "canonical (Chord 0 ''c'')" "canonical (Chord 5 ''A'')" "canonical (Chord 2 ''+'')"
  by (simp_all add: canonical_def key_ok_def modNames_def keyAliases_def graphic_char_def)

lemma sample_strings:
  "chord_string (Chord 1 ''b'') = ''ctrl+b''" "chord_string (Chord 0 ''c'') = ''c''"
  "chord_string (Chord 5 ''A'') = ''ctrl+shift+A''" "chord_string (Chord 2 ''+'') = ''alt++''"
  by (simp_all add: chord_string_def mod_text_def ModCtrl_def ModAlt_def ModShift_def ModSuper_def)

lemma sample_spec:
  "ParseSpec ulower ''ctrl+b c'' = Inr [[Chord 1 ''b'', Chord 0 ''c'']]"
  "ParseSpec ulower ''ctrl+b'' = Inr [[Chord 1 ''b'']]"
  "ParseSpec ulower ''ctrl+shift+A,alt++ c'' = Inr [[Chord 5 ''A''], [Chord 2 ''+'', Chord 0 ''c'']]"
  using ParseSpec_strings [of "[[Chord 1 ''b'', Chord 0 ''c'']]" ulower] ParseSpec_strings [of "[[Chord 1 ''b'']]" ulower]
    ParseSpec_strings [of "[[Chord 5 ''A''], [Chord 2 ''+'', Chord 0 ''c'']]" ulower]
  by (simp_all add: seq_ok_def sample_canonical seq_string_def join_with_def sample_strings)


end
