(* ===== verification/Keymap_Props.thy ===== *)
theory Keymap_Props
  imports Keymap_Match Chord_Props "HOL-Library.Multiset"
begin

text \<open>
  What a built keymap guarantees: which alternatives survive, that every surviving sequence completes when
  it is typed and nothing else does, that chords have one canonical form, and that the shipped defaults
  are free of conflicts.
\<close>

section \<open>Shadowing\<close>

text \<open>The alternative \<open>y\<close> makes \<open>x\<close> unreachable.\<close>

definition beats :: "(string \<Rightarrow> nat) \<Rightarrow> alt \<Rightarrow> alt \<Rightarrow> bool" where
  "beats layer y x \<longleftrightarrow> fst (e_ref x) \<noteq> fst (e_ref y) \<and>
     (isProperPrefix (e_seq x) (e_seq y) \<and> layer (e_id x) \<le> layer (e_id y)
      \<or> isProperPrefix (e_seq y) (e_seq x) \<and> layer (e_id x) < layer (e_id y))"

lemma isProperPrefix_iff: "isProperPrefix p q \<longleftrightarrow> p \<noteq> [] \<and> length p < length q \<and> take (length p) q = p"
proof -
  have "list_all (\<lambda>i. p ! i = q ! i) [0..<length p] \<longleftrightarrow> take (length p) q = p" if l: "length p < length q"
  proof
    assume "list_all (\<lambda>i. p ! i = q ! i) [0..<length p]"
    then show "take (length p) q = p" using l by (intro nth_equalityI) (auto simp: list_all_iff)
  next
    assume t: "take (length p) q = p"
    have "p ! i = q ! i" if "i < length p" for i using that arg_cong [OF t, of "\<lambda>xs. xs ! i"] by simp
    then show "list_all (\<lambda>i. p ! i = q ! i) [0..<length p]" by (simp add: list_all_iff)
  qed
  then show ?thesis by (auto simp: isProperPrefix_def)
qed

lemma isProperPrefix_asym: "isProperPrefix p q \<Longrightarrow> \<not> isProperPrefix q p"
  by (auto simp: isProperPrefix_iff)

lemma shadow_pair_cases:
  assumes "fst (e_ref s) \<noteq> fst (e_ref l)" "isProperPrefix (e_seq s) (e_seq l)"
  obtains x y where "(x, y) = (s, l) \<or> (y, x) = (s, l)" "beats layer y x"
    "shadow_pair layer s l st = (if e_ref x \<in> set (fst st) then st
       else (fst st @ [e_ref x], snd st @ [Conflict ConflictShadowed (seq_string (e_seq x)) (e_id y) (e_id x) No_detail]))"
    "\<And>x' y'. (x', y') = (s, l) \<or> (y', x') = (s, l) \<Longrightarrow> beats layer y' x' \<Longrightarrow> x' = x"
proof (cases "layer (e_id s) > layer (e_id l)")
  case True
  show ?thesis
    by (rule that [of l s]) (use assms True isProperPrefix_asym [OF assms(2)] in \<open>auto simp: beats_def shadow_pair_def Let_def\<close>)
next
  case False
  show ?thesis
    by (rule that [of s l]) (use assms False isProperPrefix_asym [OF assms(2)] in \<open>auto simp: beats_def shadow_pair_def Let_def\<close>)
qed

definition dropped_by :: "(string \<Rightarrow> nat) \<Rightarrow> (alt \<times> alt) list \<Rightarrow> alt \<Rightarrow> bool" where
  "dropped_by layer ps x \<longleftrightarrow> (\<exists>y. ((x, y) \<in> set ps \<and> isProperPrefix (e_seq x) (e_seq y)
      \<or> (y, x) \<in> set ps \<and> isProperPrefix (e_seq y) (e_seq x)) \<and> beats layer y x)"

lemma shadow_scan_ok:
  "foldl (\<lambda>st (short, long). shadow_pair layer short long st) ([], []) ps = st \<Longrightarrow>
    set (fst st) = e_ref ` {x. dropped_by layer ps x} \<and> distinct (fst st)
    \<and> list_all2 (\<lambda>r c. \<exists>x y. e_ref x = r \<and> dropped_by layer ps x \<and> beats layer y x
          \<and> c = Conflict ConflictShadowed (seq_string (e_seq x)) (e_id y) (e_id x) No_detail) (fst st) (snd st)"
proof (induction ps arbitrary: st rule: rev_induct)
  case Nil
  then show ?case by (auto simp: dropped_by_def)
next
  case (snoc p ps)
  obtain s l where p: "p = (s, l)" by (cases p)
  define st0 where "st0 = foldl (\<lambda>st (short, long). shadow_pair layer short long st) ([], []) ps"
  note IH = snoc.IH [OF st0_def [symmetric]]
  have st: "st = shadow_pair layer s l st0" using snoc.prems by (simp add: p st0_def)
  have mono: "dropped_by layer ps x \<Longrightarrow> dropped_by layer (ps @ [p]) x" for x by (auto simp: dropped_by_def)
  have all: "list_all2 (\<lambda>r c. \<exists>x y. e_ref x = r \<and> dropped_by layer (ps @ [p]) x \<and> beats layer y x
          \<and> c = Conflict ConflictShadowed (seq_string (e_seq x)) (e_id y) (e_id x) No_detail) (fst st0) (snd st0)"
    using IH mono by (auto elim!: list_all2_mono)
  show ?case
  proof (cases "fst (e_ref s) \<noteq> fst (e_ref l) \<and> isProperPrefix (e_seq s) (e_seq l)")
    case True
    obtain x y where x: "(x, y) = (s, l) \<or> (y, x) = (s, l)" "beats layer y x"
      "shadow_pair layer s l st0 = (if e_ref x \<in> set (fst st0) then st0
         else (fst st0 @ [e_ref x], snd st0 @ [Conflict ConflictShadowed (seq_string (e_seq x)) (e_id y) (e_id x) No_detail]))"
      "\<And>x' y'. (x', y') = (s, l) \<or> (y', x') = (s, l) \<Longrightarrow> beats layer y' x' \<Longrightarrow> x' = x"
      using shadow_pair_cases [of s l layer st0] True by blast
    have "(\<exists>y'. ((z, y') = (s, l) \<or> (y', z) = (s, l)) \<and> beats layer y' z) \<longleftrightarrow> z = x" for z
      using x(1,2) x(4) [of z] by blast
    moreover have "dropped_by layer (ps @ [p]) z \<longleftrightarrow> dropped_by layer ps z
        \<or> (\<exists>y'. ((z, y') = (s, l) \<or> (y', z) = (s, l)) \<and> beats layer y' z)" for z
      using True unfolding dropped_by_def p by (simp only: set_append list.set Un_iff singleton_iff prod.inject) blast
    ultimately have d: "dropped_by layer (ps @ [p]) z \<longleftrightarrow> dropped_by layer ps z \<or> z = x" for z by simp
    let ?c = "Conflict ConflictShadowed (seq_string (e_seq x)) (e_id y) (e_id x) No_detail"
    show ?thesis
    proof (cases "e_ref x \<in> set (fst st0)")
      case True
      then have "st = st0" by (simp add: st x(3))
      moreover have "e_ref ` {z. dropped_by layer (ps @ [p]) z} = e_ref ` {z. dropped_by layer ps z}"
        using True IH by (auto simp: d)
      ultimately show ?thesis using IH all by simp
    next
      case False
      then have s: "fst st = fst st0 @ [e_ref x]" "snd st = snd st0 @ [?c]" by (simp_all add: st x(3))
      have "{z. dropped_by layer (ps @ [p]) z} = insert x {z. dropped_by layer ps z}" by (auto simp: d)
      then have "set (fst st) = e_ref ` {z. dropped_by layer (ps @ [p]) z}" using IH s by simp
      moreover have "distinct (fst st)" using IH s False by simp
      moreover have "list_all2 (\<lambda>r c. \<exists>x y. e_ref x = r \<and> dropped_by layer (ps @ [p]) x \<and> beats layer y x
          \<and> c = Conflict ConflictShadowed (seq_string (e_seq x)) (e_id y) (e_id x) No_detail) [e_ref x] [?c]"
        using d x(2) by (simp only: list_all2_Cons list_all2_Nil) blast
      ultimately show ?thesis using all unfolding s by (blast intro: list_all2_appendI)
    qed
  next
    case False
    then have "shadow_pair layer s l st0 = st0" by (auto simp: shadow_pair_def)
    moreover have "dropped_by layer (ps @ [p]) z \<longleftrightarrow> dropped_by layer ps z" for z
      using False by (auto simp: dropped_by_def p beats_def)
    ultimately show ?thesis using IH by (simp add: st)
  qed
qed

text \<open>All alternatives of all bindings, in order.\<close>

definition pairs :: "parsedBinding list \<Rightarrow> (Action \<times> Sequence) list" where
  "pairs parsed = concat (map (\<lambda>(a, seqs). map (Pair a) seqs) parsed)"

lemma pairs_simps [simp]: "pairs [] = []" "pairs ((a, seqs) # parsed) = map (Pair a) seqs @ pairs parsed"
  by (simp_all add: pairs_def)

lemma in_pairs: "(a, q) \<in> set (pairs parsed) \<longleftrightarrow>
    (\<exists>bi si. bi < length parsed \<and> fst (parsed ! bi) = a \<and> si < length (snd (parsed ! bi)) \<and> snd (parsed ! bi) ! si = q)"
proof -
  have "(a, q) \<in> set (pairs parsed) \<longleftrightarrow> (\<exists>x \<in> set parsed. fst x = a \<and> q \<in> set (snd x))"
    by (force simp: pairs_def)
  also have "\<dots> \<longleftrightarrow> (\<exists>bi < length parsed. fst (parsed ! bi) = a \<and> q \<in> set (snd (parsed ! bi)))"
    by (metis in_set_conv_nth)
  finally show ?thesis by (simp only: in_set_conv_nth) blast
qed

lemma in_pairs_set: "(a, q) \<in> set (pairs parsed) \<longleftrightarrow> (\<exists>qs. (a, qs) \<in> set parsed \<and> q \<in> set qs)"
  by (induction parsed) auto

lemma set_enumerate: "set (enumerate 0 xs) = (\<lambda>i. (i, xs ! i)) ` {..<length xs}"
  by (auto simp: in_set_enumerate_eq image_iff)

lemma in_alternatives: "e \<in> set (alternatives parsed) \<longleftrightarrow>
    (\<exists>bi si. e = Alt (bi, si) (a_ID (fst (parsed ! bi))) (snd (parsed ! bi) ! si)
      \<and> bi < length parsed \<and> si < length (snd (parsed ! bi)))"
proof -
  have "set (alternatives parsed) = (\<Union>bi<length parsed. (\<lambda>si. Alt (bi, si) (a_ID (fst (parsed ! bi))) (snd (parsed ! bi) ! si))
      ` {..<length (snd (parsed ! bi))})"
    by (simp add: alternatives_def set_enumerate case_prod_beta image_image)
  then show ?thesis by auto
qed

lemma keep_alts_fst [simp]: "map fst (keep_alts d parsed) = map fst parsed"
  by (auto simp: keep_alts_def enumerate_eq_zip zip_map2 case_prod_beta intro!: nth_equalityI)

lemma in_keep_alts: "(a, q) \<in> set (pairs (keep_alts d parsed)) \<longleftrightarrow>
    (\<exists>bi si. bi < length parsed \<and> fst (parsed ! bi) = a \<and> si < length (snd (parsed ! bi))
      \<and> snd (parsed ! bi) ! si = q \<and> (bi, si) \<notin> set d)"
proof -
  have k: "(\<lambda>x. (c, snd x)) ` {x \<in> (\<lambda>i. (i, xs ! i)) ` {..<n}. (bi, fst x) \<notin> set d} = (\<lambda>i. (c, xs ! i)) ` {i. i < n \<and> (bi, i) \<notin> set d}"
    for c :: Action and xs :: "Sequence list" and n bi by (force simp: image_iff)
  have "set (pairs (keep_alts d parsed)) = (\<Union>bi<length parsed. Pair (fst (parsed ! bi))
      ` (\<lambda>si. snd (parsed ! bi) ! si) ` {si. si < length (snd (parsed ! bi)) \<and> (bi, si) \<notin> set d})"
    by (simp add: pairs_def keep_alts_def set_enumerate case_prod_beta image_image k)
  then show ?thesis by auto
qed

definition unreachable :: "(string \<Rightarrow> nat) \<Rightarrow> (Action \<times> Sequence) list \<Rightarrow> Action \<times> Sequence \<Rightarrow> bool" where
  "unreachable layer all x \<longleftrightarrow> (\<exists>y \<in> set all. a_ID (fst y) \<noteq> a_ID (fst x)
     \<and> (isProperPrefix (snd x) (snd y) \<and> layer (a_ID (fst x)) \<le> layer (a_ID (fst y))
        \<or> isProperPrefix (snd y) (snd x) \<and> layer (a_ID (fst x)) < layer (a_ID (fst y))))"

lemma dropped_product: "x \<in> set all \<Longrightarrow> dropped_by layer (List.product all all) x \<longleftrightarrow> (\<exists>y \<in> set all. beats layer y x)"
  by (auto simp: dropped_by_def beats_def)

lemma dropped_in: "dropped_by layer (List.product all all) x \<Longrightarrow> x \<in> set all"
  by (auto simp: dropped_by_def)

lemma resolve_dropped:
  assumes "distinct (map (a_ID \<circ> fst) parsed)" "bi < length parsed" "si < length (snd (parsed ! bi))"
  defines "x \<equiv> Alt (bi, si) (a_ID (fst (parsed ! bi))) (snd (parsed ! bi) ! si)"
  shows "(bi, si) \<in> e_ref ` {x. dropped_by layer (List.product (alternatives parsed) (alternatives parsed)) x}
    \<longleftrightarrow> unreachable layer (pairs parsed) (fst (parsed ! bi), snd (parsed ! bi) ! si)"
proof -
  let ?all = "alternatives parsed"
  have x: "x \<in> set ?all" using assms(2,3) by (auto simp: in_alternatives x_def)
  have ids: "a_ID (fst (parsed ! i)) = a_ID (fst (parsed ! j)) \<longleftrightarrow> i = j" if "i < length parsed" "j < length parsed" for i j
    using nth_eq_iff_index_eq [OF assms(1)] that by simp
  have "(bi, si) \<in> e_ref ` {x. dropped_by layer (List.product ?all ?all) x} \<longleftrightarrow> dropped_by layer (List.product ?all ?all) x"
    (is "?l = ?r")
  proof
    assume ?l
    then obtain z where z: "e_ref z = (bi, si)" "dropped_by layer (List.product ?all ?all) z" by force
    then have "z = x" using dropped_in [OF z(2)] by (auto simp: in_alternatives x_def)
    then show ?r using z by simp
  qed (auto simp: x_def image_iff intro!: exI [of _ x])
  also have "\<dots> \<longleftrightarrow> (\<exists>y \<in> set ?all. beats layer y x)" by (rule dropped_product [OF x])
  also have "\<dots> \<longleftrightarrow> unreachable layer (pairs parsed) (fst (parsed ! bi), snd (parsed ! bi) ! si)"
    (is "?l = ?r")
  proof
    assume ?l
    then obtain j k where j: "j < length parsed" "k < length (snd (parsed ! j))"
        "beats layer (Alt (j, k) (a_ID (fst (parsed ! j))) (snd (parsed ! j) ! k)) x"
      by (auto simp: in_alternatives)
    then have "(fst (parsed ! j), snd (parsed ! j) ! k) \<in> set (pairs parsed)" by (auto simp: in_pairs)
    then show ?r
      using ids [OF _ assms(2), of j] j by (auto simp: unreachable_def beats_def x_def intro!: bexI [of _ "(fst (parsed ! j), snd (parsed ! j) ! k)"])
  next
    assume ?r
    then obtain b p where b: "(b, p) \<in> set (pairs parsed)" "a_ID b \<noteq> a_ID (fst (parsed ! bi))"
        "isProperPrefix (snd (parsed ! bi) ! si) p \<and> layer (a_ID (fst (parsed ! bi))) \<le> layer (a_ID b)
         \<or> isProperPrefix p (snd (parsed ! bi) ! si) \<and> layer (a_ID (fst (parsed ! bi))) < layer (a_ID b)"
      by (auto simp: unreachable_def)
    then obtain j k where j: "j < length parsed" "fst (parsed ! j) = b" "k < length (snd (parsed ! j))" "snd (parsed ! j) ! k = p"
      by (auto simp: in_pairs)
    have "Alt (j, k) (a_ID b) p \<in> set ?all" using j by (auto simp: in_alternatives)
    moreover have "beats layer (Alt (j, k) (a_ID b) p) x" using b j by (auto simp: beats_def x_def)
    ultimately show ?l by blast
  qed
  finally show ?thesis .
qed

lemma keep_all: "keep_alts [] parsed = parsed"
  by (auto simp: keep_alts_def case_prod_beta enumerate_eq_zip simp flip: map_map intro!: nth_equalityI)

lemma resolve_kept:
  assumes "distinct (map (a_ID \<circ> fst) parsed)"
  shows "(a, q) \<in> set (pairs (fst (resolveShadowing parsed origin))) \<longleftrightarrow>
      (a, q) \<in> set (pairs parsed) \<and> \<not> unreachable (layerOf origin) (pairs parsed) (a, q)"
    and "map fst (fst (resolveShadowing parsed origin)) = map fst parsed"
proof -
  let ?all = "alternatives parsed"
  obtain d out where d: "shadow_scan (layerOf origin) ?all = (d, out)" by fastforce
  then have D: "set d = e_ref ` {x. dropped_by (layerOf origin) (List.product ?all ?all) x}"
    using shadow_scan_ok [of "layerOf origin" "List.product ?all ?all" "(d, out)"] by (simp add: shadow_scan_def)
  have r: "fst (resolveShadowing parsed origin) = keep_alts d parsed"
    by (simp add: resolveShadowing_def d Let_def keep_all)
  then show "map fst (fst (resolveShadowing parsed origin)) = map fst parsed" by simp
  show "(a, q) \<in> set (pairs (fst (resolveShadowing parsed origin))) \<longleftrightarrow>
      (a, q) \<in> set (pairs parsed) \<and> \<not> unreachable (layerOf origin) (pairs parsed) (a, q)"
    unfolding r in_keep_alts in_pairs [of a q parsed] D using resolve_dropped [OF assms] by blast
qed

text \<open>No surviving alternative is a proper prefix of another action's.\<close>

lemma no_shadow:
  assumes "distinct (map (a_ID \<circ> fst) parsed)"
    "(a, p) \<in> set (pairs (fst (resolveShadowing parsed origin)))"
    "(b, q) \<in> set (pairs (fst (resolveShadowing parsed origin)))" "isProperPrefix p q"
  shows "a_ID a = a_ID b"
proof (rule ccontr)
  assume n: "a_ID a \<noteq> a_ID b"
  have m: "(a, p) \<in> set (pairs parsed)" "(b, q) \<in> set (pairs parsed)"
      "\<not> unreachable (layerOf origin) (pairs parsed) (a, p)" "\<not> unreachable (layerOf origin) (pairs parsed) (b, q)"
    using assms(2,3) by (simp_all add: resolve_kept(1) [OF assms(1)])
  show False
  proof (cases "layerOf origin (a_ID a) \<le> layerOf origin (a_ID b)")
    case True
    then have "unreachable (layerOf origin) (pairs parsed) (a, p)"
      unfolding unreachable_def using m(2) n assms(4) by (intro bexI [of _ "(b, q)"]) auto
    then show False using m(3) by simp
  next
    case False
    then have "unreachable (layerOf origin) (pairs parsed) (b, q)"
      unfolding unreachable_def using m(1) n assms(4) by (intro bexI [of _ "(a, p)"]) auto
    then show False using m(4) by simp
  qed
qed

section \<open>The tables\<close>

lemma find_snoc: "find P (xs @ [x]) = (case find P xs of Some y \<Rightarrow> Some y | None \<Rightarrow> if P x then Some x else None)"
  by (induction xs) auto

definition is_long :: "Action \<times> Sequence \<Rightarrow> bool" where
  "is_long x \<longleftrightarrow> 1 < length (snd x)"

definition is_chord :: "Tier \<Rightarrow> Action \<times> Sequence \<Rightarrow> bool" where
  "is_chord t x \<longleftrightarrow> \<not> is_long x \<and> a_Tier (fst x) = t"

abbreviation owner :: "(Action \<times> Sequence) option \<Rightarrow> string option" where
  "owner \<equiv> map_option (\<lambda>x. a_ID (fst x))"

definition heads :: "(Action \<times> Sequence) list \<Rightarrow> Sequence set" where
  "heads ps = {take n q | a q n. (a, q) \<in> set ps \<and> 1 \<le> n \<and> n < length q}"

text \<open>The tables after the alternatives \<open>ps\<close> went in, in this order.\<close>

definition tables_ok :: "(Action \<times> Sequence) list \<Rightarrow> Keymap \<Rightarrow> bool" where
  "tables_ok ps km \<longleftrightarrow>
     (\<forall>s. map_of (km_seqs km) s = owner (find (\<lambda>x. is_long x \<and> seq_string (snd x) = s) ps))
   \<and> (\<forall>s. map_of (km_early km) s = owner (find (\<lambda>x. is_chord TierEarly x \<and> seq_string (snd x) = s) ps))
   \<and> (\<forall>s. map_of (km_late km) s = owner (find (\<lambda>x. is_chord TierLate x \<and> seq_string (snd x) = s) ps))
   \<and> (\<forall>s. map_of (km_partial km) s \<noteq> None \<longleftrightarrow> s \<in> seq_string ` heads ps)"

lemma map_of_snoc: "map_of (m @ [(k, v)]) x = (case map_of m x of Some w \<Rightarrow> Some w | None \<Rightarrow> if x = k then Some v else None)"
  by (auto simp: map_add_def split: option.splits)

lemma map_of_add_new_eq: "map_of (add_new k v m) x = (case map_of m x of Some w \<Rightarrow> Some w | None \<Rightarrow> if x = k then Some v else None)"
  by (auto simp: add_new_def map_of_snoc simp del: map_of_append split: option.splits)

lemma map_of_add_new: "map_of (add_new k v m) x \<noteq> None \<longleftrightarrow> x = k \<or> map_of m x \<noteq> None"
  by (auto simp: add_new_def map_of_snoc simp del: map_of_append split: option.splits)

lemma map_of_add_partials:
  "map_of (add_partials i q m) x \<noteq> None \<longleftrightarrow> x \<in> seq_string ` (\<lambda>n. take n q) ` {1..<length q} \<or> map_of m x \<noteq> None"
proof -
  have "map_of (foldl (\<lambda>m n. add_new (seq_string (take n q)) i m) m ns) x \<noteq> None
      \<longleftrightarrow> x \<in> seq_string ` (\<lambda>n. take n q) ` set ns \<or> map_of m x \<noteq> None" for ns
    by (induction ns arbitrary: m) (auto simp: map_of_add_new simp del: not_None_eq)
  then show ?thesis by (simp add: add_partials_def del: not_None_eq)
qed

lemma heads_snoc: "heads (ps @ [(a, q)]) = heads ps \<union> (\<lambda>n. take n q) ` {1..<length q}"
proof -
  have "heads (ps @ [(a, q)]) = (\<Union>x \<in> set (ps @ [(a, q)]). (\<lambda>n. take n (snd x)) ` {1..<length (snd x)})" for ps
    by (force simp: heads_def)
  from this [of ps] this [of "ps"] show ?thesis by (force simp: heads_def)
qed

lemma tables_ok_insert:
  assumes t: "tables_ok ps km" and ok: "\<forall>x \<in> set ps. seq_ok (snd x)" "seq_ok q"
  shows "tables_ok (ps @ [(a, q)]) (fst (insert_alt a (km, cs) q))"
proof (cases "1 < length q")
  case True
  show ?thesis
  proof (cases "map_of (km_seqs km) (seq_string q)")
    case (Some i)
    then have "find (\<lambda>x. is_long x \<and> seq_string (snd x) = seq_string q) ps \<noteq> None" using t by (auto simp: tables_ok_def)
    then obtain b p where b: "(b, p) \<in> set ps" "seq_string p = seq_string q" by (auto simp: find_None_iff)
    then have "p = q" using seq_string_inj ok by force
    then have "heads (ps @ [(a, q)]) = heads ps" using b(1) by (auto simp: heads_snoc) (auto simp: heads_def)
    then show ?thesis using t True Some
      by (auto simp: tables_ok_def insert_alt_def find_snoc is_long_def is_chord_def split: option.splits)
  next
    case None
    then show ?thesis using t True
      by (auto simp: tables_ok_def insert_alt_def find_snoc is_long_def is_chord_def map_of_snoc heads_snoc image_Un map_of_add_partials
          simp del: not_None_eq map_of_append split: option.splits)
  qed
next
  case False
  then obtain c where q: "q = [c]" using ok(2) by (cases q) (auto simp: seq_ok_def)
  have h: "heads (ps @ [(a, q)]) = heads ps" by (auto simp: heads_snoc q)
  have r: "fst (insert_alt a (km, cs) q) = (case a_Tier a of
      TierEarly \<Rightarrow> km\<lparr>km_early := add_new (chord_string c) (a_ID a) (km_early km)\<rparr>
    | TierLate \<Rightarrow> km\<lparr>km_late := add_new (chord_string c) (a_ID a) (km_late km)\<rparr>)"
    by (cases "a_Tier a") (simp_all add: q insert_alt_def km_chords_def add_new_def Let_def split: option.splits)
  show ?thesis using t unfolding tables_ok_def h r
    by (cases "a_Tier a") (auto simp: q find_snoc is_long_def is_chord_def map_of_add_new_eq split: option.splits)
qed

lemma foldl_alts:
  "tables_ok ps (fst st) \<Longrightarrow> \<forall>x \<in> set ps. seq_ok (snd x) \<Longrightarrow> list_all seq_ok qs \<Longrightarrow>
    tables_ok (ps @ map (Pair a) qs) (fst (foldl (insert_alt a) st qs))"
proof (induction qs arbitrary: ps st)
  case (Cons q qs)
  have "tables_ok (ps @ [(a, q)]) (fst (insert_alt a st q))"
    using tables_ok_insert [of ps "fst st" q a "snd st"] Cons.prems by simp
  from Cons.IH [OF this] Cons.prems show ?case by simp
qed simp

lemma insert_alt_bindings [simp]: "km_bindings (fst (insert_alt a st q)) = km_bindings (fst st)"
  by (auto simp: insert_alt_def Let_def split: option.splits Tier.splits)

lemma foldl_alt_bindings [simp]: "km_bindings (fst (foldl (insert_alt a) st qs)) = km_bindings (fst st)"
  by (induction qs arbitrary: st) simp_all

definition pairs_ok :: "parsedBinding list \<Rightarrow> bool" where
  "pairs_ok parsed \<longleftrightarrow> (\<forall>x \<in> set (pairs parsed). seq_ok (snd x))"

lemma pairs_ok_simps [simp]: "pairs_ok []" "pairs_ok ((a, qs) # kept) \<longleftrightarrow> list_all seq_ok qs \<and> pairs_ok kept"
  by (simp_all add: pairs_ok_def list_all_iff ball_Un)

lemma foldl_bindings:
  "tables_ok ps (fst st) \<Longrightarrow> \<forall>x \<in> set ps. seq_ok (snd x) \<Longrightarrow> pairs_ok kept \<Longrightarrow>
    tables_ok (ps @ pairs kept) (fst (foldl insert_binding st kept))
    \<and> km_bindings (fst (foldl insert_binding st kept)) = km_bindings (fst st) @ map (\<lambda>(a, qs). (a_ID a, qs)) (filter (\<lambda>(a, qs). qs \<noteq> []) kept)"
proof (induction kept arbitrary: ps st)
  case (Cons b kept)
  obtain a qs where b: "b = (a, qs)" by (cases b)
  have ok: "list_all seq_ok qs" "pairs_ok kept" using Cons.prems(3) by (simp_all add: b)
  let ?st = "insert_binding st b"
  have "tables_ok (ps @ map (Pair a) qs) (fst ?st)"
  proof (cases "qs = []")
    case False
    have "tables_ok ps ((fst st)\<lparr>km_bindings := km_bindings (fst st) @ [(a_ID a, qs)]\<rparr>)"
      using Cons.prems(1) by (simp add: tables_ok_def)
    then show ?thesis
      using foldl_alts [of ps "((fst st)\<lparr>km_bindings := km_bindings (fst st) @ [(a_ID a, qs)]\<rparr>, snd st)" qs a] Cons.prems(2) ok(1) False
      by (simp add: insert_binding_def b)
  qed (use Cons.prems(1) in \<open>simp add: insert_binding_def b\<close>)
  moreover have "\<forall>x \<in> set (ps @ map (Pair a) qs). seq_ok (snd x)" using Cons.prems(2) ok(1) by (auto simp: list_all_iff)
  moreover have "km_bindings (fst ?st) = km_bindings (fst st) @ (if qs = [] then [] else [(a_ID a, qs)])"
    by (simp add: insert_binding_def b)
  ultimately show ?case using Cons.IH [of "ps @ map (Pair a) qs" ?st] ok(2) by (simp add: b)
qed simp

lemma tables_ok_empty: "tables_ok [] emptyKeymap"
  by (simp add: tables_ok_def emptyKeymap_def heads_def)

section \<open>What a build keeps\<close>

definition resolved_of :: "specs \<Rightarrow> Action list" where
  "resolved_of specs = sort_key a_Order (List.map_filter (\<lambda>(i, _). Lookup i) specs)"

definition parsed_of :: "(nat \<Rightarrow> nat) \<Rightarrow> specs \<Rightarrow> parsedBinding list" where
  "parsed_of ulower specs = List.map_filter (\<lambda>(a, seqs, _). if seqs = [] then None else Some (a, seqs))
     (map (\<lambda>a. (a, parse_binding ulower specs a)) (resolved_of specs))"

definition kept_of :: "(nat \<Rightarrow> nat) \<Rightarrow> specs \<Rightarrow> (string \<times> nat) list option \<Rightarrow> parsedBinding list" where
  "kept_of ulower specs origin = fst (resolveShadowing (parsed_of ulower specs) origin)"

definition specs_ok :: "specs \<Rightarrow> bool" where
  "specs_ok specs \<longleftrightarrow> distinct (map fst specs) \<and> (\<forall>(i, s) \<in> set specs. ascii s)"

lemma build_eq: "fst (buildWithOrigin ulower specs origin) = fst (foldl insert_binding (emptyKeymap, []) (kept_of ulower specs origin))"
  by (simp add: buildWithOrigin_def Let_def kept_of_def parsed_of_def resolved_of_def split: prod.splits)

lemma Lookup_ID: "Lookup i = Some a \<Longrightarrow> a_ID a = i \<and> a \<in> set registry"
  by (auto simp: Lookup_def dest!: map_of_SomeD)

lemma resolved_distinct:
  assumes "distinct (map fst specs)"
  shows "distinct (map a_ID (resolved_of specs))"
proof -
  let ?f = "List.map_filter (\<lambda>(i, _). Lookup i)"
  have "distinct (map a_ID (?f specs)) \<and> a_ID ` set (?f specs) \<subseteq> fst ` set specs" using assms
  proof (induction specs)
    case (Cons x specs)
    obtain i s where x: "x = (i, s)" by (cases x)
    show ?case
    proof (cases "Lookup i")
      case (Some a)
      then have "a_ID a = i" using Lookup_ID by simp
      moreover have "i \<notin> a_ID ` set (?f specs)" using Cons by (auto simp: x)
      ultimately show ?thesis using Cons Some by (auto simp: x List.map_filter_simps)
    qed (use Cons in \<open>auto simp: x List.map_filter_simps\<close>)
  qed (simp add: List.map_filter_simps)
  moreover have "mset (map a_ID (resolved_of specs)) = mset (map a_ID (?f specs))" by (simp add: resolved_of_def)
  ultimately show ?thesis using mset_eq_imp_distinct_iff by blast
qed

lemma registry_ascii: "list_all (\<lambda>a. ascii (a_Default a)) registry"
  by (simp add: registry_def mk_action_def)

lemma parse_binding_ok:
  assumes "specs_ok specs" "a \<in> set (resolved_of specs)" "parse_binding ulower specs a = (seqs, cs)"
  shows "list_all seq_ok seqs"
proof -
  have "a \<in> set registry" using assms(2) Lookup_ID by (auto simp: resolved_of_def List.map_filter_def)
  have "a_ID a \<in> fst ` set specs" using assms(2) Lookup_ID by (force simp: resolved_of_def List.map_filter_def)
  then obtain s where s: "map_of specs (a_ID a) = Some s" "ascii s"
    using assms(1) by (auto simp: specs_ok_def)
  have "ascii (a_Default a)" using registry_ascii \<open>a \<in> set registry\<close> by (simp add: list_all_iff)
  then show ?thesis using assms(3) s ParseSpec_ok by (auto simp: parse_binding_def split: sum.splits)
qed

lemma parsed_facts:
  assumes "specs_ok specs"
  shows "distinct (map (a_ID \<circ> fst) (parsed_of ulower specs))" "pairs_ok (parsed_of ulower specs)"
    "(a, q) \<in> set (pairs (parsed_of ulower specs)) \<longleftrightarrow> a \<in> set (resolved_of specs) \<and> q \<in> set (fst (parse_binding ulower specs a))"
proof -
  have e: "parsed_of ulower specs = filter (\<lambda>(a, qs). qs \<noteq> []) (map (\<lambda>a. (a, fst (parse_binding ulower specs a))) (resolved_of specs))"
    by (simp add: parsed_of_def List.map_filter_def case_prod_beta comp_def filter_map)
  have "distinct (map (a_ID \<circ> fst) (map (\<lambda>a. (a, fst (parse_binding ulower specs a))) (resolved_of specs)))"
    using resolved_distinct assms by (simp add: comp_def specs_ok_def)
  then show "distinct (map (a_ID \<circ> fst) (parsed_of ulower specs))" unfolding e by (rule distinct_map_filter)
  show m: "(a, q) \<in> set (pairs (parsed_of ulower specs)) \<longleftrightarrow> a \<in> set (resolved_of specs) \<and> q \<in> set (fst (parse_binding ulower specs a))" for a q
    unfolding e by (force simp: pairs_def)
  show "pairs_ok (parsed_of ulower specs)"
    unfolding pairs_ok_def
  proof
    fix x assume "x \<in> set (pairs (parsed_of ulower specs))"
    then have "fst x \<in> set (resolved_of specs)" "snd x \<in> set (fst (parse_binding ulower specs (fst x)))"
      using m [of "fst x" "snd x"] by simp_all
    then show "seq_ok (snd x)"
      using parse_binding_ok [OF assms, of "fst x" ulower] by (cases "parse_binding ulower specs (fst x)") (auto simp: list_all_iff)
  qed
qed

text \<open>The keymap a build returns, against the alternatives that survive.\<close>

definition kept_pairs :: "(nat \<Rightarrow> nat) \<Rightarrow> specs \<Rightarrow> (string \<times> nat) list option \<Rightarrow> (Action \<times> Sequence) list" where
  "kept_pairs ulower specs origin = pairs (kept_of ulower specs origin)"

lemma kept_facts:
  assumes "specs_ok specs"
  shows "(a, q) \<in> set (kept_pairs ulower specs origin) \<longleftrightarrow>
      (a, q) \<in> set (pairs (parsed_of ulower specs)) \<and> \<not> unreachable (layerOf origin) (pairs (parsed_of ulower specs)) (a, q)"
    "\<forall>x \<in> set (kept_pairs ulower specs origin). seq_ok (snd x)"
    "distinct (map (a_ID \<circ> fst) (kept_of ulower specs origin))"
    "tables_ok (kept_pairs ulower specs origin) (fst (buildWithOrigin ulower specs origin))"
    "q \<in> set (Bindings (fst (buildWithOrigin ulower specs origin)) i) \<longleftrightarrow>
      (\<exists>a. (a, q) \<in> set (kept_pairs ulower specs origin) \<and> a_ID a = i)"
proof -
  note P = parsed_facts [OF assms]
  let ?km = "fst (buildWithOrigin ulower specs origin)"
  show k: "(a, q) \<in> set (kept_pairs ulower specs origin) \<longleftrightarrow>
      (a, q) \<in> set (pairs (parsed_of ulower specs)) \<and> \<not> unreachable (layerOf origin) (pairs (parsed_of ulower specs)) (a, q)" for a q
    unfolding kept_pairs_def kept_of_def by (rule resolve_kept(1) [OF P(1)])
  show ok: "\<forall>x \<in> set (kept_pairs ulower specs origin). seq_ok (snd x)"
    using k P(2) by (force simp: pairs_ok_def)
  show d: "distinct (map (a_ID \<circ> fst) (kept_of ulower specs origin))"
    unfolding kept_of_def using P(1) resolve_kept(2) [OF P(1)] by (metis map_map)
  have b: "tables_ok (kept_pairs ulower specs origin) ?km"
      "km_bindings ?km = map (\<lambda>(a, qs). (a_ID a, qs)) (filter (\<lambda>(a, qs). qs \<noteq> []) (kept_of ulower specs origin))"
    using foldl_bindings [of "[]" "(emptyKeymap, [])" "kept_of ulower specs origin"] ok tables_ok_empty
    by (simp_all add: build_eq kept_pairs_def pairs_ok_def emptyKeymap_def)
  show "tables_ok (kept_pairs ulower specs origin) ?km" by (rule b(1))
  have d': "distinct (map fst (km_bindings ?km))"
    using distinct_map_filter [OF d, of "\<lambda>(a, qs). qs \<noteq> []"] by (simp add: b(2) comp_def case_prod_beta)
  have n: "qs \<noteq> []" if "(j, qs) \<in> set (km_bindings ?km)" for j qs using that by (auto simp: b(2))
  have "qs = Bindings ?km i \<and> qs \<noteq> [] \<longleftrightarrow> (i, qs) \<in> set (km_bindings ?km)" for qs
  proof (cases "map_of (km_bindings ?km) i")
    case None
    then have "Bindings ?km i = []" by (simp add: Bindings_def)
    moreover have "(i, qs) \<notin> set (km_bindings ?km)" using None by (metis map_of_eq_None_iff fst_conv imageI)
    ultimately show ?thesis by blast
  next
    case (Some x)
    then have x: "(i, x) \<in> set (km_bindings ?km)" by (rule map_of_SomeD)
    have "Bindings ?km i = x" using Some by (simp add: Bindings_def)
    moreover have "(i, qs) \<in> set (km_bindings ?km) \<longleftrightarrow> qs = x" using Some map_of_eq_Some_iff [OF d', of i qs] by auto
    ultimately show ?thesis using n [OF x] by blast
  qed
  then have "q \<in> set (Bindings ?km i) \<longleftrightarrow> (\<exists>qs. (i, qs) \<in> set (km_bindings ?km) \<and> q \<in> set qs)"
    by (metis empty_iff list.set(1))
  also have "\<dots> \<longleftrightarrow> (\<exists>a qs. (a, qs) \<in> set (kept_of ulower specs origin) \<and> a_ID a = i \<and> q \<in> set qs)"
    unfolding b(2) by (auto simp: image_iff) (metis empty_iff list.set(1))
  also have "\<dots> \<longleftrightarrow> (\<exists>a. (a, q) \<in> set (kept_pairs ulower specs origin) \<and> a_ID a = i)"
    unfolding kept_pairs_def in_pairs_set by auto
  finally show "q \<in> set (Bindings ?km i) \<longleftrightarrow> (\<exists>a. (a, q) \<in> set (kept_pairs ulower specs origin) \<and> a_ID a = i)" .
qed

section \<open>Matching\<close>

text \<open>The alternative that owns a sequence: the first of the registry order, early chords before late ones.\<close>

definition fires :: "(Action \<times> Sequence) list \<Rightarrow> Sequence \<Rightarrow> string option" where
  "fires ps s = owner (if 1 < length s then find (\<lambda>x. snd x = s) ps
     else case find (\<lambda>x. a_Tier (fst x) = TierEarly \<and> snd x = s) ps of
       Some x \<Rightarrow> Some x | None \<Rightarrow> find (\<lambda>x. a_Tier (fst x) = TierLate \<and> snd x = s) ps)"

lemma find_SomeD: "find P xs = Some x \<Longrightarrow> P x \<and> x \<in> set xs"
  by (induction xs) (auto split: if_splits)

lemma fires_Some: "fires ps s = Some i \<Longrightarrow> \<exists>x \<in> set ps. snd x = s \<and> a_ID (fst x) = i"
  by (auto simp: fires_def split: if_splits option.splits dest!: find_SomeD)

lemma heads_ok: "\<forall>x \<in> set ps. seq_ok (snd x) \<Longrightarrow> h \<in> heads ps \<Longrightarrow> seq_ok h"
  by (force simp: heads_def seq_ok_def list_all_iff dest: in_set_takeD)

lemma find_cong_set: "(\<And>x. x \<in> set xs \<Longrightarrow> P x = Q x) \<Longrightarrow> find P xs = find Q xs"
  by (induction xs) auto

lemma MatchSeq_spec:
  assumes "tables_ok ps km" "\<forall>x \<in> set ps. seq_ok (snd x)" "seq_ok s"
  shows "fires ps s = Some i \<Longrightarrow> MatchSeq km s = (i, MatchExact)"
    "fires ps s = None \<Longrightarrow> s \<in> heads ps \<Longrightarrow> snd (MatchSeq km s) = MatchPartial"
    "fires ps s = None \<Longrightarrow> s \<notin> heads ps \<Longrightarrow> MatchSeq km s = ([], MatchNone)"
proof -
  have n: "s \<noteq> []" using assms(3) by (simp add: seq_ok_def)
  have e: "seq_string (snd x) = seq_string s \<longleftrightarrow> snd x = s" if "x \<in> set ps" for x
    using that assms(2,3) seq_string_inj by blast
  have f: "find (\<lambda>x. Q x \<and> seq_string (snd x) = seq_string s) ps = find (\<lambda>x. Q x \<and> snd x = s) ps" for Q
    by (rule find_cong_set) (use e in auto)
  have h: "seq_string s \<in> seq_string ` heads ps \<longleftrightarrow> s \<in> heads ps"
    using heads_ok [OF assms(2)] assms(3) seq_string_inj by blast
  have g: "find (\<lambda>x. is_long x \<and> snd x = s) ps = (if 1 < length s then find (\<lambda>x. snd x = s) ps else None)"
    "find (\<lambda>x. is_chord t x \<and> snd x = s) ps = (if 1 < length s then None else find (\<lambda>x. a_Tier (fst x) = t \<and> snd x = s) ps)" for t
    by (auto simp: find_None_iff is_long_def is_chord_def intro!: find_cong_set)
  have T: "map_of (km_seqs km) (seq_string s) = owner (if 1 < length s then find (\<lambda>x. snd x = s) ps else None)"
    "map_of (km_early km) (seq_string s) = owner (if 1 < length s then None else find (\<lambda>x. a_Tier (fst x) = TierEarly \<and> snd x = s) ps)"
    "map_of (km_late km) (seq_string s) = owner (if 1 < length s then None else find (\<lambda>x. a_Tier (fst x) = TierLate \<and> snd x = s) ps)"
    "map_of (km_partial km) (seq_string s) \<noteq> None \<longleftrightarrow> s \<in> heads ps"
    using assms(1) h by (simp_all only: tables_ok_def f g)
  have l: "length s = 1 \<longleftrightarrow> \<not> 1 < length s" using n by (cases s) auto
  have m: "fires ps s = Some i \<longrightarrow> MatchSeq km s = (i, MatchExact)"
    "fires ps s = None \<longrightarrow> MatchSeq km s = (case map_of (km_partial km) (seq_string s) of Some i \<Rightarrow> (i, MatchPartial) | None \<Rightarrow> ([], MatchNone))" for i
    using T(1,2,3) n l by (cases "1 < length s"; auto simp: fires_def MatchSeq_def Let_def split: option.splits)+
  show "fires ps s = Some i \<Longrightarrow> MatchSeq km s = (i, MatchExact)" using m(1) by blast
  show "fires ps s = None \<Longrightarrow> s \<in> heads ps \<Longrightarrow> snd (MatchSeq km s) = MatchPartial"
    using m(2) T(4) by (auto split: option.splits)
  show "fires ps s = None \<Longrightarrow> s \<notin> heads ps \<Longrightarrow> MatchSeq km s = ([], MatchNone)"
    using m(2) T(4) by (auto split: option.splits)
qed

section \<open>Typing\<close>

lemma tables_exact:
  assumes "tables_ok ps km" "\<forall>x \<in> set ps. seq_ok (snd x)" "seq_ok s" "MatchSeq km s = (i, MatchExact)"
  shows "\<exists>a. (a, s) \<in> set ps \<and> a_ID a = i"
proof -
  have "fires ps s = Some i"
    using MatchSeq_spec [OF assms(1-3)] assms(4) by (cases "fires ps s"; cases "s \<in> heads ps") auto
  from fires_Some [OF this] show ?thesis by (metis prod.collapse)
qed

lemma head_partial:
  assumes "tables_ok ps km" "\<forall>x \<in> set ps. seq_ok (snd x)"
    and q: "(a, q) \<in> set ps" "1 \<le> n" "n < length q" and none: "\<And>b. (b, take n q) \<notin> set ps"
  shows "snd (MatchSeq km (take n q)) = MatchPartial"
proof -
  have h: "take n q \<in> heads ps" using q by (auto simp: heads_def)
  have "fires ps (take n q) = None"
  proof (rule ccontr)
    assume "fires ps (take n q) \<noteq> None"
    then obtain i where "fires ps (take n q) = Some i" by blast
    from fires_Some [OF this] obtain x where "x \<in> set ps" "snd x = take n q" by blast
    then show False using none [of "fst x"] by (metis prod.collapse)
  qed
  then show ?thesis using MatchSeq_spec(2) [OF assms(1,2) heads_ok [OF assms(2) h]] h by blast
qed

lemma type_keys_append:
  "type_keys u k pane (xs @ ys) m = (case type_keys u k pane xs m of (m', rs) \<Rightarrow>
     case type_keys u k pane ys m' of (m'', rs') \<Rightarrow> (m'', rs @ rs'))"
  by (induction xs arbitrary: m) (auto split: prod.splits)

lemma step_partial:
  assumes "canonical c" "snd (MatchSeq km (pendingSeq m @ [c])) = MatchPartial"
    and "pendingSeq m = [] \<or> pendingPane m = pane \<and> chord_string c \<noteq> ''esc'' \<and> pendingSeq m \<noteq> [c]"
  obtains m' where "stepSequence u km pane (chord_string c) m = (m', [], True)"
    "pendingSeq m' = pendingSeq m @ [c]" "pendingPane m' = pane"
proof -
  obtain i where i: "MatchSeq km (pendingSeq m @ [c]) = (i, MatchPartial)" using assms(2) by (metis prod.collapse)
  show ?thesis
  proof (cases "pendingSeq m = []")
    case True
    then show ?thesis using i by (intro that [of "fst (stepSequence u km pane (chord_string c) m)"]) (simp_all add: stepSequence_def ParseChord_string [OF assms(1)])
  next
    case False
    then show ?thesis using i assms(3) by (intro that [of "fst (stepSequence u km pane (chord_string c) m)"]) (simp_all add: stepSequence_def ParseChord_string [OF assms(1)])
  qed
qed

lemma step_exact:
  assumes "canonical c" "MatchSeq km (pendingSeq m @ [c]) = (i, MatchExact)"
    and "pendingSeq m \<noteq> []" "pendingPane m = pane" "chord_string c \<noteq> ''esc''" "pendingSeq m \<noteq> [c]"
  obtains m' where "stepSequence u km pane (chord_string c) m = (m', i, False)" "pendingSeq m' = []"
  using assms(2-) by (intro that [of "fst (stepSequence u km pane (chord_string c) m)"]) (simp_all add: stepSequence_def ParseChord_string [OF assms(1)] cancelSequence_def)

lemma next_ok:
  assumes "\<forall>c \<in> set (tl q). chord_string c \<noteq> ''esc''" "1 < length q \<longrightarrow> q ! 1 \<noteq> q ! 0" "n < length q"
  shows "n = 0 \<or> chord_string (q ! n) \<noteq> ''esc'' \<and> take n q \<noteq> [q ! n]"
proof (cases n)
  case (Suc k)
  then have "q ! n = tl q ! k" "k < length (tl q)" using assms(3) by (simp_all add: nth_tl)
  then have "chord_string (q ! n) \<noteq> ''esc''" using assms(1) by simp
  moreover have "take n q \<noteq> [q ! n]"
  proof
    assume t: "take n q = [q ! n]"
    have "length (take n q) = 1" unfolding t by simp
    then have "n = 1" using assms(3) by simp
    then show False using t assms(2,3) arg_cong [OF t, of hd] by (cases q) auto
  qed
  ultimately show ?thesis by simp
qed simp

lemma type_heads:
  assumes "seq_ok q" "pendingSeq m = []" "n < length q"
    and partial: "\<And>k. 1 \<le> k \<Longrightarrow> k < length q \<Longrightarrow> snd (MatchSeq km (take k q)) = MatchPartial"
    and keys: "\<forall>c \<in> set (tl q). chord_string c \<noteq> ''esc''" "1 < length q \<longrightarrow> q ! 1 \<noteq> q ! 0"
  shows "\<exists>m'. type_keys u km pane (map chord_string (take n q)) m = (m', replicate n ([], True))
    \<and> pendingSeq m' = take n q \<and> (n = 0 \<or> pendingPane m' = pane)"
  using assms(3)
proof (induction n)
  case (Suc n)
  then obtain m' where m': "type_keys u km pane (map chord_string (take n q)) m = (m', replicate n ([], True))"
      "pendingSeq m' = take n q" "n = 0 \<or> pendingPane m' = pane" by auto
  have l: "n < length q" using Suc.prems by simp
  have t: "take (Suc n) q = take n q @ [q ! n]" using l by (rule take_Suc_conv_app_nth)
  have c: "canonical (q ! n)" using assms(1) l by (simp add: seq_ok_def list_all_length)
  have g: "pendingSeq m' = [] \<or> pendingPane m' = pane \<and> chord_string (q ! n) \<noteq> ''esc'' \<and> pendingSeq m' \<noteq> [q ! n]"
    using m'(2,3) next_ok [OF keys l] l by (cases "n = 0") auto
  have p: "snd (MatchSeq km (pendingSeq m' @ [q ! n])) = MatchPartial"
    using partial [of "Suc n"] Suc.prems t m'(2) by simp
  obtain m'' where "stepSequence u km pane (chord_string (q ! n)) m' = (m'', [], True)"
      "pendingSeq m'' = pendingSeq m' @ [q ! n]" "pendingPane m'' = pane"
    by (rule step_partial [OF c p g])
  then show ?case using m' t by (simp add: type_keys_append replicate_append_same)
qed (use assms(2) in simp)

section \<open>Layers\<close>

lemma add_layer_merged:
  "fst (add_layer (i, layer) st) = foldl (\<lambda>m (ident, spec). AList.update ident spec m) (fst st) layer"
proof -
  have "fst (foldl (\<lambda>(merged, origin) (ident, spec). (AList.update ident spec merged, AList.update ident i origin)) st layer)
      = foldl (\<lambda>m (ident, spec). AList.update ident spec m) (fst st) layer"
    by (induction layer arbitrary: st) (auto simp: case_prod_beta)
  then show ?thesis by (simp add: add_layer_def)
qed

lemma update_specs_ok: "specs_ok m \<Longrightarrow> ascii s \<Longrightarrow> specs_ok (AList.update i s m)"
proof -
  have "set (AList.update i s m) \<subseteq> insert (i, s) (set m)" by (induction m) auto
  then show "specs_ok m \<Longrightarrow> ascii s \<Longrightarrow> specs_ok (AList.update i s m)" by (auto simp: specs_ok_def distinct_update)
qed

lemma merge_ok: "specs_ok m \<Longrightarrow> \<forall>(i, s) \<in> set layer. ascii s \<Longrightarrow> specs_ok (foldl (\<lambda>m (i, s). AList.update i s m) m layer)"
  by (induction layer arbitrary: m) (auto simp: update_specs_ok)

definition layers_ok :: "specs list \<Rightarrow> bool" where
  "layers_ok layers \<longleftrightarrow> (\<forall>layer \<in> set layers. \<forall>(i, s) \<in> set layer. ascii s)"

lemma Resolve_ok: "layers_ok layers \<Longrightarrow> specs_ok (Resolve layers)"
proof -
  assume l: "layers_ok layers"
  have "specs_ok (fst (fold add_layer ls st))" if "specs_ok (fst st)" "\<forall>x \<in> set ls. \<forall>(i, s) \<in> set (snd x). ascii s" for ls st
    using that
  proof (induction ls arbitrary: st)
    case (Cons x ls)
    have "specs_ok (fst (add_layer x st))"
      using add_layer_merged [of "fst x" "snd x" st] merge_ok [OF Cons.prems(1), of "snd x"] Cons.prems(2) by simp
    then show ?case using Cons by simp
  qed simp
  moreover have "\<forall>x \<in> set (enumerate 0 layers). \<forall>(i, s) \<in> set (snd x). ascii s"
    using l by (auto simp: layers_ok_def set_enumerate)
  moreover have "specs_ok (fst ([], []))" by (simp add: specs_ok_def)
  ultimately show ?thesis unfolding Resolve_def resolveWithOrigin_def by blast
qed

definition origin_of :: "specs list \<Rightarrow> (string \<times> nat) list option" where
  "origin_of layers = Some (snd (resolveWithOrigin layers))"

lemma BuildLayered_eq: "BuildLayered ulower layers = buildWithOrigin ulower (Resolve layers) (origin_of layers)"
  by (simp add: BuildLayered_def Resolve_def origin_of_def split: prod.splits)

lemmas layered = kept_facts [OF Resolve_ok]

text \<open>The alternatives an action asks for: those of the spec of the highest layer that names it.\<close>

definition wanted :: "(nat \<Rightarrow> nat) \<Rightarrow> specs list \<Rightarrow> string \<Rightarrow> Sequence list" where
  "wanted ulower layers i = (case Lookup i of
     None \<Rightarrow> []
   | Some a \<Rightarrow> if i \<in> fst ` set (Resolve layers) then fst (parse_binding ulower (Resolve layers) a) else [])"

lemma resolved_iff: "a \<in> set (resolved_of specs) \<longleftrightarrow> Lookup (a_ID a) = Some a \<and> a_ID a \<in> fst ` set specs"
proof -
  have "a \<in> set (resolved_of specs) \<longleftrightarrow> (\<exists>i \<in> fst ` set specs. Lookup i = Some a)"
    by (force simp: resolved_of_def List.map_filter_def)
  then show ?thesis by (metis Lookup_ID)
qed

lemma parsed_wanted:
  assumes "layers_ok layers"
  shows "(\<exists>a. (a, q) \<in> set (pairs (parsed_of ulower (Resolve layers))) \<and> a_ID a = i) \<longleftrightarrow> q \<in> set (wanted ulower layers i)"
    (is "?l \<longleftrightarrow> ?r")
proof
  assume ?l
  then show ?r by (auto simp: parsed_facts(3) [OF Resolve_ok [OF assms]] resolved_iff wanted_def)
next
  assume r: ?r
  then obtain a where "Lookup i = Some a" "i \<in> fst ` set (Resolve layers)" "q \<in> set (fst (parse_binding ulower (Resolve layers) a))"
    by (cases "Lookup i") (auto simp: wanted_def split: if_splits)
  then show ?l using Lookup_ID [of i a] by (auto simp: parsed_facts(3) [OF Resolve_ok [OF assms]] resolved_iff)
qed

section \<open>Properties\<close>

text \<open>C24. Which bindings survive. After layering, an action is bound to exactly those alternatives of its
  spec (that of the highest layer naming it) that no other action's alternative makes unreachable: a
  longer one it is a proper prefix of, from the same layer or a higher one, or a proper prefix of it from
  a strictly higher layer. So a user's override always beats a preset, within a layer the shorter one
  yields, and the order in which bindings are visited does not matter.\<close>

theorem shadow_rule:
  assumes "layers_ok layers" "BuildLayered ulower layers = (km, conflicts)"
  defines "lay \<equiv> layerOf (origin_of layers)"
  shows "q \<in> set (Bindings km i) \<longleftrightarrow> q \<in> set (wanted ulower layers i)
    \<and> \<not> (\<exists>j p. j \<noteq> i \<and> p \<in> set (wanted ulower layers j)
          \<and> (isProperPrefix q p \<and> lay i \<le> lay j \<or> isProperPrefix p q \<and> lay i < lay j))"
proof -
  let ?P = "pairs (parsed_of ulower (Resolve layers))"
  note W = parsed_wanted [OF assms(1)]
  have ids: "a = b" if "(a, q) \<in> set ?P" "(b, p) \<in> set ?P" "a_ID a = a_ID b" for a b p q
    using that by (auto simp: parsed_facts(3) [OF Resolve_ok [OF assms(1)]] resolved_iff)
  have u: "unreachable lay ?P (a, q) \<longleftrightarrow> (\<exists>j p. j \<noteq> a_ID a \<and> p \<in> set (wanted ulower layers j)
          \<and> (isProperPrefix q p \<and> lay (a_ID a) \<le> lay j \<or> isProperPrefix p q \<and> lay (a_ID a) < lay j))" for a
  proof -
    have "(\<exists>y \<in> set ?P. Q (a_ID (fst y)) (snd y)) \<longleftrightarrow> (\<exists>j p. (\<exists>b. (b, p) \<in> set ?P \<and> a_ID b = j) \<and> Q j p)" for Q by force
    from this [of "\<lambda>j p. j \<noteq> a_ID a \<and> (isProperPrefix q p \<and> lay (a_ID a) \<le> lay j \<or> isProperPrefix p q \<and> lay (a_ID a) < lay j)"]
    show ?thesis unfolding unreachable_def fst_conv snd_conv W by (simp only: conj_left_commute [of "_ \<in> _"])
  qed
  have km: "km = fst (buildWithOrigin ulower (Resolve layers) (origin_of layers))"
    using assms(2) by (simp add: BuildLayered_eq)
  have "q \<in> set (Bindings km i) \<longleftrightarrow> (\<exists>a. (a, q) \<in> set ?P \<and> \<not> unreachable lay ?P (a, q) \<and> a_ID a = i)"
    unfolding km layered(5) [OF assms(1)] layered(1) [OF assms(1)] lay_def by blast
  then show ?thesis unfolding u W [symmetric] by blast
qed


section \<open>A small keymap\<close>

text \<open>A user layer that binds a prefix over a default that is the prefix itself.\<close>

definition sample_layers :: "specs list" where
  "sample_layers = [[(''tab.new'', ''ctrl+b'')], [(''tab.close'', ''ctrl+b c'')]]"

definition sample_keymap :: Keymap where
  "sample_keymap = \<lparr>km_early = [], km_late = [], km_bindings = [(''tab.close'', [[Chord 1 ''b'', Chord 0 ''c'']])],
     km_seqs = [(''ctrl+b c'', ''tab.close'')], km_partial = [(''ctrl+b'', ''tab.close'')]\<rparr>"

lemma sample_layers_ok: "layers_ok sample_layers"
  by (simp add: layers_ok_def sample_layers_def ascii_def)

lemma sample_resolve: "resolveWithOrigin sample_layers =
    ([(''tab.new'', ''ctrl+b''), (''tab.close'', ''ctrl+b c'')], [(''tab.new'', 0), (''tab.close'', 1)])"
  by (simp add: sample_layers_def resolveWithOrigin_def add_layer_def)

lemma sample_lookup:
  "Lookup ''tab.new'' = Some (mk_action ''tab.new'' ''New tab'' ''Tabs'' TierLate 2100 ''ctrl+t'' False)"
  "Lookup ''tab.close'' = Some (mk_action ''tab.close'' ''Close tab'' ''Tabs'' TierLate 2400 ''alt+w'' False)"
  by (simp_all add: Lookup_def registry_def mk_action_def)

lemma sample_build: "BuildLayered ulower sample_layers =
    (sample_keymap, [Conflict ConflictShadowed ''ctrl+b'' ''tab.close'' ''tab.new'' No_detail])"
  by (simp add: BuildLayered_def sample_resolve buildWithOrigin_def sample_lookup mk_action_def List.map_filter_def
      parse_binding_def sample_spec resolveShadowing_def alternatives_def shadow_scan_def shadow_pair_def
      layerOf_def isProperPrefix_def keep_alts_def insert_binding_def insert_alt_def emptyKeymap_def add_partials_def add_new_def
      detectShadowing_def seq_string_def join_with_def sample_strings upt_rec sample_keymap_def)

theorem shadow_rule_witness:
  "[Chord 1 ''b''] \<notin> set (Bindings sample_keymap ''tab.new'')
   \<and> (\<exists>p. p \<in> set (wanted id sample_layers ''tab.close'') \<and> isProperPrefix [Chord 1 ''b''] p)"
proof -
  have w: "wanted id sample_layers ''tab.new'' = [[Chord 1 ''b'']]"
    by (simp add: wanted_def Resolve_def sample_resolve sample_lookup parse_binding_def sample_spec mk_action_def)
  have l: "layerOf (origin_of sample_layers) ''tab.new'' = 0" by (simp add: origin_of_def sample_resolve layerOf_def)
  have "[Chord 1 ''b''] \<notin> set (Bindings sample_keymap ''tab.new'')" by (simp add: Bindings_def sample_keymap_def)
  moreover from this have "\<exists>j p. p \<in> set (wanted id sample_layers j) \<and> isProperPrefix [Chord 1 ''b''] p \<and> j = ''tab.close''"
    by (intro exI [of _ "''tab.close''"] exI [of _ "[Chord 1 ''b'', Chord 0 ''c'']"])
      (simp add: wanted_def Resolve_def sample_resolve sample_lookup parse_binding_def sample_spec mk_action_def isProperPrefix_def)
  ultimately show ?thesis
    using shadow_rule [OF sample_layers_ok sample_build, of "[Chord 1 ''b'']" "''tab.new''"] w l by auto
qed


section \<open>Nothing else fires\<close>

text \<open>What the machine sees: a key press while \<open>pane\<close> is active, a timeout tick, or an unconditional cancel (a
  paste, a mouse click).\<close>

datatype seq_event = Press (ev_pane: string) (ev_key: string) | Timeout int | Cancel

fun seq_event_step :: "(nat \<Rightarrow> nat) \<Rightarrow> Keymap \<Rightarrow> seq_event \<Rightarrow> seq_state \<Rightarrow> seq_state \<times> string" where
  "seq_event_step ulower km (Press pane key) m = (case stepSequence ulower km pane key m of (m', i, _) \<Rightarrow> (m', i))"
| "seq_event_step ulower km (Timeout gen) m = (sequence_timeout gen m, [])"
| "seq_event_step ulower km Cancel m = (cancelSequence m, [])"

definition seq_run :: "(nat \<Rightarrow> nat) \<Rightarrow> Keymap \<Rightarrow> seq_event list \<Rightarrow> seq_state \<Rightarrow> seq_state" where
  "seq_run ulower km evs m = fold (\<lambda>e m. fst (seq_event_step ulower km e m)) evs m"

text \<open>The presses since the last cancel.\<close>

definition typed :: "seq_event list \<Rightarrow> seq_event list" where
  "typed evs = filter (\<lambda>e. \<forall>g. e \<noteq> Timeout g) (rev (takeWhile (\<lambda>e. e \<noteq> Cancel) (rev evs)))"

text \<open>The chords \<open>q\<close> are the last presses of \<open>evs\<close>, all in \<open>pane\<close>.\<close>

definition just_typed :: "(nat \<Rightarrow> nat) \<Rightarrow> string \<Rightarrow> Sequence \<Rightarrow> seq_event list \<Rightarrow> bool" where
  "just_typed ulower pane q evs \<longleftrightarrow> (\<exists>keys. map (ParseChord ulower) keys = map Inr q
      \<and> suffix (map (Press pane) keys) (typed evs))"

lemma typed_snoc [simp]:
  "typed (evs @ [Press pane key]) = typed evs @ [Press pane key]" "typed (evs @ [Timeout g]) = typed evs" "typed (evs @ [Cancel]) = []"
  by (simp_all add: typed_def)

lemma just_typed_nil [simp]: "just_typed ulower pane [] evs"
  by (simp add: just_typed_def)

lemma just_typed_snoc:
  "just_typed ulower pane q evs \<Longrightarrow> ParseChord ulower key = Inr c \<Longrightarrow> just_typed ulower pane (q @ [c]) (evs @ [Press pane key])"
proof -
  assume a: "just_typed ulower pane q evs" "ParseChord ulower key = Inr c"
  then obtain keys where "map (ParseChord ulower) keys = map Inr q" "suffix (map (Press pane) keys) (typed evs)"
    by (auto simp: just_typed_def)
  with a(2) show ?thesis unfolding just_typed_def by (intro exI [of _ "keys @ [key]"]) simp
qed

lemma cancel_pending [simp]: "pendingSeq (cancelSequence m) = []"
  by (simp add: cancelSequence_def)

lemma step_result:
  assumes "stepSequence ulower km pane key m = (m', i, b)"
  shows "pendingSeq m' = [] \<or> pendingPane m' = pane \<and> (\<exists>c q. ParseChord ulower key = Inr c
        \<and> (q = [] \<or> q = pendingSeq m \<and> pendingPane m = pane) \<and> pendingSeq m' = q @ [c])" (is ?next)
    and "i \<noteq> [] \<Longrightarrow> pendingPane m = pane \<and> pendingSeq m \<noteq> [] \<and> pendingSeq m' = []
      \<and> (\<exists>c. ParseChord ulower key = Inr c \<and> MatchSeq km (pendingSeq m @ [c]) = (i, MatchExact))" (is "_ \<Longrightarrow> ?fires")
proof -
  let ?m1 = "m\<lparr>seqFlash := None\<rparr>"
  define M where "M = (if pendingSeq ?m1 \<noteq> [] \<and> pane \<noteq> pendingPane ?m1 then cancelSequence ?m1 else ?m1)"
  have M: "pendingSeq M = [] \<or> pendingSeq M = pendingSeq m \<and> pendingPane m = pane" by (simp add: M_def)
  have s: "(case ParseChord ulower key of
       Inl _ \<Rightarrow> if pendingSeq M \<noteq> [] then (cancelSequence M, [], True) else (M, [], False)
     | Inr c \<Rightarrow>
         if key = ''esc'' \<and> pendingSeq M \<noteq> [] then (cancelSequence M, [], True)
         else if pendingSeq M = [c] then (cancelSequence M, [], False)
         else let cand = pendingSeq M @ [c] in
           (case MatchSeq km cand of
              (i, MatchPartial) \<Rightarrow> (M\<lparr>pendingSeq := cand, pendingPane := pane, pendingGen := pendingGen M + 1\<rparr>, [], True)
            | (i, MatchExact) \<Rightarrow> if length cand = 1 then (M, [], False) else (cancelSequence M, i, False)
            | (i, MatchNone) \<Rightarrow>
                if pendingSeq M \<noteq> [] then (cancelSequence (M\<lparr>seqFlash := Some (pendingSeq M)\<rparr>), [], True)
                else (M, [], False))) = (m', i, b)"
    using assms unfolding stepSequence_def M_def Let_def .
  have "?next \<and> (i \<noteq> [] \<longrightarrow> ?fires)"
  proof (cases "ParseChord ulower key")
    case (Inl e)
    then show ?thesis using s by (auto split: if_splits)
  next
    case (Inr c)
    obtain j k where k: "MatchSeq km (pendingSeq M @ [c]) = (j, k)" by fastforce
    show ?thesis
    proof (cases "key = ''esc'' \<and> pendingSeq M \<noteq> [] \<or> pendingSeq M = [c]")
      case True
      then show ?thesis using s by (auto simp: Inr split: if_splits)
    next
      case False
      then have g: "\<not> (key = ''esc'' \<and> pendingSeq M \<noteq> [])" "pendingSeq M \<noteq> [c]" by blast+
      have "(case (j, k) of
              (i, MatchPartial) \<Rightarrow> (M\<lparr>pendingSeq := pendingSeq M @ [c], pendingPane := pane, pendingGen := pendingGen M + 1\<rparr>, [], True)
            | (i, MatchExact) \<Rightarrow> if length (pendingSeq M @ [c]) = 1 then (M, [], False) else (cancelSequence M, i, False)
            | (i, MatchNone) \<Rightarrow>
                if pendingSeq M \<noteq> [] then (cancelSequence (M\<lparr>seqFlash := Some (pendingSeq M)\<rparr>), [], True)
                else (M, [], False)) = (m', i, b)"
        using s unfolding Inr sum.case if_not_P [OF g(1)] if_not_P [OF g(2)] Let_def k .
      then consider "pendingSeq m' = [] \<and> i = []"
        | "pendingSeq M = [] \<or> pendingPane m = pane \<and> pendingSeq M = pendingSeq m" "i = []"
            "pendingSeq m' = pendingSeq M @ [c]" "pendingPane m' = pane"
        | "pendingSeq M \<noteq> []" "k = MatchExact" "pendingSeq m' = []" "i = j"
        using M by (cases k; clarsimp split: if_splits; auto)
      then show ?thesis
      proof cases
        case 2
        then show ?thesis using Inr by auto
      next
        case 3
        then have "pendingSeq M = pendingSeq m" "pendingPane m = pane" using M by auto
        then show ?thesis using 3 k Inr by auto
      qed simp
    qed
  qed
  then show ?next "i \<noteq> [] \<Longrightarrow> ?fires" by blast+
qed

lemma run_pending:
  assumes "pendingSeq m0 = []"
  shows "just_typed ulower (pendingPane (seq_run ulower km evs m0)) (pendingSeq (seq_run ulower km evs m0)) evs"
proof (induction evs rule: rev_induct)
  case Nil
  then show ?case using assms by (simp add: seq_run_def)
next
  case (snoc e evs)
  let ?m = "seq_run ulower km evs m0"
  have r: "seq_run ulower km (evs @ [e]) m0 = fst (seq_event_step ulower km e ?m)" by (simp add: seq_run_def)
  show ?case
  proof (cases e)
    case (Press pane key)
    obtain m' i b where s: "stepSequence ulower km pane key ?m = (m', i, b)" by (metis prod_cases3)
    from step_result(1) [OF s] just_typed_snoc [OF snoc.IH, of key] just_typed_snoc [OF just_typed_nil, of ulower key _ pane evs]
    show ?thesis unfolding r by (auto simp: Press s)
  next
    case (Timeout g)
    then show ?thesis unfolding r using snoc.IH by (auto simp: sequence_timeout_def just_typed_def)
  next
    case Cancel
    then show ?thesis unfolding r by simp
  qed
qed

text \<open>C26. No sequence fires by accident. From an idle state, whatever keys are pressed in whatever panes, with
  timeouts and cancels anywhere between, an action is reported only when the keys just pressed, all in
  the pane that is active now and with no cancel among them, are two or more chords the keymap binds to
  exactly that action; and the machine is then idle again.\<close>

theorem sequence_sound:
  assumes "pendingSeq m0 = []" "seq_event_step ulower km (Press pane key) (seq_run ulower km evs m0) = (m', i)" "i \<noteq> []"
  shows "pendingSeq m' = [] \<and> (\<exists>q. 1 < length q \<and> MatchSeq km q = (i, MatchExact)
    \<and> just_typed ulower pane q (evs @ [Press pane key]))"
proof -
  let ?m = "seq_run ulower km evs m0"
  obtain b where s: "stepSequence ulower km pane key ?m = (m', i, b)" using assms(2) by (auto split: prod.splits)
  from step_result(2) [OF s assms(3)] obtain c where c: "pendingPane ?m = pane" "pendingSeq ?m \<noteq> []" "pendingSeq m' = []"
      "ParseChord ulower key = Inr c" "MatchSeq km (pendingSeq ?m @ [c]) = (i, MatchExact)" by blast
  have "just_typed ulower pane (pendingSeq ?m) evs" using run_pending [OF assms(1), of ulower km evs] c(1) by simp
  from just_typed_snoc [OF this c(4)] c show ?thesis by (intro conjI exI [of _ "pendingSeq ?m @ [c]"]) (simp_all add: Suc_lessI)
qed

theorem sequence_sound_witness:
  "\<exists>q. 1 < length q \<and> MatchSeq sample_keymap q = (''tab.close'', MatchExact)
    \<and> just_typed id ''pane-1'' q [Press ''pane-2'' ''ctrl+b'', Press ''pane-1'' ''ctrl+b'', Timeout 1, Press ''pane-1'' ''c'']"
proof -
  let ?m0 = "\<lparr>pendingSeq = [], pendingPane = [], pendingGen = 0, seqFlash = None\<rparr>"
  have p: "ParseChord id ''ctrl+b'' = Inr (Chord 1 ''b'')" "ParseChord id ''c'' = Inr (Chord 0 ''c'')"
    using ParseChord_string [OF sample_canonical(1), of id] ParseChord_string [OF sample_canonical(2), of id] by (simp_all add: sample_strings)
  have r: "seq_run id sample_keymap [Press ''pane-2'' ''ctrl+b'', Press ''pane-1'' ''ctrl+b'', Timeout 1] ?m0
      = \<lparr>pendingSeq = [Chord 1 ''b''], pendingPane = ''pane-1'', pendingGen = 3, seqFlash = None\<rparr>"
    by (simp add: seq_run_def stepSequence_def p MatchSeq_def sample_keymap_def seq_string_def join_with_def sample_strings
        cancelSequence_def sequence_timeout_def Let_def)
  have "fst (seq_event_step id sample_keymap (Press ''pane-1'' ''c'')
      (seq_run id sample_keymap [Press ''pane-2'' ''ctrl+b'', Press ''pane-1'' ''ctrl+b'', Timeout 1] ?m0)) = x \<Longrightarrow>
    seq_event_step id sample_keymap (Press ''pane-1'' ''c'')
      (seq_run id sample_keymap [Press ''pane-2'' ''ctrl+b'', Press ''pane-1'' ''ctrl+b'', Timeout 1] ?m0) = (x, ''tab.close'')" for x
    unfolding r by (auto simp: stepSequence_def p MatchSeq_def sample_keymap_def seq_string_def join_with_def sample_strings Let_def)
  from sequence_sound [OF _ this [OF refl]] show ?thesis by simp
qed

end
