(* ===== verification/Keymap_Web.thy ===== *)
theory Keymap_Web
  imports Keymap_Props
begin

text \<open>
  The browser's view of a resolved keymap (\<open>ForWeb\<close> in \<open>internal/keymap/web.go\<close>) and the help screen's
  grouping (\<open>ActionsByGroup\<close> in \<open>action.go\<close>). The fallback table is an argument: it is a TOML file.
\<close>

section \<open>Groups\<close>

definition GroupOrder :: "string list" where
  "GroupOrder = [''System'', ''Projects'', ''Tabs'', ''Panes'', ''Pane navigation'', ''Notifications'']"

definition ActionsByGroup :: "string list \<times> (string \<Rightarrow> Action list)" where
  "ActionsByGroup =
    (let byGroup = (\<lambda>g. sort_key a_Order (filter (\<lambda>a. a_Group a = g) registry));
         keys = remdups (map a_Group registry)
     in (filter (\<lambda>g. g \<in> set keys) GroupOrder @ sort (filter (\<lambda>g. g \<notin> set GroupOrder) keys), byGroup))"

section \<open>The browser's keymap\<close>

record WebAction =
  wa_ID :: string
  wa_Label :: string
  wa_Group :: string
  wa_Tier :: string
  wa_Keys :: "string list"
  wa_Fallback :: string
  wa_FallbackUnavailable :: bool

record WebBuiltin =
  wb_ID :: string
  wb_Label :: string
  wb_Keys :: "string list"
  wb_Fallback :: string
  wb_FallbackUnavailable :: bool

record WebKeymap =
  wk_Preset :: string
  wk_Prefix :: string
  wk_TimeoutMs :: int
  wk_GroupOrder :: "string list"
  wk_Actions :: "WebAction list"
  wk_Builtins :: "WebBuiltin list"
  wk_Conflicts :: "Conflict list"

definition webBuiltins :: "(string \<times> string \<times> string) list" where
  "webBuiltins = [(''help'', ''Help menu'', ''f1''), (''new_pane'', ''New pane'', ''ctrl+n'')]"

text \<open>The loop over the registry, with the fallbacks handed out so far.\<close>

fun web_actions :: "(nat \<Rightarrow> nat) \<Rightarrow> (string \<Rightarrow> string option) \<Rightarrow> Keymap \<Rightarrow> Action list \<Rightarrow> string list
    \<Rightarrow> WebAction list \<times> string list" where
  "web_actions ulower fallbacks k [] used = ([], used)"
| "web_actions ulower fallbacks k (a # as) used =
    (if a_Hidden a then web_actions ulower fallbacks k as used
     else case swap_keys ulower fallbacks k (a_ID a) (winning ulower k a) used of (keys, fb, na, used') \<Rightarrow>
       case web_actions ulower fallbacks k as used' of (rows, used'') \<Rightarrow>
         (\<lparr>wa_ID = a_ID a, wa_Label = a_Label a, wa_Group = a_Group a,
            wa_Tier = (case a_Tier a of TierEarly \<Rightarrow> ''early'' | TierLate \<Rightarrow> ''late''),
            wa_Keys = keys, wa_Fallback = fb, wa_FallbackUnavailable = na\<rparr> # rows, used''))"

fun web_builtins :: "(nat \<Rightarrow> nat) \<Rightarrow> (string \<Rightarrow> string option) \<Rightarrow> Keymap \<Rightarrow> (string \<times> string \<times> string) list \<Rightarrow> string list
    \<Rightarrow> WebBuiltin list \<times> string list" where
  "web_builtins ulower fallbacks k [] used = ([], used)"
| "web_builtins ulower fallbacks k ((ident, label, chord) # bs) used =
    (let keys0 = (if chordFreeOfActions ulower k chord then [chord] else []) in
     case swap_keys ulower fallbacks k (''builtin.'' @ ident) keys0 used of (keys, fb, na, used') \<Rightarrow>
       case web_builtins ulower fallbacks k bs used' of (rows, used'') \<Rightarrow>
         (\<lparr>wb_ID = ident, wb_Label = label, wb_Keys = keys, wb_Fallback = fb, wb_FallbackUnavailable = na\<rparr> # rows, used''))"

definition ForWeb :: "(nat \<Rightarrow> nat) \<Rightarrow> (string \<Rightarrow> string option) \<Rightarrow> Resolved \<Rightarrow> WebKeymap" where
  "ForWeb ulower fallbacks r =
    (case web_actions ulower fallbacks (rs_Keymap r) registry [] of (actions, used) \<Rightarrow>
     case web_builtins ulower fallbacks (rs_Keymap r) webBuiltins used of (builtins, _) \<Rightarrow>
       \<lparr>wk_Preset = rs_Preset r, wk_Prefix = rs_Prefix r,
        wk_TimeoutMs = sgn (rs_Timeout r) * (\<bar>rs_Timeout r\<bar> div 1000000),
        wk_GroupOrder = GroupOrder, wk_Actions = actions, wk_Builtins = builtins, wk_Conflicts = rs_Conflicts r\<rparr>)"

section \<open>One key, one meaning\<close>

text \<open>The shipped table: canonical chords, as \<open>TestWebFallbacks_TableIsSound\<close> pins.\<close>

definition table_ok :: "(nat \<Rightarrow> nat) \<Rightarrow> (string \<Rightarrow> string option) \<Rightarrow> bool" where
  "table_ok ulower fallbacks \<longleftrightarrow>
     (\<forall>i fb. fallbacks i = Some fb \<longrightarrow> (\<exists>c. canonical c \<and> fb = chord_string c) \<and> \<not> isReserved ulower fb)"

text \<open>How a key came into a row: it wins dispatch for the action, or it is a fallback handed out here.\<close>

definition fallback_key :: "(nat \<Rightarrow> nat) \<Rightarrow> Keymap \<Rightarrow> string list \<Rightarrow> string list \<Rightarrow> string \<Rightarrow> bool" where
  "fallback_key ulower k used used' key \<longleftrightarrow>
     key \<notin> set used \<and> key \<in> set used' \<and> chordFree ulower k key \<and> (\<exists>c. canonical c \<and> key = chord_string c)"

lemma swap_keys_result:
  assumes "swap_keys ulower fallbacks k i keys used = (out, fb, na, used')" "table_ok ulower fallbacks"
  shows "set used \<subseteq> set used'"
    "key \<in> set out \<Longrightarrow> \<not> isReserved ulower key \<and> (key \<in> set keys \<or> fallback_key ulower k used used' key)"
  using assms by (auto simp: swap_keys_def Let_def table_ok_def fallback_key_def split: if_splits option.splits)

text \<open>The two loops are one loop over the rows' table keys and candidate keys.\<close>

fun swap_all :: "(nat \<Rightarrow> nat) \<Rightarrow> (string \<Rightarrow> string option) \<Rightarrow> Keymap \<Rightarrow> (string \<times> string list) list \<Rightarrow> string list
    \<Rightarrow> string list list \<times> string list" where
  "swap_all ulower fallbacks k [] used = ([], used)"
| "swap_all ulower fallbacks k ((i, keys) # rest) used =
    (case swap_keys ulower fallbacks k i keys used of (out, _, _, used') \<Rightarrow>
      case swap_all ulower fallbacks k rest used' of (rows, used'') \<Rightarrow> (out # rows, used''))"

lemma swap_all_append:
  "swap_all ulower fallbacks k (xs @ ys) used = (case swap_all ulower fallbacks k xs used of (rows, used') \<Rightarrow>
     case swap_all ulower fallbacks k ys used' of (rows', used'') \<Rightarrow> (rows @ rows', used''))"
  by (induction xs arbitrary: used) (auto split: prod.splits)

lemma web_actions_swap:
  "web_actions ulower fallbacks k as used = (rows, used') \<Longrightarrow>
    swap_all ulower fallbacks k (map (\<lambda>a. (a_ID a, winning ulower k a)) (filter (\<lambda>a. \<not> a_Hidden a) as)) used = (map wa_Keys rows, used')"
  by (induction as arbitrary: used rows used') (auto split: prod.splits if_splits)

lemma web_builtins_swap:
  "web_builtins ulower fallbacks k bs used = (rows, used') \<Longrightarrow>
    swap_all ulower fallbacks k (map (\<lambda>(i, _, chord). (''builtin.'' @ i, if chordFreeOfActions ulower k chord then [chord] else [])) bs) used
      = (map wb_Keys rows, used')"
  by (induction bs arbitrary: used rows used') (auto simp: Let_def split: prod.splits if_splits)

abbreviation apart :: "string list \<Rightarrow> string list \<Rightarrow> bool" where
  "apart x y \<equiv> set x \<inter> set y = {}"

lemma swap_all_ok:
  assumes t: "table_ok ulower fallbacks"
    and no: "\<And>x key c. x \<in> set items \<Longrightarrow> key \<in> set (snd x) \<Longrightarrow> canonical c \<Longrightarrow> key = chord_string c \<Longrightarrow> \<not> chordFree ulower k key"
    and d: "sorted_wrt apart (map snd items)"
    and s: "swap_all ulower fallbacks k items used = (rows, used')"
  shows "sorted_wrt apart rows \<and> set used \<subseteq> set used'
    \<and> (\<forall>row \<in> set rows. \<forall>key \<in> set row. \<not> isReserved ulower key
        \<and> ((\<exists>x \<in> set items. key \<in> set (snd x)) \<or> fallback_key ulower k used used' key))"
  using no d s
proof (induction items arbitrary: used rows used')
  case (Cons x items)
  obtain i keys where x: "x = (i, keys)" by (cases x)
  obtain out fb na u1 where o: "swap_keys ulower fallbacks k i keys used = (out, fb, na, u1)" by (metis prod_cases4)
  obtain rest where r: "swap_all ulower fallbacks k items u1 = (rest, used')" "rows = out # rest"
    using Cons.prems(3) by (auto simp: x o split: prod.splits)
  note O = swap_keys_result [OF o t]
  have d: "sorted_wrt apart (map snd items)" using Cons.prems(2) by simp
  have n: "\<And>x key c. x \<in> set items \<Longrightarrow> key \<in> set (snd x) \<Longrightarrow> canonical c \<Longrightarrow> key = chord_string c \<Longrightarrow> \<not> chordFree ulower k key"
    by (rule Cons.prems(1)) simp_all
  have IH: "sorted_wrt apart rest \<and> set u1 \<subseteq> set used'
    \<and> (\<forall>row \<in> set rest. \<forall>key \<in> set row. \<not> isReserved ulower key
        \<and> ((\<exists>x \<in> set items. key \<in> set (snd x)) \<or> fallback_key ulower k u1 used' key))"
    by (rule Cons.IH [OF n d r(1)])
  have "apart out row" if row: "row \<in> set rest" for row
  proof (rule ccontr)
    assume "\<not> apart out row"
    then obtain key where k: "key \<in> set out" "key \<in> set row" by blast
    have 1: "key \<in> set keys \<or> fallback_key ulower k used u1 key" using O(2) k(1) by blast
    have 2: "(\<exists>y \<in> set items. key \<in> set (snd y)) \<or> fallback_key ulower k u1 used' key" using IH row k(2) by blast
    have 3: "\<not> (key \<in> set keys \<and> (\<exists>y \<in> set items. key \<in> set (snd y)))"
      using Cons.prems(2) by (auto simp: x)
    have 4: "\<not> (fallback_key ulower k u u' key \<and> (key \<in> set keys \<or> (\<exists>y \<in> set items. key \<in> set (snd y))))" for u u'
      using Cons.prems(1) [of x key] n [of _ key] by (auto simp: fallback_key_def x)
    have 5: "\<not> (fallback_key ulower k used u1 key \<and> fallback_key ulower k u1 used' key)" by (simp add: fallback_key_def)
    show False using 1 2 3 4 5 by blast
  qed
  moreover have "fallback_key ulower k used u1 key \<or> fallback_key ulower k u1 used' key \<Longrightarrow> fallback_key ulower k used used' key" for key
    using O(1) IH by (auto simp: fallback_key_def)
  ultimately show ?case using IH O r(2) by (fastforce simp: x)
qed simp

lemma winning_seq: "key \<in> set (winning ulower k a) \<longleftrightarrow> (\<exists>q \<in> set (Bindings k (a_ID a)). key = seq_string q \<and> wins ulower k a q)"
  by (auto simp: winning_def)

lemma wins_single:
  assumes "canonical c" "wins ulower k a [c]"
  shows "map_of (km_chords k (a_Tier a)) (chord_string c) = Some (a_ID a)"
    "a_Tier a = TierLate \<Longrightarrow> map_of (km_early k) (chord_string c) = None"
  using assms by (auto simp: wins_def Let_def MatchTier_def ParseChord_string km_chords_def split: if_splits)

text \<open>Two actions never win with the same key.\<close>

lemma wins_unique:
  assumes "seq_ok q" "wins ulower k a q" "wins ulower k b q"
  shows "a_ID a = a_ID b"
proof (cases "1 < length q")
  case True
  then show ?thesis using assms(2,3) by (simp add: wins_def)
next
  case False
  then obtain c where q: "q = [c]" "canonical c" using assms(1) by (cases q) (auto simp: seq_ok_def)
  note a = wins_single [OF q(2) assms(2) [unfolded q(1)]]
  note b = wins_single [OF q(2) assms(3) [unfolded q(1)]]
  show ?thesis using a b by (cases "a_Tier a"; cases "a_Tier b") (simp_all add: km_chords_def)
qed

text \<open>A key that wins is not free.\<close>

lemma wins_not_free:
  assumes "seq_ok q" "wins ulower k a q" "canonical c" "seq_string q = chord_string c"
  shows "\<not> chordFreeOfActions ulower k (chord_string c)"
proof -
  have q: "q = [c]" using seq_string_inj [OF assms(1), of "[c]"] assms(3,4) by (simp add: seq_ok_def)
  have "MatchSeq k [c] \<noteq> (x, MatchNone)" for x
    using wins_single [OF assms(3) assms(2) [unfolded q]]
    by (cases "a_Tier a") (auto simp: MatchSeq_def Let_def km_chords_def split: option.splits)
  then show ?thesis by (cases "MatchSeq k [c]") (auto simp: chordFreeOfActions_def ParseChord_string [OF assms(3)])
qed

lemma builtin_chords:
  "canonical (Chord 0 ''f1'')" "chord_string (Chord 0 ''f1'') = ''f1''"
  "canonical (Chord 1 ''n'')" "chord_string (Chord 1 ''n'') = ''ctrl+n''"
  "hardcodedKeys ''f1'' \<noteq> None" "hardcodedKeys ''ctrl+n'' \<noteq> None"
  by (simp_all add: canonical_def key_ok_def modNames_def keyAliases_def graphic_char_def ascii_lower_def chord_string_def
      mod_text_def ModCtrl_def ModAlt_def ModShift_def ModSuper_def hardcodedKeys_def)

lemma registry_distinct: "distinct (map a_ID registry)"
  by (simp add: registry_def mk_action_def)

definition binds_ok :: "Keymap \<Rightarrow> bool" where
  "binds_ok k \<longleftrightarrow> (\<forall>i. \<forall>q \<in> set (Bindings k i). seq_ok q)"

lemma built_binds_ok:
  assumes "layers_ok layers"
  shows "binds_ok (fst (BuildLayered ulower layers))"
proof -
  have "seq_ok q" if "q \<in> set (Bindings (fst (buildWithOrigin ulower (Resolve layers) (origin_of layers))) i)" for q i
    using that layered(2) [OF assms, of ulower "origin_of layers"] unfolding layered(5) [OF assms] by force
  then show ?thesis by (simp add: binds_ok_def BuildLayered_eq)
qed

definition web_items :: "(nat \<Rightarrow> nat) \<Rightarrow> Keymap \<Rightarrow> (string \<times> string list) list" where
  "web_items ulower k = map (\<lambda>a. (a_ID a, winning ulower k a)) (filter (\<lambda>a. \<not> a_Hidden a) registry)
     @ map (\<lambda>(i, _, chord). (''builtin.'' @ i, if chordFreeOfActions ulower k chord then [chord] else [])) webBuiltins"

lemma win_apart:
  assumes "binds_ok k" "a_ID a \<noteq> a_ID b"
  shows "apart (winning ulower k a) (winning ulower k b)"
proof (rule ccontr)
  assume "\<not> ?thesis"
  then obtain p q where p: "p \<in> set (Bindings k (a_ID a))" "wins ulower k a p"
      and q: "q \<in> set (Bindings k (a_ID b))" "wins ulower k b q" "seq_string p = seq_string q"
    by (auto simp: winning_def)
  have ok: "seq_ok p" "seq_ok q" using assms(1) p(1) q(1) by (simp_all add: binds_ok_def)
  have "p = q" by (rule seq_string_inj [OF ok q(3)])
  then show False using wins_unique [OF ok(1) p(2)] q(2) assms(2) by simp
qed

lemma win_not_free:
  assumes "binds_ok k" "key \<in> set (winning ulower k a)" "canonical c" "key = chord_string c"
  shows "\<not> chordFreeOfActions ulower k key"
proof -
  obtain q where q: "q \<in> set (Bindings k (a_ID a))" "wins ulower k a q" "key = seq_string q"
    using assms(2) by (auto simp: winning_def)
  then have "seq_ok q" using assms(1) by (simp add: binds_ok_def)
  then show ?thesis using wins_not_free [OF _ q(2) assms(3)] q(3) assms(4) by simp
qed

lemma items_apart:
  assumes "binds_ok k"
  shows "sorted_wrt apart (map snd (web_items ulower k))"
proof -
  have "sorted_wrt apart (map (\<lambda>a. winning ulower k a) (filter (\<lambda>a. \<not> a_Hidden a) as))" if "distinct (map a_ID as)" for as
    using that
  proof (induction as)
    case (Cons a as)
    then have "apart (winning ulower k a) (winning ulower k b)" if "b \<in> set as" for b
      using win_apart [OF assms, of a b] that by (metis image_eqI list.simps(9) distinct.simps(2) list.set_map)
    then show ?case using Cons by auto
  qed simp
  from this [OF registry_distinct] have 1: "sorted_wrt apart (map (\<lambda>a. winning ulower k a) (filter (\<lambda>a. \<not> a_Hidden a) registry))" .
  have 2: "apart (winning ulower k a) (if chordFreeOfActions ulower k chord then [chord] else [])"
    if "canonical c" "chord = chord_string c" for a c chord
    using win_not_free [OF assms _ that] by auto
  have 3: "apart (winning ulower k a) (if chordFreeOfActions ulower k ''f1'' then [''f1''] else [])"
      "apart (winning ulower k a) (if chordFreeOfActions ulower k ''ctrl+n'' then [''ctrl+n''] else [])" for a
    using 2 [OF builtin_chords(1) builtin_chords(2) [symmetric]] 2 [OF builtin_chords(3) builtin_chords(4) [symmetric]] by blast+
  have m: "map snd (web_items ulower k) = map (\<lambda>a. winning ulower k a) (filter (\<lambda>a. \<not> a_Hidden a) registry)
      @ [if chordFreeOfActions ulower k ''f1'' then [''f1''] else [], if chordFreeOfActions ulower k ''ctrl+n'' then [''ctrl+n''] else []]"
    by (simp add: web_items_def webBuiltins_def comp_def)
  have "apart (if b then [''f1''] else []) (if b' then [''ctrl+n''] else [])" for b b' by (cases b; cases b') simp_all
  then show ?thesis unfolding m sorted_wrt_append using 1 3 by auto
qed

lemma items_not_free:
  assumes "binds_ok k" "x \<in> set (web_items ulower k)" "key \<in> set (snd x)" "canonical c" "key = chord_string c"
  shows "\<not> chordFree ulower k key"
proof -
  have h: "chordFree ulower k key \<Longrightarrow> hardcodedKeys key = None"
    using ParseChord_string [OF assms(4), of ulower] assms(5) by (simp add: chordFree_def split: if_splits)
  consider a where "key \<in> set (winning ulower k a)" | "key = ''f1''" | "key = ''ctrl+n''"
    using assms(2,3) by (auto simp: web_items_def webBuiltins_def split: if_splits)
  then show ?thesis
  proof cases
    case 1
    then show ?thesis using win_not_free [OF assms(1) _ assms(4,5)] by (auto simp: chordFree_def split: sum.splits)
  qed (use builtin_chords(5,6) h in blast)+
qed

section \<open>From the settings file\<close>

lemma ReplaceAll_ascii: "ascii s \<Longrightarrow> ascii new \<Longrightarrow> ascii (ReplaceAll s old new)"
proof (induction s old new rule: ReplaceAll.induct)
  case (1 s old new)
  then have "ascii (drop n s)" "s \<noteq> [] \<Longrightarrow> ascii (tl s) \<and> (of_char (hd s) :: nat) < 128" for n
    by (auto simp: ascii_def dest: in_set_dropD list.set_sel(2))
  then show ?case using 1 by (subst ReplaceAll.simps) (auto simp: ascii_def)
qed

lemma canonical_ascii: "canonical c \<Longrightarrow> ascii (chord_string c)"
  using canonical_graphic graphic_ascii by blast

text \<open>As for the steps of a spec, but the space may be around the chord.\<close>

lemma ParseChord_trimmed:
  assumes "ParseChord ulower s = Inr c" "ascii s" "CHR '' '' \<notin> set (TrimSpace s)"
  shows "canonical c"
proof -
  obtain m rest where m: "take_mods ulower 0 (TrimSpace s) = Inr (m, rest)" "base_key ulower m rest = Inr c"
    using assms(1) by (auto simp: ParseChord_def Let_def split: if_splits sum.splits)
  have t: "m < 16" "CHR ''+'' \<notin> set rest \<or> rest = ''+''" "suffix rest (TrimSpace s)" using take_mods_Some [OF m(1)] by auto
  then have "set rest \<subseteq> set (TrimSpace s)" by (auto simp: suffix_def)
  then have "ascii rest" "CHR '' '' \<notin> set rest" using assms(2,3) set_TrimSpace [of s] by (auto simp: ascii_def)
  then show ?thesis using base_key_Some [OF m(2)] t by (simp add: canonical_def)
qed

lemma validatePrefix_ascii: "validatePrefix ulower p = Inr x \<Longrightarrow> ascii p \<Longrightarrow> ascii x"
proof -
  assume p: "validatePrefix ulower p = Inr x" "ascii p"
  then obtain c where c: "ParseChord ulower p = Inr c" "x = chord_string c" "\<not> contains '' '' (TrimSpace p)"
    by (auto simp: validatePrefix_def split: if_splits sum.splits)
  have "CHR '' '' \<notin> set (TrimSpace p)"
  proof
    assume "CHR '' '' \<in> set (TrimSpace p)"
    then obtain a b where "TrimSpace p = a @ '' '' @ b" by (auto simp: in_set_conv_decomp)
    then show False using c(3) contains_iff by blast
  qed
  then show ?thesis using ParseChord_trimmed [OF c(1) p(2)] canonical_ascii c(2) by simp
qed

definition ascii_specs :: "specs \<Rightarrow> bool" where
  "ascii_specs m \<longleftrightarrow> (\<forall>(i, s) \<in> set m. ascii s)"

lemma update_ascii: "ascii_specs m \<Longrightarrow> ascii s \<Longrightarrow> ascii_specs (AList.update i s m)"
proof -
  have "set (AList.update i s m) \<subseteq> insert (i, s) (set m)" by (induction m) auto
  then show "ascii_specs m \<Longrightarrow> ascii s \<Longrightarrow> ascii_specs (AList.update i s m)" by (auto simp: ascii_specs_def)
qed

lemma ExpandPrefix_ascii:
  assumes "ascii_specs m" "ascii p"
  shows "ascii_specs (fst (ExpandPrefix ulower m p))"
proof -
  have e: "ascii_specs (fst (expand_entry (validatePrefix ulower p) (i, s) st))" if "ascii_specs (fst st)" "ascii s" for i s st
    using that validatePrefix_ascii [OF _ assms(2), of ulower]
    by (auto simp: expand_entry_def update_ascii ReplaceAll_ascii split: sum.splits)
  have "ascii_specs (fst (foldl (\<lambda>st e. expand_entry (validatePrefix ulower p) e st) st xs))"
    if "ascii_specs (fst st)" "ascii_specs xs" for st xs
    using that
  proof (induction xs arbitrary: st)
    case (Cons x xs)
    obtain i s where x: "x = (i, s)" by (cases x)
    have "ascii s" "ascii_specs xs" using Cons.prems(2) by (simp_all add: ascii_specs_def x)
    then show ?case using Cons.IH [of "expand_entry (validatePrefix ulower p) x st"] e [OF Cons.prems(1)] by (simp add: x)
  qed simp
  moreover have "ascii_specs (fst ([], []))" by (simp add: ascii_specs_def)
  ultimately show ?thesis using assms(1) by (cases "m = []") (simp_all add: ExpandPrefix_def)
qed

text \<open>The presets and the settings hold ASCII texts.\<close>

definition ascii_settings :: "(string \<Rightarrow> Preset option) \<Rightarrow> Settings \<Rightarrow> bool" where
  "ascii_settings files s \<longleftrightarrow> ascii (st_Prefix s) \<and> ascii_specs (st_Overrides s)
     \<and> (\<forall>n p. files n = Some p \<longrightarrow> ascii (ps_Prefix p) \<and> ascii_specs (ps_Bindings p))"

lemma DefaultLayer_ascii: "ascii_specs DefaultLayer"
proof -
  have "ascii_specs (foldl (\<lambda>m a. AList.update (a_ID a) (a_Default a) m) m as)"
    if "ascii_specs m" "list_all (\<lambda>a. ascii (a_Default a)) as" for m as
    using that by (induction as arbitrary: m) (simp_all add: update_ascii)
  moreover have "list_all (\<lambda>a. ascii (a_Default a)) registry" by (simp add: registry_def mk_action_def ascii_def)
  moreover have "ascii_specs []" by (simp add: ascii_specs_def)
  ultimately show ?thesis unfolding DefaultLayer_def by blast
qed

lemma FromSettings_layers:
  assumes "ascii_settings files s"
  obtains layers where "layers_ok layers" "rs_Keymap (FromSettings ulower files duration s) = fst (BuildLayered ulower layers)"
proof -
  obtain name pl p t w where p: "select_preset files duration s = (name, pl, p, t, w)" by (metis prod_cases5)
  have "ascii p \<and> ascii_specs pl"
    using p assms by (auto simp: select_preset_def LoadPreset_def ascii_settings_def ascii_specs_def Let_def split: if_splits option.splits prod.splits)
  then have "layers_ok [fst (ExpandPrefix ulower DefaultLayer p), fst (ExpandPrefix ulower pl p), fst (ExpandPrefix ulower (st_Overrides s) p)]"
    using ExpandPrefix_ascii DefaultLayer_ascii assms by (auto simp: layers_ok_def ascii_settings_def simp flip: ascii_specs_def)
  moreover have "rs_Keymap (FromSettings ulower files duration s) = fst (BuildLayered ulower
      [fst (ExpandPrefix ulower DefaultLayer p), fst (ExpandPrefix ulower pl p), fst (ExpandPrefix ulower (st_Overrides s) p)])"
    by (simp add: FromSettings_def p split: prod.splits)
  ultimately show ?thesis by (rule that)
qed

text \<open>A prefix whose key is the comma is accepted when it is spelled \<open>comma\<close>, but its canonical form has the
  comma in it, so a binding that uses it expands to a text that is not a spec.\<close>

lemma comma_prefix_breaks:
  "validatePrefix ulower ''ctrl+comma'' = Inr ''ctrl+,''"
  "ParseSpec ulower (ReplaceAll ''${prefix} c'' prefixVar ''ctrl+,'') = Inl (Bad_chord Ends_with_modifier)"
proof -
  have g: "graphic ''ctrl+comma''" "graphic ''ctrl+''" by (simp_all add: graphic_char_def)
  have m: "take_mods ulower 0 ''ctrl+comma'' = Inr (1, ''comma'')" "take_mods ulower 0 ''ctrl+'' = Inr (1, [])"
    using take_mods_names(1) [of ulower 0 "''comma''"] take_mods_names(1) [of ulower 0 "[]"] by (simp_all add: take_mods_key)
  have b: "base_key ulower 1 ''comma'' = Inr (Chord 1 '','')"
  proof -
    have "graphic ''comma''" by (simp add: graphic_char_def)
    then show ?thesis using validate_graphic [of "'',''"]
      by (simp add: base_key_def RuneCountInString_def runes_graphic ToLower_ascii graphic_ascii ascii_lower_def modNames_def keyAliases_def graphic_char_def)
  qed
  show "validatePrefix ulower ''ctrl+comma'' = Inr ''ctrl+,''"
    using b m(1) by (simp add: validatePrefix_def TrimSpace_graphic [OF g(1)] ParseChord_def prefix_def chord_string_def mod_text_def
        ModCtrl_def ModAlt_def ModShift_def ModSuper_def)
  have r: "ReplaceAll ''${prefix} c'' prefixVar ''ctrl+,'' = ''ctrl+, c''"
    by (simp add: prefixVar_def ReplaceAll.simps)
  have t: "TrimSpace ''ctrl+, c'' = ''ctrl+, c''" by (rule TrimSpace_ends) (simp_all add: graphic_char_def)
  show "ParseSpec ulower (ReplaceAll ''${prefix} c'' prefixVar ''ctrl+,'') = Inl (Bad_chord Ends_with_modifier)"
    unfolding r ParseSpec_def t using m(2)
    by (simp add: trim_set_def ParseChord_def TrimSpace_graphic [OF g(2)] base_key_def)
qed

text \<open>C27. In the browser's keymap a key means one thing. Whatever preset and overrides a user has (in ASCII), the
  keys listed for two different actions or builtins never overlap, fallbacks included, and none of them
  is a chord the browser keeps for itself, given a fallback table that holds canonical, deliverable
  chords.\<close>

theorem web_keys_apart:
  fixes duration :: "string \<Rightarrow> int option"
  assumes "ascii_settings files s" "table_ok ulower fallbacks"
  defines "w \<equiv> ForWeb ulower fallbacks (FromSettings ulower files duration s)"
  shows "sorted_wrt apart (map wa_Keys (wk_Actions w) @ map wb_Keys (wk_Builtins w))
    \<and> (\<forall>row \<in> set (map wa_Keys (wk_Actions w) @ map wb_Keys (wk_Builtins w)). \<forall>key \<in> set row. \<not> isReserved ulower key)"
proof -
  let ?k = "rs_Keymap (FromSettings ulower files duration s)"
  obtain layers where "layers_ok layers" "?k = fst (BuildLayered ulower layers)" by (rule FromSettings_layers [OF assms(1)])
  then have k: "binds_ok ?k" using built_binds_ok by simp
  obtain actions used where a: "web_actions ulower fallbacks ?k registry [] = (actions, used)" by fastforce
  obtain builtins used' where b: "web_builtins ulower fallbacks ?k webBuiltins used = (builtins, used')" by fastforce
  have w: "wk_Actions w = actions" "wk_Builtins w = builtins" by (simp_all add: w_def ForWeb_def a b)
  have r: "swap_all ulower fallbacks ?k (web_items ulower ?k) [] = (map wa_Keys actions @ map wb_Keys builtins, used')"
    unfolding web_items_def swap_all_append web_actions_swap [OF a] prod.case web_builtins_swap [OF b] ..
  have "sorted_wrt apart (map wa_Keys actions @ map wb_Keys builtins) \<and> set [] \<subseteq> set used'
    \<and> (\<forall>row \<in> set (map wa_Keys actions @ map wb_Keys builtins). \<forall>key \<in> set row. \<not> isReserved ulower key
        \<and> ((\<exists>x \<in> set (web_items ulower ?k). key \<in> set (snd x)) \<or> fallback_key ulower ?k [] used' key))"
    by (rule swap_all_ok [OF assms(2) _ items_apart [OF k] r]) (rule items_not_free [OF k])
  then show ?thesis unfolding w by blast
qed

lemma isReserved_iff: "isReserved ulower key \<longleftrightarrow> (\<exists>step \<in> set (split_on (CHR '' '') key). step \<in> set BrowserReserved)"
proof -
  have s: "BrowserReserved = map chord_string
      [Chord 1 ''w'', Chord 1 ''t'', Chord 1 ''n'', Chord 1 ''tab'', Chord 5 ''t'', Chord 5 ''n'', Chord 5 ''w'']" (is "_ = map _ ?cs")
    by (simp add: BrowserReserved_def chord_string_def mod_text_def ModCtrl_def ModAlt_def ModShift_def ModSuper_def)
  have "list_all canonical ?cs"
    by (simp add: canonical_def key_ok_def modNames_def keyAliases_def graphic_char_def ascii_lower_def)
  then have "(case ParseChord ulower r of Inl _ \<Rightarrow> False | Inr c \<Rightarrow> chord_string c = step) \<longleftrightarrow> r = step"
    if "r \<in> set BrowserReserved" for r step
    using that unfolding s by (auto simp: ParseChord_string list_all_iff)
  then have "isReserved ulower key \<longleftrightarrow> list_ex (\<lambda>step. list_ex (\<lambda>r. r = step) BrowserReserved) (split_on (CHR '' '') key)"
    unfolding isReserved_def by (intro list_ex_cong [OF refl] list_ex_cong) auto
  then show ?thesis by (auto simp: list_ex_iff)
qed

text \<open>The shipped table, and a user who binds a chord the browser keeps.\<close>

definition shipped_fallbacks :: "string \<Rightarrow> string option" where
  "shipped_fallbacks = map_of [(''pane.close'', ''alt+shift+c''), (''tab.new'', ''alt+shift+t''), (''builtin.new_pane'', ''alt+shift+o'')]"

lemma shipped_ok: "table_ok ulower shipped_fallbacks"
proof -
  have c: "canonical (Chord 6 ''c'')" "canonical (Chord 6 ''t'')" "canonical (Chord 6 ''o'')"
    "chord_string (Chord 6 ''c'') = ''alt+shift+c''" "chord_string (Chord 6 ''t'') = ''alt+shift+t''" "chord_string (Chord 6 ''o'') = ''alt+shift+o''"
    by (simp_all add: canonical_def key_ok_def modNames_def keyAliases_def graphic_char_def chord_string_def mod_text_def
        ModCtrl_def ModAlt_def ModShift_def ModSuper_def)
  have "\<exists>c. canonical c \<and> fb = chord_string c" if "shipped_fallbacks i = Some fb" for i fb
  proof -
    have "fb \<in> set (map chord_string [Chord 6 ''c'', Chord 6 ''t'', Chord 6 ''o''])"
      using that c by (auto simp: shipped_fallbacks_def split: if_splits)
    then show ?thesis using c by auto
  qed
  moreover have "\<not> isReserved ulower fb" if "shipped_fallbacks i = Some fb" for i fb
    using that by (auto simp: isReserved_iff shipped_fallbacks_def BrowserReserved_def split: if_splits)
  ultimately show ?thesis by (simp add: table_ok_def)
qed

definition sample_settings :: Settings where
  "sample_settings = \<lparr>st_Preset = [], st_Prefix = ''ctrl+b'', st_Timeout = 0, st_Overrides = [(''pane.close'', ''${prefix} x,ctrl+w'')]\<rparr>"

lemma sample_settings_ok: "ascii_settings (\<lambda>_. None) sample_settings"
  by (simp add: ascii_settings_def ascii_specs_def ascii_def sample_settings_def)

theorem web_keys_apart_witness:
  "let w = ForWeb id shipped_fallbacks (FromSettings id (\<lambda>_. None) (\<lambda>_. None) sample_settings)
   in sorted_wrt apart (map wa_Keys (wk_Actions w) @ map wb_Keys (wk_Builtins w))"
  unfolding Let_def using web_keys_apart [OF sample_settings_ok shipped_ok, of id "\<lambda>_. None"] by (rule conjunct1)

end
