(* ===== verification/Client_Registry.thy ===== *)
theory Client_Registry
  imports Admission "HOL-Library.AList" "HOL-Library.List_Lexorder" "HOL-Library.Char_ord" "HOL-Library.Product_Lexorder"
begin

text \<open>
  The attached clients and the election of the size master (\<open>internal/daemon/clients.go\<close>, the claims of
  \<open>overlay.go\<close>, the implicit target of \<open>mcp_targets.go\<close>). Connections are numbers, times integers; one
  locked span happens at one instant, \<open>now\<close>. The map of clients is an association list without
  repeated keys. The random part of a minted id is an argument.
\<close>

definition daemonMinClientCols :: int where "daemonMinClientCols = 40"
definition daemonMinClientRows :: int where "daemonMinClientRows = 10"
definition restartReserveCap :: int where "restartReserveCap = 30000000000"
definition maxClientIDLen :: nat where "maxClientIDLen = 64"
definition maxClientDim :: int where "maxClientDim = 1000"
definition PrincipalLocal :: string where "PrincipalLocal = ''local''"

datatype client_error = errClientIDInUse | errClientIDReserved

record clientRecord =
  cr_id :: string
  cr_conn :: nat
  cr_attachedAt :: int
  cr_cols :: int
  cr_rows :: int
  cr_cwd :: string
  cr_lastInputAt :: "int option"
  cr_overlays :: "string set"
  cr_principal :: string
  cr_readOnly :: bool

text \<open>A zero time is \<open>None\<close>; so is the absent map of protected ids.\<close>

record reservation =
  rv_id :: string
  rv_until :: int
  rv_principal :: string
  rv_attachedAt :: "int option"
  rv_protects :: "string list option"

record clientChange =
  ch_master :: bool
  ch_count :: bool
  ch_others :: "nat list"

definition any_change :: "clientChange \<Rightarrow> bool" where
  "any_change c \<longleftrightarrow> ch_master c \<or> ch_count c"

text \<open>The timer holds the time it is due.\<close>

record clientRegistry =
  cg_byConn :: "(nat \<times> clientRecord) list"
  cg_masterID :: string
  cg_reserved :: "reservation option"
  cg_timer :: "int option"
  cg_grace :: int

definition recs :: "clientRegistry \<Rightarrow> clientRecord list" where
  "recs r = map snd (cg_byConn r)"

section \<open>Who may hold the slot\<close>

definition eligible :: "clientRecord \<Rightarrow> bool" where
  "eligible rec \<longleftrightarrow> \<not> cr_readOnly rec \<and> cr_cols rec \<ge> daemonMinClientCols \<and> cr_rows rec \<ge> daemonMinClientRows"

definition reservationAdmits :: "reservation \<Rightarrow> string \<Rightarrow> bool \<Rightarrow> bool" where
  "reservationAdmits res prin readOnly =
    (if readOnly then False else if rv_principal res = [] then prin = PrincipalLocal else rv_principal res = prin)"

definition recordByID :: "clientRegistry \<Rightarrow> string \<Rightarrow> clientRecord option" where
  "recordByID r i = (if i = [] then None else find (\<lambda>rec. cr_id rec = i) (recs r))"

definition shadowedLocked :: "clientRegistry \<Rightarrow> clientRecord \<Rightarrow> bool" where
  "shadowedLocked r rec \<longleftrightarrow> (case cg_reserved r of None \<Rightarrow> False
     | Some res \<Rightarrow> rv_principal res = [] \<and> rv_id res = cr_id rec \<and> cr_principal rec \<noteq> PrincipalLocal)"

definition isMasterLocked :: "clientRegistry \<Rightarrow> clientRecord \<Rightarrow> bool" where
  "isMasterLocked r rec \<longleftrightarrow> cg_masterID r \<noteq> [] \<and> cr_id rec = cg_masterID r \<and> \<not> shadowedLocked r rec"

definition masterRecordLocked :: "clientRegistry \<Rightarrow> clientRecord option" where
  "masterRecordLocked r = (case recordByID r (cg_masterID r) of
     Some rec \<Rightarrow> if shadowedLocked r rec then None else Some rec | None \<Rightarrow> None)"

definition reservedMasterPrefix :: string where "reservedMasterPrefix = ''reserved-for-local:''"

definition reservedMasterMarker :: "string \<Rightarrow> string" where
  "reservedMasterMarker i = (let m = reservedMasterPrefix @ i in m @ replicate (maxClientIDLen + 1 - length m) (CHR ''.''))"

definition publishedMasterLocked :: "clientRegistry \<Rightarrow> string" where
  "publishedMasterLocked r = (case recordByID r (cg_masterID r) of
     Some rec \<Rightarrow> if shadowedLocked r rec then reservedMasterMarker (cg_masterID r) else cg_masterID r
   | None \<Rightarrow> cg_masterID r)"

section \<open>The election\<close>

definition reserveStillProtects :: "clientRegistry \<Rightarrow> reservation \<Rightarrow> bool" where
  "reserveStillProtects r res = (case rv_protects res of None \<Rightarrow> True | Some ids \<Rightarrow> list_ex (\<lambda>rec. cr_id rec \<in> set ids) (recs r))"

text \<open>The order of \<open>oldestEligibleLocked\<close> and \<open>sortedRecordsLocked\<close>.\<close>

definition older :: "clientRecord \<Rightarrow> clientRecord \<Rightarrow> bool" where
  "older a b \<longleftrightarrow> cr_attachedAt a < cr_attachedAt b \<or> cr_attachedAt a = cr_attachedAt b \<and> cr_id a < cr_id b"

definition oldestEligibleLocked :: "clientRegistry \<Rightarrow> clientRecord option" where
  "oldestEligibleLocked r = fold (\<lambda>rec best. if \<not> eligible rec then best
     else case best of None \<Rightarrow> Some rec | Some b \<Rightarrow> if older rec b then Some rec else best) (recs r) None"

definition clearReservationLocked :: "clientRegistry \<Rightarrow> clientRegistry" where
  "clearReservationLocked r = r\<lparr>cg_reserved := None, cg_timer := None\<rparr>"

definition electSlotLocked :: "int \<Rightarrow> clientRegistry \<Rightarrow> clientRegistry" where
  "electSlotLocked now r =
    (if (case masterRecordLocked r of Some rec \<Rightarrow> eligible rec | None \<Rightarrow> False) then r
     else case cg_reserved r of
       Some res \<Rightarrow> if now < rv_until res \<and> reserveStillProtects r res then r\<lparr>cg_masterID := rv_id res\<rparr>
         else (let r1 = clearReservationLocked r in
           r1\<lparr>cg_masterID := (case oldestEligibleLocked r1 of None \<Rightarrow> [] | Some best \<Rightarrow> cr_id best)\<rparr>)
     | None \<Rightarrow> (let r1 = clearReservationLocked r in
         r1\<lparr>cg_masterID := (case oldestEligibleLocked r1 of None \<Rightarrow> [] | Some best \<Rightarrow> cr_id best)\<rparr>))"

definition electLocked :: "int \<Rightarrow> clientRegistry \<Rightarrow> clientRegistry \<times> bool" where
  "electLocked now r = (let r1 = electSlotLocked now r in (r1, publishedMasterLocked r1 \<noteq> publishedMasterLocked r))"

definition reserveLocked :: "int \<Rightarrow> reservation \<Rightarrow> int \<Rightarrow> clientRegistry \<Rightarrow> clientRegistry" where
  "reserveLocked now res d r = (clearReservationLocked r)\<lparr>cg_reserved := Some res, cg_timer := Some (now + d)\<rparr>"

definition stopTimer :: "clientRegistry \<Rightarrow> clientRegistry" where
  "stopTimer r = r\<lparr>cg_timer := None\<rparr>"

text \<open>The timer's callback; the flag says a state frame is due.\<close>

definition expire :: "int \<Rightarrow> clientRegistry \<Rightarrow> clientRegistry \<times> bool" where
  "expire now r = electLocked now r"

section \<open>Attach\<close>

text \<open>Oldest first, ties by id.\<close>

definition sortedRecordsLocked :: "clientRegistry \<Rightarrow> clientRecord list" where
  "sortedRecordsLocked r = sort_key (\<lambda>rec. (cr_attachedAt rec, cr_id rec)) (recs r)"

text \<open>The record of the connection \<open>cn\<close> under \<open>i\<close>: a new one or the connection's own, older when it replaces a dead link with its
  id or takes a reserved slot; and the other records.\<close>

definition claim_age :: "clientRegistry \<Rightarrow> int \<Rightarrow> nat \<Rightarrow> string \<Rightarrow> bool \<Rightarrow> int" where
  "claim_age r now cn i claims =
    (case (if claims then (case cg_reserved r of Some res \<Rightarrow> rv_attachedAt res | None \<Rightarrow> None) else None) of
       Some t \<Rightarrow> t
     | None \<Rightarrow> fold (\<lambda>(c, other) t. if c \<noteq> cn \<and> cr_id other = i then cr_attachedAt other else t) (cg_byConn r) now)"

definition place_record :: "clientRegistry \<Rightarrow> int \<Rightarrow> nat \<Rightarrow> string \<Rightarrow> bool \<Rightarrow> clientRecord \<times> (nat \<times> clientRecord) list" where
  "place_record r now cn i claims =
    (let old = map_of (cg_byConn r) cn;
         rec = (case old of Some rec \<Rightarrow> rec
                | None \<Rightarrow> \<lparr>cr_id = [], cr_conn = cn, cr_attachedAt = 0, cr_cols = 0, cr_rows = 0, cr_cwd = [], cr_lastInputAt = None,
                          cr_overlays = {}, cr_principal = [], cr_readOnly = False\<rparr>)
     in if old = None \<or> cr_id rec \<noteq> i
        then (rec\<lparr>cr_attachedAt := claim_age r now cn i claims\<rparr>,
              filter (\<lambda>(c, other). \<not> (c \<noteq> cn \<and> cr_id other = i)) (cg_byConn r))
        else (rec, cg_byConn r))"

definition refused :: "clientRegistry \<Rightarrow> nat \<Rightarrow> string \<Rightarrow> string \<Rightarrow> bool \<Rightarrow> bool" where
  "refused r cn i prin readOnly \<longleftrightarrow> prin \<noteq> PrincipalLocal \<and>
    (list_ex (\<lambda>(c, other). c \<noteq> cn \<and> cr_id other = i \<and> cr_principal other \<noteq> prin) (cg_byConn r)
     \<or> (case cg_reserved r of None \<Rightarrow> False
        | Some res \<Rightarrow> rv_id res = i \<and> rv_principal res \<noteq> [] \<and> \<not> reservationAdmits res prin readOnly))"

text \<open>The id an attach registers; whether it takes the reserved slot; whether it ends the reserve: by taking the
  slot, or as a new local process alone after a restart.\<close>

definition attach_id :: "clientRegistry \<Rightarrow> string \<Rightarrow> nat \<Rightarrow> string \<Rightarrow> string" where
  "attach_id r fresh cn id0 =
    (if id0 = [] then (case map_of (cg_byConn r) cn of Some rec \<Rightarrow> cr_id rec | None \<Rightarrow> ''anon-'' @ fresh) else id0)"

definition claims_slot :: "clientRegistry \<Rightarrow> string \<Rightarrow> string \<Rightarrow> bool \<Rightarrow> bool" where
  "claims_slot r i prin readOnly \<longleftrightarrow> (case cg_reserved r of None \<Rightarrow> False
     | Some res \<Rightarrow> rv_id res = i \<and> (prin = PrincipalLocal \<or> reservationAdmits res prin readOnly))"

definition ends_reserve :: "clientRegistry \<Rightarrow> nat \<Rightarrow> bool \<Rightarrow> string \<Rightarrow> bool \<Rightarrow> string \<Rightarrow> bool \<Rightarrow> bool" where
  "ends_reserve r attached claims id0 reattach prin readOnly \<longleftrightarrow> claims \<or> (case cg_reserved r of None \<Rightarrow> False
     | Some res \<Rightarrow> rv_protects res = None \<and> prin = PrincipalLocal \<and> \<not> readOnly \<and> id0 \<noteq> [] \<and> \<not> reattach \<and> attached = 1)"

definition attach :: "string \<Rightarrow> int \<Rightarrow> nat \<Rightarrow> string \<Rightarrow> int \<Rightarrow> int \<Rightarrow> string \<Rightarrow> bool \<Rightarrow> string \<Rightarrow> bool \<Rightarrow> clientRegistry
    \<Rightarrow> client_error + clientRegistry \<times> clientChange" where
  "attach fresh now cn id0 cols rows cwd reattach prin readOnly r =
    (let i = attach_id r fresh cn id0
     in if refused r cn i prin readOnly then Inl errClientIDInUse
        else
          let claims = claims_slot r i prin readOnly;
              (rec, others) = place_record r now cn i claims;
              rec' = rec\<lparr>cr_id := i, cr_cols := cols, cr_rows := rows, cr_cwd := cwd, cr_principal := prin, cr_readOnly := readOnly\<rparr>;
              r1 = r\<lparr>cg_byConn := AList.update cn rec' others\<rparr>;
              r2 = (if ends_reserve r (length (cg_byConn r1)) claims id0 reattach prin readOnly then clearReservationLocked r1 else r1);
              r3 = electSlotLocked now r2
          in Inr (r3, \<lparr>ch_master = (publishedMasterLocked r3 \<noteq> publishedMasterLocked r),
                       ch_count = (length (cg_byConn r3) \<noteq> length (cg_byConn r)),
                       ch_others = map cr_conn (filter (\<lambda>other. cr_conn other \<noteq> cn) (sortedRecordsLocked r3))\<rparr>))"

section \<open>Leaving, resizing, taking over\<close>

definition no_change :: clientChange where
  "no_change = \<lparr>ch_master = False, ch_count = False, ch_others = []\<rparr>"

definition drop_conn :: "nat \<Rightarrow> clientRegistry \<Rightarrow> clientRegistry" where
  "drop_conn cn r = r\<lparr>cg_byConn := AList.delete cn (cg_byConn r)\<rparr>"

definition lose :: "int \<Rightarrow> nat \<Rightarrow> clientRegistry \<Rightarrow> clientRegistry \<times> clientChange" where
  "lose now cn r = (case map_of (cg_byConn r) cn of
     None \<Rightarrow> (r, no_change)
   | Some rec \<Rightarrow>
       let masterBefore = publishedMasterLocked r;
           wasMaster = isMasterLocked r rec;
           r1 = drop_conn cn r;
           protects = map cr_id (recs r1);
           r2 = (if wasMaster \<and> cg_grace r > 0 \<and> recordByID r1 (cr_id rec) = None \<and> protects \<noteq> []
                 then reserveLocked now \<lparr>rv_id = cr_id rec, rv_until = now + cg_grace r, rv_principal = cr_principal rec,
                        rv_attachedAt = Some (cr_attachedAt rec), rv_protects = Some protects\<rparr> (cg_grace r) r1
                 else r1);
           r3 = electSlotLocked now r2
       in (r3, \<lparr>ch_master = (publishedMasterLocked r3 \<noteq> masterBefore), ch_count = True, ch_others = []\<rparr>))"

definition detach :: "int \<Rightarrow> nat \<Rightarrow> clientRegistry \<Rightarrow> clientRegistry \<times> clientChange" where
  "detach now cn r = (case map_of (cg_byConn r) cn of
     None \<Rightarrow> (r, no_change)
   | Some _ \<Rightarrow>
       let masterBefore = publishedMasterLocked r; r1 = electSlotLocked now (drop_conn cn r)
       in (r1, \<lparr>ch_master = (publishedMasterLocked r1 \<noteq> masterBefore), ch_count = True, ch_others = []\<rparr>))"

definition setGeometry :: "int \<Rightarrow> nat \<Rightarrow> int \<Rightarrow> int \<Rightarrow> clientRegistry \<Rightarrow> clientRegistry \<times> bool" where
  "setGeometry now cn cols rows r = (case map_of (cg_byConn r) cn of
     None \<Rightarrow> (r, False)
   | Some rec \<Rightarrow> if cr_readOnly rec then (r, False)
       else electLocked now (r\<lparr>cg_byConn := AList.update cn (rec\<lparr>cr_cols := cols, cr_rows := rows\<rparr>) (cg_byConn r)\<rparr>))"

definition takeControl :: "nat \<Rightarrow> clientRegistry \<Rightarrow> clientRegistry \<times> bool \<times> bool" where
  "takeControl cn r = (case map_of (cg_byConn r) cn of
     None \<Rightarrow> (r, False, False)
   | Some rec \<Rightarrow> if cr_readOnly rec \<or> \<not> eligible rec then (r, False, False)
       else let masterBefore = publishedMasterLocked r;
                r1 = (clearReservationLocked r)\<lparr>cg_masterID := cr_id rec\<rparr>
            in (r1, publishedMasterLocked r1 \<noteq> masterBefore, True))"

definition reserveAfterRestart :: "int \<Rightarrow> string \<Rightarrow> clientRegistry \<Rightarrow> clientRegistry" where
  "reserveAfterRestart now id0 r =
    (let i = truncateField id0 maxClientIDLen; d = min (cg_grace r) restartReserveCap
     in if i = [] \<or> d \<le> 0 then r
        else fst (electLocked now (reserveLocked now \<lparr>rv_id = i, rv_until = now + d, rv_principal = [], rv_attachedAt = None,
               rv_protects = None\<rparr> d r)))"

section \<open>The daemon's entry points\<close>

record attach_payload =
  ap_ClientID :: string
  ap_WinCols :: int
  ap_WinRows :: int
  ap_Cols :: int
  ap_Rows :: int
  ap_CWD :: string
  ap_Reattach :: bool

definition attachWindowSize :: "attach_payload \<Rightarrow> int \<times> int" where
  "attachWindowSize p = (if ap_WinCols p > 0 \<or> ap_WinRows p > 0 then (ap_WinCols p, ap_WinRows p) else (ap_Cols p, ap_Rows p))"

definition clampClientDim :: "int \<Rightarrow> int" where
  "clampClientDim v = max 0 (min v maxClientDim)"

text \<open>\<open>auth\<close> is the connection's login, absent on a connection without one.\<close>

definition attachClient :: "string \<Rightarrow> int \<Rightarrow> nat \<Rightarrow> AuthState option \<Rightarrow> attach_payload \<Rightarrow> clientRegistry
    \<Rightarrow> client_error + clientRegistry \<times> clientChange" where
  "attachClient fresh now cn auth p r =
    (if prefix reservedMasterPrefix (ap_ClientID p) then Inl errClientIDReserved
     else let (prin, readOnly) = (case auth of None \<Rightarrow> (PrincipalLocal, False) | Some _ \<Rightarrow> (Principal auth, ReadOnly auth));
              i = truncateField (ap_ClientID p) maxClientIDLen;
              (cols, rows) = attachWindowSize p
          in attach fresh now cn i (clampClientDim cols) (clampClientDim rows) (ap_CWD p) (ap_Reattach p) prin readOnly r)"

definition masterConn :: "clientRegistry \<Rightarrow> nat option" where
  "masterConn r = map_option cr_conn (masterRecordLocked r)"

definition isMasterConn :: "clientRegistry \<Rightarrow> nat \<Rightarrow> bool" where
  "isMasterConn r c = (case map_of (cg_byConn r) c of None \<Rightarrow> False | Some rec \<Rightarrow> isMasterLocked r rec)"

definition sizeAuthorityOpen :: "clientRegistry \<Rightarrow> bool" where
  "sizeAuthorityOpen r \<longleftrightarrow> cg_masterID r = [] \<and> cg_reserved r = None"

text \<open>The guard of \<open>applyResizes\<close>.\<close>

definition may_resize :: "clientRegistry \<Rightarrow> nat \<Rightarrow> bool" where
  "may_resize r c \<longleftrightarrow> isMasterConn r c \<or> sizeAuthorityOpen r"

definition otherClientConns :: "clientRegistry \<Rightarrow> nat option \<Rightarrow> nat list" where
  "otherClientConns r except = map cr_conn (filter (\<lambda>rec. Some (cr_conn rec) \<noteq> except) (sortedRecordsLocked r))"

definition followerConns :: "clientRegistry \<Rightarrow> nat option \<Rightarrow> nat list" where
  "followerConns r except = map cr_conn (filter (\<lambda>rec. Some (cr_conn rec) \<noteq> except \<and> \<not> isMasterLocked r rec) (sortedRecordsLocked r))"

text \<open>\<open>Before\<close> on times that may be zero.\<close>

definition time_before :: "int option \<Rightarrow> int option \<Rightarrow> bool" where
  "time_before a b = (case b of None \<Rightarrow> False | Some y \<Rightarrow> (case a of None \<Rightarrow> True | Some x \<Rightarrow> x < y))"

definition mostRecentlyActiveConn :: "clientRegistry \<Rightarrow> nat option" where
  "mostRecentlyActiveConn r = map_option cr_conn (fold (\<lambda>rec best. if cr_readOnly rec then best
     else case best of None \<Rightarrow> Some rec
       | Some b \<Rightarrow> if \<not> time_before (cr_lastInputAt rec) (cr_lastInputAt b) then Some rec else best) (sortedRecordsLocked r) None)"

definition targetConn :: "clientRegistry \<Rightarrow> string \<Rightarrow> nat option" where
  "targetConn r clientID =
    (if clientID \<noteq> [] then map_option cr_conn (recordByID r clientID)
     else map_option cr_conn (fold (\<lambda>rec best. if cr_readOnly rec then best
       else case best of None \<Rightarrow> Some rec
         | Some b \<Rightarrow> if time_before (cr_lastInputAt b) (cr_lastInputAt rec) then Some rec else best) (sortedRecordsLocked r) None))"

definition update_record :: "nat \<Rightarrow> (clientRecord \<Rightarrow> clientRecord) \<Rightarrow> clientRegistry \<Rightarrow> clientRegistry" where
  "update_record c f r = (case map_of (cg_byConn r) c of None \<Rightarrow> r | Some rec \<Rightarrow> r\<lparr>cg_byConn := AList.update c (f rec) (cg_byConn r)\<rparr>)"

definition touchClientInput :: "int \<Rightarrow> nat \<Rightarrow> clientRegistry \<Rightarrow> clientRegistry" where
  "touchClientInput now c r = update_record c (\<lambda>rec. rec\<lparr>cr_lastInputAt := Some now\<rparr>) r"

definition setOverlayClaim :: "nat \<Rightarrow> string \<Rightarrow> bool \<Rightarrow> clientRegistry \<Rightarrow> clientRegistry" where
  "setOverlayClaim c pane visible r =
     update_record c (\<lambda>rec. rec\<lparr>cr_overlays := (if visible then insert pane (cr_overlays rec) else cr_overlays rec - {pane})\<rparr>) r"

definition overlayClaimed :: "clientRegistry \<Rightarrow> string \<Rightarrow> bool" where
  "overlayClaimed r pane = list_ex (\<lambda>rec. pane \<in> cr_overlays rec) (recs r)"

definition forgetOverlayClaimsFor :: "string \<Rightarrow> clientRegistry \<Rightarrow> clientRegistry" where
  "forgetOverlayClaimsFor pane r =
     r\<lparr>cg_byConn := map (\<lambda>(c, rec). (c, rec\<lparr>cr_overlays := cr_overlays rec - {pane}\<rparr>)) (cg_byConn r)\<rparr>"

end
