(* ===== verification/Client_Props.thy ===== *)
theory Client_Props
  imports Client_Registry
begin

text \<open>
  The size-master election keeps one size authority. The invariant of the registry under every event, the
  grace a lost master is given, who may displace whom, and what a lapsed reserve leaves.
\<close>

section \<open>Events\<close>

datatype client_event =
    Attach string nat "AuthState option" attach_payload
  | Lose nat
  | Detach nat
  | Geometry nat int int
  | Take nat
  | Expire
  | Touch nat
  | Claim nat string bool
  | Forget string

fun client_step :: "int \<Rightarrow> client_event \<Rightarrow> clientRegistry \<Rightarrow> clientRegistry" where
  "client_step now (Attach fresh cn auth p) r = (case attachClient fresh now cn auth p r of Inl _ \<Rightarrow> r | Inr (r', _) \<Rightarrow> r')"
| "client_step now (Lose cn) r = fst (lose now cn r)"
| "client_step now (Detach cn) r = fst (detach now cn r)"
| "client_step now (Geometry cn cols rows) r = fst (setGeometry now cn cols rows r)"
| "client_step now (Take cn) r = fst (takeControl cn r)"
| "client_step now Expire r = fst (expire now r)"
| "client_step now (Touch cn) r = touchClientInput now cn r"
| "client_step now (Claim cn pane visible) r = setOverlayClaim cn pane visible r"
| "client_step now (Forget pane) r = forgetOverlayClaimsFor pane r"

definition client_run :: "(int \<times> client_event) list \<Rightarrow> clientRegistry \<Rightarrow> clientRegistry" where
  "client_run evs r = fold (\<lambda>(now, e) r. client_step now e r) evs r"

definition empty_registry :: "int \<Rightarrow> clientRegistry" where
  "empty_registry grace = \<lparr>cg_byConn = [], cg_masterID = [], cg_reserved = None, cg_timer = None, cg_grace = grace\<rparr>"

text \<open>The random part of a minted id is a UUID.\<close>

fun event_ok :: "client_event \<Rightarrow> bool" where
  "event_ok (Attach fresh cn auth p) \<longleftrightarrow> length fresh \<le> 36"
| "event_ok _ \<longleftrightarrow> True"

section \<open>The clients\<close>

abbreviation client :: "clientRegistry \<Rightarrow> nat \<Rightarrow> clientRecord option" where
  "client r \<equiv> map_of (cg_byConn r)"

definition clients_ok :: "clientRegistry \<Rightarrow> bool" where
  "clients_ok r \<longleftrightarrow> distinct (map fst (cg_byConn r))
     \<and> (\<forall>c rec. client r c = Some rec \<longrightarrow> cr_conn rec = c \<and> cr_id rec \<noteq> [] \<and> length (cr_id rec) \<le> maxClientIDLen)
     \<and> (\<forall>c d a b. client r c = Some a \<longrightarrow> client r d = Some b \<longrightarrow> cr_id a = cr_id b \<longrightarrow> c = d)"

lemma clients_okD:
  assumes "clients_ok r"
  shows "distinct (map fst (cg_byConn r))"
    "client r c = Some rec \<Longrightarrow> cr_conn rec = c \<and> cr_id rec \<noteq> [] \<and> length (cr_id rec) \<le> maxClientIDLen"
    "client r c = Some a \<Longrightarrow> client r d = Some b \<Longrightarrow> cr_id a = cr_id b \<Longrightarrow> c = d"
  using assms unfolding clients_ok_def by blast+

lemma clients_ok_same: "cg_byConn r' = cg_byConn r \<Longrightarrow> clients_ok r \<Longrightarrow> clients_ok r'"
  by (simp add: clients_ok_def)

lemma in_recs: "distinct (map fst (cg_byConn r)) \<Longrightarrow> rec \<in> set (recs r) \<longleftrightarrow> (\<exists>c. client r c = Some rec)"
  by (force simp: recs_def)

lemma recs_update [simp]:
  "recs (r\<lparr>cg_masterID := i\<rparr>) = recs r" "recs (r\<lparr>cg_reserved := res\<rparr>) = recs r" "recs (r\<lparr>cg_timer := t\<rparr>) = recs r"
  "recs (clearReservationLocked r) = recs r" "recs (r\<lparr>cg_byConn := m\<rparr>) = map snd m"
  by (simp_all add: recs_def clearReservationLocked_def)

lemma clear_fields [simp]:
  "cg_byConn (clearReservationLocked r) = cg_byConn r" "cg_reserved (clearReservationLocked r) = None"
  "cg_timer (clearReservationLocked r) = None" "cg_masterID (clearReservationLocked r) = cg_masterID r"
  by (simp_all add: clearReservationLocked_def)

lemma recordByID_iff:
  assumes "clients_ok r"
  shows "recordByID r i = Some rec \<longleftrightarrow> i \<noteq> [] \<and> rec \<in> set (recs r) \<and> cr_id rec = i"
proof
  assume "recordByID r i = Some rec"
  then show "i \<noteq> [] \<and> rec \<in> set (recs r) \<and> cr_id rec = i"
    by (auto simp: recordByID_def find_Some_iff split: if_splits)
next
  assume a: "i \<noteq> [] \<and> rec \<in> set (recs r) \<and> cr_id rec = i"
  then obtain rec' where f: "find (\<lambda>rec. cr_id rec = i) (recs r) = Some rec'"
    by (cases "find (\<lambda>rec. cr_id rec = i) (recs r)") (auto simp: find_None_iff)
  then have "rec' \<in> set (recs r)" "cr_id rec' = i" by (auto simp: find_Some_iff)
  then have "rec' = rec"
    using a clients_okD(1,3) [OF assms] by (metis in_recs option.inject)
  then show "recordByID r i = Some rec" using a f by (simp add: recordByID_def)
qed

lemma masterRecord_iff:
  assumes "clients_ok r"
  shows "masterRecordLocked r = Some rec \<longleftrightarrow> rec \<in> set (recs r) \<and> isMasterLocked r rec"
proof -
  have "masterRecordLocked r = Some rec \<longleftrightarrow> recordByID r (cg_masterID r) = Some rec \<and> \<not> shadowedLocked r rec"
    by (auto simp: masterRecordLocked_def split: option.splits)
  then show ?thesis by (auto simp: recordByID_iff [OF assms] isMasterLocked_def)
qed

lemma older_key: "older a b \<longleftrightarrow> (cr_attachedAt a, cr_id a) < (cr_attachedAt b, cr_id b)"
  by (auto simp: older_def)

definition pick_oldest :: "clientRecord \<Rightarrow> clientRecord option \<Rightarrow> clientRecord option" where
  "pick_oldest rec best = (if \<not> eligible rec then best
     else case best of None \<Rightarrow> Some rec | Some b \<Rightarrow> if older rec b then Some rec else best)"

lemma oldest_fold:
  "(case fold pick_oldest xs None of
      None \<Rightarrow> \<forall>x \<in> set xs. \<not> eligible x
    | Some b \<Rightarrow> b \<in> set xs \<and> eligible b \<and> (\<forall>x \<in> set xs. eligible x \<longrightarrow> \<not> older x b))"
proof (induction xs rule: rev_induct)
  case (snoc x xs)
  then show ?case
    by (auto simp: pick_oldest_def older_key split: option.splits dest: less_trans)
qed simp

lemma oldestEligible:
  "oldestEligibleLocked r = None \<Longrightarrow> \<forall>x \<in> set (recs r). \<not> eligible x"
  "oldestEligibleLocked r = Some b \<Longrightarrow> b \<in> set (recs r) \<and> eligible b \<and> (\<forall>x \<in> set (recs r). eligible x \<longrightarrow> \<not> older x b)"
proof -
  have "oldestEligibleLocked r = fold pick_oldest (recs r) None"
    by (simp add: oldestEligibleLocked_def pick_oldest_def [abs_def])
  then show "oldestEligibleLocked r = None \<Longrightarrow> \<forall>x \<in> set (recs r). \<not> eligible x"
    "oldestEligibleLocked r = Some b \<Longrightarrow> b \<in> set (recs r) \<and> eligible b \<and> (\<forall>x \<in> set (recs r). eligible x \<longrightarrow> \<not> older x b)"
    using oldest_fold [of "recs r"] by simp_all
qed

section \<open>The slot\<close>

definition slot_ok :: "clientRegistry \<Rightarrow> bool" where
  "slot_ok r \<longleftrightarrow> (case cg_reserved r of
     Some res \<Rightarrow> rv_id res \<noteq> [] \<and> cg_masterID r = rv_id res \<and> cg_timer r = Some (rv_until res) \<and> reserveStillProtects r res
       \<and> (\<forall>rec \<in> set (recs r). cr_id rec = rv_id res \<longrightarrow> shadowedLocked r rec)
   | None \<Rightarrow> cg_timer r = None \<and> (if cg_masterID r = [] then \<forall>rec \<in> set (recs r). \<not> eligible rec
       else \<exists>rec \<in> set (recs r). cr_id rec = cg_masterID r \<and> eligible rec))"

text \<open>What an election needs.\<close>

definition elect_ready :: "clientRegistry \<Rightarrow> bool" where
  "elect_ready r \<longleftrightarrow> (case cg_reserved r of
     Some res \<Rightarrow> rv_id res \<noteq> [] \<and> (cg_masterID r = rv_id res \<or> cg_masterID r = []) \<and> cg_timer r = Some (rv_until res)
       \<and> (\<forall>rec \<in> set (recs r). cr_id rec = rv_id res \<longrightarrow> shadowedLocked r rec)
   | None \<Rightarrow> cg_timer r = None)"

lemma shadowed_same:
  "cg_reserved r = cg_reserved r' \<Longrightarrow> shadowedLocked r rec = shadowedLocked r' rec"
  by (simp add: shadowedLocked_def)

lemma elect_fields [simp]:
  "cg_byConn (electSlotLocked now r) = cg_byConn r" "cg_grace (electSlotLocked now r) = cg_grace r"
  by (auto simp: electSlotLocked_def clearReservationLocked_def Let_def split: option.splits)

lemma elect_clients_ok [simp]: "clients_ok (electSlotLocked now r) = clients_ok r"
  by (simp add: clients_ok_def)

lemma elect_slot:
  assumes "clients_ok r" "elect_ready r"
  shows "slot_ok (electSlotLocked now r)"
proof (cases "\<exists>rec. masterRecordLocked r = Some rec \<and> eligible rec")
  case True
  then obtain rec where m: "masterRecordLocked r = Some rec" "eligible rec" by blast
  then have e: "electSlotLocked now r = r" by (simp add: electSlotLocked_def)
  have rec: "rec \<in> set (recs r)" "cg_masterID r \<noteq> []" "cr_id rec = cg_masterID r" "\<not> shadowedLocked r rec"
    using m(1) masterRecord_iff [OF assms(1)] by (auto simp: isMasterLocked_def)
  have "cg_reserved r = None" using assms(2) rec by (auto simp: elect_ready_def split: option.splits)
  then show ?thesis using assms(2) rec m(2) by (auto simp: e slot_ok_def elect_ready_def)
next
  case False
  then have f: "\<not> (case masterRecordLocked r of Some rec \<Rightarrow> eligible rec | None \<Rightarrow> False)" by (auto split: option.splits)
  let ?r1 = "clearReservationLocked r"
  have rs: "recs ?r1 = recs r" "recs (?r1\<lparr>cg_masterID := i\<rparr>) = recs r" for i by (simp_all add: recs_def clearReservationLocked_def)
  have none: "slot_ok (?r1\<lparr>cg_masterID := (case oldestEligibleLocked ?r1 of None \<Rightarrow> [] | Some best \<Rightarrow> cr_id best)\<rparr>)"
  proof (cases "oldestEligibleLocked ?r1")
    case None
    then show ?thesis using oldestEligible(1) [OF None] rs by (simp add: slot_ok_def clearReservationLocked_def)
  next
    case (Some b)
    have b: "b \<in> set (recs r)" "eligible b" using oldestEligible(2) [OF Some] rs by simp_all
    then have "cr_id b \<noteq> []" using clients_okD(1,2) [OF assms(1)] in_recs by blast
    then show ?thesis using b rs Some by (auto simp: slot_ok_def clearReservationLocked_def)
  qed
  show ?thesis
  proof (cases "cg_reserved r")
    case None
    then show ?thesis using none f by (simp add: electSlotLocked_def Let_def)
  next
    case (Some res)
    let ?keep = "r\<lparr>cg_masterID := rv_id res\<rparr>"
    have k: "recs ?keep = recs r" "reserveStillProtects ?keep res = reserveStillProtects r res" "shadowedLocked ?keep = shadowedLocked r"
      by (simp_all add: reserveStillProtects_def shadowedLocked_def [abs_def] split: option.split)
    have "reserveStillProtects r res \<Longrightarrow> slot_ok ?keep"
      using assms(2) by (simp add: slot_ok_def elect_ready_def Some k)
    then show ?thesis using none f by (simp add: electSlotLocked_def Some Let_def)
  qed
qed

section \<open>Every event keeps them\<close>

definition registry_ok :: "clientRegistry \<Rightarrow> bool" where
  "registry_ok r \<longleftrightarrow> clients_ok r \<and> slot_ok r"

lemma elect_registry_ok: "clients_ok r \<Longrightarrow> elect_ready r \<Longrightarrow> registry_ok (electSlotLocked now r)"
  by (simp add: registry_ok_def elect_slot)

lemma slot_ready: "slot_ok r \<Longrightarrow> elect_ready r"
  by (auto simp: slot_ok_def elect_ready_def split: option.splits)

text \<open>An election looks at the ids, not at the rest of a record.\<close>

lemma ready_subset:
  assumes "elect_ready r" "cg_reserved r' = cg_reserved r" "cg_masterID r' = cg_masterID r" "cg_timer r' = cg_timer r"
    and "\<And>rec'. rec' \<in> set (recs r') \<Longrightarrow> \<exists>rec \<in> set (recs r). cr_id rec' = cr_id rec \<and> cr_principal rec' = cr_principal rec"
  shows "elect_ready r'"
proof -
  have "shadowedLocked r' rec'" if "rec' \<in> set (recs r')" "cg_reserved r = Some res" "cr_id rec' = rv_id res" for rec' res
  proof -
    note t = that
    obtain rec where "rec \<in> set (recs r)" "cr_id rec' = cr_id rec" "cr_principal rec' = cr_principal rec" using assms(5) [OF t(1)] by blast
    then show ?thesis using assms(1) t(2,3) by (auto simp: elect_ready_def shadowedLocked_def assms(2))
  qed
  then show ?thesis using assms(1-4) by (auto simp: elect_ready_def split: option.splits)
qed

lemma map_of_filter_distinct:
  "distinct (map fst clients) \<Longrightarrow>
    map_of (filter keep clients) c = (case map_of clients c of Some rec \<Rightarrow> (if keep (c, rec) then Some rec else None) | None \<Rightarrow> None)"
proof (induction clients)
  case (Cons y clients)
  have "map_of (filter keep clients) c = None" if "fst y = c"
    using Cons.prems that by (auto simp: map_of_eq_None_iff)
  then show ?case using Cons by (cases y) auto
qed simp

lemma place_record_facts:
  assumes "clients_ok r" "place_record r now cn i claims = (rec, others)"
  shows "distinct (map fst others)" "cr_conn rec = cn"
    "c \<noteq> cn \<Longrightarrow> map_of others c = (case client r c of None \<Rightarrow> None | Some o' \<Rightarrow> if cr_id o' = i then None else Some o')"
proof -
  note C = clients_okD [OF assms(1)]
  show "distinct (map fst others)" using assms(2) C(1)
    by (auto simp: place_record_def Let_def distinct_map_filter split: if_splits option.splits)
  show "cr_conn rec = cn" using assms(2) C(2) by (auto simp: place_record_def Let_def split: if_splits option.splits)
  show "map_of others c = (case client r c of None \<Rightarrow> None | Some o' \<Rightarrow> if cr_id o' = i then None else Some o')" if c: "c \<noteq> cn"
  proof (cases "\<exists>rec. client r cn = Some rec \<and> cr_id rec = i")
    case True
    then obtain rec0 where o: "client r cn = Some rec0" "cr_id rec0 = i" by blast
    then have "others = cg_byConn r" using assms(2) by (simp add: place_record_def Let_def)
    moreover have "cr_id o' \<noteq> i" if "client r c = Some o'" for o' using C(3) [OF o(1) that] o(2) c by auto
    ultimately show ?thesis by (auto split: option.splits)
  next
    case False
    then have "others = filter (\<lambda>(c, other). \<not> (c \<noteq> cn \<and> cr_id other = i)) (cg_byConn r)"
      using assms(2) by (auto simp: place_record_def Let_def split: option.splits if_splits)
    then show ?thesis using c by (simp add: map_of_filter_distinct [OF C(1)] split: option.splits)
  qed
qed

lemma update_clients_ok:
  assumes "clients_ok r" "place_record r now cn i claims = (rec, others)" "i \<noteq> []" "length i \<le> maxClientIDLen"
    and "cr_id rec' = i" "cr_conn rec' = cr_conn rec"
  shows "clients_ok (r\<lparr>cg_byConn := AList.update cn rec' others\<rparr>)"
proof -
  note C = clients_okD [OF assms(1)]
  note P = place_record_facts [OF assms(1,2)]
  let ?r = "r\<lparr>cg_byConn := AList.update cn rec' others\<rparr>"
  have m: "client ?r c = (if c = cn then Some rec' else case client r c of None \<Rightarrow> None | Some o' \<Rightarrow> if cr_id o' = i then None else Some o')" for c
    using P(3) by (simp add: update_conv')
  have o: "client r c = Some a \<and> cr_id a \<noteq> i" if "client ?r c = Some a" "c \<noteq> cn" for c a
    using that unfolding m by (auto split: option.splits if_splits)
  have "distinct (map fst (cg_byConn ?r))" using P(1) by (simp add: distinct_update)
  moreover have "cr_conn a = c \<and> cr_id a \<noteq> [] \<and> length (cr_id a) \<le> maxClientIDLen" if "client ?r c = Some a" for c a
    using o [OF that] C(2) [of c a] that assms(3-6) P(2) unfolding m by (cases "c = cn") auto
  moreover have "c = d" if "client ?r c = Some a" "client ?r d = Some b" "cr_id a = cr_id b" for c d a b
  proof (cases "c = cn"; cases "d = cn")
    assume "c \<noteq> cn" "d \<noteq> cn"
    then show ?thesis using o [OF that(1)] o [OF that(2)] C(3) that(3) by blast
  next
    assume c: "c = cn" "d \<noteq> cn"
    then show ?thesis using o [OF that(2)] that(1,3) assms(5) unfolding m by simp
  next
    assume c: "c \<noteq> cn" "d = cn"
    then show ?thesis using o [OF that(1)] that(2,3) assms(5) unfolding m by simp
  qed simp
  ultimately show ?thesis unfolding clients_ok_def by blast
qed

text \<open>An attach that is admitted: the registry its election runs on.\<close>

lemma attach_cases:
  assumes "attach fresh now cn id0 cols rows cwd reattach prin readOnly r = Inr (r', ch)"
  obtains i rec others rec' r1 where
    "i = attach_id r fresh cn id0" "\<not> refused r cn i prin readOnly"
    "place_record r now cn i (claims_slot r i prin readOnly) = (rec, others)"
    "rec' = rec\<lparr>cr_id := i, cr_cols := cols, cr_rows := rows, cr_cwd := cwd, cr_principal := prin, cr_readOnly := readOnly\<rparr>"
    "r1 = r\<lparr>cg_byConn := AList.update cn rec' others\<rparr>"
    "r' = electSlotLocked now (if ends_reserve r (length (cg_byConn r1)) (claims_slot r i prin readOnly) id0 reattach prin readOnly
       then clearReservationLocked r1 else r1)"
  using assms by (cases "place_record r now cn (attach_id r fresh cn id0) (claims_slot r (attach_id r fresh cn id0) prin readOnly)")
    (auto simp: attach_def Let_def split: if_splits)

lemma attach_id_ok:
  assumes "clients_ok r" "length fresh \<le> 36" "length id0 \<le> maxClientIDLen"
  shows "attach_id r fresh cn id0 \<noteq> []" "length (attach_id r fresh cn id0) \<le> maxClientIDLen"
  using assms(2,3) clients_okD(2) [OF assms(1)] by (auto simp: attach_id_def maxClientIDLen_def split: option.splits)

lemma attach_ok:
  assumes "registry_ok r" "length fresh \<le> 36" "length id0 \<le> maxClientIDLen"
    and "attach fresh now cn id0 cols rows cwd reattach prin readOnly r = Inr (r', ch)"
  shows "registry_ok r'"
proof -
  have ok: "clients_ok r" "slot_ok r" using assms(1) by (simp_all add: registry_ok_def)
  obtain i rec others rec' r1 where i: "i = attach_id r fresh cn id0" and nr: "\<not> refused r cn i prin readOnly"
    and p: "place_record r now cn i (claims_slot r i prin readOnly) = (rec, others)"
    and rec': "rec' = rec\<lparr>cr_id := i, cr_cols := cols, cr_rows := rows, cr_cwd := cwd, cr_principal := prin, cr_readOnly := readOnly\<rparr>"
    and r1: "r1 = r\<lparr>cg_byConn := AList.update cn rec' others\<rparr>"
    and r': "r' = electSlotLocked now (if ends_reserve r (length (cg_byConn r1)) (claims_slot r i prin readOnly) id0 reattach prin readOnly
       then clearReservationLocked r1 else r1)" by (rule attach_cases [OF assms(4)])
  note il = attach_id_ok [OF ok(1) assms(2,3), of cn, folded i]
  have c1: "clients_ok r1" unfolding r1 by (rule update_clients_ok [OF ok(1) p il]) (simp_all add: rec')
  have "elect_ready r1" if nc: "\<not> claims_slot r i prin readOnly"
  proof (cases "cg_reserved r")
    case None
    then show ?thesis using ok(2) by (simp add: elect_ready_def slot_ok_def r1)
  next
    case (Some res)
    have "shadowedLocked r1 x" if x: "x \<in> set (recs r1)" "cr_id x = rv_id res" for x
    proof -
      obtain c where c: "client r1 c = Some x" using x(1) in_recs clients_okD(1) [OF c1] by blast
      show ?thesis
      proof (cases "c = cn")
        case True
        then have "x = rec'" using c by (simp add: r1 update_conv')
        then have "rv_id res = i" "cr_principal x = prin" using x(2) by (simp_all add: rec')
        then show ?thesis using nc nr Some x(2)
          by (auto simp: claims_slot_def refused_def shadowedLocked_def r1 reservationAdmits_def split: if_splits)
      next
        case False
        then have "client r c = Some x"
          using c place_record_facts(3) [OF ok(1) p False] by (auto simp: r1 update_conv' split: option.splits if_splits)
        then have "x \<in> set (recs r)" using in_recs clients_okD(1) [OF ok(1)] by blast
        then have "shadowedLocked r x" using ok(2) x(2) Some by (simp add: slot_ok_def)
        then show ?thesis by (simp add: shadowedLocked_def r1)
      qed
    qed
    then show ?thesis using ok(2) Some by (simp add: elect_ready_def slot_ok_def r1)
  qed
  moreover have "elect_ready (clearReservationLocked r1)" by (simp add: elect_ready_def)
  moreover have "clients_ok (clearReservationLocked r1)" using c1 by (simp add: clients_ok_def)
  ultimately show ?thesis using c1 elect_registry_ok by (auto simp: r' ends_reserve_def)
qed

lemma drop_client [simp]: "client (drop_conn cn r) = (client r)(cn := None)"
  by (simp add: drop_conn_def delete_conv')

lemma drop_fields [simp]:
  "cg_reserved (drop_conn cn r) = cg_reserved r" "cg_masterID (drop_conn cn r) = cg_masterID r" "cg_timer (drop_conn cn r) = cg_timer r"
  "cg_grace (drop_conn cn r) = cg_grace r"
  by (simp_all add: drop_conn_def)

lemma drop_clients_ok: "clients_ok r \<Longrightarrow> clients_ok (drop_conn cn r)"
  unfolding clients_ok_def by (auto simp: drop_conn_def distinct_delete delete_conv' split: if_splits)

lemma drop_recs: "set (recs (drop_conn cn r)) \<subseteq> set (recs r)"
  by (force simp: drop_conn_def AList.delete_eq recs_def)

lemma drop_ready: "elect_ready r \<Longrightarrow> elect_ready (drop_conn cn r)"
  by (rule ready_subset) (use drop_recs in auto)

lemma detach_ok: "registry_ok r \<Longrightarrow> registry_ok (fst (detach now cn r))"
  by (auto simp: detach_def Let_def registry_ok_def drop_clients_ok drop_ready slot_ready elect_slot split: option.splits)

lemma lose_ok:
  assumes "registry_ok r"
  shows "registry_ok (fst (lose now cn r))"
proof (cases "client r cn")
  case None
  then show ?thesis using assms by (simp add: lose_def)
next
  case (Some rec)
  let ?r1 = "drop_conn cn r"
  have ok: "clients_ok ?r1" "elect_ready ?r1"
    using assms drop_clients_ok drop_ready slot_ready by (auto simp: registry_ok_def)
  let ?res = "\<lparr>rv_id = cr_id rec, rv_until = now + cg_grace r, rv_principal = cr_principal rec,
      rv_attachedAt = Some (cr_attachedAt rec), rv_protects = Some (map cr_id (recs ?r1))\<rparr>"
  let ?kept = "isMasterLocked r rec \<and> cg_grace r > 0 \<and> recordByID ?r1 (cr_id rec) = None \<and> map cr_id (recs ?r1) \<noteq> []"
  let ?r2 = "if ?kept then reserveLocked now ?res (cg_grace r) ?r1 else ?r1"
  have "elect_ready (reserveLocked now ?res (cg_grace r) ?r1)" if m: "isMasterLocked r rec" "recordByID ?r1 (cr_id rec) = None"
  proof -
    have n: "cr_id rec \<noteq> []" using clients_okD(2) [of r cn rec] assms Some by (simp add: registry_ok_def)
    have "cr_id x \<noteq> cr_id rec" if "x \<in> set (recs ?r1)" for x
      using m(2) n recordByID_iff [OF ok(1), of "cr_id rec" x] that by auto
    then show ?thesis using m(1) n by (simp add: elect_ready_def reserveLocked_def isMasterLocked_def)
  qed
  then have "elect_ready ?r2" using ok(2) by (cases ?kept) (simp_all only: if_True if_False simp_thms)
  moreover have "clients_ok ?r2"
    by (rule clients_ok_same [OF _ ok(1)]) (simp add: reserveLocked_def)
  ultimately have "registry_ok (electSlotLocked now ?r2)" by (intro elect_registry_ok)
  then show ?thesis by (simp only: lose_def Some option.case Let_def fst_conv drop_fields)
qed

lemma update_same_id:
  assumes "clients_ok r" "client r cn = Some rec" "cr_id rec' = cr_id rec" "cr_conn rec' = cr_conn rec"
  shows "clients_ok (r\<lparr>cg_byConn := AList.update cn rec' (cg_byConn r)\<rparr>)"
    "set (recs (r\<lparr>cg_byConn := AList.update cn rec' (cg_byConn r)\<rparr>)) = insert rec' {x. \<exists>c. c \<noteq> cn \<and> client r c = Some x}"
proof -
  note C = clients_okD [OF assms(1)]
  let ?r = "r\<lparr>cg_byConn := AList.update cn rec' (cg_byConn r)\<rparr>"
  have m: "client ?r c = (if c = cn then Some rec' else client r c)" for c by (simp add: update_conv')
  have "c = d" if "client ?r c = Some a" "client ?r d = Some b" "cr_id a = cr_id b" for c d a b
    using that C(3) [of c "if c = cn then rec else a" d "if d = cn then rec else b"] assms(2,3) unfolding m
    by (auto split: if_splits)
  moreover have "cr_conn a = c \<and> cr_id a \<noteq> [] \<and> length (cr_id a) \<le> maxClientIDLen" if "client ?r c = Some a" for c a
    using that C(2) assms(2-4) unfolding m by (auto split: if_splits)
  moreover have d: "distinct (map fst (cg_byConn ?r))" using C(1) by (simp add: distinct_update)
  ultimately show "clients_ok ?r" unfolding clients_ok_def by blast
  have "x \<in> set (recs ?r) \<longleftrightarrow> (\<exists>c. client ?r c = Some x)" for x by (rule in_recs [OF d])
  then have "x \<in> set (recs ?r) \<longleftrightarrow> x = rec' \<or> (\<exists>c. c \<noteq> cn \<and> client r c = Some x)" for x unfolding m by auto
  then show "set (recs ?r) = insert rec' {x. \<exists>c. c \<noteq> cn \<and> client r c = Some x}" by blast
qed

lemma old_recs:
  assumes "clients_ok r" "client r cn = Some rec"
  shows "set (recs r) = insert rec {x. \<exists>c. c \<noteq> cn \<and> client r c = Some x}"
proof -
  have "x \<in> set (recs r) \<longleftrightarrow> (\<exists>c. client r c = Some x)" for x by (rule in_recs [OF clients_okD(1) [OF assms(1)]])
  then show ?thesis using assms(2) by force
qed

lemma geometry_ok:
  assumes "registry_ok r"
  shows "registry_ok (fst (setGeometry now cn cols rows r))"
proof (cases "client r cn")
  case None
  then show ?thesis using assms by (simp add: setGeometry_def)
next
  case (Some rec)
  have ok: "clients_ok r" "slot_ok r" using assms by (simp_all add: registry_ok_def)
  let ?rec = "rec\<lparr>cr_cols := cols, cr_rows := rows\<rparr>"
  let ?r = "r\<lparr>cg_byConn := AList.update cn ?rec (cg_byConn r)\<rparr>"
  have u: "clients_ok ?r" "set (recs ?r) = insert ?rec {x. \<exists>c. c \<noteq> cn \<and> client r c = Some x}"
    by (rule update_same_id [OF ok(1) Some]; simp)+
  have "elect_ready ?r"
    by (rule ready_subset [OF slot_ready [OF ok(2)]]) (use u(2) old_recs [OF ok(1) Some] in auto)
  then show ?thesis using assms u(1) elect_registry_ok by (simp add: setGeometry_def Some electLocked_def Let_def)
qed

lemma take_ok:
  assumes "registry_ok r"
  shows "registry_ok (fst (takeControl cn r))"
proof (cases "client r cn")
  case None
  then show ?thesis using assms by (simp add: takeControl_def)
next
  case (Some rec)
  have ok: "clients_ok r" "slot_ok r" using assms by (simp_all add: registry_ok_def)
  have "rec \<in> set (recs r)" using Some in_recs clients_okD(1) [OF ok(1)] by blast
  moreover have "cr_id rec \<noteq> []" using clients_okD(2) [OF ok(1) Some] by simp
  ultimately have "eligible rec \<Longrightarrow> slot_ok ((clearReservationLocked r)\<lparr>cg_masterID := cr_id rec\<rparr>)"
    by (auto simp: slot_ok_def)
  moreover have "clients_ok ((clearReservationLocked r)\<lparr>cg_masterID := cr_id rec\<rparr>)" using ok(1) by (simp add: clients_ok_def)
  ultimately show ?thesis using assms by (simp add: takeControl_def Some Let_def registry_ok_def)
qed

text \<open>An election looks at the id, the login and the size of a record, not at the rest.\<close>

definition core :: "clientRecord \<Rightarrow> string \<times> string \<times> bool" where
  "core rec = (cr_id rec, cr_principal rec, eligible rec)"

definition slot_core :: "reservation option \<Rightarrow> string \<Rightarrow> int option \<Rightarrow> (string \<times> string \<times> bool) set \<Rightarrow> bool" where
  "slot_core res m t S \<longleftrightarrow> (case res of
     Some res \<Rightarrow> rv_id res \<noteq> [] \<and> m = rv_id res \<and> t = Some (rv_until res)
       \<and> (case rv_protects res of None \<Rightarrow> True | Some ids \<Rightarrow> \<exists>(i, _) \<in> S. i \<in> set ids)
       \<and> (\<forall>(i, prin, _) \<in> S. i = rv_id res \<longrightarrow> rv_principal res = [] \<and> prin \<noteq> PrincipalLocal)
   | None \<Rightarrow> t = None \<and> (if m = [] then \<forall>(_, _, e) \<in> S. \<not> e else \<exists>(i, _, e) \<in> S. i = m \<and> e))"

lemma slot_ok_core: "slot_ok r \<longleftrightarrow> slot_core (cg_reserved r) (cg_masterID r) (cg_timer r) (core ` set (recs r))"
  by (auto simp: slot_ok_def slot_core_def core_def shadowedLocked_def reserveStillProtects_def list_ex_iff split: option.splits)

lemma update_record_ok:
  assumes "registry_ok r" "\<And>rec. core (f rec) = core rec \<and> cr_conn (f rec) = cr_conn rec"
  shows "registry_ok (update_record cn f r)"
proof (cases "client r cn")
  case None
  then show ?thesis using assms by (simp add: update_record_def)
next
  case (Some rec)
  have ok: "clients_ok r" "slot_ok r" using assms by (simp_all add: registry_ok_def)
  let ?r = "r\<lparr>cg_byConn := AList.update cn (f rec) (cg_byConn r)\<rparr>"
  have f: "core (f rec) = core rec" "cr_id (f rec) = cr_id rec" "cr_conn (f rec) = cr_conn rec"
    using assms(2) [of rec] by (simp_all add: core_def)
  note u = update_same_id [OF ok(1) Some f(2,3)]
  have "core ` set (recs ?r) = core ` set (recs r)" unfolding u(2) old_recs [OF ok(1) Some] by (simp add: f(1))
  then have "slot_ok ?r" using ok(2) unfolding slot_ok_core by simp
  then show ?thesis using u(1) by (simp add: update_record_def Some registry_ok_def)
qed

lemma forget_ok:
  assumes "registry_ok r"
  shows "registry_ok (forgetOverlayClaimsFor pane r)"
proof -
  let ?f = "\<lambda>rec. rec\<lparr>cr_overlays := cr_overlays rec - {pane}\<rparr>"
  let ?r = "forgetOverlayClaimsFor pane r"
  have m: "client ?r c = map_option ?f (client r c)" for c
    using map_of_map [of ?f "cg_byConn r"] by (simp add: forgetOverlayClaimsFor_def)
  have d: "map fst (cg_byConn ?r) = map fst (cg_byConn r)" by (simp add: forgetOverlayClaimsFor_def comp_def case_prod_beta)
  have "clients_ok ?r"
    using assms unfolding registry_ok_def clients_ok_def d m by (auto simp: map_option_case split: option.splits)
  moreover have "core ` set (recs ?r) = core ` set (recs r)"
    by (simp add: recs_def forgetOverlayClaimsFor_def image_image case_prod_beta core_def eligible_def)
  then have "slot_ok ?r" using assms unfolding slot_ok_core registry_ok_def by (simp add: forgetOverlayClaimsFor_def)
  ultimately show ?thesis by (simp add: registry_ok_def)
qed

lemma truncate_length: "length (truncateField s n) \<le> n"
proof -
  have "rune_back s n \<le> n" by (induction n) auto
  then show ?thesis by (auto simp: truncateField_def)
qed

lemma step_ok:
  assumes "registry_ok r" "event_ok e"
  shows "registry_ok (client_step now e r)"
proof (cases e)
  case (Attach fresh cn auth p)
  show ?thesis
  proof (cases "attachClient fresh now cn auth p r")
    case (Inr x)
    obtain r' ch where x: "x = (r', ch)" by (cases x)
    have "\<exists>cols rows prin ro. attach fresh now cn (truncateField (ap_ClientID p) maxClientIDLen) cols rows (ap_CWD p) (ap_Reattach p) prin ro r = Inr (r', ch)"
      using Inr x by (auto simp: attachClient_def Let_def split: if_splits prod.splits)
    then have "registry_ok r'" using attach_ok [OF assms(1) _ truncate_length] assms(2) Attach by fastforce
    then show ?thesis using Attach Inr x by simp
  qed (use assms(1) Attach in simp)
next
  case Expire
  then show ?thesis using assms(1) by (simp add: expire_def electLocked_def Let_def registry_ok_def elect_slot slot_ready)
qed (use assms(1) in \<open>auto simp: lose_ok detach_ok geometry_ok take_ok forget_ok touchClientInput_def setOverlayClaim_def core_def eligible_def
    intro!: update_record_ok\<close>)

lemma run_ok: "registry_ok r \<Longrightarrow> \<forall>(t, e) \<in> set evs. event_ok e \<Longrightarrow> registry_ok (client_run evs r)"
  unfolding client_run_def by (induction evs arbitrary: r) (auto simp: step_ok)

lemma start_ok: "registry_ok (reserveAfterRestart t saved (empty_registry grace))"
proof -
  let ?e = "empty_registry grace"
  have e: "registry_ok ?e" by (simp add: registry_ok_def clients_ok_def slot_ok_def empty_registry_def recs_def)
  have r: "registry_ok (electSlotLocked t (reserveLocked t res d ?e))" if "rv_id res \<noteq> []" "rv_until res = t + d" for res d
  proof (rule elect_registry_ok)
    show "clients_ok (reserveLocked t res d ?e)"
      by (rule clients_ok_same [of _ ?e]) (use e in \<open>simp_all add: reserveLocked_def registry_ok_def\<close>)
    show "elect_ready (reserveLocked t res d ?e)"
      using that by (simp add: elect_ready_def reserveLocked_def) (simp add: empty_registry_def recs_def)
  qed
  show ?thesis
  proof (cases "truncateField saved maxClientIDLen = [] \<or> min (cg_grace ?e) restartReserveCap \<le> 0")
    case True
    then show ?thesis using e by (simp add: reserveAfterRestart_def Let_def)
  next
    case False
    then have "truncateField saved maxClientIDLen \<noteq> []" by blast
    then show ?thesis unfolding reserveAfterRestart_def Let_def electLocked_def if_not_P [OF False] fst_conv by (intro r) simp_all
  qed
qed

section \<open>One size authority\<close>

lemma marker_long: "maxClientIDLen < length (reservedMasterMarker i)"
  by (auto simp: reservedMasterMarker_def Let_def)

lemma recs_id:
  assumes "clients_ok r" "a \<in> set (recs r)"
  shows "cr_id a \<noteq> []" "length (cr_id a) \<le> maxClientIDLen" "b \<in> set (recs r) \<Longrightarrow> cr_id a = cr_id b \<Longrightarrow> a = b"
proof -
  note C = clients_okD [OF assms(1)]
  obtain c where c: "client r c = Some a" using assms(2) in_recs [OF C(1)] by blast
  show "cr_id a \<noteq> []" "length (cr_id a) \<le> maxClientIDLen" using C(2) [OF c] by simp_all
  show "a = b" if "b \<in> set (recs r)" "cr_id a = cr_id b"
  proof -
    note t = that
    obtain d where d: "client r d = Some b" using t(1) in_recs [OF C(1)] by blast
    show ?thesis using C(3) [OF c d t(2)] c d by simp
  qed
qed

lemma published_iff:
  assumes "clients_ok r" "a \<in> set (recs r)"
  shows "publishedMasterLocked r = cr_id a \<longleftrightarrow> isMasterLocked r a"
proof -
  note A = recs_id [OF assms]
  show ?thesis
  proof (cases "recordByID r (cg_masterID r)")
    case None
    then have "cr_id a \<noteq> cg_masterID r" using A(1) assms recordByID_iff [OF assms(1), of "cg_masterID r" a] by auto
    then show ?thesis using None by (auto simp: publishedMasterLocked_def isMasterLocked_def)
  next
    case (Some x)
    then have x: "x \<in> set (recs r)" "cr_id x = cg_masterID r" "cg_masterID r \<noteq> []" by (simp_all add: recordByID_iff [OF assms(1)])
    have n: "reservedMasterMarker (cg_masterID r) \<noteq> cr_id a" using A(2) marker_long [of "cg_masterID r"] by auto
    show ?thesis
    proof (cases "cr_id a = cg_masterID r")
      case True
      then have "a = x" using A(3) [OF x(1)] x(2) by simp
      then show ?thesis using Some x n by (simp add: publishedMasterLocked_def isMasterLocked_def)
    next
      case False
      then have "cg_masterID r \<noteq> cr_id a" by simp
      then show ?thesis using Some n by (simp add: publishedMasterLocked_def isMasterLocked_def)
    qed
  qed
qed

lemma master_eligible:
  assumes "registry_ok r" "a \<in> set (recs r)" "isMasterLocked r a"
  shows "eligible a \<and> cg_reserved r = None"
proof -
  have ok: "clients_ok r" "slot_ok r" using assms(1) by (simp_all add: registry_ok_def)
  have n: "cg_reserved r = None"
    using ok(2) assms(2,3) by (auto simp: slot_ok_def isMasterLocked_def split: option.splits)
  then obtain b where "b \<in> set (recs r)" "cr_id b = cg_masterID r" "eligible b"
    using ok(2) assms(3) by (auto simp: slot_ok_def isMasterLocked_def)
  then show ?thesis using n recs_id(3) [OF ok(1) assms(2)] assms(3) by (auto simp: isMasterLocked_def)
qed

text \<open>C28. One size authority. From a start with or without a restored master, under every sequence of attaches,
  detaches, lost links, resizes, requests for control and timer fires, in any order and at any times, at
  most one attached client is the size master, it is a paintable, writable one, and the master's name in
  the state frames is a client's own id exactly when that client is the master. While a paintable
  writable client is attached, the right to resize is never open to everybody, and the slot is empty
  only while a reserve with an armed timer still protects someone.\<close>

theorem one_size_master:
  fixes t grace :: int and saved :: string
  assumes "\<forall>(t, e) \<in> set evs. event_ok e"
  defines "r \<equiv> client_run evs (reserveAfterRestart t saved (empty_registry grace))"
  shows "(\<forall>a \<in> set (recs r). \<forall>b \<in> set (recs r). isMasterLocked r a \<longrightarrow> isMasterLocked r b \<longrightarrow> a = b)
    \<and> (\<forall>a \<in> set (recs r). isMasterLocked r a \<longrightarrow> eligible a)
    \<and> (\<forall>a \<in> set (recs r). publishedMasterLocked r = cr_id a \<longleftrightarrow> isMasterLocked r a)
    \<and> ((\<exists>a \<in> set (recs r). eligible a) \<longrightarrow> \<not> sizeAuthorityOpen r \<and> (masterConn r = None \<longrightarrow>
         (\<exists>res. cg_reserved r = Some res \<and> cg_timer r = Some (rv_until res) \<and> reserveStillProtects r res)))"
proof -
  have ok: "registry_ok r" unfolding r_def by (rule run_ok [OF start_ok assms(1)])
  then have c: "clients_ok r" and s: "slot_ok r" by (simp_all add: registry_ok_def)
  have "a = b" if "a \<in> set (recs r)" "b \<in> set (recs r)" "isMasterLocked r a" "isMasterLocked r b" for a b
    using recs_id(3) [OF c that(1,2)] that(3,4) by (simp add: isMasterLocked_def)
  moreover have "cg_masterID r \<noteq> [] \<or> cg_reserved r \<noteq> None" "masterConn r = None \<Longrightarrow>
      (\<exists>res. cg_reserved r = Some res \<and> cg_timer r = Some (rv_until res) \<and> reserveStillProtects r res)"
    if e: "a \<in> set (recs r)" "eligible a" for a
  proof -
    have m: "cg_reserved r = None \<Longrightarrow> \<exists>b \<in> set (recs r). cr_id b = cg_masterID r \<and> cg_masterID r \<noteq> []"
      using s e by (auto simp: slot_ok_def split: if_splits)
    then show "cg_masterID r \<noteq> [] \<or> cg_reserved r \<noteq> None" by blast
    assume "masterConn r = None"
    then have "\<not> isMasterLocked r b" if "b \<in> set (recs r)" for b
      using masterRecord_iff [OF c] that by (auto simp: masterConn_def)
    then have "cg_reserved r \<noteq> None" using m unfolding isMasterLocked_def shadowedLocked_def by (metis option.simps(4))
    then show "\<exists>res. cg_reserved r = Some res \<and> cg_timer r = Some (rv_until res) \<and> reserveStillProtects r res"
      using s by (auto simp: slot_ok_def)
  qed
  ultimately show ?thesis using master_eligible [OF ok] published_iff [OF c] unfolding sizeAuthorityOpen_def by blast
qed

text \<open>Two local windows, and the defaults of the samples.\<close>

definition sample_payload :: "string \<Rightarrow> attach_payload" where
  "sample_payload i = \<lparr>ap_ClientID = i, ap_WinCols = 100, ap_WinRows = 40, ap_Cols = 98, ap_Rows = 38, ap_CWD = ''/'', ap_Reattach = False\<rparr>"

definition sample_clients :: "(int \<times> client_event) list" where
  "sample_clients = [(1, Attach ''u'' 1 None (sample_payload ''a'')), (2, Attach ''u'' 2 None (sample_payload ''b''))]"

lemmas client_eval = client_run_def sample_clients_def sample_payload_def attachClient_def attach_def attach_id_def refused_def
  claims_slot_def ends_reserve_def place_record_def claim_age_def electSlotLocked_def masterRecordLocked_def recordByID_def
  shadowedLocked_def clearReservationLocked_def oldestEligibleLocked_def eligible_def daemonMinClientCols_def daemonMinClientRows_def
  attachWindowSize_def clampClientDim_def maxClientDim_def truncateField_def maxClientIDLen_def reservedMasterPrefix_def
  PrincipalLocal_def empty_registry_def reserveAfterRestart_def recs_def Let_def

lemma sample_master: "masterConn (client_run sample_clients (reserveAfterRestart 0 [] (empty_registry 5))) = Some 1"
  by (simp add: client_eval masterConn_def)

theorem one_size_master_witness:
  "let r = client_run sample_clients (reserveAfterRestart 0 [] (empty_registry 5))
   in masterConn r = Some 1 \<and> (\<forall>a \<in> set (recs r). publishedMasterLocked r = cr_id a \<longleftrightarrow> isMasterLocked r a)"
proof -
  have "\<forall>(t, e) \<in> set sample_clients. event_ok e" by (simp add: sample_clients_def)
  from one_size_master [OF this, of 0 "[]" 5] show ?thesis unfolding Let_def using sample_master by blast
qed

section \<open>Displacement\<close>

text \<open>C29. A login cannot displace another's. An attach by any other login than the local socket leaves the record
  of every client with a different login as it was, cannot take its id, and cannot take the size
  master's place from it.\<close>

theorem attach_displaces_nobody:
  assumes "registry_ok r" "length fresh \<le> 36" "length id0 \<le> maxClientIDLen"
    and "prin \<noteq> PrincipalLocal" "client r d = Some b" "d \<noteq> cn" "cr_principal b \<noteq> prin"
  shows "case attach fresh now cn id0 cols rows cwd reattach prin readOnly r of
      Inl e \<Rightarrow> e = errClientIDInUse
    | Inr (r', _) \<Rightarrow> attach_id r fresh cn id0 \<noteq> cr_id b \<and> client r' d = Some b \<and> (isMasterConn r d \<longrightarrow> isMasterConn r' d)"
proof (cases "attach fresh now cn id0 cols rows cwd reattach prin readOnly r")
  case (Inl e)
  then show ?thesis by (auto simp: attach_def Let_def split: if_splits prod.splits)
next
  case (Inr x)
  obtain r' ch where x: "x = (r', ch)" by (cases x)
  have ok: "clients_ok r" using assms(1) by (simp add: registry_ok_def)
  obtain i rec others rec' r1 where i: "i = attach_id r fresh cn id0" and nr: "\<not> refused r cn i prin readOnly"
    and p: "place_record r now cn i (claims_slot r i prin readOnly) = (rec, others)"
    and rec': "rec' = rec\<lparr>cr_id := i, cr_cols := cols, cr_rows := rows, cr_cwd := cwd, cr_principal := prin, cr_readOnly := readOnly\<rparr>"
    and r1: "r1 = r\<lparr>cg_byConn := AList.update cn rec' others\<rparr>"
    and r': "r' = electSlotLocked now (if ends_reserve r (length (cg_byConn r1)) (claims_slot r i prin readOnly) id0 reattach prin readOnly
       then clearReservationLocked r1 else r1)" using Inr x by (auto elim: attach_cases)
  have n: "cr_id b \<noteq> i"
    using nr assms(4-7) map_of_SomeD [OF assms(5)] by (auto simp: refused_def list_ex_iff)
  have b: "client r1 d = Some b"
    using place_record_facts(3) [OF ok p assms(6)] assms(5,6) n by (simp add: r1 update_conv')
  then have b': "client r' d = Some b" by (simp add: r')
  have "isMasterConn r' d" if m: "isMasterConn r d"
  proof -
    have bm: "isMasterLocked r b" "b \<in> set (recs r)"
      using m assms(5) in_recs [OF clients_okD(1) [OF ok]] by (auto simp: isMasterConn_def)
    have e: "eligible b" "cg_reserved r = None" using master_eligible [OF assms(1) bm(2,1)] by simp_all
    have c1: "clients_ok r1" unfolding r1
      by (rule update_clients_ok [OF ok p attach_id_ok [OF ok assms(2,3), of cn, folded i]]) (simp_all add: rec')
    let ?r2 = "if ends_reserve r (length (cg_byConn r1)) (claims_slot r i prin readOnly) id0 reattach prin readOnly
       then clearReservationLocked r1 else r1"
    have f: "cg_byConn ?r2 = cg_byConn r1" "cg_masterID ?r2 = cg_masterID r" "cg_reserved ?r2 = None"
      using e(2) by (simp_all add: r1)
    have c2: "clients_ok ?r2" by (rule clients_ok_same [OF f(1) c1])
    have "b \<in> set (recs ?r2)" using b in_recs [OF clients_okD(1) [OF c2]] f(1) by metis
    moreover have bm2: "isMasterLocked ?r2 b" using bm(1) f(2,3) by (simp add: isMasterLocked_def shadowedLocked_def)
    ultimately have "masterRecordLocked ?r2 = Some b" using masterRecord_iff [OF c2] by blast
    then have "r' = ?r2" unfolding r' using e(1) by (simp add: electSlotLocked_def)
    then show ?thesis using b' bm2 by (simp add: isMasterConn_def)
  qed
  then show ?thesis using Inr x n i b' by auto
qed

lemma sample_two: "client_run sample_clients (reserveAfterRestart 0 [] (empty_registry 5)) = r \<Longrightarrow>
    \<exists>b. client r 1 = Some b \<and> cr_principal b = ''local'' \<and> isMasterConn r 1"
  by (auto simp: client_eval isMasterConn_def isMasterLocked_def)

theorem attach_displaces_nobody_witness:
  "case attach ''u'' 9 7 ''a'' 200 50 ''/'' False ''token x'' False (client_run sample_clients (reserveAfterRestart 0 [] (empty_registry 5))) of
     Inl e \<Rightarrow> e = errClientIDInUse | Inr (r', _) \<Rightarrow> isMasterConn r' 1"
proof -
  let ?r = "client_run sample_clients (reserveAfterRestart 0 [] (empty_registry 5))"
  obtain b where b: "client ?r 1 = Some b" "cr_principal b = ''local''" "isMasterConn ?r 1" using sample_two by blast
  have ok: "registry_ok ?r" by (rule run_ok [OF start_ok]) (simp add: sample_clients_def)
  have "cr_principal b \<noteq> ''token x''" "''token x'' \<noteq> PrincipalLocal" "length ''a'' \<le> maxClientIDLen" "length ''u'' \<le> 36"
    using b(2) by (simp_all add: PrincipalLocal_def maxClientIDLen_def)
  from attach_displaces_nobody [OF ok this(4,3,2) b(1) _ this(1), of 7 9 200 50 "''/''" False False] b(3)
  show ?thesis by (auto split: sum.splits)
qed

end
