(* ===== verification/Client_Grace.thy ===== *)
theory Client_Grace
  imports Client_Props
begin

text \<open>
  The reserve of a lost master: while it stands nobody sizes the panes and the lost client gets its place
  and its age back; when it lapses, the oldest eligible client is elected.
\<close>

definition waiting :: "reservation \<Rightarrow> clientRegistry \<Rightarrow> bool" where
  "waiting res r \<longleftrightarrow> registry_ok r \<and> cg_reserved r = Some res"

lemma waiting_facts:
  assumes "waiting res r" "rv_principal res \<noteq> []"
  shows "cg_masterID r = rv_id res" "rv_id res \<noteq> []" "a \<in> set (recs r) \<Longrightarrow> cr_id a \<noteq> rv_id res" "masterRecordLocked r = None"
proof -
  have ok: "clients_ok r" "slot_ok r" "cg_reserved r = Some res" using assms(1) by (simp_all add: waiting_def registry_ok_def)
  show m: "cg_masterID r = rv_id res" "rv_id res \<noteq> []" using ok by (simp_all add: slot_ok_def)
  show n: "cr_id a \<noteq> rv_id res" if "a \<in> set (recs r)" for a
    using ok assms(2) that by (auto simp: slot_ok_def shadowedLocked_def)
  show "masterRecordLocked r = None"
  proof (rule ccontr)
    assume "masterRecordLocked r \<noteq> None"
    then obtain a where "a \<in> set (recs r)" "isMasterLocked r a" using masterRecord_iff [OF ok(1)] by blast
    then show False using n m by (simp add: isMasterLocked_def)
  qed
qed

text \<open>An election keeps a reserve that stands.\<close>

lemma elect_keeps:
  assumes "cg_reserved r = Some res" "now < rv_until res" "reserveStillProtects r res"
  shows "cg_reserved (electSlotLocked now r) = Some res"
  using assms by (simp add: electSlotLocked_def)

lemma protects_same: "cg_byConn r' = cg_byConn r \<Longrightarrow> reserveStillProtects r' res = reserveStillProtects r res"
  by (simp add: reserveStillProtects_def recs_def split: option.split)

text \<open>What does not end the reserve of \<open>i\<close>: everything but a request for control and an attach under that id.\<close>

definition leaves_reserve :: "string \<Rightarrow> client_event \<Rightarrow> bool" where
  "leaves_reserve i e \<longleftrightarrow> event_ok e \<and> (\<forall>c. e \<noteq> Take c)
     \<and> (\<forall>fresh c auth p. e = Attach fresh c auth p \<longrightarrow> truncateField (ap_ClientID p) maxClientIDLen \<noteq> i \<and> ''anon-'' @ fresh \<noteq> i)"

lemma attach_keeps:
  assumes "waiting res r" "rv_principal res \<noteq> []" "rv_protects res \<noteq> None" "now < rv_until res"
    and "id0 \<noteq> rv_id res" "''anon-'' @ fresh \<noteq> rv_id res"
    and "attach fresh now cn id0 cols rows cwd reattach prin readOnly r = Inr (r', ch)" "reserveStillProtects r' res"
  shows "cg_reserved r' = Some res"
proof -
  have s: "cg_reserved r = Some res" using assms(1) by (simp add: waiting_def)
  obtain i rec others rec' r1 where i: "i = attach_id r fresh cn id0" and "\<not> refused r cn i prin readOnly"
    and "place_record r now cn i (claims_slot r i prin readOnly) = (rec, others)"
    and "rec' = rec\<lparr>cr_id := i, cr_cols := cols, cr_rows := rows, cr_cwd := cwd, cr_principal := prin, cr_readOnly := readOnly\<rparr>"
    and r1: "r1 = r\<lparr>cg_byConn := AList.update cn rec' others\<rparr>"
    and r': "r' = electSlotLocked now (if ends_reserve r (length (cg_byConn r1)) (claims_slot r i prin readOnly) id0 reattach prin readOnly
       then clearReservationLocked r1 else r1)" by (rule attach_cases [OF assms(7)])
  have "i \<noteq> rv_id res"
  proof (cases "id0 = [] \<and> client r cn \<noteq> None")
    case True
    then obtain rec where "client r cn = Some rec" "i = cr_id rec" by (auto simp: i attach_id_def)
    then show ?thesis using waiting_facts(3) [OF assms(1,2)] assms(1) in_recs clients_okD(1)
      by (metis waiting_def registry_ok_def)
  qed (use assms(5,6) in \<open>auto simp: i attach_id_def\<close>)
  then have "\<not> ends_reserve r (length (cg_byConn r1)) (claims_slot r i prin readOnly) id0 reattach prin readOnly"
    using s assms(3) by (simp add: ends_reserve_def claims_slot_def)
  then have "r' = electSlotLocked now r1" by (simp add: r')
  then show ?thesis using elect_keeps [of r1 res now] assms(4,8) r1 s protects_same [of r' r1] by simp
qed

lemma step_keeps:
  assumes "waiting res r" "rv_principal res \<noteq> []" "rv_protects res \<noteq> None" "now < rv_until res"
    and "leaves_reserve (rv_id res) e" "reserveStillProtects (client_step now e r) res"
  shows "waiting res (client_step now e r)"
proof -
  have s: "cg_reserved r = Some res" and ok: "registry_ok r" using assms(1) by (simp_all add: waiting_def)
  have ev: "event_ok e" using assms(5) by (simp add: leaves_reserve_def)
  have nm: "\<not> isMasterLocked r a" if "client r c = Some a" for a c
    using waiting_facts(1,3) [OF assms(1,2)] that in_recs ok by (metis clients_okD(1) isMasterLocked_def registry_ok_def)
  have el: "cg_reserved (electSlotLocked now r1) = Some res"
    if "cg_reserved r1 = Some res" "reserveStillProtects (electSlotLocked now r1) res" for r1
    using elect_keeps [of r1 res now] that assms(4) protects_same [of "electSlotLocked now r1" r1] by simp
  have "cg_reserved (client_step now e r) = Some res"
  proof (cases e)
    case (Attach fresh cn auth p)
    show ?thesis
    proof (cases "attachClient fresh now cn auth p r")
      case (Inr x)
      obtain r' ch where x: "x = (r', ch)" by (cases x)
      obtain cols rows prin ro where a: "attach fresh now cn (truncateField (ap_ClientID p) maxClientIDLen) cols rows (ap_CWD p)
          (ap_Reattach p) prin ro r = Inr (r', ch)"
        using Inr x by (auto simp: attachClient_def Let_def split: if_splits prod.splits)
      have "reserveStillProtects r' res" using assms(6) Attach Inr x by simp
      then have "cg_reserved r' = Some res"
        using attach_keeps [OF assms(1-4) _ _ a] assms(5) Attach by (simp add: leaves_reserve_def)
      then show ?thesis using Attach Inr x by simp
    qed (use s Attach in simp)
  next
    case (Lose cn)
    then show ?thesis using s assms(6) nm el by (auto simp: lose_def Let_def split: option.splits)
  next
    case (Detach cn)
    then show ?thesis using s assms(6) el by (auto simp: detach_def Let_def split: option.splits)
  next
    case (Geometry cn cols rows)
    then show ?thesis using s assms(6) el by (auto simp: setGeometry_def electLocked_def Let_def split: option.splits)
  next
    case (Take cn)
    then show ?thesis using assms(5) by (simp add: leaves_reserve_def)
  next
    case Expire
    then show ?thesis using s assms(6) el by (simp add: expire_def electLocked_def Let_def)
  qed (use s in \<open>auto simp: touchClientInput_def setOverlayClaim_def update_record_def forgetOverlayClaimsFor_def split: option.splits\<close>)
  then show ?thesis using step_ok [OF ok ev] by (simp add: waiting_def)
qed

lemma run_keeps:
  assumes "waiting res r" "rv_principal res \<noteq> []" "rv_protects res \<noteq> None"
    and "\<forall>(t, e) \<in> set evs. t < rv_until res \<and> leaves_reserve (rv_id res) e"
    and "\<forall>n \<le> length evs. reserveStillProtects (client_run (take n evs) r) res"
  shows "waiting res (client_run evs r)"
  using assms(4,5)
proof (induction evs rule: rev_induct)
  case Nil
  then show ?case using assms(1) by (simp add: client_run_def)
next
  case (snoc x evs)
  obtain t e where x: "x = (t, e)" by (cases x)
  have p: "reserveStillProtects (client_run (take n (evs @ [x])) r) res" if "n \<le> Suc (length evs)" for n
    using snoc.prems(2) that by simp
  have "reserveStillProtects (client_run (take n evs) r) res" if "n \<le> length evs" for n using p [of n] that by simp
  then have w: "waiting res (client_run evs r)" using snoc by auto
  have s: "client_run (evs @ [x]) r = client_step t e (client_run evs r)" by (simp add: client_run_def x)
  have "reserveStillProtects (client_step t e (client_run evs r)) res" using p [of "Suc (length evs)"] by (simp add: s)
  then show ?case unfolding s using step_keeps [OF w assms(2,3)] snoc.prems(1) by (simp add: x)
qed

lemma drop_rest:
  assumes "clients_ok r" "client r m = Some M"
  shows "set (recs (drop_conn m r)) = set (recs r) - {M}"
proof -
  have "x \<in> set (recs (drop_conn m r)) \<longleftrightarrow> (\<exists>c. c \<noteq> m \<and> client r c = Some x)" for x
    using in_recs [OF clients_okD(1) [OF drop_clients_ok [OF assms(1)]], of x m] by auto
  moreover have "x \<in> set (recs r) \<longleftrightarrow> (\<exists>c. client r c = Some x)" for x using in_recs clients_okD(1) [OF assms(1)] by blast
  moreover have "c = m" if "client r c = Some M" for c using clients_okD(3) [OF assms(1) that assms(2)] by simp
  moreover have "x = M" if "client r m = Some x" for x using that assms(2) by simp
  ultimately have "x \<in> set (recs (drop_conn m r)) \<longleftrightarrow> x \<in> set (recs r) \<and> x \<noteq> M" for x by metis
  then show ?thesis by blast
qed

lemma lose_waits:
  assumes "registry_ok r" "client r m = Some M" "isMasterLocked r M" "cg_grace r > 0" "client r d \<noteq> None" "d \<noteq> m"
  obtains res where "waiting res (fst (lose t0 m r))" "rv_id res = cr_id M" "rv_until res = t0 + cg_grace r"
    "rv_principal res = cr_principal M" "rv_attachedAt res = Some (cr_attachedAt M)"
    "rv_protects res = Some (map cr_id (recs (drop_conn m r)))"
proof -
  have ok: "clients_ok r" using assms(1) by (simp add: registry_ok_def)
  let ?r1 = "drop_conn m r"
  note D = drop_rest [OF ok assms(2)]
  have 1: "recordByID ?r1 (cr_id M) = None"
  proof (rule ccontr)
    assume "recordByID ?r1 (cr_id M) \<noteq> None"
    then obtain x where "x \<in> set (recs ?r1)" "cr_id x = cr_id M" using recordByID_iff [OF drop_clients_ok [OF ok]] by blast
    then show False using D recs_id(3) [OF ok, of x M] assms(2) in_recs clients_okD(1) [OF ok] by auto
  qed
  obtain x where x: "client r d = Some x" using assms(5) by blast
  then have 2: "recs ?r1 \<noteq> []"
    using in_recs [OF clients_okD(1) [OF drop_clients_ok [OF ok]], of x m] assms(6) by auto
  let ?res = "\<lparr>rv_id = cr_id M, rv_until = t0 + cg_grace r, rv_principal = cr_principal M,
      rv_attachedAt = Some (cr_attachedAt M), rv_protects = Some (map cr_id (recs ?r1))\<rparr>"
  let ?r2 = "reserveLocked t0 ?res (cg_grace r) ?r1"
  have "fst (lose t0 m r) = electSlotLocked t0 ?r2"
    using 1 2 assms(2-4) by (simp add: lose_def Let_def)
  moreover have "cg_reserved (electSlotLocked t0 ?r2) = Some ?res"
    using 2 assms(4) by (intro elect_keeps) (auto simp: reserveLocked_def reserveStillProtects_def list_ex_iff neq_Nil_conv)
  ultimately show ?thesis using lose_ok [OF assms(1), of t0 m] that [of ?res] by (simp add: waiting_def)
qed

lemma claim_returns:
  assumes "waiting res r" "rv_principal res \<noteq> []" "rv_attachedAt res = Some age" "client r c = None"
    and "daemonMinClientCols \<le> cols" "daemonMinClientRows \<le> rows" "length (rv_id res) \<le> maxClientIDLen"
  shows "\<exists>r' ch M. attach fresh t c (rv_id res) cols rows cwd reattach (rv_principal res) False r = Inr (r', ch)
    \<and> client r' c = Some M \<and> cr_attachedAt M = age \<and> isMasterConn r' c"
proof -
  note W = waiting_facts [OF assms(1,2)]
  have s: "cg_reserved r = Some res" "clients_ok r" using assms(1) by (simp_all add: waiting_def registry_ok_def)
  have i: "attach_id r fresh c (rv_id res) = rv_id res" using W(2) by (simp add: attach_id_def)
  have "(d, b) \<in> set (cg_byConn r) \<Longrightarrow> cr_id b \<noteq> rv_id res" for d b using W(3) [of b] by (force simp: recs_def)
  then have nr: "\<not> refused r c (rv_id res) (rv_principal res) False"
    using assms(2) by (auto simp: refused_def s(1) reservationAdmits_def list_ex_iff)
  have cl: "claims_slot r (rv_id res) (rv_principal res) False"
    using assms(2) by (simp add: claims_slot_def s(1) reservationAdmits_def)
  obtain rec others where p: "place_record r t c (rv_id res) True = (rec, others)" by fastforce
  have age: "cr_attachedAt rec = age" using p assms(3,4) s(1) by (auto simp: place_record_def claim_age_def)
  define rec' where "rec' = rec\<lparr>cr_id := rv_id res, cr_cols := cols, cr_rows := rows, cr_cwd := cwd, cr_principal := rv_principal res,
      cr_readOnly := False\<rparr>"
  define r1 where "r1 = clearReservationLocked (r\<lparr>cg_byConn := AList.update c rec' others\<rparr>)"
  have c1: "client r1 c = Some rec'" by (simp add: r1_def update_conv')
  have m: "isMasterLocked r1 rec'" using W(1,2) by (simp add: isMasterLocked_def shadowedLocked_def r1_def rec'_def)
  have ok1: "clients_ok r1"
  proof (rule clients_ok_same)
    show "clients_ok (r\<lparr>cg_byConn := AList.update c rec' others\<rparr>)"
      by (rule update_clients_ok [OF s(2) p W(2)]) (simp_all add: rec'_def assms(7))
  qed (simp add: r1_def)
  have "masterRecordLocked r1 = Some rec'" using m c1 in_recs [OF clients_okD(1) [OF ok1]] masterRecord_iff [OF ok1] by blast
  moreover have "eligible rec'" using assms(5,6) by (simp add: eligible_def rec'_def)
  ultimately have e: "electSlotLocked t r1 = r1" by (simp add: electSlotLocked_def)
  have a: "\<exists>ch. attach fresh t c (rv_id res) cols rows cwd reattach (rv_principal res) False r = Inr (electSlotLocked t r1, ch)"
    using nr cl p by (simp add: attach_def Let_def i ends_reserve_def rec'_def r1_def)
  then show ?thesis unfolding e using c1 m age by (auto simp: isMasterConn_def rec'_def)
qed

text \<open>C30. The grace of a lost master. When the size master's link is lost while another client is attached, then for
  the grace time, whatever the other clients do short of taking control or using its id, as long as one
  of those that saw it leave stays attached, nobody may resize; and when it comes back with its login
  and a paintable window, it is admitted, keeps its age and is the master again.\<close>

theorem lost_master_returns:
  assumes "registry_ok r" "client r m = Some M" "isMasterLocked r M" "cr_principal M \<noteq> []" "cg_grace r > 0"
    and "client r d \<noteq> None" "d \<noteq> m"
    and evs: "\<forall>(u, e) \<in> set evs. u < t0 + cg_grace r \<and> leaves_reserve (cr_id M) e"
    and seen: "\<forall>n \<le> length evs. \<exists>a \<in> set (recs (client_run (take n evs) (fst (lose t0 m r)))). cr_id a \<in> cr_id ` (set (recs r) - {M})"
    and ret: "client (client_run evs (fst (lose t0 m r))) c = None" "daemonMinClientCols \<le> cols" "daemonMinClientRows \<le> rows"
  shows "(\<forall>x. \<not> may_resize (client_run evs (fst (lose t0 m r))) x)
    \<and> (\<exists>r' ch M'. attach fresh t c (cr_id M) cols rows cwd reattach (cr_principal M) False (client_run evs (fst (lose t0 m r))) = Inr (r', ch)
        \<and> client r' c = Some M' \<and> cr_attachedAt M' = cr_attachedAt M \<and> isMasterConn r' c)"
proof -
  let ?r1 = "client_run evs (fst (lose t0 m r))"
  have ok: "clients_ok r" using assms(1) by (simp add: registry_ok_def)
  obtain res where res: "waiting res (fst (lose t0 m r))" "rv_id res = cr_id M" "rv_until res = t0 + cg_grace r"
    "rv_principal res = cr_principal M" "rv_attachedAt res = Some (cr_attachedAt M)"
    "rv_protects res = Some (map cr_id (recs (drop_conn m r)))"
    by (rule lose_waits [OF assms(1-3,5-7)])
  have p: "rv_principal res \<noteq> []" using assms(4) res(4) by simp
  have "reserveStillProtects (client_run (take n evs) (fst (lose t0 m r))) res" if "n \<le> length evs" for n
    using seen that by (auto simp: reserveStillProtects_def res(6) list_ex_iff drop_rest [OF ok assms(2)])
  then have w: "waiting res ?r1" by (intro run_keeps [OF res(1) p]) (use evs res in auto)
  have "\<not> may_resize ?r1 x" for x
  proof -
    have "\<not> isMasterLocked ?r1 a" if "client ?r1 x = Some a" for a
      using waiting_facts(1,3) [OF w p] that in_recs w by (metis clients_okD(1) isMasterLocked_def registry_ok_def waiting_def)
    then show ?thesis using w by (auto simp: may_resize_def isMasterConn_def sizeAuthorityOpen_def waiting_def split: option.splits)
  qed
  moreover have "length (rv_id res) \<le> maxClientIDLen" using clients_okD(2) [OF ok assms(2)] res(2) by simp
  note claim_returns [OF w p res(5) ret this, of fresh t cwd reattach, unfolded res(2,4)]
  ultimately show ?thesis by blast
qed

text \<open>A lapsed reserve elects the oldest. A timer fire at or after the reserve's end clears it, and the client
  attached first among the paintable, writable ones (ties by id) becomes the master; with none of them
  the slot is free.\<close>

theorem reserve_lapses:
  assumes "registry_ok r" "cg_reserved r = Some res" "rv_until res \<le> now"
  shows "cg_reserved (fst (expire now r)) = None \<and> cg_timer (fst (expire now r)) = None
    \<and> (case masterRecordLocked (fst (expire now r)) of
        None \<Rightarrow> sizeAuthorityOpen (fst (expire now r)) \<and> (\<forall>a \<in> set (recs r). \<not> eligible a)
      | Some m \<Rightarrow> m \<in> set (recs r) \<and> eligible m \<and> (\<forall>a \<in> set (recs r). eligible a \<longrightarrow> \<not> older a m))"
proof -
  have ok: "clients_ok r" "slot_ok r" using assms(1) by (simp_all add: registry_ok_def)
  have n: "masterRecordLocked r = None"
  proof (rule ccontr)
    assume "masterRecordLocked r \<noteq> None"
    then obtain a where a: "a \<in> set (recs r)" "isMasterLocked r a" using masterRecord_iff [OF ok(1)] by blast
    then have "cr_id a = rv_id res" using ok(2) assms(2) by (simp add: slot_ok_def isMasterLocked_def)
    then have "shadowedLocked r a" using ok(2) assms(2) a(1) by (simp add: slot_ok_def)
    then show False using a(2) by (simp add: isMasterLocked_def)
  qed
  let ?c = "clearReservationLocked r"
  have e: "fst (expire now r) = ?c\<lparr>cg_masterID := (case oldestEligibleLocked ?c of None \<Rightarrow> [] | Some best \<Rightarrow> cr_id best)\<rparr>"
    using assms(2,3) n by (simp add: expire_def electLocked_def electSlotLocked_def Let_def)
  have k: "clients_ok (fst (expire now r))" using step_ok [OF assms(1), of Expire now] by (simp add: registry_ok_def)
  show ?thesis
  proof (cases "oldestEligibleLocked ?c")
    case None
    then have "masterRecordLocked (fst (expire now r)) = None" by (simp add: e masterRecordLocked_def recordByID_def)
    then show ?thesis using oldestEligible(1) [OF None] by (simp add: e None sizeAuthorityOpen_def)
  next
    case (Some b)
    have b: "b \<in> set (recs r)" "eligible b" "\<forall>x \<in> set (recs r). eligible x \<longrightarrow> \<not> older x b"
      using oldestEligible(2) [OF Some] by simp_all
    have "masterRecordLocked (fst (expire now r)) = Some b"
      using b(1) recs_id(1) [OF ok(1) b(1)] unfolding masterRecord_iff [OF k] by (simp add: e Some isMasterLocked_def shadowedLocked_def)
    then show ?thesis using b by (simp add: e)
  qed
qed

definition sample_record :: "string \<Rightarrow> nat \<Rightarrow> int \<Rightarrow> clientRecord" where
  "sample_record i c t = \<lparr>cr_id = i, cr_conn = c, cr_attachedAt = t, cr_cols = 100, cr_rows = 40, cr_cwd = ''/'', cr_lastInputAt = None,
     cr_overlays = {}, cr_principal = ''local'', cr_readOnly = False\<rparr>"

abbreviation sample_registry :: clientRegistry where
  "sample_registry \<equiv> client_run sample_clients (reserveAfterRestart 0 [] (empty_registry 5))"

lemma sample_state: "sample_registry = \<lparr>cg_byConn = [(1, sample_record ''a'' 1 1), (2, sample_record ''b'' 2 2)], cg_masterID = ''a'',
    cg_reserved = None, cg_timer = None, cg_grace = 5\<rparr>"
  by (simp add: client_eval sample_record_def)

lemma sample_ok: "registry_ok sample_registry"
  by (rule run_ok [OF start_ok]) (simp add: sample_clients_def)

definition sample_reserve :: reservation where
  "sample_reserve = \<lparr>rv_id = ''a'', rv_until = 8, rv_principal = ''local'', rv_attachedAt = Some 1, rv_protects = Some [''b'']\<rparr>"

lemma sample_lost: "fst (lose 3 1 sample_registry) = \<lparr>cg_byConn = [(2, sample_record ''b'' 2 2)], cg_masterID = ''a'',
    cg_reserved = Some sample_reserve, cg_timer = Some 8, cg_grace = 5\<rparr>"
  unfolding sample_state by (simp add: lose_def isMasterLocked_def drop_conn_def reserveLocked_def reserveStillProtects_def client_eval
      sample_record_def sample_reserve_def)

theorem lost_master_returns_witness:
  "\<not> may_resize (client_run [(4, Touch 2)] (fst (lose 3 1 sample_registry))) 2
   \<and> (\<exists>r' ch. attach ''u'' 6 3 ''a'' 100 40 ''/'' True ''local'' False (client_run [(4, Touch 2)] (fst (lose 3 1 sample_registry))) = Inr (r', ch)
      \<and> isMasterConn r' 3)"
proof -
  have s: "client_run [(4, Touch 2)] (fst (lose 3 1 sample_registry)) = \<lparr>cg_byConn = [(2, (sample_record ''b'' 2 2)\<lparr>cr_lastInputAt := Some 4\<rparr>)],
      cg_masterID = ''a'', cg_reserved = Some sample_reserve, cg_timer = Some 8, cg_grace = 5\<rparr>"
    unfolding sample_lost by (simp add: client_run_def touchClientInput_def update_record_def)
  have m: "isMasterLocked sample_registry (sample_record ''a'' 1 1)"
    by (simp add: isMasterLocked_def shadowedLocked_def sample_state) (simp add: sample_record_def)
  have n: "\<forall>n \<le> length [(4 :: int, Touch 2)]. \<exists>a \<in> set (recs (client_run (take n [(4, Touch 2)]) (fst (lose 3 1 sample_registry)))).
      cr_id a \<in> cr_id ` (set (recs sample_registry) - {sample_record ''a'' 1 1})"
  proof (intro allI impI)
    fix n assume "n \<le> length [(4 :: int, Touch 2)]"
    then have "n = 0 \<or> n = 1" by auto
    then show "\<exists>a \<in> set (recs (client_run (take n [(4, Touch 2)]) (fst (lose 3 1 sample_registry)))).
      cr_id a \<in> cr_id ` (set (recs sample_registry) - {sample_record ''a'' 1 1})"
    proof
      assume "n = 0"
      then have e: "client_run (take n [(4, Touch 2)]) r = r" for r by (simp add: client_run_def)
      show ?thesis unfolding e sample_lost by (simp add: sample_state recs_def sample_record_def)
    next
      assume "n = 1"
      then have e: "take n [(4 :: int, Touch 2)] = [(4, Touch 2)]" by simp
      show ?thesis unfolding e s by (simp add: sample_state recs_def sample_record_def)
    qed
  qed
  have c: "client sample_registry 1 = Some (sample_record ''a'' 1 1)" "client sample_registry 2 \<noteq> None" "cg_grace sample_registry > 0"
    "cr_principal (sample_record ''a'' 1 1) = ''local''" "cr_id (sample_record ''a'' 1 1) = ''a''"
    unfolding sample_state by (simp_all add: sample_record_def)
  have e: "\<forall>(u, e) \<in> set [(4, Touch 2)]. u < 3 + cg_grace sample_registry \<and> leaves_reserve (cr_id (sample_record ''a'' 1 1)) e"
    unfolding sample_state by (simp add: leaves_reserve_def)
  have f: "client (client_run [(4, Touch 2)] (fst (lose 3 1 sample_registry))) 3 = None" unfolding s by simp
  have p: "cr_principal (sample_record ''a'' 1 1) \<noteq> []" using c(4) by simp
  from lost_master_returns [OF sample_ok c(1) m p c(3,2) _ e n f, of 100 40 "''u''" 6 "''/''" True]
  show ?thesis unfolding c(4,5) by (auto simp: daemonMinClientCols_def daemonMinClientRows_def)
qed

theorem reserve_lapses_witness:
  "masterConn (fst (expire 8 (fst (lose 3 1 sample_registry)))) = Some 2
   \<and> cg_reserved (fst (expire 8 (fst (lose 3 1 sample_registry)))) = None"
proof -
  let ?r = "fst (expire 8 (fst (lose 3 1 sample_registry)))"
  have ok: "registry_ok (fst (lose 3 1 sample_registry))" by (rule lose_ok [OF sample_ok])
  have res: "cg_reserved (fst (lose 3 1 sample_registry)) = Some sample_reserve" "rv_until sample_reserve \<le> 8"
    "recs (fst (lose 3 1 sample_registry)) = [sample_record ''b'' 2 2]"
    unfolding sample_lost by (simp_all add: sample_reserve_def recs_def)
  note l = reserve_lapses [OF ok res(1,2), unfolded res(3)]
  have "eligible (sample_record ''b'' 2 2)" by (simp add: eligible_def sample_record_def daemonMinClientCols_def daemonMinClientRows_def)
  then have "masterRecordLocked ?r = Some (sample_record ''b'' 2 2)" using l by (auto split: option.splits)
  then show ?thesis using l by (simp add: masterConn_def) (simp add: sample_record_def)
qed

end
