(* ===== verification/Work_Settle.thy ===== *)
theory Work_Settle
  imports Work_Ledger
begin

text \<open>
  When a turn counts as finished (\<open>internal/daemon/workstate.go\<close>): the settle window over a pane's work
  ledger and the subscribers that wait for it. A subscriber is a number; a run of it is paired with the
  \<open>aborted\<close> flag it is told. The timer's callback is a step of its own that may come at any time, also
  after the timer was stopped, as a callback already started does.
\<close>

record pane_work =
  pw_ledger :: WorkLedger
  pw_timer :: bool
  pw_subs :: "nat list"

definition fresh_pane :: pane_work where
  "fresh_pane = \<lparr>pw_ledger = zero_ledger, pw_timer = False, pw_subs = []\<rparr>"

definition applyWorkEvent :: "string \<Rightarrow> go_map \<Rightarrow> int \<Rightarrow> pane_work \<Rightarrow> Transition \<times> pane_work \<times> (nat \<times> bool) list" where
  "applyWorkEvent eventType data now p =
    (let (tr, l) = Apply eventType data now (pw_ledger p);
         p1 = p\<lparr>pw_ledger := l\<rparr>;
         p2 = (if Now tr = WorkWorking \<and> pw_timer p1 then p1\<lparr>pw_timer := False\<rparr> else p1);
         p3 = (if FellIdle tr then p2\<lparr>pw_timer := True\<rparr> else p2)
     in if Aborted_tr tr then (tr, p3\<lparr>pw_timer := False, pw_subs := []\<rparr>, map (\<lambda>f. (f, True)) (pw_subs p3))
        else (tr, p3, []))"

text \<open>The callback: the pane afterwards, the subscribers it runs, whether it announces the finished turn.\<close>

definition settleIdle :: "pane_work \<Rightarrow> pane_work \<times> (nat \<times> bool) list \<times> bool" where
  "settleIdle p =
    (let p1 = p\<lparr>pw_timer := False\<rparr> in
     if State (pw_ledger p1) \<noteq> WorkIdle then (p1, [], False)
     else let ab = aborted (pw_ledger p1); subs = pw_subs p1; p2 = p1\<lparr>pw_subs := []\<rparr>
       in if ab then (p2, map (\<lambda>f. (f, True)) subs, False) else (p2, map (\<lambda>f. (f, False)) subs, True))"

definition onPaneIdle :: "nat \<Rightarrow> pane_work \<Rightarrow> pane_work \<times> (nat \<times> bool) list" where
  "onPaneIdle f p =
    (if aborted (pw_ledger p) then (p, [(f, True)])
     else if State (pw_ledger p) = WorkIdle \<and> \<not> pw_timer p then (p, [(f, False)])
     else (p\<lparr>pw_subs := pw_subs p @ [f]\<rparr>, []))"

definition state_name :: "WorkState \<Rightarrow> string" where
  "state_name s = (case s of WorkUnknown \<Rightarrow> [] | WorkWorking \<Rightarrow> ''working'' | WorkBlocked \<Rightarrow> ''blocked'' | WorkIdle \<Rightarrow> ''idle'')"

text \<open>The wire's view; times are in nanoseconds.\<close>

definition paneWorkState :: "pane_work \<Rightarrow> string \<times> string \<times> int" where
  "paneWorkState p = (state_name (State (pw_ledger p)), blockedReason (pw_ledger p),
     case lastIdleAt (pw_ledger p) of None \<Rightarrow> 0 | Some t \<Rightarrow> t div 1000000)"

section \<open>Histories\<close>

datatype settle_event = Work string go_map int | Callback | Subscribe nat

fun settle_step :: "settle_event \<Rightarrow> pane_work \<Rightarrow> pane_work \<times> (nat \<times> bool) list" where
  "settle_step (Work ty data now) p = snd (applyWorkEvent ty data now p)"
| "settle_step Callback p = (case settleIdle p of (p', rs, _) \<Rightarrow> (p', rs))"
| "settle_step (Subscribe f) p = onPaneIdle f p"

definition settle_run :: "settle_event list \<Rightarrow> pane_work \<times> (nat \<times> bool) list" where
  "settle_run evs = fold (\<lambda>e (p, log). case settle_step e p of (p', rs) \<Rightarrow> (p', log @ rs)) evs (fresh_pane, [])"

definition subscribers :: "settle_event list \<Rightarrow> nat list" where
  "subscribers evs = List.map_filter (\<lambda>e. case e of Subscribe f \<Rightarrow> Some f | _ \<Rightarrow> None) evs"

lemma subscribers_snoc [simp]:
  "subscribers (evs @ [Work ty data now]) = subscribers evs" "subscribers (evs @ [Callback]) = subscribers evs"
  "subscribers (evs @ [Subscribe f]) = subscribers evs @ [f]" "subscribers [] = []"
  by (simp_all add: subscribers_def List.map_filter_def)

lemma settle_snoc: "settle_run (evs @ [e]) = (case settle_run evs of (p, log) \<Rightarrow> case settle_step e p of (p', rs) \<Rightarrow> (p', log @ rs))"
  by (simp add: settle_run_def)

text \<open>Every entry into the idle state is a falling edge or an abort.\<close>

fun edge_ok :: "settle_event \<Rightarrow> pane_work \<Rightarrow> bool" where
  "edge_ok (Work ty data now) p \<longleftrightarrow> (case Apply ty data now (pw_ledger p) of (tr, _) \<Rightarrow>
     Was tr \<noteq> WorkIdle \<longrightarrow> Now tr = WorkIdle \<longrightarrow> FellIdle tr \<or> Aborted_tr tr)"
| "edge_ok _ p \<longleftrightarrow> True"

definition edges_ok :: "settle_event list \<Rightarrow> bool" where
  "edges_ok evs \<longleftrightarrow> (\<forall>n < length evs. edge_ok (evs ! n) (fst (settle_run (take n evs))))"

lemma edges_snoc: "edges_ok (evs @ [e]) \<Longrightarrow> edges_ok evs \<and> edge_ok e (fst (settle_run evs))"
proof -
  assume a: "edges_ok (evs @ [e])"
  have "edge_ok (evs ! n) (fst (settle_run (take n evs)))" if "n < length evs" for n
    using a that by (auto simp: edges_ok_def nth_append dest!: spec [of _ n])
  moreover have "edge_ok e (fst (settle_run evs))"
    using a by (auto simp: edges_ok_def dest!: spec [of _ "length evs"])
  ultimately show ?thesis by (simp add: edges_ok_def)
qed

section \<open>The ledger's aborts\<close>

lemma aborted_simps [simp]:
  "aborted (ledger_switch ty data now l) = (case ClassifyWorkEvent ty of WorkEventStart \<Rightarrow> False | WorkEventAbort \<Rightarrow> True | _ \<Rightarrow> aborted l)"
  by (cases "ClassifyWorkEvent ty") (simp_all add: ledger_switch_def Let_def split: prod.split)

lemma Apply_cases:
  assumes "Apply ty data now l = (tr, l')"
  shows "Now tr = State l'" "Was tr = State l" "Aborted_tr tr \<longleftrightarrow> ClassifyWorkEvent ty = WorkEventAbort"
    "aborted l' \<longleftrightarrow> (case ClassifyWorkEvent ty of WorkEventStart \<Rightarrow> False | WorkEventAbort \<Rightarrow> True | _ \<Rightarrow> aborted l)"
    "FellIdle tr \<Longrightarrow> \<not> Aborted_tr tr"
proof -
  have keep: "State (l\<lparr>lastIdleAt := t\<rparr>) = State l" for l t by (simp add: State_def)
  show "Now tr = State l'" "Was tr = State l" "Aborted_tr tr \<longleftrightarrow> ClassifyWorkEvent ty = WorkEventAbort" "FellIdle tr \<Longrightarrow> \<not> Aborted_tr tr"
    using assms by (auto simp: Apply_def Let_def keep split: if_splits)
  have "aborted l' = (if ClassifyWorkEvent ty = WorkEventNone then aborted l else aborted (ledger_switch ty data now (l\<lparr>seen := True\<rparr>)))"
    using assms by (auto simp: Apply_def Let_def split: if_splits)
  then show "aborted l' \<longleftrightarrow> (case ClassifyWorkEvent ty of WorkEventStart \<Rightarrow> False | WorkEventAbort \<Rightarrow> True | _ \<Rightarrow> aborted l)"
    by (simp split: WorkEventKind.split)
qed

section \<open>Subscribers\<close>

definition settle_ok :: "nat list \<Rightarrow> pane_work \<Rightarrow> (nat \<times> bool) list \<Rightarrow> bool" where
  "settle_ok fs p log \<longleftrightarrow> distinct (map fst log @ pw_subs p) \<and> set (map fst log) \<union> set (pw_subs p) = set fs
     \<and> (aborted (pw_ledger p) \<longrightarrow> pw_subs p = [])"

text \<open>A subscriber told of a completion is told so by an idle pane that did not abort.\<close>

lemma told_idle:
  assumes "settle_step e p = (p', rs)" "(f, False) \<in> set rs"
  shows "State (pw_ledger p') = WorkIdle \<and> \<not> aborted (pw_ledger p')"
  using assms
proof (cases e)
  case (Work ty data now)
  then show ?thesis using assms by (auto simp: applyWorkEvent_def Let_def split: prod.splits if_splits)
qed (auto simp: settleIdle_def onPaneIdle_def Let_def split: if_splits)

text \<open>The pane after a hook event, by what the ledger answered.\<close>

lemma work_step:
  assumes "Apply ty data now (pw_ledger p) = (tr, l)" "settle_step (Work ty data now) p = (p', rs)"
  shows "pw_ledger p' = l"
    "Aborted_tr tr \<Longrightarrow> pw_subs p' = [] \<and> \<not> pw_timer p' \<and> rs = map (\<lambda>f. (f, True)) (pw_subs p)"
    "\<not> Aborted_tr tr \<Longrightarrow> pw_subs p' = pw_subs p \<and> rs = []
       \<and> pw_timer p' = (FellIdle tr \<or> pw_timer p \<and> Now tr \<noteq> WorkWorking)"
  using assms by (auto simp: applyWorkEvent_def Let_def split: if_splits)

lemma step_settle_ok:
  assumes "settle_ok fs p log" "settle_step e p = (p', rs)"
    and "distinct (fs @ (case e of Subscribe f \<Rightarrow> [f] | _ \<Rightarrow> []))"
  shows "settle_ok (fs @ (case e of Subscribe f \<Rightarrow> [f] | _ \<Rightarrow> [])) p' (log @ rs)"
proof (cases e)
  case (Work ty data now)
  obtain tr l where a: "Apply ty data now (pw_ledger p) = (tr, l)" by fastforce
  note W = work_step [OF a assms(2) [unfolded Work]]
  have t: "map fst (map (\<lambda>f. (f, True)) fs) = fs" for fs :: "nat list" by (simp add: comp_def)
  show ?thesis
  proof (cases "Aborted_tr tr")
    case True
    then show ?thesis using W(2) assms(1) Work by (auto simp: settle_ok_def t comp_def)
  next
    case False
    then have "aborted l \<Longrightarrow> aborted (pw_ledger p)"
      using Apply_cases(3,4) [OF a] by (auto split: WorkEventKind.splits)
    then show ?thesis using W(1,3) False assms(1) Work by (auto simp: settle_ok_def)
  qed
next
  case Callback
  have t: "map fst (map (\<lambda>f. (f, b)) fs) = fs" for fs :: "nat list" and b :: bool by (simp add: comp_def)
  have r: "(pw_subs p' = [] \<and> (\<exists>b. rs = map (\<lambda>f. (f, b)) (pw_subs p)) \<or> pw_subs p' = pw_subs p \<and> rs = []) \<and> pw_ledger p' = pw_ledger p"
    using assms(2) Callback by (auto simp: settleIdle_def Let_def split: if_splits)
  then consider b where "pw_subs p' = []" "rs = map (\<lambda>f. (f, b)) (pw_subs p)" | "pw_subs p' = pw_subs p" "rs = []" by blast
  then show ?thesis using assms(1) r Callback by cases (simp_all add: settle_ok_def map_append t del: map_map)
next
  case (Subscribe f)
  have u: "f \<notin> set (map fst log)" "f \<notin> set (pw_subs p)" using assms(1,3) Subscribe unfolding settle_ok_def by auto
  have r: "(p' = p \<and> map fst rs = [f] \<or> pw_subs p' = pw_subs p @ [f] \<and> rs = [] \<and> \<not> aborted (pw_ledger p)) \<and> pw_ledger p' = pw_ledger p"
    using assms(2) Subscribe by (auto simp: onPaneIdle_def split: if_splits)
  then consider "p' = p" "map fst rs = [f]" | "pw_subs p' = pw_subs p @ [f]" "rs = []" "\<not> aborted (pw_ledger p)" by blast
  then show ?thesis using assms(1) r u Subscribe by cases (auto simp add: settle_ok_def map_append simp del: set_map map_map)
qed

lemma step_armed:
  assumes "State (pw_ledger p) = WorkIdle \<Longrightarrow> pw_subs p \<noteq> [] \<Longrightarrow> pw_timer p" "edge_ok e p" "settle_step e p = (p', rs)"
    and "State (pw_ledger p') = WorkIdle" "pw_subs p' \<noteq> []"
  shows "pw_timer p'"
proof (cases e)
  case (Work ty data now)
  obtain tr l where a: "Apply ty data now (pw_ledger p) = (tr, l)" by fastforce
  note W = work_step [OF a assms(3) [unfolded Work]]
  note A = Apply_cases [OF a]
  have n: "\<not> Aborted_tr tr" using W(2) assms(5) by blast
  then show ?thesis using W(1,3) assms(1,2,4,5) A(1,2) a Work by (cases "Was tr = WorkIdle") auto
qed (use assms in \<open>auto simp: settleIdle_def onPaneIdle_def Let_def split: if_splits\<close>)

lemma settle_run_ok:
  assumes "settle_run evs = (p, log)" "distinct (subscribers evs)"
  shows "settle_ok (subscribers evs) p log
    \<and> (edges_ok evs \<longrightarrow> State (pw_ledger p) = WorkIdle \<longrightarrow> pw_subs p \<noteq> [] \<longrightarrow> pw_timer p)"
  using assms
proof (induction evs arbitrary: p log rule: rev_induct)
  case Nil
  then show ?case by (auto simp: settle_run_def settle_ok_def fresh_pane_def)
next
  case (snoc e evs)
  obtain p0 log0 where r: "settle_run evs = (p0, log0)" by fastforce
  obtain p1 rs where s: "settle_step e p0 = (p1, rs)" by fastforce
  have p: "p = p1" "log = log0 @ rs" using snoc.prems(1) by (simp_all add: settle_snoc r s)
  have f: "subscribers (evs @ [e]) = subscribers evs @ (case e of Subscribe f \<Rightarrow> [f] | _ \<Rightarrow> [])" by (cases e) simp_all
  have IH: "settle_ok (subscribers evs) p0 log0"
      "edges_ok evs \<Longrightarrow> State (pw_ledger p0) = WorkIdle \<Longrightarrow> pw_subs p0 \<noteq> [] \<Longrightarrow> pw_timer p0"
    using snoc.IH [OF r] snoc.prems(2) by (simp_all add: f)
  have "settle_ok (subscribers (evs @ [e])) p log"
    unfolding f p by (rule step_settle_ok [OF IH(1) s]) (use snoc.prems(2) in \<open>simp only: f\<close>)
  moreover have "edges_ok (evs @ [e]) \<Longrightarrow> State (pw_ledger p) = WorkIdle \<Longrightarrow> pw_subs p \<noteq> [] \<Longrightarrow> pw_timer p"
    using edges_snoc [of evs e] r step_armed [OF IH(2) _ s] unfolding p by auto
  ultimately show ?case by blast
qed

text \<open>C31. Who waits for a pane is told once, and the truth. Under every interleaving of hook events, callbacks (stale
  ones included) and registrations of distinct subscribers, each subscriber is either waiting or has been
  run once; a completion is told only by a pane that is idle and has not aborted; and while every entry
  into idle is a falling edge, nobody waits on an idle pane unless its settle window is open.\<close>

theorem idle_subscribers_told_once:
  assumes "distinct (subscribers evs)" "settle_run evs = (p, log)"
  shows "distinct (map fst log @ pw_subs p) \<and> set (map fst log) \<union> set (pw_subs p) = set (subscribers evs)
    \<and> (\<forall>e p' rs f. settle_step e p = (p', rs) \<longrightarrow> (f, False) \<in> set rs \<longrightarrow> State (pw_ledger p') = WorkIdle \<and> \<not> aborted (pw_ledger p'))
    \<and> (aborted (pw_ledger p) \<longrightarrow> pw_subs p = [])
    \<and> (edges_ok evs \<longrightarrow> State (pw_ledger p) = WorkIdle \<longrightarrow> pw_subs p \<noteq> [] \<longrightarrow> pw_timer p)"
  using settle_run_ok [OF assms(2,1)] told_idle unfolding settle_ok_def by blast

text \<open>A turn, a subscriber in it, its stop, the callback.\<close>

lemmas settle_eval = settle_run_def applyWorkEvent_def Apply_def ledger_switch_def ClassifyWorkEvent_def State_def working_def
  fresh_pane_def zero_ledger_def onPaneIdle_def settleIdle_def Let_def subagentFailureEvent_def lookup_def

definition sample_turn :: "settle_event list" where
  "sample_turn = [Work ''hook.claude.UserPromptSubmit'' None 1, Subscribe 7, Work ''hook.claude.Stop'' None 2, Callback]"

lemma sample_turn_run: "snd (settle_run sample_turn) = [(7, False)]"
  by (simp add: settle_eval sample_turn_def)

theorem idle_subscribers_told_once_witness:
  "snd (settle_run sample_turn) = [(7, False)] \<and> pw_subs (fst (settle_run sample_turn)) = []"
proof -
  have s: "subscribers sample_turn = [7]" by (simp add: subscribers_def sample_turn_def List.map_filter_def)
  note t = idle_subscribers_told_once [of sample_turn, OF _ surjective_pairing, unfolded s sample_turn_run]
  have "7 \<notin> set (pw_subs (fst (settle_run sample_turn)))" "set (pw_subs (fst (settle_run sample_turn))) \<subseteq> {7}"
    using t by auto
  then show ?thesis using sample_turn_run by (cases "pw_subs (fst (settle_run sample_turn))") auto
qed

text \<open>Entries into idle that are no falling edge exist, and leave a subscriber behind. An agent that resumed without
  a start edge asks for permission inside the settle window; the callback finds it blocked; its stop
  unblocks it, but the ledger saw no work, so nothing is armed. And a stop that is the first event of a
  pane, as after a restart of the daemon, ends a turn nobody saw start.\<close>

lemma park_after_stop_strands:
  "let p = fst (settle_run [Work ''hook.claude.UserPromptSubmit'' None 1, Work ''hook.claude.Stop'' None 2, Subscribe 7,
       Work ''hook.claude.PermissionRequest'' None 3, Callback, Work ''hook.claude.Stop'' None 4])
   in pw_subs p = [7] \<and> State (pw_ledger p) = WorkIdle \<and> \<not> pw_timer p"
  by (simp add: settle_eval)

lemma first_stop_strands:
  "let p = fst (settle_run [Subscribe 7, Work ''hook.claude.Stop'' None 1])
   in pw_subs p = [7] \<and> State (pw_ledger p) = WorkIdle \<and> \<not> pw_timer p"
  by (simp add: settle_eval)

end
