(* ===== verification/Go_Float.thy ===== *)
theory Go_Float
  imports Quil_Prelude Complex_Main
begin

text \<open>
  Go's \<open>float64\<close> arithmetic (IEEE 754 binary64, round to nearest, ties to even). A value is the rational it
  denotes; every operation is the exact one followed by \<open>f64\<close>. Values stay far below the largest
  double, so overflow to infinity is left out; gradual underflow is not.
\<close>

section \<open>Rounding\<close>

text \<open>The number of binary digits.\<close>

fun bits :: "nat \<Rightarrow> nat" where
  "bits n = (if n = 0 then 0 else Suc (bits (n div 2)))"

declare bits.simps [simp del]

lemma bits_0 [simp]: "bits 0 = 0"
  by (simp add: bits.simps)

lemma bits_upper: "n < 2 ^ bits n"
proof (induction n rule: bits.induct)
  case (1 n)
  then show ?case by (cases "n = 0") (auto simp: bits.simps [of n])
qed

lemma bits_lower: "0 < n \<Longrightarrow> 2 ^ (bits n - 1) \<le> n"
proof (induction n rule: bits.induct)
  case (1 n)
  show ?case
  proof (cases "n div 2 = 0")
    case True
    then show ?thesis using 1(2) by (simp add: bits.simps [of n])
  next
    case False
    then have "2 ^ (bits (n div 2) - 1) \<le> n div 2" using 1 by simp
    moreover have "bits (n div 2) = Suc (bits (n div 2) - 1)" using False by (simp add: bits.simps [of "n div 2"])
    ultimately show ?thesis using 1(2) by (simp add: bits.simps [of n]) (metis power_Suc div_times_less_eq_dividend le_trans mult.commute mult_le_mono2)
  qed
qed

definition pow2 :: "int \<Rightarrow> rat" where
  "pow2 e = (if 0 \<le> e then 2 ^ nat e else 1 / 2 ^ nat (- e))"

lemma pow2_pos [simp]: "0 < pow2 e" "pow2 e \<noteq> 0"
  by (simp_all add: pow2_def)

text \<open>The exponent of a positive number.\<close>

definition binade :: "rat \<Rightarrow> int" where
  "binade x = (if 1 \<le> x then int (bits (nat \<lfloor>x\<rfloor>)) - 1 else - int (bits (nat (\<lceil>1 / x\<rceil> - 1))))"

definition round_half_even :: "rat \<Rightarrow> int" where
  "round_half_even y = (let n = \<lfloor>y\<rfloor>; d = y - of_int n in
     if d < 1/2 then n else if 1/2 < d then n + 1 else if even n then n else n + 1)"

definition f64 :: "rat \<Rightarrow> rat" where
  "f64 x = (if x = 0 then 0 else
     let q = pow2 (max (binade \<bar>x\<bar>) (- 1022) - 52) in sgn x * of_int (round_half_even (\<bar>x\<bar> / q)) * q)"

lemma round_half_even_bounds: "of_int n \<le> y \<Longrightarrow> n \<le> round_half_even y" "y \<le> of_int n \<Longrightarrow> round_half_even y \<le> n"
proof -
  assume "of_int n \<le> y"
  then have "n \<le> \<lfloor>y\<rfloor>" by (simp add: le_floor_iff)
  then show "n \<le> round_half_even y" by (simp add: round_half_even_def Let_def)
next
  assume a: "y \<le> of_int n"
  show "round_half_even y \<le> n"
  proof (cases "\<lfloor>y\<rfloor> < n")
    case True
    then show ?thesis by (simp add: round_half_even_def Let_def)
  next
    case False
    then have "y = of_int n" using a by linarith
    then show ?thesis by (simp add: round_half_even_def)
  qed
qed

text \<open>The exponent below one and from one on.\<close>

lemma binade_neg: "0 < x \<Longrightarrow> x < 1 \<Longrightarrow> binade x < 0"
proof -
  assume a: "0 < x" "x < 1"
  then have "1 < 1 / x" by simp
  then have "2 \<le> \<lceil>1 / x\<rceil>" by linarith
  then have "0 < nat (\<lceil>1 / x\<rceil> - 1)" by simp
  then have "0 < bits (nat (\<lceil>1 / x\<rceil> - 1))" by (simp add: bits.simps [of "nat (\<lceil>1 / x\<rceil> - 1)"])
  then show ?thesis using a by (simp add: binade_def)
qed

lemma binade_pos:
  assumes "1 \<le> x"
  shows "0 \<le> binade x" "2 ^ nat (binade x) \<le> x" "x < 2 ^ Suc (nat (binade x))"
proof -
  define n where "n = nat \<lfloor>x\<rfloor>"
  have f: "1 \<le> \<lfloor>x\<rfloor>" using assms by (simp add: le_floor_iff)
  then have n: "0 < n" "(of_nat n :: rat) = of_int \<lfloor>x\<rfloor>" by (simp_all add: n_def of_nat_nat)
  then have b: "0 < bits n" by (simp add: bits.simps [of n])
  have e: "binade x = int (bits n - 1)" using assms b by (simp add: binade_def n_def of_nat_diff)
  then show "0 \<le> binade x" by simp
  have "of_nat (2 ^ (bits n - 1)) \<le> (of_nat n :: rat)" using bits_lower [OF n(1)] by (rule of_nat_mono)
  also have "(of_nat n :: rat) \<le> x" unfolding n(2) by (rule of_int_floor_le)
  finally show "2 ^ nat (binade x) \<le> x" using e by simp
  have "x < of_int \<lfloor>x\<rfloor> + 1" by linarith
  also have "(of_int \<lfloor>x\<rfloor> :: rat) + 1 = of_nat (Suc n)" using n(2) by simp
  also have "(of_nat (Suc n) :: rat) \<le> of_nat (2 ^ bits n)" by (rule of_nat_mono) (use bits_upper [of n] in simp)
  finally have "x < 2 ^ bits n" by simp
  moreover have "bits n = Suc (nat (binade x))" using e b by simp
  ultimately show "x < 2 ^ Suc (nat (binade x))" by simp
qed

lemma binade_small: "0 < x \<Longrightarrow> x < 2 ^ 53 \<Longrightarrow> binade x \<le> 52"
proof (cases "1 \<le> x")
  case True
  assume "x < 2 ^ 53"
  then have "(2 :: rat) ^ nat (binade x) < 2 ^ 53" using binade_pos(2) [OF True] by linarith
  then have "nat (binade x) < 53" by (rule power_less_imp_less_exp [rotated]) simp
  then show ?thesis by simp
next
  case False
  assume "0 < x"
  then show ?thesis using binade_neg [of x] False by simp
qed

text \<open>Below \<open>2 ^ 53\<close> every integer is a double, so rounding does not step over one.\<close>

lemma grid_int:
  assumes "e \<le> 52"
  shows "\<exists>k :: int. of_int n / pow2 (e - 52) = of_int k"
proof -
  have "pow2 (e - 52) = 1 / 2 ^ nat (52 - e)" using assms by (auto simp: pow2_def)
  then have "of_int n / pow2 (e - 52) = of_int (n * 2 ^ nat (52 - e))" by simp
  then show ?thesis by blast
qed

lemma f64_between:
  assumes "0 < x" "0 \<le> n" "n < 2 ^ 53"
  shows "x \<le> of_int n \<Longrightarrow> f64 x \<le> of_int n" "x < 2 ^ 53 \<Longrightarrow> of_int n \<le> x \<Longrightarrow> of_int n \<le> f64 x"
proof -
  define q where "q = pow2 (max (binade x) (- 1022) - 52)"
  have q: "0 < q" by (simp add: q_def)
  have f: "f64 x = of_int (round_half_even (x / q)) * q" using assms(1) by (simp add: f64_def q_def Let_def)
  have k: "\<exists>k :: int. of_int n / q = of_int k" if "x < 2 ^ 53"
    unfolding q_def by (rule grid_int) (use binade_small [OF assms(1) that] in simp)
  show "f64 x \<le> of_int n" if a: "x \<le> of_int n"
  proof -
    have "(of_int n :: rat) < of_int (2 ^ 53)" using assms(3) by (simp only: of_int_less_iff)
    then obtain k :: int where k: "of_int n / q = of_int k" using k a by fastforce
    have "x / q \<le> of_int n / q" using a q by (intro divide_right_mono) simp_all
    then have "x / q \<le> of_int k" using k by simp
    then have "round_half_even (x / q) \<le> k" by (rule round_half_even_bounds(2))
    then have "of_int (round_half_even (x / q)) \<le> (of_int n / q :: rat)" unfolding k by (simp only: of_int_le_iff)
    then show ?thesis using f q by (simp add: field_simps)
  qed
  show "of_int n \<le> f64 x" if a: "x < 2 ^ 53" "of_int n \<le> x"
  proof -
    obtain k :: int where k: "of_int n / q = of_int k" using k a by blast
    have "of_int n / q \<le> x / q" using a q by (intro divide_right_mono) simp_all
    then have "of_int k \<le> x / q" using k by simp
    then have "k \<le> round_half_even (x / q)" by (rule round_half_even_bounds(1))
    then have "of_int n / q \<le> (of_int (round_half_even (x / q)) :: rat)" unfolding k by (simp only: of_int_le_iff)
    then show ?thesis using f q by (simp add: field_simps)
  qed
qed

lemma f64_0 [simp]: "f64 0 = 0"
  by (simp add: f64_def)

lemma f64_of_int: "0 \<le> n \<Longrightarrow> n < 2 ^ 53 \<Longrightarrow> f64 (of_int n) = of_int n"
proof (cases "n = 0")
  case False
  assume a: "0 \<le> n" "n < 2 ^ 53"
  then have "(of_int n :: rat) < of_int (2 ^ 53)" by (simp only: of_int_less_iff)
  then show ?thesis using f64_between [of "of_int n" n] a False by fastforce
qed simp

section \<open>Conversions\<close>

text \<open>\<open>int(x)\<close> discards the fraction.\<close>

definition go_int :: "rat \<Rightarrow> int" where
  "go_int y = (if 0 \<le> y then \<lfloor>y\<rfloor> else \<lceil>y\<rceil>)"

text \<open>\<open>int(float64(n) * ratio)\<close>\<close>

definition share :: "int \<Rightarrow> rat \<Rightarrow> int" where
  "share n ratio = go_int (f64 (f64 (of_int n) * ratio))"

definition f64_div :: "int \<Rightarrow> int \<Rightarrow> rat" where
  "f64_div a b = f64 (f64 (of_int a) / f64 (of_int b))"

lemma share_bounds:
  assumes "0 \<le> n" "n < 2 ^ 53" "0 \<le> r" "r \<le> 1"
  shows "0 \<le> share n r" "share n r \<le> n"
proof -
  define x where "x = of_int n * r"
  have x: "0 \<le> x" "x \<le> of_int n" using assms by (simp_all add: x_def mult_left_le)
  have "(of_int n :: rat) < of_int (2 ^ 53)" using assms(2) by (simp only: of_int_less_iff)
  then have lt: "x < 2 ^ 53" using x by simp
  have s: "share n r = go_int (f64 x)" using assms by (simp add: share_def f64_of_int x_def)
  have "0 \<le> f64 x \<and> f64 x \<le> of_int n"
    using f64_between(2) [of x 0] f64_between(1) [of x n] x lt assms by (cases "x = 0") auto
  then show "0 \<le> share n r" "share n r \<le> n" unfolding s go_int_def by (simp_all add: floor_le_iff)
qed

lemma f64_div_bounds:
  assumes "0 \<le> a" "a \<le> b" "0 < b" "b < 2 ^ 53"
  shows "0 \<le> f64_div a b" "f64_div a b \<le> 1"
proof -
  have d: "f64_div a b = f64 (of_int a / of_int b)" using assms by (simp add: f64_div_def f64_of_int)
  have r: "0 \<le> (of_int a / of_int b :: rat)" "(of_int a / of_int b :: rat) \<le> 1" using assms by simp_all
  define x :: rat where "x = of_int a / of_int b"
  have x: "0 \<le> x" "x \<le> of_int 1" "x < 2 ^ 53" using r by (simp_all add: x_def)
  have "0 \<le> f64 x \<and> f64 x \<le> 1"
  proof (cases "x = 0")
    case False
    then have "0 < x" using x by simp
    then show ?thesis using f64_between(2) [of x 0] f64_between(1) [of x 1] x by simp
  qed simp
  then show "0 \<le> f64_div a b" "f64_div a b \<le> 1" by (simp_all add: d x_def)
qed

lemma share_half: "0 \<le> n \<Longrightarrow> n < 2 ^ 53 \<Longrightarrow> share n (1 / 2) = n div 2"
proof -
  assume n: "0 \<le> n" "n < 2 ^ 53"
  have h: "\<lfloor>of_int n / 2 :: rat\<rfloor> = n div 2" using floor_divide_of_int_eq [of n 2, where 'a = rat] by simp
  have lt: "(of_int n :: rat) < of_int (2 ^ 53)" using n(2) by (simp only: of_int_less_iff)
  have "f64 (of_int n / 2) = of_int n / 2" if "0 < n"
  proof -
    define x :: rat where "x = of_int n / 2"
    have x: "0 < x" "x < 2 ^ 52" using that lt by (simp_all add: x_def)
    have b: "binade x \<le> 51"
    proof (cases "1 \<le> x")
      case True
      then have "(2 :: rat) ^ nat (binade x) < 2 ^ 52" using binade_pos(2) [OF True] x(2) by linarith
      then have "nat (binade x) < 52" by (rule power_less_imp_less_exp [rotated]) simp
      then show ?thesis by simp
    qed (use binade_neg [of x] x in simp)
    define q where "q = pow2 (max (binade x) (- 1022) - 52)"
    have "q = 1 / 2 ^ nat (52 - max (binade x) (- 1022))" using b by (auto simp: q_def pow2_def)
    moreover have "nat (52 - max (binade x) (- 1022)) = Suc (nat (51 - max (binade x) (- 1022)))" using b by simp
    ultimately have q: "x / q = of_int (n * 2 ^ nat (51 - max (binade x) (- 1022)))" by (simp add: x_def)
    have r: "round_half_even (of_int k) = k" for k by (simp add: round_half_even_def)
    have "f64 x = of_int (round_half_even (x / q)) * q" using x by (simp add: f64_def q_def Let_def)
    also have "\<dots> = x" unfolding q r unfolding q [symmetric] by (simp add: q_def)
    finally show ?thesis by (simp add: x_def)
  qed
  then have e: "f64 (of_int n * (1 / 2)) = of_int n / 2" using n by (cases "n = 0") simp_all
  show ?thesis using n h unfolding share_def f64_of_int [OF n] e by (simp add: go_int_def)
qed

section \<open>The error of a rounding\<close>

lemma round_half_even_error: "\<bar>of_int (round_half_even y) - y\<bar> \<le> 1 / 2"
proof -
  define n where "n = \<lfloor>y\<rfloor>"
  have "of_int n \<le> y" "y < of_int n + 1" unfolding n_def by linarith+
  then show ?thesis unfolding round_half_even_def Let_def n_def [symmetric] by (auto simp: abs_if)
qed

lemma binade_le: "0 < x \<Longrightarrow> pow2 (binade x) \<le> x"
proof (cases "1 \<le> x")
  case True
  then show ?thesis using binade_pos [OF True] by (simp add: pow2_def)
next
  case False
  assume x: "0 < x"
  define m where "m = nat (\<lceil>1 / x\<rceil> - 1)"
  have "1 < 1 / x" using x False by simp
  then have c: "2 \<le> \<lceil>1 / x\<rceil>" by linarith
  then have "0 \<le> \<lceil>1 / x\<rceil> - 1" by linarith
  then have "int m = \<lceil>1 / x\<rceil> - 1" unfolding m_def by (rule nat_0_le)
  then have "(of_nat m :: rat) + 1 = of_int \<lceil>1 / x\<rceil>" by (metis diff_add_cancel of_int_1 of_int_add of_int_of_nat_eq)
  then have "1 / x \<le> of_nat m + 1" by (metis le_of_int_ceiling)
  also have "(of_nat m + 1 :: rat) = of_nat (Suc m)" by simp
  also have "(of_nat (Suc m) :: rat) \<le> of_nat (2 ^ bits m)" by (rule of_nat_mono) (use bits_upper [of m] in simp)
  finally have "1 / x \<le> 2 ^ bits m" by simp
  then have "1 / 2 ^ bits m \<le> x" using x by (simp add: field_simps)
  moreover have "binade x = - int (bits m)" using False by (simp add: binade_def m_def)
  ultimately show ?thesis by (cases "bits m = 0") (auto simp: pow2_def)
qed

lemma pow2_52: "pow2 (e - 52) * 2 ^ 52 = pow2 e"
proof -
  consider "e < 0" | "0 \<le> e" "e < 52" | "52 \<le> e" by linarith
  then show ?thesis
  proof cases
    case 1
    then have "nat (52 - e) = nat (- e) + 52" by simp
    then show ?thesis using 1 by (simp add: pow2_def power_add)
  next
    case 2
    then have "52 = nat (52 - e) + nat e" by simp
    then have e: "(2 :: rat) ^ 52 = 2 ^ nat (52 - e) * 2 ^ nat e" by (metis power_add)
    have p: "pow2 (e - 52) = 1 / 2 ^ nat (52 - e)" "pow2 e = 2 ^ nat e" using 2 by (auto simp: pow2_def)
    have "1 / A * (A * B) = B" if "A \<noteq> 0" for A B :: rat using that by simp
    then show ?thesis unfolding p e by simp
  next
    case 3
    then have "nat e = nat (e - 52) + 52" by simp
    then show ?thesis using 3 by (simp add: pow2_def power_add)
  qed
qed

lemma f64_error:
  assumes "0 < x" "- 1022 \<le> binade x"
  shows "\<bar>f64 x - x\<bar> \<le> x / 2 ^ 53"
proof -
  define q where "q = pow2 (binade x - 52)"
  have q: "0 < q" by (simp add: q_def)
  have f: "f64 x = of_int (round_half_even (x / q)) * q" using assms by (simp add: f64_def q_def Let_def max_def)
  have "f64 x - x = (of_int (round_half_even (x / q)) - x / q) * q" using q by (simp add: f algebra_simps)
  then have "\<bar>f64 x - x\<bar> = \<bar>of_int (round_half_even (x / q)) - x / q\<bar> * q" using q by (simp add: abs_mult)
  also have "\<dots> \<le> 1 / 2 * q" by (rule mult_right_mono) (use round_half_even_error q in auto)
  also have "q = pow2 (binade x) / 2 ^ 52" using pow2_52 [of "binade x"] by (simp add: q_def field_simps)
  also have "1 / 2 * (pow2 (binade x) / 2 ^ 52) \<le> x / 2 ^ 53" using binade_le [OF assms(1)] by simp
  finally show ?thesis .
qed

lemma binade_large: "1 \<le> x * 2 ^ 60 \<Longrightarrow> - 1022 \<le> binade x"
proof (cases "1 \<le> x")
  case True
  then show ?thesis using binade_pos(1) [of x] by simp
next
  case False
  assume a: "1 \<le> x * 2 ^ 60"
  then have "0 < x * 2 ^ 60" by linarith
  then have x: "0 < x" by (simp add: zero_less_mult_iff)
  define m where "m = nat (\<lceil>1 / x\<rceil> - 1)"
  have "1 / x \<le> of_int (2 ^ 60)" using a x by (simp add: field_simps)
  then have c: "\<lceil>1 / x\<rceil> \<le> 2 ^ 60" by (simp only: ceiling_le_iff)
  have "0 < 1 / x" using x by simp
  then have "0 \<le> \<lceil>1 / x\<rceil> - 1" by linarith
  then have "int m = \<lceil>1 / x\<rceil> - 1" unfolding m_def by (rule nat_0_le)
  then have "int m < 2 ^ 60" using c by linarith
  then have m: "m < 2 ^ 60" by (metis of_nat_less_iff of_nat_numeral of_nat_power)
  have "bits m \<le> 60"
  proof (cases "m = 0")
    case False
    then have "(2 :: nat) ^ (bits m - 1) < 2 ^ 60" using bits_lower [of m] m by linarith
    then have "bits m - 1 < 60" by (rule power_less_imp_less_exp [rotated]) simp
    then show ?thesis by simp
  qed simp
  then show ?thesis using False by (simp add: binade_def m_def)
qed

text \<open>Cutting \<open>n\<close> cells by the ratio of \<open>a\<close> to \<open>n\<close> gives \<open>a\<close> cells or one less.\<close>

lemma share_of_ratio:
  assumes "0 \<le> a" "a \<le> n" "n < 2 ^ 52"
  shows "share n (f64_div a n) = a \<or> share n (f64_div a n) = a - 1"
proof (cases "a = 0")
  case True
  then show ?thesis using assms by (simp add: share_def f64_div_def f64_of_int go_int_def)
next
  case False
  define y :: rat where "y = of_int a / of_int n"
  define X where "X = of_int n * f64 y"
  have a: "1 \<le> (of_int a :: rat)" "(of_int a :: rat) \<le> of_int n" "0 < (of_int n :: rat)" using False assms by simp_all
  have n: "(of_int n :: rat) < 2 ^ 52" using assms(3) by (metis of_int_less_iff of_int_numeral of_int_power)
  have d: "f64_div a n = f64 y" "share n (f64 y) = go_int (f64 X)"
    using assms by (simp_all add: f64_div_def share_def f64_of_int y_def X_def)
  have y: "0 < y" using a by (simp add: y_def)
  have "of_int n \<le> (2 :: rat) ^ 60" using n by simp
  then have "1 \<le> y * 2 ^ 60" using a unfolding y_def
    by (metis (no_types, opaque_lifting) dual_order.trans le_divide_eq mult.commute mult_left_mono mult_le_cancel_right1 nle_le times_divide_eq_left zero_le_one zero_le_numeral zero_le_power)
  then have "\<bar>f64 y - y\<bar> \<le> y / 2 ^ 53" using f64_error [OF y] binade_large by blast
  then have "\<bar>X - of_int a\<bar> \<le> of_int a / 2 ^ 53"
  proof -
    have "X - of_int a = of_int n * (f64 y - y)" using a by (simp add: X_def y_def algebra_simps)
    then have "\<bar>X - of_int a\<bar> = of_int n * \<bar>f64 y - y\<bar>" using a by (simp add: abs_mult)
    also have "\<dots> \<le> of_int n * (y / 2 ^ 53)" by (rule mult_left_mono) (use \<open>\<bar>f64 y - y\<bar> \<le> y / 2 ^ 53\<close> a in auto)
    also have "\<dots> = of_int a / 2 ^ 53" using a by (simp add: y_def)
    finally show ?thesis .
  qed
  moreover have "of_int a / 2 ^ 53 < (1 / 2 :: rat)" using n a by simp
  ultimately have X: "of_int a - 1 / 2 < X" "X < of_int a + 1 / 2" by linarith+
  then have X0: "1 / 2 < X" using a by linarith
  have lo: "of_int (a - 1) \<le> f64 X"
    by (rule f64_between(2)) (use X X0 a n assms False in auto)
  have "\<bar>f64 X - X\<bar> \<le> X / 2 ^ 53" by (rule f64_error) (use X0 binade_large [of X] in auto)
  moreover have "X / 2 ^ 53 < 1 / 2" using X n a by simp
  ultimately have "f64 X < of_int a + 1" using X by linarith
  then have "\<lfloor>f64 X\<rfloor> \<le> a" "a - 1 \<le> \<lfloor>f64 X\<rfloor>" using lo by (simp_all add: floor_le_iff le_floor_iff)
  moreover have "0 \<le> f64 X" using lo a by simp
  ultimately show ?thesis unfolding d by (auto simp: go_int_def)
qed

text \<open>Evaluation at numerals.\<close>

lemma bits_numeral [simp]:
  "bits (numeral (Num.Bit0 k)) = Suc (bits (numeral k))" "bits (numeral (Num.Bit1 k)) = Suc (bits (numeral k))"
  "bits (numeral Num.One) = 1" "bits 1 = 1" "bits (Suc 0) = 1"
  by (simp_all add: bits.simps [of "numeral (Num.Bit0 k)"] bits.simps [of "numeral (Num.Bit1 k)"] bits.simps [of "Suc 0"])

lemmas f64_eval = f64_div_def share_def f64_def go_int_def binade_def round_half_even_def pow2_def Let_def

lemma share_loses_a_cell: "share 23 (f64_div 13 23) = 12"
  by code_simp

end
