(* ===== verification/Layout_View.thy ===== *)
theory Layout_View
  imports Layout_Tree Go_Float
begin

text \<open>
  The layout tree a terminal client draws (\<open>internal/tui/layout.go\<close>, \<open>canvas.go\<close>): its edits, the cells
  every pane gets, the hit tests, and its stored form. A \<open>*PaneModel\<close> is its id, of which a tree
  holds at most one; a pointer into the tree is the search that yields it, a write through it a
  replacement at that place. Cells are unbounded integers, ratios \<open>float64\<close> values (\<open>Go_Float\<close>).
\<close>

section \<open>The tree\<close>

datatype LayoutNode = LayoutNode
  (vPane: "string option") (vSplit: SplitDir) (vRatio: rat) (vLeft: "LayoutNode option") (vRight: "LayoutNode option")
  (phW: int) (phH: int) (phType: string)

abbreviation minPaneW :: int where "minPaneW \<equiv> 10"
abbreviation minPaneH :: int where "minPaneH \<equiv> 4"

definition NewLeaf :: "string \<Rightarrow> LayoutNode" where
  "NewLeaf pane = LayoutNode (Some pane) Horizontal (1/2) None None 0 0 []"

definition new_placeholder :: LayoutNode where
  "new_placeholder = LayoutNode None Horizontal (1/2) None None 0 0 []"

fun fill :: "string \<Rightarrow> LayoutNode \<Rightarrow> LayoutNode" where
  "fill pane (LayoutNode p s r l rt w h ty) = LayoutNode (Some pane) s r l rt w h []"

definition IsLeaf :: "LayoutNode \<Rightarrow> bool" where
  "IsLeaf n \<longleftrightarrow> vPane n \<noteq> None"

fun Leaves :: "LayoutNode option \<Rightarrow> string list" where
  "Leaves None = []"
| "Leaves (Some (LayoutNode p s r l rt w h ty)) = (case p of Some q \<Rightarrow> [q] | None \<Rightarrow> Leaves l @ Leaves rt)"

fun FindLeaf :: "LayoutNode option \<Rightarrow> string \<Rightarrow> LayoutNode option" where
  "FindLeaf None i = None"
| "FindLeaf (Some (LayoutNode p s r l rt w h ty)) i =
    (case p of Some q \<Rightarrow> if q = i then Some (LayoutNode p s r l rt w h ty) else None
     | None \<Rightarrow> (case FindLeaf l i of Some found \<Rightarrow> Some found | None \<Rightarrow> FindLeaf rt i))"

text \<open>A node by its place: \<open>False\<close> is left.\<close>

fun atPath :: "LayoutNode option \<Rightarrow> bool list \<Rightarrow> LayoutNode option" where
  "atPath None path = None"
| "atPath (Some n) [] = Some n"
| "atPath (Some n) (b # path) = atPath (if b then vRight n else vLeft n) path"

fun setAtPath :: "LayoutNode option \<Rightarrow> bool list \<Rightarrow> (LayoutNode \<Rightarrow> LayoutNode) \<Rightarrow> LayoutNode option" where
  "setAtPath None path f = None"
| "setAtPath (Some n) [] f = Some (f n)"
| "setAtPath (Some (LayoutNode p s r l rt w h ty)) (b # path) f =
    (if b then Some (LayoutNode p s r l (setAtPath rt path f) w h ty)
     else Some (LayoutNode p s r (setAtPath l path f) rt w h ty))"

fun leafPath :: "LayoutNode option \<Rightarrow> string \<Rightarrow> bool list option" where
  "leafPath None i = None"
| "leafPath (Some (LayoutNode p s r l rt w h ty)) i =
    (case p of Some q \<Rightarrow> if q = i then Some [] else None
     | None \<Rightarrow> (case leafPath l i of Some path \<Rightarrow> Some (False # path)
       | None \<Rightarrow> map_option (Cons True) (leafPath rt i)))"

text \<open>The last pane in tree order and its parent's split.\<close>

fun spiralWalk :: "LayoutNode option \<Rightarrow> SplitDir option \<Rightarrow> LayoutNode option \<times> SplitDir \<times> bool \<Rightarrow> LayoutNode option \<times> SplitDir \<times> bool" where
  "spiralWalk None parent acc = acc"
| "spiralWalk (Some (LayoutNode p s r l rt w h ty)) parent acc =
    (if p \<noteq> None then (Some (LayoutNode p s r l rt w h ty),
        (case parent of Some d \<Rightarrow> d | None \<Rightarrow> fst (snd acc)), parent \<noteq> None)
     else spiralWalk rt (Some s) (spiralWalk l (Some s) acc))"

definition spiralLeaf :: "LayoutNode option \<Rightarrow> LayoutNode option \<times> SplitDir \<times> bool" where
  "spiralLeaf n = spiralWalk n None (None, 0, False)"

definition spiralSplitDir :: "SplitDir \<Rightarrow> bool \<Rightarrow> SplitDir" where
  "spiralSplitDir parentSplit hasParent = (if hasParent \<and> parentSplit = Horizontal then Vertical else Horizontal)"

section \<open>Edits\<close>

text \<open>\<open>SplitLeaf\<close> with the place of the placeholder it returns.\<close>

definition splitLeaf_view :: "LayoutNode option \<Rightarrow> string \<Rightarrow> SplitDir \<Rightarrow> LayoutNode option \<times> bool list option" where
  "splitLeaf_view n paneID dir = (case leafPath n paneID of None \<Rightarrow> (n, None)
     | Some path \<Rightarrow> (setAtPath n path (\<lambda>lf. LayoutNode None dir (1/2) (map_option NewLeaf (vPane lf)) (Some new_placeholder)
          (phW lf) (phH lf) (phType lf)), Some (path @ [True])))"

definition is_leaf_of :: "LayoutNode option \<Rightarrow> string \<Rightarrow> bool" where
  "is_leaf_of c i \<longleftrightarrow> (case c of Some n \<Rightarrow> vPane n = Some i | None \<Rightarrow> False)"

definition is_inner :: "LayoutNode option \<Rightarrow> bool" where
  "is_inner c \<longleftrightarrow> (case c of Some n \<Rightarrow> \<not> IsLeaf n | None \<Rightarrow> False)"

fun findParentInternal :: "LayoutNode option \<Rightarrow> string \<Rightarrow> (LayoutNode \<times> bool) option" where
  "findParentInternal None i = None"
| "findParentInternal (Some (LayoutNode p s r l rt w h ty)) i =
    (if p \<noteq> None then None
     else if is_leaf_of l i then Some (LayoutNode p s r l rt w h ty, True)
     else case (if is_inner l then findParentInternal l i else None) of Some found \<Rightarrow> Some found
     | None \<Rightarrow> if is_leaf_of rt i then Some (LayoutNode p s r l rt w h ty, False)
        else if is_inner rt then findParentInternal rt i else None)"

text \<open>Assignment through that pointer.\<close>

fun setParentAt :: "LayoutNode option \<Rightarrow> string \<Rightarrow> (LayoutNode \<Rightarrow> LayoutNode) \<Rightarrow> LayoutNode option" where
  "setParentAt None i f = None"
| "setParentAt (Some (LayoutNode p s r l rt w h ty)) i f =
    (if p \<noteq> None then Some (LayoutNode p s r l rt w h ty)
     else if is_leaf_of l i then Some (f (LayoutNode p s r l rt w h ty))
     else if is_inner l \<and> findParentInternal l i \<noteq> None then Some (LayoutNode p s r (setParentAt l i f) rt w h ty)
     else if is_leaf_of rt i then Some (f (LayoutNode p s r l rt w h ty))
     else if is_inner rt then Some (LayoutNode p s r l (setParentAt rt i f) w h ty)
     else Some (LayoutNode p s r l rt w h ty))"

definition promote :: "LayoutNode \<Rightarrow> LayoutNode \<Rightarrow> LayoutNode" where
  "promote sibling parent = LayoutNode (vPane sibling) (vSplit sibling) (vRatio sibling) (vLeft sibling) (vRight sibling)
     (phW parent) (phH parent) (phType sibling)"

definition RemoveLeaf :: "LayoutNode option \<Rightarrow> string \<Rightarrow> (LayoutNode option \<times> bool) outcome" where
  "RemoveLeaf n paneID = (case n of None \<Rightarrow> Ret (n, False)
     | Some nd \<Rightarrow> if IsLeaf nd then Ret (n, False)
       else case findParentInternal n paneID of None \<Rightarrow> Ret (n, False)
       | Some (parent, isLeft) \<Rightarrow> (case (if isLeft then vRight parent else vLeft parent) of None \<Rightarrow> Panic
           | Some sibling \<Rightarrow> Ret (setParentAt n paneID (promote sibling), True)))"

definition is_placeholder :: "LayoutNode option \<Rightarrow> bool" where
  "is_placeholder c \<longleftrightarrow> (case c of Some n \<Rightarrow> vPane n = None \<and> vLeft n = None | None \<Rightarrow> False)"

fun HasPlaceholder :: "LayoutNode option \<Rightarrow> bool" where
  "HasPlaceholder None \<longleftrightarrow> False"
| "HasPlaceholder (Some (LayoutNode p s r l rt w h ty)) \<longleftrightarrow>
    p = None \<and> (is_placeholder l \<or> is_placeholder rt \<or> HasPlaceholder l \<or> HasPlaceholder rt)"

fun FillPlaceholder :: "LayoutNode option \<Rightarrow> string \<Rightarrow> LayoutNode option \<times> bool" where
  "FillPlaceholder None pane = (None, False)"
| "FillPlaceholder (Some (LayoutNode p s r l rt w h ty)) pane =
    (if is_placeholder l then (Some (LayoutNode p s r (map_option (fill pane) l) rt w h ty), True)
     else if is_placeholder rt then (Some (LayoutNode p s r l (map_option (fill pane) rt) w h ty), True)
     else case FillPlaceholder l pane of
       (l', True) \<Rightarrow> (Some (LayoutNode p s r l' rt w h ty), True)
     | (l', False) \<Rightarrow> (case FillPlaceholder rt pane of (rt', ok) \<Rightarrow> (Some (LayoutNode p s r l' rt' w h ty), ok)))"

text \<open>Unlike \<open>RemoveLeaf\<close>, the node keeps its own label.\<close>

fun PrunePlaceholders :: "LayoutNode option \<Rightarrow> (LayoutNode option \<times> bool) outcome" where
  "PrunePlaceholders None = Ret (None, False)"
| "PrunePlaceholders (Some (LayoutNode p s r l rt w h ty)) =
    (if p \<noteq> None then Ret (Some (LayoutNode p s r l rt w h ty), False)
     else obind (PrunePlaceholders l) (\<lambda>(l', _). obind (PrunePlaceholders rt) (\<lambda>(rt', _).
       if is_placeholder l' then (case rt' of None \<Rightarrow> Panic
         | Some b \<Rightarrow> Ret (Some (LayoutNode (vPane b) (vSplit b) (vRatio b) (vLeft b) (vRight b) w h ty), True))
       else if is_placeholder rt' then (case l' of None \<Rightarrow> Panic
         | Some b \<Rightarrow> Ret (Some (LayoutNode (vPane b) (vSplit b) (vRatio b) (vLeft b) (vRight b) w h ty), True))
       else Ret (Some (LayoutNode p s r l' rt' w h ty), False))))"

section \<open>Cells\<close>

text \<open>The two parts of \<open>n\<close> cells: the code repeats these lines in every walk.\<close>

definition first_part :: "int \<Rightarrow> rat \<Rightarrow> int \<Rightarrow> int" where
  "first_part n ratio least = (let a = share n ratio in if a < least then least else a)"

definition second_part :: "int \<Rightarrow> rat \<Rightarrow> int \<Rightarrow> int" where
  "second_part n ratio least = (let b = n - first_part n ratio least in if b < least then least else b)"

definition in_box :: "int \<Rightarrow> int \<Rightarrow> int \<Rightarrow> int \<Rightarrow> int \<Rightarrow> int \<Rightarrow> bool" where
  "in_box x y ox oy w h \<longleftrightarrow> \<not> (x < ox \<or> x \<ge> ox + w \<or> y < oy \<or> y \<ge> oy + h)"

fun FindPaneAt :: "LayoutNode option \<Rightarrow> int \<Rightarrow> int \<Rightarrow> int \<Rightarrow> int \<Rightarrow> int \<Rightarrow> int \<Rightarrow> string option" where
  "FindPaneAt None x y ox oy w h = None"
| "FindPaneAt (Some (LayoutNode p s r l rt pw ph ty)) x y ox oy w h =
    (if \<not> in_box x y ox oy w h then None
     else if p \<noteq> None then p
     else if s = Horizontal then
       (let leftW = first_part w r minPaneW; rightW = second_part w r minPaneW in
        case FindPaneAt l x y ox oy leftW h of Some pane \<Rightarrow> Some pane
        | None \<Rightarrow> FindPaneAt rt x y (ox + leftW) oy rightW h)
     else if s = Vertical then
       (let topH = first_part h r minPaneH; bottomH = second_part h r minPaneH in
        case FindPaneAt l x y ox oy w topH of Some pane \<Rightarrow> Some pane
        | None \<Rightarrow> FindPaneAt rt x y ox (oy + topH) w bottomH)
     else None)"

record PaneRect =
  pr_Pane :: string
  pr_OX :: int
  pr_OY :: int
  pr_W :: int
  pr_H :: int

fun CollectRects :: "LayoutNode option \<Rightarrow> int \<Rightarrow> int \<Rightarrow> int \<Rightarrow> int \<Rightarrow> PaneRect list" where
  "CollectRects None ox oy w h = []"
| "CollectRects (Some (LayoutNode p s r l rt pw ph ty)) ox oy w h =
    (case p of Some pane \<Rightarrow> [\<lparr>pr_Pane = pane, pr_OX = ox, pr_OY = oy, pr_W = w, pr_H = h\<rparr>]
     | None \<Rightarrow> if s = Horizontal then
         (let leftW = first_part w r minPaneW; rightW = second_part w r minPaneW in
          CollectRects l ox oy leftW h @ CollectRects rt (ox + leftW) oy rightW h)
       else if s = Vertical then
         (let topH = first_part h r minPaneH; bottomH = second_part h r minPaneH in
          CollectRects l ox oy w topH @ CollectRects rt ox (oy + topH) w bottomH)
       else [])"

fun FindPaneRectAt :: "LayoutNode option \<Rightarrow> int \<Rightarrow> int \<Rightarrow> int \<Rightarrow> int \<Rightarrow> int \<Rightarrow> int \<Rightarrow> PaneRect option" where
  "FindPaneRectAt None x y ox oy w h = None"
| "FindPaneRectAt (Some (LayoutNode p s r l rt pw ph ty)) x y ox oy w h =
    (if \<not> in_box x y ox oy w h then None
     else case p of Some pane \<Rightarrow> Some \<lparr>pr_Pane = pane, pr_OX = ox, pr_OY = oy, pr_W = w, pr_H = h\<rparr>
     | None \<Rightarrow> if s = Horizontal then
         (let leftW = first_part w r minPaneW; rightW = second_part w r minPaneW in
          case FindPaneRectAt l x y ox oy leftW h of Some f \<Rightarrow> Some f
          | None \<Rightarrow> FindPaneRectAt rt x y (ox + leftW) oy rightW h)
       else if s = Vertical then
         (let topH = first_part h r minPaneH; bottomH = second_part h r minPaneH in
          case FindPaneRectAt l x y ox oy w topH of Some f \<Rightarrow> Some f
          | None \<Rightarrow> FindPaneRectAt rt x y ox (oy + topH) w bottomH)
       else None)"

section \<open>Split lines\<close>

record BorderHit =
  bh_Node :: LayoutNode
  bh_OX :: int
  bh_OY :: int
  bh_W :: int
  bh_H :: int

definition boundary :: "BorderHit \<Rightarrow> int" where
  "boundary b = (if vSplit (bh_Node b) = Vertical then bh_OY b + first_part (bh_H b) (vRatio (bh_Node b)) minPaneH
     else bh_OX b + first_part (bh_W b) (vRatio (bh_Node b)) minPaneW)"

abbreviation splitBorderHitPadding :: int where "splitBorderHitPadding \<equiv> 1"

definition border_Contains :: "BorderHit \<Rightarrow> int \<Rightarrow> int \<Rightarrow> bool" where
  "border_Contains b x y = (let bd = boundary b in
     if vSplit (bh_Node b) = Vertical then
       y \<ge> bd - 1 - splitBorderHitPadding \<and> y \<le> bd + splitBorderHitPadding \<and> x \<ge> bh_OX b \<and> x < bh_OX b + bh_W b
     else x \<ge> bd - 1 \<and> x \<le> bd + 1 + splitBorderHitPadding \<and> y \<ge> bh_OY b \<and> y < bh_OY b + bh_H b)"

fun CollectBorders :: "LayoutNode option \<Rightarrow> int \<Rightarrow> int \<Rightarrow> int \<Rightarrow> int \<Rightarrow> BorderHit list" where
  "CollectBorders None ox oy w h = []"
| "CollectBorders (Some (LayoutNode p s r l rt pw ph ty)) ox oy w h =
    (if p \<noteq> None \<or> l = None \<and> rt = None then []
     else \<lparr>bh_Node = LayoutNode p s r l rt pw ph ty, bh_OX = ox, bh_OY = oy, bh_W = w, bh_H = h\<rparr> #
       (if s = Horizontal then
         (let leftW = first_part w r minPaneW; rightW = second_part w r minPaneW in
          CollectBorders l ox oy leftW h @ CollectBorders rt (ox + leftW) oy rightW h)
        else if s = Vertical then
         (let topH = first_part h r minPaneH; bottomH = second_part h r minPaneH in
          CollectBorders l ox oy w topH @ CollectBorders rt ox (oy + topH) w bottomH)
        else []))"

fun minWidth :: "LayoutNode option \<Rightarrow> int" where
  "minWidth None = 0"
| "minWidth (Some (LayoutNode p s r l rt pw ph ty)) =
    (if l = None \<and> rt = None then minPaneW
     else if s = Horizontal then minWidth l + minWidth rt else max (minWidth l) (minWidth rt))"

fun minHeight :: "LayoutNode option \<Rightarrow> int" where
  "minHeight None = 0"
| "minHeight (Some (LayoutNode p s r l rt pw ph ty)) =
    (if l = None \<and> rt = None then minPaneH
     else if s = Vertical then minHeight l + minHeight rt else max (minHeight l) (minHeight rt))"

definition halvesFit :: "int \<Rightarrow> int \<Rightarrow> bool" where
  "halvesFit n least = (let a = share n (1/2) in a \<ge> least \<and> n - a \<ge> least)"

definition arrivalSplitDir :: "SplitDir \<Rightarrow> int \<Rightarrow> int \<Rightarrow> SplitDir" where
  "arrivalSplitDir pref w h = (if w \<le> 0 \<or> h \<le> 0 then pref
     else let fitsH = halvesFit w minPaneW; fitsV = halvesFit h minPaneH in
       if pref = Horizontal \<and> \<not> fitsH \<and> fitsV then Vertical
       else if pref = Vertical \<and> \<not> fitsV \<and> fitsH then Horizontal else pref)"

section \<open>Sizing the panes\<close>

definition paneVTSize :: "bool \<Rightarrow> int \<Rightarrow> int \<Rightarrow> int \<Rightarrow> int \<Rightarrow> int \<Rightarrow> int \<Rightarrow> int \<times> int" where
  "paneVTSize wideCanvas minNativeCols rectW rectH nativeW canvasW canvasH =
    (let mn = (if minNativeCols \<le> 0 then 80 else minNativeCols); nw = (if nativeW \<le> 0 then rectW else nativeW);
         (w, h) = (if wideCanvas \<and> canvasW > 0 \<and> canvasH > 0 \<and> nw - 2 < mn then (canvasW, canvasH) else (rectW, rectH))
     in (if w - 2 < 1 then 1 else w - 2, if h - 2 < 1 then 1 else h - 2))"

text \<open>What sizing reads of a pane.\<close>

record pane_view =
  pv_follower :: bool
  pv_daemonCols :: int
  pv_daemonRows :: int
  pv_WideCanvas :: bool
  pv_MinNativeCols :: int

definition targetVTSize :: "pane_view \<Rightarrow> int \<Rightarrow> int \<Rightarrow> int \<Rightarrow> int \<Rightarrow> int \<Rightarrow> int \<times> int" where
  "targetVTSize p rectW rectH nativeW canvasW canvasH =
    (if pv_follower p \<and> pv_daemonCols p > 0 \<and> pv_daemonRows p > 0 then (pv_daemonCols p, pv_daemonRows p)
     else paneVTSize (pv_WideCanvas p) (pv_MinNativeCols p) rectW rectH nativeW canvasW canvasH)"

text \<open>What a pane is told: its width, height and native width, and the size of its terminal.\<close>

record sized =
  sz_Pane :: string
  sz_Width :: int
  sz_Height :: int
  sz_NativeW :: int
  sz_VT :: "int \<times> int"

fun resizeNode :: "(string \<Rightarrow> pane_view) \<Rightarrow> LayoutNode option \<Rightarrow> int \<Rightarrow> int \<Rightarrow> int \<Rightarrow> int \<Rightarrow> int \<Rightarrow> LayoutNode option \<times> sized list" where
  "resizeNode pv None w h fullW canvasW canvasH = (None, [])"
| "resizeNode pv (Some (LayoutNode p s r l rt pw ph ty)) w h fullW canvasW canvasH =
    (if p = None \<and> l = None \<and> rt = None then (Some (LayoutNode p s r l rt w h ty), [])
     else case p of Some pane \<Rightarrow>
       (let w1 = (if w < minPaneW then minPaneW else w); h1 = (if h < minPaneH then minPaneH else h);
            f1 = (if fullW < w1 then w1 else fullW)
        in (Some (LayoutNode p s r l rt pw ph ty),
            [\<lparr>sz_Pane = pane, sz_Width = w1, sz_Height = h1, sz_NativeW = f1, sz_VT = targetVTSize (pv pane) w1 h1 f1 canvasW canvasH\<rparr>]))
     | None \<Rightarrow> if s = Horizontal then
         (let (l', a) = resizeNode pv l (first_part w r minPaneW) h (first_part fullW r minPaneW) canvasW canvasH;
              (rt', b) = resizeNode pv rt (second_part w r minPaneW) h (second_part fullW r minPaneW) canvasW canvasH
          in (Some (LayoutNode p s r l' rt' pw ph ty), a @ b))
       else if s = Vertical then
         (let (l', a) = resizeNode pv l w (first_part h r minPaneH) fullW canvasW canvasH;
              (rt', b) = resizeNode pv rt w (second_part h r minPaneH) fullW canvasW canvasH
          in (Some (LayoutNode p s r l' rt' pw ph ty), a @ b))
       else (Some (LayoutNode p s r l rt pw ph ty), []))"

text \<open>The drag's resize: width and height of every pane.\<close>

fun resizeNodeRects :: "LayoutNode option \<Rightarrow> int \<Rightarrow> int \<Rightarrow> (string \<times> int \<times> int) list" where
  "resizeNodeRects None w h = []"
| "resizeNodeRects (Some (LayoutNode p s r l rt pw ph ty)) w h =
    (if p = None \<and> l = None \<and> rt = None then []
     else case p of Some pane \<Rightarrow> [(pane, if w < minPaneW then minPaneW else w, if h < minPaneH then minPaneH else h)]
     | None \<Rightarrow> if s = Horizontal then
         resizeNodeRects l (first_part w r minPaneW) h @ resizeNodeRects rt (second_part w r minPaneW) h
       else if s = Vertical then
         resizeNodeRects l w (first_part h r minPaneH) @ resizeNodeRects rt w (second_part h r minPaneH)
       else [])"

section \<open>The stored form\<close>

fun SerializeLayout :: "LayoutNode option \<Rightarrow> node option" where
  "SerializeLayout None = None"
| "SerializeLayout (Some (LayoutNode p s r l rt pw ph ty)) =
    (case p of Some pane \<Rightarrow> Some (leaf pane)
     | None \<Rightarrow> Some (Node [] (Some s) r (SerializeLayout l) (SerializeLayout rt)))"

text \<open>\<open>panes\<close> is the map from ids to models: which ids it holds.\<close>

fun DeserializeLayout :: "node option \<Rightarrow> (string \<Rightarrow> bool) \<Rightarrow> LayoutNode option" where
  "DeserializeLayout None panes = None"
| "DeserializeLayout (Some (Node p s r l rt)) panes =
    (if p \<noteq> [] then (if panes p then Some (NewLeaf p) else Some new_placeholder)
     else Some (LayoutNode None (case s of Some d \<Rightarrow> d | None \<Rightarrow> Horizontal) r
       (DeserializeLayout l panes) (DeserializeLayout rt panes) 0 0 []))"

text \<open>What is sent to the daemon (\<open>layoutsync.go\<close>): placeholders are left out, except that of a replace, named by
  its place in the tree, which is stored under the id of the pane it stands in for.\<close>

definition under :: "bool \<Rightarrow> bool list option \<Rightarrow> bool list option" where
  "under b keep = (case keep of Some (c # path) \<Rightarrow> if c = b then Some path else None | _ \<Rightarrow> None)"

fun serializeForSend :: "LayoutNode option \<Rightarrow> bool list option \<Rightarrow> string \<Rightarrow> node option" where
  "serializeForSend None keep keepID = None"
| "serializeForSend (Some (LayoutNode p s r l rt pw ph ty)) keep keepID =
    (case p of Some pane \<Rightarrow> Some (leaf pane)
     | None \<Rightarrow> if l = None \<and> rt = None then (if keep = Some [] \<and> keepID \<noteq> [] then Some (leaf keepID) else None)
       else case (serializeForSend l (under False keep) keepID, serializeForSend rt (under True keep) keepID) of
         (None, b) \<Rightarrow> b | (a, None) \<Rightarrow> a | (a, b) \<Rightarrow> Some (Node [] (Some s) r a b))"

fun serializedIDs :: "node option \<Rightarrow> string list" where
  "serializedIDs None = []"
| "serializedIDs (Some (Node p s r l rt)) = (if p \<noteq> [] then [p] else serializedIDs l @ serializedIDs rt)"

end
