(* ===== verification/Layout_Arrange.thy ===== *)
theory Layout_Arrange
  imports Layout_View
begin

text \<open>
  Arranging a tab's panes in a terminal client (\<open>internal/tui/arrange.go\<close>, \<open>arrange_apply.go\<close>,
  \<open>panedrag.go\<close>, the tree operations of \<open>tab.go\<close> and the split-border drag of \<open>model.go\<close>).
\<close>

section \<open>The six arrangements\<close>

datatype layoutKind = layoutNone | layoutEven | layoutColumns | layoutRows | layoutGrid | layoutMain | layoutSpiral
datatype dropZone = zoneNone | zoneLeft | zoneRight | zoneTop | zoneBottom | zoneCenter

fun cloneLayout :: "LayoutNode option \<Rightarrow> LayoutNode option" where
  "cloneLayout None = None"
| "cloneLayout (Some (LayoutNode p s r l rt w h ty)) = Some (LayoutNode p s r (cloneLayout l) (cloneLayout rt) w h ty)"

fun setEvenRatios :: "LayoutNode option \<Rightarrow> LayoutNode option \<times> int" where
  "setEvenRatios None = (None, 0)"
| "setEvenRatios (Some (LayoutNode p s r l rt w h ty)) =
    (if p \<noteq> None then (Some (LayoutNode p s r l rt w h ty), 1)
     else if l = None \<and> rt = None then (Some (LayoutNode p s r l rt w h ty), 0)
     else let (l', a) = setEvenRatios l; (rt', b) = setEvenRatios rt
       in (Some (LayoutNode p s (if a > 0 \<and> b > 0 then f64_div a (a + b) else r) l' rt' w h ty), a + b))"

definition evenOut :: "LayoutNode option \<Rightarrow> LayoutNode option" where
  "evenOut n = fst (setEvenRatios (cloneLayout n))"

definition paneLeaves :: "string list \<Rightarrow> LayoutNode option list" where
  "paneLeaves panes = map (\<lambda>p. Some (NewLeaf p)) panes"

fun chainNodes :: "LayoutNode option list \<Rightarrow> SplitDir \<Rightarrow> LayoutNode option" where
  "chainNodes [] dir = None"
| "chainNodes [n] dir = n"
| "chainNodes (n # nodes) dir = Some (LayoutNode None dir (f64_div 1 (int (length (n # nodes)))) n (chainNodes nodes dir) 0 0 [])"

definition columnsLayout :: "string list \<Rightarrow> LayoutNode option" where
  "columnsLayout panes = chainNodes (paneLeaves panes) Horizontal"

definition rowsLayout :: "string list \<Rightarrow> LayoutNode option" where
  "rowsLayout panes = chainNodes (paneLeaves panes) Vertical"

function gridCols :: "nat \<Rightarrow> nat \<Rightarrow> nat" where
  "gridCols n c = (if c * c < n then gridCols n (c + 1) else c)"
  by pat_completeness auto
termination
  by (relation "measure (\<lambda>(n, c). n - c)") (auto, metis diff_less_mono2 le_square le_less_trans lessI)

declare gridCols.simps [simp del]

definition gridColumns :: "nat \<Rightarrow> nat" where
  "gridColumns n = gridCols n 1"

text \<open>The loop over rows of \<open>c\<close> panes, which is at least one.\<close>

function gridRows :: "nat \<Rightarrow> string list \<Rightarrow> LayoutNode option list" where
  "gridRows c panes = (if panes = [] \<or> c = 0 then [] else columnsLayout (take c panes) # gridRows c (drop c panes))"
  by pat_completeness auto
termination
  by (relation "measure (\<lambda>(c, panes). length panes)") auto

declare gridRows.simps [simp del]

definition gridLayout :: "string list \<Rightarrow> LayoutNode option" where
  "gridLayout panes = chainNodes (gridRows (gridColumns (length panes)) panes) Vertical"

definition mainStackLayout :: "string list \<Rightarrow> string option \<Rightarrow> LayoutNode option" where
  "mainStackLayout panes main = (case panes of [] \<Rightarrow> None
     | p0 # ps \<Rightarrow>
       let m = (case main of Some m \<Rightarrow> m | None \<Rightarrow> p0); rest = filter (\<lambda>p. p \<noteq> m) panes;
           (m, rest) = (if m \<in> set panes then (m, rest) else (p0, ps))
       in if rest = [] then Some (NewLeaf m)
          else Some (LayoutNode None Horizontal (1/2) (Some (NewLeaf m)) (rowsLayout rest) 0 0 []))"

text \<open>One step of the spiral: split the last pane, fill the placeholder.\<close>

definition spiral_place :: "LayoutNode option \<Rightarrow> string \<Rightarrow> LayoutNode option outcome" where
  "spiral_place n p = (case spiralLeaf n of (lf, ps, hp) \<Rightarrow> (case Option.bind lf vPane of None \<Rightarrow> Panic
     | Some q \<Rightarrow> (case splitLeaf_view n q (spiralSplitDir ps hp) of (n', Some path) \<Rightarrow> Ret (setAtPath n' path (fill p))
        | (_, None) \<Rightarrow> Panic)))"

fun spiral_all :: "LayoutNode option \<Rightarrow> string list \<Rightarrow> LayoutNode option outcome" where
  "spiral_all n [] = Ret n"
| "spiral_all n (p # ps) = obind (spiral_place n p) (\<lambda>n'. spiral_all n' ps)"

definition spiralLayout :: "string list \<Rightarrow> LayoutNode option outcome" where
  "spiralLayout panes = (case panes of [] \<Rightarrow> Ret None
     | p # ps \<Rightarrow> obind (spiral_all (Some (NewLeaf p)) ps) (\<lambda>n. Ret (evenOut n)))"

definition arrangeLayout :: "layoutKind \<Rightarrow> LayoutNode option \<Rightarrow> string option \<Rightarrow> LayoutNode option outcome" where
  "arrangeLayout kind n active = (if n = None then Ret None
     else let panes = Leaves n in case kind of
       layoutEven \<Rightarrow> Ret (evenOut n) | layoutColumns \<Rightarrow> Ret (columnsLayout panes) | layoutRows \<Rightarrow> Ret (rowsLayout panes)
     | layoutGrid \<Rightarrow> Ret (gridLayout panes) | layoutMain \<Rightarrow> Ret (mainStackLayout panes active)
     | layoutSpiral \<Rightarrow> spiralLayout panes | layoutNone \<Rightarrow> Ret None)"

section \<open>The two edits of a pane drag\<close>

definition zone_dir :: "dropZone \<Rightarrow> SplitDir option" where
  "zone_dir zone = (case zone of zoneLeft \<Rightarrow> Some Horizontal | zoneRight \<Rightarrow> Some Horizontal
     | zoneTop \<Rightarrow> Some Vertical | zoneBottom \<Rightarrow> Some Vertical | _ \<Rightarrow> None)"

definition moveLeafBeside :: "LayoutNode option \<Rightarrow> string \<Rightarrow> string \<Rightarrow> dropZone \<Rightarrow> LayoutNode option outcome" where
  "moveLeafBeside n x y zone = (case zone_dir zone of None \<Rightarrow> Ret None
     | Some dir \<Rightarrow> if n = None \<or> x = y then Ret None
       else let out = cloneLayout n in
         if FindLeaf out y = None then Ret None
         else obind (RemoveLeaf out x) (\<lambda>(out', removed).
           if \<not> removed then Ret None
           else case leafPath out' y of None \<Rightarrow> Panic
             | Some path \<Rightarrow> Ret (setAtPath out' path (\<lambda>target.
                 let moved = Some (NewLeaf x); stays = map_option NewLeaf (vPane target);
                     (a, b) = (if zone = zoneLeft \<or> zone = zoneTop then (moved, stays) else (stays, moved))
                 in LayoutNode None dir (1/2) a b (phW target) (phH target) []))))"

fun set_pane :: "string \<Rightarrow> LayoutNode \<Rightarrow> LayoutNode" where
  "set_pane i (LayoutNode p s r l rt w h ty) = LayoutNode (Some i) s r l rt w h ty"

definition swapLeaves :: "LayoutNode option \<Rightarrow> string \<Rightarrow> string \<Rightarrow> LayoutNode option" where
  "swapLeaves n x y = (if n = None \<or> x = y then None
     else let out = cloneLayout n in
       case (leafPath out x, leafPath out y) of
         (Some a, Some b) \<Rightarrow> setAtPath (setAtPath out a (set_pane y)) b (set_pane x)
       | _ \<Rightarrow> None)"

section \<open>Room\<close>

fun fitsWalk :: "LayoutNode option \<Rightarrow> int \<Rightarrow> int \<Rightarrow> bool" where
  "fitsWalk None w h \<longleftrightarrow> True"
| "fitsWalk (Some (LayoutNode p s r l rt pw ph ty)) w h \<longleftrightarrow>
    (if l = None \<and> rt = None then w \<ge> minPaneW \<and> h \<ge> minPaneH
     else if s = Horizontal then (let leftW = share w r in fitsWalk l leftW h \<and> fitsWalk rt (w - leftW) h)
     else if s = Vertical then (let topH = share h r in fitsWalk l w topH \<and> fitsWalk rt w (h - topH))
     else True)"

definition fitsMinSize :: "LayoutNode option \<Rightarrow> int \<Rightarrow> int \<Rightarrow> bool" where
  "fitsMinSize n w h \<longleftrightarrow> (if w \<le> 0 \<or> h \<le> 0 then True else fitsWalk n w h)"

section \<open>Where a dragged pane lands\<close>

definition cell_fraction :: "int \<Rightarrow> int \<Rightarrow> rat" where
  "cell_fraction i n = f64 (f64 (f64 (of_int i) + 1/2) / f64 (of_int n))"

definition dropZoneAt :: "PaneRect \<Rightarrow> int \<Rightarrow> int \<Rightarrow> dropZone" where
  "dropZoneAt r x y = (if pr_W r \<le> 0 \<or> pr_H r \<le> 0 \<or> x < pr_OX r \<or> x \<ge> pr_OX r + pr_W r \<or> y < pr_OY r \<or> y \<ge> pr_OY r + pr_H r
     then zoneNone
     else let fx = cell_fraction (x - pr_OX r) (pr_W r); fy = cell_fraction (y - pr_OY r) (pr_H r);
         (horiz, horizZone) = (if f64 (1 - fx) < fx then (f64 (1 - fx), zoneRight) else (fx, zoneLeft));
         (vert, vertZone) = (if f64 (1 - fy) < fy then (f64 (1 - fy), zoneBottom) else (fy, zoneTop))
       in if horiz < 1/4 \<and> horiz \<le> vert then horizZone else if vert < 1/4 then vertZone else zoneCenter)"

definition dropPreviewRect :: "PaneRect \<Rightarrow> dropZone \<Rightarrow> PaneRect" where
  "dropPreviewRect r zone = (case zone of
       zoneLeft \<Rightarrow> r\<lparr>pr_W := share (pr_W r) (1/2)\<rparr>
     | zoneRight \<Rightarrow> (let half = share (pr_W r) (1/2) in r\<lparr>pr_OX := pr_OX r + half, pr_W := pr_W r - half\<rparr>)
     | zoneTop \<Rightarrow> r\<lparr>pr_H := share (pr_H r) (1/2)\<rparr>
     | zoneBottom \<Rightarrow> (let half = share (pr_H r) (1/2) in r\<lparr>pr_OY := pr_OY r + half, pr_H := pr_H r - half\<rparr>)
     | _ \<Rightarrow> r)"

section \<open>Dragging a split line\<close>

text \<open>The new ratio of the dragged node, whose region is \<open>n\<close> cells along its axis from \<open>o\<close> on.\<close>

definition drag_ratio :: "int \<Rightarrow> int \<Rightarrow> int \<Rightarrow> int \<Rightarrow> int \<Rightarrow> rat" where
  "drag_ratio pos orig n leastL leastR = f64_div (min (max (pos - orig) leastL) (n - leastR)) n"

fun set_ratio :: "rat \<Rightarrow> LayoutNode \<Rightarrow> LayoutNode" where
  "set_ratio q (LayoutNode p s r l rt w h ty) = LayoutNode p s q l rt w h ty"

text \<open>The node and its rectangle were captured at the press; a node no longer in the tree ends the drag (\<open>None\<close>).\<close>

definition dragSplitBorder :: "LayoutNode option \<Rightarrow> bool list option \<Rightarrow> PaneRect \<Rightarrow> int \<Rightarrow> int \<Rightarrow> LayoutNode option option" where
  "dragSplitBorder t node rect x y = (case Option.bind node (atPath t) of None \<Rightarrow> None
     | Some nd \<Rightarrow> if vSplit nd = Horizontal then
         (if pr_W rect \<le> 0 then Some t
          else Some (setAtPath t (the node) (set_ratio (drag_ratio x (pr_OX rect) (pr_W rect) (minWidth (vLeft nd)) (minWidth (vRight nd))))))
       else if vSplit nd = Vertical then
         (if pr_H rect \<le> 0 then Some t
          else Some (setAtPath t (the node) (set_ratio (drag_ratio y (pr_OY rect) (pr_H rect) (minHeight (vLeft nd)) (minHeight (vRight nd))))))
       else Some t)"

text \<open>The deepest split line under a point: parents come before children.\<close>

definition hit_border :: "BorderHit list \<Rightarrow> int \<Rightarrow> int \<Rightarrow> BorderHit option" where
  "hit_border borders x y = find (\<lambda>b. border_Contains b x y) (rev borders)"

end
