(* ===== verification/Layout_Tab.thy ===== *)
theory Layout_Tab
  imports Layout_Arrange
begin

text \<open>
  A tab of the terminal client (\<open>internal/tui/tab.go\<close>): focus, spatial navigation, arrivals and removals,
  sizing, and the one step that installs an arrangement (\<open>applyTabArrangement\<close>). The cache of the
  leaves is left out: every operation that changes the tree clears it.
\<close>

text \<open>\<open>tb_active\<close> are the panes' \<open>Active\<close> flags.\<close>

record TabModel =
  tb_Root :: "LayoutNode option"
  tb_ActivePane :: string
  tb_Width :: int
  tb_Height :: int
  tb_CanvasW :: int
  tb_CanvasH :: int
  tb_ChromeW :: int
  tb_focusMode :: bool
  tb_overlayPane :: "string option"
  tb_overlayVisible :: bool
  tb_active :: "string \<Rightarrow> bool"

section \<open>The active pane\<close>

definition tab_Leaves :: "TabModel \<Rightarrow> string list" where
  "tab_Leaves t = Leaves (tb_Root t)"

definition treeActivePaneModel :: "TabModel \<Rightarrow> string option" where
  "treeActivePaneModel t = (case tab_Leaves t of [] \<Rightarrow> None
     | p # ps \<Rightarrow> if tb_ActivePane t \<in> set (p # ps) then Some (tb_ActivePane t) else Some p)"

text \<open>A stale selection is repaired.\<close>

definition ActivePaneModel :: "TabModel \<Rightarrow> string option \<times> TabModel" where
  "ActivePaneModel t = (if tb_overlayVisible t \<and> tb_overlayPane t \<noteq> None then (tb_overlayPane t, t)
     else case treeActivePaneModel t of None \<Rightarrow> (None, t)
     | Some p \<Rightarrow> (Some p, if p \<noteq> tb_ActivePane t then t\<lparr>tb_ActivePane := p, tb_active := (tb_active t)(p := True)\<rparr> else t))"

section \<open>Spatial navigation\<close>

datatype Direction = DirLeft | DirRight | DirUp | DirDown

definition half_int :: "int \<Rightarrow> int" where
  "half_int n = (if 0 \<le> n then n div 2 else - ((- n) div 2))"

definition centerAxis :: "int \<Rightarrow> int \<Rightarrow> int" where
  "centerAxis origin extent = origin + half_int extent"

definition absInt :: "int \<Rightarrow> int" where
  "absInt n = (if n < 0 then - n else n)"

definition rangeOverlap :: "int \<Rightarrow> int \<Rightarrow> int \<Rightarrow> int \<Rightarrow> int" where
  "rangeOverlap a1 a2 b1 b2 = (let lo = (if b1 > a1 then b1 else a1); hi = (if b2 < a2 then b2 else a2)
     in if hi > lo then hi - lo else 0)"

definition perp_y :: "PaneRect \<Rightarrow> PaneRect \<Rightarrow> int \<Rightarrow> (int \<times> int \<times> int) option" where
  "perp_y a c gap = (let ov = rangeOverlap (pr_OY a) (pr_OY a + pr_H a) (pr_OY c) (pr_OY c + pr_H c)
     in if ov \<le> 0 then None else Some (gap, ov, absInt (centerAxis (pr_OY a) (pr_H a) - centerAxis (pr_OY c) (pr_H c))))"

definition perp_x :: "PaneRect \<Rightarrow> PaneRect \<Rightarrow> int \<Rightarrow> (int \<times> int \<times> int) option" where
  "perp_x a c gap = (let ov = rangeOverlap (pr_OX a) (pr_OX a + pr_W a) (pr_OX c) (pr_OX c + pr_W c)
     in if ov \<le> 0 then None else Some (gap, ov, absInt (centerAxis (pr_OX a) (pr_W a) - centerAxis (pr_OX c) (pr_W c))))"

definition directionScore :: "PaneRect \<Rightarrow> PaneRect \<Rightarrow> Direction \<Rightarrow> (int \<times> int \<times> int) option" where
  "directionScore a c dir = (case dir of
       DirLeft \<Rightarrow> if pr_OX c + pr_W c > pr_OX a then None else perp_y a c (pr_OX a - (pr_OX c + pr_W c))
     | DirRight \<Rightarrow> if pr_OX c < pr_OX a + pr_W a then None else perp_y a c (pr_OX c - (pr_OX a + pr_W a))
     | DirUp \<Rightarrow> if pr_OY c + pr_H c > pr_OY a then None else perp_x a c (pr_OY a - (pr_OY c + pr_H c))
     | DirDown \<Rightarrow> if pr_OY c < pr_OY a + pr_H a then None else perp_x a c (pr_OY c - (pr_OY a + pr_H a)))"

text \<open>The loop's best candidate so far with its score; at first none, gap and distance \<open>1 << 30\<close>, overlap -1.\<close>

definition nav_step :: "PaneRect \<Rightarrow> Direction \<Rightarrow> PaneRect \<Rightarrow> PaneRect option \<times> int \<times> int \<times> int \<Rightarrow> PaneRect option \<times> int \<times> int \<times> int" where
  "nav_step a dir c best = (case best of (b, bestGap, bestOverlap, bestPerp) \<Rightarrow>
     if pr_Pane c = pr_Pane a then best
     else case directionScore a c dir of None \<Rightarrow> best
     | Some (gap, overlap, perp) \<Rightarrow>
         if gap < bestGap \<or> gap = bestGap \<and> overlap > bestOverlap \<or> gap = bestGap \<and> overlap = bestOverlap \<and> perp < bestPerp
         then (Some c, gap, overlap, perp) else best)"

definition nav_best :: "PaneRect \<Rightarrow> Direction \<Rightarrow> PaneRect list \<Rightarrow> PaneRect option" where
  "nav_best a dir rects = fst (fold (nav_step a dir) rects (None, 2 ^ 30, - 1, 2 ^ 30))"

definition NavigateDirection :: "TabModel \<Rightarrow> Direction \<Rightarrow> TabModel \<times> bool" where
  "NavigateDirection t dir = (if tb_Root t = None \<or> tb_focusMode t then (t, False)
     else case ActivePaneModel t of (None, t1) \<Rightarrow> (t1, False)
     | (Some act, t1) \<Rightarrow>
       let rects = CollectRects (tb_Root t1) 0 0 (tb_Width t1) (tb_Height t1) in
       if length rects < 2 then (t1, False)
       else case find (\<lambda>r. pr_Pane r = act) rects of None \<Rightarrow> (t1, False)
       | Some ar \<Rightarrow> (case nav_best ar dir rects of None \<Rightarrow> (t1, False)
         | Some b \<Rightarrow> (t1\<lparr>tb_active := (tb_active t1)(pr_Pane ar := False, pr_Pane b := True), tb_ActivePane := pr_Pane b\<rparr>, True)))"

section \<open>Cycling\<close>

fun index_of :: "string \<Rightarrow> string list \<Rightarrow> nat option" where
  "index_of i [] = None"
| "index_of i (p # ps) = (if p = i then Some 0 else map_option Suc (index_of i ps))"

definition activeIndex :: "TabModel \<Rightarrow> string list \<Rightarrow> nat" where
  "activeIndex t leaves = (case index_of (tb_ActivePane t) leaves of Some i \<Rightarrow> i | None \<Rightarrow> 0)"

definition focus_leaf :: "TabModel \<Rightarrow> string list \<Rightarrow> nat \<Rightarrow> nat \<Rightarrow> TabModel" where
  "focus_leaf t leaves idx nxt = t\<lparr>tb_active := (tb_active t)(leaves ! idx := False, leaves ! nxt := True), tb_ActivePane := leaves ! nxt\<rparr>"

definition NextPane :: "TabModel \<Rightarrow> TabModel" where
  "NextPane t = (let leaves = tab_Leaves t in if leaves = [] then t
     else let idx = activeIndex t leaves in focus_leaf t leaves idx ((idx + 1) mod length leaves))"

definition PrevPane :: "TabModel \<Rightarrow> TabModel" where
  "PrevPane t = (let leaves = tab_Leaves t in if leaves = [] then t
     else let idx = activeIndex t leaves in focus_leaf t leaves idx ((idx + length leaves - 1) mod length leaves))"

section \<open>Sizes\<close>

definition sizePaneFull :: "(string \<Rightarrow> pane_view) \<Rightarrow> TabModel \<Rightarrow> string \<Rightarrow> int \<Rightarrow> int \<Rightarrow> sized" where
  "sizePaneFull pv t p w h = (let nativeW = w + tb_ChromeW t in
     \<lparr>sz_Pane = p, sz_Width = w, sz_Height = h, sz_NativeW = nativeW,
      sz_VT = targetVTSize (pv p) w h nativeW (tb_CanvasW t) (tb_CanvasH t)\<rparr>)"

definition tab_Resize :: "(string \<Rightarrow> pane_view) \<Rightarrow> TabModel \<Rightarrow> int \<Rightarrow> int \<Rightarrow> TabModel \<times> sized list" where
  "tab_Resize pv t0 w h = (let t = t0\<lparr>tb_Width := w, tb_Height := h\<rparr>;
       ov = (case tb_overlayPane t of Some p \<Rightarrow> if tb_overlayVisible t then [sizePaneFull pv t p w h] else [] | None \<Rightarrow> [])
     in if tb_focusMode t then (t, ov @ (case treeActivePaneModel t of Some p \<Rightarrow> [sizePaneFull pv t p w h] | None \<Rightarrow> []))
        else if tb_Root t \<noteq> None then (case resizeNode pv (tb_Root t) w h (w + tb_ChromeW t) (tb_CanvasW t) (tb_CanvasH t) of
            (n, szs) \<Rightarrow> (t\<lparr>tb_Root := n\<rparr>, ov @ szs))
        else (t, ov))"

definition ToggleFocus :: "TabModel \<Rightarrow> TabModel" where
  "ToggleFocus t = (case tb_Root t of Some n \<Rightarrow> if IsLeaf n then t else t\<lparr>tb_focusMode := \<not> tb_focusMode t\<rparr>
     | None \<Rightarrow> t\<lparr>tb_focusMode := \<not> tb_focusMode t\<rparr>)"

section \<open>Arrivals and removals\<close>

definition SplitAtPane :: "TabModel \<Rightarrow> string \<Rightarrow> SplitDir \<Rightarrow> TabModel \<times> bool list option" where
  "SplitAtPane t paneID dir = (if tb_Root t = None then (t, None)
     else case splitLeaf_view (tb_Root t) paneID dir of (n, ph) \<Rightarrow> (t\<lparr>tb_Root := n\<rparr>, ph))"

definition spiralSlot :: "TabModel \<Rightarrow> int \<Rightarrow> int \<Rightarrow> TabModel \<times> bool list option" where
  "spiralSlot t w h = (if tb_Root t = None then (t, None)
     else case spiralLeaf (tb_Root t) of (lf, parentSplit, hasParent) \<Rightarrow>
       (case Option.bind lf vPane of None \<Rightarrow> (t, None)
        | Some p \<Rightarrow>
          let (rw, rh) = (case find (\<lambda>r. pr_Pane r = p) (CollectRects (tb_Root t) 0 0 w h) of
                 Some r \<Rightarrow> (pr_W r, pr_H r) | None \<Rightarrow> (0, 0))
          in SplitAtPane t p (arrivalSplitDir (spiralSplitDir parentSplit hasParent) rw rh)))"

definition placeArrivingPane :: "TabModel \<Rightarrow> string \<Rightarrow> int \<Rightarrow> int \<Rightarrow> TabModel \<times> bool" where
  "placeArrivingPane t pane w h = (case spiralSlot t w h of (t', None) \<Rightarrow> (t', False)
     | (t', Some ph) \<Rightarrow> (t'\<lparr>tb_Root := setAtPath (tb_Root t') ph (fill pane)\<rparr>, True))"

definition RemovePane :: "TabModel \<Rightarrow> string \<Rightarrow> TabModel outcome" where
  "RemovePane t paneID = (case tb_Root t of None \<Rightarrow> Ret t
     | Some n \<Rightarrow> if vPane n = Some paneID then Ret (t\<lparr>tb_Root := None, tb_ActivePane := []\<rparr>)
       else obind (RemoveLeaf (tb_Root t) paneID) (\<lambda>(n', removed).
         if \<not> removed then Ret t
         else let t1 = t\<lparr>tb_Root := n'\<rparr> in
           if tb_ActivePane t1 = paneID then
             (case tab_Leaves t1 of [] \<Rightarrow> Ret t1
              | p # _ \<Rightarrow> Ret (t1\<lparr>tb_ActivePane := p, tb_active := (tb_active t1)(p := True)\<rparr>))
           else Ret t1))"

text \<open>The daemon's broadcast brings a pane nobody placed: the first leaf is split (\<open>template_layout.go\<close>).\<close>

definition splitForNewPane :: "TabModel \<Rightarrow> string list \<Rightarrow> string \<Rightarrow> TabModel" where
  "splitForNewPane t leaves pane = (case leaves of
       p # _ \<Rightarrow> if tb_Root t = None then t\<lparr>tb_Root := Some (NewLeaf pane)\<rparr>
          else t\<lparr>tb_Root := fst (FillPlaceholder (fst (splitLeaf_view (tb_Root t) p Vertical)) pane)\<rparr>
     | [] \<Rightarrow> t\<lparr>tb_Root := Some (NewLeaf pane)\<rparr>)"

section \<open>Installing an arrangement\<close>

datatype arranged = Unchanged | Refused | Busy | TooSmall | Applied TabModel "sized list"

text \<open>\<open>refused\<close> and \<open>busy\<close> are \<open>destRefusal\<close> and \<open>tabLayoutBusy\<close>; \<open>w\<close> and \<open>h\<close> the tab's canonical size, \<open>sidebar\<close>
  the project sidebar's width.\<close>

definition applyTabArrangement ::
    "(string \<Rightarrow> pane_view) \<Rightarrow> bool \<Rightarrow> bool \<Rightarrow> bool \<Rightarrow> int \<Rightarrow> int \<Rightarrow> int \<Rightarrow> TabModel \<Rightarrow> LayoutNode option \<Rightarrow> string option \<Rightarrow> arranged" where
  "applyTabArrangement pv notesMode refused busy w h sidebar t newRoot act =
    (if newRoot = None \<or> notesMode then Unchanged
     else if refused then Refused else if busy then Busy
     else if length (tab_Leaves t) < 2 then Unchanged
     else if \<not> fitsMinSize newRoot w h then TooSmall
     else let t1 = t\<lparr>tb_active := (\<lambda>p. tb_active t p \<and> p \<notin> set (tab_Leaves t)), tb_Root := newRoot\<rparr>;
         t2 = (case act of Some a \<Rightarrow> if FindLeaf newRoot a \<noteq> None then t1\<lparr>tb_ActivePane := a\<rparr> else t1 | None \<Rightarrow> t1);
         t3 = (case treeActivePaneModel t2 of Some p \<Rightarrow> t2\<lparr>tb_ActivePane := p, tb_active := (tb_active t2)(p := True)\<rparr> | None \<Rightarrow> t2);
         (t4, szs) = tab_Resize pv (t3\<lparr>tb_focusMode := False, tb_CanvasW := w, tb_CanvasH := h, tb_ChromeW := sidebar\<rparr>) w h
       in Applied t4 szs)"

text \<open>The release of a pane drag over another pane.\<close>

definition drop_tree :: "LayoutNode option \<Rightarrow> string \<Rightarrow> string \<Rightarrow> dropZone \<Rightarrow> LayoutNode option outcome" where
  "drop_tree n src dst zone = (if FindLeaf n src = None \<or> FindLeaf n dst = None then Ret None
     else if zone = zoneCenter then Ret (swapLeaves n src dst) else moveLeafBeside n src dst zone)"

end
