(* ===== verification/Layout_Geometry.thy ===== *)
theory Layout_Geometry
  imports Layout_Tab
begin

text \<open>
  The cells of a drawn tree: the walks that size, draw and hit-test it agree, a tree that passes the room
  check tiles its tab, and what a dragged split line does to both sides.
\<close>

section \<open>Trees the client keeps\<close>

text \<open>A node holds a pane, is a placeholder, or has two children, a direction and a ratio between 0 and 1.\<close>

fun drawable :: "LayoutNode option \<Rightarrow> bool" where
  "drawable None \<longleftrightarrow> False"
| "drawable (Some (LayoutNode p s r l rt w h ty)) \<longleftrightarrow>
    (if l = None \<and> rt = None then True
     else p = None \<and> (s = Horizontal \<or> s = Vertical) \<and> 0 \<le> r \<and> r \<le> 1 \<and> drawable l \<and> drawable rt)"

text \<open>No leaf of it is a placeholder.\<close>

fun all_panes :: "LayoutNode option \<Rightarrow> bool" where
  "all_panes None \<longleftrightarrow> True"
| "all_panes (Some (LayoutNode p s r l rt w h ty)) \<longleftrightarrow> (if p \<noteq> None then True else (l \<noteq> None \<or> rt \<noteq> None) \<and> all_panes l \<and> all_panes rt)"

section \<open>One geometry\<close>

definition covers :: "int \<Rightarrow> int \<Rightarrow> PaneRect \<Rightarrow> bool" where
  "covers x y q \<longleftrightarrow> in_box x y (pr_OX q) (pr_OY q) (pr_W q) (pr_H q)"

lemma FindPaneAt_rect: "FindPaneAt n x y ox oy w h = map_option pr_Pane (FindPaneRectAt n x y ox oy w h)"
  by (induction n x y ox oy w h rule: FindPaneAt.induct) (auto simp: Let_def split: option.split)

lemma rect_found: "FindPaneRectAt n x y ox oy w h = Some q \<Longrightarrow> q \<in> set (CollectRects n ox oy w h) \<and> covers x y q"
  by (induction n x y ox oy w h rule: FindPaneRectAt.induct)
    (auto simp: Let_def covers_def split: option.splits if_splits)

definition clamped :: "PaneRect \<Rightarrow> string \<times> int \<times> int" where
  "clamped q = (pr_Pane q, if pr_W q < minPaneW then minPaneW else pr_W q, if pr_H q < minPaneH then minPaneH else pr_H q)"

lemma resize_rects: "resizeNodeRects n w h = map clamped (CollectRects n ox oy w h)"
proof (induction n w h arbitrary: ox oy rule: resizeNodeRects.induct)
  case (2 p s r l rt pw ph ty w h)
  show ?case
  proof (cases p)
    case (Some q)
    then show ?thesis by (simp add: clamped_def)
  next
    case None
    note IH = 2 [OF _ None]
    show ?thesis
    proof (cases "l = None \<and> rt = None")
      case True
      then show ?thesis using None by (auto simp: Let_def)
    next
      case False
      then show ?thesis using None IH by (auto simp: Let_def)
    qed
  qed
qed simp

lemma resize_sizes:
  "map (\<lambda>z. (sz_Pane z, sz_Width z, sz_Height z)) (snd (resizeNode pv n w h fullW cw ch)) = resizeNodeRects n w h
    \<and> SerializeLayout (fst (resizeNode pv n w h fullW cw ch)) = SerializeLayout n"
proof (induction n arbitrary: w h fullW rule: SerializeLayout.induct)
  case (2 p s r l rt pw ph ty)
  show ?case
  proof (cases p)
    case (Some q)
    then show ?thesis by (simp add: Let_def)
  next
    case None
    note IH = 2 [OF None]
    have split: "map f (snd (case x of (l', a) \<Rightarrow> case y of (rt', b) \<Rightarrow> (g l' rt', a @ b))) = map f (snd x) @ map f (snd y)"
      "fst (case x of (l', a) \<Rightarrow> case y of (rt', b) \<Rightarrow> (g l' rt', a @ b)) = g (fst x) (fst y)" for f g and x y :: "LayoutNode option \<times> sized list"
      by (simp_all split: prod.split)
    show ?thesis using IH None by (simp add: split)
  qed
qed simp

section \<open>Tiling\<close>

lemma fits_room: "fitsWalk n w h \<Longrightarrow> drawable n \<Longrightarrow> minPaneW \<le> w \<and> minPaneH \<le> h"
proof (induction n arbitrary: w h rule: drawable.induct)
  case (2 p s r l rt pw ph ty)
  then show ?case by (fastforce simp: Let_def split: if_splits)
qed simp

text \<open>Where a child fits, no clamp fires.\<close>

lemma fits_parts:
  assumes "drawable l" "drawable rt"
  shows "fitsWalk l (share w r) h \<Longrightarrow> fitsWalk rt (w - share w r) h \<Longrightarrow>
      first_part w r minPaneW = share w r \<and> second_part w r minPaneW = w - share w r"
    "fitsWalk l w (share h r) \<Longrightarrow> fitsWalk rt w (h - share h r) \<Longrightarrow>
      first_part h r minPaneH = share h r \<and> second_part h r minPaneH = h - share h r"
  using fits_room [OF _ assms(1)] fits_room [OF _ assms(2)]
  by (force simp: first_part_def second_part_def Let_def)+

definition inside :: "int \<Rightarrow> int \<Rightarrow> int \<Rightarrow> int \<Rightarrow> PaneRect \<Rightarrow> bool" where
  "inside ox oy w h q \<longleftrightarrow> ox \<le> pr_OX q \<and> oy \<le> pr_OY q \<and> pr_OX q + pr_W q \<le> ox + w \<and> pr_OY q + pr_H q \<le> oy + h"

lemma inside_mono: "inside ox oy w h q \<Longrightarrow> ox' \<le> ox \<Longrightarrow> oy' \<le> oy \<Longrightarrow> ox + w \<le> ox' + w' \<Longrightarrow> oy + h \<le> oy' + h' \<Longrightarrow> inside ox' oy' w' h' q"
  by (auto simp: inside_def)

lemma inside_covers: "inside ox oy w h q \<Longrightarrow> covers x y q \<Longrightarrow> in_box x y ox oy w h"
  by (auto simp: inside_def covers_def in_box_def)

definition tiles :: "LayoutNode option \<Rightarrow> int \<Rightarrow> int \<Rightarrow> int \<Rightarrow> int \<Rightarrow> bool" where
  "tiles n ox oy w h \<longleftrightarrow>
    (\<forall>q \<in> set (CollectRects n ox oy w h). inside ox oy w h q \<and> minPaneW \<le> pr_W q \<and> minPaneH \<le> pr_H q)
    \<and> (\<forall>x y. filter (covers x y) (CollectRects n ox oy w h) = (case FindPaneRectAt n x y ox oy w h of None \<Rightarrow> [] | Some q \<Rightarrow> [q]))
    \<and> (all_panes n \<longrightarrow> (\<forall>x y. in_box x y ox oy w h \<longrightarrow> FindPaneRectAt n x y ox oy w h \<noteq> None))"

text \<open>Two tilings of disjoint boxes that together make up a box.\<close>

lemma tiles_join:
  assumes l: "tiles l ox oy w1 h1" and r: "tiles rt ox2 oy2 w2 h2"
    and box: "\<And>x y. in_box x y ox oy w h \<longleftrightarrow> in_box x y ox oy w1 h1 \<or> in_box x y ox2 oy2 w2 h2"
    and dis: "\<And>x y. \<not> (in_box x y ox oy w1 h1 \<and> in_box x y ox2 oy2 w2 h2)"
    and sub: "ox \<le> ox2" "oy \<le> oy2" "ox + w1 \<le> ox + w" "oy + h1 \<le> oy + h" "ox2 + w2 \<le> ox + w" "oy2 + h2 \<le> oy + h"
    and R: "CollectRects n ox oy w h = CollectRects l ox oy w1 h1 @ CollectRects rt ox2 oy2 w2 h2"
    and F: "\<And>x y. FindPaneRectAt n x y ox oy w h = (if \<not> in_box x y ox oy w h then None
        else case FindPaneRectAt l x y ox oy w1 h1 of Some f \<Rightarrow> Some f | None \<Rightarrow> FindPaneRectAt rt x y ox2 oy2 w2 h2)"
    and P: "all_panes n \<Longrightarrow> all_panes l \<and> all_panes rt"
  shows "tiles n ox oy w h"
proof -
  have found: "FindPaneRectAt m x y a b c d = Some q \<Longrightarrow> tiles m a b c d \<Longrightarrow> in_box x y a b c d" for m x y a b c d q
    using rect_found [of m x y a b c d q] inside_covers [of a b c d q x y] by (auto simp: tiles_def)
  have "inside ox oy w h q \<and> minPaneW \<le> pr_W q \<and> minPaneH \<le> pr_H q" if "q \<in> set (CollectRects n ox oy w h)" for q
    using that l r sub inside_mono [of ox oy w1 h1 q ox oy w h] inside_mono [of ox2 oy2 w2 h2 q ox oy w h]
    unfolding R tiles_def by auto
  moreover have "filter (covers x y) (CollectRects n ox oy w h) = (case FindPaneRectAt n x y ox oy w h of None \<Rightarrow> [] | Some q \<Rightarrow> [q])" for x y
  proof -
    have fl: "filter (covers x y) (CollectRects l ox oy w1 h1) = (case FindPaneRectAt l x y ox oy w1 h1 of None \<Rightarrow> [] | Some q \<Rightarrow> [q])"
      "filter (covers x y) (CollectRects rt ox2 oy2 w2 h2) = (case FindPaneRectAt rt x y ox2 oy2 w2 h2 of None \<Rightarrow> [] | Some q \<Rightarrow> [q])"
      using l r by (simp_all add: tiles_def)
    show ?thesis
      using found [of l x y ox oy w1 h1] found [of rt x y ox2 oy2 w2 h2] l r box [of x y] dis [of x y]
      unfolding R F filter_append fl
      by (cases "FindPaneRectAt l x y ox oy w1 h1"; cases "FindPaneRectAt rt x y ox2 oy2 w2 h2") auto
  qed
  moreover have "FindPaneRectAt n x y ox oy w h \<noteq> None" if "all_panes n" "in_box x y ox oy w h" for x y
  proof -
    have "in_box x y ox oy w1 h1 \<Longrightarrow> FindPaneRectAt l x y ox oy w1 h1 \<noteq> None"
      "in_box x y ox2 oy2 w2 h2 \<Longrightarrow> FindPaneRectAt rt x y ox2 oy2 w2 h2 \<noteq> None"
      using P [OF that(1)] l r by (simp_all add: tiles_def)
    then show ?thesis using that(2) box [of x y] unfolding F by (cases "FindPaneRectAt l x y ox oy w1 h1") auto
  qed
  ultimately show ?thesis by (auto simp: tiles_def)
qed

lemma fits_tiles: "fitsWalk n w h \<Longrightarrow> drawable n \<Longrightarrow> w < 2 ^ 53 \<Longrightarrow> h < 2 ^ 53 \<Longrightarrow> tiles n ox oy w h"
proof (induction n arbitrary: ox oy w h rule: drawable.induct)
  case (2 p s r l rt pw ph ty)
  let ?n = "Some (LayoutNode p s r l rt pw ph ty)"
  show ?case
  proof (cases "l = None \<and> rt = None")
    case True
    then show ?thesis using "2.prems"(1)
      by (auto simp: tiles_def inside_def covers_def Let_def split: option.splits)
  next
    case False
    then have d: "p = None" "s = Horizontal \<or> s = Vertical" "0 \<le> r" "r \<le> 1" "drawable l" "drawable rt"
      using "2.prems"(2) by auto
    have room: "minPaneW \<le> w" "minPaneH \<le> h" using fits_room [OF "2.prems"(1,2)] by auto
    consider "s = Horizontal" | "s = Vertical" using d by blast
    then show ?thesis
    proof cases
      case 1
      have f: "fitsWalk l (share w r) h" "fitsWalk rt (w - share w r) h" using "2.prems"(1) False 1 by (auto simp: Let_def)
      have b: "0 \<le> share w r" "share w r \<le> w" using share_bounds [of w r] room d "2.prems"(3) by auto
      note p = fits_parts(1) [OF d(5,6) f]
      show ?thesis
      proof (rule tiles_join [where ?ox2.0 = "ox + share w r" and ?oy2.0 = oy])
        show "tiles l ox oy (share w r) h" by (rule "2.IH"(1)) (use False f d b room "2.prems"(3,4) in auto)
        show "tiles rt (ox + share w r) oy (w - share w r) h" by (rule "2.IH"(2)) (use False f d b room "2.prems"(3,4) in auto)
      qed (use p b 1 d in \<open>auto simp: in_box_def Let_def\<close>)
    next
      case 2
      have f: "fitsWalk l w (share h r)" "fitsWalk rt w (h - share h r)" using "2.prems"(1) False 2 by (auto simp: Let_def)
      have b: "0 \<le> share h r" "share h r \<le> h" using share_bounds [of h r] room d "2.prems"(4) by auto
      note p = fits_parts(2) [OF d(5,6) f]
      show ?thesis
      proof (rule tiles_join [where ?ox2.0 = ox and ?oy2.0 = "oy + share h r"])
        show "tiles l ox oy w (share h r)" by (rule "2.IH"(1)) (use False f d b room "2.prems"(3,4) in auto)
        show "tiles rt ox (oy + share h r) w (h - share h r)" by (rule "2.IH"(2)) (use False f d b room "2.prems"(3,4) in auto)
      qed (use p b 2 d in \<open>auto simp: in_box_def Let_def\<close>)
    qed
  qed
qed simp

lemma fits_least: "fitsWalk n w h \<Longrightarrow> drawable n \<Longrightarrow> minWidth n \<le> w \<and> minHeight n \<le> h"
proof (induction n arbitrary: w h rule: drawable.induct)
  case (2 p s r l rt pw ph ty)
  then show ?case by (fastforce simp: Let_def split: if_splits)
qed simp

text \<open>One geometry. Whatever the tree and the box: the two hit tests agree, a hit is a rectangle of the drawing
  that holds the point, and both resizes give every pane the size of its rectangle, raised to the
  minimum.\<close>

theorem one_geometry:
  "FindPaneAt n x y ox oy w h = map_option pr_Pane (FindPaneRectAt n x y ox oy w h)
    \<and> FindPaneRectAt n x y ox oy w h \<in> insert None (Some ` {q \<in> set (CollectRects n ox oy w h). covers x y q})
    \<and> resizeNodeRects n w h = map clamped (CollectRects n ox oy w h)
    \<and> map (\<lambda>z. (sz_Pane z, sz_Width z, sz_Height z)) (snd (resizeNode pv n w h fullW cw ch)) = map clamped (CollectRects n ox oy w h)"
  using FindPaneAt_rect [of n x y ox oy w h] rect_found [of n x y ox oy w h] resize_rects [of n w h ox oy] resize_sizes [of pv n w h fullW cw ch]
  by (cases "FindPaneRectAt n x y ox oy w h") auto

text \<open>C32. A tree that passes the room check tiles its tab: every pane's rectangle lies in the tab and is no smaller
  than the minimum, no cell is in two of them, the hit test finds the one that holds a cell, and without
  placeholders every cell has a pane; the minimum the drag computes from the tree is no more than the tab.\<close>

theorem fitting_layout_tiles:
  assumes "fitsMinSize n w h" "drawable n" "0 < w" "0 < h" "w < 2 ^ 53" "h < 2 ^ 53"
  shows "(\<forall>q \<in> set (CollectRects n ox oy w h). inside ox oy w h q \<and> minPaneW \<le> pr_W q \<and> minPaneH \<le> pr_H q)
    \<and> (\<forall>x y. filter (covers x y) (CollectRects n ox oy w h) = (case FindPaneRectAt n x y ox oy w h of None \<Rightarrow> [] | Some q \<Rightarrow> [q]))
    \<and> (all_panes n \<longrightarrow> (\<forall>x y. in_box x y ox oy w h \<longrightarrow> FindPaneRectAt n x y ox oy w h \<noteq> None))
    \<and> minWidth n \<le> w \<and> minHeight n \<le> h"
proof -
  have f: "fitsWalk n w h" using assms by (simp add: fitsMinSize_def)
  show ?thesis using fits_tiles [OF f assms(2,5,6), of ox oy] fits_least [OF f assms(2)] by (simp add: tiles_def)
qed

definition sample_view :: "LayoutNode option" where
  "sample_view = Some (LayoutNode None Horizontal (1/2) (Some (NewLeaf ''a''))
     (Some (LayoutNode None Vertical (1/4) (Some (NewLeaf ''b'')) (Some (NewLeaf ''c'')) 0 0 [])) 0 0 [])"

lemma sample_view_ok: "drawable sample_view" "all_panes sample_view" "fitsMinSize sample_view 80 24"
    "map pr_Pane (CollectRects sample_view 0 1 80 24) = [''a'', ''b'', ''c'']"
  by (simp add: sample_view_def NewLeaf_def, simp add: sample_view_def NewLeaf_def, code_simp, simp add: sample_view_def NewLeaf_def Let_def)

theorem fitting_layout_tiles_witness:
  "FindPaneRectAt sample_view 79 24 0 1 80 24 \<noteq> None \<and> minWidth sample_view \<le> 80"
  using fitting_layout_tiles [OF sample_view_ok(3,1), of 0 1] sample_view_ok(2) by (simp add: in_box_def)

section \<open>Dragging a split line\<close>

lemma atPath_setAtPath: "atPath t path = Some nd \<Longrightarrow> atPath (setAtPath t path f) path = Some (f nd)"
  by (induction t path f rule: setAtPath.induct) (auto split: if_splits)

lemma set_ratio_same:
  "atPath t path = Some nd \<Longrightarrow> vPane nd = None \<Longrightarrow> Leaves (setAtPath t path (set_ratio q)) = Leaves t"
proof (induction t path "set_ratio q" rule: setAtPath.induct)
  case (2 n)
  then show ?case by (cases n) auto
qed (auto split: option.splits if_splits)

lemma set_ratio_drawable:
  "atPath t path = Some nd \<Longrightarrow> 0 \<le> q \<Longrightarrow> q \<le> 1 \<Longrightarrow> drawable t \<Longrightarrow> drawable (setAtPath t path (set_ratio q))"
proof (induction t path "set_ratio q" rule: setAtPath.induct)
  case (2 n)
  then show ?case by (cases n) (auto split: if_splits)
next
  case (3 p s r l rt w h ty b path)
  have n: "setAtPath c path (set_ratio q) = None \<longleftrightarrow> c = None" for c by (cases c; cases path) (auto, case_tac a, auto split: if_splits)
  show ?case using 3 by (cases b) (auto simp: n split: if_splits)
qed simp

lemma drawable_least: "drawable n \<Longrightarrow> minPaneW \<le> minWidth n \<and> minPaneH \<le> minHeight n"
  by (induction n rule: drawable.induct) (auto split: if_splits)

lemma drawable_at: "atPath t path = Some nd \<Longrightarrow> drawable t \<Longrightarrow> drawable (Some nd)"
proof (induction t path rule: atPath.induct)
  case (3 n b path)
  then show ?case by (cases n) (auto split: if_splits)
qed auto

text \<open>Along one axis: the wanted number of cells leaves both sides their minimum, the drawn one is at most one
  cell less.\<close>

lemma drag_ratio_cells:
  assumes "least \<le> leastL" "0 \<le> least" "least \<le> leastR" "leastL + leastR \<le> n" "n < 2 ^ 52" "0 < n"
    and c: "c = min (max (pos - orig) leastL) (n - leastR)"
  shows "leastL \<le> c" "c \<le> n - leastR" "0 \<le> drag_ratio pos orig n leastL leastR" "drag_ratio pos orig n leastL leastR \<le> 1"
    "first_part n (drag_ratio pos orig n leastL leastR) least \<in> {c - 1, c}"
proof -
  show b: "leastL \<le> c" "c \<le> n - leastR" using assms by auto
  have r: "drag_ratio pos orig n leastL leastR = f64_div c n" by (simp add: drag_ratio_def c)
  have d: "0 \<le> c" "c \<le> n" using b assms by auto
  show "0 \<le> drag_ratio pos orig n leastL leastR" "drag_ratio pos orig n leastL leastR \<le> 1"
    unfolding r using f64_div_bounds [OF d] assms by auto
  show "first_part n (drag_ratio pos orig n leastL leastR) least \<in> {c - 1, c}"
    unfolding r first_part_def Let_def using share_of_ratio [OF d assms(5)] b assms by auto
qed



text \<open>The cell less is real: the pointer at cell 13 of 23 draws the line at 12, and held back at the 30 cells three
  columns need, of 44, the line is drawn at 29.\<close>

lemma drag_loses_a_cell:
  "first_part 23 (drag_ratio 13 0 23 10 10) minPaneW = 12" "first_part 44 (drag_ratio 5 0 44 30 10) minPaneW = 29"
  by code_simp+

end
