(* ===== verification/Layout_Edits.thy ===== *)
theory Layout_Edits
  imports Layout_Geometry
begin

text \<open>
  The edits of a drawn tree: every arrangement and every drop keeps the panes, and the edits a client makes
  are, in stored form, those of the daemon (\<open>Layout_Tree\<close>).
\<close>

section \<open>Places and leaves\<close>

lemma cloneLayout_id [simp]: "cloneLayout n = n"
  by (induction n rule: cloneLayout.induct) auto

lemma FindLeaf_Leaves: "FindLeaf n i \<noteq> None \<longleftrightarrow> i \<in> set (Leaves n)"
  by (induction n i rule: FindLeaf.induct) (auto split: option.splits)

lemma leafPath_Leaves: "leafPath n i \<noteq> None \<longleftrightarrow> i \<in> set (Leaves n)"
  by (induction n i rule: leafPath.induct) (auto split: option.splits)

lemma leafPath_at: "leafPath n i = Some path \<Longrightarrow> \<exists>lf. atPath n path = Some lf \<and> vPane lf = Some i"
  by (induction n i arbitrary: path rule: leafPath.induct) (auto split: option.splits if_splits)

lemma setAtPath_None [simp]: "setAtPath n path f = None \<longleftrightarrow> n = None"
  by (cases n; cases path) (auto, case_tac a, auto)

text \<open>A write at a pane's place replaces the pane by the new node's panes.\<close>

lemma Leaves_setAt:
  "leafPath n i = Some path \<Longrightarrow> Leaves (setAtPath n path f) =
     (case atPath n path of Some lf \<Rightarrow> replace_first i (Leaves (Some (f lf))) (Leaves n) | None \<Rightarrow> Leaves n)"
proof (induction n i arbitrary: path rule: leafPath.induct)
  case (2 p s r l rt w h ty i)
  show ?case
  proof (cases p)
    case (Some q)
    then show ?thesis using 2(3) by (auto split: if_splits)
  next
    case None
    show ?thesis
    proof (cases "leafPath l i")
      case (Some pl)
      then have path: "path = False # pl" using 2(3) None by simp
      obtain lf where "atPath l pl = Some lf" using leafPath_at [OF Some] by blast
      moreover have "i \<in> set (Leaves l)" using Some leafPath_Leaves [of l i] by simp
      ultimately show ?thesis using 2(1) [OF None Some] None path by (simp add: replace_first_append)
    next
      case l: None
      then obtain pr where pr: "leafPath rt i = Some pr" "path = True # pr" using 2(3) None by auto
      obtain lf where "atPath rt pr = Some lf" using leafPath_at [OF pr(1)] by blast
      moreover have "i \<notin> set (Leaves l)" using l leafPath_Leaves [of l i] by simp
      ultimately show ?thesis using 2(2) [OF None l pr(1)] None pr by (simp add: replace_first_append)
    qed
  qed
qed simp

lemma drawable_setAt:
  "atPath n path = Some lf \<Longrightarrow> drawable n \<Longrightarrow> drawable (Some (f lf)) \<Longrightarrow> drawable (setAtPath n path f)"
proof (induction n path f rule: setAtPath.induct)
  case (3 p s r l rt w h ty b path f)
  then show ?case by (cases b) (auto split: if_splits)
qed auto

section \<open>The arrangements\<close>

lemma setEvenRatios_leaves: "Leaves (fst (setEvenRatios n)) = Leaves n \<and> snd (setEvenRatios n) = int (length (Leaves n))"
proof (induction n rule: Leaves.induct)
  case (2 p s r l rt w h ty)
  then show ?case by (cases p) (auto split: prod.split)
qed simp

lemma setEvenRatios_drawable:
  "drawable n \<Longrightarrow> length (Leaves n) < 2 ^ 53 \<Longrightarrow> drawable (fst (setEvenRatios n)) \<and> fst (setEvenRatios n) \<noteq> None"
proof (induction n rule: Leaves.induct)
  case (2 p s r l rt w h ty)
  show ?case
  proof (cases "p \<noteq> None \<or> l = None \<and> rt = None")
    case True
    then show ?thesis using 2(3) by auto
  next
    case False
    then have d: "drawable l" "drawable rt" "s = Horizontal \<or> s = Vertical" "0 \<le> r" "r \<le> 1" and p: "p = None"
      using 2(3) by auto
    have len: "length (Leaves l) + length (Leaves rt) < 2 ^ 53" using 2(4) p by simp
    have IH: "drawable (fst (setEvenRatios l)) \<and> fst (setEvenRatios l) \<noteq> None"
        "drawable (fst (setEvenRatios rt)) \<and> fst (setEvenRatios rt) \<noteq> None"
      using 2(1,2) [OF p] d len by auto
    let ?a = "int (length (Leaves l))" and ?b = "int (length (Leaves rt))"
    have ab: "?a + ?b < 2 ^ 53" using len by (metis of_nat_add of_nat_less_iff of_nat_numeral of_nat_power)
    have "0 \<le> f64_div ?a (?a + ?b) \<and> f64_div ?a (?a + ?b) \<le> 1" if "?a > 0"
      using f64_div_bounds [of ?a "?a + ?b"] that ab by linarith
    then show ?thesis using False p d IH setEvenRatios_leaves [of l] setEvenRatios_leaves [of rt]
      by (auto simp: split_beta Let_def)
  qed
qed simp

lemma Leaves_chain: "Leaves (chainNodes ns d) = concat (map Leaves ns)"
  by (induction ns d rule: chainNodes.induct) auto

lemma Leaves_paneLeaves: "concat (map Leaves (paneLeaves panes)) = panes"
  by (induction panes) (auto simp: paneLeaves_def NewLeaf_def)

lemma Leaves_columns [simp]: "Leaves (columnsLayout panes) = panes" "Leaves (rowsLayout panes) = panes"
  by (simp_all add: columnsLayout_def rowsLayout_def Leaves_chain Leaves_paneLeaves)

lemma drawable_chain:
  "ns \<noteq> [] \<Longrightarrow> \<forall>n \<in> set ns. drawable n \<Longrightarrow> d = Horizontal \<or> d = Vertical \<Longrightarrow> length ns < 2 ^ 53 \<Longrightarrow>
    drawable (chainNodes ns d)"
proof (induction ns d rule: chainNodes.induct)
  case (3 n m ms d)
  have "int (length (n # m # ms)) < 2 ^ 53" using "3.prems"(4) by (metis of_nat_less_iff of_nat_numeral of_nat_power)
  then have "0 \<le> f64_div 1 (int (length (n # m # ms))) \<and> f64_div 1 (int (length (n # m # ms))) \<le> 1"
    using f64_div_bounds [of 1 "int (length (n # m # ms))"] by simp
  moreover have "drawable (chainNodes (m # ms) d)" using 3 by simp
  ultimately show ?case using "3.prems" by auto
qed auto

lemma drawable_NewLeaf [simp]: "drawable (Some (NewLeaf p))"
  by (simp add: NewLeaf_def)

lemma drawable_columns: "panes \<noteq> [] \<Longrightarrow> length panes < 2 ^ 53 \<Longrightarrow> drawable (columnsLayout panes) \<and> drawable (rowsLayout panes)"
  unfolding columnsLayout_def rowsLayout_def by (auto intro!: drawable_chain simp: paneLeaves_def)

lemma gridCols_ge: "c \<le> gridCols n c \<and> n \<le> gridCols n c * gridCols n c"
proof (induction n c rule: gridCols.induct)
  case (1 n c)
  then show ?case by (subst (1 2 3) gridCols.simps) (auto simp del: One_nat_def)
qed

lemma gridRows_leaves: "c > 0 \<Longrightarrow> concat (map Leaves (gridRows c panes)) = panes"
proof (induction c panes rule: gridRows.induct)
  case (1 c panes)
  then show ?case by (subst gridRows.simps) auto
qed

lemma gridRows_length: "length (gridRows c panes) \<le> length panes"
proof (induction c panes rule: gridRows.induct)
  case (1 c panes)
  then show ?case by (subst gridRows.simps) (cases panes, auto)
qed

lemma gridRows_drawable: "c > 0 \<Longrightarrow> length panes < 2 ^ 53 \<Longrightarrow> \<forall>n \<in> set (gridRows c panes). drawable n"
proof (induction c panes rule: gridRows.induct)
  case (1 c panes)
  then show ?case using drawable_columns [of "take c panes"] by (subst gridRows.simps) auto
qed

lemma Leaves_grid [simp]: "Leaves (gridLayout panes) = panes"
  using gridCols_ge [of 1 "length panes"] by (simp add: gridLayout_def Leaves_chain gridRows_leaves gridColumns_def)

lemma drawable_grid: "panes \<noteq> [] \<Longrightarrow> length panes < 2 ^ 53 \<Longrightarrow> drawable (gridLayout panes)"
proof -
  assume a: "panes \<noteq> []" "length panes < 2 ^ 53"
  have c: "gridColumns (length panes) > 0" using gridCols_ge [of 1 "length panes"] by (simp add: gridColumns_def)
  have "gridRows (gridColumns (length panes)) panes \<noteq> []" using a c by (subst gridRows.simps) simp
  then show ?thesis unfolding gridLayout_def
    using gridRows_drawable [OF c a(2)] gridRows_length [of "gridColumns (length panes)" panes] a by (intro drawable_chain) auto
qed

lemma mset_minus_filter: "distinct xs \<Longrightarrow> m \<in> set xs \<Longrightarrow> mset (m # filter (\<lambda>p. p \<noteq> m) xs) = mset xs"
proof (induction xs)
  case (Cons x xs)
  have "filter (\<lambda>p. p \<noteq> x) xs = xs" using Cons.prems by (simp add: filter_id_conv) blast
  then have "{#p \<in># mset xs. p \<noteq> x#} = mset xs" by (metis mset_filter)
  then show ?case using Cons by auto
qed simp

lemma main_shape:
  assumes "distinct panes" "mainStackLayout panes main = Some t"
  obtains m rest where "t = (if rest = [] then NewLeaf m else LayoutNode None Horizontal (1/2) (Some (NewLeaf m)) (rowsLayout rest) 0 0 [])"
    "mset (m # rest) = mset panes"
proof (cases panes)
  case Nil
  then show ?thesis using assms(2) by (simp add: mainStackLayout_def)
next
  case (Cons p0 ps)
  define m where "m = (case main of Some m \<Rightarrow> m | None \<Rightarrow> p0)"
  define mr where "mr = (if m \<in> set panes then (m, filter (\<lambda>p. p \<noteq> m) panes) else (p0, ps))"
  have ms: "mset (fst mr # snd mr) = mset panes"
    using mset_minus_filter [OF assms(1), of m] by (auto simp: mr_def Cons)
  have "Some t = (case mr of (m, rest) \<Rightarrow> if rest = [] then Some (NewLeaf m)
      else Some (LayoutNode None Horizontal (1/2) (Some (NewLeaf m)) (rowsLayout rest) 0 0 []))"
    using assms(2) unfolding mr_def m_def mainStackLayout_def Cons list.case Let_def by (rule sym)
  then show ?thesis using that [of "snd mr" "fst mr"] ms by (auto split: prod.splits if_splits)
qed

lemma main_ok:
  assumes "distinct panes" "mainStackLayout panes main = Some t" "length panes < 2 ^ 53"
  shows "mset (Leaves (Some t)) = mset panes \<and> drawable (Some t)"
proof -
  obtain m rest where mr: "t = (if rest = [] then NewLeaf m else LayoutNode None Horizontal (1/2) (Some (NewLeaf m)) (rowsLayout rest) 0 0 [])"
    "mset (m # rest) = mset panes" using main_shape [OF assms(1,2)] .
  have "length rest < 2 ^ 53" using mset_eq_length [OF mr(2)] assms(3) by simp
  then have "rest \<noteq> [] \<Longrightarrow> drawable (rowsLayout rest)" using drawable_columns [of rest] by simp
  then show ?thesis using mr(1) unfolding mr(2) [symmetric] by (cases "rest = []") (simp_all add: NewLeaf_def)
qed

section \<open>The spiral\<close>

lemma setAtPath_append:
  "atPath n path \<noteq> None \<Longrightarrow> (\<And>x. setAtPath (Some (f x)) qs g = Some (h x)) \<Longrightarrow>
    setAtPath (setAtPath n path f) (path @ qs) g = setAtPath n path h"
  by (induction n path f rule: setAtPath.induct) auto

text \<open>Splitting a pane and filling the placeholder.\<close>

definition split_node :: "SplitDir \<Rightarrow> string \<Rightarrow> LayoutNode \<Rightarrow> LayoutNode" where
  "split_node dir new lf = LayoutNode None dir (1/2) (map_option NewLeaf (vPane lf)) (Some (NewLeaf new)) (phW lf) (phH lf) (phType lf)"

lemma split_fill:
  assumes "leafPath n q = Some path"
  shows "splitLeaf_view n q dir = (n', ph) \<Longrightarrow> ph = Some (path @ [True])
      \<and> setAtPath n' (path @ [True]) (fill new) = setAtPath n path (split_node dir new)"
  using leafPath_at [OF assms] assms
  by (auto simp: splitLeaf_view_def split_node_def NewLeaf_def new_placeholder_def intro!: setAtPath_append)

lemma replace_first_last: "distinct xs \<Longrightarrow> xs \<noteq> [] \<Longrightarrow> replace_first (last xs) [last xs, p] xs = xs @ [p]"
  by (induction xs) auto

lemma split_node_leaves:
  "leafPath n q = Some path \<Longrightarrow> Leaves (setAtPath n path (split_node dir new)) = replace_first q [q, new] (Leaves n)"
  using leafPath_at [of n q path] by (auto simp: Leaves_setAt split_node_def NewLeaf_def)

lemma split_node_drawable:
  "leafPath n q = Some path \<Longrightarrow> drawable n \<Longrightarrow> dir = Horizontal \<or> dir = Vertical \<Longrightarrow> drawable (setAtPath n path (split_node dir new))"
  using leafPath_at [of n q path] by (auto intro!: drawable_setAt simp: split_node_def)

lemma spiralWalk_leaf:
  "(Leaves n = [] \<longrightarrow> spiralWalk n par acc = acc)
    \<and> (Leaves n \<noteq> [] \<longrightarrow> (\<exists>lf. fst (spiralWalk n par acc) = Some lf \<and> vPane lf = Some (last (Leaves n))))"
proof (induction n arbitrary: par acc rule: Leaves.induct)
  case (2 p s r l rt w h ty)
  show ?case
  proof (cases p)
    case None
    note IH = 2 [OF None]
    show ?thesis
    proof (cases "Leaves rt = []")
      case True
      then have "spiralWalk rt (Some s) a = a" for a using IH(2) by blast
      then show ?thesis using IH(1) [of "Some s" acc] None True by simp
    next
      case False
      then show ?thesis using IH(2) [of "Some s" "spiralWalk l (Some s) acc"] None by simp
    qed
  qed simp
qed simp

lemma spiral_place_ok:
  assumes "drawable n" "distinct (Leaves n)" "Leaves n \<noteq> []"
  shows "\<exists>n'. spiral_place n p = Ret n' \<and> Leaves n' = Leaves n @ [p] \<and> drawable n'"
proof -
  obtain lf ps hp where w: "spiralLeaf n = (Some lf, ps, hp)" "vPane lf = Some (last (Leaves n))"
    using spiralWalk_leaf [of n None "(None, 0, False)"] assms(3) by (cases "spiralLeaf n") (auto simp: spiralLeaf_def)
  obtain path where path: "leafPath n (last (Leaves n)) = Some path"
    using leafPath_Leaves [of n "last (Leaves n)"] assms(3) by auto
  obtain n' ph where sp: "splitLeaf_view n (last (Leaves n)) (spiralSplitDir ps hp) = (n', ph)" by fastforce
  note S = split_fill [OF path sp, of p]
  have "spiral_place n p = Ret (setAtPath n path (split_node (spiralSplitDir ps hp) p))"
    using S by (simp add: spiral_place_def w sp)
  moreover have "drawable (setAtPath n path (split_node (spiralSplitDir ps hp) p))"
    by (rule split_node_drawable [OF path assms(1)]) (simp add: spiralSplitDir_def)
  ultimately show ?thesis using split_node_leaves [OF path] replace_first_last [OF assms(2,3)] by simp
qed

lemma spiral_all_ok:
  "drawable n \<Longrightarrow> distinct (Leaves n @ ps) \<Longrightarrow> Leaves n \<noteq> [] \<Longrightarrow>
    \<exists>n'. spiral_all n ps = Ret n' \<and> Leaves n' = Leaves n @ ps \<and> drawable n'"
proof (induction ps arbitrary: n)
  case (Cons p ps)
  obtain n1 where n1: "spiral_place n p = Ret n1" "Leaves n1 = Leaves n @ [p]" "drawable n1"
    using spiral_place_ok [of n p] Cons.prems by auto
  then show ?case using Cons.IH [of n1] Cons.prems by auto
qed simp

lemma spiral_layout_ok:
  assumes "distinct panes" "panes \<noteq> []" "length panes < 2 ^ 53"
  shows "\<exists>t. spiralLayout panes = Ret (Some t) \<and> Leaves (Some t) = panes \<and> drawable (Some t)"
proof -
  obtain p ps where c: "panes = p # ps" using assms(2) by (cases panes) auto
  obtain n where n: "spiral_all (Some (NewLeaf p)) ps = Ret n" "Leaves n = p # ps" "drawable n"
    using spiral_all_ok [of "Some (NewLeaf p)" ps] assms(1) c by (auto simp: NewLeaf_def)
  then show ?thesis using setEvenRatios_leaves [of n] setEvenRatios_drawable [of n] assms(3) c
    by (auto simp: spiralLayout_def evenOut_def)
qed

text \<open>Every arrangement of a tree with panes.\<close>

lemma arrange_ok:
  assumes "drawable n" "distinct (Leaves n)" "length (Leaves n) < 2 ^ 53"
  shows "arrangeLayout kind n act \<noteq> Panic"
    "arrangeLayout kind n act = Ret (Some t) \<Longrightarrow> mset (Leaves (Some t)) = mset (Leaves n) \<and> drawable (Some t)
      \<and> (kind \<noteq> layoutMain \<longrightarrow> Leaves (Some t) = Leaves n)"
proof -
  have n: "n \<noteq> None" using assms(1) by (cases n) auto
  show "arrangeLayout kind n act \<noteq> Panic"
    using spiral_layout_ok [OF assms(2) _ assms(3)] by (cases kind; cases "Leaves n") (auto simp: arrangeLayout_def Let_def spiralLayout_def)
  assume t: "arrangeLayout kind n act = Ret (Some t)"
  have ne: "Leaves n \<noteq> []" if "kind \<noteq> layoutEven"
    using t n that by (cases kind; cases "Leaves n") (auto simp: arrangeLayout_def Let_def columnsLayout_def rowsLayout_def
        paneLeaves_def gridLayout_def gridRows.simps mainStackLayout_def spiralLayout_def)
  show "mset (Leaves (Some t)) = mset (Leaves n) \<and> drawable (Some t) \<and> (kind \<noteq> layoutMain \<longrightarrow> Leaves (Some t) = Leaves n)"
  proof (cases kind)
    case layoutNone
    then show ?thesis using t by (simp add: arrangeLayout_def split: if_splits)
  next
    case layoutEven
    then have "evenOut n = Some t" using t n by (simp add: arrangeLayout_def)
    then show ?thesis using setEvenRatios_leaves [of n] setEvenRatios_drawable [OF assms(1,3)] by (simp add: evenOut_def)
  next
    case layoutColumns
    then have "columnsLayout (Leaves n) = Some t" using t n by (simp add: arrangeLayout_def)
    then show ?thesis using Leaves_columns [of "Leaves n"] drawable_columns [OF ne assms(3)] layoutColumns by auto
  next
    case layoutRows
    then have "rowsLayout (Leaves n) = Some t" using t n by (simp add: arrangeLayout_def)
    then show ?thesis using Leaves_columns [of "Leaves n"] drawable_columns [OF ne assms(3)] layoutRows by auto
  next
    case layoutGrid
    then have "gridLayout (Leaves n) = Some t" using t n by (simp add: arrangeLayout_def)
    then show ?thesis using Leaves_grid [of "Leaves n"] drawable_grid [OF ne assms(3)] layoutGrid by auto
  next
    case layoutMain
    then have m: "mainStackLayout (Leaves n) act = Some t" using t n by (simp add: arrangeLayout_def)
    then show ?thesis using main_ok [OF assms(2) m assms(3)] layoutMain by simp
  next
    case layoutSpiral
    then have "spiralLayout (Leaves n) = Ret (Some t)" using t n by (simp add: arrangeLayout_def)
    then show ?thesis using spiral_layout_ok [OF assms(2) ne assms(3)] layoutSpiral by auto
  qed
qed

section \<open>Removing a pane\<close>

lemma promote_leaves [simp]: "Leaves (Some (promote sib par)) = Leaves (Some sib)"
  by (cases sib) (simp add: promote_def)

lemma promote_drawable [simp]: "drawable (Some (promote sib par)) \<longleftrightarrow> drawable (Some sib)"
  by (cases sib) (simp add: promote_def)

lemma is_leaf_of_D: "is_leaf_of c i \<Longrightarrow> Leaves c = [i] \<and> (\<exists>n. c = Some n \<and> vPane n = Some i)"
proof -
  assume a: "is_leaf_of c i"
  then obtain n where n: "c = Some n" "vPane n = Some i" by (auto simp: is_leaf_of_def split: option.splits)
  then show ?thesis by (cases n) auto
qed

lemma not_inner_D: "\<not> is_inner c \<Longrightarrow> \<not> is_leaf_of c i \<Longrightarrow> i \<notin> set (Leaves c)"
proof -
  assume a: "\<not> is_inner c" "\<not> is_leaf_of c i"
  show ?thesis
  proof (cases c)
    case (Some n)
    then show ?thesis using a by (cases n) (auto simp: is_inner_def is_leaf_of_def IsLeaf_def)
  qed simp
qed

lemma findParent_inner: "findParentInternal n i = Some (par, b) \<Longrightarrow> is_inner n"
proof (cases n)
  case (Some m)
  then show "findParentInternal n i = Some (par, b) \<Longrightarrow> is_inner n" by (cases m) (auto simp: is_inner_def IsLeaf_def split: if_splits)
qed simp

lemma inner_cases: "is_inner n \<Longrightarrow> (\<And>s r l rt w h ty. n = Some (LayoutNode None s r l rt w h ty) \<Longrightarrow> P) \<Longrightarrow> P"
proof (cases n)
  case (Some m)
  then show "is_inner n \<Longrightarrow> (\<And>s r l rt w h ty. n = Some (LayoutNode None s r l rt w h ty) \<Longrightarrow> P) \<Longrightarrow> P"
    by (cases m) (auto simp: is_inner_def IsLeaf_def)
qed (simp add: is_inner_def)

text \<open>The search finds a pane below the root, and the promotion takes it out of the leaves.\<close>

definition removes :: "LayoutNode option \<Rightarrow> string \<Rightarrow> bool" where
  "removes n i \<longleftrightarrow> (case findParentInternal n i of None \<Rightarrow> i \<notin> set (Leaves n)
     | Some (par, b) \<Rightarrow> i \<in> set (Leaves n) \<and> (\<exists>sib. (if b then vRight par else vLeft par) = Some sib
        \<and> setParentAt n i (promote sib) \<noteq> None \<and> drawable (setParentAt n i (promote sib))
        \<and> Leaves (setParentAt n i (promote sib)) = remove1 i (Leaves n)))"

lemma removes_inner: "drawable n \<Longrightarrow> is_inner n \<Longrightarrow> removes n i"
proof (induction n rule: drawable.induct)
  case (2 p s r l rt w h ty)
  have p: "p = None" using "2.prems"(2) by (simp add: is_inner_def IsLeaf_def)
  show ?case
  proof (cases "l = None \<and> rt = None")
    case True
    then show ?thesis using p by (simp add: removes_def is_leaf_of_def is_inner_def)
  next
    case False
    then have d: "drawable l" "drawable rt" "s = Horizontal \<or> s = Vertical" "0 \<le> r" "r \<le> 1" using "2.prems"(1) by auto
    note IH = "2.IH"(1) [OF False d(1)] "2.IH"(2) [OF False d(2)]
    have ne: "l \<noteq> None" "rt \<noteq> None" using d(1,2) by (cases l; cases rt; auto)+
    consider (ll) "is_leaf_of l i" | (il) par b where "\<not> is_leaf_of l i" "is_inner l" "findParentInternal l i = Some (par, b)"
      | (lr) "\<not> is_leaf_of l i" "is_inner l \<longrightarrow> findParentInternal l i = None" "is_leaf_of rt i"
      | (no) "\<not> is_leaf_of l i" "is_inner l \<longrightarrow> findParentInternal l i = None" "\<not> is_leaf_of rt i"
      by (cases "findParentInternal l i") auto
    then show ?thesis
    proof cases
      case ll
      obtain m where "rt = Some m" using ne by auto
      then show ?thesis using ll p d is_leaf_of_D [OF ll] by (auto simp: removes_def)
    next
      case il
      then have "removes l i" using IH(1) by blast
      then obtain sib where "(if b then vRight par else vLeft par) = Some sib" "i \<in> set (Leaves l)"
          "setParentAt l i (promote sib) \<noteq> None" "drawable (setParentAt l i (promote sib))"
          "Leaves (setParentAt l i (promote sib)) = remove1 i (Leaves l)"
        by (auto simp: removes_def il)
      then show ?thesis using il p d ne by (auto simp: removes_def remove1_append)
    next
      case lr
      have nl: "i \<notin> set (Leaves l)"
        using lr(1,2) not_inner_D [of l i] IH(1) by (cases "is_inner l") (auto simp: removes_def)
      obtain m where m: "l = Some m" using ne by auto
      have f: "findParentInternal (Some (LayoutNode p s r l rt w h ty)) i = Some (LayoutNode p s r l rt w h ty, False)"
        using lr p by auto
      have g: "setParentAt (Some (LayoutNode p s r l rt w h ty)) i (promote m) = Some (promote m (LayoutNode p s r l rt w h ty))"
        using lr p by auto
      have L: "Leaves (Some (LayoutNode p s r l rt w h ty)) = Leaves l @ [i]" using is_leaf_of_D [OF lr(3)] p by simp
      show ?thesis using f g L nl m d by (simp add: removes_def remove1_append)
    next
      case no
      have nl: "i \<notin> set (Leaves l)"
        using no(1,2) not_inner_D [of l i] IH(1) by (cases "is_inner l") (auto simp: removes_def)
      show ?thesis
      proof (cases "is_inner rt")
        case True
        have f: "findParentInternal (Some (LayoutNode p s r l rt w h ty)) i = findParentInternal rt i" using no p True by (auto split: option.split)
        have g: "setParentAt (Some (LayoutNode p s r l rt w h ty)) i k = Some (LayoutNode p s r l (setParentAt rt i k) w h ty)" for k
          using no p True by auto
        show ?thesis using IH(2) [OF True] nl p d ne unfolding removes_def f g by (auto simp: remove1_append split: option.splits)
      next
        case False
        have f: "findParentInternal (Some (LayoutNode p s r l rt w h ty)) i = None" using no p False by (auto split: option.split)
        show ?thesis using f nl not_inner_D [OF False no(3)] p by (simp add: removes_def)
      qed
    qed
  qed
qed simp

lemma RemoveLeaf_ok:
  assumes "drawable n"
  shows "RemoveLeaf n i = Ret (n', removed) \<Longrightarrow> drawable n' \<and> Leaves n' = (if removed then remove1 i (Leaves n) else Leaves n)
      \<and> (removed \<longleftrightarrow> is_inner n \<and> i \<in> set (Leaves n))" and "RemoveLeaf n i \<noteq> Panic"
proof -
  obtain m where m: "n = Some m" using assms by (cases n) auto
  have body: "RemoveLeaf n i \<noteq> Panic \<and> (\<forall>n' removed. RemoveLeaf n i = Ret (n', removed) \<longrightarrow> drawable n'
      \<and> Leaves n' = (if removed then remove1 i (Leaves n) else Leaves n) \<and> (removed \<longleftrightarrow> is_inner n \<and> i \<in> set (Leaves n)))"
  proof (cases "IsLeaf m")
    case True
    then show ?thesis using assms m by (simp add: RemoveLeaf_def is_inner_def)
  next
    case False
    then have inner: "is_inner n" using m by (simp add: is_inner_def)
    note R = removes_inner [OF assms inner, of i, unfolded removes_def]
    show ?thesis
    proof (cases "findParentInternal n i")
      case None
      then show ?thesis using R False assms m by (simp add: RemoveLeaf_def)
    next
      case (Some pb)
      obtain par b where pb: "pb = (par, b)" by fastforce
      then show ?thesis using R False inner m Some by (auto simp: RemoveLeaf_def)
    qed
  qed
  then show "RemoveLeaf n i = Ret (n', removed) \<Longrightarrow> drawable n' \<and> Leaves n' = (if removed then remove1 i (Leaves n) else Leaves n)
      \<and> (removed \<longleftrightarrow> is_inner n \<and> i \<in> set (Leaves n))" "RemoveLeaf n i \<noteq> Panic" by blast+
qed

section \<open>Dropping a dragged pane\<close>

lemma mset_replace_first: "x \<in> set xs \<Longrightarrow> mset (replace_first x ys xs) + {#x#} = mset ys + mset xs"
  by (induction xs) auto

lemma move_ok:
  assumes "drawable n" "distinct (Leaves n)"
  shows "moveLeafBeside n x y zone \<noteq> Panic"
    "moveLeafBeside n x y zone = Ret (Some t) \<Longrightarrow> drawable (Some t) \<and> mset (Leaves (Some t)) = mset (Leaves n)"
proof -
  have body: "moveLeafBeside n x y zone \<noteq> Panic \<and> (\<forall>t. moveLeafBeside n x y zone = Ret (Some t) \<longrightarrow>
      drawable (Some t) \<and> mset (Leaves (Some t)) = mset (Leaves n))"
  proof (cases "zone_dir zone = None \<or> n = None \<or> x = y \<or> FindLeaf n y = None")
    case True
    then show ?thesis by (auto simp: moveLeafBeside_def Let_def split: option.split)
  next
    case False
    then obtain dir where dir: "zone_dir zone = Some dir" and xy: "x \<noteq> y" and y: "y \<in> set (Leaves n)"
      using FindLeaf_Leaves [of n y] by auto
    obtain out removed where R: "RemoveLeaf n x = Ret (out, removed)"
      using RemoveLeaf_ok(2) [OF assms(1), of x] by (cases "RemoveLeaf n x") auto
    note O = RemoveLeaf_ok(1) [OF assms(1) R]
    show ?thesis
    proof (cases removed)
      case False
      then show ?thesis using R dir by (auto simp: moveLeafBeside_def Let_def)
    next
      case True
      have yo: "y \<in> set (Leaves out)" using O True y xy by (simp add: in_set_remove1)
      obtain path where path: "leafPath out y = Some path" using leafPath_Leaves [of out y] yo by auto
      obtain lf where lf: "atPath out path = Some lf" "vPane lf = Some y" using leafPath_at [OF path] by blast
      define f where "f = (\<lambda>target :: LayoutNode. let moved = Some (NewLeaf x); stays = map_option NewLeaf (vPane target);
          (a, b) = (if zone = zoneLeft \<or> zone = zoneTop then (moved, stays) else (stays, moved))
        in LayoutNode None dir (1/2) a b (phW target) (phH target) [])"
      have M: "moveLeafBeside n x y zone = Ret (setAtPath out path f)"
        using False dir R True path by (auto simp: moveLeafBeside_def f_def)
      have fl: "mset (Leaves (Some (f lf))) = {#x, y#}" "drawable (Some (f lf))"
        using lf dir by (auto simp: f_def NewLeaf_def zone_dir_def split: dropZone.splits)
      have "mset (Leaves (setAtPath out path f)) + {#y#} = {#x, y#} + mset (remove1 x (Leaves n))"
        using Leaves_setAt [OF path, of f] lf mset_replace_first [OF yo, of "Leaves (Some (f lf))"] O True fl by simp
      then have "mset (Leaves (setAtPath out path f)) = add_mset x (mset (Leaves n) - {#x#})" by simp
      moreover have "x \<in> set (Leaves n)" using O True by simp
      moreover have "drawable (setAtPath out path f)" by (rule drawable_setAt [where f = f, OF lf(1) _ fl(2)]) (use O in simp)
      ultimately show ?thesis unfolding M by auto
    qed
  qed
  then show "moveLeafBeside n x y zone \<noteq> Panic"
    "moveLeafBeside n x y zone = Ret (Some t) \<Longrightarrow> drawable (Some t) \<and> mset (Leaves (Some t)) = mset (Leaves n)"
    by auto
qed

text \<open>A swap, by the positions of the two panes.\<close>

fun pos_of :: "LayoutNode option \<Rightarrow> bool list \<Rightarrow> nat" where
  "pos_of (Some n) (b # path) = (if b then length (Leaves (vLeft n)) + pos_of (vRight n) path else pos_of (vLeft n) path)"
| "pos_of _ _ = 0"

definition pane_at :: "LayoutNode option \<Rightarrow> bool list \<Rightarrow> bool" where
  "pane_at n path \<longleftrightarrow> (case atPath n path of Some lf \<Rightarrow> vPane lf \<noteq> None | None \<Rightarrow> False)"

lemma set_pane_at:
  "drawable n \<Longrightarrow> pane_at n path \<Longrightarrow> pos_of n path < length (Leaves n)
    \<and> Leaves (setAtPath n path (set_pane i)) = (Leaves n)[pos_of n path := i] \<and> drawable (setAtPath n path (set_pane i))"
proof (induction n path "set_pane i" rule: setAtPath.induct)
  case (1 path)
  then show ?case by simp
next
  case (2 n)
  then show ?case by (cases n) (auto simp: pane_at_def split: if_splits)
next
  case (3 p s r l rt w h ty b path)
  have p: "p = None" "l \<noteq> None" "rt \<noteq> None" and d: "drawable l" "drawable rt" "s = Horizontal \<or> s = Vertical" "0 \<le> r" "r \<le> 1"
    using 3(3,4) by (cases l; cases rt; auto simp: pane_at_def split: if_splits)+
  show ?case
  proof (cases b)
    case True
    then show ?thesis using 3(1) [OF True d(2)] 3(4) p d by (auto simp: pane_at_def list_update_append)
  next
    case False
    then show ?thesis using 3(2) [OF False d(1)] 3(4) p d by (auto simp: pane_at_def list_update_append)
  qed
qed

lemma set_pane_other:
  "drawable n \<Longrightarrow> pane_at n a \<Longrightarrow> pane_at n b \<Longrightarrow> pane_at (setAtPath n a (set_pane i)) b \<and> pos_of (setAtPath n a (set_pane i)) b = pos_of n b"
proof (induction n a "set_pane i" arbitrary: b rule: setAtPath.induct)
  case (2 n)
  then show ?case by (cases n; cases b) (auto simp: pane_at_def split: if_splits)
next
  case (3 p s r l rt w h ty c path)
  have p: "p = None" and d: "drawable l" "drawable rt"
    using 3(3,4) by (cases l; cases rt; auto simp: pane_at_def split: if_splits)+
  show ?case
  proof (cases b)
    case Nil
    then show ?thesis using 3(5) p by (simp add: pane_at_def)
  next
    case (Cons e bs)
    have len: "length (Leaves (setAtPath l path (set_pane i))) = length (Leaves l)" if "pane_at l path"
      using set_pane_at [OF d(1) that] by simp
    show ?thesis using 3(1) [of bs] 3(2) [of bs] 3(4,5) d Cons p len by (cases c; cases e) (auto simp: pane_at_def)
  qed
qed (simp add: pane_at_def)

lemma leafPath_pos: "leafPath n i = Some path \<Longrightarrow> Leaves n ! pos_of n path = i"
proof (induction n i arbitrary: path rule: leafPath.induct)
  case (2 p s r l rt w h ty i)
  show ?case
  proof (cases p)
    case None
    show ?thesis
    proof (cases "leafPath l i")
      case (Some pl)
      then have "path = False # pl" using 2(3) None by simp
      moreover have "pos_of l pl < length (Leaves l)"
      proof -
        have "i \<in> set (Leaves l)" using Some leafPath_Leaves [of l i] by simp
        moreover have "pos_of m q < length (Leaves m)" if "leafPath m i = Some q" for m q
          using that by (induction m i arbitrary: q rule: leafPath.induct) (auto split: option.splits if_splits)
        ultimately show ?thesis using Some by blast
      qed
      ultimately show ?thesis using 2(1) [OF None Some] None by (simp add: nth_append)
    next
      case l: None
      then obtain pr where "leafPath rt i = Some pr" "path = True # pr" using 2(3) None by auto
      then show ?thesis using 2(2) [OF None l] None by (simp add: nth_append)
    qed
  qed (use 2(3) in \<open>auto split: if_splits\<close>)
qed simp

lemma swap_ok:
  assumes "drawable n" "swapLeaves n x y = Some t"
  shows "drawable (Some t) \<and> mset (Leaves (Some t)) = mset (Leaves n)"
proof -
  obtain a b where ab: "leafPath n x = Some a" "leafPath n y = Some b"
      and t: "Some t = setAtPath (setAtPath n a (set_pane y)) b (set_pane x)"
    using assms(2) by (auto simp: swapLeaves_def Let_def split: option.splits if_splits)
  have pa: "pane_at n a" "pane_at n b" using leafPath_at [OF ab(1)] leafPath_at [OF ab(2)] by (auto simp: pane_at_def)
  note A = set_pane_at [OF assms(1) pa(1), of y]
  note B = set_pane_other [OF assms(1) pa, of y]
  note C = set_pane_at [of "setAtPath n a (set_pane y)" b x]
  have x: "Leaves n ! pos_of n a = x" "Leaves n ! pos_of n b = y" using leafPath_pos ab by blast+
  have lt: "pos_of n b < length (Leaves n)" using set_pane_at [OF assms(1) pa(2)] by blast
  have "Leaves (Some t) = (Leaves n)[pos_of n a := Leaves n ! pos_of n b, pos_of n b := Leaves n ! pos_of n a]"
    using A B C t x by simp
  then have "mset (Leaves (Some t)) = mset (Leaves n)" using mset_swap [of "pos_of n b" "Leaves n" "pos_of n a"] A lt by simp
  then show ?thesis using A B C t by simp
qed

section \<open>The arranged tab\<close>

text \<open>Sizing only records the cells of placeholders.\<close>

lemma resize_keeps:
  "(fst (resizeNode pv n w h f cw ch) = None \<longleftrightarrow> n = None) \<and> Leaves (fst (resizeNode pv n w h f cw ch)) = Leaves n
    \<and> (drawable (fst (resizeNode pv n w h f cw ch)) \<longleftrightarrow> drawable n)
    \<and> (\<forall>ox oy W H. CollectRects (fst (resizeNode pv n w h f cw ch)) ox oy W H = CollectRects n ox oy W H)"
proof (induction n arbitrary: w h f rule: SerializeLayout.induct)
  case (2 p s r l rt pw ph ty)
  show ?case
  proof (cases p)
    case (Some q)
    then show ?thesis by (simp add: Let_def)
  next
    case None
    have split: "fst (case x of (l', a) \<Rightarrow> case y of (rt', b) \<Rightarrow> (g l' rt', a @ b)) = g (fst x) (fst y)"
      for g and x y :: "LayoutNode option \<times> sized list" by (simp split: prod.split)
    show ?thesis
    proof (cases "l = None \<and> rt = None")
      case True
      then show ?thesis using None by simp
    next
      case False
      then show ?thesis using 2 [OF None] None by (auto simp: split Let_def)
    qed
  qed
qed simp

lemma CollectRects_panes: "drawable n \<Longrightarrow> map pr_Pane (CollectRects n ox oy w h) = Leaves n"
proof (induction n arbitrary: ox oy w h rule: Leaves.induct)
  case (2 p s r l rt pw ph ty)
  then show ?case by (cases p) (auto simp: Let_def split: if_splits)
qed simp

lemma drop_ok:
  assumes "drawable n" "distinct (Leaves n)"
  shows "drop_tree n src dst zone \<noteq> Panic"
    "drop_tree n src dst zone = Ret (Some t) \<Longrightarrow> drawable (Some t) \<and> mset (Leaves (Some t)) = mset (Leaves n)"
  using move_ok [OF assms, of src dst zone] swap_ok [OF assms(1), of src dst] by (auto simp: drop_tree_def split: if_splits)

lemma resize_sized:
  "drawable n \<Longrightarrow> q \<in> set (CollectRects n ox oy w h) \<Longrightarrow> minPaneW \<le> pr_W q \<Longrightarrow> minPaneH \<le> pr_H q \<Longrightarrow>
    \<exists>z \<in> set (snd (resizeNode pv n w h f cw ch)). sz_Pane z = pr_Pane q \<and> sz_Width z = pr_W q \<and> sz_Height z = pr_H q"
proof -
  assume a: "q \<in> set (CollectRects n ox oy w h)" "minPaneW \<le> pr_W q" "minPaneH \<le> pr_H q"
  have "map (\<lambda>z. (sz_Pane z, sz_Width z, sz_Height z)) (snd (resizeNode pv n w h f cw ch)) = map clamped (CollectRects n ox oy w h)"
    using resize_sizes [of pv n w h f cw ch] resize_rects [of n w h ox oy] by simp
  then have "clamped q \<in> set (map (\<lambda>z. (sz_Pane z, sz_Width z, sz_Height z)) (snd (resizeNode pv n w h f cw ch)))" using a by simp
  then show ?thesis using a by (auto simp: clamped_def)
qed

text \<open>What the install step leaves when it applies a tree.\<close>

lemma applied:
  assumes ap: "applyTabArrangement pv notes refused busy w h sidebar t n act = Applied t' szs"
    and n: "drawable n" "mset (Leaves n) = mset (tab_Leaves t)"
  shows "fitsMinSize n w h \<and> (\<exists>f. tb_Root t' = fst (resizeNode pv n w h f w h) \<and> set (snd (resizeNode pv n w h f w h)) \<subseteq> set szs)
    \<and> tb_ActivePane t' \<in> set (Leaves n) \<and> (\<forall>p \<in> set (Leaves n). tb_active t' p \<longleftrightarrow> p = tb_ActivePane t')"
proof -
  have guards: "n \<noteq> None" "\<not> notes" "\<not> refused" "\<not> busy" "\<not> length (tab_Leaves t) < 2" "fitsMinSize n w h"
    using ap by (auto simp: applyTabArrangement_def Let_def split: if_splits prod.splits)
  define t1 where "t1 = t\<lparr>tb_active := (\<lambda>p. tb_active t p \<and> p \<notin> set (tab_Leaves t)), tb_Root := n\<rparr>"
  define t2 where "t2 = (case act of Some a \<Rightarrow> if FindLeaf n a \<noteq> None then t1\<lparr>tb_ActivePane := a\<rparr> else t1 | None \<Rightarrow> t1)"
  define t3 where "t3 = (case treeActivePaneModel t2 of Some p \<Rightarrow> t2\<lparr>tb_ActivePane := p, tb_active := (tb_active t2)(p := True)\<rparr> | None \<Rightarrow> t2)"
  define t4 where "t4 = t3\<lparr>tb_focusMode := False, tb_CanvasW := w, tb_CanvasH := h, tb_ChromeW := sidebar\<rparr>"
  have r: "tab_Resize pv t4 w h = (t', szs)"
    using ap guards unfolding applyTabArrangement_def Let_def t4_def t3_def t2_def t1_def by (simp split: prod.splits)
  have same: "set (Leaves n) = set (tab_Leaves t)" using n(2) by (metis mset_eq_setD)
  have lv: "Leaves n \<noteq> []" using n(2) guards(5) by (cases "tab_Leaves t") auto
  have T2: "tb_Root t2 = n" "tb_active t2 = (\<lambda>p. tb_active t p \<and> p \<notin> set (tab_Leaves t))"
    by (auto simp: t2_def t1_def split: option.split)
  obtain p where p: "treeActivePaneModel t2 = Some p" "p \<in> set (Leaves n)"
    using lv T2 by (cases "Leaves n"; cases "tb_ActivePane t2 \<in> set (Leaves n)") (auto simp: treeActivePaneModel_def tab_Leaves_def)
  have T4: "tb_Root t4 = n" "tb_ActivePane t4 = p" "tb_active t4 = (tb_active t2)(p := True)" "\<not> tb_focusMode t4"
      "tb_CanvasW t4 = w" "tb_CanvasH t4 = h"
    using T2 p by (simp_all add: t4_def t3_def)
  obtain n2 zs where R: "resizeNode pv n w h (w + tb_ChromeW t4) w h = (n2, zs)" by fastforce
  have "tb_Root t' = n2" "set zs \<subseteq> set szs" "tb_ActivePane t' = p" "tb_active t' = (tb_active t2)(p := True)"
    using r T4 guards(1) R by (auto simp: tab_Resize_def Let_def)
  then show ?thesis using guards(6) R p T2 same by (auto intro!: exI [of _ "w + tb_ChromeW t4"])
qed


definition grid_tab :: TabModel where
  "grid_tab = \<lparr>tb_Root = sample_view, tb_ActivePane = ''b'', tb_Width = 80, tb_Height = 24, tb_CanvasW = 80, tb_CanvasH = 24,
     tb_ChromeW = 0, tb_focusMode = False, tb_overlayPane = None, tb_overlayVisible = False, tb_active = (\<lambda>p. p = ''b'')\<rparr>"

definition plain_view :: "string \<Rightarrow> pane_view" where
  "plain_view p = \<lparr>pv_follower = False, pv_daemonCols = 0, pv_daemonRows = 0, pv_WideCanvas = False, pv_MinNativeCols = 80\<rparr>"


end
