(* ===== verification/Layout_Refine.thy ===== *)
theory Layout_Refine
  imports Layout_Edits
begin

text \<open>
  The client's tree and the daemon's: what a client stores is the daemon's edit of what the daemon has, what it
  adopts is the stored tree without the panes that are gone, and an installed arrangement keeps the tab.
\<close>

section \<open>The stored form\<close>

text \<open>A tree without placeholders.\<close>

definition settled :: "LayoutNode option \<Rightarrow> bool" where
  "settled n \<longleftrightarrow> drawable n \<and> all_panes n \<and> [] \<notin> set (Leaves n)"

lemma settled_Node: "settled (Some (LayoutNode p s r l rt w h ty)) \<longleftrightarrow>
    (case p of Some q \<Rightarrow> q \<noteq> [] \<and> l = None \<and> rt = None
     | None \<Rightarrow> (s = Horizontal \<or> s = Vertical) \<and> 0 \<le> r \<and> r \<le> 1 \<and> settled l \<and> settled rt)"
  by (cases p; cases l; cases rt) (auto simp: settled_def)

lemma settled_None [simp]: "\<not> settled None"
  by (simp add: settled_def)

lemma settled_induct [consumes 1, case_names leaf node]:
  assumes "settled n"
    and "\<And>q s r w h ty. q \<noteq> [] \<Longrightarrow> P (Some (LayoutNode (Some q) s r None None w h ty))"
    and "\<And>s r l rt w h ty. s = Horizontal \<or> s = Vertical \<Longrightarrow> 0 \<le> r \<Longrightarrow> r \<le> 1 \<Longrightarrow> settled l \<Longrightarrow> settled rt \<Longrightarrow> P l \<Longrightarrow> P rt \<Longrightarrow>
        P (Some (LayoutNode None s r l rt w h ty))"
  shows "P n"
  using assms(1)
proof (induction n rule: Leaves.induct)
  case (2 p s r l rt w h ty)
  then show ?case using assms(2,3) by (cases p) (auto simp: settled_Node)
qed simp

lemma PaneIDs_Serialize: "[] \<notin> set (Leaves n) \<Longrightarrow> PaneIDs (SerializeLayout n) = Leaves n"
  by (induction n rule: Leaves.induct) (auto split: option.splits)

lemma settled_PaneIDs [simp]: "settled n \<Longrightarrow> PaneIDs (SerializeLayout n) = Leaves n"
  by (simp add: PaneIDs_Serialize settled_def)

lemma Serialize_None [simp]: "SerializeLayout n = None \<longleftrightarrow> n = None"
  by (cases n rule: SerializeLayout.cases) (auto split: option.splits)

lemma settled_ne: "settled n \<Longrightarrow> n \<noteq> None"
  by (metis settled_None)

lemma settled_shaped: "settled n \<Longrightarrow> shaped (SerializeLayout n)"
  by (induction n rule: settled_induct) (auto dest: settled_ne)

lemma settled_leaves: "settled n \<Longrightarrow> Leaves n \<noteq> []"
  by (induction n rule: settled_induct) auto

lemma Serialize_promote [simp]: "SerializeLayout (Some (promote sib par)) = SerializeLayout (Some sib)"
  by (cases sib) (simp add: promote_def)

section \<open>Splitting\<close>

text \<open>A write at a pane's place, in both trees.\<close>

lemma Serialize_setAt:
  assumes "settled n" "leafPath n i = Some path"
    and "\<And>lf. vPane lf = Some i \<Longrightarrow> SerializeLayout (Some (g lf)) = Some (f (leaf i))"
  shows "SerializeLayout (setAtPath n path g) = setLeaf (SerializeLayout n) i f"
  using assms(1,2)
proof (induction n arbitrary: path rule: settled_induct)
  case (node s r l rt w h ty)
  show ?case
  proof (cases "leafPath l i")
    case (Some pl)
    then have "i \<in> set (Leaves l)" using leafPath_Leaves [of l i] by simp
    then show ?thesis using node Some by auto
  next
    case None
    then have "i \<notin> set (Leaves l)" using leafPath_Leaves [of l i] by simp
    then show ?thesis using node None by auto
  qed
qed (use assms(3) in \<open>auto split: if_splits\<close>)

lemma split_refines:
  assumes "settled n" "leafPath n i = Some path"
  shows "SerializeLayout (setAtPath n path (split_node dir new)) = fst (SplitLeaf (SerializeLayout n) i dir new)"
proof -
  have i: "i \<in> set (Leaves n)" using leafPath_Leaves [of n i] assms(2) by simp
  have "SerializeLayout (setAtPath n path (split_node dir new))
      = setLeaf (SerializeLayout n) i (\<lambda>_. inner dir (1/2) (Some (leaf i)) (Some (leaf new)))"
    by (rule Serialize_setAt [OF assms]) (simp add: split_node_def inner_def NewLeaf_def)
  then show ?thesis using i assms(1) by (simp add: SplitLeaf_def Let_def findLeaf_case shaped_Clone settled_shaped)
qed

section \<open>Removing\<close>

lemma pruneIf_absent: "settled n \<Longrightarrow> i \<notin> set (Leaves n) \<Longrightarrow> pruneIf (\<lambda>p. p \<noteq> i) (SerializeLayout n) = SerializeLayout n"
  using settled_PaneIDs [of n] by (intro pruneIf_id) (auto simp: settled_shaped shaped_full simp del: settled_PaneIDs)

lemma pruneIf_node: "pruneIf keep (Some (Node [] s r l rt)) =
    (if pruneIf keep l = None then pruneIf keep rt else if pruneIf keep rt = None then pruneIf keep l
     else Some (Node [] s r (pruneIf keep l) (pruneIf keep rt)))"
  by (rule pruneIf_simps)

lemma settled_leaf_of: "settled n \<Longrightarrow> is_leaf_of n i \<Longrightarrow> SerializeLayout n = Some (leaf i) \<and> i \<noteq> [] \<and> Leaves n = [i]"
  by (cases n rule: SerializeLayout.cases) (auto simp: is_leaf_of_def settled_Node)

lemma remove_refines:
  assumes "settled n" "distinct (Leaves n)" "findParentInternal n i = Some (par, b)" "(if b then vRight par else vLeft par) = Some sib"
  shows "SerializeLayout (setParentAt n i (promote sib)) = pruneIf (\<lambda>p. p \<noteq> i) (SerializeLayout n)"
  using assms
proof (induction n rule: settled_induct)
  case (leaf q s r w h ty)
  then show ?case by simp
next
  case (node s r l rt w h ty)
  have ne: "pruneIf (\<lambda>p. p \<noteq> i) (SerializeLayout x) \<noteq> None" if "settled x" "is_inner x" "distinct (Leaves x)" for x
  proof -
    note sx = that
    obtain s' r' l' rt' w' h' ty' where x: "x = Some (LayoutNode None s' r' l' rt' w' h' ty')" using sx(2) by (rule inner_cases)
    then have "settled l'" "settled rt'" using sx(1) by (simp_all add: settled_Node)
    then obtain a b where "a \<in> set (Leaves l')" "b \<in> set (Leaves rt')" using settled_leaves by (metis list.set_intros(1) neq_Nil_conv)
    then have "a \<in> set (Leaves x)" "b \<in> set (Leaves x)" "a \<noteq> b" using sx(3) x by auto
    then have "\<exists>p \<in> set (Leaves x). p \<noteq> i" by metis
    then show ?thesis using sx(1) by (auto simp: pruneIf_eq_None filter_empty_conv)
  qed
  consider (ll) "is_leaf_of l i" | (il) par' b' where "\<not> is_leaf_of l i" "is_inner l" "findParentInternal l i = Some (par', b')"
    | (lr) "\<not> is_leaf_of l i" "is_inner l \<longrightarrow> findParentInternal l i = None" "is_leaf_of rt i"
    | (ir) "\<not> is_leaf_of l i" "is_inner l \<longrightarrow> findParentInternal l i = None" "\<not> is_leaf_of rt i"
    by (cases "findParentInternal l i") auto
  then show ?case
  proof cases
    case ll
    note L = settled_leaf_of [OF node(4) ll]
    have "i \<notin> set (Leaves rt)" using node(8) L by simp
    then show ?thesis using ll node L pruneIf_absent [of rt i] by (auto simp: pruneIf_simps)
  next
    case il
    have sp: "par' = par" "b' = b" using il node(9) by simp_all
    have i: "i \<in> set (Leaves l)" using removes_inner [of l i] il node(4) by (auto simp: removes_def settled_def)
    have "i \<notin> set (Leaves rt)" using node(8) i by auto
    then have R: "pruneIf (\<lambda>p. p \<noteq> i) (SerializeLayout rt) = SerializeLayout rt" "rt \<noteq> None"
      using pruneIf_absent [OF node(5)] settled_ne [OF node(5)] by auto
    have "SerializeLayout (setParentAt l i (promote sib)) = pruneIf (\<lambda>p. p \<noteq> i) (SerializeLayout l)"
      using node(6,8) il sp node(10) by auto
    then show ?thesis using il R ne [OF node(4) il(2)] node(8) by (auto simp: pruneIf_node)
  next
    case lr
    note L = settled_leaf_of [OF node(5) lr(3)]
    have nl: "i \<notin> set (Leaves l)" using node(8) L by simp
    have "par = LayoutNode None s r l rt w h ty" "b = False" using lr node(9) by (auto split: option.splits if_splits)
    then show ?thesis using lr node(10) L pruneIf_absent [OF node(4) nl] node(4)
      by (auto simp: pruneIf_simps split: option.split)
  next
    case ir
    have inr: "is_inner rt" "findParentInternal rt i = Some (par, b)" using ir node(9) by (auto split: option.splits if_splits)
    have i: "i \<in> set (Leaves rt)" using removes_inner [of rt i] inr node(5) by (auto simp: removes_def settled_def)
    have "i \<notin> set (Leaves l)" using node(8) i by auto
    then have L: "pruneIf (\<lambda>p. p \<noteq> i) (SerializeLayout l) = SerializeLayout l" "l \<noteq> None"
      using pruneIf_absent [OF node(4)] settled_ne [OF node(4)] by auto
    have "SerializeLayout (setParentAt rt i (promote sib)) = pruneIf (\<lambda>p. p \<noteq> i) (SerializeLayout rt)"
      using node(7,8) inr node(10) by auto
    then show ?thesis using ir inr L ne [OF node(5) inr(1)] node(8) by (auto simp: pruneIf_node)
  qed
qed

section \<open>Placing an arrival\<close>

lemma Serialize_setLast:
  assumes "settled n" "distinct (Leaves n)" "leafPath n (last (Leaves n)) = Some path"
    and "\<And>lf. vPane lf = Some (last (Leaves n)) \<Longrightarrow> SerializeLayout (Some (g lf)) = Some (f (leaf (last (Leaves n))))"
  shows "SerializeLayout (setAtPath n path g) = setLast (SerializeLayout n) f"
  using assms
proof (induction n arbitrary: path rule: settled_induct)
  case (node s r l rt w h ty)
  have rt: "Leaves rt \<noteq> []" using node settled_leaves by blast
  then have "last (Leaves rt) \<notin> set (Leaves l)" using node(8) by auto
  then have "leafPath l (last (Leaves rt)) = None" using leafPath_Leaves [of l "last (Leaves rt)"] by simp
  then obtain pr where "leafPath rt (last (Leaves rt)) = Some pr" "path = True # pr" using node(9) rt by auto
  moreover have "lastLeaf (SerializeLayout rt) None None \<noteq> None" using rt node(5) by (simp add: lastLeaf_None)
  ultimately show ?case using node(7) [of pr] node(8,10) rt by simp
qed auto

text \<open>The parent the two walks see.\<close>

definition same_parent :: "node option \<Rightarrow> SplitDir \<times> bool \<Rightarrow> bool" where
  "same_parent q v \<longleftrightarrow> (case q of None \<Rightarrow> \<not> snd v | Some m \<Rightarrow> snd v \<and> Split m = Some (fst v))"

lemma same_walk:
  assumes "settled n" "case par of None \<Rightarrow> q = None | Some d \<Rightarrow> \<exists>m. q = Some m \<and> Split m = Some d"
  shows "\<exists>lst q'. lastLeaf (SerializeLayout n) q acc = Some (lst, q') \<and> same_parent q' (snd (spiralWalk n par acc'))"
  using assms
proof (induction n arbitrary: par q acc acc' rule: settled_induct)
  case (leaf p s r w h ty)
  then show ?case by (auto simp: same_parent_def split: option.splits)
next
  case (node s r l rt w h ty)
  then show ?case by simp
qed

lemma place_refines:
  assumes "settled (tb_Root t)" "distinct (tab_Leaves t)" "pane \<notin> set (tab_Leaves t)"
    and "\<forall>q \<in> set (CollectRects (tb_Root t) 0 0 w h). 20 \<le> pr_W q \<and> 8 \<le> pr_H q \<and> pr_W q < 2 ^ 53 \<and> pr_H q < 2 ^ 53"
    and rects: "map pr_Pane (CollectRects (tb_Root t) 0 0 w h) = Leaves (tb_Root t)"
  shows "\<exists>t'. placeArrivingPane t pane w h = (t', True) \<and> SerializeLayout (tb_Root t') = PlaceMoved (SerializeLayout (tb_Root t)) pane
    \<and> tab_Leaves t' = tab_Leaves t @ [pane]"
proof -
  let ?n = "tb_Root t" let ?q = "last (Leaves (tb_Root t))"
  have d: "distinct (Leaves ?n)" "pane \<notin> set (Leaves ?n)" using assms(2,3) by (simp_all add: tab_Leaves_def)
  have ne: "Leaves ?n \<noteq> []" "?n \<noteq> None" using settled_leaves [OF assms(1)] settled_ne [OF assms(1)] by auto
  obtain lf ps hp where sl: "spiralLeaf ?n = (Some lf, ps, hp)" "vPane lf = Some ?q"
    using spiralWalk_leaf [of ?n None "(None, 0, False)"] ne by (cases "spiralLeaf ?n") (auto simp: spiralLeaf_def)
  obtain path where path: "leafPath ?n ?q = Some path" using leafPath_Leaves [of ?n ?q] ne by auto
  have "?q \<in> pr_Pane ` set (CollectRects ?n 0 0 w h)"
    using ne rects last_in_set [OF ne(1)] by (metis list.set_map)
  then obtain r where r: "find (\<lambda>r. pr_Pane r = ?q) (CollectRects ?n 0 0 w h) = Some r" "r \<in> set (CollectRects ?n 0 0 w h)"
    by (cases "find (\<lambda>r. pr_Pane r = ?q) (CollectRects ?n 0 0 w h)") (auto simp: find_None_iff find_Some_iff)
  let ?dir = "spiralSplitDir ps hp"
  have big: "20 \<le> pr_W r" "8 \<le> pr_H r" "pr_W r < 2 ^ 53" "pr_H r < 2 ^ 53" using assms(4) r(2) by auto
  have a: "arrivalSplitDir ?dir (pr_W r) (pr_H r) = ?dir"
  proof -
    have "10 \<le> pr_W r div 2" "10 \<le> pr_W r - pr_W r div 2" "4 \<le> pr_H r div 2" "4 \<le> pr_H r - pr_H r div 2" using big by linarith+
    then have "halvesFit (pr_W r) minPaneW" "halvesFit (pr_H r) minPaneH" using big by (simp_all add: halvesFit_def Let_def share_half)
    then show ?thesis by (simp add: arrivalSplitDir_def Let_def)
  qed
  obtain n' ph where sp: "splitLeaf_view ?n ?q ?dir = (n', ph)" by fastforce
  note S = split_fill [OF path sp, of pane]
  have P: "placeArrivingPane t pane w h = (t\<lparr>tb_Root := setAtPath ?n path (split_node ?dir pane)\<rparr>, True)"
    using ne sl r(1) a sp S by (simp add: placeArrivingPane_def spiralSlot_def SplitAtPane_def)
  obtain lst q' where L: "lastLeaf (SerializeLayout ?n) None None = Some (lst, q')" "same_parent q' (ps, hp)"
    using same_walk [OF assms(1), of None None None "(None, 0, False)"] sl(1) by (auto simp: spiralLeaf_def)
  have dir: "(case q' of None \<Rightarrow> Horizontal | Some m \<Rightarrow> if Split m = Some Horizontal then Vertical else Horizontal) = ?dir"
    using L(2) by (auto simp: same_parent_def spiralSplitDir_def split: option.splits)
  have "SerializeLayout (setAtPath ?n path (split_node ?dir pane))
      = setLast (SerializeLayout ?n) (\<lambda>m. inner ?dir (1/2) (Some (leaf (PaneID m))) (Some (leaf pane)))"
    by (rule Serialize_setLast [OF assms(1) d(1) path]) (simp add: split_node_def inner_def NewLeaf_def)
  also have "\<dots> = PlaceMoved (SerializeLayout ?n) pane"
    using L(1) dir d(2) ne assms(1) by (simp add: PlaceMoved_def Let_def shaped_Clone settled_shaped Contains_iff)
  finally have "SerializeLayout (setAtPath ?n path (split_node ?dir pane)) = PlaceMoved (SerializeLayout ?n) pane" .
  moreover have "Leaves (setAtPath ?n path (split_node ?dir pane)) = Leaves ?n @ [pane]"
    using split_node_leaves [OF path] replace_first_last [OF d(1) ne(1)] by simp
  ultimately show ?thesis unfolding P by (simp add: tab_Leaves_def)
qed

section \<open>Sending and adopting\<close>

text \<open>A tree pruned of its placeholders is what is sent; a tree of placeholders only prunes to one.\<close>

lemma under_None [simp]: "under b None = None"
  by (simp add: under_def)

lemma bare_placeholder: "is_placeholder n \<Longrightarrow> drawable n \<Longrightarrow> \<exists>s r w h ty. n = Some (LayoutNode None s r None None w h ty)"
proof (cases n)
  case (Some m)
  then show "is_placeholder n \<Longrightarrow> drawable n \<Longrightarrow> \<exists>s r w h ty. n = Some (LayoutNode None s r None None w h ty)"
    by (cases m) (auto simp: is_placeholder_def split: if_splits)
qed (simp add: is_placeholder_def)

lemma settled_no_placeholder: "settled n \<Longrightarrow> \<not> is_placeholder n"
  by (induction n rule: settled_induct) (auto simp: is_placeholder_def dest: settled_ne)

lemma settled_parts: "settled n \<Longrightarrow> \<exists>b. n = Some b \<and>
    settled (Some (LayoutNode (vPane b) (vSplit b) (vRatio b) (vLeft b) (vRight b) w h ty))
    \<and> SerializeLayout (Some (LayoutNode (vPane b) (vSplit b) (vRatio b) (vLeft b) (vRight b) w h ty)) = SerializeLayout n
    \<and> Leaves (Some (LayoutNode (vPane b) (vSplit b) (vRatio b) (vLeft b) (vRight b) w h ty)) = Leaves n"
  by (cases n rule: Leaves.cases) (auto simp: settled_Node split: option.split)

definition pruned :: "LayoutNode option \<Rightarrow> LayoutNode option \<Rightarrow> node option \<Rightarrow> bool" where
  "pruned n n' s \<longleftrightarrow> Leaves n' = Leaves n \<and> drawable n'
    \<and> (if Leaves n = [] then is_placeholder n' \<and> s = None else settled n' \<and> s = SerializeLayout n')"

lemma prune_send:
  "drawable n \<Longrightarrow> [] \<notin> set (Leaves n) \<Longrightarrow> \<exists>n' b. PrunePlaceholders n = Ret (n', b) \<and> pruned n n' (serializeForSend n None k)"
proof (induction n rule: Leaves.induct)
  case (2 p s r l rt w h ty)
  show ?case
  proof (cases p)
    case (Some q)
    then show ?thesis using "2.prems" by (auto simp: pruned_def settled_Node split: if_splits)
  next
    case None
    note IH = "2.IH" [OF None]
    show ?thesis
    proof (cases "l = None \<and> rt = None")
      case True
      then show ?thesis using None by (simp add: pruned_def is_placeholder_def) blast
    next
      case False
      then have d: "drawable l" "drawable rt" "s = Horizontal \<or> s = Vertical" "0 \<le> r" "r \<le> 1" "[] \<notin> set (Leaves l)" "[] \<notin> set (Leaves rt)"
        using "2.prems" None by auto
      obtain l' b1 where l: "PrunePlaceholders l = Ret (l', b1)" "pruned l l' (serializeForSend l None k)" using IH(1) d by blast
      obtain r' b2 where r: "PrunePlaceholders rt = Ret (r', b2)" "pruned rt r' (serializeForSend rt None k)" using IH(2) d by blast
      consider (none) "Leaves l = []" "Leaves rt = []" | (right) "Leaves l = []" "Leaves rt \<noteq> []"
        | (left) "Leaves l \<noteq> []" "Leaves rt = []" | (both) "Leaves l \<noteq> []" "Leaves rt \<noteq> []" by blast
      then show ?thesis
      proof cases
        case none
        obtain s' r'' w' h' ty' where ph: "r' = Some (LayoutNode None s' r'' None None w' h' ty')"
          using bare_placeholder [of r'] r(2) none by (auto simp: pruned_def)
        have "is_placeholder l'" using l none by (simp add: pruned_def)
        then show ?thesis using l r none None False ph by (auto simp: pruned_def is_placeholder_def)
      next
        case right
        have s: "settled r'" "is_placeholder l'" using l r right by (simp_all add: pruned_def)
        obtain b where b: "r' = Some b" using settled_ne [OF s(1)] by auto
        have rs: "Leaves r' = Leaves rt" "serializeForSend rt None k = SerializeLayout r'" "serializeForSend l None k = None"
          using r l right by (simp_all add: pruned_def)
        define m where "m = Some (LayoutNode (vPane b) (vSplit b) (vRatio b) (vLeft b) (vRight b) w h ty)"
        have m: "settled m" "SerializeLayout m = SerializeLayout r'" "Leaves m = Leaves r'"
          using settled_parts [OF s(1), of w h ty] b by (auto simp: m_def)
        have "PrunePlaceholders (Some (LayoutNode p s r l rt w h ty)) = Ret (m, True)" using None l r s b by (simp add: m_def)
        moreover have "serializeForSend (Some (LayoutNode p s r l rt w h ty)) None k = SerializeLayout m"
          using None False rs m by auto
        ultimately show ?thesis using m rs right None by (auto simp: pruned_def settled_def)
      next
        case left
        have s: "settled l'" "is_placeholder r'" "\<not> is_placeholder l'" using l r left settled_no_placeholder by (simp_all add: pruned_def)
        obtain b where b: "l' = Some b" using settled_ne [OF s(1)] by auto
        have rs: "Leaves l' = Leaves l" "serializeForSend l None k = SerializeLayout l'" "serializeForSend rt None k = None"
          using r l left by (simp_all add: pruned_def)
        define m where "m = Some (LayoutNode (vPane b) (vSplit b) (vRatio b) (vLeft b) (vRight b) w h ty)"
        have m: "settled m" "SerializeLayout m = SerializeLayout l'" "Leaves m = Leaves l'"
          using settled_parts [OF s(1), of w h ty] b by (auto simp: m_def)
        have "PrunePlaceholders (Some (LayoutNode p s r l rt w h ty)) = Ret (m, True)" using None l r s b by (simp add: m_def)
        moreover have "serializeForSend (Some (LayoutNode p s r l rt w h ty)) None k = SerializeLayout m"
          using None False rs m by (auto split: option.split)
        ultimately show ?thesis using m rs left None by (auto simp: pruned_def settled_def)
      next
        case both
        have s: "settled l'" "settled r'" "\<not> is_placeholder l'" "\<not> is_placeholder r'"
          using l r both settled_no_placeholder by (auto simp: pruned_def)
        have rs: "Leaves l' = Leaves l" "Leaves r' = Leaves rt" "serializeForSend l None k = SerializeLayout l'" "serializeForSend rt None k = SerializeLayout r'"
          using r l both by (simp_all add: pruned_def)
        have sne: "SerializeLayout l' \<noteq> None" "SerializeLayout r' \<noteq> None" using settled_ne s by auto
        have "settled (Some (LayoutNode None s r l' r' w h ty))" using s d by (simp add: settled_Node)
        then show ?thesis using None l r s both False rs sne by (auto simp: pruned_def settled_def split: option.splits)
      qed
    qed
  qed
qed simp

text \<open>The tree built from a stored one.\<close>

fun unit_ratios :: "node option \<Rightarrow> bool" where
  "unit_ratios None \<longleftrightarrow> True"
| "unit_ratios (Some (Node p s r l rt)) \<longleftrightarrow> p \<noteq> [] \<or> (0 \<le> r \<and> r \<le> 1 \<and> unit_ratios l \<and> unit_ratios rt)"

lemma valid_unit: "valid_tree s \<Longrightarrow> shaped s \<and> unit_ratios s"
proof -
  have "ratios_ok s \<Longrightarrow> unit_ratios s" by (induction s rule: node_induct) auto
  then show "valid_tree s \<Longrightarrow> shaped s \<and> unit_ratios s" by (simp add: valid_tree_def)
qed

lemma Deserialize_built:
  "shaped s \<Longrightarrow> unit_ratios s \<Longrightarrow> s \<noteq> None \<Longrightarrow> drawable (DeserializeLayout s panes)
    \<and> Leaves (DeserializeLayout s panes) = filter panes (PaneIDs s)
    \<and> serializeForSend (DeserializeLayout s panes) None k = pruneIf panes s"
proof (induction s rule: node_induct)
  case (2 p s r l rt)
  show ?case
  proof (cases "p = []")
    case True
    have ne: "DeserializeLayout x panes = None \<longleftrightarrow> x = None" for x by (cases x rule: Clone.cases) auto
    have IH: "drawable (DeserializeLayout l panes)" "drawable (DeserializeLayout rt panes)"
      "Leaves (DeserializeLayout l panes) = filter panes (PaneIDs l)" "Leaves (DeserializeLayout rt panes) = filter panes (PaneIDs rt)"
      "serializeForSend (DeserializeLayout l panes) None k = pruneIf panes l" "serializeForSend (DeserializeLayout rt panes) None k = pruneIf panes rt"
      using 2 True by auto
    then show ?thesis using True 2(3,4) ne by (auto simp: pruneIf_simps split: option.splits)
  next
    case False
    then show ?thesis using 2(3) by (auto simp: pruneIf_simps NewLeaf_def new_placeholder_def)
  qed
qed simp

lemma sent_unit: "settled n \<Longrightarrow> unit_ratios (SerializeLayout n)"
  by (induction n rule: settled_induct) auto

lemma adopted:
  assumes "shaped s" "unit_ratios s" "filter panes (PaneIDs s) \<noteq> []"
  shows "\<exists>n b. PrunePlaceholders (DeserializeLayout s panes) = Ret (n, b) \<and> settled n \<and> SerializeLayout n = pruneIf panes s"
proof -
  have s: "s \<noteq> None" using assms(3) by (cases s) auto
  note D = Deserialize_built [OF assms(1,2) s]
  have "[] \<notin> set (Leaves (DeserializeLayout s panes))" using D [of panes] by auto
  then show ?thesis using prune_send [of "DeserializeLayout s panes" "[]"] D assms(3) by (auto simp: pruned_def)
qed

text \<open>C35. A client's tree reaches every other client. What a client sends of a tree, placeholders and all, names the
  tree's panes in order and is well shaped; a client that adopts it draws exactly the stored tree without
  the panes it does not know, and the whole of it when it knows them all.\<close>

theorem sent_layout_adopted:
  assumes "drawable n" "[] \<notin> set (Leaves n)" "Leaves n \<noteq> []"
  shows "\<exists>s. serializeForSend n None keepID = Some s \<and> PaneIDs (Some s) = Leaves n \<and> shaped (Some s)
    \<and> (\<forall>panes. filter panes (Leaves n) \<noteq> [] \<longrightarrow> (\<exists>n2 b. PrunePlaceholders (DeserializeLayout (Some s) panes) = Ret (n2, b)
        \<and> settled n2 \<and> SerializeLayout n2 = pruneIf panes (Some s) \<and> Leaves n2 = filter panes (Leaves n)))
    \<and> (\<forall>panes. (\<forall>p \<in> set (Leaves n). panes p) \<longrightarrow> pruneIf panes (Some s) = Some s)"
proof -
  obtain n' b where n': "PrunePlaceholders n = Ret (n', b)" "pruned n n' (serializeForSend n None keepID)"
    using prune_send [OF assms(1,2)] by blast
  then have s: "settled n'" "Leaves n' = Leaves n" "serializeForSend n None keepID = SerializeLayout n'"
    using assms(3) by (auto simp: pruned_def)
  obtain s where s2: "SerializeLayout n' = Some s" using settled_ne [OF s(1)] by (cases "SerializeLayout n'") auto
  have ids: "PaneIDs (Some s) = Leaves n" using settled_PaneIDs [OF s(1)] s(2) s2 by simp
  have sh: "shaped (Some s)" using settled_shaped [OF s(1)] s2 by simp
  have un: "unit_ratios (Some s)" using sent_unit [OF s(1)] s2 by simp
  have "\<exists>n2 b. PrunePlaceholders (DeserializeLayout (Some s) panes) = Ret (n2, b)
        \<and> settled n2 \<and> SerializeLayout n2 = pruneIf panes (Some s) \<and> Leaves n2 = filter panes (Leaves n)"
    if "filter panes (Leaves n) \<noteq> []" for panes
    using adopted [OF sh un, of panes] that ids settled_PaneIDs by (metis PaneIDs_pruneIf)
  moreover have "pruneIf panes (Some s) = Some s" if "\<forall>p \<in> set (Leaves n). panes p" for panes
    by (rule pruneIf_id) (use shaped_full [OF sh] ids that in auto)
  ultimately show ?thesis using s(3) s2 ids sh by auto
qed

theorem sent_layout_adopted_witness: "\<exists>s. serializeForSend sample_view None [] = Some s \<and> PaneIDs (Some s) = [''a'', ''b'', ''c'']"
proof -
  have "Leaves sample_view = [''a'', ''b'', ''c'']" by (simp add: sample_view_def NewLeaf_def)
  then show ?thesis using sent_layout_adopted [OF sample_view_ok(1), of "[]"] by force
qed


definition sample_tab :: TabModel where
  "sample_tab = \<lparr>tb_Root = sample_view, tb_ActivePane = ''a'', tb_Width = 80, tb_Height = 40, tb_CanvasW = 80, tb_CanvasH = 40,
     tb_ChromeW = 0, tb_focusMode = False, tb_overlayPane = None, tb_overlayVisible = False, tb_active = (\<lambda>p. p = ''a'')\<rparr>"


text \<open>The report of the prune speaks for the top node only: below it a placeholder goes unreported.\<close>

lemma prune_misreports:
  "\<exists>n'. PrunePlaceholders (Some (LayoutNode None Horizontal (1/2) (Some (NewLeaf ''a''))
       (Some (LayoutNode None Vertical (1/2) (Some (NewLeaf ''b'')) (Some new_placeholder) 0 0 [])) 0 0 [])) = Ret (n', False)
     \<and> Leaves n' = [''a'', ''b''] \<and> n' = Some (LayoutNode None Horizontal (1/2) (Some (NewLeaf ''a'')) (Some (NewLeaf ''b'')) 0 0 [])"
  by (simp add: NewLeaf_def new_placeholder_def is_placeholder_def)

end
