(* ===== verification/Layout_Sync.thy ===== *)
theory Layout_Sync
  imports Layout_Refine Session_Layout
begin

text \<open>
  Several clients on one tab (\<open>internal/tui/layoutsync.go\<close>): revisions, writes in flight, adoption of the
  stored tree, and a client's own reservation in it. A pointer to a placeholder is its place in the
  tree; one that is no longer in the tree is \<open>Some None\<close>. Sets of ids are lists; revisions are \<open>nat\<close> (the code's 64 bits wrap after 2^64 stored writes). The drag that adoption
  ends and the fresh pane models it builds are left out but for their ids.
\<close>

record layout_tab =
  lt_tab :: TabModel
  templateLayoutPending :: bool
  layoutRev :: nat
  layoutDirty :: bool
  layoutSent :: "node option"
  layoutResend :: bool
  adoptNext :: bool
  awaitingPanes :: "string list"
  awaitingGone :: "string list"
  reserveSibling :: string
  reserveDir :: SplitDir
  reserveReplace :: bool
  pendingSplit :: "bool list option option"
  worktreeReplaced :: "string option"
  replaceHeld :: "string option"
  worktreeCreates :: bool
  closeRequested :: "string list"

abbreviation lt_Root :: "layout_tab \<Rightarrow> LayoutNode option" where
  "lt_Root lt \<equiv> tb_Root (lt_tab lt)"

definition set_Root :: "LayoutNode option \<Rightarrow> layout_tab \<Rightarrow> layout_tab" where
  "set_Root n lt = lt\<lparr>lt_tab := (lt_tab lt)\<lparr>tb_Root := n\<rparr>\<rparr>"

definition noteReservation :: "string \<Rightarrow> SplitDir \<Rightarrow> bool \<Rightarrow> layout_tab \<Rightarrow> layout_tab" where
  "noteReservation sibling dir replace lt = lt\<lparr>reserveSibling := sibling, reserveDir := dir, reserveReplace := replace\<rparr>"

definition awaitPane :: "string \<Rightarrow> layout_tab \<Rightarrow> layout_tab" where
  "awaitPane i lt = lt\<lparr>awaitingPanes := List.insert i (awaitingPanes lt)\<rparr>"

definition awaitGone :: "string \<Rightarrow> layout_tab \<Rightarrow> layout_tab" where
  "awaitGone i lt = lt\<lparr>awaitingGone := List.insert i (awaitingGone lt)\<rparr>"

definition clearAwaiting :: "layout_tab \<Rightarrow> layout_tab" where
  "clearAwaiting lt = lt\<lparr>awaitingPanes := [], awaitingGone := []\<rparr>"

definition replaceHeldIn :: "layout_tab \<Rightarrow> string option" where
  "replaceHeldIn lt = (case worktreeReplaced lt of Some held \<Rightarrow> Some held | None \<Rightarrow> replaceHeld lt)"

section \<open>Sending\<close>

definition layoutForSend :: "layout_tab \<Rightarrow> node option" where
  "layoutForSend lt = (case replaceHeldIn lt of None \<Rightarrow> serializeForSend (lt_Root lt) None []
     | Some held \<Rightarrow> serializeForSend (lt_Root lt) (case pendingSplit lt of Some (Some path) \<Rightarrow> Some path | _ \<Rightarrow> None) held)"

text \<open>The write, if one is sent: the tree and the revision it is built on.\<close>

definition markLayoutChanged :: "layout_tab \<Rightarrow> layout_tab \<times> (node \<times> nat) option" where
  "markLayoutChanged lt = (if lt_Root lt = None \<or> templateLayoutPending lt then (lt, None)
     else if layoutDirty lt then (lt\<lparr>layoutResend := True\<rparr>, None)
     else case layoutForSend lt of None \<Rightarrow> (lt, None)
     | Some s \<Rightarrow> (clearAwaiting (lt\<lparr>layoutDirty := True, layoutSent := Some s, layoutResend := False\<rparr>), Some (s, layoutRev lt)))"

definition takeCloseRequest :: "string \<Rightarrow> layout_tab \<Rightarrow> layout_tab \<times> bool" where
  "takeCloseRequest i lt = (if i \<in> set (closeRequested lt) then (lt\<lparr>closeRequested := removeAll i (closeRequested lt)\<rparr>, True) else (lt, False))"

section \<open>Adopting\<close>

definition fillDaemonReplace :: "string \<Rightarrow> layout_tab \<Rightarrow> layout_tab" where
  "fillDaemonReplace paneID lt = (noteReservation [] 0 False (lt\<lparr>pendingSplit := None\<rparr>))
     \<lparr>worktreeCreates := False, worktreeReplaced := None, lt_tab := (lt_tab lt)\<lparr>tb_ActivePane := paneID\<rparr>\<rparr>"

text \<open>A reservation back into an adopted tree; \<open>ty\<close> is its old label, \<open>w\<close> and \<open>h\<close> the tab's canonical size.\<close>

definition reseatReservation :: "layout_tab \<Rightarrow> bool \<Rightarrow> string \<Rightarrow> int \<Rightarrow> int \<Rightarrow> layout_tab" where
  "reseatReservation lt sentinel ty w h =
    (let (t1, ph1) =
       (if sentinel then (case leafPath (lt_Root lt) (reserveSibling lt) of None \<Rightarrow> (lt_tab lt, None)
          | Some path \<Rightarrow> ((lt_tab lt)\<lparr>tb_Root := setAtPath (lt_Root lt) path (\<lambda>n. LayoutNode None (vSplit n) (vRatio n) (vLeft n) (vRight n) (phW n) (phH n) (phType n))\<rparr>, Some path))
        else if \<not> reserveReplace lt \<and> reserveSibling lt \<noteq> [] \<and> FindLeaf (lt_Root lt) (reserveSibling lt) \<noteq> None
          then SplitAtPane (lt_tab lt) (reserveSibling lt) (reserveDir lt)
        else (lt_tab lt, None));
      (t2, ph2) = (if ph1 = None then spiralSlot t1 w h else (t1, ph1));
      (t3, path) = (case ph2 of None \<Rightarrow> (t2\<lparr>tb_Root := Some new_placeholder\<rparr>, []) | Some path \<Rightarrow> (t2, path));
      t4 = t3\<lparr>tb_Root := setAtPath (tb_Root t3) path (\<lambda>n. LayoutNode (vPane n) (vSplit n) (vRatio n) (vLeft n) (vRight n) (phW n) (phH n) ty)\<rparr>
    in lt\<lparr>lt_tab := t4, pendingSplit := Some (Some path)\<rparr>)"

record layout_pass =
  lp_send :: bool
  lp_oldTree :: "string list"
  lp_created :: "string list"
  lp_moved :: "string list"
  lp_reseated :: bool

text \<open>The loop over the ids of the stored tree: what becomes of each. \<open>acc\<close> holds the tab and the lists of panes, created,
  moved and gone ids, and whether a close of this client's user is still in the stored tree.\<close>

type_synonym adopt_acc = "layout_tab \<times> string list \<times> string list \<times> string list \<times> string list \<times> bool"

definition adopt_id :: "(string \<Rightarrow> bool) \<Rightarrow> (string \<Rightarrow> bool) \<Rightarrow> string list \<Rightarrow> string option \<Rightarrow> string \<Rightarrow> adopt_acc \<Rightarrow> adopt_acc" where
  "adopt_id paneSet existing prev held i acc = (case acc of (lt, panes, created, moved, gone, send) \<Rightarrow>
     if \<not> paneSet i then (case takeCloseRequest i lt of (lt', True) \<Rightarrow> (lt', panes, created, moved, gone, True)
       | (lt', False) \<Rightarrow> (lt', panes, created, moved, gone @ [i], send))
     else if existing i then (lt, panes @ [i], created, if i \<in> set prev then moved else moved @ [i], gone, send)
     else if held = Some i then acc
     else (lt, panes @ [i], created @ [i], moved, gone, send))"

definition adoptTabLayout :: "layout_tab \<Rightarrow> node option \<Rightarrow> (string \<Rightarrow> bool) \<Rightarrow> (string \<Rightarrow> bool) \<Rightarrow> (string \<Rightarrow> bool) \<Rightarrow> int \<Rightarrow> int
    \<Rightarrow> (layout_tab \<times> layout_pass) outcome" where
  "adoptTabLayout lt0 stored paneSet live existing w h =
    (let prev = Leaves (lt_Root lt0);
         focus = tb_focusMode (lt_tab lt0) \<and> \<not> (tb_ActivePane (lt_tab lt0) \<in> set prev \<and> live (tb_ActivePane (lt_tab lt0)) \<and> \<not> paneSet (tb_ActivePane (lt_tab lt0)));
         lt1 = lt0\<lparr>lt_tab := (lt_tab lt0)\<lparr>tb_focusMode := focus\<rparr>\<rparr>;
         ids = remdups (serializedIDs stored);
         (lt2, panes, created, moved, gone, send) = fold (adopt_id paneSet existing prev (replaceHeldIn lt1)) ids (lt1, [], [], [], [], False);
         lt3 = (if pendingSplit lt2 = Some None then noteReservation [] 0 False (lt2\<lparr>pendingSplit := None\<rparr>) else lt2);
         replaced = (pendingSplit lt3 \<noteq> None \<and> reserveReplace lt3 \<and> reserveSibling lt3 \<noteq> [] \<and> \<not> paneSet (reserveSibling lt3)
           \<and> reserveSibling lt3 \<notin> set ids \<and> length created = 1);
         ph = (if replaced then None else pendingSplit lt3);
         lt4 = (if replaced then fillDaemonReplace (hd created) lt3 else lt3);
         sentinel = (ph \<noteq> None \<and> reserveReplace lt4 \<and> reserveSibling lt4 \<noteq> [] \<and> reserveSibling lt4 \<notin> set panes);
         known = (if sentinel then reserveSibling lt4 # panes else panes);
         ty = (case ph of Some (Some path) \<Rightarrow> (case atPath (lt_Root lt0) path of Some n \<Rightarrow> phType n | None \<Rightarrow> []) | _ \<Rightarrow> [])
     in obind (PrunePlaceholders (DeserializeLayout stored (\<lambda>i. i \<in> set known))) (\<lambda>(n, _).
       let n' = (case n of Some m \<Rightarrow> if vPane m = None \<and> vLeft m = None \<and> vRight m = None then None else n | None \<Rightarrow> None);
           lt5 = fold awaitGone gone (clearAwaiting (set_Root n' lt4));
           lt6 = (if ph \<noteq> None then reseatReservation lt5 sentinel ty w h else lt5)
       in Ret (lt6, \<lparr>lp_send = send, lp_oldTree = [], lp_created = created, lp_moved = moved, lp_reseated = (ph \<noteq> None)\<rparr>)))"

definition awaiting_send :: "layout_tab \<Rightarrow> (string \<Rightarrow> bool) \<Rightarrow> node option \<Rightarrow> bool" where
  "awaiting_send lt paneSet stored = (let ids = serializedIDs stored in
     list_ex (\<lambda>i. paneSet i \<and> i \<notin> set ids) (awaitingPanes lt) \<or> list_ex (\<lambda>i. \<not> paneSet i \<and> i \<in> set ids) (awaitingGone lt))"

text \<open>One tab of a broadcast: its revision and stored tree, which panes it lists for the tab (\<open>paneSet\<close>) and at all (\<open>live\<close>),
  for which this client has a model (\<open>existing\<close>).\<close>

definition syncTabLayout :: "layout_tab \<Rightarrow> nat \<Rightarrow> node option \<Rightarrow> (string \<Rightarrow> bool) \<Rightarrow> (string \<Rightarrow> bool) \<Rightarrow> (string \<Rightarrow> bool) \<Rightarrow> int \<Rightarrow> int
    \<Rightarrow> (layout_tab \<times> layout_pass) outcome" where
  "syncTabLayout lt nrev stored paneSet live existing w h =
    (let old = Leaves (lt_Root lt);
         settle = (\<lambda>lt' send. Ret (clearAwaiting lt', \<lparr>lp_send = send \<or> awaiting_send lt' paneSet stored, lp_oldTree = old, lp_created = [], lp_moved = [], lp_reseated = False\<rparr>))
     in if nrev > layoutRev lt \<or> adoptNext lt then
          (let echo = (layoutDirty lt \<and> stored \<noteq> None \<and> stored = layoutSent lt);
               resend = (echo \<and> layoutResend lt);
               lt1 = lt\<lparr>layoutRev := nrev, adoptNext := False, layoutDirty := False, layoutSent := None, layoutResend := False\<rparr>
           in if stored \<noteq> None \<and> \<not> echo \<and> stored \<noteq> layoutForSend lt1
              then obind (adoptTabLayout lt1 stored paneSet live existing w h) (\<lambda>(lt2, lp). Ret (lt2, lp\<lparr>lp_oldTree := old\<rparr>))
              else settle lt1 resend)
        else if nrev < layoutRev lt \<or> layoutDirty lt
          then Ret (lt, \<lparr>lp_send = False, lp_oldTree = old, lp_created = [], lp_moved = [], lp_reseated = False\<rparr>)
        else settle lt False)"

text \<open>A reattach.\<close>

definition resetLayoutSync :: "layout_tab \<Rightarrow> layout_tab" where
  "resetLayoutSync lt = (clearAwaiting (lt\<lparr>layoutRev := 0, adoptNext := True, layoutDirty := False, layoutSent := None, layoutResend := False\<rparr>))
     \<lparr>closeRequested := []\<rparr>"

section \<open>The daemon's side\<close>

text \<open>The tree \<open>validLayoutLocked\<close> stores for a written one, and the compare-and-store of \<open>SetTabLayout\<close>, on the trees
  their messages spell.\<close>

definition valid_layout :: "string list \<Rightarrow> node option \<Rightarrow> node option" where
  "valid_layout panes s = (case Normalize (Sanitize (wellFormed s)) panes [] [] of Ret t \<Rightarrow> t | Panic \<Rightarrow> None)"

end
