(* ===== verification/Sync_Props.thy ===== *)
theory Sync_Props
  imports Layout_Sync Transition
begin

text \<open>
  Clients of one tab with a fixed set of panes: every interleaving of edits, writes, broadcasts and reads, with
  lost links and restarts of the daemon. Channels keep their order; a broadcast is the coalesced one, so
  one may stand for several stored writes.
\<close>

record sync_client =
  sc_tab :: layout_tab
  sc_in :: "(nat \<times> node option) list"
  sc_out :: "(node \<times> nat) list"
  sc_edits :: nat
  sc_writes :: nat

record sync_world =
  sw_rev :: nat
  sw_tree :: "node option"
  sw_due :: bool
  sw_cl :: "nat \<Rightarrow> sync_client"

definition send_mark :: "sync_client \<Rightarrow> sync_client" where
  "send_mark c = (case markLayoutChanged (sc_tab c) of (lt, None) \<Rightarrow> c\<lparr>sc_tab := lt\<rparr>
     | (lt, Some wr) \<Rightarrow> c\<lparr>sc_tab := lt, sc_out := sc_out c @ [wr], sc_writes := sc_writes c + 1\<rparr>)"

text \<open>The client's user changes the tree, by any edit that keeps it drawable.\<close>

definition user_edit :: "LayoutNode option \<Rightarrow> sync_client \<Rightarrow> sync_client" where
  "user_edit n c = send_mark (c\<lparr>sc_tab := set_Root n (sc_tab c), sc_edits := sc_edits c + 1\<rparr>)"

definition client_reads :: "string list \<Rightarrow> int \<Rightarrow> int \<Rightarrow> sync_client \<Rightarrow> sync_client outcome" where
  "client_reads P w h c = (case sc_in c of [] \<Rightarrow> Ret c
     | (r, t) # rest \<Rightarrow> obind (syncTabLayout (sc_tab c) r t (\<lambda>i. i \<in> set P) (\<lambda>i. i \<in> set P) (\<lambda>i. i \<in> set P) w h) (\<lambda>(lt, lp).
         let c' = c\<lparr>sc_tab := lt, sc_in := rest\<rparr> in Ret (if lp_send lp then send_mark c' else c')))"

definition daemon_reads :: "string list \<Rightarrow> nat \<Rightarrow> sync_world \<Rightarrow> sync_world" where
  "daemon_reads P k w = (case sc_out (sw_cl w k) of [] \<Rightarrow> w
     | (s, base) # rest \<Rightarrow>
       let w1 = w\<lparr>sw_cl := (sw_cl w)(k := (sw_cl w k)\<lparr>sc_out := rest\<rparr>)\<rparr>
       in if base = sw_rev w then w1\<lparr>sw_rev := sw_rev w + 1, sw_tree := valid_layout P (Some s), sw_due := True\<rparr> else w1)"

definition reattached :: "nat \<Rightarrow> node option \<Rightarrow> sync_client \<Rightarrow> sync_client" where
  "reattached r t c = c\<lparr>sc_tab := resetLayoutSync (sc_tab c), sc_in := [(r, t)], sc_out := []\<rparr>"

definition tree_ok :: "string list \<Rightarrow> LayoutNode option \<Rightarrow> bool" where
  "tree_ok P n \<longleftrightarrow> drawable n \<and> [] \<notin> set (Leaves n) \<and> Leaves n \<noteq> [] \<and> set (Leaves n) \<subseteq> set P"

inductive sync_step :: "string list \<Rightarrow> sync_world \<Rightarrow> sync_world \<Rightarrow> bool" for P where
  edit: "tree_ok P n \<Longrightarrow> sync_step P w (w\<lparr>sw_cl := (sw_cl w)(k := user_edit n (sw_cl w k))\<rparr>)"
| stored: "sync_step P w (daemon_reads P k w)"
| broadcast: "sync_step P w (w\<lparr>sw_due := False, sw_cl := (\<lambda>k. (sw_cl w k)\<lparr>sc_in := sc_in (sw_cl w k) @ [(sw_rev w, sw_tree w)]\<rparr>)\<rparr>)"
| read: "client_reads P wd ht (sw_cl w k) = Ret c \<Longrightarrow> sync_step P w (w\<lparr>sw_cl := (sw_cl w)(k := c)\<rparr>)"
| reattach: "sync_step P w (w\<lparr>sw_cl := (sw_cl w)(k := reattached (sw_rev w) (sw_tree w) (sw_cl w k))\<rparr>)"
| restart: "t = valid_layout P s \<Longrightarrow>
    sync_step P w (w\<lparr>sw_rev := r, sw_tree := t, sw_due := False, sw_cl := (\<lambda>k. reattached r t (sw_cl w k))\<rparr>)"

section \<open>Stored trees\<close>

definition good :: "string list \<Rightarrow> node option \<Rightarrow> bool" where
  "good P t \<longleftrightarrow> t \<noteq> None \<and> shaped t \<and> unit_ratios t \<and> PaneIDs t \<noteq> [] \<and> set (PaneIDs t) \<subseteq> set P"

lemma valid_layout_good: "P \<noteq> [] \<Longrightarrow> [] \<notin> set P \<Longrightarrow> good P (valid_layout P s)"
proof -
  assume P: "P \<noteq> []" "[] \<notin> set P"
  obtain t where t: "Normalize (Sanitize (wellFormed s)) P [] [] = Ret t" "t \<noteq> None" "set (PaneIDs t) = set P" "valid_tree t"
    using Normalize_Ret [OF P, of "Sanitize (wellFormed s)" "[]" "[]"] Sanitize_valid [of "wellFormed s"] by auto
  then show ?thesis using valid_unit [OF t(4)] P by (auto simp: good_def valid_layout_def)
qed

lemma settled_send: "settled n \<Longrightarrow> serializeForSend n None k = SerializeLayout n"
proof (induction n rule: settled_induct)
  case (node s r l rt w h ty)
  then show ?case using settled_ne [OF node(4)] settled_ne [OF node(5)] by (auto split: option.split)
qed simp

section \<open>One client\<close>

definition plain :: "string list \<Rightarrow> layout_tab \<Rightarrow> bool" where
  "plain P lt \<longleftrightarrow> \<not> templateLayoutPending lt \<and> pendingSplit lt = None \<and> worktreeReplaced lt = None \<and> replaceHeld lt = None
     \<and> awaitingPanes lt = [] \<and> awaitingGone lt = [] \<and> closeRequested lt = [] \<and> tree_ok P (lt_Root lt)"

lemma plain_send: "plain P lt \<Longrightarrow> layoutForSend lt = serializeForSend (lt_Root lt) None []"
  by (simp add: plain_def layoutForSend_def replaceHeldIn_def)

lemma send_some: "tree_ok P n \<Longrightarrow> \<exists>s. serializeForSend n None [] = Some s"
proof -
  assume n: "tree_ok P n"
  obtain n' b where "PrunePlaceholders n = Ret (n', b)" "pruned n n' (serializeForSend n None [])"
    using prune_send [of n "[]"] n by (auto simp: tree_ok_def)
  then have "settled n'" "serializeForSend n None [] = SerializeLayout n'" using n by (auto simp: pruned_def tree_ok_def)
  then show ?thesis using settled_ne [of n'] by (cases "SerializeLayout n'") auto
qed

text \<open>Marking a change: a write is sent unless one is in flight, and then the change is remembered.\<close>

lemma mark_plain:
  assumes "plain P lt"
  shows "\<exists>s. layoutForSend lt = Some s \<and> markLayoutChanged lt =
    (if layoutDirty lt then (lt\<lparr>layoutResend := True\<rparr>, None)
     else (lt\<lparr>layoutDirty := True, layoutSent := Some s, layoutResend := False\<rparr>, Some (s, layoutRev lt)))"
proof -
  obtain s where s: "layoutForSend lt = Some s" using send_some [of P "lt_Root lt"] assms plain_send [OF assms] by (auto simp: plain_def)
  have "lt_Root lt \<noteq> None" using assms by (cases "lt_Root lt") (auto simp: plain_def tree_ok_def)
  then show ?thesis using s assms by (auto simp: markLayoutChanged_def clearAwaiting_def plain_def)
qed

lemma adopt_fold:
  assumes "\<And>i. i \<in> set ids \<Longrightarrow> i \<in> set P"
  shows "\<exists>moved'. fold (adopt_id (\<lambda>i. i \<in> set P) (\<lambda>i. i \<in> set P) prev held) ids (lt, panes, created, moved, gone, send)
    = (lt, panes @ ids, created, moved', gone, send)"
  using assms
proof (induction ids arbitrary: panes moved)
  case (Cons i ids)
  then show ?case by (simp add: adopt_id_def) (metis append.assoc append_Cons append_Nil)+
qed simp

lemma serializedIDs_PaneIDs: "serializedIDs s = PaneIDs s"
  by (induction s rule: serializedIDs.induct) auto

lemma adopt_plain:
  assumes lt: "plain P lt" and t: "good P t"
  shows "\<exists>lt' lp. adoptTabLayout lt t (\<lambda>i. i \<in> set P) (\<lambda>i. i \<in> set P) (\<lambda>i. i \<in> set P) w h = Ret (lt', lp)
    \<and> plain P lt' \<and> layoutForSend lt' = t \<and> \<not> lp_send lp
    \<and> layoutRev lt' = layoutRev lt \<and> layoutDirty lt' = layoutDirty lt \<and> layoutResend lt' = layoutResend lt \<and> adoptNext lt' = adoptNext lt"
proof -
  let ?P = "\<lambda>i. i \<in> set P" let ?ids = "remdups (serializedIDs t)"
  have ids: "set ?ids = set (PaneIDs t)" "\<And>i. i \<in> set ?ids \<Longrightarrow> i \<in> set P" using t by (auto simp: serializedIDs_PaneIDs good_def)
  define lt1 where "lt1 = lt\<lparr>lt_tab := (lt_tab lt)\<lparr>tb_focusMode := tb_focusMode (lt_tab lt) \<and>
      \<not> (tb_ActivePane (lt_tab lt) \<in> set (Leaves (lt_Root lt)) \<and> tb_ActivePane (lt_tab lt) \<in> set P \<and> \<not> tb_ActivePane (lt_tab lt) \<in> set P)\<rparr>\<rparr>"
  obtain moved where F: "fold (adopt_id ?P ?P (Leaves (lt_Root lt)) (replaceHeldIn lt1)) ?ids (lt1, [], [], [], [], False)
      = (lt1, ?ids, [], moved, [], False)"
    using adopt_fold [of ?ids P "Leaves (lt_Root lt)" "replaceHeldIn lt1" lt1 "[]" "[]" "[]" "[]" False] ids(2) by auto
  have all: "filter (\<lambda>i. i \<in> set ?ids) (PaneIDs t) = PaneIDs t" using ids(1) by (simp add: filter_id_conv)
  obtain n b where n: "PrunePlaceholders (DeserializeLayout t (\<lambda>i. i \<in> set ?ids)) = Ret (n, b)" "settled n"
      "SerializeLayout n = pruneIf (\<lambda>i. i \<in> set ?ids) t"
    using adopted [of t "\<lambda>i. i \<in> set ?ids"] t all by (auto simp: good_def)
  have same: "pruneIf (\<lambda>i. i \<in> set ?ids) t = t" by (rule pruneIf_id) (use t ids(1) in \<open>auto simp: good_def shaped_full\<close>)
  obtain m where m: "n = Some m" "\<not> (vPane m = None \<and> vLeft m = None \<and> vRight m = None)"
    using settled_ne [OF n(2)] settled_no_placeholder [OF n(2)] by (cases n) (auto simp: is_placeholder_def)
  have lv: "Leaves n = PaneIDs t" using settled_PaneIDs [OF n(2)] n(3) same by metis
  have ok: "tree_ok P n" using n(2) lv t by (auto simp: tree_ok_def settled_def good_def)
  have p1: "pendingSplit lt1 = None" "replaceHeldIn lt1 = None" using lt by (simp_all add: lt1_def plain_def replaceHeldIn_def)
  have A: "adoptTabLayout lt t ?P ?P ?P w h = Ret (clearAwaiting (set_Root n lt1),
      \<lparr>lp_send = False, lp_oldTree = [], lp_created = [], lp_moved = moved, lp_reseated = False\<rparr>)"
    unfolding adoptTabLayout_def Let_def lt1_def [symmetric] F using p1 n(1) m by auto
  have pl: "plain P (clearAwaiting (set_Root n lt1))" using lt ok by (simp add: plain_def clearAwaiting_def set_Root_def lt1_def)
  have "layoutForSend (clearAwaiting (set_Root n lt1)) = t"
    using plain_send [OF pl] settled_send [OF n(2), of "[]"] n(3) same by (simp add: clearAwaiting_def set_Root_def)
  then show ?thesis unfolding A using pl by (auto simp: clearAwaiting_def set_Root_def lt1_def)
qed

lemma sync_plain:
  assumes lt: "plain P lt" and t: "good P t"
  shows "\<exists>lt' lp. syncTabLayout lt r t (\<lambda>i. i \<in> set P) (\<lambda>i. i \<in> set P) (\<lambda>i. i \<in> set P) w h = Ret (lt', lp)
    \<and> (if r > layoutRev lt \<or> adoptNext lt
       then plain P lt' \<and> layoutRev lt' = r \<and> \<not> adoptNext lt' \<and> \<not> layoutDirty lt' \<and> \<not> layoutResend lt'
          \<and> (lp_send lp \<longrightarrow> layoutDirty lt \<and> layoutResend lt)
          \<and> (\<not> lp_send lp \<longrightarrow> layoutForSend lt' = t
               \<or> layoutDirty lt \<and> \<not> layoutResend lt \<and> t = layoutSent lt \<and> layoutForSend lt' = layoutForSend lt)
       else lt' = lt \<and> \<not> lp_send lp)"
proof (cases "r > layoutRev lt \<or> adoptNext lt")
  case False
  have "clearAwaiting lt = lt" "\<not> awaiting_send lt (\<lambda>i. i \<in> set P) t" using lt by (simp_all add: clearAwaiting_def plain_def awaiting_send_def)
  then show ?thesis using False by (auto simp: syncTabLayout_def Let_def)
next
  case True
  define lt1 where "lt1 = lt\<lparr>layoutRev := r, adoptNext := False, layoutDirty := False, layoutSent := None, layoutResend := False\<rparr>"
  have p1: "plain P lt1" using lt by (simp add: plain_def lt1_def)
  have s1: "layoutForSend lt1 = layoutForSend lt" using plain_send [OF p1] plain_send [OF lt] by (simp add: lt1_def)
  have aw: "clearAwaiting lt1 = lt1" "\<not> awaiting_send lt1 (\<lambda>i. i \<in> set P) t" using p1 by (simp_all add: clearAwaiting_def plain_def awaiting_send_def)
  have tn: "t \<noteq> None" using t by (simp add: good_def)
  define echo where "echo = (layoutDirty lt \<and> t = layoutSent lt)"
  show ?thesis
  proof (cases "\<not> echo \<and> t \<noteq> layoutForSend lt1")
    case adopt: True
    obtain lt' lp where A: "adoptTabLayout lt1 t (\<lambda>i. i \<in> set P) (\<lambda>i. i \<in> set P) (\<lambda>i. i \<in> set P) w h = Ret (lt', lp)"
        "plain P lt'" "layoutForSend lt' = t" "\<not> lp_send lp" "layoutRev lt' = layoutRev lt1" "layoutDirty lt' = layoutDirty lt1"
        "layoutResend lt' = layoutResend lt1" "adoptNext lt' = adoptNext lt1"
      using adopt_plain [OF p1 t] by blast
    have "syncTabLayout lt r t (\<lambda>i. i \<in> set P) (\<lambda>i. i \<in> set P) (\<lambda>i. i \<in> set P) w h = Ret (lt', lp\<lparr>lp_oldTree := Leaves (lt_Root lt)\<rparr>)"
      using True adopt tn A(1) unfolding syncTabLayout_def Let_def lt1_def [symmetric] echo_def by auto
    then show ?thesis using A True by (simp add: lt1_def)
  next
    case keep: False
    have "syncTabLayout lt r t (\<lambda>i. i \<in> set P) (\<lambda>i. i \<in> set P) (\<lambda>i. i \<in> set P) w h
        = Ret (lt1, \<lparr>lp_send = (echo \<and> layoutResend lt), lp_oldTree = Leaves (lt_Root lt), lp_created = [], lp_moved = [], lp_reseated = False\<rparr>)"
      using True keep tn aw unfolding syncTabLayout_def Let_def lt1_def [symmetric] echo_def by auto
    then show ?thesis using True keep p1 s1 by (auto simp: lt1_def echo_def)
  qed
qed

section \<open>The invariant\<close>

definition client_inv :: "string list \<Rightarrow> nat \<Rightarrow> node option \<Rightarrow> bool \<Rightarrow> sync_client \<Rightarrow> bool" where
  "client_inv P R T due c \<longleftrightarrow> (let lt = sc_tab c; seen = layoutRev lt # map fst (sc_in c) in
     plain P lt \<and> sorted seen \<and> (\<forall>r \<in> set seen. r \<le> R)
     \<and> (\<forall>(r, t) \<in> set (sc_in c). good P t \<and> (r = R \<longrightarrow> t = T))
     \<and> (\<not> due \<longrightarrow> last seen = R)
     \<and> (adoptNext lt \<longrightarrow> sc_in c \<noteq> [] \<and> layoutRev lt = 0)
     \<and> (\<not> adoptNext lt \<longrightarrow> layoutRev lt = R \<longrightarrow> \<not> layoutDirty lt \<longrightarrow> layoutForSend lt = T)
     \<and> (layoutDirty lt \<longrightarrow> sc_out c \<noteq> [] \<and> last (sc_out c) = (the (layoutSent lt), layoutRev lt) \<or> layoutRev lt < R)
     \<and> (layoutResend lt \<longrightarrow> layoutDirty lt)
     \<and> (layoutDirty lt \<longrightarrow> \<not> layoutResend lt \<longrightarrow> layoutSent lt = layoutForSend lt)
     \<and> sc_writes c + (if layoutResend lt then 1 else 0) \<le> sc_edits c)"

definition sync_inv :: "string list \<Rightarrow> sync_world \<Rightarrow> bool" where
  "sync_inv P w \<longleftrightarrow> P \<noteq> [] \<and> [] \<notin> set P \<and> good P (sw_tree w)
     \<and> (\<forall>k. client_inv P (sw_rev w) (sw_tree w) (sw_due w) (sw_cl w k))"

definition sync_init :: "string list \<Rightarrow> sync_world \<Rightarrow> bool" where
  "sync_init P w \<longleftrightarrow> P \<noteq> [] \<and> [] \<notin> set P \<and> good P (sw_tree w) \<and> \<not> sw_due w
     \<and> (\<forall>k. let c = sw_cl w k; lt = sc_tab c in plain P lt \<and> layoutRev lt = sw_rev w \<and> \<not> adoptNext lt \<and> \<not> layoutDirty lt \<and> \<not> layoutResend lt
          \<and> layoutForSend lt = sw_tree w \<and> sc_in c = [] \<and> sc_out c = [] \<and> sc_writes c = 0)"

text \<open>Sending keeps everything but the flags of the write.\<close>

lemma send_mark_inv:
  assumes p: "plain P (sc_tab c)" "sorted (layoutRev (sc_tab c) # map fst (sc_in c))" "\<forall>r \<in> set (layoutRev (sc_tab c) # map fst (sc_in c)). r \<le> R"
    "\<forall>(r, t) \<in> set (sc_in c). good P t \<and> (r = R \<longrightarrow> t = T)" "\<not> due \<longrightarrow> last (layoutRev (sc_tab c) # map fst (sc_in c)) = R"
    "adoptNext (sc_tab c) \<longrightarrow> sc_in c \<noteq> [] \<and> layoutRev (sc_tab c) = 0"
    and d: "layoutDirty (sc_tab c) \<longrightarrow> sc_out c \<noteq> [] \<and> last (sc_out c) = (the (layoutSent (sc_tab c)), layoutRev (sc_tab c)) \<or> layoutRev (sc_tab c) < R"
    and n: "sc_writes c + 1 \<le> sc_edits c"
  shows "client_inv P R T due (send_mark c)"
proof -
  obtain s where s: "layoutForSend (sc_tab c) = Some s" "markLayoutChanged (sc_tab c) =
      (if layoutDirty (sc_tab c) then ((sc_tab c)\<lparr>layoutResend := True\<rparr>, None)
       else ((sc_tab c)\<lparr>layoutDirty := True, layoutSent := Some s, layoutResend := False\<rparr>, Some (s, layoutRev (sc_tab c))))"
    using mark_plain [OF p(1)] by blast
  have pl: "plain P ((sc_tab c)\<lparr>layoutResend := True\<rparr>)" "plain P ((sc_tab c)\<lparr>layoutDirty := True, layoutSent := Some s, layoutResend := False\<rparr>)"
    using p(1) by (simp_all add: plain_def)
  have fs: "layoutForSend ((sc_tab c)\<lparr>layoutDirty := True, layoutSent := Some s, layoutResend := False\<rparr>) = Some s"
    using plain_send [OF pl(2)] plain_send [OF p(1)] s(1) by simp
  show ?thesis
  proof (cases "layoutDirty (sc_tab c)")
    case True
    then have "send_mark c = c\<lparr>sc_tab := (sc_tab c)\<lparr>layoutResend := True\<rparr>\<rparr>" by (simp add: send_mark_def s(2))
    then show ?thesis using p d n pl(1) True by (auto simp: client_inv_def Let_def)
  next
    case False
    then have "send_mark c = c\<lparr>sc_tab := (sc_tab c)\<lparr>layoutDirty := True, layoutSent := Some s, layoutResend := False\<rparr>,
        sc_out := sc_out c @ [(s, layoutRev (sc_tab c))], sc_writes := sc_writes c + 1\<rparr>" by (simp add: send_mark_def s(2))
    then show ?thesis using p n pl(2) fs by (auto simp: client_inv_def Let_def)
  qed
qed

lemma edit_inv: "client_inv P R T due c \<Longrightarrow> tree_ok P n \<Longrightarrow> client_inv P R T due (user_edit n c)"
  unfolding user_edit_def by (rule send_mark_inv) (auto simp: client_inv_def Let_def plain_def set_Root_def split: if_splits)

text \<open>What is left of the invariant after the first message is read.\<close>

lemma client_inv_rest:
  assumes "client_inv P R T due c" "sc_in c = (q, t) # rest"
  shows "plain P (sc_tab c)" "good P t" "q \<le> R" "q = R \<longrightarrow> t = T" "sorted (q # map fst rest)" "\<forall>r \<in> set (q # map fst rest). r \<le> R"
    "\<forall>(r, t) \<in> set rest. good P t \<and> (r = R \<longrightarrow> t = T)" "\<not> due \<longrightarrow> last (q # map fst rest) = R" "layoutRev (sc_tab c) \<le> q"
    "layoutDirty (sc_tab c) \<longrightarrow> \<not> layoutResend (sc_tab c) \<longrightarrow> layoutSent (sc_tab c) = layoutForSend (sc_tab c)"
    "sc_writes c + (if layoutResend (sc_tab c) then 1 else 0) \<le> sc_edits c"
  using assms unfolding client_inv_def Let_def by (simp_all only: list.map fst_conv sorted_simps list.set) simp_all

lemma client_invI:
  assumes "plain P (sc_tab c)" "sorted (layoutRev (sc_tab c) # map fst (sc_in c))" "\<forall>r \<in> set (layoutRev (sc_tab c) # map fst (sc_in c)). r \<le> R"
    "\<forall>(r, t) \<in> set (sc_in c). good P t \<and> (r = R \<longrightarrow> t = T)" "\<not> due \<longrightarrow> last (layoutRev (sc_tab c) # map fst (sc_in c)) = R"
    "\<not> adoptNext (sc_tab c)" "\<not> layoutDirty (sc_tab c)" "\<not> layoutResend (sc_tab c)"
    "layoutRev (sc_tab c) = R \<longrightarrow> layoutForSend (sc_tab c) = T" "sc_writes c \<le> sc_edits c"
  shows "client_inv P R T due c"
  unfolding client_inv_def Let_def using assms by (intro conjI) simp_all

lemma read_inv:
  assumes inv: "client_inv P R T due c" and r: "client_reads P wd ht c = Ret c'"
  shows "client_inv P R T due c'"
proof (cases "sc_in c")
  case Nil
  then show ?thesis using inv r by (simp add: client_reads_def)
next
  case (Cons x rest)
  obtain q t where x: "x = (q, t)" by fastforce
  note I = client_inv_rest [OF inv Cons [unfolded x]]
  obtain lt' lp where S: "syncTabLayout (sc_tab c) q t (\<lambda>i. i \<in> set P) (\<lambda>i. i \<in> set P) (\<lambda>i. i \<in> set P) wd ht = Ret (lt', lp)"
    and C: "if q > layoutRev (sc_tab c) \<or> adoptNext (sc_tab c)
       then plain P lt' \<and> layoutRev lt' = q \<and> \<not> adoptNext lt' \<and> \<not> layoutDirty lt' \<and> \<not> layoutResend lt'
          \<and> (lp_send lp \<longrightarrow> layoutDirty (sc_tab c) \<and> layoutResend (sc_tab c))
          \<and> (\<not> lp_send lp \<longrightarrow> layoutForSend lt' = t
               \<or> layoutDirty (sc_tab c) \<and> \<not> layoutResend (sc_tab c) \<and> t = layoutSent (sc_tab c) \<and> layoutForSend lt' = layoutForSend (sc_tab c))
       else lt' = sc_tab c \<and> \<not> lp_send lp"
    using sync_plain [OF I(1,2), of q wd ht] by blast
  have c': "c' = (if lp_send lp then send_mark (c\<lparr>sc_tab := lt', sc_in := rest\<rparr>) else c\<lparr>sc_tab := lt', sc_in := rest\<rparr>)"
    using r Cons x S by (auto simp: client_reads_def Let_def)
  show ?thesis
  proof (cases "q > layoutRev (sc_tab c) \<or> adoptNext (sc_tab c)")
    case True
    note D = C [unfolded if_P [OF True]]
    have D1: "plain P lt'" "layoutRev lt' = q" "\<not> adoptNext lt'" "\<not> layoutDirty lt'" "\<not> layoutResend lt'" using D by auto
    show ?thesis
    proof (cases "lp_send lp")
      case True
      have "client_inv P R T due (send_mark (c\<lparr>sc_tab := lt', sc_in := rest\<rparr>))"
        by (rule send_mark_inv) (use D True D1 I in simp_all)
      then show ?thesis using c' True by simp
    next
      case False
      have "layoutForSend lt' = t" using D I(10) False by auto
      then have "client_inv P R T due (c\<lparr>sc_tab := lt', sc_in := rest\<rparr>)"
        by (intro client_invI) (use D1 I in \<open>simp_all split: if_splits\<close>)
      then show ?thesis using c' False by simp
    qed
  next
    case False
    note D = C [unfolded if_not_P [OF False]]
    have q: "q = layoutRev (sc_tab c)" using I(9) False by simp
    have "c' = c\<lparr>sc_in := rest\<rparr>" using c' D by (cases c) simp
    then show ?thesis using inv [unfolded client_inv_def Let_def Cons x] q False I
      unfolding client_inv_def Let_def by (simp only:) (intro conjI, simp_all)
  qed
qed

section \<open>The daemon and the links\<close>

lemma stored_inv: "client_inv P R T due c \<Longrightarrow> client_inv P (R + 1) T' True (c\<lparr>sc_out := out\<rparr>)"
  by (auto simp: client_inv_def Let_def le_SucI)

lemma refused_inv:
  assumes "client_inv P R T due c" "sc_out c = (s, b) # rest" "b \<noteq> R"
  shows "client_inv P R T due (c\<lparr>sc_out := rest\<rparr>)"
proof -
  have "layoutRev (sc_tab c) \<le> R" using assms(1) by (simp add: client_inv_def Let_def)
  then show ?thesis using assms by (cases rest) (auto simp: client_inv_def Let_def)
qed

lemma due_inv: "client_inv P R T due c \<Longrightarrow> client_inv P R T True c"
  by (simp add: client_inv_def Let_def)

lemma broadcast_inv: "client_inv P R T due c \<Longrightarrow> good P T \<Longrightarrow> client_inv P R T False (c\<lparr>sc_in := sc_in c @ [(R, T)]\<rparr>)"
  by (auto simp: client_inv_def Let_def sorted_append)

lemma reattached_inv: "client_inv P R T due c \<Longrightarrow> good P T' \<Longrightarrow> client_inv P R' T' due' (reattached R' T' c)"
  by (auto simp: client_inv_def Let_def reattached_def resetLayoutSync_def clearAwaiting_def plain_def split: if_splits)

lemma sync_init_inv: "sync_init P w \<Longrightarrow> sync_inv P w"
  unfolding sync_init_def sync_inv_def Let_def
proof (elim conjE, intro conjI allI)
  fix k assume all: "\<forall>k. plain P (sc_tab (sw_cl w k)) \<and> layoutRev (sc_tab (sw_cl w k)) = sw_rev w \<and> \<not> adoptNext (sc_tab (sw_cl w k)) \<and>
      \<not> layoutDirty (sc_tab (sw_cl w k)) \<and> \<not> layoutResend (sc_tab (sw_cl w k)) \<and> layoutForSend (sc_tab (sw_cl w k)) = sw_tree w \<and>
      sc_in (sw_cl w k) = [] \<and> sc_out (sw_cl w k) = [] \<and> sc_writes (sw_cl w k) = 0"
  show "client_inv P (sw_rev w) (sw_tree w) (sw_due w) (sw_cl w k)" by (rule client_invI) (use all [rule_format, of k] in simp_all)
qed simp_all

lemma daemon_reads_inv: "sync_inv P w \<Longrightarrow> sync_inv P (daemon_reads P k w)"
proof (cases "sc_out (sw_cl w k)")
  case (Cons x rest)
  assume w: "sync_inv P w"
  obtain s b where x: "x = (s, b)" by fastforce
  have c: "client_inv P (sw_rev w) (sw_tree w) (sw_due w) (sw_cl w j)" for j using w by (simp add: sync_inv_def)
  show ?thesis
  proof (cases "b = sw_rev w")
    case True
    have g: "good P (valid_layout P (Some s))" using w by (intro valid_layout_good) (simp_all add: sync_inv_def)
    have k: "client_inv P (sw_rev w + 1) (valid_layout P (Some s)) True ((sw_cl w k)\<lparr>sc_out := rest\<rparr>)" by (rule stored_inv [OF c])
    have j: "client_inv P (sw_rev w + 1) (valid_layout P (Some s)) True (sw_cl w j)" for j
      using stored_inv [OF c [of j], of "valid_layout P (Some s)" "sc_out (sw_cl w j)"] by simp
    show ?thesis using w g True Cons x k j by (simp add: sync_inv_def daemon_reads_def Let_def)
  next
    case False
    then show ?thesis using w Cons x refused_inv [OF c [of k], of s b rest] by (simp add: sync_inv_def daemon_reads_def Let_def)
  qed
qed (simp add: daemon_reads_def)

lemma sync_step_inv: "sync_step P w w' \<Longrightarrow> sync_inv P w \<Longrightarrow> sync_inv P w'"
proof (induction rule: sync_step.induct)
  case (edit n w k)
  then show ?case by (simp add: sync_inv_def edit_inv)
next
  case (stored w k)
  then show ?case by (rule daemon_reads_inv)
next
  case (broadcast w)
  then show ?case by (auto simp: sync_inv_def intro: broadcast_inv)
next
  case (read wd ht w k c)
  then show ?case using read_inv [OF _ read(1)] by (simp add: sync_inv_def)
next
  case (reattach w k)
  then show ?case by (auto simp: sync_inv_def intro: reattached_inv)
next
  case (restart t s w r)
  then have "good P t" by (simp add: sync_inv_def valid_layout_good)
  then show ?case using restart(2) by (auto simp: sync_inv_def intro: reattached_inv)
qed

interpretation layouts: machine "sync_init P" "sync_step P" "sync_inv P" for P
  by unfold_locales (auto intro: sync_init_inv sync_step_inv)

lemma reads_Ret:
  assumes "client_inv P R T due c"
  shows "\<exists>c'. client_reads P wd ht c = Ret c'"
proof (cases "sc_in c")
  case (Cons x rest)
  obtain q t where x: "x = (q, t)" by fastforce
  show ?thesis using sync_plain [OF client_inv_rest(1,2) [OF assms Cons [unfolded x]], of q wd ht] Cons x
    by (auto simp: client_reads_def Let_def)
qed (simp add: client_reads_def)

lemma settled_client:
  assumes c: "client_inv P R T False c" and empty: "sc_in c = []" "sc_out c = []"
  shows "layoutRev (sc_tab c) = R" "\<not> layoutDirty (sc_tab c)" "\<not> layoutResend (sc_tab c)" "layoutForSend (sc_tab c) = T"
  using c unfolding client_inv_def Let_def empty by auto

section \<open>Traffic without edits\<close>

text \<open>The steps of a group of clients whose users have stopped, on links that hold.\<close>

inductive quiet_step :: "string list \<Rightarrow> nat set \<Rightarrow> sync_world \<Rightarrow> sync_world \<Rightarrow> bool" for P K where
  q_stored: "k \<in> K \<Longrightarrow> sc_out (sw_cl w k) \<noteq> [] \<Longrightarrow> quiet_step P K w (daemon_reads P k w)"
| q_broadcast: "sw_due w \<Longrightarrow>
    quiet_step P K w (w\<lparr>sw_due := False, sw_cl := (\<lambda>k. (sw_cl w k)\<lparr>sc_in := sc_in (sw_cl w k) @ [(sw_rev w, sw_tree w)]\<rparr>)\<rparr>)"
| q_read: "k \<in> K \<Longrightarrow> sc_in (sw_cl w k) \<noteq> [] \<Longrightarrow> client_reads P wd ht (sw_cl w k) = Ret c \<Longrightarrow> quiet_step P K w (w\<lparr>sw_cl := (sw_cl w)(k := c)\<rparr>)"

lemma quiet_sync: "quiet_step P K w w' \<Longrightarrow> sync_step P w w'"
  by (induction rule: quiet_step.induct) (blast intro: sync_step.intros)+

text \<open>What may still happen: edits not yet written, writes on their way, broadcasts on theirs.\<close>

definition load :: "nat \<Rightarrow> sync_client \<Rightarrow> nat" where
  "load n c = (n + 3) * (sc_edits c - sc_writes c) + (n + 2) * length (sc_out c) + length (sc_in c)"

definition traffic :: "nat set \<Rightarrow> sync_world \<Rightarrow> nat" where
  "traffic K w = (\<Sum>k \<in> K. load (card K) (sw_cl w k)) + (if sw_due w then card K + 1 else 0)"

lemma sum_upd: "finite K \<Longrightarrow> k \<in> K \<Longrightarrow> (\<Sum>j \<in> K. f ((g(k := c)) j)) + f (g k) = (\<Sum>j \<in> K. f (g j)) + (f c :: nat)"
proof -
  assume K: "finite K" "k \<in> K"
  have "(\<Sum>j \<in> K - {k}. f ((g(k := c)) j)) = (\<Sum>j \<in> K - {k}. f (g j))" by (rule sum.cong) auto
  then show ?thesis using sum.remove [OF K, of "\<lambda>j. f ((g(k := c)) j)"] sum.remove [OF K, of "\<lambda>j. f (g j)"] by simp
qed

lemma send_mark_load:
  assumes "plain P (sc_tab c)" "\<not> layoutDirty (sc_tab c)" "sc_writes c < sc_edits c"
  shows "load n (send_mark c) < load n c"
proof -
  obtain s where s: "send_mark c = c\<lparr>sc_tab := (sc_tab c)\<lparr>layoutDirty := True, layoutSent := Some s, layoutResend := False\<rparr>,
      sc_out := sc_out c @ [(s, layoutRev (sc_tab c))], sc_writes := sc_writes c + 1\<rparr>"
    using mark_plain [OF assms(1)] assms(2) by (auto simp: send_mark_def)
  obtain d where "sc_edits c = sc_writes c + 1 + d" using assms(3) less_iff_Suc_add by auto
  then show ?thesis by (simp add: s load_def algebra_simps)
qed

lemma read_load:
  assumes inv: "client_inv P R T due c" and r: "client_reads P wd ht c = Ret c'" "sc_in c \<noteq> []"
  shows "load n c' < load n c"
proof -
  obtain q t rest where x: "sc_in c = (q, t) # rest" using r(2) by (cases "sc_in c") auto
  note I = client_inv_rest [OF inv x]
  obtain lt' lp where S: "syncTabLayout (sc_tab c) q t (\<lambda>i. i \<in> set P) (\<lambda>i. i \<in> set P) (\<lambda>i. i \<in> set P) wd ht = Ret (lt', lp)"
    and C: "lp_send lp \<longrightarrow> plain P lt' \<and> \<not> layoutDirty lt' \<and> layoutResend (sc_tab c)"
    using sync_plain [OF I(1,2), of q wd ht] by (auto split: if_splits)
  have c': "c' = (if lp_send lp then send_mark (c\<lparr>sc_tab := lt', sc_in := rest\<rparr>) else c\<lparr>sc_tab := lt', sc_in := rest\<rparr>)"
    using r x S by (auto simp: client_reads_def Let_def)
  have less: "load n (c\<lparr>sc_tab := lt', sc_in := rest\<rparr>) < load n c" by (simp add: load_def x)
  show ?thesis
  proof (cases "lp_send lp")
    case True
    then have "load n (send_mark (c\<lparr>sc_tab := lt', sc_in := rest\<rparr>)) < load n (c\<lparr>sc_tab := lt', sc_in := rest\<rparr>)"
      by (intro send_mark_load [where P = P]) (use C I(11) in \<open>auto split: if_splits\<close>)
    then show ?thesis using less c' True by simp
  qed (use less c' in simp)
qed

lemma stored_traffic:
  assumes K: "finite K" "k \<in> K" and out: "sc_out (sw_cl w k) \<noteq> []"
  shows "traffic K (daemon_reads P k w) < traffic K w"
proof -
  obtain s b rest where x: "sc_out (sw_cl w k) = (s, b) # rest" using out by (cases "sc_out (sw_cl w k)") auto
  let ?cl = "(sw_cl w)(k := (sw_cl w k)\<lparr>sc_out := rest\<rparr>)"
  have cl: "sw_cl (daemon_reads P k w) = ?cl" by (simp add: daemon_reads_def x Let_def)
  have "load (card K) ((sw_cl w k)\<lparr>sc_out := rest\<rparr>) + (card K + 2) = load (card K) (sw_cl w k)" by (simp add: load_def x)
  then have "(\<Sum>j \<in> K. load (card K) (?cl j)) + (card K + 2) = (\<Sum>j \<in> K. load (card K) (sw_cl w j))"
    using sum_upd [OF K, of "load (card K)" "sw_cl w" "(sw_cl w k)\<lparr>sc_out := rest\<rparr>"] by simp
  then show ?thesis unfolding traffic_def cl by (cases "sw_due w") auto
qed

lemma broadcast_traffic:
  assumes "sw_due w"
  shows "traffic K (w\<lparr>sw_due := False, sw_cl := (\<lambda>k. (sw_cl w k)\<lparr>sc_in := sc_in (sw_cl w k) @ [(sw_rev w, sw_tree w)]\<rparr>)\<rparr>) < traffic K w"
proof -
  have "(\<Sum>k \<in> K. load n ((sw_cl w k)\<lparr>sc_in := sc_in (sw_cl w k) @ [(sw_rev w, sw_tree w)]\<rparr>)) = (\<Sum>k \<in> K. load n (sw_cl w k) + 1)" for n
    by (rule sum.cong) (simp_all add: load_def)
  then show ?thesis using assms unfolding traffic_def by (simp only: sync_world.simps sum.distrib) simp
qed

lemma quiet_traffic: "quiet_step P K w w' \<Longrightarrow> sync_inv P w \<Longrightarrow> finite K \<Longrightarrow> traffic K w' < traffic K w"
proof (induction rule: quiet_step.induct)
  case (q_stored k w)
  then show ?case by (simp add: stored_traffic)
next
  case (q_broadcast w)
  then show ?case by (simp add: broadcast_traffic)
next
  case (q_read k w wd ht c)
  have "client_inv P (sw_rev w) (sw_tree w) (sw_due w) (sw_cl w k)" using q_read(4) by (simp add: sync_inv_def)
  then have "load (card K) c < load (card K) (sw_cl w k)" by (rule read_load [OF _ q_read(3,2)])
  then show ?case using sum_upd [OF q_read(5,1), of "load (card K)" "sw_cl w" c] by (simp add: traffic_def)
qed

lemma quiet_run:
  assumes "(quiet_step P K ^^ m) w w'" "sync_inv P w" "finite K"
  shows "sync_inv P w' \<and> traffic K w' + m \<le> traffic K w"
  using assms(1)
proof (induction m arbitrary: w')
  case (Suc m)
  then obtain v where v: "(quiet_step P K ^^ m) w v" "quiet_step P K v w'" by auto
  have I: "sync_inv P v" "traffic K v + m \<le> traffic K w" using Suc.IH [OF v(1)] by auto
  show ?case using quiet_traffic [OF v(2) I(1) assms(3)] I(2) sync_step_inv [OF quiet_sync [OF v(2)] I(1)] by simp
qed (use assms(2) in simp)

lemma quiet_end:
  assumes w: "sync_inv P w" and stop: "\<And>w'. \<not> quiet_step P K w w'"
  shows "\<not> sw_due w" "k \<in> K \<Longrightarrow> sc_in (sw_cl w k) = [] \<and> sc_out (sw_cl w k) = []"
proof -
  show "\<not> sw_due w" using stop q_broadcast by blast
  assume k: "k \<in> K"
  have "client_inv P (sw_rev w) (sw_tree w) (sw_due w) (sw_cl w k)" using w by (simp add: sync_inv_def)
  then obtain c where "client_reads P 0 0 (sw_cl w k) = Ret c" using reads_Ret by blast
  then show "sc_in (sw_cl w k) = [] \<and> sc_out (sw_cl w k) = []" using stop q_read [OF k] q_stored [OF k] by blast
qed

text \<open>A read that sends nothing leaves the client's own writes alone.\<close>

lemma read_sends_nothing:
  assumes inv: "client_inv P R T due c" and c: "sc_in c = (q, t) # rest" "\<not> layoutResend (sc_tab c)"
  shows "\<exists>c'. client_reads P wd ht c = Ret c' \<and> sc_in c' = rest \<and> sc_out c' = sc_out c"
proof -
  note I = client_inv_rest [OF inv c(1)]
  show ?thesis using sync_plain [OF I(1,2), of q wd ht] c by (auto simp: client_reads_def Let_def split: if_splits)
qed

section \<open>Properties\<close>

text \<open>Two panes side by side, and the world in which every client shows them.\<close>

definition two_panes :: "string \<Rightarrow> string \<Rightarrow> LayoutNode option" where
  "two_panes a b = Some (LayoutNode None Horizontal (1 / 2) (Some (NewLeaf a)) (Some (NewLeaf b)) 0 0 [])"

definition two_stored :: "string \<Rightarrow> string \<Rightarrow> node" where
  "two_stored a b = Node [] (Some Horizontal) (1 / 2) (Some (leaf a)) (Some (leaf b))"

definition quiet_client :: sync_client where
  "quiet_client = \<lparr>sc_tab = \<lparr>lt_tab = sample_tab\<lparr>tb_Root := two_panes ''a'' ''b''\<rparr>, templateLayoutPending = False, layoutRev = 0, layoutDirty = False,
      layoutSent = None, layoutResend = False, adoptNext = False, awaitingPanes = [], awaitingGone = [], reserveSibling = [], reserveDir = 0,
      reserveReplace = False, pendingSplit = None, worktreeReplaced = None, replaceHeld = None, worktreeCreates = False, closeRequested = []\<rparr>,
    sc_in = [], sc_out = [], sc_edits = 0, sc_writes = 0\<rparr>"

definition quiet_world :: sync_world where
  "quiet_world = \<lparr>sw_rev = 0, sw_tree = Some (two_stored ''a'' ''b''), sw_due = False, sw_cl = (\<lambda>_. quiet_client)\<rparr>"

lemma two_panes_ok: "tree_ok [''a'', ''b''] (two_panes ''a'' ''b'')" "tree_ok [''a'', ''b''] (two_panes ''b'' ''a'')"
    "serializeForSend (two_panes a b) None [] = Some (two_stored a b)"
  by (simp_all add: tree_ok_def two_panes_def two_stored_def NewLeaf_def)

lemma quiet_world_init: "sync_init [''a'', ''b''] quiet_world"
  using two_panes_ok(1,3) plain_send [of "[''a'', ''b'']" "sc_tab quiet_client"]
  by (simp add: sync_init_def quiet_world_def plain_def quiet_client_def good_def two_stored_def)

text \<open>C37. Clients on one tab whose users edit the tree at any time, on links that may break, under a daemon
  that may restart, never panic on a stored tree and never write more often than their users edit
  (there is no exchange of trees between two clients that goes on by itself). Once a group of clients
  stops editing, the daemon and they exchange a bounded number of messages, and when nothing is left
  to send or read each of them is at the daemon's revision, has no write in flight, and holds the
  tree the daemon stores.\<close>

theorem layouts_converge:
  assumes init: "sync_init P w0" and run: "(sync_step P)\<^sup>*\<^sup>* w0 w" and K: "finite K" and quiet: "(quiet_step P K ^^ m) w w'"
  shows "(\<forall>k. client_reads P wd ht (sw_cl w k) \<noteq> Panic \<and> sc_writes (sw_cl w k) \<le> sc_edits (sw_cl w k))
    \<and> m \<le> traffic K w
    \<and> ((\<forall>w''. \<not> quiet_step P K w' w'') \<longrightarrow> (\<forall>k \<in> K. let lt = sc_tab (sw_cl w' k) in
        layoutRev lt = sw_rev w' \<and> \<not> layoutDirty lt \<and> \<not> layoutResend lt \<and> layoutForSend lt = sw_tree w'))"
proof -
  have w: "sync_inv P w" by (rule layouts.reachable_inv [OF init run])
  then have c: "client_inv P (sw_rev w) (sw_tree w) (sw_due w) (sw_cl w k)" for k by (simp add: sync_inv_def)
  have w': "sync_inv P w'" "m \<le> traffic K w" using quiet_run [OF quiet w K] by auto
  have 1: "client_reads P wd ht (sw_cl w k) \<noteq> Panic" for k using reads_Ret [OF c [of k], of wd ht] by auto
  have 2: "sc_writes (sw_cl w k) \<le> sc_edits (sw_cl w k)" for k using c [of k] by (auto simp: client_inv_def Let_def split: if_splits)
  have 3: "layoutRev (sc_tab (sw_cl w' k)) = sw_rev w'" "\<not> layoutDirty (sc_tab (sw_cl w' k))" "\<not> layoutResend (sc_tab (sw_cl w' k))"
      "layoutForSend (sc_tab (sw_cl w' k)) = sw_tree w'" if "\<forall>w''. \<not> quiet_step P K w' w''" "k \<in> K" for k
  proof -
    have e: "\<not> sw_due w'" "sc_in (sw_cl w' k) = []" "sc_out (sw_cl w' k) = []" using quiet_end [OF w'(1)] that by auto
    have "client_inv P (sw_rev w') (sw_tree w') False (sw_cl w' k)" using w'(1) e(1) by (simp add: sync_inv_def)
    note S = settled_client [OF this]
    show "layoutRev (sc_tab (sw_cl w' k)) = sw_rev w'" "\<not> layoutDirty (sc_tab (sw_cl w' k))" "\<not> layoutResend (sc_tab (sw_cl w' k))"
      "layoutForSend (sc_tab (sw_cl w' k)) = sw_tree w'" using S e by auto
  qed
  show ?thesis unfolding Let_def using 1 2 3 w'(2) by simp
qed

theorem layouts_converge_witness:
  "\<exists>w w'. sync_step [''a'', ''b''] quiet_world w \<and> (quiet_step [''a'', ''b''] {0, 1} ^^ 4) w w' \<and> sw_rev w' = 1
    \<and> (\<forall>k \<in> {0, 1}. layoutForSend (sc_tab (sw_cl w' k)) = Some (two_stored ''b'' ''a''))"
proof -
  let ?P = "[''a'', ''b'']" let ?n = "two_panes ''b'' ''a''" let ?s = "two_stored ''b'' ''a''"
  have v: "valid_layout ?P (Some ?s) = Some ?s" unfolding two_stored_def by code_simp
  define w where "w = quiet_world\<lparr>sw_cl := (sw_cl quiet_world)(0 := user_edit ?n (sw_cl quiet_world 0))\<rparr>"
  have st: "sync_step ?P quiet_world w" unfolding w_def by (rule sync_step.edit [OF two_panes_ok(2)])
  have iw: "sync_inv ?P w" by (rule sync_step_inv [OF st sync_init_inv [OF quiet_world_init]])
  define c0 where "c0 = quiet_client\<lparr>sc_tab := set_Root ?n (sc_tab quiet_client), sc_edits := 1\<rparr>"
  have p0: "plain ?P (sc_tab c0)" "\<not> layoutDirty (sc_tab c0)" "lt_Root (sc_tab c0) = ?n" "layoutRev (sc_tab c0) = 0" "sc_out c0 = []" "sc_in c0 = []"
    using two_panes_ok(2) by (simp_all add: c0_def quiet_client_def plain_def set_Root_def)
  have u: "user_edit ?n quiet_client = send_mark c0" by (simp add: user_edit_def c0_def quiet_client_def)
  have m: "send_mark c0 = c0\<lparr>sc_tab := (sc_tab c0)\<lparr>layoutDirty := True, layoutSent := Some ?s, layoutResend := False\<rparr>,
      sc_out := [(?s, 0)], sc_writes := sc_writes c0 + 1\<rparr>"
    using mark_plain [OF p0(1)] plain_send [OF p0(1)] p0 two_panes_ok(3) [of "''b''" "''a''"] by (auto simp: send_mark_def)
  have cl: "sw_cl w 0 = send_mark c0" "sw_cl w 1 = quiet_client" "sw_rev w = 0" "sw_due w = False" by (simp_all add: w_def quiet_world_def u)
  define w1 where "w1 = daemon_reads ?P 0 w"
  define w2 where "w2 = w1\<lparr>sw_due := False, sw_cl := (\<lambda>k. (sw_cl w1 k)\<lparr>sc_in := sc_in (sw_cl w1 k) @ [(sw_rev w1, sw_tree w1)]\<rparr>)\<rparr>"
  have w1: "sw_rev w1 = 1" "sw_tree w1 = Some ?s" "sw_due w1" "sw_cl w1 0 = (send_mark c0)\<lparr>sc_out := []\<rparr>" "sw_cl w1 1 = quiet_client"
    using cl m v by (simp_all add: w1_def daemon_reads_def)
  have q1: "quiet_step ?P {0, 1} w w1" unfolding w1_def by (rule q_stored) (simp_all add: cl m)
  have q2: "quiet_step ?P {0, 1} w1 w2" unfolding w2_def by (rule q_broadcast) (rule w1)
  have i2: "sync_inv ?P w2" using sync_step_inv [OF quiet_sync [OF q2] sync_step_inv [OF quiet_sync [OF q1] iw]] .
  have w2: "sw_rev w2 = 1" "sw_tree w2 = Some ?s" "\<not> sw_due w2" "sc_in (sw_cl w2 0) = [(1, Some ?s)]" "sc_in (sw_cl w2 1) = [(1, Some ?s)]"
      "sc_out (sw_cl w2 0) = []" "sc_out (sw_cl w2 1) = []" "\<not> layoutResend (sc_tab (sw_cl w2 0))" "\<not> layoutResend (sc_tab (sw_cl w2 1))"
    using w1 p0 m by (simp_all add: w2_def quiet_client_def)
  have c2: "client_inv ?P (sw_rev w2) (sw_tree w2) (sw_due w2) (sw_cl w2 k)" for k using i2 by (simp add: sync_inv_def)
  obtain d0 where d0: "client_reads ?P 0 0 (sw_cl w2 0) = Ret d0" "sc_in d0 = []" "sc_out d0 = []"
    using read_sends_nothing [OF c2 w2(4,8), of 0 0] w2 by auto
  obtain d1 where d1: "client_reads ?P 0 0 (sw_cl w2 1) = Ret d1" "sc_in d1 = []" "sc_out d1 = []"
    using read_sends_nothing [OF c2 w2(5,9), of 0 0] w2 by auto
  define w3 where "w3 = w2\<lparr>sw_cl := (sw_cl w2)(0 := d0)\<rparr>"
  define w4 where "w4 = w3\<lparr>sw_cl := (sw_cl w3)(1 := d1)\<rparr>"
  have q3: "quiet_step ?P {0, 1} w2 w3" unfolding w3_def by (rule q_read [OF _ _ d0(1)]) (simp_all add: w2)
  have q4: "quiet_step ?P {0, 1} w3 w4" unfolding w4_def by (rule q_read [where wd = 0 and ht = 0]) (use w2 d1 in \<open>simp_all add: w3_def\<close>)
  have run: "(quiet_step ?P {0, 1} ^^ 4) w w4" using q1 q2 q3 q4 by (auto simp: numeral_eq_Suc)
  have w4: "sw_rev w4 = 1" "sw_tree w4 = Some ?s" "\<not> sw_due w4" "sw_cl w4 0 = d0" "sw_cl w4 1 = d1" using w2 by (simp_all add: w4_def w3_def)
  have stop: "\<forall>w''. \<not> quiet_step ?P {0, 1} w4 w''"
    using w4 d0 d1 by (auto elim!: quiet_step.cases)
  have "(sync_step ?P)\<^sup>*\<^sup>* quiet_world w" using st by (rule r_into_rtranclp)
  then have "\<forall>k \<in> {0, 1}. layoutForSend (sc_tab (sw_cl w4 k)) = sw_tree w4"
    using layouts_converge [OF quiet_world_init _ _ run] stop by (simp add: Let_def)
  then show ?thesis using st run w4(1,2) by auto
qed

end
