(* ===== verification/Editor.thy ===== *)
theory Editor
  imports Go_Strings
begin

text \<open>
  The text editor of the terminal client (\<open>internal/tui/editor.go\<close>, \<open>editor_selection.go\<close>): the document as lines of
  UTF-8 bytes, a cursor and a selection in runes, every key, paste, mouse selection and the wrapping
  of long lines. An index out of range is a \<open>Panic\<close>. \<open>ld\<close> is \<open>unicode.IsLetter\<close> or \<open>IsDigit\<close>. Not modelled: the
  rendering and the highlighters. The clipboard is a command in the result.
\<close>

section \<open>Positions and selections\<close>

record EditorPos =
  pos_Row :: int
  pos_Col :: int

abbreviation pos :: "int \<Rightarrow> int \<Rightarrow> EditorPos" where
  "pos r c \<equiv> \<lparr>pos_Row = r, pos_Col = c\<rparr>"

record EditorSel =
  sel_Anchor :: EditorPos
  sel_Cursor :: EditorPos

definition line_at :: "string list \<Rightarrow> int \<Rightarrow> string outcome" where
  "line_at ls i = (if 0 \<le> i \<and> i < int (length ls) then Ret (ls ! nat i) else Panic)"

definition runeLen :: "string \<Rightarrow> int" where
  "runeLen s = int (RuneCountInString s)"

function runeOffset :: "string \<Rightarrow> int \<Rightarrow> nat" where
  "runeOffset s runePos = (if s = [] \<or> runePos = 0 then 0
     else snd (DecodeRune s) + runeOffset (drop (snd (DecodeRune s)) s) (runePos - 1))"
  by pat_completeness auto
termination
proof (relation "measure (\<lambda>(s, p). length s)")
  fix s :: string and p :: int
  assume "\<not> (s = [] \<or> p = 0)"
  then show "((drop (snd (DecodeRune s)) s, p - 1), s, p) \<in> measure (\<lambda>(s, p). length s)" using DecodeRune_width [of s] by simp
qed simp

declare runeOffset.simps [simp del]

definition clampInt :: "int \<Rightarrow> int \<Rightarrow> int \<Rightarrow> int" where
  "clampInt v lo hi = (if v < lo then lo else if v > hi then hi else v)"

definition Normalized :: "EditorSel \<Rightarrow> EditorPos \<times> EditorPos" where
  "Normalized s = (let a = sel_Anchor s; c = sel_Cursor s in
     if pos_Row a < pos_Row c \<or> (pos_Row a = pos_Row c \<and> pos_Col a \<le> pos_Col c) then (a, c) else (c, a))"

definition sel_IsEmpty :: "EditorSel \<Rightarrow> bool" where
  "sel_IsEmpty s \<longleftrightarrow> sel_Anchor s = sel_Cursor s"

definition ColRange :: "EditorSel \<Rightarrow> int \<Rightarrow> int \<Rightarrow> int \<times> int" where
  "ColRange s row lineRuneLen = (case Normalized s of (start, endp) \<Rightarrow>
     if row < pos_Row start \<or> row > pos_Row endp then (-1, -1)
     else if pos_Row start = pos_Row endp then (pos_Col start, pos_Col endp)
     else if row = pos_Row start then (pos_Col start, lineRuneLen)
     else if row = pos_Row endp then (0, pos_Col endp)
     else (0, lineRuneLen))"

text \<open>\<open>string(runes[:k])\<close> and \<open>string(runes[k:])\<close>, for a \<open>k\<close> inside the slice.\<close>

definition runes_upto :: "string \<Rightarrow> int \<Rightarrow> string" where
  "runes_upto s k = encode (take (nat k) (runes s))"

definition runes_from :: "string \<Rightarrow> int \<Rightarrow> string" where
  "runes_from s k = encode (drop (nat k) (runes s))"

text \<open>The rows between the ends are in range once the ends are clamped.\<close>

definition editorExtractText :: "string list \<Rightarrow> EditorSel option \<Rightarrow> string outcome" where
  "editorExtractText ls sel = (case sel of None \<Rightarrow> Ret [] | Some s \<Rightarrow>
     if sel_IsEmpty s then Ret [] else case Normalized s of (start0, end0) \<Rightarrow>
     let start = (if pos_Row start0 < 0 then pos 0 0 else start0) in
     obind (if pos_Row end0 \<ge> int (length ls)
        then obind (line_at ls (int (length ls) - 1)) (\<lambda>l. Ret (pos (int (length ls) - 1) (runeLen l)))
        else Ret end0) (\<lambda>endp.
     if pos_Row start = pos_Row endp then
       obind (line_at ls (pos_Row start)) (\<lambda>line.
         let rl = runeLen line; sc = clampInt (pos_Col start) 0 rl; ec = clampInt (pos_Col endp) 0 rl in
         if sc \<le> ec then Ret (encode (drop (nat sc) (take (nat ec) (runes line)))) else Panic)
     else
       obind (line_at ls (pos_Row start)) (\<lambda>first. obind (line_at ls (pos_Row endp)) (\<lambda>last_line.
         Ret (runes_from first (clampInt (pos_Col start) 0 (runeLen first))
           @ concat (map (\<lambda>row. CHR 0x0A # ls ! nat row) [pos_Row start + 1 .. pos_Row endp - 1])
           @ CHR 0x0A # runes_upto last_line (clampInt (pos_Col endp) 0 (runeLen last_line)))))))"

section \<open>Word and paragraph jumps\<close>

definition isWordChar :: "(nat \<Rightarrow> bool) \<Rightarrow> nat \<Rightarrow> bool" where
  "isWordChar ld r \<longleftrightarrow> ld r \<or> r = 95"

text \<open>The loop \<open>for i in range and P: i += dir\<close>; the callers' \<open>dir\<close> is 1 or -1.\<close>

function scan_while :: "('a \<Rightarrow> bool) \<Rightarrow> 'a list \<Rightarrow> int \<Rightarrow> int \<Rightarrow> int" where
  "scan_while P xs dir i = (if 0 \<le> i \<and> i < int (length xs) \<and> P (xs ! nat i) \<and> dir \<noteq> 0 then scan_while P xs dir (i + dir) else i)"
  by pat_completeness auto
termination
  by (relation "measure (\<lambda>(P, xs, dir, i). nat (if dir > 0 then int (length xs) - i else i + 1))") auto

declare scan_while.simps [simp del]

definition editorWordBoundary :: "(nat \<Rightarrow> bool) \<Rightarrow> string \<Rightarrow> int \<Rightarrow> int \<Rightarrow> int" where
  "editorWordBoundary ld line startCol dir =
    (let rs = runes line; rl = int (length rs); col = startCol + dir in
     if rl = 0 then 0 else if col < 0 then 0 else if col \<ge> rl then rl
     else let col1 = scan_while (\<lambda>r. \<not> isWordChar ld r) rs dir col;
              col2 = scan_while (isWordChar ld) rs dir col1;
              col3 = (if dir < 0 then col2 + 1 else col2)
          in if col3 < 0 then 0 else if col3 > rl then rl else col3)"

definition word_step :: "(nat \<Rightarrow> bool) \<Rightarrow> string list \<Rightarrow> int \<Rightarrow> EditorPos \<Rightarrow> EditorPos" where
  "word_step ld ls dir cur =
    (let next_col = editorWordBoundary ld (ls ! nat (pos_Row cur)) (pos_Col cur) dir in
     if next_col \<noteq> pos_Col cur then cur\<lparr>pos_Col := next_col\<rparr>
     else if dir > 0 \<and> pos_Row cur < int (length ls) - 1 then
       (let l = ls ! nat (pos_Row cur + 1) in
        pos (pos_Row cur + 1) (if runeLen l > 0 then editorWordBoundary ld l (-1) 1 else 0))
     else if dir < 0 \<and> pos_Row cur > 0 then
       (let l = ls ! nat (pos_Row cur - 1); rl = runeLen l in
        pos (pos_Row cur - 1) (if rl > 0 then editorWordBoundary ld l rl (-1) else 0))
     else cur)"

fun editorWordJump :: "(nat \<Rightarrow> bool) \<Rightarrow> string list \<Rightarrow> EditorPos \<Rightarrow> int \<Rightarrow> nat \<Rightarrow> EditorPos" where
  "editorWordJump ld ls cur dir 0 = cur"
| "editorWordJump ld ls cur dir (Suc n) =
    (if pos_Row cur < 0 \<or> pos_Row cur \<ge> int (length ls) then cur
     else let nxt = word_step ld ls dir cur in if nxt = cur then cur else editorWordJump ld ls nxt dir n)"

definition isEmptyOrWhitespace :: "string \<Rightarrow> bool" where
  "isEmptyOrWhitespace line = list_all (\<lambda>r. r = 32 \<or> r = 9) (runes line)"

definition editorParagraphJump :: "string list \<Rightarrow> int \<Rightarrow> int \<Rightarrow> int" where
  "editorParagraphJump ls fromRow dir =
    (let row1 = scan_while isEmptyOrWhitespace ls dir fromRow;
         row2 = scan_while (\<lambda>l. \<not> isEmptyOrWhitespace l) ls dir row1
     in if row2 < 0 then 0 else if row2 \<ge> int (length ls) then int (length ls) - 1 else row2)"

section \<open>The editor\<close>

record TextEditor =
  ed_Lines :: "string list"
  CursorRow :: int
  CursorCol :: int
  ScrollTop :: int
  ViewHeight :: int
  ViewWidth :: int
  ed_FilePath :: string
  ed_Dirty :: bool
  SaveErr :: string
  ed_Sel :: "EditorSel option"
  ed_ReadOnly :: bool
  PageSize :: int
  SoftWrap :: bool

record visualRow =
  vr_Logical :: nat
  vr_Start :: int
  vr_End :: int

definition NewTextEditor :: "string \<Rightarrow> string \<Rightarrow> int \<Rightarrow> int \<Rightarrow> TextEditor" where
  "NewTextEditor content filePath viewW viewH =
    \<lparr>ed_Lines = split_on (CHR 0x0A) (ReplaceAll content [CHR 0x0D] []), CursorRow = 0, CursorCol = 0, ScrollTop = 0,
     ViewHeight = viewH, ViewWidth = viewW, ed_FilePath = filePath, ed_Dirty = False, SaveErr = [], ed_Sel = None,
     ed_ReadOnly = False, PageSize = 0, SoftWrap = False\<rparr>"

definition ApproxBytes :: "TextEditor \<Rightarrow> nat" where
  "ApproxBytes e = sum_list (map length (ed_Lines e)) + (if length (ed_Lines e) > 1 then length (ed_Lines e) - 1 else 0)"

definition Content :: "TextEditor \<Rightarrow> string" where
  "Content e = join_with [CHR 0x0A] (ed_Lines e)"

fun decimal_width :: "nat \<Rightarrow> int" where
  "decimal_width n = (if n < 10 then 1 else 1 + decimal_width (n div 10))"

declare decimal_width.simps [simp del]

definition GutterWidth :: "TextEditor \<Rightarrow> int" where
  "GutterWidth e = max 3 (decimal_width (max 1 (length (ed_Lines e)))) + 1"

definition contentWForLayout :: "TextEditor \<Rightarrow> int" where
  "contentWForLayout e = max 10 (ViewWidth e - GutterWidth e - 1)"

section \<open>Wrapped rows\<close>

function wrap_rows :: "nat \<Rightarrow> int \<Rightarrow> int \<Rightarrow> int \<Rightarrow> visualRow list" where
  "wrap_rows i start rl w = (if start < rl \<and> w \<ge> 1
     then \<lparr>vr_Logical = i, vr_Start = start, vr_End = min (start + w) rl\<rparr> # wrap_rows i (start + w) rl w else [])"
  by pat_completeness auto
termination
  by (relation "measure (\<lambda>(i, start, rl, w). nat (rl - start))") auto

declare wrap_rows.simps [simp del]

definition line_rows :: "bool \<Rightarrow> int \<Rightarrow> nat \<Rightarrow> string \<Rightarrow> visualRow list" where
  "line_rows soft w i line = (let rl = runeLen line in
     if \<not> soft then [\<lparr>vr_Logical = i, vr_Start = 0, vr_End = rl\<rparr>]
     else if rl = 0 then [\<lparr>vr_Logical = i, vr_Start = 0, vr_End = 0\<rparr>]
     else wrap_rows i 0 rl w)"

definition visualLayout :: "TextEditor \<Rightarrow> int \<Rightarrow> visualRow list" where
  "visualLayout e contentW = concat (map (\<lambda>i. line_rows (SoftWrap e) (max 1 contentW) i (ed_Lines e ! i)) [0..<length (ed_Lines e)])"

definition owns_cursor :: "TextEditor \<Rightarrow> visualRow list \<Rightarrow> nat \<Rightarrow> bool" where
  "owns_cursor e layout vi \<longleftrightarrow> (let vr = layout ! vi in int (vr_Logical vr) = CursorRow e
     \<and> (vr_Start vr \<le> CursorCol e \<and> CursorCol e < vr_End vr
       \<or> CursorCol e = vr_End vr \<and> (vi + 1 = length layout \<or> vr_Logical (layout ! (vi + 1)) \<noteq> vr_Logical vr)))"

definition cursorVisualRow :: "TextEditor \<Rightarrow> visualRow list \<Rightarrow> nat" where
  "cursorVisualRow e layout = (if layout = [] then 0
     else case find (owns_cursor e layout) [0..<length layout] of Some vi \<Rightarrow> vi
     | None \<Rightarrow> (case find (\<lambda>vi. int (vr_Logical (layout ! vi)) \<ge> CursorRow e) [0..<length layout] of Some vi \<Rightarrow> vi
       | None \<Rightarrow> length layout - 1))"

definition visualToLogical :: "visualRow list \<Rightarrow> int \<Rightarrow> int \<Rightarrow> int \<times> int" where
  "visualToLogical layout vrow vcol = (if layout = [] then (0, 0) else
     let vr = layout ! nat (min (max vrow 0) (int (length layout) - 1)) in
     (int (vr_Logical vr), vr_Start vr + min (max vcol 0) (vr_End vr - vr_Start vr)))"

definition ensureCursorVisible :: "TextEditor \<Rightarrow> TextEditor" where
  "ensureCursorVisible e =
    (let at = (if SoftWrap e then int (cursorVisualRow e (visualLayout e (contentWForLayout e))) else CursorRow e);
         top1 = (if at < ScrollTop e then at else ScrollTop e);
         top2 = (if at \<ge> top1 + ViewHeight e then at - ViewHeight e + 1 else top1)
     in e\<lparr>ScrollTop := (if top2 < 0 then 0 else top2)\<rparr>)"

section \<open>Cursor movement\<close>

definition cursor_to :: "EditorPos \<Rightarrow> TextEditor \<Rightarrow> TextEditor" where
  "cursor_to p e = e\<lparr>CursorRow := pos_Row p, CursorCol := pos_Col p\<rparr>"

definition clampCol :: "TextEditor \<Rightarrow> TextEditor outcome" where
  "clampCol e = obind (line_at (ed_Lines e) (CursorRow e)) (\<lambda>l. Ret (if CursorCol e > runeLen l then e\<lparr>CursorCol := runeLen l\<rparr> else e))"

definition verticalMove :: "int \<Rightarrow> TextEditor \<Rightarrow> TextEditor outcome" where
  "verticalMove dir e =
    (if \<not> SoftWrap e then
       (let target = CursorRow e + dir in
        if target < 0 \<or> target \<ge> int (length (ed_Lines e)) then Ret e else clampCol (e\<lparr>CursorRow := target\<rparr>))
     else
       (let layout = visualLayout e (contentWForLayout e) in
        if layout = [] then Ret e else
        let vi = cursorVisualRow e layout; nv = int vi + dir in
        if nv < 0 \<or> nv \<ge> int (length layout) then Ret e
        else case visualToLogical layout nv (CursorCol e - vr_Start (layout ! vi)) of (row, col) \<Rightarrow> Ret (cursor_to (pos row col) e)))"

text \<open>One step left or right from a position, over line ends.\<close>

definition right_of :: "string list \<Rightarrow> EditorPos \<Rightarrow> EditorPos outcome" where
  "right_of ls p = obind (line_at ls (pos_Row p)) (\<lambda>l. Ret (if pos_Col p < runeLen l then p\<lparr>pos_Col := pos_Col p + 1\<rparr>
     else if pos_Row p < int (length ls) - 1 then pos (pos_Row p + 1) 0 else p))"

definition left_of :: "string list \<Rightarrow> EditorPos \<Rightarrow> EditorPos outcome" where
  "left_of ls p = (if pos_Col p > 0 then Ret (p\<lparr>pos_Col := pos_Col p - 1\<rparr>)
     else if pos_Row p > 0 then obind (line_at ls (pos_Row p - 1)) (\<lambda>l. Ret (pos (pos_Row p - 1) (runeLen l)))
     else Ret p)"

definition at_row :: "string list \<Rightarrow> EditorPos \<Rightarrow> int \<Rightarrow> EditorPos outcome" where
  "at_row ls p row = obind (line_at ls row) (\<lambda>l. Ret (pos row (if pos_Col p > runeLen l then runeLen l else pos_Col p)))"

definition isSelectionKey :: "string \<Rightarrow> bool" where
  "isSelectionKey key \<longleftrightarrow> key \<in> set [''shift+right'', ''shift+left'', ''shift+up'', ''shift+down'', ''ctrl+shift+right'', ''ctrl+shift+left'',
     ''ctrl+alt+shift+right'', ''ctrl+alt+shift+left'', ''ctrl+shift+up'', ''ctrl+shift+down'', ''shift+home'', ''shift+end'']"

definition sel_move :: "(nat \<Rightarrow> bool) \<Rightarrow> string list \<Rightarrow> string \<Rightarrow> EditorPos \<Rightarrow> EditorPos outcome" where
  "sel_move ld ls key cur =
    (if key = ''shift+right'' then right_of ls cur
     else if key = ''shift+left'' then left_of ls cur
     else if key = ''shift+up'' then (if pos_Row cur > 0 then at_row ls cur (pos_Row cur - 1) else Ret cur)
     else if key = ''shift+down'' then (if pos_Row cur < int (length ls) - 1 then at_row ls cur (pos_Row cur + 1) else Ret cur)
     else if key = ''ctrl+shift+right'' then Ret (editorWordJump ld ls cur 1 1)
     else if key = ''ctrl+shift+left'' then Ret (editorWordJump ld ls cur (-1) 1)
     else if key = ''ctrl+alt+shift+right'' then Ret (editorWordJump ld ls cur 1 3)
     else if key = ''ctrl+alt+shift+left'' then Ret (editorWordJump ld ls cur (-1) 3)
     else if key = ''ctrl+shift+up'' then Ret (pos (editorParagraphJump ls (pos_Row cur) (-1)) 0)
     else if key = ''ctrl+shift+down'' then Ret (pos (editorParagraphJump ls (pos_Row cur) 1) 0)
     else if key = ''shift+home'' then Ret (cur\<lparr>pos_Col := 0\<rparr>)
     else if key = ''shift+end'' then obind (line_at ls (pos_Row cur)) (\<lambda>l. Ret (cur\<lparr>pos_Col := runeLen l\<rparr>))
     else Ret cur)"

definition handleSelectionKey :: "(nat \<Rightarrow> bool) \<Rightarrow> string \<Rightarrow> TextEditor \<Rightarrow> TextEditor outcome" where
  "handleSelectionKey ld key e =
    (let here = pos (CursorRow e) (CursorCol e);
         sel = (case ed_Sel e of None \<Rightarrow> \<lparr>sel_Anchor = here, sel_Cursor = here\<rparr> | Some s \<Rightarrow> s)
     in obind (sel_move ld (ed_Lines e) key (sel_Cursor sel)) (\<lambda>cur. Ret (cursor_to cur (e\<lparr>ed_Sel := Some (sel\<lparr>sel_Cursor := cur\<rparr>)\<rparr>))))"

definition selectAll :: "TextEditor \<Rightarrow> TextEditor outcome" where
  "selectAll e = (let lastRow = int (length (ed_Lines e)) - 1 in
     obind (line_at (ed_Lines e) lastRow) (\<lambda>l. Ret (cursor_to (pos lastRow (runeLen l))
       (e\<lparr>ed_Sel := Some \<lparr>sel_Anchor = pos 0 0, sel_Cursor = pos lastRow (runeLen l)\<rparr>\<rparr>))))"

section \<open>Edits\<close>

definition deleteSelection :: "TextEditor \<Rightarrow> TextEditor outcome" where
  "deleteSelection e0 = (case ed_Sel e0 of None \<Rightarrow> Ret e0 | Some s \<Rightarrow>
     if sel_IsEmpty s then Ret (e0\<lparr>ed_Sel := None\<rparr>) else case Normalized s of (start, endp) \<Rightarrow>
     let e = e0\<lparr>ed_Sel := None\<rparr>; ls = ed_Lines e in
     obind (line_at ls (pos_Row start)) (\<lambda>first. obind (line_at ls (pos_Row endp)) (\<lambda>last_line.
       let sc = clampInt (pos_Col start) 0 (runeLen first); ec = clampInt (pos_Col endp) 0 (runeLen last_line);
           merged = runes_upto first sc @ runes_from last_line ec;
           ls' = (if pos_Row start = pos_Row endp then ls[nat (pos_Row start) := merged]
             else take (nat (pos_Row start)) ls @ [merged] @ drop (nat (pos_Row endp + 1)) ls)
       in clampCol (cursor_to start (e\<lparr>ed_Lines := ls'\<rparr>)))))"

definition clearSel :: "TextEditor \<Rightarrow> (TextEditor \<times> bool) outcome" where
  "clearSel e = (case ed_Sel e of Some s \<Rightarrow> if \<not> sel_IsEmpty s then obind (deleteSelection e) (\<lambda>e'. Ret (e', True)) else Ret (e, False)
     | None \<Rightarrow> Ret (e, False))"

text \<open>The current line, its bytes before and after the cursor, and the clamped column.\<close>

definition split_line :: "TextEditor \<Rightarrow> (string \<times> string \<times> int) outcome" where
  "split_line e = obind (line_at (ed_Lines e) (CursorRow e)) (\<lambda>line.
     let col = min (CursorCol e) (runeLen line); byteOff = runeOffset line col in
     Ret (take byteOff line, drop byteOff line, col))"

definition insertText :: "string \<Rightarrow> TextEditor \<Rightarrow> TextEditor outcome" where
  "insertText s e = obind (split_line e) (\<lambda>(before, after, col).
     Ret (e\<lparr>ed_Lines := (ed_Lines e)[nat (CursorRow e) := before @ s @ after], CursorCol := col + runeLen s\<rparr>))"

definition insertNewline :: "TextEditor \<Rightarrow> TextEditor outcome" where
  "insertNewline e = obind (split_line e) (\<lambda>(before, after, col).
     let r = nat (CursorRow e); ls = (ed_Lines e)[r := before] in
     Ret (e\<lparr>ed_Lines := take (r + 1) ls @ [after] @ drop (r + 1) ls, CursorRow := CursorRow e + 1, CursorCol := 0\<rparr>))"

definition ed_backspace :: "TextEditor \<Rightarrow> TextEditor outcome" where
  "ed_backspace e =
    (if CursorCol e > 0 then
       obind (line_at (ed_Lines e) (CursorRow e)) (\<lambda>line.
         let col = min (CursorCol e) (runeLen line); prevOff = runeOffset line (col - 1); curOff = runeOffset line col in
         Ret (e\<lparr>ed_Lines := (ed_Lines e)[nat (CursorRow e) := take prevOff line @ drop curOff line], CursorCol := col - 1\<rparr>))
     else if CursorRow e > 0 then
       obind (line_at (ed_Lines e) (CursorRow e - 1)) (\<lambda>prevLine. obind (line_at (ed_Lines e) (CursorRow e)) (\<lambda>curLine.
         let r = nat (CursorRow e); ls = (ed_Lines e)[r - 1 := prevLine @ curLine] in
         Ret (e\<lparr>ed_Lines := take r ls @ drop (r + 1) ls, CursorRow := CursorRow e - 1, CursorCol := runeLen prevLine\<rparr>)))
     else Ret e)"

definition deleteChar :: "TextEditor \<Rightarrow> TextEditor outcome" where
  "deleteChar e = obind (line_at (ed_Lines e) (CursorRow e)) (\<lambda>line.
     if CursorCol e < runeLen line then
       Ret (e\<lparr>ed_Lines := (ed_Lines e)[nat (CursorRow e) := take (runeOffset line (CursorCol e)) line @ drop (runeOffset line (CursorCol e + 1)) line]\<rparr>)
     else if CursorRow e < int (length (ed_Lines e)) - 1 then
       (let r = nat (CursorRow e); ls = (ed_Lines e)[r := line @ ed_Lines e ! (r + 1)] in
        Ret (e\<lparr>ed_Lines := take (r + 1) ls @ drop (r + 2) ls\<rparr>))
     else Ret e)"

text \<open>Pasted text: its breaks, and its lines in the place of the cursor.\<close>

definition paste_parts :: "string \<Rightarrow> string list" where
  "paste_parts text = split_on (CHR 0x0A) (ReplaceAll (ReplaceAll text [CHR 0x0D, CHR 0x0A] [CHR 0x0A]) [CHR 0x0D] [CHR 0x0A])"

definition InsertMultiLine :: "string \<Rightarrow> TextEditor \<Rightarrow> TextEditor outcome" where
  "InsertMultiLine text e0 = (if ed_ReadOnly e0 then Ret e0 else obind (clearSel e0) (\<lambda>(e, _).
     let parts = paste_parts text in
     if length parts = 1 then insertText (hd parts) e
     else obind (split_line e) (\<lambda>(before, after, col).
       let r = nat (CursorRow e) in
       Ret (e\<lparr>ed_Lines := take r (ed_Lines e) @ [before @ hd parts] @ butlast (tl parts) @ [last parts @ after] @ drop (r + 1) (ed_Lines e),
         CursorRow := CursorRow e + int (length parts) - 1, CursorCol := runeLen (last parts)\<rparr>))))"

definition delete_line :: "TextEditor \<Rightarrow> TextEditor outcome" where
  "delete_line e0 = (let e = e0\<lparr>ed_Sel := None\<rparr>; ls = ed_Lines e in
     if length ls = 1 then Ret (if ls ! 0 \<noteq> [] then e\<lparr>ed_Lines := [[]], CursorCol := 0, ed_Dirty := True\<rparr> else e)
     else if 0 \<le> CursorRow e \<and> CursorRow e < int (length ls) then
       (let ls' = take (nat (CursorRow e)) ls @ drop (nat (CursorRow e) + 1) ls in
        obind (clampCol (e\<lparr>ed_Lines := ls', CursorRow := (if CursorRow e \<ge> int (length ls') then int (length ls') - 1 else CursorRow e)\<rparr>))
          (\<lambda>e'. Ret (e'\<lparr>ed_Dirty := True\<rparr>)))
     else Panic)"

definition kill_line :: "bool \<Rightarrow> TextEditor \<Rightarrow> TextEditor outcome" where
  "kill_line to_start e0 = (let e = e0\<lparr>ed_Sel := None\<rparr> in
     obind (line_at (ed_Lines e) (CursorRow e)) (\<lambda>line.
       let col = min (CursorCol e) (runeLen line); r = nat (CursorRow e) in
       if to_start then Ret (if col > 0 then e\<lparr>ed_Lines := (ed_Lines e)[r := runes_from line col], CursorCol := 0, ed_Dirty := True\<rparr> else e)
       else if col < 0 then Panic
       else Ret (if col < runeLen line then e\<lparr>ed_Lines := (ed_Lines e)[r := runes_upto line col], ed_Dirty := True\<rparr> else e)))"

section \<open>Saving\<close>

text \<open>What \<open>Save\<close> reads and calls: the optional validator, the TOML parser, \<open>filepath.Abs\<close>, the plugins directory and
  the atomic write. An error is its text.\<close>

record save_env =
  sv_SaveContent :: "(string \<Rightarrow> string option) option"
  sv_toml :: "string \<Rightarrow> string option"
  sv_Abs :: "string \<Rightarrow> string + string"
  sv_PluginsDir :: string
  sv_Separator :: string
  sv_Write :: "string \<Rightarrow> string \<Rightarrow> string option"

definition Save :: "save_env \<Rightarrow> TextEditor \<Rightarrow> TextEditor \<times> string option" where
  "Save env e = (let content = Content e in
     case sv_SaveContent env of
       Some f \<Rightarrow> (case f content of Some err \<Rightarrow> (e, Some err) | None \<Rightarrow> (e\<lparr>ed_Dirty := False\<rparr>, None))
     | None \<Rightarrow> (case sv_toml env content of Some err \<Rightarrow> (e, Some (''TOML syntax error: '' @ err)) | None \<Rightarrow>
       (case sv_Abs env (ed_FilePath e) of Inl err \<Rightarrow> (e, Some (''resolve path: '' @ err)) | Inr absPath \<Rightarrow>
       (case sv_Abs env (sv_PluginsDir env) of Inl err \<Rightarrow> (e, Some (''resolve plugins dir: '' @ err)) | Inr pluginsDir \<Rightarrow>
        if \<not> prefix (pluginsDir @ sv_Separator env) absPath then (e, Some ''path outside plugins directory'')
        else (case sv_Write env (ed_FilePath e) content of Some err \<Rightarrow> (e, Some (''write: '' @ err))
          | None \<Rightarrow> (e\<lparr>ed_Dirty := False\<rparr>, None))))))"

section \<open>Keys\<close>

datatype editor_cmd = NoCmd | CopyCmd string | PasteCmd

text \<open>Saved, closed, and the command.\<close>

type_synonym key_result = "TextEditor \<times> bool \<times> bool \<times> editor_cmd"

definition stays :: "TextEditor \<Rightarrow> key_result outcome" where
  "stays e = Ret (e, False, False, NoCmd)"

definition shown :: "TextEditor outcome \<Rightarrow> key_result outcome" where
  "shown m = obind m (\<lambda>e. stays (ensureCursorVisible e))"

definition selected :: "TextEditor \<Rightarrow> bool" where
  "selected e \<longleftrightarrow> (case ed_Sel e of Some s \<Rightarrow> \<not> sel_IsEmpty s | None \<Rightarrow> False)"

definition clipboard_key :: "string \<Rightarrow> TextEditor \<Rightarrow> key_result outcome" where
  "clipboard_key key e =
    (if key = ''ctrl+a'' then shown (selectAll e)
     else if key = ''ctrl+c'' then
       (if selected e then obind (editorExtractText (ed_Lines e) (ed_Sel e)) (\<lambda>text.
          Ret (ensureCursorVisible (e\<lparr>ed_Sel := None\<rparr>), False, False, CopyCmd text))
        else shown (Ret e))
     else if key = ''ctrl+x'' then
       (if \<not> ed_ReadOnly e \<and> selected e then obind (editorExtractText (ed_Lines e) (ed_Sel e)) (\<lambda>text. obind (deleteSelection e) (\<lambda>e'.
          Ret (ensureCursorVisible (e'\<lparr>ed_Dirty := True\<rparr>), False, False, CopyCmd text)))
        else shown (Ret e))
     else (if ed_ReadOnly e then shown (Ret e) else Ret (ensureCursorVisible e, False, False, PasteCmd)))"

definition dirty :: "TextEditor outcome \<Rightarrow> TextEditor outcome" where
  "dirty m = obind m (\<lambda>e. Ret (e\<lparr>ed_Dirty := True\<rparr>))"

definition edit_or_clear :: "(TextEditor \<Rightarrow> TextEditor outcome) \<Rightarrow> TextEditor \<Rightarrow> TextEditor outcome" where
  "edit_or_clear f e = dirty (obind (clearSel e) (\<lambda>(e', cleared). if cleared then Ret e' else f e'))"

definition clear_and_insert :: "string \<Rightarrow> TextEditor \<Rightarrow> TextEditor outcome" where
  "clear_and_insert s e = dirty (obind (clearSel e) (\<lambda>(e', _). insertText s e'))"

definition edit_key :: "save_env \<Rightarrow> string \<Rightarrow> TextEditor \<Rightarrow> key_result outcome" where
  "edit_key env key e =
    (if key = ''esc'' then (if ed_Sel e \<noteq> None then stays (e\<lparr>ed_Sel := None\<rparr>) else Ret (e, False, True, NoCmd))
     else if key = ''ctrl+s'' then
       (if ed_ReadOnly e then stays e else case Save env e of (e', Some err) \<Rightarrow> stays (e'\<lparr>SaveErr := err\<rparr>)
        | (e', None) \<Rightarrow> Ret (e', True, False, NoCmd))
     else if key = ''enter'' then
       (if selected e then obind (editorExtractText (ed_Lines e) (ed_Sel e)) (\<lambda>text.
          Ret (ensureCursorVisible (e\<lparr>ed_Sel := None\<rparr>), False, False, CopyCmd text))
        else if ed_ReadOnly e then stays e else shown (dirty (insertNewline e)))
     else if key = ''backspace'' then (if ed_ReadOnly e then stays e else shown (edit_or_clear ed_backspace e))
     else if key = ''delete'' then (if ed_ReadOnly e then stays e else shown (edit_or_clear deleteChar e))
     else if key = ''ctrl+y'' then (if ed_ReadOnly e then stays e else shown (delete_line e))
     else if key = ''ctrl+u'' then (if ed_ReadOnly e then stays e else shown (obind (kill_line True e) (\<lambda>e'. Ret (ensureCursorVisible e'))))
     else if key = ''ctrl+k'' then (if ed_ReadOnly e then stays e else shown (obind (kill_line False e) (\<lambda>e'. Ret (ensureCursorVisible e'))))
     else if ed_ReadOnly e then shown (Ret e)
     else if key = ''tab'' then shown (clear_and_insert ''  '' e)
     else if key = ''space'' then shown (clear_and_insert '' '' e)
     else if RuneCountInString key = 1 \<and> fst (DecodeRune key) \<ge> 32 then shown (clear_and_insert key e)
     else shown (Ret e))"

text \<open>The movement keys, after the selection is dropped; \<open>None\<close> for another key.\<close>

definition move_key :: "(nat \<Rightarrow> bool) \<Rightarrow> string \<Rightarrow> TextEditor \<Rightarrow> TextEditor outcome option" where
  "move_key ld key e =
    (let ls = ed_Lines e; here = pos (CursorRow e) (CursorCol e); goto = (\<lambda>m. Some (obind m (\<lambda>p. Ret (cursor_to p e))));
         step = (if PageSize e \<le> 0 then 40 else PageSize e);
         layout = visualLayout e (contentWForLayout e); vi = cursorVisualRow e layout;
         wrapped = (\<lambda>f. Some (if vi < length layout then Ret (e\<lparr>CursorCol := f (layout ! vi)\<rparr>) else Panic))
     in if key = ''up'' then Some (verticalMove (-1) e)
     else if key = ''down'' then Some (verticalMove 1 e)
     else if key = ''left'' then goto (left_of ls here)
     else if key = ''right'' then goto (right_of ls here)
     else if key = ''home'' then (if SoftWrap e then wrapped vr_Start else Some (Ret (e\<lparr>CursorCol := 0\<rparr>)))
     else if key = ''end'' then (if SoftWrap e then wrapped vr_End
       else Some (obind (line_at ls (CursorRow e)) (\<lambda>l. Ret (e\<lparr>CursorCol := runeLen l\<rparr>))))
     else if key = ''ctrl+right'' then goto (Ret (editorWordJump ld ls here 1 1))
     else if key = ''ctrl+left'' then goto (Ret (editorWordJump ld ls here (-1) 1))
     else if key = ''ctrl+alt+right'' then goto (Ret (editorWordJump ld ls here 1 3))
     else if key = ''ctrl+alt+left'' then goto (Ret (editorWordJump ld ls here (-1) 3))
     else if key = ''ctrl+up'' then goto (Ret (pos (editorParagraphJump ls (CursorRow e) (-1)) 0))
     else if key = ''ctrl+down'' then goto (Ret (pos (editorParagraphJump ls (CursorRow e) 1) 0))
     else if key = ''alt+up'' then Some (clampCol (e\<lparr>CursorRow := max 0 (CursorRow e - step)\<rparr>))
     else if key = ''alt+down'' then Some (clampCol (e\<lparr>CursorRow := min (int (length ls) - 1) (CursorRow e + step)\<rparr>))
     else None)"

definition HandleKey :: "(nat \<Rightarrow> bool) \<Rightarrow> save_env \<Rightarrow> string \<Rightarrow> TextEditor \<Rightarrow> key_result outcome" where
  "HandleKey ld env key e0 = (let e = e0\<lparr>SaveErr := []\<rparr> in
     if isSelectionKey key then shown (handleSelectionKey ld key e)
     else if key \<in> set [''ctrl+a'', ''ctrl+c'', ''ctrl+x'', ''ctrl+v''] then clipboard_key key e
     else case move_key ld key (e\<lparr>ed_Sel := None\<rparr>) of Some m \<Rightarrow> shown m | None \<Rightarrow> edit_key env key e)"

section \<open>The mouse\<close>

definition clampPos :: "TextEditor \<Rightarrow> int \<Rightarrow> int \<Rightarrow> int \<times> int" where
  "clampPos e row col = (if ed_Lines e = [] then (0, 0) else
     let r = min (max row 0) (int (length (ed_Lines e)) - 1) in (r, min (max col 0) (runeLen (ed_Lines e ! nat r))))"

definition setCursorAt :: "int \<Rightarrow> int \<Rightarrow> TextEditor \<Rightarrow> TextEditor" where
  "setCursorAt row col e = (case clampPos e row col of (r, c) \<Rightarrow> ensureCursorVisible (cursor_to (pos r c) e\<lparr>ed_Sel := None\<rparr>))"

definition beginSelectionAt :: "int \<Rightarrow> int \<Rightarrow> TextEditor \<Rightarrow> TextEditor" where
  "beginSelectionAt row col e = (case clampPos e row col of (r, c) \<Rightarrow>
     cursor_to (pos r c) e\<lparr>ed_Sel := Some \<lparr>sel_Anchor = pos r c, sel_Cursor = pos r c\<rparr>\<rparr>)"

definition extendSelectionAt :: "int \<Rightarrow> int \<Rightarrow> TextEditor \<Rightarrow> TextEditor" where
  "extendSelectionAt row col e = (case clampPos e row col of (r, c) \<Rightarrow>
     ensureCursorVisible (cursor_to (pos r c) e\<lparr>ed_Sel := Some (case ed_Sel e of
       None \<Rightarrow> \<lparr>sel_Anchor = pos r c, sel_Cursor = pos r c\<rparr> | Some s \<Rightarrow> s\<lparr>sel_Cursor := pos r c\<rparr>)\<rparr>))"

end
