(* ===== verification/Editor_Props.thy ===== *)
theory Editor_Props
  imports Editor Transition
begin

text \<open>
  The editor never leaves its document and, for a reader of the text, is the plain editor of one
  string with a caret: every editing key replaces a stretch of the text. Wrapped rows show each
  line once and the cursor once.
\<close>

section \<open>Bytes and runes\<close>

lemma runeLen_runes: "runeLen s = int (length (runes s))" "0 \<le> runeLen s"
  by (simp_all add: runeLen_def RuneCountInString_def)

lemma valid_encode: "ValidString s \<Longrightarrow> encode (runes s) = s" "ValidString s \<Longrightarrow> list_all valid_rune (runes s)"
  using ValidString_runes by auto

lemma valid_sub: "list_all valid_rune rs \<Longrightarrow> list_all valid_rune (take k rs)" "list_all valid_rune rs \<Longrightarrow> list_all valid_rune (drop k rs)"
  by (auto simp: list_all_iff dest: in_set_takeD in_set_dropD)

lemma runeOffset_encode: "list_all valid_rune rs \<Longrightarrow> 0 \<le> p \<Longrightarrow> runeOffset (encode rs) p = length (encode (take (nat p) rs))"
proof (induction rs arbitrary: p)
  case Nil
  show ?case by (subst runeOffset.simps) simp
next
  case (Cons r rs)
  have D: "DecodeRune (encode (r # rs)) = (r, length (encode_rune r))"
    using first_rune_encoded [of r "encode rs"] Cons.prems by (simp add: DecodeRune_def)
  show ?case
  proof (cases "p = 0")
    case False
    then have "nat p = Suc (nat (p - 1))" using Cons.prems by simp
    then show ?thesis using False Cons.IH [of "p - 1"] Cons.prems D by (subst runeOffset.simps) simp
  qed (subst runeOffset.simps, simp)
qed

lemma cut_line:
  assumes "ValidString l" "0 \<le> p"
  shows "take (runeOffset l p) l = runes_upto l p" "drop (runeOffset l p) l = runes_from l p"
proof -
  note v = valid_encode [OF assms(1)]
  have "encode (take (nat p) (runes l)) @ encode (drop (nat p) (runes l)) = encode (runes l)"
    by (simp only: encode_simps(3) [symmetric] append_take_drop_id)
  then have l: "l = encode (take (nat p) (runes l)) @ encode (drop (nat p) (runes l))" using v by simp
  have o: "runeOffset l p = length (encode (take (nat p) (runes l)))" using runeOffset_encode [OF v(2) assms(2)] v(1) by simp
  show "take (runeOffset l p) l = runes_upto l p" unfolding o runes_upto_def by (subst (2) l) simp
  show "drop (runeOffset l p) l = runes_from l p" unfolding o runes_from_def by (subst (2) l) simp
qed

lemma valid_parts [simp]:
  assumes "ValidString l"
  shows "ValidString (runes_upto l p)" "ValidString (runes_from l p)" "runes (runes_upto l p) = take (nat p) (runes l)"
    "runes (runes_from l p) = drop (nat p) (runes l)"
  using valid_sub [OF valid_encode(2) [OF assms]] by (auto simp: runes_upto_def runes_from_def intro: ValidString_encode runes_encode)

lemma valid_append:
  assumes "ValidString s" "ValidString t"
  shows "runes (s @ t) = runes s @ runes t \<and> ValidString (s @ t)"
proof -
  have "s @ t = encode (runes s @ runes t)" using valid_encode(1) assms by simp
  moreover have "list_all valid_rune (runes s @ runes t)" using valid_encode(2) assms by simp
  ultimately show ?thesis using runes_encode ValidString_encode by metis
qed

lemmas runes_append [simp] = valid_append [THEN conjunct1] and ValidString_append [simp] = valid_append [THEN conjunct2]

lemma runes_Nil [simp]: "runes [] = []" "ValidString []" "runeLen [] = 0"
  by (simp_all add: runes.simps ValidString.simps runeLen_def RuneCountInString_def)

section \<open>Positions\<close>

definition in_doc :: "string list \<Rightarrow> EditorPos \<Rightarrow> bool" where
  "in_doc ls p \<longleftrightarrow> 0 \<le> pos_Row p \<and> pos_Row p < int (length ls) \<and> 0 \<le> pos_Col p \<and> pos_Col p \<le> runeLen (ls ! nat (pos_Row p))"

lemma line_at_in [simp]: "0 \<le> i \<Longrightarrow> i < int (length ls) \<Longrightarrow> line_at ls i = Ret (ls ! nat i)"
  by (simp add: line_at_def)

definition lands :: "string list \<Rightarrow> EditorPos outcome \<Rightarrow> bool" where
  "lands ls m \<longleftrightarrow> (\<exists>q. m = Ret q \<and> in_doc ls q)"

lemma lands_Ret [simp]: "lands ls (Ret q) \<longleftrightarrow> in_doc ls q"
  by (simp add: lands_def)

lemma lands_if: "(c \<Longrightarrow> lands ls a) \<Longrightarrow> (\<not> c \<Longrightarrow> lands ls b) \<Longrightarrow> lands ls (if c then a else b)"
  by simp

lemma right_of_in: "in_doc ls p \<Longrightarrow> lands ls (right_of ls p)"
  by (auto simp: in_doc_def right_of_def runeLen_runes)

lemma left_of_in: "in_doc ls p \<Longrightarrow> lands ls (left_of ls p)"
  by (auto simp: in_doc_def left_of_def runeLen_runes)

lemma at_row_in: "in_doc ls p \<Longrightarrow> 0 \<le> row \<Longrightarrow> row < int (length ls) \<Longrightarrow> lands ls (at_row ls p row)"
  by (auto simp: in_doc_def at_row_def runeLen_runes)

lemma word_boundary_in: "0 \<le> editorWordBoundary ld l c dir \<and> editorWordBoundary ld l c dir \<le> runeLen l"
  by (simp add: editorWordBoundary_def Let_def runeLen_runes)

lemma word_step_in: "in_doc ls p \<Longrightarrow> in_doc ls (word_step ld ls dir p)"
  using word_boundary_in by (auto simp: word_step_def in_doc_def Let_def runeLen_runes)

lemma word_jump_in: "in_doc ls p \<Longrightarrow> in_doc ls (editorWordJump ld ls p dir n)"
  by (induction n arbitrary: p) (auto simp: Let_def intro: word_step_in)

declare editorWordJump.simps [simp del]

lemma paragraph_in: "ls \<noteq> [] \<Longrightarrow> in_doc ls (pos (editorParagraphJump ls r dir) 0)"
  by (auto simp: editorParagraphJump_def in_doc_def Let_def runeLen_runes neq_Nil_conv)

lemma in_doc_ne: "in_doc ls p \<Longrightarrow> ls \<noteq> []"
  by (auto simp: in_doc_def)

lemma sel_move_in:
  assumes p: "in_doc ls p"
  shows "lands ls (sel_move ld ls key p)"
proof -
  have rows: "pos_Row p > 0 \<Longrightarrow> lands ls (at_row ls p (pos_Row p - 1))" "pos_Row p < int (length ls) - 1 \<Longrightarrow> lands ls (at_row ls p (pos_Row p + 1))"
    using p by (auto intro!: at_row_in simp: in_doc_def)
  have ends: "in_doc ls (p\<lparr>pos_Col := 0\<rparr>)" "lands ls (obind (line_at ls (pos_Row p)) (\<lambda>l. Ret (p\<lparr>pos_Col := runeLen l\<rparr>)))"
    using p by (auto simp: in_doc_def runeLen_runes)
  note jumps = word_jump_in [OF p] paragraph_in [OF in_doc_ne [OF p]]
  show ?thesis unfolding sel_move_def
    by (intro lands_if) (simp_all only: lands_Ret right_of_in [OF p] left_of_in [OF p] rows ends jumps p)
qed

lemma clampPos_in: "ls = ed_Lines e \<Longrightarrow> ls \<noteq> [] \<Longrightarrow> in_doc ls (pos (fst (clampPos e r c)) (snd (clampPos e r c)))"
  by (auto simp: clampPos_def in_doc_def Let_def runeLen_runes neq_Nil_conv)

section \<open>Wrapped rows\<close>

lemma nth_wrap_rows:
  "w \<ge> 1 \<Longrightarrow> (k < length (wrap_rows i s rl w) \<longleftrightarrow> s + int k * w < rl)
    \<and> (s + int k * w < rl \<longrightarrow> wrap_rows i s rl w ! k = \<lparr>vr_Logical = i, vr_Start = s + int k * w, vr_End = min (s + (int k + 1) * w) rl\<rparr>)"
proof (induction i s rl w arbitrary: k rule: wrap_rows.induct)
  case (1 i s rl w)
  show ?case
  proof (cases "s < rl")
    case True
    show ?thesis
    proof (cases k)
      case 0
      then show ?thesis using True 1 by (subst (1 2) wrap_rows.simps) simp
    next
      case (Suc j)
      then show ?thesis using True 1(1) [of j] 1(2) by (subst (1 2) wrap_rows.simps) (simp add: algebra_simps)
    qed
  next
    case False
    then have "rl \<le> s + int k * w" using 1(2) by (metis add_increasing2 linorder_not_less mult_nonneg_nonneg of_nat_0_le_iff order_trans zero_le_one)
    then show ?thesis using False by (subst (1 2) wrap_rows.simps) simp
  qed
qed

lemma line_rows_soft: "w \<ge> 1 \<Longrightarrow> runeLen l > 0 \<Longrightarrow>
    (k < length (line_rows True w i l) \<longleftrightarrow> int k * w < runeLen l)
    \<and> (int k * w < runeLen l \<longrightarrow> line_rows True w i l ! k = \<lparr>vr_Logical = i, vr_Start = int k * w, vr_End = min ((int k + 1) * w) (runeLen l)\<rparr>)"
  using nth_wrap_rows [of w k i 0 "runeLen l"] by (simp add: line_rows_def Let_def)

lemma line_rows_plain: "\<not> soft \<or> runeLen l = 0 \<Longrightarrow> line_rows soft w i l = [\<lparr>vr_Logical = i, vr_Start = 0, vr_End = runeLen l\<rparr>]"
  by (auto simp: line_rows_def Let_def)

lemma row_cases: obtains "\<not> soft \<or> runeLen l = 0" | "soft" "runeLen l > 0"
  using runeLen_runes(2) [of l] by linarith

lemma line_rows_in:
  assumes w: "w \<ge> 1" and k: "k < length (line_rows soft w i l)"
  shows "vr_Logical (line_rows soft w i l ! k) = i \<and> 0 \<le> vr_Start (line_rows soft w i l ! k)
    \<and> vr_Start (line_rows soft w i l ! k) \<le> vr_End (line_rows soft w i l ! k) \<and> vr_End (line_rows soft w i l ! k) \<le> runeLen l
    \<and> (soft \<longrightarrow> vr_End (line_rows soft w i l ! k) - vr_Start (line_rows soft w i l ! k) \<le> w)"
proof (cases soft l rule: row_cases)
  case 1
  then show ?thesis using k w runeLen_runes(2) [of l] by (auto simp: line_rows_plain)
next
  case 2
  then show ?thesis using line_rows_soft [OF w 2(2), of k i] k w by (auto simp: algebra_simps)
qed

lemma line_rows_ne: "w \<ge> 1 \<Longrightarrow> line_rows soft w i l \<noteq> []"
proof (cases soft l rule: row_cases)
  case 2
  assume "w \<ge> 1"
  then show ?thesis using line_rows_soft [of w l 0 i] 2 by auto
qed (simp add: line_rows_plain)

definition owns :: "visualRow list \<Rightarrow> int \<Rightarrow> nat \<Rightarrow> bool" where
  "owns rows col k \<longleftrightarrow> k < length rows \<and> (vr_Start (rows ! k) \<le> col \<and> col < vr_End (rows ! k) \<or> col = vr_End (rows ! k) \<and> k + 1 = length rows)"

lemma row_owner:
  assumes w: "w \<ge> 1" and col: "0 \<le> col" "col \<le> runeLen l"
  shows "\<exists>!k. owns (line_rows soft w i l) col k"
proof (cases soft l rule: row_cases)
  case 1
  then show ?thesis using col by (auto simp: line_rows_plain owns_def)
next
  case 2
  let ?rows = "line_rows True w i l"
  note R = line_rows_soft [OF w 2(2), where i = i]
  have ne: "?rows \<noteq> []" by (rule line_rows_ne [OF w])
  define m where "m = length ?rows"
  have m: "m > 0" "runeLen l \<le> int m * w" using ne R [of m] by (auto simp: m_def)
  show ?thesis
  proof (cases "col = runeLen l")
    case True
    have "m - 1 < length ?rows" using m(1) by (simp add: m_def)
    then have "vr_End (?rows ! (m - 1)) = runeLen l" using R [of "m - 1"] m by (simp add: of_nat_diff)
    then have "owns ?rows col (m - 1)" using m(1) True by (auto simp: owns_def m_def)
    moreover have "k = m - 1" if "owns ?rows col k" for k using that True R [of k] by (auto simp: owns_def m_def)
    ultimately show ?thesis using 2(1) by auto
  next
    case False
    define k0 where "k0 = nat (col div w)"
    have d: "int k0 = col div w" using w col(1) by (simp add: k0_def pos_imp_zdiv_nonneg_iff)
    have m: "col div w * w + col mod w = col" "0 \<le> col mod w" "col mod w < w" using w by simp_all
    have k0: "int k0 * w \<le> col" "col < (int k0 + 1) * w"
      unfolding d distrib_right using m by linarith+
    have "owns ?rows col k0" using R [of k0] k0 col False by (auto simp: owns_def)
    moreover have "k = k0" if "owns ?rows col k" for k
    proof -
      have k: "int k * w < runeLen l" using that R [of k] by (simp add: owns_def)
      then have "vr_Start (?rows ! k) = int k * w" "vr_End (?rows ! k) = min ((int k + 1) * w) (runeLen l)" using R [of k] by simp_all
      moreover have "runeLen l \<le> (int k + 1) * w" if last_row: "k + 1 = length ?rows"
      proof -
        have "\<not> k + 1 < length ?rows" "int (k + 1) = int k + 1" using last_row by simp_all
        then show ?thesis using R [THEN conjunct1, of "k + 1"] by (simp add: add.commute)
      qed
      ultimately have "int k * w \<le> col" "col < (int k + 1) * w" using that col False by (auto simp: owns_def min_def split: if_splits)
      then have "int k * w < (int k0 + 1) * w" "int k0 * w < (int k + 1) * w" using k0 by linarith+
      then show "k = k0" using w by (simp add: mult_less_cancel_right)
    qed
    ultimately show ?thesis using 2(1) by auto
  qed
qed

section \<open>The layout of a document\<close>

definition rows_of :: "TextEditor \<Rightarrow> int \<Rightarrow> nat \<Rightarrow> visualRow list" where
  "rows_of e w i = line_rows (SoftWrap e) (max 1 w) i (ed_Lines e ! i)"

lemma rows_of_in: "vr \<in> set (rows_of e w i) \<Longrightarrow> vr_Logical vr = i \<and> 0 \<le> vr_Start vr \<and> vr_Start vr \<le> vr_End vr
    \<and> vr_End vr \<le> runeLen (ed_Lines e ! i) \<and> (SoftWrap e \<longrightarrow> vr_End vr - vr_Start vr \<le> max 1 w)"
  using line_rows_in [of "max 1 w" _ "SoftWrap e" i "ed_Lines e ! i"] by (auto simp: rows_of_def in_set_conv_nth)

lemma visualLayout_split: "r < length (ed_Lines e) \<Longrightarrow> visualLayout e w = concat (map (rows_of e w) [0..<r]) @ rows_of e w r
    @ concat (map (rows_of e w) [Suc r..<length (ed_Lines e)])"
proof -
  assume r: "r < length (ed_Lines e)"
  have "[0..<length (ed_Lines e)] = [0..<r] @ r # [Suc r..<length (ed_Lines e)]" using upt_add_eq_append [of 0 r "length (ed_Lines e) - r"] r upt_conv_Cons [OF r] by simp
  then show ?thesis unfolding visualLayout_def rows_of_def by simp
qed

lemma visualLayout_in: "vr \<in> set (visualLayout e w) \<Longrightarrow> vr_Logical vr < length (ed_Lines e) \<and> 0 \<le> vr_Start vr \<and> vr_Start vr \<le> vr_End vr
    \<and> vr_End vr \<le> runeLen (ed_Lines e ! vr_Logical vr) \<and> (SoftWrap e \<longrightarrow> vr_End vr - vr_Start vr \<le> max 1 w)"
proof -
  assume "vr \<in> set (visualLayout e w)"
  then obtain i where i: "i < length (ed_Lines e)" "vr \<in> set (rows_of e w i)" by (auto simp: visualLayout_def rows_of_def)
  then show ?thesis using rows_of_in [OF i(2)] by auto
qed

lemma visualLayout_ne: "ed_Lines e \<noteq> [] \<Longrightarrow> visualLayout e w \<noteq> []"
  using visualLayout_split [of 0 e w] line_rows_ne [of "max 1 w"] by (auto simp: rows_of_def)

lemma owner_unique:
  assumes "in_doc (ed_Lines e) (pos (CursorRow e) (CursorCol e))"
  shows "\<exists>!vi. vi < length (visualLayout e w) \<and> owns_cursor e (visualLayout e w) vi"
proof -
  define r where "r = nat (CursorRow e)"
  have r: "r < length (ed_Lines e)" "CursorRow e = int r" using assms by (auto simp: in_doc_def r_def)
  define A where "A = concat (map (rows_of e w) [0..<r])"
  define M where "M = rows_of e w r"
  define B where "B = concat (map (rows_of e w) [Suc r..<length (ed_Lines e)])"
  have L: "visualLayout e w = A @ M @ B" using visualLayout_split [OF r(1), of w] by (simp add: A_def M_def B_def)
  have A: "vr \<in> set A \<Longrightarrow> vr_Logical vr < r" and B: "vr \<in> set B \<Longrightarrow> vr_Logical vr > r" and M: "vr \<in> set M \<Longrightarrow> vr_Logical vr = r" for vr
    using rows_of_in [of vr e w] by (auto simp: A_def B_def M_def)
  have own: "vi < length (A @ M @ B) \<and> owns_cursor e (A @ M @ B) vi \<longleftrightarrow> (\<exists>k. vi = length A + k \<and> owns M (CursorCol e) k)" for vi
  proof (cases "length A \<le> vi \<and> vi < length A + length M")
    case True
    then obtain k where k: "vi = length A + k" "k < length M" using le_Suc_ex by auto
    have at: "(A @ M @ B) ! vi = M ! k" "vr_Logical (M ! k) = r" using k M [of "M ! k"] by (simp_all add: nth_append)
    have next_row: "vi + 1 = length (A @ M @ B) \<or> vr_Logical ((A @ M @ B) ! (vi + 1)) \<noteq> r \<longleftrightarrow> k + 1 = length M"
    proof (cases "k + 1 = length M")
      case True
      then show ?thesis using k B [of "B ! 0"] by (cases B) (auto simp: nth_append)
    next
      case False
      then have "k + 1 < length M" using k by simp
      then have "(A @ M @ B) ! (vi + 1) = M ! (k + 1)" "vr_Logical (M ! (k + 1)) = r" using k M [of "M ! (k + 1)"] by (simp_all add: nth_append)
      then show ?thesis using False k by auto
    qed
    show ?thesis unfolding owns_cursor_def Let_def at owns_def using next_row k r(2) at by auto
  next
    case False
    have "\<not> owns_cursor e (A @ M @ B) vi" if "vi < length (A @ M @ B)"
    proof (cases "vi < length A")
      case True
      then show ?thesis using A [of "A ! vi"] r(2) by (auto simp: owns_cursor_def Let_def nth_append)
    next
      case F: False
      then have "(A @ M @ B) ! vi \<in> set B" using False that by (auto simp: nth_append)
      then show ?thesis using B r(2) by (fastforce simp: owns_cursor_def Let_def)
    qed
    then show ?thesis using False by (auto simp: owns_def)
  qed
  have "\<exists>!k. owns M (CursorCol e) k" unfolding M_def rows_of_def by (rule row_owner) (use assms in \<open>auto simp: in_doc_def r_def\<close>)
  then show ?thesis unfolding L own by auto
qed

lemma cursorVisualRow_owner:
  assumes "in_doc (ed_Lines e) (pos (CursorRow e) (CursorCol e))"
  shows "cursorVisualRow e (visualLayout e w) < length (visualLayout e w)" "owns_cursor e (visualLayout e w) (cursorVisualRow e (visualLayout e w))"
proof -
  let ?l = "visualLayout e w"
  obtain vi where vi: "vi < length ?l" "owns_cursor e ?l vi" using owner_unique [OF assms] by blast
  then obtain vj where f: "find (owns_cursor e ?l) [0..<length ?l] = Some vj" by (cases "find (owns_cursor e ?l) [0..<length ?l]") (auto simp: find_None_iff)
  then have "vj < length ?l" "owns_cursor e ?l vj" using find_Some_iff [of "owns_cursor e ?l" "[0..<length ?l]" vj] by auto
  moreover have "cursorVisualRow e ?l = vj" using f vi by (auto simp: cursorVisualRow_def)
  ultimately show "cursorVisualRow e ?l < length ?l" "owns_cursor e ?l (cursorVisualRow e ?l)" by simp_all
qed

lemma visualToLogical_in:
  assumes "ed_Lines e \<noteq> []"
  shows "in_doc (ed_Lines e) (pos (fst (visualToLogical (visualLayout e w) vr vc)) (snd (visualToLogical (visualLayout e w) vr vc)))"
proof -
  let ?l = "visualLayout e w"
  have ne: "?l \<noteq> []" using visualLayout_ne [OF assms] .
  define k where "k = nat (min (max vr 0) (int (length ?l) - 1))"
  have "k < length ?l" using ne by (auto simp: k_def neq_Nil_conv)
  then have "?l ! k \<in> set ?l" by simp
  then show ?thesis using visualLayout_in [of "?l ! k" e w] ne by (auto simp: visualToLogical_def Let_def in_doc_def k_def [symmetric])
qed

section \<open>The text around a position\<close>

definition flat :: "string list \<Rightarrow> nat list" where
  "flat ls = concat (map (\<lambda>l. runes l @ [10]) ls)"

definition text_before :: "string list \<Rightarrow> EditorPos \<Rightarrow> nat list" where
  "text_before ls p = flat (take (nat (pos_Row p)) ls) @ take (nat (pos_Col p)) (runes (ls ! nat (pos_Row p)))"

definition text_after :: "string list \<Rightarrow> EditorPos \<Rightarrow> nat list" where
  "text_after ls p = drop (nat (pos_Col p)) (runes (ls ! nat (pos_Row p))) @ 10 # flat (drop (nat (pos_Row p) + 1) ls)"

lemma flat_simps [simp]: "flat [] = []" "flat (l # ls) = runes l @ 10 # flat ls" "flat (as @ bs) = flat as @ flat bs"
  by (simp_all add: flat_def)

lemma before_after: "in_doc ls p \<Longrightarrow> text_before ls p @ text_after ls p = flat ls"
proof -
  assume "in_doc ls p"
  then have r: "nat (pos_Row p) < length ls" by (simp add: in_doc_def nat_less_iff)
  have "flat ls = flat (take (nat (pos_Row p)) ls @ ls ! nat (pos_Row p) # drop (Suc (nat (pos_Row p))) ls)"
    using id_take_nth_drop [OF r] by (rule arg_cong)
  then show ?thesis by (simp add: text_before_def text_after_def)
qed

lemma at_mid [simp]:
  "text_before (as @ x # bs) (pos (int (length as)) c) = flat as @ take (nat c) (runes x)"
  "text_after (as @ x # bs) (pos (int (length as)) c) = drop (nat c) (runes x) @ 10 # flat bs"
  "in_doc (as @ x # bs) (pos (int (length as)) c) \<longleftrightarrow> 0 \<le> c \<and> c \<le> runeLen x"
  "line_at (as @ x # bs) (int (length as)) = Ret x"
  by (simp_all add: text_before_def text_after_def in_doc_def line_at_def nth_append)

lemma in_doc_mid:
  assumes "in_doc ls p"
  obtains as x bs where "ls = as @ x # bs" "p = pos (int (length as)) (pos_Col p)" "0 \<le> pos_Col p" "pos_Col p \<le> runeLen x"
proof -
  have r: "nat (pos_Row p) < length ls" "0 \<le> pos_Row p" "0 \<le> pos_Col p" "pos_Col p \<le> runeLen (ls ! nat (pos_Row p))"
    using assms by (simp_all add: in_doc_def nat_less_iff)
  show ?thesis
    by (rule that [OF id_take_nth_drop [OF r(1)]]) (use r in \<open>auto simp: min_def\<close>)
qed

abbreviation caret :: "TextEditor \<Rightarrow> EditorPos" where
  "caret e \<equiv> pos (CursorRow e) (CursorCol e)"

abbreviation all_valid :: "string list \<Rightarrow> bool" where
  "all_valid ls \<equiv> \<forall>l \<in> set ls. ValidString l"

text \<open>The text between \<open>a\<close> and \<open>b\<close> is replaced by \<open>txt\<close>, the caret stands behind it, nothing else of the text changes.\<close>

definition edited :: "TextEditor \<Rightarrow> EditorPos \<Rightarrow> nat list \<Rightarrow> EditorPos \<Rightarrow> TextEditor \<Rightarrow> bool" where
  "edited e a txt b e' \<longleftrightarrow> all_valid (ed_Lines e') \<and> in_doc (ed_Lines e') (caret e') \<and> ed_ReadOnly e' = ed_ReadOnly e
     \<and> text_before (ed_Lines e') (caret e') = text_before (ed_Lines e) a @ txt \<and> text_after (ed_Lines e') (caret e') = text_after (ed_Lines e) b"

definition edits :: "TextEditor \<Rightarrow> EditorPos \<Rightarrow> nat list \<Rightarrow> EditorPos \<Rightarrow> TextEditor outcome \<Rightarrow> bool" where
  "edits e a txt b m \<longleftrightarrow> (\<exists>e'. m = Ret e' \<and> edited e a txt b e' \<and> (ed_Sel e' = None \<or> ed_Sel e' = ed_Sel e))"

lemma editsI: "m = Ret e' \<Longrightarrow> edited e a txt b e' \<Longrightarrow> ed_Sel e' = None \<or> ed_Sel e' = ed_Sel e \<Longrightarrow> edits e a txt b m"
  by (auto simp: edits_def)

lemma split_line_mid:
  assumes "ed_Lines e = as @ x # bs" "CursorRow e = int (length as)" "0 \<le> CursorCol e" "CursorCol e \<le> runeLen x" "ValidString x"
  shows "split_line e = Ret (runes_upto x (CursorCol e), runes_from x (CursorCol e), CursorCol e)"
  using assms cut_line [of x "CursorCol e"] by (simp add: split_line_def min_def Let_def)

lemma insertText_edits:
  assumes "all_valid (ed_Lines e)" "in_doc (ed_Lines e) (caret e)" "ValidString s"
  shows "edits e (caret e) (runes s) (caret e) (insertText s e)"
proof -
  obtain as x bs where x: "ed_Lines e = as @ x # bs" "caret e = pos (int (length as)) (CursorCol e)" "0 \<le> CursorCol e" "CursorCol e \<le> runeLen x"
    using in_doc_mid [OF assms(2)] by auto
  have v: "ValidString x" using assms(1) x(1) by simp
  have c: "nat (CursorCol e) \<le> length (runes x)" using x(4) by (simp add: runeLen_runes)
  show ?thesis
    by (rule editsI, simp add: insertText_def split_line_mid [OF x(1) _ x(3,4) v] x(2) [simplified])
      (use x v c assms(1,3) in \<open>auto simp: edited_def runeLen_runes nat_add_distrib\<close>)
qed

lemma insertNewline_edits:
  assumes "all_valid (ed_Lines e)" "in_doc (ed_Lines e) (caret e)"
  shows "edits e (caret e) [10] (caret e) (insertNewline e)"
proof -
  obtain as x bs where x: "ed_Lines e = as @ x # bs" "caret e = pos (int (length as)) (CursorCol e)" "0 \<le> CursorCol e" "CursorCol e \<le> runeLen x"
    using in_doc_mid [OF assms(2)] by auto
  have v: "ValidString x" using assms(1) x(1) by simp
  have at: "text_before (as @ y # z # bs) (pos (int (length as) + 1) 0) = flat (as @ [y])" "text_after (as @ y # z # bs) (pos (int (length as) + 1) 0) = runes z @ 10 # flat bs"
      "in_doc (as @ y # z # bs) (pos (int (length as) + 1) 0)" for y z
    using at_mid(1-3) [of "as @ [y]" z bs 0] by (simp_all add: add.commute runeLen_runes)
  show ?thesis
    by (rule editsI, simp add: insertNewline_def split_line_mid [OF x(1) _ x(3,4) v] x(2) [simplified])
      (use x v at assms(1) in \<open>auto simp: edited_def\<close>)
qed

lemma backspace_edits:
  assumes "all_valid (ed_Lines e)" "in_doc (ed_Lines e) (caret e)" "left_of (ed_Lines e) (caret e) = Ret q"
  shows "edits e q [] (caret e) (ed_backspace e)"
proof -
  obtain as x bs where x: "ed_Lines e = as @ x # bs" "caret e = pos (int (length as)) (CursorCol e)" "0 \<le> CursorCol e" "CursorCol e \<le> runeLen x"
    using in_doc_mid [OF assms(2)] by auto
  have v: "ValidString x" using assms(1) x(1) by simp
  have r: "CursorRow e = int (length as)" using x(2) by simp
  show ?thesis
  proof (cases "CursorCol e > 0")
    case True
    then have q: "q = pos (int (length as)) (CursorCol e - 1)" using assms(3) r by (simp add: left_of_def)
    have c: "nat (CursorCol e - 1) \<le> length (runes x)" "min (CursorCol e) (runeLen x) = CursorCol e" using x(4) by (simp_all add: runeLen_runes min_def)
    have B: "ed_backspace e = Ret (e\<lparr>ed_Lines := as @ (runes_upto x (CursorCol e - 1) @ runes_from x (CursorCol e)) # bs, CursorCol := CursorCol e - 1\<rparr>)"
      using True cut_line [OF v, of "CursorCol e - 1"] cut_line [OF v, of "CursorCol e"] x r c(2) by (simp add: ed_backspace_def Let_def)
    show ?thesis by (rule editsI [OF B]) (use True x v c r q assms(1) in \<open>auto simp: edited_def runeLen_runes\<close>)
  next
    case False
    then have z: "CursorCol e = 0" using x(3) by simp
    show ?thesis
    proof (cases as rule: rev_cases)
      case Nil
      then show ?thesis using assms False r z by (intro editsI [of _ e]) (auto simp: ed_backspace_def left_of_def edited_def)
    next
      case (snoc as' y)
      have vy: "ValidString y" using assms(1) x(1) snoc by simp
      have ls: "ed_Lines e = as' @ y # x # bs" "int (length as) - 1 = int (length as')" using x(1) snoc by simp_all
      have q: "q = pos (int (length as')) (runeLen y)" using assms(3) r z snoc ls at_mid(4) [of as' y "x # bs"] by (auto simp: left_of_def)
      have B: "ed_backspace e = Ret (e\<lparr>ed_Lines := as' @ (y @ x) # bs, CursorRow := int (length as'), CursorCol := runeLen y\<rparr>)"
        using False r z snoc ls at_mid(4) [of as' y "x # bs"] at_mid(4) [of "as' @ [y]" x bs] by (simp add: ed_backspace_def Let_def nth_append list_update_append nat_add_distrib)
      have here: "text_after (as' @ y # x # bs) (caret e) = runes x @ 10 # flat bs" using at_mid(2) [of "as' @ [y]" x bs 0] r z snoc by simp
      show ?thesis by (rule editsI [OF B]) (use v vy ls q here assms(1) in \<open>auto simp: edited_def runeLen_runes\<close>)
    qed
  qed
qed

lemma deleteChar_edits:
  assumes "all_valid (ed_Lines e)" "in_doc (ed_Lines e) (caret e)" "right_of (ed_Lines e) (caret e) = Ret q"
  shows "edits e (caret e) [] q (deleteChar e)"
proof -
  obtain as x bs where x: "ed_Lines e = as @ x # bs" "caret e = pos (int (length as)) (CursorCol e)" "0 \<le> CursorCol e" "CursorCol e \<le> runeLen x"
    using in_doc_mid [OF assms(2)] by auto
  have v: "ValidString x" using assms(1) x(1) by simp
  have r: "CursorRow e = int (length as)" using x(2) by simp
  have c: "nat (CursorCol e) \<le> length (runes x)" using x(4) by (simp add: runeLen_runes)
  show ?thesis
  proof (cases "CursorCol e < runeLen x")
    case True
    then have q: "q = pos (int (length as)) (CursorCol e + 1)" using assms(3) r x(1) by (simp add: right_of_def)
    have B: "deleteChar e = Ret (e\<lparr>ed_Lines := as @ (runes_upto x (CursorCol e) @ runes_from x (CursorCol e + 1)) # bs\<rparr>)"
      using True cut_line [OF v, of "CursorCol e"] cut_line [OF v, of "CursorCol e + 1"] x r by (simp add: deleteChar_def Let_def)
    show ?thesis by (rule editsI [OF B]) (use True x v c r q assms(1) in \<open>auto simp: edited_def runeLen_runes\<close>)
  next
    case False
    then have z: "CursorCol e = runeLen x" using x(4) by simp
    show ?thesis
    proof (cases bs)
      case Nil
      then show ?thesis using assms False r z x by (intro editsI [of _ e]) (auto simp: deleteChar_def right_of_def edited_def)
    next
      case (Cons y bs')
      have vy: "ValidString y" using assms(1) x(1) Cons by simp
      have q: "q = pos (int (length as) + 1) 0" using assms(3) r z x Cons by (simp add: right_of_def)
      have B: "deleteChar e = Ret (e\<lparr>ed_Lines := as @ (x @ y) # bs'\<rparr>)"
        using False r x Cons by (simp add: deleteChar_def Let_def nth_append)
      have there: "text_after (as @ x # y # bs') (pos (int (length as) + 1) 0) = runes y @ 10 # flat bs'"
        using at_mid(2) [of "as @ [x]" y bs' 0] by (simp add: add.commute)
      show ?thesis by (rule editsI [OF B]) (use v vy x r z q Cons there assms(1) in \<open>auto simp: edited_def runeLen_runes\<close>)
    qed
  qed
qed

section \<open>Selections\<close>

lemma Normalized_in:
  assumes "in_doc ls (sel_Anchor s)" "in_doc ls (sel_Cursor s)" "Normalized s = (a, b)"
  shows "in_doc ls a" "in_doc ls b" "pos_Row a < pos_Row b \<or> pos_Row a = pos_Row b \<and> pos_Col a \<le> pos_Col b"
  using assms by (auto simp: Normalized_def Let_def split: if_splits)

lemma deleteSelection_edits:
  assumes v: "all_valid (ed_Lines e)" and s: "ed_Sel e = Some s" "\<not> sel_IsEmpty s" "Normalized s = (a, b)"
    and i: "in_doc (ed_Lines e) (sel_Anchor s)" "in_doc (ed_Lines e) (sel_Cursor s)"
  shows "\<exists>e'. deleteSelection e = Ret e' \<and> edited e a [] b e' \<and> ed_Sel e' = None"
proof -
  let ?ls = "ed_Lines e"
  note N = Normalized_in [OF i s(3)]
  define ra where "ra = nat (pos_Row a)"
  define rb where "rb = nat (pos_Row b)"
  have ra: "ra < length ?ls" "pos_Row a = int ra" "0 \<le> pos_Col a" "pos_Col a \<le> runeLen (?ls ! ra)"
    and rb: "rb < length ?ls" "pos_Row b = int rb" "0 \<le> pos_Col b" "pos_Col b \<le> runeLen (?ls ! rb)"
    using N(1,2) by (auto simp: in_doc_def ra_def rb_def)
  define merged where "merged = runes_upto (?ls ! ra) (pos_Col a) @ runes_from (?ls ! rb) (pos_Col b)"
  define ls' where "ls' = take ra ?ls @ merged # drop (Suc rb) ?ls"
  have vm: "ValidString (?ls ! ra)" "ValidString (?ls ! rb)" using v ra(1) rb(1) by simp_all
  then have m: "ValidString merged" "runes merged = take (nat (pos_Col a)) (runes (?ls ! ra)) @ drop (nat (pos_Col b)) (runes (?ls ! rb))"
    by (simp_all add: merged_def)
  have ls': "(if pos_Row a = pos_Row b then ?ls[ra := merged] else take ra ?ls @ [merged] @ drop (nat (pos_Row b + 1)) ?ls) = ls'"
    using ra rb by (simp add: ls'_def upd_conv_take_nth_drop nat_add_distrib)
  have len: "length (take ra ?ls) = ra" using ra(1) by simp
  have ca: "nat (pos_Col a) \<le> length (runes (?ls ! ra))" using ra(4) by (simp add: runeLen_runes)
  have at: "text_before ls' (pos (int ra) (pos_Col a)) = text_before ?ls a" "text_after ls' (pos (int ra) (pos_Col a)) = text_after ?ls b"
      "in_doc ls' (pos (int ra) (pos_Col a))" "line_at ls' (int ra) = Ret merged" "\<not> pos_Col a > runeLen merged"
    using at_mid(1-3) [of "take ra ?ls" merged "drop (Suc rb) ?ls" "pos_Col a", unfolded len]
      at_mid(4) [of "take ra ?ls" merged "drop (Suc rb) ?ls", unfolded len] m ca ra rb
    by (simp_all add: ls'_def text_before_def text_after_def runeLen_runes)
  have "deleteSelection e = Ret (e\<lparr>ed_Sel := None, ed_Lines := ls', CursorRow := int ra, CursorCol := pos_Col a\<rparr>)"
  proof -
    have la: "line_at ?ls (pos_Row a) = Ret (?ls ! ra)" "line_at ?ls (pos_Row b) = Ret (?ls ! rb)" "nat (pos_Row a) = ra" using ra rb by simp_all
    have cl: "clampInt (pos_Col a) 0 (runeLen (?ls ! ra)) = pos_Col a" "clampInt (pos_Col b) 0 (runeLen (?ls ! rb)) = pos_Col b"
      using ra rb by (simp_all add: clampInt_def)
    have sl: "ed_Lines (e\<lparr>ed_Sel := None\<rparr>) = ?ls" by simp
    have "deleteSelection e = clampCol (cursor_to a (e\<lparr>ed_Sel := None, ed_Lines := ls'\<rparr>))"
      unfolding deleteSelection_def by (simp only: s option.case if_False prod.case Let_def sl la cl obind_simps merged_def [symmetric] ls')
    then show ?thesis using at(4,5) ra(2) by (simp add: clampCol_def cursor_to_def)
  qed
  moreover have "all_valid ls'" using v m(1) by (auto simp: ls'_def dest: in_set_takeD in_set_dropD)
  ultimately show ?thesis using at by (auto simp: edited_def)
qed

lemma extracted:
  assumes v: "all_valid ls" and s: "\<not> sel_IsEmpty s" "Normalized s = (a, b)" and i: "in_doc ls (sel_Anchor s)" "in_doc ls (sel_Cursor s)"
  shows "\<exists>t. editorExtractText ls (Some s) = Ret t \<and> ValidString t \<and> text_before ls b = text_before ls a @ runes t"
proof -
  note N = Normalized_in [OF i s(2)]
  define ra where "ra = nat (pos_Row a)"
  define rb where "rb = nat (pos_Row b)"
  have ra: "ra < length ls" "pos_Row a = int ra" "0 \<le> pos_Col a" "pos_Col a \<le> runeLen (ls ! ra)"
    and rb: "rb < length ls" "pos_Row b = int rb" "0 \<le> pos_Col b" "pos_Col b \<le> runeLen (ls ! rb)"
    using N(1,2) by (auto simp: in_doc_def ra_def rb_def)
  have v2: "ValidString (ls ! ra)" "ValidString (ls ! rb)" using v ra(1) rb(1) by simp_all
  show ?thesis
  proof (cases "ra = rb")
    case True
    then have le: "pos_Col a \<le> pos_Col b" using N(3) ra rb by simp
    let ?rs = "runes (ls ! ra)"
    have t: "list_all valid_rune (drop (nat (pos_Col a)) (take (nat (pos_Col b)) ?rs))" using valid_encode(2) [OF v2(1)] by (intro valid_sub)
    have "take (nat (pos_Col b)) ?rs = take (nat (pos_Col a)) (take (nat (pos_Col b)) ?rs) @ drop (nat (pos_Col a)) (take (nat (pos_Col b)) ?rs)"
      by (simp only: append_take_drop_id)
    then have "take (nat (pos_Col b)) ?rs = take (nat (pos_Col a)) ?rs @ drop (nat (pos_Col a)) (take (nat (pos_Col b)) ?rs)"
      using le by (simp only: take_take min_absorb1 nat_mono)
    then have tb: "text_before ls b = text_before ls a @ drop (nat (pos_Col a)) (take (nat (pos_Col b)) ?rs)" using ra rb True by (simp add: text_before_def)
    have "editorExtractText ls (Some s) = Ret (encode (drop (nat (pos_Col a)) (take (nat (pos_Col b)) ?rs)))"
      using s ra rb True le by (simp add: editorExtractText_def Let_def clampInt_def)
    then show ?thesis using tb t by (auto intro: ValidString_encode simp: runes_encode)
  next
    case False
    then have lt: "ra < rb" using N(3) ra rb by auto
    define mids where "mids = drop (Suc ra) (take rb ls)"
    have tk: "take rb ls = take ra ls @ ls ! ra # mids" using id_take_nth_drop [of ra "take rb ls"] lt rb(1) by (simp add: mids_def min_def)
    have vm: "all_valid mids" using v by (auto simp: mids_def dest: in_set_takeD in_set_dropD)
    have len: "length [pos_Row a + 1 .. pos_Row b - 1] = length mids" using ra rb lt by (simp add: mids_def)
    have rows: "map (\<lambda>row. ls ! nat row) [pos_Row a + 1 .. pos_Row b - 1] = mids"
      by (rule nth_equalityI) (use len ra rb lt in \<open>auto simp: mids_def nth_upto nat_add_distrib nat_int_add\<close>)
    then have rows': "map (\<lambda>row. CHR 0x0A # ls ! nat row) [pos_Row a + 1 .. pos_Row b - 1] = map (Cons (CHR 0x0A)) mids"
      by (simp flip: rows)
    have nl: "runes [CHR 0x0A] = [10]" "ValidString [CHR 0x0A]" by code_simp+
    have cs: "ValidString t \<Longrightarrow> ValidString (CHR 0x0A # t) \<and> runes (CHR 0x0A # t) = 10 # runes t" for t using valid_append [OF nl(2), of t] nl(1) by simp
    have m: "ValidString (concat (map (Cons (CHR 0x0A)) mids)) \<and> runes (concat (map (Cons (CHR 0x0A)) mids)) @ 10 # zs = 10 # flat mids @ zs" for zs
      using vm by (induction mids arbitrary: zs) (auto simp: cs)
    define t where "t = runes_from (ls ! ra) (pos_Col a) @ concat (map (Cons (CHR 0x0A)) mids) @ CHR 0x0A # runes_upto (ls ! rb) (pos_Col b)"
    have "editorExtractText ls (Some s) = Ret t"
      using s ra rb False by (simp add: editorExtractText_def Let_def clampInt_def rows' [unfolded ra(2) rb(2)] t_def line_at_def)
    moreover have vt: "ValidString t \<and> runes t = drop (nat (pos_Col a)) (runes (ls ! ra)) @ 10 # flat mids @ take (nat (pos_Col b)) (runes (ls ! rb))"
      using v2 m cs [of "runes_upto (ls ! rb) (pos_Col b)"] by (simp add: t_def)
    moreover have "text_before ls b = text_before ls a @ runes t" using vt ra rb tk by (simp add: text_before_def)
    ultimately show ?thesis by auto
  qed
qed

end
