(* ===== verification/Editor_Keys.thy ===== *)
theory Editor_Keys
  imports Editor_Props
begin

text \<open>
  The keys of the editor as edits of one text: pasted text and its line breaks, the selection that an
  edit replaces, and what every key keeps.
\<close>

section \<open>Line breaks of pasted text\<close>

fun breaks :: "nat list \<Rightarrow> nat list" where
  "breaks [] = []"
| "breaks [r] = [if r = 13 then 10 else r]"
| "breaks (r # x # rs) = (if r = 13 \<and> x = 10 then 10 # breaks rs else (if r = 13 then 10 else r) # breaks (x # rs))"

fun crlf :: "nat list \<Rightarrow> nat list" where
  "crlf [] = []"
| "crlf [r] = [r]"
| "crlf (r # x # rs) = (if r = 13 \<and> x = 10 then 10 # crlf rs else r # crlf (x # rs))"

lemma breaks_crlf: "breaks rs = map (\<lambda>r. if r = 13 then 10 else r) (crlf rs)"
  by (induction rs rule: crlf.induct) auto

lemma crlf_valid: "list_all valid_rune rs \<Longrightarrow> list_all valid_rune (crlf rs)"
  by (induction rs rule: crlf.induct) auto

lemma encode_rune_low: "valid_rune r \<Longrightarrow> b < 128 \<Longrightarrow> char_of b \<in> set (encode_rune r) \<longleftrightarrow> r = b"
proof -
  assume r: "valid_rune r" and b: "b < 128"
  have "char_of b \<in> set (encode_rune r) \<longleftrightarrow> (\<exists>c \<in> set (rune_bytes r). char_of b = (char_of c :: char))" using r by (auto simp: encode_rune_valid)
  also have "\<dots> \<longleftrightarrow> b \<in> set (rune_bytes r)"
  proof -
    have "char_of b = (char_of c :: char) \<longleftrightarrow> b = c" if "c \<in> set (rune_bytes r)" for c
      using rune_bytes_bound [OF r] that b by (auto dest: arg_cong [where f = "of_char :: char \<Rightarrow> nat"])
    then show ?thesis by auto
  qed
  also have "\<dots> \<longleftrightarrow> r = b" using b by (auto simp: rune_bytes_def)
  finally show ?thesis .
qed

lemma cr_lf [simp]: "char_of (13 :: nat) = CHR 0x0D" "char_of (10 :: nat) = CHR 0x0A"
  by code_simp+

lemma encode_rune_ascii: "r < 128 \<Longrightarrow> encode_rune r = [char_of r]"
  by (simp add: encode_rune_def valid_rune_def rune_bytes_def)

lemma ReplaceAll_skip: "hd old \<notin> set u \<Longrightarrow> old \<noteq> [] \<Longrightarrow> ReplaceAll (u @ t) old new = u @ ReplaceAll t old new"
proof (induction u)
  case (Cons c u)
  have "\<not> prefix old (c # u @ t)" using Cons.prems by (cases old) auto
  then show ?case using Cons by (subst ReplaceAll.simps) simp
qed simp

lemma ReplaceAll_rune: "valid_rune r \<Longrightarrow> r \<noteq> 13 \<Longrightarrow> old = CHR 0x0D # old' \<Longrightarrow> ReplaceAll (encode_rune r @ t) old new = encode_rune r @ ReplaceAll t old new"
  by (rule ReplaceAll_skip) (use encode_rune_low [of r 13] in \<open>simp_all\<close>)

lemma ReplaceAll_Nil [simp]: "ReplaceAll [] old new = []"
  by (simp add: ReplaceAll.simps)

lemma ReplaceAll_cr: "list_all valid_rune rs \<Longrightarrow> ReplaceAll (encode rs) [CHR 0x0D] [CHR 0x0A] = encode (map (\<lambda>r. if r = 13 then 10 else r) rs)"
proof (induction rs)
  case (Cons r rs)
  then show ?case
  proof (cases "r = 13")
    case True
    then show ?thesis using Cons by (subst ReplaceAll.simps) (simp add: encode_rune_ascii)
  qed (simp add: ReplaceAll_rune)
qed simp

lemma no_lf_prefix: "list_all valid_rune rs \<Longrightarrow> rs = [] \<or> hd rs \<noteq> 10 \<Longrightarrow> \<not> prefix [CHR 0x0A] (encode rs)"
proof (cases rs)
  case (Cons x xs)
  assume "list_all valid_rune rs" "rs = [] \<or> hd rs \<noteq> 10"
  then have "CHR 0x0A \<notin> set (encode_rune x)" using encode_rune_low [of x 10] Cons by simp
  then show ?thesis using Cons encode_rune_nonempty [of x] by (cases "encode_rune x") auto
qed simp

lemma ReplaceAll_crlf: "list_all valid_rune rs \<Longrightarrow> ReplaceAll (encode rs) [CHR 0x0D, CHR 0x0A] [CHR 0x0A] = encode (crlf rs)"
proof (induction rs rule: crlf.induct)
  case (2 r)
  show ?case
  proof (cases "r = 13")
    case True
    then show ?thesis by (subst ReplaceAll.simps) (simp add: encode_rune_ascii)
  qed (use 2 ReplaceAll_rune [of r _ _ "[]"] in simp)
next
  case (3 r x rs)
  show ?case
  proof (cases "r = 13")
    case r: True
    show ?thesis
    proof (cases "x = 10")
      case True
      then show ?thesis using 3 r by (subst ReplaceAll.simps) (simp add: encode_rune_ascii)
    next
      case False
      have "\<not> prefix [CHR 0x0A] (encode (x # rs))" using no_lf_prefix [of "x # rs"] 3(3) False by simp
      then show ?thesis using 3 r False by (subst ReplaceAll.simps) (simp add: encode_rune_ascii)
    qed
  qed (use 3 in \<open>simp add: ReplaceAll_rune\<close>)
qed simp

lemma split_on_skip: "c \<notin> set u \<Longrightarrow> split_on c (u @ t) = (u @ hd (split_on c t)) # tl (split_on c t)"
  by (induction u) (auto split: list.split)

lemma split_lines: "list_all valid_rune rs \<Longrightarrow> flat (split_on (CHR 0x0A) (encode rs)) = rs @ [10] \<and> all_valid (split_on (CHR 0x0A) (encode rs))"
proof (induction rs)
  case (Cons r rs)
  note IH = Cons.IH [OF Cons.prems [simplified, THEN conjunct2]]
  show ?case
  proof (cases "r = 10")
    case True
    then show ?thesis using IH by (simp add: encode_rune_ascii)
  next
    case False
    obtain y ys where y: "split_on (CHR 0x0A) (encode rs) = y # ys" using split_on_nonempty [of "CHR 0x0A" "encode rs"] by (cases "split_on (CHR 0x0A) (encode rs)") auto
    have r: "ValidString (encode_rune r)" "runes (encode_rune r) = [r]" using ValidString_encode [of "[r]"] runes_encode [of "[r]"] Cons.prems by simp_all
    have "CHR 0x0A \<notin> set (encode_rune r)" using encode_rune_low [of r 10] Cons.prems False by simp
    then show ?thesis using IH y r by (simp add: split_on_skip)
  qed
qed simp

lemma paste_parts_runes: "ValidString t \<Longrightarrow> flat (paste_parts t) = breaks (runes t) @ [10] \<and> all_valid (paste_parts t) \<and> paste_parts t \<noteq> []"
proof -
  assume t: "ValidString t"
  note v = valid_encode [OF t]
  have v': "list_all valid_rune (breaks (runes t))" using crlf_valid [OF v(2)] by (auto simp: breaks_crlf list_all_iff valid_rune_def)
  have "ReplaceAll (ReplaceAll t [CHR 0x0D, CHR 0x0A] [CHR 0x0A]) [CHR 0x0D] [CHR 0x0A] = encode (breaks (runes t))"
    using ReplaceAll_crlf [OF v(2)] ReplaceAll_cr [OF crlf_valid [OF v(2)]] v(1) by (simp add: breaks_crlf)
  then show ?thesis using split_lines [OF v'] by (simp add: paste_parts_def)
qed

section \<open>What an edit replaces\<close>

definition editor_ok :: "TextEditor \<Rightarrow> bool" where
  "editor_ok e \<longleftrightarrow> in_doc (ed_Lines e) (caret e) \<and> (ed_ReadOnly e \<or> all_valid (ed_Lines e))
     \<and> (\<forall>s. ed_Sel e = Some s \<longrightarrow> in_doc (ed_Lines e) (sel_Anchor s) \<and> sel_Cursor s = caret e)"

definition range_of :: "TextEditor \<Rightarrow> EditorPos \<times> EditorPos" where
  "range_of e = (case ed_Sel e of Some s \<Rightarrow> Normalized s | None \<Rightarrow> (caret e, caret e))"

lemma edited_trans: "edited e a [] b e1 \<Longrightarrow> edited e1 (caret e1) t (caret e1) e2 \<Longrightarrow> edited e a t b e2"
  by (simp add: edited_def)

lemma edited_refl: "all_valid (ed_Lines e) \<Longrightarrow> in_doc (ed_Lines e) (caret e) \<Longrightarrow> edited e (caret e) [] (caret e) e"
  by (simp add: edited_def)

lemma clearSel_edits:
  assumes ok: "editor_ok e" "\<not> ed_ReadOnly e" and ab: "range_of e = (a, b)"
  shows "\<exists>e1. clearSel e = Ret (e1, selected e) \<and> edited e a [] b e1 \<and> (if selected e then ed_Sel e1 = None else e1 = e)"
proof (cases "selected e")
  case True
  then obtain s where s: "ed_Sel e = Some s" "\<not> sel_IsEmpty s" by (auto simp: selected_def split: option.splits)
  have "\<exists>e1. deleteSelection e = Ret e1 \<and> edited e a [] b e1 \<and> ed_Sel e1 = None"
    by (rule deleteSelection_edits [OF _ s]) (use ok ab s in \<open>auto simp: editor_ok_def range_of_def\<close>)
  then show ?thesis using s True by (auto simp: clearSel_def)
next
  case False
  have "range_of e = (caret e, caret e)"
    using False ok(1) by (auto simp: selected_def range_of_def editor_ok_def sel_IsEmpty_def Normalized_def Let_def split: option.splits)
  then show ?thesis using False ok ab by (auto simp: clearSel_def selected_def editor_ok_def intro: edited_refl split: option.splits)
qed

lemma edits_dirty: "edits e a t b m \<Longrightarrow> \<exists>e'. dirty m = Ret e' \<and> edited e a t b e' \<and> ed_Dirty e' \<and> (ed_Sel e' = None \<or> ed_Sel e' = ed_Sel e)"
  by (auto simp: edits_def dirty_def edited_def)

lemma edits_after:
  assumes "edited e a [] b e1" "ed_Sel e1 = None \<or> ed_Sel e1 = ed_Sel e" "edits e1 (caret e1) t (caret e1) m"
  shows "edits e a t b m"
  using assms edited_trans by (fastforce simp: edits_def)

lemma clear_and_insert_edits:
  assumes ok: "editor_ok e" "\<not> ed_ReadOnly e" and ab: "range_of e = (a, b)" and s: "ValidString s"
  shows "\<exists>e'. clear_and_insert s e = Ret e' \<and> edited e a (runes s) b e' \<and> ed_Dirty e' \<and> (ed_Sel e' = None \<or> \<not> selected e \<and> ed_Sel e' = ed_Sel e)"
proof -
  obtain e1 where e1: "clearSel e = Ret (e1, selected e)" "edited e a [] b e1" "if selected e then ed_Sel e1 = None else e1 = e"
    using clearSel_edits [OF ok ab] by blast
  have i: "edits e1 (caret e1) (runes s) (caret e1) (insertText s e1)" by (rule insertText_edits) (use e1(2) s in \<open>simp_all add: edited_def\<close>)
  then obtain e' where e': "insertText s e1 = Ret e'" "edited e1 (caret e1) (runes s) (caret e1) e'" "ed_Sel e' = None \<or> ed_Sel e' = ed_Sel e1"
    by (auto simp: edits_def)
  have "edited e a (runes s) b (e'\<lparr>ed_Dirty := True\<rparr>)" using edited_trans [OF e1(2) e'(2)] by (simp add: edited_def)
  then show ?thesis using e1 e' by (auto simp: clear_and_insert_def dirty_def split: if_splits)
qed

section \<open>Pasting\<close>

lemma paste_at:
  assumes v: "all_valid (ed_Lines e)" "in_doc (ed_Lines e) (caret e)" and p: "flat parts = t @ [10]" "all_valid parts" "length parts \<noteq> 1" "parts \<noteq> []"
  shows "edits e (caret e) t (caret e) (obind (split_line e) (\<lambda>(before, after, col).
    let r = nat (CursorRow e) in Ret (e\<lparr>ed_Lines := take r (ed_Lines e) @ [before @ hd parts] @ butlast (tl parts) @ [last parts @ after] @ drop (r + 1) (ed_Lines e),
      CursorRow := CursorRow e + int (length parts) - 1, CursorCol := runeLen (last parts)\<rparr>)))"
proof -
  obtain as x bs where x: "ed_Lines e = as @ x # bs" "caret e = pos (int (length as)) (CursorCol e)" "0 \<le> CursorCol e" "CursorCol e \<le> runeLen x"
    using in_doc_mid [OF v(2)] by auto
  have vx: "ValidString x" using v(1) x(1) by simp
  have r: "CursorRow e = int (length as)" using x(2) by simp
  obtain p0 ps where ps: "parts = p0 # ps" "ps \<noteq> []" using p(3,4) by (cases parts) (auto simp: length_0_conv)
  define mid where "mid = butlast ps"
  define pl where "pl = last ps"
  have psm: "ps = mid @ [pl]" using ps(2) by (simp add: mid_def pl_def)
  have vp: "ValidString p0" "all_valid mid" "ValidString pl" using p(2) ps psm by auto
  have t: "t = runes p0 @ 10 # flat mid @ runes pl" using p(1) ps(1) psm by simp
  let ?bef = "runes_upto x (CursorCol e)" and ?aft = "runes_from x (CursorCol e)"
  define as' where "as' = as @ (?bef @ p0) # mid"
  have len: "CursorRow e + int (length parts) - 1 = int (length as')" using r ps(1) psm by (simp add: as'_def)
  have here: "flat as @ take (nat (CursorCol e)) (runes x) = text_before (ed_Lines e) (caret e)" "drop (nat (CursorCol e)) (runes x) @ 10 # flat bs = text_after (ed_Lines e) (caret e)"
    using x(1,2) by simp_all
  have e': "obind (split_line e) (\<lambda>(before, after, col).
      let r = nat (CursorRow e) in Ret (e\<lparr>ed_Lines := take r (ed_Lines e) @ [before @ hd parts] @ butlast (tl parts) @ [last parts @ after] @ drop (r + 1) (ed_Lines e),
        CursorRow := CursorRow e + int (length parts) - 1, CursorCol := runeLen (last parts)\<rparr>))
    = Ret (e\<lparr>ed_Lines := as' @ (pl @ ?aft) # bs, CursorRow := int (length as'), CursorCol := runeLen pl\<rparr>)"
    unfolding split_line_mid [OF x(1) r x(3,4) vx] len using x(1) r ps psm by (simp add: as'_def Let_def)
  have fa: "flat as' = flat as @ take (nat (CursorCol e)) (runes x) @ runes p0 @ 10 # flat mid" "all_valid as'"
    using v(1) x(1) vx vp by (auto simp: as'_def)
  show ?thesis
    by (rule editsI [OF e']) (use v(1) x(1) vx vp here fa in \<open>auto simp: edited_def runeLen_runes t\<close>)
qed

lemma paste_edits:
  assumes ok: "editor_ok e" "\<not> ed_ReadOnly e" and ab: "range_of e = (a, b)" and t: "ValidString t"
  shows "\<exists>e'. InsertMultiLine t e = Ret e' \<and> edited e a (breaks (runes t)) b e' \<and> (ed_Sel e' = None \<or> \<not> selected e \<and> ed_Sel e' = ed_Sel e)"
proof -
  note P = paste_parts_runes [OF t]
  obtain e1 where e1: "clearSel e = Ret (e1, selected e)" "edited e a [] b e1" "if selected e then ed_Sel e1 = None else e1 = e"
    using clearSel_edits [OF ok ab] by blast
  have v: "all_valid (ed_Lines e1)" "in_doc (ed_Lines e1) (caret e1)" using e1(2) by (simp_all add: edited_def)
  have "\<exists>e'. InsertMultiLine t e = Ret e' \<and> edited e1 (caret e1) (breaks (runes t)) (caret e1) e' \<and> (ed_Sel e' = None \<or> ed_Sel e' = ed_Sel e1)"
  proof (cases "length (paste_parts t) = 1")
    case True
    then obtain p where p: "paste_parts t = [p]" by (cases "paste_parts t") auto
    then have "runes p = breaks (runes t)" "ValidString p" using P by simp_all
    then show ?thesis using insertText_edits [OF v, of p] ok(2) e1(1) p by (auto simp: InsertMultiLine_def edits_def)
  next
    case False
    then show ?thesis using paste_at [OF v, of "paste_parts t"] P ok(2) e1(1) by (auto simp: InsertMultiLine_def edits_def)
  qed
  then show ?thesis using edited_trans [OF e1(2)] e1(3) by (auto split: if_splits)
qed

section \<open>Deleting keys\<close>

lemma edit_or_clear_edits:
  assumes ok: "editor_ok e" "\<not> ed_ReadOnly e" and ab: "range_of e = (a, b)" and f: "\<not> selected e \<Longrightarrow> edits e c [] d (f e)"
  shows "\<exists>e'. edit_or_clear f e = Ret e' \<and> (if selected e then edited e a [] b e' else edited e c [] d e') \<and> ed_Dirty e'
    \<and> (ed_Sel e' = None \<or> \<not> selected e \<and> ed_Sel e' = ed_Sel e)"
proof -
  obtain e1 where e1: "clearSel e = Ret (e1, selected e)" "edited e a [] b e1" "if selected e then ed_Sel e1 = None else e1 = e"
    using clearSel_edits [OF ok ab] by blast
  show ?thesis
  proof (cases "selected e")
    case True
    then show ?thesis using e1 by (auto simp: edit_or_clear_def dirty_def edited_def)
  next
    case False
    then show ?thesis using e1 edits_dirty [OF f] by (auto simp: edit_or_clear_def dirty_def)
  qed
qed

lemma clampCol_in:
  assumes "0 \<le> CursorRow e" "CursorRow e < int (length (ed_Lines e))" "0 \<le> CursorCol e"
  shows "\<exists>e'. clampCol e = Ret e' \<and> in_doc (ed_Lines e') (caret e') \<and> e' = e\<lparr>CursorCol := CursorCol e'\<rparr>"
  using assms by (auto simp: clampCol_def in_doc_def runeLen_runes)

lemma delete_line_ok:
  assumes ok: "editor_ok e"
  shows "\<exists>e'. delete_line e = Ret e' \<and> in_doc (ed_Lines e') (caret e') \<and> (all_valid (ed_Lines e) \<longrightarrow> all_valid (ed_Lines e')) \<and> ed_Sel e' = None
    \<and> ed_ReadOnly e' = ed_ReadOnly e \<and> (ed_Lines e' = ed_Lines e \<or> ed_Dirty e')"
proof -
  have i: "0 \<le> CursorRow e" "CursorRow e < int (length (ed_Lines e))" "0 \<le> CursorCol e" "CursorCol e \<le> runeLen (ed_Lines e ! nat (CursorRow e))"
    using ok by (simp_all add: editor_ok_def in_doc_def)
  show ?thesis
  proof (cases "length (ed_Lines e) = 1")
    case True
    then obtain l where l: "ed_Lines e = [l]" by (cases "ed_Lines e") auto
    then show ?thesis using i by (auto simp: delete_line_def Let_def in_doc_def)
  next
    case False
    define ls where "ls = take (nat (CursorRow e)) (ed_Lines e) @ drop (nat (CursorRow e) + 1) (ed_Lines e)"
    have n: "length ls = length (ed_Lines e) - 1" using i by (simp add: ls_def)
    let ?e = "e\<lparr>ed_Sel := None, ed_Lines := ls, CursorRow := (if CursorRow e \<ge> int (length ls) then int (length ls) - 1 else CursorRow e)\<rparr>"
    have "0 \<le> CursorRow ?e" "CursorRow ?e < int (length (ed_Lines ?e))" "0 \<le> CursorCol ?e" using i n False by auto
    then obtain e' where e': "clampCol ?e = Ret e'" "in_doc (ed_Lines e') (caret e')" "e' = ?e\<lparr>CursorCol := CursorCol e'\<rparr>"
      using clampCol_in [of ?e] by blast
    have "delete_line e = obind (clampCol ?e) (\<lambda>e'. Ret (e'\<lparr>ed_Dirty := True\<rparr>))"
      using False i unfolding delete_line_def ls_def Let_def by simp
    then have "delete_line e = Ret (e'\<lparr>ed_Dirty := True\<rparr>)" using e'(1) by simp
    moreover have "ed_Lines e' = ls" "ed_Sel e' = None" "ed_ReadOnly e' = ed_ReadOnly e" using arg_cong [OF e'(3), of ed_Lines] arg_cong [OF e'(3), of ed_Sel] arg_cong [OF e'(3), of ed_ReadOnly] by simp_all
    moreover have "all_valid (ed_Lines e) \<longrightarrow> all_valid ls" by (auto simp: ls_def dest: in_set_takeD in_set_dropD)
    ultimately show ?thesis using e'(2) by auto
  qed
qed

lemma kill_line_edits:
  assumes v: "all_valid (ed_Lines e)" "in_doc (ed_Lines e) (caret e)"
  shows "\<exists>e'. kill_line True e = Ret e' \<and> edited e (pos (CursorRow e) 0) [] (caret e) e' \<and> ed_Sel e' = None \<and> (ed_Lines e' = ed_Lines e \<or> ed_Dirty e')"
    "\<exists>e'. kill_line False e = Ret e' \<and> edited e (caret e) [] (pos (CursorRow e) (runeLen (ed_Lines e ! nat (CursorRow e)))) e' \<and> ed_Sel e' = None
      \<and> (ed_Lines e' = ed_Lines e \<or> ed_Dirty e')"
proof -
  obtain as x bs where x: "ed_Lines e = as @ x # bs" "caret e = pos (int (length as)) (CursorCol e)" "0 \<le> CursorCol e" "CursorCol e \<le> runeLen x"
    using in_doc_mid [OF v(2)] by auto
  have r: "CursorRow e = int (length as)" using x(2) by simp
  have vx: "ValidString x" using v(1) x(1) by simp
  have c: "min (CursorCol e) (runeLen x) = CursorCol e" using x(4) by (simp add: min_def)
  show "\<exists>e'. kill_line True e = Ret e' \<and> edited e (pos (CursorRow e) 0) [] (caret e) e' \<and> ed_Sel e' = None \<and> (ed_Lines e' = ed_Lines e \<or> ed_Dirty e')"
    using v(1) x c r vx by (auto simp: kill_line_def Let_def edited_def runeLen_runes)
  show "\<exists>e'. kill_line False e = Ret e' \<and> edited e (caret e) [] (pos (CursorRow e) (runeLen (ed_Lines e ! nat (CursorRow e)))) e' \<and> ed_Sel e' = None
      \<and> (ed_Lines e' = ed_Lines e \<or> ed_Dirty e')"
    using v(1) x c r vx by (auto simp: kill_line_def Let_def edited_def runeLen_runes nth_append)
qed

section \<open>What every key keeps\<close>

text \<open>The cursor stays in the document, a reader changes nothing, a change sets the dirty mark, and the selection stays in the
  document. \<open>fr\<close> frees an edit made under a held empty selection from the last.\<close>

definition kept :: "bool \<Rightarrow> TextEditor \<Rightarrow> TextEditor \<Rightarrow> bool" where
  "kept fr e e' \<longleftrightarrow> in_doc (ed_Lines e') (caret e') \<and> ed_ReadOnly e' = ed_ReadOnly e \<and> (ed_ReadOnly e \<longrightarrow> ed_Lines e' = ed_Lines e)
     \<and> (ed_Lines e' \<noteq> ed_Lines e \<longrightarrow> ed_Dirty e') \<and> (ed_ReadOnly e \<or> all_valid (ed_Lines e'))
     \<and> ((\<forall>s. ed_Sel e' = Some s \<longrightarrow> in_doc (ed_Lines e') (sel_Anchor s) \<and> sel_Cursor s = caret e')
       \<or> fr \<and> ed_Sel e \<noteq> None \<and> \<not> selected e \<and> \<not> ed_ReadOnly e)"

definition keeps :: "bool \<Rightarrow> TextEditor \<Rightarrow> key_result outcome \<Rightarrow> bool" where
  "keeps fr e m \<longleftrightarrow> (\<exists>e' saved closed cmd. m = Ret (e', saved, closed, cmd) \<and> kept fr e e')"

definition keeps1 :: "bool \<Rightarrow> TextEditor \<Rightarrow> TextEditor outcome \<Rightarrow> bool" where
  "keeps1 fr e m \<longleftrightarrow> (\<exists>e'. m = Ret e' \<and> kept fr e e')"

lemma ensure_only_scrolls: "\<exists>t. ensureCursorVisible e = e\<lparr>ScrollTop := t\<rparr>"
  unfolding ensureCursorVisible_def Let_def by blast

lemma pos_eta [simp]: "pos (pos_Row p) (pos_Col p) = p"
  by simp

lemma ensure_fields [simp]: "ed_Lines (ensureCursorVisible e) = ed_Lines e" "CursorRow (ensureCursorVisible e) = CursorRow e"
    "CursorCol (ensureCursorVisible e) = CursorCol e" "ed_ReadOnly (ensureCursorVisible e) = ed_ReadOnly e" "ed_Dirty (ensureCursorVisible e) = ed_Dirty e"
    "ed_Sel (ensureCursorVisible e) = ed_Sel e" "selected (ensureCursorVisible e) = selected e"
  using ensure_only_scrolls [of e] by (auto simp: selected_def)

lemma kept_visible [simp]: "kept fr e (ensureCursorVisible e') \<longleftrightarrow> kept fr e e'"
  by (simp add: kept_def)

lemma keeps_shown [simp]: "keeps fr e (shown m) \<longleftrightarrow> keeps1 fr e m"
  by (cases m) (auto simp: keeps_def keeps1_def shown_def stays_def)

lemma keeps_if: "(c \<Longrightarrow> keeps fr e a) \<Longrightarrow> (\<not> c \<Longrightarrow> keeps fr e b) \<Longrightarrow> keeps fr e (if c then a else b)"
  by simp

lemma keeps_Ret [simp]: "keeps fr e (Ret (e', saved, closed, cmd)) \<longleftrightarrow> kept fr e e'" "keeps1 fr e (Ret e') \<longleftrightarrow> kept fr e e'" "keeps fr e (stays e') \<longleftrightarrow> kept fr e e'"
  by (auto simp: keeps_def keeps1_def stays_def)

lemma kept_refl: "editor_ok e \<Longrightarrow> kept fr e e" "editor_ok e \<Longrightarrow> kept fr e (e\<lparr>ed_Sel := None\<rparr>)"
  by (auto simp: kept_def editor_ok_def)

lemma kept_move: "editor_ok e \<Longrightarrow> in_doc (ed_Lines e) p \<Longrightarrow> kept fr e (cursor_to p (e\<lparr>ed_Sel := None\<rparr>))"
  by (auto simp: kept_def editor_ok_def cursor_to_def)

lemma kept_edited: "edited e a t b e' \<Longrightarrow> ed_Lines e' = ed_Lines e \<or> ed_Dirty e' \<Longrightarrow> \<not> ed_ReadOnly e
    \<Longrightarrow> ed_Sel e' = None \<or> fr \<and> \<not> selected e \<and> ed_Sel e' = ed_Sel e \<Longrightarrow> kept fr e e'"
  by (cases "ed_Sel e") (auto simp: kept_def edited_def)

lemma visible_move:
  assumes "in_doc (ed_Lines e) (caret e)" "vi = cursorVisualRow e (visualLayout e w)"
  shows "vi < length (visualLayout e w)" "in_doc (ed_Lines e) (pos (CursorRow e) (vr_Start (visualLayout e w ! vi)))"
    "in_doc (ed_Lines e) (pos (CursorRow e) (vr_End (visualLayout e w ! vi)))"
proof -
  have o: "vi < length (visualLayout e w)" "owns_cursor e (visualLayout e w) vi" using cursorVisualRow_owner [OF assms(1)] assms(2) by auto
  then show "vi < length (visualLayout e w)" by simp
  have "visualLayout e w ! vi \<in> set (visualLayout e w)" using o(1) by simp
  note I = visualLayout_in [OF this]
  have row: "nat (CursorRow e) = vr_Logical (visualLayout e w ! vi)" using o(2) by (auto simp: owns_cursor_def Let_def)
  show "in_doc (ed_Lines e) (pos (CursorRow e) (vr_Start (visualLayout e w ! vi)))" "in_doc (ed_Lines e) (pos (CursorRow e) (vr_End (visualLayout e w ! vi)))"
    using I o(2) assms(1) row by (auto simp: owns_cursor_def Let_def in_doc_def)
qed

lemma verticalMove_in:
  assumes i: "in_doc (ed_Lines e) (caret e)"
  shows "\<exists>p. verticalMove dir e = Ret (cursor_to p e) \<and> in_doc (ed_Lines e) p"
proof (cases "SoftWrap e")
  case False
  show ?thesis
  proof (cases "CursorRow e + dir < 0 \<or> CursorRow e + dir \<ge> int (length (ed_Lines e))")
    case True
    then show ?thesis using False i by (intro exI [of _ "caret e"]) (simp add: verticalMove_def Let_def cursor_to_def)
  next
    case F: False
    have "0 \<le> CursorCol e" using i by (simp add: in_doc_def)
    then obtain e' where e': "clampCol (e\<lparr>CursorRow := CursorRow e + dir\<rparr>) = Ret e'" "in_doc (ed_Lines e') (caret e')" "e' = e\<lparr>CursorRow := CursorRow e + dir, CursorCol := CursorCol e'\<rparr>"
      using clampCol_in [of "e\<lparr>CursorRow := CursorRow e + dir\<rparr>"] F by fastforce
    have "e' = cursor_to (caret e') e" "ed_Lines e' = ed_Lines e" using e'(3) by (metis TextEditor.select_convs TextEditor.surjective TextEditor.update_convs cursor_to_def EditorPos.select_convs)+
    then show ?thesis using False F e'(1,2) by (intro exI [of _ "caret e'"]) (simp add: verticalMove_def Let_def)
  qed
next
  case True
  let ?l = "visualLayout e (contentWForLayout e)"
  have ne: "ed_Lines e \<noteq> []" using in_doc_ne [OF i] .
  have self: "verticalMove dir e = Ret e \<Longrightarrow> ?thesis" using i by (intro exI [of _ "caret e"]) (simp add: cursor_to_def)
  show ?thesis
  proof (cases "int (cursorVisualRow e ?l) + dir < 0 \<or> int (cursorVisualRow e ?l) + dir \<ge> int (length ?l)")
    case T: True
    then show ?thesis using self True visualLayout_ne [OF ne] by (simp add: verticalMove_def Let_def)
  next
    case False
    obtain r c where rc: "visualToLogical ?l (int (cursorVisualRow e ?l) + dir) (CursorCol e - vr_Start (?l ! cursorVisualRow e ?l)) = (r, c)" by fastforce
    then have "in_doc (ed_Lines e) (pos r c)" using visualToLogical_in [OF ne] by (metis fst_conv snd_conv)
    then show ?thesis using True False visualLayout_ne [OF ne] rc by (intro exI [of _ "pos r c"]) (simp add: verticalMove_def Let_def)
  qed
qed

lemma selection_keys: "editor_ok e \<Longrightarrow> keeps1 fr e (handleSelectionKey ld key e)"
proof -
  assume ok: "editor_ok e"
  let ?s = "case ed_Sel e of None \<Rightarrow> \<lparr>sel_Anchor = caret e, sel_Cursor = caret e\<rparr> | Some s \<Rightarrow> s"
  have s: "in_doc (ed_Lines e) (sel_Anchor ?s)" "sel_Cursor ?s = caret e" "in_doc (ed_Lines e) (caret e)"
    using ok by (auto simp: editor_ok_def split: option.split)
  obtain q where q: "sel_move ld (ed_Lines e) key (sel_Cursor ?s) = Ret q" "in_doc (ed_Lines e) q"
    using sel_move_in [of "ed_Lines e" "caret e" ld key] s by (auto simp: lands_def)
  have "handleSelectionKey ld key e = Ret (cursor_to q (e\<lparr>ed_Sel := Some (?s\<lparr>sel_Cursor := q\<rparr>)\<rparr>))"
    using q(1) by (simp only: handleSelectionKey_def Let_def obind_simps)
  then show ?thesis using ok q(2) s by (simp add: keeps1_def kept_def editor_ok_def cursor_to_def)
qed

lemma copied:
  assumes ok: "editor_ok e" and sel: "selected e"
  shows "\<exists>t. editorExtractText (ed_Lines e) (ed_Sel e) = Ret t"
proof -
  obtain s a b where s: "ed_Sel e = Some s" "\<not> sel_IsEmpty s" "Normalized s = (a, b)"
    using sel by (cases "ed_Sel e"; cases "Normalized (the (ed_Sel e))") (auto simp: selected_def)
  have i: "in_doc (ed_Lines e) (sel_Anchor s)" "in_doc (ed_Lines e) (sel_Cursor s)" using ok s(1) by (auto simp: editor_ok_def)
  note N = Normalized_in [OF i s(3)]
  have "clampInt (pos_Col a) 0 (runeLen (ed_Lines e ! nat (pos_Row a))) \<le> clampInt (pos_Col b) 0 (runeLen (ed_Lines e ! nat (pos_Row b)))" if "pos_Row a = pos_Row b"
    using N that by (auto simp: in_doc_def clampInt_def)
  then show ?thesis using s N by (auto simp: editorExtractText_def Let_def in_doc_def)
qed

lemma clipboard_keys: "editor_ok e \<Longrightarrow> keeps fr e (clipboard_key key e)"
proof -
  assume ok: "editor_ok e"
  have i: "in_doc (ed_Lines e) (caret e)" "ed_Lines e \<noteq> []" using ok in_doc_ne by (auto simp: editor_ok_def)
  have all: "keeps1 fr e (selectAll e)" using ok i
    by (auto simp: selectAll_def Let_def keeps1_def kept_def editor_ok_def cursor_to_def in_doc_def runeLen_runes neq_Nil_conv)
  have copy: "selected e \<Longrightarrow> keeps fr e (obind (editorExtractText (ed_Lines e) (ed_Sel e)) (\<lambda>text. Ret (ensureCursorVisible (e\<lparr>ed_Sel := None\<rparr>), False, False, CopyCmd text)))"
    using copied [OF ok] kept_refl(2) [OF ok] by auto
  have cut: "keeps fr e (obind (editorExtractText (ed_Lines e) (ed_Sel e)) (\<lambda>text. obind (deleteSelection e) (\<lambda>e'.
      Ret (ensureCursorVisible (e'\<lparr>ed_Dirty := True\<rparr>), False, False, CopyCmd text))))" if c: "\<not> ed_ReadOnly e \<and> selected e"
  proof -
    obtain a b where ab: "range_of e = (a, b)" by fastforce
    obtain e1 where e1: "clearSel e = Ret (e1, selected e)" "edited e a [] b e1" "ed_Sel e1 = None" using clearSel_edits [OF ok _ ab] c by auto
    then have "deleteSelection e = Ret e1" using c by (auto simp: clearSel_def selected_def obind_eq_Ret split: option.splits if_splits)
    moreover have "kept fr e (e1\<lparr>ed_Dirty := True\<rparr>)" by (rule kept_edited [of e a "[]" b]) (use e1 c in \<open>auto simp: edited_def\<close>)
    ultimately show ?thesis using copied [OF ok] c by auto
  qed
  show ?thesis unfolding clipboard_key_def
    by (intro keeps_if) (use all copy cut kept_refl(1) [OF ok] in \<open>simp_all\<close>)
qed

text \<open>A movement key's outcome, if it has one, keeps the state.\<close>

definition keeps_opt :: "bool \<Rightarrow> TextEditor \<Rightarrow> TextEditor outcome option \<Rightarrow> bool" where
  "keeps_opt fr e x \<longleftrightarrow> (\<forall>m. x = Some m \<longrightarrow> keeps1 fr e m)"

lemma keeps_opt_simps [simp]: "keeps_opt fr e None" "keeps_opt fr e (Some m) \<longleftrightarrow> keeps1 fr e m"
  by (simp_all add: keeps_opt_def)

lemma keeps_opt_if: "(c \<Longrightarrow> keeps_opt fr e a) \<Longrightarrow> (\<not> c \<Longrightarrow> keeps_opt fr e b) \<Longrightarrow> keeps_opt fr e (if c then a else b)"
  by simp

lemma move_keys:
  assumes ok: "editor_ok e" and m: "move_key ld key (e\<lparr>ed_Sel := None\<rparr>) = Some m"
  shows "keeps1 fr e m"
proof -
  let ?e = "e\<lparr>ed_Sel := None\<rparr>"
  have i: "in_doc (ed_Lines ?e) (caret ?e)" "ed_Lines ?e \<noteq> []" using ok in_doc_ne by (auto simp: editor_ok_def)
  have K: "in_doc (ed_Lines e) p \<Longrightarrow> kept fr e (cursor_to p ?e)" for p using kept_move [OF ok] .
  have L: "lands (ed_Lines e) x \<Longrightarrow> keeps1 fr e (obind x (\<lambda>p. Ret (cursor_to p ?e)))" for x using K by (auto simp: lands_def)
  have V: "keeps1 fr e (verticalMove dir ?e)" for dir using verticalMove_in [OF i(1), of dir] K by auto
  have C: "keeps1 fr e (Ret (?e\<lparr>CursorCol := c\<rparr>))" if "in_doc (ed_Lines e) (pos (CursorRow e) c)" for c
    using K [OF that] by (simp add: cursor_to_def)
  have P: "keeps1 fr e (clampCol (?e\<lparr>CursorRow := r\<rparr>))" if r: "0 \<le> r" "r < int (length (ed_Lines e))" for r
  proof -
    have "0 \<le> CursorCol e" using i by (simp add: in_doc_def)
    define c where "c = (if CursorCol e > runeLen (ed_Lines e ! nat r) then runeLen (ed_Lines e ! nat r) else CursorCol e)"
    have c: "clampCol (?e\<lparr>CursorRow := r\<rparr>) = Ret (?e\<lparr>CursorRow := r, CursorCol := c\<rparr>)" "in_doc (ed_Lines e) (pos r c)"
      using r \<open>0 \<le> CursorCol e\<close> by (auto simp: clampCol_def in_doc_def c_def runeLen_runes)
    show ?thesis using K [OF c(2)] c(1) by (simp add: cursor_to_def)
  qed
  have row: "0 \<le> CursorRow e" "CursorRow e < int (length (ed_Lines e))" using i by (simp_all add: in_doc_def)
  have rows: "0 \<le> max 0 (CursorRow e - n)" "max 0 (CursorRow e - n) < int (length (ed_Lines e))" "0 \<le> min (int (length (ed_Lines e)) - 1) (CursorRow e + n)"
      "min (int (length (ed_Lines e)) - 1) (CursorRow e + n) < int (length (ed_Lines e))" if "0 < n" for n using row that by auto
  have step: "0 < (if PageSize e \<le> 0 then 40 else PageSize e)" by simp
  have ends: "in_doc (ed_Lines e) (pos (CursorRow e) 0)" "keeps1 fr e (obind (line_at (ed_Lines e) (CursorRow e)) (\<lambda>l. Ret (?e\<lparr>CursorCol := runeLen l\<rparr>)))"
    using row C [of "runeLen (ed_Lines e ! nat (CursorRow e))"] by (auto simp: in_doc_def runeLen_runes)
  note vis = visible_move [OF i(1) refl, of "contentWForLayout ?e"]
  note jumps = word_jump_in [OF i(1), simplified] paragraph_in [of "ed_Lines e"]
  have wrapped: "keeps1 fr e (if vi < length (visualLayout ?e (contentWForLayout ?e)) then Ret (?e\<lparr>CursorCol := f (visualLayout ?e (contentWForLayout ?e) ! vi)\<rparr>) else Panic)"
    if "vi = cursorVisualRow ?e (visualLayout ?e (contentWForLayout ?e))" "f = vr_Start \<or> f = vr_End" for vi f
    using vis C that by auto
  have J: "keeps1 fr e (obind (Ret p) (\<lambda>p. Ret (cursor_to p ?e)))" if "in_doc (ed_Lines e) p" for p using K [OF that] by simp
  have f: "ed_Lines ?e = ed_Lines e" "CursorRow ?e = CursorRow e" "CursorCol ?e = CursorCol e" "PageSize ?e = PageSize e" "SoftWrap ?e = SoftWrap e" by simp_all
  note lr = L [OF left_of_in [OF i(1), unfolded f]] L [OF right_of_in [OF i(1), unfolded f]]
  note js = J [OF word_jump_in [OF i(1), unfolded f]] J [OF paragraph_in [OF i(2), unfolded f]]
  note pg = P [OF rows(1,2) [OF step]] P [OF rows(3,4) [OF step]]
  note wr = wrapped [OF refl disjI1 [OF refl], unfolded f] wrapped [OF refl disjI2 [OF refl], unfolded f]
  have "keeps_opt fr e (move_key ld key ?e)"
    unfolding move_key_def Let_def f
    by (intro keeps_opt_if) (simp_all only: keeps_opt_simps V lr js pg wr C [OF ends(1)] ends(2))
  then show ?thesis using m by (simp add: keeps_opt_def)
qed

lemma Save_keeps: "editor_ok e \<Longrightarrow> Save env e = (e', err) \<Longrightarrow> kept fr e e' \<and> kept fr e (e'\<lparr>SaveErr := t\<rparr>)"
  by (auto simp: Save_def Let_def kept_def editor_ok_def split: option.splits sum.splits if_splits)

lemma dirty_keeps:
  assumes "edits e a t b m" "\<not> ed_ReadOnly e" "\<not> selected e"
  shows "keeps1 True e (dirty m)"
  using edits_dirty [OF assms(1)] kept_edited assms(2,3) by (fastforce simp: keeps1_def)

lemma clear_keeps:
  assumes ok: "editor_ok e" "\<not> ed_ReadOnly e" and f: "\<not> selected e \<Longrightarrow> edits e c [] d (f e)"
  shows "keeps1 True e (edit_or_clear f e)"
proof -
  obtain a b where ab: "range_of e = (a, b)" by fastforce
  obtain e' where e': "edit_or_clear f e = Ret e'" "if selected e then edited e a [] b e' else edited e c [] d e'" "ed_Dirty e'"
      "ed_Sel e' = None \<or> \<not> selected e \<and> ed_Sel e' = ed_Sel e"
    using edit_or_clear_edits [OF ok ab, of c d f] f by blast
  have "kept True e e'" using e' ok(2) kept_edited [of e a "[]" b e'] kept_edited [of e c "[]" d e'] by (auto split: if_splits)
  then show ?thesis using e'(1) by simp
qed

lemma insert_keeps:
  assumes ok: "editor_ok e" "\<not> ed_ReadOnly e" and s: "ValidString s"
  shows "keeps1 True e (clear_and_insert s e)"
proof -
  obtain a b where ab: "range_of e = (a, b)" by fastforce
  then show ?thesis using clear_and_insert_edits [OF ok ab s] kept_edited ok(2) by fastforce
qed

lemma edit_keys:
  assumes ok: "editor_ok e" and k: "ValidString key"
  shows "keeps True e (edit_key env key e)"
proof -
  note same = kept_refl [OF ok]
  have save: "keeps True e (case Save env e of (e', Some err) \<Rightarrow> stays (e'\<lparr>SaveErr := err\<rparr>) | (e', None) \<Rightarrow> Ret (e', True, False, NoCmd))"
    using Save_keeps [OF ok] by (cases "Save env e"; cases "snd (Save env e)") auto
  have copy: "selected e \<Longrightarrow> keeps True e (obind (editorExtractText (ed_Lines e) (ed_Sel e)) (\<lambda>text. Ret (ensureCursorVisible (e\<lparr>ed_Sel := None\<rparr>), False, False, CopyCmd text)))"
    using copied [OF ok] same(2) by auto
  have line: "keeps1 True e (delete_line e)" if "\<not> ed_ReadOnly e"
    using delete_line_ok [OF ok] ok that by (auto simp: keeps1_def kept_def editor_ok_def)
  have v: "all_valid (ed_Lines e)" "in_doc (ed_Lines e) (caret e)" if "\<not> ed_ReadOnly e" using ok that by (auto simp: editor_ok_def)
  have newline: "keeps1 True e (dirty (insertNewline e))" if "\<not> ed_ReadOnly e" "\<not> selected e"
    by (rule dirty_keeps [OF insertNewline_edits [OF v]]) (use that in auto)
  have dels: "keeps1 True e (edit_or_clear ed_backspace e)" "keeps1 True e (edit_or_clear deleteChar e)" if r: "\<not> ed_ReadOnly e"
  proof -
    obtain p q where pq: "left_of (ed_Lines e) (caret e) = Ret p" "right_of (ed_Lines e) (caret e) = Ret q"
      using left_of_in [OF v(2) [OF r]] right_of_in [OF v(2) [OF r]] by (auto simp: lands_def)
    show "keeps1 True e (edit_or_clear ed_backspace e)" by (rule clear_keeps [OF ok r]) (rule backspace_edits [OF v [OF r] pq(1)])
    show "keeps1 True e (edit_or_clear deleteChar e)" by (rule clear_keeps [OF ok r]) (rule deleteChar_edits [OF v [OF r] pq(2)])
  qed
  have kill: "keeps1 True e (obind (kill_line to_start e) (\<lambda>e'. Ret (ensureCursorVisible e')))" if r: "\<not> ed_ReadOnly e" for to_start
  proof -
    obtain e' a b where "kill_line to_start e = Ret e'" "edited e a [] b e'" "ed_Sel e' = None" "ed_Lines e' = ed_Lines e \<or> ed_Dirty e'"
      using kill_line_edits [OF v [OF r]] by (cases to_start) auto
    then show ?thesis using kept_edited [of e a "[]" b e'] r by simp
  qed
  have ins: "keeps1 True e (clear_and_insert ''  '' e)" "keeps1 True e (clear_and_insert '' '' e)" "keeps1 True e (clear_and_insert key e)" if r: "\<not> ed_ReadOnly e"
    using insert_keeps [OF ok r] k ascii_runes by auto
  show ?thesis unfolding edit_key_def
    by (intro keeps_if) (simp_all only: keeps_shown keeps_Ret same save copy line newline dels kill ins not_False_eq_True)
qed

text \<open>A key that may change the text.\<close>

definition writing :: "(nat \<Rightarrow> bool) \<Rightarrow> string \<Rightarrow> TextEditor \<Rightarrow> bool" where
  "writing ld key e \<longleftrightarrow> \<not> isSelectionKey key \<and> key \<notin> set [''ctrl+a'', ''ctrl+c'', ''ctrl+x'', ''ctrl+v'']
     \<and> move_key ld key (e\<lparr>ed_Sel := None\<rparr>) = None \<and> key \<noteq> ''esc''"

text \<open>Every key, in every state in which the cursor and the selection are in the document.\<close>

lemma HandleKey_keeps:
  assumes ok: "editor_ok e" and k: "ValidString key" and fr: "fr \<or> \<not> writing ld key (e\<lparr>SaveErr := []\<rparr>)"
  shows "keeps fr e (HandleKey ld env key e)"
proof -
  let ?e = "e\<lparr>SaveErr := []\<rparr>"
  have ok': "editor_ok ?e" using ok by (simp add: editor_ok_def)
  have "kept fr ?e e' \<longleftrightarrow> kept fr e e'" for e' by (simp add: kept_def selected_def)
  then have eq: "keeps fr ?e m \<longleftrightarrow> keeps fr e m" for m by (simp add: keeps_def)
  have esc: "keeps fr ?e (edit_key env ''esc'' ?e)" using kept_refl [OF ok'] by (simp add: edit_key_def)
  have edit: "fr \<Longrightarrow> keeps fr ?e (edit_key env key ?e)" using edit_keys [OF ok' k, of env] by simp
  have moves: "keeps fr ?e (case move_key ld key (?e\<lparr>ed_Sel := None\<rparr>) of Some m \<Rightarrow> shown m | None \<Rightarrow> edit_key env key ?e)"
    if "\<not> isSelectionKey key" "key \<notin> set [''ctrl+a'', ''ctrl+c'', ''ctrl+x'', ''ctrl+v'']"
  proof (cases "move_key ld key (?e\<lparr>ed_Sel := None\<rparr>)")
    case None
    then have "fr \<or> key = ''esc''" using fr that by (simp add: writing_def)
    then show ?thesis using esc edit None by auto
  next
    case (Some m)
    then show ?thesis using move_keys [OF ok' Some, of fr] by simp
  qed
  have "keeps fr ?e (HandleKey ld env key e)" unfolding HandleKey_def Let_def
    by (intro keeps_if) (simp_all only: keeps_shown selection_keys [OF ok'] clipboard_keys [OF ok'] moves not_False_eq_True)
  then show ?thesis by (simp only: eq)
qed

end
