(* ===== verification/Editor_Run.thy ===== *)
theory Editor_Run
  imports Editor_Keys
begin

text \<open>
  A whole editing session: keys, pastes and mouse selections in any order, the editor as an editor of one
  string, and the rows it draws.
\<close>

section \<open>Opening a document\<close>

lemma ReplaceAll_no_cr: "list_all valid_rune rs \<Longrightarrow> ReplaceAll (encode rs) [CHR 0x0D] [] = encode (filter (\<lambda>r. r \<noteq> 13) rs)"
proof (induction rs)
  case (Cons r rs)
  then show ?case
  proof (cases "r = 13")
    case True
    then show ?thesis using Cons by (subst ReplaceAll.simps) (simp add: encode_rune_ascii)
  qed (simp add: ReplaceAll_rune)
qed simp

definition opened :: "TextEditor \<Rightarrow> bool" where
  "opened e \<longleftrightarrow> (\<exists>content path w h ro page soft. (ro \<or> ValidString content)
     \<and> e = (NewTextEditor content path w h)\<lparr>ed_ReadOnly := ro, PageSize := page, SoftWrap := soft\<rparr>)"

lemma opened_ok: "opened e \<Longrightarrow> editor_ok e"
proof -
  assume "opened e"
  then obtain content path w h ro page soft where e: "ro \<or> ValidString content"
    "e = (NewTextEditor content path w h)\<lparr>ed_ReadOnly := ro, PageSize := page, SoftWrap := soft\<rparr>" unfolding opened_def by blast
  have ls: "ed_Lines e = split_on (CHR 0x0A) (ReplaceAll content [CHR 0x0D] [])" "ed_Lines e \<noteq> []" "CursorRow e = 0" "CursorCol e = 0" "ed_Sel e = None" "ed_ReadOnly e = ro"
    by (simp_all add: e(2) NewTextEditor_def)
  have "all_valid (ed_Lines e)" if "ValidString content"
  proof -
    note v = valid_encode [OF that]
    have "list_all valid_rune (filter (\<lambda>r. r \<noteq> 13) (runes content))" using v(2) by (auto simp: list_all_iff)
    then show ?thesis using split_lines ReplaceAll_no_cr [OF v(2)] v(1) ls(1) by simp
  qed
  then show ?thesis using e(1) ls by (auto simp: editor_ok_def in_doc_def runeLen_runes)
qed

section \<open>Sessions\<close>

text \<open>Text is changed only while no empty selection is held (see \<open>stale_selection_panics\<close>).\<close>

definition no_stale :: "TextEditor \<Rightarrow> bool" where
  "no_stale e \<longleftrightarrow> ed_Sel e = None \<or> selected e \<or> ed_ReadOnly e"

inductive editor_step :: "(nat \<Rightarrow> bool) \<Rightarrow> save_env \<Rightarrow> TextEditor \<Rightarrow> TextEditor \<Rightarrow> bool" for ld env where
  key: "ValidString key \<Longrightarrow> (writing ld key (e\<lparr>SaveErr := []\<rparr>) \<longrightarrow> no_stale e) \<Longrightarrow> HandleKey ld env key e = Ret (e', r) \<Longrightarrow> editor_step ld env e e'"
| paste: "ValidString t \<Longrightarrow> no_stale e \<Longrightarrow> InsertMultiLine t e = Ret e' \<Longrightarrow> editor_step ld env e e'"
| click: "editor_step ld env e (setCursorAt row col e)"
| press: "editor_step ld env e (beginSelectionAt row col e)"
| drag: "editor_step ld env e (extendSelectionAt row col e)"

inductive_cases editor_stepE: "editor_step ld env e e'"

definition session_ok :: "TextEditor \<Rightarrow> TextEditor \<Rightarrow> bool" where
  "session_ok e0 e \<longleftrightarrow> editor_ok e \<and> ed_ReadOnly e = ed_ReadOnly e0 \<and> (ed_ReadOnly e0 \<longrightarrow> ed_Lines e = ed_Lines e0)"

lemma kept_ok: "kept fr e e' \<Longrightarrow> \<not> fr \<or> no_stale e \<Longrightarrow> session_ok e0 e \<Longrightarrow> session_ok e0 e'"
  by (auto simp: kept_def session_ok_def editor_ok_def no_stale_def)

lemma paste_Ret:
  assumes ok: "editor_ok e" and t: "ValidString t"
  shows "\<exists>e'. InsertMultiLine t e = Ret e' \<and> in_doc (ed_Lines e') (caret e') \<and> (no_stale e \<longrightarrow> session_ok e0 e \<longrightarrow> session_ok e0 e')"
proof (cases "ed_ReadOnly e")
  case True
  then show ?thesis using ok by (simp add: InsertMultiLine_def editor_ok_def)
next
  case False
  obtain a b where ab: "range_of e = (a, b)" by fastforce
  show ?thesis using paste_edits [OF ok False ab t] False by (auto simp: session_ok_def editor_ok_def edited_def no_stale_def)
qed

lemma mouse_ok:
  assumes "session_ok e0 e"
  shows "session_ok e0 (setCursorAt row col e)" "session_ok e0 (beginSelectionAt row col e)" "session_ok e0 (extendSelectionAt row col e)"
proof -
  have ok: "editor_ok e" using assms by (simp add: session_ok_def)
  obtain r c where rc: "clampPos e row col = (r, c)" by fastforce
  have p: "in_doc (ed_Lines e) (pos r c)" using clampPos_in [OF refl, of e row col] ok in_doc_ne rc by (auto simp: editor_ok_def)
  show "session_ok e0 (setCursorAt row col e)" "session_ok e0 (beginSelectionAt row col e)" "session_ok e0 (extendSelectionAt row col e)"
    using assms p rc by (auto simp: session_ok_def editor_ok_def setCursorAt_def beginSelectionAt_def extendSelectionAt_def cursor_to_def split: option.split)
qed

lemma editor_step_ok: "editor_step ld env e e' \<Longrightarrow> session_ok e0 e \<Longrightarrow> session_ok e0 e'"
proof (induction rule: editor_step.induct)
  case (key key e e' r)
  have ok: "editor_ok e" using key(4) by (simp add: session_ok_def)
  define fr where "fr = writing ld key (e\<lparr>SaveErr := []\<rparr>)"
  have "keeps fr e (HandleKey ld env key e)" by (rule HandleKey_keeps [OF ok key(1)]) (simp add: fr_def)
  then have "kept fr e e'" using key(3) by (auto simp: keeps_def)
  then show ?case using kept_ok key(2,4) by (auto simp: fr_def)
next
  case (paste t e e')
  then show ?case using paste_Ret [of e t e0] by (auto simp: session_ok_def)
qed (simp_all add: mouse_ok)

interpretation editing: machine "\<lambda>e. e = e0 \<and> opened e0" "editor_step ld env" "session_ok e0" for e0 ld env
  by unfold_locales (simp add: session_ok_def opened_ok, rule editor_step_ok)

fun press_keys :: "(nat \<Rightarrow> bool) \<Rightarrow> save_env \<Rightarrow> string list \<Rightarrow> TextEditor \<Rightarrow> TextEditor outcome" where
  "press_keys ld env [] e = Ret e"
| "press_keys ld env (k # ks) e = obind (HandleKey ld env k e) (\<lambda>(e', _). press_keys ld env ks e')"

definition plain_env :: save_env where
  "plain_env = \<lparr>sv_SaveContent = None, sv_toml = (\<lambda>_. None), sv_Abs = Inr, sv_PluginsDir = ''/p'', sv_Separator = ''/'', sv_Write = (\<lambda>_ _. None)\<rparr>"

text \<open>An empty selection is not dropped by an edit: after the line it is on has gone, extending it indexes past the document.\<close>

lemma stale_selection_panics:
  "press_keys (\<lambda>_. True) plain_env [''down'', ''shift+right'', ''shift+left'', ''backspace'', ''shift+right'']
     (NewTextEditor (''a'' @ [CHR 0x0A] @ ''b'') [] 80 24) = Panic"
  by code_simp

text \<open>Typing under it leaves it behind the caret: extending it then jumps back.\<close>

lemma stale_selection_jumps:
  "(case press_keys (\<lambda>_. True) plain_env [''shift+right'', ''shift+left'', ''x'', ''y'', ''z'', ''shift+right''] (NewTextEditor ''ab'' [] 80 24)
    of Ret e \<Rightarrow> (ed_Lines e, CursorCol e) | Panic \<Rightarrow> ([], 0)) = ([''xyzab''], 1)"
  by code_simp

section \<open>One text\<close>

definition doc :: "TextEditor \<Rightarrow> nat list" where
  "doc e = runes (Content e)"

definition offset :: "TextEditor \<Rightarrow> EditorPos \<Rightarrow> nat" where
  "offset e p = length (text_before (ed_Lines e) p)"

text \<open>The runes from \<open>i\<close> to \<open>j\<close> are replaced by \<open>txt\<close> and the caret is behind it.\<close>

definition replaced :: "TextEditor \<Rightarrow> nat \<Rightarrow> nat list \<Rightarrow> nat \<Rightarrow> TextEditor \<Rightarrow> bool" where
  "replaced e i txt j e' \<longleftrightarrow> doc e' = take i (doc e) @ txt @ drop j (doc e) \<and> offset e' (caret e') = i + length txt"

lemma join_runes: "all_valid ls \<Longrightarrow> ValidString (concat (map (Cons (CHR 0x0A)) ls)) \<and> runes (concat (map (Cons (CHR 0x0A)) ls)) @ [10] = 10 # flat ls"
proof (induction ls)
  case (Cons l ls)
  have nl: "runes [CHR 0x0A] = [10]" "ValidString [CHR 0x0A]" by code_simp+
  then have l: "ValidString (CHR 0x0A # l)" "runes (CHR 0x0A # l) = 10 # runes l" using valid_append [OF nl(2), of l] Cons.prems by simp_all
  have c: "ValidString (concat (map (Cons (CHR 0x0A)) ls))" "runes (concat (map (Cons (CHR 0x0A)) ls)) @ [10] = 10 # flat ls" using Cons by simp_all
  show ?case using l c valid_append [OF l(1) c(1)] by simp
qed simp

lemma Content_Cons: "ed_Lines e = l # ls \<Longrightarrow> Content e = l @ concat (map (Cons (CHR 0x0A)) ls)"
proof -
  have "(@) [CHR 0x0A] = Cons (CHR 0x0A)" by (rule ext) simp
  then show "ed_Lines e = l # ls \<Longrightarrow> ?thesis" by (simp only: Content_def join_with_def list.case)
qed

lemma doc_flat: "all_valid (ed_Lines e) \<Longrightarrow> ed_Lines e \<noteq> [] \<Longrightarrow> doc e @ [10] = flat (ed_Lines e)"
  using join_runes [of "tl (ed_Lines e)"] by (cases "ed_Lines e") (auto simp: doc_def Content_Cons)

lemma doc_at:
  assumes "all_valid (ed_Lines e)" "in_doc (ed_Lines e) p"
  shows "text_before (ed_Lines e) p = take (offset e p) (doc e)" "text_after (ed_Lines e) p = drop (offset e p) (doc e) @ [10]" "offset e p \<le> length (doc e)"
proof -
  have f: "text_before (ed_Lines e) p @ text_after (ed_Lines e) p = doc e @ [10]"
    using before_after [OF assms(2)] doc_flat [OF assms(1) in_doc_ne [OF assms(2)]] by simp
  moreover obtain t where t: "text_after (ed_Lines e) p = t @ [10]"
    by (cases "drop (nat (pos_Row p) + 1) (ed_Lines e)" rule: rev_cases) (auto simp: text_after_def)
  ultimately have d: "doc e = text_before (ed_Lines e) p @ t" by simp
  then show "text_before (ed_Lines e) p = take (offset e p) (doc e)" "text_after (ed_Lines e) p = drop (offset e p) (doc e) @ [10]" "offset e p \<le> length (doc e)"
    using t by (simp_all add: offset_def)
qed

lemma edited_replaced:
  assumes v: "all_valid (ed_Lines e)" "in_doc (ed_Lines e) a" "in_doc (ed_Lines e) b" and ed: "edited e a txt b e'"
  shows "replaced e (offset e a) txt (offset e b) e'"
proof -
  have v': "all_valid (ed_Lines e')" "in_doc (ed_Lines e') (caret e')" using ed by (auto simp: edited_def)
  have t: "text_before (ed_Lines e') (caret e') = take (offset e a) (doc e) @ txt" "text_after (ed_Lines e') (caret e') = drop (offset e b) (doc e) @ [10]"
    using ed doc_at [OF v(1,2)] doc_at [OF v(1,3)] by (auto simp: edited_def)
  have "doc e' @ [10] = take (offset e a) (doc e) @ txt @ drop (offset e b) (doc e) @ [10]"
    using doc_flat [OF v'(1) in_doc_ne [OF v'(2)]] before_after [OF v'(2)] t by simp
  moreover have "offset e' (caret e') = offset e a + length txt" using t(1) doc_at(3) [OF v(1,2)] by (simp add: offset_def min_def)
  ultimately show ?thesis by (simp add: replaced_def)
qed

lemma left_offset: "in_doc (ed_Lines e) p \<Longrightarrow> left_of (ed_Lines e) p = Ret q \<Longrightarrow> offset e q = offset e p - 1"
proof -
  assume p: "in_doc (ed_Lines e) p" and q: "left_of (ed_Lines e) p = Ret q"
  obtain as x bs where x: "ed_Lines e = as @ x # bs" "p = pos (int (length as)) (pos_Col p)" "0 \<le> pos_Col p" "pos_Col p \<le> runeLen x"
    using in_doc_mid [OF p] by auto
  have r: "pos_Row p = int (length as)" using x(2) by (metis EditorPos.select_convs(1))
  show ?thesis
  proof (cases "pos_Col p > 0")
    case True
    then have "q = pos (int (length as)) (pos_Col p - 1)" using q r by (auto simp: left_of_def)
    then show ?thesis using x(1,4) x(2) True at_mid(1) [of as x bs "pos_Col p"] by (simp add: offset_def runeLen_runes nat_diff_distrib)
  next
    case False
    then have z: "pos_Col p = 0" using x(3) by simp
    show ?thesis
    proof (cases as rule: rev_cases)
      case Nil
      then have "q = p" using q False r by (simp add: left_of_def)
      then show ?thesis using x(1,2) z Nil at_mid(1) [of "[]" x bs 0] by (simp add: offset_def)
    next
      case (snoc as' y)
      have "q = pos (int (length as')) (runeLen y)" using q r False x(1) snoc at_mid(4) [of as' y "x # bs"] by (auto simp: left_of_def)
      then show ?thesis using x(1,2) z snoc at_mid(1) [of as' y "x # bs" "runeLen y"] at_mid(1) [of "as' @ [y]" x bs 0] by (simp add: offset_def runeLen_runes)
    qed
  qed
qed

lemma right_offset:
  assumes v: "all_valid (ed_Lines e)" and p: "in_doc (ed_Lines e) p" and q: "right_of (ed_Lines e) p = Ret q"
  shows "drop (offset e q) (doc e) = drop (offset e p + 1) (doc e)" "in_doc (ed_Lines e) q"
proof -
  show "in_doc (ed_Lines e) q" using right_of_in [OF p] q by (simp add: lands_def)
  obtain as x bs where x: "ed_Lines e = as @ x # bs" "p = pos (int (length as)) (pos_Col p)" "0 \<le> pos_Col p" "pos_Col p \<le> runeLen x"
    using in_doc_mid [OF p] by auto
  have r: "pos_Row p = int (length as)" using x(2) by (metis EditorPos.select_convs(1))
  show "drop (offset e q) (doc e) = drop (offset e p + 1) (doc e)"
  proof (cases "pos_Col p < runeLen x")
    case True
    then have "q = pos (int (length as)) (pos_Col p + 1)" using q r x(1) by (auto simp: right_of_def)
    then have "offset e q = offset e p + 1" using x True at_mid(1) [of as x bs "pos_Col p"] by (simp add: offset_def runeLen_runes nat_add_distrib)
    then show ?thesis by simp
  next
    case False
    then have c: "pos_Col p = runeLen x" using x(4) by simp
    show ?thesis
    proof (cases bs)
      case Nil
      then have "q = p" using q r x(1) False by (simp add: right_of_def)
      moreover have "text_after (ed_Lines e) p = [10]" using x(1,2) c Nil at_mid(2) [of as x "[]" "pos_Col p"] by (simp add: runeLen_runes)
      ultimately show ?thesis using doc_at(2,3) [OF v p] by simp
    next
      case (Cons y bs')
      have "q = pos (int (length (as @ [x]))) 0" using q r x(1) False Cons by (auto simp: right_of_def)
      then have "offset e q = offset e p + 1" using x(1,2) c Cons at_mid(1) [of "as @ [x]" y bs' 0] at_mid(1) [of as x bs "pos_Col p"]
        by (simp add: offset_def runeLen_runes)
      then show ?thesis by simp
    qed
  qed
qed

section \<open>Keys\<close>

lemma one_rune_key: "valid_rune r \<Longrightarrow> ascii k \<Longrightarrow> length k \<noteq> 1 \<Longrightarrow> encode_rune r \<noteq> k"
proof
  assume r: "valid_rune r" "ascii k" "length k \<noteq> 1" "encode_rune r = k"
  then have "bytes_of k = [r]" using runes_encode [of "[r]"] ascii_runes [of k] by simp
  then show False using r(3) bytes_of_simps(3) [of k] by simp
qed

lemma typed_key:
  assumes "valid_rune r" "32 \<le> r" "\<not> ed_ReadOnly e"
  shows "HandleKey ld env (encode_rune r) e = shown (clear_and_insert (encode_rune r) (e\<lparr>SaveErr := []\<rparr>))"
proof -
  have D: "RuneCountInString (encode_rune r) = 1" "fst (DecodeRune (encode_rune r)) = r"
    using runes_encode [of "[r]"] first_rune_encoded [OF assms(1), of "[]"] assms(1) by (simp_all add: RuneCountInString_def DecodeRune_def)
  note ne = one_rune_key [OF assms(1)]
  have s: "\<not> isSelectionKey (encode_rune r)" "encode_rune r \<notin> set [''ctrl+a'', ''ctrl+c'', ''ctrl+x'', ''ctrl+v'']"
    by (simp_all add: isSelectionKey_def ne)
  have m: "move_key ld (encode_rune r) (e\<lparr>SaveErr := [], ed_Sel := None\<rparr>) = None" by (simp add: move_key_def Let_def ne)
  have ek: "edit_key env (encode_rune r) (e\<lparr>SaveErr := []\<rparr>) = shown (clear_and_insert (encode_rune r) (e\<lparr>SaveErr := []\<rparr>))"
    using D assms(2,3) by (simp add: edit_key_def ne)
  show ?thesis using s m ek by (simp add: HandleKey_def Let_def del: set_simps)
qed

lemma named_keys:
  "HandleKey ld env ''enter'' e = edit_key env ''enter'' (e\<lparr>SaveErr := []\<rparr>)"
  "HandleKey ld env ''backspace'' e = edit_key env ''backspace'' (e\<lparr>SaveErr := []\<rparr>)"
  "HandleKey ld env ''delete'' e = edit_key env ''delete'' (e\<lparr>SaveErr := []\<rparr>)"
  "HandleKey ld env ''ctrl+x'' e = clipboard_key ''ctrl+x'' (e\<lparr>SaveErr := []\<rparr>)"
  "HandleKey ld env ''ctrl+c'' e = clipboard_key ''ctrl+c'' (e\<lparr>SaveErr := []\<rparr>)"
  by (simp_all add: HandleKey_def isSelectionKey_def move_key_def Let_def)

definition key_edits :: "TextEditor \<Rightarrow> nat \<Rightarrow> nat list \<Rightarrow> nat \<Rightarrow> key_result outcome \<Rightarrow> bool" where
  "key_edits e i txt j m \<longleftrightarrow> (\<exists>e'. m = Ret (e', False, False, NoCmd) \<and> replaced e i txt j e' \<and> ed_Dirty e')"

lemma replaced_cong: "ed_Lines e1 = ed_Lines e2 \<Longrightarrow> caret e1 = caret e2 \<Longrightarrow> replaced e i t j e1 = replaced e i t j e2"
  by (simp add: replaced_def doc_def Content_def offset_def)

lemma key_editsI:
  assumes "m = Ret e'" "replaced e i t j e'" "ed_Dirty e'"
  shows "key_edits e i t j (shown m)"
  using assms replaced_cong [of "ensureCursorVisible e'" e'] by (simp add: key_edits_def shown_def stays_def)

lemma edits_replaced:
  assumes v: "all_valid (ed_Lines e)" "in_doc (ed_Lines e) a" "in_doc (ed_Lines e) b" and m: "\<exists>e'. m = Ret e' \<and> edited e a txt b e' \<and> ed_Dirty e' \<and> sel e'"
  shows "key_edits e (offset e a) txt (offset e b) (shown m)"
  using m edited_replaced [OF v] key_editsI by blast

text \<open>What an edit replaces, in terms of the text.\<close>

lemma range_in:
  assumes ok: "editor_ok e" and ab: "range_of e = (a, b)"
  shows "in_doc (ed_Lines e) a" "in_doc (ed_Lines e) b" "\<not> selected e \<Longrightarrow> a = caret e \<and> b = caret e"
proof -
  have "in_doc (ed_Lines e) a \<and> in_doc (ed_Lines e) b \<and> (\<not> selected e \<longrightarrow> a = caret e \<and> b = caret e)"
  proof (cases "ed_Sel e")
    case None
    then show ?thesis using ok ab by (auto simp: editor_ok_def range_of_def)
  next
    case (Some s)
    have i: "in_doc (ed_Lines e) (sel_Anchor s)" "sel_Cursor s = caret e" "in_doc (ed_Lines e) (caret e)" using ok Some by (auto simp: editor_ok_def)
    have n: "Normalized s = (a, b)" using ab Some by (simp add: range_of_def)
    have "in_doc (ed_Lines e) (sel_Cursor s)" using i by simp
    note N = Normalized_in [OF i(1) this n]
    have "sel_IsEmpty s \<Longrightarrow> a = caret e \<and> b = caret e" using i n by (auto simp: sel_IsEmpty_def Normalized_def Let_def)
    then show ?thesis using N Some by (simp add: selected_def)
  qed
  then show "in_doc (ed_Lines e) a" "in_doc (ed_Lines e) b" "\<not> selected e \<Longrightarrow> a = caret e \<and> b = caret e" by auto
qed

lemma copied_text:
  assumes ok: "editor_ok e" "\<not> ed_ReadOnly e" and ab: "range_of e = (a, b)" and sel: "selected e"
  shows "editorExtractText (ed_Lines e) (ed_Sel e) = Ret (encode (take (offset e b - offset e a) (drop (offset e a) (doc e))))"
proof -
  have v: "all_valid (ed_Lines e)" using ok by (auto simp: editor_ok_def)
  note i = range_in [OF ok(1) ab]
  obtain s where s: "ed_Sel e = Some s" "\<not> sel_IsEmpty s" using sel by (auto simp: selected_def split: option.splits)
  have si: "in_doc (ed_Lines e) (sel_Anchor s)" "in_doc (ed_Lines e) (sel_Cursor s)" "Normalized s = (a, b)"
    using ok(1) s ab by (auto simp: editor_ok_def range_of_def)
  obtain t where t: "editorExtractText (ed_Lines e) (Some s) = Ret t" "ValidString t" "text_before (ed_Lines e) b = text_before (ed_Lines e) a @ runes t"
    using extracted [OF v s(2) si(3,1,2)] by blast
  have "take (offset e b) (doc e) = take (offset e a) (doc e) @ runes t" using t(3) doc_at(1) [OF v i(1)] doc_at(1) [OF v i(2)] by simp
  then have "drop (offset e a) (take (offset e b) (doc e)) = runes t" using doc_at(3) [OF v i(1)] by (simp add: min_def)
  then have "runes t = take (offset e b - offset e a) (drop (offset e a) (doc e))" by (simp add: drop_take)
  then show ?thesis using t(1,2) s(1) valid_encode(1) [OF t(2)] by simp
qed

lemma insert_edits_text:
  assumes ok: "editor_ok e" "\<not> ed_ReadOnly e" and ab: "range_of e = (a, b)" and t: "ValidString t"
  shows "key_edits e (offset e a) (runes t) (offset e b) (shown (clear_and_insert t e))"
  by (rule edits_replaced [OF _ range_in(1,2) [OF ok(1) ab]]) (use ok clear_and_insert_edits [OF ok ab t] in \<open>auto simp: editor_ok_def\<close>)

lemma enter_edits_text:
  assumes ok: "editor_ok e" "\<not> ed_ReadOnly e" and sel: "\<not> selected e"
  shows "key_edits e (offset e (caret e)) [10] (offset e (caret e)) (edit_key env ''enter'' e)"
proof -
  have v: "all_valid (ed_Lines e)" "in_doc (ed_Lines e) (caret e)" using ok by (auto simp: editor_ok_def)
  have "key_edits e (offset e (caret e)) [10] (offset e (caret e)) (shown (dirty (insertNewline e)))"
    by (rule edits_replaced [OF v(1,2,2) edits_dirty [OF insertNewline_edits [OF v]]])
  then show ?thesis using ok sel by (simp add: edit_key_def)
qed

lemma delete_edits_text:
  assumes ok: "editor_ok e" "\<not> ed_ReadOnly e" and ab: "range_of e = (a, b)"
  shows "key_edits e (if selected e then offset e a else offset e a - 1) [] (offset e b) (edit_key env ''backspace'' e)"
    "key_edits e (offset e a) [] (if selected e then offset e b else offset e a + 1) (edit_key env ''delete'' e)"
proof -
  have v: "all_valid (ed_Lines e)" "in_doc (ed_Lines e) (caret e)" using ok by (auto simp: editor_ok_def)
  note ri = range_in [OF ok(1) ab]
  obtain p q where pq: "left_of (ed_Lines e) (caret e) = Ret p" "right_of (ed_Lines e) (caret e) = Ret q" "in_doc (ed_Lines e) p"
    using left_of_in [OF v(2)] right_of_in [OF v(2)] by (auto simp: lands_def)
  note p = backspace_edits [OF v pq(1)] left_offset [OF v(2) pq(1)] and q = deleteChar_edits [OF v pq(2)] right_offset [OF v pq(2)]
  obtain e1 where e1: "edit_or_clear ed_backspace e = Ret e1" "if selected e then edited e a [] b e1 else edited e p [] (caret e) e1" "ed_Dirty e1"
    using edit_or_clear_edits [OF ok ab, of p "caret e" ed_backspace] p(1) by blast
  have "replaced e (if selected e then offset e a else offset e a - 1) [] (offset e b) e1"
    using e1(2) ri edited_replaced [OF v(1) ri(1,2)] edited_replaced [OF v(1) pq(3) v(2)] p(2) by (auto split: if_splits)
  then show "key_edits e (if selected e then offset e a else offset e a - 1) [] (offset e b) (edit_key env ''backspace'' e)"
    using key_editsI [OF e1(1) _ e1(3)] ok by (simp add: edit_key_def)
  obtain e2 where e2: "edit_or_clear deleteChar e = Ret e2" "if selected e then edited e a [] b e2 else edited e (caret e) [] q e2" "ed_Dirty e2"
    using edit_or_clear_edits [OF ok ab, of "caret e" q deleteChar] q(1) by blast
  have "replaced e (offset e a) [] (if selected e then offset e b else offset e a + 1) e2"
    using e2(2) ri edited_replaced [OF v(1) ri(1,2)] edited_replaced [OF v(1) v(2) q(3)] q(2) by (auto simp: replaced_def split: if_splits)
  then show "key_edits e (offset e a) [] (if selected e then offset e b else offset e a + 1) (edit_key env ''delete'' e)"
    using key_editsI [OF e2(1) _ e2(3)] ok by (simp add: edit_key_def)
qed

lemma paste_edits_text:
  assumes ok: "editor_ok e" "\<not> ed_ReadOnly e" and ab: "range_of e = (a, b)" and t: "ValidString t"
  shows "\<exists>e'. InsertMultiLine t e = Ret e' \<and> replaced e (offset e a) (breaks (runes t)) (offset e b) e'"
proof -
  have v: "all_valid (ed_Lines e)" using ok by (auto simp: editor_ok_def)
  show ?thesis using paste_edits [OF ok ab t] edited_replaced [OF v range_in(1,2) [OF ok(1) ab]] by blast
qed

lemma cut_edits_text:
  assumes ok: "editor_ok e" "\<not> ed_ReadOnly e" and ab: "range_of e = (a, b)" and sel: "selected e"
  shows "\<exists>e'. clipboard_key ''ctrl+x'' e = Ret (e', False, False, CopyCmd (encode (take (offset e b - offset e a) (drop (offset e a) (doc e)))))
      \<and> replaced e (offset e a) [] (offset e b) e'"
    "\<exists>e'. clipboard_key ''ctrl+c'' e = Ret (e', False, False, CopyCmd (encode (take (offset e b - offset e a) (drop (offset e a) (doc e))))) \<and> doc e' = doc e"
proof -
  have v: "all_valid (ed_Lines e)" using ok by (auto simp: editor_ok_def)
  note c = copied_text [OF ok ab sel]
  obtain e1 where e1: "clearSel e = Ret (e1, selected e)" "edited e a [] b e1" using clearSel_edits [OF ok ab] by blast
  then have d: "deleteSelection e = Ret e1" using sel by (auto simp: clearSel_def selected_def obind_eq_Ret split: option.splits if_splits)
  have "replaced e (offset e a) [] (offset e b) (ensureCursorVisible (e1\<lparr>ed_Dirty := True\<rparr>))"
    using edited_replaced [OF v range_in(1,2) [OF ok(1) ab] e1(2)] replaced_cong [of "ensureCursorVisible (e1\<lparr>ed_Dirty := True\<rparr>)" e1] by simp
  then show "\<exists>e'. clipboard_key ''ctrl+x'' e = Ret (e', False, False, CopyCmd (encode (take (offset e b - offset e a) (drop (offset e a) (doc e)))))
      \<and> replaced e (offset e a) [] (offset e b) e'" using c d ok sel by (simp add: clipboard_key_def)
  show "\<exists>e'. clipboard_key ''ctrl+c'' e = Ret (e', False, False, CopyCmd (encode (take (offset e b - offset e a) (drop (offset e a) (doc e))))) \<and> doc e' = doc e"
    using c sel by (simp add: clipboard_key_def doc_def Content_def)
qed

text \<open>The error line is no part of any of this.\<close>

lemma no_error_line:
  "editor_ok (e\<lparr>SaveErr := t\<rparr>) = editor_ok e" "range_of (e\<lparr>SaveErr := t\<rparr>) = range_of e" "selected (e\<lparr>SaveErr := t\<rparr>) = selected e"
  "doc (e\<lparr>SaveErr := t\<rparr>) = doc e" "offset (e\<lparr>SaveErr := t\<rparr>) = offset e" "key_edits (e\<lparr>SaveErr := t\<rparr>) i txt j = key_edits e i txt j"
  "replaced (e\<lparr>SaveErr := t\<rparr>) i txt j = replaced e i txt j" "ed_ReadOnly (e\<lparr>SaveErr := t\<rparr>) = ed_ReadOnly e" "caret (e\<lparr>SaveErr := t\<rparr>) = caret e"
  by (simp_all add: editor_ok_def range_of_def selected_def doc_def Content_def offset_def key_edits_def replaced_def fun_eq_iff split: option.split)

section \<open>Properties\<close>




definition cut_sample :: TextEditor where
  "cut_sample = (NewTextEditor (''ab'' @ [CHR 0x0A] @ ''cd'') [] 80 24)
     \<lparr>CursorRow := 1, CursorCol := 1, ed_Sel := Some \<lparr>sel_Anchor = pos 0 1, sel_Cursor = pos 1 1\<rparr>\<rparr>"


section \<open>Rows\<close>

definition row_text :: "nat list \<Rightarrow> visualRow \<Rightarrow> nat list" where
  "row_text rs vr = take (nat (vr_End vr - vr_Start vr)) (drop (nat (vr_Start vr)) rs)"

lemma wrap_rows_text: "w \<ge> 1 \<Longrightarrow> 0 \<le> s \<Longrightarrow> rl = int (length rs) \<Longrightarrow> concat (map (row_text rs) (wrap_rows i s rl w)) = drop (nat s) rs"
proof (induction i s rl w rule: wrap_rows.induct)
  case (1 i s rl w)
  show ?case
  proof (cases "s < rl")
    case True
    have n: "nat (s + w) = nat w + nat s" using 1(2,3) by (simp add: nat_add_distrib)
    have "take (nat (min (s + w) rl - s)) (drop (nat s) rs) = take (nat w) (drop (nat s) rs)"
      using 1(2-4) True by (cases "s + w \<le> rl") (simp_all add: min_def take_all_iff nat_le_iff)
    moreover have "concat (map (row_text rs) (wrap_rows i (s + w) rl w)) = drop (nat (s + w)) rs" using 1 True by simp
    ultimately show ?thesis using True 1(2) n by (subst wrap_rows.simps) (simp add: row_text_def flip: drop_drop)
  next
    case False
    then show ?thesis using 1(4) by (subst wrap_rows.simps) simp
  qed
qed

lemma rows_of_text: "concat (map (row_text (runes (ed_Lines e ! r))) (rows_of e w r)) = runes (ed_Lines e ! r)"
proof (cases "SoftWrap e" "ed_Lines e ! r" rule: row_cases)
  case 1
  then show ?thesis by (simp add: rows_of_def line_rows_plain row_text_def runeLen_runes)
next
  case 2
  have "concat (map (row_text (runes (ed_Lines e ! r))) (wrap_rows r 0 (runeLen (ed_Lines e ! r)) (max 1 w))) = runes (ed_Lines e ! r)"
    using wrap_rows_text [of "max 1 w" 0 "runeLen (ed_Lines e ! r)" "runes (ed_Lines e ! r)" r] by (simp add: runeLen_runes)
  then show ?thesis using 2 by (simp add: rows_of_def line_rows_def Let_def)
qed

lemma rows_filter:
  assumes "r < length (ed_Lines e)"
  shows "filter (\<lambda>vr. vr_Logical vr = r) (visualLayout e w) = rows_of e w r"
proof -
  have "filter (\<lambda>vr. vr_Logical vr = r) (concat (map (rows_of e w) is)) = []" if "r \<notin> set is" for "is"
    using that rows_of_in by (fastforce simp: filter_empty_conv)
  moreover have "filter (\<lambda>vr. vr_Logical vr = r) (rows_of e w r) = rows_of e w r" using rows_of_in by (auto simp: filter_id_conv)
  ultimately show ?thesis using visualLayout_split [OF assms, of w] by simp
qed

lemma unwrapped_row:
  assumes "\<not> SoftWrap e" "in_doc (ed_Lines e) (caret e)"
  shows "int (cursorVisualRow e (visualLayout e w)) = CursorRow e"
proof -
  let ?l = "visualLayout e w"
  have l: "?l = map (\<lambda>i. \<lparr>vr_Logical = i, vr_Start = 0, vr_End = runeLen (ed_Lines e ! i)\<rparr>) [0..<length (ed_Lines e)]"
    using assms(1) by (simp add: visualLayout_def line_rows_plain concat_map_singleton)
  have "nat (CursorRow e) < length ?l \<and> owns_cursor e ?l (nat (CursorRow e))" using assms(2) by (auto simp: l owns_cursor_def Let_def in_doc_def)
  then have "cursorVisualRow e ?l = nat (CursorRow e)" using owner_unique [OF assms(2), of w] cursorVisualRow_owner [OF assms(2), of w] by blast
  then show ?thesis using assms(2) by (simp add: in_doc_def)
qed



end
