(* ===== verification/Spec2Isabelle.thy ===== *)
theory Spec2Isabelle
  imports Ring_Buffer Layout_Json Session Event_Props Work_Props Hook_Props Hook_Spool Hold_Props Admission_Props Parking
    Token Frame_Props Task_Props Text_Safe Keymap_Web Client_Grace Work_Settle Sync_Props Editor_Run
begin

text \<open>
  Quil, a terminal multiplexer for coding agents: a daemon (\<open>cmd/quild\<close>, \<open>internal/daemon\<close>) owns projects, tabs
  and panes and the processes behind the panes; terminal clients (\<open>cmd/quil\<close>, \<open>internal/tui\<close>), a web gateway
  and a tool bridge attach to it over one framed JSON protocol (\<open>internal/ipc\<close>). Agents report what they do
  through hooks that append to spool files; the daemon turns the reports into notifications and a work
  state; panes delegate tasks to each other. This development models the parts of that system that are
  decided by the program's own code, as functions over explicit state, and proves what makes each correct.

  \<^bold>\<open>How Go is modelled.\<close> A struct is a record or a single-constructor datatype, an enumeration a datatype, a method
  a function that returns the updated state. A function that may dereference nil or index out of range
  returns an \<open>outcome\<close> (\<open>Quil_Prelude\<close>), so that \<open>it never panics\<close> is a theorem. A mutex is the atomicity of one
  operation: everything done under one lock is one function, and a theorem about a component quantifies over
  every order of those functions. A timer is an operation that may run at any time, also after it was
  stopped. Integers are machine words or integers with the wrap-around written out where it can matter
  (generation counters, agent counts, backlog ages); where a Go \<open>int\<close> is a length or a screen coordinate it is
  unbounded, and a bound that a proof needs is a hypothesis. Strings are byte strings (\<open>Utf8\<close> decodes runes as
  Go does), \<open>float64\<close> is exact arithmetic followed by IEEE rounding (\<open>Go_Float\<close>). Maps are functions, or
  association lists where the code's iteration order or size matters. What is not under the repository
  (decoders of \<open>encoding/json\<close> and TOML, \<open>unicode.ToLower\<close> outside ASCII, minted identifiers, clocks, random
  bytes) is an argument of the definitions that use it.

  \<^bold>\<open>Shared theories.\<close> \<open>Quil_Prelude\<close> (outcomes, the last elements of a list, list edits, decimal printing), \<open>Go_Lib\<close>
  and \<open>Go_Strings\<close> (string maps, 64-bit arithmetic, the functions of \<open>strings\<close>), \<open>Utf8\<close>, \<open>Base64\<close>, \<open>Json_Scan\<close> (the
  scanner behind \<open>json.Valid\<close>), \<open>Go_Float\<close>, \<open>Transition\<close> (the locale that turns a step invariant into an
  invariant of every run; the components with a step relation interpret it), \<open>Membership\<close> (the two-sided
  parent and child link, used for tabs and panes and for projects and tabs).

  \<^bold>\<open>The daemon's store.\<close> \<open>Ring_Buffer\<close> is \<open>internal/ringbuf\<close>, the bounded output log of a pane: after any history its
  contents are the last bytes written, and equal generations mean equal contents. \<open>Layout_Tree\<close> and
  \<open>Layout_Json\<close> are \<open>internal/layouttree\<close>, the binary split tree of a tab and its stored text: every edit keeps a
  valid tree with the right leaves, \<open>Normalize\<close> draws exactly the listed panes, parsing reads back what was
  written up to the decoder's nesting limit of 10000. \<open>Session_State\<close>, \<open>Session_Layout\<close>, \<open>Session_Panes\<close>, \<open>Session_Tabs\<close> and
  \<open>Session_Projects\<close> are \<open>internal/daemon/session.go\<close>, \<open>layout_tree.go\<close> and \<open>project.go\<close>: one definition per locked
  operation. \<open>Session_Inv\<close> and \<open>Session_Order\<close> state the invariant (membership on both sides, one global order
  that restricts to every project's own, trees over the listed panes, a selection that exists), \<open>Session\<close> proves
  that every reachable store has it, that no operation on such a store panics, that a snapshot restores to
  the store, and that a merge loses nothing.

  \<^bold>\<open>What agents do.\<close> \<open>Hook_Spool\<close> and \<open>Hook_Ingest\<close> are \<open>internal/hookevents/spool.go\<close> and \<open>ingest.go\<close>: a complete line is
  read once and in order whatever the writer and the reader interleave; the coalescer loses and invents
  nothing, and a pane passes at most 100 events in two seconds (\<open>Hook_Props\<close>). \<open>Work_Ledger\<close> is \<open>ledger.go\<close>, \<open>workstate.go\<close>
  and the client's own copy of the derivation (\<open>internal/tui/workstate.go\<close>): the two agree on every event
  sequence, and the ledger refines one counter per agent (\<open>Work_Props\<close>). \<open>Work_Settle\<close> is
  \<open>internal/daemon/workstate.go\<close>, the settle window that makes a finished turn of an idle ledger, and the
  subscribers that wait for it. \<open>Event_Queue\<close> is \<open>internal/daemon/event.go\<close>, the notification queue with its watchers:
  it refines the unbounded list of the last event of every card (\<open>Event_Props\<close>). \<open>Task_Board\<close> is \<open>task.go\<close>, tasks that
  one pane delegates to another: a task ends once under every interleaving (\<open>Task_Props\<close>).

  \<^bold>\<open>Clients of the daemon.\<close> \<open>Ipc_Protocol\<close> lists the message types; \<open>Frame\<close> is the hand-written encoder and decoder of the
  hot frames (\<open>fastframe.go\<close>, the frame functions of \<open>protocol.go\<close>): streams read back, nothing in a payload can
  forge a member of its envelope, and the decoder accepts one exact shape (\<open>Frame_Props\<close>). \<open>Rights\<close> is
  \<open>internal/clientauth/rights.go\<close>, \<open>Token\<close> is \<open>token.go\<close>, \<open>Admission\<close> and \<open>Parking\<close> are the gate of \<open>internal/daemon/rights.go\<close>
  with its audit and its cap of four waiting requests. \<open>Output_Hold\<close> is \<open>outputhold.go\<close> and the flush of \<open>daemon.go\<close>: a
  client that attaches while panes write has every byte exactly once and in order (\<open>Hold_Props\<close>).
  \<open>Client_Registry\<close> is \<open>clients.go\<close>, the election of the one client that sizes the panes, its grace for a lost link
  and its reserve across a restart (\<open>Client_Props\<close>, \<open>Client_Grace\<close>). \<open>Text_Safe\<close> is \<open>internal/textsafe\<close>, the filter of
  text from other parties.

  \<^bold>\<open>The terminal client.\<close> \<open>Keymap_Chord\<close>, \<open>Keymap_Build\<close> and \<open>Keymap_Match\<close> are \<open>internal/keymap\<close>: key presses, binding specs, the
  layering and shadowing rules, the lookups, and the prefix machine of \<open>internal/tui/model.go\<close>; \<open>Keymap_Web\<close> is the
  browser's view of it. \<open>Chord_Props\<close> and \<open>Keymap_Props\<close> show that specs print and parse, which alternatives survive,
  and that a surviving sequence fires exactly when it is typed. \<open>Layout_View\<close> is \<open>internal/tui/layout.go\<close>, the tree a
  client draws, with its cells; \<open>Layout_Arrange\<close> is \<open>arrange.go\<close>, \<open>panedrag.go\<close> and the split-line drag; \<open>Layout_Tab\<close> is
  \<open>tab.go\<close> and the install step of \<open>arrange_apply.go\<close>. \<open>Layout_Geometry\<close> shows that a tree that passes the room check
  tiles its tab and that a drag is drawn within a cell of the pointer; \<open>Layout_Edits\<close> that no arrangement
  or drop panics or loses a pane; \<open>Layout_Refine\<close> that the client's edits are the daemon's edits of the stored
  tree and that a tree one client sends is the tree another adopts. \<open>Layout_Sync\<close> is \<open>layoutsync.go\<close>, several clients
  on one tab: revisions, writes in flight, adoption, reservations; \<open>Sync_Props\<close> shows that under every
  interleaving with the daemon, lost links and restarts the clients that stop editing come to its tree
  after a bounded number of messages.

  \<open>Editor\<close> is the text editor of the notes, the plugin files and the log views (\<open>editor.go\<close>, \<open>editor_selection.go\<close>), on
  UTF-8 lines; \<open>Editor_Props\<close> has its positions, wrapped rows and single edits, \<open>Editor_Keys\<close> what every key and
  paste keeps, and \<open>Editor_Run\<close> shows that a session never leaves the document, that the editor is the plain
  editor of one string, and that the rows it draws show the document and the caret once.

  \<^bold>\<open>How the parts fit.\<close> \<open>Session_Layout\<close> calls \<open>Layout_Tree\<close> and the session store composes it; \<open>Layout_Refine\<close> ties the client's
  tree to it, and \<open>Sync_Props\<close> runs clients against the daemon's compare-and-store. \<open>Parking\<close> composes \<open>Admission\<close> with the watchers of \<open>Event_Queue\<close>, since the cap counts both.
  \<open>Work_Settle\<close> runs over \<open>Work_Ledger\<close>. \<open>Output_Hold\<close> carries the frames of a pane's ring buffer.

  \<^bold>\<open>Bounds and fuel.\<close> No definition takes fuel: every loop is structural or terminates by a stated measure. The bounds
  of the code are its own constants: 10000 nested JSON values, four waiting requests, the queue's and the
  spool's caps, the restart reserve. Hypotheses of the form \<open>n < 2 ^ 53\<close> keep screen sizes and pane counts in
  the range where \<open>float64\<close> holds integers exactly.

  \<^bold>\<open>Not modelled.\<close> Process, file, socket and terminal I/O and what drives it (\<open>daemon.go\<close>'s handlers between two store
  operations, pseudo terminals, git, docker and sbx, installers and updaters); rendering and the framework's
  message loop (\<open>internal/tui/model.go\<close>, dialogs, sidebar); the third-party terminal emulator behind
  \<open>pane.go\<close>; cryptographic login (\<open>scram.go\<close>, the token store); the web gateway's server. Their outcomes depend on
  code outside the repository or on timing, and no theorem here speaks of them. Inside modelled files, what is
  left out is said at the head of each theory: log lines, error texts, wake-up signals and caches.
\<close>

end
